(* ===== verification/Prelude.thy ===== *)
theory Prelude
  imports Main "HOL-Library.Word"
begin

text \<open>
  The shared layer of the development: machine-integer synonyms, the byte view of
  \<^typ>\<open>char\<close>, results of fallible code as sums with the error on the left, and the
  interfaces that several components implement.

  Unsigned 64-bit quantities of the source are \<^typ>\<open>64 word\<close>; a sum that the source guards
  against wrap-around is proved not to wrap (the lemmas on \<open>unat\<close> below carry those proofs).
  Strings of the source are byte strings, and a \<^typ>\<open>char\<close> is exactly one byte, so
  \<^typ>\<open>string\<close> is the model of \<open>std::string\<close>.
\<close>

named_theorems wordarith \<open>facts that move 64-bit unsigned arithmetic to the naturals\<close>
named_theorems charclass \<open>definitions of the byte classes of the lexical components\<close>

type_synonym u8 = "8 word"
type_synonym u16 = "16 word"
type_synonym u32 = "32 word"
type_synonym u64 = "64 word"

abbreviation uint64_max :: u64 where
  "uint64_max \<equiv> 18446744073709551615"

definition int64_max :: int where
  "int64_max = 9223372036854775807"

definition int64_min :: int where
  "int64_min = - 9223372036854775808"

subsection \<open>Unsigned words\<close>

lemma unat_u64_le_max [simp]: "(w::u64) \<le> uint64_max"
proof -
  have "uint64_max = (- 1 :: u64)" by simp
  then show ?thesis by (metis word_n1_ge)
qed

lemma unat_sub_le [wordarith]: "(b::u64) \<le> a \<Longrightarrow> unat (a - b) = unat a - unat b"
  by (rule unat_sub)

lemma guarded_add [wordarith]:
  assumes "(a::u64) \<le> l" and "b \<le> l - a"
  shows "unat (a + b) = unat a + unat b" and "a + b \<le> l" and "a \<le> a + b"
proof -
  have b: "unat b \<le> unat l - unat a"
    using assms by (metis unat_sub_le word_le_nat_alt)
  have a: "unat a \<le> unat l" using assms(1) by (simp add: word_le_nat_alt)
  have "unat l < 2 ^ LENGTH(64)" by (rule unsigned_less)
  then have "unat a + unat b < 2 ^ LENGTH(64)" using a b by linarith
  then show sum: "unat (a + b) = unat a + unat b" by (rule unat_add_lem [THEN iffD1])
  show "a + b \<le> l" using a b sum by (simp add: word_le_nat_alt)
  show "a \<le> a + b" using sum by (simp add: word_le_nat_alt)
qed

lemma succ_below [wordarith]:
  assumes "(a::u64) < l"
  shows "unat (a + 1) = unat a + 1" and "a + 1 \<le> l" and "a \<le> a + 1"
proof -
  have a: "unat a < unat l" using assms by (simp add: word_less_nat_alt)
  have "unat l < 2 ^ LENGTH(64)" by (rule unsigned_less)
  then have "unat a + unat (1::u64) < 2 ^ LENGTH(64)" using a by simp
  then have "unat (a + 1) = unat a + unat (1::u64)" by (rule unat_add_lem [THEN iffD1])
  then show sum: "unat (a + 1) = unat a + 1" by simp
  show "a + 1 \<le> l" using a sum by (simp add: word_le_nat_alt)
  show "a \<le> a + 1" using sum by (simp add: word_le_nat_alt)
qed

lemma unat_min [wordarith]: "unat (min a b :: u64) = min (unat a) (unat b)"
  by (simp add: min_def word_le_nat_alt)

lemma unat_max [wordarith]: "unat (max a b :: u64) = max (unat a) (unat b)"
  by (simp add: max_def word_le_nat_alt)

subsection \<open>Bytes\<close>

definition byte :: "char \<Rightarrow> nat" where
  "byte c = of_char c"

definition in_range :: "char \<Rightarrow> char \<Rightarrow> char \<Rightarrow> bool" where
  "in_range lo hi c \<longleftrightarrow> byte lo \<le> byte c \<and> byte c \<le> byte hi"

lemma byte_less_256 [simp]: "byte c < 256"
  by (simp add: byte_def)

text \<open>Low bits below a shifted value.\<close>

lemma or_low: "x < 2 ^ n \<Longrightarrow> or (push_bit n (a::nat)) x = a * 2 ^ n + x"
proof -
  assume "x < 2 ^ n"
  then have "x = take_bit n x" by (simp add: take_bit_nat_eq_self)
  moreover have "or (push_bit n a) (take_bit n x) = push_bit n a + take_bit n x"
    by (rule disjunctive_add [symmetric]) (auto simp: bit_simps)
  ultimately show ?thesis by (simp add: push_bit_eq_mult)
qed

lemma byte_char_of: "n < 256 \<Longrightarrow> byte (char_of n) = n"
  by (simp add: byte_def)

lemma byte_inject [simp]: "byte c = byte d \<longleftrightarrow> c = d"
  by (simp add: byte_def)

subsection \<open>Decimal digits\<close>

text \<open>Numbers in decimal notation, as \<open>std::to_string\<close> writes them.\<close>

definition digit_char :: "nat \<Rightarrow> char" where
  "digit_char d = char_of (byte CHR ''0'' + d)"

fun decimal :: "nat \<Rightarrow> string" where
  "decimal n = (if n < 10 then [digit_char n] else decimal (n div 10) @ [digit_char (n mod 10)])"

declare decimal.simps [simp del]

lemma byte_digits: "byte CHR ''0'' = 48" "byte CHR ''1'' = 49" "byte CHR ''9'' = 57"
  by code_simp+

lemma byte_digit_char: "d < 10 \<Longrightarrow> byte (digit_char d) = 48 + d"
  by (simp add: digit_char_def byte_digits) (simp add: byte_def)

lemma digit_char_of_byte: "in_range CHR ''0'' CHR ''9'' c \<Longrightarrow> digit_char (byte c - 48) = c"
  by (simp add: in_range_def byte_digits digit_char_def) (simp add: byte_def)

subsection \<open>Results\<close>

text \<open>
  A call that may throw is a sum; \<open>and_then\<close> runs the continuation on a normal return and
  passes an error through, as an exception does.
\<close>

definition and_then :: "'e + 'a \<Rightarrow> ('a \<Rightarrow> 'e + 'b) \<Rightarrow> 'e + 'b" where
  "and_then r k = (case r of Inl e \<Rightarrow> Inl e | Inr x \<Rightarrow> k x)"

lemma and_then_simps [simp]:
  "and_then (Inl e) k = Inl e"
  "and_then (Inr x) k = k x"
  by (simp_all add: and_then_def)

lemma and_then_Inr [simp]: "and_then r Inr = r"
  by (cases r) simp_all

lemma and_then_assoc: "and_then (and_then r k) l = and_then r (\<lambda>x. and_then (k x) l)"
  by (cases r) simp_all

lemma and_then_eq_Inr [simp]:
  "and_then r k = Inr y \<longleftrightarrow> (\<exists>x. r = Inr x \<and> k x = Inr y)"
  by (cases r) auto

lemma and_then_eq_Inl:
  "and_then r k = Inl e \<longleftrightarrow> r = Inl e \<or> (\<exists>x. r = Inr x \<and> k x = Inl e)"
  by (cases r) auto

lemma and_then_cong [fundef_cong]:
  "r = r' \<Longrightarrow> (\<And>x. r' = Inr x \<Longrightarrow> k x = k' x) \<Longrightarrow> and_then r k = and_then r' k'"
  by (cases r') auto

definition guard :: "'e \<Rightarrow> bool \<Rightarrow> 'e + unit" where
  "guard e ok = (if ok then Inr () else Inl e)"

lemma guard_simps [simp]:
  "guard e ok = Inr u \<longleftrightarrow> ok"
  "guard e ok = Inl e' \<longleftrightarrow> \<not> ok \<and> e' = e"
  by (auto simp: guard_def)

subsection \<open>Interfaces: transition systems with an invariant and with a monotone measure\<close>

text \<open>
  Every stateful component is a set of initial states and a step relation. What its clients
  rely on is an invariant of the reachable states, and, for components whose counters are
  never reset, a preorder along every run.
\<close>

locale transition_system =
  fixes init :: "'s \<Rightarrow> bool"
    and step :: "'s \<Rightarrow> 's \<Rightarrow> bool"
begin

inductive reachable :: "'s \<Rightarrow> bool" where
  initial: "init s \<Longrightarrow> reachable s"
| next_state: "reachable s \<Longrightarrow> step s t \<Longrightarrow> reachable t"

lemma reachable_run: "reachable s \<Longrightarrow> step\<^sup>*\<^sup>* s t \<Longrightarrow> reachable t"
  by (rotate_tac 1, induction rule: rtranclp_induct) (auto intro: next_state)

end

locale invariant_system = transition_system init step
  for init :: "'s \<Rightarrow> bool" and step :: "'s \<Rightarrow> 's \<Rightarrow> bool" +
  fixes invar :: "'s \<Rightarrow> bool"
  assumes invar_init: "init s \<Longrightarrow> invar s"
    and invar_step: "invar s \<Longrightarrow> step s t \<Longrightarrow> invar t"
begin

lemma reachable_invar: "reachable s \<Longrightarrow> invar s"
  by (induction rule: reachable.induct) (auto intro: invar_init invar_step)

lemma run_invar: "invar s \<Longrightarrow> step\<^sup>*\<^sup>* s t \<Longrightarrow> invar t"
  by (rotate_tac 1, induction rule: rtranclp_induct) (auto intro: invar_step)

end

locale monotone_system = transition_system init step
  for init :: "'s \<Rightarrow> bool" and step :: "'s \<Rightarrow> 's \<Rightarrow> bool" +
  fixes below :: "'s \<Rightarrow> 's \<Rightarrow> bool"
  assumes below_refl: "below s s"
    and below_trans: "below s t \<Longrightarrow> below t u \<Longrightarrow> below s u"
    and below_step: "step s t \<Longrightarrow> below s t"
begin

lemma run_below: "step\<^sup>*\<^sup>* s t \<Longrightarrow> below s t"
  by (induction rule: rtranclp_induct) (auto intro: below_refl below_trans below_step)

end

text \<open>
  A system whose states only move up in a preorder, as long as they satisfy the invariant.
\<close>

locale evolving_system = invariant_system init step invar
  for init :: "'s \<Rightarrow> bool" and step :: "'s \<Rightarrow> 's \<Rightarrow> bool" and invar :: "'s \<Rightarrow> bool" +
  fixes below :: "'s \<Rightarrow> 's \<Rightarrow> bool"
  assumes evolve_refl: "below s s"
    and evolve_trans: "below s t \<Longrightarrow> below t u \<Longrightarrow> below s u"
    and evolve_step: "invar s \<Longrightarrow> step s t \<Longrightarrow> below s t"
begin

lemma run_evolves: "invar s \<Longrightarrow> step\<^sup>*\<^sup>* s t \<Longrightarrow> below s t"
proof (rotate_tac 1, induction rule: rtranclp_induct)
  case (step t u)
  then show ?case using run_invar evolve_step evolve_trans by blast
qed (rule evolve_refl)

lemma reachable_evolves: "reachable s \<Longrightarrow> step\<^sup>*\<^sup>* s t \<Longrightarrow> below s t"
  using reachable_invar run_evolves by blast

end

end
