(* ===== verification/Scan_Resources.thy ===== *)
theory Scan_Resources
  imports Prelude
begin

text \<open>
  Scan-owned resource accounting: \<open>src/src/runtime/policy/scan_resource_accounting.cpp\<close> and its
  header. The state of \<open>ScanResourceAccounting\<close> is the record \<open>accounting\<close>; each public method
  is a function from that state to a result and the next state, because a method that throws has
  already changed the object (\<open>Fail\<close> makes it terminal before the throw).

  Counters and limits are 64-bit words. A \<open>steady_clock\<close> time point is its signed nanosecond
  count since the epoch, an \<^typ>\<open>int\<close> between \<^term>\<open>int64_min\<close> and \<^term>\<open>int64_max\<close>.
\<close>

subsection \<open>Data\<close>

datatype scan_resource_error = ScanResourceError (Field: string) (SafeMessage: string)

record page_limits =
  pl_request_attempts :: u64
  pl_header_bytes :: u64
  pl_wire_response_bytes :: u64
  pl_decompressed_response_bytes :: u64
  pl_decoded_records :: u64
  pl_decoded_memory_bytes :: u64
  pl_active_requests :: u64
  pl_serialized_request_body_bytes :: u64

record scan_limits =
  sl_request_attempts :: u64
  sl_pages :: u64
  sl_header_bytes :: u64
  sl_wire_response_bytes :: u64
  sl_decompressed_response_bytes :: u64
  sl_decoded_records :: u64
  sl_retained_decoded_memory_bytes :: u64
  sl_max_wall_milliseconds :: u64
  sl_active_requests :: u64
  sl_serialized_request_body_bytes :: u64
  sl_cumulative_waiting_milliseconds :: u64
  sl_cumulative_retry_waiting_milliseconds :: u64
  sl_cumulative_rate_limit_waiting_milliseconds :: u64
  sl_cumulative_remote_transport_milliseconds :: u64

record resource_profile =
  rp_page :: page_limits
  rp_scan :: scan_limits

record allowance =
  al_header_bytes :: u64
  al_wire_response_bytes :: u64
  al_decompressed_response_bytes :: u64
  al_decoded_records :: u64
  al_decoded_memory_bytes :: u64
  al_serialized_request_body_bytes :: u64
  al_deadline :: int

record transport_usage =
  tu_header_bytes :: u64
  tu_wire_response_bytes :: u64
  tu_decompressed_response_bytes :: u64

record decoded_usage =
  du_decoded_records :: u64
  du_decoded_memory_bytes :: u64

record counters =
  ct_request_attempts :: u64
  ct_pages :: u64
  ct_header_bytes :: u64
  ct_wire_response_bytes :: u64
  ct_decompressed_response_bytes :: u64
  ct_decoded_records :: u64
  ct_retained_decoded_memory_bytes :: u64
  ct_peak_decoded_memory_bytes :: u64
  ct_active_requests :: u64
  ct_serialized_request_body_bytes :: u64
  ct_cumulative_waiting_milliseconds :: u64
  ct_cumulative_retry_waiting_milliseconds :: u64
  ct_cumulative_rate_limit_waiting_milliseconds :: u64
  ct_cumulative_remote_transport_milliseconds :: u64
  ct_cumulative_admission_waiting_milliseconds :: u64

datatype scan_state =
  READY | STEP_ACTIVE | REQUEST_ACTIVE | REQUEST_BODY_COMMITTED | TRANSPORT_COMMITTED
  | PAGE_DECODED | EXHAUSTED | FAILED

record accounting =
  ac_profile :: resource_profile
  ac_counters :: counters
  ac_state :: scan_state
  ac_deadline_started :: bool
  ac_deadline :: int
  ac_active_allowance :: allowance
  ac_current_step_attempts :: u64
  ac_current_step_page_committed :: bool

type_synonym 'a outcome = "(scan_resource_error + 'a) \<times> accounting"

subsection \<open>Checked arithmetic\<close>

definition profile_error :: scan_resource_error where
  "profile_error = ScanResourceError ''resource_profile'' ''scan resource profile is invalid''"

definition Remaining :: "u64 \<Rightarrow> u64 \<Rightarrow> scan_resource_error + u64" where
  "Remaining limit used = (if used > limit then Inl profile_error else Inr (limit - used))"

definition AddChecked :: "u64 \<Rightarrow> u64 \<Rightarrow> u64 \<Rightarrow> scan_resource_error + u64" where
  "AddChecked current amount limit =
     (if current > limit \<or> amount > limit - current \<or> amount > uint64_max - current
      then Inl (ScanResourceError ''resource_accounting'' ''scan resource accounting overflowed'')
      else Inr (current + amount))"

definition RequireWithin :: "u64 \<Rightarrow> u64 \<Rightarrow> string \<Rightarrow> scan_resource_error + unit" where
  "RequireWithin used allowed field =
     (if used > allowed
      then Inl (ScanResourceError field ''page exceeded its resource allowance'')
      else Inr ())"

text \<open>
  \<open>steady_clock::duration\<close> is a signed 64-bit count of nanoseconds, so \<open>duration::max()\<close> is
  \<^term>\<open>int64_max\<close> and the largest representable whole number of milliseconds is its quotient.
\<close>

definition nanoseconds_per_millisecond :: int where
  "nanoseconds_per_millisecond = 1000000"

definition max_clock_milliseconds :: int where
  "max_clock_milliseconds = int64_max div nanoseconds_per_millisecond"

definition ValidateProfile :: "resource_profile \<Rightarrow> scan_resource_error + unit" where
  "ValidateProfile profile =
     (let page = rp_page profile; scan = rp_scan profile in
      if pl_request_attempts page = 0 \<or> pl_request_attempts page > 3 \<or> pl_active_requests page \<noteq> 1 \<or>
         sl_active_requests scan \<noteq> 1 \<or> sl_request_attempts scan < sl_pages scan \<or>
         sl_request_attempts scan > 96 \<or>
         pl_header_bytes page = 0 \<or> pl_wire_response_bytes page = 0 \<or>
         pl_decompressed_response_bytes page = 0 \<or>
         pl_decoded_records page = 0 \<or> pl_decoded_memory_bytes page = 0 \<or>
         sl_request_attempts scan = 0 \<or> sl_pages scan = 0 \<or>
         sl_header_bytes scan = 0 \<or> sl_wire_response_bytes scan = 0 \<or>
         sl_decompressed_response_bytes scan = 0 \<or>
         sl_decoded_records scan = 0 \<or> sl_retained_decoded_memory_bytes scan = 0 \<or>
         sl_max_wall_milliseconds scan = 0 \<or>
         ((pl_serialized_request_body_bytes page = 0) \<noteq> (sl_serialized_request_body_bytes scan = 0)) \<or>
         sl_cumulative_retry_waiting_milliseconds scan > sl_cumulative_waiting_milliseconds scan \<or>
         sl_cumulative_rate_limit_waiting_milliseconds scan > sl_cumulative_waiting_milliseconds scan
      then Inl profile_error
      else if uint (sl_max_wall_milliseconds scan) > int64_max \<or> max_clock_milliseconds \<le> 0 \<or>
              uint (sl_max_wall_milliseconds scan) > max_clock_milliseconds
      then Inl profile_error
      else Inr ())"

subsection \<open>Construction and failure\<close>

definition zero_counters :: counters where
  "zero_counters = \<lparr>ct_request_attempts = 0, ct_pages = 0, ct_header_bytes = 0,
     ct_wire_response_bytes = 0, ct_decompressed_response_bytes = 0, ct_decoded_records = 0,
     ct_retained_decoded_memory_bytes = 0, ct_peak_decoded_memory_bytes = 0,
     ct_active_requests = 0, ct_serialized_request_body_bytes = 0,
     ct_cumulative_waiting_milliseconds = 0, ct_cumulative_retry_waiting_milliseconds = 0,
     ct_cumulative_rate_limit_waiting_milliseconds = 0,
     ct_cumulative_remote_transport_milliseconds = 0,
     ct_cumulative_admission_waiting_milliseconds = 0\<rparr>"

definition zero_allowance :: allowance where
  "zero_allowance = \<lparr>al_header_bytes = 0, al_wire_response_bytes = 0,
     al_decompressed_response_bytes = 0, al_decoded_records = 0, al_decoded_memory_bytes = 0,
     al_serialized_request_body_bytes = 0, al_deadline = 0\<rparr>"

definition split_waiting :: "resource_profile \<Rightarrow> resource_profile" where
  "split_waiting p =
     (let scan = rp_scan p in
      if sl_cumulative_waiting_milliseconds scan \<noteq> 0 \<and>
         sl_cumulative_retry_waiting_milliseconds scan = 0 \<and>
         sl_cumulative_rate_limit_waiting_milliseconds scan = 0
      then p\<lparr>rp_scan := scan\<lparr>sl_cumulative_retry_waiting_milliseconds :=
                                sl_cumulative_waiting_milliseconds scan\<rparr>\<rparr>
      else p)"

definition ScanResourceAccounting :: "resource_profile \<Rightarrow> scan_resource_error + accounting" where
  "ScanResourceAccounting p =
     (let profile = split_waiting p in
      and_then (ValidateProfile profile) (\<lambda>_. Inr
        \<lparr>ac_profile = profile, ac_counters = zero_counters, ac_state = READY,
         ac_deadline_started = False, ac_deadline = 0, ac_active_allowance = zero_allowance,
         ac_current_step_attempts = 0, ac_current_step_page_committed = False\<rparr>))"

definition failed_from :: "accounting \<Rightarrow> accounting" where
  "failed_from a = a\<lparr>ac_counters := (ac_counters a)\<lparr>ct_active_requests := 0,
                       ct_retained_decoded_memory_bytes := 0\<rparr>,
                     ac_state := FAILED\<rparr>"

definition Fail :: "accounting \<Rightarrow> string \<Rightarrow> string \<Rightarrow> 'a outcome" where
  "Fail a field message = (Inl (ScanResourceError field message), failed_from a)"

text \<open>
  A \<open>try\<close> block of the source whose handler is \<open>Fail(error.Field(), error.SafeMessage())\<close>: a
  throwing sub-call fails the object with the error's own field and message.
\<close>

definition attempt :: "accounting \<Rightarrow> scan_resource_error + 'b \<Rightarrow> ('b \<Rightarrow> 'a outcome) \<Rightarrow> 'a outcome" where
  "attempt a r k = (case r of Inl e \<Rightarrow> Fail a (Field e) (SafeMessage e) | Inr x \<Rightarrow> k x)"

text \<open>A \<open>try\<close> block whose handler replaces the error.\<close>

definition attempt_as ::
  "accounting \<Rightarrow> string \<Rightarrow> string \<Rightarrow> scan_resource_error + 'b \<Rightarrow> ('b \<Rightarrow> 'a outcome) \<Rightarrow> 'a outcome" where
  "attempt_as a field message r k = (case r of Inl e \<Rightarrow> Fail a field message | Inr x \<Rightarrow> k x)"

subsection \<open>Operations\<close>

definition next_budget_error :: "accounting \<Rightarrow> int \<Rightarrow> (string \<times> string) option" where
  "next_budget_error a now =
     (let c = ac_counters a; scan = rp_scan (ac_profile a) in
      if ac_deadline_started a \<and> now \<ge> ac_deadline a
      then Some (''wall_milliseconds'', ''scan exceeded its wall-time budget'')
      else if ct_pages c \<ge> sl_pages scan
      then Some (''pages'', ''scan exhausted its page budget'')
      else if ct_request_attempts c \<ge> sl_request_attempts scan
      then Some (''request_attempts'', ''scan exhausted its request-attempt budget'')
      else if ct_header_bytes c \<ge> sl_header_bytes scan
      then Some (''header_bytes'', ''scan exhausted its response-header budget'')
      else if ct_wire_response_bytes c \<ge> sl_wire_response_bytes scan
      then Some (''response_bytes'', ''scan exhausted its wire-response budget'')
      else if ct_decompressed_response_bytes c \<ge> sl_decompressed_response_bytes scan
      then Some (''decompressed_bytes'', ''scan exhausted its decompressed-response budget'')
      else if ct_decoded_records c \<ge> sl_decoded_records scan
      then Some (''decoded_records'', ''scan exhausted its decoded-record budget'')
      else if sl_serialized_request_body_bytes scan \<noteq> 0 \<and>
              ct_serialized_request_body_bytes c \<ge> sl_serialized_request_body_bytes scan
      then Some (''request_body_bytes'', ''scan exhausted its serialized-request-body budget'')
      else None)"

definition RequireReadyForNext :: "accounting \<Rightarrow> int \<Rightarrow> (accounting \<Rightarrow> 'a outcome) \<Rightarrow> 'a outcome" where
  "RequireReadyForNext a now k =
     (case next_budget_error a now of
        Some (field, message) \<Rightarrow> Fail a field message
      | None \<Rightarrow> k a)"

definition wall_time :: "accounting \<Rightarrow> int" where
  "wall_time a = uint (sl_max_wall_milliseconds (rp_scan (ac_profile a))) * nanoseconds_per_millisecond"

definition BeginStep :: "accounting \<Rightarrow> int \<Rightarrow> unit outcome" where
  "BeginStep a now =
     (if ac_state a \<noteq> READY
      then Fail a ''resource_state'' ''scan resource state cannot begin a traversal step''
      else if \<not> ac_deadline_started a \<and> now > int64_max - wall_time a
      then Fail a ''wall_milliseconds'' ''scan wall-time budget cannot be represented''
      else
        let a1 = (if ac_deadline_started a then a
                  else a\<lparr>ac_deadline := now + wall_time a, ac_deadline_started := True\<rparr>)
        in RequireReadyForNext a1 now (\<lambda>a2.
             (Inr (), a2\<lparr>ac_current_step_attempts := 0, ac_current_step_page_committed := False,
                         ac_state := STEP_ACTIVE\<rparr>)))"

definition BeginAttempt :: "accounting \<Rightarrow> int \<Rightarrow> allowance outcome" where
  "BeginAttempt a now =
     (let c = ac_counters a; page = rp_page (ac_profile a); scan = rp_scan (ac_profile a) in
      if ac_state a \<noteq> STEP_ACTIVE
      then Fail a ''resource_state'' ''scan resource state cannot begin an attempt''
      else if now \<ge> ac_deadline a
      then Fail a ''wall_milliseconds'' ''scan exceeded its wall-time budget''
      else if (\<not> ac_current_step_page_committed a \<and> ct_pages c \<ge> sl_pages scan) \<or>
              ac_current_step_attempts a \<ge> pl_request_attempts page \<or>
              ct_request_attempts c \<ge> sl_request_attempts scan
      then (if \<not> ac_current_step_page_committed a \<and> ct_pages c \<ge> sl_pages scan
            then Fail a ''pages'' ''scan exhausted its page budget''
            else Fail a ''request_attempts'' ''scan exhausted its request-attempt budget'')
      else
        attempt a (AddChecked (ac_current_step_attempts a) 1 (pl_request_attempts page)) (\<lambda>next_step_attempts.
        attempt a (AddChecked (ct_request_attempts c) 1 (sl_request_attempts scan)) (\<lambda>next_scan_attempts.
        attempt a (if ac_current_step_page_committed a then Inr (ct_pages c)
                   else AddChecked (ct_pages c) 1 (sl_pages scan)) (\<lambda>next_pages.
        attempt a (AddChecked (ct_active_requests c) 1 (sl_active_requests scan)) (\<lambda>next_active_requests.
        attempt a (Remaining (sl_header_bytes scan) (ct_header_bytes c)) (\<lambda>header_left.
        attempt a (Remaining (sl_wire_response_bytes scan) (ct_wire_response_bytes c)) (\<lambda>wire_left.
        attempt a (Remaining (sl_decompressed_response_bytes scan) (ct_decompressed_response_bytes c)) (\<lambda>decompressed_left.
        attempt a (Remaining (sl_decoded_records scan) (ct_decoded_records c)) (\<lambda>records_left.
        attempt a (if pl_serialized_request_body_bytes page = 0 then Inr 0
                   else map_sum id (min (pl_serialized_request_body_bytes page))
                          (Remaining (sl_serialized_request_body_bytes scan)
                                     (ct_serialized_request_body_bytes c))) (\<lambda>body_allowance.
          let granted = \<lparr>al_header_bytes = min (pl_header_bytes page) header_left,
                al_wire_response_bytes = min (pl_wire_response_bytes page) wire_left,
                al_decompressed_response_bytes =
                  min (pl_decompressed_response_bytes page) decompressed_left,
                al_decoded_records = min (pl_decoded_records page) records_left,
                al_decoded_memory_bytes =
                  min (pl_decoded_memory_bytes page) (sl_retained_decoded_memory_bytes scan),
                al_serialized_request_body_bytes = body_allowance,
                al_deadline = ac_deadline a\<rparr>
          in (Inr granted,
              a\<lparr>ac_current_step_attempts := next_step_attempts,
                ac_counters := c\<lparr>ct_request_attempts := next_scan_attempts, ct_pages := next_pages,
                                 ct_active_requests := next_active_requests\<rparr>,
                ac_current_step_page_committed := True,
                ac_active_allowance := granted,
                ac_state := REQUEST_ACTIVE\<rparr>)))))))))))"

definition BeginPage :: "accounting \<Rightarrow> int \<Rightarrow> allowance outcome" where
  "BeginPage a now =
     (case BeginStep a now of
        (Inl e, a1) \<Rightarrow> (Inl e, a1)
      | (Inr _, a1) \<Rightarrow> BeginAttempt a1 now)"

definition BeginRetryAttempt :: "accounting \<Rightarrow> int \<Rightarrow> allowance outcome" where
  "BeginRetryAttempt a now = BeginAttempt a now"

definition CommitRequestBody :: "accounting \<Rightarrow> u64 \<Rightarrow> unit outcome" where
  "CommitRequestBody a bytes =
     (let c = ac_counters a; page = rp_page (ac_profile a); scan = rp_scan (ac_profile a) in
      if ac_state a \<noteq> REQUEST_ACTIVE \<or> pl_serialized_request_body_bytes page = 0
      then Fail a ''resource_state'' ''scan resource state cannot commit a request body''
      else if bytes = 0
      then Fail a ''request_body_bytes'' ''serialized request body cannot be empty''
      else
        attempt a (RequireWithin bytes (al_serialized_request_body_bytes (ac_active_allowance a))
                     ''request_body_bytes'') (\<lambda>_.
        attempt a (AddChecked (ct_serialized_request_body_bytes c) bytes
                     (sl_serialized_request_body_bytes scan)) (\<lambda>total.
          (Inr (), a\<lparr>ac_counters := c\<lparr>ct_serialized_request_body_bytes := total\<rparr>,
                     ac_state := REQUEST_BODY_COMMITTED\<rparr>))))"

definition CommitAttemptUsage :: "accounting \<Rightarrow> transport_usage \<Rightarrow> scan_state \<Rightarrow> unit outcome" where
  "CommitAttemptUsage a usage next_state =
     (let page = rp_page (ac_profile a); scan = rp_scan (ac_profile a);
          allowed = ac_active_allowance a;
          bodyless_ready = (ac_state a = REQUEST_ACTIVE \<and> pl_serialized_request_body_bytes page = 0);
          body_ready = (ac_state a = REQUEST_BODY_COMMITTED \<and> pl_serialized_request_body_bytes page \<noteq> 0) in
      if \<not> bodyless_ready \<and> \<not> body_ready
      then Fail a ''resource_state'' ''scan resource state cannot commit transport''
      else
        attempt a (RequireWithin (tu_header_bytes usage) (al_header_bytes allowed) ''header_bytes'') (\<lambda>_.
        attempt a (RequireWithin (tu_wire_response_bytes usage) (al_wire_response_bytes allowed)
                     ''response_bytes'') (\<lambda>_.
        attempt a (RequireWithin (tu_decompressed_response_bytes usage)
                     (al_decompressed_response_bytes allowed) ''decompressed_bytes'') (\<lambda>_.
        attempt a (AddChecked (ct_header_bytes (ac_counters a)) (tu_header_bytes usage)
                     (sl_header_bytes scan)) (\<lambda>header_total.
        let a1 = a\<lparr>ac_counters := (ac_counters a)\<lparr>ct_header_bytes := header_total\<rparr>\<rparr> in
        attempt a1 (AddChecked (ct_wire_response_bytes (ac_counters a1)) (tu_wire_response_bytes usage)
                      (sl_wire_response_bytes scan)) (\<lambda>wire_total.
        let a2 = a1\<lparr>ac_counters := (ac_counters a1)\<lparr>ct_wire_response_bytes := wire_total\<rparr>\<rparr> in
        attempt a2 (AddChecked (ct_decompressed_response_bytes (ac_counters a2))
                      (tu_decompressed_response_bytes usage)
                      (sl_decompressed_response_bytes scan)) (\<lambda>decompressed_total.
          (Inr (), a2\<lparr>ac_counters := (ac_counters a2)\<lparr>ct_decompressed_response_bytes := decompressed_total,
                                                       ct_active_requests := 0\<rparr>,
                      ac_state := next_state\<rparr>))))))))"

definition CommitAttemptFailure :: "accounting \<Rightarrow> transport_usage \<Rightarrow> unit outcome" where
  "CommitAttemptFailure a usage = CommitAttemptUsage a usage STEP_ACTIVE"

definition CommitTransport :: "accounting \<Rightarrow> transport_usage \<Rightarrow> unit outcome" where
  "CommitTransport a usage = CommitAttemptUsage a usage TRANSPORT_COMMITTED"

definition CommitDecodedPage :: "accounting \<Rightarrow> decoded_usage \<Rightarrow> unit outcome" where
  "CommitDecodedPage a usage =
     (let c = ac_counters a; scan = rp_scan (ac_profile a); allowed = ac_active_allowance a in
      if ac_state a \<noteq> TRANSPORT_COMMITTED
      then Fail a ''resource_state'' ''scan resource state cannot commit decoded page''
      else
        attempt a (RequireWithin (du_decoded_records usage) (al_decoded_records allowed)
                     ''decoded_records'') (\<lambda>_.
        attempt a (RequireWithin (du_decoded_memory_bytes usage) (al_decoded_memory_bytes allowed)
                     ''decoded_memory_bytes'') (\<lambda>_.
        attempt a (AddChecked (ct_decoded_records c) (du_decoded_records usage)
                     (sl_decoded_records scan)) (\<lambda>records_total.
          (Inr (), a\<lparr>ac_counters := c\<lparr>ct_decoded_records := records_total,
                       ct_retained_decoded_memory_bytes := du_decoded_memory_bytes usage,
                       ct_peak_decoded_memory_bytes :=
                         max (ct_peak_decoded_memory_bytes c) (du_decoded_memory_bytes usage)\<rparr>,
                     ac_state := PAGE_DECODED\<rparr>)))))"

definition CompletePage :: "accounting \<Rightarrow> bool \<Rightarrow> int \<Rightarrow> unit outcome" where
  "CompletePage a has_next now =
     (if ac_state a \<noteq> PAGE_DECODED
      then Fail a ''resource_state'' ''scan resource state cannot complete page''
      else
        let a1 = a\<lparr>ac_counters := (ac_counters a)\<lparr>ct_retained_decoded_memory_bytes := 0\<rparr>\<rparr> in
        if now \<ge> ac_deadline a1
        then Fail a1 ''wall_milliseconds'' ''scan exceeded its wall-time budget''
        else if \<not> has_next
        then (Inr (), a1\<lparr>ac_current_step_attempts := 0, ac_current_step_page_committed := False,
                         ac_state := EXHAUSTED\<rparr>)
        else RequireReadyForNext
               (a1\<lparr>ac_state := READY, ac_current_step_attempts := 0,
                   ac_current_step_page_committed := False\<rparr>) now (\<lambda>a2. (Inr (), a2)))"

definition CommitRetryWait :: "accounting \<Rightarrow> u64 \<Rightarrow> unit outcome" where
  "CommitRetryWait a milliseconds =
     (let scan = rp_scan (ac_profile a) in
      if ac_state a \<noteq> STEP_ACTIVE
      then Fail a ''resource_state'' ''scan resource state cannot commit a wait''
      else
        attempt_as a ''cumulative_waiting_milliseconds'' ''scan exceeded its cumulative-waiting budget''
          (AddChecked (ct_cumulative_waiting_milliseconds (ac_counters a)) milliseconds
             (sl_cumulative_waiting_milliseconds scan)) (\<lambda>waiting_total.
        let a1 = a\<lparr>ac_counters := (ac_counters a)\<lparr>ct_cumulative_waiting_milliseconds := waiting_total\<rparr>\<rparr> in
        attempt_as a1 ''cumulative_waiting_milliseconds'' ''scan exceeded its cumulative-waiting budget''
          (AddChecked (ct_cumulative_retry_waiting_milliseconds (ac_counters a1)) milliseconds
             (sl_cumulative_retry_waiting_milliseconds scan)) (\<lambda>retry_total.
          (Inr (), a1\<lparr>ac_counters := (ac_counters a1)\<lparr>ct_cumulative_retry_waiting_milliseconds :=
                                                        retry_total\<rparr>\<rparr>))))"

definition CommitWait :: "accounting \<Rightarrow> u64 \<Rightarrow> unit outcome" where
  "CommitWait a milliseconds = CommitRetryWait a milliseconds"

definition CommitRateLimitWait :: "accounting \<Rightarrow> u64 \<Rightarrow> unit outcome" where
  "CommitRateLimitWait a milliseconds =
     (let scan = rp_scan (ac_profile a) in
      if ac_state a \<noteq> STEP_ACTIVE
      then Fail a ''resource_state'' ''scan resource state cannot commit a rate-limit wait''
      else
        attempt_as a ''cumulative_waiting_milliseconds'' ''scan exceeded its cumulative-waiting budget''
          (AddChecked (ct_cumulative_waiting_milliseconds (ac_counters a)) milliseconds
             (sl_cumulative_waiting_milliseconds scan)) (\<lambda>waiting_total.
        let a1 = a\<lparr>ac_counters := (ac_counters a)\<lparr>ct_cumulative_waiting_milliseconds := waiting_total\<rparr>\<rparr> in
        attempt_as a1 ''cumulative_waiting_milliseconds'' ''scan exceeded its cumulative-waiting budget''
          (AddChecked (ct_cumulative_rate_limit_waiting_milliseconds (ac_counters a1)) milliseconds
             (sl_cumulative_rate_limit_waiting_milliseconds scan)) (\<lambda>rate_limit_total.
          (Inr (), a1\<lparr>ac_counters := (ac_counters a1)\<lparr>ct_cumulative_rate_limit_waiting_milliseconds :=
                                                        rate_limit_total\<rparr>\<rparr>))))"

definition CommitAdmissionWait :: "accounting \<Rightarrow> u64 \<Rightarrow> u64 \<Rightarrow> unit outcome" where
  "CommitAdmissionWait a milliseconds limit =
     (if ac_state a \<noteq> STEP_ACTIVE
      then Fail a ''resource_state'' ''scan resource state cannot commit admission waiting''
      else
        attempt_as a ''admission_waiting_milliseconds''
          ''scan exceeded its cumulative admission-waiting budget''
          (AddChecked (ct_cumulative_admission_waiting_milliseconds (ac_counters a)) milliseconds limit)
          (\<lambda>total. (Inr (), a\<lparr>ac_counters := (ac_counters a)
             \<lparr>ct_cumulative_admission_waiting_milliseconds := total\<rparr>\<rparr>)))"

definition CommitRemoteTransportTime :: "accounting \<Rightarrow> u64 \<Rightarrow> unit outcome" where
  "CommitRemoteTransportTime a milliseconds =
     (if ac_state a \<noteq> REQUEST_ACTIVE \<and> ac_state a \<noteq> REQUEST_BODY_COMMITTED
      then Fail a ''resource_state'' ''scan resource state cannot commit remote transport time''
      else
        attempt_as a ''wall_milliseconds'' ''scan remote transport accounting overflowed''
          (AddChecked (ct_cumulative_remote_transport_milliseconds (ac_counters a)) milliseconds uint64_max)
          (\<lambda>total. (Inr (), a\<lparr>ac_counters := (ac_counters a)
             \<lparr>ct_cumulative_remote_transport_milliseconds := total\<rparr>\<rparr>)))"

definition AbortPage :: "accounting \<Rightarrow> accounting" where
  "AbortPage a = failed_from a"

definition Deadline :: "accounting \<Rightarrow> scan_resource_error + int" where
  "Deadline a =
     (if \<not> ac_deadline_started a
      then Inl (ScanResourceError ''resource_state'' ''scan deadline has not started'')
      else Inr (ac_deadline a))"

definition CanBeginRetryAttempt :: "accounting \<Rightarrow> bool" where
  "CanBeginRetryAttempt a \<longleftrightarrow>
     ac_state a = STEP_ACTIVE \<and>
     ac_current_step_attempts a < pl_request_attempts (rp_page (ac_profile a)) \<and>
     ct_request_attempts (ac_counters a) < sl_request_attempts (rp_scan (ac_profile a))"

definition RequireRetryAttemptResources :: "accounting \<Rightarrow> u64 \<Rightarrow> scan_resource_error + unit" where
  "RequireRetryAttemptResources a body =
     (let c = ac_counters a; page = rp_page (ac_profile a); scan = rp_scan (ac_profile a) in
      if \<not> CanBeginRetryAttempt a
      then Inl (ScanResourceError ''request_attempts'' ''scan exhausted its request-attempt budget'')
      else if ct_header_bytes c \<ge> sl_header_bytes scan
      then Inl (ScanResourceError ''header_bytes'' ''scan exhausted its response-header budget'')
      else if ct_wire_response_bytes c \<ge> sl_wire_response_bytes scan
      then Inl (ScanResourceError ''response_bytes'' ''scan exhausted its wire-response budget'')
      else if ct_decompressed_response_bytes c \<ge> sl_decompressed_response_bytes scan
      then Inl (ScanResourceError ''decompressed_bytes'' ''scan exhausted its decompressed-response budget'')
      else if pl_serialized_request_body_bytes page = 0
      then (if body \<noteq> 0
            then Inl (ScanResourceError ''request_body_bytes'' ''bodyless scan cannot begin a body-bearing retry'')
            else Inr ())
      else if body = 0 \<or> body > pl_serialized_request_body_bytes page \<or>
              ct_serialized_request_body_bytes c > sl_serialized_request_body_bytes scan \<or>
              body > sl_serialized_request_body_bytes scan - ct_serialized_request_body_bytes c
      then Inl (ScanResourceError ''request_body_bytes'' ''scan exhausted its serialized-request-body budget'')
      else Inr ())"

subsection \<open>The object as a transition system\<close>

datatype accounting_op =
    Op_BeginStep int
  | Op_BeginAttempt int
  | Op_BeginPage int
  | Op_CommitRequestBody u64
  | Op_CommitAttemptFailure transport_usage
  | Op_CommitTransport transport_usage
  | Op_CommitDecodedPage decoded_usage
  | Op_CompletePage bool int
  | Op_CommitRetryWait u64
  | Op_CommitRateLimitWait u64
  | Op_CommitAdmissionWait u64 u64
  | Op_CommitRemoteTransportTime u64
  | Op_AbortPage

definition no_value :: "'a outcome \<Rightarrow> allowance option outcome" where
  "no_value r = (map_sum id (\<lambda>_. None) (fst r), snd r)"

definition with_value :: "allowance outcome \<Rightarrow> allowance option outcome" where
  "with_value r = (map_sum id Some (fst r), snd r)"

fun exec_op :: "accounting_op \<Rightarrow> accounting \<Rightarrow> allowance option outcome" where
  "exec_op (Op_BeginStep now) a = no_value (BeginStep a now)"
| "exec_op (Op_BeginAttempt now) a = with_value (BeginAttempt a now)"
| "exec_op (Op_BeginPage now) a = with_value (BeginPage a now)"
| "exec_op (Op_CommitRequestBody n) a = no_value (CommitRequestBody a n)"
| "exec_op (Op_CommitAttemptFailure u) a = no_value (CommitAttemptFailure a u)"
| "exec_op (Op_CommitTransport u) a = no_value (CommitTransport a u)"
| "exec_op (Op_CommitDecodedPage u) a = no_value (CommitDecodedPage a u)"
| "exec_op (Op_CompletePage has_next now) a = no_value (CompletePage a has_next now)"
| "exec_op (Op_CommitRetryWait ms) a = no_value (CommitRetryWait a ms)"
| "exec_op (Op_CommitRateLimitWait ms) a = no_value (CommitRateLimitWait a ms)"
| "exec_op (Op_CommitAdmissionWait ms limit) a = no_value (CommitAdmissionWait a ms limit)"
| "exec_op (Op_CommitRemoteTransportTime ms) a = no_value (CommitRemoteTransportTime a ms)"
| "exec_op Op_AbortPage a = (Inr None, AbortPage a)"

definition run_ops :: "accounting_op list \<Rightarrow> accounting \<Rightarrow> accounting" where
  "run_ops ops a = fold (\<lambda>op s. snd (exec_op op s)) ops a"

definition accounting_init :: "accounting \<Rightarrow> bool" where
  "accounting_init a \<longleftrightarrow> (\<exists>p. ScanResourceAccounting p = Inr a)"

definition accounting_step :: "accounting \<Rightarrow> accounting \<Rightarrow> bool" where
  "accounting_step a b \<longleftrightarrow> (\<exists>op. b = snd (exec_op op a))"

subsection \<open>Reasoning about outcomes\<close>

text \<open>
  \<open>post P r\<close> says that the state an operation leaves behind satisfies \<open>P\<close>, whether it
  returned or threw. The rules below walk through the body of an operation.
\<close>

definition post :: "(accounting \<Rightarrow> bool) \<Rightarrow> 'a outcome \<Rightarrow> bool" where
  "post P r \<longleftrightarrow> P (snd r)"

named_theorems outcome_rules \<open>introduction rules for the state after an operation\<close>

lemma post_Fail [outcome_rules]: "P (failed_from a) \<Longrightarrow> post P (Fail a f m)"
  by (simp add: post_def Fail_def)

lemma post_return [outcome_rules]: "P a \<Longrightarrow> post P (Inr x, a)"
  by (simp add: post_def)

lemma post_attempt [outcome_rules]:
  "P (failed_from a) \<Longrightarrow> (\<And>x. r = Inr x \<Longrightarrow> post P (k x)) \<Longrightarrow> post P (attempt a r k)"
  by (cases r) (simp_all add: attempt_def post_Fail)

lemma post_attempt_as [outcome_rules]:
  "P (failed_from a) \<Longrightarrow> (\<And>x. r = Inr x \<Longrightarrow> post P (k x)) \<Longrightarrow> post P (attempt_as a f m r k)"
  by (cases r) (simp_all add: attempt_as_def post_Fail)

lemma post_if [outcome_rules]:
  "(b \<Longrightarrow> post P r) \<Longrightarrow> (\<not> b \<Longrightarrow> post P s) \<Longrightarrow> post P (if b then r else s)"
  by simp

lemma post_RequireReadyForNext [outcome_rules]:
  "P (failed_from a) \<Longrightarrow> (next_budget_error a now = None \<Longrightarrow> post P (k a)) \<Longrightarrow>
   post P (RequireReadyForNext a now k)"
  by (auto simp: RequireReadyForNext_def post_Fail split: option.splits)

lemma post_values [simp]:
  "post P (no_value r) = post P r"
  "post P (with_value q) = post P q"
  by (simp_all add: post_def no_value_def with_value_def)

lemma attempt_returns [simp]:
  "attempt a r k = (Inr y, b) \<longleftrightarrow> (\<exists>x. r = Inr x \<and> k x = (Inr y, b))"
  by (cases r) (auto simp: attempt_def Fail_def)

lemma attempt_as_returns [simp]:
  "attempt_as a f m r k = (Inr y, b) \<longleftrightarrow> (\<exists>x. r = Inr x \<and> k x = (Inr y, b))"
  by (cases r) (auto simp: attempt_as_def Fail_def)

lemma Fail_returns [simp]: "Fail a f m \<noteq> (Inr y, b)"
  by (simp add: Fail_def)

lemma AddChecked_Inr: "AddChecked c n l = Inr r \<longleftrightarrow> c \<le> l \<and> n \<le> l - c \<and> r = c + n"
proof -
  have "c \<le> l \<Longrightarrow> l - c \<le> uint64_max - c"
    using unat_sub_le [of c l] unat_sub_le [of c uint64_max] unat_u64_le_max [of l]
      unat_u64_le_max [of c] by (simp add: word_le_nat_alt)
  then show ?thesis
    by (auto simp: AddChecked_def not_less)
qed

lemma AddCheckedD:
  assumes "AddChecked c n l = Inr r"
  shows "unat r = unat c + unat n" and "r \<le> l" and "c \<le> r"
  using assms guarded_add [of c l n] by (auto simp: AddChecked_Inr)

lemma AddChecked_dest:
  "AddChecked c n l = Inr r \<Longrightarrow> unat r = unat c + unat n \<and> r \<le> l \<and> c \<le> r"
  using AddCheckedD by blast

lemma RemainingD:
  assumes "Remaining l u = Inr r"
  shows "u \<le> l" and "unat u + unat r = unat l"
  using assms by (auto simp: Remaining_def not_less unat_sub_le word_le_nat_alt split: if_splits)

lemma RequireWithin_Inr [simp]: "RequireWithin used allowed f = Inr x \<longleftrightarrow> used \<le> allowed"
  by (auto simp: RequireWithin_def not_less)

lemma failed_from_simps [simp]:
  "ac_state (failed_from a) = FAILED"
  "ac_profile (failed_from a) = ac_profile a"
  "ac_deadline (failed_from a) = ac_deadline a"
  "ac_deadline_started (failed_from a) = ac_deadline_started a"
  "ac_current_step_attempts (failed_from a) = ac_current_step_attempts a"
  "ac_current_step_page_committed (failed_from a) = ac_current_step_page_committed a"
  "ac_active_allowance (failed_from a) = ac_active_allowance a"
  "ac_counters (failed_from a) =
     (ac_counters a)\<lparr>ct_active_requests := 0, ct_retained_decoded_memory_bytes := 0\<rparr>"
  by (simp_all add: failed_from_def)

lemmas operation_defs =
  BeginStep_def BeginAttempt_def CommitRequestBody_def CommitAttemptUsage_def
  CommitAttemptFailure_def CommitTransport_def CommitDecodedPage_def CompletePage_def
  CommitRetryWait_def CommitRateLimitWait_def CommitAdmissionWait_def
  CommitRemoteTransportTime_def AbortPage_def

lemma post_BeginPage:
  assumes "post P (BeginStep a now)"
    and "\<And>b. BeginStep a now = (Inr (), b) \<Longrightarrow> post P (BeginAttempt b now)"
  shows "post P (BeginPage a now)"
  using assms by (cases "BeginStep a now"; cases "fst (BeginStep a now)")
    (auto simp: BeginPage_def post_def)

subsection \<open>No counter is ever reset\<close>

text \<open>The counters that only ever accumulate; active requests and retained memory are levels.\<close>

definition cumulative :: "counters \<Rightarrow> u64 list" where
  "cumulative c =
     [ct_request_attempts c, ct_pages c, ct_header_bytes c, ct_wire_response_bytes c,
      ct_decompressed_response_bytes c, ct_decoded_records c, ct_peak_decoded_memory_bytes c,
      ct_serialized_request_body_bytes c, ct_cumulative_waiting_milliseconds c,
      ct_cumulative_retry_waiting_milliseconds c, ct_cumulative_rate_limit_waiting_milliseconds c,
      ct_cumulative_remote_transport_milliseconds c, ct_cumulative_admission_waiting_milliseconds c]"

definition no_reset :: "accounting \<Rightarrow> accounting \<Rightarrow> bool" where
  "no_reset a b \<longleftrightarrow>
     ac_profile b = ac_profile a \<and>
     (ac_deadline_started a \<longrightarrow> ac_deadline_started b \<and> ac_deadline b = ac_deadline a) \<and>
     list_all2 (\<le>) (cumulative (ac_counters a)) (cumulative (ac_counters b))"

lemma no_reset_refl: "no_reset a a"
  by (simp add: no_reset_def list_all2_refl)

lemma no_reset_trans:
  assumes "no_reset a b" and "no_reset b c"
  shows "no_reset a c"
proof -
  have "list_all2 (\<le>) (cumulative (ac_counters a)) (cumulative (ac_counters c))"
    by (rule list_all2_trans [of "(\<le>)" "(\<le>)" "(\<le>)"])
       (use assms in \<open>auto simp: no_reset_def\<close>)
  with assms show ?thesis by (auto simp: no_reset_def)
qed

lemmas no_reset_unfold = no_reset_def cumulative_def

lemma no_reset_failed_from [simp]: "no_reset a (failed_from b) = no_reset a b"
  by (simp add: no_reset_unfold)

lemma BeginStep_no_reset: "post (no_reset a) (BeginStep a now)"
  unfolding BeginStep_def Let_def
  by (intro outcome_rules) (auto simp: no_reset_unfold)

lemma BeginAttempt_no_reset: "post (no_reset a) (BeginAttempt a now)"
  unfolding BeginAttempt_def Let_def
  by (intro outcome_rules) (auto simp: no_reset_unfold dest!: AddChecked_dest split: if_splits)

lemma BeginPage_no_reset: "post (no_reset a) (BeginPage a now)"
proof (rule post_BeginPage [OF BeginStep_no_reset])
  fix b assume "BeginStep a now = (Inr (), b)"
  then have "no_reset a b" using BeginStep_no_reset [of a now] by (simp add: post_def)
  then show "post (no_reset a) (BeginAttempt b now)"
    using BeginAttempt_no_reset [of b now] by (auto simp: post_def intro: no_reset_trans)
qed

lemma commits_no_reset:
  "post (no_reset a) (CommitRequestBody a n)"
  "post (no_reset a) (CommitAttemptFailure a u)"
  "post (no_reset a) (CommitTransport a u)"
  "post (no_reset a) (CommitDecodedPage a d)"
  "post (no_reset a) (CompletePage a has_next now)"
  "post (no_reset a) (CommitRetryWait a n)"
  "post (no_reset a) (CommitRateLimitWait a n)"
  "post (no_reset a) (CommitAdmissionWait a n limit)"
  "post (no_reset a) (CommitRemoteTransportTime a n)"
  unfolding operation_defs Let_def
  by (intro outcome_rules; auto simp: no_reset_unfold dest!: AddChecked_dest)+

lemma exec_op_no_reset: "no_reset a (snd (exec_op op a))"
proof -
  have "post (no_reset a) (exec_op op a)"
    by (cases op) (simp_all add: BeginStep_no_reset BeginAttempt_no_reset BeginPage_no_reset
        commits_no_reset, simp add: post_def AbortPage_def no_reset_refl)
  then show ?thesis by (simp add: post_def)
qed

subsection \<open>The budget invariant\<close>

definition limits_hold :: "accounting \<Rightarrow> bool" where
  "limits_hold a \<longleftrightarrow>
     (let c = ac_counters a; scan = rp_scan (ac_profile a) in
      ct_request_attempts c \<le> sl_request_attempts scan \<and>
      ct_pages c \<le> sl_pages scan \<and>
      ct_header_bytes c \<le> sl_header_bytes scan \<and>
      ct_wire_response_bytes c \<le> sl_wire_response_bytes scan \<and>
      ct_decompressed_response_bytes c \<le> sl_decompressed_response_bytes scan \<and>
      ct_decoded_records c \<le> sl_decoded_records scan \<and>
      ct_retained_decoded_memory_bytes c \<le> sl_retained_decoded_memory_bytes scan \<and>
      ct_peak_decoded_memory_bytes c \<le> sl_retained_decoded_memory_bytes scan \<and>
      ct_active_requests c \<le> 1 \<and>
      ct_serialized_request_body_bytes c \<le> sl_serialized_request_body_bytes scan \<and>
      ct_cumulative_waiting_milliseconds c \<le> sl_cumulative_waiting_milliseconds scan \<and>
      ct_cumulative_retry_waiting_milliseconds c \<le> sl_cumulative_retry_waiting_milliseconds scan \<and>
      ct_cumulative_rate_limit_waiting_milliseconds c
        \<le> sl_cumulative_rate_limit_waiting_milliseconds scan)"

text \<open>
  How attempts relate to pages: every committed page has at least one attempt, and a page never
  has more attempts than the page ceiling. The open step's attempts count towards its own page.
\<close>

definition attempts_per_page :: "accounting \<Rightarrow> bool" where
  "attempts_per_page a \<longleftrightarrow>
     (let c = ac_counters a; cap = unat (pl_request_attempts (rp_page (ac_profile a)));
          used = unat (ac_current_step_attempts a) in
      used \<le> cap \<and>
      (if ac_current_step_page_committed a
       then 1 \<le> unat (ct_pages c) \<and>
            unat (ct_request_attempts c) \<le> (unat (ct_pages c) - 1) * cap + used
       else used = 0 \<and> unat (ct_request_attempts c) \<le> unat (ct_pages c) * cap))"

definition in_flight :: "scan_state \<Rightarrow> bool" where
  "in_flight s \<longleftrightarrow> s = REQUEST_ACTIVE \<or> s = REQUEST_BODY_COMMITTED"

text \<open>
  What the operations keep between the fields: one request exactly while one is in flight, decoded
  memory only while a page is decoded, and, while an allowance is usable, room for all of it.
\<close>

definition state_coupling :: "accounting \<Rightarrow> bool" where
  "state_coupling a \<longleftrightarrow>
     (let c = ac_counters a; scan = rp_scan (ac_profile a); page = rp_page (ac_profile a);
          al = ac_active_allowance a; s = ac_state a in
      ct_active_requests c = (if in_flight s then 1 else 0) \<and>
      (ct_retained_decoded_memory_bytes c \<noteq> 0 \<longrightarrow> s = PAGE_DECODED) \<and>
      (s \<noteq> READY \<and> s \<noteq> FAILED \<longrightarrow> ac_deadline_started a) \<and>
      (s = READY \<longrightarrow> \<not> ac_current_step_page_committed a) \<and>
      (in_flight s \<longrightarrow>
         unat (ct_header_bytes c) + unat (al_header_bytes al) \<le> unat (sl_header_bytes scan) \<and>
         unat (ct_wire_response_bytes c) + unat (al_wire_response_bytes al)
           \<le> unat (sl_wire_response_bytes scan) \<and>
         unat (ct_decompressed_response_bytes c) + unat (al_decompressed_response_bytes al)
           \<le> unat (sl_decompressed_response_bytes scan)) \<and>
      (s = REQUEST_ACTIVE \<longrightarrow>
         unat (ct_serialized_request_body_bytes c) + unat (al_serialized_request_body_bytes al)
           \<le> unat (sl_serialized_request_body_bytes scan)) \<and>
      (in_flight s \<or> s = TRANSPORT_COMMITTED \<longrightarrow>
         unat (ct_decoded_records c) + unat (al_decoded_records al) \<le> unat (sl_decoded_records scan) \<and>
         al_decoded_memory_bytes al \<le> sl_retained_decoded_memory_bytes scan \<and>
         al_deadline al = ac_deadline a) \<and>
      (s \<noteq> FAILED \<longrightarrow>
         unat (ct_cumulative_waiting_milliseconds c) =
           unat (ct_cumulative_retry_waiting_milliseconds c)
           + unat (ct_cumulative_rate_limit_waiting_milliseconds c)))"

definition accounting_inv :: "accounting \<Rightarrow> bool" where
  "accounting_inv a \<longleftrightarrow>
     ValidateProfile (ac_profile a) = Inr () \<and> limits_hold a \<and> attempts_per_page a \<and> state_coupling a"

lemmas inv_unfold =
  accounting_inv_def limits_hold_def attempts_per_page_def state_coupling_def in_flight_def Let_def

lemma ValidateProfile_rejects:
  "3 < pl_request_attempts (rp_page p) \<Longrightarrow> ValidateProfile p = Inl profile_error"
  "pl_header_bytes (rp_page p) = 0 \<or> pl_wire_response_bytes (rp_page p) = 0 \<or>
   pl_decompressed_response_bytes (rp_page p) = 0 \<Longrightarrow> ValidateProfile p = Inl profile_error"
  "sl_active_requests (rp_scan p) \<noteq> 1 \<Longrightarrow> ValidateProfile p = Inl profile_error"
  unfolding ValidateProfile_def Let_def by (rule if_P, blast)+

lemma ValidateProfile_active [simp]:
  "ValidateProfile p = Inr () \<Longrightarrow> sl_active_requests (rp_scan p) = 1"
  using ValidateProfile_rejects(3) [of p] by force

lemma ValidateProfile_page:
  assumes "ValidateProfile p = Inr ()"
  shows "pl_request_attempts (rp_page p) \<le> 3"
    and "pl_header_bytes (rp_page p) \<noteq> 0"
    and "pl_wire_response_bytes (rp_page p) \<noteq> 0"
    and "pl_decompressed_response_bytes (rp_page p) \<noteq> 0"
  using assms ValidateProfile_rejects [of p] by (auto simp: not_le [symmetric])

lemma attempts_bound:
  assumes "attempts_per_page a"
  shows "unat (ct_request_attempts (ac_counters a))
    \<le> unat (ct_pages (ac_counters a)) * unat (pl_request_attempts (rp_page (ac_profile a)))"
proof (cases "unat (ct_pages (ac_counters a))")
  case 0
  then show ?thesis using assms by (auto simp: attempts_per_page_def Let_def split: if_splits)
next
  case (Suc n)
  then show ?thesis using assms by (auto simp: attempts_per_page_def Let_def split: if_splits)
qed

lemma construction_inv: "ScanResourceAccounting p = Inr a \<Longrightarrow> accounting_inv a"
  by (auto simp: ScanResourceAccounting_def inv_unfold zero_counters_def)

lemma failed_from_inv: "accounting_inv a \<Longrightarrow> accounting_inv (failed_from a)"
  by (simp add: inv_unfold split: if_splits)

lemma BeginStep_inv:
  assumes "accounting_inv a"
  shows "post accounting_inv (BeginStep a now)"
  unfolding BeginStep_def Let_def
  by (intro outcome_rules) (use assms in \<open>auto simp: inv_unfold failed_from_def split: if_splits\<close>)

text \<open>
  What \<open>BeginAttempt\<close> amounts to when the invariant holds: an admission test, a grant of the
  smaller of the page ceiling and the scan's remainder, and the debit of one attempt and, for the
  first attempt of a step, of one page. None of its internal overflow checks can fire.
\<close>

definition attempt_admissible :: "accounting \<Rightarrow> int \<Rightarrow> bool" where
  "attempt_admissible a now \<longleftrightarrow>
     (let c = ac_counters a; scan = rp_scan (ac_profile a) in
      ac_state a = STEP_ACTIVE \<and> now < ac_deadline a \<and>
      (ac_current_step_page_committed a \<or> ct_pages c < sl_pages scan) \<and>
      ac_current_step_attempts a < pl_request_attempts (rp_page (ac_profile a)) \<and>
      ct_request_attempts c < sl_request_attempts scan)"

definition grant :: "accounting \<Rightarrow> allowance" where
  "grant a =
     (let c = ac_counters a; page = rp_page (ac_profile a); scan = rp_scan (ac_profile a) in
      \<lparr>al_header_bytes = min (pl_header_bytes page) (sl_header_bytes scan - ct_header_bytes c),
       al_wire_response_bytes =
         min (pl_wire_response_bytes page) (sl_wire_response_bytes scan - ct_wire_response_bytes c),
       al_decompressed_response_bytes =
         min (pl_decompressed_response_bytes page)
             (sl_decompressed_response_bytes scan - ct_decompressed_response_bytes c),
       al_decoded_records =
         min (pl_decoded_records page) (sl_decoded_records scan - ct_decoded_records c),
       al_decoded_memory_bytes =
         min (pl_decoded_memory_bytes page) (sl_retained_decoded_memory_bytes scan),
       al_serialized_request_body_bytes =
         (if pl_serialized_request_body_bytes page = 0 then 0
          else min (pl_serialized_request_body_bytes page)
                   (sl_serialized_request_body_bytes scan - ct_serialized_request_body_bytes c)),
       al_deadline = ac_deadline a\<rparr>)"

definition attempt_started :: "accounting \<Rightarrow> accounting" where
  "attempt_started a =
     a\<lparr>ac_current_step_attempts := ac_current_step_attempts a + 1,
       ac_counters := (ac_counters a)\<lparr>
         ct_request_attempts := ct_request_attempts (ac_counters a) + 1,
         ct_pages := (if ac_current_step_page_committed a then ct_pages (ac_counters a)
                      else ct_pages (ac_counters a) + 1),
         ct_active_requests := 1\<rparr>,
       ac_current_step_page_committed := True,
       ac_active_allowance := grant a,
       ac_state := REQUEST_ACTIVE\<rparr>"

lemma AddChecked_one: "c < l \<Longrightarrow> AddChecked c 1 l = Inr (c + 1)"
  using succ_below [of c l]
  by (auto simp: AddChecked_Inr word_le_nat_alt word_less_nat_alt unat_sub_le)

lemma Remaining_within: "u \<le> l \<Longrightarrow> Remaining l u = Inr (l - u)"
  by (simp add: Remaining_def)

lemma attempt_Inr [simp]: "attempt a (Inr x) k = k x"
  by (simp add: attempt_def)

lemma BeginAttempt_admitted:
  assumes "accounting_inv a" and "attempt_admissible a now"
  shows "BeginAttempt a now = (Inr (grant a), attempt_started a)"
proof -
  have "ct_active_requests (ac_counters a) = 0" "sl_active_requests (rp_scan (ac_profile a)) = 1"
    using assms by (auto simp: inv_unfold attempt_admissible_def)
  then have "AddChecked (ct_active_requests (ac_counters a)) 1 (sl_active_requests (rp_scan (ac_profile a)))
      = Inr 1"
    by (simp add: AddChecked_one)
  with assms show ?thesis
    by (cases "ac_current_step_page_committed a")
       (simp_all add: BeginAttempt_def attempt_admissible_def attempt_started_def grant_def Let_def
        AddChecked_one Remaining_within not_le limits_hold_def accounting_inv_def)
qed

lemma BeginAttempt_refused:
  "\<not> attempt_admissible a now \<Longrightarrow> \<exists>f m. BeginAttempt a now = Fail a f m"
  by (auto simp: BeginAttempt_def attempt_admissible_def Let_def)

lemma attempt_started_inv:
  assumes inv: "accounting_inv a" and adm: "attempt_admissible a now"
  shows "accounting_inv (attempt_started a)"
proof -
  let ?page = "rp_page (ac_profile a)" and ?scan = "rp_scan (ac_profile a)" and ?c = "ac_counters a"
  note adm' = adm [unfolded attempt_admissible_def Let_def]
  note scan_succ = succ_below [of "ct_request_attempts ?c" "sl_request_attempts ?scan"]
  note step_succ = succ_below [of "ac_current_step_attempts a" "pl_request_attempts ?page"]
  note page_succ = succ_below [of "ct_pages ?c" "sl_pages ?scan"]
  have "limits_hold (attempt_started a)"
    using inv adm' scan_succ(2) page_succ(2) by (auto simp: inv_unfold attempt_started_def)
  moreover have "attempts_per_page (attempt_started a)"
    using inv adm' scan_succ(1) step_succ(1,2) page_succ(1)
    by (auto simp: inv_unfold attempt_started_def word_le_nat_alt split: if_splits)
  moreover have "state_coupling (attempt_started a)"
    using inv adm'
    by (auto simp: inv_unfold attempt_started_def grant_def unat_min unat_sub_le word_le_nat_alt)
  ultimately show ?thesis
    using inv by (simp add: accounting_inv_def attempt_started_def)
qed

lemma BeginAttempt_inv:
  assumes "accounting_inv a"
  shows "post accounting_inv (BeginAttempt a now)"
proof (cases "attempt_admissible a now")
  case True
  then show ?thesis
    using assms by (simp add: BeginAttempt_admitted attempt_started_inv post_def)
next
  case False
  then obtain f m where "BeginAttempt a now = Fail a f m"
    using BeginAttempt_refused by blast
  then show ?thesis using assms by (simp add: post_Fail failed_from_inv)
qed

lemma CommitRequestBody_inv:
  assumes "accounting_inv a"
  shows "post accounting_inv (CommitRequestBody a n)"
  unfolding CommitRequestBody_def Let_def
  by (intro outcome_rules failed_from_inv assms)
     (use assms in \<open>auto simp: inv_unfold dest!: AddChecked_dest split: if_splits\<close>)

text \<open>
  The same for transport: an attempt's observed usage commits exactly when a request is ready and
  the usage is within the allowance the attempt was granted.
\<close>

definition usage_admissible :: "accounting \<Rightarrow> transport_usage \<Rightarrow> bool" where
  "usage_admissible a u \<longleftrightarrow>
     (let body = pl_serialized_request_body_bytes (rp_page (ac_profile a)); al = ac_active_allowance a in
      (ac_state a = REQUEST_ACTIVE \<and> body = 0 \<or> ac_state a = REQUEST_BODY_COMMITTED \<and> body \<noteq> 0) \<and>
      tu_header_bytes u \<le> al_header_bytes al \<and>
      tu_wire_response_bytes u \<le> al_wire_response_bytes al \<and>
      tu_decompressed_response_bytes u \<le> al_decompressed_response_bytes al)"

definition usage_committed :: "accounting \<Rightarrow> transport_usage \<Rightarrow> scan_state \<Rightarrow> accounting" where
  "usage_committed a u next_state =
     a\<lparr>ac_counters := (ac_counters a)\<lparr>
         ct_header_bytes := ct_header_bytes (ac_counters a) + tu_header_bytes u,
         ct_wire_response_bytes := ct_wire_response_bytes (ac_counters a) + tu_wire_response_bytes u,
         ct_decompressed_response_bytes :=
           ct_decompressed_response_bytes (ac_counters a) + tu_decompressed_response_bytes u,
         ct_active_requests := 0\<rparr>,
       ac_state := next_state\<rparr>"

lemma room_for_addition:
  assumes "unat (c::u64) + unat al \<le> unat l" and "n \<le> al"
  shows "c \<le> l" and "n \<le> l - c"
proof -
  show c: "c \<le> l" using assms(1) by (simp add: word_le_nat_alt)
  show "n \<le> l - c" using assms by (simp add: word_le_nat_alt unat_sub_le [OF c])
qed

lemma AddChecked_room: "unat c + unat al \<le> unat l \<Longrightarrow> n \<le> al \<Longrightarrow> AddChecked c n l = Inr (c + n)"
  using room_for_addition [of c al l n] by (simp add: AddChecked_Inr)

lemma usage_room:
  assumes inv: "accounting_inv a" and adm: "usage_admissible a u"
  shows "unat (ct_header_bytes (ac_counters a)) + unat (al_header_bytes (ac_active_allowance a))
      \<le> unat (sl_header_bytes (rp_scan (ac_profile a)))"
    and "unat (ct_wire_response_bytes (ac_counters a)) + unat (al_wire_response_bytes (ac_active_allowance a))
      \<le> unat (sl_wire_response_bytes (rp_scan (ac_profile a)))"
    and "unat (ct_decompressed_response_bytes (ac_counters a))
      + unat (al_decompressed_response_bytes (ac_active_allowance a))
      \<le> unat (sl_decompressed_response_bytes (rp_scan (ac_profile a)))"
    and "tu_header_bytes u \<le> al_header_bytes (ac_active_allowance a)"
    and "tu_wire_response_bytes u \<le> al_wire_response_bytes (ac_active_allowance a)"
    and "tu_decompressed_response_bytes u \<le> al_decompressed_response_bytes (ac_active_allowance a)"
proof -
  have "in_flight (ac_state a)" and "state_coupling a"
    using adm inv by (auto simp: usage_admissible_def in_flight_def Let_def accounting_inv_def)
  then show "unat (ct_header_bytes (ac_counters a)) + unat (al_header_bytes (ac_active_allowance a))
      \<le> unat (sl_header_bytes (rp_scan (ac_profile a)))"
    and "unat (ct_wire_response_bytes (ac_counters a)) + unat (al_wire_response_bytes (ac_active_allowance a))
      \<le> unat (sl_wire_response_bytes (rp_scan (ac_profile a)))"
    and "unat (ct_decompressed_response_bytes (ac_counters a))
      + unat (al_decompressed_response_bytes (ac_active_allowance a))
      \<le> unat (sl_decompressed_response_bytes (rp_scan (ac_profile a)))"
    by (simp_all add: state_coupling_def Let_def)
qed (use adm in \<open>simp_all add: usage_admissible_def Let_def\<close>)

lemma CommitAttemptUsage_admitted:
  assumes inv: "accounting_inv a" and adm: "usage_admissible a u"
  shows "CommitAttemptUsage a u nxt = (Inr (), usage_committed a u nxt)"
proof -
  note room = usage_room [OF inv adm]
  note adds = AddChecked_room [OF room(1,4)] AddChecked_room [OF room(2,5)] AddChecked_room [OF room(3,6)]
  show ?thesis
    using adm by (auto simp: CommitAttemptUsage_def usage_committed_def usage_admissible_def Let_def adds
        RequireWithin_def not_less)
qed

lemma CommitAttemptUsage_refused:
  assumes "\<not> usage_admissible a u"
  shows "\<exists>f m. CommitAttemptUsage a u nxt = Fail a f m"
  using assms
  by (auto simp: CommitAttemptUsage_def usage_admissible_def Let_def RequireWithin_def attempt_def not_le)

lemma usage_committed_inv:
  assumes inv: "accounting_inv a" and adm: "usage_admissible a u"
    and nxt: "nxt = STEP_ACTIVE \<or> nxt = TRANSPORT_COMMITTED"
  shows "accounting_inv (usage_committed a u nxt)"
proof -
  note room = usage_room [OF inv adm]
  note added = guarded_add(2) [OF room_for_addition [OF room(1,4)]]
    guarded_add(2) [OF room_for_addition [OF room(2,5)]] guarded_add(2) [OF room_for_addition [OF room(3,6)]]
  have "limits_hold (usage_committed a u nxt)"
    using inv added by (simp add: accounting_inv_def limits_hold_def usage_committed_def Let_def)
  moreover have "attempts_per_page (usage_committed a u nxt)"
    using inv by (auto simp: accounting_inv_def attempts_per_page_def usage_committed_def Let_def split: if_splits)
  moreover have "state_coupling (usage_committed a u nxt)"
  proof -
    have flight: "in_flight (ac_state a)" and sc: "state_coupling a"
      using adm inv by (auto simp: usage_admissible_def in_flight_def Let_def accounting_inv_def)
    with nxt show ?thesis
      unfolding in_flight_def
      by (elim disjE) (simp_all add: state_coupling_def usage_committed_def Let_def in_flight_def)
  qed
  ultimately show ?thesis
    using inv by (simp add: accounting_inv_def usage_committed_def)
qed

lemma CommitAttemptUsage_inv:
  assumes inv: "accounting_inv a" and nxt: "nxt = STEP_ACTIVE \<or> nxt = TRANSPORT_COMMITTED"
  shows "post accounting_inv (CommitAttemptUsage a u nxt)"
proof (cases "usage_admissible a u")
  case True
  then show ?thesis
    using inv nxt by (simp add: CommitAttemptUsage_admitted usage_committed_inv post_def)
next
  case False
  then obtain f m where "CommitAttemptUsage a u nxt = Fail a f m"
    using CommitAttemptUsage_refused by blast
  then show ?thesis using inv by (simp add: post_Fail failed_from_inv)
qed

lemma CommitDecodedPage_inv:
  assumes "accounting_inv a"
  shows "post accounting_inv (CommitDecodedPage a u)"
  unfolding CommitDecodedPage_def Let_def
  by (intro outcome_rules failed_from_inv assms)
     (use assms in \<open>auto simp: inv_unfold dest!: AddChecked_dest split: if_splits\<close>)

lemma CompletePage_inv:
  assumes "accounting_inv a"
  shows "post accounting_inv (CompletePage a has_next now)"
  unfolding CompletePage_def Let_def
  by (intro outcome_rules failed_from_inv assms)
     (use assms attempts_bound [of a] in \<open>auto simp: inv_unfold split: if_splits\<close>)

lemma waits_inv:
  assumes "accounting_inv a"
  shows "post accounting_inv (CommitRetryWait a n)"
    and "post accounting_inv (CommitRateLimitWait a n)"
    and "post accounting_inv (CommitAdmissionWait a n limit)"
    and "post accounting_inv (CommitRemoteTransportTime a n)"
  unfolding operation_defs Let_def
  by (intro outcome_rules failed_from_inv [OF assms];
      use assms in \<open>auto simp: inv_unfold dest!: AddChecked_dest split: if_splits\<close>)+

lemma BeginPage_inv:
  assumes "accounting_inv a"
  shows "post accounting_inv (BeginPage a now)"
proof (rule post_BeginPage [OF BeginStep_inv [OF assms]])
  fix b assume "BeginStep a now = (Inr (), b)"
  then have "accounting_inv b" using BeginStep_inv [OF assms, of now] by (simp add: post_def)
  then show "post accounting_inv (BeginAttempt b now)" by (rule BeginAttempt_inv)
qed

lemma exec_op_inv:
  assumes "accounting_inv a"
  shows "accounting_inv (snd (exec_op op a))"
proof -
  have "post accounting_inv (exec_op op a)"
    using assms
    by (cases op) (simp_all add: BeginStep_inv BeginAttempt_inv BeginPage_inv CommitRequestBody_inv
        CommitAttemptFailure_def CommitTransport_def CommitAttemptUsage_inv CommitDecodedPage_inv
        CompletePage_inv waits_inv, simp add: post_def AbortPage_def failed_from_inv)
  then show ?thesis by (simp add: post_def)
qed

interpretation scan_budget: invariant_system accounting_init accounting_step accounting_inv
  by unfold_locales (auto simp: accounting_init_def accounting_step_def construction_inv exec_op_inv)

interpretation scan_totals: monotone_system accounting_init accounting_step no_reset
  by unfold_locales
     (auto simp: accounting_step_def exec_op_no_reset no_reset_refl intro: no_reset_trans)

lemma run_ops_steps: "accounting_step\<^sup>*\<^sup>* a (run_ops ops a)"
proof (induction ops arbitrary: a)
  case (Cons op ops)
  have "accounting_step a (snd (exec_op op a))" by (auto simp: accounting_step_def)
  with Cons [of "snd (exec_op op a)"] show ?case
    by (auto simp: run_ops_def intro: converse_rtranclp_into_rtranclp)
qed (simp add: run_ops_def)

lemma run_ops_inv: "ScanResourceAccounting p = Inr a \<Longrightarrow> accounting_inv (run_ops ops a)"
  by (rule scan_budget.run_invar [OF construction_inv run_ops_steps])

subsection \<open>Properties\<close>

text \<open>
  A profile and a schedule for the witnesses: two pages of at most two attempts, with a request
  body, a first attempt that fails and is retried, and a decoded first page.
\<close>

definition sample_profile :: resource_profile where
  "sample_profile = \<lparr>
     rp_page = \<lparr>pl_request_attempts = 2, pl_header_bytes = 100, pl_wire_response_bytes = 1000,
       pl_decompressed_response_bytes = 4000, pl_decoded_records = 10, pl_decoded_memory_bytes = 500,
       pl_active_requests = 1, pl_serialized_request_body_bytes = 64\<rparr>,
     rp_scan = \<lparr>sl_request_attempts = 4, sl_pages = 2, sl_header_bytes = 250,
       sl_wire_response_bytes = 2500, sl_decompressed_response_bytes = 9000,
       sl_decoded_records = 15, sl_retained_decoded_memory_bytes = 500,
       sl_max_wall_milliseconds = 30000, sl_active_requests = 1,
       sl_serialized_request_body_bytes = 256, sl_cumulative_waiting_milliseconds = 1000,
       sl_cumulative_retry_waiting_milliseconds = 600,
       sl_cumulative_rate_limit_waiting_milliseconds = 600,
       sl_cumulative_remote_transport_milliseconds = 30000\<rparr>\<rparr>"

definition sample_usage :: transport_usage where
  "sample_usage = \<lparr>tu_header_bytes = 40, tu_wire_response_bytes = 300,
     tu_decompressed_response_bytes = 900\<rparr>"

definition sample_start :: accounting where
  "sample_start = (case ScanResourceAccounting sample_profile of Inr a \<Rightarrow> a)"

definition sample_retry_ops :: "accounting_op list" where
  "sample_retry_ops =
     [Op_BeginPage 5, Op_CommitRequestBody 20, Op_CommitAttemptFailure sample_usage,
      Op_CommitRetryWait 50]"

lemma sample_start_ok: "ScanResourceAccounting sample_profile = Inr sample_start"
  by code_simp

lemma sample_retry: "RequireRetryAttemptResources (run_ops sample_retry_ops sample_start) 20 = Inr ()"
  by code_simp

text \<open>
  Remote transport time is recorded only. The profile has a field for it,
  \<open>cumulative_remote_transport_milliseconds\<close>, among the ceilings of a scan, but the operation adds
  with the largest 64-bit number as its bound: here 40000 ms are recorded under a ceiling of 30000,
  and the scan goes on.
\<close>
lemma remote_transport_time_is_only_recorded:
  "let a = run_ops [Op_BeginPage 5, Op_CommitRemoteTransportTime 40000] sample_start in
   ct_cumulative_remote_transport_milliseconds (ac_counters a) = 40000 \<and>
   sl_cumulative_remote_transport_milliseconds (rp_scan (ac_profile a)) = 30000 \<and>
   ac_state a = REQUEST_ACTIVE"
  by code_simp

text \<open>
  C1. Whatever sequence of operations a client issues, in any order and with any arguments, the
  counters of a scan stay within the ceilings of its admitted profile that the accounting debits
  against: request attempts, pages, header, wire, decompressed and body bytes, decoded records,
  retained and peak decoded memory, the cumulative, the retry and the rate-limit waiting budget, and
  at most one active request. Two fields of the profile are not among them: remote transport time,
  which the code records without enforcing its ceiling (lemma above), and the wall time, which bounds
  no counter but fixes the deadline.
\<close>
theorem scan_never_exceeds_limits:
  assumes "ScanResourceAccounting p = Inr a"
  shows "limits_hold (run_ops ops a)"
  using run_ops_inv [OF assms] by (simp add: accounting_inv_def)

theorem scan_never_exceeds_limits_witness:
  "limits_hold (run_ops sample_retry_ops sample_start)"
  by (rule scan_never_exceeds_limits [OF sample_start_ok])

text \<open>
  The no-reset rule: once a scan has run some operations, no further operation lowers a
  cumulative counter, replaces the profile, or moves a deadline that has started.
\<close>
lemma scan_totals_never_reset:
  "no_reset (run_ops ops a) (run_ops (ops @ later) a)"
proof -
  have "run_ops (ops @ later) a = run_ops later (run_ops ops a)" by (simp add: run_ops_def)
  then show ?thesis using scan_totals.run_below [OF run_ops_steps] by simp
qed

text \<open>
  A failed scan stays failed: in the FAILED state every operation except the abort throws a
  \<open>resource_state\<close> error, and every operation leaves the object FAILED, with no active request
  and no retained decoded memory.
\<close>
lemma failed_is_terminal:
  assumes "ac_state a = FAILED"
  shows "(op \<noteq> Op_AbortPage \<longrightarrow> (\<exists>m. fst (exec_op op a) = Inl (ScanResourceError ''resource_state'' m))) \<and>
    ac_state (snd (exec_op op a)) = FAILED \<and>
    ct_active_requests (ac_counters (snd (exec_op op a))) = 0 \<and>
    ct_retained_decoded_memory_bytes (ac_counters (snd (exec_op op a))) = 0"
  using assms
  by (cases op) (simp_all add: operation_defs BeginPage_def Fail_def no_value_def with_value_def Let_def)

text \<open>
  Attempts are bounded by pages: after any operations, the attempts charged to the scan are
  at most the pages committed times the per-page attempt ceiling (at most three), and the
  attempts of the open step never exceed that ceiling.
\<close>
lemma attempts_bounded_by_pages:
  assumes "ScanResourceAccounting p = Inr a"
  shows "unat (ct_request_attempts (ac_counters (run_ops ops a)))
      \<le> unat (ct_pages (ac_counters (run_ops ops a)))
         * unat (pl_request_attempts (rp_page (ac_profile (run_ops ops a)))) \<and>
    ac_current_step_attempts (run_ops ops a) \<le> pl_request_attempts (rp_page (ac_profile (run_ops ops a))) \<and>
    pl_request_attempts (rp_page (ac_profile (run_ops ops a))) \<le> 3"
proof -
  note inv = run_ops_inv [OF assms, of ops, unfolded accounting_inv_def]
  have "ac_current_step_attempts (run_ops ops a)
      \<le> pl_request_attempts (rp_page (ac_profile (run_ops ops a)))"
    using inv by (simp add: attempts_per_page_def Let_def word_le_nat_alt)
  moreover have "pl_request_attempts (rp_page (ac_profile (run_ops ops a))) \<le> 3"
    using inv ValidateProfile_page(1) by blast
  ultimately show ?thesis using inv attempts_bound by simp
qed

text \<open>
  The states after the debit of a request body, if there is one, and after a decoded page.
\<close>

definition body_debited :: "accounting \<Rightarrow> u64 \<Rightarrow> accounting" where
  "body_debited a body =
     (if body = 0 then a
      else a\<lparr>ac_counters := (ac_counters a)\<lparr>ct_serialized_request_body_bytes :=
                 ct_serialized_request_body_bytes (ac_counters a) + body\<rparr>,
             ac_state := REQUEST_BODY_COMMITTED\<rparr>)"

definition page_decoded :: "accounting \<Rightarrow> decoded_usage \<Rightarrow> accounting" where
  "page_decoded a d =
     a\<lparr>ac_counters := (ac_counters a)\<lparr>
         ct_decoded_records := ct_decoded_records (ac_counters a) + du_decoded_records d,
         ct_retained_decoded_memory_bytes := du_decoded_memory_bytes d,
         ct_peak_decoded_memory_bytes :=
           max (ct_peak_decoded_memory_bytes (ac_counters a)) (du_decoded_memory_bytes d)\<rparr>,
       ac_state := PAGE_DECODED\<rparr>"

lemma CommitRequestBody_admitted:
  assumes inv: "accounting_inv a" and "ac_state a = REQUEST_ACTIVE" and "body \<noteq> 0"
    and "pl_serialized_request_body_bytes (rp_page (ac_profile a)) \<noteq> 0"
    and fits: "body \<le> al_serialized_request_body_bytes (ac_active_allowance a)"
  shows "CommitRequestBody a body = (Inr (), body_debited a body)"
proof -
  have "unat (ct_serialized_request_body_bytes (ac_counters a))
      + unat (al_serialized_request_body_bytes (ac_active_allowance a))
      \<le> unat (sl_serialized_request_body_bytes (rp_scan (ac_profile a)))"
    using assms(1,2) by (simp add: accounting_inv_def state_coupling_def Let_def)
  note AddChecked_room [OF this fits]
  with assms(2-) show ?thesis
    by (simp add: CommitRequestBody_def body_debited_def Let_def RequireWithin_def not_less)
qed

lemma body_debited_inv:
  assumes inv: "accounting_inv a" and "ac_state a = REQUEST_ACTIVE"
    and "body = 0 \<or> pl_serialized_request_body_bytes (rp_page (ac_profile a)) \<noteq> 0"
    and "body \<le> al_serialized_request_body_bytes (ac_active_allowance a)"
  shows "accounting_inv (body_debited a body)"
proof (cases "body = 0")
  case False
  then have "CommitRequestBody a body = (Inr (), body_debited a body)"
    using CommitRequestBody_admitted [OF inv] assms by simp
  then show ?thesis using CommitRequestBody_inv [OF inv, of body] by (simp add: post_def)
qed (simp add: body_debited_def inv)

lemma CommitDecodedPage_admitted:
  assumes inv: "accounting_inv a" and "ac_state a = TRANSPORT_COMMITTED"
    and fits: "du_decoded_records d \<le> al_decoded_records (ac_active_allowance a)"
    and "du_decoded_memory_bytes d \<le> al_decoded_memory_bytes (ac_active_allowance a)"
  shows "CommitDecodedPage a d = (Inr (), page_decoded a d)"
proof -
  have "unat (ct_decoded_records (ac_counters a)) + unat (al_decoded_records (ac_active_allowance a))
      \<le> unat (sl_decoded_records (rp_scan (ac_profile a)))"
    using assms(1,2) by (simp add: accounting_inv_def state_coupling_def Let_def)
  note AddChecked_room [OF this fits]
  with assms(2-) show ?thesis
    by (simp add: CommitDecodedPage_def page_decoded_def Let_def RequireWithin_def not_less)
qed

text \<open>
  C7. Granted allowances are honoured, for bodyless and body-bearing profiles alike: in any state a
  client can reach, an attempt that passes the admission test is granted the smaller of the page
  ceiling and the scan's remainder of every resource; then a request body within the grant is debited
  (there is one exactly when the profile is not bodyless), a response whose usage stays within the
  grant commits, and so does a decoded page within it, and the scan totals grow by exactly the amounts
  committed.
\<close>
theorem grant_is_honoured:
  assumes "ScanResourceAccounting p = Inr a0" and "a = run_ops ops a0"
    and "attempt_admissible a now"
    and "body = 0 \<longleftrightarrow> pl_serialized_request_body_bytes (rp_page (ac_profile a)) = 0"
    and "body \<le> al_serialized_request_body_bytes (grant a)"
    and "tu_header_bytes u \<le> al_header_bytes (grant a)"
    and "tu_wire_response_bytes u \<le> al_wire_response_bytes (grant a)"
    and "tu_decompressed_response_bytes u \<le> al_decompressed_response_bytes (grant a)"
    and "du_decoded_records d \<le> al_decoded_records (grant a)"
    and "du_decoded_memory_bytes d \<le> al_decoded_memory_bytes (grant a)"
  defines "sent \<equiv> body_debited (attempt_started a) body"
    and "received \<equiv> usage_committed (body_debited (attempt_started a) body) u TRANSPORT_COMMITTED"
  shows "BeginAttempt a now = (Inr (grant a), attempt_started a) \<and>
    (body = 0 \<or> CommitRequestBody (attempt_started a) body = (Inr (), sent)) \<and>
    CommitTransport sent u = (Inr (), received) \<and>
    CommitDecodedPage received d = (Inr (), page_decoded received d)"
proof -
  let ?b = "attempt_started a"
  have inv: "accounting_inv a" using assms(1,2) run_ops_inv by simp
  have started: "ac_state ?b = REQUEST_ACTIVE" "ac_profile ?b = ac_profile a" "ac_active_allowance ?b = grant a"
    by (simp_all add: attempt_started_def)
  note inv' = attempt_started_inv [OF inv assms(3)]
  have inv_sent: "accounting_inv sent"
    unfolding sent_def by (rule body_debited_inv [OF inv']) (use started assms(4,5) in auto)
  have adm: "usage_admissible sent u"
    using assms(4-8) started by (auto simp: usage_admissible_def sent_def body_debited_def)
  have inv_received: "accounting_inv received"
    using usage_committed_inv [OF inv_sent adm] by (simp add: received_def sent_def)
  have "ac_active_allowance received = grant a" "ac_state received = TRANSPORT_COMMITTED"
    using started by (simp_all add: received_def usage_committed_def body_debited_def)
  then have "CommitDecodedPage received d = (Inr (), page_decoded received d)"
    using CommitDecodedPage_admitted [OF inv_received] assms(9,10) by simp
  moreover have "CommitTransport sent u = (Inr (), received)"
    unfolding CommitTransport_def CommitAttemptUsage_admitted [OF inv_sent adm]
    by (simp add: received_def sent_def)
  moreover have "body = 0 \<or> CommitRequestBody ?b body = (Inr (), sent)"
    using CommitRequestBody_admitted [OF inv', of body] started assms(4,5) by (auto simp: sent_def)
  ultimately show ?thesis using BeginAttempt_admitted [OF inv assms(3)] by blast
qed

definition sample_decoded :: decoded_usage where
  "sample_decoded = \<lparr>du_decoded_records = 10, du_decoded_memory_bytes = 500\<rparr>"

text \<open>The whole body grant, and the ceilings of the decoded page, are used up in the witness.\<close>

theorem grant_is_honoured_witness:
  "CommitRequestBody (attempt_started (run_ops [Op_BeginStep 5] sample_start)) 64
     = (Inr (), body_debited (attempt_started (run_ops [Op_BeginStep 5] sample_start)) 64) \<and>
   fst (CommitTransport (body_debited (attempt_started (run_ops [Op_BeginStep 5] sample_start)) 64) sample_usage)
     = Inr ()"
proof -
  let ?a = "run_ops [Op_BeginStep 5] sample_start"
  have "attempt_admissible ?a 6" by code_simp
  moreover have "(64::u64) = 0 \<longleftrightarrow> pl_serialized_request_body_bytes (rp_page (ac_profile ?a)) = 0" by code_simp
  moreover have "64 \<le> al_serialized_request_body_bytes (grant ?a)" by code_simp
  moreover have "tu_header_bytes sample_usage \<le> al_header_bytes (grant ?a)" by code_simp
  moreover have "tu_wire_response_bytes sample_usage \<le> al_wire_response_bytes (grant ?a)" by code_simp
  moreover have "tu_decompressed_response_bytes sample_usage \<le> al_decompressed_response_bytes (grant ?a)"
    by code_simp
  moreover have "du_decoded_records sample_decoded \<le> al_decoded_records (grant ?a)" by code_simp
  moreover have "du_decoded_memory_bytes sample_decoded \<le> al_decoded_memory_bytes (grant ?a)" by code_simp
  ultimately show ?thesis
    using grant_is_honoured [OF sample_start_ok refl, of "[Op_BeginStep 5]" 6 64 sample_usage sample_decoded]
    by simp
qed

text \<open>
  The retry preflight is sound: when \<open>RequireRetryAttemptResources\<close> accepts a body size
  inside a step that has already committed its page, a retry before the deadline is admitted with a
  nonzero header, wire and decompressed allowance, and the debit of that body succeeds.
\<close>
lemma retry_preflight_sound:
  assumes "ScanResourceAccounting p = Inr a0" and "a = run_ops ops a0"
    and "RequireRetryAttemptResources a body = Inr ()"
    and "now < ac_deadline a" and "ac_current_step_page_committed a"
  shows "\<exists>al b. BeginRetryAttempt a now = (Inr al, b) \<and>
    al_header_bytes al \<noteq> 0 \<and> al_wire_response_bytes al \<noteq> 0 \<and> al_decompressed_response_bytes al \<noteq> 0 \<and>
    (body \<noteq> 0 \<longrightarrow> fst (CommitRequestBody b body) = Inr ())"
proof -
  have inv: "accounting_inv a" using assms(1,2) run_ops_inv by simp
  note pre = assms(3) [unfolded RequireRetryAttemptResources_def CanBeginRetryAttempt_def Let_def]
  have adm: "attempt_admissible a now"
    using pre assms(4,5) by (auto simp: attempt_admissible_def Let_def split: if_splits)
  have room: "ct_header_bytes (ac_counters a) < sl_header_bytes (rp_scan (ac_profile a))"
    "ct_wire_response_bytes (ac_counters a) < sl_wire_response_bytes (rp_scan (ac_profile a))"
    "ct_decompressed_response_bytes (ac_counters a) < sl_decompressed_response_bytes (rp_scan (ac_profile a))"
    using pre by (simp_all add: not_le split: if_splits)
  have page: "pl_header_bytes (rp_page (ac_profile a)) \<noteq> 0"
    "pl_wire_response_bytes (rp_page (ac_profile a)) \<noteq> 0"
    "pl_decompressed_response_bytes (rp_page (ac_profile a)) \<noteq> 0"
    using inv ValidateProfile_page(2-4) by (simp_all add: accounting_inv_def)
  have "al_header_bytes (grant a) \<noteq> 0 \<and> al_wire_response_bytes (grant a) \<noteq> 0 \<and>
      al_decompressed_response_bytes (grant a) \<noteq> 0"
    using room page by (auto simp: grant_def Let_def min_def)
  moreover have "fst (CommitRequestBody (attempt_started a) body) = Inr ()" if "body \<noteq> 0"
  proof -
    from pre that have ok: "pl_serialized_request_body_bytes (rp_page (ac_profile a)) \<noteq> 0"
      "body \<le> pl_serialized_request_body_bytes (rp_page (ac_profile a))"
      "ct_serialized_request_body_bytes (ac_counters a) \<le> sl_serialized_request_body_bytes (rp_scan (ac_profile a))"
      "body \<le> sl_serialized_request_body_bytes (rp_scan (ac_profile a)) - ct_serialized_request_body_bytes (ac_counters a)"
      by (simp_all add: not_less split: if_splits)
    then have "AddChecked (ct_serialized_request_body_bytes (ac_counters a)) body
        (sl_serialized_request_body_bytes (rp_scan (ac_profile a)))
        = Inr (ct_serialized_request_body_bytes (ac_counters a) + body)"
      by (simp add: AddChecked_Inr)
    moreover have "\<not> al_serialized_request_body_bytes (grant a) < body"
      using ok by (simp add: grant_def Let_def not_less)
    ultimately show ?thesis
      using ok that by (simp add: CommitRequestBody_def attempt_started_def Let_def RequireWithin_def)
  qed
  ultimately show ?thesis
    by (simp add: BeginRetryAttempt_def BeginAttempt_admitted [OF inv adm])
qed

end
