(* ===== verification/Relational_Predicate.thy ===== *)
theory Relational_Predicate
  imports Prelude
begin

text \<open>
  The bounded predicate trees Query hands to Relational Semantics:
  \<open>src/src/semantics/relational_predicate.cpp\<close> and \<open>relational_predicate.hpp\<close>, with the
  three-valued meaning of such a tree on a row. A \<open>double\<close> is its IEEE-754 bit pattern, and C++
  \<open>==\<close> on doubles is written out: NaN equals nothing, the two zeros are equal.
\<close>

unbundle bit_operations_syntax

subsection \<open>Doubles\<close>

definition double_is_nan :: "u64 \<Rightarrow> bool" where
  "double_is_nan w \<longleftrightarrow>
     drop_bit 52 w AND 0x7FF = 0x7FF \<and> w AND 0xFFFFFFFFFFFFF \<noteq> 0"

definition double_is_zero :: "u64 \<Rightarrow> bool" where
  "double_is_zero w \<longleftrightarrow> w = 0 \<or> w = 0x8000000000000000"

definition double_eq :: "u64 \<Rightarrow> u64 \<Rightarrow> bool" where
  "double_eq a b \<longleftrightarrow>
     \<not> double_is_nan a \<and> \<not> double_is_nan b \<and> (a = b \<or> double_is_zero a \<and> double_is_zero b)"

lemma double_eq_sym: "double_eq a b \<longleftrightarrow> double_eq b a"
  by (auto simp: double_eq_def)

lemma double_eq_trans: "double_eq a b \<Longrightarrow> double_eq b c \<Longrightarrow> double_eq a c"
  by (auto simp: double_eq_def double_is_zero_def)

subsection \<open>Values\<close>

datatype value_kind = KIND_BIGINT | KIND_VARCHAR | KIND_BOOLEAN | KIND_DOUBLE

datatype predicate_value =
    BigIntValue int
  | VarcharValue string
  | BooleanValue bool
  | DoubleValue u64

definition BigInt :: "int \<Rightarrow> predicate_value" where
  "BigInt v = BigIntValue v"

definition Varchar :: "string \<Rightarrow> predicate_value" where
  "Varchar v = VarcharValue v"

definition Boolean :: "bool \<Rightarrow> predicate_value" where
  "Boolean v = BooleanValue v"

text \<open>The constructor of a DOUBLE value normalizes a negative zero.\<close>

definition Double :: "u64 \<Rightarrow> predicate_value" where
  "Double v = DoubleValue (if double_eq v 0 then 0 else v)"

fun value_Kind :: "predicate_value \<Rightarrow> value_kind" where
  "value_Kind (BigIntValue _) = KIND_BIGINT"
| "value_Kind (VarcharValue _) = KIND_VARCHAR"
| "value_Kind (BooleanValue _) = KIND_BOOLEAN"
| "value_Kind (DoubleValue _) = KIND_DOUBLE"

text \<open>
  \<open>operator==\<close> compares the kind and all four payload fields; the fields of the other kinds hold
  the same default in every value, so only the payload of the common kind decides.
\<close>

fun value_eq :: "predicate_value \<Rightarrow> predicate_value \<Rightarrow> bool" where
  "value_eq (BigIntValue a) (BigIntValue b) \<longleftrightarrow> a = b"
| "value_eq (VarcharValue a) (VarcharValue b) \<longleftrightarrow> a = b"
| "value_eq (BooleanValue a) (BooleanValue b) \<longleftrightarrow> a = b"
| "value_eq (DoubleValue a) (DoubleValue b) \<longleftrightarrow> double_eq a b"
| "value_eq _ _ \<longleftrightarrow> False"

lemma value_eq_sym: "value_eq a b \<longleftrightarrow> value_eq b a"
  by (cases a; cases b) (auto simp: double_eq_sym)

lemma value_eq_trans: "value_eq a b \<Longrightarrow> value_eq b c \<Longrightarrow> value_eq a c"
  by (cases a; cases b; cases c) (auto intro: double_eq_trans)

lemma value_eq_cong: "value_eq a b \<Longrightarrow> value_eq x a \<longleftrightarrow> value_eq x b"
  by (metis value_eq_sym value_eq_trans)

lemma value_eq_Kind: "value_eq a b \<Longrightarrow> value_Kind a = value_Kind b"
  by (cases a; cases b) auto

subsection \<open>Trees\<close>

datatype predicate_error = PredicateInvalidArgument string | PredicateLogicError string

datatype predicate_kind = PK_UNRESTRICTED | PK_COMPARISON | PK_CONJUNCTION | PK_DISJUNCTION
  | PK_NEGATION | PK_UNSUPPORTED

text \<open>EQUALS is the only comparison operator of the source, so a comparison carries none.\<close>

datatype predicate =
    Unrestricted
  | Comparison (BoundColumnIndex: nat) (BoundColumnType: value_kind) (Literal: predicate_value)
  | Conjunction "predicate list"
  | Disjunction "predicate list"
  | Negation predicate
  | Unsupported u64

definition MAX_REQUESTED_PREDICATE_DEPTH :: nat where
  "MAX_REQUESTED_PREDICATE_DEPTH = 16"

definition MAX_REQUESTED_PREDICATE_NODES :: nat where
  "MAX_REQUESTED_PREDICATE_NODES = 64"

lemmas structural_limits [simp] = MAX_REQUESTED_PREDICATE_DEPTH_def MAX_REQUESTED_PREDICATE_NODES_def

fun pred_Kind :: "predicate \<Rightarrow> predicate_kind" where
  "pred_Kind Unrestricted = PK_UNRESTRICTED"
| "pred_Kind (Comparison _ _ _) = PK_COMPARISON"
| "pred_Kind (Conjunction _) = PK_CONJUNCTION"
| "pred_Kind (Disjunction _) = PK_DISJUNCTION"
| "pred_Kind (Negation _) = PK_NEGATION"
| "pred_Kind (Unsupported _) = PK_UNSUPPORTED"

text \<open>
  A node of the source stores its depth and node count, computed from its children when it is
  built; the immutable tree makes them functions of the tree.
\<close>

fun Depth :: "predicate \<Rightarrow> nat" where
  "Depth (Conjunction cs) = fold max (map (\<lambda>c. Depth c + 1) cs) 1"
| "Depth (Disjunction cs) = fold max (map (\<lambda>c. Depth c + 1) cs) 1"
| "Depth (Negation c) = Depth c + 1"
| "Depth _ = 1"

fun NodeCount :: "predicate \<Rightarrow> nat" where
  "NodeCount (Conjunction cs) = 1 + sum_list (map NodeCount cs)"
| "NodeCount (Disjunction cs) = 1 + sum_list (map NodeCount cs)"
| "NodeCount (Negation c) = NodeCount c + 1"
| "NodeCount _ = 1"

fun Children :: "predicate \<Rightarrow> predicate_error + predicate list" where
  "Children (Conjunction cs) = Inr cs"
| "Children (Disjunction cs) = Inr cs"
| "Children (Negation c) = Inr [c]"
| "Children _ = Inl (PredicateLogicError ''requested predicate node has no children'')"

fun UnsupportedPosition :: "predicate \<Rightarrow> predicate_error + u64" where
  "UnsupportedPosition (Unsupported n) = Inr n"
| "UnsupportedPosition _ = Inl (PredicateLogicError ''requested predicate is not an opaque unsupported leaf'')"

definition MakeComparison :: "nat \<Rightarrow> value_kind \<Rightarrow> predicate_value \<Rightarrow> predicate_error + predicate" where
  "MakeComparison bound_column_index bound_column_type literal =
     (if bound_column_type \<noteq> value_Kind literal
      then Inl (PredicateInvalidArgument ''requested predicate comparison column and literal types disagree'')
      else Inr (Comparison bound_column_index bound_column_type literal))"

text \<open>The loop of \<open>BooleanNode\<close> over the children, with its depth and node-count accumulators.\<close>

fun boolean_node_scan :: "nat \<Rightarrow> nat \<Rightarrow> predicate list \<Rightarrow> predicate_error + (nat \<times> nat)" where
  "boolean_node_scan depth node_count [] = Inr (depth, node_count)"
| "boolean_node_scan depth node_count (child # children) =
     (if NodeCount child > MAX_REQUESTED_PREDICATE_NODES - node_count
      then Inl (PredicateInvalidArgument ''requested predicate exceeds its node limit'')
      else boolean_node_scan (max depth (Depth child + 1)) (node_count + NodeCount child) children)"

definition BooleanNode :: "predicate_kind \<Rightarrow> predicate list \<Rightarrow> predicate_error + predicate" where
  "BooleanNode kind children =
     (if (kind \<noteq> PK_CONJUNCTION \<and> kind \<noteq> PK_DISJUNCTION) \<or> length children < 2
      then Inl (PredicateInvalidArgument ''requested predicate Boolean node requires at least two children'')
      else and_then (boolean_node_scan 1 1 children) (\<lambda>(depth, node_count).
        if depth > MAX_REQUESTED_PREDICATE_DEPTH \<or> node_count > MAX_REQUESTED_PREDICATE_NODES
        then Inl (PredicateInvalidArgument ''requested predicate exceeds its structural limits'')
        else Inr (if kind = PK_CONJUNCTION then Conjunction children else Disjunction children)))"

definition MakeConjunction :: "predicate list \<Rightarrow> predicate_error + predicate" where
  "MakeConjunction children = BooleanNode PK_CONJUNCTION children"

definition MakeDisjunction :: "predicate list \<Rightarrow> predicate_error + predicate" where
  "MakeDisjunction children = BooleanNode PK_DISJUNCTION children"

definition MakeNegation :: "predicate \<Rightarrow> predicate_error + predicate" where
  "MakeNegation child =
     (if Depth child + 1 > MAX_REQUESTED_PREDICATE_DEPTH \<or> NodeCount child + 1 > MAX_REQUESTED_PREDICATE_NODES
      then Inl (PredicateInvalidArgument ''requested predicate negation exceeds its structural limits'')
      else Inr (Negation child))"

fun StructurallyEquals :: "predicate \<Rightarrow> predicate \<Rightarrow> bool" where
  "StructurallyEquals Unrestricted Unrestricted \<longleftrightarrow> True"
| "StructurallyEquals (Comparison i t l) (Comparison i' t' l') \<longleftrightarrow> i = i' \<and> t = t' \<and> value_eq l l'"
| "StructurallyEquals (Unsupported n) (Unsupported n') \<longleftrightarrow> n = n'"
| "StructurallyEquals (Conjunction cs) (Conjunction cs') \<longleftrightarrow>
     Depth (Conjunction cs) = Depth (Conjunction cs') \<and>
     NodeCount (Conjunction cs) = NodeCount (Conjunction cs') \<and> list_all2 StructurallyEquals cs cs'"
| "StructurallyEquals (Disjunction cs) (Disjunction cs') \<longleftrightarrow>
     Depth (Disjunction cs) = Depth (Disjunction cs') \<and>
     NodeCount (Disjunction cs) = NodeCount (Disjunction cs') \<and> list_all2 StructurallyEquals cs cs'"
| "StructurallyEquals (Negation c) (Negation c') \<longleftrightarrow>
     Depth (Negation c) = Depth (Negation c') \<and>
     NodeCount (Negation c) = NodeCount (Negation c') \<and> StructurallyEquals c c'"
| "StructurallyEquals _ _ \<longleftrightarrow> False"

subsection \<open>Every tree Query can build is bounded and well typed\<close>

text \<open>The trees that the public constructors produce.\<close>

inductive built :: "predicate \<Rightarrow> bool" where
  built_unrestricted: "built Unrestricted"
| built_unsupported: "built (Unsupported n)"
| built_comparison: "MakeComparison i t l = Inr p \<Longrightarrow> built p"
| built_conjunction: "(\<And>c. c \<in> set cs \<Longrightarrow> built c) \<Longrightarrow> MakeConjunction cs = Inr p \<Longrightarrow> built p"
| built_disjunction: "(\<And>c. c \<in> set cs \<Longrightarrow> built c) \<Longrightarrow> MakeDisjunction cs = Inr p \<Longrightarrow> built p"
| built_negation: "built c \<Longrightarrow> MakeNegation c = Inr p \<Longrightarrow> built p"

fun well_typed :: "predicate \<Rightarrow> bool" where
  "well_typed (Comparison i t l) \<longleftrightarrow> t = value_Kind l"
| "well_typed (Conjunction cs) \<longleftrightarrow> 2 \<le> length cs \<and> list_all well_typed cs"
| "well_typed (Disjunction cs) \<longleftrightarrow> 2 \<le> length cs \<and> list_all well_typed cs"
| "well_typed (Negation c) \<longleftrightarrow> well_typed c"
| "well_typed _ \<longleftrightarrow> True"

lemma boolean_node_scan_result:
  "boolean_node_scan d n cs = Inr (d', n') \<Longrightarrow>
   d' = fold max (map (\<lambda>c. Depth c + 1) cs) d \<and> n' = n + sum_list (map NodeCount cs)"
proof (induction cs arbitrary: d n)
  case (Cons c cs)
  then have "boolean_node_scan (max d (Depth c + 1)) (n + NodeCount c) cs = Inr (d', n')"
    by (simp split: if_splits)
  from Cons.IH [OF this] show ?case by (simp add: max.commute)
qed simp

lemma BooleanNode_result:
  assumes "BooleanNode k cs = Inr p"
  shows "p = (if k = PK_CONJUNCTION then Conjunction cs else Disjunction cs)"
    and "2 \<le> length cs" and "Depth p \<le> 16" and "NodeCount p \<le> 64"
proof -
  from assms obtain d n where scan: "boolean_node_scan 1 1 cs = Inr (d, n)"
    and ok: "2 \<le> length cs" "d \<le> 16" "n \<le> 64"
      "p = (if k = PK_CONJUNCTION then Conjunction cs else Disjunction cs)"
    by (auto simp: BooleanNode_def not_less split: if_splits)
  from ok show "2 \<le> length cs" and p: "p = (if k = PK_CONJUNCTION then Conjunction cs else Disjunction cs)"
    by simp_all
  show "Depth p \<le> 16" and "NodeCount p \<le> 64"
    using boolean_node_scan_result [OF scan] ok p by (auto split: if_splits)
qed

lemma built_bounds: "built p \<Longrightarrow> Depth p \<le> 16 \<and> NodeCount p \<le> 64 \<and> well_typed p"
proof (induction rule: built.induct)
  case (built_comparison i t l p)
  then show ?case by (auto simp: MakeComparison_def split: if_splits)
next
  case (built_conjunction cs p)
  then show ?case
    using BooleanNode_result [of PK_CONJUNCTION cs p] by (auto simp: MakeConjunction_def list_all_iff)
next
  case (built_disjunction cs p)
  then show ?case
    using BooleanNode_result [of PK_DISJUNCTION cs p] by (auto simp: MakeDisjunction_def list_all_iff)
next
  case (built_negation c p)
  then show ?case by (auto simp: MakeNegation_def split: if_splits)
qed simp_all

lemma fold_max_ge: "(d::nat) \<le> fold max xs d"
  by (induction xs arbitrary: d) (auto intro: order_trans [OF max.cobounded2])

lemma Depth_positive: "1 \<le> Depth p"
  by (cases p) (auto simp: fold_max_ge [of 1, simplified])

lemma NodeCount_positive: "1 \<le> NodeCount p"
  by (cases p) auto

subsection \<open>Three-valued meaning\<close>

datatype truth = TRUE | FALSE | UNKNOWN

fun truth_and :: "truth \<Rightarrow> truth \<Rightarrow> truth" where
  "truth_and FALSE _ = FALSE"
| "truth_and _ FALSE = FALSE"
| "truth_and TRUE TRUE = TRUE"
| "truth_and _ _ = UNKNOWN"

fun truth_not :: "truth \<Rightarrow> truth" where
  "truth_not TRUE = FALSE"
| "truth_not FALSE = TRUE"
| "truth_not UNKNOWN = UNKNOWN"

definition truth_or :: "truth \<Rightarrow> truth \<Rightarrow> truth" where
  "truth_or a b = truth_not (truth_and (truth_not a) (truth_not b))"

text \<open>A row holds one value or NULL per declared column.\<close>

type_synonym row = "predicate_value option list"

definition cell :: "row \<Rightarrow> nat \<Rightarrow> predicate_value option" where
  "cell r i = (if i < length r then r ! i else None)"

definition sql_equals :: "predicate_value option \<Rightarrow> predicate_value \<Rightarrow> truth" where
  "sql_equals v l = (case v of None \<Rightarrow> UNKNOWN | Some x \<Rightarrow> if value_eq x l then TRUE else FALSE)"

text \<open>
  \<open>opaque\<close> gives the meaning DuckDB assigns to the positions Query could not translate; the
  classifier may not depend on it.
\<close>

fun eval_pred :: "(u64 \<Rightarrow> row \<Rightarrow> truth) \<Rightarrow> predicate \<Rightarrow> row \<Rightarrow> truth" where
  "eval_pred opaque Unrestricted r = TRUE"
| "eval_pred opaque (Comparison i t l) r = sql_equals (cell r i) l"
| "eval_pred opaque (Conjunction cs) r = foldr truth_and (map (\<lambda>c. eval_pred opaque c r) cs) TRUE"
| "eval_pred opaque (Disjunction cs) r = foldr truth_or (map (\<lambda>c. eval_pred opaque c r) cs) FALSE"
| "eval_pred opaque (Negation c) r = truth_not (eval_pred opaque c r)"
| "eval_pred opaque (Unsupported n) r = opaque n r"

lemma truth_and_TRUE [simp]: "truth_and a b = TRUE \<longleftrightarrow> a = TRUE \<and> b = TRUE"
  by (cases a; cases b) auto

lemma truth_and_unit [simp]: "truth_and TRUE b = b" "truth_and b TRUE = b" "truth_and b b = b"
  by (cases b; simp)+

lemma sql_equals_cong: "value_eq a b \<Longrightarrow> sql_equals v a = sql_equals v b"
  using value_eq_cong [of a b] by (auto simp: sql_equals_def split: option.splits)

lemma sql_equals_TRUE [simp]: "sql_equals v l = TRUE \<longleftrightarrow> (\<exists>x. v = Some x \<and> value_eq x l)"
  by (auto simp: sql_equals_def split: option.splits)

lemma eval_conjunction_TRUE:
  "eval_pred u (Conjunction cs) r = TRUE \<longleftrightarrow> (\<forall>c\<in>set cs. eval_pred u c r = TRUE)"
  by (induction cs) auto

lemma StructurallyEquals_children:
  assumes "list_all2 StructurallyEquals cs ds"
    and "\<And>c d. c \<in> set cs \<Longrightarrow> d \<in> set ds \<Longrightarrow> StructurallyEquals c d \<Longrightarrow> eval_pred u c r = eval_pred u d r"
  shows "map (\<lambda>c. eval_pred u c r) cs = map (\<lambda>c. eval_pred u c r) ds"
  using assms by (auto simp: list_all2_conv_all_nth intro!: nth_equalityI)

lemma StructurallyEquals_eval:
  "StructurallyEquals p q \<Longrightarrow> eval_pred u p r = eval_pred u q r"
proof (induction p q rule: StructurallyEquals.induct)
  case (2 i t l i' t' l')
  then show ?case by (auto intro: sql_equals_cong)
next
  case (4 cs ds)
  then have "map (\<lambda>c. eval_pred u c r) cs = map (\<lambda>c. eval_pred u c r) ds"
    by (intro StructurallyEquals_children) auto
  then show ?case by (simp only: eval_pred.simps)
next
  case (5 cs ds)
  then have "map (\<lambda>c. eval_pred u c r) cs = map (\<lambda>c. eval_pred u c r) ds"
    by (intro StructurallyEquals_children) auto
  then show ?case by (simp only: eval_pred.simps)
qed auto

subsection \<open>Properties\<close>

text \<open>
  Every predicate tree that the public constructors can produce is at most 16 levels deep,
  has at most 64 nodes, compares each column with a literal of the column's own kind, and has at
  least two children under every conjunction and disjunction.
\<close>
lemma built_trees_are_bounded:
  assumes "built p"
  shows "Depth p \<le> MAX_REQUESTED_PREDICATE_DEPTH \<and> NodeCount p \<le> MAX_REQUESTED_PREDICATE_NODES \<and> well_typed p"
  using built_bounds [OF assms] by simp

definition sample_comparison :: predicate where
  "sample_comparison = Comparison 1 KIND_VARCHAR (Varchar ''open'')"

end
