(* ===== verification/Compiled_Model.thy ===== *)
theory Compiled_Model
  imports Relational_Predicate "HOL-Library.List_Lexorder" "HOL-Library.Char_ord"
begin

text \<open>
  The parts of the compiled connector model that planning reads:
  \<open>src/src/include/duckdb_api/connector_catalog.hpp\<close>, the selector types of
  \<open>compiled_protocol_operation.hpp\<close>, and the scan request of \<open>scan_request.hpp\<close>. A compiled
  scalar holds a payload only for its own type (its constructor rejects any other), so it is a
  datatype with one constructor per type beside the typed NULL. Strings are ordered by
  their bytes, as \<open>std::string\<close> orders them.
\<close>

datatype planning_error = InvalidContract string | OperationSelectionFailed string

subsection \<open>Scalars, columns and inputs\<close>

datatype scalar_type = SCALAR_BOOLEAN | SCALAR_BIGINT | SCALAR_VARCHAR | SCALAR_DOUBLE

datatype scalar_value =
    NullScalar scalar_type
  | BooleanScalar bool
  | BigintScalar int
  | VarcharScalar string
  | DoubleScalar u64

fun scalar_Type :: "scalar_value \<Rightarrow> scalar_type" where
  "scalar_Type (NullScalar t) = t"
| "scalar_Type (BooleanScalar _) = SCALAR_BOOLEAN"
| "scalar_Type (BigintScalar _) = SCALAR_BIGINT"
| "scalar_Type (VarcharScalar _) = SCALAR_VARCHAR"
| "scalar_Type (DoubleScalar _) = SCALAR_DOUBLE"

fun scalar_IsNull :: "scalar_value \<Rightarrow> bool" where
  "scalar_IsNull (NullScalar _) \<longleftrightarrow> True"
| "scalar_IsNull _ \<longleftrightarrow> False"

datatype column_shape = SHAPE_SCALAR | SHAPE_ARRAY

record column =
  cc_name :: string
  cc_nullable :: bool
  cc_shape :: column_shape
  cc_element_type :: scalar_type

record relation_input =
  ri_name :: string
  ri_type :: scalar_type
  ri_nullable :: bool
  ri_default :: "scalar_value option"

subsection \<open>Predicate mappings\<close>

datatype predicate_literal = VARCHAR_PRIVATE | PACKAGE_TYPED_LITERAL

datatype predicate_accuracy = ACCURACY_EXACT | ACCURACY_SUPERSET

datatype proof_identity = GITHUB_REST_2022_11_28_REPOSITORY_VISIBILITY
  | CONTROLLED_EXACT_DUPLICATE_REPOSITORY_VISIBILITY
  | PACKAGE_DECLARED_V1

datatype base_domain = GITHUB_AUTHENTICATED_REPOSITORY_OCCURRENCES
  | CONTROLLED_DUPLICATE_REPOSITORY_OCCURRENCES
  | PACKAGE_DECLARED_OCCURRENCE_DOMAIN

datatype occurrence_preservation = PRESERVES_ALL_MATCHING_BASE_OCCURRENCES
  | PRESERVES_EXACT_MATCHING_BASE_OCCURRENCES

text \<open>
  The operator, the placement and the encoding capability are enumerations with one value each, so
  a mapping carries none of them.
\<close>

record mapping =
  pm_name :: string
  pm_column_name :: string
  pm_literal :: predicate_literal
  pm_typed_literal :: scalar_value
  pm_operation_name :: string
  pm_remote_input_name :: string
  pm_encoded_remote_value :: string
  pm_accuracy :: predicate_accuracy
  pm_proof_identity :: proof_identity
  pm_proof_identity_value :: string
  pm_base_domain :: base_domain
  pm_base_domain_value :: string
  pm_matching_fixture :: string
  pm_false_or_null_fixture :: string
  pm_duplicates_fixture :: string
  pm_occurrence_preservation :: occurrence_preservation

subsection \<open>Operations and relations\<close>

datatype required_input_kind = RELATION_INPUT | CONDITIONAL_INPUT

record input_reference =
  ir_kind :: required_input_kind
  ir_id :: string

record operation_selector =
  os_required_input_references :: "input_reference list"
  os_required_inputs :: "string list"
  os_any_input_sets :: "string list list"
  os_forbidden_inputs :: "string list"
  os_priority :: int
  os_legacy_compatibility_bridge :: bool

record operation =
  op_name :: string
  op_fallback :: bool
  op_selector :: operation_selector

record relation =
  rel_columns :: "column list"
  rel_inputs :: "relation_input list"
  rel_mappings :: "mapping list"
  rel_operations :: "operation list"

subsection \<open>The scan request\<close>

text \<open>An explicit input is present with a value or present as a typed NULL.\<close>

record explicit_input =
  ei_identifier :: string
  ei_value :: scalar_value

datatype retained_scope = SCOPE_UNRESTRICTED | SCOPE_REQUESTED_PREDICATE | SCOPE_COMPLETE_DUCKDB_FILTER

record scan_request =
  sr_explicit_inputs :: "explicit_input list"
  sr_requested_predicate :: predicate
  sr_retained_predicate_scope :: retained_scope
  sr_selective_predicate :: bool
  sr_retains_predicate :: bool

end
