(* ===== verification/Input_Resolution.thy ===== *)
theory Input_Resolution
  imports Compiled_Model
begin

text \<open>
  Resolution of relation inputs, \<open>src/src/semantics/input_resolution.cpp\<close>, with the explicit
  inputs of \<open>src/src/query/scan_request.cpp\<close>. A resolved input is unbound, bound to NULL or bound
  to a value of its declared type, together with where the value came from.
\<close>

subsection \<open>Explicit inputs\<close>

text \<open>
  \<open>ExplicitInputs\<close> rejects empty and repeated identifiers; \<open>insert(\<dots>).second\<close> of a set of the
  identifiers seen so far is membership in that set.
\<close>

datatype explicit_error = EmptyIdentifier | DuplicateIdentifier

fun check_identifiers :: "string set \<Rightarrow> explicit_input list \<Rightarrow> explicit_error + unit" where
  "check_identifiers seen [] = Inr ()"
| "check_identifiers seen (v # vs) =
     (if ei_identifier v = [] then Inl EmptyIdentifier
      else if ei_identifier v \<in> seen then Inl DuplicateIdentifier
      else check_identifiers (insert (ei_identifier v) seen) vs)"

definition ExplicitInputs :: "explicit_input list \<Rightarrow> explicit_error + explicit_input list" where
  "ExplicitInputs vs = and_then (check_identifiers {} vs) (\<lambda>_. Inr vs)"

definition FindExplicit :: "explicit_input list \<Rightarrow> string \<Rightarrow> explicit_input option" where
  "FindExplicit vs exact_identifier = find (\<lambda>v. ei_identifier v = exact_identifier) vs"

text \<open>The double constructor of an explicit input normalizes a negative zero.\<close>

definition ExplicitDouble :: "string \<Rightarrow> u64 \<Rightarrow> explicit_input" where
  "ExplicitDouble identifier v =
     \<lparr>ei_identifier = identifier, ei_value = DoubleScalar (if double_eq v 0 then 0 else v)\<rparr>"

subsection \<open>Resolved inputs\<close>

datatype input_state = UNBOUND | BOUND_NULL | BOUND_VALUE

datatype input_source = SOURCE_NONE | SOURCE_EXPLICIT | SOURCE_DEFAULT_VALUE

record resolved_input =
  rs_name :: string
  rs_type :: scalar_type
  rs_state :: input_state
  rs_source :: input_source
  rs_value :: "scalar_value option"

definition Unbound :: "relation_input \<Rightarrow> resolved_input" where
  "Unbound input = \<lparr>rs_name = ri_name input, rs_type = ri_type input, rs_state = UNBOUND,
     rs_source = SOURCE_NONE, rs_value = None\<rparr>"

definition BoundNull :: "relation_input \<Rightarrow> input_source \<Rightarrow> resolved_input" where
  "BoundNull input source = \<lparr>rs_name = ri_name input, rs_type = ri_type input, rs_state = BOUND_NULL,
     rs_source = source, rs_value = None\<rparr>"

definition BoundValue :: "relation_input \<Rightarrow> input_source \<Rightarrow> scalar_value \<Rightarrow> resolved_input" where
  "BoundValue input source v = \<lparr>rs_name = ri_name input, rs_type = ri_type input,
     rs_state = BOUND_VALUE, rs_source = source, rs_value = Some v\<rparr>"

definition TypesAgree :: "scalar_type \<Rightarrow> scalar_value \<Rightarrow> bool" where
  "TypesAgree compiled explicit_value \<longleftrightarrow> compiled = scalar_Type explicit_value"

definition DefaultValue :: "relation_input \<Rightarrow> scalar_value \<Rightarrow> planning_error + resolved_input" where
  "DefaultValue input v =
     (if scalar_Type v \<noteq> ri_type input
      then Inl (InvalidContract ''compiled relation input default disagrees with its declared type'')
      else if scalar_IsNull v
      then (if \<not> ri_nullable input
            then Inl (InvalidContract ''compiled relation input has a non-nullable NULL default'')
            else Inr (BoundNull input SOURCE_DEFAULT_VALUE))
      else Inr (BoundValue input SOURCE_DEFAULT_VALUE v))"

definition FindResolved :: "resolved_input list \<Rightarrow> string \<Rightarrow> resolved_input option" where
  "FindResolved vs exact_identifier = find (\<lambda>v. rs_name v = exact_identifier) vs"

fun check_declared :: "string set \<Rightarrow> relation_input list \<Rightarrow> planning_error + string set" where
  "check_declared declared [] = Inr declared"
| "check_declared declared (i # is) =
     (if ri_name i \<in> declared
      then Inl (InvalidContract ''compiled relation contains a duplicate input identifier'')
      else check_declared (insert (ri_name i) declared) is)"

fun check_supplied :: "string set \<Rightarrow> string set \<Rightarrow> explicit_input list \<Rightarrow> planning_error + unit" where
  "check_supplied declared supplied [] = Inr ()"
| "check_supplied declared supplied (v # vs) =
     (if ei_identifier v \<in> supplied
      then Inl (InvalidContract ''scan request contains a duplicate explicit input identifier'')
      else if ei_identifier v \<notin> declared
      then Inl (InvalidContract ''scan request contains an unknown explicit input identifier'')
      else check_supplied declared (insert (ei_identifier v) supplied) vs)"

definition resolve_input :: "explicit_input list \<Rightarrow> relation_input \<Rightarrow> planning_error + resolved_input" where
  "resolve_input explicit_inputs input =
     (case FindExplicit explicit_inputs (ri_name input) of
        Some v \<Rightarrow>
          (if \<not> TypesAgree (ri_type input) (ei_value v)
           then Inl (InvalidContract ''explicit relation input kind disagrees with its compiled declaration'')
           else if scalar_IsNull (ei_value v)
           then (if \<not> ri_nullable input
                 then Inl (InvalidContract ''non-nullable relation input received explicit NULL'')
                 else Inr (BoundNull input SOURCE_EXPLICIT))
           else Inr (BoundValue input SOURCE_EXPLICIT (ei_value v)))
      | None \<Rightarrow>
          (case ri_default input of
             Some v \<Rightarrow> DefaultValue input v
           | None \<Rightarrow> Inr (Unbound input)))"

fun resolve_inputs :: "explicit_input list \<Rightarrow> relation_input list \<Rightarrow> planning_error + resolved_input list" where
  "resolve_inputs explicit_inputs [] = Inr []"
| "resolve_inputs explicit_inputs (i # is) =
     and_then (resolve_input explicit_inputs i) (\<lambda>r.
     and_then (resolve_inputs explicit_inputs is) (\<lambda>rs. Inr (r # rs)))"

definition ResolveRelationInputs ::
  "relation \<Rightarrow> explicit_input list \<Rightarrow> planning_error + resolved_input list" where
  "ResolveRelationInputs relation explicit_inputs =
     and_then (check_declared {} (rel_inputs relation)) (\<lambda>declared.
     and_then (check_supplied declared {} explicit_inputs) (\<lambda>_.
       resolve_inputs explicit_inputs (rel_inputs relation)))"

subsection \<open>Lemmas\<close>

lemma check_declared_Inr:
  "check_declared seen is = Inr r \<longleftrightarrow>
   distinct (map ri_name is) \<and> set (map ri_name is) \<inter> seen = {} \<and> r = seen \<union> set (map ri_name is)"
  by (induction "is" arbitrary: seen) auto

lemma check_supplied_Inr:
  "check_supplied declared seen vs = Inr u \<longleftrightarrow>
   distinct (map ei_identifier vs) \<and> set (map ei_identifier vs) \<inter> seen = {} \<and>
   set (map ei_identifier vs) \<subseteq> declared"
  by (induction vs arbitrary: seen) auto

lemma resolve_inputs_Inr:
  "resolve_inputs ex is = Inr rs \<longleftrightarrow> list_all2 (\<lambda>i r. resolve_input ex i = Inr r) is rs"
  by (induction "is" arbitrary: rs) (auto simp: list_all2_Cons1)

lemma resolve_input_name: "resolve_input ex i = Inr r \<Longrightarrow> rs_name r = ri_name i"
  by (auto simp: resolve_input_def DefaultValue_def BoundNull_def BoundValue_def Unbound_def
      split: option.splits if_splits)

lemma ResolveRelationInputs_Inr:
  "ResolveRelationInputs rel ex = Inr rs \<longleftrightarrow>
   distinct (map ri_name (rel_inputs rel)) \<and> distinct (map ei_identifier ex) \<and>
   set (map ei_identifier ex) \<subseteq> set (map ri_name (rel_inputs rel)) \<and>
   list_all2 (\<lambda>i r. resolve_input ex i = Inr r) (rel_inputs rel) rs"
  by (auto simp: ResolveRelationInputs_def check_declared_Inr check_supplied_Inr resolve_inputs_Inr)

lemma resolved_names:
  "ResolveRelationInputs rel ex = Inr rs \<Longrightarrow> map rs_name rs = map ri_name (rel_inputs rel)"
  by (rule nth_equalityI) (auto simp: ResolveRelationInputs_Inr list_all2_conv_all_nth resolve_input_name)

lemma find_key_distinct:
  assumes "distinct (map key xs)" and "x \<in> set xs"
  shows "find (\<lambda>y. key y = key x) xs = Some x"
  using assms by (induction xs) auto

text \<open>
  The contract of one resolved input: explicit beats default, omission without a default stays
  unbound, NULL only where the declaration allows it, values at the declared type.
\<close>

definition resolved_as :: "explicit_input list \<Rightarrow> relation_input \<Rightarrow> resolved_input \<Rightarrow> bool" where
  "resolved_as ex i r \<longleftrightarrow>
     rs_name r = ri_name i \<and> rs_type r = ri_type i \<and>
     (case FindExplicit ex (ri_name i) of
        Some v \<Rightarrow> rs_source r = SOURCE_EXPLICIT \<and> scalar_Type (ei_value v) = ri_type i \<and>
          rs_value r = (if scalar_IsNull (ei_value v) then None else Some (ei_value v)) \<and> rs_state r \<noteq> UNBOUND
      | None \<Rightarrow>
          (case ri_default i of
             Some v \<Rightarrow> rs_source r = SOURCE_DEFAULT_VALUE \<and> scalar_Type v = ri_type i \<and>
               rs_value r = (if scalar_IsNull v then None else Some v) \<and> rs_state r \<noteq> UNBOUND
           | None \<Rightarrow> rs_source r = SOURCE_NONE \<and> rs_state r = UNBOUND \<and> rs_value r = None)) \<and>
     (rs_state r = BOUND_NULL \<longrightarrow> ri_nullable i \<and> rs_value r = None) \<and>
     (rs_state r = BOUND_VALUE \<longleftrightarrow> rs_value r \<noteq> None)"

lemma resolve_input_resolved_as: "resolve_input ex i = Inr r \<Longrightarrow> resolved_as ex i r"
  by (auto simp: resolve_input_def resolved_as_def DefaultValue_def BoundNull_def BoundValue_def
      Unbound_def TypesAgree_def split: option.splits if_splits)

subsection \<open>Properties\<close>

text \<open>
  C10. Input resolution is faithful: on success there is exactly one resolved input per declared
  input, in declaration order and findable under its name, and each is bound to the explicit
  argument if one was supplied, otherwise to the declared default, otherwise left unbound; NULL
  is bound only for nullable inputs and values have the declared type.
\<close>
theorem resolution_is_faithful:
  assumes "ResolveRelationInputs rel ex = Inr rs"
  shows "list_all2 (resolved_as ex) (rel_inputs rel) rs \<and>
    (\<forall>r\<in>set rs. FindResolved rs (rs_name r) = Some r)"
proof
  show "list_all2 (resolved_as ex) (rel_inputs rel) rs"
    using assms by (auto simp: ResolveRelationInputs_Inr list_all2_conv_all_nth resolve_input_resolved_as)
  have "distinct (map rs_name rs)"
    using resolved_names [OF assms] assms by (simp add: ResolveRelationInputs_Inr)
  then show "\<forall>r\<in>set rs. FindResolved rs (rs_name r) = Some r"
    by (simp add: FindResolved_def find_key_distinct)
qed

definition sample_inputs_relation :: relation where
  "sample_inputs_relation = \<lparr>rel_columns = [], rel_inputs =
     [\<lparr>ri_name = ''owner'', ri_type = SCALAR_VARCHAR, ri_nullable = False, ri_default = None\<rparr>,
      \<lparr>ri_name = ''size'', ri_type = SCALAR_BIGINT, ri_nullable = True, ri_default = Some (BigintScalar 30)\<rparr>],
     rel_mappings = [], rel_operations = []\<rparr>"

definition sample_explicit :: "explicit_input list" where
  "sample_explicit = [\<lparr>ei_identifier = ''owner'', ei_value = VarcharScalar ''duckdb''\<rparr>]"

definition sample_resolved :: "resolved_input list" where
  "sample_resolved = (case ResolveRelationInputs sample_inputs_relation sample_explicit of Inr r \<Rightarrow> r)"

lemma sample_resolution: "ResolveRelationInputs sample_inputs_relation sample_explicit = Inr sample_resolved"
  by code_simp

theorem resolution_is_faithful_witness:
  "list_all2 (resolved_as sample_explicit) (rel_inputs sample_inputs_relation) sample_resolved"
  using resolution_is_faithful [OF sample_resolution] by simp

text \<open>The value offered for an input: the explicit one, or the declared default.\<close>

definition offered :: "explicit_input list \<Rightarrow> relation_input \<Rightarrow> scalar_value option" where
  "offered ex i =
     (case FindExplicit ex (ri_name i) of Some v \<Rightarrow> Some (ei_value v) | None \<Rightarrow> ri_default i)"

lemma resolve_input_ok:
  "(\<exists>r. resolve_input ex i = Inr r) \<longleftrightarrow>
   (\<forall>v. offered ex i = Some v \<longrightarrow> scalar_Type v = ri_type i \<and> (scalar_IsNull v \<longrightarrow> ri_nullable i))"
  by (auto simp: resolve_input_def offered_def DefaultValue_def TypesAgree_def split: option.splits)

text \<open>
  C11. Resolution fails only for a stated reason: it succeeds exactly when declared names are
  distinct, the supplied names are distinct and all declared, and the value offered for each
  declared input (explicit, else default) has the declared type and is NULL only for a nullable
  input.
\<close>
theorem resolution_succeeds_iff:
  "(\<exists>rs. ResolveRelationInputs rel ex = Inr rs) \<longleftrightarrow>
   distinct (map ri_name (rel_inputs rel)) \<and> distinct (map ei_identifier ex) \<and>
   set (map ei_identifier ex) \<subseteq> set (map ri_name (rel_inputs rel)) \<and>
   list_all (\<lambda>i. \<forall>v. offered ex i = Some v \<longrightarrow>
       scalar_Type v = ri_type i \<and> (scalar_IsNull v \<longrightarrow> ri_nullable i)) (rel_inputs rel)"
proof -
  have "(\<exists>rs. list_all2 (\<lambda>i r. resolve_input ex i = Inr r) xs rs) \<longleftrightarrow>
      list_all (\<lambda>i. \<exists>r. resolve_input ex i = Inr r) xs" for xs
    by (induction xs) (auto simp: list_all2_Cons1)
  then show ?thesis by (auto simp: ResolveRelationInputs_Inr resolve_input_ok)
qed

theorem resolution_succeeds_iff_witness:
  "distinct (map ri_name (rel_inputs sample_inputs_relation))"
proof -
  have "\<exists>rs. ResolveRelationInputs sample_inputs_relation sample_explicit = Inr rs"
    using sample_resolution by blast
  then show ?thesis by (simp only: resolution_succeeds_iff)
qed

end
