(* ===== verification/Predicate_Classifier.thy ===== *)
theory Predicate_Classifier
  imports Compiled_Model "HOL-Library.Multiset"
begin

text \<open>
  The predicate classifier, \<open>src/src/semantics/predicate_classifier.cpp\<close>: which part of the
  requested predicate may be sent to the remote service, with which accuracy, and what DuckDB
  still evaluates. The central theorems say that the rows a scan returns after DuckDB's retained
  filter are the rows of the unrestricted scan after the same filter.
\<close>

subsection \<open>Decisions\<close>

datatype rest_scalar_kind = REST_BOOLEAN | REST_BIGINT | REST_VARCHAR | REST_DOUBLE

datatype planned_predicate = TRUE_FOR_BASE_DOMAIN | VISIBILITY_EQUALS_PRIVATE | TYPED_EQUALITY
  | COMPLETE_DUCKDB_FILTER

datatype remote_accuracy = REMOTE_UNSUPPORTED | REMOTE_SUPERSET | REMOTE_EXACT

datatype decision_category = CATEGORY_EXACT | CATEGORY_SUPERSET | CATEGORY_UNSUPPORTED | CATEGORY_AMBIGUOUS

datatype decision_reason = NO_REMOTE_CANDIDATE | SELECTED_EXACT_MAPPING | SELECTED_SUPERSET_MAPPING
  | STRUCTURE_UNSUPPORTED | CAPABILITY_UNAVAILABLE | MAPPING_UNAVAILABLE
  | DISJUNCTION_ENCODING_UNAVAILABLE | COMPLEMENT_ENCODING_UNAVAILABLE | AMBIGUOUS_CONDITIONAL_INPUT

datatype conditional_input = INPUT_NONE | INPUT_VISIBILITY_PRIVATE | INPUT_REST_QUERY_BINDING

record typed_equality =
  te_present :: bool
  te_column_name :: string
  te_kind :: rest_scalar_kind
  te_boolean_value :: bool
  te_bigint_value :: int
  te_varchar_value :: string
  te_double_value :: u64
  te_conditional_input_id :: string
  te_proof_identity :: string
  te_base_domain_identity :: string
  te_occurrence_preservation :: occurrence_preservation

text \<open>The residual owner is always DuckDB, the only value of \<open>RelationalOwner\<close>.\<close>

record predicate_decision =
  pd_remote_predicate :: planned_predicate
  pd_remote_accuracy :: remote_accuracy
  pd_residual_predicate :: planned_predicate
  pd_conditional_input :: conditional_input
  pd_typed_equality :: typed_equality
  pd_category :: decision_category
  pd_reason_code :: decision_reason
  pd_reason :: string

record input_binding =
  ib_name :: string
  ib_encoded_value :: string

record candidate_bindings =
  cb_values :: "input_binding list"
  cb_conflicting :: bool

type_synonym matched = "mapping \<times> predicate"

definition NoTypedEquality :: typed_equality where
  "NoTypedEquality = \<lparr>te_present = False, te_column_name = [], te_kind = REST_VARCHAR,
     te_boolean_value = False, te_bigint_value = 0, te_varchar_value = [], te_double_value = 0,
     te_conditional_input_id = [], te_proof_identity = [], te_base_domain_identity = [],
     te_occurrence_preservation = PRESERVES_ALL_MATCHING_BASE_OCCURRENCES\<rparr>"

fun PlanScalarKind :: "scalar_type \<Rightarrow> rest_scalar_kind" where
  "PlanScalarKind SCALAR_BOOLEAN = REST_BOOLEAN"
| "PlanScalarKind SCALAR_BIGINT = REST_BIGINT"
| "PlanScalarKind SCALAR_VARCHAR = REST_VARCHAR"
| "PlanScalarKind SCALAR_DOUBLE = REST_DOUBLE"

definition PlanTypedEquality :: "mapping \<Rightarrow> typed_equality" where
  "PlanTypedEquality mp =
     (let literal = pm_typed_literal mp in
      if pm_literal mp \<noteq> PACKAGE_TYPED_LITERAL \<or> scalar_IsNull literal then NoTypedEquality
      else \<lparr>te_present = True, te_column_name = pm_column_name mp,
            te_kind = PlanScalarKind (scalar_Type literal),
            te_boolean_value = (case literal of BooleanScalar b \<Rightarrow> b | _ \<Rightarrow> False),
            te_bigint_value = (case literal of BigintScalar n \<Rightarrow> n | _ \<Rightarrow> 0),
            te_varchar_value = (case literal of VarcharScalar s \<Rightarrow> s | _ \<Rightarrow> []),
            te_double_value = (case literal of DoubleScalar d \<Rightarrow> d | _ \<Rightarrow> 0),
            te_conditional_input_id = pm_remote_input_name mp,
            te_proof_identity = pm_proof_identity_value mp,
            te_base_domain_identity = pm_base_domain_value mp,
            te_occurrence_preservation = pm_occurrence_preservation mp\<rparr>)"

fun ReasonText :: "decision_reason \<Rightarrow> string" where
  "ReasonText NO_REMOTE_CANDIDATE = ''no structured remote candidate was offered; the complete base-domain traversal remains authoritative''"
| "ReasonText SELECTED_EXACT_MAPPING = ''validated three-valued equivalence, exact occurrence preservation, and one executable input establish an Exact remote restriction; DuckDB retains semantic ownership''"
| "ReasonText SELECTED_SUPERSET_MAPPING = ''validated implication, required occurrence preservation, and one executable input establish a Superset remote restriction; DuckDB retains semantic ownership''"
| "ReasonText STRUCTURE_UNSUPPORTED = ''the offered predicate structure has no complete executable remote proof; remote TRUE preserves the base domain and DuckDB remains authoritative''"
| "ReasonText CAPABILITY_UNAVAILABLE = ''structured inspection or DuckDB residual-retention capability is unavailable; remote TRUE preserves correctness''"
| "ReasonText MAPPING_UNAVAILABLE = ''no validated mapping matches the typed candidate on the selected operation; remote TRUE preserves correctness''"
| "ReasonText DISJUNCTION_ENCODING_UNAVAILABLE = ''the selected operation declares no occurrence-preserving disjunction encoding; remote TRUE preserves every branch''"
| "ReasonText COMPLEMENT_ENCODING_UNAVAILABLE = ''the selected operation declares no three-valued complement encoding; remote TRUE avoids unsafe negation''"
| "ReasonText AMBIGUOUS_CONDITIONAL_INPUT = ''multiple safe candidate occurrences require an undeclared compound input encoding; the unrestricted plan avoids an arbitrary choice''"

declare ReasonText.simps [simp del]

subsection \<open>Validation and matching\<close>

definition IsPackageProfile :: "mapping \<Rightarrow> bool" where
  "IsPackageProfile mp \<longleftrightarrow>
     pm_literal mp = PACKAGE_TYPED_LITERAL \<or> pm_proof_identity mp = PACKAGE_DECLARED_V1 \<or>
     pm_base_domain mp = PACKAGE_DECLARED_OCCURRENCE_DOMAIN"

definition ValidateMappingFacts :: "operation \<Rightarrow> mapping \<Rightarrow> planning_error + unit" where
  "ValidateMappingFacts operation mp =
     (if pm_operation_name mp \<noteq> op_name operation \<or> pm_remote_input_name mp = [] \<or>
         (\<not> IsPackageProfile mp \<and> pm_encoded_remote_value mp = [])
      then Inl (InvalidContract ''selected predicate mapping contains inconsistent operation or encoding facts'')
      else if IsPackageProfile mp
      then (let expected_occurrences =
                  (if pm_accuracy mp = ACCURACY_EXACT then PRESERVES_EXACT_MATCHING_BASE_OCCURRENCES
                   else PRESERVES_ALL_MATCHING_BASE_OCCURRENCES) in
            if pm_literal mp \<noteq> PACKAGE_TYPED_LITERAL \<or> scalar_IsNull (pm_typed_literal mp) \<or>
               pm_proof_identity mp \<noteq> PACKAGE_DECLARED_V1 \<or> pm_proof_identity_value mp = [] \<or>
               pm_base_domain mp \<noteq> PACKAGE_DECLARED_OCCURRENCE_DOMAIN \<or> pm_base_domain_value mp = [] \<or>
               pm_matching_fixture mp = [] \<or> pm_false_or_null_fixture mp = [] \<or>
               pm_duplicates_fixture mp = [] \<or> pm_occurrence_preservation mp \<noteq> expected_occurrences
            then Inl (InvalidContract ''package predicate mapping lacks its typed occurrence proof'')
            else Inr ())
      else (case pm_accuracy mp of
              ACCURACY_EXACT \<Rightarrow>
                (if pm_proof_identity mp \<noteq> CONTROLLED_EXACT_DUPLICATE_REPOSITORY_VISIBILITY \<or>
                    pm_base_domain mp \<noteq> CONTROLLED_DUPLICATE_REPOSITORY_OCCURRENCES \<or>
                    pm_occurrence_preservation mp \<noteq> PRESERVES_EXACT_MATCHING_BASE_OCCURRENCES
                 then Inl (InvalidContract ''Exact predicate mapping lacks its controlled three-valued occurrence proof'')
                 else Inr ())
            | ACCURACY_SUPERSET \<Rightarrow>
                (if pm_proof_identity mp \<noteq> GITHUB_REST_2022_11_28_REPOSITORY_VISIBILITY \<or>
                    pm_base_domain mp \<noteq> GITHUB_AUTHENTICATED_REPOSITORY_OCCURRENCES \<or>
                    pm_occurrence_preservation mp \<noteq> PRESERVES_ALL_MATCHING_BASE_OCCURRENCES
                 then Inl (InvalidContract ''Superset predicate mapping lacks its required occurrence-preservation proof'')
                 else Inr ())))"

fun ColumnTypeMatches :: "scalar_type \<Rightarrow> value_kind \<Rightarrow> bool" where
  "ColumnTypeMatches t KIND_BIGINT \<longleftrightarrow> t = SCALAR_BIGINT"
| "ColumnTypeMatches t KIND_VARCHAR \<longleftrightarrow> t = SCALAR_VARCHAR"
| "ColumnTypeMatches t KIND_BOOLEAN \<longleftrightarrow> t = SCALAR_BOOLEAN"
| "ColumnTypeMatches t KIND_DOUBLE \<longleftrightarrow> t = SCALAR_DOUBLE"

fun TypedLiteralMatches :: "scalar_value \<Rightarrow> predicate_value \<Rightarrow> bool" where
  "TypedLiteralMatches (BooleanScalar a) (BooleanValue b) \<longleftrightarrow> a = b"
| "TypedLiteralMatches (BigintScalar a) (BigIntValue b) \<longleftrightarrow> a = b"
| "TypedLiteralMatches (VarcharScalar a) (VarcharValue b) \<longleftrightarrow> a = b"
| "TypedLiteralMatches (DoubleScalar a) (DoubleValue b) \<longleftrightarrow> double_eq a b"
| "TypedLiteralMatches _ _ \<longleftrightarrow> False"

fun SameTypedLiteral :: "scalar_value \<Rightarrow> scalar_value \<Rightarrow> bool" where
  "SameTypedLiteral (NullScalar s) (NullScalar t) \<longleftrightarrow> s = t"
| "SameTypedLiteral (BooleanScalar a) (BooleanScalar b) \<longleftrightarrow> a = b"
| "SameTypedLiteral (BigintScalar a) (BigintScalar b) \<longleftrightarrow> a = b"
| "SameTypedLiteral (VarcharScalar a) (VarcharScalar b) \<longleftrightarrow> a = b"
| "SameTypedLiteral (DoubleScalar a) (DoubleScalar b) \<longleftrightarrow> double_eq a b"
| "SameTypedLiteral _ _ \<longleftrightarrow> False"

text \<open>
  Every caller has validated the candidate's bound columns first, so the index below is in range
  (\<open>validated_index\<close>).
\<close>

definition MappingMatches ::
  "relation \<Rightarrow> operation \<Rightarrow> mapping \<Rightarrow> predicate \<Rightarrow> planning_error + bool" where
  "MappingMatches relation operation mp candidate =
     (case candidate of
        Comparison idx bound_type literal \<Rightarrow>
          (let col = rel_columns relation ! idx;
               package_match = (pm_literal mp = PACKAGE_TYPED_LITERAL \<and>
                                TypedLiteralMatches (pm_typed_literal mp) literal);
               native_match = (\<not> cc_nullable col \<and> pm_literal mp = VARCHAR_PRIVATE \<and>
                               literal = VarcharValue ''private'') in
           if pm_operation_name mp \<noteq> op_name operation then Inr False
           else if cc_shape col \<noteq> SHAPE_SCALAR \<or> cc_name col \<noteq> pm_column_name mp \<or>
                   \<not> ColumnTypeMatches (cc_element_type col) bound_type
           then Inr False
           else if \<not> package_match \<and> \<not> native_match then Inr False
           else and_then (ValidateMappingFacts operation mp) (\<lambda>_. Inr True))
      | _ \<Rightarrow> Inr False)"

definition invalid_candidate :: planning_error where
  "invalid_candidate = InvalidContract ''predicate candidate contains an invalid bound column or typed literal''"

definition comparison_bound :: "relation \<Rightarrow> nat \<Rightarrow> value_kind \<Rightarrow> predicate_value \<Rightarrow> bool" where
  "comparison_bound relation idx bound_type literal \<longleftrightarrow>
     idx < length (rel_columns relation) \<and> cc_shape (rel_columns relation ! idx) = SHAPE_SCALAR \<and>
     ColumnTypeMatches (cc_element_type (rel_columns relation ! idx)) bound_type \<and>
     bound_type = value_Kind literal"

fun ValidateCandidateBindings :: "relation \<Rightarrow> predicate \<Rightarrow> planning_error + unit"
  and ValidateChildBindings :: "relation \<Rightarrow> predicate list \<Rightarrow> planning_error + unit" where
  "ValidateCandidateBindings relation Unrestricted = Inr ()"
| "ValidateCandidateBindings relation (Unsupported _) = Inr ()"
| "ValidateCandidateBindings relation (Comparison idx bound_type literal) =
     (if comparison_bound relation idx bound_type literal then Inr () else Inl invalid_candidate)"
| "ValidateCandidateBindings relation (Conjunction cs) = ValidateChildBindings relation cs"
| "ValidateCandidateBindings relation (Disjunction cs) = ValidateChildBindings relation cs"
| "ValidateCandidateBindings relation (Negation c) = ValidateChildBindings relation [c]"
| "ValidateChildBindings relation [] = Inr ()"
| "ValidateChildBindings relation (c # cs) =
     and_then (ValidateCandidateBindings relation c) (\<lambda>_. ValidateChildBindings relation cs)"

definition ValidateCandidateContract :: "relation \<Rightarrow> scan_request \<Rightarrow> planning_error + unit" where
  "ValidateCandidateContract relation request =
     (let p = sr_requested_predicate request in
      if Depth p = 0 \<or> Depth p > MAX_REQUESTED_PREDICATE_DEPTH \<or>
         NodeCount p = 0 \<or> NodeCount p > MAX_REQUESTED_PREDICATE_NODES
      then Inl (InvalidContract ''predicate candidate exceeds the shared structural contract'')
      else ValidateCandidateBindings relation p)"

subsection \<open>Collecting conjunctive matches\<close>

fun matching_mappings ::
  "relation \<Rightarrow> operation \<Rightarrow> predicate \<Rightarrow> mapping list \<Rightarrow> planning_error + mapping list" where
  "matching_mappings relation operation candidate [] = Inr []"
| "matching_mappings relation operation candidate (mp # mps) =
     and_then (MappingMatches relation operation mp candidate) (\<lambda>hit.
     and_then (matching_mappings relation operation candidate mps) (\<lambda>rest.
       Inr (if hit then mp # rest else rest)))"

text \<open>The state of the walk: the matches so far and whether an unmapped structure was seen.\<close>

type_synonym collected = "matched list \<times> bool"

fun CollectConjunctiveMatches ::
  "relation \<Rightarrow> operation \<Rightarrow> predicate \<Rightarrow> collected \<Rightarrow> planning_error + collected"
and CollectChildMatches ::
  "relation \<Rightarrow> operation \<Rightarrow> predicate list \<Rightarrow> collected \<Rightarrow> planning_error + collected" where
  "CollectConjunctiveMatches relation operation Unrestricted acc = Inr acc"
| "CollectConjunctiveMatches relation operation (Comparison idx bound_type literal) (matches, unmapped) =
     and_then (matching_mappings relation operation (Comparison idx bound_type literal)
                 (rel_mappings relation)) (\<lambda>hits.
       Inr (matches @ map (\<lambda>mp. (mp, Comparison idx bound_type literal)) hits, unmapped \<or> hits = []))"
| "CollectConjunctiveMatches relation operation (Conjunction cs) acc =
     CollectChildMatches relation operation cs acc"
| "CollectConjunctiveMatches relation operation (Disjunction cs) (matches, unmapped) = Inr (matches, True)"
| "CollectConjunctiveMatches relation operation (Negation c) (matches, unmapped) = Inr (matches, True)"
| "CollectConjunctiveMatches relation operation (Unsupported n) (matches, unmapped) = Inr (matches, True)"
| "CollectChildMatches relation operation [] acc = Inr acc"
| "CollectChildMatches relation operation (c # cs) acc =
     and_then (CollectConjunctiveMatches relation operation c acc)
       (CollectChildMatches relation operation cs)"

subsection \<open>Residuals and decisions\<close>

text \<open>The loops over the mappings that stop at the first match.\<close>

fun first_match ::
  "relation \<Rightarrow> operation \<Rightarrow> predicate \<Rightarrow> mapping list \<Rightarrow> planning_error + mapping option" where
  "first_match relation operation candidate [] = Inr None"
| "first_match relation operation candidate (mp # mps) =
     and_then (MappingMatches relation operation mp candidate) (\<lambda>hit.
       if hit then Inr (Some mp) else first_match relation operation candidate mps)"

definition ResidualPredicate :: "relation \<Rightarrow> operation \<Rightarrow> scan_request \<Rightarrow> planning_error + planned_predicate" where
  "ResidualPredicate relation operation request =
     (case sr_retained_predicate_scope request of
        SCOPE_UNRESTRICTED \<Rightarrow> Inr TRUE_FOR_BASE_DOMAIN
      | SCOPE_COMPLETE_DUCKDB_FILTER \<Rightarrow> Inr COMPLETE_DUCKDB_FILTER
      | SCOPE_REQUESTED_PREDICATE \<Rightarrow>
          (if pred_Kind (sr_requested_predicate request) = PK_COMPARISON
           then and_then (first_match relation operation (sr_requested_predicate request)
                            (rel_mappings relation)) (\<lambda>hit.
                  Inr (case hit of
                         Some mp \<Rightarrow> (if pm_literal mp = PACKAGE_TYPED_LITERAL then TYPED_EQUALITY
                                     else VISIBILITY_EQUALS_PRIVATE)
                       | None \<Rightarrow> COMPLETE_DUCKDB_FILTER))
           else Inr COMPLETE_DUCKDB_FILTER))"

definition ResidualTypedEquality ::
  "relation \<Rightarrow> operation \<Rightarrow> scan_request \<Rightarrow> planned_predicate \<Rightarrow> planning_error + typed_equality" where
  "ResidualTypedEquality relation operation request residual =
     (if residual \<noteq> TYPED_EQUALITY \<or> pred_Kind (sr_requested_predicate request) \<noteq> PK_COMPARISON
      then Inr NoTypedEquality
      else and_then (first_match relation operation (sr_requested_predicate request)
                       (rel_mappings relation)) (\<lambda>hit.
             case hit of
               Some mp \<Rightarrow> Inr (PlanTypedEquality mp)
             | None \<Rightarrow> Inl (InvalidContract ''typed residual predicate lost its validated package mapping'')))"

definition Fallback ::
  "relation \<Rightarrow> operation \<Rightarrow> scan_request \<Rightarrow> decision_category \<Rightarrow> decision_reason \<Rightarrow>
   planning_error + predicate_decision" where
  "Fallback relation operation request category reason =
     and_then (ResidualPredicate relation operation request) (\<lambda>residual.
     and_then (ResidualTypedEquality relation operation request residual) (\<lambda>typed.
       Inr \<lparr>pd_remote_predicate = TRUE_FOR_BASE_DOMAIN, pd_remote_accuracy = REMOTE_UNSUPPORTED,
            pd_residual_predicate = residual, pd_conditional_input = INPUT_NONE,
            pd_typed_equality = typed, pd_category = category, pd_reason_code = reason,
            pd_reason = ReasonText reason\<rparr>))"

definition IsSingleComparison :: "predicate \<Rightarrow> bool" where
  "IsSingleComparison candidate \<longleftrightarrow> pred_Kind candidate = PK_COMPARISON"

definition SameMappingAndBinding :: "matched \<Rightarrow> matched \<Rightarrow> bool" where
  "SameMappingAndBinding left right \<longleftrightarrow>
     (let l = fst left; r = fst right in
      StructurallyEquals (snd left) (snd right) \<and>
      pm_column_name l = pm_column_name r \<and> pm_literal l = pm_literal r \<and>
      SameTypedLiteral (pm_typed_literal l) (pm_typed_literal r) \<and>
      pm_operation_name l = pm_operation_name r \<and>
      pm_remote_input_name l = pm_remote_input_name r \<and>
      pm_encoded_remote_value l = pm_encoded_remote_value r \<and>
      pm_accuracy l = pm_accuracy r \<and> pm_proof_identity l = pm_proof_identity r \<and>
      pm_proof_identity_value l = pm_proof_identity_value r \<and>
      pm_base_domain l = pm_base_domain r \<and> pm_base_domain_value l = pm_base_domain_value r \<and>
      pm_matching_fixture l = pm_matching_fixture r \<and>
      pm_false_or_null_fixture l = pm_false_or_null_fixture r \<and>
      pm_duplicates_fixture l = pm_duplicates_fixture r \<and>
      pm_occurrence_preservation l = pm_occurrence_preservation r)"

fun AllMatchesEquivalent :: "matched list \<Rightarrow> bool" where
  "AllMatchesEquivalent [] \<longleftrightarrow> True"
| "AllMatchesEquivalent (front # rest) \<longleftrightarrow> list_all (SameMappingAndBinding front) rest"

definition IsEquivalentRepeatedConjunction :: "predicate \<Rightarrow> matched list \<Rightarrow> bool \<Rightarrow> bool" where
  "IsEquivalentRepeatedConjunction candidate matches unmapped \<longleftrightarrow>
     (case candidate of
        Conjunction cs \<Rightarrow> \<not> unmapped \<and> length cs = length matches \<and> AllMatchesEquivalent matches
      | _ \<Rightarrow> False)"

fun add_bindings :: "matched list \<Rightarrow> input_binding list \<Rightarrow> input_binding list option" where
  "add_bindings [] values = Some values"
| "add_bindings ((mp, c) # rest) values =
     (case find (\<lambda>b. ib_name b = pm_remote_input_name mp) values of
        None \<Rightarrow> add_bindings rest (values @ [\<lparr>ib_name = pm_remote_input_name mp,
                                            ib_encoded_value = pm_encoded_remote_value mp\<rparr>])
      | Some b \<Rightarrow> (if ib_encoded_value b \<noteq> pm_encoded_remote_value mp then None
                   else add_bindings rest values))"

definition ResolveCandidateInputBindings ::
  "relation \<Rightarrow> operation \<Rightarrow> scan_request \<Rightarrow> planning_error + candidate_bindings" where
  "ResolveCandidateInputBindings relation operation request =
     and_then (ValidateCandidateContract relation request) (\<lambda>_.
       let p = sr_requested_predicate request; nothing = \<lparr>cb_values = [], cb_conflicting = False\<rparr> in
       if \<not> sr_selective_predicate request \<or> \<not> sr_retains_predicate request then Inr nothing
       else if pred_Kind p \<noteq> PK_COMPARISON \<and> pred_Kind p \<noteq> PK_CONJUNCTION then Inr nothing
       else and_then (CollectConjunctiveMatches relation operation p ([], False)) (\<lambda>(matches, _).
         Inr (case add_bindings matches [] of
                None \<Rightarrow> \<lparr>cb_values = [], cb_conflicting = True\<rparr>
              | Some values \<Rightarrow> \<lparr>cb_values = sort_key ib_name values, cb_conflicting = False\<rparr>)))"

fun validate_operation_mappings :: "operation \<Rightarrow> mapping list \<Rightarrow> planning_error + unit" where
  "validate_operation_mappings operation [] = Inr ()"
| "validate_operation_mappings operation (mp # mps) =
     and_then (if pm_operation_name mp = op_name operation then ValidateMappingFacts operation mp
               else Inr ()) (\<lambda>_. validate_operation_mappings operation mps)"

definition Classify :: "relation \<Rightarrow> operation \<Rightarrow> scan_request \<Rightarrow> planning_error + predicate_decision" where
  "Classify relation operation request =
     (let p = sr_requested_predicate request; fallback = Fallback relation operation request in
      and_then (ValidateCandidateContract relation request) (\<lambda>_.
      and_then (validate_operation_mappings operation (rel_mappings relation)) (\<lambda>_.
      if pred_Kind p = PK_UNRESTRICTED
      then fallback CATEGORY_UNSUPPORTED NO_REMOTE_CANDIDATE
      else if \<not> sr_selective_predicate request \<or> \<not> sr_retains_predicate request
      then fallback CATEGORY_UNSUPPORTED CAPABILITY_UNAVAILABLE
      else if pred_Kind p = PK_DISJUNCTION
      then fallback CATEGORY_UNSUPPORTED DISJUNCTION_ENCODING_UNAVAILABLE
      else if pred_Kind p = PK_NEGATION
      then fallback CATEGORY_UNSUPPORTED COMPLEMENT_ENCODING_UNAVAILABLE
      else if pred_Kind p = PK_UNSUPPORTED
      then fallback CATEGORY_UNSUPPORTED STRUCTURE_UNSUPPORTED
      else and_then (CollectConjunctiveMatches relation operation p ([], False)) (\<lambda>(matches, unmapped).
        if matches = []
        then fallback CATEGORY_UNSUPPORTED (if unmapped then MAPPING_UNAVAILABLE else STRUCTURE_UNSUPPORTED)
        else if length matches > 1 \<and> \<not> AllMatchesEquivalent matches
        then fallback CATEGORY_AMBIGUOUS AMBIGUOUS_CONDITIONAL_INPUT
        else
          let mp = fst (hd matches);
              exact = (pm_accuracy mp = ACCURACY_EXACT \<and> \<not> unmapped \<and>
                       (IsSingleComparison p \<or> IsEquivalentRepeatedConjunction p matches unmapped));
              reason = (if exact then SELECTED_EXACT_MAPPING else SELECTED_SUPERSET_MAPPING);
              package = (pm_literal mp = PACKAGE_TYPED_LITERAL) in
          and_then (ResidualPredicate relation operation request) (\<lambda>residual.
            Inr \<lparr>pd_remote_predicate = (if package then TYPED_EQUALITY else VISIBILITY_EQUALS_PRIVATE),
                 pd_remote_accuracy = (if exact then REMOTE_EXACT else REMOTE_SUPERSET),
                 pd_residual_predicate = residual,
                 pd_conditional_input = (if package then INPUT_REST_QUERY_BINDING
                                         else INPUT_VISIBILITY_PRIVATE),
                 pd_typed_equality = PlanTypedEquality mp,
                 pd_category = (if exact then CATEGORY_EXACT else CATEGORY_SUPERSET),
                 pd_reason_code = reason, pd_reason = ReasonText reason\<rparr>)))))"

subsection \<open>What a mapping restricts\<close>

fun column_position :: "string \<Rightarrow> column list \<Rightarrow> nat option" where
  "column_position name [] = None"
| "column_position name (c # cs) =
     (if cc_name c = name then Some 0 else map_option Suc (column_position name cs))"

fun literal_value :: "scalar_value \<Rightarrow> predicate_value option" where
  "literal_value (NullScalar _) = None"
| "literal_value (BooleanScalar b) = Some (BooleanValue b)"
| "literal_value (BigintScalar n) = Some (BigIntValue n)"
| "literal_value (VarcharScalar s) = Some (VarcharValue s)"
| "literal_value (DoubleScalar d) = Some (DoubleValue d)"

text \<open>
  The restriction a mapping asks the service for: its column equals its literal, with SQL's
  UNKNOWN for NULL.
\<close>

definition mapping_literal :: "mapping \<Rightarrow> predicate_value option" where
  "mapping_literal mp =
     (if pm_literal mp = PACKAGE_TYPED_LITERAL then literal_value (pm_typed_literal mp)
      else Some (VarcharValue ''private''))"

definition restriction :: "relation \<Rightarrow> mapping \<Rightarrow> row \<Rightarrow> truth" where
  "restriction relation mp r =
     (case (column_position (pm_column_name mp) (rel_columns relation), mapping_literal mp) of
        (Some i, Some l) \<Rightarrow> sql_equals (cell r i) l
      | _ \<Rightarrow> UNKNOWN)"

lemma column_position_distinct:
  "distinct (map cc_name cols) \<Longrightarrow> i < length cols \<Longrightarrow> column_position (cc_name (cols ! i)) cols = Some i"
proof (induction cols arbitrary: i)
  case (Cons c cols)
  show ?case
  proof (cases i)
    case (Suc j)
    with Cons.prems have "cc_name (cols ! j) \<in> cc_name ` set cols" by auto
    with Suc Cons show ?thesis by auto
  qed simp
qed simp

lemma TypedLiteralMatches_value:
  "TypedLiteralMatches s l \<Longrightarrow> \<exists>v. literal_value s = Some v \<and> value_eq v l"
  by (cases s; cases l) auto

lemma MappingMatches_restriction:
  assumes "MappingMatches relation operation mp (Comparison i t l) = Inr True"
    and "distinct (map cc_name (rel_columns relation))" and "i < length (rel_columns relation)"
  shows "restriction relation mp r = sql_equals (cell r i) l"
proof -
  have name: "cc_name (rel_columns relation ! i) = pm_column_name mp"
    and lit: "pm_literal mp = PACKAGE_TYPED_LITERAL \<and> TypedLiteralMatches (pm_typed_literal mp) l \<or>
      pm_literal mp = VARCHAR_PRIVATE \<and> l = VarcharValue ''private''"
    using assms(1) by (auto simp: MappingMatches_def Let_def split: if_splits)
  have "column_position (pm_column_name mp) (rel_columns relation) = Some i"
    using column_position_distinct [OF assms(2,3)] name by simp
  moreover have "\<exists>v. mapping_literal mp = Some v \<and> value_eq v l"
    using lit by (auto simp: mapping_literal_def dest: TypedLiteralMatches_value)
  ultimately show ?thesis
    by (auto simp: restriction_def intro: sql_equals_cong)
qed

subsection \<open>What the walk collects\<close>

lemma matching_mappings_hits:
  "matching_mappings relation operation c mps = Inr hits \<Longrightarrow> mp \<in> set hits \<Longrightarrow>
   mp \<in> set mps \<and> MappingMatches relation operation mp c = Inr True"
  by (induction mps arbitrary: hits) (auto split: if_splits)

text \<open>A match found below a conjunction: its mapping is declared and its comparison is a conjunct.\<close>

definition sound_match :: "relation \<Rightarrow> operation \<Rightarrow> (predicate \<Rightarrow> bool) \<Rightarrow> matched \<Rightarrow> bool" where
  "sound_match relation operation conjunct m \<longleftrightarrow>
     fst m \<in> set (rel_mappings relation) \<and>
     MappingMatches relation operation (fst m) (snd m) = Inr True \<and>
     (\<exists>i t l. snd m = Comparison i t l \<and> i < length (rel_columns relation)) \<and> conjunct (snd m)"

lemma sound_match_weaken:
  "sound_match relation operation P m \<Longrightarrow> (\<And>c. P c \<Longrightarrow> Q c) \<Longrightarrow> sound_match relation operation Q m"
  by (auto simp: sound_match_def)

definition implied :: "(u64 \<Rightarrow> row \<Rightarrow> truth) \<Rightarrow> row \<Rightarrow> predicate list \<Rightarrow> predicate \<Rightarrow> bool" where
  "implied u r ps c \<longleftrightarrow> ((\<forall>p\<in>set ps. eval_pred u p r = TRUE) \<longrightarrow> eval_pred u c r = TRUE)"

text \<open>
  If nothing unmapped was seen, the collected comparisons determine the value of the conjunction:
  when they all evaluate to \<open>v\<close>, so does the tree, and a tree without any is TRUE.
\<close>

definition determined :: "(u64 \<Rightarrow> row \<Rightarrow> truth) \<Rightarrow> row \<Rightarrow> truth \<Rightarrow> matched list \<Rightarrow> bool" where
  "determined u r value ms \<longleftrightarrow>
     (\<forall>v. (\<forall>m\<in>set ms. eval_pred u (snd m) r = v) \<longrightarrow> value = (if ms = [] then TRUE else v))"

lemma determined_append:
  assumes "determined u r a xs" and "determined u r b ys"
  shows "determined u r (truth_and a b) (xs @ ys)"
  unfolding determined_def
proof (intro allI impI)
  fix v assume v: "\<forall>m\<in>set (xs @ ys). eval_pred u (snd m) r = v"
  then have "a = (if xs = [] then TRUE else v)" "b = (if ys = [] then TRUE else v)"
    using assms by (auto simp: determined_def)
  then show "truth_and a b = (if xs @ ys = [] then TRUE else v)" by auto
qed

lemma Collect_sound:
  "CollectConjunctiveMatches relation operation p (ms, un) = Inr (ms', un') \<Longrightarrow>
   ValidateCandidateBindings relation p = Inr () \<Longrightarrow>
   \<exists>new. ms' = ms @ new \<and> (un \<longrightarrow> un') \<and>
     (\<forall>m\<in>set new. sound_match relation operation (implied u r [p]) m) \<and>
     (\<not> un' \<longrightarrow> determined u r (eval_pred u p r) new)"
  "CollectChildMatches relation operation cs (ms, un) = Inr (ms', un') \<Longrightarrow>
   ValidateChildBindings relation cs = Inr () \<Longrightarrow>
   \<exists>new. ms' = ms @ new \<and> (un \<longrightarrow> un') \<and>
     (\<forall>m\<in>set new. sound_match relation operation (implied u r cs) m) \<and>
     (\<not> un' \<longrightarrow> determined u r (eval_pred u (Conjunction cs) r) new)"
proof (induction relation operation p "(ms, un)" and relation operation cs "(ms, un)"
    arbitrary: ms un ms' un' and ms un ms' un'
    rule: CollectConjunctiveMatches_CollectChildMatches.induct)
  case (1 relation operation)
  then show ?case by (auto simp: determined_def)
next
  case (2 relation operation i t l ms un)
  then obtain hits where hits: "matching_mappings relation operation (Comparison i t l)
        (rel_mappings relation) = Inr hits"
    and res: "ms' = ms @ map (\<lambda>mp. (mp, Comparison i t l)) hits" "un' = (un \<or> hits = [])"
    by auto
  have "i < length (rel_columns relation)"
    using 2(2) by (auto simp: comparison_bound_def split: if_splits)
  then have "\<forall>m\<in>set (map (\<lambda>mp. (mp, Comparison i t l)) hits).
      sound_match relation operation (implied u r [Comparison i t l]) m"
    using matching_mappings_hits [OF hits] by (auto simp: sound_match_def implied_def)
  moreover have "\<not> un' \<longrightarrow> determined u r (eval_pred u (Comparison i t l) r)
      (map (\<lambda>mp. (mp, Comparison i t l)) hits)"
    using res(2) by (cases hits) (auto simp: determined_def)
  ultimately show ?case using res by auto
next
  case (3 relation operation cs ms un)
  from 3(1) 3(2-) obtain new where
    "ms' = ms @ new" "un \<longrightarrow> un'"
    "\<forall>m\<in>set new. sound_match relation operation (implied u r cs) m"
    "\<not> un' \<longrightarrow> determined u r (eval_pred u (Conjunction cs) r) new" by auto
  moreover have "implied u r [Conjunction cs] c" if "implied u r cs c" for c
    using that by (auto simp: implied_def eval_conjunction_TRUE simp del: eval_pred.simps)
  ultimately show ?case by (auto intro: sound_match_weaken)
next
  case (7 relation operation)
  then show ?case by (auto simp: determined_def)
next
  case (8 relation operation c cs ms un)
  then obtain ms1 un1 where one: "CollectConjunctiveMatches relation operation c (ms, un) = Inr (ms1, un1)"
    and two: "CollectChildMatches relation operation cs (ms1, un1) = Inr (ms', un')" by auto
  from 8(1) [OF one] 8(4) obtain new1 where n1:
    "ms1 = ms @ new1" "un \<longrightarrow> un1" "\<forall>m\<in>set new1. sound_match relation operation (implied u r [c]) m"
    "\<not> un1 \<longrightarrow> determined u r (eval_pred u c r) new1" by auto
  from 8(2) [OF one two] 8(4) obtain new2 where n2:
    "ms' = ms1 @ new2" "un1 \<longrightarrow> un'" "\<forall>m\<in>set new2. sound_match relation operation (implied u r cs) m"
    "\<not> un' \<longrightarrow> determined u r (eval_pred u (Conjunction cs) r) new2" by auto
  have "\<forall>m\<in>set (new1 @ new2). sound_match relation operation (implied u r (c # cs)) m"
    using n1(3) n2(3) by (auto intro: sound_match_weaken simp: implied_def)
  moreover have "\<not> un' \<longrightarrow> determined u r (eval_pred u (Conjunction (c # cs)) r) (new1 @ new2)"
    using n1(4) n2(2,4) determined_append [of u r "eval_pred u c r" new1 "eval_pred u (Conjunction cs) r" new2]
    by auto
  ultimately show ?case using n1(1,2) n2(1,2) by auto
qed (auto simp: determined_def)

subsection \<open>What a decision means\<close>

text \<open>The mapping a restricting decision is built from: the front of the collected matches.\<close>

definition selected_mapping :: "relation \<Rightarrow> operation \<Rightarrow> predicate \<Rightarrow> mapping option" where
  "selected_mapping relation operation p =
     (case CollectConjunctiveMatches relation operation p ([], False) of
        Inr (m # _, _) \<Rightarrow> Some (fst m)
      | _ \<Rightarrow> None)"

lemma Fallback_unrestricted:
  "Fallback relation operation request category reason = Inr d \<Longrightarrow>
   pd_remote_accuracy d = REMOTE_UNSUPPORTED \<and> pd_remote_predicate d = TRUE_FOR_BASE_DOMAIN \<and>
   pd_conditional_input d = INPUT_NONE"
  by (auto simp: Fallback_def)

lemma Classify_restricting:
  assumes "Classify relation operation request = Inr d"
    and fb: "\<And>c rs. Fallback relation operation request c rs \<noteq> Inr d"
  shows "ValidateCandidateContract relation request = Inr () \<and>
    sr_selective_predicate request \<and> sr_retains_predicate request \<and>
    pred_Kind (sr_requested_predicate request) \<notin> {PK_UNRESTRICTED, PK_DISJUNCTION, PK_NEGATION, PK_UNSUPPORTED} \<and>
    pd_conditional_input d \<noteq> INPUT_NONE \<and> pd_remote_accuracy d \<noteq> REMOTE_UNSUPPORTED \<and>
    (\<exists>ms unmapped.
      CollectConjunctiveMatches relation operation (sr_requested_predicate request) ([], False)
        = Inr (ms, unmapped) \<and> ms \<noteq> [] \<and> (length ms > 1 \<longrightarrow> AllMatchesEquivalent ms) \<and>
      pd_typed_equality d = PlanTypedEquality (fst (hd ms)) \<and>
      (pd_remote_accuracy d = REMOTE_EXACT \<longrightarrow> pm_accuracy (fst (hd ms)) = ACCURACY_EXACT \<and> \<not> unmapped))"
  using assms(1) by (auto simp: Classify_def Let_def fb split: if_splits)

lemma restricting_not_fallback:
  "pd_remote_accuracy d \<noteq> REMOTE_UNSUPPORTED \<Longrightarrow> Fallback relation operation request c rs \<noteq> Inr d"
  using Fallback_unrestricted by blast

lemma Classify_matches:
  assumes cl: "Classify relation operation request = Inr d"
    and acc: "pd_remote_accuracy d \<noteq> REMOTE_UNSUPPORTED"
  obtains m rest unmapped where
    "ValidateCandidateBindings relation (sr_requested_predicate request) = Inr ()"
    "CollectConjunctiveMatches relation operation (sr_requested_predicate request) ([], False)
       = Inr (m # rest, unmapped)"
    "AllMatchesEquivalent (m # rest)"
    "pd_typed_equality d = PlanTypedEquality (fst m)"
    "pd_remote_accuracy d = REMOTE_EXACT \<longrightarrow> pm_accuracy (fst m) = ACCURACY_EXACT \<and> \<not> unmapped"
proof -
  from Classify_restricting [OF cl restricting_not_fallback [OF acc]] obtain ms unmapped where
    v: "ValidateCandidateContract relation request = Inr ()"
    and c: "CollectConjunctiveMatches relation operation (sr_requested_predicate request) ([], False)
       = Inr (ms, unmapped)"
    and ne: "ms \<noteq> []" and eq: "length ms > 1 \<longrightarrow> AllMatchesEquivalent ms"
    and d: "pd_typed_equality d = PlanTypedEquality (fst (hd ms))"
      "pd_remote_accuracy d = REMOTE_EXACT \<longrightarrow> pm_accuracy (fst (hd ms)) = ACCURACY_EXACT \<and> \<not> unmapped"
    by auto
  obtain m rest where ms: "ms = m # rest" using ne by (cases ms) auto
  have "AllMatchesEquivalent (m # rest)" using eq ms by (cases rest) auto
  moreover have "ValidateCandidateBindings relation (sr_requested_predicate request) = Inr ()"
    using v by (auto simp: ValidateCandidateContract_def Let_def split: if_splits)
  ultimately show thesis using that c d ms by auto
qed

lemma Classify_selected:
  assumes cl: "Classify relation operation request = Inr d"
    and acc: "pd_remote_accuracy d \<noteq> REMOTE_UNSUPPORTED"
    and names: "distinct (map cc_name (rel_columns relation))"
  shows "\<exists>mp. selected_mapping relation operation (sr_requested_predicate request) = Some mp \<and>
    mp \<in> set (rel_mappings relation) \<and> pd_typed_equality d = PlanTypedEquality mp \<and>
    (\<forall>u r. eval_pred u (sr_requested_predicate request) r = TRUE \<longrightarrow> restriction relation mp r = TRUE) \<and>
    (pd_remote_accuracy d = REMOTE_EXACT \<longrightarrow> pm_accuracy mp = ACCURACY_EXACT \<and>
       (\<forall>u r. eval_pred u (sr_requested_predicate request) r = restriction relation mp r))"
proof -
  let ?p = "sr_requested_predicate request"
  obtain m rest unmapped where
    bind: "ValidateCandidateBindings relation ?p = Inr ()"
    and coll: "CollectConjunctiveMatches relation operation ?p ([], False) = Inr (m # rest, unmapped)"
    and equiv: "AllMatchesEquivalent (m # rest)"
    and typed: "pd_typed_equality d = PlanTypedEquality (fst m)"
    and exact: "pd_remote_accuracy d = REMOTE_EXACT \<longrightarrow> pm_accuracy (fst m) = ACCURACY_EXACT \<and> \<not> unmapped"
    by (rule Classify_matches [OF cl acc])
  have sound: "sound_match relation operation (implied u r [?p]) m \<and>
      (\<not> unmapped \<longrightarrow> determined u r (eval_pred u ?p r) (m # rest))" for u r
    using Collect_sound(1) [OF coll bind, of u r] by auto
  obtain i t l where snd_m: "snd m = Comparison i t l" "i < length (rel_columns relation)"
    using sound [of undefined undefined] by (auto simp: sound_match_def)
  have restr: "eval_pred u (snd m) r = restriction relation (fst m) r" for u r
    using MappingMatches_restriction [OF _ names snd_m(2)] sound [of u r] snd_m(1)
    by (auto simp: sound_match_def)
  have "restriction relation (fst m) r = TRUE" if "eval_pred u ?p r = TRUE" for u r
    using that sound [of u r] restr [of u r] by (auto simp: sound_match_def implied_def)
  moreover have "eval_pred u ?p r = restriction relation (fst m) r"
    if "pd_remote_accuracy d = REMOTE_EXACT" for u r
  proof -
    have "\<forall>x\<in>set (m # rest). eval_pred u (snd x) r = eval_pred u (snd m) r"
      using equiv StructurallyEquals_eval [of "snd m" _ u r]
      by (auto simp: list_all_iff SameMappingAndBinding_def Let_def)
    then have "eval_pred u ?p r = eval_pred u (snd m) r"
      using sound [of u r] exact that by (auto simp: determined_def)
    then show ?thesis by (simp only: restr)
  qed
  moreover have "fst m \<in> set (rel_mappings relation)" using sound by (auto simp: sound_match_def)
  moreover have "selected_mapping relation operation ?p = Some (fst m)"
    using coll by (simp add: selected_mapping_def)
  ultimately show ?thesis using typed exact by blast
qed

text \<open>
  The remote service is outside the program. \<open>remote mp\<close> is the bag of occurrences it returns when
  the input of mapping \<open>mp\<close> is sent, and \<open>honours\<close> is what the connector author declares of it
  (the occurrence-preservation facts of \<open>CompiledPredicateOccurrencePreservation\<close>): exactly the
  matching occurrences, or at least those and nothing outside the base domain.
\<close>

definition honours :: "relation \<Rightarrow> (mapping \<Rightarrow> row multiset) \<Rightarrow> row multiset \<Rightarrow> bool" where
  "honours relation remote base \<longleftrightarrow>
     (\<forall>mp\<in>set (rel_mappings relation).
        let matching = filter_mset (\<lambda>r. restriction relation mp r = TRUE) base in
        case pm_accuracy mp of
          ACCURACY_EXACT \<Rightarrow> remote mp = matching
        | ACCURACY_SUPERSET \<Rightarrow> matching \<subseteq># remote mp \<and> remote mp \<subseteq># base)"

definition scanned_rows ::
  "relation \<Rightarrow> operation \<Rightarrow> scan_request \<Rightarrow> predicate_decision \<Rightarrow> (mapping \<Rightarrow> row multiset) \<Rightarrow>
   row multiset \<Rightarrow> row multiset" where
  "scanned_rows relation operation request d remote base =
     (case (pd_remote_accuracy d, selected_mapping relation operation (sr_requested_predicate request)) of
        (REMOTE_UNSUPPORTED, _) \<Rightarrow> base
      | (_, Some mp) \<Rightarrow> remote mp
      | (_, None) \<Rightarrow> base)"

lemma filter_between:
  assumes "filter_mset P base \<subseteq># R" and "R \<subseteq># base"
  shows "filter_mset P R = filter_mset P base"
proof (rule subset_mset.antisym)
  show "filter_mset P R \<subseteq># filter_mset P base"
    using assms(2) by (rule multiset_filter_mono)
  show "filter_mset P base \<subseteq># filter_mset P R"
    using multiset_filter_mono [OF assms(1), of P] by (simp add: filter_filter_mset)
qed

lemma filter_strengthen:
  assumes "filter_mset Q R = filter_mset Q base" and "\<And>x. P x \<Longrightarrow> Q x"
  shows "filter_mset P R = filter_mset P base"
proof -
  have "filter_mset P (filter_mset Q M) = filter_mset P M" for M
    using assms(2) by (simp add: filter_filter_mset, metis (mono_tags, lifting) filter_mset_cong)
  then show ?thesis using assms(1) by metis
qed

lemma honours_matching:
  assumes "honours relation remote base" and "mp \<in> set (rel_mappings relation)"
  shows "filter_mset (\<lambda>r. restriction relation mp r = TRUE) (remote mp)
    = filter_mset (\<lambda>r. restriction relation mp r = TRUE) base"
proof (cases "pm_accuracy mp")
  case ACCURACY_EXACT
  with assms have "remote mp = filter_mset (\<lambda>r. restriction relation mp r = TRUE) base"
    by (auto simp: honours_def Let_def split: predicate_accuracy.splits)
  then show ?thesis by (simp add: filter_filter_mset)
next
  case ACCURACY_SUPERSET
  with assms show ?thesis
    by (intro filter_between) (auto simp: honours_def Let_def split: predicate_accuracy.splits)
qed

subsection \<open>Properties\<close>

definition sample_mapping :: mapping where
  "sample_mapping = \<lparr>pm_name = ''by_state'', pm_column_name = ''state'',
     pm_literal = PACKAGE_TYPED_LITERAL, pm_typed_literal = VarcharScalar ''open'',
     pm_operation_name = ''list'', pm_remote_input_name = ''state_filter'',
     pm_encoded_remote_value = ''open'', pm_accuracy = ACCURACY_EXACT,
     pm_proof_identity = PACKAGE_DECLARED_V1, pm_proof_identity_value = ''proof'',
     pm_base_domain = PACKAGE_DECLARED_OCCURRENCE_DOMAIN, pm_base_domain_value = ''domain'',
     pm_matching_fixture = ''m'', pm_false_or_null_fixture = ''f'', pm_duplicates_fixture = ''d'',
     pm_occurrence_preservation = PRESERVES_EXACT_MATCHING_BASE_OCCURRENCES\<rparr>"

definition sample_operation :: operation where
  "sample_operation = \<lparr>op_name = ''list'', op_fallback = True,
     op_selector = \<lparr>os_required_input_references = [], os_required_inputs = [], os_any_input_sets = [],
       os_forbidden_inputs = [], os_priority = 0, os_legacy_compatibility_bridge = False\<rparr>\<rparr>"

definition sample_relation :: relation where
  "sample_relation = \<lparr>rel_columns =
       [\<lparr>cc_name = ''id'', cc_nullable = False, cc_shape = SHAPE_SCALAR, cc_element_type = SCALAR_BIGINT\<rparr>,
        \<lparr>cc_name = ''state'', cc_nullable = True, cc_shape = SHAPE_SCALAR, cc_element_type = SCALAR_VARCHAR\<rparr>],
     rel_inputs = [], rel_mappings = [sample_mapping], rel_operations = [sample_operation]\<rparr>"

definition sample_request :: "predicate \<Rightarrow> scan_request" where
  "sample_request p = \<lparr>sr_explicit_inputs = [], sr_requested_predicate = p,
     sr_retained_predicate_scope = SCOPE_COMPLETE_DUCKDB_FILTER, sr_selective_predicate = True,
     sr_retains_predicate = True\<rparr>"

definition sample_decision :: "predicate \<Rightarrow> predicate_decision" where
  "sample_decision p = (case Classify sample_relation sample_operation (sample_request p) of Inr d \<Rightarrow> d)"

definition sample_narrow :: predicate where
  "sample_narrow = Conjunction [sample_comparison, Negation (Comparison 0 KIND_BIGINT (BigInt 7))]"

lemma sample_classified:
  "Classify sample_relation sample_operation (sample_request sample_comparison)
     = Inr (sample_decision sample_comparison)"
  "Classify sample_relation sample_operation (sample_request sample_narrow) = Inr (sample_decision sample_narrow)"
  by code_simp+

lemma sample_accuracies:
  "pd_remote_accuracy (sample_decision sample_comparison) = REMOTE_EXACT"
  "pd_remote_accuracy (sample_decision sample_narrow) = REMOTE_SUPERSET"
  by code_simp+

lemma sample_distinct: "distinct (map cc_name (rel_columns sample_relation))"
  by code_simp

text \<open>
  C8. Pushdown never changes an answer: whatever the classifier decides for a requested predicate,
  the occurrences the scan returns, filtered by the predicate DuckDB retains, are exactly the
  occurrences of the unrestricted base domain filtered by the same predicate, with
  multiplicities, provided the service honours the declared mappings and column names are
  distinct.
\<close>
theorem pushdown_preserves_answers:
  assumes "Classify relation operation request = Inr d"
    and "distinct (map cc_name (rel_columns relation))" and "honours relation remote base"
  shows "filter_mset (\<lambda>r. eval_pred opaque (sr_requested_predicate request) r = TRUE)
      (scanned_rows relation operation request d remote base)
    = filter_mset (\<lambda>r. eval_pred opaque (sr_requested_predicate request) r = TRUE) base"
proof (cases "pd_remote_accuracy d = REMOTE_UNSUPPORTED")
  case True
  then show ?thesis by (simp add: scanned_rows_def)
next
  case False
  from Classify_selected [OF assms(1) this assms(2)] obtain mp where
    sel: "selected_mapping relation operation (sr_requested_predicate request) = Some mp"
    and mp: "mp \<in> set (rel_mappings relation)"
    and imp: "\<forall>u r. eval_pred u (sr_requested_predicate request) r = TRUE \<longrightarrow> restriction relation mp r = TRUE"
    by blast
  have "scanned_rows relation operation request d remote base = remote mp"
    using False sel by (simp add: scanned_rows_def split: remote_accuracy.splits)
  then show ?thesis
    using filter_strengthen [OF honours_matching [OF assms(3) mp]] imp by simp
qed

theorem pushdown_preserves_answers_witness:
  "filter_mset (\<lambda>r. eval_pred (\<lambda>_ _. UNKNOWN) sample_narrow r = TRUE)
     (scanned_rows sample_relation sample_operation (sample_request sample_narrow) (sample_decision sample_narrow)
        (\<lambda>_. {#[Some (BigIntValue 1), Some (VarcharValue ''open'')]#})
        {#[Some (BigIntValue 1), Some (VarcharValue ''open'')], [Some (BigIntValue 2), None]#})
   = filter_mset (\<lambda>r. eval_pred (\<lambda>_ _. UNKNOWN) sample_narrow r = TRUE)
        {#[Some (BigIntValue 1), Some (VarcharValue ''open'')], [Some (BigIntValue 2), None]#}"
proof -
  have "honours sample_relation (\<lambda>_. {#[Some (BigIntValue 1), Some (VarcharValue ''open'')]#})
      {#[Some (BigIntValue 1), Some (VarcharValue ''open'')], [Some (BigIntValue 2), None]#}"
    by (simp add: honours_def sample_relation_def sample_mapping_def restriction_def mapping_literal_def
        cell_def sql_equals_def)
  from pushdown_preserves_answers [OF sample_classified(2) sample_distinct this, of "\<lambda>_ _. UNKNOWN"]
  show ?thesis by (simp add: sample_request_def)
qed

text \<open>
  C9. An Exact decision is exact: the requested predicate and the restriction of the selected
  mapping, which the author declared EXACT, have the same three-valued result on every row; so
  for an honest service the scan already returns precisely the occurrences that satisfy the
  predicate.
\<close>
theorem exact_decision_is_equivalence:
  assumes "Classify relation operation request = Inr d"
    and "distinct (map cc_name (rel_columns relation))" and "honours relation remote base"
    and "pd_remote_accuracy d = REMOTE_EXACT"
  shows "(\<exists>mp\<in>set (rel_mappings relation). pm_accuracy mp = ACCURACY_EXACT \<and>
      pd_typed_equality d = PlanTypedEquality mp \<and>
      (\<forall>r. eval_pred opaque (sr_requested_predicate request) r = restriction relation mp r)) \<and>
    scanned_rows relation operation request d remote base
      = filter_mset (\<lambda>r. eval_pred opaque (sr_requested_predicate request) r = TRUE) base"
proof -
  from assms(4) have acc: "pd_remote_accuracy d \<noteq> REMOTE_UNSUPPORTED" by simp
  from Classify_selected [OF assms(1) acc assms(2)] obtain mp where
    sel: "selected_mapping relation operation (sr_requested_predicate request) = Some mp"
    and mp: "mp \<in> set (rel_mappings relation)" "pm_accuracy mp = ACCURACY_EXACT"
      "pd_typed_equality d = PlanTypedEquality mp"
    and eq: "\<forall>u r. eval_pred u (sr_requested_predicate request) r = restriction relation mp r"
    using assms(4) by blast
  have "remote mp = filter_mset (\<lambda>r. restriction relation mp r = TRUE) base"
    using assms(3) mp(1,2) by (auto simp: honours_def Let_def split: predicate_accuracy.splits)
  then show ?thesis using sel mp eq assms(4) by (auto simp: scanned_rows_def)
qed

theorem exact_decision_is_equivalence_witness:
  "scanned_rows sample_relation sample_operation (sample_request sample_comparison)
      (sample_decision sample_comparison)
      (\<lambda>mp. filter_mset (\<lambda>r. restriction sample_relation mp r = TRUE)
         {#[Some (BigIntValue 1), Some (VarcharValue ''open'')], [Some (BigIntValue 2), None]#})
      {#[Some (BigIntValue 1), Some (VarcharValue ''open'')], [Some (BigIntValue 2), None]#}
   = filter_mset (\<lambda>r. eval_pred (\<lambda>_ _. UNKNOWN) sample_comparison r = TRUE)
        {#[Some (BigIntValue 1), Some (VarcharValue ''open'')], [Some (BigIntValue 2), None]#}"
proof -
  have "honours sample_relation (\<lambda>mp. filter_mset (\<lambda>r. restriction sample_relation mp r = TRUE)
         {#[Some (BigIntValue 1), Some (VarcharValue ''open'')], [Some (BigIntValue 2), None]#})
      {#[Some (BigIntValue 1), Some (VarcharValue ''open'')], [Some (BigIntValue 2), None]#}"
    by (simp add: honours_def sample_relation_def sample_mapping_def)
  from exact_decision_is_equivalence [OF sample_classified(1) sample_distinct this sample_accuracies(1),
      of "\<lambda>_ _. UNKNOWN"]
  show ?thesis by (simp add: sample_request_def)
qed

text \<open>
  Nothing is pushed down behind DuckDB's back: a decision that restricts the remote request
  arises only when Query declared both that it can offer structured predicates and that DuckDB
  retains them, and only for a comparison or a conjunction; every other request scans the base
  domain without a conditional input.
\<close>
lemma restriction_requires_retained_filter:
  assumes "Classify relation operation request = Inr d"
  shows "(pd_conditional_input d = INPUT_NONE \<and> pd_remote_predicate d = TRUE_FOR_BASE_DOMAIN \<and>
      pd_remote_accuracy d = REMOTE_UNSUPPORTED) \<or>
    (sr_selective_predicate request \<and> sr_retains_predicate request \<and>
      pred_Kind (sr_requested_predicate request) \<in> {PK_COMPARISON, PK_CONJUNCTION} \<and>
      pd_conditional_input d \<noteq> INPUT_NONE \<and> pd_remote_accuracy d \<noteq> REMOTE_UNSUPPORTED)"
proof (cases "\<exists>c rs. Fallback relation operation request c rs = Inr d")
  case True
  then show ?thesis using Fallback_unrestricted by blast
next
  case False
  moreover have "pred_Kind p \<in> {PK_COMPARISON, PK_CONJUNCTION}"
    if "pred_Kind p \<notin> {PK_UNRESTRICTED, PK_DISJUNCTION, PK_NEGATION, PK_UNSUPPORTED}" for p
    using that by (cases p) auto
  ultimately show ?thesis using Classify_restricting [OF assms] by blast
qed

end
