(* ===== verification/Operation_Selector.thy ===== *)
theory Operation_Selector
  imports Compiled_Model "HOL-Library.Multiset" "HOL-Library.Product_Lexorder"
begin

text \<open>
  Compiled operation selectors, \<open>src/src/connector/operation_selector.cpp\<close>: construction of tagged
  (v1) and legacy selectors with their normalization, the check of a selector against its
  relation, and structural comparison. \<open>std::invalid_argument\<close> is \<open>SelectorInvalid\<close>.
\<close>

datatype selector_error = SelectorInvalid string

definition IsSelectorInputIdentifier :: "string \<Rightarrow> bool" where
  "IsSelectorInputIdentifier value \<longleftrightarrow>
     (case value of
        [] \<Rightarrow> False
      | front # _ \<Rightarrow>
          length value \<le> 63 \<and> in_range CHR ''a'' CHR ''z'' front \<and>
          list_all (\<lambda>c. in_range CHR ''a'' CHR ''z'' c \<or> in_range CHR ''0'' CHR ''9'' c \<or> c = CHR ''_'') value)"

definition CompiledRequiredInputReference ::
  "required_input_kind \<Rightarrow> string \<Rightarrow> selector_error + input_reference" where
  "CompiledRequiredInputReference kind id_p =
     (if \<not> IsSelectorInputIdentifier id_p
      then Inl (SelectorInvalid ''compiled required-input reference contains an invalid identifier'')
      else Inr \<lparr>ir_kind = kind, ir_id = id_p\<rparr>)"

text \<open>The position of a kind in its enumeration.\<close>

fun kind_index :: "required_input_kind \<Rightarrow> nat" where
  "kind_index RELATION_INPUT = 0"
| "kind_index CONDITIONAL_INPUT = 1"

definition ReferenceLess :: "input_reference \<Rightarrow> input_reference \<Rightarrow> bool" where
  "ReferenceLess left right \<longleftrightarrow>
     (if ir_kind left \<noteq> ir_kind right then kind_index (ir_kind left) < kind_index (ir_kind right)
      else ir_id left < ir_id right)"

text \<open>
  The source sorts by selection: each round scans the references not yet emitted, in their
  original order, for the first least one. The list argument of \<open>normalize_rounds\<close> holds those
  references.
\<close>

fun least_reference :: "input_reference \<Rightarrow> input_reference list \<Rightarrow> input_reference" where
  "least_reference selected [] = selected"
| "least_reference selected (r # rs) =
     least_reference (if ReferenceLess r selected then r else selected) rs"

lemma least_reference_in: "least_reference s rs \<in> insert s (set rs)"
  by (induction rs arbitrary: s) (auto split: if_splits)

lemma remove1_shorter: "x \<in> set xs \<Longrightarrow> length (remove1 x xs) < length xs"
  by (induction xs) auto

function normalize_rounds ::
  "input_reference list \<Rightarrow> input_reference list \<Rightarrow> selector_error + input_reference list" where
  "normalize_rounds normalized [] = Inr normalized"
| "normalize_rounds normalized (r # rs) =
     (let selected = least_reference r rs in
      if normalized \<noteq> [] \<and> ir_kind (last normalized) = ir_kind selected \<and>
         ir_id (last normalized) = ir_id selected
      then Inl (SelectorInvalid ''compiled operation selector contains a duplicate tagged required input'')
      else normalize_rounds (normalized @ [selected]) (remove1 selected (r # rs)))"
  by pat_completeness auto
termination
proof (relation "measure (\<lambda>(_, rs). length rs)", goal_cases)
  case (2 normalized r rs selected)
  then show ?case using remove1_shorter [of selected "r # rs"] least_reference_in [of r rs] by simp
qed simp

declare normalize_rounds.simps(2) [simp del]

definition NormalizeRequiredReferences ::
  "input_reference list \<Rightarrow> selector_error + input_reference list" where
  "NormalizeRequiredReferences references =
     (if length references > 128
      then Inl (SelectorInvalid ''compiled v1 operation selector exceeds the required-input limit'')
      else normalize_rounds [] references)"

fun adjacent_find :: "'a list \<Rightarrow> bool" where
  "adjacent_find (x # y # zs) \<longleftrightarrow> x = y \<or> adjacent_find (y # zs)"
| "adjacent_find _ \<longleftrightarrow> False"

definition NormalizeSelectorInputSet :: "string list \<Rightarrow> bool \<Rightarrow> selector_error + string list" where
  "NormalizeSelectorInputSet inputs require_nonempty =
     (if require_nonempty \<and> inputs = []
      then Inl (SelectorInvalid ''compiled operation selector contains an empty any-input alternative'')
      else if \<not> list_all IsSelectorInputIdentifier inputs
      then Inl (SelectorInvalid ''compiled operation selector contains an invalid input identifier'')
      else if adjacent_find (sort inputs)
      then Inl (SelectorInvalid ''compiled operation selector contains a duplicate input identifier'')
      else Inr (sort inputs))"

definition SelectorSetsOverlap :: "string list \<Rightarrow> string list \<Rightarrow> bool" where
  "SelectorSetsOverlap left right \<longleftrightarrow> list_ex (\<lambda>input. input \<in> set right) left"

fun normalize_alternatives :: "string list list \<Rightarrow> selector_error + string list list" where
  "normalize_alternatives [] = Inr []"
| "normalize_alternatives (a # as) =
     and_then (NormalizeSelectorInputSet a True) (\<lambda>a'.
     and_then (normalize_alternatives as) (\<lambda>as'. Inr (a' # as')))"

definition CompiledOperationSelector_legacy ::
  "string list \<Rightarrow> string list list \<Rightarrow> string list \<Rightarrow> int \<Rightarrow> selector_error + operation_selector" where
  "CompiledOperationSelector_legacy required any_sets forbidden priority =
     and_then (NormalizeSelectorInputSet required False) (\<lambda>required_inputs.
     and_then (NormalizeSelectorInputSet forbidden False) (\<lambda>forbidden_inputs.
     and_then (normalize_alternatives any_sets) (\<lambda>alternatives.
       let any_input_sets = sort alternatives in
       if adjacent_find any_input_sets
       then Inl (SelectorInvalid ''compiled operation selector contains a duplicate any-input alternative'')
       else if SelectorSetsOverlap required_inputs forbidden_inputs
       then Inl (SelectorInvalid ''compiled operation selector both requires and forbids an input'')
       else if list_ex (\<lambda>alternative. SelectorSetsOverlap alternative forbidden_inputs) any_input_sets
       then Inl (SelectorInvalid ''compiled operation selector any-input alternative contains a forbidden input'')
       else Inr \<lparr>os_required_input_references = [], os_required_inputs = required_inputs,
                 os_any_input_sets = any_input_sets, os_forbidden_inputs = forbidden_inputs,
                 os_priority = priority, os_legacy_compatibility_bridge = True\<rparr>)))"

definition CompiledOperationSelector_v1 :: "input_reference list \<Rightarrow> selector_error + operation_selector" where
  "CompiledOperationSelector_v1 references =
     and_then (NormalizeRequiredReferences references) (\<lambda>normalized.
       Inr \<lparr>os_required_input_references = normalized, os_required_inputs = [], os_any_input_sets = [],
            os_forbidden_inputs = [], os_priority = 0, os_legacy_compatibility_bridge = False\<rparr>)"

definition HasRelationInput :: "relation_input list \<Rightarrow> string \<Rightarrow> bool" where
  "HasRelationInput relation_inputs input \<longleftrightarrow> list_ex (\<lambda>i. ri_name i = input) relation_inputs"

definition HasConditionalInput :: "operation \<Rightarrow> mapping list \<Rightarrow> string \<Rightarrow> bool" where
  "HasConditionalInput operation mappings input \<longleftrightarrow>
     list_ex (\<lambda>mp. pm_operation_name mp = op_name operation \<and> pm_remote_input_name mp = input) mappings"

definition LegacySelectorInputIsRepresentable ::
  "operation \<Rightarrow> relation_input list \<Rightarrow> mapping list \<Rightarrow> string \<Rightarrow> bool" where
  "LegacySelectorInputIsRepresentable operation relation_inputs mappings input \<longleftrightarrow>
     HasRelationInput relation_inputs input \<or> HasConditionalInput operation mappings input"

definition reference_represented :: "operation \<Rightarrow> relation_input list \<Rightarrow> mapping list \<Rightarrow> input_reference \<Rightarrow> bool" where
  "reference_represented operation relation_inputs mappings reference \<longleftrightarrow>
     (if ir_kind reference = RELATION_INPUT then HasRelationInput relation_inputs (ir_id reference)
      else HasConditionalInput operation mappings (ir_id reference))"

definition ValidateOperationSelectorReferences ::
  "operation \<Rightarrow> relation_input list \<Rightarrow> mapping list \<Rightarrow> selector_error + unit" where
  "ValidateOperationSelectorReferences operation relation_inputs mappings =
     (let selector = op_selector operation; references = os_required_input_references selector;
          legacy_ok = list_all (LegacySelectorInputIsRepresentable operation relation_inputs mappings) in
      if \<not> os_legacy_compatibility_bridge selector \<and>
         (length references > 128 \<or> op_fallback operation \<noteq> (references = []))
      then Inl (SelectorInvalid ''compiled v1 operation selector disagrees with fallback/when shape'')
      else if \<not> list_all (reference_represented operation relation_inputs mappings) references
      then Inl (SelectorInvalid ''compiled operation selector references a missing or wrong-kind input'')
      else if \<not> os_legacy_compatibility_bridge selector then Inr ()
      else if legacy_ok (os_required_inputs selector) \<and> list_all legacy_ok (os_any_input_sets selector) \<and>
              legacy_ok (os_forbidden_inputs selector)
      then Inr ()
      else Inl (SelectorInvalid ''compiled operation selector references an unrepresentable input''))"

definition SameOperationSelectorStructure :: "operation_selector \<Rightarrow> operation_selector \<Rightarrow> bool" where
  "SameOperationSelectorStructure left right \<longleftrightarrow>
     length (os_required_input_references left) = length (os_required_input_references right) \<and>
     list_all2 (\<lambda>l r. ir_kind l = ir_kind r \<and> ir_id l = ir_id r)
       (os_required_input_references left) (os_required_input_references right) \<and>
     os_legacy_compatibility_bridge left = os_legacy_compatibility_bridge right \<and>
     os_required_inputs left = os_required_inputs right \<and>
     os_any_input_sets left = os_any_input_sets right \<and>
     os_forbidden_inputs left = os_forbidden_inputs right \<and> os_priority left = os_priority right"

subsection \<open>Normalization is sorting\<close>

definition reference_key :: "input_reference \<Rightarrow> nat \<times> string" where
  "reference_key r = (kind_index (ir_kind r), ir_id r)"

lemma kind_index_inject [simp]: "kind_index a = kind_index b \<longleftrightarrow> a = b"
  by (cases a; cases b) auto

lemma ReferenceLess_key: "ReferenceLess a b \<longleftrightarrow> reference_key a < reference_key b"
  by (cases "ir_kind a"; cases "ir_kind b") (auto simp: ReferenceLess_def reference_key_def less_prod_def)

lemma reference_key_inject [simp]: "reference_key a = reference_key b \<longleftrightarrow> a = b"
  by (auto simp: reference_key_def)

lemma least_reference_least:
  "r \<in> insert s (set rs) \<Longrightarrow> reference_key (least_reference s rs) \<le> reference_key r"
proof (induction rs arbitrary: s r)
  case (Cons x xs)
  let ?t = "if ReferenceLess x s then x else s"
  have "reference_key ?t \<le> reference_key x" "reference_key ?t \<le> reference_key s"
    by (auto simp: ReferenceLess_key not_less)
  with Cons show ?case by (metis insertE insertI1 insertI2 least_reference.simps(2) list.simps(15) order.trans)
qed simp

definition rounds_inv :: "input_reference list \<Rightarrow> input_reference list \<Rightarrow> bool" where
  "rounds_inv out rs \<longleftrightarrow>
     sorted_wrt (\<lambda>a b. reference_key a < reference_key b) out \<and>
     (\<forall>d\<in>set out. \<forall>r\<in>set rs. reference_key d \<le> reference_key r)"

lemma sorted_wrt_last:
  "sorted_wrt (\<lambda>a b. reference_key a < reference_key b) xs \<Longrightarrow> d \<in> set xs \<Longrightarrow> d \<noteq> last xs \<Longrightarrow>
   reference_key d < reference_key (last xs)"
  by (induction xs) (auto split: if_splits)

lemma rounds_inv_step:
  assumes inv: "rounds_inv out (r # rs)" and new: "out = [] \<or> last out \<noteq> least_reference r rs"
  shows "rounds_inv (out @ [least_reference r rs]) (remove1 (least_reference r rs) (r # rs))"
proof -
  let ?s = "least_reference r rs"
  have s_in: "?s \<in> set (r # rs)" using least_reference_in [of r rs] by simp
  have below: "reference_key d < reference_key ?s" if d: "d \<in> set out" for d
  proof -
    have ne: "out \<noteq> []" using d by auto
    have "reference_key d \<le> reference_key (last out)"
      using sorted_wrt_last [of out d] inv d by (cases "d = last out") (auto simp: rounds_inv_def)
    moreover have "reference_key (last out) \<le> reference_key ?s"
      using inv ne s_in by (auto simp: rounds_inv_def)
    then have "reference_key (last out) < reference_key ?s" using new ne by (simp add: less_le)
    ultimately show ?thesis by (rule order.strict_trans1)
  qed
  have "reference_key d \<le> reference_key x"
    if "d \<in> set (out @ [?s])" "x \<in> set (remove1 ?s (r # rs))" for d x
  proof -
    have x: "x \<in> set (r # rs)" using that(2) by (meson notin_set_remove1)
    then have "reference_key ?s \<le> reference_key x" using least_reference_least [of x r rs] by simp
    then show ?thesis using that(1) below by fastforce
  qed
  then show ?thesis using inv below by (auto simp: rounds_inv_def sorted_wrt_append)
qed

lemma normalize_rounds_sorts:
  "normalize_rounds out rs = Inr res \<Longrightarrow> rounds_inv out rs \<Longrightarrow>
   sorted_wrt (\<lambda>a b. reference_key a < reference_key b) res \<and> mset res = mset out + mset rs"
proof (induction out rs rule: normalize_rounds.induct)
  case (2 out r rs)
  let ?s = "least_reference r rs"
  have s_in: "?s \<in> set (r # rs)" using least_reference_in [of r rs] by simp
  have new: "\<not> (out \<noteq> [] \<and> ir_kind (last out) = ir_kind ?s \<and> ir_id (last out) = ir_id ?s)"
    and rest: "normalize_rounds (out @ [?s]) (remove1 ?s (r # rs)) = Inr res"
    using 2(2) by (simp_all add: normalize_rounds.simps(2) Let_def del: remove1.simps split: if_splits)
  have "out = [] \<or> last out \<noteq> ?s" using new by auto
  then show ?case using 2(1) [OF refl new rest] rounds_inv_step [OF 2(3)] s_in by (auto simp del: remove1.simps)
qed (simp add: rounds_inv_def)

lemma normalize_rounds_succeeds:
  "distinct (out @ rs) \<Longrightarrow> rounds_inv out rs \<Longrightarrow> \<exists>res. normalize_rounds out rs = Inr res"
proof (induction out rs rule: normalize_rounds.induct)
  case (2 out r rs)
  let ?s = "least_reference r rs"
  have s_in: "?s \<in> set (r # rs)" using least_reference_in [of r rs] by simp
  have last: "out = [] \<or> last out \<noteq> ?s" using 2(2) s_in by (metis disjoint_iff distinct_append last_in_set)
  then have new: "\<not> (out \<noteq> [] \<and> ir_kind (last out) = ir_kind ?s \<and> ir_id (last out) = ir_id ?s)"
    using reference_key_inject [of "last out" ?s] by (auto simp: reference_key_def)
  have "distinct ((out @ [?s]) @ remove1 ?s (r # rs))"
    using 2(2) s_in distinct_remove1 [of "r # rs" ?s] set_remove1_eq [of "r # rs" ?s] by auto
  with 2(1) [OF refl new] rounds_inv_step [OF 2(3) last] obtain res where
    "normalize_rounds (out @ [?s]) (remove1 ?s (r # rs)) = Inr res" by blast
  then show ?case using new by (simp add: normalize_rounds.simps(2) Let_def del: remove1.simps)
qed simp

lemma sorted_wrt_key_distinct:
  "sorted_wrt (\<lambda>a b. reference_key a < reference_key b) xs \<Longrightarrow> distinct xs"
  by (induction xs) auto

subsection \<open>Properties\<close>

text \<open>
  Normalizing the tagged required inputs of a selector is sorting without duplicates: it
  succeeds exactly for at most 128 distinct references, and then yields the same references in
  strictly ascending order of namespace and identifier.
\<close>
lemma normalize_references_sorts:
  "NormalizeRequiredReferences refs = Inr out \<longleftrightarrow>
   length refs \<le> 128 \<and> distinct refs \<and> mset out = mset refs \<and> sorted_wrt ReferenceLess out"
proof -
  have less: "ReferenceLess = (\<lambda>a b. reference_key a < reference_key b)"
    by (auto simp: ReferenceLess_key fun_eq_iff)
  have inv: "rounds_inv [] refs" by (simp add: rounds_inv_def)
  note sorts = normalize_rounds_sorts [OF _ inv, folded less]
  show ?thesis
  proof
    assume norm: "NormalizeRequiredReferences refs = Inr out"
    then have "length refs \<le> 128" and "normalize_rounds [] refs = Inr out"
      by (auto simp: NormalizeRequiredReferences_def split: if_splits)
    moreover from sorts [OF this(2)] have "sorted_wrt ReferenceLess out" "mset out = mset refs" by auto
    moreover from this have "distinct refs"
      using sorted_wrt_key_distinct [of out] less mset_eq_imp_distinct_iff by metis
    ultimately show "length refs \<le> 128 \<and> distinct refs \<and> mset out = mset refs \<and> sorted_wrt ReferenceLess out"
      by simp
  next
    assume a: "length refs \<le> 128 \<and> distinct refs \<and> mset out = mset refs \<and> sorted_wrt ReferenceLess out"
    then obtain res where res: "normalize_rounds [] refs = Inr res"
      using normalize_rounds_succeeds [of "[]" refs] inv by auto
    have "map reference_key res = map reference_key out"
    proof (rule strict_sorted_equal)
      show "sorted_wrt (<) (map reference_key out)" using a less by (simp add: sorted_wrt_map)
      show "sorted_wrt (<) (map reference_key res)" using sorts [OF res] less by (simp add: sorted_wrt_map)
      have "mset res = mset out" using sorts [OF res] a by simp
      then show "set (map reference_key res) = set (map reference_key out)"
        by (metis list.set_map mset_eq_setD)
    qed
    moreover have "inj reference_key" by (simp add: inj_def)
    ultimately have "res = out" by (simp add: inj_map_eq_map)
    then show "NormalizeRequiredReferences refs = Inr out"
      using res a by (simp add: NormalizeRequiredReferences_def)
  qed
qed

end
