(* ===== verification/Operation_Selection.thy ===== *)
theory Operation_Selection
  imports Input_Resolution Predicate_Classifier Operation_Selector
begin

text \<open>
  Operation selection, \<open>src/src/semantics/operation_selection.cpp\<close>: which operations of a relation
  are eligible for a request, how they rank, and which one is chosen. An \<open>EligibleOperation\<close> is
  an operation with its rank, a pair of specificity and priority; a null operation is \<open>None\<close>.
\<close>

type_synonym rank = "nat \<times> int"

definition HasConditionalBinding :: "candidate_bindings \<Rightarrow> string \<Rightarrow> bool" where
  "HasConditionalBinding bindings id_p \<longleftrightarrow> list_ex (\<lambda>b. ib_name b = id_p) (cb_values bindings)"

definition HasEveryLegacyBinding :: "candidate_bindings \<Rightarrow> string list \<Rightarrow> bool" where
  "HasEveryLegacyBinding bindings ids \<longleftrightarrow> list_all (HasConditionalBinding bindings) ids"

definition RequiredInputIsSatisfied ::
  "required_input_kind \<Rightarrow> string \<Rightarrow> resolved_input list \<Rightarrow> candidate_bindings \<Rightarrow> bool" where
  "RequiredInputIsSatisfied kind id_p relation_inputs conditional_inputs \<longleftrightarrow>
     (case kind of
        RELATION_INPUT \<Rightarrow>
          (case FindResolved relation_inputs id_p of
             None \<Rightarrow> False
           | Some input \<Rightarrow> rs_state input = BOUND_VALUE)
      | CONDITIONAL_INPUT \<Rightarrow>
          \<not> cb_conflicting conditional_inputs \<and> HasConditionalBinding conditional_inputs id_p)"

definition EvaluateV1 ::
  "operation \<Rightarrow> resolved_input list \<Rightarrow> candidate_bindings \<Rightarrow> rank option" where
  "EvaluateV1 operation relation_inputs conditional_inputs =
     (let references = os_required_input_references (op_selector operation) in
      if cb_conflicting conditional_inputs then None
      else if \<not> list_all (\<lambda>reference. RequiredInputIsSatisfied (ir_kind reference) (ir_id reference)
                            relation_inputs conditional_inputs) references
      then None
      else Some (length references, 0))"

text \<open>
  The loop over the alternatives keeps the size of the largest satisfied one; \<open>None\<close> stands for
  no satisfied alternative yet.
\<close>

fun largest_alternative :: "candidate_bindings \<Rightarrow> string list list \<Rightarrow> nat option \<Rightarrow> nat option" where
  "largest_alternative bindings [] best = best"
| "largest_alternative bindings (alternative # rest) best =
     largest_alternative bindings rest
       (if HasEveryLegacyBinding bindings alternative
        then Some (max (case best of None \<Rightarrow> 0 | Some n \<Rightarrow> n) (length alternative)) else best)"

definition EvaluateLegacy :: "operation \<Rightarrow> candidate_bindings \<Rightarrow> rank option" where
  "EvaluateLegacy operation conditional_inputs =
     (let selector = op_selector operation in
      if cb_conflicting conditional_inputs \<or>
         \<not> HasEveryLegacyBinding conditional_inputs (os_required_inputs selector) \<or>
         list_ex (HasConditionalBinding conditional_inputs) (os_forbidden_inputs selector)
      then None
      else if os_any_input_sets selector = []
      then Some (length (os_required_inputs selector), os_priority selector)
      else (case largest_alternative conditional_inputs (os_any_input_sets selector) None of
              None \<Rightarrow> None
            | Some n \<Rightarrow> Some (length (os_required_inputs selector) + n, os_priority selector)))"

definition Evaluate ::
  "relation \<Rightarrow> operation \<Rightarrow> scan_request \<Rightarrow> resolved_input list \<Rightarrow> planning_error + rank option" where
  "Evaluate relation operation request relation_inputs =
     and_then (ResolveCandidateInputBindings relation operation request) (\<lambda>conditional_inputs.
       Inr (if os_legacy_compatibility_bridge (op_selector operation)
            then EvaluateLegacy operation conditional_inputs
            else EvaluateV1 operation relation_inputs conditional_inputs))"

definition HasHigherRank :: "rank \<Rightarrow> rank \<Rightarrow> bool" where
  "HasHigherRank left right \<longleftrightarrow>
     fst left > fst right \<or> (fst left = fst right \<and> snd left > snd right)"

definition HasEqualRank :: "rank \<Rightarrow> rank \<Rightarrow> bool" where
  "HasEqualRank left right \<longleftrightarrow> fst left = fst right \<and> snd left = snd right"

record selection =
  se_winner :: "(operation \<times> rank) option"
  se_winner_is_tied :: bool
  se_fallback :: "operation option"

definition consider_candidate :: "operation \<Rightarrow> rank \<Rightarrow> selection \<Rightarrow> selection" where
  "consider_candidate operation rank s =
     (case se_winner s of
        None \<Rightarrow> s\<lparr>se_winner := Some (operation, rank), se_winner_is_tied := False\<rparr>
      | Some (_, best) \<Rightarrow>
          (if HasHigherRank rank best
           then s\<lparr>se_winner := Some (operation, rank), se_winner_is_tied := False\<rparr>
           else if HasEqualRank rank best then s\<lparr>se_winner_is_tied := True\<rparr>
           else s))"

fun selection_loop ::
  "relation \<Rightarrow> scan_request \<Rightarrow> resolved_input list \<Rightarrow> operation list \<Rightarrow> selection \<Rightarrow>
   planning_error + selection" where
  "selection_loop relation request relation_inputs [] s = Inr s"
| "selection_loop relation request relation_inputs (operation # rest) s =
     (if op_fallback operation
      then (if se_fallback s \<noteq> None
            then Inl (OperationSelectionFailed ''operation selection contains multiple fallback operations'')
            else selection_loop relation request relation_inputs rest (s\<lparr>se_fallback := Some operation\<rparr>))
      else and_then (Evaluate relation operation request relation_inputs) (\<lambda>candidate.
             selection_loop relation request relation_inputs rest
               (case candidate of None \<Rightarrow> s | Some rank \<Rightarrow> consider_candidate operation rank s)))"

definition SelectOperation ::
  "relation \<Rightarrow> scan_request \<Rightarrow> resolved_input list \<Rightarrow> planning_error + operation" where
  "SelectOperation relation request relation_inputs =
     and_then (selection_loop relation request relation_inputs (rel_operations relation)
         \<lparr>se_winner = None, se_winner_is_tied = False, se_fallback = None\<rparr>) (\<lambda>s.
       if se_winner_is_tied s
       then Inl (OperationSelectionFailed ''operation selection has multiple equally ranked eligible base operations'')
       else and_then
         (case (se_winner s, se_fallback s) of
            (None, Some fallback) \<Rightarrow>
              and_then (Evaluate relation fallback request relation_inputs) (\<lambda>candidate.
                Inr (map_option (Pair fallback) candidate))
          | (winner, _) \<Rightarrow> Inr winner)
         (\<lambda>winner. case winner of
            None \<Rightarrow> Inl (OperationSelectionFailed ''operation selection has no eligible base operation'')
          | Some (operation, _) \<Rightarrow> Inr operation))"

subsection \<open>The loop keeps the best candidate\<close>

text \<open>
  The candidates of a request: the operations that are not fallbacks and evaluate to a rank, in
  declaration order. The source's rank comparison is the lexicographic order on ranks.
\<close>

lemma HasHigherRank_less: "HasHigherRank a b \<longleftrightarrow> b < a"
  by (auto simp: HasHigherRank_def less_prod_def)

lemma HasEqualRank_eq: "HasEqualRank a b \<longleftrightarrow> a = b"
  by (auto simp: HasEqualRank_def prod_eq_iff)

definition candidates ::
  "relation \<Rightarrow> scan_request \<Rightarrow> resolved_input list \<Rightarrow> operation list \<Rightarrow> (operation \<times> rank) list" where
  "candidates relation request inputs ops =
     concat (map (\<lambda>operation. case Evaluate relation operation request inputs of
                     Inr (Some rank) \<Rightarrow> [(operation, rank)] | _ \<Rightarrow> [])
                 (filter (\<lambda>operation. \<not> op_fallback operation) ops))"

text \<open>What the loop state means after the candidates \<open>cs\<close>.\<close>

definition selection_inv :: "(operation \<times> rank) list \<Rightarrow> selection \<Rightarrow> bool" where
  "selection_inv cs s \<longleftrightarrow>
     (case se_winner s of
        None \<Rightarrow> cs = [] \<and> \<not> se_winner_is_tied s
      | Some w \<Rightarrow> w \<in> set cs \<and> (\<forall>c\<in>set cs. snd c \<le> snd w) \<and>
                 (se_winner_is_tied s \<longleftrightarrow> 1 < length (filter (\<lambda>c. snd c = snd w) cs)))"

lemma consider_candidate_inv:
  assumes "selection_inv cs s"
  shows "selection_inv (cs @ [(operation, rank)]) (consider_candidate operation rank s)"
proof (cases "se_winner s")
  case None
  with assms show ?thesis by (simp add: selection_inv_def consider_candidate_def)
next
  case (Some w)
  obtain o' best where w: "w = (o', best)" by (cases w)
  have inv: "w \<in> set cs" "\<And>c. c \<in> set cs \<Longrightarrow> snd c \<le> best"
    "se_winner_is_tied s \<longleftrightarrow> 1 < length (filter (\<lambda>c. snd c = best) cs)"
    using assms Some w by (auto simp: selection_inv_def)
  have one: "filter (\<lambda>c. snd c = best) cs \<noteq> []" using inv(1) w by (force simp: filter_empty_conv)
  consider "best < rank" | "rank = best" | "rank < best" by fastforce
  then show ?thesis
  proof cases
    case 1
    then have "filter (\<lambda>c. snd c = rank) cs = []"
      using inv(2) by (intro filter_False ballI) (metis leD)
    moreover have "\<forall>c\<in>set cs. snd c \<le> rank" using inv(2) 1 by force
    ultimately show ?thesis
      using Some w 1 by (auto simp: selection_inv_def consider_candidate_def HasHigherRank_less)
  next
    case 2
    with one Some w inv show ?thesis
      by (auto simp: selection_inv_def consider_candidate_def HasHigherRank_less HasEqualRank_eq)
  next
    case 3
    then have "\<not> best < rank" "rank \<noteq> best" "rank \<le> best" by auto
    with Some w inv show ?thesis
      by (auto simp: selection_inv_def consider_candidate_def HasHigherRank_less HasEqualRank_eq)
  qed
qed

lemma consider_candidate_fallback [simp]: "se_fallback (consider_candidate operation rank s) = se_fallback s"
  by (auto simp: consider_candidate_def split: option.splits)

lemma selection_loop_inv:
  "selection_loop relation request inputs ops s = Inr t \<Longrightarrow> selection_inv cs s \<Longrightarrow>
   selection_inv (cs @ candidates relation request inputs ops) t \<and>
   filter op_fallback ops = (case (se_fallback s, se_fallback t) of (None, Some f) \<Rightarrow> [f] | _ \<Rightarrow> []) \<and>
   (se_fallback s \<noteq> None \<longrightarrow> se_fallback t = se_fallback s) \<and>
   list_all (\<lambda>operation. \<exists>r. Evaluate relation operation request inputs = Inr r)
     (filter (\<lambda>operation. \<not> op_fallback operation) ops)"
proof (induction ops arbitrary: s cs)
  case Nil
  then show ?case by (auto simp: candidates_def split: option.splits)
next
  case (Cons operation ops)
  show ?case
  proof (cases "op_fallback operation")
    case True
    with Cons.prems(1) have "se_fallback s = None"
      and loop: "selection_loop relation request inputs ops (s\<lparr>se_fallback := Some operation\<rparr>) = Inr t"
      by (auto split: if_splits)
    moreover have "selection_inv cs (s\<lparr>se_fallback := Some operation\<rparr>)"
      using Cons.prems(2) by (cases "se_winner s") (simp_all add: selection_inv_def)
    ultimately show ?thesis
      using Cons.IH [OF loop] True by (auto simp: candidates_def)
  next
    case False
    with Cons.prems(1) obtain candidate where ev: "Evaluate relation operation request inputs = Inr candidate"
      and loop: "selection_loop relation request inputs ops
        (case candidate of None \<Rightarrow> s | Some rank \<Rightarrow> consider_candidate operation rank s) = Inr t"
      by auto
    show ?thesis
    proof (cases candidate)
      case None
      with loop Cons.IH [of s cs] Cons.prems(2) ev False show ?thesis by (simp add: candidates_def)
    next
      case (Some rank)
      with Cons.IH [of "consider_candidate operation rank s" "cs @ [(operation, rank)]"] loop
        consider_candidate_inv [OF Cons.prems(2)] ev False
      show ?thesis by (simp add: candidates_def)
    qed
  qed
qed

lemma selection_loop_succeeds:
  "list_all (\<lambda>operation. \<exists>r. Evaluate relation operation request inputs = Inr r)
     (filter (\<lambda>operation. \<not> op_fallback operation) ops) \<Longrightarrow>
   length (filter op_fallback ops) + (if se_fallback s = None then 0 else 1) \<le> 1 \<Longrightarrow>
   \<exists>t. selection_loop relation request inputs ops s = Inr t"
proof (induction ops arbitrary: s)
  case (Cons operation ops)
  show ?case
  proof (cases "op_fallback operation")
    case True
    with Cons show ?thesis by (auto split: if_splits)
  next
    case False
    with Cons.prems obtain r where r: "Evaluate relation operation request inputs = Inr r" by auto
    let ?s = "case r of None \<Rightarrow> s | Some rank \<Rightarrow> consider_candidate operation rank s"
    have "se_fallback ?s = se_fallback s" by (cases r) auto
    with Cons.IH [of ?s] Cons.prems False obtain t where
      "selection_loop relation request inputs ops ?s = Inr t" by auto
    with r False show ?thesis by auto
  qed
qed simp

text \<open>The choice as a specification: the single best candidate, or the eligible fallback.\<close>

definition best_candidate :: "(operation \<times> rank) list \<Rightarrow> operation \<Rightarrow> bool" where
  "best_candidate cs operation \<longleftrightarrow>
     (\<exists>rank. filter (\<lambda>c. snd c = rank) cs = [(operation, rank)] \<and> (\<forall>c\<in>set cs. snd c \<le> rank))"

definition selectable :: "relation \<Rightarrow> scan_request \<Rightarrow> resolved_input list \<Rightarrow> operation \<Rightarrow> bool" where
  "selectable relation request inputs operation \<longleftrightarrow>
     (let ops = rel_operations relation; cs = candidates relation request inputs ops in
      list_all (\<lambda>operation. \<exists>r. Evaluate relation operation request inputs = Inr r)
        (filter (\<lambda>operation. \<not> op_fallback operation) ops) \<and>
      length (filter op_fallback ops) \<le> 1 \<and>
      (best_candidate cs operation \<or>
       cs = [] \<and> filter op_fallback ops = [operation] \<and>
       (\<exists>rank. Evaluate relation operation request inputs = Inr (Some rank))))"

lemma filter_single:
  "w \<in> set cs \<Longrightarrow> snd w = rank \<Longrightarrow> \<not> 1 < length (filter (\<lambda>c. snd c = rank) cs) \<Longrightarrow>
   filter (\<lambda>c. snd c = rank) cs = [w]"
proof -
  assume w: "w \<in> set cs" "snd w = rank" and len: "\<not> 1 < length (filter (\<lambda>c. snd c = rank) cs)"
  have "w \<in> set (filter (\<lambda>c. snd c = rank) cs)" using w by simp
  then obtain x xs where f: "filter (\<lambda>c. snd c = rank) cs = x # xs"
    by (cases "filter (\<lambda>c. snd c = rank) cs") auto
  then show ?thesis using len \<open>w \<in> set (filter (\<lambda>c. snd c = rank) cs)\<close> by (cases xs) auto
qed

lemma inv_winner:
  assumes "selection_inv cs t" and "\<not> se_winner_is_tied t"
  shows "se_winner t = Some (operation, rank) \<Longrightarrow> best_candidate cs operation"
    and "best_candidate cs operation \<Longrightarrow> \<exists>rank. se_winner t = Some (operation, rank)"
proof -
  show "best_candidate cs operation" if "se_winner t = Some (operation, rank)"
    unfolding best_candidate_def
    using that assms filter_single [of "(operation, rank)" cs rank]
    by (intro exI [of _ rank]) (auto simp: selection_inv_def)
  show "\<exists>rank. se_winner t = Some (operation, rank)" if best: "best_candidate cs operation"
  proof -
    obtain rank where single: "filter (\<lambda>c. snd c = rank) cs = [(operation, rank)]"
      and max: "\<forall>c\<in>set cs. snd c \<le> rank" using best by (auto simp: best_candidate_def)
    then have mem: "(operation, rank) \<in> set cs" by (metis filter_eq_ConsD in_set_conv_decomp)
    then obtain w where w: "se_winner t = Some w"
      using assms(1) by (auto simp: selection_inv_def split: option.splits)
    then have "w \<in> set cs" "rank \<le> snd w" using assms(1) mem by (force simp: selection_inv_def)+
    then have "snd w = rank" using max by fastforce
    then have "w \<in> set (filter (\<lambda>c. snd c = rank) cs)" using \<open>w \<in> set cs\<close> by simp
    then show ?thesis using single w by simp
  qed
qed

lemma inv_not_tied:
  assumes "selection_inv cs t" and "best_candidate cs operation"
  shows "\<not> se_winner_is_tied t"
proof
  assume tied: "se_winner_is_tied t"
  obtain rank where single: "filter (\<lambda>c. snd c = rank) cs = [(operation, rank)]"
    and max: "\<forall>c\<in>set cs. snd c \<le> rank" using assms(2) by (auto simp: best_candidate_def)
  then have mem: "(operation, rank) \<in> set cs" by (metis filter_eq_ConsD in_set_conv_decomp)
  from assms(1) tied obtain w where w: "w \<in> set cs" "\<forall>c\<in>set cs. snd c \<le> snd w"
    "1 < length (filter (\<lambda>c. snd c = snd w) cs)"
    by (auto simp: selection_inv_def split: option.splits)
  have "snd w = rank" using w(1,2) max mem by fastforce
  then show False using w(3) single by simp
qed

lemma SelectOperation_iff:
  "SelectOperation relation request inputs = Inr operation \<longleftrightarrow> selectable relation request inputs operation"
proof -
  let ?s = "\<lparr>se_winner = None, se_winner_is_tied = False, se_fallback = None\<rparr>"
  let ?ops = "rel_operations relation"
  let ?cs = "candidates relation request inputs ?ops"
  have start: "selection_inv [] ?s" by (simp add: selection_inv_def)
  note inv = selection_loop_inv [OF _ start]
  show ?thesis
  proof
    assume "SelectOperation relation request inputs = Inr operation"
    then obtain t where t: "selection_loop relation request inputs ?ops ?s = Inr t"
      and nt: "\<not> se_winner_is_tied t"
      and pick: "(\<exists>rank. se_winner t = Some (operation, rank)) \<or>
        se_winner t = None \<and> se_fallback t = Some operation \<and>
        (\<exists>rank. Evaluate relation operation request inputs = Inr (Some rank))"
      by (auto simp: SelectOperation_def split: if_splits option.splits)
    have ti: "selection_inv ?cs t" using inv [OF t] by simp
    have "best_candidate ?cs operation \<or> ?cs = [] \<and> se_fallback t = Some operation \<and>
        (\<exists>rank. Evaluate relation operation request inputs = Inr (Some rank))"
      using pick inv_winner(1) [OF ti nt] ti by (auto simp: selection_inv_def)
    then show "selectable relation request inputs operation"
      using inv [OF t] by (auto simp: selectable_def Let_def split: option.splits)
  next
    assume sel: "selectable relation request inputs operation"
    then obtain t where t: "selection_loop relation request inputs ?ops ?s = Inr t"
      using selection_loop_succeeds [of relation request inputs ?ops ?s] by (auto simp: selectable_def Let_def)
    have ti: "selection_inv ?cs t" using inv [OF t] by simp
    from sel consider "best_candidate ?cs operation"
      | rank where "?cs = []" "filter op_fallback ?ops = [operation]"
          "Evaluate relation operation request inputs = Inr (Some rank)"
      by (auto simp: selectable_def Let_def)
    then show "SelectOperation relation request inputs = Inr operation"
    proof cases
      case 1
      then show ?thesis
        using inv_winner(2) [OF ti inv_not_tied [OF ti 1] 1] inv_not_tied [OF ti 1] t
        by (auto simp: SelectOperation_def)
    next
      case 2
      then have "se_winner t = None" "\<not> se_winner_is_tied t"
        using ti by (auto simp: selection_inv_def split: option.splits)
      moreover have "se_fallback t = Some operation"
        using inv [OF t] 2(2) by (auto split: option.splits)
      ultimately show ?thesis using 2(3) t by (auto simp: SelectOperation_def)
    qed
  qed
qed

subsection \<open>The relation's operations do not influence an operation's evaluation\<close>

lemma same_MappingMatches:
  "rel_columns r = rel_columns r' \<Longrightarrow> MappingMatches r operation mp c = MappingMatches r' operation mp c"
  by (simp add: MappingMatches_def split: predicate.splits)

lemma same_matching_mappings:
  "rel_columns r = rel_columns r' \<Longrightarrow>
   matching_mappings r operation c mps = matching_mappings r' operation c mps"
  by (induction mps) (simp_all add: same_MappingMatches [of r r'])

lemma same_bindings:
  "rel_columns r = rel_columns r' \<Longrightarrow> ValidateCandidateBindings r p = ValidateCandidateBindings r' p"
  "rel_columns r = rel_columns r' \<Longrightarrow> ValidateChildBindings r ps = ValidateChildBindings r' ps"
  by (induction r p and r ps rule: ValidateCandidateBindings_ValidateChildBindings.induct)
     (auto simp: comparison_bound_def cong: and_then_cong)

lemma same_collected:
  "rel_columns r = rel_columns r' \<Longrightarrow> rel_mappings r = rel_mappings r' \<Longrightarrow>
   CollectConjunctiveMatches r operation p acc = CollectConjunctiveMatches r' operation p acc"
  "rel_columns r = rel_columns r' \<Longrightarrow> rel_mappings r = rel_mappings r' \<Longrightarrow>
   CollectChildMatches r operation ps acc = CollectChildMatches r' operation ps acc"
proof (induction r operation p acc and r operation ps acc
    rule: CollectConjunctiveMatches_CollectChildMatches.induct)
  case (2 relation operation idx bound_type literal matches unmapped)
  then show ?case using same_matching_mappings [of relation r'] by simp
qed (auto cong: and_then_cong)

lemma same_evaluation:
  assumes "rel_columns r = rel_columns r'" and "rel_mappings r = rel_mappings r'"
  shows "Evaluate r operation request inputs = Evaluate r' operation request inputs"
  by (simp add: Evaluate_def ResolveCandidateInputBindings_def ValidateCandidateContract_def Let_def
      same_bindings(1) [OF assms(1)] same_collected(1) [OF assms])

lemma selectable_permuted:
  assumes "rel_columns r = rel_columns r'" and "rel_mappings r = rel_mappings r'"
    and perm: "mset (rel_operations r) = mset (rel_operations r')"
    and sel: "selectable r request inputs operation"
  shows "selectable r' request inputs operation"
proof -
  let ?ops = "rel_operations r" and ?ops' = "rel_operations r'"
  have ev: "Evaluate r' o' request inputs = Evaluate r o' request inputs" for o'
    using same_evaluation [OF assms(1,2)] by simp
  have fb: "mset (filter op_fallback ?ops) = mset (filter op_fallback ?ops')" using perm by simp
  have sets: "set ?ops = set ?ops'" using perm by (rule mset_eq_setD)
  have cands: "mset (candidates r request inputs ?ops) = mset (candidates r' request inputs ?ops')"
  proof -
    let ?f = "\<lambda>o'. case Evaluate r o' request inputs of Inr (Some rank) \<Rightarrow> [(o', rank)] | _ \<Rightarrow> []"
    have sum: "mset (concat (map ?f xs)) = (\<Sum>x\<in>#mset xs. mset (?f x))" for xs
      by (induction xs) auto
    have "mset (filter (\<lambda>o'. \<not> op_fallback o') ?ops) = mset (filter (\<lambda>o'. \<not> op_fallback o') ?ops')"
      using perm by simp
    then show ?thesis by (simp only: candidates_def ev sum)
  qed
  have best: "best_candidate (candidates r' request inputs ?ops') operation"
    if "best_candidate (candidates r request inputs ?ops) operation"
  proof -
    from that obtain rank where
      single: "filter (\<lambda>c. snd c = rank) (candidates r request inputs ?ops) = [(operation, rank)]"
      and max: "\<forall>c\<in>set (candidates r request inputs ?ops). snd c \<le> rank"
      by (auto simp: best_candidate_def)
    have "mset (filter (\<lambda>c. snd c = rank) (candidates r' request inputs ?ops')) = {#(operation, rank)#}"
      using cands single by (metis mset.simps(1) mset.simps(2) mset_filter)
    then have "filter (\<lambda>c. snd c = rank) (candidates r' request inputs ?ops') = [(operation, rank)]"
      by (simp del: mset_filter)
    moreover have "\<forall>c\<in>set (candidates r' request inputs ?ops'). snd c \<le> rank"
      using max mset_eq_setD [OF cands] by simp
    ultimately show ?thesis unfolding best_candidate_def by blast
  qed
  have "length (filter op_fallback ?ops') = length (filter op_fallback ?ops)"
    using fb by (metis size_mset)
  moreover have "filter op_fallback ?ops' = [operation]" if "filter op_fallback ?ops = [operation]"
    using fb that by (simp del: mset_filter)
  moreover have "candidates r' request inputs ?ops' = []" if "candidates r request inputs ?ops = []"
    using cands that by simp
  moreover have "list_all (\<lambda>o'. \<exists>res. Evaluate r' o' request inputs = Inr res) (filter (\<lambda>o'. \<not> op_fallback o') ?ops')"
    using sel sets by (auto simp: selectable_def Let_def list_all_iff ev)
  ultimately show ?thesis using sel best unfolding selectable_def Let_def ev by auto
qed

subsection \<open>Properties\<close>

text \<open>
  C12. Selection is exactly the documented rule: an operation is selected if and only if every
  non-fallback operation evaluates, there is at most one fallback, and the operation is either the
  only eligible non-fallback operation of the highest rank (most satisfied required inputs, then
  priority), or, when no other operation is eligible, the eligible fallback. In particular a tie
  for the highest rank is an error and is never resolved by declaration order.
\<close>
theorem selection_rule:
  "SelectOperation relation request inputs = Inr operation \<longleftrightarrow> selectable relation request inputs operation"
  by (rule SelectOperation_iff)

text \<open>
  Declaration order is irrelevant: reordering the operations of a relation never changes which
  operation is selected.
\<close>
lemma selection_ignores_order:
  assumes "SelectOperation relation request inputs = Inr operation"
    and "mset ops = mset (rel_operations relation)"
  shows "SelectOperation (relation\<lparr>rel_operations := ops\<rparr>) request inputs = Inr operation"
  using assms selectable_permuted [of relation "relation\<lparr>rel_operations := ops\<rparr>" request inputs operation]
  by (simp add: SelectOperation_iff)

definition keyed_operation :: operation where
  "keyed_operation = sample_operation\<lparr>op_name := ''by_owner'', op_fallback := False,
     op_selector := (op_selector sample_operation)\<lparr>os_required_input_references :=
       [\<lparr>ir_kind = RELATION_INPUT, ir_id = ''owner''\<rparr>]\<rparr>\<rparr>"

definition two_operations :: relation where
  "two_operations = sample_relation\<lparr>rel_inputs := rel_inputs sample_inputs_relation,
     rel_operations := [sample_operation, keyed_operation]\<rparr>"

lemma sample_selection:
  "SelectOperation two_operations (sample_request sample_comparison) sample_resolved = Inr keyed_operation"
  by code_simp

end
