(* ===== verification/Keyed_Table.thy ===== *)
theory Keyed_Table
  imports Prelude
begin

text \<open>
  The hash maps and keyed vectors of the runtime (\<open>std::unordered_map\<close> in the rate-limit
  coordinator, the keyed counters of the admission controller) as one interface. The programs
  never depend on iteration order; what they rely on is lookup after update and erase, and that a
  total over the entries moves by the entry that changed. The model's tables are association
  lists with distinct keys.
\<close>

locale keyed_table =
  fixes wf :: "'t \<Rightarrow> bool"
    and lookup :: "'t \<Rightarrow> 'k \<Rightarrow> 'v option"
    and put :: "'k \<Rightarrow> 'v \<Rightarrow> 't \<Rightarrow> 't"
    and erase :: "'k \<Rightarrow> 't \<Rightarrow> 't"
    and total :: "('v \<Rightarrow> nat) \<Rightarrow> 't \<Rightarrow> nat"
  assumes wf_put: "wf t \<Longrightarrow> wf (put k v t)"
    and wf_erase: "wf t \<Longrightarrow> wf (erase k t)"
    and lookup_put: "lookup (put k v t) k' = (if k' = k then Some v else lookup t k')"
    and lookup_erase: "wf t \<Longrightarrow> lookup (erase k t) k' = (if k' = k then None else lookup t k')"
    and total_put: "wf t \<Longrightarrow>
      total w (put k v t) + (case lookup t k of None \<Rightarrow> 0 | Some o' \<Rightarrow> w o') = total w t + w v"
    and total_erase: "wf t \<Longrightarrow>
      total w (erase k t) + (case lookup t k of None \<Rightarrow> 0 | Some o' \<Rightarrow> w o') = total w t"
begin

lemma entry_le_total: "wf t \<Longrightarrow> lookup t k = Some v \<Longrightarrow> w v \<le> total w t"
  using total_erase [of t w k] by simp

lemma total_put_new: "wf t \<Longrightarrow> lookup t k = None \<Longrightarrow> total w (put k v t) = total w t + w v"
  using total_put [of t w k v] by simp

lemma total_put_same: "wf t \<Longrightarrow> lookup t k = Some v' \<Longrightarrow> w v = w v' \<Longrightarrow> total w (put k v t) = total w t"
  using total_put [of t w k v] by simp

lemma total_put_more:
  "wf t \<Longrightarrow> lookup t k = Some v' \<Longrightarrow> w v = w v' + d \<Longrightarrow> total w (put k v t) = total w t + d"
  using total_put [of t w k v] by simp

lemma total_put_less:
  "wf t \<Longrightarrow> lookup t k = Some v' \<Longrightarrow> w v + d = w v' \<Longrightarrow> total w (put k v t) = total w t - d"
  using total_put [of t w k v] by simp

lemma total_erase_entry: "wf t \<Longrightarrow> lookup t k = Some v \<Longrightarrow> total w (erase k t) = total w t - w v"
  using total_erase [of t w k] by simp

end

subsection \<open>Association lists\<close>

type_synonym ('k, 'v) table = "('k \<times> 'v) list"

definition table_wf :: "('k, 'v) table \<Rightarrow> bool" where
  "table_wf t \<longleftrightarrow> distinct (map fst t)"

definition table_find :: "('k, 'v) table \<Rightarrow> 'k \<Rightarrow> 'v option" where
  "table_find t k = map_of t k"

fun table_put :: "'k \<Rightarrow> 'v \<Rightarrow> ('k, 'v) table \<Rightarrow> ('k, 'v) table" where
  "table_put k v [] = [(k, v)]"
| "table_put k v ((k', v') # t) = (if k' = k then (k, v) # t else (k', v') # table_put k v t)"

definition table_erase :: "'k \<Rightarrow> ('k, 'v) table \<Rightarrow> ('k, 'v) table" where
  "table_erase k t = filter (\<lambda>e. fst e \<noteq> k) t"

definition table_total :: "('v \<Rightarrow> nat) \<Rightarrow> ('k, 'v) table \<Rightarrow> nat" where
  "table_total w t = sum_list (map (\<lambda>e. w (snd e)) t)"

lemma set_keys_put [simp]: "set (map fst (table_put k v t)) = insert k (set (map fst t))"
  by (induction k v t rule: table_put.induct) auto

lemma table_wf_put: "table_wf t \<Longrightarrow> table_wf (table_put k v t)"
proof (induction k v t rule: table_put.induct)
  case (2 k v k' v' t)
  then show ?case
    using set_keys_put [of k v t] by (auto simp: table_wf_def simp del: set_map set_keys_put)
qed (simp add: table_wf_def)

lemma table_find_put: "table_find (table_put k v t) k' = (if k' = k then Some v else table_find t k')"
  by (induction k v t rule: table_put.induct) (auto simp: table_find_def)

lemma table_find_None: "table_find t k = None \<longleftrightarrow> k \<notin> fst ` set t"
  by (simp add: table_find_def map_of_eq_None_iff)

lemma table_total_put:
  "table_wf t \<Longrightarrow>
   table_total w (table_put k v t) + (case table_find t k of None \<Rightarrow> 0 | Some o' \<Rightarrow> w o')
   = table_total w t + w v"
  by (induction k v t rule: table_put.induct)
     (auto simp: table_wf_def table_total_def table_find_def split: option.splits)

lemma table_total_erase:
  "table_wf t \<Longrightarrow>
   table_total w (table_erase k t) + (case table_find t k of None \<Rightarrow> 0 | Some o' \<Rightarrow> w o') = table_total w t"
proof (induction t)
  case (Cons e t)
  show ?case
  proof (cases "fst e = k")
    case True
    with Cons.prems have "k \<notin> fst ` set t" by (auto simp: table_wf_def)
    then have "filter (\<lambda>x. fst x \<noteq> k) t = t" by (intro filter_True ballI) (metis imageI)
    with True show ?thesis by (simp add: table_total_def table_erase_def table_find_def)
  next
    case False
    with Cons show ?thesis
      by (cases e) (auto simp: table_wf_def table_total_def table_erase_def table_find_def)
  qed
qed (simp add: table_total_def table_erase_def table_find_def)

interpretation tbl: keyed_table table_wf table_find table_put table_erase table_total
proof unfold_locales
  show "table_wf t \<Longrightarrow> table_wf (table_erase k t)" for t :: "('a, 'b) table" and k
    by (simp add: table_wf_def table_erase_def distinct_map_filter)
  show "table_wf t \<Longrightarrow> table_find (table_erase k t) k' = (if k' = k then None else table_find t k')"
    for t :: "('a, 'b) table" and k k'
    by (induction t) (auto simp: table_wf_def table_find_def table_erase_def)
qed (simp_all add: table_wf_put table_find_put table_total_put table_total_erase)

lemmas table_simps [simp] = table_wf_put table_find_put tbl.wf_erase tbl.lookup_erase

lemma table_wf_Nil [simp]: "table_wf []"
  by (simp add: table_wf_def)

lemma table_find_Nil [simp]: "table_find [] k = None"
  by (simp add: table_find_def)

lemma table_total_Nil [simp]: "table_total w [] = 0"
  by (simp add: table_total_def)

lemma table_find_member: "table_wf t \<Longrightarrow> (k, v) \<in> set t \<longleftrightarrow> table_find t k = Some v"
  by (simp add: table_find_def table_wf_def map_of_eq_Some_iff)

end
