(* ===== verification/Rate_Limit_Coordinator.thy ===== *)
theory Rate_Limit_Coordinator
  imports Keyed_Table
begin

text \<open>
  The rate-limit coordinator, \<open>src/src/runtime/execution/rate_limit_coordinator.cpp\<close>: per quota
  bucket a first-in first-out queue of tickets, at most one permit, and a steady time before
  which nobody is admitted. The source is a monitor: every operation runs under one mutex and
  releases it only inside \<open>clock->WaitFor\<close>. The model therefore has one atomic step per
  critical section; \<open>Acquire\<close> and \<open>Requeue\<close> enqueue in one step, and each turn of the loop of
  \<open>WaitForTicket\<close> is another, interleaved arbitrarily with the steps of other streams. Clock
  readings and cancellation requests are arguments of the steps. Allocation failure is not modelled.
\<close>

subsection \<open>Keys\<close>

text \<open>
  An opaque principal identity is compared by its own virtual \<open>Equals\<close>; the type variable stands
  for identities up to that equality. A remote bucket is absent or present with a name.
\<close>

datatype 'i principal = Anonymous | Shared string | Opaque 'i

record 'i quota_key =
  qk_scheme :: string
  qk_host :: string
  qk_explicit_port :: u16
  qk_connector_id :: string
  qk_package_major :: u64
  qk_operation_family :: string
  qk_principal :: "'i principal"
  qk_remote_bucket :: "string option"

definition MakeShared :: "string \<Rightarrow> string + 'i principal" where
  "MakeShared admitted_tag =
     (if admitted_tag = [] then Inl ''shared rate-limit principal tag must not be empty''
      else Inr (Shared admitted_tag))"

subsection \<open>State\<close>

datatype acquire_status = ACQUIRED | QUEUE_SATURATED | SCHEDULER_CLOSED | CANCELLED
  | DEADLINE_REACHED | TICKET_EXHAUSTED

record coordinator_limits =
  cl_waiters_per_key :: u64
  cl_total_waiters :: u64
  cl_interrupt_slice_milliseconds :: u64

record bucket =
  bk_eligible :: int
  bk_permitted :: bool
  bk_tickets :: "u64 list"

record 'k coordinator =
  co_terminal_status :: acquire_status
  co_next_ticket :: u64
  co_total_waiters :: u64
  co_limits :: coordinator_limits
  co_buckets :: "('k, bucket) table"

definition HardLimits :: coordinator_limits where
  "HardLimits = \<lparr>cl_waiters_per_key = 64, cl_total_waiters = 4096, cl_interrupt_slice_milliseconds = 5\<rparr>"

definition RateLimitCoordinator :: "coordinator_limits \<Rightarrow> u64 \<Rightarrow> string + 'k coordinator" where
  "RateLimitCoordinator limits initial_ticket =
     (if initial_ticket = 0 \<or> cl_waiters_per_key limits > cl_waiters_per_key HardLimits \<or>
         cl_total_waiters limits > cl_total_waiters HardLimits \<or>
         cl_interrupt_slice_milliseconds limits = 0 \<or>
         cl_interrupt_slice_milliseconds limits > cl_interrupt_slice_milliseconds HardLimits
      then Inl ''invalid rate-limit coordinator limits''
      else Inr \<lparr>co_terminal_status = ACQUIRED, co_next_ticket = initial_ticket, co_total_waiters = 0,
                co_limits = limits, co_buckets = []\<rparr>)"

subsection \<open>Critical sections\<close>

definition WaitSlice :: "int \<Rightarrow> int \<Rightarrow> u64 \<Rightarrow> u64" where
  "WaitSlice now target maximum_slice =
     (if target \<le> now then 0
      else if now \<le> int64_max - sint maximum_slice \<and> target > now + sint maximum_slice
      then maximum_slice
      else word_of_int (target - now))"

definition EraseTicketLocked :: "'k \<Rightarrow> bucket \<Rightarrow> u64 \<Rightarrow> 'k coordinator \<Rightarrow> 'k coordinator" where
  "EraseTicketLocked key b ticket s =
     (let b' = b\<lparr>bk_tickets := remove1 ticket (bk_tickets b)\<rparr> in
      s\<lparr>co_total_waiters := (if ticket \<in> set (bk_tickets b) then co_total_waiters s - 1
                              else co_total_waiters s),
        co_buckets := (if \<not> bk_permitted b' \<and> bk_tickets b' = [] then table_erase key (co_buckets s)
                       else table_put key b' (co_buckets s))\<rparr>)"

text \<open>
  The loop of \<open>EnterTerminalLocked\<close> over the buckets clears each queue, subtracts its length, and
  drops the buckets that hold no permit.
\<close>

fun clear_queues :: "('k, bucket) table \<Rightarrow> u64 \<Rightarrow> ('k, bucket) table \<times> u64" where
  "clear_queues [] waiters = ([], waiters)"
| "clear_queues ((k, b) # rest) waiters =
     (let (kept, left) = clear_queues rest (waiters - of_nat (length (bk_tickets b))) in
      (if bk_permitted b then (k, b\<lparr>bk_tickets := []\<rparr>) # kept else kept, left))"

definition EnterTerminalLocked :: "acquire_status \<Rightarrow> 'k coordinator \<Rightarrow> 'k coordinator" where
  "EnterTerminalLocked status s =
     (if co_terminal_status s \<noteq> ACQUIRED then s
      else (let (kept, left) = clear_queues (co_buckets s) (co_total_waiters s) in
            s\<lparr>co_terminal_status := status, co_total_waiters := left, co_buckets := kept\<rparr>))"

text \<open>Entering a queue: either a status is returned at once, or a ticket is now waiting.\<close>

definition raise_eligible :: "int \<Rightarrow> bucket \<Rightarrow> bucket" where
  "raise_eligible eligible b = b\<lparr>bk_eligible := max (bk_eligible b) eligible\<rparr>"

definition key_waiters :: "bucket option \<Rightarrow> u64" where
  "key_waiters found =
     (case found of
        None \<Rightarrow> 0
      | Some b \<Rightarrow> of_nat (length (bk_tickets b)) + (if bk_permitted b then 1 else 0))"

definition Acquire :: "'k \<Rightarrow> int \<Rightarrow> bool \<Rightarrow> 'k coordinator \<Rightarrow> (acquire_status + u64) \<times> 'k coordinator" where
  "Acquire key eligible cancelled s =
     (if co_terminal_status s \<noteq> ACQUIRED then (Inl (co_terminal_status s), s)
      else if cancelled then (Inl CANCELLED, s)
      else
        let found = map_option (raise_eligible eligible) (table_find (co_buckets s) key);
            s1 = (case found of None \<Rightarrow> s
                  | Some b \<Rightarrow> s\<lparr>co_buckets := table_put key b (co_buckets s)\<rparr>) in
        if key_waiters found \<ge> cl_waiters_per_key (co_limits s1) \<or>
           co_total_waiters s1 \<ge> cl_total_waiters (co_limits s1)
        then (Inl QUEUE_SATURATED, s1)
        else if co_next_ticket s1 = uint64_max
        then (Inl TICKET_EXHAUSTED, EnterTerminalLocked TICKET_EXHAUSTED s1)
        else
          let b = (case found of
                     None \<Rightarrow> \<lparr>bk_eligible = eligible, bk_permitted = False, bk_tickets = []\<rparr>
                   | Some b \<Rightarrow> b);
              ticket = co_next_ticket s1 in
          (Inr ticket, s1\<lparr>co_next_ticket := co_next_ticket s1 + 1,
             co_buckets := table_put key (b\<lparr>bk_tickets := bk_tickets b @ [ticket]\<rparr>) (co_buckets s1),
             co_total_waiters := co_total_waiters s1 + 1\<rparr>))"

datatype poll_result = Returned acquire_status | Waits u64

definition WaitForTicket ::
  "'k \<Rightarrow> u64 \<Rightarrow> int \<Rightarrow> bool \<Rightarrow> int \<Rightarrow> 'k coordinator \<Rightarrow> poll_result \<times> 'k coordinator" where
  "WaitForTicket key ticket deadline cancelled now s =
     (if co_terminal_status s \<noteq> ACQUIRED then (Returned (co_terminal_status s), s)
      else case table_find (co_buckets s) key of
        None \<Rightarrow> (Returned SCHEDULER_CLOSED, s)
      | Some b \<Rightarrow>
          (if cancelled then (Returned CANCELLED, EraseTicketLocked key b ticket s)
           else if \<not> bk_permitted b \<and> bk_tickets b \<noteq> [] \<and> hd (bk_tickets b) = ticket \<and>
                   now \<ge> bk_eligible b \<and> now \<le> deadline
           then (Returned ACQUIRED,
                 s\<lparr>co_buckets := table_put key (b\<lparr>bk_tickets := tl (bk_tickets b), bk_permitted := True\<rparr>)
                                  (co_buckets s)\<rparr>)
           else if now \<ge> deadline \<or> bk_eligible b > deadline
           then (Returned DEADLINE_REACHED, EraseTicketLocked key b ticket s)
           else
             let target = (if bk_eligible b > now then min (bk_eligible b) deadline else deadline) in
             (Waits (WaitSlice now target (cl_interrupt_slice_milliseconds (co_limits s))), s)))"

definition ExtendEligibleTime :: "'k \<Rightarrow> int \<Rightarrow> 'k coordinator \<Rightarrow> bool \<times> 'k coordinator" where
  "ExtendEligibleTime key eligible s =
     (case table_find (co_buckets s) key of
        None \<Rightarrow> (False, s)
      | Some b \<Rightarrow>
          (if co_terminal_status s \<noteq> ACQUIRED \<or> \<not> bk_permitted b then (False, s)
           else (True, s\<lparr>co_buckets := table_put key (raise_eligible eligible b) (co_buckets s)\<rparr>)))"

definition Complete :: "'k \<Rightarrow> 'k coordinator \<Rightarrow> 'k coordinator" where
  "Complete key s =
     (case table_find (co_buckets s) key of
        None \<Rightarrow> s
      | Some b \<Rightarrow>
          (if \<not> bk_permitted b then s
           else s\<lparr>co_total_waiters := co_total_waiters s - 1,
                  co_buckets := (if bk_tickets b = [] then table_erase key (co_buckets s)
                                 else table_put key (b\<lparr>bk_permitted := False\<rparr>) (co_buckets s))\<rparr>))"

text \<open>The handler of \<open>WaitForTicket\<close> for an exception of the clock or the cancellation callback.\<close>

definition WaitForTicket_unwind :: "'k \<Rightarrow> u64 \<Rightarrow> 'k coordinator \<Rightarrow> 'k coordinator" where
  "WaitForTicket_unwind key ticket s =
     (case table_find (co_buckets s) key of
        None \<Rightarrow> s
      | Some b \<Rightarrow> EraseTicketLocked key b ticket s)"

text \<open>
  The critical section of \<open>Requeue\<close>. Where it returns a status at once, the source has unlocked the
  mutex and calls \<open>Complete\<close> on the permit, which is a critical section of its own.
\<close>

datatype requeue_error = LostAuthority

definition Requeue ::
  "'k \<Rightarrow> int \<Rightarrow> bool \<Rightarrow> 'k coordinator \<Rightarrow> (requeue_error + (acquire_status + u64)) \<times> 'k coordinator" where
  "Requeue key eligible cancelled s =
     (if co_terminal_status s \<noteq> ACQUIRED \<or> cancelled
      then (Inr (Inl (if co_terminal_status s \<noteq> ACQUIRED then co_terminal_status s else CANCELLED)), s)
      else case table_find (co_buckets s) key of
        None \<Rightarrow> (Inl LostAuthority, s)
      | Some b \<Rightarrow>
          (if \<not> bk_permitted b then (Inl LostAuthority, s)
           else
             let b1 = raise_eligible eligible b;
                 s1 = s\<lparr>co_buckets := table_put key b1 (co_buckets s)\<rparr> in
             if co_next_ticket s1 = uint64_max
             then (Inr (Inl TICKET_EXHAUSTED), EnterTerminalLocked TICKET_EXHAUSTED s1)
             else
               let ticket = co_next_ticket s1 in
               (Inr (Inr ticket), s1\<lparr>co_next_ticket := co_next_ticket s1 + 1,
                  co_buckets := table_put key (b1\<lparr>bk_tickets := bk_tickets b1 @ [ticket], bk_permitted := False\<rparr>)
                                  (co_buckets s1)\<rparr>)))"

definition Close :: "'k coordinator \<Rightarrow> 'k coordinator" where
  "Close s = (if co_terminal_status s \<noteq> ACQUIRED then s else EnterTerminalLocked SCHEDULER_CLOSED s)"

definition IsClosed :: "'k coordinator \<Rightarrow> bool" where
  "IsClosed s \<longleftrightarrow> co_terminal_status s \<noteq> ACQUIRED"

subsection \<open>The invariant of the shared state\<close>

definition load :: "bucket \<Rightarrow> nat" where
  "load b = length (bk_tickets b) + (if bk_permitted b then 1 else 0)"

definition bucket_ok :: "'k coordinator \<Rightarrow> bucket \<Rightarrow> bool" where
  "bucket_ok s b \<longleftrightarrow>
     sorted_wrt (<) (bk_tickets b) \<and> (\<forall>t\<in>set (bk_tickets b). t < co_next_ticket s) \<and>
     0 < load b \<and> load b \<le> unat (cl_waiters_per_key (co_limits s)) \<and>
     (co_terminal_status s \<noteq> ACQUIRED \<longrightarrow> bk_tickets b = [])"

definition coordinator_inv :: "'k coordinator \<Rightarrow> bool" where
  "coordinator_inv s \<longleftrightarrow>
     table_wf (co_buckets s) \<and>
     (\<forall>k b. table_find (co_buckets s) k = Some b \<longrightarrow> bucket_ok s b) \<and>
     unat (co_total_waiters s) = table_total load (co_buckets s) \<and>
     co_total_waiters s \<le> cl_total_waiters (co_limits s) \<and>
     cl_waiters_per_key (co_limits s) \<le> 64"

lemma initial_inv: "RateLimitCoordinator limits initial = Inr s \<Longrightarrow> coordinator_inv s"
  by (auto simp: RateLimitCoordinator_def coordinator_inv_def HardLimits_def not_less split: if_splits)

lemma load_simps [simp]:
  "load (raise_eligible e b) = load b"
  "bk_tickets (raise_eligible e b) = bk_tickets b"
  "bk_permitted (raise_eligible e b) = bk_permitted b"
  by (simp_all add: load_def raise_eligible_def)

lemma waiters_dec:
  assumes "unat (w::u64) = n" and "0 < n"
  shows "unat (w - 1) = n - 1" and "w - 1 \<le> w"
proof -
  have "1 \<le> w" using assms by (simp add: word_le_nat_alt)
  then show "unat (w - 1) = n - 1" using assms by (simp add: unat_sub_le)
  then show "w - 1 \<le> w" using assms by (simp add: word_le_nat_alt)
qed

lemma load_le_total:
  "coordinator_inv s \<Longrightarrow> table_find (co_buckets s) k = Some b \<Longrightarrow> load b \<le> unat (co_total_waiters s)"
  by (auto simp: coordinator_inv_def intro: tbl.entry_le_total)

lemma key_waiters_load:
  assumes "coordinator_inv s" and "table_find (co_buckets s) k = Some b"
  shows "unat (key_waiters (Some b)) = load b"
proof -
  have "load b \<le> unat (cl_waiters_per_key (co_limits s))" "cl_waiters_per_key (co_limits s) \<le> 64"
    using assms by (auto simp: coordinator_inv_def bucket_ok_def)
  then have small: "load b \<le> 64" by (simp add: word_le_nat_alt)
  have "key_waiters (Some b) = of_nat (load b)" by (simp add: key_waiters_def load_def)
  then show ?thesis using small by (simp add: unat_of_nat)
qed

text \<open>Replacing one bucket keeps the invariant when the bucket is sound and the total follows.\<close>

lemma put_inv:
  assumes inv: "coordinator_inv s"
    and ok: "bucket_ok s' b'"
    and same: "co_limits s' = co_limits s" "co_terminal_status s' = co_terminal_status s"
      "co_next_ticket s \<le> co_next_ticket s'"
    and buckets: "co_buckets s' = table_put key b' (co_buckets s)"
    and total: "unat (co_total_waiters s') + (case table_find (co_buckets s) key of None \<Rightarrow> 0 | Some b \<Rightarrow> load b)
      = unat (co_total_waiters s) + load b'"
    and limit: "co_total_waiters s' \<le> cl_total_waiters (co_limits s)"
  shows "coordinator_inv s'"
proof -
  have wf: "table_wf (co_buckets s)" using inv by (simp add: coordinator_inv_def)
  have "bucket_ok s' b" if "bucket_ok s b" for b
    using that same by (fastforce simp: bucket_ok_def)
  moreover have "unat (co_total_waiters s') = table_total load (co_buckets s')"
    using tbl.total_put [OF wf, of load key b'] total inv buckets by (simp add: coordinator_inv_def)
  ultimately show ?thesis
    using inv ok same buckets limit by (auto simp: coordinator_inv_def split: if_splits)
qed

lemma erase_inv:
  assumes inv: "coordinator_inv s"
    and same: "co_limits s' = co_limits s" "co_terminal_status s' = co_terminal_status s"
      "co_next_ticket s' = co_next_ticket s"
    and buckets: "co_buckets s' = table_erase key (co_buckets s)"
    and total: "unat (co_total_waiters s') + (case table_find (co_buckets s) key of None \<Rightarrow> 0 | Some b \<Rightarrow> load b)
      = unat (co_total_waiters s)"
  shows "coordinator_inv s'"
proof -
  have wf: "table_wf (co_buckets s)" using inv by (simp add: coordinator_inv_def)
  have "unat (co_total_waiters s') = table_total load (co_buckets s')"
    using tbl.total_erase [OF wf, of load key] total inv buckets by (simp add: coordinator_inv_def)
  moreover have "co_total_waiters s' \<le> cl_total_waiters (co_limits s)"
    using total inv by (simp add: coordinator_inv_def word_le_nat_alt split: option.splits)
  ultimately show ?thesis
    using inv same buckets by (auto simp: coordinator_inv_def bucket_ok_def split: if_splits)
qed

lemma sorted_wrt_remove1:
  "sorted_wrt (<) (xs :: u64 list) \<Longrightarrow> sorted_wrt (<) (remove1 x xs)"
  by (induction xs) (auto dest: in_set_remove1 [THEN iffD1, rotated] notin_set_remove1 [THEN contrapos_pp])

lemma length_remove_ticket: "t \<in> set ts \<Longrightarrow> Suc (length (remove1 t ts)) = length ts"
  by (simp add: length_remove1) (metis Suc_pred length_pos_if_in_set)

lemma EraseTicketLocked_inv:
  assumes inv: "coordinator_inv s" and b: "table_find (co_buckets s) key = Some b"
  shows "coordinator_inv (EraseTicketLocked key b ticket s)"
proof -
  let ?b' = "b\<lparr>bk_tickets := remove1 ticket (bk_tickets b)\<rparr>"
  let ?s' = "EraseTicketLocked key b ticket s"
  have ok: "bucket_ok s b" using inv b by (simp add: coordinator_inv_def)
  have le: "load b \<le> unat (co_total_waiters s)" by (rule load_le_total [OF inv b])
  have total: "unat (co_total_waiters ?s') + load b = unat (co_total_waiters s) + load ?b'"
  proof (cases "ticket \<in> set (bk_tickets b)")
    case True
    then have "0 < unat (co_total_waiters s)" using le length_pos_if_in_set [OF True] unfolding load_def by linarith
    with True show ?thesis
      using waiters_dec(1) [OF refl, of "co_total_waiters s"] length_remove_ticket [OF True] le
      by (simp add: EraseTicketLocked_def Let_def load_def)
  next
    case False
    then show ?thesis by (simp add: EraseTicketLocked_def Let_def load_def remove1_idem)
  qed
  have le_total: "co_total_waiters ?s' \<le> co_total_waiters s"
    using total length_remove1 [of ticket "bk_tickets b"]
    by (auto simp: word_le_nat_alt load_def split: if_splits)
  show ?thesis
  proof (cases "\<not> bk_permitted b \<and> remove1 ticket (bk_tickets b) = []")
    case True
    then have "load ?b' = 0" by (simp add: load_def)
    with True total show ?thesis
      by (intro erase_inv [OF inv]) (auto simp: EraseTicketLocked_def Let_def b)
  next
    case False
    have "length (remove1 ticket (bk_tickets b)) \<le> length (bk_tickets b)" by (simp add: length_remove1)
    moreover have "0 < load ?b'" using False by (auto simp: load_def)
    ultimately have "bucket_ok ?s' ?b'"
      using ok False by (auto simp: bucket_ok_def load_def EraseTicketLocked_def Let_def
          sorted_wrt_remove1 dest: notin_set_remove1)
    with False total le_total inv show ?thesis
      by (intro put_inv [OF inv, where key = key and b' = ?b'])
         (auto simp: EraseTicketLocked_def Let_def b coordinator_inv_def)
  qed
qed

lemma clear_queues_result:
  "clear_queues t w =
    (map (\<lambda>(k, b). (k, b\<lparr>bk_tickets := []\<rparr>)) (filter (\<lambda>(k, b). bk_permitted b) t),
     w - of_nat (table_total (\<lambda>b. length (bk_tickets b)) t))"
  by (induction t w rule: clear_queues.induct) (auto simp: table_total_def)

lemma cleared_find:
  "table_wf t \<Longrightarrow>
   table_find (map (\<lambda>(k, b). (k, b\<lparr>bk_tickets := []\<rparr>)) (filter (\<lambda>(k, b). bk_permitted b) t)) k
   = (case table_find t k of
        None \<Rightarrow> None
      | Some b \<Rightarrow> if bk_permitted b then Some (b\<lparr>bk_tickets := []\<rparr>) else None)"
proof (induction t)
  case (Cons e t)
  then have "table_find t (fst e) = None" by (auto simp: table_find_None table_wf_def)
  with Cons show ?case by (cases e) (auto simp: table_find_def table_wf_def)
qed simp

lemma cleared_total:
  "table_total load (map (\<lambda>(k, b). (k, b\<lparr>bk_tickets := []\<rparr>)) (filter (\<lambda>(k, b). bk_permitted b) t))
   + table_total (\<lambda>b. length (bk_tickets b)) t = table_total load t"
  by (induction t) (auto simp: table_total_def load_def)

lemma EnterTerminalLocked_open:
  assumes "co_terminal_status s = ACQUIRED"
  shows "EnterTerminalLocked status s = s\<lparr>co_terminal_status := status,
      co_total_waiters := co_total_waiters s - of_nat (table_total (\<lambda>b. length (bk_tickets b)) (co_buckets s)),
      co_buckets := map (\<lambda>(k, b). (k, b\<lparr>bk_tickets := []\<rparr>)) (filter (\<lambda>(k, b). bk_permitted b) (co_buckets s))\<rparr>"
  using assms by (simp add: EnterTerminalLocked_def clear_queues_result)

lemma EnterTerminalLocked_inv:
  assumes inv: "coordinator_inv s"
  shows "coordinator_inv (EnterTerminalLocked status s)"
proof (cases "co_terminal_status s = ACQUIRED")
  case True
  let ?t = "co_buckets s"
  let ?n = "table_total (\<lambda>b. length (bk_tickets b)) ?t"
  let ?kept = "map (\<lambda>(k, b). (k, b\<lparr>bk_tickets := []\<rparr>)) (filter (\<lambda>(k, b). bk_permitted b) ?t)"
  have wf: "table_wf ?t" and total: "unat (co_total_waiters s) = table_total load ?t"
    using inv by (simp_all add: coordinator_inv_def)
  have le: "?n \<le> unat (co_total_waiters s)" using cleared_total [of ?t] total by simp
  have "unat (co_total_waiters s) < 2 ^ LENGTH(64)" by (rule unsigned_less)
  with le have n: "unat (of_nat ?n :: u64) = ?n" by (simp add: unat_of_nat)
  then have "(of_nat ?n :: u64) \<le> co_total_waiters s" using le by (simp add: word_le_nat_alt)
  then have left: "unat (co_total_waiters s - of_nat ?n) = unat (co_total_waiters s) - ?n"
    by (simp add: unat_sub_le n)
  have "table_wf ?kept"
    using wf by (auto simp: table_wf_def case_prod_unfold comp_def distinct_map_filter)
  moreover have "unat (co_total_waiters s - of_nat ?n) = table_total load ?kept"
    using left total cleared_total [of ?t] by simp
  moreover have "co_total_waiters s - of_nat ?n \<le> cl_total_waiters (co_limits s)"
    using left inv unfolding coordinator_inv_def word_le_nat_alt by linarith
  moreover have "bucket_ok (EnterTerminalLocked status s) b" if "table_find ?kept k = Some b" for k b
  proof -
    from that obtain b0 where b0: "table_find ?t k = Some b0" "bk_permitted b0" "b = b0\<lparr>bk_tickets := []\<rparr>"
      using cleared_find [OF wf, of k] by (auto split: option.splits if_splits)
    then have "bucket_ok s b0" using inv by (simp add: coordinator_inv_def)
    with b0(2,3) show ?thesis
      by (auto simp: EnterTerminalLocked_open [OF True] bucket_ok_def load_def)
  qed
  ultimately show ?thesis
    using inv by (auto simp: EnterTerminalLocked_open [OF True] coordinator_inv_def)
next
  case False
  then show ?thesis using inv by (simp add: EnterTerminalLocked_def)
qed

lemma raise_inv:
  assumes inv: "coordinator_inv s" and b: "table_find (co_buckets s) key = Some b"
  shows "coordinator_inv (s\<lparr>co_buckets := table_put key (raise_eligible e b) (co_buckets s)\<rparr>)"
  using inv b
  by (intro put_inv [OF inv, where key = key and b' = "raise_eligible e b"])
     (auto simp: coordinator_inv_def bucket_ok_def)

lemma Complete_inv:
  assumes inv: "coordinator_inv s"
  shows "coordinator_inv (Complete key s)"
proof (cases "\<exists>b. table_find (co_buckets s) key = Some b \<and> bk_permitted b")
  case True
  then obtain b where b: "table_find (co_buckets s) key = Some b" "bk_permitted b" by blast
  have ok: "bucket_ok s b" using inv b by (simp add: coordinator_inv_def)
  have "0 < unat (co_total_waiters s)" using load_le_total [OF inv b(1)] b(2) by (simp add: load_def)
  note dec = waiters_dec [OF refl this]
  show ?thesis
  proof (cases "bk_tickets b = []")
    case True
    with b dec(1) load_le_total [OF inv b(1)] show ?thesis
      by (intro erase_inv [OF inv, where key = key]) (auto simp: Complete_def load_def)
  next
    case False
    have "co_total_waiters (Complete key s) \<le> cl_total_waiters (co_limits s)"
      using inv dec(2) b by (auto simp: coordinator_inv_def Complete_def)
    with False b dec(1) load_le_total [OF inv b(1)] ok show ?thesis
      by (intro put_inv [OF inv, where key = key and b' = "b\<lparr>bk_permitted := False\<rparr>"])
         (auto simp: Complete_def load_def bucket_ok_def)
  qed
next
  case False
  then have "Complete key s = s" by (auto simp: Complete_def split: option.splits)
  with inv show ?thesis by simp
qed

lemma ticket_succ: "(n::u64) \<noteq> uint64_max \<Longrightarrow> n < n + 1"
proof -
  assume "n \<noteq> uint64_max"
  then have "n < uint64_max" using unat_u64_le_max [of n] by (metis order.not_eq_order_implies_strict)
  then have "unat (n + 1) = unat n + 1" by (rule succ_below(1))
  then show ?thesis by (simp add: word_less_nat_alt)
qed

subsection \<open>What the table means\<close>

text \<open>
  The abstract view of the shared state: per key the queue of waiting tickets and whether a
  permit is out. The operations are described by how they move this view.
\<close>

definition queue :: "'k coordinator \<Rightarrow> 'k \<Rightarrow> u64 list" where
  "queue s k = (case table_find (co_buckets s) k of None \<Rightarrow> [] | Some b \<Rightarrow> bk_tickets b)"

definition permitted :: "'k coordinator \<Rightarrow> 'k \<Rightarrow> bool" where
  "permitted s k = (case table_find (co_buckets s) k of None \<Rightarrow> False | Some b \<Rightarrow> bk_permitted b)"

lemma view_put:
  assumes "co_buckets s' = table_put key b' (co_buckets s)"
  shows "queue s' = (queue s)(key := bk_tickets b')" and "permitted s' = (permitted s)(key := bk_permitted b')"
  using assms by (auto simp: queue_def permitted_def fun_eq_iff)

lemma view_erase:
  assumes "table_wf (co_buckets s)" and "co_buckets s' = table_erase key (co_buckets s)"
  shows "queue s' = (queue s)(key := [])" and "permitted s' = (permitted s)(key := False)"
  using assms by (auto simp: queue_def permitted_def fun_eq_iff)

lemma EraseTicketLocked_view:
  assumes "coordinator_inv s" and b: "table_find (co_buckets s) key = Some b"
  shows "queue (EraseTicketLocked key b ticket s) = (queue s)(key := remove1 ticket (queue s key))"
    and "permitted (EraseTicketLocked key b ticket s) = permitted s"
proof -
  have wf: "table_wf (co_buckets s)" using assms(1) by (simp add: coordinator_inv_def)
  have q: "queue s key = bk_tickets b" "permitted s key = bk_permitted b" using b by (simp_all add: queue_def permitted_def)
  show "queue (EraseTicketLocked key b ticket s) = (queue s)(key := remove1 ticket (queue s key))"
    using wf q by (auto simp: EraseTicketLocked_def Let_def queue_def fun_eq_iff)
  show "permitted (EraseTicketLocked key b ticket s) = permitted s"
    using wf q by (auto simp: EraseTicketLocked_def Let_def permitted_def fun_eq_iff)
qed

lemma EnterTerminalLocked_view:
  assumes "coordinator_inv s" and "co_terminal_status s = ACQUIRED"
  shows "queue (EnterTerminalLocked status s) = (\<lambda>_. [])"
    and "permitted (EnterTerminalLocked status s) = permitted s"
    and "co_terminal_status (EnterTerminalLocked status s) = status"
    and "co_next_ticket (EnterTerminalLocked status s) = co_next_ticket s"
    and "co_limits (EnterTerminalLocked status s) = co_limits s"
proof -
  have wf: "table_wf (co_buckets s)" using assms(1) by (simp add: coordinator_inv_def)
  show "queue (EnterTerminalLocked status s) = (\<lambda>_. [])"
    and "permitted (EnterTerminalLocked status s) = permitted s"
    by (auto simp: EnterTerminalLocked_open [OF assms(2)] queue_def permitted_def cleared_find [OF wf]
        fun_eq_iff split: option.splits)
qed (simp_all add: EnterTerminalLocked_open [OF assms(2)])

lemma Complete_view:
  assumes "coordinator_inv s"
  shows "queue (Complete key s) = queue s" and "permitted (Complete key s) = (permitted s)(key := False)"
    and "co_terminal_status (Complete key s) = co_terminal_status s"
    and "co_next_ticket (Complete key s) = co_next_ticket s"
    and "co_limits (Complete key s) = co_limits s"
proof -
  have wf: "table_wf (co_buckets s)" using assms by (simp add: coordinator_inv_def)
  show "queue (Complete key s) = queue s"
    using wf by (auto simp: Complete_def queue_def fun_eq_iff split: option.splits)
  show "permitted (Complete key s) = (permitted s)(key := False)"
    using wf by (auto simp: Complete_def permitted_def fun_eq_iff split: option.splits)
qed (simp_all add: Complete_def split: option.splits)

lemma queue_facts_all:
  assumes "coordinator_inv s"
  shows "sorted_wrt (<) (queue s k) \<and> (\<forall>t\<in>set (queue s k). t < co_next_ticket s) \<and>
    (co_terminal_status s \<noteq> ACQUIRED \<longrightarrow> queue s k = []) \<and>
    length (queue s k) + (if permitted s k then 1 else 0) \<le> unat (cl_waiters_per_key (co_limits s))"
proof (cases "table_find (co_buckets s) k")
  case (Some b)
  then have "bucket_ok s b" using assms by (simp add: coordinator_inv_def)
  with Some show ?thesis by (auto simp: bucket_ok_def queue_def permitted_def load_def)
qed (simp add: queue_def permitted_def)

lemma queue_facts:
  assumes "coordinator_inv s"
  shows "sorted_wrt (<) (queue s k)" and "t \<in> set (queue s k) \<Longrightarrow> t < co_next_ticket s"
    and "co_terminal_status s \<noteq> ACQUIRED \<Longrightarrow> queue s k = []"
    and "length (queue s k) + (if permitted s k then 1 else 0) \<le> unat (cl_waiters_per_key (co_limits s))"
  using queue_facts_all [OF assms, of k] by blast+

subsection \<open>The operations on the view\<close>

text \<open>How an operation that enqueued changed the view.\<close>

definition enqueued :: "'k \<Rightarrow> u64 \<Rightarrow> bool \<Rightarrow> 'k coordinator \<Rightarrow> 'k coordinator \<Rightarrow> bool" where
  "enqueued key ticket releases s s' \<longleftrightarrow>
     ticket = co_next_ticket s \<and> co_terminal_status s = ACQUIRED \<and> co_terminal_status s' = ACQUIRED \<and>
     queue s' = (queue s)(key := queue s key @ [ticket]) \<and>
     permitted s' = (if releases then (permitted s)(key := False) else permitted s)"

text \<open>How a call that returned at once changed it: not at all, or the coordinator became terminal.\<close>

definition undisturbed :: "'k coordinator \<Rightarrow> 'k coordinator \<Rightarrow> bool" where
  "undisturbed s s' \<longleftrightarrow>
     permitted s' = permitted s \<and>
     (queue s' = queue s \<and> co_terminal_status s' = co_terminal_status s \<or>
      co_terminal_status s = ACQUIRED \<and> co_terminal_status s' \<noteq> ACQUIRED \<and> queue s' = (\<lambda>_. []))"

lemma raise_view:
  assumes "table_find (co_buckets s) key = Some b"
  shows "queue (s\<lparr>co_buckets := table_put key (raise_eligible e b) (co_buckets s)\<rparr>) = queue s"
    and "permitted (s\<lparr>co_buckets := table_put key (raise_eligible e b) (co_buckets s)\<rparr>) = permitted s"
  using assms by (auto simp: queue_def permitted_def fun_eq_iff)

lemma sorted_append_ticket:
  assumes "coordinator_inv s"
  shows "sorted_wrt (<) (queue s k @ [co_next_ticket s])"
  using queue_facts(1,2) [OF assms] by (auto simp: sorted_wrt_append)

text \<open>The state in which \<open>Acquire\<close> tests the limits: the found bucket's embargo is extended.\<close>

definition raised :: "'k \<Rightarrow> int \<Rightarrow> 'k coordinator \<Rightarrow> 'k coordinator" where
  "raised key eligible s =
     (case table_find (co_buckets s) key of None \<Rightarrow> s
      | Some b \<Rightarrow> s\<lparr>co_buckets := table_put key (raise_eligible eligible b) (co_buckets s)\<rparr>)"

lemma raised_facts:
  assumes "coordinator_inv s"
  shows "coordinator_inv (raised key eligible s)" and "queue (raised key eligible s) = queue s"
    and "permitted (raised key eligible s) = permitted s"
    and "co_terminal_status (raised key eligible s) = co_terminal_status s"
    and "co_next_ticket (raised key eligible s) = co_next_ticket s"
    and "co_total_waiters (raised key eligible s) = co_total_waiters s"
    and "co_limits (raised key eligible s) = co_limits s"
    and "table_find (co_buckets (raised key eligible s)) key
      = map_option (raise_eligible eligible) (table_find (co_buckets s) key)"
  using assms by (auto simp: raised_def raise_inv raise_view split: option.splits)

lemma Acquire_unfold:
  assumes "co_terminal_status s = ACQUIRED"
  shows "Acquire key eligible False s =
    (let s1 = raised key eligible s; found = table_find (co_buckets s1) key in
     if key_waiters found \<ge> cl_waiters_per_key (co_limits s1) \<or> co_total_waiters s1 \<ge> cl_total_waiters (co_limits s1)
     then (Inl QUEUE_SATURATED, s1)
     else if co_next_ticket s1 = uint64_max
     then (Inl TICKET_EXHAUSTED, EnterTerminalLocked TICKET_EXHAUSTED s1)
     else
       let b = (case found of None \<Rightarrow> \<lparr>bk_eligible = eligible, bk_permitted = False, bk_tickets = []\<rparr> | Some b \<Rightarrow> b) in
       (Inr (co_next_ticket s1), s1\<lparr>co_next_ticket := co_next_ticket s1 + 1,
          co_buckets := table_put key (b\<lparr>bk_tickets := bk_tickets b @ [co_next_ticket s1]\<rparr>) (co_buckets s1),
          co_total_waiters := co_total_waiters s1 + 1\<rparr>))"
  using assms by (cases "table_find (co_buckets s) key") (simp_all add: Acquire_def raised_def Let_def)

definition bucket_or_new :: "int \<Rightarrow> bucket option \<Rightarrow> bucket" where
  "bucket_or_new eligible found =
     (case found of None \<Rightarrow> \<lparr>bk_eligible = eligible, bk_permitted = False, bk_tickets = []\<rparr> | Some b \<Rightarrow> b)"

lemma bucket_or_new_view:
  "bk_tickets (bucket_or_new e (table_find (co_buckets s) k)) = queue s k"
  "bk_permitted (bucket_or_new e (table_find (co_buckets s) k)) = permitted s k"
  by (auto simp: bucket_or_new_def queue_def permitted_def split: option.splits)

lemma enqueue_inv:
  fixes s :: "'k coordinator"
  assumes inv: "coordinator_inv s" and open': "co_terminal_status s = ACQUIRED"
    and ticket: "co_next_ticket s \<noteq> uint64_max"
    and room: "key_waiters (table_find (co_buckets s) key) < cl_waiters_per_key (co_limits s)"
      "co_total_waiters s < cl_total_waiters (co_limits s)"
    and b: "b = bucket_or_new eligible (table_find (co_buckets s) key)"
  shows "coordinator_inv (s\<lparr>co_next_ticket := co_next_ticket s + 1,
      co_buckets := table_put key (b\<lparr>bk_tickets := bk_tickets b @ [co_next_ticket s]\<rparr>) (co_buckets s),
      co_total_waiters := co_total_waiters s + 1\<rparr>)" (is "coordinator_inv ?s'")
proof (rule put_inv [OF inv, where key = key and b' = "b\<lparr>bk_tickets := bk_tickets b @ [co_next_ticket s]\<rparr>"])
  let ?b' = "b\<lparr>bk_tickets := bk_tickets b @ [co_next_ticket s]\<rparr>"
  note next' = ticket_succ [OF ticket]
  note total = succ_below [OF room(2)]
  have old: "(case table_find (co_buckets s) key of None \<Rightarrow> 0 | Some b \<Rightarrow> load b) = load b"
    using b by (auto simp: bucket_or_new_def load_def split: option.splits)
  have "unat (key_waiters (table_find (co_buckets s) key)) = load b"
    using key_waiters_load [OF inv, of key] b
    by (auto simp: bucket_or_new_def load_def key_waiters_def split: option.splits)
  then have less: "load b < unat (cl_waiters_per_key (co_limits s))"
    using room(1) by (simp add: word_less_nat_alt)
  show "bucket_ok ?s' ?b'"
    using sorted_append_ticket [OF inv, of key] queue_facts(2) [OF inv] less next' open'
    by (auto simp: bucket_ok_def load_def b bucket_or_new_view intro: order.strict_trans)
  show "unat (co_total_waiters ?s') + (case table_find (co_buckets s) key of None \<Rightarrow> 0 | Some b \<Rightarrow> load b)
      = unat (co_total_waiters s) + load ?b'"
    using total(1) by (simp add: old load_def)
  show "co_total_waiters ?s' \<le> cl_total_waiters (co_limits s)" using total(2) by simp
  show "co_next_ticket s \<le> co_next_ticket ?s'" using next' by simp
qed simp_all

lemma Acquire_result:
  assumes inv: "coordinator_inv s"
  shows "coordinator_inv (snd (Acquire key eligible cancelled s)) \<and>
    (case fst (Acquire key eligible cancelled s) of
       Inl status \<Rightarrow> status \<noteq> ACQUIRED \<and> undisturbed s (snd (Acquire key eligible cancelled s))
     | Inr ticket \<Rightarrow> enqueued key ticket False s (snd (Acquire key eligible cancelled s)))"
proof (cases "co_terminal_status s = ACQUIRED \<and> \<not> cancelled")
  case True
  let ?s1 = "raised key eligible s"
  note r = raised_facts [OF inv, of key eligible]
  have closed: "undisturbed s (EnterTerminalLocked TICKET_EXHAUSTED ?s1)"
    using EnterTerminalLocked_view [OF r(1)] r True by (auto simp: undisturbed_def)
  show ?thesis
  proof (cases "key_waiters (table_find (co_buckets ?s1) key) \<ge> cl_waiters_per_key (co_limits ?s1) \<or>
      co_total_waiters ?s1 \<ge> cl_total_waiters (co_limits ?s1) \<or> co_next_ticket ?s1 = uint64_max")
    case stop: True
    then show ?thesis
      using True r closed EnterTerminalLocked_inv [OF r(1)]
      by (auto simp: Acquire_unfold Let_def undisturbed_def)
  next
    case go: False
    let ?b = "bucket_or_new eligible (table_find (co_buckets ?s1) key)"
    let ?s' = "?s1\<lparr>co_next_ticket := co_next_ticket ?s1 + 1,
      co_buckets := table_put key (?b\<lparr>bk_tickets := bk_tickets ?b @ [co_next_ticket ?s1]\<rparr>) (co_buckets ?s1),
      co_total_waiters := co_total_waiters ?s1 + 1\<rparr>"
    have acq: "Acquire key eligible cancelled s = (Inr (co_next_ticket ?s1), ?s')"
      using True go by (simp add: Acquire_unfold Let_def bucket_or_new_def [symmetric])
    have "coordinator_inv ?s'"
      by (rule enqueue_inv [OF r(1)]) (use True go r in \<open>auto simp: not_le\<close>)
    moreover have bk: "co_buckets ?s'
        = table_put key (?b\<lparr>bk_tickets := bk_tickets ?b @ [co_next_ticket ?s1]\<rparr>) (co_buckets ?s1)" by simp
    have "enqueued key (co_next_ticket ?s1) False s ?s'"
      using True r(2-7) view_put [OF bk] by (auto simp: enqueued_def bucket_or_new_view)
    ultimately show ?thesis by (simp add: acq)
  qed
next
  case False
  then show ?thesis using inv by (auto simp: Acquire_def undisturbed_def)
qed

lemma ExtendEligibleTime_result:
  assumes "coordinator_inv s"
  shows "coordinator_inv (snd (ExtendEligibleTime key eligible s)) \<and>
    undisturbed s (snd (ExtendEligibleTime key eligible s))"
  using assms by (auto simp: ExtendEligibleTime_def undisturbed_def raise_inv raise_view split: option.splits)

lemma Close_result:
  assumes "coordinator_inv s"
  shows "coordinator_inv (Close s) \<and> undisturbed s (Close s) \<and> co_terminal_status (Close s) \<noteq> ACQUIRED"
  using assms EnterTerminalLocked_inv [OF assms] EnterTerminalLocked_view [OF assms]
  by (auto simp: Close_def undisturbed_def)

lemma grant_inv:
  assumes inv: "coordinator_inv s" and b: "table_find (co_buckets s) key = Some b"
    and free: "\<not> bk_permitted b" "bk_tickets b = ticket # rest"
  shows "coordinator_inv (s\<lparr>co_buckets := table_put key (b\<lparr>bk_tickets := rest, bk_permitted := True\<rparr>) (co_buckets s)\<rparr>)"
proof -
  have "bucket_ok s b" using inv b by (simp add: coordinator_inv_def)
  with free b inv show ?thesis
    by (intro put_inv [OF inv, where key = key and b' = "b\<lparr>bk_tickets := rest, bk_permitted := True\<rparr>"])
       (auto simp: bucket_ok_def load_def coordinator_inv_def)
qed

text \<open>
  One turn of the wait loop: a grant pops the head of a free queue at an admissible time; any
  other return takes the ticket out of its queue; otherwise nothing changes.
\<close>

definition granted :: "'k \<Rightarrow> u64 \<Rightarrow> int \<Rightarrow> int \<Rightarrow> 'k coordinator \<Rightarrow> 'k coordinator \<Rightarrow> bool" where
  "granted key ticket deadline now s s' \<longleftrightarrow>
     \<not> permitted s key \<and> co_terminal_status s = ACQUIRED \<and>
     queue s key \<noteq> [] \<and> hd (queue s key) = ticket \<and> queue s' = (queue s)(key := tl (queue s key)) \<and>
     permitted s' = (permitted s)(key := True) \<and>
     (\<exists>b. table_find (co_buckets s) key = Some b \<and> bk_eligible b \<le> now) \<and> now \<le> deadline"

definition withdrawn :: "'k \<Rightarrow> u64 \<Rightarrow> 'k coordinator \<Rightarrow> 'k coordinator \<Rightarrow> bool" where
  "withdrawn key ticket s s' \<longleftrightarrow>
     permitted s' = permitted s \<and> queue s' = (queue s)(key := remove1 ticket (queue s key))"

lemma WaitForTicket_result:
  assumes inv: "coordinator_inv s"
  shows "coordinator_inv (snd (WaitForTicket key ticket deadline cancelled now s)) \<and>
    co_terminal_status (snd (WaitForTicket key ticket deadline cancelled now s)) = co_terminal_status s \<and>
    co_next_ticket (snd (WaitForTicket key ticket deadline cancelled now s)) = co_next_ticket s \<and>
    (case fst (WaitForTicket key ticket deadline cancelled now s) of
       Returned status \<Rightarrow>
         if status = ACQUIRED
         then granted key ticket deadline now s (snd (WaitForTicket key ticket deadline cancelled now s))
         else withdrawn key ticket s (snd (WaitForTicket key ticket deadline cancelled now s))
     | Waits _ \<Rightarrow> snd (WaitForTicket key ticket deadline cancelled now s) = s)"
    (is "?P (WaitForTicket key ticket deadline cancelled now s)")
proof (cases "co_terminal_status s = ACQUIRED")
  case False
  then have "queue s key = []" using queue_facts(3) [OF inv] by simp
  with False show ?thesis using inv by (auto simp: WaitForTicket_def withdrawn_def fun_eq_iff)
next
  case open': True
  show ?thesis
  proof (cases "table_find (co_buckets s) key")
    case None
    then have "queue s key = []" by (simp add: queue_def)
    with None open' inv show ?thesis by (auto simp: WaitForTicket_def withdrawn_def fun_eq_iff)
  next
    case (Some b)
    let ?e = "EraseTicketLocked key b ticket s"
    have erased: "coordinator_inv ?e \<and> withdrawn key ticket s ?e \<and>
        co_terminal_status ?e = co_terminal_status s \<and> co_next_ticket ?e = co_next_ticket s"
      using EraseTicketLocked_inv [OF inv Some] EraseTicketLocked_view [OF inv Some]
      by (simp add: withdrawn_def) (simp add: EraseTicketLocked_def Let_def)
    let ?head = "\<not> bk_permitted b \<and> bk_tickets b \<noteq> [] \<and> hd (bk_tickets b) = ticket \<and>
      now \<ge> bk_eligible b \<and> now \<le> deadline"
    show ?thesis
    proof (cases "\<not> cancelled \<and> ?head")
      case True
      let ?s' = "s\<lparr>co_buckets := table_put key (b\<lparr>bk_tickets := tl (bk_tickets b), bk_permitted := True\<rparr>) (co_buckets s)\<rparr>"
      have res: "WaitForTicket key ticket deadline cancelled now s = (Returned ACQUIRED, ?s')"
        using open' Some True by (simp add: WaitForTicket_def)
      have "coordinator_inv ?s'"
        by (rule grant_inv [OF inv Some, where ticket = ticket]) (use True in \<open>auto simp: neq_Nil_conv\<close>)
      moreover have "granted key ticket deadline now s ?s'"
        using Some True open' by (auto simp: granted_def queue_def permitted_def fun_eq_iff neq_Nil_conv)
      ultimately show ?thesis by (simp add: res)
    next
      case False
      then show ?thesis
        using open' Some erased inv by (auto simp: WaitForTicket_def Let_def)
    qed
  qed
qed

lemma requeue_inv:
  assumes inv: "coordinator_inv s" and b: "table_find (co_buckets s) key = Some b" "bk_permitted b"
    and open': "co_terminal_status s = ACQUIRED" and ticket: "co_next_ticket s \<noteq> uint64_max"
  shows "coordinator_inv (s\<lparr>co_next_ticket := co_next_ticket s + 1,
    co_buckets := table_put key (b\<lparr>bk_tickets := bk_tickets b @ [co_next_ticket s], bk_permitted := False\<rparr>)
      (co_buckets s)\<rparr>)" (is "coordinator_inv ?s'")
proof (rule put_inv [OF inv, where key = key
      and b' = "b\<lparr>bk_tickets := bk_tickets b @ [co_next_ticket s], bk_permitted := False\<rparr>"])
  have ok: "bucket_ok s b" and limit: "co_total_waiters s \<le> cl_total_waiters (co_limits s)"
    using inv b by (simp_all add: coordinator_inv_def)
  note next' = ticket_succ [OF ticket]
  show "bucket_ok ?s' (b\<lparr>bk_tickets := bk_tickets b @ [co_next_ticket s], bk_permitted := False\<rparr>)"
    using ok b(2) open' next' by (auto simp: bucket_ok_def load_def sorted_wrt_append intro: order.strict_trans)
  show "co_next_ticket s \<le> co_next_ticket ?s'" using next' by simp
  show "co_total_waiters ?s' \<le> cl_total_waiters (co_limits s)" using limit by simp
qed (use b in \<open>simp_all add: load_def\<close>)

lemma WaitForTicket_unwind_result:
  assumes inv: "coordinator_inv s"
  shows "coordinator_inv (WaitForTicket_unwind key ticket s) \<and>
    withdrawn key ticket s (WaitForTicket_unwind key ticket s) \<and>
    co_terminal_status (WaitForTicket_unwind key ticket s) = co_terminal_status s"
proof (cases "table_find (co_buckets s) key")
  case None
  then have "queue s key = []" by (simp add: queue_def)
  with None inv show ?thesis by (auto simp: WaitForTicket_unwind_def withdrawn_def fun_eq_iff)
next
  case (Some b)
  then show ?thesis
    using EraseTicketLocked_inv [OF inv Some] EraseTicketLocked_view [OF inv Some]
    by (simp add: WaitForTicket_unwind_def withdrawn_def) (simp add: EraseTicketLocked_def Let_def)
qed

lemma Requeue_result:
  assumes inv: "coordinator_inv s" and held: "permitted s key"
  shows "coordinator_inv (snd (Requeue key eligible cancelled s)) \<and>
    (case fst (Requeue key eligible cancelled s) of
       Inl _ \<Rightarrow> False
     | Inr (Inl status) \<Rightarrow> status \<noteq> ACQUIRED \<and> undisturbed s (snd (Requeue key eligible cancelled s))
     | Inr (Inr ticket) \<Rightarrow> enqueued key ticket True s (snd (Requeue key eligible cancelled s)))"
proof (cases "co_terminal_status s = ACQUIRED \<and> \<not> cancelled")
  case True
  from held obtain b where b: "table_find (co_buckets s) key = Some b" "bk_permitted b"
    by (auto simp: permitted_def split: option.splits)
  let ?s1 = "raised key eligible s" and ?b1 = "raise_eligible eligible b"
  note r = raised_facts [OF inv, of key eligible]
  have b1: "table_find (co_buckets ?s1) key = Some ?b1" "bk_permitted ?b1" using r(8) b by simp_all
  have s1: "s\<lparr>co_buckets := table_put key ?b1 (co_buckets s)\<rparr> = ?s1" using b by (simp add: raised_def)
  show ?thesis
  proof (cases "co_next_ticket s = uint64_max")
    case exhausted: True
    let ?t = "EnterTerminalLocked TICKET_EXHAUSTED ?s1"
    have res: "Requeue key eligible cancelled s = (Inr (Inl TICKET_EXHAUSTED), ?t)"
      using True b exhausted by (simp add: Requeue_def Let_def s1)
    have t: "coordinator_inv ?t" by (rule EnterTerminalLocked_inv [OF r(1)])
    have "undisturbed s ?t" using EnterTerminalLocked_view [OF r(1)] r(2-4) True by (simp add: undisturbed_def)
    then show ?thesis using t by (simp add: res)
  next
    case False
    let ?b' = "?b1\<lparr>bk_tickets := bk_tickets ?b1 @ [co_next_ticket ?s1], bk_permitted := False\<rparr>"
    let ?s' = "?s1\<lparr>co_next_ticket := co_next_ticket ?s1 + 1, co_buckets := table_put key ?b' (co_buckets ?s1)\<rparr>"
    have res: "Requeue key eligible cancelled s = (Inr (Inr (co_next_ticket ?s1)), ?s')"
      using True b False by (simp add: Requeue_def Let_def raised_def)
    have "coordinator_inv ?s'"
      by (rule requeue_inv [OF r(1) b1]) (use True False r in simp_all)
    moreover have bk: "co_buckets ?s' = table_put key ?b' (co_buckets ?s1)" by simp
    have "queue s key = bk_tickets ?b1" using b(1) by (simp add: queue_def)
    then have "enqueued key (co_next_ticket ?s1) True s ?s'"
      using True r(2-7) view_put [OF bk] by (simp add: enqueued_def)
    ultimately show ?thesis by (simp add: res)
  qed
next
  case False
  then show ?thesis
    using inv by (auto simp: Requeue_def undisturbed_def)
qed

subsection \<open>Streams interleaved\<close>

text \<open>
  The system of one coordinator and its streams: the tickets that streams are waiting on inside
  \<open>Acquire\<close> or \<open>Requeue\<close>, and the keys for which a stream holds a valid \<open>Permit\<close>. A step is one
  critical section of any stream.
\<close>

record 'k streams =
  st_coordinator :: "'k coordinator"
  st_waiting :: "('k \<times> u64) list"
  st_permits :: "'k list"

inductive stream_step :: "'k streams \<Rightarrow> 'k streams \<Rightarrow> bool" where
  acquire_returns: "Acquire key eligible cancelled (st_coordinator y) = (Inl status, s') \<Longrightarrow>
    stream_step y (y\<lparr>st_coordinator := s'\<rparr>)"
| acquire_waits: "Acquire key eligible cancelled (st_coordinator y) = (Inr ticket, s') \<Longrightarrow>
    stream_step y (y\<lparr>st_coordinator := s', st_waiting := (key, ticket) # st_waiting y\<rparr>)"
| poll_waits: "(key, ticket) \<in> set (st_waiting y) \<Longrightarrow>
    WaitForTicket key ticket deadline cancelled now (st_coordinator y) = (Waits ms, s') \<Longrightarrow>
    stream_step y (y\<lparr>st_coordinator := s'\<rparr>)"
| poll_granted: "(key, ticket) \<in> set (st_waiting y) \<Longrightarrow>
    WaitForTicket key ticket deadline cancelled now (st_coordinator y) = (Returned ACQUIRED, s') \<Longrightarrow>
    stream_step y (y\<lparr>st_coordinator := s', st_waiting := remove1 (key, ticket) (st_waiting y),
                     st_permits := key # st_permits y\<rparr>)"
| poll_refused: "(key, ticket) \<in> set (st_waiting y) \<Longrightarrow> status \<noteq> ACQUIRED \<Longrightarrow>
    WaitForTicket key ticket deadline cancelled now (st_coordinator y) = (Returned status, s') \<Longrightarrow>
    stream_step y (y\<lparr>st_coordinator := s', st_waiting := remove1 (key, ticket) (st_waiting y)\<rparr>)"
| poll_throws: "(key, ticket) \<in> set (st_waiting y) \<Longrightarrow>
    stream_step y (y\<lparr>st_coordinator := WaitForTicket_unwind key ticket (st_coordinator y),
                     st_waiting := remove1 (key, ticket) (st_waiting y)\<rparr>)"
| extend: "key \<in> set (st_permits y) \<Longrightarrow>
    stream_step y (y\<lparr>st_coordinator := snd (ExtendEligibleTime key eligible (st_coordinator y))\<rparr>)"
| complete: "key \<in> set (st_permits y) \<Longrightarrow>
    stream_step y (y\<lparr>st_coordinator := Complete key (st_coordinator y),
                     st_permits := remove1 key (st_permits y)\<rparr>)"
| requeue_returns: "key \<in> set (st_permits y) \<Longrightarrow>
    Requeue key eligible cancelled (st_coordinator y) = (Inr (Inl status), s') \<Longrightarrow>
    stream_step y (y\<lparr>st_coordinator := s'\<rparr>)"
| requeue_waits: "key \<in> set (st_permits y) \<Longrightarrow>
    Requeue key eligible cancelled (st_coordinator y) = (Inr (Inr ticket), s') \<Longrightarrow>
    stream_step y (y\<lparr>st_coordinator := s', st_waiting := (key, ticket) # st_waiting y,
                     st_permits := remove1 key (st_permits y)\<rparr>)"
| close: "stream_step y (y\<lparr>st_coordinator := Close (st_coordinator y)\<rparr>)"

definition streams_init :: "'k streams \<Rightarrow> bool" where
  "streams_init y \<longleftrightarrow>
     (\<exists>limits initial. RateLimitCoordinator limits initial = Inr (st_coordinator y)) \<and>
     st_waiting y = [] \<and> st_permits y = []"

definition streams_inv :: "'k streams \<Rightarrow> bool" where
  "streams_inv y \<longleftrightarrow>
     coordinator_inv (st_coordinator y) \<and> distinct (st_permits y) \<and> distinct (st_waiting y) \<and>
     (\<forall>k. k \<in> set (st_permits y) \<longleftrightarrow> permitted (st_coordinator y) k) \<and>
     (co_terminal_status (st_coordinator y) = ACQUIRED \<longrightarrow>
        (\<forall>k t. (k, t) \<in> set (st_waiting y) \<longleftrightarrow> t \<in> set (queue (st_coordinator y) k)))"

lemma initial_buckets: "RateLimitCoordinator limits initial = Inr s \<Longrightarrow> co_buckets s = []"
  by (auto simp: RateLimitCoordinator_def split: if_splits)

lemma streams_init_inv: "streams_init y \<Longrightarrow> streams_inv y"
proof -
  assume "streams_init y"
  then obtain limits initial where c: "RateLimitCoordinator limits initial = Inr (st_coordinator y)"
    and e: "st_waiting y = []" "st_permits y = []" by (auto simp: streams_init_def)
  have "co_buckets (st_coordinator y) = []" using c by (rule initial_buckets)
  then show ?thesis using initial_inv [OF c] e by (simp add: streams_inv_def permitted_def queue_def)
qed

lemma inv_undisturbed:
  assumes "streams_inv y" and "coordinator_inv s'" and "undisturbed (st_coordinator y) s'"
  shows "streams_inv (y\<lparr>st_coordinator := s'\<rparr>)"
  using assms by (auto simp: streams_inv_def undisturbed_def)

lemma inv_completed:
  assumes "streams_inv y"
  shows "streams_inv (y\<lparr>st_coordinator := Complete key (st_coordinator y), st_permits := remove1 key (st_permits y)\<rparr>)"
proof -
  have c: "coordinator_inv (st_coordinator y)" using assms by (simp add: streams_inv_def)
  show ?thesis using assms Complete_inv [OF c] Complete_view [OF c, of key] by (auto simp: streams_inv_def)
qed

lemma fresh_ticket:
  assumes "streams_inv y" and "enqueued key ticket releases (st_coordinator y) s'"
  shows "(key, ticket) \<notin> set (st_waiting y)"
  using assms queue_facts(2) [of "st_coordinator y" ticket key] by (auto simp: streams_inv_def enqueued_def)

lemma inv_enqueued:
  assumes "streams_inv y" and "coordinator_inv s'" and "enqueued key ticket releases (st_coordinator y) s'"
  shows "streams_inv (y\<lparr>st_coordinator := s', st_waiting := (key, ticket) # st_waiting y,
    st_permits := (if releases then remove1 key (st_permits y) else st_permits y)\<rparr>)"
  using assms fresh_ticket [OF assms(1,3)] by (auto simp: streams_inv_def enqueued_def)

lemma inv_granted:
  assumes "streams_inv y" and "coordinator_inv s'" and "granted key ticket deadline now (st_coordinator y) s'"
    and "(key, ticket) \<in> set (st_waiting y)" and "co_terminal_status s' = co_terminal_status (st_coordinator y)"
  shows "streams_inv (y\<lparr>st_coordinator := s', st_waiting := remove1 (key, ticket) (st_waiting y),
    st_permits := key # st_permits y\<rparr>)"
proof -
  let ?s = "st_coordinator y"
  have c: "coordinator_inv ?s" using assms(1) by (simp add: streams_inv_def)
  obtain rest where q: "queue ?s key = ticket # rest" "queue s' = (queue ?s)(key := rest)"
    using assms(3) by (cases "queue ?s key") (auto simp: granted_def)
  have "ticket \<notin> set rest" using queue_facts(1) [OF c, of key] q(1) by auto
  then have "t \<in> set (queue s' k) \<longleftrightarrow> t \<in> set (queue ?s k) \<and> (k, t) \<noteq> (key, ticket)" for k t
    using q by auto
  moreover have "permitted s' = (permitted ?s)(key := True)" "\<not> permitted ?s key"
    "co_terminal_status ?s = ACQUIRED"
    using assms(3) by (simp_all add: granted_def)
  ultimately show ?thesis using assms(1,2,5) by (auto simp: streams_inv_def)
qed

lemma inv_withdrawn:
  assumes "streams_inv y" and "coordinator_inv s'" and "withdrawn key ticket (st_coordinator y) s'"
    and "co_terminal_status s' = co_terminal_status (st_coordinator y)"
  shows "streams_inv (y\<lparr>st_coordinator := s', st_waiting := remove1 (key, ticket) (st_waiting y)\<rparr>)"
proof -
  let ?s = "st_coordinator y"
  have "sorted_wrt (<) (queue ?s key)" using assms(1) queue_facts(1) by (auto simp: streams_inv_def)
  then have "distinct (queue ?s key)" by (simp add: strict_sorted_iff)
  then have "t \<in> set (queue s' k) \<longleftrightarrow> t \<in> set (queue ?s k) \<and> (k, t) \<noteq> (key, ticket)" for k t
    using assms(3) by (auto simp: withdrawn_def)
  then show ?thesis using assms by (auto simp: streams_inv_def withdrawn_def)
qed

lemma streams_invD:
  assumes "streams_inv y"
  shows "coordinator_inv (st_coordinator y)"
    and "k \<in> set (st_permits y) \<Longrightarrow> permitted (st_coordinator y) k"
  using assms by (simp_all add: streams_inv_def)

lemma stream_step_inv: "stream_step y z \<Longrightarrow> streams_inv y \<Longrightarrow> streams_inv z"
proof (induction rule: stream_step.induct)
  case (acquire_returns key eligible cancelled y status s')
  then show ?case using Acquire_result [OF streams_invD(1), of y key eligible cancelled]
    by (auto intro: inv_undisturbed)
next
  case (acquire_waits key eligible cancelled y ticket s')
  then show ?case using Acquire_result [OF streams_invD(1), of y key eligible cancelled]
      inv_enqueued [of y s' key ticket False] by simp
next
  case (poll_waits key ticket y deadline cancelled now ms s')
  then show ?case using WaitForTicket_result [OF streams_invD(1), of y key ticket deadline cancelled now]
    by simp
next
  case (poll_granted key ticket y deadline cancelled now s')
  then show ?case using WaitForTicket_result [OF streams_invD(1), of y key ticket deadline cancelled now]
    by (intro inv_granted) auto
next
  case (poll_refused key ticket y status deadline cancelled now s')
  then show ?case using WaitForTicket_result [OF streams_invD(1), of y key ticket deadline cancelled now]
    by (intro inv_withdrawn) auto
next
  case (poll_throws key ticket y)
  then show ?case using WaitForTicket_unwind_result [OF streams_invD(1), of y key ticket]
    by (intro inv_withdrawn) auto
next
  case (extend key y eligible)
  then show ?case using ExtendEligibleTime_result [OF streams_invD(1), of y key eligible]
    by (intro inv_undisturbed) auto
next
  case (complete key y)
  then show ?case by (intro inv_completed)
next
  case (requeue_returns key y eligible cancelled status s')
  then show ?case using Requeue_result [OF streams_invD, of y key eligible cancelled]
    by (intro inv_undisturbed) auto
next
  case (requeue_waits key y eligible cancelled ticket s')
  then show ?case using Requeue_result [OF streams_invD, of y key eligible cancelled]
      inv_enqueued [of y s' key ticket True] by simp
next
  case (close y)
  then show ?case using Close_result [OF streams_invD(1), of y] by (intro inv_undisturbed) auto
qed

interpretation rate_streams: invariant_system streams_init stream_step streams_inv
  by unfold_locales (auto intro: streams_init_inv stream_step_inv)

lemma run_streams_inv: "streams_init y0 \<Longrightarrow> stream_step\<^sup>*\<^sup>* y0 y \<Longrightarrow> streams_inv y"
  by (rule rate_streams.run_invar [OF streams_init_inv])

subsection \<open>Counting waiters\<close>

lemma length_eq_of_set: "distinct xs \<Longrightarrow> distinct ys \<Longrightarrow> set xs = set ys \<Longrightarrow> length xs = length ys"
  by (metis distinct_card)

lemma permits_counted:
  assumes "table_wf t" and "distinct ps"
    and "\<And>k. k \<in> set ps \<longleftrightarrow> (\<exists>b. table_find t k = Some b \<and> bk_permitted b)"
  shows "length ps = table_total (\<lambda>b. if bk_permitted b then 1 else 0) t"
proof -
  have "length ps = length (map fst (filter (\<lambda>e. bk_permitted (snd e)) t))"
  proof (rule length_eq_of_set [OF assms(2)])
    show "distinct (map fst (filter (\<lambda>e. bk_permitted (snd e)) t))"
      using assms(1) by (simp add: table_wf_def distinct_map_filter)
    show "set ps = set (map fst (filter (\<lambda>e. bk_permitted (snd e)) t))"
      by (intro set_eqI) (auto simp: assms(3) image_iff table_find_member [OF assms(1), symmetric])
  qed
  also have "\<dots> = table_total (\<lambda>b. if bk_permitted b then 1 else 0) t"
    by (induction t) (auto simp: table_total_def)
  finally show ?thesis .
qed

lemma distinct_tickets:
  "table_wf t \<Longrightarrow> (\<forall>e\<in>set t. distinct (bk_tickets (snd e))) \<Longrightarrow>
   distinct (concat (map (\<lambda>e. map (Pair (fst e)) (bk_tickets (snd e))) t))"
  by (induction t) (auto simp: table_wf_def distinct_map inj_on_def)

lemma waiting_counted:
  assumes "table_wf t" and "distinct ws" and "\<forall>e\<in>set t. distinct (bk_tickets (snd e))"
    and "\<And>k n. (k, n) \<in> set ws \<longleftrightarrow> (\<exists>b. table_find t k = Some b \<and> n \<in> set (bk_tickets b))"
  shows "length ws = table_total (\<lambda>b. length (bk_tickets b)) t"
proof -
  have "length ws = length (concat (map (\<lambda>e. map (Pair (fst e)) (bk_tickets (snd e))) t))"
  proof (rule length_eq_of_set [OF assms(2) distinct_tickets [OF assms(1,3)]])
    show "set ws = set (concat (map (\<lambda>e. map (Pair (fst e)) (bk_tickets (snd e))) t))"
      by (rule set_eqI, rename_tac p, case_tac p)
        (auto simp: assms(4) image_iff table_find_member [OF assms(1), symmetric] Bex_def)
  qed
  also have "\<dots> = table_total (\<lambda>b. length (bk_tickets b)) t"
    by (induction t) (auto simp: table_total_def)
  finally show ?thesis .
qed

lemma load_total:
  "table_total load t = table_total (\<lambda>b. length (bk_tickets b)) t
   + table_total (\<lambda>b. if bk_permitted b then 1 else 0) t"
  by (induction t) (auto simp: table_total_def load_def)

lemma queue_member:
  "t \<in> set (queue s k) \<longleftrightarrow> (\<exists>b. table_find (co_buckets s) k = Some b \<and> t \<in> set (bk_tickets b))"
  by (cases "table_find (co_buckets s) k") (simp_all add: queue_def)

lemma permitted_iff: "permitted s k \<longleftrightarrow> (\<exists>b. table_find (co_buckets s) k = Some b \<and> bk_permitted b)"
  by (cases "table_find (co_buckets s) k") (simp_all add: permitted_def)

lemma waiters_accounted:
  assumes "streams_inv y"
  shows "unat (co_total_waiters (st_coordinator y)) =
    (if co_terminal_status (st_coordinator y) = ACQUIRED then length (st_waiting y) else 0)
    + length (st_permits y)"
proof -
  let ?s = "st_coordinator y" and ?t = "co_buckets (st_coordinator y)"
  have c: "coordinator_inv ?s" and wf: "table_wf ?t"
    using assms by (simp_all add: streams_inv_def coordinator_inv_def)
  have ok: "\<forall>e\<in>set ?t. bucket_ok ?s (snd e)"
    using c table_find_member [OF wf] by (auto simp: coordinator_inv_def)
  have "table_total (\<lambda>b. length (bk_tickets b)) ?t
    = (if co_terminal_status ?s = ACQUIRED then length (st_waiting y) else 0)"
  proof (cases "co_terminal_status ?s = ACQUIRED")
    case True
    have "\<forall>e\<in>set ?t. distinct (bk_tickets (snd e))"
      using ok by (auto simp: bucket_ok_def strict_sorted_iff)
    then have "length (st_waiting y) = table_total (\<lambda>b. length (bk_tickets b)) ?t"
      using assms True by (intro waiting_counted [OF wf]) (simp_all add: streams_inv_def queue_member)
    then show ?thesis using True by simp
  next
    case False
    then show ?thesis using ok by (simp add: table_total_def bucket_ok_def)
  qed
  moreover have "length (st_permits y) = table_total (\<lambda>b. if bk_permitted b then 1 else 0) ?t"
    using assms by (intro permits_counted [OF wf]) (simp_all add: streams_inv_def permitted_iff)
  ultimately show ?thesis using c by (simp add: coordinator_inv_def load_total)
qed

subsection \<open>Properties\<close>

text \<open>
  C13. One permit per quota bucket: in every interleaving of acquiring, polling, extending,
  completing, requeueing and closing streams, no key ever has two permits out, and the
  coordinator's permit flags are exactly the permits the streams hold.
\<close>
theorem one_permit_per_key:
  assumes "streams_init y0" and "stream_step\<^sup>*\<^sup>* y0 y"
  shows "distinct (st_permits y) \<and> set (st_permits y) = {k. permitted (st_coordinator y) k}"
  using run_streams_inv [OF assms] by (auto simp: streams_inv_def)

text \<open>
  C15. Waiters are counted exactly, in every interleaving: while the coordinator is open its
  \<open>total_waiters\<close> is the number of tickets the streams wait with plus the number of permits they hold;
  once it has become terminal every queue is empty, the tickets still held by streams no longer count,
  and \<open>total_waiters\<close> is the number of permits. In both cases it never exceeds the configured total,
  and no key ever has more waiters and permits than its own limit.
\<close>
theorem waiters_counted_exactly:
  assumes "streams_init y0" and "stream_step\<^sup>*\<^sup>* y0 y"
  shows "unat (co_total_waiters (st_coordinator y)) =
      (if co_terminal_status (st_coordinator y) = ACQUIRED then length (st_waiting y) else 0)
      + length (st_permits y) \<and>
    co_total_waiters (st_coordinator y) \<le> cl_total_waiters (co_limits (st_coordinator y)) \<and>
    (co_terminal_status (st_coordinator y) = ACQUIRED \<or> queue (st_coordinator y) k = []) \<and>
    length (queue (st_coordinator y) k) + (if permitted (st_coordinator y) k then 1 else 0)
      \<le> unat (cl_waiters_per_key (co_limits (st_coordinator y)))"
proof -
  note inv = run_streams_inv [OF assms]
  note c = streams_invD(1) [OF inv]
  then have "co_total_waiters (st_coordinator y) \<le> cl_total_waiters (co_limits (st_coordinator y))"
    by (simp add: coordinator_inv_def)
  then show ?thesis
    using waiters_accounted [OF inv] queue_facts(3,4) [OF c, of k] by auto
qed

text \<open>
  C14. Grants are first-in first-out and respect the embargo: when a turn of the wait loop returns
  ACQUIRED for a ticket, no stream waits on the same key with an older ticket, the key had no
  permit out, and the clock reading lies between the bucket's eligible time and the caller's deadline.
\<close>
theorem grants_are_fifo:
  assumes "streams_init y0" and "stream_step\<^sup>*\<^sup>* y0 y"
    and "WaitForTicket key ticket deadline cancelled now (st_coordinator y) = (Returned ACQUIRED, s')"
  shows "(\<forall>t. (key, t) \<in> set (st_waiting y) \<longrightarrow> ticket \<le> t) \<and> key \<notin> set (st_permits y) \<and>
    (\<exists>b. table_find (co_buckets (st_coordinator y)) key = Some b \<and> bk_eligible b \<le> now) \<and> now \<le> deadline"
proof -
  note inv = run_streams_inv [OF assms(1,2)]
  note c = streams_invD(1) [OF inv]
  have g: "granted key ticket deadline now (st_coordinator y) s'"
    using WaitForTicket_result [OF c, of key ticket deadline cancelled now] assms(3) by simp
  then obtain rest where "queue (st_coordinator y) key = ticket # rest"
    by (cases "queue (st_coordinator y) key") (auto simp: granted_def)
  moreover from this have "\<forall>t\<in>set rest. ticket < t" using queue_facts(1) [OF c, of key] by simp
  ultimately show ?thesis using g inv by (auto simp: granted_def streams_inv_def)
qed

text \<open>
  C16. The head of a free queue is served: while the coordinator is open, a stream whose ticket is
  the oldest for its key, that is not cancelled, when no permit for the key is out, and whose
  clock reading is eligible and before its deadline, acquires at its next turn.
\<close>
theorem head_is_served:
  assumes "streams_init y0" and "stream_step\<^sup>*\<^sup>* y0 y"
    and "co_terminal_status (st_coordinator y) = ACQUIRED"
    and "(key, ticket) \<in> set (st_waiting y)" and "\<forall>t. (key, t) \<in> set (st_waiting y) \<longrightarrow> ticket \<le> t"
    and "key \<notin> set (st_permits y)"
    and "table_find (co_buckets (st_coordinator y)) key = Some b" and "bk_eligible b \<le> now" and "now \<le> deadline"
  shows "fst (WaitForTicket key ticket deadline False now (st_coordinator y)) = Returned ACQUIRED"
proof -
  note inv = run_streams_inv [OF assms(1,2)]
  have q: "queue (st_coordinator y) key = bk_tickets b" "permitted (st_coordinator y) key = bk_permitted b"
    using assms(7) by (simp_all add: queue_def permitted_def)
  have "ticket \<in> set (bk_tickets b)" and least: "\<forall>t\<in>set (bk_tickets b). ticket \<le> t"
    and free: "\<not> bk_permitted b"
    using inv assms(3-6) q by (auto simp: streams_inv_def)
  then obtain x rest where x: "bk_tickets b = x # rest" by (cases "bk_tickets b") auto
  have "\<forall>t\<in>set rest. x < t" using queue_facts(1) [OF streams_invD(1) [OF inv], of key] q x by simp
  then have "x = ticket" using \<open>ticket \<in> set (bk_tickets b)\<close> least x by force
  then show ?thesis using assms(3,7-9) free x by (simp add: WaitForTicket_def)
qed

text \<open>
  Closing releases every waiter: after \<open>Close\<close>, whatever the coordinator's history, every
  queue is empty, permits already granted stay valid, and any stream's next turn returns the
  terminal status instead of waiting or acquiring.
\<close>
lemma close_releases_waiters:
  assumes "streams_init y0" and "stream_step\<^sup>*\<^sup>* y0 y"
  shows "queue (Close (st_coordinator y)) k = [] \<and>
    permitted (Close (st_coordinator y)) = permitted (st_coordinator y) \<and>
    (\<exists>status. status \<noteq> ACQUIRED \<and>
       WaitForTicket k ticket deadline cancelled now (Close (st_coordinator y))
         = (Returned status, Close (st_coordinator y)))"
proof -
  note r = Close_result [OF streams_invD(1) [OF run_streams_inv [OF assms]]]
  then show ?thesis
    using queue_facts(3) [of "Close (st_coordinator y)" k]
    by (auto simp: undisturbed_def WaitForTicket_def)
qed

text \<open>
  A wait never overshoots: for a target in the future the slice is the smaller of the
  remaining time and the configured interrupt slice (which the constructor limits to 1..5
  milliseconds), so it is positive and ends no later than the target; for a target already
  reached it is zero. No subtraction or cast in it wraps.
\<close>
lemma wait_slice_bounded:
  assumes "0 < slice_ms" and "slice_ms \<le> cl_interrupt_slice_milliseconds HardLimits"
    and "target \<le> int64_max"
  shows "uint (WaitSlice now target slice_ms) = (if target \<le> now then 0 else min (target - now) (uint slice_ms))"
proof -
  have le5: "uint slice_ms \<le> 5" using assms(2) by (simp add: HardLimits_def word_le_def)
  then have sint: "sint slice_ms = uint slice_ms"
    by (simp add: sint_uint signed_take_bit_int_eq_self order_trans [OF _ uint_ge_0])
  show ?thesis
  proof (cases "target \<le> now \<or> now \<le> int64_max - uint slice_ms \<and> target > now + uint slice_ms")
    case True
    then show ?thesis by (auto simp: WaitSlice_def sint)
  next
    case False
    then have d: "0 < target - now" "target - now \<le> uint slice_ms" using assms(3) by auto
    then have "uint (word_of_int (target - now) :: u64) = target - now"
      using le5 by (simp add: uint_word_of_int del: of_int_diff)
    then show ?thesis using False d by (auto simp: WaitSlice_def sint simp del: of_int_diff)
  qed
qed

subsection \<open>Witnesses\<close>

text \<open>
  Two streams of one quota bucket: the first holds the permit, the second has ticket 2 waiting.
\<close>

definition demo_start :: "nat streams" where
  "demo_start = \<lparr>st_coordinator = \<lparr>co_terminal_status = ACQUIRED, co_next_ticket = 1, co_total_waiters = 0,
       co_limits = HardLimits, co_buckets = []\<rparr>, st_waiting = [], st_permits = []\<rparr>"

definition demo_queued :: "nat streams" where
  "demo_queued = \<lparr>st_coordinator = \<lparr>co_terminal_status = ACQUIRED, co_next_ticket = 2, co_total_waiters = 1,
       co_limits = HardLimits,
       co_buckets = [(0, \<lparr>bk_eligible = 5, bk_permitted = False, bk_tickets = [1]\<rparr>)]\<rparr>,
     st_waiting = [(0, 1)], st_permits = []\<rparr>"

definition demo_both :: "nat streams" where
  "demo_both = \<lparr>st_coordinator = \<lparr>co_terminal_status = ACQUIRED, co_next_ticket = 3, co_total_waiters = 2,
       co_limits = HardLimits,
       co_buckets = [(0, \<lparr>bk_eligible = 5, bk_permitted = False, bk_tickets = [1, 2]\<rparr>)]\<rparr>,
     st_waiting = [(0, 2), (0, 1)], st_permits = []\<rparr>"

definition demo_granted :: "nat streams" where
  "demo_granted = \<lparr>st_coordinator = \<lparr>co_terminal_status = ACQUIRED, co_next_ticket = 3, co_total_waiters = 2,
       co_limits = HardLimits,
       co_buckets = [(0, \<lparr>bk_eligible = 5, bk_permitted = True, bk_tickets = [2]\<rparr>)]\<rparr>,
     st_waiting = [(0, 2)], st_permits = [0]\<rparr>"

lemma demo_init: "streams_init demo_start"
proof -
  have "RateLimitCoordinator HardLimits 1 = Inr (st_coordinator demo_start)" by code_simp
  then show ?thesis by (auto simp: streams_init_def demo_start_def)
qed

lemma demo_step1: "stream_step demo_start demo_queued"
proof -
  have "Acquire 0 5 False (st_coordinator demo_start) = (Inr 1, st_coordinator demo_queued)" by code_simp
  from acquire_waits [OF this] show ?thesis by (simp add: demo_start_def demo_queued_def)
qed

lemma demo_step2: "stream_step demo_queued demo_both"
proof -
  have "Acquire 0 3 False (st_coordinator demo_queued) = (Inr 2, st_coordinator demo_both)" by code_simp
  from acquire_waits [OF this] show ?thesis by (simp add: demo_queued_def demo_both_def)
qed

lemma demo_step3: "stream_step demo_both demo_granted"
proof -
  have "WaitForTicket 0 1 100 False 7 (st_coordinator demo_both)
    = (Returned ACQUIRED, st_coordinator demo_granted)" by code_simp
  from poll_granted [OF _ this] show ?thesis by (simp add: demo_both_def demo_granted_def)
qed

lemma demo_run_both: "stream_step\<^sup>*\<^sup>* demo_start demo_both"
  using demo_step1 demo_step2 by (meson converse_rtranclp_into_rtranclp rtranclp.rtrancl_refl)

lemma demo_run_granted: "stream_step\<^sup>*\<^sup>* demo_start demo_granted"
  using demo_run_both demo_step3 by (rule rtranclp.rtrancl_into_rtrancl)

theorem one_permit_per_key_witness:
  "distinct (st_permits demo_granted) \<and>
   set (st_permits demo_granted) = {k. permitted (st_coordinator demo_granted) k}"
  by (rule one_permit_per_key [OF demo_init demo_run_granted])

text \<open>The same streams after the coordinator is closed: ticket 2 is still held, but counts no longer.\<close>

definition demo_closed :: "nat streams" where
  "demo_closed = \<lparr>st_coordinator = \<lparr>co_terminal_status = SCHEDULER_CLOSED, co_next_ticket = 3,
       co_total_waiters = 1, co_limits = HardLimits,
       co_buckets = [(0, \<lparr>bk_eligible = 5, bk_permitted = True, bk_tickets = []\<rparr>)]\<rparr>,
     st_waiting = [(0, 2)], st_permits = [0]\<rparr>"

lemma demo_run_closed: "stream_step\<^sup>*\<^sup>* demo_start demo_closed"
proof -
  have "Close (st_coordinator demo_granted) = st_coordinator demo_closed" by code_simp
  then have "stream_step demo_granted demo_closed"
    using stream_step.close [of demo_granted] by (simp add: demo_granted_def demo_closed_def)
  with demo_run_granted show ?thesis by (rule rtranclp.rtrancl_into_rtrancl)
qed

theorem waiters_counted_exactly_witness:
  "unat (co_total_waiters (st_coordinator demo_granted)) = 2 \<and>
   unat (co_total_waiters (st_coordinator demo_closed)) = 1 \<and> st_waiting demo_closed = [(0, 2)]"
proof -
  have "co_terminal_status (st_coordinator demo_granted) = ACQUIRED"
    "length (st_waiting demo_granted) + length (st_permits demo_granted) = 2"
    "co_terminal_status (st_coordinator demo_closed) \<noteq> ACQUIRED"
    "length (st_permits demo_closed) = 1" "st_waiting demo_closed = [(0, 2)]" by code_simp+
  with waiters_counted_exactly [OF demo_init demo_run_granted, of 0]
    waiters_counted_exactly [OF demo_init demo_run_closed, of 0] show ?thesis by auto
qed

theorem grants_are_fifo_witness:
  "(1::u64) \<le> 2 \<and> (0, 2) \<in> set (st_waiting demo_both) \<and> 0 \<notin> set (st_permits demo_both) \<and>
   (\<exists>b. table_find (co_buckets (st_coordinator demo_both)) 0 = Some b \<and> bk_eligible b \<le> 7)"
proof -
  have "WaitForTicket 0 1 100 False 7 (st_coordinator demo_both)
    = (Returned ACQUIRED, st_coordinator demo_granted)" by code_simp
  moreover have "(0, 2) \<in> set (st_waiting demo_both)" by code_simp
  ultimately show ?thesis using grants_are_fifo [OF demo_init demo_run_both] by blast
qed

theorem head_is_served_witness:
  "fst (WaitForTicket 0 1 100 False 7 (st_coordinator demo_both)) = Returned ACQUIRED"
proof -
  have "co_terminal_status (st_coordinator demo_both) = ACQUIRED" by code_simp
  moreover have b: "table_find (co_buckets (st_coordinator demo_both)) 0
    = Some \<lparr>bk_eligible = 5, bk_permitted = False, bk_tickets = [1, 2]\<rparr>" by code_simp
  moreover have "(0, 1) \<in> set (st_waiting demo_both)" "0 \<notin> set (st_permits demo_both)"
    "\<forall>t. (0, t) \<in> set (st_waiting demo_both) \<longrightarrow> 1 \<le> t"
    by (simp_all add: demo_both_def)
  ultimately show ?thesis
    by (intro head_is_served [OF demo_init demo_run_both _ _ _ _ b]) simp_all
qed

end
