(* ===== verification/Http_Chunk_Decoder.thy ===== *)
theory Http_Chunk_Decoder
  imports Prelude
begin

text \<open>
  The decoder of HTTP/1.1 chunked bodies, \<open>src/src/runtime/transport/http_chunk_decoder.cpp\<close>. The
  source walks one byte string with an offset and an end; here a position is the offset
  together with the bytes from it up to that end, so that the loops are recursions on the bytes.

  The execution control and the clock are consulted at fixed program points. Each point,
  identified by its place in the code and the offset, is passed at most once in a run, so their
  answers are a function of the point: whether cancellation was requested there, and whether
  the deadline had passed. The capacity that \<open>std::string::reserve\<close> really allocates is the
  implementation's choice, a function of the requested size.

  The grammar of RFC 9112, section 7.1, is stated as inductive predicates, and the decoder is shown to
  accept only it, within the body limit, and to invert the canonical encoding.
\<close>

subsection \<open>Control\<close>

datatype program_point = AtOws nat | AtToken nat | AtQuoted nat | AtDigit nat | AtTrailer nat
  | AtField nat | AtEntry | AtChunk nat | AtPayload nat

type_synonym chunk_control = "program_point \<Rightarrow> bool \<times> bool"

datatype chunk_error = ChunkMalformed | ExecutionCancelled | WallMilliseconds | DecompressedBytes

definition CheckExecutionState :: "chunk_control \<Rightarrow> program_point \<Rightarrow> chunk_error + unit" where
  "CheckExecutionState control p =
     (if fst (control p) then Inl ExecutionCancelled
      else if snd (control p) then Inl WallMilliseconds
      else Inr ())"

definition Checkpoint :: "chunk_control \<Rightarrow> program_point \<Rightarrow> nat \<Rightarrow> chunk_error + unit" where
  "Checkpoint control p offset = (if offset mod 1024 = 0 then CheckExecutionState control p else Inr ())"

subsection \<open>Characters\<close>

definition CR :: char where "CR = CHR 0x0D"

definition LF :: char where "LF = CHR 0x0A"

definition HexValue :: "char \<Rightarrow> u64 option" where
  "HexValue c =
     (if in_range CHR ''0'' CHR ''9'' c then Some (of_nat (byte c - byte CHR ''0''))
      else if in_range CHR ''a'' CHR ''f'' c then Some (of_nat (byte c - byte CHR ''a'' + 10))
      else if in_range CHR ''A'' CHR ''F'' c then Some (of_nat (byte c - byte CHR ''A'' + 10))
      else None)"

definition IsOws :: "char \<Rightarrow> bool" where
  "IsOws c \<longleftrightarrow> c = CHR '' '' \<or> c = CHR 0x09"

definition IsTokenCharacter :: "char \<Rightarrow> bool" where
  "IsTokenCharacter c \<longleftrightarrow>
     in_range CHR ''a'' CHR ''z'' c \<or> in_range CHR ''A'' CHR ''Z'' c \<or> in_range CHR ''0'' CHR ''9'' c \<or>
     c \<in> {CHR ''!'', CHR ''#'', CHR ''$'', CHR ''%'', CHR ''&'', CHR 0x27, CHR ''*'', CHR ''+'', CHR ''-'',
           CHR ''.'', CHR ''^'', CHR ''_'', CHR 0x60, CHR ''|'', CHR ''~''}"

definition quoted_pair_byte :: "char \<Rightarrow> bool" where
  "quoted_pair_byte c \<longleftrightarrow> c = CHR 0x09 \<or> c = CHR '' '' \<or> \<not> (byte c < 0x21 \<or> byte c = 0x7f)"

definition quoted_text_byte :: "char \<Rightarrow> bool" where
  "quoted_text_byte c \<longleftrightarrow> c = CHR 0x09 \<or> c = CHR '' '' \<or> byte c = 0x21 \<or>
     \<not> (byte c < 0x23 \<or> c = CHR 0x5C \<or> byte c = 0x7f)"

definition field_value_byte :: "char \<Rightarrow> bool" where
  "field_value_byte c \<longleftrightarrow> \<not> (byte c < 0x20 \<and> c \<noteq> CHR 0x09 \<or> byte c = 0x7f)"

subsection \<open>Lexical loops\<close>

type_synonym pos = "nat \<times> string"

fun SkipOws :: "chunk_control \<Rightarrow> nat \<Rightarrow> string \<Rightarrow> chunk_error + pos" where
  "SkipOws control offset [] = Inr (offset, [])"
| "SkipOws control offset (c # cs) =
     (if IsOws c then and_then (Checkpoint control (AtOws offset) offset) (\<lambda>_. SkipOws control (Suc offset) cs)
      else Inr (offset, c # cs))"

fun token_loop :: "chunk_control \<Rightarrow> nat \<Rightarrow> string \<Rightarrow> chunk_error + pos" where
  "token_loop control offset [] = Inr (offset, [])"
| "token_loop control offset (c # cs) =
     (if IsTokenCharacter c
      then and_then (Checkpoint control (AtToken offset) offset) (\<lambda>_. token_loop control (Suc offset) cs)
      else Inr (offset, c # cs))"

definition ParseToken :: "chunk_control \<Rightarrow> nat \<Rightarrow> string \<Rightarrow> chunk_error + pos" where
  "ParseToken control begin cs =
     and_then (token_loop control begin cs) (\<lambda>(offset, rest).
       if offset = begin then Inl ChunkMalformed else Inr (offset, rest))"

fun quoted_loop :: "chunk_control \<Rightarrow> nat \<Rightarrow> string \<Rightarrow> chunk_error + pos" where
  "quoted_loop control offset [] = Inl ChunkMalformed"
| "quoted_loop control offset (c # cs) =
     and_then (Checkpoint control (AtQuoted offset) offset) (\<lambda>_.
       if c = CHR 0x22 then Inr (Suc offset, cs)
       else if c = CHR 0x5C then
         (case cs of
            [] \<Rightarrow> Inl ChunkMalformed
          | escaped # rest \<Rightarrow>
              if \<not> quoted_pair_byte escaped then Inl ChunkMalformed
              else quoted_loop control (Suc (Suc offset)) rest)
       else if \<not> quoted_text_byte c then Inl ChunkMalformed
       else quoted_loop control (Suc offset) cs)"

fun ParseQuotedString :: "chunk_control \<Rightarrow> nat \<Rightarrow> string \<Rightarrow> chunk_error + pos" where
  "ParseQuotedString control offset [] = Inl ChunkMalformed"
| "ParseQuotedString control offset (c # cs) =
     (if c \<noteq> CHR 0x22 then Inl ChunkMalformed else quoted_loop control (Suc offset) cs)"

fun find_crlf :: "string \<Rightarrow> nat option" where
  "find_crlf (c # d # cs) = (if c = CR \<and> d = LF then Some 0 else map_option Suc (find_crlf (d # cs)))"
| "find_crlf _ = None"

text \<open>The position of the next CRLF, as the length of the line in front of it.\<close>

definition FindCrlf :: "string \<Rightarrow> chunk_error + nat" where
  "FindCrlf cs = (case find_crlf cs of None \<Rightarrow> Inl ChunkMalformed | Some n \<Rightarrow> Inr n)"

subsection \<open>The chunk-size line\<close>

fun size_digits :: "chunk_control \<Rightarrow> nat \<Rightarrow> u64 \<Rightarrow> bool \<Rightarrow> string \<Rightarrow> chunk_error + (u64 \<times> bool \<times> pos)" where
  "size_digits control offset result saw_digit [] = Inr (result, saw_digit, offset, [])"
| "size_digits control offset result saw_digit (c # cs) =
     and_then (Checkpoint control (AtDigit offset) offset) (\<lambda>_.
       if IsOws c \<or> c = CHR '';'' then Inr (result, saw_digit, offset, c # cs)
       else case HexValue c of
         None \<Rightarrow> Inl ChunkMalformed
       | Some digit \<Rightarrow>
           if result > (uint64_max - digit) div 16 then Inl ChunkMalformed
           else size_digits control (Suc offset) (result * 16 + digit) True cs)"

definition extension_value :: "chunk_control \<Rightarrow> nat \<Rightarrow> string \<Rightarrow> chunk_error + pos" where
  "extension_value control offset cs =
     and_then (SkipOws control offset cs) (\<lambda>(offset, rest).
       if rest \<noteq> [] \<and> hd rest = CHR 0x22 then ParseQuotedString control offset rest
       else ParseToken control offset rest)"

lemma and_then_le:
  assumes "and_then r k = Inr y" and "\<And>x. r = Inr x \<Longrightarrow> k x = Inr y \<Longrightarrow> P"
  shows P
  using assms by (cases r) auto

lemma SkipOws_shorter: "SkipOws control offset cs = Inr p \<Longrightarrow> length (snd p) \<le> length cs"
  by (induction control offset cs rule: SkipOws.induct) (auto split: if_splits)

lemma token_loop_shorter: "token_loop control offset cs = Inr p \<Longrightarrow> length (snd p) \<le> length cs"
  by (induction control offset cs rule: token_loop.induct) (auto split: if_splits)

lemma ParseToken_shorter: "ParseToken control offset cs = Inr p \<Longrightarrow> length (snd p) \<le> length cs"
  by (auto simp: ParseToken_def split: if_splits dest: token_loop_shorter)

lemma quoted_loop_shorter: "quoted_loop control offset cs = Inr p \<Longrightarrow> length (snd p) \<le> length cs"
  by (induction control offset cs rule: quoted_loop.induct) (auto split: if_splits list.splits)

lemma ParseQuotedString_shorter: "ParseQuotedString control offset cs = Inr p \<Longrightarrow> length (snd p) \<le> length cs"
  by (cases cs) (auto split: if_splits dest: quoted_loop_shorter)

lemma extension_value_shorter: "extension_value control offset cs = Inr p \<Longrightarrow> length (snd p) \<le> length cs"
  by (auto simp: extension_value_def split: if_splits
      dest!: SkipOws_shorter ParseToken_shorter ParseQuotedString_shorter)

function extension_loop :: "chunk_control \<Rightarrow> nat \<Rightarrow> string \<Rightarrow> chunk_error + unit" where
  "extension_loop control offset cs =
     (if cs = [] then Inr ()
      else
        and_then (SkipOws control offset cs) (\<lambda>(offset1, rest1).
          if rest1 = [] then (if offset1 \<noteq> offset then Inl ChunkMalformed else Inr ())
          else if hd rest1 \<noteq> CHR '';'' then Inl ChunkMalformed
          else
            and_then (SkipOws control (Suc offset1) (tl rest1)) (\<lambda>(offset2, rest2).
            and_then (ParseToken control offset2 rest2) (\<lambda>(after_name, rest3).
            and_then (SkipOws control after_name rest3) (\<lambda>(offset4, rest4).
              if rest4 = [] then (if offset4 \<noteq> after_name then Inl ChunkMalformed else Inr ())
              else if hd rest4 = CHR ''='' then
                and_then (extension_value control (Suc offset4) (tl rest4)) (\<lambda>(offset5, rest5).
                  extension_loop control offset5 rest5)
              else extension_loop control offset4 rest4)))))"
  by pat_completeness auto
termination
proof (relation "measure (\<lambda>(control, offset, cs). length cs)", goal_cases)
  case (2 control offset cs x offset1 rest1 xa offset2 rest2 xb after_name rest3 xc offset4 rest4 xd offset5 rest5)
  then show ?case
    by (cases rest1; cases rest4)
       (auto dest!: SkipOws_shorter ParseToken_shorter extension_value_shorter)
next
  case (3 control offset cs x offset1 rest1 xa offset2 rest2 xb after_name rest3 xc offset4 rest4)
  then show ?case
    by (cases rest1) (auto dest!: SkipOws_shorter ParseToken_shorter)
qed auto

declare extension_loop.simps [simp del]

definition ParseChunkSize :: "chunk_control \<Rightarrow> nat \<Rightarrow> string \<Rightarrow> chunk_error + u64" where
  "ParseChunkSize control begin line =
     and_then (size_digits control begin 0 False line) (\<lambda>(result, saw_digit, offset, rest).
       if \<not> saw_digit then Inl ChunkMalformed
       else and_then (extension_loop control offset rest) (\<lambda>_. Inr result))"

subsection \<open>Trailers\<close>

fun field_value_loop :: "chunk_control \<Rightarrow> nat \<Rightarrow> string \<Rightarrow> chunk_error + unit" where
  "field_value_loop control offset [] = Inr ()"
| "field_value_loop control offset (c # cs) =
     and_then (Checkpoint control (AtField offset) offset) (\<lambda>_.
       if \<not> field_value_byte c then Inl ChunkMalformed
       else field_value_loop control (Suc offset) cs)"

definition trailer_line :: "chunk_control \<Rightarrow> nat \<Rightarrow> string \<Rightarrow> chunk_error + unit" where
  "trailer_line control offset line =
     and_then (ParseToken control offset line) (\<lambda>(field_offset, rest).
       if rest = [] \<or> hd rest \<noteq> CHR '':'' then Inl ChunkMalformed
       else field_value_loop control (Suc field_offset) (tl rest))"

function trailer_loop :: "chunk_control \<Rightarrow> nat \<Rightarrow> string \<Rightarrow> chunk_error + pos" where
  "trailer_loop control offset cs =
     and_then (CheckExecutionState control (AtTrailer offset)) (\<lambda>_.
     and_then (FindCrlf cs) (\<lambda>n.
       if n = 0 then Inr (offset + 2, drop 2 cs)
       else and_then (trailer_line control offset (take n cs)) (\<lambda>_.
         trailer_loop control (offset + n + 2) (drop (n + 2) cs))))"
  by pat_completeness auto

lemma find_crlf_length: "find_crlf cs = Some n \<Longrightarrow> n + 2 \<le> length cs"
  by (induction cs arbitrary: n rule: find_crlf.induct) (auto split: if_splits)

lemma FindCrlf_length: "FindCrlf cs = Inr n \<Longrightarrow> n + 2 \<le> length cs"
  by (auto simp: FindCrlf_def dest: find_crlf_length split: option.splits)

termination trailer_loop
  by (relation "measure (\<lambda>(control, offset, cs). length cs)") (auto dest: FindCrlf_length)

declare trailer_loop.simps [simp del]

definition at_crlf :: "string \<Rightarrow> bool" where
  "at_crlf cs \<longleftrightarrow> \<not> (length cs < 2 \<or> cs ! 0 \<noteq> CR \<or> cs ! 1 \<noteq> LF)"

definition ValidateTrailers :: "chunk_control \<Rightarrow> nat \<Rightarrow> string \<Rightarrow> chunk_error + pos" where
  "ValidateTrailers control offset cs =
     (if \<not> at_crlf cs then trailer_loop control offset cs else Inr (offset + 2, drop 2 cs))"

subsection \<open>The decoder\<close>

definition HttpStringAllocationLimit :: "u64 \<Rightarrow> u64" where
  "HttpStringAllocationLimit content_bytes =
     (if content_bytes > uint64_max - 64 then uint64_max else content_bytes + 64)"

definition HasBoundedHttpStringCapacity :: "u64 \<Rightarrow> u64 \<Rightarrow> bool" where
  "HasBoundedHttpStringCapacity capacity content_limit \<longleftrightarrow>
     capacity < uint64_max \<and> capacity + 1 \<le> HttpStringAllocationLimit content_limit"

function chunk_loop :: "chunk_control \<Rightarrow> u64 \<Rightarrow> nat \<Rightarrow> string \<Rightarrow> string \<Rightarrow> chunk_error + string" where
  "chunk_loop control max_body_bytes offset cs decoded =
     and_then (CheckExecutionState control (AtChunk offset)) (\<lambda>_.
     and_then (FindCrlf cs) (\<lambda>n.
     and_then (ParseChunkSize control offset (take n cs)) (\<lambda>chunk_size.
       let payload = offset + n + 2; rest = drop (n + 2) cs in
       if chunk_size = 0 then
         and_then (ValidateTrailers control payload rest) (\<lambda>(_, left).
           if left \<noteq> [] then Inl ChunkMalformed else Inr decoded)
       else if chunk_size > max_body_bytes - of_nat (length decoded) \<or> unat chunk_size > length rest
       then Inl ChunkMalformed
       else
         and_then (CheckExecutionState control (AtPayload payload)) (\<lambda>_.
           let tail = drop (unat chunk_size) rest in
           if \<not> at_crlf tail then Inl ChunkMalformed
           else chunk_loop control max_body_bytes (payload + unat chunk_size + 2) (drop 2 tail)
                  (decoded @ take (unat chunk_size) rest)))))"
  by pat_completeness auto
termination chunk_loop
  by (relation "measure (\<lambda>(control, max_body_bytes, offset, cs, decoded). length cs)")
     (auto dest: FindCrlf_length)

declare chunk_loop.simps [simp del]

definition DecodeHttpChunkedBody ::
  "(u64 \<Rightarrow> u64) \<Rightarrow> chunk_control \<Rightarrow> string \<Rightarrow> u64 \<Rightarrow> chunk_error + string" where
  "DecodeHttpChunkedBody reserve control encoded max_body_bytes =
     and_then (CheckExecutionState control AtEntry) (\<lambda>_.
       if max_body_bytes > uint64_max then Inl ChunkMalformed
       else if \<not> HasBoundedHttpStringCapacity (reserve (min (of_nat (length encoded)) max_body_bytes)) max_body_bytes
       then Inl DecompressedBytes
       else chunk_loop control max_body_bytes 0 encoded [])"

subsection \<open>The grammar\<close>

definition ows :: "string \<Rightarrow> bool" where
  "ows w \<longleftrightarrow> list_all IsOws w"

definition token :: "string \<Rightarrow> bool" where
  "token w \<longleftrightarrow> w \<noteq> [] \<and> list_all IsTokenCharacter w"

inductive quoted_tail :: "string \<Rightarrow> bool" where
  closing: "quoted_tail [CHR 0x22]"
| pair: "quoted_pair_byte c \<Longrightarrow> quoted_tail w \<Longrightarrow> quoted_tail (CHR 0x5C # c # w)"
| plain: "quoted_text_byte c \<Longrightarrow> quoted_tail w \<Longrightarrow> quoted_tail (c # w)"

definition ext_value :: "string \<Rightarrow> bool" where
  "ext_value w \<longleftrightarrow> token w \<or> (\<exists>q. w = CHR 0x22 # q \<and> quoted_tail q)"

inductive extensions :: "string \<Rightarrow> bool" where
  none: "extensions []"
| name_only: "ows w1 \<Longrightarrow> ows w2 \<Longrightarrow> token name \<Longrightarrow> extensions rest \<Longrightarrow>
    extensions (w1 @ CHR '';'' # w2 @ name @ rest)"
| name_value: "ows w1 \<Longrightarrow> ows w2 \<Longrightarrow> token name \<Longrightarrow> ows w3 \<Longrightarrow> ows w4 \<Longrightarrow> ext_value v \<Longrightarrow> extensions rest \<Longrightarrow>
    extensions (w1 @ CHR '';'' # w2 @ name @ w3 @ CHR ''='' # w4 @ v @ rest)"

definition hex_digits :: "string \<Rightarrow> bool" where
  "hex_digits ds \<longleftrightarrow> ds \<noteq> [] \<and> list_all (\<lambda>c. HexValue c \<noteq> None) ds"

definition hex_number :: "string \<Rightarrow> nat" where
  "hex_number ds = foldl (\<lambda>n c. n * 16 + unat (the (HexValue c))) 0 ds"

definition size_line :: "string \<Rightarrow> nat \<Rightarrow> bool" where
  "size_line line n \<longleftrightarrow> (\<exists>ds ext. line = ds @ ext \<and> hex_digits ds \<and> hex_number ds = n \<and> extensions ext)"

definition field_line :: "string \<Rightarrow> bool" where
  "field_line line \<longleftrightarrow> (\<exists>name v. line = name @ CHR '':'' # v \<and> token name \<and> list_all field_value_byte v)"

inductive trailer_section :: "string \<Rightarrow> bool" where
  end_of_trailers: "trailer_section [CR, LF]"
| trailer_field: "field_line line \<Longrightarrow> trailer_section rest \<Longrightarrow> trailer_section (line @ [CR, LF] @ rest)"

inductive chunked_body :: "string \<Rightarrow> string \<Rightarrow> bool" where
  last_chunk: "size_line line 0 \<Longrightarrow> trailer_section rest \<Longrightarrow> chunked_body (line @ [CR, LF] @ rest) []"
| chunk: "size_line line (length payload) \<Longrightarrow> payload \<noteq> [] \<Longrightarrow> chunked_body rest body \<Longrightarrow>
    chunked_body (line @ [CR, LF] @ payload @ [CR, LF] @ rest) (payload @ body)"

subsection \<open>Soundness of the lexical loops\<close>

lemma SkipOws_sound:
  "SkipOws control offset cs = Inr (offset', rest) \<Longrightarrow>
   \<exists>w. cs = w @ rest \<and> ows w \<and> offset' = offset + length w"
proof (induction control offset cs rule: SkipOws.induct)
  case (2 control offset c cs)
  then show ?case by (cases "IsOws c") (fastforce simp: ows_def intro: exI [of _ "c # _"])+
qed (simp add: ows_def)

lemma token_loop_sound:
  "token_loop control offset cs = Inr (offset', rest) \<Longrightarrow>
   \<exists>w. cs = w @ rest \<and> list_all IsTokenCharacter w \<and> offset' = offset + length w"
proof (induction control offset cs rule: token_loop.induct)
  case (2 control offset c cs)
  then show ?case by (cases "IsTokenCharacter c") (fastforce intro: exI [of _ "c # _"])+
qed simp

lemma ParseToken_sound:
  "ParseToken control offset cs = Inr (offset', rest) \<Longrightarrow>
   \<exists>w. cs = w @ rest \<and> token w \<and> offset' = offset + length w"
  by (fastforce simp: ParseToken_def token_def split: if_splits dest: token_loop_sound)

lemma quoted_loop_sound:
  "quoted_loop control offset cs = Inr (offset', rest) \<Longrightarrow>
   \<exists>w. cs = w @ rest \<and> quoted_tail w \<and> offset' = offset + length w"
proof (induction control offset cs rule: quoted_loop.induct)
  case (2 control offset c cs)
  consider "c = CHR 0x22" "rest = cs" "offset' = Suc offset"
    | e tl where "c = CHR 0x5C" "cs = e # tl" "quoted_pair_byte e"
        "quoted_loop control (Suc (Suc offset)) tl = Inr (offset', rest)"
    | "c \<noteq> CHR 0x22" "c \<noteq> CHR 0x5C" "quoted_text_byte c"
        "quoted_loop control (Suc offset) cs = Inr (offset', rest)"
    using 2(3) by (auto split: if_splits list.splits)
  then show ?case
  proof cases
    case 1
    then show ?thesis using quoted_tail.closing by (intro exI [of _ "[c]"]) auto
  next
    case (2 e tl)
    then obtain w where "tl = w @ rest \<and> quoted_tail w \<and> offset' = Suc (Suc offset) + length w"
      using "2.IH"(1) 2(4) "2.prems" by (auto split: if_splits)
    then show ?thesis using 2 quoted_tail.pair [of e w] by (intro exI [of _ "c # e # w"]) auto
  next
    case 3
    then obtain w where "cs = w @ rest \<and> quoted_tail w \<and> offset' = Suc offset + length w"
      using "2.IH"(2) "2.prems" by auto
    then show ?thesis using 3 quoted_tail.plain [of c w] by (intro exI [of _ "c # w"]) auto
  qed
qed simp

lemma extension_value_sound:
  "extension_value control offset cs = Inr (offset', rest) \<Longrightarrow>
   \<exists>w v. cs = w @ v @ rest \<and> ows w \<and> ext_value v"
proof -
  assume "extension_value control offset cs = Inr (offset', rest)"
  then obtain o1 r1 where skip: "SkipOws control offset cs = Inr (o1, r1)"
    and "(if r1 \<noteq> [] \<and> hd r1 = CHR 0x22 then ParseQuotedString control o1 r1
          else ParseToken control o1 r1) = Inr (offset', rest)"
    by (auto simp: extension_value_def)
  then have "\<exists>v. r1 = v @ rest \<and> ext_value v"
    by (cases r1) (fastforce simp: ext_value_def split: if_splits dest: quoted_loop_sound ParseToken_sound)+
  then show ?thesis using SkipOws_sound [OF skip] by auto
qed

lemma extensions_ows: "extensions cs \<Longrightarrow> cs \<noteq> [] \<Longrightarrow> ows w \<Longrightarrow> extensions (w @ cs)"
proof (induction rule: extensions.induct)
  case (name_only w1 w2 name rest)
  then show ?case using extensions.name_only [of "w @ w1" w2 name rest] by (simp add: ows_def)
next
  case (name_value w1 w2 name w3 w4 v rest)
  then show ?case using extensions.name_value [of "w @ w1" w2 name w3 w4 v rest] by (simp add: ows_def)
qed simp

lemma extension_loop_sound: "extension_loop control offset cs = Inr u \<Longrightarrow> extensions cs"
proof (induction control offset cs rule: extension_loop.induct)
  case (1 control offset cs)
  show ?case
  proof (cases "cs = []")
    case True
    then show ?thesis by (simp add: extensions.none)
  next
    case False
    obtain o1 r1 where s1: "SkipOws control offset cs = Inr (o1, r1)"
      using 1(3) False by (subst (asm) extension_loop.simps) auto
    obtain w1 where w1: "cs = w1 @ r1" "ows w1" "o1 = offset + length w1" using SkipOws_sound [OF s1] by auto
    have ne: "r1 \<noteq> []" using 1(3) False s1 w1 by (subst (asm) extension_loop.simps) (auto split: if_splits)
    then obtain r1' where r1: "r1 = CHR '';'' # r1'"
      using 1(3) False s1 by (cases r1; subst (asm) extension_loop.simps) (auto split: if_splits)
    obtain o2 r2 o3 r3 o4 r4 where s2: "SkipOws control (Suc o1) r1' = Inr (o2, r2)"
      and s3: "ParseToken control o2 r2 = Inr (o3, r3)" and s4: "SkipOws control o3 r3 = Inr (o4, r4)"
      using 1(3) False s1 r1 by (subst (asm) extension_loop.simps) auto
    have s2': "SkipOws control (Suc o1) (tl r1) = Inr (o2, r2)" using s2 r1 by simp
    obtain w2 name w3 where w: "r1' = w2 @ name @ w3 @ r4" "ows w2" "token name" "ows w3" "o4 = o3 + length w3"
      using SkipOws_sound [OF s2] ParseToken_sound [OF s3] SkipOws_sound [OF s4] by auto
    consider (done') "r4 = []" "w3 = []"
      | (val) o5 r5 where "r4 \<noteq> []" "hd r4 = CHR ''=''" "extension_value control (Suc o4) (tl r4) = Inr (o5, r5)"
          "extension_loop control o5 r5 = Inr u"
      | (more) "r4 \<noteq> []" "hd r4 \<noteq> CHR ''=''" "extension_loop control o4 r4 = Inr u"
      using 1(3) False s1 r1 s2 s3 s4 w(5) by (subst (asm) extension_loop.simps) (auto split: if_splits)
    then show ?thesis
    proof cases
      case done'
      then show ?thesis
        using w1 w r1 extensions.name_only [OF w1(2) w(2,3) extensions.none] by simp
    next
      case (val o5 r5)
      have "extensions r5"
        by (rule 1(1) [OF False s1 refl _ _ s2' refl s3 refl s4 refl _ _ val(3) refl val(4)])
          (use ne r1 val in simp_all)
      moreover obtain w4 v where "tl r4 = w4 @ v @ r5" "ows w4" "ext_value v"
        using extension_value_sound [OF val(3)] by auto
      moreover have "r4 = CHR ''='' # tl r4" using val by (cases r4) auto
      ultimately show ?thesis
        using w1 w r1 extensions.name_value [OF w1(2) w(2,3,4), of w4 v r5] by simp
    next
      case more
      have "extensions r4"
        by (rule 1(2) [OF False s1 refl _ _ s2' refl s3 refl s4 refl _ _ more(3)])
          (use ne r1 more in simp_all)
      then have "extensions (w3 @ r4)" using more(1) w(4) by (rule extensions_ows)
      then show ?thesis using w1 w r1 extensions.name_only [OF w1(2) w(2,3)] by simp
    qed
  qed
qed

lemma HexValue_small: "HexValue c = Some d \<Longrightarrow> unat d < 16"
proof -
  assume "HexValue c = Some d"
  then obtain n where "d = of_nat n" "n < 16"
    by (auto simp: HexValue_def in_range_def byte_def simp del: of_nat_diff of_nat_add split: if_splits)
  then show ?thesis by (simp add: unat_of_nat)
qed

text \<open>The guard of the digit loop is exact: it refuses precisely the numbers that need a 65th bit.\<close>

lemma digit_guard:
  assumes "unat (digit::u64) < 16"
  shows "result > (uint64_max - digit) div 16 \<longleftrightarrow> 2 ^ 64 \<le> unat result * 16 + unat digit"
    and "\<not> result > (uint64_max - digit) div 16 \<Longrightarrow> unat (result * 16 + digit) = unat result * 16 + unat digit"
proof -
  have "unat (uint64_max - digit) = unat uint64_max - unat digit" by (simp add: unat_sub)
  then have "unat ((uint64_max - digit) div 16) = (18446744073709551615 - unat digit) div 16"
    by (simp add: unat_div)
  then show g: "result > (uint64_max - digit) div 16 \<longleftrightarrow> 2 ^ 64 \<le> unat result * 16 + unat digit"
    unfolding word_less_nat_alt using assms by (simp; arith)
  assume "\<not> result > (uint64_max - digit) div 16"
  then have lt: "unat result * 16 + unat digit < 2 ^ 64" using g by linarith
  then have "unat (result * 16) = unat result * 16" by (simp add: unat_word_ariths)
  then show "unat (result * 16 + digit) = unat result * 16 + unat digit"
    using lt by (simp add: unat_word_ariths)
qed

lemma hex_number_snoc [simp]: "hex_number (ds @ [c]) = hex_number ds * 16 + unat (the (HexValue c))"
  by (simp add: hex_number_def)

lemma size_digits_sound:
  "size_digits control offset result saw cs = Inr (n, saw', offset', rest) \<Longrightarrow>
   \<exists>ds. cs = ds @ rest \<and> list_all (\<lambda>c. HexValue c \<noteq> None) ds \<and> (saw' \<longleftrightarrow> saw \<or> ds \<noteq> []) \<and>
     unat n = foldl (\<lambda>n c. n * 16 + unat (the (HexValue c))) (unat result) ds"
proof (induction control offset result saw cs rule: size_digits.induct)
  case (2 control offset result saw c cs)
  show ?case
  proof (cases "IsOws c \<or> c = CHR '';''")
    case True
    then show ?thesis using 2(2) by (intro exI [of _ "[]"]) auto
  next
    case False
    then obtain d where d: "HexValue c = Some d" "\<not> result > (uint64_max - d) div 16"
      and loop: "size_digits control (Suc offset) (result * 16 + d) True cs = Inr (n, saw', offset', rest)"
      using 2(2) by (auto split: option.splits if_splits)
    have "\<exists>ds. cs = ds @ rest \<and> list_all (\<lambda>c. HexValue c \<noteq> None) ds \<and> (saw' \<longleftrightarrow> True \<or> ds \<noteq> []) \<and>
        unat n = foldl (\<lambda>n c. n * 16 + unat (the (HexValue c))) (unat (result * 16 + d)) ds"
      using 2(1) [OF _ False d(1) d(2) loop] 2(2) by auto
    then obtain ds where "cs = ds @ rest" "list_all (\<lambda>c. HexValue c \<noteq> None) ds" saw'
      "unat n = foldl (\<lambda>n c. n * 16 + unat (the (HexValue c))) (unat (result * 16 + d)) ds" by auto
    then show ?thesis
      using d digit_guard(2) [OF HexValue_small [OF d(1)] d(2)] by (intro exI [of _ "c # ds"]) simp
  qed
qed simp

lemma ParseChunkSize_sound: "ParseChunkSize control begin line = Inr n \<Longrightarrow> size_line line (unat n)"
proof -
  assume "ParseChunkSize control begin line = Inr n"
  then obtain offset rest u where d: "size_digits control begin 0 False line = Inr (n, True, offset, rest)"
    and e: "extension_loop control offset rest = Inr u"
    by (auto simp: ParseChunkSize_def split: if_splits)
  from size_digits_sound [OF d] obtain ds where "line = ds @ rest" "hex_digits ds" "hex_number ds = unat n"
    by (auto simp: hex_digits_def hex_number_def)
  then show ?thesis using extension_loop_sound [OF e] unfolding size_line_def by blast
qed

subsection \<open>Soundness of the framing\<close>

lemma find_crlf_sound: "find_crlf cs = Some n \<Longrightarrow> cs = take n cs @ [CR, LF] @ drop (n + 2) cs"
  by (induction cs arbitrary: n rule: find_crlf.induct) (auto split: if_splits)

lemma FindCrlf_sound: "FindCrlf cs = Inr n \<Longrightarrow> cs = take n cs @ [CR, LF] @ drop (n + 2) cs"
  unfolding FindCrlf_def by (rule find_crlf_sound) (auto split: option.splits)

lemma at_crlf_sound: "at_crlf cs \<Longrightarrow> cs = [CR, LF] @ drop 2 cs"
  by (cases cs; cases "tl cs") (auto simp: at_crlf_def)

lemma field_value_loop_sound: "field_value_loop control offset cs = Inr u \<Longrightarrow> list_all field_value_byte cs"
  by (induction control offset cs rule: field_value_loop.induct) (auto split: if_splits)

lemma trailer_line_sound: "trailer_line control offset line = Inr u \<Longrightarrow> field_line line"
proof -
  assume "trailer_line control offset line = Inr u"
  then obtain o1 rest where t: "ParseToken control offset line = Inr (o1, CHR '':'' # rest)"
    and v: "field_value_loop control (Suc o1) rest = Inr u"
    unfolding trailer_line_def by (auto split: if_splits simp: neq_Nil_conv)
  show ?thesis using ParseToken_sound [OF t] field_value_loop_sound [OF v] unfolding field_line_def by blast
qed

lemma trailer_loop_sound:
  "trailer_loop control offset cs = Inr (offset', rest) \<Longrightarrow> \<exists>t. cs = t @ rest \<and> trailer_section t"
proof (induction control offset cs rule: trailer_loop.induct)
  case (1 control offset cs)
  obtain u n where c: "CheckExecutionState control (AtTrailer offset) = Inr u" and n: "FindCrlf cs = Inr n"
    using 1(2) by (subst (asm) trailer_loop.simps) auto
  show ?case
  proof (cases "n = 0")
    case True
    then have "rest = drop 2 cs" using 1(2) c n by (subst (asm) trailer_loop.simps) simp
    then show ?thesis
      using FindCrlf_sound [OF n] True trailer_section.end_of_trailers
      by (intro exI [of _ "[CR, LF]"]) (simp add: numeral_2_eq_2)
  next
    case False
    then obtain v where l: "trailer_line control offset (take n cs) = Inr v"
      and loop: "trailer_loop control (offset + n + 2) (drop (n + 2) cs) = Inr (offset', rest)"
      using 1(2) c n by (subst (asm) trailer_loop.simps) auto
    obtain t where t: "drop (n + 2) cs = t @ rest" "trailer_section t" using 1(1) [OF c n False l loop] by auto
    have "trailer_section (take n cs @ [CR, LF] @ t)"
      by (rule trailer_section.trailer_field [OF trailer_line_sound [OF l] t(2)])
    moreover have "cs = (take n cs @ [CR, LF] @ t) @ rest" using FindCrlf_sound [OF n] t(1) by simp
    ultimately show ?thesis by blast
  qed
qed

lemma ValidateTrailers_sound:
  "ValidateTrailers control offset cs = Inr (offset', rest) \<Longrightarrow> \<exists>t. cs = t @ rest \<and> trailer_section t"
proof (cases "at_crlf cs")
  case True
  assume "ValidateTrailers control offset cs = Inr (offset', rest)"
  with True show ?thesis
    using at_crlf_sound [OF True] trailer_section.end_of_trailers
    by (intro exI [of _ "[CR, LF]"]) (simp add: ValidateTrailers_def)
qed (simp add: ValidateTrailers_def trailer_loop_sound)

lemma chunk_loop_sound:
  assumes "chunk_loop control max_body_bytes offset cs decoded = Inr body"
    and "length decoded \<le> unat max_body_bytes"
  shows "\<exists>more. body = decoded @ more \<and> chunked_body cs more \<and> length body \<le> unat max_body_bytes"
  using assms
proof (induction control max_body_bytes offset cs decoded rule: chunk_loop.induct)
  case (1 control max_body_bytes offset cs decoded)
  obtain u n size where c: "CheckExecutionState control (AtChunk offset) = Inr u" and n: "FindCrlf cs = Inr n"
    and size: "ParseChunkSize control offset (take n cs) = Inr size"
    using 1(2) by (subst (asm) chunk_loop.simps) auto
  let ?rest = "drop (n + 2) cs" and ?payload = "offset + n + 2"
  note line = ParseChunkSize_sound [OF size]
  have cs: "cs = take n cs @ [CR, LF] @ ?rest" by (rule FindCrlf_sound [OF n])
  show ?case
  proof (cases "size = 0")
    case True
    then obtain o' where "ValidateTrailers control ?payload ?rest = Inr (o', [])" "body = decoded"
      using 1(2) c n size by (subst (asm) chunk_loop.simps) (auto split: if_splits)
    moreover from this have "trailer_section ?rest" using ValidateTrailers_sound by fastforce
    then have "chunked_body cs []" using last_chunk line True cs by (metis unat_0)
    ultimately show ?thesis using 1(3) by simp
  next
    case False
    let ?data = "take (unat size) ?rest" and ?tail = "drop (unat size) ?rest"
    obtain v where ok: "\<not> (size > max_body_bytes - of_nat (length decoded) \<or> unat size > length ?rest)"
      and p: "CheckExecutionState control (AtPayload ?payload) = Inr v" and crlf: "at_crlf ?tail"
      and loop: "chunk_loop control max_body_bytes (?payload + unat size + 2) (drop 2 ?tail) (decoded @ ?data) = Inr body"
      using 1(2) c n size False by (subst (asm) chunk_loop.simps) (auto simp: Let_def split: if_splits)
    have "unat max_body_bytes < 2 ^ LENGTH(64)" by (rule unsigned_less)
    then have "unat (of_nat (length decoded) :: u64) = length decoded"
      using 1(3) by (simp add: unat_of_nat)
    then have fits: "length decoded + unat size \<le> unat max_body_bytes"
      using ok 1(3) by (auto simp: not_less word_le_nat_alt unat_sub)
    have len: "length ?data = unat size" using ok by simp
    have "length (decoded @ ?data) \<le> unat max_body_bytes" using fits len by simp
    then obtain more where more: "body = (decoded @ ?data) @ more" "chunked_body (drop 2 ?tail) more"
      "length body \<le> unat max_body_bytes"
      using 1(1) [OF c n size refl refl False ok p refl _ loop] crlf by auto
    have "size_line (take n cs) (length ?data)" using line len by simp
    moreover have "?data \<noteq> []" using False len by (auto simp: unat_eq_0)
    ultimately have "chunked_body (take n cs @ [CR, LF] @ ?data @ [CR, LF] @ drop 2 ?tail) (?data @ more)"
      using more(2) by (rule chunk)
    moreover have "?rest = ?data @ [CR, LF] @ drop 2 ?tail" using at_crlf_sound [OF crlf] by (metis append_take_drop_id)
    ultimately show ?thesis using more cs by (metis append.assoc)
  qed
qed

lemma chunked_body_shorter: "chunked_body cs body \<Longrightarrow> length body \<le> length cs"
  by (induction rule: chunked_body.induct) auto

subsection \<open>Completeness for the canonical encoding\<close>

definition quiet :: "chunk_control \<Rightarrow> bool" where
  "quiet control \<longleftrightarrow> (\<forall>p. control p = (False, False))"

lemma quiet_checks [simp]:
  assumes "quiet control"
  shows "CheckExecutionState control p = Inr ()" and "Checkpoint control p offset = Inr ()"
  using assms by (simp_all add: quiet_def CheckExecutionState_def Checkpoint_def)

definition hex_digit :: "nat \<Rightarrow> char" where
  "hex_digit n = (if n < 10 then char_of (48 + n) else char_of (87 + n))"

fun to_hex :: "nat \<Rightarrow> string" where
  "to_hex n = (if n < 16 then [hex_digit n] else to_hex (n div 16) @ [hex_digit (n mod 16)])"

declare to_hex.simps [simp del]

definition encode_chunk :: "string \<Rightarrow> string" where
  "encode_chunk payload = to_hex (length payload) @ [CR, LF] @ payload @ [CR, LF]"

definition encode_chunks :: "string list \<Rightarrow> string" where
  "encode_chunks payloads = concat (map encode_chunk payloads) @ ''0'' @ [CR, LF, CR, LF]"

lemma HexValue_hex_digit: "n < 16 \<Longrightarrow> HexValue (hex_digit n) = Some (of_nat n)"
proof -
  assume n: "n < 16"
  have ends: "byte CHR ''0'' = 48" "byte CHR ''9'' = 57" "byte CHR ''a'' = 97" "byte CHR ''f'' = 102"
    by (simp_all add: byte_def)
  have "byte (hex_digit n) = (if n < 10 then 48 + n else 87 + n)"
    using n by (auto simp: hex_digit_def intro!: byte_char_of)
  moreover have "97 \<le> 87 + n \<and> 87 + n \<le> 102" if "\<not> n < 10" using n that by simp
  ultimately show ?thesis
    unfolding HexValue_def in_range_def ends by (cases "n < 10") (simp_all del: of_nat_diff of_nat_add)
qed

lemma HexValue_not_delimiter:
  assumes "HexValue c \<noteq> None"
  shows "\<not> IsOws c" and "c \<noteq> CHR '';''" and "c \<noteq> CR"
proof -
  have "HexValue CHR '' '' = None" "HexValue CHR 0x09 = None" "HexValue CHR '';'' = None" "HexValue CR = None"
    by code_simp+
  with assms show "\<not> IsOws c" and "c \<noteq> CHR '';''" and "c \<noteq> CR" by (auto simp: IsOws_def)
qed

lemma to_hex_number: "hex_digits (to_hex n) \<and> hex_number (to_hex n) = n"
proof (induction n rule: to_hex.induct)
  case (1 n)
  show ?case
  proof (cases "n < 16")
    case True
    then show ?thesis
      by (subst (1 2) to_hex.simps) (simp add: hex_digits_def hex_number_def HexValue_hex_digit unat_of_nat)
  next
    case False
    have d: "HexValue (hex_digit (n mod 16)) = Some (of_nat (n mod 16))" by (rule HexValue_hex_digit) simp
    have u: "unat (of_nat (n mod 16) :: u64) = n mod 16" by (simp add: unat_of_nat)
    show ?thesis
      using 1 [OF False] False d u
      by (subst (1 2) to_hex.simps) (simp add: hex_digits_def del: of_nat_mod)
  qed
qed

lemma find_crlf_append: "CR \<notin> set line \<Longrightarrow> find_crlf (line @ CR # LF # rest) = Some (length line)"
proof (induction line)
  case (Cons c line)
  then have "find_crlf (line @ CR # LF # rest) = Some (length line)" by simp
  then show ?case using Cons(2) by (cases line) auto
qed simp

lemma hex_fold_ge: "(n::nat) \<le> foldl (\<lambda>n c. n * 16 + unat (the (HexValue c))) n ds"
proof (induction ds arbitrary: n)
  case (Cons c ds)
  have "n \<le> n * 16 + unat (the (HexValue c))" by simp
  then show ?case using Cons [of "n * 16 + unat (the (HexValue c))"] by simp
qed simp

lemma size_digits_complete:
  assumes "quiet control" and "list_all (\<lambda>c. HexValue c \<noteq> None) ds"
  shows "size_digits control offset result saw ds =
    (let n = foldl (\<lambda>n c. n * 16 + unat (the (HexValue c))) (unat result) ds in
     if n < 2 ^ 64 then Inr (of_nat n, saw \<or> ds \<noteq> [], offset + length ds, []) else Inl ChunkMalformed)"
  using assms(2)
proof (induction ds arbitrary: offset result saw)
  case Nil
  have "unat result < 2 ^ LENGTH(64)" by (rule unsigned_less)
  then show ?case by simp
next
  case (Cons c ds)
  then obtain d where d: "HexValue c = Some d" by auto
  have c: "\<not> IsOws c" "c \<noteq> CHR '';''" using HexValue_not_delimiter [of c] d by simp_all
  note g = digit_guard [OF HexValue_small [OF d], of result]
  have step: "size_digits control offset result saw (c # ds) =
    (if result > (uint64_max - d) div 16 then Inl ChunkMalformed
     else size_digits control (Suc offset) (result * 16 + d) True ds)"
    using assms(1) c d by simp
  show ?case
  proof (cases "result > (uint64_max - d) div 16")
    case True
    then have "2 ^ 64 \<le> foldl (\<lambda>n c. n * 16 + unat (the (HexValue c))) (unat result * 16 + unat d) ds"
      using g(1) hex_fold_ge [of "unat result * 16 + unat d" ds] by (meson order_trans)
    then show ?thesis using True d unfolding step by (simp add: Let_def)
  next
    case False
    then show ?thesis using Cons g(2) d unfolding step by (simp add: Let_def)
  qed
qed

lemma ParseChunkSize_complete:
  assumes "quiet control" and "hex_digits ds"
  shows "ParseChunkSize control offset ds =
    (if hex_number ds < 2 ^ 64 then Inr (of_nat (hex_number ds)) else Inl ChunkMalformed)"
  using assms size_digits_complete [OF assms(1), of ds offset 0 False]
  by (simp add: ParseChunkSize_def hex_digits_def hex_number_def Let_def extension_loop.simps)

lemma hex_digits_no_cr: "hex_digits ds \<Longrightarrow> CR \<notin> set ds"
  using HexValue_not_delimiter(3) by (fastforce simp: hex_digits_def list_all_iff)

lemma chunk_loop_step:
  assumes "quiet control" and "payload \<noteq> []" and "length decoded + length payload \<le> unat max_body_bytes"
  shows "chunk_loop control max_body_bytes offset (encode_chunk payload @ rest) decoded =
    chunk_loop control max_body_bytes (offset + length (encode_chunk payload)) rest (decoded @ payload)"
proof -
  let ?n = "length payload" and ?line = "to_hex (length payload)"
  let ?size = "of_nat ?n :: u64"
  have max: "unat max_body_bytes < 2 ^ LENGTH(64)" by (rule unsigned_less)
  then have small: "?n < 2 ^ 64" "length decoded < 2 ^ 64" using assms(3) by simp_all
  then have u: "unat ?size = ?n" "unat (of_nat (length decoded) :: u64) = length decoded" by (simp_all add: unat_of_nat)
  have find: "FindCrlf (encode_chunk payload @ rest) = Inr (length ?line)"
    using find_crlf_append [OF hex_digits_no_cr, of ?line "payload @ [CR, LF] @ rest"] to_hex_number [of ?n]
    by (simp add: FindCrlf_def encode_chunk_def)
  have parse: "ParseChunkSize control offset ?line = Inr ?size"
    using ParseChunkSize_complete [OF assms(1), of ?line offset] to_hex_number [of ?n] small by simp
  have "?size \<noteq> 0" using u(1) assms(2) by (metis length_0_conv unat_0)
  moreover have "\<not> ?size > max_body_bytes - of_nat (length decoded)"
    using assms(3) u by (simp add: not_less word_le_nat_alt unat_sub)
  ultimately show ?thesis
    using find parse assms(1) u
    by (subst chunk_loop.simps) (simp add: encode_chunk_def Let_def at_crlf_def add.assoc)
qed

lemma chunk_loop_complete:
  assumes "quiet control" and "[] \<notin> set payloads"
    and "length decoded + length (concat payloads) \<le> unat max_body_bytes"
  shows "chunk_loop control max_body_bytes offset (encode_chunks payloads) decoded = Inr (decoded @ concat payloads)"
  using assms(2,3)
proof (induction payloads arbitrary: offset decoded)
  case Nil
  have find: "FindCrlf (CHR ''0'' # [CR, LF, CR, LF]) = Inr 1" by code_simp
  have parse: "ParseChunkSize control offset ''0'' = Inr 0"
  proof -
    have "hex_digits ''0''" "hex_number ''0'' = 0" by code_simp+
    then show ?thesis using ParseChunkSize_complete [OF assms(1), of "''0''" offset] by simp
  qed
  show ?case
    using find parse assms(1)
    by (subst chunk_loop.simps) (simp add: encode_chunks_def Let_def ValidateTrailers_def at_crlf_def)
next
  case (Cons payload payloads)
  then have "payload \<noteq> []" by auto
  with Cons show ?case
    using chunk_loop_step [OF assms(1), of payload decoded max_body_bytes offset "encode_chunks payloads"]
      Cons.IH [of "decoded @ payload" "offset + length (encode_chunk payload)"]
    by (simp add: encode_chunks_def)
qed

subsection \<open>Properties\<close>

text \<open>
  C17. Decoding is sound: whatever the control does, an accepted body is the concatenation of the
  payloads of a byte string that the RFC 9112 grammar of chunked bodies derives completely (sizes,
  extensions and trailers included), it is never longer than the admitted body limit, and it
  fits the buffer reserved for it before the first byte was copied.
\<close>
theorem chunk_decode_sound:
  assumes "DecodeHttpChunkedBody reserve control encoded max_body_bytes = Inr body"
  shows "chunked_body encoded body \<and> length body \<le> min (length encoded) (unat max_body_bytes)"
proof -
  have "chunk_loop control max_body_bytes 0 encoded [] = Inr body"
    using assms by (auto simp: DecodeHttpChunkedBody_def split: if_splits)
  from chunk_loop_sound [OF this] show ?thesis using chunked_body_shorter by fastforce
qed

text \<open>
  C18. Round trip: when the run is not interrupted and the reserved capacity is within its
  envelope, the decoder returns the concatenation of any list of non-empty payloads from their
  canonical encoding, for every total size up to and including the limit.
\<close>
theorem chunk_roundtrip:
  assumes "quiet control" and "[] \<notin> set payloads" and "length (concat payloads) \<le> unat max_body_bytes"
    and "HasBoundedHttpStringCapacity
      (reserve (min (of_nat (length (encode_chunks payloads))) max_body_bytes)) max_body_bytes"
  shows "DecodeHttpChunkedBody reserve control (encode_chunks payloads) max_body_bytes = Inr (concat payloads)"
  using assms chunk_loop_complete [OF assms(1,2), of "[]"]
  by (simp add: DecodeHttpChunkedBody_def not_less)

text \<open>
  The 64-bit chunk size never wraps: an uninterrupted size line of hexadecimal digits yields
  exactly the number it writes when that is below \<open>2 ^ 64\<close>, however many leading zeros it has,
  and is malformed otherwise.
\<close>
lemma chunk_size_exact:
  assumes "quiet control" and "hex_digits ds"
  shows "ParseChunkSize control offset ds =
    (if hex_number ds < 2 ^ 64 then Inr (of_nat (hex_number ds)) else Inl ChunkMalformed)"
  by (rule ParseChunkSize_complete [OF assms])

theorem chunk_decode_sound_witness:
  "chunked_body (encode_chunks [''abc'', ''de'']) ''abcde'' \<and> length ''abcde'' \<le> unat (5 :: u64)"
proof -
  have "DecodeHttpChunkedBody (\<lambda>n. n) (\<lambda>_. (False, False)) (encode_chunks [''abc'', ''de'']) 5 = Inr ''abcde''"
    by code_simp
  from chunk_decode_sound [OF this] show ?thesis by simp
qed

theorem chunk_roundtrip_witness:
  "DecodeHttpChunkedBody (\<lambda>n. n) (\<lambda>_. (False, False)) (encode_chunks [''abc'', ''de'']) 5 = Inr ''abcde''"
proof -
  have "quiet (\<lambda>_. (False, False))" by (simp add: quiet_def)
  moreover have "HasBoundedHttpStringCapacity (min (of_nat (length (encode_chunks [''abc'', ''de'']))) 5) 5" by code_simp
  ultimately show ?thesis using chunk_roundtrip [of "\<lambda>_. (False, False)" "[''abc'', ''de'']" 5 "\<lambda>n. n"] by simp
qed

end
