(* ===== verification/Admission_Controller.thy ===== *)
theory Admission_Controller
  imports Keyed_Table
begin

text \<open>
  The admission controller, \<open>src/src/runtime/execution/admission_controller.cpp\<close>: the executor-local
  authority over seven resources and three waiting queues, each counted globally and per
  connector, destination, principal and bulkhead. As in the rate-limit coordinator, every
  operation runs under one mutex, released only in \<open>clock->WaitFor\<close>, so the model has one
  atomic step per critical section; clock readings, cancellation requests and the test hook's
  exceptions are arguments of the steps.

  A ticket is a shared object of the source; it is known here by its queue and ordinal. The
  tickets still in the vector are \<open>sh_tickets\<close>, those granted whose owner has not run yet are
  \<open>sh_granted\<close>. The hashes stored beside the keys only speed up the comparison of keys and are left
  out; allocation failure is not modelled. \<open>AcquireQueued\<close> is private and its callers pass one of
  the three queues, so \<open>QueueKind::NONE\<close>, which it rejects, is not a value here.
\<close>

subsection \<open>Identities\<close>

datatype direct_principal = BEARER_PRINCIPAL | CREDENTIAL_PRINCIPAL

datatype 'i admission_principal = AnonymousPrincipal | DirectPrincipal direct_principal | OpaquePrincipal 'i

datatype admission_protocol = REST_PROTOCOL | GRAPHQL_PROTOCOL

record destination_key =
  dk_scheme :: string
  dk_host :: string
  dk_explicit_port :: u16

record 'i admission_identity =
  ai_connector_id :: string
  ai_destination :: destination_key
  ai_complete :: bool
  ai_relation_id :: string
  ai_protocol :: admission_protocol
  ai_operation_id :: string
  ai_principal :: "'i admission_principal"

record 'i bulkhead_key =
  bh_connector_id :: string
  bh_destination :: destination_key
  bh_relation_id :: string
  bh_protocol :: admission_protocol
  bh_operation_id :: string
  bh_principal :: "'i admission_principal"

definition AdmissionIdentity :: "'i admission_identity \<Rightarrow> string + 'i admission_identity" where
  "AdmissionIdentity i =
     (if ai_connector_id i = [] \<or> dk_scheme (ai_destination i) = [] \<or> dk_host (ai_destination i) = [] \<or>
         dk_explicit_port (ai_destination i) = 0 \<or>
         ai_complete i \<and> (ai_relation_id i = [] \<or> ai_operation_id i = [])
      then Inl ''admission identity must contain bounded admitted facts''
      else Inr i)"

definition PreliminaryIdentity :: "string \<Rightarrow> destination_key \<Rightarrow> string + 'i admission_identity" where
  "PreliminaryIdentity connector destination =
     AdmissionIdentity \<lparr>ai_connector_id = connector, ai_destination = destination, ai_complete = False,
       ai_relation_id = [], ai_protocol = REST_PROTOCOL, ai_operation_id = [], ai_principal = AnonymousPrincipal\<rparr>"

definition CompleteIdentity ::
  "string \<Rightarrow> destination_key \<Rightarrow> string \<Rightarrow> admission_protocol \<Rightarrow> string \<Rightarrow> 'i admission_principal
   \<Rightarrow> string + 'i admission_identity" where
  "CompleteIdentity connector destination relation protocol operation p =
     AdmissionIdentity \<lparr>ai_connector_id = connector, ai_destination = destination, ai_complete = True,
       ai_relation_id = relation, ai_protocol = protocol, ai_operation_id = operation, ai_principal = p\<rparr>"

definition ToBulkhead :: "'i admission_identity \<Rightarrow> 'i bulkhead_key" where
  "ToBulkhead i = \<lparr>bh_connector_id = ai_connector_id i, bh_destination = ai_destination i,
     bh_relation_id = ai_relation_id i, bh_protocol = ai_protocol i, bh_operation_id = ai_operation_id i,
     bh_principal = ai_principal i\<rparr>"

definition UsesPrincipal :: "'i admission_identity \<Rightarrow> bool" where
  "UsesPrincipal i \<longleftrightarrow> ai_complete i \<and> (case ai_principal i of OpaquePrincipal _ \<Rightarrow> True | _ \<Rightarrow> False)"

subsection \<open>Profiles\<close>

record dimension_limits =
  dl_global :: u64
  dl_connector :: u64
  dl_destination :: u64
  dl_principal :: u64
  dl_bulkhead :: u64

record admission_profile =
  ap_credential_resolutions :: dimension_limits
  ap_queued_credential_resolutions :: dimension_limits
  ap_active_scans :: dimension_limits
  ap_in_flight_requests :: dimension_limits
  ap_queued_scan_admissions :: dimension_limits
  ap_queued_request_admissions :: dimension_limits
  ap_retry_waiters :: dimension_limits
  ap_rate_limit_waiters :: dimension_limits
  ap_buffered_bytes :: dimension_limits
  ap_buffered_rows :: dimension_limits
  ap_provider_queue_timeout_milliseconds :: u64
  ap_scan_queue_timeout_milliseconds :: u64
  ap_request_queue_timeout_milliseconds :: u64
  ap_aggregate_request_waiting_milliseconds :: u64
  ap_interrupt_slice_milliseconds :: u64

definition dims :: "u64 \<Rightarrow> u64 \<Rightarrow> u64 \<Rightarrow> u64 \<Rightarrow> u64 \<Rightarrow> dimension_limits" where
  "dims g c d p b = \<lparr>dl_global = g, dl_connector = c, dl_destination = d, dl_principal = p, dl_bulkhead = b\<rparr>"

definition AdmissionHard :: admission_profile where
  "AdmissionHard = \<lparr>ap_credential_resolutions = dims 16 8 8 0 0,
     ap_queued_credential_resolutions = dims 64 16 16 0 0,
     ap_active_scans = dims 64 16 16 8 4,
     ap_in_flight_requests = dims 32 8 8 4 2,
     ap_queued_scan_admissions = dims 256 64 64 32 16,
     ap_queued_request_admissions = dims 256 64 64 32 16,
     ap_retry_waiters = dims 32 16 16 8 4,
     ap_rate_limit_waiters = dims 32 16 16 8 4,
     ap_buffered_bytes = dims (256 * 1024 * 1024) (128 * 1024 * 1024) (128 * 1024 * 1024)
                              (64 * 1024 * 1024) (32 * 1024 * 1024),
     ap_buffered_rows = dims 6400 3200 3200 1600 800,
     ap_provider_queue_timeout_milliseconds = 1000,
     ap_scan_queue_timeout_milliseconds = 1000,
     ap_request_queue_timeout_milliseconds = 1000,
     ap_aggregate_request_waiting_milliseconds = 5000,
     ap_interrupt_slice_milliseconds = 5\<rparr>"

definition ValidateDimension :: "dimension_limits \<Rightarrow> dimension_limits \<Rightarrow> bool" where
  "ValidateDimension v hard \<longleftrightarrow>
     dl_global v \<le> dl_global hard \<and> dl_connector v \<le> dl_connector hard \<and>
     dl_destination v \<le> dl_destination hard \<and> dl_principal v \<le> dl_principal hard \<and>
     dl_bulkhead v \<le> dl_bulkhead hard"

definition ValidateAdmissionProfile :: "admission_profile \<Rightarrow> string + unit" where
  "ValidateAdmissionProfile p =
     guard ''admission profile exceeds the installed hard limits''
       (ValidateDimension (ap_credential_resolutions p) (ap_credential_resolutions AdmissionHard) \<and>
        ValidateDimension (ap_queued_credential_resolutions p) (ap_queued_credential_resolutions AdmissionHard) \<and>
        ValidateDimension (ap_active_scans p) (ap_active_scans AdmissionHard) \<and>
        ValidateDimension (ap_in_flight_requests p) (ap_in_flight_requests AdmissionHard) \<and>
        ValidateDimension (ap_queued_scan_admissions p) (ap_queued_scan_admissions AdmissionHard) \<and>
        ValidateDimension (ap_queued_request_admissions p) (ap_queued_request_admissions AdmissionHard) \<and>
        ValidateDimension (ap_retry_waiters p) (ap_retry_waiters AdmissionHard) \<and>
        ValidateDimension (ap_rate_limit_waiters p) (ap_rate_limit_waiters AdmissionHard) \<and>
        ValidateDimension (ap_buffered_bytes p) (ap_buffered_bytes AdmissionHard) \<and>
        ValidateDimension (ap_buffered_rows p) (ap_buffered_rows AdmissionHard) \<and>
        ap_provider_queue_timeout_milliseconds p \<le> ap_provider_queue_timeout_milliseconds AdmissionHard \<and>
        ap_scan_queue_timeout_milliseconds p \<le> ap_scan_queue_timeout_milliseconds AdmissionHard \<and>
        ap_request_queue_timeout_milliseconds p \<le> ap_request_queue_timeout_milliseconds AdmissionHard \<and>
        ap_aggregate_request_waiting_milliseconds p \<le> ap_aggregate_request_waiting_milliseconds AdmissionHard \<and>
        ap_interrupt_slice_milliseconds p \<noteq> 0 \<and>
        ap_interrupt_slice_milliseconds p \<le> ap_interrupt_slice_milliseconds AdmissionHard)"

subsection \<open>Counters\<close>

record 'i admission_counters =
  cn_global :: u64
  cn_connectors :: "(string, u64) table"
  cn_destinations :: "(destination_key, u64) table"
  cn_principals :: "('i admission_principal, u64) table"
  cn_bulkheads :: "('i bulkhead_key, u64) table"

definition no_usage :: "'i admission_counters" where
  "no_usage = \<lparr>cn_global = 0, cn_connectors = [], cn_destinations = [], cn_principals = [], cn_bulkheads = []\<rparr>"

definition CountFor :: "('k, u64) table \<Rightarrow> 'k \<Rightarrow> u64" where
  "CountFor counts key = (case table_find counts key of None \<Rightarrow> 0 | Some count \<Rightarrow> count)"

definition AddCount :: "('k, u64) table \<Rightarrow> 'k \<Rightarrow> u64 \<Rightarrow> ('k, u64) table" where
  "AddCount counts key amount =
     (case table_find counts key of
        Some count \<Rightarrow> table_put key (count + amount) counts
      | None \<Rightarrow> table_put key amount counts)"

definition SubtractCount :: "('k, u64) table \<Rightarrow> 'k \<Rightarrow> u64 \<Rightarrow> ('k, u64) table" where
  "SubtractCount counts key amount =
     (case table_find counts key of
        None \<Rightarrow> counts
      | Some count \<Rightarrow>
          if count - amount = 0 then table_erase key counts else table_put key (count - amount) counts)"

definition AddUsage :: "'i admission_counters \<Rightarrow> 'i admission_identity \<Rightarrow> u64 \<Rightarrow> 'i admission_counters" where
  "AddUsage c i amount =
     c\<lparr>cn_global := cn_global c + amount,
       cn_connectors := AddCount (cn_connectors c) (ai_connector_id i) amount,
       cn_destinations := AddCount (cn_destinations c) (ai_destination i) amount,
       cn_principals := (if UsesPrincipal i then AddCount (cn_principals c) (ai_principal i) amount
                         else cn_principals c),
       cn_bulkheads := (if ai_complete i then AddCount (cn_bulkheads c) (ToBulkhead i) amount
                        else cn_bulkheads c)\<rparr>"

definition SubtractUsage :: "'i admission_counters \<Rightarrow> 'i admission_identity \<Rightarrow> u64 \<Rightarrow> 'i admission_counters" where
  "SubtractUsage c i amount =
     c\<lparr>cn_global := cn_global c - amount,
       cn_connectors := SubtractCount (cn_connectors c) (ai_connector_id i) amount,
       cn_destinations := SubtractCount (cn_destinations c) (ai_destination i) amount,
       cn_principals := (if UsesPrincipal i then SubtractCount (cn_principals c) (ai_principal i) amount
                         else cn_principals c),
       cn_bulkheads := (if ai_complete i then SubtractCount (cn_bulkheads c) (ToBulkhead i) amount
                        else cn_bulkheads c)\<rparr>"

subsection \<open>Observations\<close>

datatype admission_reason = NO_REASON | CREDENTIAL_RESOLUTION_QUEUE_SATURATED
  | CREDENTIAL_RESOLUTION_QUEUE_TIMEOUT | SCAN_QUEUE_SATURATED | SCAN_QUEUE_TIMEOUT
  | REQUEST_QUEUE_SATURATED | REQUEST_QUEUE_TIMEOUT | ADMISSION_WAITING_EXHAUSTED | RETRY_WAIT_SATURATED
  | RATE_LIMIT_WAIT_SATURATED | BUFFERED_BYTES_EXHAUSTED | BUFFERED_ROWS_EXHAUSTED | RUNTIME_CLOSED
  | ADMISSION_TICKET_EXHAUSTED

datatype admission_scope = NO_SCOPE | GLOBAL_SCOPE | CONNECTOR_SCOPE | DESTINATION_SCOPE
  | PRINCIPAL_SCOPE | BULKHEAD_SCOPE

record observation =
  ob_reason :: admission_reason
  ob_scope :: admission_scope
  ob_limit :: u64
  ob_observed :: u64
  ob_requested :: u64
  ob_waited_milliseconds :: u64
  ob_waiting :: bool

definition EmptyObservation :: observation where
  "EmptyObservation = \<lparr>ob_reason = NO_REASON, ob_scope = NO_SCOPE, ob_limit = 0, ob_observed = 0,
     ob_requested = 0, ob_waited_milliseconds = 0, ob_waiting = False\<rparr>"

definition Exceeds :: "u64 \<Rightarrow> u64 \<Rightarrow> u64 \<Rightarrow> bool" where
  "Exceeds observed requested limit \<longleftrightarrow> requested > limit \<or> observed > limit - requested"

definition blocked_at :: "observation \<Rightarrow> admission_scope \<Rightarrow> u64 \<Rightarrow> u64 \<Rightarrow> observation" where
  "blocked_at ob scope limit observed = ob\<lparr>ob_scope := scope, ob_limit := limit, ob_observed := observed\<rparr>"

definition CheckFits ::
  "'i admission_counters \<Rightarrow> 'i admission_identity \<Rightarrow> u64 \<Rightarrow> dimension_limits \<Rightarrow> observation" where
  "CheckFits c i amount limits =
     (let result = EmptyObservation\<lparr>ob_requested := amount\<rparr>;
          connector = CountFor (cn_connectors c) (ai_connector_id i);
          destination = CountFor (cn_destinations c) (ai_destination i);
          principal = CountFor (cn_principals c) (ai_principal i);
          bulkhead = CountFor (cn_bulkheads c) (ToBulkhead i) in
      if Exceeds (cn_global c) amount (dl_global limits)
      then blocked_at result GLOBAL_SCOPE (dl_global limits) (cn_global c)
      else if Exceeds connector amount (dl_connector limits)
      then blocked_at result CONNECTOR_SCOPE (dl_connector limits) connector
      else if Exceeds destination amount (dl_destination limits)
      then blocked_at result DESTINATION_SCOPE (dl_destination limits) destination
      else if UsesPrincipal i \<and> Exceeds principal amount (dl_principal limits)
      then blocked_at result PRINCIPAL_SCOPE (dl_principal limits) principal
      else if ai_complete i \<and> Exceeds bulkhead amount (dl_bulkhead limits)
      then blocked_at result BULKHEAD_SCOPE (dl_bulkhead limits) bulkhead
      else result)"

subsection \<open>Shared state\<close>

datatype resource_kind = CREDENTIAL_RESOLUTION | ACTIVE_SCAN | REQUEST | RETRY_WAITER
  | RATE_LIMIT_WAITER | BUFFERED_BYTES | BUFFERED_ROWS

datatype queue_kind = CREDENTIAL_QUEUE | SCAN_QUEUE | REQUEST_QUEUE

record wait_policy =
  wp_queue_deadline_milliseconds :: int
  wp_has_aggregate_deadline :: bool
  wp_aggregate_deadline_milliseconds :: int
  wp_has_scan_deadline :: bool
  wp_scan_deadline_milliseconds :: int

record 'i admission_ticket =
  tk_resource :: resource_kind
  tk_queue :: queue_kind
  tk_identity :: "'i admission_identity"
  tk_ordinal :: u64
  tk_wait :: wait_policy
  tk_started :: int
  tk_granted_at :: int
  tk_granted :: bool
  tk_last_blocking :: observation

type_synonym ticket_ref = "queue_kind \<times> u64"

record 'i admission_permit =
  pm_resource :: resource_kind
  pm_identity :: "'i admission_identity"
  pm_amount :: u64

record 'i admission_shared =
  sh_terminal_reason :: admission_reason
  sh_next_ticket :: "queue_kind \<Rightarrow> u64"
  sh_profile :: admission_profile
  sh_resources :: "resource_kind \<Rightarrow> 'i admission_counters"
  sh_queues :: "queue_kind \<Rightarrow> 'i admission_counters"
  sh_tickets :: "'i admission_ticket list"
  sh_granted :: "'i admission_ticket list"

fun ResourceLimits :: "admission_profile \<Rightarrow> resource_kind \<Rightarrow> dimension_limits" where
  "ResourceLimits p CREDENTIAL_RESOLUTION = ap_credential_resolutions p"
| "ResourceLimits p ACTIVE_SCAN = ap_active_scans p"
| "ResourceLimits p REQUEST = ap_in_flight_requests p"
| "ResourceLimits p RETRY_WAITER = ap_retry_waiters p"
| "ResourceLimits p RATE_LIMIT_WAITER = ap_rate_limit_waiters p"
| "ResourceLimits p BUFFERED_BYTES = ap_buffered_bytes p"
| "ResourceLimits p BUFFERED_ROWS = ap_buffered_rows p"

fun QueueLimits :: "admission_profile \<Rightarrow> queue_kind \<Rightarrow> dimension_limits" where
  "QueueLimits p CREDENTIAL_QUEUE = ap_queued_credential_resolutions p"
| "QueueLimits p SCAN_QUEUE = ap_queued_scan_admissions p"
| "QueueLimits p REQUEST_QUEUE = ap_queued_request_admissions p"

fun SaturatedReason :: "queue_kind \<Rightarrow> admission_reason" where
  "SaturatedReason CREDENTIAL_QUEUE = CREDENTIAL_RESOLUTION_QUEUE_SATURATED"
| "SaturatedReason SCAN_QUEUE = SCAN_QUEUE_SATURATED"
| "SaturatedReason REQUEST_QUEUE = REQUEST_QUEUE_SATURATED"

fun TimeoutReason :: "queue_kind \<Rightarrow> admission_reason" where
  "TimeoutReason CREDENTIAL_QUEUE = CREDENTIAL_RESOLUTION_QUEUE_TIMEOUT"
| "TimeoutReason SCAN_QUEUE = SCAN_QUEUE_TIMEOUT"
| "TimeoutReason REQUEST_QUEUE = REQUEST_QUEUE_TIMEOUT"

definition AdmissionController :: "admission_profile \<Rightarrow> u64 \<Rightarrow> string + 'i admission_shared" where
  "AdmissionController profile initial_ticket =
     and_then (ValidateAdmissionProfile profile) (\<lambda>_.
       if initial_ticket = 0 then Inl ''admission controller requires a clock and nonzero ticket''
       else Inr \<lparr>sh_terminal_reason = NO_REASON, sh_next_ticket = (\<lambda>_. initial_ticket), sh_profile = profile,
                 sh_resources = (\<lambda>_. no_usage), sh_queues = (\<lambda>_. no_usage), sh_tickets = [], sh_granted = []\<rparr>)"

subsection \<open>Granting\<close>

definition TicketExpired :: "'i admission_ticket \<Rightarrow> int \<Rightarrow> bool" where
  "TicketExpired t now \<longleftrightarrow>
     now \<ge> wp_queue_deadline_milliseconds (tk_wait t) \<or>
     wp_has_aggregate_deadline (tk_wait t) \<and> now \<ge> wp_aggregate_deadline_milliseconds (tk_wait t) \<or>
     wp_has_scan_deadline (tk_wait t) \<and> now \<ge> wp_scan_deadline_milliseconds (tk_wait t)"

definition AccountedWait :: "'i admission_ticket \<Rightarrow> int \<Rightarrow> u64" where
  "AccountedWait t ended =
     (let waited = (if ended > tk_started t then word_of_int (ended - tk_started t) else 0);
          aggregate = wp_aggregate_deadline_milliseconds (tk_wait t);
          authority = (if aggregate > tk_started t then word_of_int (aggregate - tk_started t) else 0) in
      if wp_has_aggregate_deadline (tk_wait t) then min waited authority else waited)"

definition AdmissionWaitSlice :: "int \<Rightarrow> int \<Rightarrow> u64 \<Rightarrow> u64" where
  "AdmissionWaitSlice now target maximum_slice =
     (if target \<le> now then 0
      else if now \<le> int64_max - sint maximum_slice \<and> target > now + sint maximum_slice
      then maximum_slice
      else word_of_int (target - now))"

definition tk_ref :: "'i admission_ticket \<Rightarrow> ticket_ref" where
  "tk_ref t = (tk_queue t, tk_ordinal t)"

definition find_ticket :: "ticket_ref \<Rightarrow> 'i admission_ticket list \<Rightarrow> 'i admission_ticket option" where
  "find_ticket r ts = find (\<lambda>t. tk_ref t = r) ts"

definition drop_ticket :: "ticket_ref \<Rightarrow> 'i admission_ticket list \<Rightarrow> 'i admission_ticket list" where
  "drop_ticket r ts = filter (\<lambda>t. tk_ref t \<noteq> r) ts"

definition RemoveTicketLocked :: "ticket_ref \<Rightarrow> 'i admission_shared \<Rightarrow> 'i admission_shared" where
  "RemoveTicketLocked r s =
     (case find_ticket r (sh_tickets s) of
        None \<Rightarrow> s
      | Some t \<Rightarrow>
          s\<lparr>sh_queues := (sh_queues s)(tk_queue t := SubtractUsage (sh_queues s (tk_queue t)) (tk_identity t) 1),
            sh_tickets := drop_ticket r (sh_tickets s)\<rparr>)"

text \<open>
  The loop of \<open>GrantEligibleLocked\<close> over the tickets in arrival order: the tickets that stay, those
  granted, and the counters of the resource and of the queues.
\<close>

fun grant_loop ::
  "resource_kind \<Rightarrow> int \<Rightarrow> dimension_limits \<Rightarrow> 'i admission_ticket list \<Rightarrow> 'i admission_counters
   \<Rightarrow> (queue_kind \<Rightarrow> 'i admission_counters)
   \<Rightarrow> 'i admission_ticket list \<times> 'i admission_ticket list \<times> 'i admission_counters
      \<times> (queue_kind \<Rightarrow> 'i admission_counters)" where
  "grant_loop resource now limits [] counts queues = ([], [], counts, queues)"
| "grant_loop resource now limits (t # ts) counts queues =
     (if tk_resource t \<noteq> resource \<or> TicketExpired t now then
        let (kept, granted, counts', queues') = grant_loop resource now limits ts counts queues in
        (t # kept, granted, counts', queues')
      else
        let blocking = CheckFits counts (tk_identity t) 1 limits in
        if ob_scope blocking \<noteq> NO_SCOPE then
          let (kept, granted, counts', queues') = grant_loop resource now limits ts counts queues in
          (t\<lparr>tk_last_blocking := blocking\<rparr> # kept, granted, counts', queues')
        else
          let (kept, granted, counts', queues') =
            grant_loop resource now limits ts (AddUsage counts (tk_identity t) 1)
              (queues(tk_queue t := SubtractUsage (queues (tk_queue t)) (tk_identity t) 1)) in
          (kept, t\<lparr>tk_granted_at := now, tk_granted := True\<rparr> # granted, counts', queues'))"

definition GrantEligibleLocked :: "resource_kind \<Rightarrow> int \<Rightarrow> 'i admission_shared \<Rightarrow> 'i admission_shared" where
  "GrantEligibleLocked resource now s =
     (if sh_terminal_reason s \<noteq> NO_REASON then s
      else
        let (kept, granted, counts, queues) =
          grant_loop resource now (ResourceLimits (sh_profile s) resource) (sh_tickets s)
            (sh_resources s resource) (sh_queues s) in
        s\<lparr>sh_tickets := kept, sh_granted := sh_granted s @ granted,
          sh_resources := (sh_resources s)(resource := counts), sh_queues := queues\<rparr>)"

text \<open>Where the source swallows an exception of the clock, the reading is absent and nothing is granted.\<close>

definition grant_unless_clock_fails ::
  "resource_kind \<Rightarrow> int option \<Rightarrow> 'i admission_shared \<Rightarrow> 'i admission_shared" where
  "grant_unless_clock_fails resource now s =
     (case now of None \<Rightarrow> s | Some n \<Rightarrow> GrantEligibleLocked resource n s)"

definition ReleasePermit :: "'i admission_permit \<Rightarrow> int option \<Rightarrow> 'i admission_shared \<Rightarrow> 'i admission_shared" where
  "ReleasePermit p now s =
     grant_unless_clock_fails (pm_resource p) now
       (s\<lparr>sh_resources := (sh_resources s)(pm_resource p :=
            SubtractUsage (sh_resources s (pm_resource p)) (pm_identity p) (pm_amount p))\<rparr>)"

subsection \<open>Acquiring\<close>

datatype admission_status = ADMITTED | REJECTED | ADMISSION_CANCELLED | SCAN_DEADLINE_REACHED

text \<open>
  What a critical section of an acquisition ends with: an exception for invalid arguments, a
  status without a permit, a permit, a ticket in the queue, or, for a turn of the wait loop, another
  turn at once or a wait of at most the slice.
\<close>

datatype 'i acquire_outcome =
    AcqInvalid
  | AcqReturned admission_status observation
  | AcqGranted "'i admission_permit" observation
  | AcqQueued ticket_ref
  | AcqContinue
  | AcqWaits u64

definition AcquireQueued ::
  "resource_kind \<Rightarrow> queue_kind \<Rightarrow> 'i admission_identity \<Rightarrow> wait_policy \<Rightarrow> bool \<Rightarrow> int \<Rightarrow> int \<Rightarrow> int option
   \<Rightarrow> 'i admission_shared \<Rightarrow> 'i acquire_outcome \<times> 'i admission_shared" where
  "AcquireQueued resource queue i wait cancelled evaluated started now s =
     (if resource \<noteq> CREDENTIAL_RESOLUTION \<and> \<not> ai_complete i \<or> wp_queue_deadline_milliseconds wait < 0
      then (AcqInvalid, s)
      else if sh_terminal_reason s \<noteq> NO_REASON
      then (AcqReturned REJECTED (EmptyObservation\<lparr>ob_reason := sh_terminal_reason s\<rparr>), s)
      else if cancelled then (AcqReturned ADMISSION_CANCELLED EmptyObservation, s)
      else if wp_has_scan_deadline wait \<and> evaluated \<ge> wp_scan_deadline_milliseconds wait
      then (AcqReturned SCAN_DEADLINE_REACHED EmptyObservation, s)
      else if wp_has_aggregate_deadline wait \<and> evaluated \<ge> wp_aggregate_deadline_milliseconds wait
      then (AcqReturned REJECTED
              (EmptyObservation\<lparr>ob_reason := ADMISSION_WAITING_EXHAUSTED, ob_requested := 1\<rparr>), s)
      else if evaluated \<ge> wp_queue_deadline_milliseconds wait
      then (AcqReturned REJECTED (EmptyObservation\<lparr>ob_reason := TimeoutReason queue, ob_requested := 1\<rparr>), s)
      else
        let blocking = CheckFits (sh_resources s resource) i 1 (ResourceLimits (sh_profile s) resource) in
        if ob_scope blocking \<noteq> NO_SCOPE \<and> ob_limit blocking < ob_requested blocking
        then (AcqReturned REJECTED (blocking\<lparr>ob_reason := SaturatedReason queue\<rparr>), s)
        else if ob_scope blocking = NO_SCOPE \<and> \<not> (\<exists>t\<in>set (sh_tickets s). tk_resource t = resource)
        then (AcqGranted \<lparr>pm_resource = resource, pm_identity = i, pm_amount = 1\<rparr> EmptyObservation,
              s\<lparr>sh_resources := (sh_resources s)(resource := AddUsage (sh_resources s resource) i 1)\<rparr>)
        else
          let queue_blocking = CheckFits (sh_queues s queue) i 1 (QueueLimits (sh_profile s) queue) in
          if ob_scope queue_blocking \<noteq> NO_SCOPE
          then (AcqReturned REJECTED (queue_blocking\<lparr>ob_reason := SaturatedReason queue\<rparr>), s)
          else if sh_next_ticket s queue = uint64_max
          then (AcqReturned REJECTED (EmptyObservation\<lparr>ob_reason := ADMISSION_TICKET_EXHAUSTED\<rparr>),
                s\<lparr>sh_terminal_reason := ADMISSION_TICKET_EXHAUSTED\<rparr>)
          else
            let ticket = \<lparr>tk_resource = resource, tk_queue = queue, tk_identity = i,
                   tk_ordinal = sh_next_ticket s queue, tk_wait = wait, tk_started = started,
                   tk_granted_at = started, tk_granted = False, tk_last_blocking = blocking\<rparr> in
            (AcqQueued (tk_ref ticket),
             grant_unless_clock_fails resource now
               (s\<lparr>sh_next_ticket := (sh_next_ticket s)(queue := sh_next_ticket s queue + 1),
                  sh_queues := (sh_queues s)(queue := AddUsage (sh_queues s queue) i 1),
                  sh_tickets := sh_tickets s @ [ticket]\<rparr>)))"

definition AcquireQueued_turn ::
  "ticket_ref \<Rightarrow> bool \<Rightarrow> int \<Rightarrow> int \<Rightarrow> 'i admission_shared \<Rightarrow> 'i acquire_outcome \<times> 'i admission_shared" where
  "AcquireQueued_turn r cancelled now grant_now s =
     (case find_ticket r (sh_granted s) of
        Some t \<Rightarrow>
          (AcqGranted \<lparr>pm_resource = tk_resource t, pm_identity = tk_identity t, pm_amount = 1\<rparr>
             (EmptyObservation\<lparr>ob_waited_milliseconds := AccountedWait t (tk_granted_at t)\<rparr>),
           s\<lparr>sh_granted := drop_ticket r (sh_granted s)\<rparr>)
      | None \<Rightarrow>
     (case find_ticket r (sh_tickets s) of
        None \<Rightarrow> (AcqInvalid, s)
      | Some t \<Rightarrow>
          let wait = tk_wait t; waited = AccountedWait t now in
          if sh_terminal_reason s \<noteq> NO_REASON
          then (AcqReturned REJECTED
                  (EmptyObservation\<lparr>ob_reason := sh_terminal_reason s, ob_waited_milliseconds := waited\<rparr>),
                RemoveTicketLocked r s)
          else if cancelled
          then (AcqReturned ADMISSION_CANCELLED (EmptyObservation\<lparr>ob_waited_milliseconds := waited\<rparr>),
                RemoveTicketLocked r s)
          else if wp_has_scan_deadline wait \<and> now \<ge> wp_scan_deadline_milliseconds wait
          then (AcqReturned SCAN_DEADLINE_REACHED (EmptyObservation\<lparr>ob_waited_milliseconds := waited\<rparr>),
                RemoveTicketLocked r s)
          else if wp_has_aggregate_deadline wait \<and> now \<ge> wp_aggregate_deadline_milliseconds wait
          then (AcqReturned REJECTED
                  ((tk_last_blocking t)\<lparr>ob_reason := ADMISSION_WAITING_EXHAUSTED, ob_waited_milliseconds := waited\<rparr>),
                RemoveTicketLocked r s)
          else if now \<ge> wp_queue_deadline_milliseconds wait
          then (AcqReturned REJECTED
                  ((tk_last_blocking t)\<lparr>ob_reason := TimeoutReason (tk_queue t), ob_waited_milliseconds := waited\<rparr>),
                RemoveTicketLocked r s)
          else
            let s' = GrantEligibleLocked (tk_resource t) grant_now s;
                deadline = (if wp_has_scan_deadline wait
                            then min (wp_queue_deadline_milliseconds wait) (wp_scan_deadline_milliseconds wait)
                            else wp_queue_deadline_milliseconds wait);
                aggregate_deadline = (if wp_has_aggregate_deadline wait
                            then min deadline (wp_aggregate_deadline_milliseconds wait) else deadline) in
            if find_ticket r (sh_granted s') \<noteq> None then (AcqContinue, s')
            else (AcqWaits (AdmissionWaitSlice now aggregate_deadline
                              (ap_interrupt_slice_milliseconds (sh_profile s))), s')))"

text \<open>The handler of \<open>AcquireQueued\<close> for an exception of the hook, the clock or the wait.\<close>

definition AcquireQueued_unwind :: "ticket_ref \<Rightarrow> int option \<Rightarrow> 'i admission_shared \<Rightarrow> 'i admission_shared" where
  "AcquireQueued_unwind r now s =
     (case find_ticket r (sh_granted s) of
        Some t \<Rightarrow>
          grant_unless_clock_fails (tk_resource t) now
            (s\<lparr>sh_resources := (sh_resources s)(tk_resource t :=
                 SubtractUsage (sh_resources s (tk_resource t)) (tk_identity t) 1),
               sh_granted := drop_ticket r (sh_granted s)\<rparr>)
      | None \<Rightarrow>
     (case find_ticket r (sh_tickets s) of
        None \<Rightarrow> s
      | Some t \<Rightarrow> grant_unless_clock_fails (tk_resource t) now (RemoveTicketLocked r s)))"

definition AcquireImmediate ::
  "resource_kind \<Rightarrow> 'i admission_identity \<Rightarrow> u64 \<Rightarrow> admission_reason \<Rightarrow> 'i admission_shared
   \<Rightarrow> 'i acquire_outcome \<times> 'i admission_shared" where
  "AcquireImmediate resource i amount reason s =
     (if \<not> ai_complete i \<or> amount = 0 then (AcqInvalid, s)
      else if sh_terminal_reason s \<noteq> NO_REASON
      then (AcqReturned REJECTED (EmptyObservation\<lparr>ob_reason := sh_terminal_reason s\<rparr>), s)
      else
        let blocking = CheckFits (sh_resources s resource) i amount (ResourceLimits (sh_profile s) resource) in
        if ob_scope blocking \<noteq> NO_SCOPE
        then (AcqReturned REJECTED (blocking\<lparr>ob_reason := reason\<rparr>), s)
        else (AcqGranted \<lparr>pm_resource = resource, pm_identity = i, pm_amount = amount\<rparr> EmptyObservation,
              s\<lparr>sh_resources := (sh_resources s)(resource := AddUsage (sh_resources s resource) i amount)\<rparr>))"

definition AcquireCredentialResolution where
  "AcquireCredentialResolution i wait cancelled evaluated started now s =
     (if ai_complete i then (AcqInvalid, s)
      else AcquireQueued CREDENTIAL_RESOLUTION CREDENTIAL_QUEUE i wait cancelled evaluated started now s)"

definition AcquireScan where
  "AcquireScan i wait cancelled evaluated started now s =
     AcquireQueued ACTIVE_SCAN SCAN_QUEUE i wait cancelled evaluated started now s"

definition AcquireRequest where
  "AcquireRequest i wait cancelled evaluated started now s =
     AcquireQueued REQUEST REQUEST_QUEUE i wait cancelled evaluated started now s"

definition AcquireRetryWaiter where
  "AcquireRetryWaiter i s = AcquireImmediate RETRY_WAITER i 1 RETRY_WAIT_SATURATED s"

definition AcquireRateLimitWaiter where
  "AcquireRateLimitWaiter i s = AcquireImmediate RATE_LIMIT_WAITER i 1 RATE_LIMIT_WAIT_SATURATED s"

definition ReserveBufferedBytes where
  "ReserveBufferedBytes i bytes s = AcquireImmediate BUFFERED_BYTES i bytes BUFFERED_BYTES_EXHAUSTED s"

definition ReserveBufferedRows where
  "ReserveBufferedRows i rows s = AcquireImmediate BUFFERED_ROWS i rows BUFFERED_ROWS_EXHAUSTED s"

text \<open>A resize returns the status, the observation and the permit with its new amount.\<close>

definition ResizeBufferedBytes ::
  "'i admission_permit \<Rightarrow> u64 \<Rightarrow> 'i admission_shared
   \<Rightarrow> (string + admission_status \<times> observation \<times> 'i admission_permit) \<times> 'i admission_shared" where
  "ResizeBufferedBytes p bytes s =
     (if bytes = 0 \<or> pm_resource p \<noteq> BUFFERED_BYTES
      then (Inl ''invalid buffered-byte reservation resize'', s)
      else if bytes = pm_amount p then (Inr (ADMITTED, EmptyObservation, p), s)
      else if bytes < pm_amount p
      then (Inr (ADMITTED, EmptyObservation, p\<lparr>pm_amount := bytes\<rparr>),
            s\<lparr>sh_resources := (sh_resources s)(BUFFERED_BYTES :=
               SubtractUsage (sh_resources s BUFFERED_BYTES) (pm_identity p) (pm_amount p - bytes))\<rparr>)
      else if sh_terminal_reason s \<noteq> NO_REASON
      then (Inr (REJECTED, EmptyObservation\<lparr>ob_reason := sh_terminal_reason s\<rparr>, p), s)
      else
        let requested = bytes - pm_amount p;
            blocking = CheckFits (sh_resources s BUFFERED_BYTES) (pm_identity p) requested
                         (ap_buffered_bytes (sh_profile s)) in
        if ob_scope blocking \<noteq> NO_SCOPE
        then (Inr (REJECTED, blocking\<lparr>ob_reason := BUFFERED_BYTES_EXHAUSTED\<rparr>, p), s)
        else (Inr (ADMITTED, EmptyObservation, p\<lparr>pm_amount := bytes\<rparr>),
              s\<lparr>sh_resources := (sh_resources s)(BUFFERED_BYTES :=
                 AddUsage (sh_resources s BUFFERED_BYTES) (pm_identity p) requested)\<rparr>))"

definition CloseAdmission :: "'i admission_shared \<Rightarrow> 'i admission_shared" where
  "CloseAdmission s =
     (if sh_terminal_reason s = NO_REASON then s\<lparr>sh_terminal_reason := RUNTIME_CLOSED\<rparr> else s)"

definition IsAdmissionClosed :: "'i admission_shared \<Rightarrow> bool" where
  "IsAdmissionClosed s \<longleftrightarrow> sh_terminal_reason s \<noteq> NO_REASON"

definition AdmissionUsage :: "'i admission_shared \<Rightarrow> (resource_kind \<Rightarrow> u64) \<times> (queue_kind \<Rightarrow> u64)" where
  "AdmissionUsage s = (\<lambda>resource. cn_global (sh_resources s resource), \<lambda>queue. cn_global (sh_queues s queue))"

end
