(* ===== verification/Admission_Accounting.thy ===== *)
theory Admission_Accounting
  imports Admission_Controller "HOL-Library.Multiset"
begin

text \<open>
  Correctness of the admission controller. A counter vector is viewed as one function from
  dimensions (the whole resource, one connector, one destination, one principal, one bulkhead) to
  amounts; adding and subtracting usage and checking for room are refined to addition,
  subtraction and comparison of that function. The system of one controller and its callers then has
  the invariant that every counter is the sum of what the live permits and granted tickets hold,
  every queue counter the number of waiting tickets, and both are within the profile, in every
  interleaving.
\<close>

subsection \<open>Counter vectors as functions of the dimension\<close>

datatype 'i dimension = Global | Connector string | Destination destination_key
  | Principal "'i admission_principal" | Bulkhead "'i bulkhead_key"

fun usage :: "'i admission_counters \<Rightarrow> 'i dimension \<Rightarrow> nat" where
  "usage c Global = unat (cn_global c)"
| "usage c (Connector k) = unat (CountFor (cn_connectors c) k)"
| "usage c (Destination k) = unat (CountFor (cn_destinations c) k)"
| "usage c (Principal k) = unat (CountFor (cn_principals c) k)"
| "usage c (Bulkhead k) = unat (CountFor (cn_bulkheads c) k)"

fun charges :: "'i admission_identity \<Rightarrow> 'i dimension \<Rightarrow> bool" where
  "charges i Global \<longleftrightarrow> True"
| "charges i (Connector k) \<longleftrightarrow> k = ai_connector_id i"
| "charges i (Destination k) \<longleftrightarrow> k = ai_destination i"
| "charges i (Principal k) \<longleftrightarrow> UsesPrincipal i \<and> k = ai_principal i"
| "charges i (Bulkhead k) \<longleftrightarrow> ai_complete i \<and> k = ToBulkhead i"

fun limit_for :: "dimension_limits \<Rightarrow> 'i dimension \<Rightarrow> nat" where
  "limit_for l Global = unat (dl_global l)"
| "limit_for l (Connector _) = unat (dl_connector l)"
| "limit_for l (Destination _) = unat (dl_destination l)"
| "limit_for l (Principal _) = unat (dl_principal l)"
| "limit_for l (Bulkhead _) = unat (dl_bulkhead l)"

definition counters_wf :: "'i admission_counters \<Rightarrow> bool" where
  "counters_wf c \<longleftrightarrow> table_wf (cn_connectors c) \<and> table_wf (cn_destinations c) \<and>
     table_wf (cn_principals c) \<and> table_wf (cn_bulkheads c)"

lemma CountFor_AddCount:
  "CountFor (AddCount t k a) k' = (if k' = k then CountFor t k + a else CountFor t k')"
  by (auto simp: CountFor_def AddCount_def split: option.splits)

lemma CountFor_SubtractCount:
  "table_wf t \<Longrightarrow> a \<le> CountFor t k \<Longrightarrow>
   CountFor (SubtractCount t k a) k' = (if k' = k then CountFor t k - a else CountFor t k')"
  by (auto simp: CountFor_def SubtractCount_def split: option.splits)

lemma CountFor_SubtractCount_other:
  "table_wf t \<Longrightarrow> k' \<noteq> k \<Longrightarrow> CountFor (SubtractCount t k a) k' = CountFor t k'"
  by (auto simp: CountFor_def SubtractCount_def split: option.splits)

lemma table_wf_counts [simp]:
  "table_wf t \<Longrightarrow> table_wf (AddCount t k a)"
  "table_wf t \<Longrightarrow> table_wf (SubtractCount t k a)"
  by (auto simp: AddCount_def SubtractCount_def split: option.splits)

lemma counters_wf_ops [simp]:
  "counters_wf c \<Longrightarrow> counters_wf (AddUsage c i a)"
  "counters_wf c \<Longrightarrow> counters_wf (SubtractUsage c i a)"
  "counters_wf no_usage"
  by (auto simp: counters_wf_def AddUsage_def SubtractUsage_def no_usage_def)

lemma usage_no_usage [simp]: "usage no_usage d = 0"
  by (cases d) (simp_all add: no_usage_def CountFor_def)

lemma unat_plus_small: "unat (x::u64) + unat a < 2 ^ 64 \<Longrightarrow> unat (x + a) = unat x + unat a"
  using unat_add_lem [of x a] by simp

lemma usage_less: "usage c d < 2 ^ 64"
proof -
  have "unat (x::u64) < 2 ^ 64" for x using unsigned_less [of x] by simp
  then show ?thesis by (cases d) simp_all
qed

lemma usage_AddUsage:
  assumes "\<And>d. charges i d \<Longrightarrow> usage c d + unat a < 2 ^ 64"
  shows "usage (AddUsage c i a) d = usage c d + (if charges i d then unat a else 0)"
  using assms [of d]
  by (cases d) (auto simp: AddUsage_def CountFor_AddCount unat_plus_small)

lemma usage_SubtractUsage:
  assumes "counters_wf c" and "\<And>d. charges i d \<Longrightarrow> unat a \<le> usage c d"
  shows "usage (SubtractUsage c i a) d = usage c d - (if charges i d then unat a else 0)"
proof -
  have "unat a \<le> unat (x::u64) \<Longrightarrow> unat (x - a) = unat x - unat a \<and> a \<le> x" for x
    by (simp add: unat_sub word_le_nat_alt)
  note le = this
  have wf: "table_wf (cn_connectors c)" "table_wf (cn_destinations c)" "table_wf (cn_principals c)"
    "table_wf (cn_bulkheads c)" using assms(1) by (simp_all add: counters_wf_def)
  show ?thesis
    using assms(2) [of d] le wf by (cases d) (auto simp: SubtractUsage_def CountFor_SubtractCount CountFor_SubtractCount_other)
qed

lemma Exceeds_iff: "\<not> Exceeds observed requested limit \<longleftrightarrow> unat observed + unat requested \<le> unat limit"
proof (cases "requested \<le> limit")
  case True
  then have r: "unat requested \<le> unat limit" by (simp add: word_le_nat_alt)
  have "observed > limit - requested \<longleftrightarrow> unat observed > unat limit - unat requested"
    using True by (simp add: word_less_nat_alt unat_sub)
  moreover have "\<not> requested > limit" using True by simp
  ultimately show ?thesis using r unfolding Exceeds_def by linarith
next
  case False
  then have "unat limit < unat requested" by (simp add: word_le_nat_alt)
  then show ?thesis using False unfolding Exceeds_def by auto
qed

lemma all_dimensions:
  "(\<forall>d. charges i d \<longrightarrow> P d) \<longleftrightarrow> P Global \<and> P (Connector (ai_connector_id i)) \<and>
     P (Destination (ai_destination i)) \<and> (UsesPrincipal i \<longrightarrow> P (Principal (ai_principal i))) \<and>
     (ai_complete i \<longrightarrow> P (Bulkhead (ToBulkhead i)))" (is "?l = ?r")
proof
  assume l: ?l
  then have "charges i d \<Longrightarrow> P d" for d by blast
  from this [of Global] this [of "Connector (ai_connector_id i)"] this [of "Destination (ai_destination i)"]
    this [of "Principal (ai_principal i)"] this [of "Bulkhead (ToBulkhead i)"]
  show ?r by simp
next
  assume r: ?r
  show ?l
  proof (intro allI impI)
    fix d assume "charges i d"
    then show "P d" using r by (cases d) auto
  qed
qed

lemma CheckFits_iff:
  "ob_scope (CheckFits c i a l) = NO_SCOPE \<longleftrightarrow> (\<forall>d. charges i d \<longrightarrow> usage c d + unat a \<le> limit_for l d)"
  unfolding all_dimensions usage.simps limit_for.simps Exceeds_iff [symmetric]
  by (simp add: CheckFits_def Let_def blocked_at_def EmptyObservation_def)

lemma limit_for_less: "limit_for l d < 2 ^ 64"
proof -
  have "unat (x::u64) < 2 ^ 64" for x using unsigned_less [of x] by simp
  then show ?thesis by (cases d) simp_all
qed

lemma usage_AddUsage_fits:
  assumes "ob_scope (CheckFits c i a l) = NO_SCOPE"
  shows "usage (AddUsage c i a) d = usage c d + (if charges i d then unat a else 0)"
    and "usage c d \<le> limit_for l d \<Longrightarrow> usage (AddUsage c i a) d \<le> limit_for l d"
proof -
  have fit: "usage c d + unat a \<le> limit_for l d" if "charges i d" for d
    using assms that by (simp add: CheckFits_iff)
  then show sum: "usage (AddUsage c i a) d = usage c d + (if charges i d then unat a else 0)"
    by (intro usage_AddUsage) (rule le_less_trans [OF fit limit_for_less])
  show "usage c d \<le> limit_for l d \<Longrightarrow> usage (AddUsage c i a) d \<le> limit_for l d"
    using fit [of d] by (simp add: sum)
qed

subsection \<open>What a list of holders charges\<close>

definition charged :: "('i admission_identity \<times> nat) list \<Rightarrow> 'i dimension \<Rightarrow> nat" where
  "charged hs d = sum_list (map (\<lambda>h. if charges (fst h) d then snd h else 0) hs)"

lemma charged_simps [simp]:
  "charged [] d = 0"
  "charged ((i, n) # hs) d = (if charges i d then n else 0) + charged hs d"
  "charged (xs @ ys) d = charged xs d + charged ys d"
  by (simp_all add: charged_def)

definition ticket_holders :: "('i admission_ticket \<Rightarrow> bool) \<Rightarrow> 'i admission_ticket list \<Rightarrow> ('i admission_identity \<times> nat) list" where
  "ticket_holders P ts = map (\<lambda>t. (tk_identity t, 1)) (filter P ts)"

lemma ticket_holders_simps [simp]:
  "ticket_holders P [] = []"
  "ticket_holders P (t # ts) = (if P t then (tk_identity t, 1) # ticket_holders P ts else ticket_holders P ts)"
  "ticket_holders P (ts @ us) = ticket_holders P ts @ ticket_holders P us"
  by (simp_all add: ticket_holders_def)

lemma charged_pos_mem: "t \<in> set ts \<Longrightarrow> P t \<Longrightarrow> charges (tk_identity t) d \<Longrightarrow> 1 \<le> charged (ticket_holders P ts) d"
  by (induction ts) auto

subsection \<open>The granting loop\<close>

text \<open>
  Everything a client needs of one pass: the tickets are partitioned in order, the resource is
  charged exactly for the granted ones and stays within its limits, each queue is discharged
  for exactly those, and a ticket that stays is of another resource, expired, or does not fit.
\<close>

definition same_ticket :: "'i admission_ticket \<Rightarrow> 'i admission_ticket \<Rightarrow> bool" where
  "same_ticket t u \<longleftrightarrow> tk_ref t = tk_ref u \<and> tk_identity t = tk_identity u \<and>
     tk_resource t = tk_resource u \<and> tk_wait t = tk_wait u"

abbreviation queued :: "queue_kind \<Rightarrow> 'i admission_ticket list \<Rightarrow> 'i dimension \<Rightarrow> nat" where
  "queued k ts \<equiv> charged (ticket_holders (\<lambda>t. tk_queue t = k) ts)"

abbreviation charged_tickets :: "'i admission_ticket list \<Rightarrow> 'i dimension \<Rightarrow> nat" where
  "charged_tickets ts \<equiv> charged (ticket_holders (\<lambda>_. True) ts)"

definition grant_effect where
  "grant_effect l ts c q kept granted c' q' \<longleftrightarrow>
     counters_wf c' \<and> (\<forall>k. counters_wf (q' k)) \<and>
     (\<forall>d. usage c' d = usage c d + charged_tickets granted d) \<and> (\<forall>d. usage c' d \<le> limit_for l d) \<and>
     (\<forall>k d. usage (q' k) d + queued k granted d = usage (q k) d) \<and>
     (\<forall>k d. queued k kept d + queued k granted d = queued k ts d)"

lemma grant_effectD:
  assumes "grant_effect l ts c q kept granted c' q'"
  shows "counters_wf c'" and "counters_wf (q' k)" and "usage c' d = usage c d + charged_tickets granted d"
    and "usage c' d \<le> limit_for l d" and "usage (q' k) d + queued k granted d = usage (q k) d"
    and "queued k kept d + queued k granted d = queued k ts d"
  using assms unfolding grant_effect_def by blast+

lemma grant_loop_counts:
  assumes "grant_loop r now l ts c q = (kept, granted, c', q')" and "counters_wf c" and "\<And>k. counters_wf (q k)"
    and "\<And>k d. queued k ts d \<le> usage (q k) d" and "\<And>d. usage c d \<le> limit_for l d"
  shows "grant_effect l ts c q kept granted c' q'"
  using assms
proof (induction r now l ts c q arbitrary: kept granted c' q' rule: grant_loop.induct)
  case (1 r now l c q)
  then show ?case by (simp add: grant_effect_def)
next
  case (2 r now l t ts c q)
  let ?skip = "tk_resource t \<noteq> r \<or> TicketExpired t now"
  let ?blocking = "CheckFits c (tk_identity t) 1 l"
  have tl: "queued k ts d \<le> usage (q k) d" for k d
    using 2(7) [of k d] by (auto split: if_splits)
  show ?case
  proof (cases "?skip \<or> ob_scope ?blocking \<noteq> NO_SCOPE")
    case True
    then obtain kept1 t' where g: "grant_loop r now l ts c q = (kept1, granted, c', q')"
      and k: "kept = t' # kept1" "tk_queue t' = tk_queue t" "tk_identity t' = tk_identity t"
      using 2(4) by (auto simp: Let_def split: if_splits prod.splits)
    have "grant_effect l ts c q kept1 granted c' q'"
      using 2(1) [OF _ g 2(5,6) tl 2(8)] 2(2) [OF _ refl _ g 2(5,6) tl 2(8)] True by blast
    then show ?thesis unfolding grant_effect_def k(1) by (simp add: k(2,3)) metis
  next
    case False
    let ?i = "tk_identity t"
    let ?c1 = "AddUsage c ?i 1" and ?q1 = "q(tk_queue t := SubtractUsage (q (tk_queue t)) ?i 1)"
    obtain granted1 where g: "grant_loop r now l ts ?c1 ?q1 = (kept, granted1, c', q')"
      and k: "granted = t\<lparr>tk_granted_at := now, tk_granted := True\<rparr> # granted1"
      using False 2(4) by (auto simp: Let_def split: prod.splits)
    have c1: "usage ?c1 d = usage c d + (if charges ?i d then 1 else 0)" "usage ?c1 d \<le> limit_for l d" for d
      using usage_AddUsage_fits [of c ?i 1 l d] False 2(8) by simp_all
    have "1 \<le> usage (q (tk_queue t)) d" if "charges ?i d" for d
      using 2(7) [of "tk_queue t" d] that by simp
    then have q1: "usage (?q1 k) d = usage (q k) d - (if k = tk_queue t \<and> charges ?i d then 1 else 0)" for k d
      using usage_SubtractUsage [OF 2(6), of ?i 1] by simp
    have tl1: "queued k ts d \<le> usage (?q1 k) d" for k d
      unfolding q1 using 2(7) [of k d] by (auto split: if_splits)
    have wf1: "counters_wf (?q1 k)" for k using 2(6) by simp
    have ih: "grant_effect l ts ?c1 ?q1 kept granted1 c' q'"
      by (rule 2(3) [OF _ refl _ g _ wf1 tl1 c1(2)]) (use False 2(5) in simp_all)
    have q2: "usage (q k) d = usage (?q1 k) d + (if k = tk_queue t \<and> charges ?i d then 1 else 0)" for k d
      unfolding q1 using 2(7) [of k d] by (auto split: if_splits)
    have g5: "usage (q' k) d + queued k granted d = usage (q k) d" for k d
    proof -
      have "queued k granted d = queued k granted1 d + (if k = tk_queue t \<and> charges ?i d then 1 else 0)"
        unfolding \<open>granted = _\<close> by auto
      then show ?thesis using grant_effectD(5) [OF ih, of k d] q2 [of k d] by linarith
    qed
    have g6: "queued k kept d + queued k granted d = queued k (t # ts) d" for k d
      using grant_effectD(6) [OF ih, of k d] unfolding k by simp
    have g3: "usage c' d = usage c d + charged_tickets granted d" for d
      using grant_effectD(3) [OF ih, of d] c1(1) [of d] unfolding k by simp
    show ?thesis unfolding grant_effect_def
      using grant_effectD(1,2,4) [OF ih] g3 g5 g6 by blast
  qed
qed

lemma grant_loop_partition:
  "grant_loop r now l ts c q = (kept, granted, c', q') \<Longrightarrow>
   mset (map tk_ref ts) = mset (map tk_ref kept) + mset (map tk_ref granted) \<and>
   (\<forall>t\<in>set granted. tk_resource t = r)"
proof (induction r now l ts c q arbitrary: kept granted c' q' rule: grant_loop.induct)
  case (2 r now l t ts c q)
  show ?case
  proof (cases "(tk_resource t \<noteq> r \<or> TicketExpired t now) \<or> ob_scope (CheckFits c (tk_identity t) 1 l) \<noteq> NO_SCOPE")
    case True
    then obtain kept1 t' where g: "grant_loop r now l ts c q = (kept1, granted, c', q')"
      and k: "kept = t' # kept1" "tk_ref t' = tk_ref t"
      using 2(4) by (auto simp: Let_def tk_ref_def split: if_splits prod.splits)
    have "mset (map tk_ref ts) = mset (map tk_ref kept1) + mset (map tk_ref granted) \<and>
      (\<forall>t\<in>set granted. tk_resource t = r)"
      using 2(1) [OF _ g] 2(2) [OF _ refl _ g] True by blast
    then show ?thesis unfolding k(1) by (simp add: k(2))
  next
    case False
    then obtain granted1 where
      g: "grant_loop r now l ts (AddUsage c (tk_identity t) 1)
        (q(tk_queue t := SubtractUsage (q (tk_queue t)) (tk_identity t) 1)) = (kept, granted1, c', q')"
      and k: "granted = t\<lparr>tk_granted_at := now, tk_granted := True\<rparr> # granted1"
      using 2(4) by (auto simp: Let_def split: prod.splits)
    show ?thesis using 2(3) [OF _ refl _ g] False unfolding k by (simp add: tk_ref_def)
  qed
qed simp

lemma fits_antimono:
  assumes "\<And>d. usage c d \<le> usage c' d" and "ob_scope (CheckFits c' i a l) = NO_SCOPE"
  shows "ob_scope (CheckFits c i a l) = NO_SCOPE"
  using assms unfolding CheckFits_iff by (meson add_le_mono1 order_trans)

lemma grant_loop_maximal:
  assumes "grant_loop r now l ts c q = (kept, granted, c', q')" and "counters_wf c" and "\<And>k. counters_wf (q k)"
    and "\<And>k d. queued k ts d \<le> usage (q k) d" and "\<And>d. usage c d \<le> limit_for l d"
    and "u \<in> set kept" and "tk_resource u = r" and "\<not> TicketExpired u now"
  shows "ob_scope (CheckFits c' (tk_identity u) 1 l) \<noteq> NO_SCOPE"
  using assms
proof (induction r now l ts c q arbitrary: kept granted c' q' rule: grant_loop.induct)
  case (2 r now l t ts c q)
  let ?blocking = "CheckFits c (tk_identity t) 1 l"
  have tl: "queued k ts d \<le> usage (q k) d" for k d
    using 2(7) [of k d] by (auto split: if_splits)
  have mono: "usage c d \<le> usage c' d" for d
    using grant_loop_counts [OF 2(4-8)] by (simp add: grant_effect_def)
  show ?case
  proof (cases "(tk_resource t \<noteq> r \<or> TicketExpired t now) \<or> ob_scope ?blocking \<noteq> NO_SCOPE")
    case True
    then obtain kept1 t' where g: "grant_loop r now l ts c q = (kept1, granted, c', q')"
      and k: "kept = t' # kept1" "tk_identity t' = tk_identity t" "tk_resource t' = tk_resource t"
        "tk_wait t' = tk_wait t"
      using 2(4) by (auto simp: Let_def split: if_splits prod.splits)
    show ?thesis
    proof (cases "u = t'")
      case same: True
      then have "ob_scope ?blocking \<noteq> NO_SCOPE" using True 2(10,11) k by (auto simp: TicketExpired_def)
      then show ?thesis using fits_antimono [of c c', OF mono] same k by auto
    next
      case False
      then have "u \<in> set kept1" using 2(9) k by simp
      then show ?thesis
        using 2(1) [OF _ g 2(5,6) tl 2(8)] 2(2) [OF _ refl _ g 2(5,6) tl 2(8)] True 2(10,11) by blast
    qed
  next
    case False
    let ?i = "tk_identity t"
    let ?c1 = "AddUsage c ?i 1" and ?q1 = "q(tk_queue t := SubtractUsage (q (tk_queue t)) ?i 1)"
    obtain granted1 where g: "grant_loop r now l ts ?c1 ?q1 = (kept, granted1, c', q')"
      using False 2(4) by (auto simp: Let_def split: prod.splits)
    have "1 \<le> usage (q (tk_queue t)) d" if "charges ?i d" for d
      using 2(7) [of "tk_queue t" d] that by simp
    then have q1: "usage (?q1 k) d = usage (q k) d - (if k = tk_queue t \<and> charges ?i d then 1 else 0)" for k d
      using usage_SubtractUsage [OF 2(6), of ?i 1] by simp
    have tl1: "queued k ts d \<le> usage (?q1 k) d" for k d
      unfolding q1 using 2(7) [of k d] by (auto split: if_splits)
    have c1: "usage ?c1 d \<le> limit_for l d" for d
      using usage_AddUsage_fits(2) [of c ?i 1 l d] False 2(8) by simp
    show ?thesis
      using 2(3) [OF _ refl _ g _ _ tl1 c1 2(9-11)] False 2(5,6) by simp
  qed
qed simp

subsection \<open>The invariant of the shared state\<close>

definition permit_holders :: "resource_kind \<Rightarrow> 'i admission_permit list \<Rightarrow> ('i admission_identity \<times> nat) list" where
  "permit_holders r ps = map (\<lambda>p. (pm_identity p, unat (pm_amount p))) (filter (\<lambda>p. pm_resource p = r) ps)"

lemma permit_holders_simps [simp]:
  "permit_holders r [] = []"
  "permit_holders r (p # ps) =
     (if pm_resource p = r then (pm_identity p, unat (pm_amount p)) # permit_holders r ps else permit_holders r ps)"
  by (simp_all add: permit_holders_def)

definition held ::
  "'i admission_shared \<Rightarrow> 'i admission_permit list \<Rightarrow> resource_kind \<Rightarrow> 'i dimension \<Rightarrow> nat" where
  "held s ps r d = charged (permit_holders r ps) d + charged (ticket_holders (\<lambda>t. tk_resource t = r) (sh_granted s)) d"

definition accounted :: "'i admission_shared \<Rightarrow> 'i admission_permit list \<Rightarrow> bool" where
  "accounted s ps \<longleftrightarrow>
     (\<forall>r. counters_wf (sh_resources s r)) \<and> (\<forall>k. counters_wf (sh_queues s k)) \<and>
     (\<forall>r d. usage (sh_resources s r) d = held s ps r d) \<and>
     (\<forall>r d. usage (sh_resources s r) d \<le> limit_for (ResourceLimits (sh_profile s) r) d) \<and>
     (\<forall>k d. usage (sh_queues s k) d = queued k (sh_tickets s) d) \<and>
     (\<forall>k d. usage (sh_queues s k) d \<le> limit_for (QueueLimits (sh_profile s) k) d)"

definition refs :: "'i admission_shared \<Rightarrow> ticket_ref list" where
  "refs s = map tk_ref (sh_tickets s @ sh_granted s)"

lemma ticket_holders_all: "\<forall>t\<in>set ts. P t \<Longrightarrow> ticket_holders P ts = ticket_holders (\<lambda>_. True) ts"
  by (induction ts) auto

lemma ticket_holders_none: "\<forall>t\<in>set ts. \<not> P t \<Longrightarrow> ticket_holders P ts = []"
  by (induction ts) auto

lemma accountedD:
  assumes "accounted s ps"
  shows "counters_wf (sh_resources s r)" and "counters_wf (sh_queues s k)"
    and "usage (sh_resources s r) d = held s ps r d"
    and "usage (sh_resources s r) d \<le> limit_for (ResourceLimits (sh_profile s) r) d"
    and "usage (sh_queues s k) d = queued k (sh_tickets s) d"
    and "usage (sh_queues s k) d \<le> limit_for (QueueLimits (sh_profile s) k) d"
  using assms unfolding accounted_def by blast+

lemma GrantEligibleLocked_inv:
  assumes "accounted s ps"
  shows "accounted (GrantEligibleLocked r now s) ps \<and> mset (refs (GrantEligibleLocked r now s)) = mset (refs s) \<and>
    sh_next_ticket (GrantEligibleLocked r now s) = sh_next_ticket s \<and>
    sh_profile (GrantEligibleLocked r now s) = sh_profile s \<and>
    sh_terminal_reason (GrantEligibleLocked r now s) = sh_terminal_reason s"
proof (cases "sh_terminal_reason s = NO_REASON")
  case True
  let ?l = "ResourceLimits (sh_profile s) r"
  obtain kept granted c q where g: "grant_loop r now ?l (sh_tickets s) (sh_resources s r) (sh_queues s)
      = (kept, granted, c, q)" by (metis prod_cases4)
  let ?s' = "s\<lparr>sh_tickets := kept, sh_granted := sh_granted s @ granted,
    sh_resources := (sh_resources s)(r := c), sh_queues := q\<rparr>"
  have s': "GrantEligibleLocked r now s = ?s'" using True g by (simp add: GrantEligibleLocked_def)
  note a = accountedD [OF assms]
  have e: "grant_effect ?l (sh_tickets s) (sh_resources s r) (sh_queues s) kept granted c q"
    by (rule grant_loop_counts [OF g]) (use a in simp_all)
  have p: "mset (map tk_ref (sh_tickets s)) = mset (map tk_ref kept) + mset (map tk_ref granted)"
    "\<forall>t\<in>set granted. tk_resource t = r" using grant_loop_partition [OF g] by simp_all
  have held': "held ?s' ps r' d = held s ps r' d + (if r' = r then charged_tickets granted d else 0)" for r' d
  proof (cases "r' = r")
    case True
    then show ?thesis using ticket_holders_all [of granted "\<lambda>t. tk_resource t = r"] p(2) by (simp add: held_def)
  next
    case False
    then show ?thesis using ticket_holders_none [of granted "\<lambda>t. tk_resource t = r'"] p(2) by (simp add: held_def)
  qed
  note e = grant_effectD [OF e]
  have "usage (q k) d = queued k kept d" for k d
    using e(5,6) [of k d] a(5) [of k d] by linarith
  moreover have "usage (q k) d \<le> limit_for (QueueLimits (sh_profile s) k) d" for k d
    using e(5) [of k d] a(6) [of k d] by linarith
  moreover have "usage (((sh_resources s)(r := c)) r') d = held ?s' ps r' d" for r' d
    unfolding held' using e(3) [of d] a(3) [of r' d] a(3) [of r d] by simp
  moreover have "usage (((sh_resources s)(r := c)) r') d \<le> limit_for (ResourceLimits (sh_profile s) r') d" for r' d
    using e(4) [of d] a(4) [of r' d] by simp
  ultimately have "accounted ?s' ps"
    using e(1,2) a(1) unfolding accounted_def by simp
  then show ?thesis using p(1) by (simp add: s' refs_def)
qed (use assms in \<open>simp add: GrantEligibleLocked_def\<close>)

subsection \<open>Each operation keeps the accounts\<close>

lemma accounted_resource:
  assumes "accounted s ps"
    and "sh_resources s' = (sh_resources s)(r := c)" "sh_queues s' = sh_queues s" "sh_tickets s' = sh_tickets s"
      "sh_profile s' = sh_profile s"
    and "counters_wf c" and "\<And>d. usage c d = held s' ps' r d"
    and "\<And>d. usage c d \<le> limit_for (ResourceLimits (sh_profile s) r) d"
    and "\<And>r' d. r' \<noteq> r \<Longrightarrow> held s' ps' r' d = held s ps r' d"
  shows "accounted s' ps'"
proof -
  note a = accountedD [OF assms(1)]
  have "usage (sh_resources s' r') d = held s' ps' r' d" for r' d
    using assms(7,9) a(3) [of r' d] by (simp add: assms(2))
  moreover have "usage (sh_resources s' r') d \<le> limit_for (ResourceLimits (sh_profile s') r') d" for r' d
    using assms(8) [of d] a(4) [of r' d] by (simp add: assms(2,5))
  moreover have "counters_wf (sh_resources s' r')" for r' using a(1) assms(6) by (simp add: assms(2))
  ultimately show ?thesis unfolding accounted_def using a(2,5,6) by (simp add: assms(3,4,5))
qed

lemma accounted_queue:
  assumes "accounted s ps"
    and "sh_queues s' = (sh_queues s)(k := c)" "sh_resources s' = sh_resources s" "sh_granted s' = sh_granted s"
      "sh_profile s' = sh_profile s"
    and "counters_wf c" and "\<And>d. usage c d = queued k (sh_tickets s') d"
    and "\<And>d. usage c d \<le> limit_for (QueueLimits (sh_profile s) k) d"
    and "\<And>k' d. k' \<noteq> k \<Longrightarrow> queued k' (sh_tickets s') d = queued k' (sh_tickets s) d"
  shows "accounted s' ps"
proof -
  note a = accountedD [OF assms(1)]
  have "usage (sh_queues s' k') d = queued k' (sh_tickets s') d" for k' d
    using assms(7,9) a(5) [of k' d] by (simp add: assms(2))
  moreover have "usage (sh_queues s' k') d \<le> limit_for (QueueLimits (sh_profile s') k') d" for k' d
    using assms(8) [of d] a(6) [of k' d] by (simp add: assms(2,5))
  moreover have "counters_wf (sh_queues s' k')" for k' using a(2) assms(6) by (simp add: assms(2))
  moreover have "held s' ps r d = held s ps r d" for r d by (simp add: held_def assms(4))
  ultimately show ?thesis unfolding accounted_def using a(1,3,4) by (simp add: assms(3,5))
qed

lemma accounted_same_held:
  assumes "accounted s ps" and "\<And>r d. held s ps' r d = held s ps r d"
  shows "accounted s ps'"
  unfolding accounted_def assms(2) using accountedD [OF assms(1)] by blast

lemma accounted_terminal: "accounted (s\<lparr>sh_terminal_reason := x\<rparr>) ps = accounted s ps"
  by (simp add: accounted_def held_def)

lemma accounted_permit_added:
  assumes "accounted s ps" and "ob_scope (CheckFits (sh_resources s r) i a (ResourceLimits (sh_profile s) r)) = NO_SCOPE"
  shows "accounted (s\<lparr>sh_resources := (sh_resources s)(r := AddUsage (sh_resources s r) i a)\<rparr>)
    (\<lparr>pm_resource = r, pm_identity = i, pm_amount = a\<rparr> # ps)"
proof (rule accounted_resource [OF assms(1), where r = r])
  note a = accountedD [OF assms(1)]
  note f = usage_AddUsage_fits [OF assms(2)]
  show "counters_wf (AddUsage (sh_resources s r) i a)" using a(1) by simp
  show "usage (AddUsage (sh_resources s r) i a) d \<le> limit_for (ResourceLimits (sh_profile s) r) d" for d
    by (rule f(2) [OF a(4)])
qed (use usage_AddUsage_fits(1) [OF assms(2)] accountedD(3) [OF assms(1)] in \<open>simp_all add: held_def\<close>)

lemma charged_permit_removed:
  "p \<in> set ps \<Longrightarrow> charged (permit_holders r ps) d = charged (permit_holders r (remove1 p ps)) d
     + (if pm_resource p = r \<and> charges (pm_identity p) d then unat (pm_amount p) else 0)"
  by (induction ps) auto

lemma held_permit:
  assumes "accounted s ps" and "p \<in> set ps" and "charges (pm_identity p) d"
  shows "unat (pm_amount p) \<le> usage (sh_resources s (pm_resource p)) d"
  using charged_permit_removed [OF assms(2), of "pm_resource p" d] accountedD(3) [OF assms(1)] assms(3)
  by (simp add: held_def)

lemma accounted_permit_shrunk:
  assumes "accounted s ps" and "p \<in> set ps" and "unat a \<le> unat (pm_amount p)"
    and rest: "\<And>r d. charged (permit_holders r ps') d + (if pm_resource p = r \<and> charges (pm_identity p) d then unat a else 0)
      = charged (permit_holders r ps) d"
  shows "accounted (s\<lparr>sh_resources := (sh_resources s)(pm_resource p :=
    SubtractUsage (sh_resources s (pm_resource p)) (pm_identity p) a)\<rparr>) ps'"
proof (rule accounted_resource [OF assms(1), where r = "pm_resource p"])
  note a = accountedD [OF assms(1)]
  let ?c = "sh_resources s (pm_resource p)"
  have u: "usage (SubtractUsage ?c (pm_identity p) a) d
      = usage ?c d - (if charges (pm_identity p) d then unat a else 0)" for d
    by (rule usage_SubtractUsage [OF a(1)]) (use held_permit [OF assms(1,2)] assms(3) in \<open>meson order_trans\<close>)
  show "usage (SubtractUsage ?c (pm_identity p) a) d
      = held (s\<lparr>sh_resources := (sh_resources s)(pm_resource p := SubtractUsage ?c (pm_identity p) a)\<rparr>) ps' (pm_resource p) d" for d
    unfolding u a(3) held_def using rest [of "pm_resource p" d] by auto
  show "usage (SubtractUsage ?c (pm_identity p) a) d \<le> limit_for (ResourceLimits (sh_profile s) (pm_resource p)) d" for d
    unfolding u using a(4) [of "pm_resource p" d] by linarith
  show "counters_wf (SubtractUsage ?c (pm_identity p) a)" using a(1) by simp
  show "held (s\<lparr>sh_resources := (sh_resources s)(pm_resource p := SubtractUsage ?c (pm_identity p) a)\<rparr>) ps' r' d
      = held s ps r' d" if "r' \<noteq> pm_resource p" for r' d
    using rest [of r' d] that by (simp add: held_def)
qed simp_all

lemma grant_unless_inv:
  assumes "accounted s ps"
  shows "accounted (grant_unless_clock_fails r now s) ps \<and>
    mset (refs (grant_unless_clock_fails r now s)) = mset (refs s) \<and>
    sh_next_ticket (grant_unless_clock_fails r now s) = sh_next_ticket s"
  using assms GrantEligibleLocked_inv [OF assms] by (simp add: grant_unless_clock_fails_def split: option.splits)

lemma ReleasePermit_inv:
  assumes "accounted s ps" and "p \<in> set ps"
  shows "accounted (ReleasePermit p now s) (remove1 p ps) \<and> mset (refs (ReleasePermit p now s)) = mset (refs s) \<and>
    sh_next_ticket (ReleasePermit p now s) = sh_next_ticket s"
proof -
  have "accounted (s\<lparr>sh_resources := (sh_resources s)(pm_resource p :=
      SubtractUsage (sh_resources s (pm_resource p)) (pm_identity p) (pm_amount p))\<rparr>) (remove1 p ps)"
    by (rule accounted_permit_shrunk [OF assms order_refl]) (simp add: charged_permit_removed [OF assms(2)])
  from grant_unless_inv [OF this] show ?thesis by (simp add: ReleasePermit_def refs_def)
qed

lemma find_ticket_Some: "find_ticket r ts = Some t \<Longrightarrow> t \<in> set ts \<and> tk_ref t = r"
  by (auto simp: find_ticket_def find_Some_iff)

lemma drop_ticket_absent: "r \<notin> set (map tk_ref ts) \<Longrightarrow> drop_ticket r ts = ts"
  by (induction ts) (auto simp: drop_ticket_def)

lemma charged_dropped:
  "distinct (map tk_ref ts) \<Longrightarrow> find_ticket r ts = Some t \<Longrightarrow>
   charged (ticket_holders P ts) d = charged (ticket_holders P (drop_ticket r ts)) d
     + (if P t \<and> charges (tk_identity t) d then 1 else 0)"
proof (induction ts)
  case (Cons u ts)
  show ?case
  proof (cases "tk_ref u = r")
    case True
    then have "u = t" "drop_ticket r (u # ts) = ts"
      using Cons(2,3) drop_ticket_absent [of r ts] by (auto simp: find_ticket_def drop_ticket_def)
    then show ?thesis by simp
  next
    case False
    then have "find_ticket r ts = Some t" "drop_ticket r (u # ts) = u # drop_ticket r ts"
      using Cons(3) by (simp_all add: find_ticket_def drop_ticket_def)
    then show ?thesis using Cons(1,2) by simp
  qed
qed (simp add: find_ticket_def)

lemma mset_dropped:
  "distinct (map tk_ref ts) \<Longrightarrow> find_ticket r ts = Some t \<Longrightarrow>
   mset (map tk_ref (drop_ticket r ts)) = mset (map tk_ref ts) - {#r#}"
proof (induction ts)
  case (Cons u ts)
  then show ?case
  proof (cases "tk_ref u = r")
    case True
    then show ?thesis
      using Cons(2) drop_ticket_absent [of r ts] by (simp add: drop_ticket_def)
  next
    case False
    then have "find_ticket r ts = Some t" "drop_ticket r (u # ts) = u # drop_ticket r ts"
      using Cons(3) by (simp_all add: find_ticket_def drop_ticket_def)
    then show ?thesis using Cons(1,2) False by simp
  qed
qed (simp add: find_ticket_def)

lemma RemoveTicketLocked_inv:
  assumes "accounted s ps" and "distinct (refs s)" and "find_ticket r (sh_tickets s) = Some t"
  shows "accounted (RemoveTicketLocked r s) ps \<and> mset (refs (RemoveTicketLocked r s)) = mset (refs s) - {#r#} \<and>
    sh_next_ticket (RemoveTicketLocked r s) = sh_next_ticket s"
proof -
  note a = accountedD [OF assms(1)]
  let ?k = "tk_queue t" and ?i = "tk_identity t"
  let ?c = "SubtractUsage (sh_queues s ?k) ?i 1"
  let ?s' = "s\<lparr>sh_queues := (sh_queues s)(?k := ?c), sh_tickets := drop_ticket r (sh_tickets s)\<rparr>"
  have s': "RemoveTicketLocked r s = ?s'" using assms(3) by (simp add: RemoveTicketLocked_def)
  have dist: "distinct (map tk_ref (sh_tickets s))" using assms(2) by (simp add: refs_def)
  note dr = charged_dropped [OF dist assms(3)]
  have u: "usage ?c d = usage (sh_queues s ?k) d - (if charges ?i d then unat (1::u64) else 0)" for d
  proof (rule usage_SubtractUsage [OF a(2)])
    show "unat (1::u64) \<le> usage (sh_queues s ?k) d" if "charges ?i d" for d
      unfolding a(5) using dr [of "\<lambda>t. tk_queue t = ?k" d] that by simp
  qed
  have "accounted ?s' ps"
  proof (rule accounted_queue [OF assms(1), where k = ?k])
    show "usage ?c d = queued ?k (sh_tickets ?s') d" for d
      unfolding u a(5) using dr [of "\<lambda>t. tk_queue t = ?k" d] by simp
    show "usage ?c d \<le> limit_for (QueueLimits (sh_profile s) ?k) d" for d
      unfolding u using a(6) [of ?k d] by linarith
    show "queued k' (sh_tickets ?s') d = queued k' (sh_tickets s) d" if "k' \<noteq> ?k" for k' d
      using dr [of "\<lambda>t. tk_queue t = k'" d] that by auto
  qed (use a(2) in simp_all)
  moreover have "mset (refs ?s') = mset (refs s) - {#r#}"
    using mset_dropped [OF dist assms(3)] find_ticket_Some [OF assms(3)] by (auto simp: refs_def)
  ultimately show ?thesis by (simp add: s')
qed

lemma take_granted_inv:
  assumes "accounted s ps" and "distinct (refs s)" and "find_ticket r (sh_granted s) = Some t"
  shows "accounted (s\<lparr>sh_granted := drop_ticket r (sh_granted s)\<rparr>)
      (\<lparr>pm_resource = tk_resource t, pm_identity = tk_identity t, pm_amount = 1\<rparr> # ps)"
    and "mset (refs (s\<lparr>sh_granted := drop_ticket r (sh_granted s)\<rparr>)) = mset (refs s) - {#r#}"
proof -
  have dist: "distinct (map tk_ref (sh_granted s))" using assms(2) by (simp add: refs_def)
  let ?p = "\<lparr>pm_resource = tk_resource t, pm_identity = tk_identity t, pm_amount = 1\<rparr>"
  let ?s' = "s\<lparr>sh_granted := drop_ticket r (sh_granted s)\<rparr>"
  have "held ?s' (?p # ps) r' d = held s ps r' d" for r' d
    using charged_dropped [OF dist assms(3), of "\<lambda>t. tk_resource t = r'" d] by (auto simp: held_def)
  then show "accounted ?s' (?p # ps)" unfolding accounted_def using accountedD [OF assms(1)] by simp
  show "mset (refs ?s') = mset (refs s) - {#r#}"
    using mset_dropped [OF dist assms(3)] find_ticket_Some [OF assms(3)] by (auto simp: refs_def)
qed

lemma unwind_granted_inv:
  assumes "accounted s ps" and "distinct (refs s)" and "find_ticket r (sh_granted s) = Some t"
  shows "accounted (s\<lparr>sh_resources := (sh_resources s)(tk_resource t :=
      SubtractUsage (sh_resources s (tk_resource t)) (tk_identity t) 1),
    sh_granted := drop_ticket r (sh_granted s)\<rparr>) ps"
    (is "accounted ?s' ps")
proof -
  let ?p = "\<lparr>pm_resource = tk_resource t, pm_identity = tk_identity t, pm_amount = 1\<rparr>"
  let ?s1 = "s\<lparr>sh_granted := drop_ticket r (sh_granted s)\<rparr>"
  have "accounted (?s1\<lparr>sh_resources := (sh_resources ?s1)(pm_resource ?p :=
      SubtractUsage (sh_resources ?s1 (pm_resource ?p)) (pm_identity ?p) 1)\<rparr>) ps"
    by (rule accounted_permit_shrunk [OF take_granted_inv(1) [OF assms]]) simp_all
  moreover have "?s1\<lparr>sh_resources := (sh_resources ?s1)(pm_resource ?p :=
      SubtractUsage (sh_resources ?s1 (pm_resource ?p)) (pm_identity ?p) 1)\<rparr> = ?s'" by simp
  ultimately show ?thesis by metis
qed

text \<open>How a critical section of an acquisition leaves the accounts and the tickets.\<close>

definition settled where
  "settled s ps out s' \<longleftrightarrow>
     (case out of
        AcqGranted p _ \<Rightarrow>
          accounted s' (p # ps) \<and> mset (refs s') = mset (refs s) \<and> sh_next_ticket s' = sh_next_ticket s
      | AcqQueued r \<Rightarrow>
          accounted s' ps \<and> mset (refs s') = add_mset r (mset (refs s)) \<and>
          snd r = sh_next_ticket s (fst r) \<and> snd r \<noteq> uint64_max \<and>
          sh_next_ticket s' = (sh_next_ticket s)(fst r := snd r + 1)
      | _ \<Rightarrow> accounted s' ps \<and> mset (refs s') = mset (refs s) \<and> sh_next_ticket s' = sh_next_ticket s)"

lemma enqueue_accounted:
  assumes "accounted s ps" and "ob_scope (CheckFits (sh_queues s k) (tk_identity t) 1 (QueueLimits (sh_profile s) k)) = NO_SCOPE"
    and "tk_queue t = k"
  shows "accounted (s\<lparr>sh_next_ticket := nt, sh_queues := (sh_queues s)(k := AddUsage (sh_queues s k) (tk_identity t) 1),
    sh_tickets := sh_tickets s @ [t]\<rparr>) ps"
proof (rule accounted_queue [OF assms(1), where k = k])
  note f = usage_AddUsage_fits [OF assms(2)]
  show "usage (AddUsage (sh_queues s k) (tk_identity t) 1) d \<le> limit_for (QueueLimits (sh_profile s) k) d" for d
    by (rule f(2) [OF accountedD(6) [OF assms(1)]])
qed (use usage_AddUsage_fits(1) [OF assms(2)] accountedD(2,5) [OF assms(1)] assms(3) in simp_all)

lemma AcquireQueued_settled:
  assumes "accounted s ps"
  shows "settled s ps (fst (AcquireQueued r k i wait cancelled evaluated started now s))
    (snd (AcquireQueued r k i wait cancelled evaluated started now s))"
proof -
  let ?blocking = "CheckFits (sh_resources s r) i 1 (ResourceLimits (sh_profile s) r)"
  let ?qb = "CheckFits (sh_queues s k) i 1 (QueueLimits (sh_profile s) k)"
  let ?early = "(r \<noteq> CREDENTIAL_RESOLUTION \<and> \<not> ai_complete i \<or> wp_queue_deadline_milliseconds wait < 0) \<or>
    sh_terminal_reason s \<noteq> NO_REASON \<or> cancelled \<or>
    wp_has_scan_deadline wait \<and> evaluated \<ge> wp_scan_deadline_milliseconds wait \<or>
    wp_has_aggregate_deadline wait \<and> evaluated \<ge> wp_aggregate_deadline_milliseconds wait \<or>
    evaluated \<ge> wp_queue_deadline_milliseconds wait \<or>
    ob_scope ?blocking \<noteq> NO_SCOPE \<and> ob_limit ?blocking < ob_requested ?blocking"
  let ?free = "ob_scope ?blocking = NO_SCOPE \<and> \<not> (\<exists>t\<in>set (sh_tickets s). tk_resource t = r)"
  consider (early) ?early | (free) "\<not> ?early" ?free | (full) "\<not> ?early" "\<not> ?free" "ob_scope ?qb \<noteq> NO_SCOPE"
    | (exhausted) "\<not> ?early" "\<not> ?free" "ob_scope ?qb = NO_SCOPE" "sh_next_ticket s k = uint64_max"
    | (queue) "\<not> ?early" "\<not> ?free" "ob_scope ?qb = NO_SCOPE" "sh_next_ticket s k \<noteq> uint64_max" by blast
  then show ?thesis
  proof cases
    case early
    then show ?thesis using assms by (auto simp: AcquireQueued_def settled_def Let_def)
  next
    case free
    then have "AcquireQueued r k i wait cancelled evaluated started now s =
      (AcqGranted \<lparr>pm_resource = r, pm_identity = i, pm_amount = 1\<rparr> EmptyObservation,
       s\<lparr>sh_resources := (sh_resources s)(r := AddUsage (sh_resources s r) i 1)\<rparr>)"
      by (simp add: AcquireQueued_def Let_def)
    then show ?thesis
      using accounted_permit_added [OF assms, of r i 1] free by (simp add: settled_def refs_def)
  next
    case full
    then show ?thesis using assms by (auto simp: AcquireQueued_def settled_def Let_def)
  next
    case exhausted
    then have "AcquireQueued r k i wait cancelled evaluated started now s =
      (AcqReturned REJECTED (EmptyObservation\<lparr>ob_reason := ADMISSION_TICKET_EXHAUSTED\<rparr>),
       s\<lparr>sh_terminal_reason := ADMISSION_TICKET_EXHAUSTED\<rparr>)"
      by (auto simp: AcquireQueued_def Let_def)
    then show ?thesis
      using assms by (simp add: settled_def refs_def accounted_terminal)
  next
    case queue
    let ?t = "\<lparr>tk_resource = r, tk_queue = k, tk_identity = i, tk_ordinal = sh_next_ticket s k, tk_wait = wait,
      tk_started = started, tk_granted_at = started, tk_granted = False, tk_last_blocking = ?blocking\<rparr>"
    let ?s1 = "s\<lparr>sh_next_ticket := (sh_next_ticket s)(k := sh_next_ticket s k + 1),
      sh_queues := (sh_queues s)(k := AddUsage (sh_queues s k) i 1), sh_tickets := sh_tickets s @ [?t]\<rparr>"
    have eq: "AcquireQueued r k i wait cancelled evaluated started now s =
      (AcqQueued (tk_ref ?t), grant_unless_clock_fails r now ?s1)"
      using queue by (simp add: AcquireQueued_def Let_def)
    have "accounted ?s1 ps" using enqueue_accounted [OF assms, of k ?t] queue(3) by simp
    from grant_unless_inv [OF this, of r now] show ?thesis
      unfolding eq using queue(4) by (simp add: settled_def refs_def tk_ref_def)
  qed
qed

lemma AcquireImmediate_settled:
  assumes "accounted s ps"
  shows "settled s ps (fst (AcquireImmediate r i a reason s)) (snd (AcquireImmediate r i a reason s))"
  using assms accounted_permit_added [OF assms, of r i a]
  by (auto simp: AcquireImmediate_def settled_def Let_def refs_def)

lemma AcquireQueued_turn_inv:
  assumes "accounted s ps" and "distinct (refs s)" and "r \<in> set (refs s)"
  shows "sh_next_ticket (snd (AcquireQueued_turn r cancelled now grant_now s)) = sh_next_ticket s \<and>
    (case fst (AcquireQueued_turn r cancelled now grant_now s) of
       AcqGranted p _ \<Rightarrow> accounted (snd (AcquireQueued_turn r cancelled now grant_now s)) (p # ps) \<and>
         mset (refs (snd (AcquireQueued_turn r cancelled now grant_now s))) = mset (refs s) - {#r#}
     | AcqReturned _ _ \<Rightarrow> accounted (snd (AcquireQueued_turn r cancelled now grant_now s)) ps \<and>
         mset (refs (snd (AcquireQueued_turn r cancelled now grant_now s))) = mset (refs s) - {#r#}
     | AcqInvalid \<Rightarrow> False
     | AcqQueued _ \<Rightarrow> False
     | _ \<Rightarrow> accounted (snd (AcquireQueued_turn r cancelled now grant_now s)) ps \<and>
         mset (refs (snd (AcquireQueued_turn r cancelled now grant_now s))) = mset (refs s))"
proof (cases "find_ticket r (sh_granted s)")
  case (Some t)
  then show ?thesis using take_granted_inv [OF assms(1,2) Some] by (simp add: AcquireQueued_turn_def)
next
  case None
  then have "r \<in> set (map tk_ref (sh_tickets s))"
    using assms(3) by (auto simp: refs_def find_ticket_def find_None_iff)
  then obtain t where t: "find_ticket r (sh_tickets s) = Some t"
    by (cases "find_ticket r (sh_tickets s)") (auto simp: find_ticket_def find_None_iff)
  show ?thesis
    using None t RemoveTicketLocked_inv [OF assms(1,2) t]
      GrantEligibleLocked_inv [OF assms(1), of "tk_resource t" grant_now]
    by (simp add: AcquireQueued_turn_def Let_def)
qed

lemma AcquireQueued_unwind_inv:
  assumes "accounted s ps" and "distinct (refs s)" and "r \<in> set (refs s)"
  shows "accounted (AcquireQueued_unwind r now s) ps \<and>
    mset (refs (AcquireQueued_unwind r now s)) = mset (refs s) - {#r#} \<and>
    sh_next_ticket (AcquireQueued_unwind r now s) = sh_next_ticket s"
proof (cases "find_ticket r (sh_granted s)")
  case (Some t)
  then show ?thesis
    using grant_unless_inv [OF unwind_granted_inv [OF assms(1,2) Some], of "tk_resource t" now]
      take_granted_inv(2) [OF assms(1,2) Some]
    by (simp add: AcquireQueued_unwind_def refs_def)
next
  case None
  then have "r \<in> set (map tk_ref (sh_tickets s))"
    using assms(3) by (auto simp: refs_def find_ticket_def find_None_iff)
  then obtain t where t: "find_ticket r (sh_tickets s) = Some t"
    by (cases "find_ticket r (sh_tickets s)") (auto simp: find_ticket_def find_None_iff)
  then show ?thesis
    using None RemoveTicketLocked_inv [OF assms(1,2) t] grant_unless_inv [of "RemoveTicketLocked r s" ps]
    by (simp add: AcquireQueued_unwind_def)
qed

lemma ResizeBufferedBytes_inv:
  assumes "accounted s ps" and "p \<in> set ps" and "ResizeBufferedBytes p bytes s = (Inr (status, ob, p'), s')"
  shows "accounted s' (p' # remove1 p ps) \<and> mset (refs s') = mset (refs s) \<and> sh_next_ticket s' = sh_next_ticket s"
proof -
  have same: "accounted s (p # remove1 p ps)"
    using accountedD [OF assms(1)] charged_permit_removed [OF assms(2)]
    by (simp add: accounted_def held_def add.commute)
  have r: "pm_resource p = BUFFERED_BYTES"
    using assms(3) by (simp add: ResizeBufferedBytes_def split: if_splits)
  let ?c = "sh_resources s BUFFERED_BYTES"
  let ?fits = "ob_scope (CheckFits ?c (pm_identity p) (bytes - pm_amount p)
    (ResourceLimits (sh_profile s) BUFFERED_BYTES)) = NO_SCOPE"
  consider (keep) "s' = s" "p' = p"
    | (shrink) "bytes < pm_amount p" "p' = p\<lparr>pm_amount := bytes\<rparr>"
        "s' = s\<lparr>sh_resources := (sh_resources s)(pm_resource p :=
          SubtractUsage (sh_resources s (pm_resource p)) (pm_identity p) (pm_amount p - bytes))\<rparr>"
    | (grow) "pm_amount p < bytes" "p' = p\<lparr>pm_amount := bytes\<rparr>" ?fits
        "s' = s\<lparr>sh_resources := (sh_resources s)(BUFFERED_BYTES :=
          AddUsage ?c (pm_identity p) (bytes - pm_amount p))\<rparr>"
  proof (cases "bytes = pm_amount p")
    case True
    then show thesis using assms(3) r that(1) by (auto simp: ResizeBufferedBytes_def split: if_splits)
  next
    case ne: False
    show thesis
    proof (cases "bytes < pm_amount p")
      case True
      then show thesis using assms(3) r ne that(2) by (auto simp: ResizeBufferedBytes_def split: if_splits)
    next
      case False
      with ne have lt: "pm_amount p < bytes" by (simp add: not_less order_le_less)
      show thesis
      proof (cases "sh_terminal_reason s = NO_REASON \<and> ?fits")
        case True
        then show thesis
          using assms(3) r ne False lt that(3) by (auto simp: ResizeBufferedBytes_def Let_def split: if_splits)
      next
        case c: False
        then show thesis
          using assms(3) r ne False that(1) by (auto simp: ResizeBufferedBytes_def Let_def split: if_splits)
      qed
    qed
  qed
  then show ?thesis
  proof cases
    case keep
    then show ?thesis using same by simp
  next
    case shrink
    have le: "unat bytes \<le> unat (pm_amount p)" using shrink(1) by (simp add: word_less_nat_alt)
    then have d: "unat (pm_amount p - bytes) = unat (pm_amount p) - unat bytes"
      by (simp add: unat_sub word_le_nat_alt)
    have "accounted s' (p' # remove1 p ps)"
      unfolding shrink(3)
      by (rule accounted_permit_shrunk [OF assms(1,2)])
        (use shrink(2) le in \<open>simp_all add: d charged_permit_removed [OF assms(2)]\<close>)
    then show ?thesis by (simp add: shrink(3) refs_def)
  next
    case grow
    let ?q = "\<lparr>pm_resource = BUFFERED_BYTES, pm_identity = pm_identity p, pm_amount = bytes - pm_amount p\<rparr>"
    have "accounted s' (?q # ps)" unfolding grow(4) by (rule accounted_permit_added [OF assms(1) grow(3)])
    moreover have "unat bytes = unat (bytes - pm_amount p) + unat (pm_amount p)"
      using grow(1) by (simp add: unat_sub word_le_nat_alt word_less_nat_alt)
    then have "held s' (p' # remove1 p ps) r d = held s' (?q # ps) r d" for r d
      using grow(2) r charged_permit_removed [OF assms(2), of r d] by (auto simp: held_def)
    ultimately have "accounted s' (p' # remove1 p ps)" by (rule accounted_same_held)
    then show ?thesis by (simp add: grow(4) refs_def)
  qed
qed

subsection \<open>The controller and its callers interleaved\<close>

record 'i admission_system =
  ad_shared :: "'i admission_shared"
  ad_waiting :: "ticket_ref list"
  ad_permits :: "'i admission_permit list"

fun absorb :: "'i acquire_outcome \<Rightarrow> 'i admission_system \<Rightarrow> 'i admission_system" where
  "absorb (AcqGranted p ob) y = y\<lparr>ad_permits := p # ad_permits y\<rparr>"
| "absorb (AcqQueued r) y = y\<lparr>ad_waiting := r # ad_waiting y\<rparr>"
| "absorb _ y = y"

fun leaves :: "'i acquire_outcome \<Rightarrow> bool" where
  "leaves (AcqGranted p ob) = True"
| "leaves (AcqReturned status ob) = True"
| "leaves _ = False"

inductive admission_step :: "'i admission_system \<Rightarrow> 'i admission_system \<Rightarrow> bool" where
  credential: "AcquireCredentialResolution i wait cancelled evaluated started now (ad_shared y) = (out, s') \<Longrightarrow>
    admission_step y (absorb out (y\<lparr>ad_shared := s'\<rparr>))"
| scan: "AcquireScan i wait cancelled evaluated started now (ad_shared y) = (out, s') \<Longrightarrow>
    admission_step y (absorb out (y\<lparr>ad_shared := s'\<rparr>))"
| request: "AcquireRequest i wait cancelled evaluated started now (ad_shared y) = (out, s') \<Longrightarrow>
    admission_step y (absorb out (y\<lparr>ad_shared := s'\<rparr>))"
| retry_waiter: "AcquireRetryWaiter i (ad_shared y) = (out, s') \<Longrightarrow>
    admission_step y (absorb out (y\<lparr>ad_shared := s'\<rparr>))"
| rate_limit_waiter: "AcquireRateLimitWaiter i (ad_shared y) = (out, s') \<Longrightarrow>
    admission_step y (absorb out (y\<lparr>ad_shared := s'\<rparr>))"
| buffered_bytes: "ReserveBufferedBytes i bytes (ad_shared y) = (out, s') \<Longrightarrow>
    admission_step y (absorb out (y\<lparr>ad_shared := s'\<rparr>))"
| buffered_rows: "ReserveBufferedRows i rows (ad_shared y) = (out, s') \<Longrightarrow>
    admission_step y (absorb out (y\<lparr>ad_shared := s'\<rparr>))"
| turn: "r \<in> set (ad_waiting y) \<Longrightarrow> AcquireQueued_turn r cancelled now grant_now (ad_shared y) = (out, s') \<Longrightarrow>
    admission_step y (absorb out (y\<lparr>ad_shared := s',
      ad_waiting := (if leaves out then remove1 r (ad_waiting y) else ad_waiting y)\<rparr>))"
| unwind: "r \<in> set (ad_waiting y) \<Longrightarrow>
    admission_step y (y\<lparr>ad_shared := AcquireQueued_unwind r now (ad_shared y),
      ad_waiting := remove1 r (ad_waiting y)\<rparr>)"
| resize: "p \<in> set (ad_permits y) \<Longrightarrow> ResizeBufferedBytes p bytes (ad_shared y) = (Inr (status, ob, p'), s') \<Longrightarrow>
    admission_step y (y\<lparr>ad_shared := s', ad_permits := p' # remove1 p (ad_permits y)\<rparr>)"
| release: "p \<in> set (ad_permits y) \<Longrightarrow>
    admission_step y (y\<lparr>ad_shared := ReleasePermit p now (ad_shared y), ad_permits := remove1 p (ad_permits y)\<rparr>)"
| close_admission: "admission_step y (y\<lparr>ad_shared := CloseAdmission (ad_shared y)\<rparr>)"

definition admission_init :: "'i admission_system \<Rightarrow> bool" where
  "admission_init y \<longleftrightarrow> (\<exists>profile initial. AdmissionController profile initial = Inr (ad_shared y)) \<and>
     ad_waiting y = [] \<and> ad_permits y = []"

definition admission_inv :: "'i admission_system \<Rightarrow> bool" where
  "admission_inv y \<longleftrightarrow> accounted (ad_shared y) (ad_permits y) \<and> distinct (refs (ad_shared y)) \<and>
     (\<forall>r\<in>set (refs (ad_shared y)). snd r < sh_next_ticket (ad_shared y) (fst r)) \<and>
     mset (ad_waiting y) = mset (refs (ad_shared y))"

lemma admission_init_inv: "admission_init y \<Longrightarrow> admission_inv y"
proof -
  assume init: "admission_init y"
  then obtain profile initial where "AdmissionController profile initial = Inr (ad_shared y)"
    by (auto simp: admission_init_def)
  then have "ad_shared y = \<lparr>sh_terminal_reason = NO_REASON, sh_next_ticket = (\<lambda>_. initial), sh_profile = profile,
      sh_resources = (\<lambda>_. no_usage), sh_queues = (\<lambda>_. no_usage), sh_tickets = [], sh_granted = []\<rparr>"
    by (auto simp: AdmissionController_def split: if_splits)
  then show ?thesis
    using init by (simp add: admission_init_def admission_inv_def accounted_def refs_def held_def)
qed

lemma refs_of_mset:
  assumes "mset (refs s') = mset (refs s)"
  shows "distinct (refs s') = distinct (refs s)" and "set (refs s') = set (refs s)"
  using mset_eq_imp_distinct_iff [OF assms] mset_eq_setD [OF assms] by simp_all

lemma refs_removed:
  assumes "mset (refs s') = mset (refs s) - {#r#}" and "distinct (refs s)"
  shows "distinct (refs s')" and "set (refs s') \<subseteq> set (refs s)"
proof -
  have "mset (refs s') = mset (remove1 r (refs s))" using assms(1) by simp
  from mset_eq_imp_distinct_iff [OF this] mset_eq_setD [OF this] show "distinct (refs s')"
    and "set (refs s') \<subseteq> set (refs s)" using assms(2) set_remove1_subset by fastforce+
qed

lemma ticket_succ_less: "(n::u64) \<noteq> uint64_max \<Longrightarrow> n < n + 1"
proof -
  assume "n \<noteq> uint64_max"
  then have "n < uint64_max" by (metis order_le_less unat_u64_le_max)
  from succ_below(1) [OF this] show ?thesis by (simp add: word_less_nat_alt)
qed

lemma settled_inv:
  assumes "admission_inv y" and "settled (ad_shared y) (ad_permits y) out s'"
  shows "admission_inv (absorb out (y\<lparr>ad_shared := s'\<rparr>))"
proof (cases "\<exists>r. out = AcqQueued r")
  case True
  then obtain r where r: "out = AcqQueued r" by blast
  let ?s = "ad_shared y"
  have st: "mset (refs s') = mset (r # refs ?s)" "snd r = sh_next_ticket ?s (fst r)" "snd r \<noteq> uint64_max"
    "sh_next_ticket s' = (sh_next_ticket ?s)(fst r := snd r + 1)" "accounted s' (ad_permits y)"
    using assms(2) unfolding r settled_def by auto
  have y: "distinct (refs ?s)" "\<forall>x\<in>set (refs ?s). snd x < sh_next_ticket ?s (fst x)"
    "mset (ad_waiting y) = mset (refs ?s)" using assms(1) by (simp_all add: admission_inv_def)
  have "r \<notin> set (refs ?s)" using y(2) st(2) by auto
  moreover have "snd x < sh_next_ticket s' (fst x)" if "x \<in> set (r # refs ?s)" for x
    using that y(2) st(2,4) ticket_succ_less [OF st(3)] order.strict_trans
    by (cases "x = r") (fastforce simp del: set_ConsD)+
  ultimately show ?thesis
    using st y mset_eq_imp_distinct_iff [OF st(1)] mset_eq_setD [OF st(1)] by (simp add: r admission_inv_def)
next
  case False
  then have "mset (refs s') = mset (refs (ad_shared y))" "sh_next_ticket s' = sh_next_ticket (ad_shared y)"
    using assms(2) by (auto simp: settled_def split: acquire_outcome.splits)
  then show ?thesis
    using assms False refs_of_mset [of s' "ad_shared y"]
    by (cases out) (simp_all add: admission_inv_def settled_def)
qed

lemma inv_removed:
  assumes "admission_inv y" and "mset (refs s') = mset (refs (ad_shared y)) - {#r#}"
    and "sh_next_ticket s' = sh_next_ticket (ad_shared y)" and "accounted s' ps"
  shows "admission_inv (y\<lparr>ad_shared := s', ad_waiting := remove1 r (ad_waiting y), ad_permits := ps\<rparr>)"
  using assms refs_removed [OF assms(2)] by (auto simp: admission_inv_def)

lemma inv_same_refs:
  assumes "admission_inv y" and "mset (refs s') = mset (refs (ad_shared y))"
    and "sh_next_ticket s' = sh_next_ticket (ad_shared y)" and "accounted s' ps"
  shows "admission_inv (y\<lparr>ad_shared := s', ad_permits := ps\<rparr>)"
  using assms refs_of_mset [OF assms(2)] by (simp add: admission_inv_def)

lemma acquisitions_settled:
  assumes "admission_inv y"
  shows "AcquireCredentialResolution i wait cancelled evaluated started now (ad_shared y) = (out, s') \<Longrightarrow>
      settled (ad_shared y) (ad_permits y) out s'"
    and "AcquireScan i wait cancelled evaluated started now (ad_shared y) = (out, s') \<Longrightarrow>
      settled (ad_shared y) (ad_permits y) out s'"
    and "AcquireRequest i wait cancelled evaluated started now (ad_shared y) = (out, s') \<Longrightarrow>
      settled (ad_shared y) (ad_permits y) out s'"
    and "AcquireImmediate r i a reason (ad_shared y) = (out, s') \<Longrightarrow>
      settled (ad_shared y) (ad_permits y) out s'"
proof -
  have a: "accounted (ad_shared y) (ad_permits y)" using assms by (simp add: admission_inv_def)
  note q = AcquireQueued_settled [OF a, of _ _ i wait cancelled evaluated started now]
  show "AcquireCredentialResolution i wait cancelled evaluated started now (ad_shared y) = (out, s') \<Longrightarrow>
      settled (ad_shared y) (ad_permits y) out s'"
  proof (cases "ai_complete i")
    case True
    then show "AcquireCredentialResolution i wait cancelled evaluated started now (ad_shared y) = (out, s') \<Longrightarrow>
        settled (ad_shared y) (ad_permits y) out s'"
      using a by (auto simp: AcquireCredentialResolution_def settled_def)
  next
    case False
    then show "AcquireCredentialResolution i wait cancelled evaluated started now (ad_shared y) = (out, s') \<Longrightarrow>
        settled (ad_shared y) (ad_permits y) out s'"
      using q [of CREDENTIAL_RESOLUTION CREDENTIAL_QUEUE] by (simp add: AcquireCredentialResolution_def)
  qed
  show "AcquireScan i wait cancelled evaluated started now (ad_shared y) = (out, s') \<Longrightarrow>
      settled (ad_shared y) (ad_permits y) out s'"
    using q [of ACTIVE_SCAN SCAN_QUEUE] by (simp add: AcquireScan_def)
  show "AcquireRequest i wait cancelled evaluated started now (ad_shared y) = (out, s') \<Longrightarrow>
      settled (ad_shared y) (ad_permits y) out s'"
    using q [of REQUEST REQUEST_QUEUE] by (simp add: AcquireRequest_def)
  show "AcquireImmediate r i a reason (ad_shared y) = (out, s') \<Longrightarrow>
      settled (ad_shared y) (ad_permits y) out s'"
    using AcquireImmediate_settled [OF a, of r i a reason] by simp
qed

lemmas immediate_defs = AcquireRetryWaiter_def AcquireRateLimitWaiter_def ReserveBufferedBytes_def ReserveBufferedRows_def

lemma admission_step_inv: "admission_step y z \<Longrightarrow> admission_inv y \<Longrightarrow> admission_inv z"
proof (induction rule: admission_step.induct)
  case (turn r y cancelled now grant_now out s')
  have y: "accounted (ad_shared y) (ad_permits y)" "distinct (refs (ad_shared y))" "r \<in> set (refs (ad_shared y))"
    using turn mset_eq_setD [of "ad_waiting y" "refs (ad_shared y)"] by (auto simp: admission_inv_def)
  note t = AcquireQueued_turn_inv [OF y, of cancelled now grant_now]
  show ?case
  proof (cases out)
    case (AcqGranted p ob)
    then show ?thesis using t turn(2) inv_removed [OF turn(3), of s' r "p # ad_permits y"] by simp
  next
    case (AcqReturned status ob)
    then show ?thesis using t turn(2) inv_removed [OF turn(3), of s' r "ad_permits y"] by simp
  qed (use t turn(2) inv_same_refs [OF turn(3), of s' "ad_permits y"] in simp_all)
next
  case (unwind r y now)
  have y: "accounted (ad_shared y) (ad_permits y)" "distinct (refs (ad_shared y))" "r \<in> set (refs (ad_shared y))"
    using unwind mset_eq_setD [of "ad_waiting y" "refs (ad_shared y)"] by (auto simp: admission_inv_def)
  show ?case using AcquireQueued_unwind_inv [OF y, of now]
      inv_removed [OF unwind(2), of "AcquireQueued_unwind r now (ad_shared y)" r "ad_permits y"] by simp
next
  case (resize p y bytes status ob p' s')
  have a: "accounted (ad_shared y) (ad_permits y)" using resize(3) by (simp add: admission_inv_def)
  show ?case
    by (rule inv_same_refs [OF resize(3)]) (simp_all add: ResizeBufferedBytes_inv [OF a resize(1,2)])
next
  case (release p y now)
  have a: "accounted (ad_shared y) (ad_permits y)" using release(2) by (simp add: admission_inv_def)
  show ?case
    by (rule inv_same_refs [OF release(2)]) (simp_all add: ReleasePermit_inv [OF a release(1)])
next
  case (close_admission y)
  have "accounted (ad_shared y) (ad_permits y)" using close_admission by (simp add: admission_inv_def)
  then have "accounted (CloseAdmission (ad_shared y)) (ad_permits y)"
    by (simp add: CloseAdmission_def accounted_terminal)
  then show ?case
    using inv_same_refs [OF close_admission, of "CloseAdmission (ad_shared y)" "ad_permits y"]
    by (simp add: CloseAdmission_def refs_def split: if_splits)
next
  case (credential i wait cancelled evaluated started now y out s')
  then show ?case by (simp add: settled_inv acquisitions_settled(1))
next
  case (scan i wait cancelled evaluated started now y out s')
  then show ?case by (simp add: settled_inv acquisitions_settled(2))
next
  case (request i wait cancelled evaluated started now y out s')
  then show ?case by (simp add: settled_inv acquisitions_settled(3))
qed (simp_all add: immediate_defs settled_inv acquisitions_settled(4))

interpretation admission: invariant_system admission_init admission_step admission_inv
  by unfold_locales (auto intro: admission_init_inv admission_step_inv)

lemma run_admission_inv: "admission_init y0 \<Longrightarrow> admission_step\<^sup>*\<^sup>* y0 y \<Longrightarrow> admission_inv y"
  by (rule admission.run_invar [OF admission_init_inv])

subsection \<open>Properties\<close>

text \<open>
  C19. Capacity is never exceeded and never mislaid: in every interleaving of acquisitions, wait turns,
  exceptions, resizes, releases and closing, for every resource and every dimension (global,
  connector, destination, principal, bulkhead) the counter is exactly the total held by the live
  permits and the granted tickets, and that total is within the profile's limit.
\<close>
theorem admission_within_limits:
  assumes "admission_init y0" and "admission_step\<^sup>*\<^sup>* y0 y"
  shows "usage (sh_resources (ad_shared y) r) d = held (ad_shared y) (ad_permits y) r d \<and>
    held (ad_shared y) (ad_permits y) r d \<le> limit_for (ResourceLimits (sh_profile (ad_shared y)) r) d"
proof -
  have a: "accounted (ad_shared y) (ad_permits y)" using run_admission_inv [OF assms] by (simp add: admission_inv_def)
  show ?thesis using accountedD(3,4) [OF a, of r d] by simp
qed

text \<open>
  Queues are bounded and exact: every waiting caller has exactly one ticket, every queue
  counter is the number of its tickets in every dimension, and it is within the queue's limit.
\<close>
lemma admission_queues_bounded:
  assumes "admission_init y0" and "admission_step\<^sup>*\<^sup>* y0 y"
  shows "mset (ad_waiting y) = mset (map tk_ref (sh_tickets (ad_shared y) @ sh_granted (ad_shared y))) \<and>
    distinct (ad_waiting y) \<and>
    usage (sh_queues (ad_shared y) k) d = queued k (sh_tickets (ad_shared y)) d \<and>
    queued k (sh_tickets (ad_shared y)) d \<le> limit_for (QueueLimits (sh_profile (ad_shared y)) k) d"
proof -
  have inv: "admission_inv y" by (rule run_admission_inv [OF assms])
  then have a: "accounted (ad_shared y) (ad_permits y)" by (simp add: admission_inv_def)
  have m: "mset (ad_waiting y) = mset (refs (ad_shared y))" "distinct (refs (ad_shared y))"
    using inv by (simp_all add: admission_inv_def)
  then have "distinct (ad_waiting y)" using mset_eq_imp_distinct_iff by blast
  then show ?thesis using m accountedD(5,6) [OF a, of k d] by (simp add: refs_def)
qed

text \<open>
  C20. No capacity is left idle: after a granting pass over an open controller, every ticket of
  the resource that stays in the vector has expired or does not fit any more; a blocked ticket
  never holds up one behind it that fits.
\<close>
theorem granting_is_maximal:
  assumes "admission_init y0" and "admission_step\<^sup>*\<^sup>* y0 y" and "sh_terminal_reason (ad_shared y) = NO_REASON"
    and "t \<in> set (sh_tickets (GrantEligibleLocked r now (ad_shared y)))" and "tk_resource t = r"
    and "\<not> TicketExpired t now"
  shows "ob_scope (CheckFits (sh_resources (GrantEligibleLocked r now (ad_shared y)) r) (tk_identity t) 1
    (ResourceLimits (sh_profile (ad_shared y)) r)) \<noteq> NO_SCOPE"
proof -
  let ?s = "ad_shared y"
  have a: "accounted ?s (ad_permits y)" using run_admission_inv [OF assms(1,2)] by (simp add: admission_inv_def)
  obtain kept granted c q where g: "grant_loop r now (ResourceLimits (sh_profile ?s) r) (sh_tickets ?s)
      (sh_resources ?s r) (sh_queues ?s) = (kept, granted, c, q)" by (metis prod_cases4)
  have "t \<in> set kept" using assms(3,4) g by (simp add: GrantEligibleLocked_def)
  from grant_loop_maximal [OF g accountedD(1,2) [OF a] _ accountedD(4) [OF a] this assms(5,6)]
  have "ob_scope (CheckFits c (tk_identity t) 1 (ResourceLimits (sh_profile ?s) r)) \<noteq> NO_SCOPE"
    by (simp add: accountedD(5) [OF a])
  then show ?thesis using assms(3) g by (simp add: GrantEligibleLocked_def)
qed

text \<open>
  Nothing leaks: once every caller has left and every permit is released, all resource and queue
  counters of the usage snapshot are zero, whatever happened before, exceptions included.
\<close>
lemma admission_drains:
  assumes "admission_init y0" and "admission_step\<^sup>*\<^sup>* y0 y" and "ad_permits y = []" and "ad_waiting y = []"
  shows "AdmissionUsage (ad_shared y) = (\<lambda>_. 0, \<lambda>_. 0)"
proof -
  have inv: "admission_inv y" by (rule run_admission_inv [OF assms(1,2)])
  then have a: "accounted (ad_shared y) []" and "refs (ad_shared y) = []"
    using assms(3,4) by (simp_all add: admission_inv_def)
  then have "sh_tickets (ad_shared y) = []" "sh_granted (ad_shared y) = []" by (simp_all add: refs_def)
  then have "usage (sh_resources (ad_shared y) r) Global = 0" "usage (sh_queues (ad_shared y) k) Global = 0" for r k
    using accountedD(3) [OF a, of r Global] accountedD(5) [OF a, of k Global] by (simp_all add: held_def)
  then show ?thesis by (simp add: AdmissionUsage_def fun_eq_iff unat_eq_0)
qed

text \<open>
  A closed controller admits nothing: after \<open>CloseAdmission\<close> no acquisition yields a permit or
  a ticket, a granting pass changes nothing, and a caller still waiting in the vector is rejected with the
  terminal reason at its next turn, its ticket removed.
\<close>
lemma closed_admits_nothing:
  assumes "find_ticket ref (sh_granted s) = None" and "find_ticket ref (sh_tickets s) = Some t"
  shows "GrantEligibleLocked r now (CloseAdmission s) = CloseAdmission s \<and>
    (\<forall>k i wait. snd (AcquireQueued r k i wait cancelled evaluated started now' (CloseAdmission s)) = CloseAdmission s \<and>
       (\<exists>ob. fst (AcquireQueued r k i wait cancelled evaluated started now' (CloseAdmission s))
          \<in> {AcqInvalid, AcqReturned REJECTED ob})) \<and>
    (\<forall>i a reason. snd (AcquireImmediate r i a reason (CloseAdmission s)) = CloseAdmission s) \<and>
    (\<exists>ob. AcquireQueued_turn ref cancelled now grant_now (CloseAdmission s)
       = (AcqReturned REJECTED ob, RemoveTicketLocked ref (CloseAdmission s)) \<and>
       ob_reason ob = sh_terminal_reason (CloseAdmission s))"
proof -
  have "sh_terminal_reason (CloseAdmission s) \<noteq> NO_REASON" by (simp add: CloseAdmission_def)
  moreover have "find_ticket ref (sh_granted (CloseAdmission s)) = None"
    "find_ticket ref (sh_tickets (CloseAdmission s)) = Some t" using assms by (simp_all add: CloseAdmission_def)
  ultimately show ?thesis
    by (auto simp: GrantEligibleLocked_def AcquireQueued_def AcquireImmediate_def AcquireQueued_turn_def Let_def)
qed

subsection \<open>Witnesses\<close>

text \<open>A profile with room for one scan; one caller holds it, a second one waits.\<close>

definition demo_profile :: admission_profile where
  "demo_profile = AdmissionHard\<lparr>ap_active_scans := dims 1 1 1 1 1\<rparr>"

definition demo_identity :: "unit admission_identity" where
  "demo_identity = \<lparr>ai_connector_id = ''c'', ai_destination = \<lparr>dk_scheme = ''https'', dk_host = ''h'', dk_explicit_port = 443\<rparr>,
     ai_complete = True, ai_relation_id = ''r'', ai_protocol = REST_PROTOCOL, ai_operation_id = ''o'',
     ai_principal = OpaquePrincipal ()\<rparr>"

definition demo_wait :: wait_policy where
  "demo_wait = \<lparr>wp_queue_deadline_milliseconds = 100, wp_has_aggregate_deadline = False,
     wp_aggregate_deadline_milliseconds = 0, wp_has_scan_deadline = False, wp_scan_deadline_milliseconds = 0\<rparr>"

definition demo_empty :: "unit admission_system" where
  "demo_empty = \<lparr>ad_shared = \<lparr>sh_terminal_reason = NO_REASON, sh_next_ticket = (\<lambda>_. 1), sh_profile = demo_profile,
     sh_resources = (\<lambda>_. no_usage), sh_queues = (\<lambda>_. no_usage), sh_tickets = [], sh_granted = []\<rparr>,
     ad_waiting = [], ad_permits = []\<rparr>"

definition demo_scan :: "unit admission_system \<Rightarrow> unit admission_system" where
  "demo_scan y = (let r = AcquireScan demo_identity demo_wait False 1 1 (Some 1) (ad_shared y) in
     absorb (fst r) (y\<lparr>ad_shared := snd r\<rparr>))"

definition demo_one :: "unit admission_system" where
  "demo_one = demo_scan demo_empty"

definition demo_two :: "unit admission_system" where
  "demo_two = demo_scan demo_one"

definition demo_permit :: "unit admission_permit" where
  "demo_permit = \<lparr>pm_resource = ACTIVE_SCAN, pm_identity = demo_identity, pm_amount = 1\<rparr>"

lemma demo_admission_init: "admission_init demo_empty"
proof -
  have "ValidateAdmissionProfile demo_profile = Inr ()" by code_simp
  then have "AdmissionController demo_profile 1 = Inr (ad_shared demo_empty)"
    by (simp add: AdmissionController_def demo_empty_def)
  then show ?thesis by (auto simp: admission_init_def demo_empty_def)
qed

lemma demo_scan_step: "admission_step y (demo_scan y)"
  unfolding demo_scan_def Let_def
  by (rule scan [where i = demo_identity and wait = demo_wait and cancelled = False and evaluated = 1
        and started = 1 and now = "Some 1"]) simp

lemma demo_run_one: "admission_step\<^sup>*\<^sup>* demo_empty demo_one"
  unfolding demo_one_def using demo_scan_step [of demo_empty] by (rule r_into_rtranclp)

lemma demo_run_two: "admission_step\<^sup>*\<^sup>* demo_empty demo_two"
  unfolding demo_two_def by (rule rtranclp.rtrancl_into_rtrancl [OF demo_run_one demo_scan_step])

theorem admission_within_limits_witness:
  "held (ad_shared demo_two) (ad_permits demo_two) ACTIVE_SCAN Global
     \<le> limit_for (ResourceLimits (sh_profile (ad_shared demo_two)) ACTIVE_SCAN) (Global :: unit dimension) \<and>
   ad_permits demo_two = [demo_permit]"
proof -
  have "ad_permits demo_two = [demo_permit]" by code_simp
  with admission_within_limits [OF demo_admission_init demo_run_two, of ACTIVE_SCAN Global] show ?thesis by blast
qed

theorem granting_is_maximal_witness:
  "ob_scope (CheckFits (sh_resources (GrantEligibleLocked ACTIVE_SCAN 5 (ad_shared demo_two)) ACTIVE_SCAN)
     demo_identity 1 (ResourceLimits demo_profile ACTIVE_SCAN)) \<noteq> NO_SCOPE"
proof -
  let ?t = "hd (sh_tickets (GrantEligibleLocked ACTIVE_SCAN 5 (ad_shared demo_two)))"
  have "sh_terminal_reason (ad_shared demo_two) = NO_REASON" by code_simp
  moreover have "?t \<in> set (sh_tickets (GrantEligibleLocked ACTIVE_SCAN 5 (ad_shared demo_two)))" by code_simp
  moreover have "tk_resource ?t = ACTIVE_SCAN" "\<not> TicketExpired ?t 5" by code_simp+
  ultimately have "ob_scope (CheckFits (sh_resources (GrantEligibleLocked ACTIVE_SCAN 5 (ad_shared demo_two)) ACTIVE_SCAN)
     (tk_identity ?t) 1 (ResourceLimits (sh_profile (ad_shared demo_two)) ACTIVE_SCAN)) \<noteq> NO_SCOPE"
    by (rule granting_is_maximal [OF demo_admission_init demo_run_two])
  moreover have "tk_identity ?t = demo_identity" "sh_profile (ad_shared demo_two) = demo_profile" by code_simp+
  ultimately show ?thesis by simp
qed

end
