(* ===== verification/Uri_Reference.thy ===== *)
theory Uri_Reference
  imports Prelude
begin

text \<open>
  The RFC 3986 validator that pagination applies to link targets,
  \<open>src/src/runtime/pagination/uri_reference.cpp\<close>. A range \<open>[begin, end)\<close> of the source string is the
  list of its bytes; \<open>find\<close> at a delimiter is the split of the list there. The validator is
  shown to accept exactly the strings composed of a scheme, hierarchical part, query and fragment, and to
  let through URI characters only; that these parts are those of RFC 3986 is the subject of
  \<open>Uri_Conformance\<close>.
\<close>

subsection \<open>Characters\<close>

definition IsAsciiAlpha :: "char \<Rightarrow> bool" where
  "IsAsciiAlpha c \<longleftrightarrow> in_range CHR ''a'' CHR ''z'' c \<or> in_range CHR ''A'' CHR ''Z'' c"

definition IsAsciiDigit :: "char \<Rightarrow> bool" where
  "IsAsciiDigit c \<longleftrightarrow> in_range CHR ''0'' CHR ''9'' c"

definition IsHexDigit :: "char \<Rightarrow> bool" where
  "IsHexDigit c \<longleftrightarrow> IsAsciiDigit c \<or> in_range CHR ''a'' CHR ''f'' c \<or> in_range CHR ''A'' CHR ''F'' c"

definition IsUnreserved :: "char \<Rightarrow> bool" where
  "IsUnreserved c \<longleftrightarrow> IsAsciiAlpha c \<or> IsAsciiDigit c \<or> c \<in> set ''-._~''"

definition IsSubDelimiter :: "char \<Rightarrow> bool" where
  "IsSubDelimiter c \<longleftrightarrow> c \<in> set (CHR 0x27 # ''!$&()*+,;='')"

datatype component_kind = PCHAR | QUERY_OR_FRAGMENT | USER_INFO | REG_NAME

definition IsPlainComponentCharacter :: "char \<Rightarrow> component_kind \<Rightarrow> bool" where
  "IsPlainComponentCharacter c kind \<longleftrightarrow>
     IsUnreserved c \<or> IsSubDelimiter c \<or>
     (case kind of
        PCHAR \<Rightarrow> c = CHR '':'' \<or> c = CHR ''@''
      | QUERY_OR_FRAGMENT \<Rightarrow> c = CHR '':'' \<or> c = CHR ''@'' \<or> c = CHR ''/'' \<or> c = CHR ''?''
      | USER_INFO \<Rightarrow> c = CHR '':''
      | REG_NAME \<Rightarrow> False)"

subsection \<open>Components\<close>

fun ValidateComponent :: "component_kind \<Rightarrow> string \<Rightarrow> bool" where
  "ValidateComponent kind [] \<longleftrightarrow> True"
| "ValidateComponent kind (c # cs) \<longleftrightarrow>
     (if c = CHR ''%'' then
        (case cs of
           h # l # rest \<Rightarrow> IsHexDigit h \<and> IsHexDigit l \<and> ValidateComponent kind rest
         | _ \<Rightarrow> False)
      else IsPlainComponentCharacter c kind \<and> ValidateComponent kind cs)"

text \<open>The pieces of a string between the occurrences of a delimiter, as the \<open>find\<close> loops visit them.\<close>

fun split_on :: "char \<Rightarrow> string \<Rightarrow> string list" where
  "split_on d [] = [[]]"
| "split_on d (c # cs) =
     (if c = d then [] # split_on d cs
      else case split_on d cs of p # ps \<Rightarrow> (c # p) # ps | [] \<Rightarrow> [[c]])"

fun decimal_value :: "string \<Rightarrow> u32 \<Rightarrow> u32 option" where
  "decimal_value [] result = Some result"
| "decimal_value (c # cs) result =
     (if \<not> IsAsciiDigit c then None
      else decimal_value cs (result * 10 + of_nat (byte c - byte CHR ''0'')))"

definition ValidateDecimalOctet :: "string \<Rightarrow> bool" where
  "ValidateDecimalOctet v \<longleftrightarrow>
     \<not> (v = [] \<or> length v > 3 \<or> length v > 1 \<and> hd v = CHR ''0'') \<and>
     (case decimal_value v 0 of None \<Rightarrow> False | Some result \<Rightarrow> result \<le> 255)"

definition ValidateIpv4Address :: "string \<Rightarrow> bool" where
  "ValidateIpv4Address v \<longleftrightarrow>
     list_all ValidateDecimalOctet (split_on CHR ''.'' v) \<and> length (split_on CHR ''.'' v) = 4"

definition SplitIpv6Side :: "string \<Rightarrow> string list option" where
  "SplitIpv6Side side =
     (if side = [] then Some []
      else if list_all (\<lambda>p. p \<noteq> []) (split_on CHR '':'' side) then Some (split_on CHR '':'' side)
      else None)"

text \<open>The part before and after the first \<open>::\<close>, if there is one.\<close>

fun find_compression :: "string \<Rightarrow> (string \<times> string) option" where
  "find_compression (c # d # cs) =
     (if c = CHR '':'' \<and> d = CHR '':'' then Some ([], cs)
      else map_option (\<lambda>(l, r). (c # l, r)) (find_compression (d # cs)))"
| "find_compression _ = None"

fun ipv6_units :: "bool \<Rightarrow> string list \<Rightarrow> nat \<Rightarrow> nat option" where
  "ipv6_units compression_last [] units = Some units"
| "ipv6_units compression_last (segment # segments) units =
     (if CHR ''.'' \<in> set segment then
        if segments \<noteq> [] \<or> compression_last \<or> \<not> ValidateIpv4Address segment then None
        else ipv6_units compression_last segments (units + 2)
      else if segment = [] \<or> length segment > 4 then None
      else if \<not> list_all IsHexDigit segment then None
      else ipv6_units compression_last segments (units + 1))"

definition ValidateIpv6Address :: "string \<Rightarrow> bool" where
  "ValidateIpv6Address v =
     (case find_compression v of
        None \<Rightarrow>
          (case SplitIpv6Side v of
             None \<Rightarrow> False
           | Some left \<Rightarrow> ipv6_units False left 0 = Some 8)
      | Some (l, r) \<Rightarrow>
          find_compression r = None \<and>
          (case SplitIpv6Side l of
             None \<Rightarrow> False
           | Some left \<Rightarrow>
               (case SplitIpv6Side r of
                  None \<Rightarrow> False
                | Some right \<Rightarrow>
                    (case ipv6_units (right = []) (left @ right) 0 of
                       None \<Rightarrow> False
                     | Some units \<Rightarrow> units < 8))))"

definition ValidateIpvFuture :: "string \<Rightarrow> bool" where
  "ValidateIpvFuture v \<longleftrightarrow>
     \<not> (length v < 4 \<or> hd v \<noteq> CHR ''v'' \<and> hd v \<noteq> CHR ''V'') \<and>
     (let version = takeWhile IsHexDigit (tl v); rest = dropWhile IsHexDigit (tl v) in
      version \<noteq> [] \<and> rest \<noteq> [] \<and> hd rest = CHR ''.'' \<and> tl rest \<noteq> [] \<and>
      list_all (\<lambda>c. IsUnreserved c \<or> IsSubDelimiter c \<or> c = CHR '':'') (tl rest))"

definition ValidateIpLiteral :: "string \<Rightarrow> bool" where
  "ValidateIpLiteral v \<longleftrightarrow> ValidateIpv6Address v \<or> ValidateIpvFuture v"

definition ValidatePort :: "string \<Rightarrow> bool" where
  "ValidatePort v \<longleftrightarrow> list_all IsAsciiDigit v"

subsection \<open>Authority and path\<close>

text \<open>A string split at the first occurrence of a delimiter: what precedes it and what follows.\<close>

definition cut_at :: "char \<Rightarrow> string \<Rightarrow> string \<times> string option" where
  "cut_at d s = (takeWhile (\<lambda>c. c \<noteq> d) s, case dropWhile (\<lambda>c. c \<noteq> d) s of [] \<Rightarrow> None | _ # rest \<Rightarrow> Some rest)"

definition ValidateHostAndPort :: "string \<Rightarrow> bool" where
  "ValidateHostAndPort host =
     (if host \<noteq> [] \<and> hd host = CHR ''['' then
        (case cut_at CHR '']'' (tl host) of
           (literal, None) \<Rightarrow> False
         | (literal, Some after) \<Rightarrow>
             literal \<noteq> [] \<and> ValidateIpLiteral literal \<and>
             (after = [] \<or> hd after = CHR '':'' \<and> ValidatePort (tl after)))
      else
        CHR ''['' \<notin> set host \<and> CHR '']'' \<notin> set host \<and>
        (case cut_at CHR '':'' host of
           (name, None) \<Rightarrow> ValidateComponent REG_NAME name
         | (name, Some port) \<Rightarrow>
             CHR '':'' \<notin> set port \<and> ValidateComponent REG_NAME name \<and> ValidatePort port))"

definition ValidateAuthority :: "string \<Rightarrow> bool" where
  "ValidateAuthority authority =
     (case cut_at CHR ''@'' authority of
        (host, None) \<Rightarrow> ValidateHostAndPort host
      | (user, Some host) \<Rightarrow>
          CHR ''@'' \<notin> set host \<and> ValidateComponent USER_INFO user \<and> ValidateHostAndPort host)"

definition ValidatePathCharacters :: "string \<Rightarrow> bool" where
  "ValidatePathCharacters path \<longleftrightarrow> list_all (ValidateComponent PCHAR) (split_on CHR ''/'' path)"

definition ValidatePathAbempty :: "string \<Rightarrow> bool" where
  "ValidatePathAbempty path \<longleftrightarrow> (path = [] \<or> hd path = CHR ''/'') \<and> ValidatePathCharacters path"

definition ValidatePathAbsolute :: "string \<Rightarrow> bool" where
  "ValidatePathAbsolute path \<longleftrightarrow>
     path \<noteq> [] \<and> hd path = CHR ''/'' \<and> (length path = 1 \<or> path ! 1 \<noteq> CHR ''/'') \<and> ValidatePathCharacters path"

definition ValidatePathRootless :: "string \<Rightarrow> bool" where
  "ValidatePathRootless path \<longleftrightarrow> path \<noteq> [] \<and> hd path \<noteq> CHR ''/'' \<and> ValidatePathCharacters path"

definition ValidatePathNoScheme :: "string \<Rightarrow> bool" where
  "ValidatePathNoScheme path \<longleftrightarrow> ValidatePathRootless path \<and> CHR '':'' \<notin> set (fst (cut_at CHR ''/'' path))"

definition ValidateAuthorityAndPath :: "string \<Rightarrow> bool" where
  "ValidateAuthorityAndPath hierarchy \<longleftrightarrow>
     ValidateAuthority (takeWhile (\<lambda>c. c \<noteq> CHR ''/'') (drop 2 hierarchy)) \<and>
     ValidatePathAbempty (dropWhile (\<lambda>c. c \<noteq> CHR ''/'') (drop 2 hierarchy))"

definition ValidateHierPart :: "string \<Rightarrow> bool \<Rightarrow> bool" where
  "ValidateHierPart hierarchy relative =
     (if take 2 hierarchy = ''//'' then ValidateAuthorityAndPath hierarchy
      else if hierarchy = [] then True
      else if hd hierarchy = CHR ''/'' then ValidatePathAbsolute hierarchy
      else if relative then ValidatePathNoScheme hierarchy
      else ValidatePathRootless hierarchy)"

definition ValidateScheme :: "string \<Rightarrow> bool" where
  "ValidateScheme scheme \<longleftrightarrow>
     scheme \<noteq> [] \<and> IsAsciiAlpha (hd scheme) \<and>
     list_all (\<lambda>c. IsAsciiAlpha c \<or> IsAsciiDigit c \<or> c = CHR ''+'' \<or> c = CHR ''-'' \<or> c = CHR ''.'') (tl scheme)"

subsection \<open>References\<close>

definition optional_component :: "string option \<Rightarrow> bool" where
  "optional_component part = (case part of None \<Rightarrow> True | Some v \<Rightarrow> ValidateComponent QUERY_OR_FRAGMENT v)"

definition ValidateReference :: "string \<Rightarrow> bool \<Rightarrow> bool" where
  "ValidateReference v require_uri =
     (let (reference, fragment) = cut_at CHR ''#'' v; (hierarchy, query) = cut_at CHR ''?'' reference in
      if fragment \<noteq> None \<and> CHR ''#'' \<in> set (the fragment) then False
      else if \<not> optional_component fragment then False
      else if \<not> optional_component query then False
      else
        case cut_at CHR '':'' hierarchy of
          (scheme, Some rest) \<Rightarrow>
            if ValidateScheme scheme then ValidateHierPart rest False
            else \<not> require_uri \<and> ValidateHierPart hierarchy True
        | (scheme, None) \<Rightarrow> \<not> require_uri \<and> ValidateHierPart hierarchy True)"

definition IsValidUriReference :: "string \<Rightarrow> bool" where
  "IsValidUriReference v \<longleftrightarrow> ValidateReference v False"

definition IsValidUri :: "string \<Rightarrow> bool" where
  "IsValidUri v \<longleftrightarrow> ValidateReference v True"

subsection \<open>URI characters\<close>

text \<open>
  The characters RFC 3986 allows: unreserved, reserved and the percent sign. The question mark and the
  number sign delimit the query and the fragment and do not occur in a scheme or hierarchical part.
\<close>

definition hier_char :: "char \<Rightarrow> bool" where
  "hier_char c \<longleftrightarrow> IsUnreserved c \<or> IsSubDelimiter c \<or> c \<in> set '':/[]@%''"

definition uri_char :: "char \<Rightarrow> bool" where
  "uri_char c \<longleftrightarrow> hier_char c \<or> c = CHR ''?'' \<or> c = CHR ''#''"

lemma hex_hier_char: "IsHexDigit c \<Longrightarrow> hier_char c"
  by (auto simp: IsHexDigit_def hier_char_def IsUnreserved_def IsAsciiAlpha_def in_range_def byte_def)

lemma alpha_hier_char: "IsAsciiAlpha c \<Longrightarrow> hier_char c"
  by (simp add: hier_char_def IsUnreserved_def)

lemma digit_hier_char: "IsAsciiDigit c \<Longrightarrow> hier_char c"
  by (simp add: hier_char_def IsUnreserved_def)

lemma plain_hier_char:
  "IsPlainComponentCharacter c kind \<Longrightarrow> hier_char c \<or> kind = QUERY_OR_FRAGMENT \<and> c = CHR ''?''"
  by (cases kind) (auto simp: IsPlainComponentCharacter_def hier_char_def)

text \<open>The grammar of a component: plain characters and percent-encoded bytes.\<close>

inductive component :: "component_kind \<Rightarrow> string \<Rightarrow> bool" for kind where
  empty: "component kind []"
| encoded: "IsHexDigit h \<Longrightarrow> IsHexDigit l \<Longrightarrow> component kind cs \<Longrightarrow> component kind (CHR ''%'' # h # l # cs)"
| plain_char: "IsPlainComponentCharacter c kind \<Longrightarrow> component kind cs \<Longrightarrow> component kind (c # cs)"

lemma percent_not_plain: "\<not> IsPlainComponentCharacter CHR ''%'' kind"
proof -
  have "list_all (\<lambda>k. \<not> IsPlainComponentCharacter CHR ''%'' k) [PCHAR, QUERY_OR_FRAGMENT, USER_INFO, REG_NAME]"
    by code_simp
  then show ?thesis by (cases kind) simp_all
qed

lemma ValidateComponent_iff: "ValidateComponent kind s \<longleftrightarrow> component kind s"
proof
  show "ValidateComponent kind s \<Longrightarrow> component kind s"
  proof (induction kind s rule: ValidateComponent.induct)
    case (2 kind c cs)
    then show ?case by (auto split: if_splits list.splits intro: component.intros)
  qed (simp add: component.empty)
  show "component kind s \<Longrightarrow> ValidateComponent kind s"
    by (induction rule: component.induct) (auto simp: percent_not_plain)
qed

lemma component_chars:
  "component kind s \<Longrightarrow> list_all (\<lambda>c. hier_char c \<or> kind = QUERY_OR_FRAGMENT \<and> c = CHR ''?'') s"
proof (induction rule: component.induct)
  case (encoded h l cs)
  moreover have "hier_char CHR ''%''" by code_simp
  ultimately show ?case by (simp add: hex_hier_char)
qed (simp_all add: plain_hier_char)

lemma component_hier_chars: "ValidateComponent kind s \<Longrightarrow> kind \<noteq> QUERY_OR_FRAGMENT \<Longrightarrow> list_all hier_char s"
  using component_chars [of kind s] by (simp add: ValidateComponent_iff)

lemma split_on_nonempty: "split_on d s \<noteq> []"
  by (induction s) (auto split: list.splits)

lemma split_on_chars: "set s \<subseteq> insert d (\<Union> (set ` set (split_on d s)))"
proof (induction d s rule: split_on.induct)
  case (2 d c cs)
  then show ?case using split_on_nonempty [of d cs] by (cases "split_on d cs") auto
qed simp

lemma split_hier_chars:
  assumes "hier_char d" and "list_all (\<lambda>p. list_all hier_char p) (split_on d s)"
  shows "list_all hier_char s"
  using assms split_on_chars [of s d] by (force simp: list_all_iff)

lemma delimiter_hier_chars:
  "hier_char CHR ''/''" "hier_char CHR '':''" "hier_char CHR ''.''" "hier_char CHR ''@''" "hier_char CHR ''[''"
  "hier_char CHR '']''" "hier_char CHR ''v''" "hier_char CHR ''V''"
  "hier_char CHR ''+''" "hier_char CHR ''-''"
  by code_simp+

lemma path_hier_chars: "ValidatePathCharacters path \<Longrightarrow> list_all hier_char path"
  by (rule split_hier_chars [OF delimiter_hier_chars(1)])
     (simp add: ValidatePathCharacters_def list.pred_mono_strong component_hier_chars)

lemma cut_append: "cut_at d s = (a, None) \<Longrightarrow> s = a" "cut_at d s = (a, Some b) \<Longrightarrow> s = a @ d # b"
proof -
  show "cut_at d s = (a, None) \<Longrightarrow> s = a"
    using takeWhile_dropWhile_id [of "\<lambda>c. c \<noteq> d" s] by (auto simp: cut_at_def split: list.splits)
  show "cut_at d s = (a, Some b) \<Longrightarrow> s = a @ d # b"
  proof (induction s arbitrary: a)
    case (Cons c s)
    then show ?case by (cases "c = d") (auto simp: cut_at_def split: list.splits)
  qed (simp add: cut_at_def)
qed

lemma cut_absent: "cut_at d s = (a, b) \<Longrightarrow> d \<notin> set a"
  by (auto simp: cut_at_def dest: set_takeWhileD)

lemma cut_build: "d \<notin> set a \<Longrightarrow> cut_at d a = (a, None)" "d \<notin> set a \<Longrightarrow> cut_at d (a @ d # b) = (a, Some b)"
  by (induction a) (auto simp: cut_at_def)

lemma decimal_digits: "decimal_value v r = Some n \<Longrightarrow> list_all IsAsciiDigit v"
  by (induction v r rule: decimal_value.induct) (auto split: if_splits)

lemma octet_hier_chars: "ValidateDecimalOctet v \<Longrightarrow> list_all hier_char v"
  by (auto simp: ValidateDecimalOctet_def list.pred_mono_strong [OF decimal_digits] digit_hier_char split: option.splits)

lemma ipv4_hier_chars: "ValidateIpv4Address v \<Longrightarrow> list_all hier_char v"
  by (rule split_hier_chars [OF delimiter_hier_chars(3)])
     (auto simp: ValidateIpv4Address_def elim!: list.pred_mono_strong intro: octet_hier_chars)

lemma units_hier_chars: "ipv6_units cl segments n = Some m \<Longrightarrow> list_all (list_all hier_char) segments"
  by (induction cl segments n rule: ipv6_units.induct)
     (auto split: if_splits simp: ipv4_hier_chars list.pred_mono_strong [of IsHexDigit] hex_hier_char)

lemma side_hier_chars:
  assumes "SplitIpv6Side side = Some ps" and "list_all (list_all hier_char) ps"
  shows "list_all hier_char side"
proof (cases "side = []")
  case False
  then have "split_on CHR '':'' side = ps" using assms(1) by (auto simp: SplitIpv6Side_def split: if_splits)
  then show ?thesis using split_hier_chars [OF delimiter_hier_chars(2), of side] assms(2) by simp
qed simp

lemma compression_append: "find_compression v = Some (l, r) \<Longrightarrow> v = l @ CHR '':'' # CHR '':'' # r"
  by (induction v arbitrary: l rule: find_compression.induct) (auto split: if_splits)

lemma ipv6_hier_chars: "ValidateIpv6Address v \<Longrightarrow> list_all hier_char v"
proof (cases "find_compression v")
  case None
  assume "ValidateIpv6Address v"
  with None obtain left where "SplitIpv6Side v = Some left" "ipv6_units False left 0 = Some 8"
    by (auto simp: ValidateIpv6Address_def split: option.splits)
  then show ?thesis using side_hier_chars units_hier_chars by blast
next
  case (Some lr)
  obtain l r where lr: "lr = (l, r)" by (cases lr)
  assume "ValidateIpv6Address v"
  with Some lr obtain left right units where sides: "SplitIpv6Side l = Some left" "SplitIpv6Side r = Some right"
    and u: "ipv6_units (right = []) (left @ right) 0 = Some units"
    by (auto simp: ValidateIpv6Address_def split: option.splits)
  have "list_all hier_char l" "list_all hier_char r"
    using side_hier_chars [OF sides(1)] side_hier_chars [OF sides(2)] units_hier_chars [OF u] by simp_all
  then show ?thesis using compression_append [of v l r] Some lr delimiter_hier_chars(2) by simp
qed

lemma future_hier_chars: "ValidateIpvFuture v \<Longrightarrow> list_all hier_char v"
proof -
  assume v: "ValidateIpvFuture v"
  let ?version = "takeWhile IsHexDigit (tl v)" and ?rest = "dropWhile IsHexDigit (tl v)"
  have "v \<noteq> []" "?rest \<noteq> []" using v by (auto simp: ValidateIpvFuture_def Let_def)
  then have "v = hd v # ?version @ hd ?rest # tl ?rest" by (simp add: takeWhile_dropWhile_id)
  moreover have "hier_char (hd v)" "hier_char (hd ?rest)"
    using v delimiter_hier_chars(3,7,8) by (auto simp: ValidateIpvFuture_def Let_def)
  moreover have "list_all hier_char ?version"
    by (auto simp: list_all_iff dest!: set_takeWhileD intro: hex_hier_char)
  moreover have "list_all hier_char (tl ?rest)"
    using v plain_hier_char [of _ USER_INFO]
    by (auto simp: ValidateIpvFuture_def Let_def list_all_iff IsPlainComponentCharacter_def)
  ultimately show ?thesis by (metis list.pred_inject(2) list_all_append)
qed

lemma host_hier_chars: "ValidateHostAndPort host \<Longrightarrow> list_all hier_char host"
proof (cases "host \<noteq> [] \<and> hd host = CHR ''[''")
  case True
  assume "ValidateHostAndPort host"
  with True obtain literal after where c: "cut_at CHR '']'' (tl host) = (literal, Some after)"
    and lit: "ValidateIpLiteral literal" and port: "after = [] \<or> hd after = CHR '':'' \<and> ValidatePort (tl after)"
    by (auto simp: ValidateHostAndPort_def split: prod.splits option.splits)
  have "list_all hier_char literal"
    using lit ipv6_hier_chars future_hier_chars by (auto simp: ValidateIpLiteral_def)
  moreover have "list_all hier_char after"
    using port delimiter_hier_chars(2) digit_hier_char
    by (cases after) (auto simp: ValidatePort_def list_all_iff)
  ultimately have "list_all hier_char (tl host)"
    using cut_append(2) [OF c] delimiter_hier_chars(6) by simp
  then show ?thesis using True delimiter_hier_chars(5) by (cases host) auto
next
  case False
  assume "ValidateHostAndPort host"
  with False consider name where "cut_at CHR '':'' host = (name, None)" "ValidateComponent REG_NAME name"
    | name port where "cut_at CHR '':'' host = (name, Some port)" "ValidateComponent REG_NAME name" "ValidatePort port"
    by (auto simp: ValidateHostAndPort_def split: prod.splits option.splits)
  then show ?thesis
  proof cases
    case 1
    then show ?thesis using cut_append(1) component_hier_chars by blast
  next
    case (2 name port)
    then have "list_all hier_char port" by (auto simp: ValidatePort_def list_all_iff intro: digit_hier_char)
    then show ?thesis using cut_append(2) [OF 2(1)] component_hier_chars [OF 2(2)] delimiter_hier_chars(2) by simp
  qed
qed

lemma authority_hier_chars: "ValidateAuthority a \<Longrightarrow> list_all hier_char a"
proof (cases "cut_at CHR ''@'' a")
  case (Pair user rest)
  assume "ValidateAuthority a"
  with Pair show ?thesis
    using cut_append [of "CHR ''@''" a user] delimiter_hier_chars(4)
    by (cases rest) (auto simp: ValidateAuthority_def host_hier_chars component_hier_chars)
qed

lemma hier_hier_chars: "ValidateHierPart h relative \<Longrightarrow> list_all hier_char h"
proof (cases "take 2 h = ''//''")
  case True
  let ?a = "takeWhile (\<lambda>c. c \<noteq> CHR ''/'') (drop 2 h)" and ?p = "dropWhile (\<lambda>c. c \<noteq> CHR ''/'') (drop 2 h)"
  assume "ValidateHierPart h relative"
  then have "list_all hier_char ?a" "list_all hier_char ?p"
    using True authority_hier_chars path_hier_chars
    by (simp_all add: ValidateHierPart_def ValidateAuthorityAndPath_def ValidatePathAbempty_def)
  then have "list_all hier_char (drop 2 h)" by (metis list_all_append takeWhile_dropWhile_id)
  moreover have "list_all hier_char (take 2 h)" using True delimiter_hier_chars(1) by simp
  ultimately show ?thesis by (metis append_take_drop_id list_all_append)
next
  case False
  assume "ValidateHierPart h relative"
  with False show ?thesis
    by (auto simp: ValidateHierPart_def ValidatePathAbsolute_def ValidatePathNoScheme_def ValidatePathRootless_def
        path_hier_chars split: if_splits)
qed

lemma scheme_hier_chars: "ValidateScheme s \<Longrightarrow> list_all hier_char s"
  using delimiter_hier_chars(3,9,10) digit_hier_char alpha_hier_char
  by (cases s) (auto simp: ValidateScheme_def list_all_iff)

subsection \<open>The shape of references\<close>

text \<open>
  Section 4.1 of RFC 3986: an optional scheme, the hierarchical part in one of its forms, an optional
  query and an optional fragment. Segments are separated by slashes; the authority is delegated to
  \<^const>\<open>ValidateAuthority\<close>.
\<close>

fun join :: "char \<Rightarrow> string list \<Rightarrow> string" where
  "join d [] = []"
| "join d [p] = p"
| "join d (p # ps) = p @ d # join d ps"

definition slash_segments :: "string list \<Rightarrow> bool" where
  "slash_segments segs \<longleftrightarrow> segs \<noteq> [] \<and> (\<forall>p\<in>set segs. component PCHAR p)"

inductive hier_part :: "bool \<Rightarrow> string \<Rightarrow> bool" where
  authority: "ValidateAuthority a \<Longrightarrow> CHR ''/'' \<notin> set a \<Longrightarrow> p = [] \<or> slash_segments segs \<and> p = CHR ''/'' # join CHR ''/'' segs \<Longrightarrow>
    hier_part relative (''//'' @ a @ p)"
| path_empty: "hier_part relative []"
| path_absolute: "slash_segments segs \<Longrightarrow> join CHR ''/'' segs = [] \<or> hd (join CHR ''/'' segs) \<noteq> CHR ''/'' \<Longrightarrow>
    hier_part relative (CHR ''/'' # join CHR ''/'' segs)"
| path_rootless: "slash_segments segs \<Longrightarrow> hd segs \<noteq> [] \<Longrightarrow> relative \<Longrightarrow> CHR '':'' \<notin> set (hd segs) \<Longrightarrow>
    hier_part relative (join CHR ''/'' segs)"
| path_scheme: "slash_segments segs \<Longrightarrow> hd segs \<noteq> [] \<Longrightarrow> hier_part False (join CHR ''/'' segs)"

definition compose :: "string option \<Rightarrow> string \<Rightarrow> string option \<Rightarrow> string option \<Rightarrow> string" where
  "compose scheme hierarchy query fragment =
     (case scheme of None \<Rightarrow> [] | Some s \<Rightarrow> s @ '':'') @ hierarchy @
     (case query of None \<Rightarrow> [] | Some q \<Rightarrow> CHR ''?'' # q) @
     (case fragment of None \<Rightarrow> [] | Some f \<Rightarrow> CHR ''#'' # f)"

lemma join_split: "join d (split_on d s) = s"
proof (induction d s rule: split_on.induct)
  case (2 d c cs)
  then show ?case using split_on_nonempty [of d cs]
    by (cases "split_on d cs"; cases "tl (split_on d cs)") auto
qed simp

lemma split_single: "d \<notin> set p \<Longrightarrow> split_on d p = [p]"
  by (induction p) auto

lemma split_cons: "d \<notin> set p \<Longrightarrow> split_on d (p @ d # s) = p # split_on d s"
  by (induction p) auto

lemma split_join: "ps \<noteq> [] \<Longrightarrow> \<forall>p\<in>set ps. d \<notin> set p \<Longrightarrow> split_on d (join d ps) = ps"
  by (induction d ps rule: join.induct) (auto simp: split_single split_cons)

lemma slash_not_pchar: "component PCHAR p \<Longrightarrow> CHR ''/'' \<notin> set p"
proof (induction rule: component.induct)
  case (encoded h l cs)
  have "\<not> IsHexDigit CHR ''/''" by code_simp
  with encoded show ?case by auto
next
  case (plain_char c cs)
  have "\<not> IsPlainComponentCharacter CHR ''/'' PCHAR" by code_simp
  with plain_char show ?case by auto
qed simp

lemma path_characters_iff: "ValidatePathCharacters p \<longleftrightarrow> (\<exists>segs. slash_segments segs \<and> p = join CHR ''/'' segs)"
proof
  assume "ValidatePathCharacters p"
  then have "slash_segments (split_on CHR ''/'' p)"
    by (simp add: ValidatePathCharacters_def slash_segments_def list_all_iff ValidateComponent_iff split_on_nonempty)
  then show "\<exists>segs. slash_segments segs \<and> p = join CHR ''/'' segs" using join_split [of "CHR ''/''" p] by metis
next
  assume "\<exists>segs. slash_segments segs \<and> p = join CHR ''/'' segs"
  then show "ValidatePathCharacters p"
    using split_join [of _ "CHR ''/''"] slash_not_pchar
    by (auto simp: ValidatePathCharacters_def slash_segments_def list_all_iff ValidateComponent_iff)
qed

lemma path_characters_slash: "ValidatePathCharacters (CHR ''/'' # p) \<longleftrightarrow> ValidatePathCharacters p"
  by (simp add: ValidatePathCharacters_def)

lemma split_hd: "hd (split_on d p) = fst (cut_at d p)"
proof (induction d p rule: split_on.induct)
  case (2 d c cs)
  then show ?case using split_on_nonempty [of d cs] by (cases "split_on d cs") (auto simp: cut_at_def)
qed (simp add: cut_at_def)

lemma hd_split_empty: "p \<noteq> [] \<Longrightarrow> hd (split_on d p) = [] \<longleftrightarrow> hd p = d"
  using split_on_nonempty [of d "tl p"] by (cases p; cases "split_on d (tl p)") auto

text \<open>A path that starts with a non-empty segment, in terms of the segments.\<close>

lemma rootless_iff:
  "ValidatePathRootless p \<longleftrightarrow> (\<exists>segs. slash_segments segs \<and> hd segs \<noteq> [] \<and> p = join CHR ''/'' segs)"
proof
  assume r: "ValidatePathRootless p"
  then have "slash_segments (split_on CHR ''/'' p)" "hd (split_on CHR ''/'' p) \<noteq> []"
    using hd_split_empty [of p "CHR ''/''"]
    by (simp_all add: ValidatePathRootless_def ValidatePathCharacters_def slash_segments_def list_all_iff
        ValidateComponent_iff split_on_nonempty)
  then show "\<exists>segs. slash_segments segs \<and> hd segs \<noteq> [] \<and> p = join CHR ''/'' segs"
    using join_split [of "CHR ''/''" p] by metis
next
  assume "\<exists>segs. slash_segments segs \<and> hd segs \<noteq> [] \<and> p = join CHR ''/'' segs"
  then obtain segs where g: "slash_segments segs" "hd segs \<noteq> []" "p = join CHR ''/'' segs" by blast
  then have sp: "split_on CHR ''/'' p = segs"
    using split_join [of segs "CHR ''/''"] slash_not_pchar by (auto simp: slash_segments_def)
  have "p \<noteq> []" using sp g(2) by auto
  then have "hd p \<noteq> CHR ''/''" using hd_split_empty [of p "CHR ''/''"] sp g(2) by simp
  then show "ValidatePathRootless p"
    using \<open>p \<noteq> []\<close> path_characters_iff [of p] g by (auto simp: ValidatePathRootless_def)
qed

lemma noscheme_iff:
  "ValidatePathNoScheme p \<longleftrightarrow>
   (\<exists>segs. slash_segments segs \<and> hd segs \<noteq> [] \<and> CHR '':'' \<notin> set (hd segs) \<and> p = join CHR ''/'' segs)"
proof -
  have "split_on CHR ''/'' (join CHR ''/'' segs) = segs" if "slash_segments segs" for segs
    using that split_join [of segs "CHR ''/''"] slash_not_pchar by (auto simp: slash_segments_def)
  then show ?thesis
    unfolding ValidatePathNoScheme_def rootless_iff using split_hd [of "CHR ''/''"] by metis
qed

lemma abempty_iff:
  "ValidatePathAbempty p \<longleftrightarrow> p = [] \<or> (\<exists>segs. slash_segments segs \<and> p = CHR ''/'' # join CHR ''/'' segs)"
proof (cases "p \<noteq> [] \<and> hd p = CHR ''/''")
  case True
  then have "ValidatePathAbempty p \<longleftrightarrow> ValidatePathCharacters (tl p)"
    by (cases p) (simp_all add: ValidatePathAbempty_def path_characters_slash)
  then show ?thesis using True path_characters_iff [of "tl p"] by (cases p) simp_all
next
  case False
  then show ?thesis by (auto simp: ValidatePathAbempty_def ValidatePathCharacters_def)
qed

lemma absolute_iff:
  "ValidatePathAbsolute p \<longleftrightarrow> (\<exists>segs. slash_segments segs \<and> p = CHR ''/'' # join CHR ''/'' segs \<and>
     (join CHR ''/'' segs = [] \<or> hd (join CHR ''/'' segs) \<noteq> CHR ''/''))"
proof (cases "p \<noteq> [] \<and> hd p = CHR ''/''")
  case True
  then obtain cs where p: "p = CHR ''/'' # cs" by (cases p) simp_all
  have "length p = 1 \<or> p ! 1 \<noteq> CHR ''/'' \<longleftrightarrow> cs = [] \<or> hd cs \<noteq> CHR ''/''"
    using p by (cases cs) simp_all
  then have "ValidatePathAbsolute p \<longleftrightarrow> (cs = [] \<or> hd cs \<noteq> CHR ''/'') \<and> ValidatePathCharacters cs"
    using p path_characters_slash [of cs] by (simp add: ValidatePathAbsolute_def)
  then show ?thesis using p path_characters_iff [of cs] by auto
next
  case False
  then show ?thesis by (auto simp: ValidatePathAbsolute_def)
qed

lemma double_slash: "take 2 h = ''//'' \<longleftrightarrow> (\<exists>t. h = CHR ''/'' # CHR ''/'' # t)"
  by (cases h; cases "tl h") auto

lemma authority_split:
  assumes "CHR ''/'' \<notin> set a" and "p = [] \<or> hd p = CHR ''/''"
  shows "takeWhile (\<lambda>c. c \<noteq> CHR ''/'') (a @ p) = a" and "dropWhile (\<lambda>c. c \<noteq> CHR ''/'') (a @ p) = p"
  using assms by (induction a) (cases p; auto)+

lemma hier_part_sound: "ValidateHierPart h relative \<Longrightarrow> hier_part relative h"
proof -
  assume v: "ValidateHierPart h relative"
  consider (auth) "take 2 h = ''//''" | (empty_path) "h = []"
    | (absolute) "h \<noteq> []" "take 2 h \<noteq> ''//''" "hd h = CHR ''/''"
    | (rootless) "h \<noteq> []" "take 2 h \<noteq> ''//''" "hd h \<noteq> CHR ''/''" by blast
  then show ?thesis
  proof cases
    case auth
    let ?a = "takeWhile (\<lambda>c. c \<noteq> CHR ''/'') (drop 2 h)" and ?p = "dropWhile (\<lambda>c. c \<noteq> CHR ''/'') (drop 2 h)"
    have "ValidateAuthority ?a" "ValidatePathAbempty ?p"
      using v auth by (simp_all add: ValidateHierPart_def ValidateAuthorityAndPath_def)
    moreover have "CHR ''/'' \<notin> set ?a" by (auto dest: set_takeWhileD)
    ultimately have "hier_part relative (''//'' @ ?a @ ?p)"
      unfolding abempty_iff by (blast intro: hier_part.authority)
    moreover have "h = ''//'' @ ?a @ ?p" using auth by (metis append_take_drop_id takeWhile_dropWhile_id)
    ultimately show ?thesis by simp
  next
    case absolute
    then have "ValidatePathAbsolute h" using v by (simp add: ValidateHierPart_def)
    then show ?thesis unfolding absolute_iff by (blast intro: hier_part.path_absolute)
  next
    case rootless
    show ?thesis
    proof (cases relative)
      case True
      then have "ValidatePathNoScheme h" using v rootless by (simp add: ValidateHierPart_def)
      then show ?thesis using True unfolding noscheme_iff by (blast intro: hier_part.path_rootless)
    next
      case False
      then have "ValidatePathRootless h" using v rootless by (simp add: ValidateHierPart_def)
      then show ?thesis using False unfolding rootless_iff by (auto intro: hier_part.path_scheme)
    qed
  qed (simp add: hier_part.path_empty)
qed

lemma rootless_hier: "ValidatePathRootless h \<Longrightarrow> ValidateHierPart h relative = (relative \<longrightarrow> ValidatePathNoScheme h)"
  by (cases h) (auto simp: ValidateHierPart_def ValidatePathRootless_def)

lemma hier_part_complete: "hier_part relative h \<Longrightarrow> ValidateHierPart h relative"
proof (induction rule: hier_part.induct)
  case (authority a p segs relative)
  then have "ValidatePathAbempty p" unfolding abempty_iff by blast
  moreover have "p = [] \<or> hd p = CHR ''/''" using authority by auto
  ultimately show ?case
    unfolding ValidateHierPart_def ValidateAuthorityAndPath_def
    using authority authority_split [of a p] by (simp del: takeWhile_append1 dropWhile_append1)
next
  case (path_absolute segs relative)
  then have "ValidatePathAbsolute (CHR ''/'' # join CHR ''/'' segs)" unfolding absolute_iff by blast
  moreover have "take 2 (CHR ''/'' # join CHR ''/'' segs) \<noteq> ''//''"
    using path_absolute by (cases "join CHR ''/'' segs") (auto simp: double_slash)
  ultimately show ?case by (simp add: ValidateHierPart_def)
next
  case (path_rootless segs relative)
  then have "ValidatePathNoScheme (join CHR ''/'' segs)" unfolding noscheme_iff by blast
  then show ?case by (simp add: rootless_hier ValidatePathNoScheme_def)
next
  case (path_scheme segs)
  then have "ValidatePathRootless (join CHR ''/'' segs)" unfolding rootless_iff by blast
  then show ?case by (simp add: rootless_hier)
qed (simp add: ValidateHierPart_def)

lemma hier_part_iff: "ValidateHierPart h relative \<longleftrightarrow> hier_part relative h"
  using hier_part_sound hier_part_complete by blast

text \<open>Where the delimiters cannot occur, so that cutting recovers the parts of a composition.\<close>

lemma not_hier_chars: "\<not> hier_char CHR ''?''" "\<not> hier_char CHR ''#''"
  by code_simp+

lemma hier_uri_chars: "list_all hier_char s \<Longrightarrow> list_all uri_char s"
  by (simp add: list_all_iff uri_char_def)

lemma absent_from_hier: "list_all hier_char s \<Longrightarrow> CHR ''?'' \<notin> set s \<and> CHR ''#'' \<notin> set s"
  using not_hier_chars by (auto simp: list_all_iff)

lemma component_uri_chars: "ValidateComponent kind s \<Longrightarrow> list_all uri_char s"
  using component_chars [of kind s] by (auto simp: ValidateComponent_iff uri_char_def elim!: list.pred_mono_strong)

lemma hash_not_component: "ValidateComponent kind s \<Longrightarrow> CHR ''#'' \<notin> set s"
  using component_chars [of kind s] not_hier_chars by (auto simp: ValidateComponent_iff list_all_iff)

lemma scheme_no_delimiter: "ValidateScheme s \<Longrightarrow> CHR '':'' \<notin> set s \<and> CHR ''/'' \<notin> set s"
proof -
  let ?ok = "\<lambda>c. IsAsciiAlpha c \<or> IsAsciiDigit c \<or> c = CHR ''+'' \<or> c = CHR ''-'' \<or> c = CHR ''.''"
  assume "ValidateScheme s"
  then have "\<forall>c\<in>set s. ?ok c" by (cases s) (auto simp: ValidateScheme_def list_all_iff)
  moreover have "\<not> ?ok CHR '':''" "\<not> ?ok CHR ''/''" by code_simp+
  ultimately show ?thesis by metis
qed

text \<open>A relative hierarchical part never reads as one with a scheme in front.\<close>

lemma relative_has_no_scheme:
  assumes h: "hier_part True h" and c: "cut_at CHR '':'' h = (s, Some rest)"
  shows "\<not> ValidateScheme s"
proof
  assume s: "ValidateScheme s"
  have parts: "h = s @ CHR '':'' # rest" by (rule cut_append(2) [OF c])
  have slash: "CHR ''/'' \<notin> set s" "s \<noteq> []" using scheme_no_delimiter [OF s] s by (auto simp: ValidateScheme_def)
  then have hd_h: "h \<noteq> []" "hd h \<noteq> CHR ''/''" using parts by (auto simp: hd_append) (metis hd_in_set)
  from h show False
  proof (cases rule: hier_part.cases)
    case (path_rootless segs)
    have "fst (cut_at CHR ''/'' h) = hd segs"
      using path_rootless split_hd [of "CHR ''/''" h] split_join [of segs "CHR ''/''"] slash_not_pchar
      by (auto simp: slash_segments_def)
    moreover have "CHR '':'' \<in> set (fst (cut_at CHR ''/'' h))"
      using slash unfolding parts by (auto simp: cut_at_def takeWhile_append)
    ultimately show False using path_rootless by simp
  qed (use hd_h in auto)
qed

lemma cut_compose:
  assumes "CHR ''#'' \<notin> set front" and "CHR ''?'' \<notin> set front" and "optional_component query"
  shows "cut_at CHR ''#'' (front @ (case query of None \<Rightarrow> [] | Some q \<Rightarrow> CHR ''?'' # q) @
           (case fragment of None \<Rightarrow> [] | Some f \<Rightarrow> CHR ''#'' # f)) =
         (front @ (case query of None \<Rightarrow> [] | Some q \<Rightarrow> CHR ''?'' # q), fragment)"
    and "cut_at CHR ''?'' (front @ (case query of None \<Rightarrow> [] | Some q \<Rightarrow> CHR ''?'' # q)) = (front, query)"
proof -
  have nohash: "CHR ''#'' \<notin> set (front @ (case query of None \<Rightarrow> [] | Some q \<Rightarrow> CHR ''?'' # q))"
    using assms hash_not_component by (auto simp: optional_component_def split: option.splits)
  show "cut_at CHR ''#'' (front @ (case query of None \<Rightarrow> [] | Some q \<Rightarrow> CHR ''?'' # q) @
           (case fragment of None \<Rightarrow> [] | Some f \<Rightarrow> CHR ''#'' # f)) =
         (front @ (case query of None \<Rightarrow> [] | Some q \<Rightarrow> CHR ''?'' # q), fragment)"
    using cut_build(1) [OF nohash] cut_build(2) [OF nohash] by (cases fragment) simp_all
  show "cut_at CHR ''?'' (front @ (case query of None \<Rightarrow> [] | Some q \<Rightarrow> CHR ''?'' # q)) = (front, query)"
    using cut_build [OF assms(2)] by (cases query) simp_all
qed

definition scheme_and_hier :: "bool \<Rightarrow> string option \<Rightarrow> string \<Rightarrow> bool" where
  "scheme_and_hier require_uri scheme hierarchy =
     (case scheme of
        None \<Rightarrow> \<not> require_uri \<and> hier_part True hierarchy
      | Some s \<Rightarrow> ValidateScheme s \<and> hier_part False hierarchy)"

lemma reference_sound:
  assumes v: "ValidateReference v require_uri"
  obtains scheme hierarchy query fragment where "v = compose scheme hierarchy query fragment"
    "scheme_and_hier require_uri scheme hierarchy" "optional_component query" "optional_component fragment"
proof -
  obtain reference fragment where cf: "cut_at CHR ''#'' v = (reference, fragment)" by (cases "cut_at CHR ''#'' v")
  obtain front query where cq: "cut_at CHR ''?'' reference = (front, query)" by (cases "cut_at CHR ''?'' reference")
  obtain s rest where cs: "cut_at CHR '':'' front = (s, rest)" by (cases "cut_at CHR '':'' front")
  have opts: "optional_component query" "optional_component fragment"
    using v cf cq by (auto simp: ValidateReference_def split: if_splits)
  have whole: "v = front @ (case query of None \<Rightarrow> [] | Some q \<Rightarrow> CHR ''?'' # q) @
                 (case fragment of None \<Rightarrow> [] | Some f \<Rightarrow> CHR ''#'' # f)"
    using cut_append [of "CHR ''#''" v reference] cut_append [of "CHR ''?''" reference front] cf cq
    by (auto split: option.splits)
  show ?thesis
  proof (cases "rest \<noteq> None \<and> ValidateScheme s")
    case True
    then have "hier_part False (the rest)" "front = s @ CHR '':'' # the rest"
      using v cf cq cs cut_append(2) [of "CHR '':''" front s "the rest"]
      by (auto simp: ValidateReference_def hier_part_iff split: if_splits)
    then show ?thesis
      using that [of "Some s" "the rest"] True opts whole by (simp add: compose_def scheme_and_hier_def)
  next
    case False
    then have "\<not> require_uri" "hier_part True front"
      using v cf cq cs by (auto simp: ValidateReference_def hier_part_iff split: if_splits option.splits)
    then show ?thesis using that [of None front] opts whole by (simp add: compose_def scheme_and_hier_def)
  qed
qed

lemma reference_complete:
  assumes sh: "scheme_and_hier require_uri scheme hierarchy"
    and q: "optional_component query" and f: "optional_component fragment"
  shows "ValidateReference (compose scheme hierarchy query fragment) require_uri"
proof -
  define front where "front = (case scheme of None \<Rightarrow> [] | Some s \<Rightarrow> s @ '':'') @ hierarchy"
  have h: "list_all hier_char hierarchy"
    using sh hier_hier_chars hier_part_iff by (auto simp: scheme_and_hier_def split: option.splits)
  have "list_all hier_char front"
    using sh h scheme_hier_chars delimiter_hier_chars(2)
    by (auto simp: front_def scheme_and_hier_def split: option.splits)
  then have front: "CHR ''#'' \<notin> set front" "CHR ''?'' \<notin> set front" using absent_from_hier by blast+
  have nohash: "\<not> (fragment \<noteq> None \<and> CHR ''#'' \<in> set (the fragment))"
    using f hash_not_component by (auto simp: optional_component_def)
  have whole: "compose scheme hierarchy query fragment =
      front @ (case query of None \<Rightarrow> [] | Some q \<Rightarrow> CHR ''?'' # q) @ (case fragment of None \<Rightarrow> [] | Some f \<Rightarrow> CHR ''#'' # f)"
    by (simp add: compose_def front_def)
  have reduce: "ValidateReference (compose scheme hierarchy query fragment) require_uri =
      (case cut_at CHR '':'' front of
          (s, Some rest) \<Rightarrow>
            if ValidateScheme s then ValidateHierPart rest False
            else \<not> require_uri \<and> ValidateHierPart front True
        | (s, None) \<Rightarrow> \<not> require_uri \<and> ValidateHierPart front True)"
    using cut_compose(1) [OF front q, of fragment] cut_compose(2) [OF front q] nohash q f
    unfolding whole ValidateReference_def by (cases fragment) simp_all
  show ?thesis
  proof (cases scheme)
    case None
    then have fr: "front = hierarchy" "\<not> require_uri" "hier_part True front"
      using sh by (simp_all add: front_def scheme_and_hier_def)
    obtain s rest where cs: "cut_at CHR '':'' front = (s, rest)" by (cases "cut_at CHR '':'' front")
    then show ?thesis
      using reduce fr relative_has_no_scheme [of front s] by (cases rest) (simp_all add: hier_part_iff)
  next
    case (Some s)
    then have "ValidateScheme s" "hier_part False hierarchy" "front = s @ CHR '':'' # hierarchy"
      using sh by (simp_all add: front_def scheme_and_hier_def)
    then show ?thesis
      using reduce cut_build(2) [of "CHR '':''" s hierarchy] scheme_no_delimiter by (simp add: hier_part_iff)
  qed
qed

text \<open>
  The validator accepts exactly the compositions of an optional scheme (mandatory for a URI), a hierarchical part of
  one of the forms above, an optional query and an optional fragment: its cuts at the first number sign, question
  mark and colon are unambiguous. \<open>Uri_Conformance\<close> goes on from here to the productions of RFC 3986.
\<close>

lemma reference_shape:
  "ValidateReference v require_uri \<longleftrightarrow>
   (\<exists>scheme hierarchy query fragment.
      v = compose scheme hierarchy query fragment \<and>
      (case scheme of
         None \<Rightarrow> \<not> require_uri \<and> hier_part True hierarchy
       | Some s \<Rightarrow> ValidateScheme s \<and> hier_part False hierarchy) \<and>
      pred_option (component QUERY_OR_FRAGMENT) query \<and>
      pred_option (component QUERY_OR_FRAGMENT) fragment)"
proof -
  have opt: "pred_option (component QUERY_OR_FRAGMENT) part \<longleftrightarrow> optional_component part" for part
    by (simp add: optional_component_def ValidateComponent_iff split: option.splits)
  show ?thesis
    unfolding opt scheme_and_hier_def [symmetric]
    using reference_sound [of v require_uri] reference_complete by metis
qed

lemma reference_uri_chars:
  assumes "ValidateReference v require_uri"
  shows "list_all uri_char v"
proof -
  obtain scheme hierarchy query fragment where v: "v = compose scheme hierarchy query fragment"
    and sh: "scheme_and_hier require_uri scheme hierarchy"
    and q: "optional_component query" and f: "optional_component fragment"
    using reference_sound [OF assms] .
  have "list_all uri_char hierarchy"
    using sh hier_hier_chars hier_part_iff
    by (force simp: scheme_and_hier_def split: option.splits intro: hier_uri_chars)
  moreover have "list_all uri_char (case scheme of None \<Rightarrow> [] | Some s \<Rightarrow> s @ '':'')"
    using sh delimiter_hier_chars(2) scheme_hier_chars
    by (auto simp: scheme_and_hier_def uri_char_def hier_uri_chars split: option.splits)
  moreover have "list_all uri_char (case part of None \<Rightarrow> [] | Some q \<Rightarrow> d # q)"
    if "optional_component part" "uri_char d" for part d
    using that component_uri_chars by (auto simp: optional_component_def split: option.splits)
  ultimately show ?thesis using q f by (simp add: v compose_def uri_char_def)
qed

end
