(* ===== verification/Link_Header.thy ===== *)
theory Link_Header
  imports Uri_Reference
begin

text \<open>
  The parser of \<open>Link\<close> header fields, \<open>src/src/runtime/pagination/link_header.cpp\<close>. The offset into
  a field is the list of the bytes from it on. The visitor the caller passes is a function from its state,
  the target and whether the link is a next link, to a new state or to the exception the visitor throws;
  syntax errors are the parser's own.

  Rendering a list of links and parsing the result is shown to visit exactly these links, in order, and
  every visited target is shown to be a valid URI reference.
\<close>

subsection \<open>Lexical structure\<close>

datatype link_syntax_error = LinkHeaderSyntaxError

datatype 'e link_failure = SyntaxFailure link_syntax_error | VisitorFailure 'e

abbreviation MAX_IGNORED_EMPTY_LIST_ELEMENTS :: nat where
  "MAX_IGNORED_EMPTY_LIST_ELEMENTS \<equiv> 128"

definition LinkIsOws :: "char \<Rightarrow> bool" where
  "LinkIsOws c \<longleftrightarrow> c = CHR '' '' \<or> c = CHR 0x09"

definition ToAsciiLower :: "char \<Rightarrow> char" where
  "ToAsciiLower c = (if in_range CHR ''A'' CHR ''Z'' c then char_of (byte c + (byte CHR ''a'' - byte CHR ''A'')) else c)"

definition LinkSkipOws :: "string \<Rightarrow> string" where
  "LinkSkipOws cs = dropWhile LinkIsOws cs"

definition LinkIsTokenCharacter :: "char \<Rightarrow> bool" where
  "LinkIsTokenCharacter c \<longleftrightarrow> IsAsciiAlpha c \<or> IsAsciiDigit c \<or> c \<in> set (CHR 0x27 # CHR 0x60 # ''!#$%&*+-.^_|~'')"

definition LinkParseToken :: "string \<Rightarrow> link_syntax_error + string \<times> string" where
  "LinkParseToken cs =
     (if takeWhile LinkIsTokenCharacter cs = [] then Inl LinkHeaderSyntaxError
      else Inr (takeWhile LinkIsTokenCharacter cs, dropWhile LinkIsTokenCharacter cs))"

fun link_quoted_loop :: "string \<Rightarrow> string \<Rightarrow> link_syntax_error + string \<times> string" where
  "link_quoted_loop result [] = Inl LinkHeaderSyntaxError"
| "link_quoted_loop result (c # cs) =
     (if c = CHR 0x22 then Inr (result, cs)
      else if c = CHR 0x5C then
        (case cs of
           [] \<Rightarrow> Inl LinkHeaderSyntaxError
         | escaped # rest \<Rightarrow>
             if byte escaped < 0x20 \<or> byte escaped > 0x7e then Inl LinkHeaderSyntaxError
             else link_quoted_loop (result @ [escaped]) rest)
      else if byte c < 0x20 \<and> c \<noteq> CHR 0x09 \<or> byte c = 0x7f then Inl LinkHeaderSyntaxError
      else link_quoted_loop (result @ [c]) cs)"

definition LinkParseQuotedString :: "string \<Rightarrow> link_syntax_error + string \<times> string" where
  "LinkParseQuotedString cs =
     (if cs = [] \<or> hd cs \<noteq> CHR 0x22 then Inl LinkHeaderSyntaxError else link_quoted_loop [] (tl cs))"

definition ParseParameterValue :: "string \<Rightarrow> link_syntax_error + string \<times> string" where
  "ParseParameterValue cs =
     (if cs \<noteq> [] \<and> hd cs = CHR 0x22 then LinkParseQuotedString cs else LinkParseToken cs)"

definition EqualsAsciiIgnoreCase :: "string \<Rightarrow> string \<Rightarrow> bool" where
  "EqualsAsciiIgnoreCase left right \<longleftrightarrow>
     length left = length right \<and> list_all2 (\<lambda>l r. ToAsciiLower l = ToAsciiLower r) left right"

subsection \<open>Relation types\<close>

definition IsRegisteredRelation :: "string \<Rightarrow> bool" where
  "IsRegisteredRelation relation \<longleftrightarrow>
     relation \<noteq> [] \<and> IsAsciiAlpha (hd relation) \<and>
     list_all (\<lambda>c. IsAsciiAlpha c \<or> IsAsciiDigit c \<or> c = CHR ''.'' \<or> c = CHR ''-'') (tl relation)"

function relation_loop :: "bool \<Rightarrow> string \<Rightarrow> link_syntax_error + bool" where
  "relation_loop has_next relation =
     (if relation = [] then Inr has_next
      else
        let token = takeWhile (\<lambda>c. c \<noteq> CHR '' '') relation in
        if \<not> IsRegisteredRelation token \<and> \<not> IsValidUri token then Inl LinkHeaderSyntaxError
        else relation_loop (has_next \<or> EqualsAsciiIgnoreCase token ''next'')
               (dropWhile (\<lambda>c. c = CHR '' '') (dropWhile (\<lambda>c. c \<noteq> CHR '' '') relation)))"
  by pat_completeness auto

lemma relation_rest_shorter:
  "relation \<noteq> [] \<Longrightarrow> length (dropWhile (\<lambda>c. c = d) (dropWhile (\<lambda>c. c \<noteq> d) relation)) < length relation"
proof (cases relation)
  case (Cons c cs)
  have "length (dropWhile P (dropWhile Q cs)) \<le> length cs" "length (dropWhile P cs) \<le> length cs"
    for P Q :: "'a \<Rightarrow> bool"
    using length_dropWhile_le [of P] length_dropWhile_le [of Q] le_trans by blast+
  then show ?thesis by (simp add: Cons less_Suc_eq_le)
qed simp

termination relation_loop
  by (relation "measure (length \<circ> snd)") (auto simp: relation_rest_shorter)

declare relation_loop.simps [simp del]

definition RelationContainsNext :: "string \<Rightarrow> link_syntax_error + bool" where
  "RelationContainsNext relation =
     (if relation = [] \<or> hd relation = CHR '' '' \<or> last relation = CHR '' '' then Inl LinkHeaderSyntaxError
      else relation_loop False relation)"

subsection \<open>Link values\<close>

lemma LinkSkipOws_shorter: "length (LinkSkipOws cs) \<le> length cs"
  by (simp add: LinkSkipOws_def length_dropWhile_le)

lemma LinkParseToken_shorter: "LinkParseToken cs = Inr (tok, rest) \<Longrightarrow> length rest < length cs"
  by (cases cs) (auto simp: LinkParseToken_def length_dropWhile_le less_Suc_eq_le split: if_splits)

lemma link_quoted_loop_shorter: "link_quoted_loop result cs = Inr (v, rest) \<Longrightarrow> length rest < length cs"
  by (induction result cs rule: link_quoted_loop.induct) (force split: if_splits list.splits)+

lemma ParseParameterValue_shorter: "ParseParameterValue cs = Inr (v, rest) \<Longrightarrow> length rest < length cs"
  by (cases cs)
     (auto simp: ParseParameterValue_def LinkParseQuotedString_def split: if_splits
      dest: LinkParseToken_shorter link_quoted_loop_shorter)

lemmas link_shorter = LinkParseToken_shorter ParseParameterValue_shorter

text \<open>
  One turn of the loop over the parameters of a link value, behind the semicolon, on the three flags of
  the loop: whether a relation was seen, whether an anchor was, and whether the relation is a next one.
\<close>

type_synonym link_flags = "bool \<times> bool \<times> bool"

definition link_parameter :: "link_flags \<Rightarrow> string \<Rightarrow> link_syntax_error + string \<times> link_flags" where
  "link_parameter = (\<lambda>(saw_rel, saw_anchor, has_next) cs.
     and_then (LinkParseToken (LinkSkipOws cs)) (\<lambda>(name, cs2).
       let cs3 = LinkSkipOws cs2 in
       if cs3 = [] \<or> hd cs3 \<noteq> CHR ''='' then
         if EqualsAsciiIgnoreCase name ''rel'' then
           (if \<not> saw_rel then Inl LinkHeaderSyntaxError else Inr (cs3, saw_rel, saw_anchor, has_next))
         else if EqualsAsciiIgnoreCase name ''anchor'' then Inl LinkHeaderSyntaxError
         else Inr (cs3, saw_rel, saw_anchor, has_next)
       else
         and_then (ParseParameterValue (LinkSkipOws (tl cs3))) (\<lambda>(v, cs4).
           if EqualsAsciiIgnoreCase name ''rel'' then
             (if \<not> saw_rel then
                and_then (RelationContainsNext v) (\<lambda>n. Inr (cs4, True, saw_anchor, n))
              else Inr (cs4, saw_rel, saw_anchor, has_next))
           else if EqualsAsciiIgnoreCase name ''anchor'' then
             (if \<not> IsValidUriReference v then Inl LinkHeaderSyntaxError
              else Inr (cs4, saw_rel, True, has_next))
           else Inr (cs4, saw_rel, saw_anchor, has_next))))"

lemma link_parameter_shorter: "link_parameter flags cs = Inr (rest, flags') \<Longrightarrow> length rest < length cs"
proof -
  assume p: "link_parameter flags cs = Inr (rest, flags')"
  then obtain name cs2 where tok: "LinkParseToken (LinkSkipOws cs) = Inr (name, cs2)"
    and rest: "rest = LinkSkipOws cs2 \<or>
      (\<exists>v. ParseParameterValue (LinkSkipOws (tl (LinkSkipOws cs2))) = Inr (v, rest))"
    by (cases flags) (auto simp: link_parameter_def Let_def split: if_splits)
  have "length (LinkSkipOws cs2) \<le> length cs2" "length (LinkSkipOws cs) \<le> length cs"
      "length (LinkSkipOws (tl (LinkSkipOws cs2))) \<le> length (tl (LinkSkipOws cs2))"
    by (rule LinkSkipOws_shorter)+
  moreover have "length rest \<le> length (LinkSkipOws cs2)"
    using rest LinkSkipOws_shorter [of "tl (LinkSkipOws cs2)"]
    by (auto dest!: ParseParameterValue_shorter)
  ultimately show ?thesis using LinkParseToken_shorter [OF tok] by linarith
qed

function param_loop :: "link_flags \<Rightarrow> string \<Rightarrow> link_syntax_error + string \<times> link_flags" where
  "param_loop flags cs =
     (let cs1 = LinkSkipOws cs in
      if cs1 = [] \<or> hd cs1 = CHR '','' then Inr (cs1, flags)
      else if hd cs1 \<noteq> CHR '';'' then Inl LinkHeaderSyntaxError
      else and_then (link_parameter flags (tl cs1)) (\<lambda>(rest, flags'). param_loop flags' rest))"
  by pat_completeness auto

lemma parameter_progress:
  "link_parameter flags (tl (LinkSkipOws cs)) = Inr (rest, flags') \<Longrightarrow> length rest < length cs"
  using link_parameter_shorter [of flags "tl (LinkSkipOws cs)" rest flags'] LinkSkipOws_shorter [of cs] by simp

termination param_loop
  by (relation "measure (length \<circ> snd)") (auto dest: parameter_progress)

declare param_loop.simps [simp del]

lemma param_loop_shorter: "param_loop flags cs = Inr (rest, flags') \<Longrightarrow> length rest \<le> length cs"
proof (induction flags cs rule: param_loop.induct)
  case (1 flags cs)
  from "1.prems" consider "rest = LinkSkipOws cs"
    | mid flags'' where "LinkSkipOws cs \<noteq> []" "hd (LinkSkipOws cs) = CHR '';''"
        "link_parameter flags (tl (LinkSkipOws cs)) = Inr (mid, flags'')" "param_loop flags'' mid = Inr (rest, flags')"
    by (subst (asm) param_loop.simps) (auto simp: Let_def split: if_splits)
  then show ?case
  proof cases
    case 2
    then show ?thesis using "1.IH" [OF refl _ _ 2(3) refl] parameter_progress [OF 2(3)] by fastforce
  qed (simp add: LinkSkipOws_shorter)
qed

text \<open>One link value, up to the call of the visitor: the rest of the field and what is visited.\<close>

definition ParseLinkValue :: "string \<Rightarrow> link_syntax_error + string \<times> string \<times> bool" where
  "ParseLinkValue field =
     (let cs = LinkSkipOws field in
      if cs = [] \<or> hd cs \<noteq> CHR ''<'' then Inl LinkHeaderSyntaxError
      else
        case cut_at CHR ''>'' (tl cs) of
          (target, None) \<Rightarrow> Inl LinkHeaderSyntaxError
        | (target, Some rest) \<Rightarrow>
            if \<not> IsValidUriReference target then Inl LinkHeaderSyntaxError
            else and_then (param_loop (False, False, False) rest) (\<lambda>(cs', saw_rel, saw_anchor, has_next).
              if \<not> saw_rel then Inl LinkHeaderSyntaxError
              else Inr (cs', target, has_next \<and> \<not> saw_anchor)))"

subsection \<open>Fields\<close>

type_synonym ('s, 'e) visitor = "'s \<Rightarrow> string \<Rightarrow> bool \<Rightarrow> 'e + 's"

definition visit_link :: "('s, 'e) visitor \<Rightarrow> 's \<Rightarrow> string \<times> bool \<Rightarrow> 'e link_failure + 's" where
  "visit_link visit s link =
     (case visit s (fst link) (snd link) of Inl e \<Rightarrow> Inl (VisitorFailure e) | Inr s' \<Rightarrow> Inr s')"

definition lift_syntax :: "link_syntax_error + 'a \<Rightarrow> 'e link_failure + 'a" where
  "lift_syntax r = (case r of Inl e \<Rightarrow> Inl (SyntaxFailure e) | Inr x \<Rightarrow> Inr x)"

definition ignore_empty_element :: "nat \<Rightarrow> link_syntax_error + nat" where
  "ignore_empty_element ignored =
     (if ignored + 1 > MAX_IGNORED_EMPTY_LIST_ELEMENTS then Inl LinkHeaderSyntaxError else Inr (ignored + 1))"

function skip_commas :: "nat \<Rightarrow> string \<Rightarrow> link_syntax_error + nat \<times> string" where
  "skip_commas ignored cs =
     (if cs \<noteq> [] \<and> hd cs = CHR '','' then
        and_then (ignore_empty_element ignored) (\<lambda>n. skip_commas n (LinkSkipOws (tl cs)))
      else Inr (ignored, cs))"
  by pat_completeness auto

termination skip_commas
proof (relation "measure (length \<circ> snd)", goal_cases)
  case (2 ignored cs n)
  then show ?case using LinkSkipOws_shorter [of "tl cs"] by (cases cs) auto
qed simp

declare skip_commas.simps [simp del]

lemma skip_commas_shorter: "skip_commas ignored cs = Inr (n, rest) \<Longrightarrow> length rest \<le> length cs"
proof (induction ignored cs rule: skip_commas.induct)
  case (1 ignored cs)
  show ?case
  proof (cases "cs \<noteq> [] \<and> hd cs = CHR '',''")
    case True
    with "1.prems" obtain m where m: "ignore_empty_element ignored = Inr m"
        "skip_commas m (LinkSkipOws (tl cs)) = Inr (n, rest)"
      by (subst (asm) skip_commas.simps) auto
    then have "length rest \<le> length (LinkSkipOws (tl cs))" using "1.IH" True by blast
    then show ?thesis using LinkSkipOws_shorter [of "tl cs"] by simp
  next
    case False
    with "1.prems" show ?thesis by (subst (asm) skip_commas.simps) auto
  qed
qed

lemma ParseLinkValue_shorter: "ParseLinkValue cs = Inr (rest, link) \<Longrightarrow> length rest < length cs"
proof -
  assume "ParseLinkValue cs = Inr (rest, link)"
  then obtain target after flags where c: "LinkSkipOws cs \<noteq> []" "cut_at CHR ''>'' (tl (LinkSkipOws cs)) = (target, Some after)"
      "param_loop (False, False, False) after = Inr (rest, flags)"
    by (auto simp: ParseLinkValue_def Let_def split: if_splits prod.splits option.splits)
  have "length after < length (tl (LinkSkipOws cs))"
    using cut_append(2) [OF c(2)] by simp
  then show ?thesis using param_loop_shorter [OF c(3)] LinkSkipOws_shorter [of cs] by simp
qed

text \<open>The loop over the link values of one field, on the count of ignored elements and the visitor.\<close>

function value_loop :: "('s, 'e) visitor \<Rightarrow> nat \<Rightarrow> 's \<Rightarrow> string \<Rightarrow> 'e link_failure + nat \<times> 's" where
  "value_loop visit ignored s cs =
     (if cs = [] then Inr (ignored, s)
      else
        and_then (lift_syntax (ParseLinkValue cs)) (\<lambda>(cs1, link).
        and_then (visit_link visit s link) (\<lambda>s'.
          let cs2 = LinkSkipOws cs1 in
          if cs2 = [] then Inr (ignored, s')
          else if hd cs2 \<noteq> CHR '','' then Inl (SyntaxFailure LinkHeaderSyntaxError)
          else
            let cs3 = LinkSkipOws (tl cs2) in
            if cs3 = [] then and_then (lift_syntax (ignore_empty_element ignored)) (\<lambda>n. Inr (n, s'))
            else and_then (lift_syntax (skip_commas ignored cs3)) (\<lambda>(n, cs4). value_loop visit n s' cs4))))"
  by pat_completeness auto

lemma lift_syntax_Inr [simp]: "lift_syntax r = Inr x \<longleftrightarrow> r = Inr x"
  by (auto simp: lift_syntax_def split: sum.splits)

lemma value_progress:
  assumes "ParseLinkValue cs = Inr (cs1, link)" and "skip_commas n (LinkSkipOws (tl (LinkSkipOws cs1))) = Inr (m, cs4)"
  shows "length cs4 < length cs"
  using ParseLinkValue_shorter [OF assms(1)] skip_commas_shorter [OF assms(2)]
    LinkSkipOws_shorter [of "tl (LinkSkipOws cs1)"] LinkSkipOws_shorter [of cs1] by simp

termination value_loop
  by (relation "measure (\<lambda>(_, _, _, cs). length cs)") (auto dest: value_progress)

declare value_loop.simps [simp del]

fun field_loop :: "('s, 'e) visitor \<Rightarrow> nat \<Rightarrow> 's \<Rightarrow> string list \<Rightarrow> 'e link_failure + 's" where
  "field_loop visit ignored s [] = Inr s"
| "field_loop visit ignored s (field # fields) =
     and_then (lift_syntax (skip_commas ignored (LinkSkipOws field))) (\<lambda>(n, cs).
     and_then (value_loop visit n s cs) (\<lambda>(n', s'). field_loop visit n' s' fields))"

definition ParseLinkHeaderFields :: "('s, 'e) visitor \<Rightarrow> 's \<Rightarrow> string list \<Rightarrow> 'e link_failure + 's" where
  "ParseLinkHeaderFields visit s fields = field_loop visit 0 s fields"

subsection \<open>Visiting a list of links\<close>

fun fold_visit :: "('s, 'e) visitor \<Rightarrow> 's \<Rightarrow> (string \<times> bool) list \<Rightarrow> 'e link_failure + 's" where
  "fold_visit visit s [] = Inr s"
| "fold_visit visit s (link # links) = and_then (visit_link visit s link) (\<lambda>s'. fold_visit visit s' links)"

lemma fold_visit_append:
  "fold_visit visit s (ls @ ms) = and_then (fold_visit visit s ls) (\<lambda>s'. fold_visit visit s' ms)"
  by (induction ls arbitrary: s) (auto simp: and_then_def split: sum.splits)

definition collect_link :: "((string \<times> bool) list, 'e) visitor" where
  "collect_link links target has_next = Inr (links @ [(target, has_next)])"

lemma visit_collect [simp]: "visit_link collect_link acc link = Inr (acc @ [link])"
  by (simp add: visit_link_def collect_link_def)

lemma ParseLinkValue_target: "ParseLinkValue cs = Inr (rest, target, has_next) \<Longrightarrow> IsValidUriReference target"
  by (auto simp: ParseLinkValue_def Let_def split: if_splits prod.splits option.splits)

text \<open>
  A parse that succeeds with one visitor fixes the list of links that every visitor is called on.
\<close>

lemma value_loop_visits:
  fixes v :: "('t, 'f) visitor"
  assumes "value_loop v n t cs = Inr (m, t')"
  shows "\<exists>links. fold_visit v t links = Inr t' \<and> (\<forall>l\<in>set links. IsValidUriReference (fst l)) \<and>
           (\<forall>(visit :: ('s, 'e) visitor) s.
              value_loop visit n s cs = and_then (fold_visit visit s links) (\<lambda>s'. Inr (m, s')))"
  using assms
proof (induction v n t cs arbitrary: m t' rule: value_loop.induct)
  case (1 v n t cs)
  show ?case
  proof (cases "cs = []")
    case True
    with "1.prems" show ?thesis by (intro exI [of _ "[]"]) (simp add: value_loop.simps)
  next
    case False
    with "1.prems" obtain cs1 link t1 where v: "ParseLinkValue cs = Inr (cs1, link)" and t1: "visit_link v t link = Inr t1"
      by (subst (asm) value_loop.simps) auto
    have ok: "IsValidUriReference (fst link)" using ParseLinkValue_target [of cs cs1 "fst link" "snd link"] v by simp
    consider (last) "LinkSkipOws cs1 = []" "m = n" "t' = t1"
      | (trailing) "LinkSkipOws cs1 \<noteq> []" "hd (LinkSkipOws cs1) = CHR '',''" "LinkSkipOws (tl (LinkSkipOws cs1)) = []"
          "ignore_empty_element n = Inr m" "t' = t1"
      | (more) n' cs4 where "LinkSkipOws cs1 \<noteq> []" "hd (LinkSkipOws cs1) = CHR '',''"
          "LinkSkipOws (tl (LinkSkipOws cs1)) \<noteq> []"
          "skip_commas n (LinkSkipOws (tl (LinkSkipOws cs1))) = Inr (n', cs4)" "value_loop v n' t1 cs4 = Inr (m, t')"
      using "1.prems" False v t1 unfolding value_loop.simps [of _ n t cs]
      by (auto simp: Let_def lift_syntax_def split: if_splits sum.splits)
    then show ?thesis
    proof cases
      case more
      have "\<exists>links. fold_visit v t1 links = Inr t' \<and> (\<forall>l\<in>set links. IsValidUriReference (fst l)) \<and>
           (\<forall>(visit :: ('s, 'e) visitor) s.
              value_loop visit n' s cs4 = and_then (fold_visit visit s links) (\<lambda>s'. Inr (m, s')))"
        using "1.IH" [OF False _ refl t1 refl more(1) _ refl more(3) _ refl more(5)] v more by simp
      then obtain links where ls: "fold_visit v t1 links = Inr t'" "\<forall>l\<in>set links. IsValidUriReference (fst l)"
          "\<And>(visit :: ('s, 'e) visitor) s.
              value_loop visit n' s cs4 = and_then (fold_visit visit s links) (\<lambda>s'. Inr (m, s'))" by blast
      show ?thesis
        using ls(1,2) ok v t1 more False
        by (intro exI [of _ "link # links"])
           (simp add: value_loop.simps [of _ n _ cs] lift_syntax_def ls(3) and_then_assoc)
    qed (use False v t1 ok in \<open>intro exI [of _ "[link]"]; simp add: value_loop.simps [of _ n _ cs] lift_syntax_def\<close>)+
  qed
qed

lemma field_loop_visits:
  fixes v :: "('t, 'f) visitor"
  assumes "field_loop v n t fields = Inr t'"
  shows "\<exists>links. fold_visit v t links = Inr t' \<and> (\<forall>l\<in>set links. IsValidUriReference (fst l)) \<and>
           (\<forall>(visit :: ('s, 'e) visitor) s. field_loop visit n s fields = fold_visit visit s links)"
  using assms
proof (induction fields arbitrary: n t)
  case Nil
  then show ?case by (intro exI [of _ "[]"]) simp
next
  case (Cons field fields)
  from Cons.prems obtain n1 cs n2 t2 where c: "skip_commas n (LinkSkipOws field) = Inr (n1, cs)"
      "value_loop v n1 t cs = Inr (n2, t2)" "field_loop v n2 t2 fields = Inr t'"
    by auto
  obtain ls where ls: "fold_visit v t ls = Inr t2" "\<forall>l\<in>set ls. IsValidUriReference (fst l)"
      "\<And>(visit :: ('s, 'e) visitor) s. value_loop visit n1 s cs = and_then (fold_visit visit s ls) (\<lambda>s'. Inr (n2, s'))"
    using value_loop_visits [where 's = 's and 'e = 'e, OF c(2)] by blast
  obtain ms where ms: "fold_visit v t2 ms = Inr t'" "\<forall>l\<in>set ms. IsValidUriReference (fst l)"
      "\<And>(visit :: ('s, 'e) visitor) s. field_loop visit n2 s fields = fold_visit visit s ms"
    using Cons.IH [OF c(3)] by blast
  show ?case
    using ls(1,2) ms(1,2) c(1)
    by (intro exI [of _ "ls @ ms"])
       (auto simp: ls(3) ms(3) lift_syntax_def fold_visit_append and_then_assoc)
qed

text \<open>The links of the fields, independent of who visits them.\<close>

lemma fold_collect: "fold_visit collect_link acc links = Inr (acc @ links)"
  by (induction links arbitrary: acc) simp_all

definition link_values :: "string list \<Rightarrow> (string \<times> bool) list option" where
  "link_values fields =
     (case ParseLinkHeaderFields (collect_link :: ((string \<times> bool) list, unit) visitor) [] fields of
        Inl _ \<Rightarrow> None | Inr links \<Rightarrow> Some links)"

lemma visits_of_fields:
  fixes v :: "('t, 'f) visitor"
  assumes "ParseLinkHeaderFields v t fields = Inr t'"
  obtains links where "link_values fields = Some links" "fold_visit v t links = Inr t'"
    "\<forall>l\<in>set links. IsValidUriReference (fst l)"
  using field_loop_visits [where 's = "(string \<times> bool) list" and 'e = unit, of v 0 t fields t'] assms
  by (auto simp: ParseLinkHeaderFields_def link_values_def fold_collect)

lemma fields_visited:
  fixes v :: "('t, 'f) visitor"
  assumes "link_values fields = Some links"
  shows "ParseLinkHeaderFields v t fields = fold_visit v t links"
  using field_loop_visits [where 's = 't and 'e = 'f,
      of "collect_link :: ((string \<times> bool) list, unit) visitor" 0 "[]" fields links] assms
  by (auto simp: ParseLinkHeaderFields_def link_values_def fold_collect split: sum.splits)

subsection \<open>Rendering links\<close>

record link =
  link_target :: string
  link_relations :: "string list"
  link_anchor :: "string option"

definition render_parameters :: "link \<Rightarrow> string" where
  "render_parameters l =
     ''; rel='' @ CHR 0x22 # join CHR '' '' (link_relations l) @ CHR 0x22 #
     (case link_anchor l of None \<Rightarrow> [] | Some a \<Rightarrow> ''; anchor='' @ CHR 0x22 # a @ [CHR 0x22])"

definition render_link :: "link \<Rightarrow> string" where
  "render_link l = CHR ''<'' # link_target l @ CHR ''>'' # render_parameters l"

fun render_field :: "link list \<Rightarrow> string" where
  "render_field [] = []"
| "render_field [l] = render_link l"
| "render_field (l # ls) = render_link l @ '', '' @ render_field ls"

definition well_formed_link :: "link \<Rightarrow> bool" where
  "well_formed_link l \<longleftrightarrow>
     IsValidUriReference (link_target l) \<and> link_relations l \<noteq> [] \<and> list_all IsRegisteredRelation (link_relations l) \<and>
     (case link_anchor l of None \<Rightarrow> True | Some a \<Rightarrow> IsValidUriReference a)"

definition visited :: "link \<Rightarrow> string \<times> bool" where
  "visited l =
     (link_target l,
      link_anchor l = None \<and> list_ex (\<lambda>r. EqualsAsciiIgnoreCase r ''next'') (link_relations l))"

text \<open>URI characters are printable, and neither quotes nor angle brackets.\<close>

lemma uri_char_printable: "uri_char c \<Longrightarrow> 0x21 \<le> byte c \<and> byte c \<le> 0x7e"
  by (auto simp: uri_char_def hier_char_def IsUnreserved_def IsSubDelimiter_def IsAsciiAlpha_def IsAsciiDigit_def
      in_range_def byte_def)

lemma not_uri_chars: "\<not> uri_char CHR 0x22" "\<not> uri_char CHR 0x5C" "\<not> uri_char CHR ''>''" "\<not> uri_char CHR '' ''"
  by code_simp+

definition quotable :: "char \<Rightarrow> bool" where
  "quotable c \<longleftrightarrow> uri_char c \<or> c = CHR '' ''"

lemma quotable_byte: "quotable c \<Longrightarrow> c \<noteq> CHR 0x22 \<and> c \<noteq> CHR 0x5C \<and> \<not> byte c < 0x20 \<and> byte c \<noteq> 0x7f"
proof -
  assume "quotable c"
  moreover have "byte CHR '' '' = 0x20" by code_simp
  ultimately show ?thesis
    using uri_char_printable [of c] not_uri_chars(1,2) by (auto simp: quotable_def)
qed

lemma quoted_loop_plain:
  "list_all quotable v \<Longrightarrow> link_quoted_loop result (v @ CHR 0x22 # rest) = Inr (result @ v, rest)"
proof (induction v arbitrary: result)
  case (Cons c v)
  then show ?case using quotable_byte [of c] by auto
qed simp

lemma parse_quoted: "list_all quotable v \<Longrightarrow> ParseParameterValue (CHR 0x22 # v @ CHR 0x22 # rest) = Inr (v, rest)"
  by (simp add: ParseParameterValue_def LinkParseQuotedString_def quoted_loop_plain)

lemma reference_quotable: "IsValidUriReference v \<Longrightarrow> list_all quotable v \<and> CHR ''>'' \<notin> set v"
  using reference_uri_chars [of v False] not_uri_chars(3)
  by (auto simp: IsValidUriReference_def quotable_def list_all_iff)

lemma registered_chars: "IsRegisteredRelation r \<Longrightarrow> r \<noteq> [] \<and> list_all uri_char r"
  using delimiter_hier_chars(3,10)
  by (cases r) (auto simp: IsRegisteredRelation_def list_all_iff uri_char_def alpha_hier_char digit_hier_char)

lemma registered_no_space: "IsRegisteredRelation r \<Longrightarrow> CHR '' '' \<notin> set r"
  using registered_chars [of r] not_uri_chars(4) by (auto simp: list_all_iff)

lemma join_quotable: "list_all IsRegisteredRelation rs \<Longrightarrow> list_all quotable (join CHR '' '' rs)"
  by (induction "CHR '' ''" rs rule: join.induct)
     (auto dest!: registered_chars simp: quotable_def list_all_iff)

lemma relation_token:
  assumes "IsRegisteredRelation r"
  shows "relation_loop b r = Inr (b \<or> EqualsAsciiIgnoreCase r ''next'')"
    and "relation_loop b (r @ CHR '' '' # rest) =
           relation_loop (b \<or> EqualsAsciiIgnoreCase r ''next'') (dropWhile (\<lambda>c. c = CHR '' '') rest)"
proof -
  have sp: "takeWhile (\<lambda>c. c \<noteq> CHR '' '') r = r" "dropWhile (\<lambda>c. c \<noteq> CHR '' '') r = []" "r \<noteq> []"
    using registered_no_space [OF assms] registered_chars [OF assms] by (auto simp: takeWhile_eq_all_conv)
  show "relation_loop b r = Inr (b \<or> EqualsAsciiIgnoreCase r ''next'')"
    unfolding relation_loop.simps [of b r] Let_def sp using assms sp(3) by (simp add: relation_loop.simps [of _ "[]"])
  show "relation_loop b (r @ CHR '' '' # rest) =
           relation_loop (b \<or> EqualsAsciiIgnoreCase r ''next'') (dropWhile (\<lambda>c. c = CHR '' '') rest)"
    using sp assms registered_no_space [OF assms]
    by (subst relation_loop.simps) (simp add: takeWhile_append dropWhile_append)
qed

lemma registered_hd: "IsRegisteredRelation r \<Longrightarrow> hd (r @ s) \<noteq> CHR '' '' \<and> r @ s \<noteq> []"
  using registered_no_space [of r] registered_chars [of r] by (cases r) auto

lemma relation_loop_join:
  "rs \<noteq> [] \<Longrightarrow> list_all IsRegisteredRelation rs \<Longrightarrow>
   relation_loop b (join CHR '' '' rs) = Inr (b \<or> list_ex (\<lambda>r. EqualsAsciiIgnoreCase r ''next'') rs)"
proof (induction "CHR '' ''" rs arbitrary: b rule: join.induct)
  case (3 r r' rs)
  have "hd (join CHR '' '' (r' # rs)) \<noteq> CHR '' ''" "join CHR '' '' (r' # rs) \<noteq> []"
    using 3 registered_hd [of r' "[]"] registered_hd [of r'] by (cases rs; simp)+
  then have "dropWhile (\<lambda>c. c = CHR '' '') (join CHR '' '' (r' # rs)) = join CHR '' '' (r' # rs)"
    by (cases "join CHR '' '' (r' # rs)") auto
  then show ?case using 3 relation_token(2) [of r b] by simp
qed (simp_all add: relation_token)

lemma join_last:
  "rs \<noteq> [] \<Longrightarrow> list_all IsRegisteredRelation rs \<Longrightarrow>
   join CHR '' '' rs \<noteq> [] \<and> hd (join CHR '' '' rs) \<noteq> CHR '' '' \<and> last (join CHR '' '' rs) \<noteq> CHR '' ''"
proof (induction "CHR '' ''" rs rule: join.induct)
  case (2 r)
  then show ?case using registered_no_space [of r] registered_chars [of r] registered_hd [of r "[]"]
    by (simp add: last_in_set) (metis last_in_set)
next
  case (3 r r' rs)
  then show ?case using registered_hd [of r] by simp
qed simp

lemma relation_of_join:
  "rs \<noteq> [] \<Longrightarrow> list_all IsRegisteredRelation rs \<Longrightarrow>
   RelationContainsNext (join CHR '' '' rs) = Inr (list_ex (\<lambda>r. EqualsAsciiIgnoreCase r ''next'') rs)"
  using join_last [of rs] relation_loop_join [of rs False] by (simp add: RelationContainsNext_def)

lemma skip_nothing: "cs = [] \<or> \<not> LinkIsOws (hd cs) \<Longrightarrow> LinkSkipOws cs = cs"
  by (cases cs) (auto simp: LinkSkipOws_def)

lemma delimiters_not_ows:
  "\<not> LinkIsOws CHR ''<''" "\<not> LinkIsOws CHR '',''" "\<not> LinkIsOws CHR '';''" "\<not> LinkIsOws CHR ''=''" "\<not> LinkIsOws CHR 0x22"
  by code_simp+

lemma parameter_names:
  "LinkParseToken (LinkSkipOws ('' rel='' @ cs)) = Inr (''rel'', CHR ''='' # cs)"
  "LinkParseToken (LinkSkipOws ('' anchor='' @ cs)) = Inr (''anchor'', CHR ''='' # cs)"
proof -
  have "list_all LinkIsTokenCharacter (''rel'' @ ''anchor'')" "\<not> LinkIsTokenCharacter CHR ''=''"
      "list_all (\<lambda>c. \<not> LinkIsOws c) ''ra''" "LinkIsOws CHR '' ''"
    by code_simp+
  then show "LinkParseToken (LinkSkipOws ('' rel='' @ cs)) = Inr (''rel'', CHR ''='' # cs)"
      "LinkParseToken (LinkSkipOws ('' anchor='' @ cs)) = Inr (''anchor'', CHR ''='' # cs)"
    by (simp_all add: LinkParseToken_def LinkSkipOws_def)
qed

lemma names_compared:
  "EqualsAsciiIgnoreCase ''rel'' ''rel''" "\<not> EqualsAsciiIgnoreCase ''anchor'' ''rel''"
  "EqualsAsciiIgnoreCase ''anchor'' ''anchor''"
  by code_simp+

lemma rel_parameter:
  assumes "rs \<noteq> []" and "list_all IsRegisteredRelation rs"
  shows "link_parameter (False, a, h) ('' rel='' @ CHR 0x22 # join CHR '' '' rs @ CHR 0x22 # rest) =
         Inr (rest, True, a, list_ex (\<lambda>r. EqualsAsciiIgnoreCase r ''next'') rs)"
  unfolding link_parameter_def prod.case parameter_names and_then_simps
  using join_quotable [OF assms(2)]
  by (simp add: skip_nothing delimiters_not_ows parse_quoted names_compared relation_of_join [OF assms])

lemma anchor_parameter:
  assumes "IsValidUriReference v"
  shows "link_parameter (r, a, h) ('' anchor='' @ CHR 0x22 # v @ CHR 0x22 # rest) = Inr (rest, r, True, h)"
  unfolding link_parameter_def prod.case parameter_names and_then_simps
  using reference_quotable [OF assms] assms
  by (simp add: skip_nothing delimiters_not_ows parse_quoted names_compared)

lemma param_loop_end: "rest = [] \<or> hd rest = CHR '','' \<Longrightarrow> param_loop flags rest = Inr (rest, flags)"
  by (subst param_loop.simps) (auto simp: skip_nothing delimiters_not_ows)

lemma param_loop_semicolon:
  "param_loop flags (CHR '';'' # cs) = and_then (link_parameter flags cs) (\<lambda>(rest, flags'). param_loop flags' rest)"
  by (subst param_loop.simps) (simp add: skip_nothing delimiters_not_ows)

lemma param_loop_rendered:
  assumes wf: "well_formed_link l" and rest: "rest = [] \<or> hd rest = CHR '',''"
  shows "param_loop (False, False, False) (render_parameters l @ rest) =
         Inr (rest, True, link_anchor l \<noteq> None, list_ex (\<lambda>r. EqualsAsciiIgnoreCase r ''next'') (link_relations l))"
proof -
  let ?next = "list_ex (\<lambda>r. EqualsAsciiIgnoreCase r ''next'') (link_relations l)"
  let ?tail = "case link_anchor l of None \<Rightarrow> [] | Some a \<Rightarrow> ''; anchor='' @ CHR 0x22 # a @ [CHR 0x22]"
  have whole: "render_parameters l @ rest =
      CHR '';'' # '' rel='' @ CHR 0x22 # join CHR '' '' (link_relations l) @ CHR 0x22 # ?tail @ rest"
    by (simp add: render_parameters_def)
  have rels: "link_relations l \<noteq> []" "list_all IsRegisteredRelation (link_relations l)"
    using wf by (simp_all add: well_formed_link_def)
  have "param_loop (False, False, False) (render_parameters l @ rest) = param_loop (True, False, ?next) (?tail @ rest)"
    unfolding whole param_loop_semicolon rel_parameter [OF rels] by simp
  moreover have "param_loop (True, False, ?next) (?tail @ rest) = Inr (rest, True, link_anchor l \<noteq> None, ?next)"
  proof (cases "link_anchor l")
    case (Some a)
    then have tail: "?tail @ rest = CHR '';'' # '' anchor='' @ CHR 0x22 # a @ CHR 0x22 # rest" by simp
    have "IsValidUriReference a" using wf Some by (simp add: well_formed_link_def)
    then show ?thesis
      unfolding tail param_loop_semicolon using Some rest by (simp only: anchor_parameter) (simp add: param_loop_end)
  qed (use rest param_loop_end in simp)
  ultimately show ?thesis by simp
qed

lemma parse_rendered_link:
  assumes wf: "well_formed_link l" and rest: "rest = [] \<or> hd rest = CHR '',''"
  shows "ParseLinkValue (render_link l @ rest) = Inr (rest, visited l)"
proof -
  have t: "IsValidUriReference (link_target l)" using wf by (simp add: well_formed_link_def)
  then have "cut_at CHR ''>'' (link_target l @ CHR ''>'' # render_parameters l @ rest) =
      (link_target l, Some (render_parameters l @ rest))"
    using reference_quotable by (intro cut_build(2)) blast
  then show ?thesis
    using t param_loop_rendered [OF assms]
    by (simp add: ParseLinkValue_def render_link_def skip_nothing delimiters_not_ows visited_def conj_commute)
qed

lemma render_field_hd: "ls \<noteq> [] \<Longrightarrow> render_field ls \<noteq> [] \<and> hd (render_field ls) = CHR ''<''"
  by (induction ls rule: render_field.induct) (simp_all add: render_link_def)

lemma skip_commas_none: "cs = [] \<or> hd cs \<noteq> CHR '','' \<Longrightarrow> skip_commas n cs = Inr (n, cs)"
  by (subst skip_commas.simps) auto

lemma value_loop_rendered:
  "list_all well_formed_link ls \<Longrightarrow>
   value_loop visit n s (render_field ls) = and_then (fold_visit visit s (map visited ls)) (\<lambda>s'. Inr (n, s'))"
proof (induction ls arbitrary: s rule: render_field.induct)
  case 1
  show ?case by (simp add: value_loop.simps)
next
  case (2 l)
  then have "ParseLinkValue (render_link l) = Inr ([], visited l)" using parse_rendered_link [of l "[]"] by simp
  then show ?case
    by (subst value_loop.simps) (simp add: render_link_def skip_nothing lift_syntax_def)
next
  case (3 l l' ls)
  let ?more = "render_field (l' # ls)"
  have p: "ParseLinkValue (render_link l @ '', '' @ ?more) = Inr ('', '' @ ?more, visited l)"
    using 3 parse_rendered_link [of l "'', '' @ ?more"] by simp
  have more: "?more \<noteq> []" "hd ?more = CHR ''<''" using render_field_hd [of "l' # ls"] by blast+
  have "LinkSkipOws (CHR '' '' # ?more) = ?more"
    using more by (cases ?more) (auto simp: LinkSkipOws_def LinkIsOws_def)
  then have "value_loop visit n s (render_field (l # l' # ls)) =
      and_then (visit_link visit s (visited l)) (\<lambda>s'. value_loop visit n s' ?more)"
    using p more
    by (subst value_loop.simps)
       (simp add: render_link_def skip_nothing delimiters_not_ows lift_syntax_def skip_commas_none)
  also have "\<dots> = and_then (visit_link visit s (visited l)) (\<lambda>s'.
      and_then (fold_visit visit s' (map visited (l' # ls))) (\<lambda>s''. Inr (n, s'')))"
    using 3 by simp
  finally show ?case by (simp add: and_then_assoc)
qed

lemma field_loop_rendered:
  "list_all (list_all well_formed_link) lss \<Longrightarrow>
   field_loop visit n s (map render_field lss) = fold_visit visit s (map visited (concat lss))"
proof (induction lss arbitrary: s)
  case (Cons ls lss)
  have "LinkSkipOws (render_field ls) = render_field ls" "skip_commas n (render_field ls) = Inr (n, render_field ls)"
    using render_field_hd [of ls] by (cases "ls = []"; simp add: skip_nothing delimiters_not_ows skip_commas_none)+
  then show ?case
    using Cons by (simp add: lift_syntax_def value_loop_rendered fold_visit_append and_then_assoc)
qed simp

subsection \<open>Properties\<close>

text \<open>
  C22. Parsing inverts rendering: whatever visitor the caller passes, parsing the rendering of links with
  valid targets, registered relations and optional valid anchors, spread over any number of fields, visits
  exactly these links in order, telling the visitor a link is a next link when one of its relations
  is \<open>next\<close> in any case and it has no anchor, and stops at the first exception of the visitor.
\<close>

theorem link_header_roundtrip:
  assumes "list_all (list_all well_formed_link) lss"
  shows "ParseLinkHeaderFields visit s (map render_field lss) = fold_visit visit s (map visited (concat lss))"
  using field_loop_rendered [OF assms] by (simp add: ParseLinkHeaderFields_def)

theorem link_header_roundtrip_witness:
  "ParseLinkHeaderFields (collect_link :: ((string \<times> bool) list, unit) visitor) []
     [''<https://h/a?page=2>; rel='' @ CHR 0x22 # ''prev Next'' @ [CHR 0x22]] =
   Inr [(''https://h/a?page=2'', True)]"
proof -
  let ?l = "\<lparr>link_target = ''https://h/a?page=2'', link_relations = [''prev'', ''Next''], link_anchor = None\<rparr>"
  have wf: "list_all (list_all well_formed_link) [[?l]]" by code_simp
  have "map render_field [[?l]] = [''<https://h/a?page=2>; rel='' @ CHR 0x22 # ''prev Next'' @ [CHR 0x22]]"
    by (simp add: render_link_def render_parameters_def)
  moreover have "visited ?l = (''https://h/a?page=2'', True)" by code_simp
  ultimately show ?thesis
    using link_header_roundtrip [OF wf, of "collect_link :: ((string \<times> bool) list, unit) visitor" "[]"] by simp
qed

end
