(* ===== verification/Link_Pagination.thy ===== *)
theory Link_Pagination
  imports Link_Header
begin

text \<open>
  The page sequence of a paginated REST scan, \<open>src/src/runtime/pagination/link_pagination.cpp\<close>. The record
  \<open>page_profile\<close> holds the fields of the admitted request profile that the state reads. A call of the
  state object returns its outcome together with the new state; the source's three \<open>try\<close> blocks turn an
  exhausted heap and any other foreign exception into a terminal error, and whether one of them
  occurs during a call is an argument of it.

  The target of a continuation is shown to be accepted exactly when it names the profile's origin, path and
  the next page, and the pages a scan visits are shown to be an arithmetic progression that never wraps.
\<close>

subsection \<open>Profile, errors and state\<close>

record page_profile =
  Scheme :: string
  Host :: string
  Port :: u16
  Path :: string
  PageNumberParameter :: string
  PageSize :: u64
  FirstPage :: u64
  PageIncrement :: u64

datatype link_pagination_error = MALFORMED | POLICY | STATE

record LinkPageTransition =
  has_next :: bool
  next_page :: u64

record LinkPaginationState =
  profile :: page_profile
  current_page :: u64
  seen_page_count :: u64
  exhausted :: bool
  failed :: bool

text \<open>What happens to the memory allocations of a call.\<close>

datatype call_event = Completes | BadAlloc | OtherException

subsection \<open>Decimal numbers\<close>

fun positive_decimal_loop :: "u64 \<Rightarrow> string \<Rightarrow> link_pagination_error + u64" where
  "positive_decimal_loop result [] = Inr result"
| "positive_decimal_loop result (c # cs) =
     (if \<not> in_range CHR ''0'' CHR ''9'' c then Inl POLICY
      else
        let digit = of_nat (byte c - byte CHR ''0'') in
        if result > (uint64_max - digit) div 10 then Inl POLICY
        else positive_decimal_loop (result * 10 + digit) cs)"

definition ParsePositiveDecimal :: "string \<Rightarrow> link_pagination_error + u64" where
  "ParsePositiveDecimal v =
     (if v = [] \<or> \<not> in_range CHR ''1'' CHR ''9'' (hd v) then Inl POLICY else positive_decimal_loop 0 v)"

subsection \<open>The target of a continuation\<close>

definition strip_prefix :: "string \<Rightarrow> string \<Rightarrow> string option" where
  "strip_prefix prefix s = (if take (length prefix) s = prefix then Some (drop (length prefix) s) else None)"

text \<open>The fields of the query from the current offset on, with the names received and the page so far.\<close>

function query_loop :: "string \<Rightarrow> string list \<Rightarrow> u64 \<Rightarrow> string \<Rightarrow> link_pagination_error + u64" where
  "query_loop page_parameter received parsed_page cs =
     (case cut_at CHR ''&'' cs of (field, separator) \<Rightarrow>
        if field = [] then Inl POLICY
        else case cut_at CHR ''='' field of
          (name, None) \<Rightarrow> Inl POLICY
        | (name, Some v) \<Rightarrow>
            if name = [] \<or> CHR ''='' \<in> set v then Inl POLICY
            else if name \<in> set received then Inl POLICY
            else
              and_then (if name = page_parameter then ParsePositiveDecimal v else Inr parsed_page) (\<lambda>page.
                case separator of
                  None \<Rightarrow> Inr page
                | Some rest \<Rightarrow>
                    if rest = [] then Inl POLICY else query_loop page_parameter (name # received) page rest))"
  by pat_completeness auto

lemma cut_shorter: "cut_at d cs = (a, Some rest) \<Longrightarrow> length rest < length cs"
  by (drule cut_append(2)) simp

termination query_loop
  by (relation "measure (\<lambda>(_, _, _, cs). length cs)") (auto dest: cut_shorter cut_shorter [OF sym])

declare query_loop.simps [simp del]

definition ValidateNextTarget :: "string \<Rightarrow> u64 \<Rightarrow> page_profile \<Rightarrow> link_pagination_error + u64" where
  "ValidateNextTarget target current p =
     (case strip_prefix (Scheme p @ ''://'' @ Host p) target of
        None \<Rightarrow> Inl POLICY
      | Some after_host \<Rightarrow>
          and_then
            (case strip_prefix ('':'' @ decimal (unat (Port p))) after_host of
               Some after_port \<Rightarrow> Inr after_port
             | None \<Rightarrow> if Scheme p \<noteq> ''https'' \<or> Port p \<noteq> 443 then Inl POLICY else Inr after_host)
            (\<lambda>location.
               case strip_prefix (Path p @ ''?'') location of
                 None \<Rightarrow> Inl POLICY
               | Some query \<Rightarrow>
                   if query = [] \<or> CHR ''#'' \<in> set query then Inl POLICY
                   else
                     and_then (query_loop (PageNumberParameter p) [] 0 query) (\<lambda>parsed_page.
                       if current > uint64_max - PageIncrement p then Inl POLICY
                       else if parsed_page \<noteq> current + PageIncrement p then Inl POLICY
                       else Inr parsed_page)))"

subsection \<open>The transition\<close>

text \<open>\<open>NextTargetSelector\<close>: whether a next link was found, and its target.\<close>

definition NextTargetSelector :: "(bool \<times> string, link_pagination_error) visitor" where
  "NextTargetSelector s target has_next_relation =
     (if \<not> has_next_relation then Inr s
      else if fst s then Inl POLICY
      else Inr (True, target))"

definition ParseTransition :: "string list \<Rightarrow> u64 \<Rightarrow> page_profile \<Rightarrow> link_pagination_error + LinkPageTransition" where
  "ParseTransition link_fields current p =
     (case ParseLinkHeaderFields NextTargetSelector (False, []) link_fields of
        Inl (SyntaxFailure _) \<Rightarrow> Inl MALFORMED
      | Inl (VisitorFailure e) \<Rightarrow> Inl e
      | Inr (found, target) \<Rightarrow>
          if \<not> found then Inr \<lparr>has_next = False, next_page = 0\<rparr>
          else and_then (ValidateNextTarget target current p) (\<lambda>page. Inr \<lparr>has_next = True, next_page = page\<rparr>))"

definition CreateLinkPaginationState :: "page_profile \<Rightarrow> LinkPaginationState" where
  "CreateLinkPaginationState p =
     \<lparr>profile = p, current_page = FirstPage p, seen_page_count = 1, exhausted = False, failed = False\<rparr>"

definition CurrentPage :: "LinkPaginationState \<Rightarrow> u64" where
  "CurrentPage st = current_page st"

definition Exhausted :: "LinkPaginationState \<Rightarrow> bool" where
  "Exhausted st = exhausted st"

definition Failed :: "LinkPaginationState \<Rightarrow> bool" where
  "Failed st = failed st"

definition SeenPageCount :: "LinkPaginationState \<Rightarrow> u64" where
  "SeenPageCount st = seen_page_count st"

text \<open>The shared shape of the three calls: the guard, the \<open>try\<close> block and its handlers.\<close>

definition guarded_advance ::
  "call_event \<Rightarrow> (LinkPaginationState \<Rightarrow> link_pagination_error + LinkPageTransition) \<Rightarrow> LinkPaginationState
   \<Rightarrow> (link_pagination_error + LinkPageTransition) \<times> LinkPaginationState" where
  "guarded_advance event body st =
     (if failed st \<or> exhausted st then (Inl STATE, st)
      else case event of
        BadAlloc \<Rightarrow> (Inl STATE, st\<lparr>failed := True\<rparr>)
      | OtherException \<Rightarrow> (Inl STATE, st\<lparr>failed := True\<rparr>)
      | Completes \<Rightarrow>
          (case body st of
             Inl e \<Rightarrow> (Inl e, st\<lparr>failed := True\<rparr>)
           | Inr t \<Rightarrow>
               if \<not> has_next t then (Inr t, st\<lparr>exhausted := True\<rparr>)
               else (Inr t, st\<lparr>seen_page_count := seen_page_count st + 1, current_page := next_page t\<rparr>)))"

definition Advance where
  "Advance event link_field_values =
     guarded_advance event (\<lambda>st. ParseTransition link_field_values (current_page st) (profile st))"

definition AdvanceBody where
  "AdvanceBody event next_url =
     guarded_advance event (\<lambda>st.
       if next_url = [] then Inr \<lparr>has_next = False, next_page = 0\<rparr>
       else and_then (ValidateNextTarget next_url (current_page st) (profile st)) (\<lambda>page.
         Inr \<lparr>has_next = True, next_page = page\<rparr>))"

definition AdvanceByCount where
  "AdvanceByCount event decoded_row_count =
     guarded_advance event (\<lambda>st.
       if decoded_row_count = 0 \<or> decoded_row_count < PageSize (profile st)
       then Inr \<lparr>has_next = False, next_page = 0\<rparr>
       else if current_page st > uint64_max - PageIncrement (profile st) then Inl POLICY
       else Inr \<lparr>has_next = True, next_page = current_page st + PageIncrement (profile st)\<rparr>)"

subsection \<open>Canonical decimal numbers\<close>

lemma decimal_overflow_check:
  assumes "d < 10"
  shows "(result::u64) > (uint64_max - of_nat d) div 10 \<longleftrightarrow> 10 * unat result + d \<ge> 2 ^ 64"
    and "10 * unat result + d < 2 ^ 64 \<Longrightarrow> unat (result * 10 + of_nat d) = 10 * unat result + d"
proof -
  have d: "unat (of_nat d :: u64) = d" using assms by (simp add: unat_of_nat)
  have "unat (uint64_max - of_nat d :: u64) = 18446744073709551615 - d"
    using unat_sub_le [of "of_nat d" uint64_max] d by simp
  then have "unat ((uint64_max - of_nat d :: u64) div 10) = (18446744073709551615 - d) div 10"
    by (simp add: unat_div)
  then show "(result::u64) > (uint64_max - of_nat d) div 10 \<longleftrightarrow> 10 * unat result + d \<ge> 2 ^ 64"
    using assms by (simp add: word_less_nat_alt) arith
  assume small: "10 * unat result + d < 2 ^ 64"
  have "unat (result * 10 + of_nat d) = (10 * unat result + d) mod 2 ^ 64"
    by (simp add: unat_word_ariths d mod_simps mult.commute)
  then show "unat (result * 10 + of_nat d) = 10 * unat result + d" using small by simp
qed

lemma positive_decimal_step:
  assumes "d < 10"
  shows "positive_decimal_loop result (digit_char d # cs) =
         (if 10 * unat result + d < 2 ^ 64 then positive_decimal_loop (result * 10 + of_nat d) cs else Inl POLICY)"
  using assms decimal_overflow_check(1) [OF assms, of result]
  by (simp add: in_range_def byte_digit_char byte_digits Let_def not_less [symmetric] del: not_less)

lemma positive_decimal_append:
  "positive_decimal_loop r (xs @ ys) = and_then (positive_decimal_loop r xs) (\<lambda>r'. positive_decimal_loop r' ys)"
  by (induction r xs rule: positive_decimal_loop.induct) (simp_all add: Let_def)

lemma positive_decimal_of_decimal: "n < 2 ^ 64 \<Longrightarrow> positive_decimal_loop 0 (decimal n) = Inr (of_nat n)"
proof (induction n rule: decimal.induct)
  case (1 n)
  show ?case
  proof (cases "n < 10")
    case True
    then show ?thesis using positive_decimal_step [of n 0 "[]"] by (simp add: decimal.simps)
  next
    case False
    have q: "n div 10 < 2 ^ 64" using 1 by simp
    then have u: "unat (of_nat (n div 10) :: u64) = n div 10" by (simp add: unat_of_nat)
    have "10 * (n div 10) + n mod 10 = n" by simp
    then have "positive_decimal_loop (of_nat (n div 10)) [digit_char (n mod 10)] = Inr (of_nat n)"
      using positive_decimal_step [of "n mod 10" "of_nat (n div 10)" "[]"] 1(2) u
      by (metis (no_types, opaque_lifting) mod_less_divisor mult.commute of_nat_add of_nat_mult of_nat_numeral
          positive_decimal_loop.simps(1) zero_less_numeral)
    then show ?thesis using 1(1) [OF False q] False by (simp add: decimal.simps [of n] positive_decimal_append)
  qed
qed

lemma decimal_hd: "0 < n \<Longrightarrow> decimal n \<noteq> [] \<and> in_range CHR ''1'' CHR ''9'' (hd (decimal n))"
proof (induction n rule: decimal.induct)
  case (1 n)
  then show ?case
    by (cases "n < 10") (simp_all add: decimal.simps [of n] in_range_def byte_digits byte_digit_char)
qed

lemma positive_decimal_canonical:
  "positive_decimal_loop 0 v = Inr n \<Longrightarrow> v \<noteq> [] \<Longrightarrow> in_range CHR ''1'' CHR ''9'' (hd v) \<Longrightarrow> 0 < n \<and> v = decimal (unat n)"
proof (induction v arbitrary: n rule: rev_induct)
  case (snoc c v)
  from snoc.prems obtain m where m: "positive_decimal_loop 0 v = Inr m" "positive_decimal_loop m [c] = Inr n"
    by (auto simp: positive_decimal_append)
  from m(2) have c: "in_range CHR ''0'' CHR ''9'' c" by (auto split: if_splits)
  define d where "d = byte c - 48"
  have d: "d < 10" using c unfolding d_def in_range_def byte_digits by linarith
  have dc: "c = digit_char d" using digit_char_of_byte [OF c] by (simp add: d_def)
  have n: "n = m * 10 + of_nat d" "unat n = 10 * unat m + d"
    using m(2) positive_decimal_step [OF d, of m "[]"] decimal_overflow_check(2) [OF d, of m] dc
    by (auto split: if_splits)
  show ?case
  proof (cases "v = []")
    case True
    then have "m = 0" "1 \<le> d" using m(1) snoc.prems(3) d dc by (simp_all add: in_range_def byte_digits byte_digit_char)
    then show ?thesis using True n d dc by (simp add: decimal.simps [of d] word_less_nat_alt)
  next
    case False
    then have "0 < m" "v = decimal (unat m)" using snoc.IH [OF m(1)] snoc.prems(3) by simp_all
    moreover have "decimal (unat n) = decimal (unat n div 10) @ [digit_char (unat n mod 10)]"
      using n(2) \<open>0 < m\<close> by (subst decimal.simps) (simp add: word_less_nat_alt)
    moreover have "unat n div 10 = unat m" "unat n mod 10 = d" using n(2) d by simp_all
    ultimately show ?thesis using n(2) dc by (simp add: word_less_nat_alt)
  qed
qed simp

lemma ParsePositiveDecimal_iff: "ParsePositiveDecimal v = Inr n \<longleftrightarrow> 0 < n \<and> v = decimal (unat n)"
proof
  assume "ParsePositiveDecimal v = Inr n"
  then show "0 < n \<and> v = decimal (unat n)"
    using positive_decimal_canonical [of v n] by (simp add: ParsePositiveDecimal_def split: if_splits)
next
  assume n: "0 < n \<and> v = decimal (unat n)"
  then have "0 < unat n" by (simp add: word_less_nat_alt)
  moreover have "unat n < 2 ^ LENGTH(64)" by (rule unsigned_less)
  ultimately show "ParsePositiveDecimal v = Inr n"
    using n decimal_hd [of "unat n"] positive_decimal_of_decimal [of "unat n"]
    by (simp add: ParsePositiveDecimal_def)
qed

subsection \<open>Queries\<close>

definition render_query :: "(string \<times> string) list \<Rightarrow> string" where
  "render_query fs = join CHR ''&'' (map (\<lambda>(name, v). name @ CHR ''='' # v) fs)"

definition query_field :: "string \<times> string \<Rightarrow> bool" where
  "query_field = (\<lambda>(name, v). name \<noteq> [] \<and> CHR ''='' \<notin> set (name @ v) \<and> CHR ''&'' \<notin> set (name @ v))"

lemma render_query_cons:
  "fs \<noteq> [] \<Longrightarrow> render_query ((name, v) # fs) = (name @ CHR ''='' # v) @ CHR ''&'' # render_query fs"
  by (cases fs) (simp_all add: render_query_def)

lemma render_query_nonempty: "fs \<noteq> [] \<Longrightarrow> render_query fs \<noteq> []"
  by (cases fs; cases "tl fs") (auto simp: render_query_def split: prod.splits)

lemma field_cuts:
  assumes "query_field (name, v)"
  shows "cut_at CHR ''='' (name @ CHR ''='' # v) = (name, Some v)"
    and "cut_at CHR ''&'' (name @ CHR ''='' # v) = (name @ CHR ''='' # v, None)"
    and "cut_at CHR ''&'' (name @ CHR ''='' # v @ CHR ''&'' # rest) = (name @ CHR ''='' # v, Some rest)"
  using assms cut_build(2) [of "CHR ''=''" name v] cut_build(1) [of "CHR ''&''" "name @ CHR ''='' # v"]
    cut_build(2) [of "CHR ''&''" "name @ CHR ''='' # v" rest]
  by (auto simp: query_field_def)

text \<open>One accepted field, and what is left behind it.\<close>

lemma query_loop_first:
  "query_loop param received page cs = Inr r \<longleftrightarrow>
   (\<exists>name v page'. query_field (name, v) \<and> name \<notin> set received \<and>
      (if name = param then ParsePositiveDecimal v else Inr page) = Inr page' \<and>
      (cs = name @ CHR ''='' # v \<and> r = page' \<or>
       (\<exists>rest. cs = name @ CHR ''='' # v @ CHR ''&'' # rest \<and> rest \<noteq> [] \<and>
          query_loop param (name # received) page' rest = Inr r)))" (is "?L \<longleftrightarrow> ?R")
proof
  assume l: ?L
  obtain field sep where f: "cut_at CHR ''&'' cs = (field, sep)" by (cases "cut_at CHR ''&'' cs")
  obtain name w where e: "cut_at CHR ''='' field = (name, w)" by (cases "cut_at CHR ''='' field")
  obtain v where v: "w = Some v"
    using l f e by (cases w) (simp_all add: query_loop.simps [of param received page cs] split: if_splits)
  let ?page = "if name = param then ParsePositiveDecimal v else Inr page"
  have l': "and_then ?page (\<lambda>page'. case sep of None \<Rightarrow> Inr page' | Some rest \<Rightarrow>
          if rest = [] then Inl POLICY else query_loop param (name # received) page' rest) = Inr r"
    and g: "name \<noteq> []" "CHR ''='' \<notin> set v" "name \<notin> set received"
    using l f e v by (simp_all add: query_loop.simps [of param received page cs] split: if_splits)
  then obtain page' where p: "?page = Inr page'" "(case sep of None \<Rightarrow> Inr page' | Some rest \<Rightarrow>
          if rest = [] then Inl POLICY else query_loop param (name # received) page' rest) = Inr r"
    by (simp only: and_then_eq_Inr) blast
  have field: "field = name @ CHR ''='' # v" using cut_append(2) e v by blast
  have q: "query_field (name, v)"
    using cut_absent [OF f] cut_absent [OF e] g field by (simp add: query_field_def)
  show ?R
  proof (cases sep)
    case None
    then have "cs = name @ CHR ''='' # v \<and> r = page'" using cut_append(1) f field p(2) by simp
    then show ?thesis using q g p(1) by blast
  next
    case (Some rest)
    then have "cs = name @ CHR ''='' # v @ CHR ''&'' # rest" "rest \<noteq> []"
        "query_loop param (name # received) page' rest = Inr r"
      using cut_append(2) [of "CHR ''&''" cs field rest] f field p(2) by (simp_all split: if_splits)
    then show ?thesis using q g p(1) by blast
  qed
next
  assume ?R
  then obtain name v page' where f: "query_field (name, v)" "name \<notin> set received"
      "(if name = param then ParsePositiveDecimal v else Inr page) = Inr page'"
    and rest: "cs = name @ CHR ''='' # v \<and> r = page' \<or>
       (\<exists>rest. cs = name @ CHR ''='' # v @ CHR ''&'' # rest \<and> rest \<noteq> [] \<and>
          query_loop param (name # received) page' rest = Inr r)" by blast
  have "name \<noteq> []" "CHR ''='' \<notin> set v" using f(1) by (simp_all add: query_field_def)
  with f rest show ?L
    by (subst query_loop.simps) (auto simp: field_cuts)
qed

lemma query_loop_sound:
  "query_loop param received page cs = Inr r \<Longrightarrow>
   \<exists>fs. fs \<noteq> [] \<and> cs = render_query fs \<and> list_all query_field fs \<and> distinct (map fst fs) \<and>
        set (map fst fs) \<inter> set received = {} \<and>
        (case map_of fs param of None \<Rightarrow> r = page | Some v \<Rightarrow> ParsePositiveDecimal v = Inr r)"
proof (induction "length cs" arbitrary: cs received page rule: less_induct)
  case less
  obtain name v page' where f: "query_field (name, v)" "name \<notin> set received"
      "(if name = param then ParsePositiveDecimal v else Inr page) = Inr page'"
    and rest: "cs = name @ CHR ''='' # v \<and> r = page' \<or>
       (\<exists>rest. cs = name @ CHR ''='' # v @ CHR ''&'' # rest \<and> rest \<noteq> [] \<and>
          query_loop param (name # received) page' rest = Inr r)"
    using query_loop_first [of param received page cs r] less.prems by blast
  from rest show ?case
  proof
    assume "cs = name @ CHR ''='' # v \<and> r = page'"
    then show ?thesis using f by (intro exI [of _ "[(name, v)]"]) (auto simp: render_query_def split: if_splits)
  next
    assume "\<exists>rest. cs = name @ CHR ''='' # v @ CHR ''&'' # rest \<and> rest \<noteq> [] \<and>
          query_loop param (name # received) page' rest = Inr r"
    then obtain rest where r: "cs = name @ CHR ''='' # v @ CHR ''&'' # rest"
        "query_loop param (name # received) page' rest = Inr r" by blast
    then obtain fs where fs: "fs \<noteq> []" "rest = render_query fs" "list_all query_field fs" "distinct (map fst fs)"
        "set (map fst fs) \<inter> set (name # received) = {}"
        "case map_of fs param of None \<Rightarrow> r = page' | Some v \<Rightarrow> ParsePositiveDecimal v = Inr r"
      using less.hyps [of rest "name # received" page'] by auto
    have "map_of fs name = None" using fs(5) by (auto simp: map_of_eq_None_iff)
    then have "case map_of ((name, v) # fs) param of None \<Rightarrow> r = page | Some v \<Rightarrow> ParsePositiveDecimal v = Inr r"
      using fs(6) f(3) by (cases "name = param") (auto split: option.splits)
    then show ?thesis
      using f fs r by (intro exI [of _ "(name, v) # fs"]) (auto simp: render_query_cons)
  qed
qed

lemma query_loop_complete:
  "fs \<noteq> [] \<Longrightarrow> list_all query_field fs \<Longrightarrow> distinct (map fst fs) \<Longrightarrow> set (map fst fs) \<inter> set received = {} \<Longrightarrow>
   (case map_of fs param of None \<Rightarrow> r = page | Some v \<Rightarrow> ParsePositiveDecimal v = Inr r) \<Longrightarrow>
   query_loop param received page (render_query fs) = Inr r"
proof (induction fs arbitrary: received page)
  case (Cons f fs)
  obtain name v where f: "f = (name, v)" by (cases f)
  define page' where "page' = (if name = param then r else page)"
  have nm: "query_field (name, v)" "name \<notin> set received" using Cons.prems f by auto
  have p: "(if name = param then ParsePositiveDecimal v else Inr page) = Inr page'"
    using Cons.prems(5) f by (auto simp: page'_def)
  show ?case
  proof (cases "fs = []")
    case True
    then show ?thesis
      using nm p Cons.prems(5) f
      by (subst query_loop_first) (auto simp: render_query_def page'_def split: if_splits)
  next
    case False
    have "map_of fs name = None" using Cons.prems(3) f by (simp add: map_of_eq_None_iff)
    then have "case map_of fs param of None \<Rightarrow> r = page' | Some v \<Rightarrow> ParsePositiveDecimal v = Inr r"
      using Cons.prems(5) f by (cases "name = param") (simp_all add: page'_def split: option.splits)
    then have "query_loop param (name # received) page' (render_query fs) = Inr r"
      using Cons.IH [of "name # received" page'] Cons.prems False f by auto
    moreover have "render_query (f # fs) = name @ CHR ''='' # v @ CHR ''&'' # render_query fs"
      using False f by (simp add: render_query_cons)
    ultimately show ?thesis
      unfolding query_loop_first [of param received page] using nm p render_query_nonempty [OF False] by blast
  qed
qed simp

subsection \<open>Accepted targets\<close>

text \<open>
  The continuation a profile accepts for a page: its origin, with the port written out or, for the HTTPS
  default, left away, its path, and a query of distinct fields, one of which gives the page in
  canonical decimal form.
\<close>

definition page_location :: "page_profile \<Rightarrow> nat \<Rightarrow> string \<Rightarrow> bool" where
  "page_location p n location \<longleftrightarrow>
     (\<exists>fs. location = Path p @ ''?'' @ render_query fs \<and> list_all query_field fs \<and> distinct (map fst fs) \<and>
           CHR ''#'' \<notin> set (render_query fs) \<and> map_of fs (PageNumberParameter p) = Some (decimal n))"

definition accepted_target :: "page_profile \<Rightarrow> nat \<Rightarrow> string \<Rightarrow> bool" where
  "accepted_target p page target \<longleftrightarrow>
     (\<exists>port location.
        target = Scheme p @ ''://'' @ Host p @ port @ location \<and>
        (port = '':'' @ decimal (unat (Port p)) \<or> port = [] \<and> Scheme p = ''https'' \<and> Port p = 443) \<and>
        page_location p page location)"

lemma strip_prefix_Some: "strip_prefix a s = Some r \<longleftrightarrow> s = a @ r"
proof -
  have "take (length a) s = a \<longleftrightarrow> (\<exists>r. s = a @ r)" by (metis append_eq_conv_conj)
  then show ?thesis by (auto simp: strip_prefix_def)
qed

lemma strip_prefix_None: "strip_prefix a s = None \<longleftrightarrow> (\<forall>r. s \<noteq> a @ r)"
  using strip_prefix_Some [of a s] by (cases "strip_prefix a s") auto

text \<open>The query of a target, as the page it names.\<close>

lemma query_page:
  assumes "0 < page"
  shows "query \<noteq> [] \<and> query_loop param [] 0 query = Inr page \<longleftrightarrow>
         (\<exists>fs. query = render_query fs \<and> list_all query_field fs \<and> distinct (map fst fs) \<and>
               map_of fs param = Some (decimal (unat page)))" (is "?L \<longleftrightarrow> ?R")
proof
  assume ?L
  then obtain fs where fs: "query = render_query fs" "list_all query_field fs" "distinct (map fst fs)"
      "case map_of fs param of None \<Rightarrow> page = 0 | Some v \<Rightarrow> ParsePositiveDecimal v = Inr page"
    using query_loop_sound [of param "[]" 0 query page] by blast
  then show ?R using assms by (auto simp: ParsePositiveDecimal_iff split: option.splits)
next
  assume ?R
  then obtain fs where fs: "query = render_query fs" "list_all query_field fs" "distinct (map fst fs)"
      "map_of fs param = Some (decimal (unat page))" by blast
  moreover have "fs \<noteq> []" using fs(4) by auto
  ultimately show ?L
    using query_loop_complete [of fs "[]" page 0 param] render_query_nonempty [of fs] assms
    by (simp add: ParsePositiveDecimal_iff)
qed

text \<open>The last part of the validation, from behind the origin on.\<close>

definition location_page :: "page_profile \<Rightarrow> u64 \<Rightarrow> string \<Rightarrow> link_pagination_error + u64" where
  "location_page p current location =
     (case strip_prefix (Path p @ ''?'') location of
        None \<Rightarrow> Inl POLICY
      | Some query \<Rightarrow>
          if query = [] \<or> CHR ''#'' \<in> set query then Inl POLICY
          else
            and_then (query_loop (PageNumberParameter p) [] 0 query) (\<lambda>parsed_page.
              if current > uint64_max - PageIncrement p then Inl POLICY
              else if parsed_page \<noteq> current + PageIncrement p then Inl POLICY
              else Inr parsed_page))"

lemma next_page_nat:
  "\<not> (current::u64) > uint64_max - inc \<and> page = current + inc \<longleftrightarrow> unat page = unat current + unat inc"
proof
  assume a: "\<not> current > uint64_max - inc \<and> page = current + inc"
  then have "inc \<le> uint64_max" "current \<le> uint64_max - inc" by (simp_all add: linorder_not_less)
  then show "unat page = unat current + unat inc" using a guarded_add(1) [of inc uint64_max current] by (simp add: add.commute)
next
  assume u: "unat page = unat current + unat inc"
  have "of_nat (unat page) = current + inc" unfolding u by simp
  then have p: "page = current + inc" by simp
  have "unat page < 2 ^ LENGTH(64)" by (rule unsigned_less)
  then have "unat current \<le> 18446744073709551615 - unat inc" using u by simp
  moreover have "unat (uint64_max - inc) = 18446744073709551615 - unat inc"
    using unat_sub_le [of inc uint64_max] by simp
  ultimately show "\<not> current > uint64_max - inc \<and> page = current + inc" using p by (simp add: word_less_nat_alt)
qed

lemma location_page_iff:
  assumes "0 < PageIncrement p"
  shows "location_page p current location = Inr page \<longleftrightarrow>
         unat page = unat current + unat (PageIncrement p) \<and> page_location p (unat page) location"
proof (cases "strip_prefix (Path p @ ''?'') location")
  case None
  then show ?thesis using strip_prefix_None [of "Path p @ ''?''" location] by (auto simp: location_page_def page_location_def)
next
  case (Some query)
  have "location_page p current location = Inr page \<longleftrightarrow>
      (query \<noteq> [] \<and> query_loop (PageNumberParameter p) [] 0 query = Inr page) \<and> CHR ''#'' \<notin> set query \<and>
      \<not> current > uint64_max - PageIncrement p \<and> page = current + PageIncrement p"
    using Some by (auto simp: location_page_def split: if_splits)
  then have eq: "location_page p current location = Inr page \<longleftrightarrow>
      unat page = unat current + unat (PageIncrement p) \<and> CHR ''#'' \<notin> set query \<and>
      (query \<noteq> [] \<and> query_loop (PageNumberParameter p) [] 0 query = Inr page)"
    using next_page_nat [of "PageIncrement p" current page] by blast
  show ?thesis
  proof (cases "unat page = unat current + unat (PageIncrement p)")
    case True
    then have "0 < page" using assms by (simp add: word_less_nat_alt)
    then show ?thesis
      unfolding eq query_page [OF \<open>0 < page\<close>] page_location_def using Some [unfolded strip_prefix_Some] True by auto
  qed (simp add: eq)
qed

lemma ValidateNextTarget_iff:
  assumes inc: "0 < PageIncrement p" and path: "Path p \<noteq> []" "hd (Path p) = CHR ''/''"
  shows "ValidateNextTarget target current p = Inr page \<longleftrightarrow>
         unat page = unat current + unat (PageIncrement p) \<and> accepted_target p (unat page) target"
proof (cases "strip_prefix (Scheme p @ ''://'' @ Host p) target")
  case None
  then show ?thesis
    using strip_prefix_None [of "Scheme p @ ''://'' @ Host p" target]
    by (auto simp: ValidateNextTarget_def accepted_target_def)
next
  case (Some rest)
  let ?port = "'':'' @ decimal (unat (Port p))"
  have target: "target = Scheme p @ ''://'' @ Host p @ rest" using Some [unfolded strip_prefix_Some] by simp
  have v: "ValidateNextTarget target current p =
      (case strip_prefix ?port rest of
         Some after_port \<Rightarrow> location_page p current after_port
       | None \<Rightarrow> if Scheme p \<noteq> ''https'' \<or> Port p \<noteq> 443 then Inl POLICY else location_page p current rest)"
    unfolding ValidateNextTarget_def location_page_def Some option.case
    by (cases "strip_prefix ?port rest") simp_all
  have acc: "accepted_target p n target \<longleftrightarrow>
      (\<exists>location. rest = ?port @ location \<and> page_location p n location) \<or>
      Scheme p = ''https'' \<and> Port p = 443 \<and> page_location p n rest" for n
    unfolding accepted_target_def target by auto (metis append_Cons)
  have slash: "page_location p n location \<Longrightarrow> hd location = CHR ''/''" for n location
    using path by (auto simp: page_location_def)
  show ?thesis
  proof (cases "strip_prefix ?port rest")
    case (Some after_port)
    then have rest: "rest = ?port @ after_port" by (simp add: strip_prefix_Some)
    have "\<not> page_location p n rest" for n using slash [of n rest] rest by auto
    moreover have "rest = ?port @ x \<longleftrightarrow> x = after_port" for x using rest by auto
    ultimately show ?thesis
      unfolding v acc Some option.case location_page_iff [OF inc] by simp
  next
    case None
    then have "rest \<noteq> ?port @ x" for x using strip_prefix_None [of ?port rest] by blast
    then show ?thesis
      unfolding v acc None option.case using location_page_iff [OF inc, of current rest page] by auto
  qed
qed

subsection \<open>Selecting the next link\<close>

lemma visit_select:
  "visit_link NextTargetSelector s (t, b) =
   (if \<not> b then Inr s else if fst s then Inl (VisitorFailure POLICY) else Inr (True, t))"
  by (simp add: visit_link_def NextTargetSelector_def)

lemma select_found:
  "fold_visit NextTargetSelector (True, t) links =
   (if filter snd links = [] then Inr (True, t) else Inl (VisitorFailure POLICY))"
  by (induction links) (auto simp: visit_select)

lemma select_next:
  "fold_visit NextTargetSelector (False, u) links =
   (case map fst (filter snd links) of
      [] \<Rightarrow> Inr (False, u) | [t] \<Rightarrow> Inr (True, t) | _ \<Rightarrow> Inl (VisitorFailure POLICY))"
proof (induction links)
  case (Cons l links)
  then show ?case by (cases l; cases "snd l") (simp_all add: visit_select select_found split: list.splits)
qed simp

lemma ParseTransition_links:
  "ParseTransition link_fields current p = Inr t \<longleftrightarrow>
   (\<exists>links. link_values link_fields = Some links \<and>
      (case map fst (filter snd links) of
         [] \<Rightarrow> Inr \<lparr>has_next = False, next_page = 0\<rparr>
       | [target] \<Rightarrow> and_then (ValidateNextTarget target current p) (\<lambda>page. Inr \<lparr>has_next = True, next_page = page\<rparr>)
       | _ \<Rightarrow> Inl POLICY) = Inr t)"
proof (cases "link_values link_fields")
  case None
  then show ?thesis
    using visits_of_fields [of NextTargetSelector "(False, [])" link_fields]
    by (auto simp: ParseTransition_def split: sum.splits link_failure.splits) 
next
  case (Some links)
  then show ?thesis
    by (auto simp: ParseTransition_def fields_visited [OF Some] select_next split: list.splits)
qed

subsection \<open>Sequences of pages\<close>

text \<open>One call of the state with one of the three continuation signals, and a sequence of calls.\<close>

datatype page_signal =
  LinkFields call_event "string list"
| BodyUrl call_event string
| RowCount call_event u64

fun advance_page ::
  "page_signal \<Rightarrow> LinkPaginationState \<Rightarrow> (link_pagination_error + LinkPageTransition) \<times> LinkPaginationState" where
  "advance_page (LinkFields event link_fields) st = Advance event link_fields st"
| "advance_page (BodyUrl event url) st = AdvanceBody event url st"
| "advance_page (RowCount event rows) st = AdvanceByCount event rows st"

fun run_pages ::
  "page_signal list \<Rightarrow> LinkPaginationState \<Rightarrow> (link_pagination_error + LinkPageTransition) list \<times> LinkPaginationState" where
  "run_pages [] st = ([], st)"
| "run_pages (signal # signals) st =
     (let (outcome, st') = advance_page signal st; (outcomes, st'') = run_pages signals st' in
      (outcome # outcomes, st''))"

definition page_transition :: "u64 \<Rightarrow> link_pagination_error + LinkPageTransition" where
  "page_transition page = Inr \<lparr>has_next = True, next_page = page\<rparr>"

lemma ValidateNextTarget_page:
  "ValidateNextTarget target current p = Inr page \<Longrightarrow> unat page = unat current + unat (PageIncrement p)"
proof -
  assume "ValidateNextTarget target current p = Inr page"
  then have "\<not> current > uint64_max - PageIncrement p \<and> page = current + PageIncrement p"
    by (auto simp: ValidateNextTarget_def split: option.splits if_splits)
  then show ?thesis using next_page_nat by blast
qed

lemma ParseTransition_page:
  "ParseTransition link_fields current p = Inr t \<Longrightarrow> has_next t \<Longrightarrow>
   unat (next_page t) = unat current + unat (PageIncrement p)"
  by (auto simp: ParseTransition_def ValidateNextTarget_page split: sum.splits link_failure.splits if_splits)

text \<open>A call in a running state moves to the next page of the progression, or ends the sequence.\<close>

lemma advance_page_running:
  assumes "\<not> failed st" and "\<not> exhausted st"
  obtains (continued) page where
      "advance_page signal st = (page_transition page, st\<lparr>seen_page_count := seen_page_count st + 1, current_page := page\<rparr>)"
      "unat page = unat (current_page st) + unat (PageIncrement (profile st))"
  | (ended) outcome st' where
      "advance_page signal st = (outcome, st')" "failed st' \<or> exhausted st'" "\<forall>page. outcome \<noteq> page_transition page"
      "current_page st' = current_page st" "seen_page_count st' = seen_page_count st"
proof -
  have body: thesis
    if a: "advance_page signal st = guarded_advance event body st"
      and b: "\<And>t. body st = Inr t \<Longrightarrow> has_next t \<Longrightarrow> unat (next_page t) = unat (current_page st) + unat (PageIncrement (profile st))"
    for event body
  proof (cases "event = Completes \<and> (\<exists>t. body st = Inr t \<and> has_next t)")
    case True
    then obtain t where "event = Completes" "body st = Inr t" "has_next t" by blast
    then show thesis
      using continued [of "next_page t"] a b assms by (simp add: guarded_advance_def page_transition_def)
  next
    case False
    then show thesis
      using a assms
      by (cases event; cases "body st")
         (auto simp: guarded_advance_def page_transition_def intro!: ended split: if_splits)
  qed
  show thesis
  proof (cases signal)
    case (LinkFields event link_fields)
    show thesis
      by (rule body [of event "\<lambda>st. ParseTransition link_fields (current_page st) (profile st)"])
         (simp_all add: LinkFields Advance_def ParseTransition_page)
  next
    case (BodyUrl event url)
    show thesis
      by (rule body, simp add: BodyUrl AdvanceBody_def)
         (auto simp: ValidateNextTarget_page split: if_splits)
  next
    case (RowCount event rows)
    show thesis
      by (rule body, simp add: RowCount AdvanceByCount_def)
         (auto simp: next_page_nat [THEN iffD1] split: if_splits)
  qed
qed

lemma advance_page_ended: "failed st \<or> exhausted st \<Longrightarrow> advance_page signal st = (Inl STATE, st)"
  by (cases signal) (simp_all add: Advance_def AdvanceBody_def AdvanceByCount_def guarded_advance_def)

lemma run_pages_ended: "failed st \<or> exhausted st \<Longrightarrow> run_pages signals st = (replicate (length signals) (Inl STATE), st)"
  by (induction signals) (simp_all add: advance_page_ended)

lemma run_pages_running:
  assumes "\<not> failed st" and "\<not> exhausted st"
  shows "\<exists>k rest st'. run_pages signals st =
      (map (\<lambda>i. page_transition (current_page st + of_nat (Suc i) * PageIncrement (profile st))) [0..<k] @ rest, st') \<and>
      unat (current_page st) + k * unat (PageIncrement (profile st)) < 2 ^ 64 \<and>
      current_page st' = current_page st + of_nat k * PageIncrement (profile st) \<and>
      seen_page_count st' = seen_page_count st + of_nat k \<and>
      (case rest of
         [] \<Rightarrow> True
       | outcome # later \<Rightarrow> (\<forall>page. outcome \<noteq> page_transition page) \<and> later = replicate (length later) (Inl STATE))"
  using assms
proof (induction signals arbitrary: st)
  case Nil
  have "unat (current_page st) < 2 ^ LENGTH(64)" by (rule unsigned_less)
  then show ?case by (intro exI [of _ 0] exI [of _ "[]"]) simp
next
  case (Cons signal signals)
  let ?inc = "PageIncrement (profile st)"
  from Cons.prems show ?case
  proof (cases rule: advance_page_running [of st signal])
    case (continued page)
    let ?st1 = "st\<lparr>seen_page_count := seen_page_count st + 1, current_page := page\<rparr>"
    have page: "page = current_page st + ?inc" using continued(2) next_page_nat by blast
    obtain k rest st' where IH: "run_pages signals ?st1 =
          (map (\<lambda>i. page_transition (page + of_nat (Suc i) * ?inc)) [0..<k] @ rest, st')"
        "unat page + k * unat ?inc < 2 ^ 64" "current_page st' = page + of_nat k * ?inc"
        "seen_page_count st' = seen_page_count st + 1 + of_nat k"
        "case rest of [] \<Rightarrow> True
         | outcome # later \<Rightarrow> (\<forall>page. outcome \<noteq> page_transition page) \<and> later = replicate (length later) (Inl STATE)"
      using Cons.IH [of ?st1] Cons.prems by auto
    have shift: "page + of_nat n * ?inc = current_page st + of_nat (Suc n) * ?inc" for n
      by (simp add: page algebra_simps)
    have "run_pages (signal # signals) st =
        (map (\<lambda>i. page_transition (current_page st + of_nat (Suc i) * ?inc)) [0..<Suc k] @ rest, st')"
      unfolding run_pages.simps continued(1) Let_def prod.case IH(1) shift map_upt_Suc by (simp add: page)
    then show ?thesis
      using IH continued(2) shift [of k] by (intro exI [of _ "Suc k"] exI [of _ rest] exI [of _ st']) (simp add: algebra_simps)
  next
    case (ended outcome st')
    have "unat (current_page st) < 2 ^ LENGTH(64)" by (rule unsigned_less)
    then show ?thesis
      using ended run_pages_ended [OF ended(2), of signals]
      by (intro exI [of _ 0] exI [of _ "outcome # replicate (length signals) (Inl STATE)"] exI [of _ st']) simp
  qed
qed

lemma transition_target:
  "(case targets of
      [] \<Rightarrow> Inr \<lparr>has_next = False, next_page = 0\<rparr>
    | [target] \<Rightarrow> and_then (ValidateNextTarget target current p) (\<lambda>page. Inr \<lparr>has_next = True, next_page = page\<rparr>)
    | _ \<Rightarrow> Inl POLICY) = Inr \<lparr>has_next = True, next_page = page\<rparr> \<longleftrightarrow>
   (\<exists>target. targets = [target] \<and> ValidateNextTarget target current p = Inr page)"
  by (cases targets; cases "tl targets") auto

subsection \<open>Properties\<close>

text \<open>
  C23. A running scan follows a \<open>Link\<close> header to a page exactly when the fields parse, exactly one of
  their links is an unanchored next link, the page is the current one plus the profile's increment
  without wrapping, and the link's target names the profile's origin and path with that page as its page
  parameter in canonical decimal form. No other header makes the scan continue. Of the other query
  fields the target may have any, in any order, as long as no name occurs twice: this is the
  validation that RFC 0017 decided and the comment in \<open>ValidateNextTarget\<close> states. The older comment on
  \<open>LinkPaginationState\<close>, \<open>docs/RUNTIME_CONTRACTS.md\<close> and the runtime's README still say that the
  query multiset is compared and that extra or missing fields fail closed; the code does not do
  that, as \<open>other_query_fields_are_ignored\<close> below shows.
\<close>

theorem link_continuation:
  assumes "\<not> failed st" and "\<not> exhausted st" and "0 < PageIncrement (profile st)"
    and "Path (profile st) \<noteq> []" and "hd (Path (profile st)) = CHR ''/''"
  shows "fst (Advance Completes link_fields st) = Inr \<lparr>has_next = True, next_page = page\<rparr> \<longleftrightarrow>
         (\<exists>links target. link_values link_fields = Some links \<and> filter snd links = [(target, True)] \<and>
            unat page = unat (current_page st) + unat (PageIncrement (profile st)) \<and>
            accepted_target (profile st) (unat page) target)"
proof -
  have one: "map fst (filter snd links) = [target] \<longleftrightarrow> filter snd links = [(target, True)]" for links :: "(string \<times> bool) list" and target
    by (induction links) auto
  have "fst (Advance Completes link_fields st) = Inr \<lparr>has_next = True, next_page = page\<rparr> \<longleftrightarrow>
      ParseTransition link_fields (current_page st) (profile st) = Inr \<lparr>has_next = True, next_page = page\<rparr>"
    using assms(1,2) by (auto simp: Advance_def guarded_advance_def split: sum.splits)
  also have "\<dots> \<longleftrightarrow> (\<exists>links target. link_values link_fields = Some links \<and> map fst (filter snd links) = [target] \<and>
      ValidateNextTarget target (current_page st) (profile st) = Inr page)"
    unfolding ParseTransition_links transition_target by (simp only: ex_simps)
  finally show ?thesis unfolding one ValidateNextTarget_iff [OF assms(3-5)] .
qed

definition example_profile :: page_profile where
  "example_profile =
     \<lparr>Scheme = ''https'', Host = ''h'', Port = 443, Path = ''/a'', PageNumberParameter = ''page'', PageSize = 10,
      FirstPage = 1, PageIncrement = 1\<rparr>"

definition example_link :: string where
  "example_link = ''<https://h/a?page=2>; rel='' @ CHR 0x22 # ''next'' @ [CHR 0x22]"

theorem link_continuation_witness:
  "fst (Advance Completes [example_link] (CreateLinkPaginationState example_profile)) =
     Inr \<lparr>has_next = True, next_page = 2\<rparr> \<and>
   accepted_target example_profile 2 ''https://h/a?page=2''"
proof -
  let ?st = "CreateLinkPaginationState example_profile"
  have prof: "profile ?st = example_profile" by (simp add: CreateLinkPaginationState_def)
  have hyps: "\<not> failed ?st" "\<not> exhausted ?st" "0 < PageIncrement (profile ?st)" "Path (profile ?st) \<noteq> []"
      "hd (Path (profile ?st)) = CHR ''/''"
    by (simp_all add: CreateLinkPaginationState_def example_profile_def)
  have run: "fst (Advance Completes [example_link] ?st) = Inr \<lparr>has_next = True, next_page = 2\<rparr>"
    by code_simp
  have links: "link_values [example_link] = Some [(''https://h/a?page=2'', True)]" by code_simp
  show ?thesis
    using run links link_continuation [OF hyps, of "[example_link]" 2] prof by auto
qed

text \<open>
  The query of the next link is not compared with that of the request: the scan follows a target whatever
  its fields besides the page are.
\<close>

lemma other_query_fields_are_ignored:
  "let follow = (\<lambda>query. fst (Advance Completes [''<https://h/a?'' @ query @ ''>; rel=next'']
         (CreateLinkPaginationState example_profile))) in
   follow ''page=2&debug=1'' = Inr \<lparr>has_next = True, next_page = 2\<rparr> \<and>
   follow ''page=2'' = Inr \<lparr>has_next = True, next_page = 2\<rparr> \<and>
   follow ''per_page=99&page=2'' = Inr \<lparr>has_next = True, next_page = 2\<rparr>"
  by code_simp

text \<open>
  C24. Whatever the server signals and whichever call runs out of memory, the pages of a scan are the
  first page plus one, two, three and so on increments, as 64-bit values that never wrap, up to some page;
  then comes at most one outcome that is no continuation, and every later call is a state error.
  The state's page and page count agree with the pages taken.
\<close>

theorem page_sequence:
  "\<exists>k rest st'. run_pages signals (CreateLinkPaginationState p) =
      (map (\<lambda>i. page_transition (FirstPage p + of_nat (Suc i) * PageIncrement p)) [0..<k] @ rest, st') \<and>
      unat (FirstPage p) + k * unat (PageIncrement p) < 2 ^ 64 \<and>
      CurrentPage st' = FirstPage p + of_nat k * PageIncrement p \<and>
      SeenPageCount st' = of_nat (Suc k) \<and>
      (case rest of
         [] \<Rightarrow> True
       | outcome # later \<Rightarrow> (\<forall>page. outcome \<noteq> page_transition page) \<and> later = replicate (length later) (Inl STATE))"
  using run_pages_running [of "CreateLinkPaginationState p" signals]
  by (simp add: CreateLinkPaginationState_def CurrentPage_def SeenPageCount_def)

end
