(* ===== verification/Graphql_Cursor.thy ===== *)
theory Graphql_Cursor
  imports Prelude
begin

text \<open>
  The forward cursor of a paginated GraphQL scan,
  \<open>src/src/runtime/pagination/graphql_cursor_pagination.cpp\<close>. The array \<open>seen\<close> of 32 strings is a
  list of that length, of which the first \<open>seen_count\<close> entries are in use. A call that throws still
  changes the state (\<open>Reject\<close> marks it failed and releases the cursors first), so every
  call returns an outcome and the new state. Where the heap storage of a string lies, and how large it is,
  is the standard library's choice and an argument of \<open>RetainedMemoryBytes\<close>.
\<close>

datatype GraphqlCursorErrorKind = PROFILE | RESOURCE_BUDGET | PROTOCOL

record GraphqlCursorState =
  max_pages :: u64
  max_cursor_bytes :: u64
  requested_pages :: u64
  cursor_exhausted :: bool
  cursor_failed :: bool
  seen :: "string list"
  seen_count :: nat

abbreviation seen_capacity :: nat where
  "seen_capacity \<equiv> 32"

definition CreateGraphqlCursorState :: "u64 \<Rightarrow> u64 \<Rightarrow> GraphqlCursorErrorKind + GraphqlCursorState" where
  "CreateGraphqlCursorState pages cursor_bytes =
     (if pages = 0 \<or> pages > 32 \<or> cursor_bytes = 0 \<or> cursor_bytes > 512 then Inl PROFILE
      else Inr \<lparr>max_pages = pages, max_cursor_bytes = cursor_bytes, requested_pages = 0, cursor_exhausted = False,
                cursor_failed = False, seen = replicate seen_capacity [], seen_count = 0\<rparr>)"

definition CurrentCursor :: "GraphqlCursorState \<Rightarrow> string option" where
  "CurrentCursor st =
     (if cursor_exhausted st \<or> cursor_failed st \<or> seen_count st = 0 then None else Some (seen st ! (seen_count st - 1)))"

definition RequestedPages :: "GraphqlCursorState \<Rightarrow> u64" where
  "RequestedPages st = requested_pages st"

text \<open>The capacity of a string's heap block, or \<open>None\<close> when its bytes lie in the object itself.\<close>

fun retained_loop :: "(string \<Rightarrow> u64 option) \<Rightarrow> u64 \<Rightarrow> string list \<Rightarrow> u64" where
  "retained_loop heap result [] = result"
| "retained_loop heap result (c # cs) =
     (case heap c of
        None \<Rightarrow> retained_loop heap result cs
      | Some capacity \<Rightarrow>
          if capacity + 1 > uint64_max - result then uint64_max
          else retained_loop heap (result + (capacity + 1)) cs)"

definition RetainedMemoryBytes :: "(string \<Rightarrow> u64 option) \<Rightarrow> GraphqlCursorState \<Rightarrow> u64" where
  "RetainedMemoryBytes heap st = retained_loop heap 0 (take (seen_count st) (seen st))"

definition IsExhausted :: "GraphqlCursorState \<Rightarrow> bool" where
  "IsExhausted st = cursor_exhausted st"

definition IsFailed :: "GraphqlCursorState \<Rightarrow> bool" where
  "IsFailed st = cursor_failed st"

definition ReleaseCursors :: "GraphqlCursorState \<Rightarrow> GraphqlCursorState" where
  "ReleaseCursors st =
     st\<lparr>seen := replicate (min (seen_count st) (length (seen st))) [] @ drop (seen_count st) (seen st), seen_count := 0\<rparr>"

definition Reject ::
  "GraphqlCursorErrorKind \<Rightarrow> GraphqlCursorState \<Rightarrow> (GraphqlCursorErrorKind + unit) \<times> GraphqlCursorState" where
  "Reject kind st = (Inl kind, ReleaseCursors (st\<lparr>cursor_failed := True\<rparr>))"

definition MarkRequestStarted :: "GraphqlCursorState \<Rightarrow> (GraphqlCursorErrorKind + unit) \<times> GraphqlCursorState" where
  "MarkRequestStarted st =
     (if cursor_failed st \<or> cursor_exhausted st \<or> requested_pages st \<ge> max_pages st then Reject RESOURCE_BUDGET st
      else (Inr (), st\<lparr>requested_pages := requested_pages st + 1\<rparr>))"

definition CursorAdvance ::
  "bool \<Rightarrow> string \<Rightarrow> GraphqlCursorState \<Rightarrow> (GraphqlCursorErrorKind + unit) \<times> GraphqlCursorState" where
  "CursorAdvance has_next_page end_cursor st =
     (if cursor_failed st \<or> cursor_exhausted st \<or> requested_pages st = 0 then Reject PROTOCOL st
      else if \<not> has_next_page then (Inr (), ReleaseCursors (st\<lparr>cursor_exhausted := True\<rparr>))
      else if end_cursor = [] then Reject PROTOCOL st
      else if length end_cursor > unat (max_cursor_bytes st) then Reject RESOURCE_BUDGET st
      else if end_cursor \<in> set (take (seen_count st) (seen st)) then Reject PROTOCOL st
      else if seen_count st \<ge> length (seen st) then Reject RESOURCE_BUDGET st
      else (Inr (), st\<lparr>seen := (seen st)[seen_count st := end_cursor], seen_count := seen_count st + 1\<rparr>))"

definition FailCursor :: "GraphqlCursorState \<Rightarrow> GraphqlCursorState" where
  "FailCursor st = ReleaseCursors (st\<lparr>cursor_failed := True\<rparr>)"

subsection \<open>Runs\<close>

text \<open>
  The calls a stream makes. It calls \<open>Release\<close> itself only on an exhausted state, where it changes nothing.
\<close>

datatype cursor_call = RequestStarted | PageDecoded bool string | StreamFailed

fun perform :: "cursor_call \<Rightarrow> GraphqlCursorState \<Rightarrow> (GraphqlCursorErrorKind + unit) \<times> GraphqlCursorState" where
  "perform RequestStarted st = MarkRequestStarted st"
| "perform (PageDecoded has_next_page end_cursor) st = CursorAdvance has_next_page end_cursor st"
| "perform StreamFailed st = (Inr (), FailCursor st)"

fun perform_all :: "cursor_call list \<Rightarrow> GraphqlCursorState \<Rightarrow> (cursor_call \<times> (GraphqlCursorErrorKind + unit)) list \<times> GraphqlCursorState" where
  "perform_all [] st = ([], st)"
| "perform_all (call # calls) st =
     (let (outcome, st') = perform call st; (log, st'') = perform_all calls st' in ((call, outcome) # log, st''))"

text \<open>The continuation cursors that were accepted, and the number of requests that were started.\<close>

fun accepted_cursors :: "(cursor_call \<times> (GraphqlCursorErrorKind + unit)) list \<Rightarrow> string list" where
  "accepted_cursors [] = []"
| "accepted_cursors ((PageDecoded True c, Inr u) # log) = c # accepted_cursors log"
| "accepted_cursors (_ # log) = accepted_cursors log"

fun started_requests :: "(cursor_call \<times> (GraphqlCursorErrorKind + unit)) list \<Rightarrow> nat" where
  "started_requests [] = 0"
| "started_requests ((RequestStarted, Inr u) # log) = Suc (started_requests log)"
| "started_requests (_ # log) = started_requests log"

definition live_cursors :: "GraphqlCursorState \<Rightarrow> string list" where
  "live_cursors st = take (seen_count st) (seen st)"

definition terminal :: "GraphqlCursorState \<Rightarrow> bool" where
  "terminal st \<longleftrightarrow> cursor_exhausted st \<or> cursor_failed st"

definition cursor_invar :: "GraphqlCursorState \<Rightarrow> bool" where
  "cursor_invar st \<longleftrightarrow>
     requested_pages st \<le> max_pages st \<and>
     length (seen st) = seen_capacity \<and> seen_count st \<le> seen_capacity \<and>
     (terminal st \<longrightarrow> seen_count st = 0) \<and>
     distinct (live_cursors st) \<and>
     (\<forall>c\<in>set (live_cursors st). c \<noteq> [] \<and> length c \<le> unat (max_cursor_bytes st))"

lemma create_invar:
  "CreateGraphqlCursorState pages bytes = Inr st \<Longrightarrow>
   cursor_invar st \<and> \<not> terminal st \<and> live_cursors st = [] \<and> requested_pages st = 0 \<and>
   max_pages st = pages \<and> max_cursor_bytes st = bytes"
  by (auto simp: CreateGraphqlCursorState_def cursor_invar_def live_cursors_def terminal_def split: if_splits)

lemma release_invar:
  assumes "cursor_invar st"
  shows "cursor_invar (ReleaseCursors st)" and "live_cursors (ReleaseCursors st) = []"
  using assms by (auto simp: cursor_invar_def ReleaseCursors_def live_cursors_def terminal_def)

lemma release_terminal [simp]:
  "terminal (ReleaseCursors st) = terminal st" "max_pages (ReleaseCursors st) = max_pages st"
  "requested_pages (ReleaseCursors st) = requested_pages st" "max_cursor_bytes (ReleaseCursors st) = max_cursor_bytes st"
  by (simp_all add: ReleaseCursors_def terminal_def)

text \<open>Ending a traversal: the flags change and the cursors are dropped.\<close>

lemma ending_invar:
  assumes "cursor_invar st"
  shows "cursor_invar (ReleaseCursors (st\<lparr>cursor_failed := True\<rparr>))"
    and "cursor_invar (ReleaseCursors (st\<lparr>cursor_exhausted := True\<rparr>))"
  using assms by (auto simp: cursor_invar_def ReleaseCursors_def live_cursors_def terminal_def)

lemma ending_terminal [simp]: "terminal (st\<lparr>cursor_failed := True\<rparr>)" "terminal (st\<lparr>cursor_exhausted := True\<rparr>)"
  by (simp_all add: terminal_def)

lemma CursorAdvance_cases:
  obtains kind where "CursorAdvance has_next_page c st = Reject kind st"
  | "\<not> has_next_page" "CursorAdvance has_next_page c st = (Inr (), ReleaseCursors (st\<lparr>cursor_exhausted := True\<rparr>))"
  | "has_next_page" "\<not> terminal st" "c \<noteq> []" "length c \<le> unat (max_cursor_bytes st)" "c \<notin> set (live_cursors st)"
      "seen_count st < length (seen st)"
      "CursorAdvance has_next_page c st =
         (Inr (), st\<lparr>seen := (seen st)[seen_count st := c], seen_count := seen_count st + 1\<rparr>)"
proof -
  have "(\<exists>kind. CursorAdvance has_next_page c st = Reject kind st) \<or>
    \<not> has_next_page \<and> CursorAdvance has_next_page c st = (Inr (), ReleaseCursors (st\<lparr>cursor_exhausted := True\<rparr>)) \<or>
    has_next_page \<and> \<not> terminal st \<and> c \<noteq> [] \<and> length c \<le> unat (max_cursor_bytes st) \<and> c \<notin> set (live_cursors st) \<and>
      seen_count st < length (seen st) \<and>
      CursorAdvance has_next_page c st =
         (Inr (), st\<lparr>seen := (seen st)[seen_count st := c], seen_count := seen_count st + 1\<rparr>)"
    unfolding CursorAdvance_def terminal_def live_cursors_def by (auto split: if_split)
  then show thesis using that by blast
qed

text \<open>What one call may do: end the traversal, start a request, or take a new cursor.\<close>

lemma perform_cases:
  assumes inv: "cursor_invar st" and p: "perform call st = (outcome, st')"
  obtains (ends) "terminal st'" "cursor_invar st'" "requested_pages st' = requested_pages st"
      "max_pages st' = max_pages st" "max_cursor_bytes st' = max_cursor_bytes st"
      "\<And>log. accepted_cursors ((call, outcome) # log) = accepted_cursors log"
      "\<And>log. started_requests ((call, outcome) # log) = started_requests log"
  | (starts) "call = RequestStarted" "outcome = Inr ()" "\<not> terminal st" "requested_pages st < max_pages st"
      "st' = st\<lparr>requested_pages := requested_pages st + 1\<rparr>"
  | (takes) c where "call = PageDecoded True c" "outcome = Inr ()" "\<not> terminal st" "c \<noteq> []"
      "length c \<le> unat (max_cursor_bytes st)" "c \<notin> set (live_cursors st)" "seen_count st < seen_capacity"
      "st' = st\<lparr>seen := (seen st)[seen_count st := c], seen_count := seen_count st + 1\<rparr>"
proof (cases call)
  case RequestStarted
  show thesis
  proof (cases "cursor_failed st \<or> cursor_exhausted st \<or> requested_pages st \<ge> max_pages st")
    case True
    then have "outcome = Inl RESOURCE_BUDGET" "st' = ReleaseCursors (st\<lparr>cursor_failed := True\<rparr>)"
      using p RequestStarted by (simp_all add: MarkRequestStarted_def Reject_def)
    then show thesis using ends RequestStarted ending_invar(1) [OF inv] by simp
  next
    case False
    then have "requested_pages st < max_pages st" "\<not> terminal st" "outcome = Inr ()"
        "st' = st\<lparr>requested_pages := requested_pages st + 1\<rparr>"
      using p RequestStarted by (auto simp: MarkRequestStarted_def terminal_def)
    then show thesis using RequestStarted starts by blast
  qed
next
  case (PageDecoded has_next_page c)
  show thesis
  proof (cases rule: CursorAdvance_cases [of has_next_page c st])
    case (1 kind)
    then have "outcome = Inl kind" "st' = ReleaseCursors (st\<lparr>cursor_failed := True\<rparr>)"
      using p PageDecoded by (simp_all add: Reject_def)
    then show thesis using ends PageDecoded ending_invar(1) [OF inv] by (cases has_next_page) simp_all
  next
    case 2
    then have "outcome = Inr ()" "st' = ReleaseCursors (st\<lparr>cursor_exhausted := True\<rparr>)" using p PageDecoded by simp_all
    then show thesis using ends PageDecoded ending_invar(2) [OF inv] 2(1) by simp
  next
    case 3
    have "seen_count st < seen_capacity" using 3(6) inv by (simp add: cursor_invar_def)
    moreover have "call = PageDecoded True c" using PageDecoded 3(1) by simp
    ultimately show thesis using takes [of c] 3 p by simp
  qed
next
  case StreamFailed
  then have "outcome = Inr ()" "st' = ReleaseCursors (st\<lparr>cursor_failed := True\<rparr>)" using p by (simp_all add: FailCursor_def)
  then show thesis using StreamFailed ends ending_invar(1) [OF inv] by simp
qed

lemma perform_invar:
  assumes inv: "cursor_invar st" and p: "perform call st = (outcome, st')"
  shows "cursor_invar st'"
  using assms
proof (cases rule: perform_cases)
  case starts
  then show ?thesis
    using inv succ_below(2) [of "requested_pages st" "max_pages st"]
    by (simp add: cursor_invar_def live_cursors_def terminal_def)
next
  case (takes c)
  have live: "live_cursors st' = live_cursors st @ [c]"
    using inv takes(7,8) by (simp add: live_cursors_def cursor_invar_def take_Suc_conv_app_nth)
  then show ?thesis using inv takes by (simp add: cursor_invar_def terminal_def)
qed simp

definition cursor_step :: "GraphqlCursorState \<Rightarrow> GraphqlCursorState \<Rightarrow> bool" where
  "cursor_step st st' \<longleftrightarrow> (\<exists>call. st' = snd (perform call st))"

definition cursor_init :: "GraphqlCursorState \<Rightarrow> bool" where
  "cursor_init st \<longleftrightarrow> (\<exists>pages bytes. CreateGraphqlCursorState pages bytes = Inr st)"

interpretation cursor_system: invariant_system cursor_init cursor_step cursor_invar
  by unfold_locales
     (auto simp: cursor_init_def cursor_step_def dest: create_invar intro: perform_invar [OF _ surjective_pairing])

text \<open>A traversal that has ended takes no cursor and starts no request.\<close>

lemma run_ended:
  assumes "cursor_invar st" and "terminal st" and "perform_all calls st = (log, st')"
  shows "accepted_cursors log = [] \<and> started_requests log = 0"
  using assms
proof (induction calls arbitrary: st log)
  case (Cons call calls)
  obtain outcome st1 log1 where p: "perform call st = (outcome, st1)" "perform_all calls st1 = (log1, st')"
      "log = (call, outcome) # log1"
    using Cons.prems(3) by (auto split: prod.splits)
  from Cons.prems(1) p(1) show ?case
  proof (cases rule: perform_cases)
    case ends
    then show ?thesis using Cons.IH [OF ends(2,1) p(2)] p(3) by simp
  qed (use Cons.prems(2) in simp_all)
qed simp

lemma run_cursors:
  assumes "cursor_invar st" and "\<not> terminal st" and "perform_all calls st = (log, st')"
  shows "distinct (live_cursors st @ accepted_cursors log) \<and>
         length (live_cursors st @ accepted_cursors log) \<le> seen_capacity \<and>
         (\<forall>c\<in>set (accepted_cursors log). c \<noteq> [] \<and> length c \<le> unat (max_cursor_bytes st)) \<and>
         unat (requested_pages st) + started_requests log \<le> unat (max_pages st)"
  using assms
proof (induction calls arbitrary: st log)
  case Nil
  then show ?case by (auto simp: cursor_invar_def live_cursors_def word_le_nat_alt)
next
  case (Cons call calls)
  obtain outcome st1 log1 where p: "perform call st = (outcome, st1)" "perform_all calls st1 = (log1, st')"
      "log = (call, outcome) # log1"
    using Cons.prems(3) by (auto split: prod.splits)
  from Cons.prems(1) p(1) show ?case
  proof (cases rule: perform_cases)
    case ends
    then show ?thesis
      using run_ended [OF ends(2,1) p(2)] p(3) Cons.prems(1)
      by (simp add: cursor_invar_def live_cursors_def word_le_nat_alt)
  next
    case starts
    have "\<not> terminal st1" "live_cursors st1 = live_cursors st"
      using starts by (simp_all add: terminal_def live_cursors_def)
    then show ?thesis
      using Cons.IH [OF perform_invar [OF Cons.prems(1) p(1)] _ p(2)] p(3) starts
        succ_below(1) [of "requested_pages st" "max_pages st"] by simp
  next
    case (takes c)
    have "live_cursors st1 = live_cursors st @ [c]"
      using Cons.prems(1) takes(7,8) by (simp add: live_cursors_def cursor_invar_def take_Suc_conv_app_nth)
    moreover have "\<not> terminal st1" using takes by (simp add: terminal_def)
    ultimately show ?thesis
      using Cons.IH [OF perform_invar [OF Cons.prems(1) p(1)] _ p(2)] p(3) takes by simp
  qed
qed

subsection \<open>Properties\<close>

text \<open>
  C25. Whatever the server answers and in whatever order the stream makes its calls, the continuation
  cursors it follows are non-empty, within the byte limit and pairwise distinct, so that a traversal never
  visits the same cursor twice; there are at most 32 of them, and no more requests are started than the
  profile grants.
\<close>

theorem cursor_traversal:
  assumes "CreateGraphqlCursorState pages bytes = Inr st" and "perform_all calls st = (log, st')"
  shows "distinct (accepted_cursors log) \<and> length (accepted_cursors log) \<le> seen_capacity \<and>
         list_all (\<lambda>c. c \<noteq> [] \<and> length c \<le> unat bytes) (accepted_cursors log) \<and>
         started_requests log \<le> unat pages"
  using run_cursors [OF _ _ assms(2)] create_invar [OF assms(1)] by (simp add: list_all_iff)

theorem cursor_traversal_witness:
  "length (accepted_cursors (fst (perform_all [RequestStarted, PageDecoded True ''abc'', RequestStarted, PageDecoded True ''abc'']
     \<lparr>max_pages = 2, max_cursor_bytes = 8, requested_pages = 0, cursor_exhausted = False,
      cursor_failed = False, seen = replicate seen_capacity [], seen_count = 0\<rparr>))) \<le> seen_capacity \<and>
   accepted_cursors (fst (perform_all [RequestStarted, PageDecoded True ''abc'', RequestStarted, PageDecoded True ''abc'']
     \<lparr>max_pages = 2, max_cursor_bytes = 8, requested_pages = 0, cursor_exhausted = False,
      cursor_failed = False, seen = replicate seen_capacity [], seen_count = 0\<rparr>)) = [''abc'']"
proof -
  let ?st = "\<lparr>max_pages = 2, max_cursor_bytes = 8, requested_pages = 0, cursor_exhausted = False,
      cursor_failed = False, seen = replicate seen_capacity [], seen_count = 0\<rparr> :: GraphqlCursorState"
  let ?calls = "[RequestStarted, PageDecoded True ''abc'', RequestStarted, PageDecoded True ''abc'']"
  have c: "CreateGraphqlCursorState 2 8 = Inr ?st" by (simp add: CreateGraphqlCursorState_def)
  have "accepted_cursors (fst (perform_all ?calls ?st)) = [''abc'']" by code_simp
  then show ?thesis using cursor_traversal [OF c, of ?calls "fst (perform_all ?calls ?st)" "snd (perform_all ?calls ?st)"] by simp
qed

end
