(* ===== verification/Gregorian_Calendar.thy ===== *)
theory Gregorian_Calendar
  imports Prelude
begin

text \<open>
  The calendar that HTTP dates refer to, without any of the program's formulas: leap years by the Gregorian rule,
  the lengths of the months, and days counted one after the other from Monday, the first of January of year 1. The
  instant of a date, its weekday and the conversions of \<open>Http_Date\<close> are measured against this count.
\<close>

definition leap_year :: "nat \<Rightarrow> bool" where
  "leap_year y \<longleftrightarrow> 4 dvd y \<and> (100 dvd y \<longrightarrow> 400 dvd y)"

definition month_length :: "nat \<Rightarrow> nat \<Rightarrow> nat" where
  "month_length y m =
     (if m = 2 then if leap_year y then 29 else 28
      else if m = 4 \<or> m = 6 \<or> m = 9 \<or> m = 11 then 30 else 31)"

definition year_length :: "nat \<Rightarrow> nat" where
  "year_length y = sum_list (map (month_length y) [1..<13])"

text \<open>The number of days between the first day of year 1 and a date.\<close>

definition day_number :: "nat \<Rightarrow> nat \<Rightarrow> nat \<Rightarrow> int" where
  "day_number y m d =
     int (sum_list (map year_length [1..<y]) + sum_list (map (month_length y) [1..<m]) + d) - 1"

text \<open>Weekdays are numbered from Sunday; day 0 is a Monday.\<close>

definition weekday_of :: "nat \<Rightarrow> nat \<Rightarrow> nat \<Rightarrow> nat" where
  "weekday_of y m d = nat ((day_number y m d + 1) mod 7)"

text \<open>A time of a day of the years 1 to 9999, and its milliseconds since the start of 1970.\<close>

definition civil_time :: "nat \<Rightarrow> nat \<Rightarrow> nat \<Rightarrow> nat \<Rightarrow> nat \<Rightarrow> nat \<Rightarrow> bool" where
  "civil_time y m d h mi s \<longleftrightarrow>
     1 \<le> y \<and> y \<le> 9999 \<and> 1 \<le> m \<and> m \<le> 12 \<and> 1 \<le> d \<and> d \<le> month_length y m \<and> h \<le> 23 \<and> mi \<le> 59 \<and> s \<le> 59"

definition instant :: "nat \<Rightarrow> nat \<Rightarrow> nat \<Rightarrow> nat \<Rightarrow> nat \<Rightarrow> nat \<Rightarrow> int" where
  "instant y m d h mi s =
     ((day_number y m d - day_number 1970 1 1) * 86400 + int (h * 3600 + mi * 60 + s)) * 1000"

lemma upt_months: "[1..<13] = [1, 2, 3, 4, 5, 6, 7, 8, 9, 10, 11, 12 :: nat]"
  by (simp add: upt_rec)

lemma month_cases:
  assumes "1 \<le> m" and "m \<le> (12::nat)"
  obtains "m = 1" | "m = 2" | "m = 3" | "m = 4" | "m = 5" | "m = 6" | "m = 7" | "m = 8" | "m = 9" | "m = 10" | "m = 11" | "m = 12"
proof -
  have "m \<in> set [1..<13]" using assms by simp
  then show thesis using that unfolding upt_months by auto
qed

lemma year_length_eq: "year_length y = (if leap_year y then 366 else 365)"
  unfolding year_length_def upt_months by (simp add: month_length_def)

lemma leap_mods: "n mod 400 = 0 \<Longrightarrow> n mod 100 = 0" "n mod 100 = 0 \<Longrightarrow> n mod 4 = 0" for n :: nat
  by presburger+

lemma leap_year_mod: "leap_year y \<longleftrightarrow> y mod 4 = 0 \<and> (y mod 100 \<noteq> 0 \<or> y mod 400 = 0)"
  by (auto simp: leap_year_def dvd_eq_mod_eq_0)

lemma sum_step:
  "T = S + l \<Longrightarrow> S + c = k + a + b \<Longrightarrow> l + c' + (a + b) = 365 + (a' + b') + c \<Longrightarrow> T + c' = 365 + k + a' + b'"
  for T :: nat
  by linarith

lemma year_sum: "sum_list (map year_length [1..<Suc n]) + n div 100 = 365 * n + n div 4 + n div 400"
proof (induction n)
  case (Suc n)
  define S where "S = sum_list (map year_length [1..<Suc n])"
  have "sum_list (map year_length [1..<Suc (Suc n)]) = S + year_length (Suc n)" by (simp add: S_def)
  moreover have "S + n div 100 = 365 * n + n div 4 + n div 400" using Suc by (simp only: S_def)
  moreover have "year_length (Suc n) + Suc n div 100 + (n div 4 + n div 400) =
      365 + (Suc n div 4 + Suc n div 400) + n div 100"
    using leap_mods [of "Suc n"] by (simp add: year_length_eq leap_year_mod div_Suc split: if_splits)
  ultimately show ?case unfolding mult_Suc_right by (rule sum_step)
qed simp

text \<open>Two anchors outside the program: the Unix epoch was a Thursday, 719162 days after the first day of year 1.\<close>

lemma epoch_number: "day_number 1970 1 1 = 719162"
proof -
  have y: "[1..<1970] = [1..<Suc 1969]" by (simp del: upt_Suc)
  have "sum_list (map year_length [1..<1970]) + 1969 div 100 = 365 * 1969 + 1969 div 4 + 1969 div 400"
    unfolding y by (rule year_sum)
  then show ?thesis unfolding day_number_def by simp
qed

lemma epoch_weekday: "weekday_of 1970 1 1 = 4"
  unfolding weekday_of_def epoch_number by simp

lemma weekday_below: "weekday_of y m d < 7"
  by (simp add: weekday_of_def nat_less_iff)

end
