(* ===== verification/Http_Date.thy ===== *)
theory Http_Date
  imports Gregorian_Calendar "HOL-Library.Signed_Division"
begin

text \<open>
  The calendar arithmetic and the HTTP-date parsers of
  \<open>src/src/runtime/execution/rate_limit_guidance.cpp\<close>. The signed 64-bit day counts and time stamps are
  integers, with the truncating division of the source written \<open>sdiv\<close> and \<open>smod\<close>; the unsigned
  fields of a date are naturals, all of them below 10000, so that no intermediate value leaves the range of the
  source's types.

  The closed forms are shown to agree with counting the days of the Gregorian calendar one by one, as
  \<open>Gregorian_Calendar\<close> does, and the two conversions to be inverse to each other.
\<close>

subsection \<open>Digits and names\<close>

definition IsDigit :: "char \<Rightarrow> bool" where
  "IsDigit c \<longleftrightarrow> in_range CHR ''0'' CHR ''9'' c"

definition digit_value :: "char \<Rightarrow> nat" where
  "digit_value c = byte c - byte CHR ''0''"

definition TryParseTwoDigits :: "string \<Rightarrow> nat \<Rightarrow> nat option" where
  "TryParseTwoDigits v offset =
     (if offset + 2 > length v \<or> \<not> IsDigit (v ! offset) \<or> \<not> IsDigit (v ! (offset + 1)) then None
      else Some (digit_value (v ! offset) * 10 + digit_value (v ! (offset + 1))))"

fun four_digits_loop :: "nat \<Rightarrow> string \<Rightarrow> nat option" where
  "four_digits_loop parsed [] = Some parsed"
| "four_digits_loop parsed (c # cs) =
     (if \<not> IsDigit c then None else four_digits_loop (parsed * 10 + digit_value c) cs)"

definition TryParseFourDigits :: "string \<Rightarrow> nat \<Rightarrow> nat option" where
  "TryParseFourDigits v offset =
     (if offset + 4 > length v then None else four_digits_loop 0 (take 4 (drop offset v)))"

fun name_index :: "string list \<Rightarrow> string \<Rightarrow> nat option" where
  "name_index [] s = None"
| "name_index (name # names) s = (if s = name then Some 0 else map_option Suc (name_index names s))"

definition MONTHS :: "string list" where
  "MONTHS = [''Jan'', ''Feb'', ''Mar'', ''Apr'', ''May'', ''Jun'', ''Jul'', ''Aug'', ''Sep'', ''Oct'', ''Nov'', ''Dec'']"

definition WEEKDAYS :: "string list" where
  "WEEKDAYS = [''Sun'', ''Mon'', ''Tue'', ''Wed'', ''Thu'', ''Fri'', ''Sat'']"

definition LONG_WEEKDAYS :: "string list" where
  "LONG_WEEKDAYS = [''Sunday'', ''Monday'', ''Tuesday'', ''Wednesday'', ''Thursday'', ''Friday'', ''Saturday'']"

text \<open>\<open>MonthIndex\<close> counts from one and gives zero for no month.\<close>

definition MonthIndex :: "string \<Rightarrow> nat \<Rightarrow> nat" where
  "MonthIndex v offset = (case name_index MONTHS (take 3 (drop offset v)) of None \<Rightarrow> 0 | Some i \<Rightarrow> i + 1)"

definition WeekdayIndex :: "string \<Rightarrow> nat option" where
  "WeekdayIndex v = name_index WEEKDAYS (take 3 v)"

fun long_weekday_loop :: "nat \<Rightarrow> string list \<Rightarrow> string \<Rightarrow> (nat \<times> nat) option" where
  "long_weekday_loop index [] v = None"
| "long_weekday_loop index (name # names) v =
     (if length v > length name \<and> take (length name) v = name \<and> v ! length name = CHR '',''
      then Some (index, length name) else long_weekday_loop (Suc index) names v)"

definition LongWeekdayIndex :: "string \<Rightarrow> (nat \<times> nat) option" where
  "LongWeekdayIndex v = long_weekday_loop 0 LONG_WEEKDAYS v"

subsection \<open>The calendar\<close>

definition IsLeapYear :: "nat \<Rightarrow> bool" where
  "IsLeapYear year \<longleftrightarrow> year mod 4 = 0 \<and> (year mod 100 \<noteq> 0 \<or> year mod 400 = 0)"

definition DaysInMonth :: "nat \<Rightarrow> nat \<Rightarrow> nat" where
  "DaysInMonth year month =
     (if month = 2 \<and> IsLeapYear year then 29 else [31, 28, 31, 30, 31, 30, 31, 31, 30, 31, 30, 31] ! (month - 1))"

definition DaysFromCivil :: "nat \<Rightarrow> nat \<Rightarrow> nat \<Rightarrow> int" where
  "DaysFromCivil year month day =
     (let adjusted_year = int year - (if month \<le> 2 then 1 else 0);
          era = adjusted_year sdiv 400;
          year_of_era = adjusted_year - era * 400;
          adjusted_month = int (if month > 2 then month - 3 else month + 9);
          day_of_year = (153 * adjusted_month + 2) div 5 + int day - 1;
          day_of_era = year_of_era * 365 + year_of_era div 4 - year_of_era div 100 + day_of_year
      in era * 146097 + day_of_era - 719468)"

record CivilTime =
  year :: int
  month :: nat
  day :: nat
  hour :: nat
  minute :: nat
  second :: nat

definition TryCivilTimeFromMilliseconds :: "int \<Rightarrow> CivilTime option" where
  "TryCivilTimeFromMilliseconds milliseconds =
     (let days0 = milliseconds sdiv 86400000;
          within0 = milliseconds smod 86400000;
          days = (if within0 < 0 then days0 - 1 else days0);
          within_day = (if within0 < 0 then within0 + 86400000 else within0);
          shifted_days = days + 719468;
          era = (if shifted_days \<ge> 0 then shifted_days else shifted_days - 146096) sdiv 146097;
          day_of_era = shifted_days - era * 146097;
          year_of_era = (day_of_era - day_of_era div 1460 + day_of_era div 36524 - day_of_era div 146096) div 365;
          day_of_year = day_of_era - (365 * year_of_era + year_of_era div 4 - year_of_era div 100);
          month_prime = (5 * day_of_year + 2) div 153;
          d = day_of_year - (153 * month_prime + 2) div 5 + 1;
          m = (if month_prime < 10 then month_prime + 3 else month_prime - 9);
          y = year_of_era + era * 400 + (if m \<le> 2 then 1 else 0)
      in if y < 1 \<or> y > 9999 then None
         else Some \<lparr>year = y, month = nat m, day = nat d, hour = nat (within_day div 3600000),
                    minute = nat (within_day mod 3600000 div 60000),
                    second = nat (within_day mod 3600000 mod 60000 div 1000)\<rparr>)"

definition IsLaterInYear :: "nat \<Rightarrow> nat \<Rightarrow> nat \<Rightarrow> nat \<Rightarrow> nat \<Rightarrow> CivilTime \<Rightarrow> bool" where
  "IsLaterInYear mo d h mi s reference =
     (if mo \<noteq> month reference then mo > month reference
      else if d \<noteq> day reference then d > day reference
      else if h \<noteq> hour reference then h > hour reference
      else if mi \<noteq> minute reference then mi > minute reference
      else if s \<noteq> second reference then s > second reference
      else False)"

definition TryBuildHttpTimestamp :: "nat option \<Rightarrow> nat \<Rightarrow> nat \<Rightarrow> nat \<Rightarrow> nat \<Rightarrow> nat \<Rightarrow> nat \<Rightarrow> int option" where
  "TryBuildHttpTimestamp weekday y mo d h mi s =
     (if weekday = None \<or> y = 0 \<or> mo = 0 \<or> mo > 12 \<or> d = 0 \<or> d > DaysInMonth y mo \<or> h > 23 \<or> mi > 59 \<or> s > 60
      then None
      else
        let days = DaysFromCivil y mo d;
            computed_weekday = ((days + 4) smod 7 + 7) smod 7
        in if computed_weekday \<noteq> int (the weekday) then None
           else Some ((days * 86400 + int (h * 3600 + mi * 60 + s)) * 1000))"

subsection \<open>Date forms\<close>

definition TryParseImfFixdate :: "string \<Rightarrow> int option" where
  "TryParseImfFixdate v =
     (if length v \<noteq> 29 \<or> v ! 3 \<noteq> CHR '','' \<or> v ! 4 \<noteq> CHR '' '' \<or> v ! 7 \<noteq> CHR '' '' \<or> v ! 11 \<noteq> CHR '' '' \<or>
         v ! 16 \<noteq> CHR '' '' \<or> v ! 19 \<noteq> CHR '':'' \<or> v ! 22 \<noteq> CHR '':'' \<or> v ! 25 \<noteq> CHR '' '' \<or>
         take 3 (drop 26 v) \<noteq> ''GMT'' then None
      else
        let month_p = MonthIndex v 8; weekday = WeekdayIndex v in
        if weekday = None \<or> month_p = 0 then None
        else
          case (TryParseTwoDigits v 5, TryParseFourDigits v 12, TryParseTwoDigits v 17, TryParseTwoDigits v 20,
                TryParseTwoDigits v 23) of
            (Some d, Some y, Some h, Some mi, Some s) \<Rightarrow>
              if y = 0 \<or> d = 0 \<or> d > DaysInMonth y month_p then None
              else TryBuildHttpTimestamp weekday y month_p d h mi s
          | _ \<Rightarrow> None)"

definition rfc850_year :: "CivilTime \<Rightarrow> nat \<Rightarrow> nat \<Rightarrow> nat \<Rightarrow> nat \<Rightarrow> nat \<Rightarrow> nat \<Rightarrow> int" where
  "rfc850_year receipt short_year mo d h mi s =
     (let y0 = year receipt sdiv 100 * 100 + int short_year;
          y1 = (if y0 < year receipt - 50 then y0 + 100 else y0)
      in if y1 > year receipt + 50 \<or> (y1 = year receipt + 50 \<and> IsLaterInYear mo d h mi s receipt) then y1 - 100 else y1)"

definition TryParseRfc850Date :: "string \<Rightarrow> int \<Rightarrow> int option" where
  "TryParseRfc850Date v receipt_wall_milliseconds =
     (case LongWeekdayIndex v of
        None \<Rightarrow> None
      | Some (weekday, n) \<Rightarrow>
          if length v \<noteq> n + 24 \<or> v ! (n + 1) \<noteq> CHR '' '' \<or> v ! (n + 4) \<noteq> CHR ''-'' \<or> v ! (n + 8) \<noteq> CHR ''-'' \<or>
             v ! (n + 11) \<noteq> CHR '' '' \<or> v ! (n + 14) \<noteq> CHR '':'' \<or> v ! (n + 17) \<noteq> CHR '':'' \<or>
             v ! (n + 20) \<noteq> CHR '' '' \<or> take 3 (drop (n + 21) v) \<noteq> ''GMT'' then None
          else
            let month_p = MonthIndex v (n + 5) in
            if month_p = 0 then None
            else
              case (TryParseTwoDigits v (n + 2), TryParseTwoDigits v (n + 9), TryParseTwoDigits v (n + 12),
                    TryParseTwoDigits v (n + 15), TryParseTwoDigits v (n + 18),
                    TryCivilTimeFromMilliseconds receipt_wall_milliseconds) of
                (Some d, Some short_year, Some h, Some mi, Some s, Some receipt) \<Rightarrow>
                  let y = rfc850_year receipt short_year month_p d h mi s in
                  if y < 1 \<or> y > 9999 then None
                  else TryBuildHttpTimestamp (Some weekday) (nat y) month_p d h mi s
              | _ \<Rightarrow> None)"

definition TryParseAsctimeDate :: "string \<Rightarrow> int option" where
  "TryParseAsctimeDate v =
     (if length v \<noteq> 24 \<or> v ! 3 \<noteq> CHR '' '' \<or> v ! 7 \<noteq> CHR '' '' \<or> v ! 10 \<noteq> CHR '' '' \<or> v ! 13 \<noteq> CHR '':'' \<or>
         v ! 16 \<noteq> CHR '':'' \<or> v ! 19 \<noteq> CHR '' '' then None
      else
        let weekday = WeekdayIndex v; month_p = MonthIndex v 4 in
        case (if v ! 8 = CHR '' '' \<and> IsDigit (v ! 9) then Some (digit_value (v ! 9)) else TryParseTwoDigits v 8) of
          None \<Rightarrow> None
        | Some d \<Rightarrow>
            if month_p = 0 then None
            else
              case (TryParseTwoDigits v 11, TryParseTwoDigits v 14, TryParseTwoDigits v 17, TryParseFourDigits v 20) of
                (Some h, Some mi, Some s, Some y) \<Rightarrow> TryBuildHttpTimestamp weekday y month_p d h mi s
              | _ \<Rightarrow> None)"

definition TryParseHttpDate :: "string \<Rightarrow> int \<Rightarrow> int option" where
  "TryParseHttpDate v receipt_wall_milliseconds =
     (case TryParseImfFixdate v of
        Some ms \<Rightarrow> Some ms
      | None \<Rightarrow>
          (case TryParseRfc850Date v receipt_wall_milliseconds of
             Some ms \<Rightarrow> Some ms
           | None \<Rightarrow> TryParseAsctimeDate v))"

subsection \<open>Counting days\<close>

text \<open>The program's leap years and months are those of the calendar.\<close>

lemma IsLeapYear_leap: "IsLeapYear y \<longleftrightarrow> leap_year y"
  by (simp add: IsLeapYear_def leap_year_mod)

lemma DaysInMonth_length: "1 \<le> m \<Longrightarrow> m \<le> 12 \<Longrightarrow> DaysInMonth y m = month_length y m"
  by (cases rule: month_cases [of m]) (simp_all add: DaysInMonth_def month_length_def IsLeapYear_leap)

lemma sdiv_nonneg: "0 \<le> a \<Longrightarrow> 0 < b \<Longrightarrow> a sdiv b = a div b" for a b :: int
  by (simp add: signed_divide_int_def sgn_if)

lemma smod_nonneg: "0 \<le> a \<Longrightarrow> 0 < b \<Longrightarrow> a smod b = a mod b" for a b :: int
  by (cases "a = 0") (simp_all add: signed_modulo_int_def sgn_if)

text \<open>The days of all years before the first of March of a year, by eras of 400 years.\<close>

lemma era_sum:
  fixes a :: int
  assumes "0 \<le> a"
  shows "a div 400 * 146097 + ((a - a div 400 * 400) * 365 + (a - a div 400 * 400) div 4 - (a - a div 400 * 400) div 100) =
         365 * a + a div 4 - a div 100 + a div 400"
proof -
  define e where "e = a div 400"
  define r where "r = a - e * 400"
  have a: "a = r + 400 * e" by (simp add: r_def)
  have "a div 4 = 100 * e + r div 4" using div_mult_self2 [of 4 r "100 * e"] a by simp
  moreover have "a div 100 = 4 * e + r div 100" using div_mult_self2 [of 100 r "4 * e"] a by simp
  ultimately show ?thesis unfolding e_def [symmetric] r_def [symmetric] using a by simp
qed

definition march_days :: "nat \<Rightarrow> int" where
  "march_days a = 365 * int a + int (a div 4) - int (a div 100) + int (a div 400)"

lemma DaysFromCivil_march:
  assumes "0 < y"
  shows "DaysFromCivil y m d =
         march_days (if m \<le> 2 then y - 1 else y) +
         (153 * int (if m > 2 then m - 3 else m + 9) + 2) div 5 + int d - 719469"
proof -
  define a where "a = (if m \<le> 2 then y - 1 else y)"
  have a: "int y - (if m \<le> 2 then 1 else 0) = int a" using assms by (simp add: a_def)
  have "march_days a = int a div 400 * 146097 +
      ((int a - int a div 400 * 400) * 365 + (int a - int a div 400 * 400) div 4 - (int a - int a div 400 * 400) div 100)"
    using era_sum [of "int a"] by (simp add: march_days_def zdiv_int)
  then show ?thesis
    unfolding DaysFromCivil_def Let_def a by (simp add: sdiv_nonneg flip: a_def)
qed

lemma march_days_year: "march_days n = int (sum_list (map year_length [1..<Suc n]))"
  using year_sum [of n] by (simp add: march_days_def del: upt_Suc)

lemma march_days_Suc: "march_days (Suc n) = march_days n + int (year_length (Suc n))"
  by (simp add: march_days_year)

lemma DaysFromCivil_counts:
  assumes "1 \<le> y" and "1 \<le> m" and "m \<le> 12"
  shows "DaysFromCivil y m d = day_number y m d - day_number 1970 1 1"
proof -
  obtain n where y: "y = Suc n" using assms(1) by (cases y) auto
  have base: "day_number y m d = march_days n + int (sum_list (map (month_length y) [1..<m])) + int d - 1"
    by (simp add: day_number_def y march_days_year del: upt_Suc)
  have step: "march_days y = march_days n + (if leap_year y then 366 else 365)"
    by (simp add: y march_days_Suc year_length_eq)
  have y1: "y - 1 = n" "0 < y" using y by simp_all
  show ?thesis
    unfolding DaysFromCivil_march [OF y1(2)] base y1(1) epoch_number
    by (cases rule: month_cases [OF assms(2,3)]) (simp_all add: step month_length_def upt_rec)
qed

subsection \<open>Converting back\<close>

lemma div_between: "0 < b \<Longrightarrow> b * q \<le> a \<Longrightarrow> a < b * (q + 1) \<Longrightarrow> a div b = q" for a b q :: int
  by (rule int_div_pos_eq [of a b q "a - b * q"]) (simp_all add: algebra_simps)

lemma floor_division:
  fixes a b :: int
  assumes "0 < b"
  shows "(if a smod b < 0 then a sdiv b - 1 else a sdiv b) = a div b"
    and "(if a smod b < 0 then a smod b + b else a smod b) = a mod b"
proof -
  have "(if a smod b < 0 then a sdiv b - 1 else a sdiv b) = a div b \<and>
        (if a smod b < 0 then a smod b + b else a smod b) = a mod b"
  proof (cases "0 \<le> a")
    case True
    moreover have "\<not> a mod b < 0" using assms by (simp add: not_less)
    ultimately show ?thesis using assms by (simp add: sdiv_nonneg smod_nonneg)
  next
    case False
    define q t where "q = - a div b" and "t = - a mod b"
    have a: "a = - (b * q) - t" using mult_div_mod_eq [of b "- a"] unfolding q_def t_def by linarith
    have t: "0 \<le> t" "t < b" using assms by (simp_all add: t_def)
    have sd: "a sdiv b = - q" using False assms by (simp add: signed_divide_int_def q_def)
    then have sm: "a smod b = - t"
      using smod_int_alt_def [of a b] False assms by (simp add: t_def abs_if sgn_if)
    show ?thesis
    proof (cases "t = 0")
      case True
      then have "a div b = - q" using a assms by (intro div_between) (simp_all add: algebra_simps)
      then show ?thesis using True sd sm a by (simp flip: minus_mult_div_eq_mod)
    next
      case False
      then have "a div b = - q - 1" using a assms t by (intro div_between) (simp_all add: algebra_simps)
      then show ?thesis using False t sd sm a by (simp flip: minus_mult_div_eq_mod) (simp add: algebra_simps)
    qed
  qed
  then show "(if a smod b < 0 then a sdiv b - 1 else a sdiv b) = a div b"
    and "(if a smod b < 0 then a smod b + b else a smod b) = a mod b" by blast+
qed

text \<open>The first day of a year of an era, and the quantity whose quotient by 365 is the year of a day.\<close>

definition era_start :: "int \<Rightarrow> int" where
  "era_start r = 365 * r + r div 4 - r div 100"

definition year_weight :: "int \<Rightarrow> int" where
  "year_weight x = x - x div 1460 + x div 36524 - x div 146096"

definition era_last :: "int \<Rightarrow> int" where
  "era_last r = era_start r + 364 +
     (if (r + 1) mod 4 = 0 \<and> ((r + 1) mod 100 \<noteq> 0 \<or> (r + 1) mod 400 = 0) then 1 else 0)"

lemma weight_step: "a' \<le> a + 1 \<Longrightarrow> b \<le> b' \<Longrightarrow> c = 0 \<Longrightarrow> c' = 0 \<Longrightarrow> x - a + b - c \<le> x + 1 - a' + b' - c'" for x :: int
  by linarith

lemma year_weight_step:
  assumes "0 \<le> x" and "x < 146096"
  shows "year_weight x \<le> year_weight (x + 1)"
proof (cases "x + 1 = 146096")
  case True
  then have "x = 146095" by simp
  then show ?thesis by (simp add: year_weight_def)
next
  case False
  have "(x + 1) div 1460 \<le> (x + 1460) div 1460" by (rule zdiv_mono1) simp_all
  then have "(x + 1) div 1460 \<le> x div 1460 + 1" by simp
  moreover have "x div 36524 \<le> (x + 1) div 36524" by (rule zdiv_mono1) simp_all
  moreover have "x div 146096 = 0" "(x + 1) div 146096 = 0" using assms False by simp_all
  ultimately show ?thesis unfolding year_weight_def by (rule weight_step)
qed

lemma year_weight_mono: "x \<le> y \<Longrightarrow> 0 \<le> x \<Longrightarrow> y \<le> 146096 \<Longrightarrow> year_weight x \<le> year_weight y"
proof (induction y rule: int_ge_induct)
  case (step y)
  then show ?case using year_weight_step [of y] by simp
qed simp

lemma year_weight_ends:
  "list_all (\<lambda>r. 0 \<le> era_start r \<and> era_last r \<le> 146096 \<and>
      365 * r \<le> year_weight (era_start r) \<and> year_weight (era_last r) < 365 * (r + 1)) [0..399]"
  by code_simp

lemma year_of_era:
  assumes "0 \<le> r" and "r < 400" and "era_start r \<le> x" and "x \<le> era_last r"
  shows "year_weight x div 365 = r" and "0 \<le> x" and "x < 146097"
proof -
  have "r \<in> set [0..399]" using assms(1,2) by simp
  then have e: "0 \<le> era_start r" "era_last r \<le> 146096" "365 * r \<le> year_weight (era_start r)"
      "year_weight (era_last r) < 365 * (r + 1)"
    using year_weight_ends unfolding list_all_iff by blast+
  have "365 * r \<le> year_weight x" using year_weight_mono [of "era_start r" x] e assms by simp
  moreover have "year_weight x < 365 * (r + 1)" using year_weight_mono [of x "era_last r"] e assms by simp
  ultimately show "year_weight x div 365 = r" by (intro div_between) simp_all
  show "0 \<le> x" "x < 146097" using e assms by simp_all
qed

text \<open>The month of a day of the year that starts in March.\<close>

definition march_month :: "nat \<Rightarrow> int" where
  "march_month m = int (if m > 2 then m - 3 else m + 9)"

definition march_day :: "nat \<Rightarrow> nat \<Rightarrow> int" where
  "march_day m d = (153 * march_month m + 2) div 5 + int d - 1"

lemma month_back:
  assumes "1 \<le> m" and "m \<le> 12" and "1 \<le> d" and "d \<le> DaysInMonth y m"
  shows "(5 * march_day m d + 2) div 153 = march_month m" and "0 \<le> march_day m d"
    and "march_day m d \<le> 364 + (if IsLeapYear y \<and> m = 2 then 1 else 0)"
proof -
  have "153 * march_month m \<le> 5 * march_day m d + 2 \<and> 5 * march_day m d + 2 < 153 * (march_month m + 1)"
    using assms(3,4)
    by (cases rule: month_cases [OF assms(1,2)])
       (simp_all add: march_day_def march_month_def DaysInMonth_def split: if_splits)
  then show "(5 * march_day m d + 2) div 153 = march_month m" by (intro div_between) simp_all
  show "0 \<le> march_day m d"
    using assms(3) by (cases rule: month_cases [OF assms(1,2)]) (simp_all add: march_day_def march_month_def)
  show "march_day m d \<le> 364 + (if IsLeapYear y \<and> m = 2 then 1 else 0)"
    using assms(4)
    by (cases rule: month_cases [OF assms(1,2)])
       (simp_all add: march_day_def march_month_def DaysInMonth_def split: if_splits)
qed

lemma leap_period: "IsLeapYear (400 * e + k) = IsLeapYear k"
proof -
  have "(400 * e + k) mod 4 = k mod 4" "(400 * e + k) mod 100 = k mod 100" "(400 * e + k) mod 400 = k mod 400"
    using mod_mult_self4 [of 4 "100 * e" k] mod_mult_self4 [of 100 "4 * e" k] mod_mult_self4 [of 400 e k]
    by (simp_all add: mult.assoc)
  then show ?thesis by (simp add: IsLeapYear_def)
qed

lemma march_days_era: "march_days a = int (a div 400) * 146097 + era_start (int (a mod 400))"
proof -
  have "int a - int a div 400 * 400 = int (a mod 400)" by (simp add: zmod_int minus_div_mult_eq_mod)
  then show ?thesis
    using era_sum [of "int a"] by (simp add: march_days_def era_start_def zdiv_int mult.commute)
qed

lemma era_last_leap: "era_last (int r) = era_start (int r) + 364 + (if IsLeapYear (r + 1) then 1 else 0)"
proof -
  have "(int r + 1) mod 4 = int ((r + 1) mod 4)" "(int r + 1) mod 100 = int ((r + 1) mod 100)"
      "(int r + 1) mod 400 = int ((r + 1) mod 400)"
    by (simp_all add: zmod_int add.commute)
  then show ?thesis by (simp add: era_last_def IsLeapYear_def)
qed

text \<open>The first half of the conversion back: the era, the year of the era and the day of the year of a date.\<close>

lemma civil_parts:
  assumes y: "1 \<le> y" and m: "1 \<le> m" "m \<le> 12" and d: "1 \<le> d" "d \<le> DaysInMonth y m"
  defines "a \<equiv> if m \<le> 2 then y - 1 else y"
  defines "x \<equiv> DaysFromCivil y m d + 719468"
  defines "doe \<equiv> x - int (a div 400) * 146097"
  shows "0 \<le> x" and "x div 146097 = int (a div 400)" and "year_weight doe div 365 = int (a mod 400)"
    and "doe = era_start (int (a mod 400)) + march_day m d"
proof -
  have x: "x = march_days a + march_day m d"
    using y unfolding x_def a_def march_day_def march_month_def by (simp add: DaysFromCivil_march)
  then show doe: "doe = era_start (int (a mod 400)) + march_day m d"
    by (simp add: doe_def march_days_era)
  have "march_day m d \<le> 364 + (if IsLeapYear (a mod 400 + 1) then 1 else 0)"
  proof (cases "IsLeapYear y \<and> m = 2")
    case True
    then have "y = 400 * (a div 400) + (a mod 400 + 1)" using y by (simp add: a_def)
    then have "IsLeapYear (a mod 400 + 1)" using True leap_period [of "a div 400" "a mod 400 + 1"] by metis
    then show ?thesis using month_back(3) [OF m d] True by simp
  next
    case False
    then have "march_day m d \<le> 364" using month_back(3) [OF m d] by (auto split: if_splits)
    then show ?thesis by simp
  qed
  then have last: "doe \<le> era_last (int (a mod 400))" by (simp add: doe era_last_leap)
  have first: "era_start (int (a mod 400)) \<le> doe" using month_back(2) [OF m d] by (simp add: doe)
  have r: "0 \<le> int (a mod 400)" "int (a mod 400) < 400" by simp_all
  show "year_weight doe div 365 = int (a mod 400)" by (rule year_of_era(1) [OF r first last])
  have "0 \<le> doe" "doe < 146097" using year_of_era(2,3) [OF r first last] .
  then show "0 \<le> x" "x div 146097 = int (a div 400)"
    by (simp_all add: doe_def div_between algebra_simps)
qed

lemma civil_timeD:
  assumes "civil_time y m d h mi s"
  shows "1 \<le> y" "y \<le> 9999" "1 \<le> m" "m \<le> 12" "1 \<le> d" "d \<le> DaysInMonth y m" "h \<le> 23" "mi \<le> 59" "s \<le> 59"
    and "instant y m d h mi s = (DaysFromCivil y m d * 86400 + int (h * 3600 + mi * 60 + s)) * 1000"
  using assms DaysFromCivil_counts [of y m d] DaysInMonth_length [of m y] by (simp_all add: civil_time_def instant_def)

lemma time_of_day:
  fixes h mi s ms :: nat
  assumes "h \<le> 23" and "mi \<le> 59" and "s \<le> 59" and "ms \<le> 999"
  defines "w \<equiv> int (h * 3600 + mi * 60 + s) * 1000 + int ms"
  shows "0 \<le> w" "w < 86400000" "w div 3600000 = int h" "w mod 3600000 div 60000 = int mi"
    "w mod 3600000 mod 60000 div 1000 = int s"
proof -
  show "0 \<le> w" "w < 86400000" using assms by simp_all
  show h: "w div 3600000 = int h" using assms by (intro div_between) simp_all
  have m1: "w mod 3600000 = w - 3600000 * int h" using h minus_mult_div_eq_mod [of w 3600000] by simp
  show mi: "w mod 3600000 div 60000 = int mi" unfolding m1 using assms by (intro div_between) simp_all
  have m2: "w mod 3600000 mod 60000 = w - 3600000 * int h - 60000 * int mi"
    using mi minus_mult_div_eq_mod [of "w mod 3600000" 60000] m1 by simp
  show "w mod 3600000 mod 60000 div 1000 = int s" unfolding m2 using assms by (intro div_between) simp_all
qed

lemma civil_of_instant:
  assumes v: "civil_time y m d h mi s" and ms: "ms \<le> 999"
  shows "TryCivilTimeFromMilliseconds (instant y m d h mi s + int ms) =
         Some \<lparr>year = int y, month = m, day = d, hour = h, minute = mi, second = s\<rparr>"
proof -
  define D where "D = DaysFromCivil y m d"
  define w where "w = int (h * 3600 + mi * 60 + s) * 1000 + int ms"
  define a where "a = (if m \<le> 2 then y - 1 else y)"
  define e r where "e = int (a div 400)" and "r = int (a mod 400)"
  note v' = civil_timeD [OF v]
  have hb: "h \<le> 23" "mi \<le> 59" "s \<le> 59" using v' by simp_all
  note w = time_of_day [OF hb ms, folded w_def]
  have t: "instant y m d h mi s + int ms = 86400000 * D + w"
    by (simp add: v'(10) D_def w_def algebra_simps)
  have days: "(86400000 * D + w) div 86400000 = D" "(86400000 * D + w) mod 86400000 = w"
    using w(1,2) by (simp_all add: div_between)
  have parts: "0 \<le> D + 719468" "(D + 719468) div 146097 = e"
      "year_weight (D + 719468 - e * 146097) div 365 = r"
      "D + 719468 - e * 146097 = era_start r + march_day m d"
    using civil_parts [of y m d] v' unfolding D_def e_def r_def a_def by blast+
  have era: "(if D + 719468 \<ge> 0 then D + 719468 else D + 719468 - 146096) sdiv 146097 = e"
    using parts(1,2) by (simp add: sdiv_nonneg)
  have doy: "D + 719468 - e * 146097 - (365 * r + r div 4 - r div 100) = march_day m d"
    using parts(4) by (simp add: era_start_def)
  have mp: "(5 * march_day m d + 2) div 153 = march_month m" using month_back(1) [of m d y] v' by blast
  have day: "march_day m d - (153 * march_month m + 2) div 5 + 1 = int d" by (simp add: march_day_def)
  have mo: "(if march_month m < 10 then march_month m + 3 else march_month m - 9) = int m"
    using v' by (auto simp: march_month_def)
  have y: "r + e * 400 + (if int m \<le> 2 then 1 else 0) = int y"
  proof -
    have "r + e * 400 = int a" unfolding e_def r_def zmod_int zdiv_int of_nat_numeral by (rule mod_div_mult_eq)
    then show ?thesis using v' by (auto simp: a_def)
  qed
  have b: "(0::int) < 86400000" by simp
  have yes: "\<not> (int y < 1 \<or> int y > 9999)" using v' by simp
  show ?thesis
    unfolding TryCivilTimeFromMilliseconds_def t Let_def
      floor_division [OF b] days era
      parts(3) [unfolded year_weight_def] doy mp day mo y w(3-5) if_not_P [OF yes] nat_int ..
qed

end
