(* ===== verification/Http_Date_Forms.thy ===== *)
theory Http_Date_Forms
  imports Http_Date
begin

text \<open>
  The three date forms a recipient of HTTP has to read (RFC 9110, section 5.6.7), written with names of
  their own and the weekday of \<open>Gregorian_Calendar\<close>, and the proof that the parsers of \<open>Http_Date\<close> read
  them back to the instant they were written for.
\<close>

subsection \<open>Writing dates\<close>

definition two_digits :: "nat \<Rightarrow> string" where
  "two_digits n = [digit_char (n div 10 mod 10), digit_char (n mod 10)]"

definition four_digits :: "nat \<Rightarrow> string" where
  "four_digits n = two_digits (n div 100) @ two_digits (n mod 100)"

definition month_names :: "string list" where
  "month_names = [''Jan'', ''Feb'', ''Mar'', ''Apr'', ''May'', ''Jun'', ''Jul'', ''Aug'', ''Sep'', ''Oct'', ''Nov'', ''Dec'']"

definition day_names :: "string list" where
  "day_names = [''Sun'', ''Mon'', ''Tue'', ''Wed'', ''Thu'', ''Fri'', ''Sat'']"

definition full_day_names :: "string list" where
  "full_day_names = [''Sunday'', ''Monday'', ''Tuesday'', ''Wednesday'', ''Thursday'', ''Friday'', ''Saturday'']"

definition clock_time :: "nat \<Rightarrow> nat \<Rightarrow> nat \<Rightarrow> string" where
  "clock_time h mi s = two_digits h @ '':'' @ two_digits mi @ '':'' @ two_digits s"

definition imf_fixdate :: "nat \<Rightarrow> nat \<Rightarrow> nat \<Rightarrow> nat \<Rightarrow> nat \<Rightarrow> nat \<Rightarrow> string" where
  "imf_fixdate y m d h mi s =
     day_names ! weekday_of y m d @ '', '' @ two_digits d @ '' '' @ month_names ! (m - 1) @ '' '' @ four_digits y @ '' '' @
     clock_time h mi s @ '' GMT''"

definition rfc850_date :: "nat \<Rightarrow> nat \<Rightarrow> nat \<Rightarrow> nat \<Rightarrow> nat \<Rightarrow> nat \<Rightarrow> string" where
  "rfc850_date y m d h mi s =
     full_day_names ! weekday_of y m d @ '', '' @ two_digits d @ ''-'' @ month_names ! (m - 1) @ ''-'' @
     two_digits (y mod 100) @ '' '' @ clock_time h mi s @ '' GMT''"

definition asctime_date :: "nat \<Rightarrow> nat \<Rightarrow> nat \<Rightarrow> nat \<Rightarrow> nat \<Rightarrow> nat \<Rightarrow> string" where
  "asctime_date y m d h mi s =
     day_names ! weekday_of y m d @ '' '' @ month_names ! (m - 1) @ '' '' @
     (if d < 10 then '' '' @ [digit_char d] else two_digits d) @ '' '' @ clock_time h mi s @ '' '' @ four_digits y"

lemma names_agree: "MONTHS = month_names" "WEEKDAYS = day_names" "LONG_WEEKDAYS = full_day_names"
  by (simp_all add: MONTHS_def WEEKDAYS_def LONG_WEEKDAYS_def month_names_def day_names_def full_day_names_def)

lemma digits_length [simp]: "length (two_digits n) = 2" "length (four_digits n) = 4" "length (clock_time h mi s) = 8"
  by (simp_all add: two_digits_def four_digits_def clock_time_def)

lemma digit_back: "k < 10 \<Longrightarrow> IsDigit (digit_char k)" "k < 10 \<Longrightarrow> digit_value (digit_char k) = k"
  by (simp_all add: IsDigit_def digit_value_def in_range_def byte_digits byte_digit_char)

lemma digit_not_space: "k < 10 \<Longrightarrow> digit_char k \<noteq> CHR '' ''"
proof
  assume "k < 10" and "digit_char k = CHR '' ''"
  then have "byte CHR '' '' = 48 + k" using byte_digit_char by metis
  moreover have "byte CHR '' '' = 32" by code_simp
  ultimately show False by simp
qed

lemma two_digits_back:
  assumes "n < 100" and "length pre = k"
  shows "TryParseTwoDigits (pre @ two_digits n @ post) k = Some n"
proof -
  have "n div 10 < 10" using assms(1) by simp
  then show ?thesis
    using assms(2) by (simp add: TryParseTwoDigits_def two_digits_def nth_append digit_back)
qed

lemma four_digits_sum: "b * 10 + c = r \<Longrightarrow> q * 100 + r = n \<Longrightarrow> (q * 10 + b) * 10 + c = n" for n :: nat
  by simp

lemma four_digits_back:
  assumes "n < 10000" and "length pre = k"
  shows "TryParseFourDigits (pre @ four_digits n @ post) k = Some n"
proof -
  have q: "n div 100 div 10 < 10" using assms(1) by simp
  have "four_digits_loop 0 (four_digits n) = Some (((n div 100 div 10 * 10 + n div 100 mod 10) * 10 + n mod 100 div 10) * 10 + n mod 100 mod 10)"
    using q by (simp add: four_digits_def two_digits_def digit_back)
  moreover have "((n div 100 div 10 * 10 + n div 100 mod 10) * 10 + n mod 100 div 10) * 10 + n mod 100 mod 10 = n"
    unfolding div_mult_mod_eq by (rule four_digits_sum [OF div_mult_mod_eq div_mult_mod_eq])
  ultimately show ?thesis
    using assms(2) digits_length(2) [of n] by (simp add: TryParseFourDigits_def)
qed

lemma name_back: "distinct names \<Longrightarrow> i < length names \<Longrightarrow> name_index names (names ! i) = Some i"
proof (induction names arbitrary: i)
  case (Cons name names)
  then show ?case by (cases i) auto
qed simp

lemma names_distinct: "distinct month_names" "distinct day_names" "length month_names = 12" "length day_names = 7"
    "list_all (\<lambda>n. length n = 3) month_names" "list_all (\<lambda>n. length n = 3) day_names"
  by code_simp+

lemma month_name:
  "1 \<le> m \<Longrightarrow> m \<le> 12 \<Longrightarrow>
   length (month_names ! (m - 1)) = 3 \<and> name_index month_names (month_names ! (m - 1)) = Some (m - 1)"
  using name_back [of month_names "m - 1"] names_distinct by (auto simp: list_all_length)

lemma weekday_name: "w < 7 \<Longrightarrow> length (day_names ! w) = 3 \<and> name_index day_names (day_names ! w) = Some w"
  using name_back [of day_names w] names_distinct by (auto simp: list_all_length)

lemma month_back_name:
  "1 \<le> m \<Longrightarrow> m \<le> 12 \<Longrightarrow> length pre = k \<Longrightarrow> MonthIndex (pre @ month_names ! (m - 1) @ post) k = m"
  using month_name [of m] by (simp add: MonthIndex_def names_agree)

lemma weekday_back_name: "w < 7 \<Longrightarrow> WeekdayIndex (day_names ! w @ post) = Some w"
  using weekday_name [of w] by (simp add: WeekdayIndex_def names_agree)

lemma smod_weekday: "(x smod 7 + 7) smod 7 = x mod 7" for x :: int
proof -
  have "- 7 < x smod 7" using smod_int_range [of 7 x] by simp
  then have "(x smod 7 + 7) smod 7 = (x smod 7 + 7) mod 7" by (intro smod_nonneg) simp_all
  also have "\<dots> = x smod 7 mod 7" by simp
  also have "\<dots> = x mod 7"
    using floor_division(2) [of 7 x] by (metis mod_add_self2 mod_mod_trivial zero_less_numeral)
  finally show ?thesis .
qed

text \<open>The program's weekday, counted from the epoch, is that of the calendar.\<close>

lemma program_weekday:
  assumes "1 \<le> y" and "1 \<le> m" and "m \<le> 12"
  shows "(DaysFromCivil y m d + 4) mod 7 = int (weekday_of y m d)"
proof -
  have "DaysFromCivil y m d + 4 = day_number y m d + 1 + 7 * (- 102737)"
    unfolding DaysFromCivil_counts [OF assms] epoch_number by simp
  then have "(DaysFromCivil y m d + 4) mod 7 = (day_number y m d + 1) mod 7" by (metis mod_mult_self2)
  then show ?thesis by (simp add: weekday_of_def)
qed

lemma timestamp_back:
  assumes "civil_time y m d h mi s"
  shows "TryBuildHttpTimestamp (Some (weekday_of y m d)) y m d h mi s = Some (instant y m d h mi s)"
  using civil_timeD [OF assms] program_weekday [of y m d] by (simp add: TryBuildHttpTimestamp_def smod_weekday)

text \<open>The three forms are read back, one by one.\<close>

lemma clock_back:
  assumes "h < 100" "mi < 100" "s < 100" and "length pre = k"
  shows "TryParseTwoDigits (pre @ clock_time h mi s @ post) k = Some h"
    and "TryParseTwoDigits (pre @ clock_time h mi s @ post) (k + 3) = Some mi"
    and "TryParseTwoDigits (pre @ clock_time h mi s @ post) (k + 6) = Some s"
  using two_digits_back [OF assms(1,4), of "'':'' @ two_digits mi @ '':'' @ two_digits s @ post"]
    two_digits_back [of mi "pre @ two_digits h @ '':''" "k + 3" "'':'' @ two_digits s @ post"]
    two_digits_back [of s "pre @ two_digits h @ '':'' @ two_digits mi @ '':''" "k + 6" post] assms
  by (simp_all add: clock_time_def)

lemma civil_small:
  "civil_time y m d h mi s \<Longrightarrow> y < 10000 \<and> d < 100 \<and> h < 100 \<and> mi < 100 \<and> s < 100"
  by (auto simp: civil_time_def month_length_def split: if_splits)

lemma imf_back:
  assumes v: "civil_time y m d h mi s"
  shows "TryParseImfFixdate (imf_fixdate y m d h mi s) = Some (instant y m d h mi s)"
proof -
  let ?w = "day_names ! weekday_of y m d" and ?m = "month_names ! (m - 1)"
  note v' = civil_timeD [OF v]
  have len: "length ?w = 3" "length ?m = 3" using weekday_name [OF weekday_below] month_name [of m] v' by simp_all
  have small: "y < 10000" "d < 100" "h < 100" "mi < 100" "s < 100" using civil_small [OF v] by blast+
  have w: "WeekdayIndex (imf_fixdate y m d h mi s) = Some (weekday_of y m d)"
    unfolding imf_fixdate_def by (rule weekday_back_name [OF weekday_below])
  have mo: "MonthIndex (imf_fixdate y m d h mi s) 8 = m"
    using month_back_name [of m "?w @ '', '' @ two_digits d @ '' ''" 8] v' len by (simp add: imf_fixdate_def)
  have da: "TryParseTwoDigits (imf_fixdate y m d h mi s) 5 = Some d"
    using two_digits_back [OF small(2), of "?w @ '', ''" 5] len by (simp add: imf_fixdate_def)
  have ye: "TryParseFourDigits (imf_fixdate y m d h mi s) 12 = Some y"
    using four_digits_back [OF small(1), of "?w @ '', '' @ two_digits d @ '' '' @ ?m @ '' ''" 12] len
    by (simp add: imf_fixdate_def)
  have cl: "TryParseTwoDigits (imf_fixdate y m d h mi s) 17 = Some h"
      "TryParseTwoDigits (imf_fixdate y m d h mi s) 20 = Some mi" "TryParseTwoDigits (imf_fixdate y m d h mi s) 23 = Some s"
    using clock_back [OF small(3-5), of "?w @ '', '' @ two_digits d @ '' '' @ ?m @ '' '' @ four_digits y @ '' ''" 17] len
    by (simp_all add: imf_fixdate_def)
  have shape: "length (imf_fixdate y m d h mi s) = 29" "imf_fixdate y m d h mi s ! 3 = CHR '',''"
      "imf_fixdate y m d h mi s ! 4 = CHR '' ''" "imf_fixdate y m d h mi s ! 7 = CHR '' ''"
      "imf_fixdate y m d h mi s ! 11 = CHR '' ''" "imf_fixdate y m d h mi s ! 16 = CHR '' ''"
      "imf_fixdate y m d h mi s ! 19 = CHR '':''" "imf_fixdate y m d h mi s ! 22 = CHR '':''"
      "imf_fixdate y m d h mi s ! 25 = CHR '' ''" "take 3 (drop 26 (imf_fixdate y m d h mi s)) = ''GMT''"
    using len by (simp_all add: imf_fixdate_def clock_time_def nth_append)
  show ?thesis
    unfolding TryParseImfFixdate_def Let_def w mo da ye cl using shape v' timestamp_back [OF v] by simp
qed

lemma asctime_back:
  assumes v: "civil_time y m d h mi s"
  shows "TryParseAsctimeDate (asctime_date y m d h mi s) = Some (instant y m d h mi s)"
proof -
  let ?w = "day_names ! weekday_of y m d" and ?m = "month_names ! (m - 1)"
  let ?d = "if d < 10 then '' '' @ [digit_char d] else two_digits d"
  note v' = civil_timeD [OF v]
  have len: "length ?w = 3" "length ?m = 3" "length ?d = 2"
    using weekday_name [OF weekday_below] month_name [of m] v' by simp_all
  have small: "y < 10000" "d < 100" "h < 100" "mi < 100" "s < 100" using civil_small [OF v] by blast+
  define date where "date = asctime_date y m d h mi s"
  have date: "date = ?w @ '' '' @ ?m @ '' '' @ ?d @ '' '' @ clock_time h mi s @ '' '' @ four_digits y"
    by (simp add: date_def asctime_date_def)
  have w: "WeekdayIndex date = Some (weekday_of y m d)"
    unfolding date by (rule weekday_back_name [OF weekday_below])
  have mo: "MonthIndex date 4 = m" unfolding date using month_back_name [of m "?w @ '' ''" 4] v' len by simp
  have da: "(if date ! 8 = CHR '' '' \<and> IsDigit (date ! 9) then Some (digit_value (date ! 9)) else TryParseTwoDigits date 8) = Some d"
  proof (cases "d < 10")
    case True
    then have "date ! 8 = CHR '' ''" "date ! 9 = digit_char d" using len by (simp_all add: date nth_append)
    then show ?thesis using True by (simp add: digit_back)
  next
    case False
    then have "date ! 8 = digit_char (d div 10 mod 10)" using len by (simp add: date nth_append two_digits_def)
    then have "date ! 8 \<noteq> CHR '' ''" using digit_not_space [of "d div 10 mod 10"] by simp
    moreover have "TryParseTwoDigits date 8 = Some d"
      unfolding date using False two_digits_back [OF small(2), of "?w @ '' '' @ ?m @ '' ''" 8] len by simp
    ultimately show ?thesis by simp
  qed
  have cl: "TryParseTwoDigits date 11 = Some h" "TryParseTwoDigits date 14 = Some mi" "TryParseTwoDigits date 17 = Some s"
    unfolding date
    using clock_back [OF small(3-5), of "?w @ '' '' @ ?m @ '' '' @ ?d @ '' ''" 11] len by simp_all
  have ye: "TryParseFourDigits date 20 = Some y"
    unfolding date
    using four_digits_back [OF small(1), of "?w @ '' '' @ ?m @ '' '' @ ?d @ '' '' @ clock_time h mi s @ '' ''" 20 "[]"] len by simp
  have shape: "length date = 24" "date ! 3 = CHR '' ''" "date ! 7 = CHR '' ''" "date ! 10 = CHR '' ''"
      "date ! 13 = CHR '':''" "date ! 16 = CHR '':''" "date ! 19 = CHR '' ''"
    unfolding date using len by (simp_all add: clock_time_def nth_append del: if_split)
  show ?thesis
    unfolding date_def [symmetric] TryParseAsctimeDate_def Let_def w mo da cl ye
    using shape v' timestamp_back [OF v] by simp
qed

lemma long_weekdays:
  "length full_day_names = 7" "list_all (\<lambda>n. 5 < length n \<and> n ! 3 \<noteq> CHR '' '') full_day_names"
  by code_simp+

lemma long_loop_prefix:
  "long_weekday_loop i names v = Some (j, n) \<Longrightarrow> \<exists>name\<in>set names. n = length name \<and> take n v = name"
  by (induction i names v rule: long_weekday_loop.induct) (auto split: if_splits)

lemma long_weekday_none: "v ! 3 = CHR '' '' \<Longrightarrow> LongWeekdayIndex v = None"
proof (rule ccontr)
  assume sp: "v ! 3 = CHR '' ''" and "LongWeekdayIndex v \<noteq> None"
  then obtain name where name: "name \<in> set full_day_names" "take (length name) v = name"
    using long_loop_prefix [of 0 full_day_names v] by (auto simp: LongWeekdayIndex_def names_agree)
  then have "5 < length name" "name ! 3 \<noteq> CHR '' ''" using long_weekdays(2) by (auto simp: list_all_iff)
  moreover from this have "take (length name) v ! 3 = v ! 3" by simp
  ultimately show False using name(2) sp by simp
qed

lemma long_weekday_back:
  "w < 7 \<Longrightarrow> LongWeekdayIndex (full_day_names ! w @ CHR '','' # post) = Some (w, length (full_day_names ! w))"
proof -
  assume "w < 7"
  then have "w \<in> set [0..<7]" by simp
  then consider "w = 0" | "w = 1" | "w = 2" | "w = 3" | "w = 4" | "w = 5" | "w = 6" by (auto simp: upt_rec)
  then show ?thesis by cases (simp_all add: LongWeekdayIndex_def names_agree full_day_names_def)
qed

lemma century_steps:
  "A \<le> R \<Longrightarrow> R < A + 100 \<Longrightarrow> 0 \<le> M \<Longrightarrow> M < 100 \<Longrightarrow> A + M = Y + 100 * k \<Longrightarrow> R - 50 < Y \<Longrightarrow> Y < R + 50 \<Longrightarrow>
   k = - 1 \<or> k = 0 \<or> k = 1" for R :: int
  by linarith

lemma civil_range:
  "(if y < 1 \<or> y > 9999 then None
    else Some \<lparr>year = y, month = m, day = d, hour = h, minute = mi, second = s\<rparr>) = Some r \<Longrightarrow> 1 \<le> year r"
  by (auto split: if_splits)

lemma receipt_year: "TryCivilTimeFromMilliseconds now = Some receipt \<Longrightarrow> 1 \<le> year receipt"
  unfolding TryCivilTimeFromMilliseconds_def Let_def by (rule civil_range)

text \<open>A year within fifty years of the receipt is recovered from its last two digits.\<close>

lemma rfc850_year_back:
  assumes "1 \<le> year receipt" and "year receipt - 50 < int y" and "int y < year receipt + 50"
  shows "rfc850_year receipt (y mod 100) m d h mi s = int y"
proof -
  define R where "R = year receipt"
  define Y where "Y = int y"
  have "int (y mod 100) = Y mod 100" by (simp add: Y_def zmod_int)
  moreover have "R sdiv 100 = R div 100" using assms(1) by (simp add: R_def sdiv_nonneg)
  ultimately have y0: "year receipt sdiv 100 * 100 + int (y mod 100) = R div 100 * 100 + Y mod 100" by (simp add: R_def)
  define k where "k = R div 100 - Y div 100"
  have eq: "R div 100 * 100 + Y mod 100 = Y + 100 * k" by (simp add: k_def algebra_simps flip: minus_div_mult_eq_mod)
  have "R div 100 * 100 \<le> R" "R < R div 100 * 100 + 100" "0 \<le> Y mod 100" "Y mod 100 < 100"
    using div_mult_mod_eq [of R 100] pos_mod_bound [of 100 R] by simp_all
  then have "k = - 1 \<or> k = 0 \<or> k = 1"
    using century_steps [OF _ _ _ _ eq] assms(2,3) unfolding R_def Y_def by blast
  then show ?thesis
    unfolding rfc850_year_def Let_def y0 eq using assms(2,3) by (auto simp: R_def Y_def)
qed

lemma rfc850_back:
  assumes v: "civil_time y m d h mi s" and r: "TryCivilTimeFromMilliseconds now = Some receipt"
    and near: "year receipt - 50 < int y" "int y < year receipt + 50"
  shows "TryParseRfc850Date (rfc850_date y m d h mi s) now = Some (instant y m d h mi s)"
proof -
  let ?w = "full_day_names ! weekday_of y m d" and ?m = "month_names ! (m - 1)"
  define n where "n = length ?w"
  note v' = civil_timeD [OF v]
  have len: "length ?m = 3" using month_name [of m] v' by simp
  have small: "y mod 100 < 100" "d < 100" "h < 100" "mi < 100" "s < 100" using civil_small [OF v] by simp_all
  define rest where "rest = '', '' @ two_digits d @ ''-'' @ ?m @ ''-'' @ two_digits (y mod 100) @ '' '' @ clock_time h mi s @ '' GMT''"
  define date where "date = rfc850_date y m d h mi s"
  have date: "date = ?w @ rest" by (simp add: date_def rfc850_date_def rest_def)
  have w: "LongWeekdayIndex date = Some (weekday_of y m d, n)"
    unfolding date rest_def n_def using long_weekday_back [OF weekday_below] by simp
  have mo: "MonthIndex date (n + 5) = m"
    unfolding date rest_def using month_back_name [of m "?w @ '', '' @ two_digits d @ ''-''" "n + 5"] v' by (simp add: n_def)
  have da: "TryParseTwoDigits date (n + 2) = Some d"
    unfolding date rest_def using two_digits_back [OF small(2), of "?w @ '', ''" "n + 2"] by (simp add: n_def)
  have ye: "TryParseTwoDigits date (n + 9) = Some (y mod 100)"
    unfolding date rest_def
    using two_digits_back [OF small(1), of "?w @ '', '' @ two_digits d @ ''-'' @ ?m @ ''-''" "n + 9"] len by (simp add: n_def)
  have cl: "TryParseTwoDigits date (n + 12) = Some h" "TryParseTwoDigits date (n + 15) = Some mi"
      "TryParseTwoDigits date (n + 18) = Some s"
    unfolding date rest_def
    using clock_back [OF small(3-5),
        of "?w @ '', '' @ two_digits d @ ''-'' @ ?m @ ''-'' @ two_digits (y mod 100) @ '' ''" "n + 12"] len
    by (simp_all add: n_def add.commute)
  have at: "date ! (n + k) = rest ! k" for k by (simp add: date n_def)
  have shape: "length date = n + 24" "rest ! 1 = CHR '' ''" "rest ! 4 = CHR ''-''" "rest ! 8 = CHR ''-''"
      "rest ! 11 = CHR '' ''" "rest ! 14 = CHR '':''" "rest ! 17 = CHR '':''" "rest ! 20 = CHR '' ''"
      "take 3 (drop (n + 21) date) = ''GMT''"
    using len by (simp_all add: date n_def rest_def clock_time_def nth_append)
  have y: "rfc850_year receipt (y mod 100) m d h mi s = int y" by (rule rfc850_year_back [OF receipt_year [OF r] near])
  show ?thesis
    unfolding date_def [symmetric] TryParseRfc850Date_def w option.case prod.case Let_def mo da ye cl r y at
    using shape v' timestamp_back [OF v] by simp
qed

subsection \<open>Properties\<close>

text \<open>
  For every date and time of the years 1 to 9999, the closed formula counts exactly the days of the Gregorian
  calendar between the epoch and the date, month by month and year by year, before the epoch as after it, and the
  conversion from milliseconds inverts it.
\<close>

lemma civil_calendar:
  assumes "civil_time y m d h mi s" and "ms \<le> 999"
  shows "DaysFromCivil y m d = day_number y m d - day_number 1970 1 1 \<and>
         TryCivilTimeFromMilliseconds (instant y m d h mi s + int ms) =
           Some \<lparr>year = int y, month = m, day = d, hour = h, minute = mi, second = s\<rparr>"
  using DaysFromCivil_counts [of y m d] civil_of_instant [OF assms] civil_timeD(1,3,4) [OF assms(1)] by blast

lemma rfc850_not_imf:
  assumes "civil_time y m d h mi s"
  shows "TryParseImfFixdate (rfc850_date y m d h mi s) = None"
proof -
  have "length (full_day_names ! weekday_of y m d) > 5"
    using long_weekdays weekday_below by (auto simp: list_all_length)
  moreover have "length (month_names ! (m - 1)) = 3" using civil_timeD [OF assms] month_name by simp
  ultimately show ?thesis by (simp add: TryParseImfFixdate_def rfc850_date_def)
qed

lemma asctime_only:
  assumes "civil_time y m d h mi s"
  shows "TryParseImfFixdate (asctime_date y m d h mi s) = None"
    and "TryParseRfc850Date (asctime_date y m d h mi s) now = None"
proof -
  have "length (day_names ! weekday_of y m d) = 3" using weekday_name weekday_below by blast
  moreover have "length (month_names ! (m - 1)) = 3" using civil_timeD [OF assms] month_name by simp
  ultimately have "length (asctime_date y m d h mi s) = 24" "asctime_date y m d h mi s ! 3 = CHR '' ''"
    by (simp_all add: asctime_date_def nth_append)
  then show "TryParseImfFixdate (asctime_date y m d h mi s) = None"
      "TryParseRfc850Date (asctime_date y m d h mi s) now = None"
    using long_weekday_none by (simp_all add: TryParseImfFixdate_def TryParseRfc850Date_def)
qed

text \<open>
  C26. Every date form a recipient has to accept is read back to the instant it was written for, where instant and
  weekday are counted day by day in the Gregorian calendar: the fixed-length form and the form of \<open>asctime\<close> for
  every date and time of the years 1 to 9999, whatever the clock says, and the obsolete form with a two-digit year
  whenever the clock shows a date and time of a year less than fifty years away.
\<close>

theorem http_date_roundtrip:
  assumes "civil_time y m d h mi s"
  shows "TryParseHttpDate (imf_fixdate y m d h mi s) now = Some (instant y m d h mi s) \<and>
    TryParseHttpDate (asctime_date y m d h mi s) now = Some (instant y m d h mi s) \<and>
    (\<forall>y' m' d' h' mi' s' ms.
       civil_time y' m' d' h' mi' s' \<and> ms \<le> 999 \<and> now = instant y' m' d' h' mi' s' + int ms \<and>
       int y' - 50 < int y \<and> int y < int y' + 50 \<longrightarrow>
       TryParseHttpDate (rfc850_date y m d h mi s) now = Some (instant y m d h mi s))"
proof (intro conjI allI impI)
  show "TryParseHttpDate (imf_fixdate y m d h mi s) now = Some (instant y m d h mi s)"
    using imf_back [OF assms] by (simp add: TryParseHttpDate_def)
  show "TryParseHttpDate (asctime_date y m d h mi s) now = Some (instant y m d h mi s)"
    using asctime_only [OF assms] asctime_back [OF assms] by (simp add: TryParseHttpDate_def)
  fix y' m' d' h' mi' s' ms
  assume "civil_time y' m' d' h' mi' s' \<and> ms \<le> 999 \<and> now = instant y' m' d' h' mi' s' + int ms \<and>
    int y' - 50 < int y \<and> int y < int y' + 50"
  then have r: "civil_time y' m' d' h' mi' s'" "ms \<le> 999" and now: "now = instant y' m' d' h' mi' s' + int ms"
    and near: "int y' - 50 < int y" "int y < int y' + 50" by blast+
  have "TryParseRfc850Date (rfc850_date y m d h mi s) now = Some (instant y m d h mi s)"
    unfolding now by (rule rfc850_back [OF assms civil_of_instant [OF r]]) (use near in simp_all)
  then show "TryParseHttpDate (rfc850_date y m d h mi s) now = Some (instant y m d h mi s)"
    using rfc850_not_imf [OF assms] by (simp add: TryParseHttpDate_def)
qed

text \<open>The dates of RFC 9110, section 5.6.7, read by a clock that shows the start of 1970.\<close>

theorem http_date_roundtrip_witness:
  "TryParseHttpDate ''Sun, 06 Nov 1994 08:49:37 GMT'' 0 = Some (instant 1994 11 6 8 49 37) \<and>
   TryParseHttpDate ''Sunday, 06-Nov-94 08:49:37 GMT'' 0 = Some (instant 1994 11 6 8 49 37) \<and>
   TryParseHttpDate ''Sun Nov  6 08:49:37 1994'' 0 = Some (instant 1994 11 6 8 49 37)"
proof -
  have v: "civil_time 1994 11 6 8 49 37" "civil_time 1970 1 1 0 0 0" by (simp_all add: civil_time_def month_length_def)
  have "(DaysFromCivil 1994 11 6 + 4) mod 7 = 0" by code_simp
  then have w: "weekday_of 1994 11 6 = 0" using program_weekday [of 1994 11 6] by simp
  note t = http_date_roundtrip [OF v(1), of 0]
  have "civil_time 1970 1 1 0 0 0 \<and> (0::nat) \<le> 999 \<and> 0 = instant 1970 1 1 0 0 0 + int 0 \<and>
      int 1970 - 50 < int 1994 \<and> int 1994 < int 1970 + 50"
    using v(2) by (simp add: instant_def)
  then have "TryParseHttpDate (rfc850_date 1994 11 6 8 49 37) 0 = Some (instant 1994 11 6 8 49 37)"
    by (rule t [THEN conjunct2, THEN conjunct2, rule_format])
  moreover have "imf_fixdate 1994 11 6 8 49 37 = ''Sun, 06 Nov 1994 08:49:37 GMT''"
    "rfc850_date 1994 11 6 8 49 37 = ''Sunday, 06-Nov-94 08:49:37 GMT''"
    "asctime_date 1994 11 6 8 49 37 = ''Sun Nov  6 08:49:37 1994''"
    unfolding imf_fixdate_def rfc850_date_def asctime_date_def w by code_simp+
  ultimately show ?thesis using t by simp
qed

end
