(* ===== verification/Rate_Limit_Guidance.thy ===== *)
theory Rate_Limit_Guidance
  imports Http_Date
begin

text \<open>
  How long a rate-limited response asks the client to wait, \<open>ParseRateLimitGuidance\<close> of
  \<open>src/src/runtime/execution/rate_limit_guidance.cpp\<close>. Delays are unsigned 64-bit milliseconds; the two clock
  readings of the receipt and the time stamps are signed 64-bit values, here integers.

  The loop over the declared fields is shown to be the latest of the delays they ask for, and to
  refuse the response as a whole when one of them is malformed.
\<close>

datatype RateLimitGuidanceFormat = RETRY_AFTER | DELTA_SECONDS | UNIX_SECONDS

datatype RateLimitGuidanceReason = NO_REASON | GUIDANCE_MISSING | MALFORMED_GUIDANCE | GUIDANCE_EXCEEDS_POLICY

record RateLimitGuidanceObservation =
  canonical_field_name :: string
  format :: RateLimitGuidanceFormat
  field_values :: "string list"

record RateLimitGuidanceInput =
  guidance :: "RateLimitGuidanceObservation list"
  date_values :: "string list"
  wall_milliseconds :: int
  steady_milliseconds :: int
  maximum_delay_milliseconds :: u64

record RateLimitGuidanceResult =
  reason :: RateLimitGuidanceReason
  eligible_steady_milliseconds :: int
  delay_milliseconds :: u64
  immediate :: bool

definition Failure :: "RateLimitGuidanceReason \<Rightarrow> RateLimitGuidanceResult" where
  "Failure r = \<lparr>reason = r, eligible_steady_milliseconds = 0, delay_milliseconds = 0, immediate = False\<rparr>"

fun decimal_loop :: "u64 \<Rightarrow> u64 \<Rightarrow> string \<Rightarrow> u64 option" where
  "decimal_loop maximum parsed [] = Some parsed"
| "decimal_loop maximum parsed (c # cs) =
     (if \<not> IsDigit c then None
      else
        let digit = of_nat (digit_value c) in
        if parsed > (maximum - digit) div 10 then None else decimal_loop maximum (parsed * 10 + digit) cs)"

definition TryParseDecimal :: "string \<Rightarrow> u64 \<Rightarrow> u64 option" where
  "TryParseDecimal v maximum = (if v = [] then None else decimal_loop maximum 0 v)"

definition TryAddDelay :: "int \<Rightarrow> u64 \<Rightarrow> int option" where
  "TryAddDelay steady delay =
     (if uint delay > int64_max \<or> steady > int64_max - uint delay then None else Some (steady + uint delay))"

definition TryAbsoluteDelay :: "int \<Rightarrow> int \<Rightarrow> u64 option" where
  "TryAbsoluteDelay target reference =
     (if target \<le> reference then Some 0
      else if reference < 0 \<and> target > int64_max + reference then None
      else Some (of_int (target - reference)))"

definition maximum_seconds :: u64 where
  "maximum_seconds = of_int int64_max div 1000"

text \<open>The delay one present value asks for.\<close>

definition observation_delay :: "int \<Rightarrow> int \<Rightarrow> RateLimitGuidanceFormat \<Rightarrow> string \<Rightarrow> u64 option" where
  "observation_delay wall date_reference fmt v =
     (if fmt = DELTA_SECONDS \<or> fmt = RETRY_AFTER then
        (case TryParseDecimal v maximum_seconds of
           Some seconds \<Rightarrow> Some (seconds * 1000)
         | None \<Rightarrow>
             if fmt = RETRY_AFTER then
               (case TryParseHttpDate v wall of
                  None \<Rightarrow> None
                | Some target \<Rightarrow> TryAbsoluteDelay target date_reference)
             else None)
      else
        (case TryParseDecimal v maximum_seconds of
           None \<Rightarrow> None
         | Some seconds \<Rightarrow> TryAbsoluteDelay (uint (seconds * 1000)) date_reference))"

definition HasDuplicateField :: "string list \<Rightarrow> string \<Rightarrow> bool" where
  "HasDuplicateField prior name \<longleftrightarrow> name \<in> set prior"

text \<open>The loop over the observations, with the names before it and the latest delay so far.\<close>

fun guidance_loop ::
  "RateLimitGuidanceInput \<Rightarrow> int \<Rightarrow> string list \<Rightarrow> bool \<times> u64 \<times> int \<Rightarrow> RateLimitGuidanceObservation list
   \<Rightarrow> (bool \<times> u64 \<times> int) option" where
  "guidance_loop input date_reference prior latest [] = Some latest"
| "guidance_loop input date_reference prior latest (observation # rest) =
     (let name = canonical_field_name observation in
      if name = [] \<or> HasDuplicateField prior name \<or> length (field_values observation) > 1 then None
      else case field_values observation of
        [] \<Rightarrow> guidance_loop input date_reference (name # prior) latest rest
      | v # _ \<Rightarrow>
          (case observation_delay (wall_milliseconds input) date_reference (format observation) v of
             None \<Rightarrow> None
           | Some delay \<Rightarrow>
               (case TryAddDelay (steady_milliseconds input) delay of
                  None \<Rightarrow> None
                | Some eligible \<Rightarrow>
                    (case latest of (_, latest_delay, latest_eligible) \<Rightarrow>
                       guidance_loop input date_reference (name # prior)
                         (if delay > latest_delay then (True, delay, eligible) else (True, latest_delay, latest_eligible))
                         rest))))"

definition ParseRateLimitGuidance :: "RateLimitGuidanceInput \<Rightarrow> RateLimitGuidanceResult" where
  "ParseRateLimitGuidance input =
     (let date_reference =
            (case date_values input of
               [] \<Rightarrow> Some (wall_milliseconds input)
             | [date] \<Rightarrow> TryParseHttpDate date (wall_milliseconds input)
             | _ \<Rightarrow> None) in
      case date_reference of
        None \<Rightarrow> Failure MALFORMED_GUIDANCE
      | Some ref \<Rightarrow>
          (case guidance_loop input ref [] (False, 0, steady_milliseconds input) (guidance input) of
             None \<Rightarrow> Failure MALFORMED_GUIDANCE
           | Some (found, latest_delay, latest_eligible) \<Rightarrow>
               if \<not> found then Failure GUIDANCE_MISSING
               else if latest_delay > maximum_delay_milliseconds input then Failure GUIDANCE_EXCEEDS_POLICY
               else \<lparr>reason = NO_REASON, eligible_steady_milliseconds = latest_eligible,
                     delay_milliseconds = latest_delay, immediate = (latest_delay = 0)\<rparr>))"

subsection \<open>Exact arithmetic\<close>

fun decimal_number :: "nat \<Rightarrow> string \<Rightarrow> nat" where
  "decimal_number n [] = n"
| "decimal_number n (c # cs) = decimal_number (10 * n + digit_value c) cs"

lemma decimal_number_mono: "n \<le> decimal_number n cs"
  by (induction n cs rule: decimal_number.induct) auto

lemma decimal_guard:
  assumes "9 \<le> maximum" and "d < 10"
  shows "(parsed::u64) > (maximum - of_nat d) div 10 \<longleftrightarrow> 10 * unat parsed + d > unat maximum"
    and "10 * unat parsed + d \<le> unat maximum \<Longrightarrow> unat (parsed * 10 + of_nat d) = 10 * unat parsed + d"
proof -
  have d: "unat (of_nat d :: u64) = d" using assms(2) by (simp add: unat_of_nat)
  have m: "9 \<le> unat maximum" using assms(1) by (simp add: word_le_nat_alt)
  then have "of_nat d \<le> maximum" using assms(2) d by (simp add: word_le_nat_alt)
  then have "unat ((maximum - of_nat d) div 10) = (unat maximum - d) div 10" using d by (simp add: unat_div unat_sub_le)
  then show "(parsed::u64) > (maximum - of_nat d) div 10 \<longleftrightarrow> 10 * unat parsed + d > unat maximum"
    using assms(2) m by (simp add: word_less_nat_alt) arith
  assume small: "10 * unat parsed + d \<le> unat maximum"
  have "unat maximum < 2 ^ LENGTH(64)" by (rule unsigned_less)
  moreover have "unat (parsed * 10 + of_nat d) = (10 * unat parsed + d) mod 2 ^ 64"
    by (simp add: unat_word_ariths d mod_simps mult.commute)
  ultimately show "unat (parsed * 10 + of_nat d) = 10 * unat parsed + d" using small by simp
qed

lemma digit_below: "IsDigit c \<Longrightarrow> digit_value c < 10"
  by (auto simp: IsDigit_def digit_value_def in_range_def byte_digits)

lemma decimal_loop_exact:
  assumes "9 \<le> maximum" and "parsed \<le> maximum"
  shows "decimal_loop maximum parsed cs =
         (if list_all IsDigit cs \<and> decimal_number (unat parsed) cs \<le> unat maximum
          then Some (of_nat (decimal_number (unat parsed) cs)) else None)"
  using assms
proof (induction maximum parsed cs rule: decimal_loop.induct)
  case (1 maximum parsed)
  then show ?case by (simp add: word_le_nat_alt)
next
  case (2 maximum parsed c cs)
  show ?case
  proof (cases "IsDigit c")
    case True
    define d where "d = digit_value c"
    have d: "d < 10" using digit_below [OF True] by (simp add: d_def)
    show ?thesis
    proof (cases "10 * unat parsed + d > unat maximum")
      case True
      then have "\<not> decimal_number (10 * unat parsed + d) cs \<le> unat maximum"
        using decimal_number_mono [of "10 * unat parsed + d" cs] by simp
      then show ?thesis
        using True decimal_guard(1) [OF 2(2) d, of parsed] by (simp add: Let_def flip: d_def)
    next
      case False
      then have u: "unat (parsed * 10 + of_nat d) = 10 * unat parsed + d" using decimal_guard(2) [OF 2(2) d] by simp
      have "\<not> parsed > (maximum - of_nat d) div 10" using False decimal_guard(1) [OF 2(2) d] by blast
      moreover have "parsed * 10 + of_nat d \<le> maximum" using u False by (simp add: word_le_nat_alt)
      ultimately have "decimal_loop maximum (parsed * 10 + of_nat d) cs =
          (if list_all IsDigit cs \<and> decimal_number (10 * unat parsed + d) cs \<le> unat maximum
           then Some (of_nat (decimal_number (10 * unat parsed + d) cs)) else None)"
        using 2(1) [OF _ refl] True 2(2) by (simp add: u flip: d_def)
      then show ?thesis using True \<open>\<not> parsed > (maximum - of_nat d) div 10\<close> by (simp add: Let_def flip: d_def)
    qed
  qed simp
qed

lemma maximum_seconds_nat: "unat maximum_seconds = 9223372036854775" "9 \<le> maximum_seconds"
  by (simp_all add: maximum_seconds_def int64_max_def)

lemma TryParseDecimal_seconds:
  "TryParseDecimal v maximum_seconds =
   (if v \<noteq> [] \<and> list_all IsDigit v \<and> decimal_number 0 v \<le> 9223372036854775
    then Some (of_nat (decimal_number 0 v)) else None)"
  using decimal_loop_exact [OF maximum_seconds_nat(2), of 0 v]
  by (simp add: TryParseDecimal_def maximum_seconds_nat)

lemma seconds_milliseconds:
  assumes "n \<le> 9223372036854775"
  shows "uint (of_nat n * 1000 :: u64) = 1000 * int n"
proof -
  have "unat (of_nat n * 1000 :: u64) = (n * 1000) mod 2 ^ 64"
    by (simp add: unat_word_ariths unat_of_nat mod_simps)
  then have "unat (of_nat n * 1000 :: u64) = n * 1000" using assms by simp
  then show ?thesis by (metis mult.commute of_nat_mult of_nat_numeral uint_nat)
qed

text \<open>Time stamps of HTTP dates stay far below the 64-bit range.\<close>

lemma DaysFromCivil_le:
  assumes "0 < y" and "y \<le> 9999" and "m \<le> 12" and "d \<le> 31"
  shows "DaysFromCivil y m d \<le> 4000000"
proof -
  define a where "a = (if m \<le> 2 then y - 1 else y)"
  have "a \<le> 9999" using assms by (auto simp: a_def)
  then have "a div 4 \<le> 2499" "a div 400 \<le> 24" by simp_all
  then have "march_days a \<le> 365 * 9999 + 2499 + 24"
    using \<open>a \<le> 9999\<close> unfolding march_days_def by linarith
  moreover have "(153 * int (if m > 2 then m - 3 else m + 9) + 2) div 5 \<le> (153 * 11 + 2) div 5"
    using assms(3) by (intro zdiv_mono1) auto
  ultimately show ?thesis
    using assms(4) unfolding DaysFromCivil_march [OF assms(1)] a_def [symmetric] by simp
qed

lemma four_digits_below: "four_digits_loop p cs = Some n \<Longrightarrow> n < (p + 1) * 10 ^ length cs"
proof (induction p cs arbitrary: n rule: four_digits_loop.induct)
  case (2 p c cs)
  then have "IsDigit c" "n < (p * 10 + digit_value c + 1) * 10 ^ length cs" by (auto split: if_splits)
  moreover have "(p * 10 + digit_value c + 1) * 10 ^ length cs \<le> ((p + 1) * 10) * 10 ^ length cs"
    using digit_below [OF \<open>IsDigit c\<close>] by (intro mult_le_mono1) simp
  ultimately have "n < ((p + 1) * 10) * 10 ^ length cs" by linarith
  then show ?case by (simp only: list.size(4) One_nat_def add_Suc_right add_0_right power_Suc mult.assoc)
qed simp

lemma TryParseFourDigits_below: "TryParseFourDigits v k = Some n \<Longrightarrow> n \<le> 9999"
  using four_digits_below [of 0 "take 4 (drop k v)" n] by (auto simp: TryParseFourDigits_def split: if_splits)

lemma build_below:
  assumes "TryBuildHttpTimestamp w y m d h mi s = Some t" and "y \<le> 9999"
  shows "t \<le> int64_max"
proof -
  have b: "0 < y" "1 \<le> m" "m \<le> 12" "d \<le> DaysInMonth y m" "h \<le> 23" "mi \<le> 59" "s \<le> 60"
      "t = (DaysFromCivil y m d * 86400 + int (h * 3600 + mi * 60 + s)) * 1000"
    using assms(1) by (auto simp: TryBuildHttpTimestamp_def Let_def split: if_splits)
  have "DaysInMonth y m \<le> 31" by (cases rule: month_cases [OF b(2,3)]) (simp_all add: DaysInMonth_def)
  then have "DaysFromCivil y m d \<le> 4000000" using DaysFromCivil_le b assms(2) by simp
  moreover have "int (h * 3600 + mi * 60 + s) \<le> 100000" using b(5-7) by simp
  ultimately show ?thesis using b(8) unfolding int64_max_def by simp
qed

lemma http_date_below: "TryParseHttpDate v wall = Some t \<Longrightarrow> t \<le> int64_max"
proof -
  have "t \<le> int64_max" if "TryParseImfFixdate v = Some t"
    using that by (auto simp: TryParseImfFixdate_def Let_def split: if_splits option.splits
        intro: build_below TryParseFourDigits_below)
  moreover have "t \<le> int64_max" if "TryParseRfc850Date v wall = Some t"
    using that by (auto simp: TryParseRfc850Date_def Let_def split: if_splits option.splits prod.splits
        intro: build_below)
  moreover have "t \<le> int64_max" if "TryParseAsctimeDate v = Some t"
    using that by (auto simp: TryParseAsctimeDate_def Let_def split: if_splits option.splits
        intro: build_below TryParseFourDigits_below)
  ultimately show "TryParseHttpDate v wall = Some t \<Longrightarrow> t \<le> int64_max"
    by (auto simp: TryParseHttpDate_def split: option.splits)
qed

subsection \<open>The delay a response asks for\<close>

text \<open>The specification over natural numbers: how many milliseconds one value asks for, counted from a date.\<close>

definition until :: "int \<Rightarrow> int \<Rightarrow> nat option" where
  "until target ref = (if target - ref > int64_max then None else Some (nat (target - ref)))"

definition asked_delay :: "int \<Rightarrow> int \<Rightarrow> RateLimitGuidanceFormat \<Rightarrow> string \<Rightarrow> nat option" where
  "asked_delay wall ref fmt v =
     (if v \<noteq> [] \<and> list_all IsDigit v \<and> decimal_number 0 v \<le> 9223372036854775 then
        (if fmt = UNIX_SECONDS then until (1000 * int (decimal_number 0 v)) ref else Some (1000 * decimal_number 0 v))
      else if fmt = RETRY_AFTER then
        (case TryParseHttpDate v wall of None \<Rightarrow> None | Some target \<Rightarrow> until target ref)
      else None)"

lemma TryAbsoluteDelay_exact:
  assumes "target \<le> int64_max"
  shows "TryAbsoluteDelay target ref = map_option of_nat (until target ref)"
  using assms by (auto simp: TryAbsoluteDelay_def until_def int64_max_def)

lemma until_below: "until target ref = Some n \<Longrightarrow> int n \<le> int64_max"
  by (auto simp: until_def int64_max_def split: if_splits)

lemma observation_exact:
  "observation_delay wall ref fmt v = map_option of_nat (asked_delay wall ref fmt v)"
proof -
  let ?n = "decimal_number 0 v"
  have unix: "TryAbsoluteDelay (uint (of_nat ?n * 1000 :: u64)) ref = map_option of_nat (until (1000 * int ?n) ref)"
    if "?n \<le> 9223372036854775"
    using that by (simp add: seconds_milliseconds TryAbsoluteDelay_exact int64_max_def)
  have date: "(case TryParseHttpDate v wall of None \<Rightarrow> None | Some target \<Rightarrow> TryAbsoluteDelay target ref) =
      map_option of_nat (case TryParseHttpDate v wall of None \<Rightarrow> None | Some target \<Rightarrow> until target ref)"
    using http_date_below [of v wall] by (auto simp: TryAbsoluteDelay_exact split: option.splits)
  show ?thesis
    using unix date
    by (cases fmt) (auto simp: observation_delay_def asked_delay_def TryParseDecimal_seconds mult.commute)
qed

lemma asked_below: "asked_delay wall ref fmt v = Some n \<Longrightarrow> int n \<le> int64_max"
  by (auto simp: asked_delay_def int64_max_def split: if_splits option.splits dest!: until_below)

definition present :: "RateLimitGuidanceObservation list \<Rightarrow> (RateLimitGuidanceFormat \<times> string) list" where
  "present obs = map (\<lambda>ob. (format ob, hd (field_values ob))) (filter (\<lambda>ob. field_values ob \<noteq> []) obs)"

definition readable :: "RateLimitGuidanceInput \<Rightarrow> int \<Rightarrow> RateLimitGuidanceObservation list \<Rightarrow> bool" where
  "readable input ref obs \<longleftrightarrow>
     list_all (\<lambda>ob. canonical_field_name ob \<noteq> [] \<and> length (field_values ob) \<le> 1) obs \<and>
     list_all (\<lambda>(fmt, v). case asked_delay (wall_milliseconds input) ref fmt v of
                 None \<Rightarrow> False | Some n \<Rightarrow> steady_milliseconds input + int n \<le> int64_max) (present obs)"

definition asked_delays :: "RateLimitGuidanceInput \<Rightarrow> int \<Rightarrow> RateLimitGuidanceObservation list \<Rightarrow> nat list" where
  "asked_delays input ref obs = map (\<lambda>(fmt, v). the (asked_delay (wall_milliseconds input) ref fmt v)) (present obs)"

lemma TryAddDelay_exact:
  "int n \<le> int64_max \<Longrightarrow>
   TryAddDelay steady (of_nat n) = (if steady + int n \<le> int64_max then Some (steady + int n) else None)"
proof -
  assume n: "int n \<le> int64_max"
  then have "uint (of_nat n :: u64) = int n" by (simp add: uint_nat unat_of_nat int64_max_def)
  then show ?thesis using n by (auto simp: TryAddDelay_def)
qed

lemma delay_less: "int n \<le> int64_max \<Longrightarrow> int k \<le> int64_max \<Longrightarrow> (of_nat k :: u64) < of_nat n \<longleftrightarrow> k < n"
  by (simp add: word_less_nat_alt unat_of_nat int64_max_def)

lemma foldr_max: "foldr max ds (max n k) = max n (foldr max ds k)" for n :: nat
  by (induction ds) (simp_all add: max.left_commute)

lemma foldr_max_Max: "ds \<noteq> [] \<Longrightarrow> foldr max ds 0 = Max (set ds)" for ds :: "nat list"
  by (induction ds rule: list_nonempty_induct) simp_all

lemma guidance_loop_exact:
  assumes "int k \<le> int64_max"
  shows "guidance_loop input ref prior (found, of_nat k, steady_milliseconds input + int k) obs =
         (if readable input ref obs \<and> distinct (map canonical_field_name obs) \<and>
             set (map canonical_field_name obs) \<inter> set prior = {}
          then let n = foldr max (asked_delays input ref obs) k in
               Some (found \<or> present obs \<noteq> [], of_nat n, steady_milliseconds input + int n)
          else None)"
  using assms
proof (induction obs arbitrary: prior found k)
  case Nil
  then show ?case by (simp add: readable_def present_def asked_delays_def)
next
  case (Cons ob obs)
  let ?name = "canonical_field_name ob"
  show ?case
  proof (cases "?name = [] \<or> HasDuplicateField prior ?name \<or> length (field_values ob) > 1")
    case True
    then show ?thesis by (auto simp: readable_def HasDuplicateField_def)
  next
    case ok: False
    show ?thesis
    proof (cases "field_values ob")
      case Nil
      then have "present (ob # obs) = present obs" "asked_delays input ref (ob # obs) = asked_delays input ref obs"
        by (simp_all add: present_def asked_delays_def)
      then show ?thesis
        using Cons.IH [OF Cons.prems, of "?name # prior" found] ok Nil
        by (auto simp: readable_def HasDuplicateField_def Let_def)
    next
      case (Cons v vs)
      then have v: "field_values ob = [v]" using ok by simp
      then have p: "present (ob # obs) = (format ob, v) # present obs" by (simp add: present_def)
      show ?thesis
      proof (cases "asked_delay (wall_milliseconds input) ref (format ob) v")
        case None
        then show ?thesis using ok v p by (simp add: readable_def observation_exact Let_def)
      next
        case (Some n)
        have n: "int n \<le> int64_max" by (rule asked_below [OF Some])
        have ds: "asked_delays input ref (ob # obs) = n # asked_delays input ref obs"
          using p Some by (simp add: asked_delays_def)
        have fold: "foldr max (asked_delays input ref obs) (max n k) = max n (foldr max (asked_delays input ref obs) k)"
          by (rule foldr_max)
        have latest: "(if (of_nat n :: u64) > of_nat k then (True, of_nat n, steady_milliseconds input + int n)
            else (True, of_nat k, steady_milliseconds input + int k)) =
            (True, of_nat (max n k), steady_milliseconds input + int (max n k))"
          using delay_less [OF n Cons.prems] by (simp add: max_def)
        show ?thesis
        proof (cases "steady_milliseconds input + int n \<le> int64_max")
          case True
          have "int (max n k) \<le> int64_max" using n Cons.prems by simp
          then have IH: "guidance_loop input ref (?name # prior)
                (True, of_nat (max n k), steady_milliseconds input + int (max n k)) obs =
              (if readable input ref obs \<and> distinct (map canonical_field_name obs) \<and>
                  set (map canonical_field_name obs) \<inter> set (?name # prior) = {}
               then let n = foldr max (asked_delays input ref obs) (max n k) in
                    Some (True \<or> present obs \<noteq> [], of_nat n, steady_milliseconds input + int n)
               else None)" by (rule Cons.IH)
          have step: "guidance_loop input ref prior (found, of_nat k, steady_milliseconds input + int k) (ob # obs) =
              guidance_loop input ref (?name # prior)
                (True, of_nat (max n k), steady_milliseconds input + int (max n k)) obs"
            unfolding latest [symmetric] using ok v Some True
            by (simp add: Let_def observation_exact TryAddDelay_exact n)
          have cond: "readable input ref (ob # obs) \<and> distinct (map canonical_field_name (ob # obs)) \<and>
                set (map canonical_field_name (ob # obs)) \<inter> set prior = {} \<longleftrightarrow>
              readable input ref obs \<and> distinct (map canonical_field_name obs) \<and>
                set (map canonical_field_name obs) \<inter> set (?name # prior) = {}"
            using ok v p Some True by (auto simp: readable_def HasDuplicateField_def)
          show ?thesis unfolding step IH cond by (simp add: ds p foldr_max)
        next
          case False
          then show ?thesis
            using ok v p Some by (simp add: readable_def observation_exact TryAddDelay_exact n Let_def)
        qed
      qed
    qed
  qed
qed

lemma readable_below:
  assumes "readable input ref obs" and "n \<in> set (asked_delays input ref obs)"
  shows "int n \<le> int64_max"
proof -
  from assms(2) obtain fmt v where fv: "(fmt, v) \<in> set (present obs)"
      "n = the (asked_delay (wall_milliseconds input) ref fmt v)"
    by (auto simp: asked_delays_def)
  have "asked_delay (wall_milliseconds input) ref fmt v \<noteq> None"
  proof
    assume "asked_delay (wall_milliseconds input) ref fmt v = None"
    moreover have "case (fmt, v) of (fmt, v) \<Rightarrow> case asked_delay (wall_milliseconds input) ref fmt v of
        None \<Rightarrow> False | Some n \<Rightarrow> steady_milliseconds input + int n \<le> int64_max"
      using assms(1) fv(1) unfolding readable_def list_all_iff by blast
    ultimately show False by simp
  qed
  then show ?thesis using fv(2) asked_below [of "wall_milliseconds input" ref fmt v] by force
qed

subsection \<open>Properties\<close>

text \<open>
  C27. The outcome of parsing the guidance of a response. With at most one well-formed \<open>Date\<close> value as
  the reference, when all declared fields are named, distinct and single-valued and every present value
  asks for a delay whose end the monotonic clock can represent, the result is the latest of these delays, exactly and
  without wrapping, refused when it is above the policy's maximum; without a present value guidance is
  missing, and in every other case the response as a whole is malformed.
\<close>

theorem guidance_latest:
  "ParseRateLimitGuidance input =
     (case (case date_values input of
              [] \<Rightarrow> Some (wall_milliseconds input)
            | [date] \<Rightarrow> TryParseHttpDate date (wall_milliseconds input)
            | _ \<Rightarrow> None) of
        None \<Rightarrow> Failure MALFORMED_GUIDANCE
      | Some ref \<Rightarrow>
          if readable input ref (guidance input) \<and> distinct (map canonical_field_name (guidance input)) then
            (let ds = asked_delays input ref (guidance input); n = Max (set ds) in
             if ds = [] then Failure GUIDANCE_MISSING
             else if n > unat (maximum_delay_milliseconds input) then Failure GUIDANCE_EXCEEDS_POLICY
             else \<lparr>reason = NO_REASON, eligible_steady_milliseconds = steady_milliseconds input + int n,
                   delay_milliseconds = of_nat n, immediate = (n = 0)\<rparr>)
          else Failure MALFORMED_GUIDANCE)"
proof -
  have loop: "guidance_loop input ref [] (False, 0, steady_milliseconds input) (guidance input) =
      (if readable input ref (guidance input) \<and> distinct (map canonical_field_name (guidance input))
       then let n = foldr max (asked_delays input ref (guidance input)) 0 in
            Some (present (guidance input) \<noteq> [], of_nat n, steady_milliseconds input + int n)
       else None)" for ref
    using guidance_loop_exact [of 0 input ref "[]" False "guidance input"] by (simp add: int64_max_def)
  have empty: "asked_delays input ref (guidance input) = [] \<longleftrightarrow> present (guidance input) = []" for ref
    by (simp add: asked_delays_def)
  have word: "unat (of_nat n :: u64) = n" if "int n \<le> int64_max" for n
    using that by (simp add: unat_of_nat int64_max_def)
  have zero: "(of_nat n :: u64) = 0 \<longleftrightarrow> n = 0" if "int n \<le> int64_max" for n
  proof
    assume "(of_nat n :: u64) = 0"
    then show "n = 0" using word [OF that] by simp
  qed simp
  show ?thesis
  proof (cases "case date_values input of
              [] \<Rightarrow> Some (wall_milliseconds input)
            | [date] \<Rightarrow> TryParseHttpDate date (wall_milliseconds input)
            | _ \<Rightarrow> None")
    case None
    then show ?thesis by (simp add: ParseRateLimitGuidance_def)
  next
    case (Some ref)
    let ?ds = "asked_delays input ref (guidance input)"
    show ?thesis
    proof (cases "readable input ref (guidance input) \<and> distinct (map canonical_field_name (guidance input)) \<and> ?ds \<noteq> []")
      case True
      then have "Max (set ?ds) \<in> set ?ds" by simp
      then have "int (Max (set ?ds)) \<le> int64_max" using True by (blast intro: readable_below)
      then show ?thesis
        using True Some empty [of ref] word [of "Max (set ?ds)"] foldr_max_Max [of ?ds]
        zero [of "Max (set ?ds)"]
        by (simp add: ParseRateLimitGuidance_def loop Let_def word_less_nat_alt)
    next
      case False
      then show ?thesis using Some empty [of ref] by (auto simp: ParseRateLimitGuidance_def loop Let_def)
    qed
  qed
qed

end
