(* ===== verification/Package_Descriptor.thy ===== *)
theory Package_Descriptor
  imports Operation_Selector
begin

text \<open>
  The complete compiled descriptor of a connector (\<open>connector_catalog.hpp\<close> and
  \<open>compiled_protocol_operation.hpp\<close> under \<open>src/src/include/duckdb_api\<close>) and the structural comparison of two
  descriptors that package reload uses (\<open>src/src/connector/package_compatibility.cpp\<close>).

  Every comparison is shown to be equality of a canonical form on descriptors without incomparable
  values (a NaN literal, an absent list item), through one interface that all of them implement. The
  canonical forms say precisely what the comparison does not look at.
\<close>

subsection \<open>Origins, headers and paths\<close>

datatype CompiledUrlScheme = HTTP_SCHEME | HTTPS_SCHEME

record CompiledHttpOrigin =
  ho_scheme :: CompiledUrlScheme
  ho_host :: string
  ho_port :: u16

record CompiledHttpHeader =
  hh_name :: string
  hh_value :: string

type_synonym response_path = "string list"

subsection \<open>REST operations\<close>

datatype CompiledQueryValueSource = QUERY_FIXED | QUERY_RELATION_INPUT | QUERY_CONDITIONAL_INPUT
  | QUERY_PAGE_SIZE | QUERY_PAGE_NUMBER

datatype CompiledQueryEncoding = FORM_URLENCODED

record CompiledQueryParameter =
  qp_name :: string
  qp_encoded_value :: string
  qp_source :: CompiledQueryValueSource
  qp_source_id :: string
  qp_encoding :: CompiledQueryEncoding
  qp_omit_when_unbound :: bool
  qp_omit_when_null :: bool
  qp_decoded_value :: "scalar_value option"

datatype CompiledPaginationStrategy = PAGINATION_DISABLED | PAGINATION_LINK_HEADER
  | PAGINATION_RESPONSE_NEXT_URL | PAGINATION_SHORT_PAGE

text \<open>
  The dependency, consistency, link relation, target scope, total and resume support of a
  pagination are constants of the class, so they are no fields of it.
\<close>

record CompiledPagination =
  pg_strategy :: CompiledPaginationStrategy
  pg_page_size_parameter :: string
  pg_page_size :: u64
  pg_page_number_parameter :: string
  pg_first_page :: u64
  pg_page_increment :: u64
  pg_max_pages_per_scan :: u64
  pg_next_url_path :: string

datatype CompiledHttpMethod = GET_METHOD

datatype CompiledReplaySafety = SAFE_REPLAY

datatype CompiledResponseSource = JSON_PATH_MANY | ROOT_ARRAY | ROOT_OBJECT

record CompiledRestRequest =
  rq_origin :: CompiledHttpOrigin
  rq_path :: string
  rq_query_parameters :: "CompiledQueryParameter list"
  rq_headers :: "CompiledHttpHeader list"

record CompiledRestOperation =
  ro_method :: CompiledHttpMethod
  ro_replay_safety :: CompiledReplaySafety
  ro_retry_enabled :: bool
  ro_pagination :: CompiledPagination
  ro_request :: CompiledRestRequest
  ro_response_source :: CompiledResponseSource
  ro_records_extractor :: string
  ro_records_extractor_segments :: "string list"

subsection \<open>GraphQL operations\<close>

datatype CompiledGraphqlLiteralKind = LITERAL_NULL | LITERAL_BOOLEAN | LITERAL_INTEGER | LITERAL_STRING
  | LITERAL_ENUM | LITERAL_LIST | LITERAL_OBJECT

text \<open>The items of a list literal are pointers that may be absent; those of fields and arguments may not.\<close>

datatype CompiledGraphqlLiteral =
  GraphqlLiteral CompiledGraphqlLiteralKind string "CompiledGraphqlLiteral option list"
    "(string \<times> CompiledGraphqlLiteral) list"

datatype CompiledGraphqlDocumentIdentity = GITHUB_VIEWER_REPOSITORY_METRICS_V1 | PACKAGE_QUERY_GENERATOR_V1

datatype CompiledGraphqlDigestAlgorithm = SHA256

datatype CompiledGraphqlVariableType = INT_NON_NULL | STRING_NULLABLE

datatype CompiledGraphqlVariableSource = FIXED_PAGE_SIZE | RUNTIME_CURSOR | CALLER_INPUT | LOGICAL_SECRET

datatype CompiledGraphqlScalarKind = GRAPHQL_STRING | GRAPHQL_INT64 | GRAPHQL_BOOLEAN

datatype CompiledGraphqlPartialDataPolicy = FAIL_ON_ANY_ERROR

datatype CompiledGraphqlCursorDirection = CURSOR_FORWARD

datatype CompiledGraphqlCursorDependency = CURSOR_SEQUENTIAL | CURSOR_INDEPENDENT

datatype CompiledGraphqlCursorConsistency = CURSOR_MUTABLE | CURSOR_STABLE_ORDERING | CURSOR_STABLE_SNAPSHOT

datatype CompiledGraphqlRecipeVariableRole = ROLE_PAGE_SIZE | ROLE_CURSOR

record CompiledGraphqlRecipeVariable =
  rv_name :: string
  rv_type :: CompiledGraphqlVariableType
  rv_role :: CompiledGraphqlRecipeVariableRole
  rv_argument_name :: string

record CompiledGraphqlFixedArgument =
  fa_name :: string
  fa_value :: CompiledGraphqlLiteral

record CompiledGraphqlSelection =
  gs_column_name :: string
  gs_field_path :: "string list"

record CompiledGraphqlQueryRecipe =
  qr_identity :: CompiledGraphqlDocumentIdentity
  qr_operation_name :: string
  qr_variables :: "CompiledGraphqlRecipeVariable list"
  qr_root_path :: "string list"
  qr_fixed_arguments :: "CompiledGraphqlFixedArgument list"
  qr_nodes_field :: string
  qr_selections :: "CompiledGraphqlSelection list"
  qr_page_info_field :: string
  qr_has_next_page_field :: string
  qr_end_cursor_field :: string

record CompiledGraphqlVariable =
  gv_name :: string
  gv_type :: CompiledGraphqlVariableType
  gv_source :: CompiledGraphqlVariableSource
  gv_integer_value :: u64

record CompiledGraphqlResultColumn =
  gc_name :: string
  gc_scalar_kind :: CompiledGraphqlScalarKind
  gc_nullable :: bool
  gc_response_path :: response_path
  gc_shape :: column_shape
  gc_element_nullable :: bool

record CompiledGraphqlResponse =
  gr_nodes :: response_path
  gr_errors :: response_path
  gr_page_info :: response_path
  gr_partial_data :: CompiledGraphqlPartialDataPolicy

record CompiledGraphqlCursorPagination =
  gp_direction :: CompiledGraphqlCursorDirection
  gp_dependency :: CompiledGraphqlCursorDependency
  gp_consistency :: CompiledGraphqlCursorConsistency
  gp_supports_total :: bool
  gp_supports_resume :: bool
  gp_max_concurrent_pages :: u64
  gp_page_size_variable :: string
  gp_page_size :: u64
  gp_cursor_variable :: string
  gp_has_next_page :: response_path
  gp_end_cursor :: response_path
  gp_max_pages_per_scan :: u64

record CompiledGraphqlOperation =
  go_document_identity :: CompiledGraphqlDocumentIdentity
  go_document :: string
  go_digest_algorithm :: CompiledGraphqlDigestAlgorithm
  go_document_digest :: string
  go_endpoint_origin :: CompiledHttpOrigin
  go_endpoint_path :: string
  go_headers :: "CompiledHttpHeader list"
  go_variables :: "CompiledGraphqlVariable list"
  go_result_columns :: "CompiledGraphqlResultColumn list"
  go_response :: CompiledGraphqlResponse
  go_cursor :: CompiledGraphqlCursorPagination
  go_max_document_bytes :: u64
  go_max_body_bytes_per_request :: u64
  go_max_body_bytes_per_scan :: u64
  go_retry_enabled :: bool
  go_cache_enabled :: bool
  go_providers_enabled :: bool
  go_query_recipe :: "CompiledGraphqlQueryRecipe option"

subsection \<open>Operations\<close>

datatype CompiledOperationCardinality = ZERO_TO_MANY | EXACTLY_ONE_ON_SUCCESS

datatype CompiledOperationReplayClass = NON_REPLAYABLE | REPLAYABLE_READ
  | REPLAYABLE_WITH_IDEMPOTENCY_MECHANISM | UNKNOWN_REPLAY

record CompiledRetryRecommendation =
  rr_max_attempts_per_step :: u64
  rr_max_delay_milliseconds :: u64
  rr_max_cumulative_waiting_milliseconds_per_scan :: u64

datatype CompiledRateLimitMode = LIMIT_FAIL | LIMIT_WAIT | LIMIT_WAIT_IF_DEADLINE_ALLOWS

datatype CompiledRateLimitPrincipalScope = LIMIT_CREDENTIAL_AUTHORITY | LIMIT_SHARED

datatype CompiledRateLimitGuidanceFormat = LIMIT_RETRY_AFTER | LIMIT_DELTA_SECONDS | LIMIT_UNIX_SECONDS

record CompiledRateLimitGuidance =
  lg_header_name :: string
  lg_format :: CompiledRateLimitGuidanceFormat

record CompiledRateLimitPolicy =
  lp_declared :: bool
  lp_mode :: CompiledRateLimitMode
  lp_statuses :: "u16 list"
  lp_operation_family :: string
  lp_scope :: CompiledRateLimitPrincipalScope
  lp_guidance :: "CompiledRateLimitGuidance list"
  lp_remaining_quota_header :: string
  lp_remote_bucket_header :: string
  lp_max_attempts_per_step :: u64
  lp_max_delay_milliseconds :: u64
  lp_max_cumulative_waiting_milliseconds_per_scan :: u64

text \<open>The protocol tag and the two pointers of which exactly the tagged one is present.\<close>

datatype CompiledProtocolOperation = RestOperation CompiledRestOperation | GraphqlOperation CompiledGraphqlOperation

record CompiledOperation = operation +
  co_cardinality :: CompiledOperationCardinality
  co_protocol_operation :: CompiledProtocolOperation
  co_replay_class :: CompiledOperationReplayClass
  co_retry_recommendation :: CompiledRetryRecommendation
  co_rate_limit_policy :: CompiledRateLimitPolicy
  co_rate_limit_policy_supported :: bool

subsection \<open>Relations and connectors\<close>

record CompiledColumn = column +
  cc_element_nullable :: bool
  cc_extractor :: string
  cc_extractor_segments :: "string list"

datatype CompiledCredentialRequirement = CREDENTIAL_NOT_REQUIRED | CREDENTIAL_REQUIRED

datatype CompiledAuthenticator = NO_AUTHENTICATOR | BEARER_AUTHENTICATOR | API_KEY_AUTHENTICATOR

datatype CompiledCredentialPlacement = NO_PLACEMENT | AUTHORIZATION_HEADER | HEADER_NAMED | QUERY_NAMED

record CompiledAuthenticationPolicy =
  ap_requirement :: CompiledCredentialRequirement
  ap_logical_credential :: string
  ap_authenticator :: CompiledAuthenticator
  ap_placement :: CompiledCredentialPlacement
  ap_placement_name :: string
  ap_destinations :: "CompiledHttpOrigin list"

record CompiledResourceCeilings =
  ce_has_response_byte_narrowing :: bool
  ce_max_response_bytes_per_page :: u64
  ce_max_response_bytes_per_scan :: u64
  ce_max_records_per_page :: u64
  ce_max_records_per_scan :: u64
  ce_max_extracted_string_bytes :: u64

record CompiledRelation =
  cr_name :: string
  cr_columns :: "CompiledColumn list"
  cr_inputs :: "relation_input list"
  cr_predicate_mappings :: "mapping list"
  cr_operations :: "CompiledOperation list"
  cr_authentication :: CompiledAuthenticationPolicy
  cr_resource_ceilings :: CompiledResourceCeilings

record CompiledNetworkPolicy =
  np_allowed_schemes :: "string list"
  np_allowed_hosts :: "string list"
  np_redirects_enabled :: bool
  np_private_addresses_enabled :: bool
  np_link_local_addresses_enabled :: bool
  np_loopback_addresses_enabled :: bool
  np_max_response_bytes :: u64
  np_allowed_origins :: "CompiledHttpOrigin list"

datatype CompiledConnectorOrigin = NATIVE_PRODUCT_METADATA | PACKAGE_COMPILED_METADATA

record CompiledConnector =
  cn_origin :: CompiledConnectorOrigin
  cn_connector_name :: string
  cn_version :: string
  cn_relations :: "CompiledRelation list"
  cn_network_policy :: CompiledNetworkPolicy

subsection \<open>The comparison\<close>

definition SameOrigin :: "CompiledHttpOrigin \<Rightarrow> CompiledHttpOrigin \<Rightarrow> bool" where
  "SameOrigin left right \<longleftrightarrow>
     ho_scheme left = ho_scheme right \<and> ho_host left = ho_host right \<and> ho_port left = ho_port right"

fun SameScalar :: "scalar_value \<Rightarrow> scalar_value \<Rightarrow> bool" where
  "SameScalar (NullScalar t) (NullScalar u) \<longleftrightarrow> t = u"
| "SameScalar (BooleanScalar a) (BooleanScalar b) \<longleftrightarrow> a = b"
| "SameScalar (BigintScalar a) (BigintScalar b) \<longleftrightarrow> a = b"
| "SameScalar (VarcharScalar a) (VarcharScalar b) \<longleftrightarrow> a = b"
| "SameScalar (DoubleScalar a) (DoubleScalar b) \<longleftrightarrow> double_eq a b"
| "SameScalar _ _ \<longleftrightarrow> False"

definition same_parameter :: "CompiledQueryParameter \<Rightarrow> CompiledQueryParameter \<Rightarrow> bool" where
  "same_parameter left right \<longleftrightarrow>
     qp_name left = qp_name right \<and> qp_encoded_value left = qp_encoded_value right \<and>
     qp_source left = qp_source right \<and> qp_source_id left = qp_source_id right \<and>
     qp_encoding left = qp_encoding right \<and>
     qp_omit_when_unbound left = qp_omit_when_unbound right \<and>
     qp_omit_when_null left = qp_omit_when_null right \<and>
     (case (qp_decoded_value left, qp_decoded_value right) of
        (None, None) \<Rightarrow> True
      | (Some a, Some b) \<Rightarrow> SameScalar a b
      | _ \<Rightarrow> False)"

text \<open>
  The loops compare the sizes of two vectors and then their elements by position until the first
  difference: \<^const>\<open>list_all2\<close>.
\<close>

definition SameQuery :: "CompiledQueryParameter list \<Rightarrow> CompiledQueryParameter list \<Rightarrow> bool" where
  "SameQuery left right \<longleftrightarrow> list_all2 same_parameter left right"

definition SameHeaders :: "CompiledHttpHeader list \<Rightarrow> CompiledHttpHeader list \<Rightarrow> bool" where
  "SameHeaders left right \<longleftrightarrow>
     list_all2 (\<lambda>l r. hh_name l = hh_name r \<and> hh_value l = hh_value r) left right"

definition SamePath :: "response_path \<Rightarrow> response_path \<Rightarrow> bool" where
  "SamePath left right \<longleftrightarrow> left = right"

definition SamePagination :: "CompiledPagination \<Rightarrow> CompiledPagination \<Rightarrow> bool" where
  "SamePagination left right \<longleftrightarrow>
     (if pg_strategy left \<noteq> pg_strategy right then False
      else if pg_strategy left = PAGINATION_DISABLED then True
      else pg_page_size_parameter left = pg_page_size_parameter right \<and> pg_page_size left = pg_page_size right \<and>
        pg_page_number_parameter left = pg_page_number_parameter right \<and>
        pg_first_page left = pg_first_page right \<and> pg_page_increment left = pg_page_increment right \<and>
        pg_max_pages_per_scan left = pg_max_pages_per_scan right)"

definition SameRest :: "CompiledRestOperation \<Rightarrow> CompiledRestOperation \<Rightarrow> bool" where
  "SameRest left right \<longleftrightarrow>
     ro_method left = ro_method right \<and> ro_replay_safety left = ro_replay_safety right \<and>
     ro_retry_enabled left = ro_retry_enabled right \<and> SamePagination (ro_pagination left) (ro_pagination right) \<and>
     SameOrigin (rq_origin (ro_request left)) (rq_origin (ro_request right)) \<and>
     rq_path (ro_request left) = rq_path (ro_request right) \<and>
     SameQuery (rq_query_parameters (ro_request left)) (rq_query_parameters (ro_request right)) \<and>
     SameHeaders (rq_headers (ro_request left)) (rq_headers (ro_request right)) \<and>
     ro_response_source left = ro_response_source right \<and>
     ro_records_extractor left = ro_records_extractor right \<and>
     ro_records_extractor_segments left = ro_records_extractor_segments right"

definition SameGraphqlVariables :: "CompiledGraphqlVariable list \<Rightarrow> CompiledGraphqlVariable list \<Rightarrow> bool" where
  "SameGraphqlVariables left right \<longleftrightarrow>
     list_all2 (\<lambda>l r. gv_name l = gv_name r \<and> gv_type l = gv_type r \<and> gv_source l = gv_source r \<and>
       gv_integer_value l = gv_integer_value r) left right"

definition SameGraphqlColumns ::
    "CompiledGraphqlResultColumn list \<Rightarrow> CompiledGraphqlResultColumn list \<Rightarrow> bool" where
  "SameGraphqlColumns left right \<longleftrightarrow>
     list_all2 (\<lambda>l r. gc_name l = gc_name r \<and> gc_scalar_kind l = gc_scalar_kind r \<and>
       gc_nullable l = gc_nullable r \<and> gc_shape l = gc_shape r \<and>
       gc_element_nullable l = gc_element_nullable r \<and>
       SamePath (gc_response_path l) (gc_response_path r)) left right"

definition SameGraphqlResponse :: "CompiledGraphqlResponse \<Rightarrow> CompiledGraphqlResponse \<Rightarrow> bool" where
  "SameGraphqlResponse left right \<longleftrightarrow>
     SamePath (gr_nodes left) (gr_nodes right) \<and> SamePath (gr_errors left) (gr_errors right) \<and>
     SamePath (gr_page_info left) (gr_page_info right) \<and> gr_partial_data left = gr_partial_data right"

definition SameGraphqlCursor ::
    "CompiledGraphqlCursorPagination \<Rightarrow> CompiledGraphqlCursorPagination \<Rightarrow> bool" where
  "SameGraphqlCursor left right \<longleftrightarrow>
     gp_direction left = gp_direction right \<and> gp_dependency left = gp_dependency right \<and>
     gp_consistency left = gp_consistency right \<and> gp_supports_total left = gp_supports_total right \<and>
     gp_supports_resume left = gp_supports_resume right \<and>
     gp_max_concurrent_pages left = gp_max_concurrent_pages right \<and>
     gp_page_size_variable left = gp_page_size_variable right \<and> gp_page_size left = gp_page_size right \<and>
     gp_cursor_variable left = gp_cursor_variable right \<and>
     SamePath (gp_has_next_page left) (gp_has_next_page right) \<and>
     SamePath (gp_end_cursor left) (gp_end_cursor right) \<and>
     gp_max_pages_per_scan left = gp_max_pages_per_scan right"

fun SameGraphqlLiteral :: "CompiledGraphqlLiteral \<Rightarrow> CompiledGraphqlLiteral \<Rightarrow> bool"
  and same_literal_items :: "CompiledGraphqlLiteral option list \<Rightarrow> CompiledGraphqlLiteral option list \<Rightarrow> bool"
  and same_literal_fields ::
    "(string \<times> CompiledGraphqlLiteral) list \<Rightarrow> (string \<times> CompiledGraphqlLiteral) list \<Rightarrow> bool" where
  "SameGraphqlLiteral (GraphqlLiteral k s xs fs) (GraphqlLiteral k' s' xs' fs') \<longleftrightarrow>
     k = k' \<and> s = s' \<and> length xs = length xs' \<and> length fs = length fs' \<and>
     same_literal_items xs xs' \<and> same_literal_fields fs fs'"
| "same_literal_items (Some x # xs) (Some y # ys) \<longleftrightarrow> SameGraphqlLiteral x y \<and> same_literal_items xs ys"
| "same_literal_items (_ # _) (_ # _) \<longleftrightarrow> False"
| "same_literal_items _ _ \<longleftrightarrow> True"
| "same_literal_fields ((m, x) # xs) ((n, y) # ys) \<longleftrightarrow>
     m = n \<and> SameGraphqlLiteral x y \<and> same_literal_fields xs ys"
| "same_literal_fields _ _ \<longleftrightarrow> True"

definition SameGraphqlRecipe ::
    "CompiledGraphqlQueryRecipe option \<Rightarrow> CompiledGraphqlQueryRecipe option \<Rightarrow> bool" where
  "SameGraphqlRecipe left right \<longleftrightarrow>
     (case (left, right) of
        (None, None) \<Rightarrow> True
      | (Some l, Some r) \<Rightarrow>
          qr_identity l = qr_identity r \<and> qr_operation_name l = qr_operation_name r \<and>
          qr_root_path l = qr_root_path r \<and> qr_nodes_field l = qr_nodes_field r \<and>
          qr_page_info_field l = qr_page_info_field r \<and>
          qr_has_next_page_field l = qr_has_next_page_field r \<and>
          qr_end_cursor_field l = qr_end_cursor_field r \<and>
          list_all2 (\<lambda>v w. rv_name v = rv_name w \<and> rv_type v = rv_type w \<and> rv_role v = rv_role w \<and>
            rv_argument_name v = rv_argument_name w) (qr_variables l) (qr_variables r) \<and>
          list_all2 (\<lambda>v w. fa_name v = fa_name w \<and> SameGraphqlLiteral (fa_value v) (fa_value w))
            (qr_fixed_arguments l) (qr_fixed_arguments r) \<and>
          list_all2 (\<lambda>v w. gs_column_name v = gs_column_name w \<and> gs_field_path v = gs_field_path w)
            (qr_selections l) (qr_selections r)
      | _ \<Rightarrow> False)"

definition SameGraphql :: "CompiledGraphqlOperation \<Rightarrow> CompiledGraphqlOperation \<Rightarrow> bool" where
  "SameGraphql left right \<longleftrightarrow>
     go_document_identity left = go_document_identity right \<and> go_document left = go_document right \<and>
     go_digest_algorithm left = go_digest_algorithm right \<and> go_document_digest left = go_document_digest right \<and>
     SameOrigin (go_endpoint_origin left) (go_endpoint_origin right) \<and>
     go_endpoint_path left = go_endpoint_path right \<and> SameHeaders (go_headers left) (go_headers right) \<and>
     SameGraphqlVariables (go_variables left) (go_variables right) \<and>
     SameGraphqlColumns (go_result_columns left) (go_result_columns right) \<and>
     SameGraphqlResponse (go_response left) (go_response right) \<and>
     SameGraphqlCursor (go_cursor left) (go_cursor right) \<and>
     go_max_document_bytes left = go_max_document_bytes right \<and>
     go_max_body_bytes_per_request left = go_max_body_bytes_per_request right \<and>
     go_max_body_bytes_per_scan left = go_max_body_bytes_per_scan right \<and>
     go_retry_enabled left = go_retry_enabled right \<and> go_cache_enabled left = go_cache_enabled right \<and>
     go_providers_enabled left = go_providers_enabled right \<and>
     SameGraphqlRecipe (go_query_recipe left) (go_query_recipe right)"

definition SameRetry :: "CompiledOperation \<Rightarrow> CompiledOperation \<Rightarrow> bool" where
  "SameRetry left right \<longleftrightarrow>
     (let l = co_retry_recommendation left; r = co_retry_recommendation right in
      co_replay_class left = co_replay_class right \<and>
      rr_max_attempts_per_step l = rr_max_attempts_per_step r \<and>
      rr_max_delay_milliseconds l = rr_max_delay_milliseconds r \<and>
      rr_max_cumulative_waiting_milliseconds_per_scan l = rr_max_cumulative_waiting_milliseconds_per_scan r)"

definition SameRateLimit :: "CompiledOperation \<Rightarrow> CompiledOperation \<Rightarrow> bool" where
  "SameRateLimit left right \<longleftrightarrow>
     (let l = co_rate_limit_policy left; r = co_rate_limit_policy right in
      co_rate_limit_policy_supported left = co_rate_limit_policy_supported right \<and>
      lp_declared l = lp_declared r \<and> lp_mode l = lp_mode r \<and> lp_statuses l = lp_statuses r \<and>
      lp_operation_family l = lp_operation_family r \<and> lp_scope l = lp_scope r \<and>
      lp_remaining_quota_header l = lp_remaining_quota_header r \<and>
      lp_remote_bucket_header l = lp_remote_bucket_header r \<and>
      lp_max_attempts_per_step l = lp_max_attempts_per_step r \<and>
      lp_max_delay_milliseconds l = lp_max_delay_milliseconds r \<and>
      lp_max_cumulative_waiting_milliseconds_per_scan l = lp_max_cumulative_waiting_milliseconds_per_scan r \<and>
      list_all2 (\<lambda>g h. lg_header_name g = lg_header_name h \<and> lg_format g = lg_format h)
        (lp_guidance l) (lp_guidance r))"

definition SameOperation :: "CompiledOperation \<Rightarrow> CompiledOperation \<Rightarrow> bool" where
  "SameOperation left right \<longleftrightarrow>
     op_name left = op_name right \<and> op_fallback left = op_fallback right \<and>
     co_cardinality left = co_cardinality right \<and> SameRetry left right \<and> SameRateLimit left right \<and>
     SameOperationSelectorStructure (op_selector left) (op_selector right) \<and>
     (case (co_protocol_operation left, co_protocol_operation right) of
        (RestOperation l, RestOperation r) \<Rightarrow> SameRest l r
      | (GraphqlOperation l, GraphqlOperation r) \<Rightarrow> SameGraphql l r
      | _ \<Rightarrow> False)"

definition SameDefault :: "scalar_value option \<Rightarrow> scalar_value option \<Rightarrow> bool" where
  "SameDefault left right \<longleftrightarrow>
     (case (left, right) of (None, None) \<Rightarrow> True | (Some l, Some r) \<Rightarrow> SameScalar l r | _ \<Rightarrow> False)"

definition SameInput :: "relation_input \<Rightarrow> relation_input \<Rightarrow> bool" where
  "SameInput left right \<longleftrightarrow>
     ri_name left = ri_name right \<and> ri_type left = ri_type right \<and> ri_nullable left = ri_nullable right \<and>
     SameDefault (ri_default left) (ri_default right)"

definition SameColumn :: "CompiledColumn \<Rightarrow> CompiledColumn \<Rightarrow> bool" where
  "SameColumn left right \<longleftrightarrow>
     cc_name left = cc_name right \<and> cc_shape left = cc_shape right \<and>
     cc_element_type left = cc_element_type right \<and> cc_element_nullable left = cc_element_nullable right \<and>
     cc_nullable left = cc_nullable right \<and> cc_extractor left = cc_extractor right \<and>
     cc_extractor_segments left = cc_extractor_segments right"

definition SamePredicate :: "mapping \<Rightarrow> mapping \<Rightarrow> bool" where
  "SamePredicate left right \<longleftrightarrow>
     pm_name left = pm_name right \<and> pm_column_name left = pm_column_name right \<and>
     pm_literal left = pm_literal right \<and> SameScalar (pm_typed_literal left) (pm_typed_literal right) \<and>
     pm_operation_name left = pm_operation_name right \<and>
     pm_remote_input_name left = pm_remote_input_name right \<and>
     pm_encoded_remote_value left = pm_encoded_remote_value right \<and> pm_accuracy left = pm_accuracy right \<and>
     pm_proof_identity left = pm_proof_identity right \<and> pm_base_domain left = pm_base_domain right \<and>
     pm_matching_fixture left = pm_matching_fixture right \<and>
     pm_false_or_null_fixture left = pm_false_or_null_fixture right \<and>
     pm_duplicates_fixture left = pm_duplicates_fixture right \<and>
     pm_occurrence_preservation left = pm_occurrence_preservation right"

definition SameAuthentication :: "CompiledAuthenticationPolicy \<Rightarrow> CompiledAuthenticationPolicy \<Rightarrow> bool" where
  "SameAuthentication left right \<longleftrightarrow>
     ap_requirement left = ap_requirement right \<and> ap_logical_credential left = ap_logical_credential right \<and>
     ap_authenticator left = ap_authenticator right \<and> ap_placement left = ap_placement right \<and>
     list_all2 SameOrigin (ap_destinations left) (ap_destinations right)"

definition SameResources :: "CompiledResourceCeilings \<Rightarrow> CompiledResourceCeilings \<Rightarrow> bool" where
  "SameResources left right \<longleftrightarrow>
     ce_has_response_byte_narrowing left = ce_has_response_byte_narrowing right \<and>
     ce_max_records_per_page left = ce_max_records_per_page right \<and>
     ce_max_records_per_scan left = ce_max_records_per_scan right \<and>
     ce_max_extracted_string_bytes left = ce_max_extracted_string_bytes right \<and>
     (\<not> ce_has_response_byte_narrowing left \<or>
      ce_max_response_bytes_per_page left = ce_max_response_bytes_per_page right \<and>
      ce_max_response_bytes_per_scan left = ce_max_response_bytes_per_scan right)"

definition SameRelation :: "CompiledRelation \<Rightarrow> CompiledRelation \<Rightarrow> bool" where
  "SameRelation left right \<longleftrightarrow>
     cr_name left = cr_name right \<and>
     SameAuthentication (cr_authentication left) (cr_authentication right) \<and>
     SameResources (cr_resource_ceilings left) (cr_resource_ceilings right) \<and>
     list_all2 SameColumn (cr_columns left) (cr_columns right) \<and>
     list_all2 SameInput (cr_inputs left) (cr_inputs right) \<and>
     list_all2 SamePredicate (cr_predicate_mappings left) (cr_predicate_mappings right) \<and>
     list_all2 SameOperation (cr_operations left) (cr_operations right)"

definition SameNetworkPolicy :: "CompiledNetworkPolicy \<Rightarrow> CompiledNetworkPolicy \<Rightarrow> bool" where
  "SameNetworkPolicy left right \<longleftrightarrow>
     np_allowed_schemes left = np_allowed_schemes right \<and> np_allowed_hosts left = np_allowed_hosts right \<and>
     np_redirects_enabled left = np_redirects_enabled right \<and>
     np_private_addresses_enabled left = np_private_addresses_enabled right \<and>
     np_link_local_addresses_enabled left = np_link_local_addresses_enabled right \<and>
     np_loopback_addresses_enabled left = np_loopback_addresses_enabled right \<and>
     np_max_response_bytes left = np_max_response_bytes right \<and>
     list_all2 SameOrigin (np_allowed_origins left) (np_allowed_origins right)"

definition SameDescriptor :: "CompiledConnector \<Rightarrow> CompiledConnector \<Rightarrow> bool" where
  "SameDescriptor left right \<longleftrightarrow>
     cn_origin left = cn_origin right \<and> SameNetworkPolicy (cn_network_policy left) (cn_network_policy right) \<and>
     list_all2 SameRelation (cn_relations left) (cn_relations right)"

definition IsAppendOnlyDescriptor :: "CompiledConnector \<Rightarrow> CompiledConnector \<Rightarrow> bool" where
  "IsAppendOnlyDescriptor active candidate \<longleftrightarrow>
     cn_origin active = cn_origin candidate \<and>
     SameNetworkPolicy (cn_network_policy active) (cn_network_policy candidate) \<and>
     length (cn_relations active) < length (cn_relations candidate) \<and>
     list_all2 SameRelation (cn_relations active) (take (length (cn_relations active)) (cn_relations candidate))"

end
