(* ===== verification/Descriptor_Equality.thy ===== *)
theory Descriptor_Equality
  imports Package_Descriptor
begin

text \<open>
  The comparison of compiled descriptors is equality of canonical forms. Each comparison implements one
  interface: a canonical form and the values that compare at all. The interface
  carries over to lists and to optional values, and it makes a comparison a partial equivalence.
\<close>

subsection \<open>The interface of a comparison\<close>

locale comparison =
  fixes same :: "'a \<Rightarrow> 'a \<Rightarrow> bool"
    and canon :: "'a \<Rightarrow> 'b"
    and comparable :: "'a \<Rightarrow> bool"
  assumes same_iff: "same x y \<longleftrightarrow> canon x = canon y \<and> comparable x"
    and comparable_canon: "canon x = canon y \<Longrightarrow> comparable x \<Longrightarrow> comparable y"
begin

lemma same_sym: "same x y \<Longrightarrow> same y x"
  unfolding same_iff using comparable_canon by metis

lemma same_trans: "same x y \<Longrightarrow> same y z \<Longrightarrow> same x z"
  unfolding same_iff by simp

lemma same_refl: "same x x \<longleftrightarrow> comparable x"
  unfolding same_iff by simp

lemma same_list: "list_all2 same xs ys \<longleftrightarrow> map canon xs = map canon ys \<and> list_all comparable xs"
proof (induction xs arbitrary: ys)
  case (Cons x xs)
  then show ?case by (cases ys) (auto simp: same_iff)
qed auto

lemma comparable_list: "map canon xs = map canon ys \<Longrightarrow> list_all comparable xs \<Longrightarrow> list_all comparable ys"
proof (induction xs arbitrary: ys)
  case (Cons x xs)
  then show ?case by (cases ys) (auto intro: comparable_canon)
qed simp

lemma comparable_option:
  "map_option canon x = map_option canon y \<Longrightarrow> pred_option comparable x \<Longrightarrow> pred_option comparable y"
  by (cases x; cases y) (auto intro: comparable_canon)

end

subsection \<open>Canonical forms\<close>

fun canonical_scalar :: "scalar_value \<Rightarrow> scalar_value" where
  "canonical_scalar (DoubleScalar d) = DoubleScalar (if double_is_zero d then 0 else d)"
| "canonical_scalar v = v"

fun comparable_scalar :: "scalar_value \<Rightarrow> bool" where
  "comparable_scalar (DoubleScalar d) \<longleftrightarrow> \<not> double_is_nan d"
| "comparable_scalar _ \<longleftrightarrow> True"

definition canonical_parameter :: "CompiledQueryParameter \<Rightarrow> CompiledQueryParameter" where
  "canonical_parameter p = p\<lparr>qp_decoded_value := map_option canonical_scalar (qp_decoded_value p)\<rparr>"

definition comparable_parameter :: "CompiledQueryParameter \<Rightarrow> bool" where
  "comparable_parameter p \<longleftrightarrow> pred_option comparable_scalar (qp_decoded_value p)"

text \<open>Pagination: a disabled one is its strategy alone, and the path of the next URL is not looked at.\<close>

definition canonical_pagination :: "CompiledPagination \<Rightarrow> CompiledPagination" where
  "canonical_pagination p =
     (if pg_strategy p = PAGINATION_DISABLED
      then \<lparr>pg_strategy = PAGINATION_DISABLED, pg_page_size_parameter = [], pg_page_size = 0,
            pg_page_number_parameter = [], pg_first_page = 0, pg_page_increment = 0,
            pg_max_pages_per_scan = 0, pg_next_url_path = []\<rparr>
      else p\<lparr>pg_next_url_path := []\<rparr>)"

definition canonical_request :: "CompiledRestRequest \<Rightarrow> CompiledRestRequest" where
  "canonical_request r = r\<lparr>rq_query_parameters := map canonical_parameter (rq_query_parameters r)\<rparr>"

definition canonical_rest :: "CompiledRestOperation \<Rightarrow> CompiledRestOperation" where
  "canonical_rest r = r\<lparr>ro_pagination := canonical_pagination (ro_pagination r),
     ro_request := canonical_request (ro_request r)\<rparr>"

definition comparable_rest :: "CompiledRestOperation \<Rightarrow> bool" where
  "comparable_rest r \<longleftrightarrow> list_all comparable_parameter (rq_query_parameters (ro_request r))"

text \<open>Literals are looked at completely, and compare if no list in them has an absent item.\<close>

fun complete_literal :: "CompiledGraphqlLiteral \<Rightarrow> bool"
  and complete_items :: "CompiledGraphqlLiteral option list \<Rightarrow> bool"
  and complete_fields :: "(string \<times> CompiledGraphqlLiteral) list \<Rightarrow> bool" where
  "complete_literal (GraphqlLiteral k s xs fs) \<longleftrightarrow> complete_items xs \<and> complete_fields fs"
| "complete_items [] \<longleftrightarrow> True"
| "complete_items (None # xs) \<longleftrightarrow> False"
| "complete_items (Some x # xs) \<longleftrightarrow> complete_literal x \<and> complete_items xs"
| "complete_fields [] \<longleftrightarrow> True"
| "complete_fields ((n, x) # xs) \<longleftrightarrow> complete_literal x \<and> complete_fields xs"

definition comparable_recipe :: "CompiledGraphqlQueryRecipe option \<Rightarrow> bool" where
  "comparable_recipe r \<longleftrightarrow> pred_option (\<lambda>q. list_all (\<lambda>a. complete_literal (fa_value a)) (qr_fixed_arguments q)) r"

definition comparable_graphql :: "CompiledGraphqlOperation \<Rightarrow> bool" where
  "comparable_graphql g \<longleftrightarrow> comparable_recipe (go_query_recipe g)"

definition canonical_operation :: "CompiledOperation \<Rightarrow> CompiledOperation" where
  "canonical_operation q = q\<lparr>co_protocol_operation :=
     (case co_protocol_operation q of RestOperation r \<Rightarrow> RestOperation (canonical_rest r)
      | GraphqlOperation g \<Rightarrow> GraphqlOperation g)\<rparr>"

definition comparable_operation :: "CompiledOperation \<Rightarrow> bool" where
  "comparable_operation q \<longleftrightarrow>
     (case co_protocol_operation q of RestOperation r \<Rightarrow> comparable_rest r
      | GraphqlOperation g \<Rightarrow> comparable_graphql g)"

definition canonical_input :: "relation_input \<Rightarrow> relation_input" where
  "canonical_input i = i\<lparr>ri_default := map_option canonical_scalar (ri_default i)\<rparr>"

definition comparable_input :: "relation_input \<Rightarrow> bool" where
  "comparable_input i \<longleftrightarrow> pred_option comparable_scalar (ri_default i)"

text \<open>Predicate mappings: the identities derived from the package digest are not looked at.\<close>

definition canonical_predicate :: "mapping \<Rightarrow> mapping" where
  "canonical_predicate p = p\<lparr>pm_typed_literal := canonical_scalar (pm_typed_literal p),
     pm_proof_identity_value := [], pm_base_domain_value := []\<rparr>"

definition comparable_predicate :: "mapping \<Rightarrow> bool" where
  "comparable_predicate p \<longleftrightarrow> comparable_scalar (pm_typed_literal p)"

text \<open>Authentication: the name of the header or query field that carries an API key is not looked at.\<close>

definition canonical_authentication :: "CompiledAuthenticationPolicy \<Rightarrow> CompiledAuthenticationPolicy" where
  "canonical_authentication a = a\<lparr>ap_placement_name := []\<rparr>"

definition canonical_resources :: "CompiledResourceCeilings \<Rightarrow> CompiledResourceCeilings" where
  "canonical_resources c = (if ce_has_response_byte_narrowing c then c
     else c\<lparr>ce_max_response_bytes_per_page := 0, ce_max_response_bytes_per_scan := 0\<rparr>)"

definition canonical_relation :: "CompiledRelation \<Rightarrow> CompiledRelation" where
  "canonical_relation r = r\<lparr>cr_inputs := map canonical_input (cr_inputs r),
     cr_predicate_mappings := map canonical_predicate (cr_predicate_mappings r),
     cr_operations := map canonical_operation (cr_operations r),
     cr_authentication := canonical_authentication (cr_authentication r),
     cr_resource_ceilings := canonical_resources (cr_resource_ceilings r)\<rparr>"

definition comparable_relation :: "CompiledRelation \<Rightarrow> bool" where
  "comparable_relation r \<longleftrightarrow> list_all comparable_input (cr_inputs r) \<and>
     list_all comparable_predicate (cr_predicate_mappings r) \<and> list_all comparable_operation (cr_operations r)"

text \<open>
  The canonical form in two steps. The first keeps every field the reload contract compares, and only drops
  what has no meaning (the parameters of a disabled pagination, ceilings that are not narrowed, payloads other than a
  scalar's own, identities derived from the package digest). The second drops the two fields that the comparison passes
  over although the contract does not exclude them: the name of the header or query field that carries an API key, and
  the place of the next URL in a response.
\<close>

definition documented_pagination :: "CompiledPagination \<Rightarrow> CompiledPagination" where
  "documented_pagination p = (if pg_strategy p = PAGINATION_DISABLED then canonical_pagination p else p)"

definition documented_operation :: "CompiledOperation \<Rightarrow> CompiledOperation" where
  "documented_operation q = q\<lparr>co_protocol_operation :=
     (case co_protocol_operation q of
        RestOperation r \<Rightarrow> RestOperation (r\<lparr>ro_pagination := documented_pagination (ro_pagination r),
          ro_request := canonical_request (ro_request r)\<rparr>)
      | GraphqlOperation g \<Rightarrow> GraphqlOperation g)\<rparr>"

definition documented_relation :: "CompiledRelation \<Rightarrow> CompiledRelation" where
  "documented_relation r = r\<lparr>cr_inputs := map canonical_input (cr_inputs r),
     cr_predicate_mappings := map canonical_predicate (cr_predicate_mappings r),
     cr_operations := map documented_operation (cr_operations r),
     cr_resource_ceilings := canonical_resources (cr_resource_ceilings r)\<rparr>"

definition without_next_url_path :: "CompiledOperation \<Rightarrow> CompiledOperation" where
  "without_next_url_path q = q\<lparr>co_protocol_operation :=
     (case co_protocol_operation q of
        RestOperation r \<Rightarrow> RestOperation (r\<lparr>ro_pagination := (ro_pagination r)\<lparr>pg_next_url_path := []\<rparr>\<rparr>)
      | GraphqlOperation g \<Rightarrow> GraphqlOperation g)\<rparr>"

definition without_unchecked_fields :: "CompiledRelation \<Rightarrow> CompiledRelation" where
  "without_unchecked_fields r = r\<lparr>cr_operations := map without_next_url_path (cr_operations r),
     cr_authentication := (cr_authentication r)\<lparr>ap_placement_name := []\<rparr>\<rparr>"

lemma canonical_relation_steps: "canonical_relation r = without_unchecked_fields (documented_relation r)"
proof -
  have "canonical_operation q = without_next_url_path (documented_operation q)" for q
    by (cases "co_protocol_operation q")
      (simp_all add: canonical_operation_def without_next_url_path_def documented_operation_def canonical_rest_def
        documented_pagination_def canonical_pagination_def)
  then show ?thesis
    by (simp add: canonical_relation_def without_unchecked_fields_def documented_relation_def canonical_authentication_def)
qed

lemma canonical_relations: "map canonical_relation rs = map without_unchecked_fields (map documented_relation rs)"
  by (simp add: canonical_relation_steps)

text \<open>Connectors: the name and the version are provenance.\<close>

definition canonical_descriptor :: "CompiledConnector \<Rightarrow> CompiledConnector" where
  "canonical_descriptor c = c\<lparr>cn_connector_name := [], cn_version := [],
     cn_relations := map canonical_relation (cn_relations c)\<rparr>"

definition comparable_descriptor :: "CompiledConnector \<Rightarrow> bool" where
  "comparable_descriptor c \<longleftrightarrow> list_all comparable_relation (cn_relations c)"

subsection \<open>Values\<close>

interpretation scalar: comparison SameScalar canonical_scalar comparable_scalar
proof
  show "SameScalar x y \<longleftrightarrow> canonical_scalar x = canonical_scalar y \<and> comparable_scalar x" for x y
    by (cases x; cases y) (auto simp: double_eq_def double_is_zero_def double_is_nan_def)
  show "canonical_scalar x = canonical_scalar y \<Longrightarrow> comparable_scalar x \<Longrightarrow> comparable_scalar y" for x y
    by (cases x; cases y) (auto simp: double_is_zero_def double_is_nan_def split: if_splits)
qed

lemma SameScalar_option:
  "(case x of None \<Rightarrow> (case y of None \<Rightarrow> True | Some r \<Rightarrow> False)
    | Some l \<Rightarrow> (case y of None \<Rightarrow> False | Some r \<Rightarrow> SameScalar l r)) \<longleftrightarrow>
   map_option canonical_scalar x = map_option canonical_scalar y \<and> pred_option comparable_scalar x"
  by (cases x; cases y) (auto simp: scalar.same_iff)

lemma SameOrigin_eq: "SameOrigin x y \<longleftrightarrow> x = y"
  by (cases x; cases y) (auto simp: SameOrigin_def)

lemma SameOrigins_eq: "list_all2 SameOrigin xs ys \<longleftrightarrow> xs = ys"
  by (simp add: SameOrigin_eq [abs_def] list.rel_eq)

lemma list_all2_equality: "(\<And>x y. R x y \<longleftrightarrow> x = y) \<Longrightarrow> list_all2 R xs ys \<longleftrightarrow> xs = ys"
  using list.rel_eq [THEN fun_cong, THEN fun_cong, of xs ys] list.rel_cong [of xs xs ys ys R "(=)"] by simp

lemma SameHeaders_eq: "SameHeaders x y \<longleftrightarrow> x = y"
  unfolding SameHeaders_def by (rule list_all2_equality) auto

lemma SameGraphqlVariables_eq: "SameGraphqlVariables x y \<longleftrightarrow> x = y"
  unfolding SameGraphqlVariables_def by (rule list_all2_equality) auto

lemma SameGraphqlColumns_eq: "SameGraphqlColumns x y \<longleftrightarrow> x = y"
  unfolding SameGraphqlColumns_def SamePath_def by (rule list_all2_equality) auto

lemma SameGraphqlResponse_eq: "SameGraphqlResponse x y \<longleftrightarrow> x = y"
  by (cases x; cases y) (auto simp: SameGraphqlResponse_def SamePath_def)

lemma SameGraphqlCursor_eq: "SameGraphqlCursor x y \<longleftrightarrow> x = y"
  by (cases x; cases y) (auto simp: SameGraphqlCursor_def SamePath_def)

lemma SameRetry_eq:
  "SameRetry x y \<longleftrightarrow> co_replay_class x = co_replay_class y \<and> co_retry_recommendation x = co_retry_recommendation y"
  by (auto simp: SameRetry_def Let_def)

lemma SameRateLimit_eq:
  "SameRateLimit x y \<longleftrightarrow> co_rate_limit_policy_supported x = co_rate_limit_policy_supported y \<and>
     co_rate_limit_policy x = co_rate_limit_policy y"
proof -
  have guidance: "list_all2 (\<lambda>g h. lg_header_name g = lg_header_name h \<and> lg_format g = lg_format h) xs ys \<longleftrightarrow> xs = ys"
    for xs ys :: "CompiledRateLimitGuidance list"
    by (rule list_all2_equality) auto
  show ?thesis by (cases "co_rate_limit_policy x"; cases "co_rate_limit_policy y") (auto simp: SameRateLimit_def guidance)
qed

lemma SameSelector_eq: "SameOperationSelectorStructure x y \<longleftrightarrow> x = y"
proof -
  have references: "list_all2 (\<lambda>l r. ir_kind l = ir_kind r \<and> ir_id l = ir_id r) xs ys \<longleftrightarrow> xs = ys"
    for xs ys :: "input_reference list"
    by (rule list_all2_equality) auto
  show ?thesis by (cases x; cases y) (auto simp: SameOperationSelectorStructure_def references)
qed

lemma SameColumn_eq: "SameColumn x y \<longleftrightarrow> x = y"
  by (cases x; cases y) (auto simp: SameColumn_def)

lemma SameGraphqlLiteral_iff:
  "SameGraphqlLiteral x y \<longleftrightarrow> x = y \<and> complete_literal x"
  "length xs = length ys \<Longrightarrow> same_literal_items xs ys \<longleftrightarrow> xs = ys \<and> complete_items xs"
  "length fs = length gs \<Longrightarrow> same_literal_fields fs gs \<longleftrightarrow> fs = gs \<and> complete_fields fs"
  by (induction x y and xs ys and fs gs rule: SameGraphqlLiteral_same_literal_items_same_literal_fields.induct) auto

interpretation argument: comparison
  "\<lambda>(v::CompiledGraphqlFixedArgument) w. fa_name v = fa_name w \<and> SameGraphqlLiteral (fa_value v) (fa_value w)" "\<lambda>a. a"
  "\<lambda>a. complete_literal (fa_value a)"
proof
  show "fa_name x = fa_name y \<and> SameGraphqlLiteral (fa_value x) (fa_value y) \<longleftrightarrow> x = y \<and> complete_literal (fa_value x)"
    for x y :: CompiledGraphqlFixedArgument
    by (cases x; cases y) (auto simp: SameGraphqlLiteral_iff)
qed auto

subsection \<open>Operations\<close>

interpretation recipe: comparison SameGraphqlRecipe "\<lambda>r. r" comparable_recipe
proof
  have variables: "list_all2 (\<lambda>v w. rv_name v = rv_name w \<and> rv_type v = rv_type w \<and> rv_role v = rv_role w \<and>
      rv_argument_name v = rv_argument_name w) xs ys \<longleftrightarrow> xs = ys" for xs ys :: "CompiledGraphqlRecipeVariable list"
    by (rule list_all2_equality) auto
  have selections: "list_all2 (\<lambda>v w. gs_column_name v = gs_column_name w \<and> gs_field_path v = gs_field_path w) xs ys
      \<longleftrightarrow> xs = ys" for xs ys :: "CompiledGraphqlSelection list"
    by (rule list_all2_equality) auto
  show "SameGraphqlRecipe x y \<longleftrightarrow> x = y \<and> comparable_recipe x" for x y
    by (cases x; cases y)
      (auto simp: SameGraphqlRecipe_def comparable_recipe_def variables selections argument.same_list)
qed auto

interpretation graphql: comparison SameGraphql "\<lambda>g. g" comparable_graphql
proof
  show "SameGraphql x y \<longleftrightarrow> x = y \<and> comparable_graphql x" for x y
    by (cases x; cases y)
      (auto simp: SameGraphql_def comparable_graphql_def SameOrigin_eq SameHeaders_eq SameGraphqlVariables_eq
        SameGraphqlColumns_eq SameGraphqlResponse_eq SameGraphqlCursor_eq recipe.same_iff)
qed auto

interpretation parameter: comparison same_parameter canonical_parameter comparable_parameter
proof
  show "same_parameter x y \<longleftrightarrow> canonical_parameter x = canonical_parameter y \<and> comparable_parameter x" for x y
    by (cases x; cases y)
      (auto simp: same_parameter_def canonical_parameter_def comparable_parameter_def SameScalar_option)
  show "canonical_parameter x = canonical_parameter y \<Longrightarrow> comparable_parameter x \<Longrightarrow> comparable_parameter y" for x y
    by (cases x; cases y)
      (auto simp: canonical_parameter_def comparable_parameter_def intro: scalar.comparable_option)
qed

interpretation pagination: comparison SamePagination canonical_pagination "\<lambda>_. True"
proof
  show "SamePagination x y \<longleftrightarrow> canonical_pagination x = canonical_pagination y \<and> True" for x y
    by (cases x; cases y) (auto simp: SamePagination_def canonical_pagination_def)
qed simp

lemma canonical_request_eq:
  "canonical_request x = canonical_request y \<longleftrightarrow> rq_origin x = rq_origin y \<and> rq_path x = rq_path y \<and>
     map canonical_parameter (rq_query_parameters x) = map canonical_parameter (rq_query_parameters y) \<and>
     rq_headers x = rq_headers y"
  by (cases x; cases y) (simp add: canonical_request_def)

interpretation rest: comparison SameRest canonical_rest comparable_rest
proof
  show "SameRest x y \<longleftrightarrow> canonical_rest x = canonical_rest y \<and> comparable_rest x" for x y
    by (cases x; cases y)
      (auto simp: SameRest_def canonical_rest_def comparable_rest_def SameOrigin_eq SameHeaders_eq SameQuery_def
        parameter.same_list pagination.same_iff canonical_request_eq)
  show "canonical_rest x = canonical_rest y \<Longrightarrow> comparable_rest x \<Longrightarrow> comparable_rest y" for x y
    by (cases x; cases y)
      (auto simp: canonical_rest_def comparable_rest_def canonical_request_eq intro: parameter.comparable_list)
qed

interpretation operation: comparison SameOperation canonical_operation comparable_operation
proof
  show "SameOperation x y \<longleftrightarrow> canonical_operation x = canonical_operation y \<and> comparable_operation x" for x y
    by (cases x; cases y; cases "co_protocol_operation x"; cases "co_protocol_operation y")
      (auto simp: SameOperation_def canonical_operation_def comparable_operation_def SameRetry_eq SameRateLimit_eq
        SameSelector_eq rest.same_iff graphql.same_iff)
  show "canonical_operation x = canonical_operation y \<Longrightarrow> comparable_operation x \<Longrightarrow> comparable_operation y" for x y
    by (cases x; cases y; cases "co_protocol_operation x"; cases "co_protocol_operation y")
      (auto simp: canonical_operation_def comparable_operation_def intro: rest.comparable_canon)
qed

subsection \<open>Relations and connectors\<close>

interpretation input: comparison SameInput canonical_input comparable_input
proof
  show "SameInput x y \<longleftrightarrow> canonical_input x = canonical_input y \<and> comparable_input x" for x y
    by (cases x; cases y) (auto simp: SameInput_def SameDefault_def canonical_input_def comparable_input_def SameScalar_option)
  show "canonical_input x = canonical_input y \<Longrightarrow> comparable_input x \<Longrightarrow> comparable_input y" for x y
    by (cases x; cases y) (auto simp: canonical_input_def comparable_input_def intro: scalar.comparable_option)
qed

interpretation predicate: comparison SamePredicate canonical_predicate comparable_predicate
proof
  show "SamePredicate x y \<longleftrightarrow> canonical_predicate x = canonical_predicate y \<and> comparable_predicate x" for x y
    by (cases x; cases y) (auto simp: SamePredicate_def canonical_predicate_def comparable_predicate_def scalar.same_iff)
  show "canonical_predicate x = canonical_predicate y \<Longrightarrow> comparable_predicate x \<Longrightarrow> comparable_predicate y" for x y
    by (cases x; cases y) (auto simp: canonical_predicate_def comparable_predicate_def intro: scalar.comparable_canon)
qed

interpretation authentication: comparison SameAuthentication canonical_authentication "\<lambda>_. True"
proof
  show "SameAuthentication x y \<longleftrightarrow> canonical_authentication x = canonical_authentication y \<and> True" for x y
    by (cases x; cases y) (auto simp: SameAuthentication_def canonical_authentication_def SameOrigins_eq)
qed simp

interpretation resources: comparison SameResources canonical_resources "\<lambda>_. True"
proof
  show "SameResources x y \<longleftrightarrow> canonical_resources x = canonical_resources y \<and> True" for x y
    by (cases x; cases y) (auto simp: SameResources_def canonical_resources_def)
qed simp

interpretation relation: comparison SameRelation canonical_relation comparable_relation
proof
  show "SameRelation x y \<longleftrightarrow> canonical_relation x = canonical_relation y \<and> comparable_relation x" for x y
    by (cases x; cases y)
      (auto simp: SameRelation_def canonical_relation_def comparable_relation_def authentication.same_iff
        resources.same_iff list_all2_equality [OF SameColumn_eq] input.same_list predicate.same_list operation.same_list)
  show "canonical_relation x = canonical_relation y \<Longrightarrow> comparable_relation x \<Longrightarrow> comparable_relation y" for x y
    by (cases x; cases y)
      (auto simp: canonical_relation_def comparable_relation_def
        intro: input.comparable_list predicate.comparable_list operation.comparable_list)
qed

lemma SameNetworkPolicy_eq: "SameNetworkPolicy x y \<longleftrightarrow> x = y"
  by (cases x; cases y) (auto simp: SameNetworkPolicy_def SameOrigins_eq)

interpretation descriptor: comparison SameDescriptor canonical_descriptor comparable_descriptor
proof
  show "SameDescriptor x y \<longleftrightarrow> canonical_descriptor x = canonical_descriptor y \<and> comparable_descriptor x" for x y
    by (cases x; cases y)
      (auto simp: SameDescriptor_def canonical_descriptor_def comparable_descriptor_def SameNetworkPolicy_eq
        relation.same_list)
  show "canonical_descriptor x = canonical_descriptor y \<Longrightarrow> comparable_descriptor x \<Longrightarrow> comparable_descriptor y"
    for x y
    by (cases x; cases y)
      (auto simp: canonical_descriptor_def comparable_descriptor_def intro: relation.comparable_list)
qed

end
