(* ===== verification/Package_Semver.thy ===== *)
theory Package_Semver
  imports Prelude "HOL-Library.Product_Lexorder"
begin

text \<open>
  Package versions, \<open>src/src/connector/package_semver.cpp\<close>: the parser of \<open>MAJOR.MINOR.PATCH\<close> with its
  canonical decimal components of 32 bits, and the numeric order. Accumulation runs in 64 bits, as in
  the source, and is shown not to wrap.
\<close>

subsection \<open>The parser\<close>

datatype semver_error = NotCanonicalCoreSemVer | ComponentExceedsUint32

record PackageSemVer =
  sv_major :: u32
  sv_minor :: u32
  sv_patch :: u32
  sv_canonical :: string

definition IsAsciiDigit_semver :: "char \<Rightarrow> bool" where
  "IsAsciiDigit_semver c \<longleftrightarrow> in_range CHR ''0'' CHR ''9'' c"

definition uint32_max :: u64 where
  "uint32_max = 4294967295"

fun component_loop :: "u64 \<Rightarrow> string \<Rightarrow> semver_error + u64" where
  "component_loop value [] = Inr value"
| "component_loop value (c # cs) =
     (if \<not> IsAsciiDigit_semver c then Inl NotCanonicalCoreSemVer
      else (let digit = of_nat (byte c - byte CHR ''0'') in
        if value > (uint32_max - digit) div 10 then Inl ComponentExceedsUint32
        else component_loop (value * 10 + digit) cs))"

definition ParseComponent :: "string \<Rightarrow> semver_error + u32" where
  "ParseComponent component =
     (if component = [] \<or> length component > 1 \<and> hd component = CHR ''0'' then Inl NotCanonicalCoreSemVer
      else and_then (component_loop 0 component) (\<lambda>v. Inr (ucast v)))"

text \<open>\<open>std::string::find\<close> of one byte from a position; \<open>None\<close> is \<open>npos\<close>.\<close>

fun find_from :: "char \<Rightarrow> nat \<Rightarrow> string \<Rightarrow> nat option" where
  "find_from c start [] = None"
| "find_from c 0 (x # xs) = (if x = c then Some 0 else map_option Suc (find_from c 0 xs))"
| "find_from c (Suc start) (x # xs) = map_option Suc (find_from c start xs)"

definition ParseSemVer :: "string \<Rightarrow> semver_error + PackageSemVer" where
  "ParseSemVer value =
     (case find_from CHR ''.'' 0 value of
        None \<Rightarrow> Inl NotCanonicalCoreSemVer
      | Some first \<Rightarrow>
          (case find_from CHR ''.'' (first + 1) value of
             None \<Rightarrow> Inl NotCanonicalCoreSemVer
           | Some second \<Rightarrow>
               if find_from CHR ''.'' (second + 1) value \<noteq> None then Inl NotCanonicalCoreSemVer
               else and_then (ParseComponent (take first value)) (\<lambda>major.
                    and_then (ParseComponent (take (second - first - 1) (drop (first + 1) value))) (\<lambda>minor.
                    and_then (ParseComponent (drop (second + 1) value)) (\<lambda>patch.
                      Inr \<lparr>sv_major = major, sv_minor = minor, sv_patch = patch, sv_canonical = value\<rparr>)))))"

definition CompareSemVer :: "PackageSemVer \<Rightarrow> PackageSemVer \<Rightarrow> int" where
  "CompareSemVer a b =
     (if sv_major a \<noteq> sv_major b then (if sv_major a < sv_major b then - 1 else 1)
      else if sv_minor a \<noteq> sv_minor b then (if sv_minor a < sv_minor b then - 1 else 1)
      else if sv_patch a \<noteq> sv_patch b then (if sv_patch a < sv_patch b then - 1 else 1)
      else 0)"

subsection \<open>Finding bytes\<close>

lemma find_from_absent: "c \<notin> set xs \<Longrightarrow> find_from c n xs = None"
  by (induction c n xs rule: find_from.induct) auto

lemma find_from_first: "c \<notin> set xs \<Longrightarrow> find_from c 0 (xs @ c # ys) = Some (length xs)"
  by (induction xs) auto

lemma find_from_shift: "find_from c (length xs) (xs @ ys) = map_option (\<lambda>k. length xs + k) (find_from c 0 ys)"
  by (induction xs) (cases "find_from c 0 ys"; simp)+

lemma find_from_0_Some:
  "find_from c 0 xs = Some n \<Longrightarrow> n < length xs \<and> xs ! n = c \<and> c \<notin> set (take n xs)"
  by (induction xs arbitrary: n) (auto split: if_splits)

lemma find_from_0_None: "find_from c 0 xs = None \<longleftrightarrow> c \<notin> set xs"
  by (induction xs) auto

lemma find_from_0_split:
  "find_from c 0 xs = Some n \<longleftrightarrow> (\<exists>us vs. xs = us @ c # vs \<and> n = length us \<and> c \<notin> set us)"
proof
  assume "find_from c 0 xs = Some n"
  from find_from_0_Some [OF this] show "\<exists>us vs. xs = us @ c # vs \<and> n = length us \<and> c \<notin> set us"
    by (intro exI [of _ "take n xs"] exI [of _ "drop (Suc n) xs"]) (auto simp: id_take_nth_drop [symmetric])
qed (auto simp: find_from_first)

subsection \<open>Canonical components\<close>

definition digits_value :: "nat \<Rightarrow> string \<Rightarrow> nat" where
  "digits_value n cs = foldl (\<lambda>n c. 10 * n + (byte c - 48)) n cs"

definition canonical_digits :: "string \<Rightarrow> bool" where
  "canonical_digits cs \<longleftrightarrow> cs \<noteq> [] \<and> list_all (in_range CHR ''0'' CHR ''9'') cs \<and> (length cs = 1 \<or> hd cs \<noteq> CHR ''0'')"

lemma digit_bound: "in_range CHR ''0'' CHR ''9'' c \<Longrightarrow> byte c - 48 < 10"
  unfolding in_range_def byte_digits by linarith

lemma digit_char_zero: "digit_char 0 = CHR ''0''"
  by code_simp

lemma digits_value_simps [simp]:
  "digits_value n [] = n"
  "digits_value n (c # cs) = digits_value (10 * n + (byte c - 48)) cs"
  "digits_value n (cs @ [c]) = 10 * digits_value n cs + (byte c - 48)"
  by (simp_all add: digits_value_def)

lemma digits_value_mono: "n \<le> digits_value n cs"
proof (induction cs arbitrary: n)
  case (Cons c cs)
  have "n \<le> 10 * n + (byte c - 48)" by simp
  also note Cons.IH [of "10 * n + (byte c - 48)"]
  finally show ?case by simp
qed simp

lemma decimal_canonical: "canonical_digits (decimal n) \<and> digits_value 0 (decimal n) = n \<and> (0 < n \<longrightarrow> hd (decimal n) \<noteq> CHR ''0'')"
proof (induction n rule: decimal.induct)
  case (1 n)
  have digit: "in_range CHR ''0'' CHR ''9'' (digit_char d)" if "d < 10" for d
    using that by (simp add: in_range_def byte_digit_char byte_digits)
  have zero: "digit_char d = CHR ''0'' \<longleftrightarrow> d = 0" if "d < 10" for d
    using that byte_inject [of "digit_char d" "CHR ''0''"] by (simp add: byte_digit_char byte_digits)
  show ?case
  proof (cases "n < 10")
    case True
    then show ?thesis by (simp add: decimal.simps [of n] canonical_digits_def digit byte_digit_char zero)
  next
    case False
    then have "0 < n div 10" by simp
    then show ?thesis using 1 [OF False] False
      by (simp add: decimal.simps [of n] canonical_digits_def digit byte_digit_char)
  qed
qed

lemma canonical_digits_decimal: "canonical_digits cs \<Longrightarrow> decimal (digits_value 0 cs) = cs"
proof (induction cs rule: rev_induct)
  case (snoc c cs)
  have c: "in_range CHR ''0'' CHR ''9'' c" using snoc.prems by (simp add: canonical_digits_def)
  then have d: "byte c - 48 < 10" "digit_char (byte c - 48) = c"
    by (simp_all add: digit_bound digit_char_of_byte)
  show ?case
  proof (cases "cs = []")
    case True
    then show ?thesis using d by (simp add: decimal.simps [of "byte c - 48"])
  next
    case False
    then have hd: "hd cs \<noteq> CHR ''0''" and cs: "canonical_digits cs"
      using snoc.prems by (simp_all add: canonical_digits_def)
    have "0 < digits_value 0 cs"
    proof (rule ccontr)
      assume "\<not> 0 < digits_value 0 cs"
      then have "cs = decimal 0" using snoc.IH [OF cs] by simp
      then show False using hd by (simp add: decimal.simps digit_char_zero)
    qed
    then show ?thesis using snoc.IH [OF cs] d
      by (simp add: decimal.simps [of "10 * digits_value 0 cs + (byte c - 48)"])
  qed
qed (simp add: canonical_digits_def)

lemma canonical_digits_iff: "canonical_digits cs \<and> digits_value 0 cs = n \<longleftrightarrow> cs = decimal n"
  using canonical_digits_decimal decimal_canonical by metis

lemma component_guard:
  assumes v: "unat (v::u64) < 2 ^ 32" and d: "d < 10"
  shows "v > (uint32_max - of_nat d) div 10 \<longleftrightarrow> 10 * unat v + d \<ge> 2 ^ 32"
    and "10 * unat v + d < 2 ^ 32 \<Longrightarrow> unat (v * 10 + of_nat d) = 10 * unat v + d"
proof -
  have ud: "unat (of_nat d :: u64) = d" using d by (simp add: unat_of_nat)
  have "(of_nat d :: u64) \<le> uint32_max" using d by (simp add: word_le_nat_alt ud uint32_max_def)
  then have "unat ((uint32_max - of_nat d) div 10) = (4294967295 - d) div 10"
    by (simp add: unat_div unat_sub ud) (simp add: uint32_max_def)
  then show "v > (uint32_max - of_nat d) div 10 \<longleftrightarrow> 10 * unat v + d \<ge> 2 ^ 32"
    using d by (simp add: word_less_nat_alt) linarith
  show "unat (v * 10 + of_nat d) = 10 * unat v + d" if "10 * unat v + d < 2 ^ 32"
    using that v d by (simp add: unat_word_ariths ud)
qed

lemma component_loop_iff:
  "unat v < 2 ^ 32 \<Longrightarrow>
   component_loop v cs = Inr w \<longleftrightarrow>
     list_all (in_range CHR ''0'' CHR ''9'') cs \<and> digits_value (unat v) cs < 2 ^ 32 \<and> unat w = digits_value (unat v) cs"
proof (induction cs arbitrary: v)
  case Nil
  then show ?case by (auto simp: word_unat_eq_iff)
next
  case (Cons c cs)
  show ?case
  proof (cases "in_range CHR ''0'' CHR ''9'' c")
    case False
    then show ?thesis by (simp add: IsAsciiDigit_semver_def)
  next
    case True
    then have d: "byte c - 48 < 10" by (rule digit_bound)
    note g = component_guard [OF Cons.prems d]
    show ?thesis
    proof (cases "10 * unat v + (byte c - 48) < 2 ^ 32")
      case small: True
      then show ?thesis using True g Cons.IH [of "v * 10 + of_nat (byte c - 48)"]
        by (simp add: IsAsciiDigit_semver_def byte_digits Let_def)
    next
      case False
      then show ?thesis using True g(1) digits_value_mono [of "10 * unat v + (byte c - 48)" cs]
        by (simp add: IsAsciiDigit_semver_def byte_digits Let_def)
    qed
  qed
qed

lemma ParseComponent_iff: "ParseComponent cs = Inr w \<longleftrightarrow> cs = decimal (unat w)"
proof -
  have "ParseComponent cs = Inr w \<longleftrightarrow>
        (cs \<noteq> [] \<and> (length cs = 1 \<or> hd cs \<noteq> CHR ''0'')) \<and> (\<exists>v. component_loop 0 cs = Inr v \<and> ucast v = w)"
    by (cases "component_loop 0 cs") (auto simp: ParseComponent_def Suc_lessI length_Suc_conv neq_Nil_conv)
  also have "\<dots> \<longleftrightarrow> canonical_digits cs \<and> digits_value 0 cs = unat w"
  proof -
    have "(\<exists>v. (list_all (in_range CHR ''0'' CHR ''9'') cs \<and> digits_value 0 cs < 2 ^ 32 \<and> unat (v::u64) = digits_value 0 cs)
           \<and> ucast v = w) \<longleftrightarrow> list_all (in_range CHR ''0'' CHR ''9'') cs \<and> digits_value 0 cs = unat w" (is "?L \<longleftrightarrow> ?R")
    proof
      assume ?L
      then obtain v :: u64 where v: "list_all (in_range CHR ''0'' CHR ''9'') cs" "digits_value 0 cs < 2 ^ 32"
        "unat v = digits_value 0 cs" "ucast v = w" by blast
      then show ?R by (auto simp: unsigned_ucast_eq take_bit_nat_eq_self)
    next
      assume R: ?R
      have "unat w < 2 ^ LENGTH(32)" by (rule unsigned_less)
      then show ?L using R
        by (intro exI [of _ "ucast w"]) (simp add: unsigned_ucast_eq take_bit_word_eq_self take_bit_nat_eq_self)
    qed
    then show ?thesis using component_loop_iff [of 0 cs] by (auto simp: canonical_digits_def)
  qed
  finally show ?thesis by (simp add: canonical_digits_iff)
qed

subsection \<open>Versions\<close>

definition RenderSemVer :: "PackageSemVer \<Rightarrow> string" where
  "RenderSemVer v = decimal (unat (sv_major v)) @ ''.'' @ decimal (unat (sv_minor v)) @ ''.'' @ decimal (unat (sv_patch v))"

lemma dot_not_digit: "CHR ''.'' \<notin> set (decimal n)"
  using decimal_canonical [of n] by (auto simp: canonical_digits_def list_all_iff in_range_def byte_def)

lemma ParseSemVer_parts:
  "ParseSemVer value = Inr v \<longleftrightarrow>
     (\<exists>a b c. value = a @ ''.'' @ b @ ''.'' @ c \<and> CHR ''.'' \<notin> set a \<union> set b \<union> set c \<and>
        ParseComponent a = Inr (sv_major v) \<and> ParseComponent b = Inr (sv_minor v) \<and>
        ParseComponent c = Inr (sv_patch v) \<and> sv_canonical v = value)" (is "?L \<longleftrightarrow> ?R")
proof
  assume ?L
  then obtain first second where
    f: "find_from CHR ''.'' 0 value = Some first" and s: "find_from CHR ''.'' (first + 1) value = Some second"
    and e: "find_from CHR ''.'' (second + 1) value = None"
    and r: "ParseComponent (take first value) = Inr (sv_major v)"
      "ParseComponent (take (second - first - 1) (drop (first + 1) value)) = Inr (sv_minor v)"
      "ParseComponent (drop (second + 1) value) = Inr (sv_patch v)" "sv_canonical v = value"
    by (auto simp: ParseSemVer_def split: option.splits if_splits)
  from f obtain a rest where a: "value = a @ CHR ''.'' # rest" "first = length a" "CHR ''.'' \<notin> set a"
    by (auto simp: find_from_0_split)
  have "find_from CHR ''.'' (first + 1) value = map_option (\<lambda>k. first + 1 + k) (find_from CHR ''.'' 0 rest)"
    using find_from_shift [of "CHR ''.''" "a @ ''.''" rest] a by simp
  then have "map_option (\<lambda>k. first + 1 + k) (find_from CHR ''.'' 0 rest) = Some second" using s by (simp only:)
  then obtain k where k: "find_from CHR ''.'' 0 rest = Some k" "second = first + 1 + k" by auto
  then obtain b c where b: "rest = b @ CHR ''.'' # c" "k = length b" "CHR ''.'' \<notin> set b"
    by (auto simp: find_from_0_split)
  have "CHR ''.'' \<notin> set c"
    using find_from_shift [of "CHR ''.''" "a @ ''.'' @ b @ ''.''" c] e a b k by (simp add: find_from_0_None)
  then show ?R using a b k r by (intro exI [of _ a] exI [of _ b] exI [of _ c]) simp
next
  assume ?R
  then obtain a b c where p: "value = a @ ''.'' @ b @ ''.'' @ c" "CHR ''.'' \<notin> set a" "CHR ''.'' \<notin> set b" "CHR ''.'' \<notin> set c"
      "ParseComponent a = Inr (sv_major v)" "ParseComponent b = Inr (sv_minor v)"
      "ParseComponent c = Inr (sv_patch v)" "sv_canonical v = value" by auto
  have "find_from CHR ''.'' 0 value = Some (length a)"
    "find_from CHR ''.'' (length a + 1) value = Some (length a + 1 + length b)"
    "find_from CHR ''.'' (length a + 1 + length b + 1) value = None"
    using find_from_first [of "CHR ''.''" a "b @ ''.'' @ c"] find_from_first [of "CHR ''.''" b c]
      find_from_shift [of "CHR ''.''" "a @ ''.''" "b @ ''.'' @ c"]
      find_from_shift [of "CHR ''.''" "a @ ''.'' @ b @ ''.''" c] p
    by (simp_all add: find_from_absent)
  then show ?L using p by (simp add: ParseSemVer_def)
qed

definition semver_key :: "PackageSemVer \<Rightarrow> u32 \<times> u32 \<times> u32" where
  "semver_key v = (sv_major v, sv_minor v, sv_patch v)"

lemma CompareSemVer_order:
  "CompareSemVer a b = 0 \<longleftrightarrow> semver_key a = semver_key b"
  "CompareSemVer a b \<le> 0 \<longleftrightarrow> semver_key a \<le> semver_key b"
  by (auto simp: CompareSemVer_def semver_key_def less_eq_prod_def less_prod_def)

lemma ParseSemVer_exact:
  "ParseSemVer value = Inr v \<longleftrightarrow> value = RenderSemVer v \<and> sv_canonical v = value"
  unfolding ParseSemVer_parts ParseComponent_iff RenderSemVer_def
  by (auto simp: dot_not_digit)

text \<open>
  C28. Versions are read exactly: the parser returns a version if and only if the string is its canonical
  rendering, three decimal numbers of 32 bits without leading zeros and joined by dots; so no two strings
  name the same version, nothing wraps, and every version is read back.
\<close>

theorem semver_exact:
  "ParseSemVer value = Inr v \<longleftrightarrow> value = RenderSemVer v \<and> sv_canonical v = value"
  by (rule ParseSemVer_exact)

end
