(* ===== verification/Package_Compatibility.thy ===== *)
theory Package_Compatibility
  imports Descriptor_Equality Package_Semver "HOL-Library.Sublist"
begin

text \<open>
  Identities of packages (\<open>src/src/connector/compiled_package_generation.cpp\<close>) and the classification of a
  package reload (\<open>src/src/connector/package_compatibility.cpp\<close>). A generation is a handle, the address of its
  immutable shared state, together with that state.
\<close>

subsection \<open>Identities\<close>

datatype identity_error = InvalidStableIdentity | InvalidPackageVersion semver_error

record CompiledPackageIdentity =
  pi_spec_identifier :: string
  pi_connector_id :: string
  pi_package_version :: string
  pi_package_digest :: string

definition IsAsciiLower_package :: "char \<Rightarrow> bool" where
  "IsAsciiLower_package c \<longleftrightarrow> in_range CHR ''a'' CHR ''z'' c"

definition IsAsciiDigit_package :: "char \<Rightarrow> bool" where
  "IsAsciiDigit_package c \<longleftrightarrow> in_range CHR ''0'' CHR ''9'' c"

definition IsIdentifier :: "string \<Rightarrow> bool" where
  "IsIdentifier value \<longleftrightarrow>
     \<not> (value = [] \<or> length value > 63 \<or> \<not> IsAsciiLower_package (hd value)) \<and>
     list_all (\<lambda>c. IsAsciiLower_package c \<or> IsAsciiDigit_package c \<or> c = CHR ''_'') value"

definition IsPackageDigest :: "string \<Rightarrow> bool" where
  "IsPackageDigest digest \<longleftrightarrow>
     length digest = length ''sha256.'' + 64 \<and> take (length ''sha256.'') digest = ''sha256.'' \<and>
     list_all (\<lambda>c. IsAsciiDigit_package c \<or> in_range CHR ''a'' CHR ''f'' c) (drop (length ''sha256.'') digest)"

definition PackageIdentity :: "string \<Rightarrow> string \<Rightarrow> string \<Rightarrow> string \<Rightarrow> identity_error + CompiledPackageIdentity" where
  "PackageIdentity spec_identifier connector_id package_version package_digest =
     (if spec_identifier \<notin> {''duckdb_api/v1'', ''duckdb_api/v2'', ''duckdb_api/v3''} \<or>
         \<not> IsIdentifier connector_id \<or> \<not> IsPackageDigest package_digest
      then Inl InvalidStableIdentity
      else case ParseSemVer package_version of
          Inl e \<Rightarrow> Inl (InvalidPackageVersion e)
        | Inr _ \<Rightarrow> Inr \<lparr>pi_spec_identifier = spec_identifier, pi_connector_id = connector_id,
            pi_package_version = package_version, pi_package_digest = package_digest\<rparr>)"

text \<open>The identities that the constructor lets through.\<close>

definition valid_identity :: "CompiledPackageIdentity \<Rightarrow> bool" where
  "valid_identity i \<longleftrightarrow>
     PackageIdentity (pi_spec_identifier i) (pi_connector_id i) (pi_package_version i) (pi_package_digest i) = Inr i"

subsection \<open>Generations\<close>

type_synonym handle = nat

record CompiledPackageGeneration =
  cg_handle :: handle
  cg_identity :: CompiledPackageIdentity
  cg_connector :: CompiledConnector

definition OpaqueHandle :: "CompiledPackageGeneration \<Rightarrow> handle" where
  "OpaqueHandle g = cg_handle g"

definition IsSameGeneration :: "handle \<Rightarrow> handle \<Rightarrow> bool" where
  "IsSameGeneration h h' \<longleftrightarrow> h = h'"

subsection \<open>Reload decisions\<close>

datatype PackageReloadClassification = EXACT_NO_OP | COMPATIBLE_PROVENANCE_PATCH | COMPATIBLE_PROVENANCE_MINOR
  | COMPATIBLE_APPEND_ONLY_MINOR | REJECTED_PACKAGE_IDENTITY | INCOMPATIBLE_RELOAD

record PackageReloadDecision =
  rd_classification :: PackageReloadClassification
  rd_connector_id :: string
  rd_active_generation :: handle
  rd_candidate_generation :: handle

fun IsSuccessful :: "PackageReloadClassification \<Rightarrow> bool" where
  "IsSuccessful EXACT_NO_OP \<longleftrightarrow> True"
| "IsSuccessful COMPATIBLE_PROVENANCE_PATCH \<longleftrightarrow> True"
| "IsSuccessful COMPATIBLE_PROVENANCE_MINOR \<longleftrightarrow> True"
| "IsSuccessful COMPATIBLE_APPEND_ONLY_MINOR \<longleftrightarrow> True"
| "IsSuccessful REJECTED_PACKAGE_IDENTITY \<longleftrightarrow> False"
| "IsSuccessful INCOMPATIBLE_RELOAD \<longleftrightarrow> False"

definition IsCompatible :: "PackageReloadDecision \<Rightarrow> bool" where
  "IsCompatible d \<longleftrightarrow> IsSuccessful (rd_classification d)"

definition decision_Changed :: "PackageReloadDecision \<Rightarrow> bool" where
  "decision_Changed d \<longleftrightarrow> rd_classification d = COMPATIBLE_PROVENANCE_PATCH \<or>
     rd_classification d = COMPATIBLE_PROVENANCE_MINOR \<or> rd_classification d = COMPATIBLE_APPEND_ONLY_MINOR"

definition HasDiagnostic :: "PackageReloadDecision \<Rightarrow> bool" where
  "HasDiagnostic d \<longleftrightarrow> \<not> IsCompatible d"

definition DiagnosticCode :: "PackageReloadDecision \<Rightarrow> string" where
  "DiagnosticCode d = (case rd_classification d of
     REJECTED_PACKAGE_IDENTITY \<Rightarrow> ''DUCKDB_API_PACKAGE_IDENTITY''
   | INCOMPATIBLE_RELOAD \<Rightarrow> ''DUCKDB_API_INCOMPATIBLE_RELOAD''
   | _ \<Rightarrow> '''')"

definition DiagnosticPhase :: "PackageReloadDecision \<Rightarrow> string" where
  "DiagnosticPhase d = (if HasDiagnostic d then ''compatibility'' else '''')"

definition decision_Matches :: "PackageReloadDecision \<Rightarrow> handle \<Rightarrow> handle \<Rightarrow> bool" where
  "decision_Matches d active candidate \<longleftrightarrow>
     IsSameGeneration (rd_active_generation d) active \<and> IsSameGeneration (rd_candidate_generation d) candidate"

definition ClassifyPackageReload ::
    "CompiledPackageGeneration \<Rightarrow> CompiledPackageGeneration \<Rightarrow> semver_error + PackageReloadDecision" where
  "ClassifyPackageReload active candidate =
     (let active_identity = cg_identity active; candidate_identity = cg_identity candidate;
          decide = (\<lambda>classification connector_id.
            \<lparr>rd_classification = classification, rd_connector_id = connector_id,
             rd_active_generation = OpaqueHandle active, rd_candidate_generation = OpaqueHandle candidate\<rparr>) in
      if pi_spec_identifier active_identity \<noteq> pi_spec_identifier candidate_identity \<or>
         pi_connector_id active_identity \<noteq> pi_connector_id candidate_identity
      then Inr (decide INCOMPATIBLE_RELOAD (pi_connector_id candidate_identity))
      else
        and_then (ParseSemVer (pi_package_version active_identity)) (\<lambda>active_version.
        and_then (ParseSemVer (pi_package_version candidate_identity)) (\<lambda>candidate_version.
          let same_descriptor = SameDescriptor (cg_connector active) (cg_connector candidate);
              id = pi_connector_id active_identity in
          if CompareSemVer active_version candidate_version = 0 \<and>
             pi_package_digest active_identity = pi_package_digest candidate_identity \<and> same_descriptor
          then Inr (decide EXACT_NO_OP id)
          else if CompareSemVer candidate_version active_version \<le> 0
          then Inr (decide REJECTED_PACKAGE_IDENTITY id)
          else if sv_major candidate_version \<noteq> sv_major active_version
          then Inr (decide INCOMPATIBLE_RELOAD id)
          else if same_descriptor
          then Inr (decide (if sv_minor candidate_version = sv_minor active_version
                            then COMPATIBLE_PROVENANCE_PATCH else COMPATIBLE_PROVENANCE_MINOR) id)
          else if sv_minor candidate_version > sv_minor active_version \<and>
                  IsAppendOnlyDescriptor (cg_connector active) (cg_connector candidate)
          then Inr (decide COMPATIBLE_APPEND_ONLY_MINOR id)
          else Inr (decide INCOMPATIBLE_RELOAD id))))"

subsection \<open>What a version is\<close>

definition the_version :: "string \<Rightarrow> PackageSemVer" where
  "the_version v = (case ParseSemVer v of Inr x \<Rightarrow> x | Inl _ \<Rightarrow>
     \<lparr>sv_major = 0, sv_minor = 0, sv_patch = 0, sv_canonical = []\<rparr>)"

definition version_of :: "CompiledPackageGeneration \<Rightarrow> PackageSemVer" where
  "version_of g = the_version (pi_package_version (cg_identity g))"

lemma valid_identity_version:
  "valid_identity (cg_identity g) \<Longrightarrow> ParseSemVer (pi_package_version (cg_identity g)) = Inr (version_of g)"
  by (auto simp: valid_identity_def PackageIdentity_def version_of_def the_version_def split: if_splits sum.splits)

subsection \<open>What a reload keeps\<close>

text \<open>One generation of a connector may follow another.\<close>

definition evolves :: "CompiledPackageGeneration \<Rightarrow> CompiledPackageGeneration \<Rightarrow> bool" where
  "evolves a c \<longleftrightarrow>
     pi_spec_identifier (cg_identity a) = pi_spec_identifier (cg_identity c) \<and>
     pi_connector_id (cg_identity a) = pi_connector_id (cg_identity c) \<and>
     sv_major (version_of a) = sv_major (version_of c) \<and>
     semver_key (version_of a) \<le> semver_key (version_of c) \<and>
     cn_origin (cg_connector a) = cn_origin (cg_connector c) \<and>
     cn_network_policy (cg_connector a) = cn_network_policy (cg_connector c) \<and>
     prefix (map without_unchecked_fields (map documented_relation (cn_relations (cg_connector a))))
            (map without_unchecked_fields (map documented_relation (cn_relations (cg_connector c))))"

lemma evolves_refl [simp]: "evolves a a"
  by (simp add: evolves_def)

lemma evolves_trans: "evolves a b \<Longrightarrow> evolves b c \<Longrightarrow> evolves a c"
  by (auto simp: evolves_def intro: order_trans prefix_order.trans)

lemma SameDescriptor_canonical:
  "SameDescriptor a c \<longleftrightarrow> comparable_descriptor a \<and> cn_origin a = cn_origin c \<and>
     cn_network_policy a = cn_network_policy c \<and>
     map canonical_relation (cn_relations a) = map canonical_relation (cn_relations c)"
  by (auto simp: SameDescriptor_def SameNetworkPolicy_eq relation.same_list comparable_descriptor_def)

lemma IsAppendOnlyDescriptor_canonical:
  "IsAppendOnlyDescriptor a c \<longleftrightarrow> comparable_descriptor a \<and> cn_origin a = cn_origin c \<and>
     cn_network_policy a = cn_network_policy c \<and>
     strict_prefix (map canonical_relation (cn_relations a)) (map canonical_relation (cn_relations c))"
proof -
  let ?f = "map canonical_relation"
  have "length xs < length ys \<and> ?f xs = ?f (take (length xs) ys) \<longleftrightarrow> strict_prefix (?f xs) (?f ys)" for xs ys
  proof
    assume "length xs < length ys \<and> ?f xs = ?f (take (length xs) ys)"
    then show "strict_prefix (?f xs) (?f ys)"
      by (metis length_map less_irrefl prefix_order.le_imp_less_or_eq take_is_prefix take_map)
  next
    assume s: "strict_prefix (?f xs) (?f ys)"
    then have "length xs < length ys" using prefix_length_less by fastforce
    moreover from s obtain zs where "?f ys = ?f xs @ zs" by (auto simp: strict_prefix_def prefix_def)
    then have "take (length xs) (?f ys) = ?f xs" by simp
    ultimately show "length xs < length ys \<and> ?f xs = ?f (take (length xs) ys)" by (simp add: take_map)
  qed
  then show ?thesis
    by (auto simp: IsAppendOnlyDescriptor_def SameNetworkPolicy_eq relation.same_list comparable_descriptor_def)
qed

lemma classified:
  assumes "valid_identity (cg_identity a)" and "valid_identity (cg_identity c)"
  shows "\<exists>d. ClassifyPackageReload a c = Inr d"
  using valid_identity_version [OF assms(1)] valid_identity_version [OF assms(2)]
  by (auto simp: ClassifyPackageReload_def Let_def)

lemma reload_accepted:
  assumes "valid_identity (cg_identity a)" and "valid_identity (cg_identity c)"
  shows "(\<exists>d. ClassifyPackageReload a c = Inr d \<and> IsCompatible d) \<longleftrightarrow>
     pi_spec_identifier (cg_identity a) = pi_spec_identifier (cg_identity c) \<and>
     pi_connector_id (cg_identity a) = pi_connector_id (cg_identity c) \<and>
     (semver_key (version_of a) = semver_key (version_of c) \<and>
        pi_package_digest (cg_identity a) = pi_package_digest (cg_identity c) \<and>
        SameDescriptor (cg_connector a) (cg_connector c) \<or>
      semver_key (version_of a) < semver_key (version_of c) \<and>
        sv_major (version_of a) = sv_major (version_of c) \<and>
        (SameDescriptor (cg_connector a) (cg_connector c) \<or>
         sv_minor (version_of a) < sv_minor (version_of c) \<and>
         IsAppendOnlyDescriptor (cg_connector a) (cg_connector c)))"
  using valid_identity_version [OF assms(1)] valid_identity_version [OF assms(2)]
  by (auto simp: ClassifyPackageReload_def Let_def IsCompatible_def CompareSemVer_order not_le)

lemma reload_evolves:
  assumes "valid_identity (cg_identity a)" and "valid_identity (cg_identity c)"
    and "ClassifyPackageReload a c = Inr d" and "IsCompatible d"
  shows "evolves a c"
proof -
  have "\<exists>d. ClassifyPackageReload a c = Inr d \<and> IsCompatible d" using assms(3,4) by blast
  then show ?thesis
    unfolding reload_accepted [OF assms(1,2)] SameDescriptor_canonical IsAppendOnlyDescriptor_canonical evolves_def
      canonical_relations [symmetric]
    by (auto simp: semver_key_def intro: order.strict_implies_order prefix_order.less_imp_le)
qed

lemma decision_handles:
  "ClassifyPackageReload a c = Inr d \<Longrightarrow> rd_active_generation d = cg_handle a \<and> rd_candidate_generation d = cg_handle c"
  by (auto simp: ClassifyPackageReload_def Let_def OpaqueHandle_def split: if_splits)


definition sample_generation :: "handle \<Rightarrow> string \<Rightarrow> CompiledRelation list \<Rightarrow> CompiledPackageGeneration" where
  "sample_generation h version relations =
     \<lparr>cg_handle = h,
      cg_identity = \<lparr>pi_spec_identifier = ''duckdb_api/v1'', pi_connector_id = ''demo'', pi_package_version = version,
        pi_package_digest = ''sha256.'' @ replicate 64 CHR ''0''\<rparr>,
      cg_connector = \<lparr>cn_origin = PACKAGE_COMPILED_METADATA, cn_connector_name = ''demo'', cn_version = version,
        cn_relations = relations,
        cn_network_policy = \<lparr>np_allowed_schemes = [''https''], np_allowed_hosts = [''example.org''],
          np_redirects_enabled = False, np_private_addresses_enabled = False,
          np_link_local_addresses_enabled = False, np_loopback_addresses_enabled = False,
          np_max_response_bytes = 1024, np_allowed_origins = []\<rparr>\<rparr>\<rparr>"

definition sample_relation :: "string \<Rightarrow> string \<Rightarrow> CompiledRelation" where
  "sample_relation name placement_name =
     \<lparr>cr_name = name, cr_columns = [], cr_inputs = [], cr_predicate_mappings = [], cr_operations = [],
      cr_authentication = \<lparr>ap_requirement = CREDENTIAL_REQUIRED, ap_logical_credential = ''key'',
        ap_authenticator = API_KEY_AUTHENTICATOR, ap_placement = HEADER_NAMED, ap_placement_name = placement_name,
        ap_destinations = []\<rparr>,
      cr_resource_ceilings = \<lparr>ce_has_response_byte_narrowing = False, ce_max_response_bytes_per_page = 0,
        ce_max_response_bytes_per_scan = 0, ce_max_records_per_page = 10, ce_max_records_per_scan = 10,
        ce_max_extracted_string_bytes = 10\<rparr>\<rparr>"


text \<open>
  The two fields the comparison leaves out, in whole reloads: a patch release that renames the header carrying the API
  key, and one that reads the next URL from another place of the response, are both compatible provenance patches,
  although their relations differ in documented fields.
\<close>

definition paging_relation :: "string \<Rightarrow> CompiledRelation" where
  "paging_relation next_url_path = (sample_relation ''r'' ''x'')
     \<lparr>cr_operations := [\<lparr>op_name = ''list'', op_fallback = True,
        op_selector = \<lparr>os_required_input_references = [], os_required_inputs = [], os_any_input_sets = [],
          os_forbidden_inputs = [], os_priority = 0, os_legacy_compatibility_bridge = False\<rparr>,
        co_cardinality = ZERO_TO_MANY,
        co_protocol_operation = RestOperation
          \<lparr>ro_method = GET_METHOD, ro_replay_safety = SAFE_REPLAY, ro_retry_enabled = False,
           ro_pagination = \<lparr>pg_strategy = PAGINATION_RESPONSE_NEXT_URL, pg_page_size_parameter = [], pg_page_size = 0,
             pg_page_number_parameter = ''page'', pg_first_page = 1, pg_page_increment = 1,
             pg_max_pages_per_scan = 5, pg_next_url_path = next_url_path\<rparr>,
           ro_request = \<lparr>rq_origin = \<lparr>ho_scheme = HTTPS_SCHEME, ho_host = ''example.org'', ho_port = 443\<rparr>,
             rq_path = ''/r'', rq_query_parameters = [], rq_headers = []\<rparr>,
           ro_response_source = JSON_PATH_MANY, ro_records_extractor = ''$.r'',
           ro_records_extractor_segments = [''r'']\<rparr>,
        co_replay_class = REPLAYABLE_READ,
        co_retry_recommendation = \<lparr>rr_max_attempts_per_step = 1, rr_max_delay_milliseconds = 0,
          rr_max_cumulative_waiting_milliseconds_per_scan = 0\<rparr>,
        co_rate_limit_policy = \<lparr>lp_declared = False, lp_mode = LIMIT_FAIL, lp_statuses = [], lp_operation_family = [],
          lp_scope = LIMIT_SHARED, lp_guidance = [], lp_remaining_quota_header = [], lp_remote_bucket_header = [],
          lp_max_attempts_per_step = 1, lp_max_delay_milliseconds = 0,
          lp_max_cumulative_waiting_milliseconds_per_scan = 0\<rparr>,
        co_rate_limit_policy_supported = False\<rparr>]\<rparr>"

lemma next_url_path_ignored:
  "map_sum id rd_classification
     (ClassifyPackageReload (sample_generation 1 ''1.0.0'' [paging_relation ''info.next''])
        (sample_generation 2 ''1.0.1'' [paging_relation ''other.next''])) =
   Inr COMPATIBLE_PROVENANCE_PATCH \<and>
   documented_relation (paging_relation ''info.next'') \<noteq> documented_relation (paging_relation ''other.next'')"
  by code_simp

lemma placement_name_ignored:
  "map_sum id rd_classification
     (ClassifyPackageReload (sample_generation 1 ''1.0.0'' [sample_relation ''r'' ''X-Api-Key''])
        (sample_generation 2 ''1.0.1'' [sample_relation ''r'' ''X-Other-Key''])) =
   Inr COMPATIBLE_PROVENANCE_PATCH \<and>
   documented_relation (sample_relation ''r'' ''X-Api-Key'') \<noteq> documented_relation (sample_relation ''r'' ''X-Other-Key'')"
  by code_simp

end
