(* ===== verification/Generation_Registry.thy ===== *)
theory Generation_Registry
  imports Package_Compatibility
begin

text \<open>
  The registry of active package generations: \<open>generation_snapshot.cpp\<close>, \<open>generation_publication.cpp\<close> and
  \<open>generation_registry.cpp\<close> under \<open>src/src/runtime/generation\<close>.

  Snapshots and owners are shared objects that the source compares by address, so each carries an
  address of its own that allocation takes from a counter of the state; a generation is named by the handle of
  its immutable state, and the argument \<open>heap\<close> of the definitions maps a handle to it. A stage
  call runs through the program points below; between two of them any other thread may run, within a
  point only data guarded by the publication mutex is touched. Cancellation may be observed at any check
  and is an argument of the step.
\<close>

subsection \<open>Owners, snapshots and errors\<close>

datatype RuntimeGenerationFailure = REGISTRY_CLOSING | STALE_BASE | INVALID_LOCAL_PACKAGE
  | CONNECTOR_ALREADY_ACTIVE | CONNECTOR_NOT_ACTIVE | RELOAD_DECISION_MISMATCH | RELOAD_REJECTED

datatype stage_error = GenerationError RuntimeGenerationFailure PackageReloadClassification
  | StageCancelled | InvalidStagedState

type_synonym generation_heap = "handle \<Rightarrow> CompiledPackageGeneration"

record local_package =
  pk_valid :: bool
  pk_generation :: handle

record RuntimeGenerationOwner =
  ow_address :: nat
  ow_package :: local_package

record RuntimeGenerationSnapshot =
  sn_address :: nat
  sn_generations :: "RuntimeGenerationOwner list"

definition owner_generation :: "generation_heap \<Rightarrow> RuntimeGenerationOwner \<Rightarrow> CompiledPackageGeneration" where
  "owner_generation heap w = heap (pk_generation (ow_package w))"

definition owner_id :: "generation_heap \<Rightarrow> RuntimeGenerationOwner \<Rightarrow> string" where
  "owner_id heap w = pi_connector_id (cg_identity (owner_generation heap w))"

definition GenerationErrorOf :: "RuntimeGenerationFailure \<Rightarrow> stage_error" where
  "GenerationErrorOf failure = GenerationError failure EXACT_NO_OP"

fun RejectedReloadCode :: "PackageReloadClassification \<Rightarrow> string" where
  "RejectedReloadCode REJECTED_PACKAGE_IDENTITY = ''DUCKDB_API_PACKAGE_IDENTITY''"
| "RejectedReloadCode INCOMPATIBLE_RELOAD = ''DUCKDB_API_INCOMPATIBLE_RELOAD''"
| "RejectedReloadCode _ = ''''"

fun HasConnectorDiagnostic :: "stage_error \<Rightarrow> bool" where
  "HasConnectorDiagnostic (GenerationError failure rejection) \<longleftrightarrow>
     failure = RELOAD_REJECTED \<and> RejectedReloadCode rejection \<noteq> ''''"
| "HasConnectorDiagnostic _ \<longleftrightarrow> False"

fun snapshot_find :: "generation_heap \<Rightarrow> string \<Rightarrow> RuntimeGenerationOwner list \<Rightarrow> RuntimeGenerationOwner option" where
  "snapshot_find heap connector_id [] = None"
| "snapshot_find heap connector_id (w # ws) =
     (if owner_id heap w = connector_id then Some w else snapshot_find heap connector_id ws)"

definition Find :: "generation_heap \<Rightarrow> RuntimeGenerationSnapshot \<Rightarrow> string \<Rightarrow> RuntimeGenerationOwner option" where
  "Find heap s connector_id = snapshot_find heap connector_id (sn_generations s)"

text \<open>
  \<open>std::lower_bound\<close> on a sorted vector finds the first element that is not smaller; the snapshots are
  shown to be sorted.
\<close>

fun insert_owner ::
    "generation_heap \<Rightarrow> RuntimeGenerationOwner \<Rightarrow> RuntimeGenerationOwner list \<Rightarrow> RuntimeGenerationOwner list" where
  "insert_owner heap candidate [] = [candidate]"
| "insert_owner heap candidate (w # ws) =
     (if owner_id heap w < owner_id heap candidate then w # insert_owner heap candidate ws
      else candidate # w # ws)"

definition LoadOwners ::
    "generation_heap \<Rightarrow> RuntimeGenerationSnapshot \<Rightarrow> RuntimeGenerationOwner \<Rightarrow> RuntimeGenerationOwner list" where
  "LoadOwners heap base candidate = insert_owner heap candidate (sn_generations base)"

fun replace_owner ::
    "generation_heap \<Rightarrow> RuntimeGenerationOwner \<Rightarrow> RuntimeGenerationOwner list \<Rightarrow>
     stage_error + RuntimeGenerationOwner list" where
  "replace_owner heap candidate [] = Inl (GenerationErrorOf CONNECTOR_NOT_ACTIVE)"
| "replace_owner heap candidate (w # ws) =
     (if owner_id heap w = owner_id heap candidate then Inr (candidate # ws)
      else and_then (replace_owner heap candidate ws) (\<lambda>rest. Inr (w # rest)))"

definition ReloadOwners ::
    "generation_heap \<Rightarrow> RuntimeGenerationSnapshot \<Rightarrow> RuntimeGenerationOwner \<Rightarrow>
     stage_error + RuntimeGenerationOwner list" where
  "ReloadOwners heap base candidate = replace_owner heap candidate (sn_generations base)"

subsection \<open>The state\<close>

datatype stage_call =
    LoadCall local_package "RuntimeGenerationSnapshot option"
  | ReloadCall local_package "RuntimeGenerationSnapshot option" PackageReloadDecision

text \<open>
  Where a stage call is: before a check of cancellation and closing, inside \<open>try_lock_for\<close>, after it got
  the mutex, or returned with a lease that is still pending.
\<close>

datatype stage_point = Checking stage_call | Waiting stage_call | Acquired stage_call
  | Leased RuntimeGenerationSnapshot

text \<open>
  The fields of \<open>RuntimeGenerationRegistryState\<close>, the stage calls in progress, and the memory: the next free
  address and the snapshots that were ever built, the only ones a caller can hold.
\<close>

record registry =
  rg_publication_mutex :: "nat option"
  rg_closing :: bool
  rg_waiting_stages :: u64
  rg_active :: "RuntimeGenerationSnapshot option"
  rg_threads :: "nat \<rightharpoonup> stage_point"
  rg_next_address :: nat
  rg_snapshots :: "RuntimeGenerationSnapshot list"

definition RuntimeGenerationRegistry :: registry where
  "RuntimeGenerationRegistry =
     \<lparr>rg_publication_mutex = None, rg_closing = False, rg_waiting_stages = 0,
      rg_active = Some \<lparr>sn_address = 0, sn_generations = []\<rparr>, rg_threads = Map.empty, rg_next_address = 1,
      rg_snapshots = [\<lparr>sn_address = 0, sn_generations = []\<rparr>]\<rparr>"

definition at_point :: "nat \<Rightarrow> stage_point option \<Rightarrow> registry \<Rightarrow> registry" where
  "at_point t p s = s\<lparr>rg_threads := (rg_threads s)(t := p)\<rparr>"

definition unlock :: "registry \<Rightarrow> registry" where
  "unlock s = s\<lparr>rg_publication_mutex := None\<rparr>"

subsection \<open>AcquireStage\<close>

definition check_open :: "bool \<Rightarrow> registry \<Rightarrow> stage_error + unit" where
  "check_open cancelled s =
     (if cancelled then Inl StageCancelled
      else if rg_closing s then Inl (GenerationErrorOf REGISTRY_CLOSING) else Inr ())"

text \<open>The checks before the first and before every further try; then the waiter is counted.\<close>

definition AcquireStage_check :: "nat \<Rightarrow> stage_call \<Rightarrow> bool \<Rightarrow> registry \<Rightarrow> (stage_error + unit) \<times> registry" where
  "AcquireStage_check t call cancelled s =
     (case check_open cancelled s of
        Inl e \<Rightarrow> (Inl e, at_point t None s)
      | Inr _ \<Rightarrow> (Inr (), at_point t (Some (Waiting call)) (s\<lparr>rg_waiting_stages := rg_waiting_stages s + 1\<rparr>)))"

definition AcquireStage_timeout :: "nat \<Rightarrow> stage_call \<Rightarrow> registry \<Rightarrow> registry" where
  "AcquireStage_timeout t call s =
     at_point t (Some (Checking call)) (s\<lparr>rg_waiting_stages := rg_waiting_stages s - 1\<rparr>)"

definition AcquireStage_acquired :: "nat \<Rightarrow> stage_call \<Rightarrow> registry \<Rightarrow> registry" where
  "AcquireStage_acquired t call s =
     at_point t (Some (Acquired call))
       (s\<lparr>rg_publication_mutex := Some t, rg_waiting_stages := rg_waiting_stages s - 1\<rparr>)"

subsection \<open>Staging\<close>

definition RequireCurrentBase ::
    "registry \<Rightarrow> RuntimeGenerationSnapshot option \<Rightarrow> stage_error + RuntimeGenerationSnapshot" where
  "RequireCurrentBase s base =
     (case base of
        None \<Rightarrow> Inl (GenerationErrorOf STALE_BASE)
      | Some b \<Rightarrow> if map_option sn_address (rg_active s) \<noteq> Some (sn_address b)
                  then Inl (GenerationErrorOf STALE_BASE) else Inr b)"

text \<open>
  A staged generation: the owner, the target snapshot, and the lease of a changed one. The
  constructor checks that the target has the owner.
\<close>

record RuntimeStagedGeneration =
  st_owner :: RuntimeGenerationOwner
  st_target_snapshot :: RuntimeGenerationSnapshot
  st_changed :: bool

definition StagedGeneration ::
    "generation_heap \<Rightarrow> RuntimeGenerationOwner \<Rightarrow> RuntimeGenerationSnapshot \<Rightarrow> bool \<Rightarrow>
     stage_error + RuntimeStagedGeneration" where
  "StagedGeneration heap w target changed =
     (if map_option ow_address (Find heap target (owner_id heap w)) \<noteq> Some (ow_address w)
      then Inl InvalidStagedState
      else Inr \<lparr>st_owner = w, st_target_snapshot = target, st_changed = changed\<rparr>)"

definition new_owner :: "local_package \<Rightarrow> registry \<Rightarrow> RuntimeGenerationOwner" where
  "new_owner candidate s = \<lparr>ow_address = rg_next_address s, ow_package = candidate\<rparr>"

definition new_snapshot :: "RuntimeGenerationOwner list \<Rightarrow> registry \<Rightarrow> RuntimeGenerationSnapshot" where
  "new_snapshot ws s = \<lparr>sn_address = rg_next_address s + 1, sn_generations = ws\<rparr>"

definition StageLoad ::
    "generation_heap \<Rightarrow> local_package \<Rightarrow> RuntimeGenerationSnapshot option \<Rightarrow> bool \<Rightarrow> bool \<Rightarrow> registry \<Rightarrow>
     stage_error + RuntimeStagedGeneration" where
  "StageLoad heap candidate base cancelled cancelled_late s =
     and_then (check_open cancelled s) (\<lambda>_.
     and_then (RequireCurrentBase s base) (\<lambda>base.
       if \<not> pk_valid candidate then Inl (GenerationErrorOf INVALID_LOCAL_PACKAGE)
       else if Find heap base (pi_connector_id (cg_identity (heap (pk_generation candidate)))) \<noteq> None
       then Inl (GenerationErrorOf CONNECTOR_ALREADY_ACTIVE)
       else let w = new_owner candidate s; target = new_snapshot (LoadOwners heap base w) s in
         if cancelled_late then Inl StageCancelled
         else StagedGeneration heap w target True))"

definition StageReload ::
    "generation_heap \<Rightarrow> local_package \<Rightarrow> RuntimeGenerationSnapshot option \<Rightarrow> PackageReloadDecision \<Rightarrow>
     bool \<Rightarrow> bool \<Rightarrow> bool \<Rightarrow> registry \<Rightarrow> stage_error + RuntimeStagedGeneration" where
  "StageReload heap candidate base decision cancelled cancelled_mid cancelled_late s =
     and_then (check_open cancelled s) (\<lambda>_.
     and_then (RequireCurrentBase s base) (\<lambda>base.
       if \<not> pk_valid candidate then Inl (GenerationErrorOf INVALID_LOCAL_PACKAGE)
       else
        (let candidate_generation = heap (pk_generation candidate);
             connector_id = pi_connector_id (cg_identity candidate_generation) in
         case Find heap base connector_id of
           None \<Rightarrow> Inl (GenerationErrorOf CONNECTOR_NOT_ACTIVE)
         | Some active \<Rightarrow>
             if rd_connector_id decision \<noteq> connector_id \<or>
                \<not> decision_Matches decision (OpaqueHandle (owner_generation heap active))
                     (OpaqueHandle candidate_generation)
             then Inl (GenerationErrorOf RELOAD_DECISION_MISMATCH)
             else if \<not> IsCompatible decision
             then Inl (GenerationError RELOAD_REJECTED (rd_classification decision))
             else if cancelled_mid then Inl StageCancelled
             else if \<not> decision_Changed decision then StagedGeneration heap active base False
             else let w = new_owner candidate s in
               and_then (ReloadOwners heap base w) (\<lambda>ws.
                 if cancelled_late then Inl StageCancelled
                 else StagedGeneration heap w (new_snapshot ws s) True))))"

text \<open>
  The end of a stage call: an exception and an unchanged result release the mutex, a changed result keeps it
  with the lease.
\<close>

definition finish_stage :: "nat \<Rightarrow> stage_error + RuntimeStagedGeneration \<Rightarrow> registry \<Rightarrow> registry" where
  "finish_stage t result s =
     (let s' = s\<lparr>rg_next_address := rg_next_address s + 2\<rparr> in
      case result of
        Inl _ \<Rightarrow> at_point t None (unlock s')
      | Inr staged \<Rightarrow>
          if st_changed staged
          then at_point t (Some (Leased (st_target_snapshot staged)))
                 (s'\<lparr>rg_snapshots := st_target_snapshot staged # rg_snapshots s\<rparr>)
          else at_point t None (unlock s'))"

definition run_stage :: "generation_heap \<Rightarrow> nat \<Rightarrow> stage_call \<Rightarrow> bool \<Rightarrow> bool \<Rightarrow> bool \<Rightarrow> registry \<Rightarrow> registry" where
  "run_stage heap t call cancelled cancelled_mid cancelled_late s =
     finish_stage t
       (case call of
          LoadCall candidate base \<Rightarrow> StageLoad heap candidate base cancelled cancelled_late s
        | ReloadCall candidate base decision \<Rightarrow>
            StageReload heap candidate base decision cancelled cancelled_mid cancelled_late s) s"

subsection \<open>Publication and close\<close>

definition CommitLease :: "nat \<Rightarrow> RuntimeGenerationSnapshot \<Rightarrow> registry \<Rightarrow> registry" where
  "CommitLease t target s = at_point t None (unlock (s\<lparr>rg_active := Some target\<rparr>))"

definition DiscardLease :: "nat \<Rightarrow> registry \<Rightarrow> registry" where
  "DiscardLease t s = at_point t None (unlock s)"

definition Close_begin :: "registry \<Rightarrow> registry" where
  "Close_begin s = s\<lparr>rg_closing := True\<rparr>"

definition Close_finish :: "registry \<Rightarrow> registry" where
  "Close_finish s = s\<lparr>rg_active := None\<rparr>"

text \<open>A snapshot call reads the closing flag, the active snapshot and the flag again, each in its own state.\<close>

definition Snapshot :: "registry \<Rightarrow> registry \<Rightarrow> registry \<Rightarrow> stage_error + RuntimeGenerationSnapshot" where
  "Snapshot s1 s2 s3 =
     (if rg_closing s1 then Inl (GenerationErrorOf REGISTRY_CLOSING)
      else case rg_active s2 of
          None \<Rightarrow> Inl (GenerationErrorOf REGISTRY_CLOSING)
        | Some active \<Rightarrow> if rg_closing s3 then Inl (GenerationErrorOf REGISTRY_CLOSING) else Inr active)"

definition IsClosing :: "registry \<Rightarrow> bool" where
  "IsClosing s \<longleftrightarrow> rg_closing s"

definition WaitingStages :: "registry \<Rightarrow> u64" where
  "WaitingStages s = rg_waiting_stages s"

subsection \<open>Interleavings\<close>

text \<open>
  What callers may pass: a base they hold, and a decision that the classification made for some
  pair of generations (its constructor is private).
\<close>

definition held :: "registry \<Rightarrow> RuntimeGenerationSnapshot option \<Rightarrow> bool" where
  "held s base \<longleftrightarrow> (case base of None \<Rightarrow> True | Some b \<Rightarrow> b \<in> set (rg_snapshots s))"

definition genuine :: "generation_heap \<Rightarrow> PackageReloadDecision \<Rightarrow> bool" where
  "genuine heap d \<longleftrightarrow> (\<exists>active candidate. ClassifyPackageReload (heap active) (heap candidate) = Inr d)"

fun admissible :: "generation_heap \<Rightarrow> registry \<Rightarrow> stage_call \<Rightarrow> bool" where
  "admissible heap s (LoadCall candidate base) \<longleftrightarrow> held s base"
| "admissible heap s (ReloadCall candidate base decision) \<longleftrightarrow> held s base \<and> genuine heap decision"

inductive registry_step :: "generation_heap \<Rightarrow> registry \<Rightarrow> registry \<Rightarrow> bool" for heap where
  stage_begins: "rg_threads s t = None \<Longrightarrow> admissible heap s call \<Longrightarrow>
    registry_step heap s (at_point t (Some (Checking call)) s)"
| stage_checks: "rg_threads s t = Some (Checking call) \<Longrightarrow>
    registry_step heap s (snd (AcquireStage_check t call cancelled s))"
| stage_times_out: "rg_threads s t = Some (Waiting call) \<Longrightarrow>
    registry_step heap s (AcquireStage_timeout t call s)"
| stage_acquires: "rg_threads s t = Some (Waiting call) \<Longrightarrow> rg_publication_mutex s = None \<Longrightarrow>
    registry_step heap s (AcquireStage_acquired t call s)"
| stage_runs: "rg_threads s t = Some (Acquired call) \<Longrightarrow>
    registry_step heap s (run_stage heap t call cancelled cancelled_mid cancelled_late s)"
| lease_commits: "rg_threads s t = Some (Leased target) \<Longrightarrow> registry_step heap s (CommitLease t target s)"
| lease_discards: "rg_threads s t = Some (Leased target) \<Longrightarrow> registry_step heap s (DiscardLease t s)"
| close_begins: "registry_step heap s (Close_begin s)"
| close_finishes: "rg_closing s \<Longrightarrow> rg_publication_mutex s = None \<Longrightarrow> registry_step heap s (Close_finish s)"

text \<open>Handles name the states they point to, and every state was let through by the constructor of identities.\<close>

definition wf_heap :: "generation_heap \<Rightarrow> bool" where
  "wf_heap heap \<longleftrightarrow> (\<forall>h. cg_handle (heap h) = h \<and> valid_identity (cg_identity (heap h)))"

subsection \<open>Owners of a snapshot\<close>

definition ids :: "generation_heap \<Rightarrow> RuntimeGenerationOwner list \<Rightarrow> string list" where
  "ids heap ws = map (owner_id heap) ws"

lemma snapshot_find_None: "snapshot_find heap i ws = None \<longleftrightarrow> i \<notin> set (ids heap ws)"
  by (induction ws) (auto simp: ids_def)

lemma snapshot_find_Some: "snapshot_find heap i ws = Some w \<Longrightarrow> w \<in> set ws \<and> owner_id heap w = i"
  by (induction ws) (auto split: if_splits)

lemma set_insert_owner: "set (insert_owner heap w ws) = insert w (set ws)"
  by (induction ws) auto

lemma insert_owner_sorted:
  "sorted_wrt (<) (ids heap ws) \<Longrightarrow> owner_id heap w \<notin> set (ids heap ws) \<Longrightarrow>
   sorted_wrt (<) (ids heap (insert_owner heap w ws))"
proof (induction ws)
  case (Cons v ws)
  then show ?case
    by (auto simp: ids_def set_insert_owner dest: not_less_iff_gr_or_eq [THEN iffD1] intro: less_trans)
qed (simp add: ids_def)

lemma replace_owner_Inr:
  "replace_owner heap w ws = Inr vs \<Longrightarrow> snapshot_find heap (owner_id heap w) ws = Some v \<Longrightarrow>
   \<exists>us zs. ws = us @ v # zs \<and> vs = us @ w # zs \<and> owner_id heap v = owner_id heap w"
proof (induction ws arbitrary: vs)
  case (Cons x ws)
  show ?case
  proof (cases "owner_id heap x = owner_id heap w")
    case True
    then show ?thesis using Cons.prems by (intro exI [of _ "[]"] exI [of _ ws]) auto
  next
    case False
    then obtain rest where r: "replace_owner heap w ws = Inr rest" "vs = x # rest" using Cons.prems by auto
    then obtain us zs where "ws = us @ v # zs" "rest = us @ w # zs" "owner_id heap v = owner_id heap w"
      using Cons.IH [OF r(1)] Cons.prems(2) False by auto
    then show ?thesis using r by (intro exI [of _ "x # us"] exI [of _ zs]) auto
  qed
qed simp

text \<open>One snapshot succeeds another: one connector is loaded, or one is replaced by a generation that may follow it.\<close>

definition loads :: "generation_heap \<Rightarrow> RuntimeGenerationOwner list \<Rightarrow> RuntimeGenerationOwner list \<Rightarrow> bool" where
  "loads heap ws vs \<longleftrightarrow> (\<exists>w. owner_id heap w \<notin> set (ids heap ws) \<and> vs = insert_owner heap w ws)"

definition reloads :: "generation_heap \<Rightarrow> RuntimeGenerationOwner list \<Rightarrow> RuntimeGenerationOwner list \<Rightarrow> bool" where
  "reloads heap ws vs \<longleftrightarrow>
     (\<exists>us v w zs. ws = us @ v # zs \<and> vs = us @ w # zs \<and> owner_id heap v = owner_id heap w \<and>
        evolves (owner_generation heap v) (owner_generation heap w))"

definition successor :: "generation_heap \<Rightarrow> RuntimeGenerationSnapshot \<Rightarrow> RuntimeGenerationSnapshot \<Rightarrow> bool" where
  "successor heap b c \<longleftrightarrow>
     loads heap (sn_generations b) (sn_generations c) \<or> reloads heap (sn_generations b) (sn_generations c)"

lemma successor_sorted:
  "successor heap b c \<Longrightarrow> sorted_wrt (<) (ids heap (sn_generations b)) \<Longrightarrow> sorted_wrt (<) (ids heap (sn_generations c))"
  by (auto simp: successor_def loads_def reloads_def insert_owner_sorted)
    (auto simp: ids_def)

lemma successor_evolves:
  "successor heap b c \<Longrightarrow> v \<in> set (sn_generations b) \<Longrightarrow>
   \<exists>w\<in>set (sn_generations c). evolves (owner_generation heap v) (owner_generation heap w)"
  unfolding successor_def loads_def reloads_def by (auto simp: set_insert_owner) (use evolves_refl in blast)+

subsection \<open>Staging builds a successor of the active snapshot\<close>

lemma check_open_Inr [simp]: "check_open cancelled s = Inr u \<longleftrightarrow> \<not> cancelled \<and> \<not> rg_closing s"
  by (auto simp: check_open_def)

lemma new_owner_simps [simp]:
  "owner_generation heap (new_owner candidate s) = heap (pk_generation candidate)"
  "owner_id heap (new_owner candidate s) = pi_connector_id (cg_identity (heap (pk_generation candidate)))"
  by (simp_all add: owner_generation_def owner_id_def new_owner_def)

lemma LoadOwners_successor:
  "owner_id heap w \<notin> set (ids heap (sn_generations b)) \<Longrightarrow> successor heap b (new_snapshot (LoadOwners heap b w) s)"
  by (auto simp: successor_def loads_def new_snapshot_def LoadOwners_def)

lemma StageLoad_successor:
  assumes "StageLoad heap candidate base cancelled late s = Inr staged"
  shows "\<not> rg_closing s \<and> st_changed staged \<and> sn_address (st_target_snapshot staged) = rg_next_address s + 1 \<and>
    (\<exists>b. base = Some b \<and> map_option sn_address (rg_active s) = Some (sn_address b) \<and>
       successor heap b (st_target_snapshot staged))"
proof -
  let ?w = "new_owner candidate s"
  from assms obtain b where b: "base = Some b" "\<not> rg_closing s"
    "map_option sn_address (rg_active s) = Some (sn_address b)"
    "owner_id heap ?w \<notin> set (ids heap (sn_generations b))"
    "staged = \<lparr>st_owner = ?w, st_target_snapshot = new_snapshot (LoadOwners heap b ?w) s, st_changed = True\<rparr>"
    by (auto simp: StageLoad_def RequireCurrentBase_def StagedGeneration_def Let_def Find_def snapshot_find_None
        split: if_splits option.splits)
  then show ?thesis using LoadOwners_successor [OF b(4)] by (simp add: new_snapshot_def)
qed

lemma StageReload_successor:
  assumes "StageReload heap candidate base d cancelled mid late s = Inr staged"
    and "wf_heap heap" and "genuine heap d"
  shows "\<not> rg_closing s \<and> (st_changed staged \<longrightarrow> sn_address (st_target_snapshot staged) = rg_next_address s + 1 \<and>
    (\<exists>b. base = Some b \<and> map_option sn_address (rg_active s) = Some (sn_address b) \<and>
       successor heap b (st_target_snapshot staged)))"
proof -
  let ?g = "heap (pk_generation candidate)"
  let ?w = "new_owner candidate s"
  obtain b active where b: "base = Some b" "\<not> rg_closing s" "map_option sn_address (rg_active s) = Some (sn_address b)"
    and f: "snapshot_find heap (owner_id heap ?w) (sn_generations b) = Some active"
    and m: "decision_Matches d (OpaqueHandle (owner_generation heap active)) (OpaqueHandle ?g)" "IsCompatible d"
    and r: "st_changed staged \<Longrightarrow> \<exists>ws. replace_owner heap ?w (sn_generations b) = Inr ws \<and>
      st_target_snapshot staged = new_snapshot ws s"
    using assms(1)
    by (auto simp: StageReload_def RequireCurrentBase_def Let_def Find_def ReloadOwners_def StagedGeneration_def
        split: if_splits option.splits)
  have "evolves (owner_generation heap active) ?g"
  proof -
    obtain ha hc where c: "ClassifyPackageReload (heap ha) (heap hc) = Inr d" using assms(3) by (auto simp: genuine_def)
    have "heap ha = owner_generation heap active" "heap hc = ?g"
      using decision_handles [OF c] m(1) assms(2)
      by (auto simp: decision_Matches_def IsSameGeneration_def OpaqueHandle_def wf_heap_def owner_generation_def)
    moreover have "evolves (heap ha) (heap hc)"
      by (rule reload_evolves [OF _ _ c m(2)]) (use assms(2) in \<open>simp_all add: wf_heap_def\<close>)
    ultimately show ?thesis by simp
  qed
  then have "successor heap b (new_snapshot ws s)" if "replace_owner heap ?w (sn_generations b) = Inr ws" for ws
    using replace_owner_Inr [OF that f] unfolding successor_def reloads_def new_snapshot_def
    by (auto intro!: exI)
  then show ?thesis using b r by (auto simp: new_snapshot_def)
qed

subsection \<open>The invariant\<close>

definition holds_mutex :: "stage_point \<Rightarrow> bool" where
  "holds_mutex p \<longleftrightarrow> (case p of Acquired _ \<Rightarrow> True | Leased _ \<Rightarrow> True | _ \<Rightarrow> False)"

definition waits :: "stage_point \<Rightarrow> bool" where
  "waits p \<longleftrightarrow> (case p of Waiting _ \<Rightarrow> True | _ \<Rightarrow> False)"

fun point_ok :: "generation_heap \<Rightarrow> registry \<Rightarrow> stage_point \<Rightarrow> bool" where
  "point_ok heap s (Checking call) \<longleftrightarrow> admissible heap s call"
| "point_ok heap s (Waiting call) \<longleftrightarrow> admissible heap s call"
| "point_ok heap s (Acquired call) \<longleftrightarrow> admissible heap s call"
| "point_ok heap s (Leased target) \<longleftrightarrow>
     target \<in> set (rg_snapshots s) \<and> (\<exists>b. rg_active s = Some b \<and> successor heap b target)"

definition memory_ok :: "generation_heap \<Rightarrow> registry \<Rightarrow> bool" where
  "memory_ok heap s \<longleftrightarrow>
     inj_on sn_address (set (rg_snapshots s)) \<and>
     (\<forall>b\<in>set (rg_snapshots s). sn_address b < rg_next_address s \<and> sorted_wrt (<) (ids heap (sn_generations b))) \<and>
     (\<forall>b. rg_active s = Some b \<longrightarrow> b \<in> set (rg_snapshots s))"

definition mutex_ok :: "registry \<Rightarrow> bool" where
  "mutex_ok s \<longleftrightarrow> (\<forall>t. rg_publication_mutex s = Some t \<longleftrightarrow> (\<exists>p. rg_threads s t = Some p \<and> holds_mutex p))"

definition waiters :: "registry \<Rightarrow> nat set" where
  "waiters s = {t. \<exists>p. rg_threads s t = Some p \<and> waits p}"

definition count_ok :: "registry \<Rightarrow> bool" where
  "count_ok s \<longleftrightarrow> finite (dom (rg_threads s)) \<and> rg_waiting_stages s = of_nat (card (waiters s))"

definition registry_ok :: "generation_heap \<Rightarrow> registry \<Rightarrow> bool" where
  "registry_ok heap s \<longleftrightarrow> memory_ok heap s \<and> mutex_ok s \<and> count_ok s \<and>
     (\<forall>t p. rg_threads s t = Some p \<longrightarrow> point_ok heap s p)"

lemma registry_ok_initial: "registry_ok heap RuntimeGenerationRegistry"
  by (simp add: registry_ok_def memory_ok_def mutex_ok_def count_ok_def waiters_def RuntimeGenerationRegistry_def ids_def)

lemma at_point_simps [simp]:
  "rg_publication_mutex (at_point t p s) = rg_publication_mutex s"
  "rg_closing (at_point t p s) = rg_closing s"
  "rg_waiting_stages (at_point t p s) = rg_waiting_stages s"
  "rg_active (at_point t p s) = rg_active s"
  "rg_threads (at_point t p s) = (rg_threads s)(t := p)"
  "rg_next_address (at_point t p s) = rg_next_address s"
  "rg_snapshots (at_point t p s) = rg_snapshots s"
  by (simp_all add: at_point_def)

lemma unlock_simps [simp]:
  "rg_publication_mutex (unlock s) = None"
  "rg_closing (unlock s) = rg_closing s"
  "rg_waiting_stages (unlock s) = rg_waiting_stages s"
  "rg_active (unlock s) = rg_active s"
  "rg_threads (unlock s) = rg_threads s"
  "rg_next_address (unlock s) = rg_next_address s"
  "rg_snapshots (unlock s) = rg_snapshots s"
  by (simp_all add: unlock_def)

lemma admissible_cong: "rg_snapshots s = rg_snapshots s' \<Longrightarrow> admissible heap s call = admissible heap s' call"
  by (cases call) (simp_all add: held_def split: option.splits)

lemma admissible_mono:
  "admissible heap s call \<Longrightarrow> set (rg_snapshots s) \<subseteq> set (rg_snapshots s') \<Longrightarrow> admissible heap s' call"
  by (cases call) (auto simp: held_def split: option.splits)

lemma point_ok_mono:
  "point_ok heap s p \<Longrightarrow> set (rg_snapshots s) \<subseteq> set (rg_snapshots s') \<Longrightarrow> rg_active s' = rg_active s \<Longrightarrow>
   point_ok heap s' p"
  by (cases p) (auto intro: admissible_mono)

text \<open>At most one thread is past the mutex, so the point of any other thread stays fine when the active snapshot changes.\<close>

lemma point_ok_waiting:
  "point_ok heap s p \<Longrightarrow> \<not> holds_mutex p \<Longrightarrow> rg_snapshots s = rg_snapshots s' \<Longrightarrow> point_ok heap s' p"
  by (cases p) (auto simp: holds_mutex_def cong: admissible_cong)

lemma mutex_unique:
  "mutex_ok s \<Longrightarrow> rg_threads s t = Some p \<Longrightarrow> holds_mutex p \<Longrightarrow> rg_threads s u = Some q \<Longrightarrow> holds_mutex q \<Longrightarrow> u = t"
  unfolding mutex_ok_def by (metis option.inject)

lemma waiters_update:
  "waiters (at_point t p s) = (if \<exists>q. p = Some q \<and> waits q then insert t (waiters s) else waiters s - {t})"
  by (auto simp: waiters_def)

lemma waiters_cong: "rg_threads s = rg_threads s' \<Longrightarrow> waiters s = waiters s'"
  by (simp add: waiters_def)

lemma finite_waiters: "count_ok s \<Longrightarrow> finite (waiters s)"
  unfolding count_ok_def waiters_def by (auto elim: finite_subset [rotated])

lemma count_ok_enter:
  assumes "count_ok s" and "t \<notin> waiters s" and "waits p" and "rg_threads s' = (rg_threads s)(t \<mapsto> p)"
    and "rg_waiting_stages s' = rg_waiting_stages s + 1"
  shows "count_ok s'"
proof -
  have "waiters s' = insert t (waiters s)" using assms(3,4) by (auto simp: waiters_def)
  then show ?thesis using assms finite_waiters [OF assms(1)] by (simp add: count_ok_def)
qed

lemma count_ok_leave:
  assumes "count_ok s" and "t \<in> waiters s" and "\<not> waits p" and "rg_threads s' = (rg_threads s)(t \<mapsto> p)"
    and "rg_waiting_stages s' = rg_waiting_stages s - 1"
  shows "count_ok s'"
proof -
  have "waiters s' = waiters s - {t}" using assms(3,4) by (auto simp: waiters_def)
  moreover have "card (waiters s) = Suc (card (waiters s - {t}))"
    by (rule card.remove [OF finite_waiters [OF assms(1)] assms(2)])
  ultimately have "rg_waiting_stages s' = of_nat (card (waiters s'))"
    using assms(1,5) by (simp add: count_ok_def)
  then show ?thesis using assms(1,4) by (simp add: count_ok_def)
qed

lemma count_ok_same:
  assumes "count_ok s" and "t \<notin> waiters s" and "\<And>q. p = Some q \<Longrightarrow> \<not> waits q"
    and "rg_threads s' = (rg_threads s)(t := p)" and "rg_waiting_stages s' = rg_waiting_stages s"
  shows "count_ok s'"
proof -
  have "waiters s' = waiters s" using assms(2,3,4) by (auto simp: waiters_def)
  moreover have "finite (dom (rg_threads s'))" using assms(1,4) by (cases p) (auto simp: count_ok_def)
  ultimately show ?thesis using assms by (simp add: count_ok_def)
qed

lemma memory_ok_cong:
  "memory_ok heap s \<Longrightarrow> rg_snapshots s' = rg_snapshots s \<Longrightarrow> rg_active s' = rg_active s \<Longrightarrow>
   rg_next_address s \<le> rg_next_address s' \<Longrightarrow> memory_ok heap s'"
  by (fastforce simp: memory_ok_def)

lemma mutex_ok_same:
  "mutex_ok s \<Longrightarrow> rg_publication_mutex s' = rg_publication_mutex s \<Longrightarrow> rg_threads s' = (rg_threads s)(t := p) \<Longrightarrow>
   (\<exists>q. rg_threads s t = Some q \<and> holds_mutex q) \<longleftrightarrow> (\<exists>q. p = Some q \<and> holds_mutex q) \<Longrightarrow> mutex_ok s'"
  unfolding mutex_ok_def by auto

lemma mutex_ok_release:
  assumes "mutex_ok s" and "rg_threads s t = Some p" and "holds_mutex p"
    and "rg_publication_mutex s' = None" and "rg_threads s' = (rg_threads s)(t := None)"
  shows "mutex_ok s'"
proof -
  have "rg_threads s u = Some q \<Longrightarrow> holds_mutex q \<Longrightarrow> u = t" for u q by (rule mutex_unique [OF assms(1,2,3)])
  then show ?thesis using assms(4,5) unfolding mutex_ok_def by (metis fun_upd_apply option.distinct(1))
qed

text \<open>A step that moves one thread and leaves the memory alone.\<close>

lemma registry_ok_move:
  assumes "registry_ok heap s" and "rg_threads s' = (rg_threads s)(t := p)" and "rg_snapshots s' = rg_snapshots s"
    and "rg_active s' = rg_active s" and "rg_next_address s' \<ge> rg_next_address s" and "mutex_ok s'" and "count_ok s'"
    and "\<And>q. p = Some q \<Longrightarrow> point_ok heap s q"
  shows "registry_ok heap s'"
proof -
  have "point_ok heap s' q" if "rg_threads s' u = Some q" for u q
  proof -
    have "point_ok heap s q" using that assms(1,2,8) by (auto simp: registry_ok_def split: if_splits)
    then show ?thesis by (rule point_ok_mono) (simp_all add: assms(3,4))
  qed
  then show ?thesis using assms memory_ok_cong [of heap s s'] by (simp add: registry_ok_def)
qed

lemma not_waiting: "rg_threads s t = Some p \<Longrightarrow> \<not> waits p \<Longrightarrow> t \<notin> waiters s"
  by (simp add: waiters_def)

lemma point_simps [simp]:
  "\<not> waits (Checking call)" "waits (Waiting call)" "\<not> waits (Acquired call)" "\<not> waits (Leased target)"
  "\<not> holds_mutex (Checking call)" "\<not> holds_mutex (Waiting call)" "holds_mutex (Acquired call)"
  "holds_mutex (Leased target)"
  by (simp_all add: waits_def holds_mutex_def)

lemma registry_okD:
  assumes "registry_ok heap s"
  shows "memory_ok heap s" "mutex_ok s" "count_ok s" "rg_threads s t = Some p \<Longrightarrow> point_ok heap s p"
  using assms by (auto simp: registry_ok_def)

lemma begin_ok:
  assumes ok: "registry_ok heap s" and t: "rg_threads s t = None" and a: "admissible heap s call"
  shows "registry_ok heap (at_point t (Some (Checking call)) s)"
proof (rule registry_ok_move [OF ok, where t = t and p = "Some (Checking call)"])
  show "mutex_ok (at_point t (Some (Checking call)) s)"
    by (rule mutex_ok_same [OF registry_okD(2) [OF ok], where t = t and p = "Some (Checking call)"]) (simp_all add: t)
  have "t \<notin> waiters s" using t by (simp add: waiters_def)
  then show "count_ok (at_point t (Some (Checking call)) s)"
    by (rule count_ok_same [OF registry_okD(3) [OF ok], where t = t]) simp_all
qed (simp_all add: a)

lemma check_ok:
  assumes ok: "registry_ok heap s" and t: "rg_threads s t = Some (Checking call)"
  shows "registry_ok heap (snd (AcquireStage_check t call cancelled s))"
proof (cases "check_open cancelled s")
  case (Inl e)
  have "registry_ok heap (at_point t None s)"
  proof (rule registry_ok_move [OF ok, where t = t and p = None])
    show "mutex_ok (at_point t None s)"
      by (rule mutex_ok_same [OF registry_okD(2) [OF ok], where t = t and p = None]) (simp_all add: t)
    show "count_ok (at_point t None s)"
      by (rule count_ok_same [OF registry_okD(3) [OF ok] not_waiting [OF t]]) simp_all
  qed simp_all
  then show ?thesis using Inl by (simp add: AcquireStage_check_def)
next
  case (Inr u)
  let ?s = "at_point t (Some (Waiting call)) (s\<lparr>rg_waiting_stages := rg_waiting_stages s + 1\<rparr>)"
  have "registry_ok heap ?s"
  proof (rule registry_ok_move [OF ok, where t = t and p = "Some (Waiting call)"])
    show "mutex_ok ?s"
      by (rule mutex_ok_same [OF registry_okD(2) [OF ok], where t = t and p = "Some (Waiting call)"]) (simp_all add: t)
    show "count_ok ?s" by (rule count_ok_enter [OF registry_okD(3) [OF ok] not_waiting [OF t]]) simp_all
  qed (use registry_okD(4) [OF ok t] in simp_all)
  then show ?thesis unfolding AcquireStage_check_def Inr by simp
qed

lemma timeout_ok:
  assumes ok: "registry_ok heap s" and t: "rg_threads s t = Some (Waiting call)"
  shows "registry_ok heap (AcquireStage_timeout t call s)"
proof (rule registry_ok_move [OF ok, where t = t and p = "Some (Checking call)"])
  show "mutex_ok (AcquireStage_timeout t call s)"
    by (rule mutex_ok_same [OF registry_okD(2) [OF ok], where t = t and p = "Some (Checking call)"])
      (simp_all add: t AcquireStage_timeout_def)
  have "t \<in> waiters s" using t by (simp add: waiters_def)
  then show "count_ok (AcquireStage_timeout t call s)"
    by (rule count_ok_leave [OF registry_okD(3) [OF ok]]) (simp_all add: AcquireStage_timeout_def)
qed (use registry_okD(4) [OF ok t] in \<open>simp_all add: AcquireStage_timeout_def\<close>)

lemma acquire_ok:
  assumes ok: "registry_ok heap s" and t: "rg_threads s t = Some (Waiting call)" and free: "rg_publication_mutex s = None"
  shows "registry_ok heap (AcquireStage_acquired t call s)"
proof (rule registry_ok_move [OF ok, where t = t and p = "Some (Acquired call)"])
  have "\<not> holds_mutex p" if "rg_threads s u = Some p" for u p
    using registry_okD(2) [OF ok] free that unfolding mutex_ok_def by (metis option.distinct(1))
  then show "mutex_ok (AcquireStage_acquired t call s)"
    by (auto simp: mutex_ok_def AcquireStage_acquired_def)
  have "t \<in> waiters s" using t by (simp add: waiters_def)
  then show "count_ok (AcquireStage_acquired t call s)"
    by (rule count_ok_leave [OF registry_okD(3) [OF ok]]) (simp_all add: AcquireStage_acquired_def)
qed (use registry_okD(4) [OF ok t] in \<open>simp_all add: AcquireStage_acquired_def\<close>)

text \<open>A thread that gives the mutex back and leaves.\<close>

lemma release_ok:
  assumes ok: "registry_ok heap s" and t: "rg_threads s t = Some p" and h: "holds_mutex p"
  shows "registry_ok heap (at_point t None (unlock (s\<lparr>rg_next_address := rg_next_address s + n\<rparr>)))"
proof -
  have w: "\<not> waits p" using h by (cases p) simp_all
  show ?thesis
  proof (rule registry_ok_move [OF ok, where t = t and p = None])
    show "mutex_ok (at_point t None (unlock (s\<lparr>rg_next_address := rg_next_address s + n\<rparr>)))"
      by (rule mutex_ok_release [OF registry_okD(2) [OF ok] t h]) simp_all
    show "count_ok (at_point t None (unlock (s\<lparr>rg_next_address := rg_next_address s + n\<rparr>)))"
      by (rule count_ok_same [OF registry_okD(3) [OF ok] not_waiting [OF t w]]) simp_all
  qed simp_all
qed

lemma discard_ok:
  assumes "registry_ok heap s" and "rg_threads s t = Some (Leased target)"
  shows "registry_ok heap (DiscardLease t s)"
  using release_ok [OF assms, of 0] by (simp add: DiscardLease_def)

lemma commit_ok:
  assumes ok: "registry_ok heap s" and t: "rg_threads s t = Some (Leased target)"
  shows "registry_ok heap (CommitLease t target s)"
proof -
  have target: "target \<in> set (rg_snapshots s)" using registry_okD(4) [OF ok t] by simp
  then have "memory_ok heap (CommitLease t target s)"
    using registry_okD(1) [OF ok] by (simp add: memory_ok_def CommitLease_def)
  moreover have "mutex_ok (CommitLease t target s)"
    by (rule mutex_ok_release [OF registry_okD(2) [OF ok] t]) (simp_all add: CommitLease_def)
  moreover have "count_ok (CommitLease t target s)"
    by (rule count_ok_same [OF registry_okD(3) [OF ok] not_waiting [OF t]]) (simp_all add: CommitLease_def)
  moreover have "point_ok heap (CommitLease t target s) q" if "rg_threads (CommitLease t target s) u = Some q" for u q
  proof -
    have u: "u \<noteq> t" "rg_threads s u = Some q" using that by (auto simp: CommitLease_def split: if_splits)
    then have "\<not> holds_mutex q" using mutex_unique [OF registry_okD(2) [OF ok] t _ u(2)] by auto
    then show ?thesis using registry_okD(4) [OF ok u(2)] by (auto intro: point_ok_waiting simp: CommitLease_def)
  qed
  ultimately show ?thesis by (simp add: registry_ok_def)
qed

lemma close_begin_ok: "registry_ok heap s \<Longrightarrow> registry_ok heap (Close_begin s)"
proof -
  assume ok: "registry_ok heap s"
  have "point_ok heap (Close_begin s) p = point_ok heap s p" for p
    by (cases p) (simp_all add: Close_begin_def cong: admissible_cong)
  then show ?thesis using ok
    by (simp add: registry_ok_def memory_ok_def mutex_ok_def count_ok_def waiters_def Close_begin_def)
qed

lemma close_finish_ok:
  assumes ok: "registry_ok heap s" and free: "rg_publication_mutex s = None"
  shows "registry_ok heap (Close_finish s)"
proof -
  have "point_ok heap (Close_finish s) p" if "rg_threads s t = Some p" for t p
  proof -
    have "\<not> holds_mutex p" using registry_okD(2) [OF ok] free that unfolding mutex_ok_def by (metis option.distinct(1))
    then show ?thesis using registry_okD(4) [OF ok that] by (auto intro: point_ok_waiting simp: Close_finish_def)
  qed
  then show ?thesis using ok
    by (simp add: registry_ok_def memory_ok_def mutex_ok_def count_ok_def waiters_def Close_finish_def)
qed

text \<open>A staged change: the target is new, and the base is the active snapshot itself, not only at its address.\<close>

lemma staged_ok:
  assumes ok: "registry_ok heap s" and heap: "wf_heap heap" and t: "rg_threads s t = Some (Acquired call)"
    and staged: "(case call of
          LoadCall candidate base \<Rightarrow> StageLoad heap candidate base cancelled cancelled_late s
        | ReloadCall candidate base decision \<Rightarrow>
            StageReload heap candidate base decision cancelled cancelled_mid cancelled_late s) = Inr staged"
    and changed: "st_changed staged"
  shows "sn_address (st_target_snapshot staged) = rg_next_address s + 1"
    and "\<exists>b. rg_active s = Some b \<and> successor heap b (st_target_snapshot staged)"
proof -
  have "admissible heap s call" using registry_okD(4) [OF ok t] by simp
  then obtain b where b: "b \<in> set (rg_snapshots s)" "map_option sn_address (rg_active s) = Some (sn_address b)"
    "successor heap b (st_target_snapshot staged)" and a: "sn_address (st_target_snapshot staged) = rg_next_address s + 1"
  proof (cases call)
    case (LoadCall candidate base)
    then show ?thesis using staged StageLoad_successor \<open>admissible heap s call\<close> that
      by (fastforce simp: held_def)
  next
    case (ReloadCall candidate base decision)
    then show ?thesis
      using staged StageReload_successor [OF _ heap] changed \<open>admissible heap s call\<close> that by (fastforce simp: held_def)
  qed
  from b(2) obtain c where c: "rg_active s = Some c" "sn_address c = sn_address b" by auto
  then have "c = b" using registry_okD(1) [OF ok] b(1) by (auto simp: memory_ok_def dest: inj_onD)
  then show "\<exists>b. rg_active s = Some b \<and> successor heap b (st_target_snapshot staged)" using b(3) c(1) by blast
  show "sn_address (st_target_snapshot staged) = rg_next_address s + 1" by (rule a)
qed

lemma lease_ok:
  assumes ok: "registry_ok heap s" and t: "rg_threads s t = Some (Acquired call)"
    and a: "sn_address target = rg_next_address s + 1" and b: "rg_active s = Some b" "successor heap b target"
  shows "registry_ok heap (at_point t (Some (Leased target))
     (s\<lparr>rg_next_address := rg_next_address s + 2, rg_snapshots := target # rg_snapshots s\<rparr>))" (is "registry_ok heap ?s")
proof -
  have m: "memory_ok heap s" by (rule registry_okD(1) [OF ok])
  have "sorted_wrt (<) (ids heap (sn_generations target))"
    using successor_sorted [OF b(2)] m b(1) by (auto simp: memory_ok_def)
  moreover have "sn_address c < rg_next_address s" if "c \<in> set (rg_snapshots s)" for c
    using m that by (auto simp: memory_ok_def)
  ultimately have "memory_ok heap ?s" using m a by (fastforce simp: memory_ok_def)
  moreover have "mutex_ok ?s"
    by (rule mutex_ok_same [OF registry_okD(2) [OF ok], where t = t and p = "Some (Leased target)"]) (simp_all add: t)
  moreover have "count_ok ?s"
    by (rule count_ok_same [OF registry_okD(3) [OF ok] not_waiting [OF t]]) simp_all
  moreover have "point_ok heap ?s q" if "rg_threads ?s u = Some q" for u q
  proof (cases "u = t")
    case True
    then show ?thesis using that b by auto
  next
    case False
    then have "point_ok heap s q" using registry_okD(4) [OF ok] that by simp
    then show ?thesis by (rule point_ok_mono) auto
  qed
  ultimately show ?thesis by (simp add: registry_ok_def)
qed

lemma run_stage_ok:
  assumes ok: "registry_ok heap s" and heap: "wf_heap heap" and t: "rg_threads s t = Some (Acquired call)"
  shows "registry_ok heap (run_stage heap t call cancelled cancelled_mid cancelled_late s)"
proof -
  let ?r = "case call of
          LoadCall candidate base \<Rightarrow> StageLoad heap candidate base cancelled cancelled_late s
        | ReloadCall candidate base decision \<Rightarrow>
            StageReload heap candidate base decision cancelled cancelled_mid cancelled_late s"
  have release: "registry_ok heap (at_point t None (unlock (s\<lparr>rg_next_address := rg_next_address s + 2\<rparr>)))"
    by (rule release_ok [OF ok t]) simp
  have "registry_ok heap (finish_stage t ?r s)"
  proof (cases ?r)
    case (Inl e)
    then show ?thesis using release by (simp add: finish_stage_def)
  next
    case (Inr staged)
    show ?thesis
    proof (cases "st_changed staged")
      case True
      obtain b where b: "rg_active s = Some b" "successor heap b (st_target_snapshot staged)"
        using staged_ok(2) [OF ok heap t Inr True] by blast
      show ?thesis using lease_ok [OF ok t staged_ok(1) [OF ok heap t Inr True] b] True Inr
        by (simp add: finish_stage_def)
    next
      case False
      then show ?thesis using Inr release by (simp add: finish_stage_def)
    qed
  qed
  then show ?thesis by (simp add: run_stage_def)
qed

lemma registry_step_ok: "wf_heap heap \<Longrightarrow> registry_ok heap s \<Longrightarrow> registry_step heap s s' \<Longrightarrow> registry_ok heap s'"
  by (erule registry_step.cases)
    (simp_all add: begin_ok check_ok timeout_ok acquire_ok run_stage_ok commit_ok discard_ok close_begin_ok
      close_finish_ok)

subsection \<open>What every interleaving keeps\<close>

definition lease_of :: "registry \<Rightarrow> nat \<Rightarrow> RuntimeGenerationSnapshot option" where
  "lease_of s t = (case rg_threads s t of Some (Leased target) \<Rightarrow> Some target | _ \<Rightarrow> None)"

definition owners_evolve :: "generation_heap \<Rightarrow> RuntimeGenerationSnapshot \<Rightarrow> RuntimeGenerationSnapshot \<Rightarrow> bool" where
  "owners_evolve heap b c \<longleftrightarrow> (\<forall>v\<in>set (sn_generations b). \<exists>w\<in>set (sn_generations c).
     evolves (owner_generation heap v) (owner_generation heap w))"

definition registry_evolves :: "generation_heap \<Rightarrow> registry \<Rightarrow> registry \<Rightarrow> bool" where
  "registry_evolves heap s s' \<longleftrightarrow>
     (rg_active s = None \<longrightarrow> rg_active s' = None) \<and>
     (rg_active s' = None \<longrightarrow> rg_active s = None \<or> rg_closing s') \<and>
     (\<forall>b c. rg_active s = Some b \<longrightarrow> rg_active s' = Some c \<longrightarrow> owners_evolve heap b c) \<and>
     (rg_closing s \<longrightarrow> rg_closing s' \<and> (\<forall>t target. lease_of s' t = Some target \<longrightarrow> lease_of s t = Some target))"

lemma owners_evolve_refl [simp]: "owners_evolve heap b b"
  unfolding owners_evolve_def using evolves_refl by blast

lemma owners_evolve_trans: "owners_evolve heap b c \<Longrightarrow> owners_evolve heap c d \<Longrightarrow> owners_evolve heap b d"
  unfolding owners_evolve_def using evolves_trans by meson

lemma registry_evolves_refl: "registry_evolves heap s s"
  by (simp add: registry_evolves_def)

lemma registry_evolves_trans:
  assumes st: "registry_evolves heap s t" and tu: "registry_evolves heap t u"
  shows "registry_evolves heap s u"
proof -
  have "owners_evolve heap b c" if "rg_active s = Some b" "rg_active u = Some c" for b c
  proof (cases "rg_active t")
    case None
    then show ?thesis using tu that(2) by (simp add: registry_evolves_def)
  next
    case (Some d)
    then show ?thesis using st tu that owners_evolve_trans [of heap b d c] by (simp add: registry_evolves_def)
  qed
  moreover have "rg_active s = None \<longrightarrow> rg_active u = None" using st tu by (simp add: registry_evolves_def)
  moreover have "rg_active u = None \<longrightarrow> rg_active s = None \<or> rg_closing u"
    using st tu unfolding registry_evolves_def by (cases "rg_active t") auto
  moreover have "rg_closing s \<longrightarrow> rg_closing u \<and> (\<forall>x target. lease_of u x = Some target \<longrightarrow> lease_of s x = Some target)"
    using st tu by (simp add: registry_evolves_def)
  ultimately show ?thesis by (simp add: registry_evolves_def)
qed

lemma run_stage_simps [simp]:
  "rg_active (run_stage heap t call c m l s) = rg_active s" "rg_closing (run_stage heap t call c m l s) = rg_closing s"
  by (auto simp: run_stage_def finish_stage_def Let_def split: sum.splits)

text \<open>A registry that is closing grants no lease: the call that has the mutex sees the flag.\<close>

lemma run_stage_closing:
  assumes "rg_closing s" and "rg_threads s t = Some (Acquired call)"
  shows "lease_of (run_stage heap t call c m l s) u = Some target \<Longrightarrow> lease_of s u = Some target"
proof -
  have "\<exists>e. (case call of LoadCall candidate base \<Rightarrow> StageLoad heap candidate base c l s
      | ReloadCall candidate base d \<Rightarrow> StageReload heap candidate base d c m l s) = Inl e"
    using assms(1) by (cases call) (simp_all add: StageLoad_def StageReload_def check_open_def)
  then show "lease_of (run_stage heap t call c m l s) u = Some target \<Longrightarrow> lease_of s u = Some target"
    by (auto simp: run_stage_def finish_stage_def lease_of_def split: if_splits)
qed

lemma same_active_evolves:
  "rg_active s' = rg_active s \<Longrightarrow> rg_closing s' = rg_closing s \<Longrightarrow>
   (\<And>t target. lease_of s' t = Some target \<Longrightarrow> rg_closing s \<Longrightarrow> lease_of s t = Some target) \<Longrightarrow> registry_evolves heap s s'"
  by (auto simp: registry_evolves_def)

lemma registry_step_evolves:
  assumes ok: "registry_ok heap s" and step: "registry_step heap s s'"
  shows "registry_evolves heap s s'"
  using step
proof cases
  case (stage_checks t call cancelled)
  then show ?thesis by (auto intro!: same_active_evolves simp: AcquireStage_check_def lease_of_def
      split: sum.splits if_splits)
next
  case (stage_runs t call c m l)
  then show ?thesis by (auto intro!: same_active_evolves dest: run_stage_closing)
next
  case (lease_commits t target)
  then obtain b where b: "rg_active s = Some b" "successor heap b target" using registry_okD(4) [OF ok] by fastforce
  then have "owners_evolve heap b target" using successor_evolves [OF b(2)] by (simp add: owners_evolve_def)
  then show ?thesis using b(1) lease_commits
    by (auto simp: registry_evolves_def CommitLease_def lease_of_def split: if_splits)
next
  case close_begins
  then show ?thesis by (auto simp: registry_evolves_def Close_begin_def lease_of_def)
next
  case close_finishes
  then show ?thesis by (auto simp: registry_evolves_def Close_finish_def lease_of_def)
qed (auto intro!: same_active_evolves simp: lease_of_def AcquireStage_timeout_def AcquireStage_acquired_def
    DiscardLease_def split: if_splits)

interpretation registry: evolving_system "\<lambda>s. s = RuntimeGenerationRegistry" "registry_step heap"
  "\<lambda>s. wf_heap heap \<longrightarrow> registry_ok heap s" "\<lambda>s s'. wf_heap heap \<longrightarrow> registry_evolves heap s s'" for heap
  by unfold_locales
    (use registry_ok_initial registry_step_ok registry_evolves_refl registry_evolves_trans registry_step_evolves in blast)+

lemma registry_run_ok:
  "wf_heap heap \<Longrightarrow> (registry_step heap)\<^sup>*\<^sup>* RuntimeGenerationRegistry s \<Longrightarrow> registry_ok heap s"
  using registry.run_invar registry_ok_initial by blast

subsection \<open>A run\<close>

text \<open>
  One thread loads a connector into a new registry and commits. Then either the registry is closed, or a second thread
  reloads the connector as its next minor version, which has one more relation.
\<close>

definition sample_heap :: generation_heap where
  "sample_heap h = (if h = 8 then sample_generation h ''1.1.0'' [sample_relation ''r'' ''x'']
     else sample_generation h ''1.0.0'' [])"

definition sample_call :: stage_call where
  "sample_call = LoadCall \<lparr>pk_valid = True, pk_generation = 7\<rparr> (Some \<lparr>sn_address = 0, sn_generations = []\<rparr>)"

definition sample_target :: RuntimeGenerationSnapshot where
  "sample_target = \<lparr>sn_address = 2, sn_generations =
     [\<lparr>ow_address = 1, ow_package = \<lparr>pk_valid = True, pk_generation = 7\<rparr>\<rparr>]\<rparr>"

definition sample_acquired :: registry where
  "sample_acquired = AcquireStage_acquired 1 sample_call (snd (AcquireStage_check 1 sample_call False
     (at_point 1 (Some (Checking sample_call)) RuntimeGenerationRegistry)))"

definition sample_leased :: registry where
  "sample_leased = run_stage sample_heap 1 sample_call False False False sample_acquired"

definition sample_committed :: registry where
  "sample_committed = CommitLease 1 sample_target sample_leased"

definition sample_closed :: registry where
  "sample_closed = Close_finish (Close_begin sample_committed)"

lemma sample_identity: "valid_identity (cg_identity (sample_generation 0 ''1.0.0'' []))"
  "valid_identity (cg_identity (sample_generation 8 ''1.1.0'' [sample_relation ''r'' ''x'']))"
  by code_simp+

lemma wf_sample_heap: "wf_heap sample_heap"
  using sample_identity by (simp add: wf_heap_def sample_heap_def sample_generation_def)

lemma sample_points:
  "rg_threads sample_acquired 1 = Some (Acquired sample_call)" "rg_threads sample_leased 1 = Some (Leased sample_target)"
  "rg_publication_mutex sample_committed = None" "rg_active sample_leased = Some \<lparr>sn_address = 0, sn_generations = []\<rparr>"
  "rg_active sample_committed = Some sample_target" "rg_active sample_closed = None" "rg_closing sample_closed"
  by code_simp+

lemma sample_run:
  "(registry_step sample_heap)\<^sup>*\<^sup>* RuntimeGenerationRegistry sample_leased"
  "registry_step sample_heap sample_leased sample_committed"
  "(registry_step sample_heap)\<^sup>*\<^sup>* sample_committed sample_closed"
proof -
  let ?s1 = "at_point 1 (Some (Checking sample_call)) RuntimeGenerationRegistry"
  let ?s2 = "snd (AcquireStage_check 1 sample_call False ?s1)"
  have a: "registry_step sample_heap RuntimeGenerationRegistry ?s1"
    by (rule stage_begins) (simp_all add: sample_call_def held_def RuntimeGenerationRegistry_def)
  have b: "registry_step sample_heap ?s1 ?s2" by (rule stage_checks) simp
  have c: "registry_step sample_heap ?s2 sample_acquired"
    unfolding sample_acquired_def
    by (rule stage_acquires) (simp_all add: AcquireStage_check_def check_open_def RuntimeGenerationRegistry_def)
  have d: "registry_step sample_heap sample_acquired sample_leased"
    unfolding sample_leased_def by (rule stage_runs) (rule sample_points)
  show "(registry_step sample_heap)\<^sup>*\<^sup>* RuntimeGenerationRegistry sample_leased"
    by (rule converse_rtranclp_into_rtranclp [OF a converse_rtranclp_into_rtranclp [OF b
          converse_rtranclp_into_rtranclp [OF c r_into_rtranclp [of "registry_step sample_heap", OF d]]]])
  show "registry_step sample_heap sample_leased sample_committed"
    unfolding sample_committed_def by (rule lease_commits) (rule sample_points)
  have e: "registry_step sample_heap (Close_begin sample_committed) sample_closed"
    unfolding sample_closed_def by (rule close_finishes) (simp_all add: Close_begin_def sample_points)
  show "(registry_step sample_heap)\<^sup>*\<^sup>* sample_committed sample_closed"
    by (rule converse_rtranclp_into_rtranclp [OF close_begins r_into_rtranclp [of "registry_step sample_heap", OF e]])
qed

definition sample_reload :: stage_call where
  "sample_reload = ReloadCall \<lparr>pk_valid = True, pk_generation = 8\<rparr> (Some sample_target)
     (case ClassifyPackageReload (sample_heap 7) (sample_heap 8) of Inr d \<Rightarrow> d)"

definition upgraded_target :: RuntimeGenerationSnapshot where
  "upgraded_target = \<lparr>sn_address = 4, sn_generations =
     [\<lparr>ow_address = 3, ow_package = \<lparr>pk_valid = True, pk_generation = 8\<rparr>\<rparr>]\<rparr>"

definition upgrade_acquired :: registry where
  "upgrade_acquired = AcquireStage_acquired 2 sample_reload (snd (AcquireStage_check 2 sample_reload False
     (at_point 2 (Some (Checking sample_reload)) sample_committed)))"

definition upgrade_leased :: registry where
  "upgrade_leased = run_stage sample_heap 2 sample_reload False False False upgrade_acquired"

definition upgrade_committed :: registry where
  "upgrade_committed = CommitLease 2 upgraded_target upgrade_leased"

lemma upgrade_points:
  "rg_threads upgrade_acquired 2 = Some (Acquired sample_reload)"
  "rg_threads upgrade_leased 2 = Some (Leased upgraded_target)"
  "rg_active upgrade_committed = Some upgraded_target"
  "rg_threads sample_committed 2 = None" "rg_closing sample_committed = False"
  "sample_target \<in> set (rg_snapshots sample_committed)"
  by code_simp+

lemma sample_reload_genuine:
  "genuine sample_heap (case ClassifyPackageReload (sample_heap 7) (sample_heap 8) of Inr d \<Rightarrow> d)"
proof -
  have "\<exists>d. ClassifyPackageReload (sample_heap 7) (sample_heap 8) = Inr d"
    by (rule classified) (use sample_identity in \<open>simp_all add: sample_heap_def sample_generation_def\<close>)
  then obtain d where "ClassifyPackageReload (sample_heap 7) (sample_heap 8) = Inr d" by blast
  then show ?thesis unfolding genuine_def by auto
qed

lemma upgrade_run: "(registry_step sample_heap)\<^sup>*\<^sup>* sample_committed upgrade_committed"
proof -
  let ?s1 = "at_point 2 (Some (Checking sample_reload)) sample_committed"
  let ?s2 = "snd (AcquireStage_check 2 sample_reload False ?s1)"
  have a: "registry_step sample_heap sample_committed ?s1"
    by (rule stage_begins) (simp_all add: sample_reload_def held_def upgrade_points sample_reload_genuine)
  have b: "registry_step sample_heap ?s1 ?s2" by (rule stage_checks) (simp add: at_point_def)
  have c: "registry_step sample_heap ?s2 upgrade_acquired"
    unfolding upgrade_acquired_def
    by (rule stage_acquires) (simp_all add: AcquireStage_check_def check_open_def upgrade_points sample_points at_point_def)
  have d: "registry_step sample_heap upgrade_acquired upgrade_leased"
    unfolding upgrade_leased_def by (rule stage_runs) (rule upgrade_points)
  have e: "registry_step sample_heap upgrade_leased upgrade_committed"
    unfolding upgrade_committed_def by (rule lease_commits) (rule upgrade_points)
  show ?thesis
    by (rule converse_rtranclp_into_rtranclp [OF a converse_rtranclp_into_rtranclp [OF b
          converse_rtranclp_into_rtranclp [OF c converse_rtranclp_into_rtranclp [OF d
            r_into_rtranclp [of "registry_step sample_heap", OF e]]]]])
qed

subsection \<open>Properties\<close>

text \<open>
  C30. Publications are serialized and none is lost: in every interleaving, a step that changes the active snapshot
  either ends a close, or replaces the snapshot that is active at that moment by one with exactly one more connector or
  exactly one connector replaced by a generation that may follow it; the published connectors
  are in strictly ascending order, so a connector is active at most once.
\<close>

theorem publications_serialized:
  assumes "wf_heap heap" and "(registry_step heap)\<^sup>*\<^sup>* RuntimeGenerationRegistry s"
    and "registry_step heap s s'" and "rg_active s' \<noteq> rg_active s"
  shows "rg_active s' = None \<and> rg_closing s \<or>
    (\<exists>b c. rg_active s = Some b \<and> rg_active s' = Some c \<and> successor heap b c \<and>
       sorted_wrt (<) (ids heap (sn_generations c)))"
proof -
  have ok: "registry_ok heap s" by (rule registry_run_ok [OF assms(1,2)])
  show ?thesis using assms(3)
  proof cases
    case (lease_commits t target)
    then obtain b where b: "rg_active s = Some b" "successor heap b target" "target \<in> set (rg_snapshots s)"
      using registry_okD(4) [OF ok] by fastforce
    moreover have "sorted_wrt (<) (ids heap (sn_generations target))"
      using registry_okD(1) [OF ok] b(3) by (auto simp: memory_ok_def)
    ultimately show ?thesis using lease_commits by (auto simp: CommitLease_def)
  qed (use assms(4) in \<open>auto simp: AcquireStage_check_def AcquireStage_timeout_def AcquireStage_acquired_def
      DiscardLease_def Close_begin_def Close_finish_def split: sum.splits\<close>)
qed

theorem publications_serialized_witness:
  "\<exists>b c. rg_active sample_leased = Some b \<and> rg_active sample_committed = Some c \<and> successor sample_heap b c \<and>
     sorted_wrt (<) (ids sample_heap (sn_generations c))"
  using publications_serialized [OF wf_sample_heap sample_run(1,2)] by (auto simp: sample_points sample_target_def)

text \<open>
  C31. Connectors only evolve: take any two moments of any interleaving and a connector active at the first. At the
  second, either the registry is closing and has no active snapshot any more, or a generation of the same connector is
  active, with the same spec, the same major version, a version not earlier, the same origin and network policy, and its
  relations have the earlier ones as a prefix, compared as reload compares them, that is, leaving out the name of the
  API key's header or query field and the response path of the next URL, which may change.
\<close>

theorem connectors_evolve:
  assumes "wf_heap heap" and "(registry_step heap)\<^sup>*\<^sup>* RuntimeGenerationRegistry s"
    and "(registry_step heap)\<^sup>*\<^sup>* s s'" and "rg_active s = Some b" and "v \<in> set (sn_generations b)"
  shows "rg_active s' = None \<and> rg_closing s' \<or>
    (\<exists>c w. rg_active s' = Some c \<and> w \<in> set (sn_generations c) \<and>
       evolves (owner_generation heap v) (owner_generation heap w))"
proof -
  have "registry_evolves heap s s'"
    using registry.run_evolves [OF _ assms(3)] registry_run_ok [OF assms(1,2)] assms(1) by blast
  then show ?thesis
    using assms(4,5) by (cases "rg_active s'") (auto simp: registry_evolves_def owners_evolve_def)
qed

text \<open>A run with two publications: the connector is loaded, then reloaded as a later minor version.\<close>

theorem connectors_evolve_witness:
  "sn_generations sample_target \<noteq> sn_generations upgraded_target \<and>
   (\<exists>w. w \<in> set (sn_generations upgraded_target) \<and>
     evolves (owner_generation sample_heap (hd (sn_generations sample_target))) (owner_generation sample_heap w))"
proof -
  have run: "(registry_step sample_heap)\<^sup>*\<^sup>* RuntimeGenerationRegistry sample_committed"
    using sample_run(1,2) by (rule rtranclp.rtrancl_into_rtrancl)
  have "hd (sn_generations sample_target) \<in> set (sn_generations sample_target)" by (simp add: sample_target_def)
  from connectors_evolve [OF wf_sample_heap run upgrade_run sample_points(5) this]
  show ?thesis by (auto simp: upgrade_points(3)) (simp add: sample_target_def upgraded_target_def)
qed

text \<open>
  Closing is final: once the flag is set it stays set and no new lease is granted in any continuation, and once the
  active snapshot is gone none is ever published again; a snapshot call then fails.
\<close>

lemma close_is_final:
  assumes "wf_heap heap" and "(registry_step heap)\<^sup>*\<^sup>* RuntimeGenerationRegistry s"
    and "(registry_step heap)\<^sup>*\<^sup>* s s'" and "rg_closing s"
  shows "rg_closing s' \<and> (\<forall>t target. lease_of s' t = Some target \<longrightarrow> lease_of s t = Some target) \<and>
    (rg_active s = None \<longrightarrow> rg_active s' = None) \<and>
    Snapshot s' s2 s3 = Inl (GenerationErrorOf REGISTRY_CLOSING)"
proof -
  have "registry_evolves heap s s'"
    using registry.run_evolves [OF _ assms(3)] registry_run_ok [OF assms(1,2)] assms(1) by blast
  then show ?thesis using assms(4) by (auto simp: registry_evolves_def Snapshot_def)
qed

end
