(* ===== verification/Strict_Json.thy ===== *)
theory Strict_Json
  imports Prelude
begin

text \<open>
  The strict JSON reader, \<open>src/src/runtime/decoding/strict_json_reader.cpp\<close>. A cursor is the unread input together
  with the number of checks made so far; the answers of the control object and of the clock to the
  successive checks are the argument \<open>k\<close>. Code points and depths are naturals: a code point has at most 21
  bits, so the source's 32-bit arithmetic does not wrap. The recursion of \<open>SkipValue\<close>
  carries fuel, which is shown to suffice for every input.
\<close>

unbundle bit_operations_syntax

subsection \<open>Errors, cursors and checks\<close>

datatype json_error = JsonMalformed | JsonCancelled | JsonResource string | JsonOutOfFuel

type_synonym json_cursor = "string \<times> nat"

text \<open>Whether the \<open>n\<close>th check finds a cancellation request and whether it finds the deadline passed.\<close>

type_synonym json_control = "nat \<Rightarrow> bool \<times> bool"

definition json_Check :: "json_control \<Rightarrow> nat \<Rightarrow> json_error + nat" where
  "json_Check k n =
     (if fst (k n) then Inl JsonCancelled
      else if snd (k n) then Inl (JsonResource ''wall_milliseconds'') else Inr (n + 1))"

definition json_Peek :: "json_cursor \<Rightarrow> char" where
  "json_Peek p = (case fst p of [] \<Rightarrow> CHR 0x00 | c # _ \<Rightarrow> c)"

text \<open>The position in the input is what has been read of it.\<close>

definition json_Reset :: "string \<Rightarrow> json_cursor \<Rightarrow> json_cursor" where
  "json_Reset input p = (input, snd p)"

definition json_Position :: "string \<Rightarrow> json_cursor \<Rightarrow> nat" where
  "json_Position input p = length input - length (fst p)"

definition json_SetPosition :: "string \<Rightarrow> nat \<Rightarrow> json_cursor \<Rightarrow> json_error + json_cursor" where
  "json_SetPosition input pos p = (if pos > length input then Inl JsonMalformed else Inr (drop pos input, snd p))"

lemma SetPosition_Position:
  "fst p = drop i input \<Longrightarrow> i \<le> length input \<Longrightarrow>
   json_Position input p = i \<and> json_SetPosition input (json_Position input p) q = Inr (fst p, snd q)"
  by (simp add: json_Position_def json_SetPosition_def)

definition json_whitespace :: "char \<Rightarrow> bool" where
  "json_whitespace c \<longleftrightarrow> c = CHR '' '' \<or> c = CHR 0x0A \<or> c = CHR 0x0D \<or> c = CHR 0x09"

fun whitespace_loop :: "json_control \<Rightarrow> nat \<Rightarrow> string \<Rightarrow> json_error + json_cursor" where
  "whitespace_loop k n [] = Inr ([], n)"
| "whitespace_loop k n (c # cs) =
     and_then (json_Check k n) (\<lambda>n'. if \<not> json_whitespace c then Inr (c # cs, n') else whitespace_loop k n' cs)"

definition SkipWhitespace :: "json_control \<Rightarrow> json_cursor \<Rightarrow> json_error + json_cursor" where
  "SkipWhitespace k p = whitespace_loop k (snd p) (fst p)"

definition Expect :: "json_control \<Rightarrow> char \<Rightarrow> json_cursor \<Rightarrow> json_error + json_cursor" where
  "Expect k expected p =
     and_then (json_Check k (snd p)) (\<lambda>n.
       case fst p of [] \<Rightarrow> Inl JsonMalformed
       | c # cs \<Rightarrow> if c \<noteq> expected then Inl JsonMalformed else Inr (cs, n))"

definition RequireObjectKey :: "json_cursor \<Rightarrow> json_error + unit" where
  "RequireObjectKey p = (if json_Peek p \<noteq> CHR 0x22 then Inl JsonMalformed else Inr ())"

definition json_advance :: "json_cursor \<Rightarrow> json_cursor" where
  "json_advance p = (tl (fst p), snd p)"

definition ObjectSeparator :: "json_control \<Rightarrow> json_cursor \<Rightarrow> json_error + json_cursor" where
  "ObjectSeparator k p =
     and_then (SkipWhitespace k p) (\<lambda>p.
       if json_Peek p = CHR '','' then
         and_then (SkipWhitespace k (json_advance p)) (\<lambda>p.
           if json_Peek p = CHR ''}'' then Inl JsonMalformed else Inr p)
       else if json_Peek p \<noteq> CHR ''}'' then Inl JsonMalformed else Inr p)"

definition ArraySeparator :: "json_control \<Rightarrow> json_cursor \<Rightarrow> json_error + json_cursor" where
  "ArraySeparator k p =
     and_then (SkipWhitespace k p) (\<lambda>p.
       if json_Peek p = CHR '','' then
         and_then (SkipWhitespace k (json_advance p)) (\<lambda>p.
           if json_Peek p = CHR '']'' then Inl JsonMalformed else Inr p)
       else if json_Peek p \<noteq> CHR '']'' then Inl JsonMalformed else Inr p)"

subsection \<open>Escapes and UTF-8\<close>

definition hex_digit :: "char \<Rightarrow> nat option" where
  "hex_digit c =
     (if in_range CHR ''0'' CHR ''9'' c then Some (byte c - byte CHR ''0'')
      else if in_range CHR ''a'' CHR ''f'' c then Some (byte c - byte CHR ''a'' + 10)
      else if in_range CHR ''A'' CHR ''F'' c then Some (byte c - byte CHR ''A'' + 10) else None)"

fun hex_loop :: "json_control \<Rightarrow> nat \<Rightarrow> nat \<Rightarrow> json_cursor \<Rightarrow> json_error + (nat \<times> json_cursor)" where
  "hex_loop k 0 result p = Inr (result, p)"
| "hex_loop k (Suc i) result p =
     and_then (json_Check k (snd p)) (\<lambda>n.
       case fst p of [] \<Rightarrow> Inl JsonMalformed
       | c # cs \<Rightarrow> (case hex_digit c of None \<Rightarrow> Inl JsonMalformed
           | Some d \<Rightarrow> hex_loop k i (push_bit 4 result + d) (cs, n)))"

definition ParseHexCodeUnit :: "json_control \<Rightarrow> json_cursor \<Rightarrow> json_error + (nat \<times> json_cursor)" where
  "ParseHexCodeUnit k p = hex_loop k 4 0 p"

definition ParseEscapedUnicode :: "json_control \<Rightarrow> json_cursor \<Rightarrow> json_error + (nat \<times> json_cursor)" where
  "ParseEscapedUnicode k p =
     and_then (ParseHexCodeUnit k p) (\<lambda>(value, p).
       if 0xd800 \<le> value \<and> value \<le> 0xdbff then
         (if take 2 (fst p) \<noteq> [CHR 0x5C, CHR ''u''] then Inl JsonMalformed
          else and_then (ParseHexCodeUnit k (drop 2 (fst p), snd p)) (\<lambda>(low, p).
            if low < 0xdc00 \<or> low > 0xdfff then Inl JsonMalformed
            else Inr (0x10000 + push_bit 10 (value - 0xd800) + (low - 0xdc00), p)))
       else if 0xdc00 \<le> value \<and> value \<le> 0xdfff then Inl JsonMalformed
       else Inr (value, p))"

text \<open>The number of continuation bytes, the bits of the first byte and the least value of a longer sequence.\<close>

definition utf8_head :: "char \<Rightarrow> (nat \<times> nat \<times> nat) option" where
  "utf8_head c =
     (let first = byte c in
      if first AND 0xe0 = 0xc0 then Some (1, first AND 0x1f, 0x80)
      else if first AND 0xf0 = 0xe0 then Some (2, first AND 0x0f, 0x800)
      else if first AND 0xf8 = 0xf0 then Some (3, first AND 0x07, 0x10000) else None)"

fun utf8_tail :: "json_control \<Rightarrow> nat \<Rightarrow> nat \<Rightarrow> json_cursor \<Rightarrow> json_error + (nat \<times> json_cursor)" where
  "utf8_tail k 0 value p = Inr (value, p)"
| "utf8_tail k (Suc i) value p =
     and_then (json_Check k (snd p)) (\<lambda>n.
       case fst p of [] \<Rightarrow> Inl JsonMalformed
       | c # cs \<Rightarrow> if byte c AND 0xc0 \<noteq> 0x80 then Inl JsonMalformed
           else utf8_tail k i (push_bit 6 value OR (byte c AND 0x3f)) (cs, n))"

definition SkipUtf8 :: "json_control \<Rightarrow> char \<Rightarrow> json_cursor \<Rightarrow> json_error + json_cursor" where
  "SkipUtf8 k first p =
     (if byte first < 0x80 then Inr p
      else case utf8_head first of
          None \<Rightarrow> Inl JsonMalformed
        | Some (count, value, minimum) \<Rightarrow>
            and_then (utf8_tail k count value p) (\<lambda>(value, p).
              if value < minimum \<or> value > 0x10ffff \<or> 0xd800 \<le> value \<and> value \<le> 0xdfff
              then Inl JsonMalformed else Inr p))"

text \<open>The bytes that encode a code point.\<close>

definition code_point_bytes :: "nat \<Rightarrow> string" where
  "code_point_bytes value =
     (if value \<le> 0x7f then [char_of value]
      else if value \<le> 0x7ff then [char_of (0xc0 OR drop_bit 6 value), char_of (0x80 OR (value AND 0x3f))]
      else if value \<le> 0xffff
      then [char_of (0xe0 OR drop_bit 12 value), char_of (0x80 OR (drop_bit 6 value AND 0x3f)),
            char_of (0x80 OR (value AND 0x3f))]
      else [char_of (0xf0 OR drop_bit 18 value), char_of (0x80 OR (drop_bit 12 value AND 0x3f)),
            char_of (0x80 OR (drop_bit 6 value AND 0x3f)), char_of (0x80 OR (value AND 0x3f))])"

definition json_escape :: "char \<Rightarrow> char option" where
  "json_escape c =
     (if c = CHR 0x22 then Some CHR 0x22 else if c = CHR 0x5C then Some CHR 0x5C
      else if c = CHR ''/'' then Some CHR ''/'' else if c = CHR ''b'' then Some CHR 0x08
      else if c = CHR ''f'' then Some CHR 0x0C else if c = CHR ''n'' then Some CHR 0x0A
      else if c = CHR ''r'' then Some CHR 0x0D else if c = CHR ''t'' then Some CHR 0x09 else None)"

subsection \<open>Materialized strings\<close>

text \<open>
  A capacity observer is a state with two calls that may throw. The string under construction keeps its
  bytes, its capacity and the capacity charged to the observer; \<open>allocate\<close> is the capacity that
  \<open>std::string::reserve\<close> provides for a request.
\<close>

record 'o capacity_observer =
  ob_ReserveStringCapacity :: "u64 \<Rightarrow> u64 \<Rightarrow> 'o \<Rightarrow> json_error + 'o"
  ob_ReconcileStringCapacity :: "u64 \<Rightarrow> u64 \<Rightarrow> u64 \<Rightarrow> 'o \<Rightarrow> json_error + 'o"
  ob_allocate :: "u64 \<Rightarrow> u64"
  ob_initial_capacity :: u64

record 'o json_sink =
  sk_result :: string
  sk_capacity :: u64
  sk_charged :: u64
  sk_state :: 'o

definition RequireAppend :: "string \<Rightarrow> u64 \<Rightarrow> u64 \<Rightarrow> string \<Rightarrow> json_error + unit" where
  "RequireAppend result additional maximum budget_field =
     (if additional > maximum \<or> of_nat (length result) > maximum - additional
      then Inl (JsonResource budget_field) else Inr ())"

definition ReserveAppend ::
    "'o capacity_observer option \<Rightarrow> u64 \<Rightarrow> u64 \<Rightarrow> string \<Rightarrow> 'o json_sink \<Rightarrow> json_error + 'o json_sink" where
  "ReserveAppend observer additional maximum budget_field s =
     and_then (RequireAppend (sk_result s) additional maximum budget_field) (\<lambda>_.
       case observer of None \<Rightarrow> Inr s
       | Some ob \<Rightarrow>
          (let required = of_nat (length (sk_result s)) + additional in
           if required \<le> sk_capacity s then Inr s
           else and_then (ob_ReserveStringCapacity ob (sk_charged s) required (sk_state s)) (\<lambda>o1.
             let actual = ob_allocate ob required in
             and_then (ob_ReconcileStringCapacity ob (sk_charged s) required actual o1) (\<lambda>o2.
               Inr (s\<lparr>sk_capacity := actual, sk_charged := actual, sk_state := o2\<rparr>)))))"

definition json_append ::
    "'o capacity_observer option \<Rightarrow> u64 \<Rightarrow> string \<Rightarrow> string \<Rightarrow> 'o json_sink \<Rightarrow> json_error + 'o json_sink" where
  "json_append observer maximum budget_field bytes s =
     and_then (ReserveAppend observer (of_nat (length bytes)) maximum budget_field s) (\<lambda>s.
       Inr (s\<lparr>sk_result := sk_result s @ bytes\<rparr>))"

definition AppendCodePoint ::
    "'o capacity_observer option \<Rightarrow> u64 \<Rightarrow> string \<Rightarrow> nat \<Rightarrow> 'o json_sink \<Rightarrow> json_error + 'o json_sink" where
  "AppendCodePoint observer maximum budget_field value s =
     json_append observer maximum budget_field (code_point_bytes value) s"

definition AppendUtf8 ::
    "json_control \<Rightarrow> 'o capacity_observer option \<Rightarrow> u64 \<Rightarrow> string \<Rightarrow> char \<Rightarrow> json_cursor \<Rightarrow> 'o json_sink \<Rightarrow>
     json_error + (json_cursor \<times> 'o json_sink)" where
  "AppendUtf8 k observer maximum budget_field first p s =
     (if byte first < 0x80
      then and_then (json_append observer maximum budget_field [first] s) (\<lambda>s. Inr (p, s))
      else case utf8_head first of
          None \<Rightarrow> Inl JsonMalformed
        | Some (count, value, minimum) \<Rightarrow>
            and_then (utf8_tail k count value p) (\<lambda>(value, q).
              if value < minimum \<or> value > 0x10ffff \<or> 0xd800 \<le> value \<and> value \<le> 0xdfff
              then Inl JsonMalformed
              else and_then (json_append observer maximum budget_field (first # take count (fst p)) s)
                     (\<lambda>s. Inr (q, s))))"

subsection \<open>Every token moves the cursor on\<close>

text \<open>What a reading step leaves is a rest of what it found.\<close>

lemma hex_loop_suffix: "hex_loop k i r p = Inr (v, q) \<Longrightarrow> \<exists>us. fst p = us @ fst q \<and> length us = i"
proof (induction i arbitrary: r p)
  case (Suc i)
  then obtain n c cs d where p: "fst p = c # cs" "hex_loop k i (push_bit 4 r + d) (cs, n) = Inr (v, q)"
    by (cases "fst p") (auto split: option.splits)
  from Suc.IH [OF p(2)] obtain us where "cs = us @ fst q" "length us = i" by auto
  then show ?case using p(1) by (intro exI [of _ "c # us"]) simp
qed simp

lemma utf8_tail_suffix: "utf8_tail k i r p = Inr (v, q) \<Longrightarrow> \<exists>us. fst p = us @ fst q \<and> length us = i"
proof (induction i arbitrary: r p)
  case (Suc i)
  then obtain n c cs where p: "fst p = c # cs" "utf8_tail k i (push_bit 6 r OR (byte c AND 0x3f)) (cs, n) = Inr (v, q)"
    by (cases "fst p") (auto split: if_splits)
  from Suc.IH [OF p(2)] obtain us where "cs = us @ fst q" "length us = i" by auto
  then show ?case using p(1) by (intro exI [of _ "c # us"]) simp
qed simp

lemma ParseHexCodeUnit_length: "ParseHexCodeUnit k p = Inr (v, q) \<Longrightarrow> length (fst q) \<le> length (fst p)"
  unfolding ParseHexCodeUnit_def by (auto dest!: hex_loop_suffix)

lemma ParseEscapedUnicode_length:
  assumes "ParseEscapedUnicode k p = Inr (v, q)"
  shows "length (fst q) \<le> length (fst p)"
proof -
  from assms obtain u r where u: "ParseHexCodeUnit k p = Inr (u, r)"
    and q: "q = r \<or> (\<exists>w. ParseHexCodeUnit k (drop 2 (fst r), snd r) = Inr (w, q))"
    by (auto simp: ParseEscapedUnicode_def split: if_splits)
  have "length (fst q) \<le> length (fst r)"
    using q by (auto dest!: ParseHexCodeUnit_length)
  with ParseHexCodeUnit_length [OF u] show ?thesis by simp
qed

lemma SkipUtf8_length: "SkipUtf8 k c p = Inr q \<Longrightarrow> length (fst q) \<le> length (fst p)"
  by (auto simp: SkipUtf8_def split: if_splits option.splits dest!: utf8_tail_suffix)

lemma AppendUtf8_length: "AppendUtf8 k ob mx f c p s = Inr (q, s') \<Longrightarrow> length (fst q) \<le> length (fst p)"
  by (auto simp: AppendUtf8_def split: if_splits option.splits dest!: utf8_tail_suffix)

subsection \<open>Strings\<close>

function skip_string_loop :: "json_control \<Rightarrow> json_cursor \<Rightarrow> json_error + json_cursor" where
  "skip_string_loop k ([], n) = Inl JsonMalformed"
| "skip_string_loop k (c # cs, n) =
     and_then (json_Check k n) (\<lambda>n'.
       if c = CHR 0x22 then Inr (cs, n')
       else if byte c < 0x20 then Inl JsonMalformed
       else if c \<noteq> CHR 0x5C then and_then (SkipUtf8 k c (cs, n')) (skip_string_loop k)
       else (case cs of [] \<Rightarrow> Inl JsonMalformed
         | e # es \<Rightarrow>
             if e = CHR ''u'' then and_then (ParseEscapedUnicode k (es, n')) (\<lambda>(_, q). skip_string_loop k q)
             else if json_escape e = None then Inl JsonMalformed
             else skip_string_loop k (es, n')))"
  by pat_completeness auto
termination
  by (relation "measure (\<lambda>(k, p). length (fst p))")
    (auto dest: SkipUtf8_length ParseEscapedUnicode_length)

definition SkipString :: "json_control \<Rightarrow> json_cursor \<Rightarrow> json_error + json_cursor" where
  "SkipString k p = and_then (Expect k CHR 0x22 p) (skip_string_loop k)"

function parse_string_loop ::
    "json_control \<Rightarrow> 'o capacity_observer option \<Rightarrow> u64 \<Rightarrow> string \<Rightarrow> json_cursor \<Rightarrow> 'o json_sink \<Rightarrow>
     json_error + (json_cursor \<times> 'o json_sink)" where
  "parse_string_loop k observer maximum budget_field ([], n) s = Inl JsonMalformed"
| "parse_string_loop k observer maximum budget_field (c # cs, n) s =
     and_then (json_Check k n) (\<lambda>n'.
       if c = CHR 0x22 then Inr ((cs, n'), s)
       else if byte c < 0x20 then Inl JsonMalformed
       else if c \<noteq> CHR 0x5C
       then and_then (AppendUtf8 k observer maximum budget_field c (cs, n') s)
              (\<lambda>(q, s). parse_string_loop k observer maximum budget_field q s)
       else (case cs of [] \<Rightarrow> Inl JsonMalformed
         | e # es \<Rightarrow>
             if e = CHR ''u''
             then and_then (ParseEscapedUnicode k (es, n')) (\<lambda>(value, q).
               and_then (AppendCodePoint observer maximum budget_field value s)
                 (\<lambda>s. parse_string_loop k observer maximum budget_field q s))
             else (case json_escape e of None \<Rightarrow> Inl JsonMalformed
               | Some b \<Rightarrow> and_then (json_append observer maximum budget_field [b] s)
                   (\<lambda>s. parse_string_loop k observer maximum budget_field (es, n') s))))"
  by pat_completeness auto
termination
  by (relation "measure (\<lambda>(k, ob, mx, f, p, s). length (fst p))")
    (auto dest: AppendUtf8_length ParseEscapedUnicode_length)

text \<open>The initial charge of an observed string: its capacity before anything is appended.\<close>

definition initial_sink :: "'o capacity_observer option \<Rightarrow> 'o \<Rightarrow> json_error + 'o json_sink" where
  "initial_sink observer st =
     (case observer of None \<Rightarrow> Inr \<lparr>sk_result = [], sk_capacity = 0, sk_charged = 0, sk_state = st\<rparr>
      | Some ob \<Rightarrow>
          and_then (ob_ReserveStringCapacity ob 0 (ob_initial_capacity ob) st) (\<lambda>o1.
          and_then (ob_ReconcileStringCapacity ob 0 (ob_initial_capacity ob) (ob_initial_capacity ob) o1) (\<lambda>o2.
            Inr \<lparr>sk_result = [], sk_capacity = ob_initial_capacity ob, sk_charged = ob_initial_capacity ob,
                 sk_state = o2\<rparr>)))"

definition json_ParseString ::
    "json_control \<Rightarrow> 'o capacity_observer option \<Rightarrow> u64 \<Rightarrow> string \<Rightarrow> 'o \<Rightarrow> json_cursor \<Rightarrow>
     json_error + (json_cursor \<times> 'o json_sink)" where
  "json_ParseString k observer max_decoded_bytes budget_field st p =
     and_then (Expect k CHR 0x22 p) (\<lambda>p.
     and_then (initial_sink observer st) (\<lambda>s.
       parse_string_loop k observer max_decoded_bytes budget_field p s))"

subsection \<open>Object keys\<close>

record StrictJsonObjectKey =
  ky_bytes :: string
  ky_overflow :: bool

definition empty_key :: StrictJsonObjectKey where
  "empty_key = \<lparr>ky_bytes = [], ky_overflow = False\<rparr>"

definition key_Append :: "char \<Rightarrow> StrictJsonObjectKey \<Rightarrow> StrictJsonObjectKey" where
  "key_Append c key =
     (if length (ky_bytes key) < 64 then key\<lparr>ky_bytes := ky_bytes key @ [c]\<rparr> else key\<lparr>ky_overflow := True\<rparr>)"

definition key_append_all :: "string \<Rightarrow> StrictJsonObjectKey \<Rightarrow> StrictJsonObjectKey" where
  "key_append_all cs key = fold key_Append cs key"

definition key_AppendCodePoint :: "nat \<Rightarrow> StrictJsonObjectKey \<Rightarrow> StrictJsonObjectKey" where
  "key_AppendCodePoint value key = key_append_all (code_point_bytes value) key"

definition key_Equals :: "StrictJsonObjectKey \<Rightarrow> string \<Rightarrow> bool" where
  "key_Equals key expected \<longleftrightarrow>
     \<not> ky_overflow key \<and> length expected = length (ky_bytes key) \<and> take (length (ky_bytes key)) expected = ky_bytes key"

function object_key_loop ::
    "json_control \<Rightarrow> json_cursor \<Rightarrow> StrictJsonObjectKey \<Rightarrow> json_error + (json_cursor \<times> StrictJsonObjectKey)" where
  "object_key_loop k ([], n) key = Inl JsonMalformed"
| "object_key_loop k (c # cs, n) key =
     and_then (json_Check k n) (\<lambda>n'.
       if c = CHR 0x22 then Inr ((cs, n'), key)
       else if byte c < 0x20 then Inl JsonMalformed
       else if c \<noteq> CHR 0x5C
       then and_then (SkipUtf8 k c (cs, n')) (\<lambda>q.
              object_key_loop k q (key_append_all (c # take (length cs - length (fst q)) cs) key))
       else (case cs of [] \<Rightarrow> Inl JsonMalformed
         | e # es \<Rightarrow>
             if e = CHR ''u''
             then and_then (ParseEscapedUnicode k (es, n')) (\<lambda>(value, q).
               object_key_loop k q (key_AppendCodePoint value key))
             else (case json_escape e of None \<Rightarrow> Inl JsonMalformed
               | Some b \<Rightarrow> object_key_loop k (es, n') (key_Append b key))))"
  by pat_completeness auto
termination
  by (relation "measure (\<lambda>(k, p, key). length (fst p))")
    (auto dest: SkipUtf8_length ParseEscapedUnicode_length)

definition ParseObjectKey :: "json_control \<Rightarrow> json_cursor \<Rightarrow> json_error + (json_cursor \<times> StrictJsonObjectKey)" where
  "ParseObjectKey k p = and_then (Expect k CHR 0x22 p) (\<lambda>p. object_key_loop k p empty_key)"

subsection \<open>Numbers and literals\<close>

definition json_digit :: "char \<Rightarrow> bool" where
  "json_digit c \<longleftrightarrow> in_range CHR ''0'' CHR ''9'' c"

fun json_digits_loop :: "json_control \<Rightarrow> nat \<Rightarrow> string \<Rightarrow> json_error + json_cursor" where
  "json_digits_loop k n [] = Inr ([], n)"
| "json_digits_loop k n (c # cs) =
     (if \<not> json_digit c then Inr (c # cs, n)
      else and_then (json_Check k n) (\<lambda>n'. json_digits_loop k n' cs))"

definition json_digits :: "json_control \<Rightarrow> json_cursor \<Rightarrow> json_error + json_cursor" where
  "json_digits k p = json_digits_loop k (snd p) (fst p)"

text \<open>At least one digit, after a decimal point or an exponent.\<close>

definition json_digits1 :: "json_control \<Rightarrow> json_cursor \<Rightarrow> json_error + json_cursor" where
  "json_digits1 k p = (if \<not> json_digit (json_Peek p) then Inl JsonMalformed else json_digits k p)"

definition json_integer_part :: "json_control \<Rightarrow> json_cursor \<Rightarrow> json_error + json_cursor" where
  "json_integer_part k p =
     (if json_Peek p = CHR ''0''
      then (let p = json_advance p in if json_digit (json_Peek p) then Inl JsonMalformed else Inr p)
      else if \<not> in_range CHR ''1'' CHR ''9'' (json_Peek p) then Inl JsonMalformed
      else json_digits k p)"

definition json_fraction :: "json_control \<Rightarrow> json_cursor \<Rightarrow> json_error + json_cursor" where
  "json_fraction k p = (if json_Peek p = CHR ''.'' then json_digits1 k (json_advance p) else Inr p)"

definition json_exponent :: "json_control \<Rightarrow> json_cursor \<Rightarrow> json_error + json_cursor" where
  "json_exponent k p =
     (if json_Peek p = CHR ''e'' \<or> json_Peek p = CHR ''E''
      then (let p = json_advance p in
        json_digits1 k (if json_Peek p = CHR ''+'' \<or> json_Peek p = CHR ''-'' then json_advance p else p))
      else Inr p)"

definition json_number_scan :: "json_control \<Rightarrow> json_cursor \<Rightarrow> json_error + json_cursor" where
  "json_number_scan k p =
     and_then (json_integer_part k (if json_Peek p = CHR ''-'' then json_advance p else p)) (\<lambda>p.
     and_then (json_fraction k p) (json_exponent k))"

definition ParseNumberToken ::
    "json_control \<Rightarrow> u64 \<Rightarrow> string \<Rightarrow> json_cursor \<Rightarrow> json_error + (string \<times> json_cursor)" where
  "ParseNumberToken k max_token_bytes budget_field p =
     and_then (json_number_scan k p) (\<lambda>q.
       let token_bytes = of_nat (length (fst p) - length (fst q)) in
       if token_bytes > max_token_bytes then Inl (JsonResource budget_field)
       else Inr (take (unat token_bytes) (fst p), q))"

definition SkipNumber :: "json_control \<Rightarrow> json_cursor \<Rightarrow> json_error + json_cursor" where
  "SkipNumber k p =
     and_then (json_number_scan k p) (\<lambda>q. if length (fst q) = length (fst p) then Inl JsonMalformed else Inr q)"

fun json_Literal :: "json_control \<Rightarrow> string \<Rightarrow> json_cursor \<Rightarrow> json_error + json_cursor" where
  "json_Literal k [] p = Inr p"
| "json_Literal k (c # cs) p = and_then (Expect k c p) (json_Literal k cs)"

subsection \<open>Values and documents\<close>

text \<open>
  The two loops of \<open>SkipValue\<close>, over the call for an element; the recursion of \<open>SkipValue\<close> itself
  is on the fuel, which also bounds the loops.
\<close>

primrec array_loop ::
    "nat \<Rightarrow> (json_cursor \<Rightarrow> json_error + json_cursor) \<Rightarrow> json_control \<Rightarrow> json_cursor \<Rightarrow> json_error + json_cursor" where
  "array_loop 0 skip_element k p = Inl JsonOutOfFuel"
| "array_loop (Suc fuel) skip_element k p =
     (if json_Peek p = CHR '']'' then Inr p
      else and_then (skip_element p) (\<lambda>p.
           and_then (ArraySeparator k p) (array_loop fuel skip_element k)))"

primrec object_loop ::
    "nat \<Rightarrow> (json_cursor \<Rightarrow> json_error + json_cursor) \<Rightarrow> json_control \<Rightarrow> json_cursor \<Rightarrow> json_error + json_cursor" where
  "object_loop 0 skip_element k p = Inl JsonOutOfFuel"
| "object_loop (Suc fuel) skip_element k p =
     (if json_Peek p = CHR ''}'' then Inr p
      else and_then (RequireObjectKey p) (\<lambda>_.
           and_then (SkipString k p) (\<lambda>p.
           and_then (SkipWhitespace k p) (\<lambda>p.
           and_then (Expect k CHR '':'' p) (\<lambda>p.
           and_then (skip_element p) (\<lambda>p.
           and_then (ObjectSeparator k p) (object_loop fuel skip_element k)))))))"

primrec SkipValue :: "nat \<Rightarrow> json_control \<Rightarrow> nat \<Rightarrow> nat \<Rightarrow> json_cursor \<Rightarrow> json_error + json_cursor" where
  "SkipValue 0 k m depth p = Inl JsonOutOfFuel"
| "SkipValue (Suc fuel) k m depth p =
     and_then (SkipWhitespace k p) (\<lambda>p.
       if depth > m then Inl (JsonResource ''json_nesting'')
       else if json_Peek p = CHR 0x22 then SkipString k p
       else if json_Peek p = CHR ''-'' \<or> json_digit (json_Peek p) then SkipNumber k p
       else if json_Peek p = CHR ''t'' then json_Literal k ''true'' p
       else if json_Peek p = CHR ''f'' then json_Literal k ''false'' p
       else if json_Peek p = CHR ''n'' then json_Literal k ''null'' p
       else if json_Peek p = CHR ''['' then
         and_then (Expect k CHR ''['' p) (\<lambda>p.
         and_then (SkipWhitespace k p) (\<lambda>p.
         and_then (array_loop fuel (SkipValue fuel k m (depth + 1)) k p) (Expect k CHR '']'')))
       else if json_Peek p = CHR ''{'' then
         and_then (Expect k CHR ''{'' p) (\<lambda>p.
         and_then (SkipWhitespace k p) (\<lambda>p.
         and_then (object_loop fuel (SkipValue fuel k m (depth + 1)) k p) (Expect k CHR ''}'')))
       else Inl JsonMalformed)"

text \<open>Every value and every element consumes a byte, so the length of the input and one more is enough.\<close>

definition json_fuel :: "string \<Rightarrow> nat" where
  "json_fuel input = length input + 1"

definition ValidateDocument :: "json_control \<Rightarrow> nat \<Rightarrow> string \<Rightarrow> json_error + unit" where
  "ValidateDocument k max_json_nesting input =
     and_then (SkipWhitespace k (json_Reset input ([], 0))) (\<lambda>p.
     and_then (SkipValue (json_fuel input) k max_json_nesting 0 p) (\<lambda>p.
     and_then (SkipWhitespace k p) (\<lambda>p.
       if fst p \<noteq> [] then Inl JsonMalformed else Inr ())))"

end
