(* ===== verification/Json_Grammar.thy ===== *)
theory Json_Grammar
  imports Strict_Json
begin

text \<open>
  The strict JSON reader accepts exactly RFC 8259 over well-formed UTF-8 (RFC 3629), without unpaired surrogate
  escapes, up to the nesting limit. The grammar is stated over byte strings; soundness holds whatever the
  control object and the clock answer, completeness when no check interrupts.
\<close>

unbundle bit_operations_syntax

subsection \<open>Bit patterns as blocks of numbers\<close>

lemma and_high: "(x::nat) AND push_bit n (mask k) = 2 ^ n * (x div 2 ^ n mod 2 ^ k)"
proof -
  have "x AND push_bit n (mask k) = push_bit n (take_bit k (drop_bit n x))"
    by (rule bit_eqI) (auto simp: bit_simps)
  then show ?thesis by (simp add: push_bit_eq_mult take_bit_eq_mod drop_bit_eq_div)
qed

lemma in_block: "0 < d \<Longrightarrow> (x::nat) div d = q \<longleftrightarrow> q * d \<le> x \<and> x < q * d + d"
  by (metis add.commute div_nat_eqI dividend_less_div_times div_times_less_eq_dividend mult.commute mult_Suc)

lemma block_rest: "q * d \<le> x \<Longrightarrow> x < q * d + d \<Longrightarrow> (x::nat) mod d = x - q * d"
  by (metis add_diff_inverse_nat in_block minus_div_mult_eq_mod not_less_iff_gr_or_eq add_0_right gr_zeroI leD)

lemma head_block:
  assumes "x < 2 ^ (n + k)" and "0 < m"
  shows "(x::nat) AND push_bit n (mask k) = m * 2 ^ n \<longleftrightarrow> m * 2 ^ n \<le> x \<and> x < m * 2 ^ n + 2 ^ n"
proof -
  have "x div 2 ^ n < 2 ^ k" using assms(1) by (simp add: less_mult_imp_div_less power_add mult.commute)
  then show ?thesis using in_block [of "2 ^ n" x m] by (simp add: and_high mult.commute)
qed

lemma head_bits:
  "x < 256 \<Longrightarrow> (x::nat) AND 0xe0 = 0xc0 \<longleftrightarrow> 192 \<le> x \<and> x < 224"
  "x < 256 \<Longrightarrow> (x::nat) AND 0xf0 = 0xe0 \<longleftrightarrow> 224 \<le> x \<and> x < 240"
  "x < 256 \<Longrightarrow> (x::nat) AND 0xf8 = 0xf0 \<longleftrightarrow> 240 \<le> x \<and> x < 248"
  "x < 256 \<Longrightarrow> (x::nat) AND 0xc0 = 0x80 \<longleftrightarrow> 128 \<le> x \<and> x < 192"
  using head_block [of x 5 3 6] head_block [of x 4 4 14] head_block [of x 3 5 30] head_block [of x 6 2 2]
  by (simp_all add: push_bit_eq_mult mask_eq_exp_minus_1)

lemma low_bits:
  "(x::nat) AND 0x1f = x mod 32" "(x::nat) AND 0x0f = x mod 16" "(x::nat) AND 0x07 = x mod 8"
  "(x::nat) AND 0x3f = x mod 64"
  using take_bit_eq_mask [of 5 x] take_bit_eq_mask [of 4 x] take_bit_eq_mask [of 3 x] take_bit_eq_mask [of 6 x]
  by (simp_all add: take_bit_eq_mod mask_eq_exp_minus_1)

lemma low_block:
  "192 \<le> x \<Longrightarrow> x < 224 \<Longrightarrow> (x::nat) mod 32 = x - 192" "224 \<le> x \<Longrightarrow> x < 240 \<Longrightarrow> (x::nat) mod 16 = x - 224"
  "240 \<le> x \<Longrightarrow> x < 248 \<Longrightarrow> (x::nat) mod 8 = x - 240" "128 \<le> x \<Longrightarrow> x < 192 \<Longrightarrow> (x::nat) mod 64 = x - 128"
  using block_rest [of 6 32 x] block_rest [of 14 16 x] block_rest [of 30 8 x] block_rest [of 2 64 x] by simp_all

lemma push_or: "push_bit 6 (v::nat) OR (x AND 0x3f) = v * 64 + x mod 64"
proof -
  have "push_bit 6 v OR (x AND 0x3f) = push_bit 6 v OR take_bit 6 x"
    using take_bit_eq_mask [of 6 x] by (simp add: mask_eq_exp_minus_1)
  also have "\<dots> = push_bit 6 v + take_bit 6 x"
    by (rule disjunctive_add [symmetric]) (auto simp: bit_simps)
  finally show ?thesis by (simp add: push_bit_eq_mult take_bit_eq_mod)
qed

subsection \<open>The grammar of strings\<close>

definition utf8_continuation :: "char \<Rightarrow> bool" where
  "utf8_continuation c \<longleftrightarrow> 0x80 \<le> byte c \<and> byte c \<le> 0xbf"

text \<open>The sequences of two, three and four bytes of RFC 3629.\<close>

fun utf8_sequence :: "string \<Rightarrow> bool" where
  "utf8_sequence [a, b] \<longleftrightarrow> 0xc2 \<le> byte a \<and> byte a \<le> 0xdf \<and> utf8_continuation b"
| "utf8_sequence [a, b, c] \<longleftrightarrow> utf8_continuation b \<and> utf8_continuation c \<and>
     (byte a = 0xe0 \<and> 0xa0 \<le> byte b \<or> 0xe1 \<le> byte a \<and> byte a \<le> 0xec \<or>
      byte a = 0xed \<and> byte b \<le> 0x9f \<or> 0xee \<le> byte a \<and> byte a \<le> 0xef)"
| "utf8_sequence [a, b, c, d] \<longleftrightarrow> utf8_continuation b \<and> utf8_continuation c \<and> utf8_continuation d \<and>
     (byte a = 0xf0 \<and> 0x90 \<le> byte b \<or> 0xf1 \<le> byte a \<and> byte a \<le> 0xf3 \<or> byte a = 0xf4 \<and> byte b \<le> 0x8f)"
| "utf8_sequence _ \<longleftrightarrow> False"

definition json_unescaped :: "string \<Rightarrow> bool" where
  "json_unescaped s \<longleftrightarrow>
     utf8_sequence s \<or> (\<exists>c. s = [c] \<and> 0x20 \<le> byte c \<and> byte c < 0x80 \<and> c \<noteq> CHR 0x22 \<and> c \<noteq> CHR 0x5C)"

definition hex4 :: "string \<Rightarrow> bool" where
  "hex4 s \<longleftrightarrow> length s = 4 \<and> list_all (\<lambda>c. hex_digit c \<noteq> None) s"

definition hex4_value :: "string \<Rightarrow> nat" where
  "hex4_value s = foldl (\<lambda>v c. v * 16 + the (hex_digit c)) 0 s"

text \<open>A code unit outside the surrogates, or a pair of a high and a low one, written as escapes.\<close>

definition unicode_escape :: "string \<Rightarrow> bool" where
  "unicode_escape s \<longleftrightarrow>
     (\<exists>h. s = [CHR 0x5C, CHR ''u''] @ h \<and> hex4 h \<and> \<not> (0xd800 \<le> hex4_value h \<and> hex4_value h \<le> 0xdfff)) \<or>
     (\<exists>h l. s = [CHR 0x5C, CHR ''u''] @ h @ [CHR 0x5C, CHR ''u''] @ l \<and> hex4 h \<and> hex4 l \<and>
        0xd800 \<le> hex4_value h \<and> hex4_value h \<le> 0xdbff \<and> 0xdc00 \<le> hex4_value l \<and> hex4_value l \<le> 0xdfff)"

definition json_char :: "string \<Rightarrow> bool" where
  "json_char s \<longleftrightarrow> json_unescaped s \<or> (\<exists>c. s = [CHR 0x5C, c] \<and> json_escape c \<noteq> None) \<or> unicode_escape s"

definition json_string :: "string \<Rightarrow> bool" where
  "json_string s \<longleftrightarrow> (\<exists>cs. list_all json_char cs \<and> s = [CHR 0x22] @ concat cs @ [CHR 0x22])"

subsection \<open>UTF-8 sequences\<close>

definition quiet :: json_control where
  "quiet n = (False, False)"

lemma Check_quiet [simp]: "json_Check quiet n = Inr (n + 1)"
  by (simp add: json_Check_def quiet_def)

definition utf8_number :: "nat \<Rightarrow> string \<Rightarrow> nat" where
  "utf8_number v us = foldl (\<lambda>v c. v * 64 + (byte c - 128)) v us"

lemma continuation_bits:
  "byte c AND 0xc0 \<noteq> 0x80 \<longleftrightarrow> \<not> utf8_continuation c"
  "utf8_continuation c \<Longrightarrow> push_bit 6 v OR (byte c AND 0x3f) = v * 64 + (byte c - 128)"
  using low_block(4) [of "byte c"] by (auto simp: head_bits utf8_continuation_def push_or)

lemma utf8_tail_sound:
  "utf8_tail k i v p = Inr (w, q) \<Longrightarrow>
   \<exists>us. fst p = us @ fst q \<and> length us = i \<and> list_all utf8_continuation us \<and> w = utf8_number v us"
proof (induction i arbitrary: v p)
  case (Suc i)
  then obtain n c cs where p: "fst p = c # cs" "utf8_continuation c"
    "utf8_tail k i (push_bit 6 v OR (byte c AND 0x3f)) (cs, n) = Inr (w, q)"
    by (cases "fst p") (auto simp: continuation_bits(1) split: if_splits)
  from Suc.IH [OF p(3)] obtain us where "cs = us @ fst q" "length us = i" "list_all utf8_continuation us"
    "w = utf8_number (v * 64 + (byte c - 128)) us" by (auto simp: continuation_bits(2) [OF p(2)])
  then show ?case using p by (intro exI [of _ "c # us"]) (simp add: utf8_number_def)
qed (simp add: utf8_number_def)

lemma utf8_tail_quiet:
  "list_all utf8_continuation us \<Longrightarrow> \<exists>n'. utf8_tail quiet (length us) v (us @ r, n) = Inr (utf8_number v us, (r, n'))"
proof (induction us arbitrary: v n)
  case (Cons c us)
  then show ?case using continuation_bits [of c] by (simp add: utf8_number_def)
qed (simp add: utf8_number_def)

definition utf8_valid :: "nat \<Rightarrow> nat \<Rightarrow> bool" where
  "utf8_valid minimum value \<longleftrightarrow> \<not> (value < minimum \<or> value > 0x10ffff \<or> 0xd800 \<le> value \<and> value \<le> 0xdfff)"

lemma utf8_head_cases:
  "utf8_head c = (if 192 \<le> byte c \<and> byte c < 224 then Some (1, byte c - 192, 0x80)
     else if 224 \<le> byte c \<and> byte c < 240 then Some (2, byte c - 224, 0x800)
     else if 240 \<le> byte c \<and> byte c < 248 then Some (3, byte c - 240, 0x10000) else None)"
  using low_block [of "byte c"] by (simp add: utf8_head_def Let_def head_bits low_bits)

text \<open>The value conditions of the reader are the byte ranges of the grammar.\<close>

lemma utf8_two: "j < 64 \<Longrightarrow> utf8_valid 0x80 (i * 64 + j) \<longleftrightarrow> 2 \<le> i" if "i < 32" for i j :: nat
  using that by (auto simp: utf8_valid_def)

lemma utf8_three:
  fixes i j l :: nat
  assumes "i < 16" and "j < 64" and "l < 64"
  shows "utf8_valid 0x800 ((i * 64 + j) * 64 + l) \<longleftrightarrow> (i = 0 \<and> 32 \<le> j \<or> 1 \<le> i \<and> i \<le> 12 \<or> i = 13 \<and> j < 32 \<or> 14 \<le> i)"
proof -
  have a: "(i * 64 + j) * 64 + l < 0x800 \<longleftrightarrow> i = 0 \<and> j < 32" using assms by auto
  have b: "0xd800 \<le> (i * 64 + j) * 64 + l \<longleftrightarrow> 13 < i \<or> i = 13 \<and> 32 \<le> j" using assms by auto
  have c: "(i * 64 + j) * 64 + l \<le> 0xdfff \<longleftrightarrow> i \<le> 13" using assms by auto
  have d: "(i * 64 + j) * 64 + l \<le> 0x10ffff" using assms by auto
  show ?thesis unfolding utf8_valid_def a b c using d assms by auto
qed

lemma utf8_four:
  fixes i j l m :: nat
  assumes "i < 8" and "j < 64" and "l < 64" and "m < 64"
  shows "utf8_valid 0x10000 (((i * 64 + j) * 64 + l) * 64 + m) \<longleftrightarrow> (i = 0 \<and> 16 \<le> j \<or> 1 \<le> i \<and> i \<le> 3 \<or> i = 4 \<and> j < 16)"
proof -
  let ?v = "((i * 64 + j) * 64 + l) * 64 + m"
  have a: "?v < 0x10000 \<longleftrightarrow> i = 0 \<and> j < 16" using assms by auto
  have b: "?v > 0x10ffff \<longleftrightarrow> 4 < i \<or> i = 4 \<and> 16 \<le> j" using assms by auto
  have c: "?v \<le> 0xdfff \<Longrightarrow> ?v < 0x10000" by simp
  have "utf8_valid 0x10000 ?v \<longleftrightarrow> \<not> (i = 0 \<and> j < 16) \<and> \<not> (4 < i \<or> i = 4 \<and> 16 \<le> j)"
    unfolding utf8_valid_def a [symmetric] b [symmetric] using c by blast
  then show ?thesis by auto
qed

lemma list_length_cases:
  "length us = 1 \<Longrightarrow> \<exists>b. us = [b]" "length us = 2 \<Longrightarrow> \<exists>b c. us = [b, c]" "length us = 3 \<Longrightarrow> \<exists>b c d. us = [b, c, d]"
  by (auto simp: numeral_eq_Suc length_Suc_conv)

lemma utf8_sequence_iff:
  assumes "list_all utf8_continuation us" and "0x80 \<le> byte a"
  shows "utf8_sequence (a # us) \<longleftrightarrow>
    (case utf8_head a of None \<Rightarrow> False
     | Some (count, value, minimum) \<Rightarrow> length us = count \<and> utf8_valid minimum (utf8_number value us))"
proof -
  have cont: "\<exists>j. byte c = 128 + j \<and> j < 64" if "utf8_continuation c" for c
    using that unfolding utf8_continuation_def by (intro exI [of _ "byte c - 128"]) auto
  consider (two) b where "us = [b]" | (three) b c where "us = [b, c]" | (four) b c d where "us = [b, c, d]"
    | (other) "length us \<noteq> 1" "length us \<noteq> 2" "length us \<noteq> 3"
    using list_length_cases by blast
  then show ?thesis
  proof cases
    case two
    obtain j where j: "byte b = 128 + j" "j < 64" using cont [of b] assms(1) two by auto
    show ?thesis
    proof (cases "192 \<le> byte a \<and> byte a < 224")
      case True
      then obtain i where "byte a = 192 + i" "i < 32" by (intro that [of "byte a - 192"]) auto
      then show ?thesis using two j assms(1) utf8_two [of i j]
        by (simp add: utf8_head_cases utf8_number_def utf8_continuation_def)
    next
      case False
      then show ?thesis using two by (auto simp: utf8_head_cases)
    qed
  next
    case three
    obtain j l where j: "byte b = 128 + j" "j < 64" "byte c = 128 + l" "l < 64"
      using cont [of b] cont [of c] assms(1) three by auto
    show ?thesis
    proof (cases "224 \<le> byte a \<and> byte a < 240")
      case True
      then obtain i where "byte a = 224 + i" "i < 16" by (intro that [of "byte a - 224"]) auto
      then show ?thesis using three j assms(1) utf8_three [of i j l]
        by (simp add: utf8_head_cases utf8_number_def utf8_continuation_def) linarith
    next
      case False
      then show ?thesis using three by (auto simp: utf8_head_cases)
    qed
  next
    case four
    obtain j l m where j: "byte b = 128 + j" "j < 64" "byte c = 128 + l" "l < 64" "byte d = 128 + m" "m < 64"
      using cont [of b] cont [of c] cont [of d] assms(1) four by auto
    show ?thesis
    proof (cases "240 \<le> byte a \<and> byte a < 248")
      case True
      then obtain i where "byte a = 240 + i" "i < 8" by (intro that [of "byte a - 240"]) auto
      then show ?thesis using four j assms(1) utf8_four [of i j l m]
        by (simp add: utf8_head_cases utf8_number_def utf8_continuation_def) linarith
    next
      case False
      then show ?thesis using four by (auto simp: utf8_head_cases)
    qed
  next
    case other
    then have "\<not> utf8_sequence (a # us)" by (cases "a # us" rule: utf8_sequence.cases) auto
    then show ?thesis using other by (auto simp: utf8_head_cases)
  qed
qed

lemma utf8_sequence_continuations: "utf8_sequence (a # us) \<Longrightarrow> list_all utf8_continuation us \<and> 0x80 \<le> byte a"
  by (cases "a # us" rule: utf8_sequence.cases) (auto simp: utf8_continuation_def)

lemma SkipUtf8_sound:
  assumes "SkipUtf8 k c p = Inr q" and "0x20 \<le> byte c" and "c \<noteq> CHR 0x22" and "c \<noteq> CHR 0x5C"
  shows "\<exists>us. fst p = us @ fst q \<and> json_unescaped (c # us)"
proof (cases "byte c < 0x80")
  case True
  then show ?thesis using assms by (intro exI [of _ "[]"]) (simp add: SkipUtf8_def json_unescaped_def)
next
  case False
  then obtain count v mn w where h: "utf8_head c = Some (count, v, mn)" "utf8_tail k count v p = Inr (w, q)" "utf8_valid mn w"
    using assms(1) by (auto simp: SkipUtf8_def utf8_valid_def split: option.splits if_splits)
  from utf8_tail_sound [OF h(2)] obtain us where us: "fst p = us @ fst q" "length us = count"
    "list_all utf8_continuation us" "w = utf8_number v us" by blast
  then have "utf8_sequence (c # us)" using utf8_sequence_iff [OF us(3), of c] False h by simp
  then show ?thesis using us(1) by (auto simp: json_unescaped_def)
qed

lemma SkipUtf8_quiet:
  assumes "json_unescaped (c # us)"
  shows "\<exists>n'. SkipUtf8 quiet c (us @ r, n) = Inr (r, n')"
proof (cases "utf8_sequence (c # us)")
  case True
  then have u: "list_all utf8_continuation us" "0x80 \<le> byte c" using utf8_sequence_continuations by auto
  with utf8_sequence_iff [OF u] True obtain v mn where h: "utf8_head c = Some (length us, v, mn)"
    "utf8_valid mn (utf8_number v us)" by (auto split: option.splits)
  obtain n' where "utf8_tail quiet (length us) v (us @ r, n) = Inr (utf8_number v us, (r, n'))"
    using utf8_tail_quiet [OF u(1)] by blast
  then show ?thesis using h u(2) by (auto simp: SkipUtf8_def utf8_valid_def)
next
  case False
  then show ?thesis using assms by (auto simp: json_unescaped_def SkipUtf8_def)
qed

subsection \<open>Escapes\<close>

definition hex_number :: "nat \<Rightarrow> string \<Rightarrow> nat" where
  "hex_number v us = foldl (\<lambda>v c. v * 16 + the (hex_digit c)) v us"

lemma hex_loop_sound:
  "hex_loop k i r p = Inr (v, q) \<Longrightarrow>
   \<exists>us. fst p = us @ fst q \<and> length us = i \<and> list_all (\<lambda>c. hex_digit c \<noteq> None) us \<and> v = hex_number r us"
proof (induction i arbitrary: r p)
  case (Suc i)
  then obtain n c cs d where p: "fst p = c # cs" "hex_digit c = Some d" "hex_loop k i (push_bit 4 r + d) (cs, n) = Inr (v, q)"
    by (cases "fst p") (auto split: option.splits)
  from Suc.IH [OF p(3)] obtain us where "cs = us @ fst q" "length us = i" "list_all (\<lambda>c. hex_digit c \<noteq> None) us"
    "v = hex_number (push_bit 4 r + d) us" by auto
  then show ?case using p(1,2) by (intro exI [of _ "c # us"]) (simp add: hex_number_def push_bit_eq_mult)
qed (simp add: hex_number_def)

lemma hex_loop_quiet:
  "list_all (\<lambda>c. hex_digit c \<noteq> None) us \<Longrightarrow> \<exists>n'. hex_loop quiet (length us) r (us @ rest, n) = Inr (hex_number r us, (rest, n'))"
proof (induction us arbitrary: r n)
  case (Cons c us)
  then obtain d where d: "hex_digit c = Some d" by auto
  have "\<exists>n'. hex_loop quiet (length us) (push_bit 4 r + d) (us @ rest, n + 1) = Inr (hex_number (push_bit 4 r + d) us, (rest, n'))"
    using Cons by simp
  then show ?case using d by (simp add: hex_number_def push_bit_eq_mult)
qed (simp add: hex_number_def)

lemma ParseHexCodeUnit_sound:
  "ParseHexCodeUnit k p = Inr (v, q) \<Longrightarrow> \<exists>h. fst p = h @ fst q \<and> hex4 h \<and> v = hex4_value h"
  unfolding ParseHexCodeUnit_def using hex_loop_sound
  by (fastforce simp: hex4_def hex4_value_def hex_number_def)

lemma ParseHexCodeUnit_quiet: "hex4 h \<Longrightarrow> \<exists>n'. ParseHexCodeUnit quiet (h @ r, n) = Inr (hex4_value h, (r, n'))"
  using hex_loop_quiet [of h 0 r n] by (simp add: hex4_def hex4_value_def hex_number_def ParseHexCodeUnit_def)

text \<open>What an escape after \<open>u\<close> denotes.\<close>

definition high_surrogate :: "nat \<Rightarrow> bool" where
  "high_surrogate v \<longleftrightarrow> 0xd800 \<le> v \<and> v \<le> 0xdbff"

definition low_surrogate :: "nat \<Rightarrow> bool" where
  "low_surrogate v \<longleftrightarrow> 0xdc00 \<le> v \<and> v \<le> 0xdfff"

definition surrogate_pair :: "nat \<Rightarrow> nat \<Rightarrow> nat" where
  "surrogate_pair h l = 0x10000 + (h - 0xd800) * 0x400 + (l - 0xdc00)"

inductive escape_denotes :: "string \<Rightarrow> nat \<Rightarrow> bool" where
  unit: "hex4 h \<Longrightarrow> \<not> high_surrogate (hex4_value h) \<Longrightarrow> \<not> low_surrogate (hex4_value h) \<Longrightarrow> escape_denotes h (hex4_value h)"
| pair: "hex4 h \<Longrightarrow> hex4 l \<Longrightarrow> high_surrogate (hex4_value h) \<Longrightarrow> low_surrogate (hex4_value l) \<Longrightarrow>
    escape_denotes (h @ [CHR 0x5C, CHR ''u''] @ l) (surrogate_pair (hex4_value h) (hex4_value l))"

lemma unicode_escape_denotes: "unicode_escape ([CHR 0x5C, CHR ''u''] @ us) \<longleftrightarrow> (\<exists>v. escape_denotes us v)"
  unfolding unicode_escape_def escape_denotes.simps high_surrogate_def low_surrogate_def by auto

lemma ParseEscapedUnicode_sound:
  assumes "ParseEscapedUnicode k p = Inr (v, q)"
  shows "\<exists>us. fst p = us @ fst q \<and> escape_denotes us v"
proof -
  from assms obtain u r where u: "ParseHexCodeUnit k p = Inr (u, r)"
    and rest: "(if high_surrogate u then
         (if take 2 (fst r) \<noteq> [CHR 0x5C, CHR ''u''] then Inl JsonMalformed
          else and_then (ParseHexCodeUnit k (drop 2 (fst r), snd r)) (\<lambda>(low, p).
            if \<not> low_surrogate low then Inl JsonMalformed else Inr (surrogate_pair u low, p)))
       else if low_surrogate u then Inl JsonMalformed else Inr (u, r)) = Inr (v, q)"
    by (cases "ParseHexCodeUnit k p")
      (auto simp: ParseEscapedUnicode_def high_surrogate_def low_surrogate_def surrogate_pair_def push_bit_eq_mult not_le
        cong: if_cong)
  from ParseHexCodeUnit_sound [OF u] obtain h where h: "fst p = h @ fst r" "hex4 h" "u = hex4_value h" by blast
  show ?thesis
  proof (cases "high_surrogate u")
    case True
    then obtain low where t: "take 2 (fst r) = [CHR 0x5C, CHR ''u'']"
      and low: "ParseHexCodeUnit k (drop 2 (fst r), snd r) = Inr (low, q)" "low_surrogate low" "v = surrogate_pair u low"
      using rest by (auto split: if_splits)
    from ParseHexCodeUnit_sound [OF low(1)] obtain l where l: "drop 2 (fst r) = l @ fst q" "hex4 l" "low = hex4_value l"
      by auto
    have "fst r = [CHR 0x5C, CHR ''u''] @ l @ fst q" using t l(1) append_take_drop_id [of 2 "fst r"] by simp
    then show ?thesis using h l low True escape_denotes.pair [of h l] by (intro exI [of _ "h @ [CHR 0x5C, CHR ''u''] @ l"]) simp
  next
    case False
    then show ?thesis using rest h escape_denotes.unit [of h] by (auto split: if_splits)
  qed
qed

lemma ParseEscapedUnicode_quiet:
  assumes "escape_denotes us v"
  shows "\<exists>n'. ParseEscapedUnicode quiet (us @ r, n) = Inr (v, (r, n'))"
  using assms
proof cases
  case unit
  then show ?thesis using ParseHexCodeUnit_quiet [of us r n]
    by (auto simp: ParseEscapedUnicode_def high_surrogate_def low_surrogate_def)
next
  case (pair h l)
  obtain n1 where 1: "ParseHexCodeUnit quiet (h @ [CHR 0x5C, CHR ''u''] @ l @ r, n) =
      Inr (hex4_value h, ([CHR 0x5C, CHR ''u''] @ l @ r, n1))"
    using ParseHexCodeUnit_quiet [OF pair(3)] by blast
  obtain n2 where 2: "ParseHexCodeUnit quiet (l @ r, n1) = Inr (hex4_value l, (r, n2))"
    using ParseHexCodeUnit_quiet [OF pair(4)] by blast
  show ?thesis using 1 2 pair
    by (simp add: ParseEscapedUnicode_def high_surrogate_def low_surrogate_def surrogate_pair_def push_bit_eq_mult)
qed

subsection \<open>String tokens\<close>

lemma backslash_byte: "c = CHR 0x5C \<Longrightarrow> \<not> byte c < 0x20"
  by (simp add: byte_def)

lemma skip_string_loop_sound:
  "skip_string_loop k p = Inr q \<Longrightarrow> \<exists>cs. list_all json_char cs \<and> fst p = concat cs @ [CHR 0x22] @ fst q"
proof (induction k p rule: skip_string_loop.induct)
  case (2 k c cs n)
  from 2(4) obtain n' where n: "json_Check k n = Inr n'" by auto
  have step: "\<exists>ds. list_all json_char ds \<and> c # cs = concat ds @ [CHR 0x22] @ fst q"
    if "c # cs = us @ rest" "json_char us" "\<exists>ds. list_all json_char ds \<and> rest = concat ds @ [CHR 0x22] @ fst q" for us rest
    using that by (metis append.assoc concat.simps(2) list.pred_inject(2))
  consider (quote) "c = CHR 0x22" | (control) "byte c < 0x20" "c \<noteq> CHR 0x22"
    | (plain) "c \<noteq> CHR 0x22" "0x20 \<le> byte c" "c \<noteq> CHR 0x5C" | (escape) "c = CHR 0x5C" "\<not> byte c < 0x20"
    using backslash_byte not_less by blast
  then show ?case
  proof cases
    case quote
    then show ?thesis using 2(4) n by (intro exI [of _ "[]"]) auto
  next
    case control
    then show ?thesis using 2(4) n by simp
  next
    case plain
    then obtain r where r: "SkipUtf8 k c (cs, n') = Inr r" "skip_string_loop k r = Inr q" using 2(4) n by auto
    obtain us where "cs = us @ fst r" "json_unescaped (c # us)" using SkipUtf8_sound [OF r(1)] plain by auto
    moreover from this(2) have "json_char (c # us)" by (simp add: json_char_def)
    ultimately show ?thesis using step [of "c # us" "fst r"] 2(1) [OF n _ _ _ r(1,2)] plain by simp
  next
    case escape
    then obtain e es where cs: "cs = e # es" using 2(4) n by (cases cs) auto
    show ?thesis
    proof (cases "e = CHR ''u''")
      case True
      then obtain v r where r: "ParseEscapedUnicode k (es, n') = Inr (v, r)" "skip_string_loop k r = Inr q"
        using 2(4) n escape cs by auto
      obtain us where us: "es = us @ fst r" "escape_denotes us v" using ParseEscapedUnicode_sound [OF r(1)] by auto
      have "json_char ([CHR 0x5C, CHR ''u''] @ us)"
        unfolding json_char_def unicode_escape_denotes using us(2) by blast
      then show ?thesis using step [of "[CHR 0x5C, CHR ''u''] @ us" "fst r"] 2(2) [OF n _ _ _ cs True r(1) refl r(2)] escape us cs True
        by simp
    next
      case False
      then have e: "json_escape e \<noteq> None" "skip_string_loop k (es, n') = Inr q" using 2(4) n escape cs by (auto split: if_splits)
      then have "json_char [CHR 0x5C, e]" by (simp add: json_char_def)
      then show ?thesis using step [of "[CHR 0x5C, e]" es] 2(3) [OF n _ _ _ cs False e] escape cs by simp
    qed
  qed
qed simp

lemma json_unescaped_head: "json_unescaped (c # us) \<Longrightarrow> 0x20 \<le> byte c \<and> c \<noteq> CHR 0x22 \<and> c \<noteq> CHR 0x5C"
  using utf8_sequence_continuations [of c us] by (auto simp: json_unescaped_def byte_def)

lemma json_unescaped_Cons: "json_unescaped s \<Longrightarrow> \<exists>c us. s = c # us"
  by (cases s) (auto simp: json_unescaped_def)

lemma json_char_cases:
  assumes "json_char s"
  obtains (plain) "json_unescaped s" | (escape) e where "s = [CHR 0x5C, e]" "json_escape e \<noteq> None"
    | (unicode) us v where "s = [CHR 0x5C, CHR ''u''] @ us" "escape_denotes us v"
proof -
  have "\<exists>us v. s = [CHR 0x5C, CHR ''u''] @ us \<and> escape_denotes us v" if "unicode_escape s"
  proof -
    from that obtain us where us: "s = [CHR 0x5C, CHR ''u''] @ us" unfolding unicode_escape_def by blast
    then show ?thesis using that unicode_escape_denotes [of us] by blast
  qed
  then show thesis using assms that unfolding json_char_def by blast
qed

lemma skip_string_loop_quiet:
  "list_all json_char cs \<Longrightarrow> \<exists>n'. skip_string_loop quiet (concat cs @ [CHR 0x22] @ r, n) = Inr (r, n')"
proof (induction cs arbitrary: n)
  case (Cons s cs)
  note IH = Cons.IH [OF conjunct2 [OF Cons.prems [simplified]]]
  let ?rest = "concat cs @ [CHR 0x22] @ r"
  from Cons.prems have "json_char s" by simp
  then show ?case
  proof (cases s rule: json_char_cases)
    case plain
    then obtain c us where s: "s = c # us" using json_unescaped_Cons by blast
    obtain n' where "SkipUtf8 quiet c (us @ ?rest, n + 1) = Inr (?rest, n')" using SkipUtf8_quiet plain s by blast
    then show ?thesis using json_unescaped_head [of c us] plain s IH [of n'] by auto
  next
    case (escape e)
    moreover have "e \<noteq> CHR ''u''" using escape(2) by (auto simp: json_escape_def)
    ultimately show ?thesis using IH [of "n + 1"] backslash_byte by auto
  next
    case (unicode us v)
    obtain n' where "ParseEscapedUnicode quiet (us @ ?rest, n + 1) = Inr (v, (?rest, n'))"
      using ParseEscapedUnicode_quiet [OF unicode(2)] by blast
    then show ?thesis using unicode IH [of n'] backslash_byte by auto
  qed
qed simp

lemma Expect_Inr: "Expect k c p = Inr q \<Longrightarrow> fst p = c # fst q"
  by (cases "fst p") (auto simp: Expect_def split: if_splits)

lemma Expect_quiet: "Expect quiet c (c # cs, n) = Inr (cs, n + 1)"
  by (simp add: Expect_def)

lemma SkipString_sound: "SkipString k p = Inr q \<Longrightarrow> \<exists>s. json_string s \<and> fst p = s @ fst q"
proof -
  assume "SkipString k p = Inr q"
  then obtain r where r: "Expect k CHR 0x22 p = Inr r" "skip_string_loop k r = Inr q" by (auto simp: SkipString_def)
  from skip_string_loop_sound [OF r(2)] obtain cs where cs: "list_all json_char cs" "fst r = concat cs @ [CHR 0x22] @ fst q"
    by blast
  then show ?thesis using Expect_Inr [OF r(1)]
    by (intro exI [of _ "[CHR 0x22] @ concat cs @ [CHR 0x22]"]) (auto simp: json_string_def)
qed

lemma SkipString_quiet: "json_string s \<Longrightarrow> \<exists>n'. SkipString quiet (s @ r, n) = Inr (r, n')"
  using skip_string_loop_quiet by (auto simp: json_string_def SkipString_def Expect_def)

subsection \<open>White space, numbers and literals\<close>

lemma whitespace_loop_sound:
  "whitespace_loop k n s = Inr q \<Longrightarrow>
   \<exists>w. list_all json_whitespace w \<and> s = w @ fst q \<and> (fst q = [] \<or> \<not> json_whitespace (hd (fst q)))"
proof (induction k n s rule: whitespace_loop.induct)
  case (2 k n c cs)
  then obtain n' where n: "json_Check k n = Inr n'" by auto
  show ?case
  proof (cases "json_whitespace c")
    case True
    then obtain w where "list_all json_whitespace w" "cs = w @ fst q" "fst q = [] \<or> \<not> json_whitespace (hd (fst q))"
      using 2(1) [OF n] 2(2) n by auto
    then show ?thesis using True by (intro exI [of _ "c # w"]) simp
  next
    case False
    then show ?thesis using 2(2) n by (intro exI [of _ "[]"]) auto
  qed
qed auto

lemma whitespace_loop_quiet:
  "list_all json_whitespace w \<Longrightarrow> r = [] \<or> \<not> json_whitespace (hd r) \<Longrightarrow>
   \<exists>n'. whitespace_loop quiet n (w @ r) = Inr (r, n')"
proof (induction w arbitrary: n)
  case Nil
  then show ?case by (cases r) auto
qed auto

lemma SkipWhitespace_sound:
  "SkipWhitespace k p = Inr q \<Longrightarrow>
   \<exists>w. list_all json_whitespace w \<and> fst p = w @ fst q \<and> (fst q = [] \<or> \<not> json_whitespace (hd (fst q)))"
  unfolding SkipWhitespace_def by (rule whitespace_loop_sound)

lemma SkipWhitespace_quiet:
  "list_all json_whitespace w \<Longrightarrow> r = [] \<or> \<not> json_whitespace (hd r) \<Longrightarrow>
   \<exists>n'. SkipWhitespace quiet (w @ r, n) = Inr (r, n')"
  unfolding SkipWhitespace_def using whitespace_loop_quiet by simp

text \<open>Numbers of RFC 8259: an optional sign, an integer part, an optional fraction and an optional exponent.\<close>

definition digit_string :: "string \<Rightarrow> bool" where
  "digit_string s \<longleftrightarrow> s \<noteq> [] \<and> list_all json_digit s"

definition json_int :: "string \<Rightarrow> bool" where
  "json_int s \<longleftrightarrow> s = ''0'' \<or> digit_string s \<and> hd s \<noteq> CHR ''0''"

definition json_frac :: "string \<Rightarrow> bool" where
  "json_frac s \<longleftrightarrow> s = [] \<or> (\<exists>d. s = ''.'' @ d \<and> digit_string d)"

definition json_exp :: "string \<Rightarrow> bool" where
  "json_exp s \<longleftrightarrow> s = [] \<or> (\<exists>e sign d. s = e @ sign @ d \<and> e \<in> {''e'', ''E''} \<and> sign \<in> {[], ''+'', ''-''} \<and> digit_string d)"

definition json_number :: "string \<Rightarrow> bool" where
  "json_number s \<longleftrightarrow> (\<exists>sign i f e. s = sign @ i @ f @ e \<and> sign \<in> {[], ''-''} \<and> json_int i \<and> json_frac f \<and> json_exp e)"

text \<open>A number ends where none of its parts can go on.\<close>

definition number_ends :: "string \<Rightarrow> bool" where
  "number_ends r \<longleftrightarrow> r = [] \<or> \<not> json_digit (hd r) \<and> hd r \<notin> {CHR ''.'', CHR ''e'', CHR ''E''}"

lemma digits_loop_sound:
  "json_digits_loop k n s = Inr q \<Longrightarrow> \<exists>d. list_all json_digit d \<and> s = d @ fst q \<and> (fst q = [] \<or> \<not> json_digit (hd (fst q)))"
proof (induction k n s rule: json_digits_loop.induct)
  case (2 k n c cs)
  show ?case
  proof (cases "json_digit c")
    case True
    then obtain n' where n: "json_Check k n = Inr n'" using 2(2) by auto
    then obtain d where "list_all json_digit d" "cs = d @ fst q" "fst q = [] \<or> \<not> json_digit (hd (fst q))"
      using 2(1) True 2(2) by auto
    then show ?thesis using True by (intro exI [of _ "c # d"]) simp
  next
    case False
    then show ?thesis using 2(2) by (intro exI [of _ "[]"]) auto
  qed
qed auto

lemma digits_loop_quiet:
  "list_all json_digit d \<Longrightarrow> r = [] \<or> \<not> json_digit (hd r) \<Longrightarrow> \<exists>n'. json_digits_loop quiet n (d @ r) = Inr (r, n')"
proof (induction d arbitrary: n)
  case Nil
  then show ?case by (cases r) auto
qed auto

lemma Peek_simps [simp]: "json_Peek ([], n) = CHR 0x00" "json_Peek (c # cs, n) = c" "json_advance (c # cs, n) = (cs, n)"
  by (simp_all add: json_Peek_def json_advance_def)

lemma digit_chars [simp]:
  "\<not> json_digit CHR 0x00" "\<not> json_digit CHR ''.''" "\<not> json_digit CHR ''e''" "\<not> json_digit CHR ''E''"
  "\<not> json_digit CHR ''+''" "\<not> json_digit CHR ''-''" "\<not> json_digit CHR '',''" "\<not> json_digit CHR '']''"
  "\<not> json_digit CHR ''}''" "json_digit CHR ''0''"
  by code_simp+

lemma one_to_nine: "in_range CHR ''1'' CHR ''9'' c \<longleftrightarrow> json_digit c \<and> c \<noteq> CHR ''0''"
proof -
  have "byte c = 48 \<longleftrightarrow> c = CHR ''0''" using byte_inject [of c "CHR ''0''"] by (simp only: byte_digits)
  then show ?thesis by (auto simp: json_digit_def in_range_def byte_digits)
qed

text \<open>Where a rest cannot continue digits.\<close>

definition no_digit :: "string \<Rightarrow> bool" where
  "no_digit r \<longleftrightarrow> r = [] \<or> \<not> json_digit (hd r)"

lemma digits1_sound: "json_digits1 k p = Inr q \<Longrightarrow> \<exists>d. digit_string d \<and> fst p = d @ fst q \<and> no_digit (fst q)"
proof -
  assume a: "json_digits1 k p = Inr q"
  then have h: "json_digit (json_Peek p)" "json_digits_loop k (snd p) (fst p) = Inr q"
    by (auto simp: json_digits1_def json_digits_def split: if_splits)
  from digits_loop_sound [OF h(2)] obtain d where d: "list_all json_digit d" "fst p = d @ fst q" "no_digit (fst q)"
    by (auto simp: no_digit_def)
  have "d \<noteq> []" using d h(1) by (cases p; cases "fst q") (auto simp: no_digit_def json_Peek_def)
  then show ?thesis using d by (auto simp: digit_string_def)
qed

lemma digits1_quiet: "digit_string d \<Longrightarrow> no_digit r \<Longrightarrow> \<exists>n'. json_digits1 quiet (d @ r, n) = Inr (r, n')"
  using digits_loop_quiet [of d r n]
  by (cases d) (auto simp: json_digits1_def json_digits_def digit_string_def no_digit_def)

lemma integer_part_sound: "json_integer_part k p = Inr q \<Longrightarrow> \<exists>i. json_int i \<and> fst p = i @ fst q"
proof -
  assume a: "json_integer_part k p = Inr q"
  show ?thesis
  proof (cases "json_Peek p = CHR ''0''")
    case True
    then obtain cs where "fst p = CHR ''0'' # cs" by (cases "fst p") (auto simp: json_Peek_def)
    then show ?thesis using a True
      by (intro exI [of _ "''0''"]) (auto simp: json_integer_part_def json_int_def json_advance_def Let_def split: if_splits)
  next
    case False
    then have "json_digits1 k p = Inr q" "json_digit (json_Peek p)"
      using a by (auto simp: json_integer_part_def json_digits1_def one_to_nine split: if_splits)
    then obtain d where d: "digit_string d" "fst p = d @ fst q" using digits1_sound by blast
    then have "hd d \<noteq> CHR ''0''" using False by (cases d) (auto simp: json_Peek_def digit_string_def)
    then show ?thesis using d by (auto simp: json_int_def)
  qed
qed

lemma integer_part_quiet:
  assumes "json_int i" and "no_digit r"
  shows "\<exists>n'. json_integer_part quiet (i @ r, n) = Inr (r, n')"
proof (cases "i = ''0''")
  case True
  then show ?thesis using assms(2) by (cases r) (auto simp: json_integer_part_def no_digit_def)
next
  case False
  then have d: "digit_string i" "hd i \<noteq> CHR ''0''" using assms(1) by (auto simp: json_int_def)
  then have "json_integer_part quiet (i @ r, n) = json_digits1 quiet (i @ r, n)"
    by (cases i) (auto simp: json_integer_part_def json_digits1_def one_to_nine digit_string_def)
  then show ?thesis using digits1_quiet [OF d(1) assms(2), of n] by simp
qed

lemma fraction_sound: "json_fraction k p = Inr q \<Longrightarrow> \<exists>f. json_frac f \<and> fst p = f @ fst q"
proof (cases "json_Peek p = CHR ''.''")
  case True
  assume a: "json_fraction k p = Inr q"
  obtain cs where p: "fst p = CHR ''.'' # cs" using True by (cases "fst p") (auto simp: json_Peek_def)
  then obtain d where "digit_string d" "cs = d @ fst q"
    using a True digits1_sound [of k "json_advance p" q] by (auto simp: json_fraction_def json_advance_def)
  then show ?thesis using p by (intro exI [of _ "''.'' @ d"]) (auto simp: json_frac_def)
qed (auto simp: json_fraction_def json_frac_def)

lemma fraction_quiet:
  assumes "json_frac f" and "no_digit r" and "r = [] \<or> hd r \<noteq> CHR ''.''"
  shows "\<exists>n'. json_fraction quiet (f @ r, n) = Inr (r, n')"
proof (cases "f = []")
  case True
  then show ?thesis using assms(3) by (cases r) (auto simp: json_fraction_def)
next
  case False
  then obtain d where "f = ''.'' @ d" "digit_string d" using assms(1) by (auto simp: json_frac_def)
  then show ?thesis using digits1_quiet [of d r n] assms(2) by (simp add: json_fraction_def)
qed

lemma exponent_sound:
  assumes a: "json_exponent k p = Inr q"
  shows "\<exists>e. json_exp e \<and> fst p = e @ fst q"
proof (cases "json_Peek p = CHR ''e'' \<or> json_Peek p = CHR ''E''")
  case True
  then obtain c cs where p: "fst p = c # cs" "[c] \<in> {''e'', ''E''}" by (cases "fst p") (auto simp: json_Peek_def)
  define r where "r = json_advance p"
  have r: "fst r = cs" using p(1) by (simp add: r_def json_advance_def)
  have dig: "json_digits1 k (if json_Peek r = CHR ''+'' \<or> json_Peek r = CHR ''-'' then json_advance r else r) = Inr q"
    using a True unfolding json_exponent_def Let_def r_def by (simp only: if_True)
  show ?thesis
  proof (cases "json_Peek r = CHR ''+'' \<or> json_Peek r = CHR ''-''")
    case sign: True
    then obtain g es where g: "cs = g # es" "[g] \<in> {[], ''+'', ''-''}" using r by (cases cs) (auto simp: json_Peek_def)
    obtain d where "digit_string d" "es = d @ fst q"
      using digits1_sound [of k "json_advance r" q] dig sign g r by (auto simp: json_advance_def)
    then show ?thesis using p g unfolding json_exp_def
      by (intro exI [of _ "[c] @ [g] @ d"] conjI disjI2 exI [of _ "[c]"] exI [of _ "[g]"] exI [of _ d]) auto
  next
    case False
    then obtain d where "digit_string d" "cs = d @ fst q" using digits1_sound [of k r q] dig r by auto
    then show ?thesis using p unfolding json_exp_def
      by (intro exI [of _ "[c] @ [] @ d"] conjI disjI2 exI [of _ "[c]"] exI [of _ "[]"] exI [of _ d]) auto
  qed
qed (use a in \<open>auto simp: json_exponent_def json_exp_def\<close>)

lemma exponent_quiet:
  assumes "json_exp e" and "number_ends r"
  shows "\<exists>n'. json_exponent quiet (e @ r, n) = Inr (r, n')"
proof (cases "e = []")
  case True
  then show ?thesis using assms(2) by (cases r) (auto simp: json_exponent_def number_ends_def)
next
  case False
  then obtain c g d where e: "e = c @ g @ d" "c \<in> {''e'', ''E''}" "g \<in> {[], ''+'', ''-''}" "digit_string d"
    using assms(1) by (auto simp: json_exp_def)
  have d: "json_digit (hd d)" "d \<noteq> []" using e(4) by (cases d; auto simp: digit_string_def)+
  have "no_digit r" using assms(2) by (auto simp: number_ends_def no_digit_def)
  then obtain n' where "json_digits1 quiet (d @ r, n) = Inr (r, n')" using digits1_quiet [OF e(4)] by blast
  then show ?thesis using e d by (cases d) (auto simp: json_exponent_def Let_def)
qed

lemma number_sound: "json_number_scan k p = Inr q \<Longrightarrow> \<exists>s. json_number s \<and> fst p = s @ fst q"
proof -
  assume a: "json_number_scan k p = Inr q"
  define r where "r = (if json_Peek p = CHR ''-'' then json_advance p else p)"
  obtain sign where sign: "sign \<in> {[], ''-''}" "fst p = sign @ fst r"
  proof (cases "json_Peek p = CHR ''-''")
    case True
    then show ?thesis using that [of "''-''"] by (cases "fst p") (auto simp: r_def json_Peek_def json_advance_def)
  next
    case False
    then show ?thesis using that [of "[]"] by (simp add: r_def)
  qed
  obtain s t where s: "json_integer_part k r = Inr s" "json_fraction k s = Inr t" "json_exponent k t = Inr q"
    using a by (auto simp: json_number_scan_def r_def)
  obtain i f e where "json_int i" "fst r = i @ fst s" "json_frac f" "fst s = f @ fst t" "json_exp e" "fst t = e @ fst q"
    using integer_part_sound [OF s(1)] fraction_sound [OF s(2)] exponent_sound [OF s(3)] by blast
  then show ?thesis using sign
    by (intro exI [of _ "sign @ i @ f @ e"]) (auto simp: json_number_def)
qed

lemma number_quiet:
  assumes "json_number s" and "number_ends r"
  shows "\<exists>n'. json_number_scan quiet (s @ r, n) = Inr (r, n')"
proof -
  obtain sign i f e where s: "s = sign @ i @ f @ e" "sign \<in> {[], ''-''}" "json_int i" "json_frac f" "json_exp e"
    using assms(1) by (auto simp: json_number_def)
  have e: "no_digit (e @ r)" "e @ r = [] \<or> hd (e @ r) \<noteq> CHR ''.''"
    using s(5) assms(2) by (auto simp: json_exp_def number_ends_def no_digit_def)
  have f: "no_digit (f @ e @ r)" using s(4) e(1) by (auto simp: json_frac_def no_digit_def)
  have i: "i \<noteq> []" "hd i \<noteq> CHR ''-''" using s(3) by (cases i; auto simp: json_int_def digit_string_def)+
  have start: "(if json_Peek (s @ r, n) = CHR ''-'' then json_advance (s @ r, n) else (s @ r, n)) = (i @ f @ e @ r, n)"
    using s(1,2) i by (cases i) auto
  obtain n1 where 1: "json_integer_part quiet (i @ f @ e @ r, n) = Inr (f @ e @ r, n1)" using integer_part_quiet [OF s(3) f] by blast
  obtain n2 where 2: "json_fraction quiet (f @ e @ r, n1) = Inr (e @ r, n2)" using fraction_quiet [OF s(4) e] by blast
  obtain n3 where "json_exponent quiet (e @ r, n2) = Inr (r, n3)" using exponent_quiet [OF s(5) assms(2)] by blast
  then show ?thesis unfolding json_number_scan_def start using 1 2 by simp
qed

end
