(* ===== verification/Json_Document.thy ===== *)
theory Json_Document
  imports Json_Grammar
begin

text \<open>
  Values and documents of the strict JSON reader: the fuel of \<open>SkipValue\<close> suffices for every input, a check that
  interrupts is the only way in which the control object and the clock matter, and the documents accepted are
  those of RFC 8259 up to the nesting limit.
\<close>

subsection \<open>Results that differ by an error only\<close>

text \<open>A result is the other one, or one of the errors \<open>E\<close>.\<close>

definition up_to :: "json_error set \<Rightarrow> json_error + 'a \<Rightarrow> json_error + 'a \<Rightarrow> bool" where
  "up_to E a b \<longleftrightarrow> a = b \<or> (\<exists>e\<in>E. a = Inl e)"

lemma up_to_refl [simp]: "up_to E a a"
  by (simp add: up_to_def)

lemma up_to_error: "e \<in> E \<Longrightarrow> up_to E (Inl e) b"
  by (auto simp: up_to_def)

lemma up_to_and_then:
  "up_to E a b \<Longrightarrow> (\<And>x. b = Inr x \<Longrightarrow> up_to E (f x) (g x)) \<Longrightarrow> up_to E (and_then a f) (and_then b g)"
  by (cases b) (auto simp: up_to_def)

lemma up_to_if: "(c \<Longrightarrow> up_to E a b) \<Longrightarrow> (\<not> c \<Longrightarrow> up_to E a' b') \<Longrightarrow> up_to E (if c then a else a') (if c then b else b')"
  by simp

subsection \<open>Interruptions\<close>

text \<open>The errors that the checks of a control can raise.\<close>

definition interruptions :: "json_control \<Rightarrow> json_error set" where
  "interruptions k =
     {JsonCancelled |n. fst (k n)} \<union> {JsonResource ''wall_milliseconds'' |n. \<not> fst (k n) \<and> snd (k n)}"

lemma Check_up_to: "up_to (interruptions k) (json_Check k n) (json_Check quiet n)"
  by (auto simp: up_to_def json_Check_def quiet_def interruptions_def)

lemma whitespace_loop_up_to: "up_to (interruptions k) (whitespace_loop k n s) (whitespace_loop quiet n s)"
  by (induction s arbitrary: n) (simp_all add: up_to_and_then Check_up_to del: Check_quiet)

lemma SkipWhitespace_up_to: "up_to (interruptions k) (SkipWhitespace k p) (SkipWhitespace quiet p)"
  by (simp add: SkipWhitespace_def whitespace_loop_up_to)

lemma Expect_up_to: "up_to (interruptions k) (Expect k c p) (Expect quiet c p)"
  unfolding Expect_def by (rule up_to_and_then [OF Check_up_to]) simp

lemma hex_loop_up_to: "up_to (interruptions k) (hex_loop k i r p) (hex_loop quiet i r p)"
proof (induction i arbitrary: r p)
  case (Suc i)
  then show ?case unfolding hex_loop.simps
    by (intro up_to_and_then Check_up_to) (auto split: list.splits option.splits)
qed simp

lemma ParseEscapedUnicode_up_to: "up_to (interruptions k) (ParseEscapedUnicode k p) (ParseEscapedUnicode quiet p)"
  unfolding ParseEscapedUnicode_def ParseHexCodeUnit_def
  by (rule up_to_and_then [OF hex_loop_up_to]) (auto intro!: up_to_and_then hex_loop_up_to)

lemma utf8_tail_up_to: "up_to (interruptions k) (utf8_tail k i r p) (utf8_tail quiet i r p)"
proof (induction i arbitrary: r p)
  case (Suc i)
  then show ?case unfolding utf8_tail.simps
    by (intro up_to_and_then Check_up_to) (auto split: list.splits)
qed simp

lemma SkipUtf8_up_to: "up_to (interruptions k) (SkipUtf8 k c p) (SkipUtf8 quiet c p)"
  unfolding SkipUtf8_def by (auto split: option.split intro!: up_to_and_then utf8_tail_up_to)

lemma skip_string_loop_up_to: "up_to (interruptions k) (skip_string_loop k p) (skip_string_loop quiet p)"
proof (induction "length (fst p)" arbitrary: p rule: less_induct)
  case less
  show ?case
  proof (cases "fst p")
    case Nil
    then show ?thesis by (cases p) simp
  next
    case (Cons c cs)
    then obtain n where p: "p = (c # cs, n)" by (cases p) simp
    have IH: "length (fst q) \<le> length cs \<Longrightarrow> up_to (interruptions k) (skip_string_loop k q) (skip_string_loop quiet q)" for q
      using less p by simp
    show ?thesis unfolding p skip_string_loop.simps
    proof (intro up_to_and_then up_to_if up_to_refl Check_up_to SkipUtf8_up_to)
      fix n' q
      assume "SkipUtf8 quiet c (cs, n') = Inr q"
      then show "up_to (interruptions k) (skip_string_loop k q) (skip_string_loop quiet q)"
        using IH SkipUtf8_length by fastforce
    next
      fix n'
      show "up_to (interruptions k)
        (case cs of [] \<Rightarrow> Inl JsonMalformed
         | e # es \<Rightarrow> if e = CHR ''u'' then and_then (ParseEscapedUnicode k (es, n')) (\<lambda>(_, q). skip_string_loop k q)
             else if json_escape e = None then Inl JsonMalformed else skip_string_loop k (es, n'))
        (case cs of [] \<Rightarrow> Inl JsonMalformed
         | e # es \<Rightarrow> if e = CHR ''u'' then and_then (ParseEscapedUnicode quiet (es, n')) (\<lambda>(_, q). skip_string_loop quiet q)
             else if json_escape e = None then Inl JsonMalformed else skip_string_loop quiet (es, n'))"
      proof (cases cs)
        case (Cons e es)
        have "up_to (interruptions k) (skip_string_loop k q) (skip_string_loop quiet q)"
          if "ParseEscapedUnicode quiet (es, n') = Inr (v, q)" for v q
          using IH ParseEscapedUnicode_length [OF that] Cons by simp
        moreover have "up_to (interruptions k) (skip_string_loop k (es, n')) (skip_string_loop quiet (es, n'))"
          using IH Cons by simp
        ultimately show ?thesis unfolding Cons list.case
          by (intro up_to_if up_to_and_then up_to_refl ParseEscapedUnicode_up_to) auto
      qed simp
    qed
  qed
qed

lemma SkipString_up_to: "up_to (interruptions k) (SkipString k p) (SkipString quiet p)"
  unfolding SkipString_def by (intro up_to_and_then Expect_up_to skip_string_loop_up_to)

lemma digits_loop_up_to: "up_to (interruptions k) (json_digits_loop k n s) (json_digits_loop quiet n s)"
  by (induction s arbitrary: n) (simp_all add: up_to_and_then Check_up_to del: Check_quiet)

lemma digits1_up_to: "up_to (interruptions k) (json_digits1 k p) (json_digits1 quiet p)"
  by (simp add: json_digits1_def json_digits_def digits_loop_up_to)

lemma number_scan_up_to: "up_to (interruptions k) (json_number_scan k p) (json_number_scan quiet p)"
  unfolding json_number_scan_def json_integer_part_def json_fraction_def json_exponent_def Let_def json_digits_def
  by (intro up_to_and_then up_to_if up_to_refl digits_loop_up_to digits1_up_to)

lemma SkipNumber_up_to: "up_to (interruptions k) (SkipNumber k p) (SkipNumber quiet p)"
  unfolding SkipNumber_def by (intro up_to_and_then number_scan_up_to up_to_refl)

lemma Literal_up_to: "up_to (interruptions k) (json_Literal k cs p) (json_Literal quiet cs p)"
  by (induction cs arbitrary: p) (auto intro!: up_to_and_then Expect_up_to)

subsection \<open>Lists with separators\<close>

text \<open>The two separators differ in the bracket; so do the two loops, up to what they read as an item.\<close>

definition separator :: "char \<Rightarrow> json_control \<Rightarrow> json_cursor \<Rightarrow> json_error + json_cursor" where
  "separator close k p =
     and_then (SkipWhitespace k p) (\<lambda>p.
       if json_Peek p = CHR '','' then
         and_then (SkipWhitespace k (json_advance p)) (\<lambda>p. if json_Peek p = close then Inl JsonMalformed else Inr p)
       else if json_Peek p \<noteq> close then Inl JsonMalformed else Inr p)"

lemma separators: "ArraySeparator = separator CHR '']''" "ObjectSeparator = separator CHR ''}''"
  by (simp_all add: fun_eq_iff separator_def ArraySeparator_def ObjectSeparator_def)

primrec comma_loop ::
    "nat \<Rightarrow> char \<Rightarrow> (json_cursor \<Rightarrow> json_error + json_cursor) \<Rightarrow> json_control \<Rightarrow> json_cursor \<Rightarrow> json_error + json_cursor"
where
  "comma_loop 0 close item k p = Inl JsonOutOfFuel"
| "comma_loop (Suc fuel) close item k p =
     (if json_Peek p = close then Inr p
      else and_then (item p) (\<lambda>p. and_then (separator close k p) (comma_loop fuel close item k)))"

definition member_reader ::
    "json_control \<Rightarrow> (json_cursor \<Rightarrow> json_error + json_cursor) \<Rightarrow> json_cursor \<Rightarrow> json_error + json_cursor" where
  "member_reader k value p =
     and_then (RequireObjectKey p) (\<lambda>_. and_then (SkipString k p) (\<lambda>p. and_then (SkipWhitespace k p) (\<lambda>p.
       and_then (Expect k CHR '':'' p) value)))"

lemma loops:
  "array_loop fuel value k = comma_loop fuel CHR '']'' value k"
  "object_loop fuel value k = comma_loop fuel CHR ''}'' (member_reader k value) k"
proof -
  show "array_loop fuel value k = comma_loop fuel CHR '']'' value k"
    by (induction fuel) (auto simp: separators)
  show "object_loop fuel value k = comma_loop fuel CHR ''}'' (member_reader k value) k"
    by (induction fuel) (auto simp: separators member_reader_def and_then_assoc)
qed

lemma separator_up_to: "up_to (interruptions k) (separator close k p) (separator close quiet p)"
  unfolding separator_def by (intro up_to_and_then up_to_if up_to_refl SkipWhitespace_up_to)

lemma comma_loop_up_to:
  assumes "\<And>p. up_to E (item p) (item' p)" and "\<And>p. up_to E (separator close k p) (separator close k' p)"
  shows "up_to E (comma_loop fuel close item k p) (comma_loop fuel close item' k' p)"
proof (induction fuel arbitrary: p)
  case (Suc fuel)
  then show ?case unfolding comma_loop.simps by (intro up_to_if up_to_and_then up_to_refl assms)
qed simp

lemma member_reader_up_to:
  "(\<And>p. up_to (interruptions k) (value p) (value' p)) \<Longrightarrow>
   up_to (interruptions k) (member_reader k value p) (member_reader quiet value' p)"
  unfolding member_reader_def by (intro up_to_and_then up_to_refl SkipString_up_to SkipWhitespace_up_to Expect_up_to)

lemma SkipValue_up_to: "up_to (interruptions k) (SkipValue fuel k m depth p) (SkipValue fuel quiet m depth p)"
proof (induction fuel arbitrary: depth p)
  case (Suc fuel)
  show ?case unfolding SkipValue.simps loops
    by (intro up_to_and_then up_to_if up_to_refl comma_loop_up_to member_reader_up_to separator_up_to Suc.IH
      SkipWhitespace_up_to SkipString_up_to SkipNumber_up_to Literal_up_to Expect_up_to)
qed simp

subsection \<open>The grammar of values\<close>

definition ws :: "string \<Rightarrow> bool" where
  "ws w \<longleftrightarrow> list_all json_whitespace w"

inductive comma_list :: "(string \<Rightarrow> bool) \<Rightarrow> string \<Rightarrow> bool" for item where
  one: "ws w \<Longrightarrow> item x \<Longrightarrow> ws w' \<Longrightarrow> comma_list item (w @ x @ w')"
| more: "ws w \<Longrightarrow> item x \<Longrightarrow> ws w' \<Longrightarrow> comma_list item s \<Longrightarrow> comma_list item (w @ x @ w' @ '','' @ s)"

definition json_member :: "(string \<Rightarrow> bool) \<Rightarrow> string \<Rightarrow> bool" where
  "json_member value x \<longleftrightarrow>
     (\<exists>key w w' v. json_string key \<and> ws w \<and> ws w' \<and> value v \<and> x = key @ w @ '':'' @ w' @ v)"

definition json_scalar :: "string \<Rightarrow> bool" where
  "json_scalar s \<longleftrightarrow> json_string s \<or> json_number s \<or> s \<in> {''true'', ''false'', ''null''}"

definition json_flat :: "string \<Rightarrow> bool" where
  "json_flat s \<longleftrightarrow> json_scalar s \<or> (\<exists>w. ws w \<and> (s = ''['' @ w @ '']'' \<or> s = ''{'' @ w @ ''}''))"

text \<open>Values with at most \<open>d\<close> levels of elements and members.\<close>

primrec json_value :: "nat \<Rightarrow> string \<Rightarrow> bool" where
  "json_value 0 s \<longleftrightarrow> json_flat s"
| "json_value (Suc d) s \<longleftrightarrow> json_flat s \<or>
     (\<exists>t. comma_list (json_value d) t \<and> s = ''['' @ t @ '']'') \<or>
     (\<exists>t. comma_list (json_member (json_value d)) t \<and> s = ''{'' @ t @ ''}'')"

definition json_document :: "nat \<Rightarrow> string \<Rightarrow> bool" where
  "json_document d s \<longleftrightarrow> (\<exists>w v w'. ws w \<and> json_value d v \<and> ws w' \<and> s = w @ v @ w')"

lemma ws_append [simp]: "ws (a @ b) \<longleftrightarrow> ws a \<and> ws b" "ws []"
  by (auto simp: ws_def)

lemma comma_list_ws: "comma_list item s \<Longrightarrow> ws w \<Longrightarrow> comma_list item (w @ s)"
  by (induction rule: comma_list.induct) (metis append.assoc comma_list.intros ws_append(1))+

subsection \<open>What is accepted is derived\<close>

lemma skip_ws: "SkipWhitespace k p = Inr q \<Longrightarrow> \<exists>w. ws w \<and> fst p = w @ fst q"
  using SkipWhitespace_sound [of k p q] by (auto simp: ws_def)

lemma peek_advance: "json_Peek p = c \<Longrightarrow> c \<noteq> CHR 0x00 \<Longrightarrow> fst p = c # fst (json_advance p)"
  by (cases "fst p") (auto simp: json_Peek_def json_advance_def)

lemma separator_sound:
  assumes "separator close k p = Inr q"
  shows "(\<exists>w. ws w \<and> fst p = w @ fst q) \<and> json_Peek q = close \<or>
    (\<exists>w w'. ws w \<and> ws w' \<and> fst p = w @ '','' @ w' @ fst q) \<and> json_Peek q \<noteq> close"
proof -
  obtain r where r: "SkipWhitespace k p = Inr r"
    and q: "if json_Peek r = CHR '','' then SkipWhitespace k (json_advance r) = Inr q \<and> json_Peek q \<noteq> close
      else json_Peek r = close \<and> q = r"
    using assms by (auto simp: separator_def split: if_splits)
  obtain w where w: "ws w" "fst p = w @ fst r" using skip_ws [OF r] by blast
  show ?thesis
  proof (cases "json_Peek r = CHR '',''")
    case True
    then have "fst r = '','' @ fst (json_advance r)" using peek_advance [of r] by simp
    moreover obtain w' where "ws w'" "fst (json_advance r) = w' @ fst q" using q True skip_ws [of k "json_advance r" q] by auto
    ultimately show ?thesis using w q True by auto
  next
    case False
    then show ?thesis using w q by auto
  qed
qed

lemma comma_loop_sound:
  assumes item: "\<And>p q. read p = Inr q \<Longrightarrow> \<exists>w x. ws w \<and> item x \<and> fst p = w @ x @ fst q"
  shows "comma_loop fuel close read k p = Inr q \<Longrightarrow> json_Peek p \<noteq> close \<Longrightarrow>
    json_Peek q = close \<and> (\<exists>s. comma_list item s \<and> fst p = s @ fst q)"
proof (induction fuel arbitrary: p)
  case (Suc fuel)
  then obtain r t where r: "read p = Inr r" "separator close k r = Inr t" "comma_loop fuel close read k t = Inr q" by auto
  obtain w x where x: "ws w" "item x" "fst p = w @ x @ fst r" using item [OF r(1)] by blast
  from separator_sound [OF r(2)] show ?case
  proof (elim disjE conjE exE)
    fix w' assume w': "ws w'" "fst r = w' @ fst t" "json_Peek t = close"
    then have "q = t" using r(3) by (cases fuel) auto
    then show ?thesis using w' x comma_list.one [of w item x w'] by (intro conjI exI [of _ "w @ x @ w'"]) auto
  next
    fix w1 w2 assume w': "ws w1" "ws w2" "fst r = w1 @ '','' @ w2 @ fst t" and "json_Peek t \<noteq> close"
    then obtain s where s: "json_Peek q = close" "comma_list item s" "fst t = s @ fst q" using Suc.IH r(3) by blast
    then show ?thesis using w' x comma_list.more [of w item x w1 "w2 @ s"] comma_list_ws
      by (intro conjI exI [of _ "w @ x @ w1 @ '','' @ w2 @ s"]) auto
  qed
qed simp

lemma member_reader_sound:
  assumes "member_reader k read p = Inr q"
    and elem: "\<And>p q. read p = Inr q \<Longrightarrow> \<exists>w x. ws w \<and> value x \<and> fst p = w @ x @ fst q"
  shows "\<exists>w x. ws w \<and> json_member value x \<and> fst p = w @ x @ fst q"
proof -
  obtain r t u where r: "SkipString k p = Inr r" "SkipWhitespace k r = Inr t" "Expect k CHR '':'' t = Inr u" "read u = Inr q"
    using assms(1) by (auto simp: member_reader_def)
  obtain key w where key: "json_string key" "fst p = key @ fst r" "ws w" "fst r = w @ fst t"
    using SkipString_sound [OF r(1)] skip_ws [OF r(2)] by blast
  obtain w' v where v: "ws w'" "value v" "fst u = w' @ v @ fst q" using elem [OF r(4)] by blast
  have "json_member value (key @ w @ '':'' @ w' @ v)" unfolding json_member_def using key v by blast
  then show ?thesis using key v Expect_Inr [OF r(3)] by (intro exI [of _ "[]"] exI [of _ "key @ w @ '':'' @ w' @ v"]) auto
qed

lemma Literal_sound: "json_Literal k cs p = Inr q \<Longrightarrow> fst p = cs @ fst q"
  by (induction cs arbitrary: p) (auto dest: Expect_Inr)

lemma SkipNumber_sound: "SkipNumber k p = Inr q \<Longrightarrow> \<exists>s. json_number s \<and> fst p = s @ fst q"
  using number_sound [of k p q] by (auto simp: SkipNumber_def split: if_splits)

lemma json_flat_value: "json_flat s \<Longrightarrow> json_value d s"
  by (cases d) auto

text \<open>The body of a container: no item, or a list of items one level down.\<close>

lemma container_sound:
  assumes "and_then (Expect k opening p) (\<lambda>p. and_then (SkipWhitespace k p) (\<lambda>p.
      and_then (comma_loop fuel close read k p) (Expect k close))) = Inr q"
    and item: "\<And>p q. read p = Inr q \<Longrightarrow> 0 < d \<and> (\<exists>w x. ws w \<and> item x \<and> fst p = w @ x @ fst q)"
  shows "\<exists>t. fst p = [opening] @ t @ [close] @ fst q \<and> (ws t \<or> 0 < d \<and> comma_list item t)"
proof -
  obtain r t u where r: "Expect k opening p = Inr r" "SkipWhitespace k r = Inr t" "comma_loop fuel close read k t = Inr u"
    "Expect k close u = Inr q"
    using assms(1) by auto
  obtain w where w: "ws w" "fst r = w @ fst t" using skip_ws [OF r(2)] by blast
  show ?thesis
  proof (cases "json_Peek t = close")
    case True
    then have "u = t" using r(3) by (cases fuel) auto
    then show ?thesis using w Expect_Inr [OF r(1)] Expect_Inr [OF r(4)] by (intro exI [of _ w]) simp
  next
    case False
    obtain t' where "read t = Inr t'" using r(3) False by (cases fuel) auto
    then have "0 < d" using item by blast
    moreover obtain s where "comma_list item s" "fst t = s @ fst u"
      using comma_loop_sound [of read item, OF _ r(3) False] item by blast
    ultimately show ?thesis
      using w comma_list_ws [of item s w] Expect_Inr [OF r(1)] Expect_Inr [OF r(4)] by (intro exI [of _ "w @ s"]) simp
  qed
qed

lemma SkipValue_sound:
  "SkipValue fuel k m depth p = Inr q \<Longrightarrow> depth \<le> m \<and> (\<exists>w v. ws w \<and> json_value (m - depth) v \<and> fst p = w @ v @ fst q)"
proof (induction fuel arbitrary: depth p q)
  case (Suc fuel)
  let ?read = "SkipValue fuel k m (depth + 1)" and ?d = "m - depth"
  obtain r where r: "SkipWhitespace k p = Inr r" using Suc.prems by auto
  then obtain w where w: "ws w" "fst p = w @ fst r" using skip_ws by blast
  have depth: "depth \<le> m" using Suc.prems r by (auto split: if_splits)
  have read: "0 < ?d \<and> (\<exists>w x. ws w \<and> json_value (?d - 1) x \<and> fst p = w @ x @ fst q)" if "?read p = Inr q" for p q
    using Suc.IH [OF that] by simp
  have member: "0 < ?d \<and> (\<exists>w x. ws w \<and> json_member (json_value (?d - 1)) x \<and> fst p = w @ x @ fst q)"
    if "member_reader k ?read p = Inr q" for p q
  proof
    have "\<exists>p'. ?read p' = Inr q" using that unfolding member_reader_def and_then_eq_Inr by blast
    then show "0 < ?d" using read by blast
    show "\<exists>w x. ws w \<and> json_member (json_value (?d - 1)) x \<and> fst p = w @ x @ fst q"
      by (rule member_reader_sound [OF that]) (use read in blast)
  qed
  have "\<exists>v. json_value ?d v \<and> fst r = v @ fst q"
  proof -
    consider (scalar) "SkipString k r = Inr q \<or> SkipNumber k r = Inr q \<or> json_Literal k ''true'' r = Inr q \<or>
          json_Literal k ''false'' r = Inr q \<or> json_Literal k ''null'' r = Inr q"
      | (arr) "and_then (Expect k CHR ''['' r) (\<lambda>p. and_then (SkipWhitespace k p) (\<lambda>p.
          and_then (comma_loop fuel CHR '']'' ?read k p) (Expect k CHR '']''))) = Inr q"
      | (obj) "and_then (Expect k CHR ''{'' r) (\<lambda>p. and_then (SkipWhitespace k p) (\<lambda>p.
          and_then (comma_loop fuel CHR ''}'' (member_reader k ?read) k p) (Expect k CHR ''}''))) = Inr q"
    proof -
      define str num tr fa nu arr obj where "str = SkipString k r" "num = SkipNumber k r" "tr = json_Literal k ''true'' r"
        "fa = json_Literal k ''false'' r" "nu = json_Literal k ''null'' r"
        "arr = and_then (Expect k CHR ''['' r) (\<lambda>p. and_then (SkipWhitespace k p) (\<lambda>p.
          and_then (comma_loop fuel CHR '']'' ?read k p) (Expect k CHR '']'')))"
        "obj = and_then (Expect k CHR ''{'' r) (\<lambda>p. and_then (SkipWhitespace k p) (\<lambda>p.
          and_then (comma_loop fuel CHR ''}'' (member_reader k ?read) k p) (Expect k CHR ''}'')))"
      note defs = this
      have "Inr q \<in> {str, num, tr, fa, nu, arr, obj}"
        using Suc.prems r unfolding SkipValue.simps loops
        by (simp only: and_then_simps defs [symmetric] split: if_splits) simp_all
      then show thesis using scalar [folded defs] arr [folded defs] obj [folded defs] by auto
    qed
    then show ?thesis
    proof cases
      case scalar
      then obtain s where "json_scalar s" "fst r = s @ fst q"
      proof (elim disjE)
        assume "SkipString k r = Inr q"
        then show thesis using SkipString_sound [of k r q] that by (auto simp: json_scalar_def)
      next
        assume "SkipNumber k r = Inr q"
        then show thesis using SkipNumber_sound [of k r q] that by (auto simp: json_scalar_def)
      qed (auto dest: Literal_sound intro: that simp: json_scalar_def simp del: json_Literal.simps)
      then show ?thesis using json_flat_value by (auto simp: json_flat_def)
    next
      case arr
      from container_sound [OF arr read] obtain t where t: "fst r = ''['' @ t @ '']'' @ fst q"
        "ws t \<or> 0 < ?d \<and> comma_list (json_value (?d - 1)) t" by auto
      have "json_value ?d (''['' @ t @ '']'')"
        using t(2) by (cases ?d) (auto simp: json_flat_def)
      then show ?thesis using t(1) by (intro exI [of _ "''['' @ t @ '']''"]) simp
    next
      case obj
      from container_sound [OF obj member] obtain t where t: "fst r = ''{'' @ t @ ''}'' @ fst q"
        "ws t \<or> 0 < ?d \<and> comma_list (json_member (json_value (?d - 1))) t" by auto
      have "json_value ?d (''{'' @ t @ ''}'')"
        using t(2) by (cases ?d) (auto simp: json_flat_def)
      then show ?thesis using t(1) by (intro exI [of _ "''{'' @ t @ ''}''"]) simp
    qed
  qed
  then show ?case using w depth by auto
qed simp

subsection \<open>What is derived is accepted\<close>

definition value_ends :: "string \<Rightarrow> bool" where
  "value_ends r \<longleftrightarrow> r = [] \<or> json_whitespace (hd r) \<or> hd r \<in> {CHR '','', CHR '']'', CHR ''}''}"

text \<open>A character that can begin an item: it is not white space and it closes nothing.\<close>

definition item_start :: "char \<Rightarrow> bool" where
  "item_start c \<longleftrightarrow> \<not> json_whitespace c \<and> c \<notin> {CHR '','', CHR '']'', CHR ''}''}"

lemma number_ends: "value_ends r \<Longrightarrow> number_ends r"
  by (auto simp: value_ends_def number_ends_def json_whitespace_def json_digit_def in_range_def byte_def)

lemma value_ends_ws: "ws w \<Longrightarrow> value_ends r \<Longrightarrow> value_ends (w @ r)"
  by (cases w) (auto simp: value_ends_def ws_def)

lemma skip_ws_quiet: "ws w \<Longrightarrow> r = [] \<or> \<not> json_whitespace (hd r) \<Longrightarrow> \<exists>n'. SkipWhitespace quiet (w @ r, n) = Inr (r, n')"
  unfolding ws_def by (rule SkipWhitespace_quiet)

lemma comma_list_start:
  assumes "comma_list item s" and "\<And>x. item x \<Longrightarrow> x \<noteq> [] \<and> item_start (hd x)"
  shows "\<exists>w t. ws w \<and> s = w @ t \<and> t \<noteq> [] \<and> item_start (hd t)"
  using assms(1)
proof cases
  case (one w x w')
  then show ?thesis using assms(2) by (intro exI [of _ w] exI [of _ "x @ w'"]) auto
next
  case (more w x w' t)
  then show ?thesis using assms(2) by (intro exI [of _ w] exI [of _ "x @ w' @ '','' @ t"]) auto
qed

lemma separator_last:
  assumes "ws w" and "close \<in> {CHR '']'', CHR ''}''}"
  shows "\<exists>n'. separator close quiet (w @ [close] @ r, n) = Inr ([close] @ r, n')"
proof -
  obtain n' where "SkipWhitespace quiet (w @ [close] @ r, n) = Inr ([close] @ r, n')"
    using skip_ws_quiet [OF assms(1), of "[close] @ r" n] assms(2) by (auto simp: json_whitespace_def)
  then show ?thesis using assms(2) by (auto simp: separator_def)
qed

text \<open>A reader of items on the strings of a grammar, up to a length.\<close>

definition reads :: "nat \<Rightarrow> (json_cursor \<Rightarrow> json_error + json_cursor) \<Rightarrow> (string \<Rightarrow> bool) \<Rightarrow> bool" where
  "reads b read item \<longleftrightarrow>
     (\<forall>x r n. item x \<and> length x < b \<and> value_ends r \<longrightarrow> (\<exists>n'. read (x @ r, n) = Inr (r, n')))"

lemma comma_loop_quiet:
  assumes reads: "reads b read item" and close: "close \<in> {CHR '']'', CHR ''}''}"
    and start: "\<And>x. item x \<Longrightarrow> x \<noteq> [] \<and> item_start (hd x)"
  shows "comma_list item s \<Longrightarrow> length s < fuel \<Longrightarrow> length s < b \<Longrightarrow>
    \<exists>n'. and_then (SkipWhitespace quiet (s @ [close] @ r, n)) (comma_loop fuel close read quiet) = Inr ([close] @ r, n')"
proof (induction arbitrary: fuel n rule: comma_list.induct)
  case (one w x w')
  obtain f where f: "fuel = Suc (Suc f)"
    using one.prems start [OF one.hyps(2)] by (cases fuel; cases "fuel - 1"; cases x) auto
  have x: "x \<noteq> []" "item_start (hd x)" using start [OF one.hyps(2)] by auto
  obtain n1 where 1: "SkipWhitespace quiet (w @ x @ w' @ [close] @ r, n) = Inr (x @ w' @ [close] @ r, n1)"
    using skip_ws_quiet [OF one.hyps(1), of "x @ w' @ [close] @ r" n] x by (auto simp: item_start_def)
  have "value_ends (w' @ [close] @ r)" using value_ends_ws [OF one.hyps(3), of "[close] @ r"] close by (auto simp: value_ends_def)
  then obtain n2 where 2: "read (x @ w' @ [close] @ r, n1) = Inr (w' @ [close] @ r, n2)"
    using reads one unfolding reads_def by force
  obtain n3 where 3: "separator close quiet (w' @ [close] @ r, n2) = Inr ([close] @ r, n3)"
    using separator_last [OF one.hyps(3) close] by blast
  have "json_Peek (x @ w' @ [close] @ r, n1) \<noteq> close" using x close by (cases x) (auto simp: item_start_def)
  then show ?case using 1 2 3 by (simp add: f)
next
  case (more w x w' s)
  obtain f where f: "fuel = Suc f" using more.prems by (cases fuel) auto
  have x: "x \<noteq> []" "item_start (hd x)" using start [OF more.hyps(2)] by auto
  define rest where "rest = s @ [close] @ r"
  obtain n1 where 1: "SkipWhitespace quiet (w @ x @ w' @ '','' @ rest, n) = Inr (x @ w' @ '','' @ rest, n1)"
    using skip_ws_quiet [OF more.hyps(1), of "x @ w' @ '','' @ rest" n] x by (auto simp: item_start_def)
  have "value_ends (w' @ '','' @ rest)" using value_ends_ws [OF more.hyps(3), of "'','' @ rest"] by (simp add: value_ends_def)
  then obtain n2 where 2: "read (x @ w' @ '','' @ rest, n1) = Inr (w' @ '','' @ rest, n2)"
    using reads more unfolding reads_def by force
  obtain n3 where 3: "SkipWhitespace quiet (w' @ '','' @ rest, n2) = Inr ('','' @ rest, n3)"
    using skip_ws_quiet [OF more.hyps(3), of "'','' @ rest" n2] by (auto simp: json_whitespace_def)
  obtain v t where t: "ws v" "s = v @ t" "t \<noteq> []" "item_start (hd t)" using comma_list_start [OF more.hyps(4) start] by blast
  then obtain n4 where 4: "SkipWhitespace quiet (rest, n3) = Inr (t @ [close] @ r, n4)"
    using skip_ws_quiet [OF t(1), of "t @ [close] @ r" n3] by (auto simp: item_start_def rest_def)
  have "json_Peek (t @ [close] @ r, n4) \<noteq> close" using t close by (cases t) (auto simp: item_start_def)
  then have 5: "separator close quiet (w' @ '','' @ rest, n2) = Inr (t @ [close] @ r, n4)"
    using 3 4 by (simp add: separator_def)
  obtain n' where "comma_loop f close read quiet (t @ [close] @ r, n4) = Inr ([close] @ r, n')"
    using more.IH [of f n3] more.prems f 4 by (auto simp: rest_def)
  moreover have "json_Peek (x @ w' @ '','' @ rest, n1) \<noteq> close" using x close by (cases x) (auto simp: item_start_def)
  ultimately show ?case using 1 2 5 by (simp add: f rest_def)
qed

lemma member_start: "json_member value x \<Longrightarrow> x \<noteq> [] \<and> item_start (hd x)"
  by (auto simp: json_member_def json_string_def item_start_def json_whitespace_def)

lemma number_start: "json_number s \<Longrightarrow> s \<noteq> [] \<and> (hd s = CHR ''-'' \<or> json_digit (hd s))"
proof -
  assume "json_number s"
  then obtain sign i t where s: "s = sign @ i @ t" "sign \<in> {[], ''-''}" "json_int i" by (auto simp: json_number_def)
  moreover have "i \<noteq> [] \<and> json_digit (hd i)" using s(3) by (cases i) (auto simp: json_int_def digit_string_def)
  ultimately show ?thesis by auto
qed

lemma structural_chars [simp]:
  "\<not> json_digit CHR 0x22" "\<not> json_digit CHR ''t''" "\<not> json_digit CHR ''f''" "\<not> json_digit CHR ''n''"
  "\<not> json_digit CHR ''[''" "\<not> json_digit CHR ''{''"
  by code_simp+

lemma digit_start: "json_digit c \<Longrightarrow> item_start c"
  by (auto simp: item_start_def json_whitespace_def json_digit_def in_range_def byte_def)

lemma json_value_cases:
  assumes "json_value d v"
  obtains (str) "json_string v" | (num) "json_number v" | (lit) "v \<in> {''true'', ''false'', ''null''}"
    | (arr) t where "v = ''['' @ t @ '']''" "ws t \<or> 0 < d \<and> comma_list (json_value (d - 1)) t"
    | (obj) t where "v = ''{'' @ t @ ''}''" "ws t \<or> 0 < d \<and> comma_list (json_member (json_value (d - 1))) t"
proof (cases "json_flat v")
  case True
  then show thesis using str num lit arr obj by (auto simp: json_flat_def json_scalar_def)
next
  case False
  then obtain e where "d = Suc e" using assms by (cases d) auto
  then show thesis using assms False arr obj by auto
qed

lemma starts [simp]:
  "item_start CHR 0x22" "item_start CHR ''-''" "item_start CHR ''t''" "item_start CHR ''f''" "item_start CHR ''n''"
  "item_start CHR ''[''" "item_start CHR ''{''"
  by code_simp+

lemma value_start:
  assumes "json_value d v"
  shows "v \<noteq> [] \<and> item_start (hd v)"
  using assms
proof (cases rule: json_value_cases)
  case num
  then show ?thesis using number_start [OF num] digit_start by auto
next
  case str
  then obtain cs where "v = [CHR 0x22] @ concat cs @ [CHR 0x22]" unfolding json_string_def by blast
  then show ?thesis by simp
qed auto

lemma member_reads:
  assumes elem: "\<And>w v r n. ws w \<Longrightarrow> value v \<Longrightarrow> length v < b \<Longrightarrow> value_ends r \<Longrightarrow> \<exists>n'. read (w @ v @ r, n) = Inr (r, n')"
  shows "reads b (member_reader quiet read) (json_member value)"
  unfolding reads_def
proof (intro allI impI, elim conjE)
  fix x r n
  assume x: "json_member value x" "length x < b" "value_ends r"
  then obtain key w w' v where m: "json_string key" "ws w" "ws w'" "value v" "x = key @ w @ '':'' @ w' @ v"
    by (auto simp: json_member_def)
  obtain n1 where 1: "SkipString quiet (key @ w @ '':'' @ w' @ v @ r, n) = Inr (w @ '':'' @ w' @ v @ r, n1)"
    using SkipString_quiet [OF m(1)] by blast
  obtain n2 where 2: "SkipWhitespace quiet (w @ '':'' @ w' @ v @ r, n1) = Inr ('':'' @ w' @ v @ r, n2)"
    using skip_ws_quiet [OF m(2), of "'':'' @ w' @ v @ r" n1] by (auto simp: json_whitespace_def)
  obtain n3 where 3: "read (w' @ v @ r, n2 + 1) = Inr (r, n3)" using elem [OF m(3,4) _ x(3)] m(5) x(2) by fastforce
  have "RequireObjectKey (key @ t, n) = Inr ()" for t using m(1) by (auto simp: RequireObjectKey_def json_string_def)
  then show "\<exists>n'. member_reader quiet read (x @ r, n) = Inr (r, n')"
    using 1 2 3 by (simp add: member_reader_def m(5) Expect_quiet)
qed

lemma container_quiet:
  assumes "ws t \<or> comma_list item t" and "reads b read item" and "close \<in> {CHR '']'', CHR ''}''}"
    and "\<And>x. item x \<Longrightarrow> x \<noteq> [] \<and> item_start (hd x)" and "length t < b" and "length t < fuel"
  shows "\<exists>n'. and_then (Expect quiet c ([c] @ t @ [close] @ r, n)) (\<lambda>p. and_then (SkipWhitespace quiet p) (\<lambda>p.
      and_then (comma_loop fuel close read quiet p) (Expect quiet close))) = Inr (r, n')"
proof -
  have "\<exists>n'. and_then (SkipWhitespace quiet (t @ [close] @ r, n + 1)) (comma_loop fuel close read quiet) = Inr ([close] @ r, n')"
  proof (cases "ws t")
    case True
    obtain f where "fuel = Suc f" using assms(6) by (cases fuel) auto
    moreover obtain n' where "SkipWhitespace quiet (t @ [close] @ r, n + 1) = Inr ([close] @ r, n')"
      using skip_ws_quiet [OF True, of "[close] @ r" "n + 1"] assms(3) by (auto simp: json_whitespace_def)
    ultimately show ?thesis by (simp only: and_then_simps) simp
  next
    case False
    then show ?thesis using comma_loop_quiet [OF assms(2,3,4), of t fuel r "n + 1"] assms(1,5,6) by blast
  qed
  then obtain n' where
    "and_then (SkipWhitespace quiet (t @ [close] @ r, n + 1)) (comma_loop fuel close read quiet) = Inr ([close] @ r, n')" by blast
  then have "and_then (and_then (SkipWhitespace quiet (t @ [close] @ r, n + 1)) (comma_loop fuel close read quiet))
      (Expect quiet close) = Inr (r, n' + 1)"
    using Expect_quiet [of close r n'] by (simp only: and_then_simps append.simps)
  then show ?thesis using Expect_quiet [of c "t @ [close] @ r" n] by (simp only: and_then_simps append.simps and_then_assoc) blast
qed

lemma Literal_quiet: "\<exists>n'. json_Literal quiet cs (cs @ r, n) = Inr (r, n')"
  by (induction cs arbitrary: n) (auto simp: Expect_quiet)

lemma SkipNumber_quiet: "json_number s \<Longrightarrow> number_ends r \<Longrightarrow> \<exists>n'. SkipNumber quiet (s @ r, n) = Inr (r, n')"
proof -
  assume s: "json_number s" "number_ends r"
  obtain n' where "json_number_scan quiet (s @ r, n) = Inr (r, n')" using number_quiet [OF s] by blast
  then show ?thesis using number_start [OF s(1)] unfolding SkipNumber_def by (simp only: and_then_simps) simp
qed

lemma SkipValue_quiet:
  "json_value (m - depth) v \<Longrightarrow> ws w \<Longrightarrow> depth \<le> m \<Longrightarrow> length v < fuel \<Longrightarrow> value_ends r \<Longrightarrow>
   \<exists>n'. SkipValue fuel quiet m depth (w @ v @ r, n) = Inr (r, n')"
proof (induction fuel arbitrary: depth v w r n)
  case (Suc fuel)
  let ?d = "m - depth" and ?read = "SkipValue fuel quiet m (depth + 1)"
  have v: "v \<noteq> []" "item_start (hd v)" using value_start [OF Suc.prems(1)] by auto
  then obtain n1 where 1: "SkipWhitespace quiet (w @ v @ r, n) = Inr (v @ r, n1)"
    using skip_ws_quiet [OF Suc.prems(2), of "v @ r" n] by (auto simp: item_start_def)
  have elem: "\<exists>n'. ?read (w @ v @ r, n) = Inr (r, n')"
    if "ws w" "0 < ?d \<and> json_value (?d - 1) v" "length v < fuel" "value_ends r" for w v r n
    using Suc.IH [of "depth + 1" v w r n] that by simp
  have dispatch: "SkipValue (Suc fuel) quiet m depth (w @ v @ r, n) =
    (if hd v = CHR 0x22 then SkipString quiet (v @ r, n1)
     else if hd v = CHR ''-'' \<or> json_digit (hd v) then SkipNumber quiet (v @ r, n1)
     else if hd v = CHR ''t'' then json_Literal quiet ''true'' (v @ r, n1)
     else if hd v = CHR ''f'' then json_Literal quiet ''false'' (v @ r, n1)
     else if hd v = CHR ''n'' then json_Literal quiet ''null'' (v @ r, n1)
     else if hd v = CHR ''['' then
       and_then (Expect quiet CHR ''['' (v @ r, n1)) (\<lambda>p. and_then (SkipWhitespace quiet p) (\<lambda>p.
       and_then (comma_loop fuel CHR '']'' ?read quiet p) (Expect quiet CHR '']'')))
     else if hd v = CHR ''{'' then
       and_then (Expect quiet CHR ''{'' (v @ r, n1)) (\<lambda>p. and_then (SkipWhitespace quiet p) (\<lambda>p.
       and_then (comma_loop fuel CHR ''}'' (member_reader quiet ?read) quiet p) (Expect quiet CHR ''}'')))
     else Inl JsonMalformed)"
    using 1 v(1) Suc.prems(3) unfolding SkipValue.simps loops by (simp only: and_then_simps) (cases v; simp)
  let ?item = "\<lambda>v. 0 < ?d \<and> json_value (?d - 1) v"
  from Suc.prems(1) show ?case
  proof (cases rule: json_value_cases)
    case str
    then have "hd v = CHR 0x22" by (auto simp: json_string_def)
    then show ?thesis using SkipString_quiet [OF str, of r n1] dispatch by simp
  next
    case num
    have "hd v \<noteq> CHR 0x22" using number_start [OF num] by auto
    then show ?thesis
      using number_start [OF num] SkipNumber_quiet [OF num number_ends [OF Suc.prems(5)], of n1] dispatch by simp
  next
    case lit
    then show ?thesis using Literal_quiet [of v r n1] dispatch by (auto simp del: json_Literal.simps)
  next
    case (arr t)
    have "reads fuel ?read ?item" unfolding reads_def using elem [of "[]"] by simp
    moreover have "ws t \<or> comma_list ?item t" using arr(2) by (cases "0 < ?d") auto
    moreover have "x \<noteq> [] \<and> item_start (hd x)" if "?item x" for x using that value_start by blast
    moreover have "length t < fuel" using arr(1) Suc.prems(4) by simp
    ultimately show ?thesis
      using container_quiet [of t ?item fuel ?read "CHR '']''" fuel "CHR ''[''" r n1] dispatch arr(1) by simp
  next
    case (obj t)
    have "reads fuel (member_reader quiet ?read) (json_member ?item)" by (rule member_reads) (rule elem)
    moreover have "ws t \<or> comma_list (json_member ?item) t" using obj(2) by (cases "0 < ?d") auto
    moreover have "length t < fuel" using obj(1) Suc.prems(4) by simp
    ultimately show ?thesis
      using container_quiet [of t "json_member ?item" fuel "member_reader quiet ?read" "CHR ''}''" fuel "CHR ''{''" r n1]
        dispatch obj(1) member_start by simp
  qed
qed simp

subsection \<open>The fuel suffices\<close>

text \<open>A result other than the end of the fuel.\<close>

definition fuelled :: "json_error + 'a \<Rightarrow> bool" where
  "fuelled a \<longleftrightarrow> a \<noteq> Inl JsonOutOfFuel"

lemma fuelled_simps [simp]: "fuelled (Inr x)" "fuelled (Inl JsonMalformed)" "fuelled (Inl (JsonResource f))" "fuelled (json_Check k n)"
  by (auto simp: fuelled_def json_Check_def)

lemma fuelled_and_then: "fuelled a \<Longrightarrow> (\<And>x. a = Inr x \<Longrightarrow> fuelled (f x)) \<Longrightarrow> fuelled (and_then a f)"
  by (cases a) (auto simp: fuelled_def)

lemma fuelled_if: "(c \<Longrightarrow> fuelled a) \<Longrightarrow> (\<not> c \<Longrightarrow> fuelled b) \<Longrightarrow> fuelled (if c then a else b)"
  by simp

lemma whitespace_fuelled: "fuelled (SkipWhitespace k p)"
proof -
  have "fuelled (whitespace_loop k n s)" for n s
    by (induction s arbitrary: n) (auto intro!: fuelled_and_then)
  then show ?thesis by (simp add: SkipWhitespace_def)
qed

lemma Expect_fuelled: "fuelled (Expect k c p)"
  by (auto simp: Expect_def intro!: fuelled_and_then split: list.splits)

lemma hex_loop_fuelled: "fuelled (hex_loop k i r p)"
  by (induction i arbitrary: r p) (auto intro!: fuelled_and_then split: list.splits option.splits)

lemma escaped_fuelled: "fuelled (ParseEscapedUnicode k p)"
  unfolding ParseEscapedUnicode_def ParseHexCodeUnit_def by (auto intro!: fuelled_and_then hex_loop_fuelled)

lemma utf8_tail_fuelled: "fuelled (utf8_tail k i r p)"
  by (induction i arbitrary: r p) (auto intro!: fuelled_and_then split: list.splits)

lemma SkipUtf8_fuelled: "fuelled (SkipUtf8 k c p)"
  unfolding SkipUtf8_def by (auto intro!: fuelled_and_then utf8_tail_fuelled split: option.splits)

lemma skip_string_loop_fuelled: "fuelled (skip_string_loop k p)"
  by (induction k p rule: skip_string_loop.induct)
    (auto intro!: fuelled_and_then SkipUtf8_fuelled escaped_fuelled split: list.splits)

lemma SkipString_fuelled: "fuelled (SkipString k p)"
  unfolding SkipString_def by (intro fuelled_and_then Expect_fuelled skip_string_loop_fuelled)

lemma digits_fuelled: "fuelled (json_digits k p)" "fuelled (json_digits1 k p)"
proof -
  have "fuelled (json_digits_loop k n s)" for n s
    by (induction s arbitrary: n) (auto intro!: fuelled_and_then)
  then show "fuelled (json_digits k p)" "fuelled (json_digits1 k p)" by (simp_all add: json_digits_def json_digits1_def)
qed

lemma SkipNumber_fuelled: "fuelled (SkipNumber k p)"
  unfolding SkipNumber_def json_number_scan_def json_integer_part_def json_fraction_def json_exponent_def Let_def
  by (intro fuelled_and_then fuelled_if fuelled_simps digits_fuelled)

lemma Literal_fuelled: "fuelled (json_Literal k cs p)"
  by (induction cs arbitrary: p) (auto intro!: fuelled_and_then Expect_fuelled)

lemma separator_fuelled: "fuelled (separator close k p)"
  unfolding separator_def by (intro fuelled_and_then fuelled_if fuelled_simps whitespace_fuelled)

lemma separator_length: "separator close k p = Inr q \<Longrightarrow> length (fst q) \<le> length (fst p)"
  using separator_sound [of close k p q] by auto

lemma comma_loop_fuelled:
  assumes "\<And>p. length (fst p) \<le> b \<Longrightarrow> fuelled (read p)" and "\<And>p q. read p = Inr q \<Longrightarrow> length (fst q) < length (fst p)"
  shows "length (fst p) < fuel \<Longrightarrow> length (fst p) \<le> b \<Longrightarrow> fuelled (comma_loop fuel close read k p)"
proof (induction fuel arbitrary: p)
  case (Suc fuel)
  have "fuelled (comma_loop fuel close read k t)" if "read p = Inr r" "separator close k r = Inr t" for r t
    using Suc assms(2) [OF that(1)] separator_length [OF that(2)] by simp
  then show ?case unfolding comma_loop.simps
    by (intro fuelled_if fuelled_and_then fuelled_simps assms(1) Suc.prems separator_fuelled)
qed simp

lemma member_reader_fuelled:
  assumes "\<And>p. length (fst p) \<le> b \<Longrightarrow> fuelled (read p)" and "length (fst p) \<le> b"
  shows "fuelled (member_reader k read p)"
  unfolding member_reader_def
proof (intro fuelled_and_then SkipString_fuelled whitespace_fuelled Expect_fuelled assms(1))
  show "fuelled (RequireObjectKey p)" by (simp add: RequireObjectKey_def)
  fix q r s
  assume q: "SkipString k p = Inr q" "SkipWhitespace k q = Inr r" "Expect k CHR '':'' r = Inr s"
  then show "length (fst s) \<le> b"
    using assms(2) SkipString_sound [OF q(1)] skip_ws [OF q(2)] Expect_Inr [OF q(3)] by auto
qed

lemma SkipValue_shrinks: "SkipValue fuel k m depth p = Inr q \<Longrightarrow> length (fst q) < length (fst p)"
proof -
  assume "SkipValue fuel k m depth p = Inr q"
  from SkipValue_sound [OF this] obtain w v where v: "json_value (m - depth) v" "fst p = w @ v @ fst q" by blast
  then show ?thesis using value_start [OF v(1)] by simp
qed

lemma member_reader_shrinks:
  assumes "\<And>p q. read p = Inr q \<Longrightarrow> length (fst q) < length (fst p)" and "member_reader k read p = Inr q"
  shows "length (fst q) < length (fst p)"
proof -
  obtain r s t where r: "SkipString k p = Inr r" "SkipWhitespace k r = Inr s" "Expect k CHR '':'' s = Inr t" "read t = Inr q"
    using assms(2) unfolding member_reader_def and_then_eq_Inr by blast
  show ?thesis
    using SkipString_sound [OF r(1)] skip_ws [OF r(2)] Expect_Inr [OF r(3)] assms(1) [OF r(4)] by auto
qed

lemma SkipValue_fuelled: "length (fst p) < fuel \<Longrightarrow> fuelled (SkipValue fuel k m depth p)"
proof (induction fuel arbitrary: depth p)
  case (Suc fuel)
  let ?read = "SkipValue fuel k m (depth + 1)"
  have body: "fuelled (comma_loop fuel close ?read k t)" "fuelled (comma_loop fuel close (member_reader k ?read) k t)"
    if "SkipWhitespace k p = Inr r" "Expect k c r = Inr s" "SkipWhitespace k s = Inr t" for r c s t close
  proof -
    have t: "length (fst t) < fuel"
      using Suc.prems skip_ws [OF that(1)] Expect_Inr [OF that(2)] skip_ws [OF that(3)] by auto
    have read: "fuelled (?read p)" if "length (fst p) \<le> length (fst t)" for p using Suc.IH t that by simp
    show "fuelled (comma_loop fuel close ?read k t)"
      by (rule comma_loop_fuelled [OF read SkipValue_shrinks t]) (assumption | rule order_refl)+
    show "fuelled (comma_loop fuel close (member_reader k ?read) k t)"
      by (rule comma_loop_fuelled [OF member_reader_fuelled [OF read] member_reader_shrinks [OF SkipValue_shrinks] t])
        (assumption | rule order_refl)+
  qed
  show ?case unfolding SkipValue.simps loops
    by (intro fuelled_and_then fuelled_if fuelled_simps whitespace_fuelled SkipString_fuelled SkipNumber_fuelled Literal_fuelled
      Expect_fuelled) (rule body; assumption)+
qed simp

lemma comma_loop_more_fuel:
  assumes "\<And>p. up_to {JsonOutOfFuel} (read p) (read' p)"
  shows "fuel \<le> fuel' \<Longrightarrow> up_to {JsonOutOfFuel} (comma_loop fuel close read k p) (comma_loop fuel' close read' k p)"
proof (induction fuel arbitrary: fuel' p)
  case (Suc fuel)
  then obtain f where f: "fuel' = Suc f" "fuel \<le> f" by (cases fuel') auto
  show ?case unfolding f(1) comma_loop.simps
    by (intro up_to_if up_to_and_then up_to_refl assms) (rule Suc.IH [OF f(2)])
qed (simp add: up_to_def)

lemma SkipValue_more_fuel:
  "fuel \<le> fuel' \<Longrightarrow> up_to {JsonOutOfFuel} (SkipValue fuel k m depth p) (SkipValue fuel' k m depth p)"
proof (induction fuel arbitrary: fuel' depth p)
  case (Suc fuel)
  then obtain f where f: "fuel' = Suc f" "fuel \<le> f" by (cases fuel') auto
  have read: "up_to {JsonOutOfFuel} (SkipValue fuel k m d p) (SkipValue f k m d p)" for d p by (rule Suc.IH [OF f(2)])
  then have member: "up_to {JsonOutOfFuel} (member_reader k (SkipValue fuel k m d) p) (member_reader k (SkipValue f k m d) p)"
    for d p unfolding member_reader_def by (intro up_to_and_then up_to_refl)
  show ?case unfolding f(1) SkipValue.simps loops
    by (intro up_to_and_then up_to_if up_to_refl comma_loop_more_fuel read member f(2))
qed (simp add: up_to_def)

subsection \<open>Documents\<close>

lemma ValidateDocument_up_to: "up_to (interruptions k) (ValidateDocument k m s) (ValidateDocument quiet m s)"
  unfolding ValidateDocument_def json_Reset_def by (intro up_to_and_then up_to_if up_to_refl SkipWhitespace_up_to SkipValue_up_to)

lemma ValidateDocument_sound:
  assumes "ValidateDocument k m s = Inr ()"
  shows "json_document m s"
proof -
  obtain p q r where p: "SkipWhitespace k (s, 0) = Inr p" "SkipValue (json_fuel s) k m 0 p = Inr q"
    "SkipWhitespace k q = Inr r" "fst r = []"
    using assms by (auto simp: ValidateDocument_def json_Reset_def split: if_splits)
  obtain w w' v where "ws w" "s = w @ fst p" "ws w'" "json_value m v" "fst p = w' @ v @ fst q"
    using skip_ws [OF p(1)] SkipValue_sound [OF p(2)] by auto
  moreover obtain w'' where "ws w''" "fst q = w''" using skip_ws [OF p(3)] p(4) by auto
  ultimately show ?thesis unfolding json_document_def
    by (intro exI [of _ "w @ w'"] exI [of _ v] exI [of _ w'']) simp
qed

lemma ValidateDocument_quiet:
  assumes "json_document m s"
  shows "ValidateDocument quiet m s = Inr ()"
proof -
  obtain w v w' where s: "ws w" "json_value m v" "ws w'" "s = w @ v @ w'" using assms by (auto simp: json_document_def)
  obtain n1 where 1: "SkipWhitespace quiet (s, 0) = Inr (v @ w', n1)"
    using skip_ws_quiet [OF s(1), of "v @ w'" 0] value_start [OF s(2)] s(4) by (auto simp: item_start_def)
  have "value_ends w'" using value_ends_ws [OF s(3), of "[]"] by (simp add: value_ends_def)
  then obtain n2 where 2: "SkipValue (json_fuel s) quiet m 0 (v @ w', n1) = Inr (w', n2)"
    using SkipValue_quiet [of m 0 v "[]" "json_fuel s" w' n1] s by (auto simp: json_fuel_def)
  obtain n3 where "SkipWhitespace quiet (w', n2) = Inr ([], n3)" using skip_ws_quiet [OF s(3), of "[]" n2] by auto
  then show ?thesis using 1 2 by (simp add: ValidateDocument_def json_Reset_def)
qed

text \<open>
  C32. When no check interrupts, \<open>ValidateDocument\<close> accepts exactly the RFC 8259 documents over well-formed UTF-8
  and paired surrogate escapes whose elements and members nest at most as deep as the limit. In general a
  control object and a clock matter only through an interruption they really raise: the result is the same as without
  them, or it is the cancellation or the deadline error of one of the checks.
\<close>

theorem json_document_grammar:
  "(ValidateDocument quiet m s = Inr () \<longleftrightarrow> json_document m s) \<and>
   (ValidateDocument k m s = ValidateDocument quiet m s \<or>
    ValidateDocument k m s = Inl JsonCancelled \<and> (\<exists>n. fst (k n)) \<or>
    ValidateDocument k m s = Inl (JsonResource ''wall_milliseconds'') \<and> (\<exists>n. \<not> fst (k n) \<and> snd (k n)))"
  using ValidateDocument_up_to [of k m s] ValidateDocument_sound ValidateDocument_quiet
  by (auto simp: up_to_def interruptions_def)

text \<open>
  Skipping a value ends for every input, control and nesting limit: the recursion and its loops need no more
  than one step per unread byte and one more, and additional fuel changes nothing.
\<close>

lemma json_skipping_terminates:
  "SkipValue (length (fst p) + 1 + e) k m depth p = SkipValue (length (fst p) + 1) k m depth p \<and>
   SkipValue (length (fst p) + 1) k m depth p \<noteq> Inl JsonOutOfFuel \<and> ValidateDocument k m s \<noteq> Inl JsonOutOfFuel"
proof (intro conjI)
  have "fuelled (SkipValue (length (fst p) + 1) k m depth p)" for p depth by (rule SkipValue_fuelled) simp
  then show "SkipValue (length (fst p) + 1) k m depth p \<noteq> Inl JsonOutOfFuel" by (simp add: fuelled_def)
  then show "SkipValue (length (fst p) + 1 + e) k m depth p = SkipValue (length (fst p) + 1) k m depth p"
    using SkipValue_more_fuel [of "length (fst p) + 1" "length (fst p) + 1 + e" k m depth p] by (auto simp: up_to_def)
  have "fuelled (ValidateDocument k m s)" unfolding ValidateDocument_def json_Reset_def
    by (intro fuelled_and_then fuelled_if fuelled_simps whitespace_fuelled SkipValue_fuelled)
      (auto dest!: skip_ws simp: json_fuel_def)
  then show "ValidateDocument k m s \<noteq> Inl JsonOutOfFuel" by (simp add: fuelled_def)
qed

end
