(* ===== verification/Json_Strings.thy ===== *)
theory Json_Strings
  imports Json_Document
begin

text \<open>
  The three readers of string tokens, \<open>SkipString\<close>, \<open>ParseString\<close> and \<open>ParseObjectKey\<close>: they accept the same tokens
  and stop at the same place, what they decode is what the token denotes, and every decoded string is well-formed
  UTF-8 within its limit.
\<close>

unbundle bit_operations_syntax

subsection \<open>Encoded code points\<close>

lemma heads_or:
  "x < 32 \<Longrightarrow> 0xc0 OR (x::nat) = 192 + x" "x < 16 \<Longrightarrow> 0xe0 OR (x::nat) = 224 + x" "x < 8 \<Longrightarrow> 0xf0 OR (x::nat) = 240 + x"
  "0x80 OR (x AND 0x3f) = 128 + (x::nat) mod 64"
  using or_low [of x 5 6] or_low [of x 4 14] or_low [of x 3 30] or_low [of "x mod 64" 6 2]
  by (simp_all add: push_bit_eq_mult low_bits)

lemma continuation_char: "utf8_continuation (char_of (128 + x mod 64))" "byte (char_of (128 + x mod 64)) = 128 + x mod 64"
proof -
  have "x mod 64 < 64" by simp
  then have "128 + x mod 64 < 256" by linarith
  then show "byte (char_of (128 + x mod 64)) = 128 + x mod 64" by (rule byte_char_of)
  then show "utf8_continuation (char_of (128 + x mod 64))"
    using \<open>x mod 64 < 64\<close> unfolding utf8_continuation_def by linarith
qed

definition scalar_value :: "nat \<Rightarrow> bool" where
  "scalar_value v \<longleftrightarrow> v \<le> 0x10ffff \<and> \<not> (0xd800 \<le> v \<and> v \<le> 0xdfff)"

definition utf8_unit :: "string \<Rightarrow> bool" where
  "utf8_unit u \<longleftrightarrow> utf8_sequence u \<or> (\<exists>c. u = [c] \<and> byte c < 0x80)"

definition well_formed_utf8 :: "string \<Rightarrow> bool" where
  "well_formed_utf8 s \<longleftrightarrow> (\<exists>us. list_all utf8_unit us \<and> s = concat us)"

lemma reassemble:
  "(v::nat) div 64 * 64 + v mod 64 = v" "(v div 4096 * 64 + v div 64 mod 64) * 64 + v mod 64 = v"
  "((v div 262144 * 64 + v div 4096 mod 64) * 64 + v div 64 mod 64) * 64 + v mod 64 = v"
  using div_mult_mod_eq [of v 64] div_mult_mod_eq [of "v div 64" 64] div_mult_mod_eq [of "v div 4096" 64]
  by (simp_all add: div_mult2_eq [symmetric])

lemma code_point_utf8:
  assumes "scalar_value v"
  shows "utf8_unit (code_point_bytes v)"
proof -
  consider (one) "v < 0x80" | (two) "0x80 \<le> v" "v < 0x800" | (three) "0x800 \<le> v" "v < 0x10000"
    | (four) "0x10000 \<le> v" "v < 0x110000"
    using assms unfolding scalar_value_def by linarith
  then show ?thesis
  proof cases
    case one
    then show ?thesis by (simp add: code_point_bytes_def utf8_unit_def byte_char_of)
  next
    case two
    have h: "v div 64 < 32" using two by (simp add: less_mult_imp_div_less)
    let ?a = "char_of (192 + v div 64) :: char" and ?us = "[char_of (128 + v mod 64)] :: string"
    have a: "byte ?a = 192 + v div 64" using h by (intro byte_char_of) linarith
    have "utf8_sequence (?a # ?us)"
      using utf8_sequence_iff [of ?us ?a] h a two assms
      by (simp add: continuation_char utf8_head_cases utf8_number_def reassemble utf8_valid_def scalar_value_def)
    then show ?thesis using two h by (simp add: code_point_bytes_def utf8_unit_def heads_or drop_bit_eq_div)
  next
    case three
    have h: "v div 4096 < 16" using three by (simp add: less_mult_imp_div_less)
    let ?a = "char_of (224 + v div 4096) :: char"
    let ?us = "[char_of (128 + v div 64 mod 64), char_of (128 + v mod 64)] :: string"
    have a: "byte ?a = 224 + v div 4096" using h by (intro byte_char_of) linarith
    have num: "utf8_number (v div 4096) ?us = v"
      unfolding utf8_number_def by (simp only: foldl.simps continuation_char add_diff_cancel_left' reassemble)
    have head: "utf8_head ?a = Some (2, v div 4096, 0x800)" using a h by (simp add: utf8_head_cases)
    have "utf8_valid 0x800 v" using three assms by (simp add: utf8_valid_def scalar_value_def)
    then have "utf8_sequence (?a # ?us)"
      using utf8_sequence_iff [of ?us ?a] num head a by (simp add: continuation_char)
    then show ?thesis using three h by (simp add: code_point_bytes_def utf8_unit_def heads_or drop_bit_eq_div)
  next
    case four
    have h: "v div 262144 < 8" using four by (simp add: less_mult_imp_div_less)
    let ?a = "char_of (240 + v div 262144) :: char"
    let ?us = "[char_of (128 + v div 4096 mod 64), char_of (128 + v div 64 mod 64), char_of (128 + v mod 64)] :: string"
    have a: "byte ?a = 240 + v div 262144" using h by (intro byte_char_of) linarith
    have num: "utf8_number (v div 262144) ?us = v"
      unfolding utf8_number_def by (simp only: foldl.simps continuation_char add_diff_cancel_left' reassemble)
    have head: "utf8_head ?a = Some (3, v div 262144, 0x10000)" using a h by (simp add: utf8_head_cases)
    have "utf8_valid 0x10000 v" using four assms by (simp add: utf8_valid_def scalar_value_def)
    then have "utf8_sequence (?a # ?us)"
      using utf8_sequence_iff [of ?us ?a] num head a by (simp add: continuation_char)
    then show ?thesis using four h by (simp add: code_point_bytes_def utf8_unit_def heads_or drop_bit_eq_div)
  qed
qed

subsection \<open>What a token denotes\<close>

text \<open>The text of one character of a string token and the bytes it stands for.\<close>

inductive char_text :: "string \<Rightarrow> string \<Rightarrow> bool" where
  plain: "json_unescaped u \<Longrightarrow> char_text u u"
| escape: "json_escape c = Some b \<Longrightarrow> char_text [CHR 0x5C, c] [b]"
| unicode: "escape_denotes us v \<Longrightarrow> char_text ([CHR 0x5C, CHR ''u''] @ us) (code_point_bytes v)"

definition string_text :: "string \<Rightarrow> string \<Rightarrow> bool" where
  "string_text s out \<longleftrightarrow> (\<exists>ps. list_all (case_prod char_text) ps \<and>
     s = [CHR 0x22] @ concat (map fst ps) @ [CHR 0x22] \<and> out = concat (map snd ps))"

lemma hex_digit_bound: "hex_digit c = Some d \<Longrightarrow> d < 16"
  by (auto simp: hex_digit_def in_range_def byte_def split: if_splits)

lemma hex4_value_bound:
  assumes "hex4 h"
  shows "hex4_value h < 0x10000"
proof -
  obtain a b c d where h: "h = [a, b, c, d]" "\<forall>x\<in>{a, b, c, d}. \<exists>v. hex_digit x = Some v \<and> v < 16"
    using assms hex_digit_bound by (fastforce simp: hex4_def numeral_eq_Suc length_Suc_conv)
  then obtain w x y z where "hex4_value h = ((w * 16 + x) * 16 + y) * 16 + z" "w < 16" "x < 16" "y < 16" "z < 16"
    by (auto simp: hex4_value_def)
  then show ?thesis by simp
qed

lemma escape_scalar: "escape_denotes us v \<Longrightarrow> scalar_value v"
proof (induction rule: escape_denotes.induct)
  case (unit h)
  then show ?case using hex4_value_bound [of h]
    unfolding scalar_value_def high_surrogate_def low_surrogate_def by linarith
next
  case (pair h l)
  then have "hex4_value h - 0xd800 \<le> 0x3ff" "hex4_value l - 0xdc00 \<le> 0x3ff"
    unfolding high_surrogate_def low_surrogate_def by linarith+
  then show ?case unfolding scalar_value_def surrogate_pair_def by linarith
qed

lemma escape_ascii: "json_escape c = Some b \<Longrightarrow> byte b < 0x80"
  by (auto simp: json_escape_def byte_def split: if_splits)

lemma char_text_utf8: "char_text a b \<Longrightarrow> utf8_unit b"
proof (induction rule: char_text.induct)
  case (plain u)
  then show ?case by (auto simp: json_unescaped_def utf8_unit_def)
next
  case (escape c b)
  then show ?case using escape_ascii by (simp add: utf8_unit_def)
next
  case (unicode us v)
  then show ?case using escape_scalar code_point_utf8 by blast
qed

lemma string_text_utf8: "string_text s out \<Longrightarrow> well_formed_utf8 out"
proof -
  assume "string_text s out"
  then obtain ps where ps: "list_all (case_prod char_text) ps" "out = concat (map snd ps)" by (auto simp: string_text_def)
  have "list_all utf8_unit (map snd ps)" using ps(1) by (induction ps) (auto intro: char_text_utf8)
  then show ?thesis using ps(2) by (auto simp: well_formed_utf8_def)
qed

subsection \<open>Appending within the limit\<close>

lemma RequireAppend_bound:
  assumes "RequireAppend result add mx f = Inr ()" and "length result \<le> unat mx"
  shows "length result + unat add \<le> unat mx"
proof -
  have "unat mx < 2 ^ 64" using unsigned_less [of mx] by simp
  then have "length result < 2 ^ 64" using assms(2) by linarith
  then have "unat (of_nat (length result) :: u64) = length result" by (simp add: unat_of_nat)
  moreover have le: "add \<le> mx" "(of_nat (length result) :: u64) \<le> mx - add"
    using assms(1) by (auto simp: RequireAppend_def not_less split: if_splits)
  ultimately have "length result \<le> unat (mx - add)" by (simp add: word_le_nat_alt)
  then show ?thesis using le(1) unat_sub [OF le(1)] by (simp add: word_le_nat_alt)
qed

lemma ReserveAppend_result: "ReserveAppend ob add mx f s = Inr s' \<Longrightarrow> sk_result s' = sk_result s \<and> RequireAppend (sk_result s) add mx f = Inr ()"
  by (auto simp: ReserveAppend_def Let_def split: option.splits if_splits)

text \<open>An append that returns has added the bytes, and kept the result within the limit.\<close>

definition appended :: "u64 \<Rightarrow> 'o json_sink \<Rightarrow> string \<Rightarrow> 'o json_sink \<Rightarrow> bool" where
  "appended mx s bytes s' \<longleftrightarrow> sk_result s' = sk_result s @ bytes \<and>
     (length (sk_result s) \<le> unat mx \<longrightarrow> length (sk_result s') \<le> unat mx)"

lemma appended_trans: "appended mx s a t \<Longrightarrow> appended mx t b u \<Longrightarrow> appended mx s (a @ b) u"
  by (auto simp: appended_def)

lemma json_append_appended:
  assumes "json_append ob mx f bytes s = Inr s'" and "length bytes \<le> 4"
  shows "appended mx s bytes s'"
proof -
  obtain t where t: "ReserveAppend ob (of_nat (length bytes)) mx f s = Inr t" "s' = t\<lparr>sk_result := sk_result t @ bytes\<rparr>"
    using assms(1) by (auto simp: json_append_def)
  have "unat (of_nat (length bytes) :: u64) = length bytes" using assms(2) by (simp add: unat_of_nat)
  then show ?thesis using ReserveAppend_result [OF t(1)] RequireAppend_bound [of "sk_result s"] t(2)
    by (fastforce simp: appended_def)
qed

lemma AppendUtf8_appended:
  assumes "AppendUtf8 k ob mx f c p s = Inr (q, s')"
  shows "SkipUtf8 k c p = Inr q \<and> (\<exists>us. fst p = us @ fst q \<and> appended mx s (c # us) s')"
proof (cases "byte c < 0x80")
  case True
  then show ?thesis using assms json_append_appended [of ob mx f "[c]" s s'] by (auto simp: AppendUtf8_def SkipUtf8_def)
next
  case False
  then obtain count v mn w where h: "utf8_head c = Some (count, v, mn)" "utf8_tail k count v p = Inr (w, q)" "SkipUtf8 k c p = Inr q"
    "json_append ob mx f (c # take count (fst p)) s = Inr s'"
    using assms by (auto simp: AppendUtf8_def SkipUtf8_def split: option.splits if_splits)
  obtain us where us: "fst p = us @ fst q" "length us = count" using utf8_tail_suffix [OF h(2)] by blast
  have "count \<le> 3" using h(1) by (auto simp: utf8_head_cases split: if_splits)
  then show ?thesis using h us json_append_appended [OF h(4)] by auto
qed

subsection \<open>The three readers\<close>

lemma code_point_length: "length (code_point_bytes v) \<le> 4"
  by (simp add: code_point_bytes_def)

lemma key_append_all_append: "key_append_all (a @ b) key = key_append_all b (key_append_all a key)"
  by (simp add: key_append_all_def)

text \<open>
  What a completed reading shows: the characters of the token with their meaning, what was appended, and that
  the key reader stops at the same place having appended the same bytes.
\<close>

definition token_read ::
    "json_control \<Rightarrow> u64 \<Rightarrow> json_cursor \<Rightarrow> 'o json_sink \<Rightarrow> json_cursor \<Rightarrow> 'o json_sink \<Rightarrow> (string \<times> string) list \<Rightarrow> bool" where
  "token_read k mx p s q s' ps \<longleftrightarrow> list_all (case_prod char_text) ps \<and>
     fst p = concat (map fst ps) @ [CHR 0x22] @ fst q \<and> appended mx s (concat (map snd ps)) s' \<and>
     (\<forall>key. object_key_loop k p key = Inr (q, key_append_all (concat (map snd ps)) key))"

lemma token_read_step:
  assumes "token_read k mx r t q s' ps" and "char_text a b" and "fst p = a @ fst r" and "appended mx s b t"
    and "\<And>key. object_key_loop k p key = object_key_loop k r (key_append_all b key)"
  shows "token_read k mx p s q s' ((a, b) # ps)"
  using assms appended_trans [OF assms(4)] by (auto simp: token_read_def key_append_all_append)

lemma parse_string_loop_read:
  "parse_string_loop k ob mx f p s = Inr (q, s') \<Longrightarrow> \<exists>ps. token_read k mx p s q s' ps"
proof (induction k ob mx f p s rule: parse_string_loop.induct)
  case (2 k ob mx f c cs n s)
  from 2(4) obtain n' where n: "json_Check k n = Inr n'" by auto
  consider (quote) "c = CHR 0x22" | (control) "byte c < 0x20" "c \<noteq> CHR 0x22"
    | (plain) "c \<noteq> CHR 0x22" "0x20 \<le> byte c" "\<not> byte c < 0x20" "c \<noteq> CHR 0x5C" | (escape) "c = CHR 0x5C" "\<not> byte c < 0x20"
    using backslash_byte not_less by blast
  then show ?case
  proof cases
    case quote
    then show ?thesis using 2(4) n
      by (intro exI [of _ "[]"]) (auto simp: token_read_def appended_def key_append_all_def)
  next
    case control
    then show ?thesis using 2(4) n by simp
  next
    case plain
    then obtain r t where r: "AppendUtf8 k ob mx f c (cs, n') s = Inr (r, t)" "parse_string_loop k ob mx f r t = Inr (q, s')"
      using 2(4) n by auto
    obtain us where u: "SkipUtf8 k c (cs, n') = Inr r" "cs = us @ fst r" "appended mx s (c # us) t"
      using AppendUtf8_appended [OF r(1)] by auto
    have "json_unescaped (c # us)" using SkipUtf8_sound [OF u(1)] plain u(2) by auto
    moreover have "object_key_loop k (c # cs, n) key = object_key_loop k r (key_append_all (c # us) key)" for key
      using plain n u by simp
    moreover obtain ps where "token_read k mx r t q s' ps" using 2(1) [OF n _ _ _ r(1) refl r(2)] plain by blast
    ultimately show ?thesis using token_read_step [of k mx r t q s' ps "c # us" "c # us"] u char_text.plain by fastforce
  next
    case escape
    then obtain e es where cs: "cs = e # es" using 2(4) n by (cases cs) auto
    show ?thesis
    proof (cases "e = CHR ''u''")
      case True
      then obtain v r t where r: "ParseEscapedUnicode k (es, n') = Inr (v, r)" "AppendCodePoint ob mx f v s = Inr t"
        "parse_string_loop k ob mx f r t = Inr (q, s')"
        using 2(4) n escape cs by auto
      obtain us where us: "es = us @ fst r" "escape_denotes us v" using ParseEscapedUnicode_sound [OF r(1)] by auto
      have "appended mx s (code_point_bytes v) t"
        using r(2) json_append_appended [OF _ code_point_length] by (auto simp: AppendCodePoint_def)
      moreover have "object_key_loop k (c # cs, n) key = object_key_loop k r (key_append_all (code_point_bytes v) key)" for key
        using escape n r(1) cs True by (simp add: key_AppendCodePoint_def)
      moreover obtain ps where "token_read k mx r t q s' ps"
        using 2(2) [OF n _ _ _ cs True r(1) refl r(2,3)] escape by auto
      ultimately show ?thesis
        using token_read_step [of k mx r t q s' ps, OF _ char_text.unicode [OF us(2)], of "(c # cs, n)" s] us(1) cs True escape by auto
    next
      case False
      then obtain b t where r: "json_escape e = Some b" "json_append ob mx f [b] s = Inr t"
        "parse_string_loop k ob mx f (es, n') t = Inr (q, s')"
        using 2(4) n escape cs by (auto split: option.splits)
      have "appended mx s [b] t" using json_append_appended [OF r(2)] by simp
      moreover have "object_key_loop k (c # cs, n) key = object_key_loop k (es, n') (key_append_all [b] key)" for key
        using escape n r(1) cs False by (simp add: key_append_all_def)
      moreover obtain ps where "token_read k mx (es, n') t q s' ps" using 2(3) [OF n _ _ _ cs False r] escape by auto
      ultimately show ?thesis
        using token_read_step [of k mx "(es, n')" t q s' ps, OF _ char_text.escape [OF r(1)], of "(c # cs, n)" s] cs escape by auto
    qed
  qed
qed simp

lemma AppendUtf8_eq:
  "AppendUtf8 k ob mx f c p s = and_then (SkipUtf8 k c p) (\<lambda>q.
     and_then (json_append ob mx f (c # take (length (fst p) - length (fst q)) (fst p)) s) (\<lambda>s. Inr (q, s)))"
proof (cases "byte c < 0x80")
  case False
  show ?thesis
  proof (cases "utf8_head c")
    case (Some h)
    obtain count v mn where h: "h = (count, v, mn)" by (cases h)
    show ?thesis
    proof (cases "utf8_tail k count v p")
      case (Inr wq)
      obtain w q where wq: "wq = (w, q)" by (cases wq)
      have "count = length (fst p) - length (fst q)" using utf8_tail_suffix [OF Inr [unfolded wq]] by auto
      then show ?thesis using False Some h Inr wq by (simp add: AppendUtf8_def SkipUtf8_def)
    qed (use False Some h in \<open>simp add: AppendUtf8_def SkipUtf8_def\<close>)
  qed (use False in \<open>simp add: AppendUtf8_def SkipUtf8_def\<close>)
qed (simp add: AppendUtf8_def SkipUtf8_def)

lemma object_key_loop_skips: "map_sum id fst (object_key_loop k p key) = skip_string_loop k p"
proof (induction k p key rule: object_key_loop.induct)
  case (2 k c cs n key)
  show ?case
  proof (cases "json_Check k n")
    case (Inr n')
    show ?thesis
    proof (cases "SkipUtf8 k c (cs, n')")
      case (Inl e)
      then show ?thesis using 2 Inr by (cases cs; cases "ParseEscapedUnicode k (tl cs, n')") (auto split: option.splits)
    next
      case (Inr q)
      then show ?thesis using 2 \<open>json_Check k n = Inr n'\<close>
        by (cases cs; cases "ParseEscapedUnicode k (tl cs, n')") (auto split: option.splits)
    qed
  qed simp
qed simp

text \<open>The errors of an append: the limit, or what the observer throws.\<close>

definition append_errors :: "'o capacity_observer option \<Rightarrow> string \<Rightarrow> json_error set" where
  "append_errors ob f = {JsonResource f} \<union>
     {e. \<exists>o1. ob = Some o1 \<and> ((\<exists>a b st. ob_ReserveStringCapacity o1 a b st = Inl e) \<or>
       (\<exists>a b c st. ob_ReconcileStringCapacity o1 a b c st = Inl e))}"

lemma json_append_errors:
  assumes "json_append ob mx f bytes s = Inl e"
  shows "e \<in> append_errors ob f"
proof -
  have r: "ReserveAppend ob (of_nat (length bytes)) mx f s = Inl e" using assms by (auto simp: json_append_def and_then_eq_Inl)
  show ?thesis
  proof (cases "RequireAppend (sk_result s) (of_nat (length bytes)) mx f")
    case (Inl e')
    then have "e' = JsonResource f" by (auto simp: RequireAppend_def split: if_splits)
    then show ?thesis using r Inl by (simp add: ReserveAppend_def append_errors_def)
  next
    case (Inr u)
    then obtain o1 where "ob = Some o1" using r by (cases ob) (auto simp: ReserveAppend_def)
    then show ?thesis using r Inr
      by (auto simp: ReserveAppend_def append_errors_def Let_def and_then_eq_Inl split: if_splits)
  qed
qed

lemma append_up_to:
  assumes "\<And>t. json_append ob mx f bytes s = Inr t \<Longrightarrow> up_to (append_errors ob f) (map_sum id fst (g t)) b"
  shows "up_to (append_errors ob f) (map_sum id fst (and_then (json_append ob mx f bytes s) g)) b"
  using assms by (cases "json_append ob mx f bytes s") (auto dest: json_append_errors intro: up_to_error)

lemma parse_string_loop_skips:
  "up_to (append_errors ob f) (map_sum id fst (parse_string_loop k ob mx f p s)) (skip_string_loop k p)"
proof (induction k ob mx f p s rule: parse_string_loop.induct)
  case (2 k ob mx f c cs n s)
  show ?case
  proof (cases "json_Check k n")
    case n: (Inr n')
    consider (quote) "c = CHR 0x22 \<or> byte c < 0x20" | (plain) "c \<noteq> CHR 0x22" "\<not> byte c < 0x20" "c \<noteq> CHR 0x5C"
      | (escape) "\<not> c \<noteq> CHR 0x5C" "\<not> byte c < 0x20" "c \<noteq> CHR 0x22"
      using backslash_byte by blast
    then show ?thesis
    proof cases
      case plain
      show ?thesis
      proof (cases "SkipUtf8 k c (cs, n')")
        case (Inr q)
        let ?bytes = "c # take (length cs - length (fst q)) cs"
        have "parse_string_loop k ob mx f (c # cs, n) s = and_then (json_append ob mx f ?bytes s) (parse_string_loop k ob mx f q)"
          "skip_string_loop k (c # cs, n) = skip_string_loop k q"
          using n plain Inr by (simp_all add: AppendUtf8_eq and_then_assoc)
        moreover have "up_to (append_errors ob f) (map_sum id fst (parse_string_loop k ob mx f q t)) (skip_string_loop k q)"
          if "json_append ob mx f ?bytes s = Inr t" for t
          using 2(1) [OF n plain, of "(q, t)" q t] Inr that by (simp add: AppendUtf8_eq id_def)
        ultimately show ?thesis by (simp only: append_up_to)
      qed (use plain n in \<open>simp add: AppendUtf8_eq\<close>)
    next
      case escape
      show ?thesis
      proof (cases cs)
        case (Cons e es)
        show ?thesis
        proof (cases "e = CHR ''u''")
          case True
          show ?thesis
          proof (cases "ParseEscapedUnicode k (es, n')")
            case (Inr vq)
            obtain v q where vq: "vq = (v, q)" by (cases vq)
            have "parse_string_loop k ob mx f (c # cs, n) s =
                and_then (json_append ob mx f (code_point_bytes v) s) (parse_string_loop k ob mx f q)"
              "skip_string_loop k (c # cs, n) = skip_string_loop k q"
              using n escape Cons True Inr vq by (simp_all add: AppendCodePoint_def)
            then show ?thesis using 2(2) [OF n escape(3,2,1) Cons True Inr vq [symmetric]] by (simp only: append_up_to AppendCodePoint_def)
          qed (use n escape Cons True in simp)
        next
          case False
          show ?thesis
          proof (cases "json_escape e")
            case (Some b)
            have "parse_string_loop k ob mx f (c # cs, n) s =
                and_then (json_append ob mx f [b] s) (parse_string_loop k ob mx f (es, n'))"
              "skip_string_loop k (c # cs, n) = skip_string_loop k (es, n')"
              using n escape Cons False Some by simp_all
            then show ?thesis using 2(3) [OF n escape(3,2,1) Cons False Some] by (simp only: append_up_to)
          qed (use n escape Cons False in simp)
        qed
      qed (use n escape in simp)
    qed (use n in auto)
  qed simp
qed simp

subsection \<open>Decoding without an observer\<close>

lemma RequireAppend_iff:
  assumes "length result \<le> unat mx" and "n \<le> 4"
  shows "RequireAppend result (of_nat n) mx f = (if length result + n \<le> unat mx then Inr () else Inl (JsonResource f))"
proof (cases "length result + n \<le> unat mx")
  case True
  have "unat mx < 2 ^ 64" using unsigned_less [of mx] by simp
  then have r: "unat (of_nat (length result) :: u64) = length result" using assms(1) by (simp add: unat_of_nat)
  have n: "unat (of_nat n :: u64) = n" using assms(2) by (simp add: unat_of_nat)
  then have le: "of_nat n \<le> mx" using True by (simp add: word_le_nat_alt)
  then have "(of_nat (length result) :: u64) \<le> mx - of_nat n"
    using True r n unat_sub [OF le] by (simp add: word_le_nat_alt)
  then show ?thesis using le True by (simp add: RequireAppend_def not_less)
next
  case False
  then show ?thesis using RequireAppend_bound [of result "of_nat n" mx f] assms
    by (cases "RequireAppend result (of_nat n) mx f") (auto simp: unat_of_nat RequireAppend_def split: if_splits)
qed

lemma json_append_None:
  assumes "length (sk_result s) \<le> unat mx" and "length bytes \<le> 4"
  shows "json_append None mx f bytes s =
    (if length (sk_result s) + length bytes \<le> unat mx then Inr (s\<lparr>sk_result := sk_result s @ bytes\<rparr>) else Inl (JsonResource f))"
  using RequireAppend_iff [OF assms] by (simp add: json_append_def ReserveAppend_def)

lemma json_unescaped_length: "json_unescaped u \<Longrightarrow> length u \<le> 4"
  by (cases u rule: utf8_sequence.cases) (auto simp: json_unescaped_def)

lemma parse_char_quiet:
  assumes "char_text a b" and "length (sk_result s) \<le> unat mx"
  shows "\<exists>n'. parse_string_loop quiet None mx f (a @ r, n) s =
    (if length (sk_result s) + length b \<le> unat mx
     then parse_string_loop quiet None mx f (r, n') (s\<lparr>sk_result := sk_result s @ b\<rparr>) else Inl (JsonResource f))"
  using assms(1)
proof cases
  case plain
  then obtain c us where a: "a = c # us" using json_unescaped_Cons by blast
  obtain n' where "SkipUtf8 quiet c (us @ r, n + 1) = Inr (r, n')" using SkipUtf8_quiet [of c us] plain a by auto
  then show ?thesis using json_unescaped_head [of c us] json_unescaped_length [OF plain(2)] plain a assms(2)
    by (auto simp: AppendUtf8_eq json_append_None)
next
  case (escape c b')
  then have "c \<noteq> CHR ''u''" by (auto simp: json_escape_def)
  then show ?thesis using escape assms(2) by (auto simp: json_append_None byte_def)
next
  case (unicode us v)
  obtain n' where "ParseEscapedUnicode quiet (us @ r, n + 1) = Inr (v, (r, n'))"
    using ParseEscapedUnicode_quiet [OF unicode(3)] by blast
  then show ?thesis using unicode assms(2) code_point_length [of v]
    by (auto simp: AppendCodePoint_def json_append_None byte_def)
qed

lemma parse_string_loop_quiet:
  "list_all (case_prod char_text) ps \<Longrightarrow> length (sk_result s) \<le> unat mx \<Longrightarrow>
   \<exists>n'. parse_string_loop quiet None mx f (concat (map fst ps) @ [CHR 0x22] @ r, n) s =
     (if length (sk_result s) + length (concat (map snd ps)) \<le> unat mx
      then Inr ((r, n'), s\<lparr>sk_result := sk_result s @ concat (map snd ps)\<rparr>) else Inl (JsonResource f))"
proof (induction ps arbitrary: s n)
  case (Cons p ps)
  obtain a b where p: "p = (a, b)" by (cases p)
  let ?rest = "concat (map fst ps) @ [CHR 0x22] @ r" and ?t = "s\<lparr>sk_result := sk_result s @ b\<rparr>"
  obtain n1 where 1: "parse_string_loop quiet None mx f (a @ ?rest, n) s =
    (if length (sk_result s) + length b \<le> unat mx then parse_string_loop quiet None mx f (?rest, n1) ?t
     else Inl (JsonResource f))"
    using parse_char_quiet [of a b s mx f ?rest n] Cons.prems p by auto
  show ?case
  proof (cases "length (sk_result s) + length b \<le> unat mx")
    case True
    then show ?thesis using Cons.IH [of ?t n1] Cons.prems(1) 1 p by (auto simp: add.assoc)
  next
    case False
    then show ?thesis using 1 p by auto
  qed
qed simp

lemma key_append_all_bytes:
  "key_append_all out key = key\<lparr>ky_bytes := ky_bytes key @ take (64 - length (ky_bytes key)) out,
     ky_overflow := ky_overflow key \<or> length (ky_bytes key) + length out > 64\<rparr>"
  if "length (ky_bytes key) \<le> 64"
  using that
proof (induction out arbitrary: key)
  case Nil
  then show ?case by (simp add: key_append_all_def)
next
  case (Cons c out)
  have step: "key_append_all (c # out) key = key_append_all out (key_Append c key)" by (simp add: key_append_all_def)
  show ?case
  proof (cases "length (ky_bytes key) < 64")
    case True
    then obtain m where "64 - length (ky_bytes key) = Suc m" "63 - length (ky_bytes key) = m" by (cases "64 - length (ky_bytes key)") auto
    then show ?thesis using Cons True unfolding step by (auto simp: key_Append_def)
  next
    case False
    then show ?thesis using Cons unfolding step by (auto simp: key_Append_def)
  qed
qed

lemma key_Equals_iff: "length e \<le> 64 \<Longrightarrow> key_Equals (key_append_all out empty_key) e \<longleftrightarrow> out = e"
  by (auto simp: key_append_all_bytes empty_key_def key_Equals_def)

subsection \<open>String tokens as a whole\<close>

lemma initial_sink_result: "initial_sink ob st = Inr s \<Longrightarrow> sk_result s = []"
  by (auto simp: initial_sink_def split: option.splits)

lemma initial_sink_errors: "initial_sink ob st = Inl e \<Longrightarrow> e \<in> append_errors ob f"
  by (auto simp: initial_sink_def append_errors_def and_then_eq_Inl split: option.splits)

lemma ParseString_read:
  assumes "json_ParseString k ob mx f st p = Inr (q, s)"
  shows "\<exists>token. string_text token (sk_result s) \<and> fst p = token @ fst q \<and> length (sk_result s) \<le> unat mx \<and>
    ParseObjectKey k p = Inr (q, key_append_all (sk_result s) empty_key)"
proof -
  obtain r i where r: "Expect k CHR 0x22 p = Inr r" "initial_sink ob st = Inr i" "parse_string_loop k ob mx f r i = Inr (q, s)"
    using assms by (auto simp: json_ParseString_def)
  obtain ps where ps: "token_read k mx r i q s ps" using parse_string_loop_read [OF r(3)] by blast
  then have res: "sk_result s = concat (map snd ps)" "length (sk_result s) \<le> unat mx"
    using initial_sink_result [OF r(2)] by (auto simp: token_read_def appended_def)
  have "string_text ([CHR 0x22] @ concat (map fst ps) @ [CHR 0x22]) (sk_result s)"
    using ps res(1) by (auto simp: string_text_def token_read_def)
  moreover have "fst p = ([CHR 0x22] @ concat (map fst ps) @ [CHR 0x22]) @ fst q"
    using Expect_Inr [OF r(1)] ps by (simp add: token_read_def)
  moreover have "ParseObjectKey k p = Inr (q, key_append_all (sk_result s) empty_key)"
    using r(1) ps res(1) by (simp add: ParseObjectKey_def token_read_def)
  ultimately show ?thesis using res(2) by blast
qed

lemma ParseString_denoted:
  assumes "string_text token out"
  shows "\<exists>n'. json_ParseString quiet None mx f st (token @ r, n) =
    (if length out \<le> unat mx then Inr ((r, n'), \<lparr>sk_result = out, sk_capacity = 0, sk_charged = 0, sk_state = st\<rparr>)
     else Inl (JsonResource f))"
proof -
  obtain ps where ps: "list_all (case_prod char_text) ps" "token = [CHR 0x22] @ concat (map fst ps) @ [CHR 0x22]"
    "out = concat (map snd ps)" using assms by (auto simp: string_text_def)
  let ?s = "\<lparr>sk_result = [], sk_capacity = 0, sk_charged = 0, sk_state = st\<rparr>"
  obtain n' where "parse_string_loop quiet None mx f (concat (map fst ps) @ [CHR 0x22] @ r, n + 1) ?s =
     (if length (sk_result ?s) + length (concat (map snd ps)) \<le> unat mx
      then Inr ((r, n'), ?s\<lparr>sk_result := sk_result ?s @ concat (map snd ps)\<rparr>) else Inl (JsonResource f))"
    using parse_string_loop_quiet [OF ps(1), of ?s mx f r "n + 1"] by auto
  then show ?thesis by (intro exI [of _ n']) (simp add: json_ParseString_def ps(2,3) Expect_quiet initial_sink_def)
qed

definition sample_key_text :: string where
  "sample_key_text = [CHR 0x22, CHR ''a'', CHR 0x5C, CHR ''u'', CHR ''0'', CHR ''0'', CHR ''6'', CHR ''2'', CHR 0x22]"

lemma sample_key_denotes: "string_text sample_key_text ''ab''"
proof -
  have a: "char_text ''a'' ''a''" by (rule char_text.plain) (simp add: json_unescaped_def byte_def)
  have v: "hex4_value ''0062'' = 98" by (simp add: hex4_value_def hex_digit_def in_range_def byte_def)
  have "hex4 ''0062''" by (simp add: hex4_def hex_digit_def in_range_def byte_def)
  then have "escape_denotes ''0062'' 98"
    using escape_denotes.unit [of "''0062''"] v by (simp add: high_surrogate_def low_surrogate_def)
  then have "char_text ([CHR 0x5C, CHR ''u''] @ ''0062'') (code_point_bytes 98)" by (rule char_text.unicode)
  moreover have "code_point_bytes 98 = ''b''" by (simp add: code_point_bytes_def) code_simp
  ultimately show ?thesis unfolding string_text_def
    by (intro exI [of _ "[(''a'', ''a''), ([CHR 0x5C, CHR ''u''] @ ''0062'', ''b'')]"]) (use a in \<open>simp add: sample_key_text_def\<close>)
qed

text \<open>
  The three readers of string tokens agree, whatever the control object, the clock and the capacity observer
  do. \<open>ParseObjectKey\<close> returns, fails and stops exactly as \<open>SkipString\<close>; \<open>ParseString\<close> does too, unless an
  append fails on the byte limit or the observer throws; and the key compares equal to a name of
  at most 64 bytes exactly when the materialized string is that name, so the fixed key buffer is never
  mistaken for a longer key.
\<close>

lemma string_readers_agree:
  "map_sum id fst (ParseObjectKey k p) = SkipString k p \<and>
   (map_sum id fst (json_ParseString k ob mx f st p) = SkipString k p \<or>
    (\<exists>e\<in>append_errors ob f. json_ParseString k ob mx f st p = Inl e)) \<and>
   (\<forall>q s name. json_ParseString k ob mx f st p = Inr (q, s) \<and> length name \<le> 64 \<longrightarrow>
      (\<exists>key. ParseObjectKey k p = Inr (q, key) \<and> (key_Equals key name \<longleftrightarrow> sk_result s = name)))"
proof (intro conjI allI impI)
  show "map_sum id fst (ParseObjectKey k p) = SkipString k p"
    by (cases "Expect k CHR 0x22 p") (simp_all add: ParseObjectKey_def SkipString_def object_key_loop_skips)
  show "map_sum id fst (json_ParseString k ob mx f st p) = SkipString k p \<or>
    (\<exists>e\<in>append_errors ob f. json_ParseString k ob mx f st p = Inl e)"
  proof (cases "Expect k CHR 0x22 p")
    case (Inr r)
    show ?thesis
    proof (cases "initial_sink ob st")
      case (Inl e)
      then show ?thesis using \<open>Expect k CHR 0x22 p = Inr r\<close> initial_sink_errors [OF Inl] by (simp add: json_ParseString_def)
    next
      case (Inr s)
      then show ?thesis using \<open>Expect k CHR 0x22 p = Inr r\<close> parse_string_loop_skips [of ob f k mx r s]
        by (cases "parse_string_loop k ob mx f r s") (auto simp: json_ParseString_def SkipString_def up_to_def)
    qed
  qed (simp add: json_ParseString_def SkipString_def)
  fix q s and name :: string
  assume a: "json_ParseString k ob mx f st p = Inr (q, s) \<and> length name \<le> 64"
  then show "\<exists>key. ParseObjectKey k p = Inr (q, key) \<and> (key_Equals key name \<longleftrightarrow> sk_result s = name)"
    using ParseString_read [of k ob mx f st p q s] key_Equals_iff [of name "sk_result s"] by auto
qed

text \<open>The witnesses read the key \<open>"a\u0062"\<close>, the name \<open>ab\<close>.\<close>

text \<open>
  C33. Every string the reader materializes is well-formed UTF-8 within its byte limit, under every control and
  observer, and it is what the token denotes: unescaped sequences stand for themselves, escapes for their
  characters, a surrogate pair for its code point. Conversely, when no check interrupts and nothing observes the capacity, a
  token that denotes \<open>out\<close> is read as \<open>out\<close> when it fits the limit and is refused as a resource error of
  the budget field otherwise.
\<close>

theorem decoded_strings_well_formed:
  "(json_ParseString k ob mx f st p = Inr (q, s) \<longrightarrow>
      well_formed_utf8 (sk_result s) \<and> length (sk_result s) \<le> unat mx \<and>
      (\<exists>token. string_text token (sk_result s) \<and> fst p = token @ fst q)) \<and>
   (string_text token out \<longrightarrow>
      (\<exists>n'. json_ParseString quiet None mx f st (token @ r, n) =
         (if length out \<le> unat mx
          then Inr ((r, n'), \<lparr>sk_result = out, sk_capacity = 0, sk_charged = 0, sk_state = st\<rparr>)
          else Inl (JsonResource f))))"
proof (intro conjI impI)
  assume "json_ParseString k ob mx f st p = Inr (q, s)"
  from ParseString_read [OF this] show "well_formed_utf8 (sk_result s)" "length (sk_result s) \<le> unat mx"
    "\<exists>token. string_text token (sk_result s) \<and> fst p = token @ fst q"
    using string_text_utf8 by blast+
qed (rule ParseString_denoted)

theorem decoded_strings_well_formed_witness:
  "json_ParseString quiet None 1 ''string_bytes'' () (sample_key_text @ '':'', 0) = Inl (JsonResource ''string_bytes'') \<and>
   (\<exists>n. json_ParseString quiet None 2 ''string_bytes'' () (sample_key_text @ '':'', 0) =
      Inr (('':'', n), \<lparr>sk_result = ''ab'', sk_capacity = 0, sk_charged = 0, sk_state = ()\<rparr>))"
proof -
  have one: "\<not> length ''ab'' \<le> unat (1::u64)" and two: "length ''ab'' \<le> unat (2::u64)" by simp_all
  show ?thesis
    using decoded_strings_well_formed [where token = sample_key_text and out = "''ab''" and f = "''string_bytes''" and st = "()"
        and r = "'':''" and n = 0 and mx = 1, THEN conjunct2, THEN mp, OF sample_key_denotes]
      decoded_strings_well_formed [where token = sample_key_text and out = "''ab''" and f = "''string_bytes''" and st = "()"
        and r = "'':''" and n = 0 and mx = 2, THEN conjunct2, THEN mp, OF sample_key_denotes]
    by (simp only: one two if_True if_False simp_thms)
qed

end
