(* ===== verification/Uri_Grammar.thy ===== *)
theory Uri_Grammar
  imports Prelude
begin

text \<open>
  The grammar of RFC 3986, appendix A, with the core rules of ABNF (RFC 5234): one predicate per production, with the
  name of the production, over strings of bytes. Nothing of the program occurs here; \<open>Uri_Reference\<close> shows that the
  program's validator accepts exactly these strings.
\<close>

subsection \<open>Characters\<close>

definition char_range :: "nat \<Rightarrow> nat \<Rightarrow> char \<Rightarrow> bool" where
  "char_range a b c \<longleftrightarrow> a \<le> byte c \<and> byte c \<le> b"

definition ALPHA :: "char \<Rightarrow> bool" where
  "ALPHA c \<longleftrightarrow> char_range 0x41 0x5A c \<or> char_range 0x61 0x7A c"

definition DIGIT :: "char \<Rightarrow> bool" where
  "DIGIT c \<longleftrightarrow> char_range 0x30 0x39 c"

text \<open>Letters in the rules of ABNF stand for either case.\<close>

definition HEXDIG :: "char \<Rightarrow> bool" where
  "HEXDIG c \<longleftrightarrow> DIGIT c \<or> char_range 0x41 0x46 c \<or> char_range 0x61 0x66 c"

definition rfc_unreserved :: "char \<Rightarrow> bool" where
  "rfc_unreserved c \<longleftrightarrow> ALPHA c \<or> DIGIT c \<or> c = CHR ''-'' \<or> c = CHR ''.'' \<or> c = CHR ''_'' \<or> c = CHR ''~''"

definition rfc_sub_delims :: "char \<Rightarrow> bool" where
  "rfc_sub_delims c \<longleftrightarrow>
     c = CHR ''!'' \<or> c = CHR ''$'' \<or> c = CHR ''&'' \<or> c = CHR 0x27 \<or> c = CHR ''('' \<or> c = CHR '')'' \<or> c = CHR ''*'' \<or>
     c = CHR ''+'' \<or> c = CHR '','' \<or> c = CHR '';'' \<or> c = CHR ''=''"

text \<open>\<open>*( P / pct-encoded )\<close>\<close>

inductive rfc_escaped :: "(char \<Rightarrow> bool) \<Rightarrow> string \<Rightarrow> bool" for P where
  none: "rfc_escaped P []"
| pct_encoded: "HEXDIG h \<Longrightarrow> HEXDIG l \<Longrightarrow> rfc_escaped P s \<Longrightarrow> rfc_escaped P (CHR ''%'' # h # l # s)"
| literal: "P c \<Longrightarrow> rfc_escaped P s \<Longrightarrow> rfc_escaped P (c # s)"

definition rfc_pchar :: "char \<Rightarrow> bool" where
  "rfc_pchar c \<longleftrightarrow> rfc_unreserved c \<or> rfc_sub_delims c \<or> c = CHR '':'' \<or> c = CHR ''@''"

text \<open>An optional part with its leading delimiter, \<open>[ d P ]\<close>.\<close>

definition rfc_optional :: "char \<Rightarrow> (string \<Rightarrow> bool) \<Rightarrow> string \<Rightarrow> bool" where
  "rfc_optional d P part \<longleftrightarrow> part = [] \<or> (\<exists>s. part = d # s \<and> P s)"

subsection \<open>Hosts\<close>

inductive rfc_dec_octet :: "string \<Rightarrow> bool" where
  "DIGIT a \<Longrightarrow> rfc_dec_octet [a]"
| "char_range 0x31 0x39 a \<Longrightarrow> DIGIT b \<Longrightarrow> rfc_dec_octet [a, b]"
| "DIGIT b \<Longrightarrow> DIGIT c \<Longrightarrow> rfc_dec_octet [CHR ''1'', b, c]"
| "char_range 0x30 0x34 b \<Longrightarrow> DIGIT c \<Longrightarrow> rfc_dec_octet [CHR ''2'', b, c]"
| "char_range 0x30 0x35 c \<Longrightarrow> rfc_dec_octet [CHR ''2'', CHR ''5'', c]"

inductive rfc_IPv4address :: "string \<Rightarrow> bool" where
  "rfc_dec_octet a \<Longrightarrow> rfc_dec_octet b \<Longrightarrow> rfc_dec_octet c \<Longrightarrow> rfc_dec_octet d \<Longrightarrow>
   rfc_IPv4address (a @ ''.'' @ b @ ''.'' @ c @ ''.'' @ d)"

definition rfc_h16 :: "string \<Rightarrow> bool" where
  "rfc_h16 s \<longleftrightarrow> 1 \<le> length s \<and> length s \<le> 4 \<and> list_all HEXDIG s"

inductive rfc_ls32 :: "string \<Rightarrow> bool" where
  "rfc_h16 a \<Longrightarrow> rfc_h16 b \<Longrightarrow> rfc_ls32 (a @ '':'' @ b)"
| "rfc_IPv4address a \<Longrightarrow> rfc_ls32 a"

text \<open>\<open>n( h16 ":" )\<close>\<close>

inductive rfc_groups :: "nat \<Rightarrow> string \<Rightarrow> bool" where
  "rfc_groups 0 []"
| "rfc_h16 a \<Longrightarrow> rfc_groups n s \<Longrightarrow> rfc_groups (Suc n) (a @ '':'' @ s)"

text \<open>\<open>[ *n( h16 ":" ) h16 ]\<close>\<close>

inductive rfc_leading :: "nat \<Rightarrow> string \<Rightarrow> bool" where
  "rfc_leading n []"
| "k \<le> n \<Longrightarrow> rfc_groups k s \<Longrightarrow> rfc_h16 a \<Longrightarrow> rfc_leading n (s @ a)"

inductive rfc_IPv6address :: "string \<Rightarrow> bool" where
  "rfc_groups 6 g \<Longrightarrow> rfc_ls32 t \<Longrightarrow> rfc_IPv6address (g @ t)"
| "rfc_groups 5 g \<Longrightarrow> rfc_ls32 t \<Longrightarrow> rfc_IPv6address (''::'' @ g @ t)"
| "rfc_leading 0 l \<Longrightarrow> rfc_groups 4 g \<Longrightarrow> rfc_ls32 t \<Longrightarrow> rfc_IPv6address (l @ ''::'' @ g @ t)"
| "rfc_leading 1 l \<Longrightarrow> rfc_groups 3 g \<Longrightarrow> rfc_ls32 t \<Longrightarrow> rfc_IPv6address (l @ ''::'' @ g @ t)"
| "rfc_leading 2 l \<Longrightarrow> rfc_groups 2 g \<Longrightarrow> rfc_ls32 t \<Longrightarrow> rfc_IPv6address (l @ ''::'' @ g @ t)"
| "rfc_leading 3 l \<Longrightarrow> rfc_groups 1 g \<Longrightarrow> rfc_ls32 t \<Longrightarrow> rfc_IPv6address (l @ ''::'' @ g @ t)"
| "rfc_leading 4 l \<Longrightarrow> rfc_ls32 t \<Longrightarrow> rfc_IPv6address (l @ ''::'' @ t)"
| "rfc_leading 5 l \<Longrightarrow> rfc_h16 t \<Longrightarrow> rfc_IPv6address (l @ ''::'' @ t)"
| "rfc_leading 6 l \<Longrightarrow> rfc_IPv6address (l @ ''::'')"

inductive rfc_IPvFuture :: "string \<Rightarrow> bool" where
  "v = CHR ''v'' \<or> v = CHR ''V'' \<Longrightarrow> version \<noteq> [] \<Longrightarrow> list_all HEXDIG version \<Longrightarrow> address \<noteq> [] \<Longrightarrow>
   list_all (\<lambda>c. rfc_unreserved c \<or> rfc_sub_delims c \<or> c = CHR '':'') address \<Longrightarrow>
   rfc_IPvFuture (v # version @ ''.'' @ address)"

inductive rfc_host :: "string \<Rightarrow> bool" where
  "rfc_IPv6address a \<or> rfc_IPvFuture a \<Longrightarrow> rfc_host (''['' @ a @ '']'')"
| "rfc_IPv4address a \<Longrightarrow> rfc_host a"
| "rfc_escaped (\<lambda>c. rfc_unreserved c \<or> rfc_sub_delims c) name \<Longrightarrow> rfc_host name"

definition rfc_userinfo :: "string \<Rightarrow> bool" where
  "rfc_userinfo s \<longleftrightarrow> rfc_escaped (\<lambda>c. rfc_unreserved c \<or> rfc_sub_delims c \<or> c = CHR '':'') s"

text \<open>\<open>[ userinfo "@" ] host [ ":" port ]\<close>\<close>

inductive rfc_authority :: "string \<Rightarrow> bool" where
  "user = [] \<or> (\<exists>u. user = u @ ''@'' \<and> rfc_userinfo u) \<Longrightarrow> rfc_host h \<Longrightarrow> rfc_optional CHR '':'' (list_all DIGIT) port \<Longrightarrow>
   rfc_authority (user @ h @ port)"

subsection \<open>Paths\<close>

inductive rfc_path_abempty :: "string \<Rightarrow> bool" where
  "rfc_path_abempty []"
| "rfc_escaped rfc_pchar segment \<Longrightarrow> rfc_path_abempty s \<Longrightarrow> rfc_path_abempty (''/'' @ segment @ s)"

inductive rfc_path_rootless :: "string \<Rightarrow> bool" where
  "rfc_escaped rfc_pchar segment \<Longrightarrow> segment \<noteq> [] \<Longrightarrow> rfc_path_abempty s \<Longrightarrow> rfc_path_rootless (segment @ s)"

inductive rfc_path_absolute :: "string \<Rightarrow> bool" where
  "rfc_path_absolute ''/''"
| "rfc_path_rootless s \<Longrightarrow> rfc_path_absolute (''/'' @ s)"

inductive rfc_path_noscheme :: "string \<Rightarrow> bool" where
  "rfc_escaped (\<lambda>c. rfc_unreserved c \<or> rfc_sub_delims c \<or> c = CHR ''@'') segment \<Longrightarrow> segment \<noteq> [] \<Longrightarrow>
   rfc_path_abempty s \<Longrightarrow> rfc_path_noscheme (segment @ s)"

subsection \<open>References\<close>

inductive rfc_hier_part :: "string \<Rightarrow> bool" where
  "rfc_authority a \<Longrightarrow> rfc_path_abempty p \<Longrightarrow> rfc_hier_part (''//'' @ a @ p)"
| "rfc_path_absolute p \<Longrightarrow> rfc_hier_part p"
| "rfc_path_rootless p \<Longrightarrow> rfc_hier_part p"
| "rfc_hier_part []"

inductive rfc_relative_part :: "string \<Rightarrow> bool" where
  "rfc_authority a \<Longrightarrow> rfc_path_abempty p \<Longrightarrow> rfc_relative_part (''//'' @ a @ p)"
| "rfc_path_absolute p \<Longrightarrow> rfc_relative_part p"
| "rfc_path_noscheme p \<Longrightarrow> rfc_relative_part p"
| "rfc_relative_part []"

inductive rfc_scheme :: "string \<Rightarrow> bool" where
  "ALPHA c \<Longrightarrow> list_all (\<lambda>x. ALPHA x \<or> DIGIT x \<or> x = CHR ''+'' \<or> x = CHR ''-'' \<or> x = CHR ''.'') s \<Longrightarrow> rfc_scheme (c # s)"

text \<open>Queries and fragments have the same characters.\<close>

definition rfc_query :: "string \<Rightarrow> bool" where
  "rfc_query s \<longleftrightarrow> rfc_escaped (\<lambda>c. rfc_pchar c \<or> c = CHR ''/'' \<or> c = CHR ''?'') s"

inductive rfc_URI :: "string \<Rightarrow> bool" where
  "rfc_scheme s \<Longrightarrow> rfc_hier_part h \<Longrightarrow> rfc_optional CHR ''?'' rfc_query q \<Longrightarrow> rfc_optional CHR ''#'' rfc_query f \<Longrightarrow>
   rfc_URI (s @ '':'' @ h @ q @ f)"

inductive rfc_relative_ref :: "string \<Rightarrow> bool" where
  "rfc_relative_part h \<Longrightarrow> rfc_optional CHR ''?'' rfc_query q \<Longrightarrow> rfc_optional CHR ''#'' rfc_query f \<Longrightarrow>
   rfc_relative_ref (h @ q @ f)"

definition rfc_URI_reference :: "string \<Rightarrow> bool" where
  "rfc_URI_reference s \<longleftrightarrow> rfc_URI s \<or> rfc_relative_ref s"

end
