(* ===== verification/Uri_Conformance.thy ===== *)
theory Uri_Conformance
  imports Uri_Grammar Uri_Reference
begin

text \<open>
  The validator of \<open>Uri_Reference\<close> against the grammar of \<open>Uri_Grammar\<close>: production by production, from the
  characters up to whole references, what the program accepts is what RFC 3986 derives.
\<close>

subsection \<open>Characters and components\<close>

lemma char_classes:
  "IsAsciiAlpha c \<longleftrightarrow> ALPHA c" "IsAsciiDigit c \<longleftrightarrow> DIGIT c" "IsHexDigit c \<longleftrightarrow> HEXDIG c"
  "IsUnreserved c \<longleftrightarrow> rfc_unreserved c" "IsSubDelimiter c \<longleftrightarrow> rfc_sub_delims c"
proof -
  show a: "IsAsciiAlpha c \<longleftrightarrow> ALPHA c" and d: "IsAsciiDigit c \<longleftrightarrow> DIGIT c"
    by (auto simp: IsAsciiAlpha_def ALPHA_def IsAsciiDigit_def DIGIT_def in_range_def char_range_def byte_def)
  then show "IsHexDigit c \<longleftrightarrow> HEXDIG c"
    by (auto simp: IsHexDigit_def HEXDIG_def in_range_def char_range_def byte_def)
  show "IsUnreserved c \<longleftrightarrow> rfc_unreserved c" by (simp add: IsUnreserved_def rfc_unreserved_def a d)
  show "IsSubDelimiter c \<longleftrightarrow> rfc_sub_delims c" by (auto simp: IsSubDelimiter_def rfc_sub_delims_def)
qed

lemma component_escaped: "component kind s \<longleftrightarrow> rfc_escaped (\<lambda>c. IsPlainComponentCharacter c kind) s"
proof
  show "component kind s \<Longrightarrow> rfc_escaped (\<lambda>c. IsPlainComponentCharacter c kind) s"
    by (induction rule: component.induct) (auto simp: char_classes intro: rfc_escaped.intros)
  show "rfc_escaped (\<lambda>c. IsPlainComponentCharacter c kind) s \<Longrightarrow> component kind s"
    by (induction rule: rfc_escaped.induct) (auto simp: char_classes intro: component.intros)
qed

lemma components:
  "ValidateComponent PCHAR s \<longleftrightarrow> rfc_escaped rfc_pchar s"
  "ValidateComponent QUERY_OR_FRAGMENT s \<longleftrightarrow> rfc_query s"
  "ValidateComponent USER_INFO s \<longleftrightarrow> rfc_userinfo s"
  "ValidateComponent REG_NAME s \<longleftrightarrow> rfc_escaped (\<lambda>c. rfc_unreserved c \<or> rfc_sub_delims c) s"
proof -
  have plain: "(\<lambda>c. IsPlainComponentCharacter c PCHAR) = rfc_pchar"
    "(\<lambda>c. IsPlainComponentCharacter c QUERY_OR_FRAGMENT) = (\<lambda>c. rfc_pchar c \<or> c = CHR ''/'' \<or> c = CHR ''?'')"
    "(\<lambda>c. IsPlainComponentCharacter c USER_INFO) = (\<lambda>c. rfc_unreserved c \<or> rfc_sub_delims c \<or> c = CHR '':'')"
    "(\<lambda>c. IsPlainComponentCharacter c REG_NAME) = (\<lambda>c. rfc_unreserved c \<or> rfc_sub_delims c)"
    by (intro ext; simp add: IsPlainComponentCharacter_def rfc_pchar_def char_classes; blast?)+
  show "ValidateComponent PCHAR s \<longleftrightarrow> rfc_escaped rfc_pchar s"
    "ValidateComponent QUERY_OR_FRAGMENT s \<longleftrightarrow> rfc_query s"
    "ValidateComponent USER_INFO s \<longleftrightarrow> rfc_userinfo s"
    "ValidateComponent REG_NAME s \<longleftrightarrow> rfc_escaped (\<lambda>c. rfc_unreserved c \<or> rfc_sub_delims c) s"
    by (simp_all add: ValidateComponent_iff component_escaped plain rfc_query_def rfc_userinfo_def)
qed

lemma scheme_iff: "ValidateScheme s \<longleftrightarrow> rfc_scheme s"
  by (cases s) (auto simp: ValidateScheme_def char_classes rfc_scheme.simps)

lemma port_iff: "ValidatePort s \<longleftrightarrow> list_all DIGIT s"
  by (simp add: ValidatePort_def list_all_iff char_classes)

text \<open>Characters a string of the grammar does not have.\<close>

lemma escaped_absent: "rfc_escaped P s \<Longrightarrow> \<not> P d \<Longrightarrow> \<not> HEXDIG d \<Longrightarrow> d \<noteq> CHR ''%'' \<Longrightarrow> d \<notin> set s"
  by (induction rule: rfc_escaped.induct) auto

lemma not_hexdig:
  "\<not> HEXDIG CHR '':''" "\<not> HEXDIG CHR ''.''" "\<not> HEXDIG CHR ''@''" "\<not> HEXDIG CHR ''/''" "\<not> HEXDIG CHR ''[''"
  "\<not> HEXDIG CHR '']''"
  by code_simp+

lemma digit_hexdig: "DIGIT c \<Longrightarrow> HEXDIG c"
  by (simp add: HEXDIG_def)

lemma literal_escaped: "list_all P s \<Longrightarrow> rfc_escaped P s"
  by (induction s) (auto intro: rfc_escaped.intros)

subsection \<open>IPv4 addresses\<close>

definition decimal_nat :: "nat \<Rightarrow> string \<Rightarrow> nat" where
  "decimal_nat = foldl (\<lambda>n c. n * 10 + (byte c - 48))"

lemma decimal_value_nat:
  "decimal_value v (of_nat n) = (if list_all DIGIT v then Some (of_nat (decimal_nat n v)) else None)"
proof (induction v arbitrary: n)
  case (Cons c v)
  have "of_nat n * 10 + of_nat (byte c - byte CHR ''0'') = (of_nat (n * 10 + (byte c - 48)) :: u32)"
    by (simp add: byte_def)
  then show ?case using Cons [of "n * 10 + (byte c - 48)"] by (simp add: char_classes decimal_nat_def)
qed (simp add: decimal_nat_def)

lemma octet_value:
  assumes "list_all DIGIT v" and "length v \<le> 3"
  shows "(of_nat (decimal_nat 0 v) :: u32) \<le> 255 \<longleftrightarrow> decimal_nat 0 v \<le> 255"
proof -
  have "decimal_nat 0 v < 1000"
    using assms by (cases v; cases "tl v"; cases "tl (tl v)") (auto simp: decimal_nat_def DIGIT_def char_range_def)
  then show ?thesis by (simp add: word_le_nat_alt unat_of_nat)
qed

lemma byte_is: "c = CHR ''0'' \<longleftrightarrow> byte c = 48" "c = CHR ''1'' \<longleftrightarrow> byte c = 49" "c = CHR ''2'' \<longleftrightarrow> byte c = 50"
  "c = CHR ''5'' \<longleftrightarrow> byte c = 53"
proof -
  have "byte CHR ''0'' = 48" "byte CHR ''1'' = 49" "byte CHR ''2'' = 50" "byte CHR ''5'' = 53" by code_simp+
  then show "c = CHR ''0'' \<longleftrightarrow> byte c = 48" "c = CHR ''1'' \<longleftrightarrow> byte c = 49" "c = CHR ''2'' \<longleftrightarrow> byte c = 50"
    "c = CHR ''5'' \<longleftrightarrow> byte c = 53" using byte_inject by metis+
qed

lemma DIGIT_nat: "DIGIT c \<longleftrightarrow> (\<exists>x\<le>9. byte c = 48 + x)"
  by (auto simp: DIGIT_def char_range_def le_iff_add)

lemma octet_digits:
  "rfc_dec_octet [a] \<longleftrightarrow> DIGIT a"
  "rfc_dec_octet [a, b] \<longleftrightarrow> DIGIT a \<and> DIGIT b \<and> byte a \<noteq> 48"
  "rfc_dec_octet [a, b, c] \<longleftrightarrow> DIGIT a \<and> DIGIT b \<and> DIGIT c \<and> byte a \<noteq> 48 \<and>
     (byte a - 48) * 100 + (byte b - 48) * 10 + (byte c - 48) \<le> 255"
proof -
  show "rfc_dec_octet [a] \<longleftrightarrow> DIGIT a" by (simp add: rfc_dec_octet.simps)
  show "rfc_dec_octet [a, b] \<longleftrightarrow> DIGIT a \<and> DIGIT b \<and> byte a \<noteq> 48"
    by (auto simp: rfc_dec_octet.simps DIGIT_def char_range_def)
  have three: "rfc_dec_octet [a, b, c] \<longleftrightarrow> byte a = 49 \<and> DIGIT b \<and> DIGIT c \<or>
      byte a = 50 \<and> 48 \<le> byte b \<and> byte b \<le> 52 \<and> DIGIT c \<or>
      byte a = 50 \<and> byte b = 53 \<and> 48 \<le> byte c \<and> byte c \<le> 53"
    unfolding rfc_dec_octet.simps by (simp add: char_range_def byte_is)
  have bound: "x = 1 \<or> x = 2 \<and> y \<le> 4 \<or> x = 2 \<and> y = 5 \<and> z \<le> 5 \<longleftrightarrow> x \<noteq> 0 \<and> x * 100 + y * 10 + z \<le> 255"
    if "x \<le> 9" "y \<le> 9" "z \<le> 9" for x y z :: nat using that by arith
  show "rfc_dec_octet [a, b, c] \<longleftrightarrow> DIGIT a \<and> DIGIT b \<and> DIGIT c \<and> byte a \<noteq> 48 \<and>
     (byte a - 48) * 100 + (byte b - 48) * 10 + (byte c - 48) \<le> 255"
  proof (cases "DIGIT a \<and> DIGIT b \<and> DIGIT c")
    case True
    then obtain x y z where "x \<le> 9" "y \<le> 9" "z \<le> 9" "byte a = 48 + x" "byte b = 48 + y" "byte c = 48 + z"
      unfolding DIGIT_nat by blast
    then show ?thesis using True bound [of x y z] unfolding three by simp
  next
    case False
    then show ?thesis unfolding three by (auto simp: DIGIT_def char_range_def)
  qed
qed

lemma octet_iff: "ValidateDecimalOctet v \<longleftrightarrow> rfc_dec_octet v"
proof -
  have octet: "ValidateDecimalOctet v \<longleftrightarrow> v \<noteq> [] \<and> length v \<le> 3 \<and> (length v \<le> 1 \<or> hd v \<noteq> CHR ''0'') \<and>
      list_all DIGIT v \<and> decimal_nat 0 v \<le> 255"
    using decimal_value_nat [of v 0] octet_value [of v] by (auto simp: ValidateDecimalOctet_def)
  consider "v = []" | a where "v = [a]" | a b where "v = [a, b]" | a b c where "v = [a, b, c]"
    | a b c d vs where "v = a # b # c # d # vs"
    by (cases v; cases "tl v"; cases "tl (tl v)"; cases "tl (tl (tl v))") auto
  moreover have "\<not> rfc_dec_octet []" "\<not> rfc_dec_octet (a # b # c # d # vs)" for a b c d vs
    by (simp_all add: rfc_dec_octet.simps)
  moreover have "DIGIT a \<Longrightarrow> byte a - 48 \<le> 255"
    "DIGIT a \<Longrightarrow> DIGIT b \<Longrightarrow> (byte a - 48) * 10 + (byte b - 48) \<le> 255" for a b
    by (auto simp: DIGIT_nat)
  ultimately show ?thesis
    unfolding octet by cases (auto simp: octet_digits decimal_nat_def byte_is mult.commute)
qed

lemma octet_no_dot: "rfc_dec_octet a \<Longrightarrow> CHR ''.'' \<notin> set a \<and> list_all DIGIT a"
proof -
  assume o: "rfc_dec_octet a"
  have "\<not> DIGIT CHR ''.''" by code_simp
  moreover have "DIGIT CHR ''1''" "DIGIT CHR ''2''" "DIGIT CHR ''5''" by code_simp+
  with o have "list_all DIGIT a" by cases (simp_all add: DIGIT_def char_range_def)
  ultimately show ?thesis by (auto simp: list_all_iff)
qed

lemma ipv4_iff: "ValidateIpv4Address v \<longleftrightarrow> rfc_IPv4address v"
proof
  assume "ValidateIpv4Address v"
  then have s: "list_all rfc_dec_octet (split_on CHR ''.'' v)" "length (split_on CHR ''.'' v) = 4"
    by (simp_all add: ValidateIpv4Address_def list_all_iff octet_iff)
  then obtain a b c d where p: "split_on CHR ''.'' v = [a, b, c, d]"
    by (auto simp: numeral_eq_Suc length_Suc_conv)
  have "v = a @ ''.'' @ b @ ''.'' @ c @ ''.'' @ d" using join_split [of "CHR ''.''" v] by (simp add: p)
  then show "rfc_IPv4address v" using s p rfc_IPv4address.intros [of a b c d] by simp
next
  assume "rfc_IPv4address v"
  then obtain a b c d where o: "rfc_dec_octet a" "rfc_dec_octet b" "rfc_dec_octet c" "rfc_dec_octet d"
    and v: "v = join CHR ''.'' [a, b, c, d]" by (auto simp: rfc_IPv4address.simps)
  then have "split_on CHR ''.'' v = [a, b, c, d]"
    unfolding v by (intro split_join) (auto dest: octet_no_dot)
  then show "ValidateIpv4Address v" using o by (simp add: ValidateIpv4Address_def octet_iff)
qed

lemma ipv4_chars: "rfc_IPv4address v \<Longrightarrow> list_all (\<lambda>c. DIGIT c \<or> c = CHR ''.'') v \<and> CHR ''.'' \<in> set v \<and> v \<noteq> []"
  by (cases rule: rfc_IPv4address.cases) (auto dest!: octet_no_dot elim: list.pred_mono_strong)

subsection \<open>IPv6 addresses\<close>

text \<open>Addresses as lists of groups: sixteen-bit groups, and at the end possibly an IPv4 address that counts as two.\<close>

lemma h16_chars: "rfc_h16 s \<Longrightarrow> s \<noteq> [] \<and> CHR '':'' \<notin> set s \<and> CHR ''.'' \<notin> set s"
  using not_hexdig(1,2) by (auto simp: rfc_h16_def list_all_iff)

lemma units_iff:
  "ipv6_units cl segs n = Some u \<longleftrightarrow>
     list_all rfc_h16 segs \<and> u = n + length segs \<or>
     (\<exists>ini v4. segs = ini @ [v4] \<and> list_all rfc_h16 ini \<and> rfc_IPv4address v4 \<and> \<not> cl \<and> u = n + length ini + 2)"
proof (induction segs arbitrary: n)
  case (Cons seg segs)
  show ?case
  proof (cases "CHR ''.'' \<in> set seg")
    case True
    then have "\<not> rfc_h16 seg" using h16_chars by blast
    then show ?thesis using True by (cases segs) (auto simp: ipv4_iff Cons_eq_append_conv)
  next
    case False
    then have no4: "\<not> rfc_IPv4address seg" using ipv4_chars by blast
    have h: "rfc_h16 seg \<longleftrightarrow> \<not> (seg = [] \<or> length seg > 4) \<and> list_all IsHexDigit seg"
      by (cases seg) (auto simp: rfc_h16_def char_classes list_all_iff)
    have "ipv6_units cl (seg # segs) n = Some u \<longleftrightarrow> rfc_h16 seg \<and> ipv6_units cl segs (n + 1) = Some u"
      using False by (simp add: h)
    then show ?thesis unfolding Cons.IH using no4 by (auto simp: Cons_eq_append_conv)
  qed
qed auto

definition good_pieces :: "string list \<Rightarrow> bool" where
  "good_pieces ps \<longleftrightarrow> (\<forall>p\<in>set ps. p \<noteq> [] \<and> CHR '':'' \<notin> set p)"

lemma ipv4_good: "rfc_IPv4address v \<Longrightarrow> CHR '':'' \<notin> set v \<and> v \<noteq> []"
  using ipv4_chars [of v] not_hexdig(1) digit_hexdig [of "CHR '':''"] by (auto simp: list_all_iff)

lemma units_good: "ipv6_units cl segs n = Some u \<Longrightarrow> good_pieces segs"
  unfolding units_iff good_pieces_def list_all_iff using h16_chars ipv4_good
  by (elim disjE exE conjE) simp_all

lemma side_split: "SplitIpv6Side s = Some segs \<Longrightarrow> s = join CHR '':'' segs"
  by (auto simp: SplitIpv6Side_def join_split split: if_splits)

lemma side_join: "good_pieces segs \<Longrightarrow> SplitIpv6Side (join CHR '':'' segs) = Some segs"
proof (cases segs)
  case (Cons p ps)
  assume "good_pieces segs"
  then have "split_on CHR '':'' (join CHR '':'' segs) = segs" "join CHR '':'' segs \<noteq> []" "list_all (\<lambda>p. p \<noteq> []) segs"
    using Cons by (auto simp: good_pieces_def list_all_iff intro!: split_join) (cases ps; simp)
  then show ?thesis by (simp add: SplitIpv6Side_def)
qed (simp add: SplitIpv6Side_def)

text \<open>The first compression is where it was written.\<close>

lemma compression_piece:
  "CHR '':'' \<notin> set p \<Longrightarrow> find_compression (p @ t) = map_option (\<lambda>(l, r). (p @ l, r)) (find_compression t)"
proof (induction p)
  case (Cons c p)
  show ?case
  proof (cases "p @ t")
    case Nil
    then show ?thesis by simp
  next
    case (Cons d cs)
    have "find_compression (c # p @ t) = map_option (\<lambda>(l, r). (c # l, r)) (find_compression (p @ t))"
      using Cons Cons.prems by auto
    then show ?thesis using Cons.IH Cons.prems by (simp add: option.map_comp comp_def case_prod_unfold)
  qed
qed (simp add: case_prod_unfold option.map_ident)

lemma compression_single:
  "t \<noteq> [] \<Longrightarrow> hd t \<noteq> CHR '':'' \<Longrightarrow>
   find_compression (CHR '':'' # t) = map_option (\<lambda>(l, r). (CHR '':'' # l, r)) (find_compression t)"
  by (cases t) auto

lemma join_hd: "good_pieces (p # ps) \<Longrightarrow> join d (p # ps) @ t \<noteq> [] \<and> hd (join d (p # ps) @ t) \<noteq> CHR '':''"
  by (cases ps; cases p) (auto simp: good_pieces_def)

lemma compression_join_append:
  "good_pieces ps \<Longrightarrow> ps \<noteq> [] \<Longrightarrow>
   find_compression (join CHR '':'' ps @ t) = map_option (\<lambda>(l, r). (join CHR '':'' ps @ l, r)) (find_compression t)"
proof (induction "CHR '':''" ps rule: join.induct)
  case (2 p)
  then show ?case by (simp add: compression_piece good_pieces_def)
next
  case (3 p q ps)
  then have "good_pieces (q # ps)" "CHR '':'' \<notin> set p" by (auto simp: good_pieces_def)
  then show ?case
    using 3 compression_single [of "join CHR '':'' (q # ps) @ t"] join_hd [of q ps "CHR '':''" t]
    by (simp add: compression_piece option.map_comp comp_def case_prod_unfold)
qed simp

lemma compression_join: "good_pieces ps \<Longrightarrow> find_compression (join CHR '':'' ps) = None"
  using compression_join_append [of ps "[]"] by (cases ps) simp_all

lemma compression_found:
  "good_pieces ps \<Longrightarrow> find_compression (join CHR '':'' ps @ ''::'' @ r) = Some (join CHR '':'' ps, r)"
  using compression_join_append [of ps "''::'' @ r"] by (cases ps) simp_all

lemma ipv6_groups:
  "ValidateIpv6Address v \<longleftrightarrow>
     (\<exists>segs. v = join CHR '':'' segs \<and> ipv6_units False segs 0 = Some 8) \<or>
     (\<exists>L R u. v = join CHR '':'' L @ ''::'' @ join CHR '':'' R \<and> ipv6_units (R = []) (L @ R) 0 = Some u \<and> u < 8)"
    (is "_ \<longleftrightarrow> ?full v \<or> ?compressed v")
proof
  assume v: "ValidateIpv6Address v"
  show "?full v \<or> ?compressed v"
  proof (cases "find_compression v")
    case None
    then show ?thesis using v side_split [of v] by (auto simp: ValidateIpv6Address_def split: option.splits)
  next
    case (Some lr)
    obtain l r where lr: "lr = (l, r)" by (cases lr)
    then obtain L R u where "SplitIpv6Side l = Some L" "SplitIpv6Side r = Some R"
      "ipv6_units (R = []) (L @ R) 0 = Some u" "u < 8"
      using v Some by (auto simp: ValidateIpv6Address_def split: option.splits)
    moreover have "v = l @ ''::'' @ r" using compression_append [of v l r] Some lr by simp
    ultimately show ?thesis using side_split by blast
  qed
next
  assume "?full v \<or> ?compressed v"
  then show "ValidateIpv6Address v"
  proof (elim disjE exE conjE)
    fix segs assume v: "v = join CHR '':'' segs" and u: "ipv6_units False segs 0 = Some 8"
    then show ?thesis
      using compression_join side_join units_good [OF u] by (simp add: ValidateIpv6Address_def)
  next
    fix L R u assume v: "v = join CHR '':'' L @ ''::'' @ join CHR '':'' R"
      and u: "ipv6_units (R = []) (L @ R) 0 = Some u" "u < 8"
    have "good_pieces L" "good_pieces R" using units_good [OF u(1)] by (auto simp: good_pieces_def)
    then show ?thesis
      using u compression_join [of R] compression_found [of L "join CHR '':'' R"] side_join
      by (simp add: ValidateIpv6Address_def v)
  qed
qed

text \<open>The productions for groups, as lists.\<close>

lemma join_snoc: "join d (ps @ [t]) = concat (map (\<lambda>p. p @ [d]) ps) @ t"
proof (induction ps)
  case (Cons p ps)
  then show ?case by (cases "ps @ [t]") simp_all
qed simp

lemma groups_Suc: "rfc_groups (Suc n) s \<longleftrightarrow> (\<exists>a t. s = a @ '':'' @ t \<and> rfc_h16 a \<and> rfc_groups n t)"
  by (subst rfc_groups.simps) simp

lemma groups_iff:
  "rfc_groups n s \<longleftrightarrow> (\<exists>hs. length hs = n \<and> list_all rfc_h16 hs \<and> s = concat (map (\<lambda>h. h @ '':'') hs))"
proof (induction n arbitrary: s)
  case 0
  then show ?case by (subst rfc_groups.simps) simp
next
  case (Suc n)
  show ?case
  proof
    assume "rfc_groups (Suc n) s"
    then obtain a hs where "s = a @ '':'' @ concat (map (\<lambda>h. h @ '':'') hs)" "rfc_h16 a" "length hs = n" "list_all rfc_h16 hs"
      unfolding groups_Suc Suc by blast
    then show "\<exists>hs. length hs = Suc n \<and> list_all rfc_h16 hs \<and> s = concat (map (\<lambda>h. h @ '':'') hs)"
      by (intro exI [of _ "a # hs"]) simp
  next
    assume "\<exists>hs. length hs = Suc n \<and> list_all rfc_h16 hs \<and> s = concat (map (\<lambda>h. h @ '':'') hs)"
    then obtain a hs where hs: "length hs = n" "list_all rfc_h16 hs" "rfc_h16 a" "s = a @ '':'' @ concat (map (\<lambda>h. h @ '':'') hs)"
      by (auto simp: length_Suc_conv)
    then have "rfc_groups n (concat (map (\<lambda>h. h @ '':'') hs))" unfolding Suc by blast
    then show "rfc_groups (Suc n) s" unfolding groups_Suc using hs by blast
  qed
qed

lemma leading_iff:
  "rfc_leading n l \<longleftrightarrow> (\<exists>hs. length hs \<le> Suc n \<and> list_all rfc_h16 hs \<and> l = join CHR '':'' hs)"
proof
  assume "rfc_leading n l"
  then show "\<exists>hs. length hs \<le> Suc n \<and> list_all rfc_h16 hs \<and> l = join CHR '':'' hs"
  proof cases
    case 1
    then show ?thesis by (intro exI [of _ "[]"]) simp
  next
    case (2 k s a)
    then obtain hs where "length hs = k" "list_all rfc_h16 hs" "s = concat (map (\<lambda>h. h @ '':'') hs)"
      unfolding groups_iff by blast
    then show ?thesis using 2 by (intro exI [of _ "hs @ [a]"]) (simp add: join_snoc)
  qed
next
  assume "\<exists>hs. length hs \<le> Suc n \<and> list_all rfc_h16 hs \<and> l = join CHR '':'' hs"
  then obtain hs where hs: "length hs \<le> Suc n" "list_all rfc_h16 hs" "l = join CHR '':'' hs" by blast
  show "rfc_leading n l"
  proof (cases hs rule: rev_cases)
    case Nil
    then show ?thesis using hs by (simp add: rfc_leading.intros(1))
  next
    case (snoc ps a)
    then have "rfc_groups (length ps) (concat (map (\<lambda>h. h @ '':'') ps))" "length ps \<le> n" "rfc_h16 a"
      using hs unfolding groups_iff by auto
    then show ?thesis using hs(3) snoc rfc_leading.intros(2) by (simp add: join_snoc)
  qed
qed

lemma tail_iff:
  "(\<exists>g t. s = g @ t \<and> rfc_groups n g \<and> rfc_ls32 t) \<longleftrightarrow>
   (\<exists>segs. s = join CHR '':'' segs \<and> ipv6_units False segs 0 = Some (n + 2))"
proof
  assume "\<exists>g t. s = g @ t \<and> rfc_groups n g \<and> rfc_ls32 t"
  then obtain hs t where hs: "length hs = n" "list_all rfc_h16 hs" "s = concat (map (\<lambda>h. h @ '':'') hs) @ t"
    and t: "rfc_ls32 t" unfolding groups_iff by blast
  from t show "\<exists>segs. s = join CHR '':'' segs \<and> ipv6_units False segs 0 = Some (n + 2)"
  proof cases
    case (1 a b)
    then show ?thesis using hs join_snoc [of "CHR '':''" "hs @ [a]" b]
      by (intro exI [of _ "hs @ [a, b]"]) (simp add: units_iff)
  next
    case 2
    then show ?thesis using hs join_snoc [of "CHR '':''" hs t]
      by (intro exI [of _ "hs @ [t]"]) (auto simp: units_iff)
  qed
next
  assume "\<exists>segs. s = join CHR '':'' segs \<and> ipv6_units False segs 0 = Some (n + 2)"
  then obtain segs where s: "s = join CHR '':'' segs" and u: "ipv6_units False segs 0 = Some (n + 2)" by blast
  from u consider "list_all rfc_h16 segs" "length segs = n + 2"
    | ini v4 where "segs = ini @ [v4]" "list_all rfc_h16 ini" "rfc_IPv4address v4" "length ini = n"
    unfolding units_iff by auto
  then show "\<exists>g t. s = g @ t \<and> rfc_groups n g \<and> rfc_ls32 t"
  proof cases
    case 1
    then obtain ini b where segs: "segs = ini @ [b]" by (cases segs rule: rev_cases) auto
    then obtain hs a where "ini = hs @ [a]" using 1 by (cases ini rule: rev_cases) auto
    then have "s = concat (map (\<lambda>h. h @ '':'') hs) @ (a @ '':'' @ b)" "rfc_groups n (concat (map (\<lambda>h. h @ '':'') hs))"
      "rfc_ls32 (a @ '':'' @ b)"
      using 1 s segs join_snoc [of "CHR '':''" "hs @ [a]" b] rfc_ls32.intros(1) [of a b] unfolding groups_iff by auto
    then show ?thesis by blast
  next
    case 2
    then have "rfc_groups n (concat (map (\<lambda>h. h @ '':'') ini))" "s = concat (map (\<lambda>h. h @ '':'') ini) @ v4"
      "rfc_ls32 v4"
      using s unfolding groups_iff by (auto simp: join_snoc intro: rfc_ls32.intros)
    then show ?thesis by blast
  qed
qed

text \<open>Up to seven groups, an IPv4 address counted twice, around a compression.\<close>

definition compressed :: "string \<Rightarrow> nat \<Rightarrow> bool" where
  "compressed v k \<longleftrightarrow> (\<exists>L R. v = join CHR '':'' L @ ''::'' @ join CHR '':'' R \<and> list_all rfc_h16 L \<and>
     ipv6_units False R 0 = Some k \<and> length L + k \<le> 7)"

lemma compressed_units:
  "(\<exists>L R u. v = join CHR '':'' L @ ''::'' @ join CHR '':'' R \<and> ipv6_units (R = []) (L @ R) 0 = Some u \<and> u < 8) \<longleftrightarrow>
   (\<exists>k. compressed v k)"
proof -
  have "(\<exists>u. ipv6_units (R = []) (L @ R) 0 = Some u \<and> u < 8) \<longleftrightarrow>
      (\<exists>k. list_all rfc_h16 L \<and> ipv6_units False R 0 = Some k \<and> length L + k \<le> 7)" for L R
  proof (cases R rule: rev_cases)
    case Nil
    then show ?thesis by (auto simp: units_iff)
  next
    case (snoc S x)
    have "ipv6_units (R = []) (L @ R) 0 = Some u \<longleftrightarrow>
        (\<exists>k. list_all rfc_h16 L \<and> ipv6_units False R 0 = Some k \<and> u = length L + k)" for u
      using snoc append_assoc [of L S "[x]"] unfolding units_iff by auto
    then show ?thesis by auto
  qed
  then show ?thesis unfolding compressed_def by metis
qed

lemma compressed_tail:
  "compressed v (n + 2) \<longleftrightarrow> n \<le> 5 \<and>
     (\<exists>l g t. v = l @ ''::'' @ g @ t \<and> (\<exists>hs. length hs \<le> 5 - n \<and> list_all rfc_h16 hs \<and> l = join CHR '':'' hs) \<and>
        rfc_groups n g \<and> rfc_ls32 t)" (is "?C \<longleftrightarrow> ?T")
proof
  assume ?C
  then obtain L R where v: "v = join CHR '':'' L @ ''::'' @ join CHR '':'' R" "list_all rfc_h16 L" "length L + (n + 2) \<le> 7"
    and "ipv6_units False R 0 = Some (n + 2)" unfolding compressed_def by blast
  then obtain g t where "join CHR '':'' R = g @ t" "rfc_groups n g" "rfc_ls32 t"
    using tail_iff [of "join CHR '':'' R" n] by blast
  moreover have "length L \<le> 5 - n" "n \<le> 5" using v(3) by linarith+
  ultimately show ?T using v(1,2) by blast
next
  assume ?T
  then obtain l g t hs where v: "v = l @ ''::'' @ g @ t" "length hs \<le> 5 - n" "list_all rfc_h16 hs" "l = join CHR '':'' hs"
    and "rfc_groups n g" "rfc_ls32 t" and n: "n \<le> 5" by blast
  then obtain R where "g @ t = join CHR '':'' R" "ipv6_units False R 0 = Some (n + 2)"
    using tail_iff [of "g @ t" n] by blast
  moreover have "length hs + (n + 2) \<le> 7" using v(2) n by linarith
  ultimately show ?C unfolding compressed_def using v(1,3,4) by blast
qed

lemma compressed_one: "compressed v 1 \<longleftrightarrow> (\<exists>l t. v = l @ ''::'' @ t \<and> rfc_leading 5 l \<and> rfc_h16 t)"
proof -
  have one: "ipv6_units False R 0 = Some 1 \<longleftrightarrow> (\<exists>t. R = [t] \<and> rfc_h16 t)" for R
    by (auto simp: units_iff Suc_length_conv)
  have "compressed v 1 \<longleftrightarrow> (\<exists>L t. v = join CHR '':'' L @ ''::'' @ t \<and> list_all rfc_h16 L \<and> rfc_h16 t \<and> length L + 1 \<le> 7)"
    unfolding compressed_def one by (metis join.simps(2))
  moreover have "length L + 1 \<le> 7 \<longleftrightarrow> length L \<le> Suc 5" for L :: "string list" by simp
  ultimately show ?thesis unfolding leading_iff by blast
qed

lemma compressed_none: "compressed v 0 \<longleftrightarrow> (\<exists>l. v = l @ ''::'' \<and> rfc_leading 6 l)"
proof -
  have "ipv6_units False R 0 = Some 0 \<longleftrightarrow> R = []" for R by (auto simp: units_iff)
  then show ?thesis unfolding compressed_def leading_iff by auto
qed

lemma compressed_leading:
  "compressed v (n + 2) \<longleftrightarrow> (\<exists>l g t. v = l @ ''::'' @ g @ t \<and> rfc_leading (4 - n) l \<and> rfc_groups n g \<and> rfc_ls32 t)"
  if "n \<le> 4"
proof -
  have "Suc (4 - n) = 5 - n" using that by simp
  then show ?thesis using that unfolding compressed_tail leading_iff by auto
qed

lemma compressed_seven: "compressed v 7 \<longleftrightarrow> (\<exists>g t. v = ''::'' @ g @ t \<and> rfc_groups 5 g \<and> rfc_ls32 t)"
  using compressed_tail [of v 5] by auto

lemma ipv6_iff: "ValidateIpv6Address v \<longleftrightarrow> rfc_IPv6address v"
proof -
  have small: "compressed v k \<Longrightarrow> k = 7 \<or> k = 6 \<or> k = 5 \<or> k = 4 \<or> k = 3 \<or> k = 2 \<or> k = 1 \<or> k = 0" for k
    by (auto simp: compressed_def)
  have no_groups: "rfc_groups 0 g \<longleftrightarrow> g = []" for g by (simp add: groups_iff)
  have leading:
    "compressed v 6 \<longleftrightarrow> (\<exists>l g t. v = l @ ''::'' @ g @ t \<and> rfc_leading 0 l \<and> rfc_groups 4 g \<and> rfc_ls32 t)"
    "compressed v 5 \<longleftrightarrow> (\<exists>l g t. v = l @ ''::'' @ g @ t \<and> rfc_leading 1 l \<and> rfc_groups 3 g \<and> rfc_ls32 t)"
    "compressed v 4 \<longleftrightarrow> (\<exists>l g t. v = l @ ''::'' @ g @ t \<and> rfc_leading 2 l \<and> rfc_groups 2 g \<and> rfc_ls32 t)"
    "compressed v 3 \<longleftrightarrow> (\<exists>l g t. v = l @ ''::'' @ g @ t \<and> rfc_leading 3 l \<and> rfc_groups 1 g \<and> rfc_ls32 t)"
    "compressed v 2 \<longleftrightarrow> (\<exists>l t. v = l @ ''::'' @ t \<and> rfc_leading 4 l \<and> rfc_ls32 t)"
    using compressed_leading [of 4 v] compressed_leading [of 3 v] compressed_leading [of 2 v] compressed_leading [of 1 v]
      compressed_leading [of 0 v] by (simp_all add: no_groups eval_nat_numeral)
  have "ValidateIpv6Address v \<longleftrightarrow>
      (\<exists>g t. v = g @ t \<and> rfc_groups 6 g \<and> rfc_ls32 t) \<or> (\<exists>k. compressed v k)"
    unfolding ipv6_groups compressed_units using tail_iff [of v 6] by simp
  also have "(\<exists>k. compressed v k) \<longleftrightarrow>
      compressed v 7 \<or> compressed v 6 \<or> compressed v 5 \<or> compressed v 4 \<or> compressed v 3 \<or> compressed v 2 \<or>
      compressed v 1 \<or> compressed v 0"
    using small by blast
  finally show ?thesis
    unfolding compressed_seven compressed_one compressed_none leading rfc_IPv6address.simps by blast
qed

subsection \<open>Authorities\<close>

lemma future_iff: "ValidateIpvFuture v \<longleftrightarrow> rfc_IPvFuture v"
proof
  assume f: "ValidateIpvFuture v"
  let ?version = "takeWhile HEXDIG (tl v)" and ?rest = "dropWhile HEXDIG (tl v)"
  have hex: "IsHexDigit = HEXDIG" by (intro ext) (rule char_classes)
  have v: "v \<noteq> []" "hd v = CHR ''v'' \<or> hd v = CHR ''V''" and p: "?version \<noteq> []" "?rest \<noteq> []" "hd ?rest = CHR ''.''"
    "tl ?rest \<noteq> []" "list_all (\<lambda>c. rfc_unreserved c \<or> rfc_sub_delims c \<or> c = CHR '':'') (tl ?rest)"
    using f by (auto simp: ValidateIpvFuture_def Let_def hex char_classes)
  have "v = hd v # ?version @ hd ?rest # tl ?rest"
    using v(1) p(2) by (simp add: takeWhile_dropWhile_id)
  then have "v = hd v # ?version @ ''.'' @ tl ?rest" using p(3) by simp
  moreover have "list_all HEXDIG ?version" by (auto simp: list_all_iff dest: set_takeWhileD)
  ultimately show "rfc_IPvFuture v" using rfc_IPvFuture.intros [OF v(2) p(1) _ p(4,5)] by simp
next
  assume "rfc_IPvFuture v"
  then show "ValidateIpvFuture v"
  proof cases
    case (1 c version address)
    have hex: "IsHexDigit = HEXDIG" by (intro ext) (rule char_classes)
    have "takeWhile HEXDIG (version @ CHR ''.'' # address) = version"
      "dropWhile HEXDIG (version @ CHR ''.'' # address) = CHR ''.'' # address"
      using 1(4) not_hexdig(2) by (auto simp: list_all_iff takeWhile_append2 dropWhile_append2)
    then show ?thesis
      using 1 by (cases version; cases address) (auto simp: ValidateIpvFuture_def Let_def hex char_classes)
  qed
qed

text \<open>What addresses and registered names are made of.\<close>

definition host_char :: "char \<Rightarrow> bool" where
  "host_char c \<longleftrightarrow> rfc_unreserved c \<or> rfc_sub_delims c \<or> c = CHR '':''"

lemma host_char_classes: "HEXDIG c \<Longrightarrow> host_char c" "DIGIT c \<Longrightarrow> host_char c" "host_char CHR '':''" "host_char CHR ''.''"
proof -
  show "HEXDIG c \<Longrightarrow> host_char c" "DIGIT c \<Longrightarrow> host_char c"
    by (auto simp: host_char_def rfc_unreserved_def HEXDIG_def ALPHA_def char_range_def)
  show "host_char CHR '':''" "host_char CHR ''.''" by (simp_all add: host_char_def rfc_unreserved_def)
qed

lemma not_host_char: "\<not> host_char CHR ''@''" "\<not> host_char CHR ''/''" "\<not> host_char CHR ''[''" "\<not> host_char CHR '']''"
  by code_simp+

lemma ipv4_host_chars: "rfc_IPv4address v \<Longrightarrow> list_all host_char v"
  using ipv4_chars [of v] host_char_classes by (auto simp: list_all_iff)

lemma groups_host_chars: "rfc_groups n s \<Longrightarrow> list_all host_char s"
  by (induction rule: rfc_groups.induct) (auto simp: rfc_h16_def list_all_iff host_char_classes)

lemma h16_host_chars: "rfc_h16 s \<Longrightarrow> list_all host_char s"
  by (simp add: rfc_h16_def list_all_iff host_char_classes)

lemma ls32_host_chars: "rfc_ls32 s \<Longrightarrow> list_all host_char s"
  by (cases rule: rfc_ls32.cases) (auto simp: h16_host_chars ipv4_host_chars host_char_classes)

lemma leading_host_chars: "rfc_leading n s \<Longrightarrow> list_all host_char s"
  by (cases rule: rfc_leading.cases) (auto simp: h16_host_chars groups_host_chars)

lemma literal_host_chars: "rfc_IPv6address a \<or> rfc_IPvFuture a \<Longrightarrow> list_all host_char a \<and> a \<noteq> []"
proof
  show "rfc_IPv6address a \<or> rfc_IPvFuture a \<Longrightarrow> list_all host_char a"
  proof (elim disjE)
    show "rfc_IPv6address a \<Longrightarrow> list_all host_char a"
      by (cases rule: rfc_IPv6address.cases)
        (auto simp: leading_host_chars groups_host_chars ls32_host_chars h16_host_chars host_char_classes)
    assume "rfc_IPvFuture a"
    moreover have "host_char CHR ''v''" "host_char CHR ''V''" by code_simp+
    ultimately show "list_all host_char a"
      by cases (auto simp: list_all_iff host_char_classes, auto simp: host_char_def)
  qed
  have "\<not> ValidateIpv6Address []" by code_simp
  then show "rfc_IPv6address a \<or> rfc_IPvFuture a \<Longrightarrow> a \<noteq> []"
    unfolding ipv6_iff by (auto elim: rfc_IPvFuture.cases)
qed

lemma not_name_char:
  "\<not> (rfc_unreserved CHR '':'' \<or> rfc_sub_delims CHR '':'')" "\<not> (rfc_unreserved CHR ''@'' \<or> rfc_sub_delims CHR ''@'')"
  "\<not> (rfc_unreserved CHR ''/'' \<or> rfc_sub_delims CHR ''/'')" "\<not> (rfc_unreserved CHR ''['' \<or> rfc_sub_delims CHR ''['')"
  "\<not> (rfc_unreserved CHR '']'' \<or> rfc_sub_delims CHR '']'')"
  by code_simp+

lemma name_absent:
  assumes "rfc_escaped (\<lambda>c. rfc_unreserved c \<or> rfc_sub_delims c) name"
  shows "CHR '':'' \<notin> set name" "CHR ''@'' \<notin> set name" "CHR ''/'' \<notin> set name" "CHR ''['' \<notin> set name" "CHR '']'' \<notin> set name"
  by (rule escaped_absent [OF assms not_name_char(1) not_hexdig(1)], simp)
    (rule escaped_absent [OF assms not_name_char(2) not_hexdig(3)], simp,
     rule escaped_absent [OF assms not_name_char(3) not_hexdig(4)], simp,
     rule escaped_absent [OF assms not_name_char(4) not_hexdig(5)], simp,
     rule escaped_absent [OF assms not_name_char(5) not_hexdig(6)], simp)

lemma userinfo_absent: "rfc_userinfo u \<Longrightarrow> CHR ''@'' \<notin> set u \<and> CHR ''/'' \<notin> set u"
  using not_host_char not_hexdig escaped_absent [of host_char u]
  by (simp add: rfc_userinfo_def host_char_def [abs_def])

lemma digits_absent:
  assumes "list_all DIGIT p"
  shows "CHR '':'' \<notin> set p" "CHR ''@'' \<notin> set p" "CHR ''/'' \<notin> set p" "CHR ''['' \<notin> set p" "CHR '']'' \<notin> set p"
  using assms not_hexdig digit_hexdig by (auto simp: list_all_iff)

lemma host_cases:
  assumes "rfc_host h"
  obtains a where "h = ''['' @ a @ '']''" "rfc_IPv6address a \<or> rfc_IPvFuture a"
    | "rfc_escaped (\<lambda>c. rfc_unreserved c \<or> rfc_sub_delims c) h"
  using assms
proof cases
  case 2
  then have "list_all (\<lambda>c. rfc_unreserved c \<or> rfc_sub_delims c) h"
    using ipv4_chars [of h] by (auto simp: list_all_iff rfc_unreserved_def)
  then show ?thesis using that(2) by (simp add: literal_escaped)
qed (use that in blast)+

lemma host_absent:
  assumes "rfc_host h"
  shows "CHR ''@'' \<notin> set h \<and> CHR ''/'' \<notin> set h"
  using assms
proof (cases rule: host_cases)
  case (1 a)
  then show ?thesis using literal_host_chars [of a] not_host_char by (auto simp: list_all_iff)
next
  case 2
  then show ?thesis using name_absent by blast
qed

lemma host_iff:
  "ValidateHostAndPort h \<longleftrightarrow> (\<exists>a p. h = a @ p \<and> rfc_host a \<and> rfc_optional CHR '':'' (list_all DIGIT) p)"
proof
  assume v: "ValidateHostAndPort h"
  show "\<exists>a p. h = a @ p \<and> rfc_host a \<and> rfc_optional CHR '':'' (list_all DIGIT) p"
  proof (cases "h \<noteq> [] \<and> hd h = CHR ''[''")
    case True
    then obtain lit rest where c: "cut_at CHR '']'' (tl h) = (lit, Some rest)" and l: "ValidateIpLiteral lit"
      and r: "rest = [] \<or> hd rest = CHR '':'' \<and> ValidatePort (tl rest)"
      using v by (auto simp: ValidateHostAndPort_def split: prod.splits option.splits)
    have "h = (''['' @ lit @ '']'') @ rest" using cut_append(2) [OF c] True by (cases h) simp_all
    moreover have "rfc_host (''['' @ lit @ '']'')"
      using l by (intro rfc_host.intros(1)) (simp add: ValidateIpLiteral_def ipv6_iff future_iff)
    moreover have "rfc_optional CHR '':'' (list_all DIGIT) rest"
      using r by (cases rest) (auto simp: rfc_optional_def port_iff)
    ultimately show ?thesis by blast
  next
    case False
    then obtain name port where c: "cut_at CHR '':'' h = (name, port)" and n: "ValidateComponent REG_NAME name"
      and p: "pred_option ValidatePort port"
      using v by (auto simp: ValidateHostAndPort_def split: prod.splits option.splits)
    have "rfc_host name" using n by (simp add: components rfc_host.intros(3))
    moreover have "h = name @ (case port of None \<Rightarrow> [] | Some q \<Rightarrow> CHR '':'' # q)"
      using cut_append [of "CHR '':''" h name] c by (auto split: option.splits)
    moreover have "rfc_optional CHR '':'' (list_all DIGIT) (case port of None \<Rightarrow> [] | Some q \<Rightarrow> CHR '':'' # q)"
      using p by (cases port) (simp_all add: rfc_optional_def port_iff)
    ultimately show ?thesis by blast
  qed
next
  assume "\<exists>a p. h = a @ p \<and> rfc_host a \<and> rfc_optional CHR '':'' (list_all DIGIT) p"
  then obtain a p where h: "h = a @ p" and a: "rfc_host a" and p: "rfc_optional CHR '':'' (list_all DIGIT) p" by blast
  from a show "ValidateHostAndPort h"
  proof (cases rule: host_cases)
    case l: (1 l)
    then have "CHR '']'' \<notin> set l" "l \<noteq> []" using literal_host_chars [of l] not_host_char(4) by (auto simp: list_all_iff)
    moreover from this have "cut_at CHR '']'' (l @ CHR '']'' # p) = (l, Some p)" by (intro cut_build(2))
    moreover have "ValidateIpLiteral l" using l(2) by (simp add: ValidateIpLiteral_def ipv6_iff future_iff)
    moreover have "p = [] \<or> hd p = CHR '':'' \<and> ValidatePort (tl p)" using p by (auto simp: rfc_optional_def port_iff)
    ultimately show ?thesis by (simp add: h l(1) ValidateHostAndPort_def)
  next
    case n: 2
    note absent = name_absent [OF n]
    have v: "ValidateComponent REG_NAME a" using n by (simp add: components)
    from p consider "p = []" | q where "p = CHR '':'' # q" "list_all DIGIT q" by (auto simp: rfc_optional_def)
    then show ?thesis
    proof cases
      case 1
      then show ?thesis using absent v cut_build(1) [OF absent(1)]
        by (cases a) (auto simp: h ValidateHostAndPort_def)
    next
      case (2 q)
      then show ?thesis using absent v cut_build(2) [OF absent(1), of q] digits_absent [OF 2(2)]
        by (cases a) (auto simp: h ValidateHostAndPort_def port_iff)
    qed
  qed
qed

lemma authority_iff: "ValidateAuthority a \<longleftrightarrow> rfc_authority a"
proof
  assume v: "ValidateAuthority a"
  obtain front rest where c: "cut_at CHR ''@'' a = (front, rest)" by (cases "cut_at CHR ''@'' a")
  show "rfc_authority a"
  proof (cases rest)
    case None
    then have "ValidateHostAndPort a" using v c cut_append(1) [of "CHR ''@''" a front] by (simp add: ValidateAuthority_def)
    then show ?thesis unfolding host_iff using rfc_authority.intros [of "[]"] by auto
  next
    case (Some host)
    then have "rfc_userinfo front" "ValidateHostAndPort host" and a: "a = (front @ ''@'') @ host"
      using v c cut_append(2) [of "CHR ''@''" a front host] by (simp_all add: ValidateAuthority_def components)
    then obtain h p where "host = h @ p" "rfc_host h" "rfc_optional CHR '':'' (list_all DIGIT) p" "rfc_userinfo front"
      unfolding host_iff by blast
    then show ?thesis unfolding a using rfc_authority.intros [of "front @ ''@''" h p] by blast
  qed
next
  assume "rfc_authority a"
  then show "ValidateAuthority a"
  proof cases
    case (1 user h port)
    have "CHR ''@'' \<notin> set port"
      using 1(4) digits_absent(2) by (auto simp: rfc_optional_def)
    then have absent: "CHR ''@'' \<notin> set (h @ port)" using host_absent [OF 1(3)] by simp
    have hp: "ValidateHostAndPort (h @ port)" unfolding host_iff using 1 by blast
    from 1(2) show ?thesis
    proof (elim disjE exE conjE)
      assume "user = []"
      then show ?thesis using 1(1) cut_build(1) [OF absent] hp by (simp add: ValidateAuthority_def)
    next
      fix u assume u: "user = u @ ''@''" "rfc_userinfo u"
      then show ?thesis
        using 1(1) userinfo_absent cut_build(2) [of "CHR ''@''" u "h @ port"] hp absent
        by (simp add: ValidateAuthority_def components)
    qed
  qed
qed

lemma authority_no_slash:
  assumes "rfc_authority a"
  shows "CHR ''/'' \<notin> set a"
  using assms
proof cases
  case (1 user h port)
  have "CHR ''/'' \<notin> set user" using 1(2) userinfo_absent by auto
  moreover have "CHR ''/'' \<notin> set port" using 1(4) digits_absent(3) by (auto simp: rfc_optional_def)
  ultimately show ?thesis using 1(1) host_absent [OF 1(3)] by simp
qed

subsection \<open>Paths\<close>

lemma join_concat: "join d (p # ps) = p @ concat (map (\<lambda>q. d # q) ps)"
proof (induction ps arbitrary: p)
  case (Cons q ps)
  then show ?case using Cons [of q] by simp
qed simp

lemma abempty_list:
  "rfc_path_abempty s \<longleftrightarrow> (\<exists>segs. list_all (rfc_escaped rfc_pchar) segs \<and> s = concat (map (\<lambda>q. CHR ''/'' # q) segs))"
proof
  show "rfc_path_abempty s \<Longrightarrow>
      \<exists>segs. list_all (rfc_escaped rfc_pchar) segs \<and> s = concat (map (\<lambda>q. CHR ''/'' # q) segs)"
  proof (induction rule: rfc_path_abempty.induct)
    case 1
    then show ?case by (intro exI [of _ "[]"]) simp
  next
    case (2 segment s)
    then obtain segs where "list_all (rfc_escaped rfc_pchar) segs" "s = concat (map (\<lambda>q. CHR ''/'' # q) segs)" by blast
    then show ?case using 2(1) by (intro exI [of _ "segment # segs"]) simp
  qed
  have "list_all (rfc_escaped rfc_pchar) segs \<Longrightarrow> rfc_path_abempty (concat (map (\<lambda>q. CHR ''/'' # q) segs))" for segs
  proof (induction segs)
    case (Cons q segs)
    then show ?case using rfc_path_abempty.intros(2) [of q] by simp
  qed (simp add: rfc_path_abempty.intros(1))
  then show "\<exists>segs. list_all (rfc_escaped rfc_pchar) segs \<and> s = concat (map (\<lambda>q. CHR ''/'' # q) segs) \<Longrightarrow>
      rfc_path_abempty s" by blast
qed

lemma slash_segments_rfc: "slash_segments segs \<longleftrightarrow> segs \<noteq> [] \<and> list_all (rfc_escaped rfc_pchar) segs"
  unfolding slash_segments_def list_all_iff ValidateComponent_iff [symmetric] components by blast

text \<open>What follows the first segment of a path.\<close>

lemma segments_split:
  "(\<exists>segs. slash_segments segs \<and> P (hd segs) \<and> p = join CHR ''/'' segs) \<longleftrightarrow>
   (\<exists>q s. rfc_escaped rfc_pchar q \<and> P q \<and> rfc_path_abempty s \<and> p = q @ s)"
proof
  assume "\<exists>segs. slash_segments segs \<and> P (hd segs) \<and> p = join CHR ''/'' segs"
  then obtain q qs where "list_all (rfc_escaped rfc_pchar) (q # qs)" "P q" "p = q @ concat (map (\<lambda>q. CHR ''/'' # q) qs)"
    unfolding slash_segments_rfc by (metis join_concat list.exhaust list.sel(1))
  moreover from this have "rfc_path_abempty (concat (map (\<lambda>q. CHR ''/'' # q) qs))" unfolding abempty_list by auto
  ultimately show "\<exists>q s. rfc_escaped rfc_pchar q \<and> P q \<and> rfc_path_abempty s \<and> p = q @ s" by auto
next
  assume "\<exists>q s. rfc_escaped rfc_pchar q \<and> P q \<and> rfc_path_abempty s \<and> p = q @ s"
  then obtain q qs where "rfc_escaped rfc_pchar q" "P q" "list_all (rfc_escaped rfc_pchar) qs"
    "p = q @ concat (map (\<lambda>q. CHR ''/'' # q) qs)" unfolding abempty_list by blast
  then show "\<exists>segs. slash_segments segs \<and> P (hd segs) \<and> p = join CHR ''/'' segs"
    unfolding slash_segments_rfc by (intro exI [of _ "q # qs"]) (simp add: join_concat)
qed

lemma abempty_rfc: "ValidatePathAbempty p \<longleftrightarrow> rfc_path_abempty p"
proof -
  have "(\<exists>segs. slash_segments segs \<and> p = CHR ''/'' # join CHR ''/'' segs) \<longleftrightarrow>
      (\<exists>q s. rfc_escaped rfc_pchar q \<and> rfc_path_abempty s \<and> p = CHR ''/'' # q @ s)"
    using segments_split [of "\<lambda>_. True" "tl p"] by (cases p) auto
  then show ?thesis unfolding abempty_iff by (subst rfc_path_abempty.simps) (simp, blast)
qed

lemma rootless_rfc: "ValidatePathRootless p \<longleftrightarrow> rfc_path_rootless p"
  unfolding rootless_iff segments_split [of "\<lambda>q. q \<noteq> []"] rfc_path_rootless.simps by blast

lemma segment_no_slash: "rfc_escaped rfc_pchar q \<Longrightarrow> CHR ''/'' \<notin> set q"
  by (rule slash_not_pchar) (simp add: ValidateComponent_iff [symmetric] components)

lemma absolute_rfc: "ValidatePathAbsolute p \<longleftrightarrow> rfc_path_absolute p"
proof
  assume "ValidatePathAbsolute p"
  then obtain s where p: "p = CHR ''/'' # s" and s: "s = [] \<or> hd s \<noteq> CHR ''/''"
    and v: "ValidatePathCharacters s"
    unfolding absolute_iff path_characters_iff by blast
  show "rfc_path_absolute p"
  proof (cases "s = []")
    case False
    then have "ValidatePathRootless s" using s v by (simp add: ValidatePathRootless_def)
    then show ?thesis using rfc_path_absolute.intros(2) [of s] p by (simp add: rootless_rfc)
  qed (simp add: p rfc_path_absolute.intros(1))
next
  assume "rfc_path_absolute p"
  then show "ValidatePathAbsolute p"
  proof cases
    case 1
    then show ?thesis by (simp add: ValidatePathAbsolute_def ValidatePathCharacters_def)
  next
    case (2 s)
    then have "ValidatePathRootless s" by (simp add: rootless_rfc)
    then show ?thesis
      using 2(1) by (cases s) (auto simp: ValidatePathRootless_def ValidatePathAbsolute_def path_characters_slash)
  qed
qed

lemma segment_nc:
  "rfc_escaped (\<lambda>c. rfc_unreserved c \<or> rfc_sub_delims c \<or> c = CHR ''@'') q \<longleftrightarrow>
   rfc_escaped rfc_pchar q \<and> CHR '':'' \<notin> set q" (is "rfc_escaped ?P q \<longleftrightarrow> _")
proof -
  have colon: "\<not> ?P CHR '':''" using not_name_char(1) by simp
  have "rfc_escaped ?P q \<Longrightarrow> rfc_escaped rfc_pchar q"
    by (induction rule: rfc_escaped.induct) (auto simp: rfc_pchar_def intro: rfc_escaped.intros)
  moreover have "rfc_escaped ?P q \<Longrightarrow> CHR '':'' \<notin> set q"
    using escaped_absent [of ?P q "CHR '':''"] colon not_hexdig(1) by simp
  moreover have "rfc_escaped rfc_pchar q \<Longrightarrow> CHR '':'' \<notin> set q \<Longrightarrow> rfc_escaped ?P q"
    by (induction rule: rfc_escaped.induct) (auto simp: rfc_pchar_def intro: rfc_escaped.intros)
  ultimately show ?thesis by blast
qed

lemma noscheme_rfc: "ValidatePathNoScheme p \<longleftrightarrow> rfc_path_noscheme p"
proof -
  have "(\<exists>segs. slash_segments segs \<and> hd segs \<noteq> [] \<and> CHR '':'' \<notin> set (hd segs) \<and> p = join CHR ''/'' segs) \<longleftrightarrow>
      (\<exists>q s. rfc_escaped rfc_pchar q \<and> (q \<noteq> [] \<and> CHR '':'' \<notin> set q) \<and> rfc_path_abempty s \<and> p = q @ s)"
    using segments_split [of "\<lambda>q. q \<noteq> [] \<and> CHR '':'' \<notin> set q" p] by blast
  then show ?thesis unfolding noscheme_iff rfc_path_noscheme.simps segment_nc by blast
qed

subsection \<open>References\<close>

lemma hierarchical:
  "ValidateHierPart h relative \<longleftrightarrow>
     (\<exists>a p. h = ''//'' @ a @ p \<and> rfc_authority a \<and> rfc_path_abempty p) \<or> rfc_path_absolute h \<or> h = [] \<or>
     (if relative then rfc_path_noscheme h else rfc_path_rootless h)"
proof -
  have abempty_hd: "rfc_path_abempty p \<Longrightarrow> p = [] \<or> hd p = CHR ''/''" for p
    by (erule rfc_path_abempty.cases) simp_all
  have first: "rfc_path_rootless h \<Longrightarrow> h \<noteq> [] \<and> hd h \<noteq> CHR ''/''" "rfc_path_noscheme h \<Longrightarrow> h \<noteq> [] \<and> hd h \<noteq> CHR ''/''"
    by (simp_all add: rootless_rfc [symmetric] noscheme_rfc [symmetric] ValidatePathNoScheme_def ValidatePathRootless_def)
  have absolute: "rfc_path_absolute h \<Longrightarrow> hd h = CHR ''/'' \<and> take 2 h \<noteq> ''//'' \<and> h \<noteq> []"
    by (cases h; cases "tl h") (auto simp: absolute_rfc [symmetric] ValidatePathAbsolute_def)
  show ?thesis
  proof (cases "take 2 h = ''//''")
    case True
    then obtain t where h: "h = ''//'' @ t" by (auto simp: double_slash)
    have "ValidateHierPart h relative \<longleftrightarrow> (\<exists>a p. t = a @ p \<and> rfc_authority a \<and> rfc_path_abempty p)"
    proof
      assume "ValidateHierPart h relative"
      then have "rfc_authority (takeWhile (\<lambda>c. c \<noteq> CHR ''/'') t)" "rfc_path_abempty (dropWhile (\<lambda>c. c \<noteq> CHR ''/'') t)"
        by (simp_all add: h ValidateHierPart_def ValidateAuthorityAndPath_def authority_iff abempty_rfc)
      then show "\<exists>a p. t = a @ p \<and> rfc_authority a \<and> rfc_path_abempty p" using takeWhile_dropWhile_id by metis
    next
      assume "\<exists>a p. t = a @ p \<and> rfc_authority a \<and> rfc_path_abempty p"
      then obtain a p where t: "t = a @ p" "rfc_authority a" "rfc_path_abempty p" by blast
      have "takeWhile (\<lambda>c. c \<noteq> CHR ''/'') t = a" "dropWhile (\<lambda>c. c \<noteq> CHR ''/'') t = p"
        unfolding t(1) using authority_split [OF authority_no_slash [OF t(2)] abempty_hd [OF t(3)]] .
      then show "ValidateHierPart h relative"
        using t(2,3) by (simp add: h ValidateHierPart_def ValidateAuthorityAndPath_def authority_iff abempty_rfc)
    qed
    then show ?thesis using True first absolute by (auto simp: h)
  next
    case False
    then show ?thesis
      using first absolute_rfc [of h] rootless_rfc [of h] noscheme_rfc [of h] absolute
      by (auto simp: ValidateHierPart_def ValidatePathAbsolute_def double_slash)
  qed
qed

lemma hier_part_rfc: "hier_part False h \<longleftrightarrow> rfc_hier_part h" "hier_part True h \<longleftrightarrow> rfc_relative_part h"
  unfolding hier_part_iff [symmetric] hierarchical rfc_hier_part.simps rfc_relative_part.simps by auto

lemma optional_rfc:
  "rfc_optional d rfc_query part \<longleftrightarrow>
   (\<exists>option. part = (case option of None \<Rightarrow> [] | Some s \<Rightarrow> d # s) \<and> pred_option (component QUERY_OR_FRAGMENT) option)"
proof -
  have "component QUERY_OR_FRAGMENT s \<longleftrightarrow> rfc_query s" for s by (simp add: ValidateComponent_iff [symmetric] components)
  then show ?thesis unfolding rfc_optional_def by (simp add: split_option_ex)
qed

lemma rfc_URI_composed:
  "rfc_URI v \<longleftrightarrow> (\<exists>s h query fragment. v = compose (Some s) h query fragment \<and> ValidateScheme s \<and> hier_part False h \<and>
     pred_option (component QUERY_OR_FRAGMENT) query \<and> pred_option (component QUERY_OR_FRAGMENT) fragment)"
  (is "?L \<longleftrightarrow> ?R")
proof
  assume ?L
  then show ?R unfolding rfc_URI.simps optional_rfc scheme_iff hier_part_rfc compose_def by auto
next
  assume ?R
  then show ?L unfolding rfc_URI.simps optional_rfc scheme_iff hier_part_rfc compose_def by simp blast
qed

lemma rfc_relative_composed:
  "rfc_relative_ref v \<longleftrightarrow> (\<exists>h query fragment. v = compose None h query fragment \<and> hier_part True h \<and>
     pred_option (component QUERY_OR_FRAGMENT) query \<and> pred_option (component QUERY_OR_FRAGMENT) fragment)"
  (is "?L \<longleftrightarrow> ?R")
proof
  assume ?L
  then show ?R unfolding rfc_relative_ref.simps optional_rfc hier_part_rfc compose_def by auto
next
  assume ?R
  then show ?L unfolding rfc_relative_ref.simps optional_rfc hier_part_rfc compose_def by simp blast
qed

subsection \<open>Properties\<close>

text \<open>
  C21. The validator accepts exactly what RFC 3986 derives, down to its characters: a string is a valid URI for the
  program exactly when it is a URI of the grammar, and a valid reference exactly when it is a URI or a relative
  reference of it. This covers scheme, user information, registered names, IPv4 addresses, IPv6 addresses with
  at most seven groups around a compression, literals of future versions, ports, every form of path, query and
  fragment; and it says that the program's cuts at the first delimiters are unambiguous.
\<close>

theorem uri_reference_grammar:
  "(IsValidUri v \<longleftrightarrow> rfc_URI v) \<and> (IsValidUriReference v \<longleftrightarrow> rfc_URI_reference v)"
proof
  show "IsValidUri v \<longleftrightarrow> rfc_URI v"
    unfolding IsValidUri_def reference_shape rfc_URI_composed by (simp add: split_option_ex)
  show "IsValidUriReference v \<longleftrightarrow> rfc_URI_reference v"
    unfolding IsValidUriReference_def reference_shape rfc_URI_reference_def rfc_URI_composed rfc_relative_composed
    by (simp add: split_option_ex) blast
qed

end
