(* ===== verification/Network_Policy.thy ===== *)
theory Network_Policy
  imports Prelude
begin

text \<open>
  The classifier of socket addresses, \<open>src/src/runtime/policy/network_policy.cpp\<close>: which addresses that DNS returned the
  transport may connect to. An address in memory is its bytes in network order, which \<open>ntohl\<close> and
  \<open>ntohs\<close> read. The classifier is shown to be membership in tables of networks in CIDR notation.
\<close>

unbundle bit_operations_syntax

subsection \<open>Addresses\<close>

text \<open>The sixteen bytes of \<open>s6_addr\<close>, by index.\<close>

type_synonym in6_addr = "nat \<Rightarrow> u8"

datatype sockaddr =
    Sockaddr_in "u8 \<times> u8" "u8 \<times> u8 \<times> u8 \<times> u8"
  | Sockaddr_in6 "u8 \<times> u8" in6_addr
  | Sockaddr_other

definition sizeof_sockaddr_in :: nat where
  "sizeof_sockaddr_in = 16"

definition sizeof_sockaddr_in6 :: nat where
  "sizeof_sockaddr_in6 = 28"

definition ntohl :: "u8 \<times> u8 \<times> u8 \<times> u8 \<Rightarrow> u32" where
  "ntohl bs = (case bs of (a, b, c, d) \<Rightarrow>
     push_bit 24 (ucast a) OR push_bit 16 (ucast b) OR push_bit 8 (ucast c) OR ucast d)"

definition ntohs :: "u8 \<times> u8 \<Rightarrow> u16" where
  "ntohs bs = (case bs of (a, b) \<Rightarrow> push_bit 8 (ucast a) OR ucast b)"

subsection \<open>The classifier\<close>

definition HasIpv4Prefix :: "u32 \<Rightarrow> u32 \<Rightarrow> u32 \<Rightarrow> bool" where
  "HasIpv4Prefix address prefix msk \<longleftrightarrow> address AND msk = prefix"

definition IsGloballyRoutableIpv4 :: "u32 \<Rightarrow> bool" where
  "IsGloballyRoutableIpv4 address \<longleftrightarrow>
     \<not> HasIpv4Prefix address 0x00000000 0xff000000 \<and> \<not> HasIpv4Prefix address 0x0a000000 0xff000000 \<and>
     \<not> HasIpv4Prefix address 0x64400000 0xffc00000 \<and> \<not> HasIpv4Prefix address 0x7f000000 0xff000000 \<and>
     \<not> HasIpv4Prefix address 0xa9fe0000 0xffff0000 \<and> \<not> HasIpv4Prefix address 0xac100000 0xfff00000 \<and>
     \<not> HasIpv4Prefix address 0xc0000000 0xffffff00 \<and> \<not> HasIpv4Prefix address 0xc0000200 0xffffff00 \<and>
     \<not> HasIpv4Prefix address 0xc0586300 0xffffff00 \<and> \<not> HasIpv4Prefix address 0xc0a80000 0xffff0000 \<and>
     \<not> HasIpv4Prefix address 0xc6120000 0xfffe0000 \<and> \<not> HasIpv4Prefix address 0xc6336400 0xffffff00 \<and>
     \<not> HasIpv4Prefix address 0xcb007100 0xffffff00 \<and> \<not> HasIpv4Prefix address 0xe0000000 0xf0000000 \<and>
     address < 0xf0000000"

definition IsIpv4MappedIpv6 :: "in6_addr \<Rightarrow> bool" where
  "IsIpv4MappedIpv6 address \<longleftrightarrow>
     list_all (\<lambda>index. address index = 0) [0..<10] \<and> address 10 = 0xff \<and> address 11 = 0xff"

definition HasIpv6Prefix :: "in6_addr \<Rightarrow> u8 list \<Rightarrow> nat \<Rightarrow> bool" where
  "HasIpv6Prefix address prefix prefix_bits \<longleftrightarrow>
     (let complete_bytes = prefix_bits div 8; remaining_bits = prefix_bits mod 8 in
      list_all (\<lambda>index. address index = prefix ! index) [0..<complete_bytes] \<and>
      (remaining_bits = 0 \<or>
       (let msk = push_bit (8 - remaining_bits) 0xff in
        address complete_bytes AND msk = prefix ! complete_bytes AND msk)))"

definition ReadMappedIpv4 :: "in6_addr \<Rightarrow> u32" where
  "ReadMappedIpv4 address =
     push_bit 24 (ucast (address 12)) OR push_bit 16 (ucast (address 13)) OR push_bit 8 (ucast (address 14)) OR
     ucast (address 15)"

definition IsGloballyRoutableIpv6 :: "in6_addr \<Rightarrow> bool" where
  "IsGloballyRoutableIpv6 address \<longleftrightarrow>
     (if IsIpv4MappedIpv6 address then IsGloballyRoutableIpv4 (ReadMappedIpv4 address)
      else if address 0 AND 0xe0 \<noteq> 0x20 then False
      else \<not> HasIpv6Prefix address [0x20, 0x01, 0x00] 23 \<and>
        \<not> HasIpv6Prefix address [0x20, 0x01, 0x00, 0x02, 0x00, 0x00] 48 \<and>
        \<not> HasIpv6Prefix address [0x20, 0x01, 0x00, 0x20] 28 \<and>
        \<not> HasIpv6Prefix address [0x20, 0x01, 0x0d, 0xb8] 32 \<and>
        \<not> HasIpv6Prefix address [0x20, 0x02] 16 \<and>
        \<not> HasIpv6Prefix address [0x3f, 0xff, 0x00] 20)"

definition IsPublicSocketAddress :: "sockaddr option \<Rightarrow> nat \<Rightarrow> bool" where
  "IsPublicSocketAddress address address_length \<longleftrightarrow>
     (case address of
        None \<Rightarrow> False
      | Some (Sockaddr_in port ip) \<Rightarrow>
          if address_length < sizeof_sockaddr_in then False else IsGloballyRoutableIpv4 (ntohl ip)
      | Some (Sockaddr_in6 port ip) \<Rightarrow>
          if address_length < sizeof_sockaddr_in6 then False else IsGloballyRoutableIpv6 ip
      | Some Sockaddr_other \<Rightarrow> False)"

definition IsPublicSocketAddressForPort :: "sockaddr option \<Rightarrow> nat \<Rightarrow> u16 \<Rightarrow> bool" where
  "IsPublicSocketAddressForPort address address_length port \<longleftrightarrow>
     (if port = 0 \<or> \<not> IsPublicSocketAddress address address_length then False
      else case address of
        Some (Sockaddr_in p ip) \<Rightarrow> sizeof_sockaddr_in \<le> address_length \<and> ntohs p = port
      | Some (Sockaddr_in6 p ip) \<Rightarrow> sizeof_sockaddr_in6 \<le> address_length \<and> ntohs p = port
      | _ \<Rightarrow> False)"

subsection \<open>Networks in CIDR notation\<close>

text \<open>
  Addresses as numbers of \<open>w\<close> bits; a number is in a network of prefix length \<open>l\<close> when the leading \<open>l\<close> bits agree.
\<close>

definition in_network :: "nat \<Rightarrow> nat \<Rightarrow> nat \<times> nat \<Rightarrow> bool" where
  "in_network w n net \<longleftrightarrow> n div 2 ^ (w - snd net) = fst net div 2 ^ (w - snd net)"

definition dotted :: "nat \<Rightarrow> nat \<Rightarrow> nat \<Rightarrow> nat \<Rightarrow> nat \<Rightarrow> nat \<times> nat" where
  "dotted a b c d l = (((a * 256 + b) * 256 + c) * 256 + d, l)"

text \<open>The leading groups of sixteen bits, the rest being zero.\<close>

definition groups :: "nat list \<Rightarrow> nat \<Rightarrow> nat \<times> nat" where
  "groups gs l = (foldl (\<lambda>n g. n * 2 ^ 16 + g) 0 gs * 2 ^ (16 * (8 - length gs)), l)"

text \<open>
  This network, private use, shared address space, loopback, link local, IETF protocol assignments, the documentation networks,
  the 6to4 relay, benchmarking, multicast, and the reserved block with the limited broadcast address.
\<close>

definition special_ipv4 :: "(nat \<times> nat) list" where
  "special_ipv4 =
     [dotted 0 0 0 0 8, dotted 10 0 0 0 8, dotted 172 16 0 0 12, dotted 192 168 0 0 16, dotted 100 64 0 0 10,
      dotted 127 0 0 0 8, dotted 169 254 0 0 16, dotted 192 0 0 0 24, dotted 192 0 2 0 24, dotted 198 51 100 0 24,
      dotted 203 0 113 0 24, dotted 192 88 99 0 24, dotted 198 18 0 0 15, dotted 224 0 0 0 4, dotted 240 0 0 0 4]"

text \<open>IETF protocol assignments, documentation (two networks) and 6to4, within the global unicast network.\<close>

definition special_ipv6 :: "(nat \<times> nat) list" where
  "special_ipv6 = [groups [0x2001, 0x0000] 23, groups [0x2001, 0x0db8] 32, groups [0x2002] 16, groups [0x3fff, 0x0000] 20]"

definition public_ipv4 :: "nat \<Rightarrow> bool" where
  "public_ipv4 n \<longleftrightarrow> list_all (\<lambda>net. \<not> in_network 32 n net) special_ipv4"

definition public_ipv6 :: "nat \<Rightarrow> bool" where
  "public_ipv6 n \<longleftrightarrow>
     in_network 128 n (groups [0, 0, 0, 0, 0, 0xffff] 96) \<and> public_ipv4 (n mod 2 ^ 32) \<or>
     in_network 128 n (groups [0x2000] 3) \<and> list_all (\<lambda>net. \<not> in_network 128 n net) special_ipv6"

definition ipv4_number :: "u8 \<times> u8 \<times> u8 \<times> u8 \<Rightarrow> nat" where
  "ipv4_number bs = (case bs of (a, b, c, d) \<Rightarrow> fst (dotted (unat a) (unat b) (unat c) (unat d) 32))"

primrec bytes_number :: "in6_addr \<Rightarrow> nat \<Rightarrow> nat" where
  "bytes_number address 0 = 0"
| "bytes_number address (Suc i) = bytes_number address i * 256 + unat (address i)"

definition ipv6_number :: "in6_addr \<Rightarrow> nat" where
  "ipv6_number address = bytes_number address 16"

subsection \<open>Masks and leading bits\<close>

lemma masked_eq:
  fixes a b :: "'a::len word"
  assumes "n + m = LENGTH('a)"
  shows "a AND push_bit n (mask m) = b AND push_bit n (mask m) \<longleftrightarrow> unat a div 2 ^ n = unat b div 2 ^ n"
proof -
  have high: "x AND push_bit n (mask m) = push_bit n (drop_bit n x)" for x :: "'a word"
    by (rule bit_word_eqI) (use assms in \<open>auto simp: bit_simps\<close>)
  have "drop_bit n (push_bit n (drop_bit n x)) = drop_bit n x" for x :: "'a word"
    by (rule bit_word_eqI) (auto simp: bit_simps dest: bit_imp_le_length)
  then have "push_bit n (drop_bit n a) = push_bit n (drop_bit n b) \<longleftrightarrow> drop_bit n a = drop_bit n b" by metis
  then show ?thesis by (metis high word_eq_iff_unsigned unat_drop_bit_eq drop_bit_eq_div)
qed

lemma and_leading:
  fixes a p :: "'a::len word"
  assumes "n + m = LENGTH('a)" and "take_bit n p = 0"
  shows "a AND push_bit n (mask m) = p \<longleftrightarrow> unat a div 2 ^ n = unat p div 2 ^ n"
proof -
  have "\<not> bit p i" if "i < n" for i using arg_cong [OF assms(2), of "\<lambda>x. bit x i"] that by (simp add: bit_simps)
  then have "n \<le> i" if "bit p i" for i using that leI by blast
  then have "n \<le> i \<and> i - n < m" if "bit p i" for i
    using that bit_imp_le_length [OF that] assms(1) by fastforce
  then have "p AND push_bit n (mask m) = p" by (intro bit_word_eqI) (auto simp: bit_simps)
  then show ?thesis using masked_eq [OF assms(1), of a p] by simp
qed

lemma ipv4_prefix:
  assumes "msk = push_bit n (mask (32 - n))" and "n \<le> 32" and "take_bit n p = 0" and "fst net = unat p" and "snd net = 32 - n"
  shows "HasIpv4Prefix a p msk \<longleftrightarrow> in_network 32 (unat a) net"
  using and_leading [of n "32 - n" p a] assms by (simp add: HasIpv4Prefix_def in_network_def)

lemma ipv4_masks:
  "(0xff000000 :: u32) = push_bit 24 (mask (32 - 24))" "(0xffc00000 :: u32) = push_bit 22 (mask (32 - 22))"
  "(0xffff0000 :: u32) = push_bit 16 (mask (32 - 16))" "(0xfff00000 :: u32) = push_bit 20 (mask (32 - 20))"
  "(0xffffff00 :: u32) = push_bit 8 (mask (32 - 8))" "(0xfffe0000 :: u32) = push_bit 17 (mask (32 - 17))"
  "(0xf0000000 :: u32) = push_bit 28 (mask (32 - 28))"
  by (simp_all add: mask_eq_exp_minus_1 push_bit_eq_mult)

lemmas ipv4_prefixes = ipv4_masks [THEN ipv4_prefix]

lemma reserved_block: "a < (0xf0000000 :: u32) \<longleftrightarrow> \<not> in_network 32 (unat a) (dotted 240 0 0 0 4)"
proof -
  have "unat a < 2 ^ 32" using unsigned_less [of a] by simp
  moreover have "unat a div 2 ^ 28 = 15 \<longleftrightarrow> 15 * 2 ^ 28 \<le> unat a \<and> unat a < 16 * 2 ^ 28" by auto
  ultimately show ?thesis by (auto simp: word_less_nat_alt in_network_def dotted_def)
qed

lemma routable_ipv4: "IsGloballyRoutableIpv4 a \<longleftrightarrow> public_ipv4 (unat a)"
proof -
  have nets:
    "HasIpv4Prefix a 0x00000000 0xff000000 \<longleftrightarrow> in_network 32 (unat a) (dotted 0 0 0 0 8)"
    "HasIpv4Prefix a 0x0a000000 0xff000000 \<longleftrightarrow> in_network 32 (unat a) (dotted 10 0 0 0 8)"
    "HasIpv4Prefix a 0x64400000 0xffc00000 \<longleftrightarrow> in_network 32 (unat a) (dotted 100 64 0 0 10)"
    "HasIpv4Prefix a 0x7f000000 0xff000000 \<longleftrightarrow> in_network 32 (unat a) (dotted 127 0 0 0 8)"
    "HasIpv4Prefix a 0xa9fe0000 0xffff0000 \<longleftrightarrow> in_network 32 (unat a) (dotted 169 254 0 0 16)"
    "HasIpv4Prefix a 0xac100000 0xfff00000 \<longleftrightarrow> in_network 32 (unat a) (dotted 172 16 0 0 12)"
    "HasIpv4Prefix a 0xc0000000 0xffffff00 \<longleftrightarrow> in_network 32 (unat a) (dotted 192 0 0 0 24)"
    "HasIpv4Prefix a 0xc0000200 0xffffff00 \<longleftrightarrow> in_network 32 (unat a) (dotted 192 0 2 0 24)"
    "HasIpv4Prefix a 0xc0586300 0xffffff00 \<longleftrightarrow> in_network 32 (unat a) (dotted 192 88 99 0 24)"
    "HasIpv4Prefix a 0xc0a80000 0xffff0000 \<longleftrightarrow> in_network 32 (unat a) (dotted 192 168 0 0 16)"
    "HasIpv4Prefix a 0xc6120000 0xfffe0000 \<longleftrightarrow> in_network 32 (unat a) (dotted 198 18 0 0 15)"
    "HasIpv4Prefix a 0xc6336400 0xffffff00 \<longleftrightarrow> in_network 32 (unat a) (dotted 198 51 100 0 24)"
    "HasIpv4Prefix a 0xcb007100 0xffffff00 \<longleftrightarrow> in_network 32 (unat a) (dotted 203 0 113 0 24)"
    "HasIpv4Prefix a 0xe0000000 0xf0000000 \<longleftrightarrow> in_network 32 (unat a) (dotted 224 0 0 0 4)"
    by (rule ipv4_prefixes; simp add: dotted_def)+
  show ?thesis
    unfolding IsGloballyRoutableIpv4_def nets reserved_block public_ipv4_def special_ipv4_def by auto
qed

subsection \<open>Bytes as numbers\<close>

lemma u8_less: "unat (x :: u8) < 256"
  using unsigned_less [of x] by simp

lemma big_endian:
  "unat (push_bit 24 (ucast a) OR push_bit 16 (ucast b) OR push_bit 8 (ucast c) OR ucast d :: u32) =
   ((unat a * 256 + unat b) * 256 + unat c) * 256 + unat d" for a b c d :: u8
proof -
  have u: "unat (ucast x :: u32) = unat x" for x :: u8
    using u8_less [of x] by (simp add: unsigned_ucast_eq take_bit_nat_eq_self)
  have p: "unat (push_bit n (ucast x :: u32)) = push_bit n (unat x)" if "n \<le> 24" for x :: u8 and n
  proof -
    have "(2::nat) ^ n \<le> 2 ^ 24" using that by (rule power_increasing) simp
    then have "unat x * 2 ^ n < 256 * 2 ^ 24" using u8_less [of x] by (intro mult_less_le_imp_less) auto
    then have "push_bit n (unat x) < 2 ^ 32" by (simp add: push_bit_eq_mult)
    then show ?thesis by (simp add: unsigned_push_bit_eq u take_bit_nat_eq_self)
  qed
  have c: "push_bit 8 (unat c) OR unat d = unat c * 256 + unat d"
    using or_low [of "unat d" 8 "unat c"] u8_less [of d] by simp
  have b: "push_bit 16 (unat b) OR (unat c * 256 + unat d) = unat b * 65536 + (unat c * 256 + unat d)"
    using or_low [of "unat c * 256 + unat d" 16 "unat b"] u8_less [of c] u8_less [of d] by simp
  have "push_bit 24 (unat a) OR (unat b * 65536 + (unat c * 256 + unat d)) =
      unat a * 16777216 + (unat b * 65536 + (unat c * 256 + unat d))"
    using or_low [of "unat b * 65536 + (unat c * 256 + unat d)" 24 "unat a"] u8_less [of b] u8_less [of c] u8_less [of d] by simp
  then show ?thesis by (simp only: unsigned_or_eq p u c b) simp
qed

lemma ntohl_number: "unat (ntohl bs) = ipv4_number bs"
  by (cases bs) (simp add: ntohl_def big_endian ipv4_number_def dotted_def)

lemma bytes_number_less: "bytes_number a i < 256 ^ i"
proof (induction i)
  case (Suc i)
  then have "bytes_number a i + 1 \<le> 256 ^ i" by simp
  then have "(bytes_number a i + 1) * 256 \<le> 256 ^ i * 256" by (rule mult_le_mono1)
  then show ?case using u8_less [of "a i"] by simp
qed simp

lemma bytes_number_eq: "bytes_number a i = bytes_number b i \<longleftrightarrow> (\<forall>j<i. a j = b j)"
proof (induction i)
  case (Suc i)
  have "bytes_number a (Suc i) div 256 = bytes_number a i" "bytes_number a (Suc i) mod 256 = unat (a i)" for a
    using u8_less [of "a i"] by simp_all
  then have "bytes_number a (Suc i) = bytes_number b (Suc i) \<longleftrightarrow> bytes_number a i = bytes_number b i \<and> unat (a i) = unat (b i)"
    by (metis bytes_number.simps(2))
  then show ?case using Suc by (auto simp: less_Suc_eq word_eq_iff_unsigned [symmetric])
qed simp

lemma bytes_number_div: "i \<le> n \<Longrightarrow> bytes_number a n div 2 ^ (8 * (n - i)) = bytes_number a i"
proof (induction "n - i" arbitrary: n)
  case (Suc k)
  then obtain m where n: "n = Suc m" "k = m - i" "i \<le> m" by (cases n) auto
  have "(2::nat) ^ (8 * (n - i)) = 256 * 2 ^ (8 * (m - i))" using n by (simp add: Suc_diff_le power_add)
  then have "bytes_number a n div 2 ^ (8 * (n - i)) = bytes_number a n div 256 div 2 ^ (8 * (m - i))"
    by (simp only: div_mult2_eq)
  also have "bytes_number a n div 256 = bytes_number a m" using u8_less [of "a m"] by (simp add: n(1))
  finally show ?case using Suc n by simp
qed simp

text \<open>The prefix bytes of the source, completed with zeros.\<close>

definition padded :: "u8 list \<Rightarrow> in6_addr" where
  "padded prefix i = (if i < length prefix then prefix ! i else 0)"

lemma padded_number:
  assumes "length prefix \<le> 16"
  shows "ipv6_number (padded prefix) = foldl (\<lambda>n b. n * 256 + unat b) 0 prefix * 256 ^ (16 - length prefix)"
proof -
  have upto: "bytes_number (padded prefix) i = foldl (\<lambda>n b. n * 256 + unat b) 0 (take i prefix)" if "i \<le> length prefix" for i
    using that by (induction i) (simp_all add: padded_def take_Suc_conv_app_nth)
  have "bytes_number (padded prefix) (length prefix + k) = bytes_number (padded prefix) (length prefix) * 256 ^ k" for k
    by (induction k) (simp_all add: padded_def)
  from this [of "16 - length prefix"] show ?thesis using upto [of "length prefix"] assms by (simp add: ipv6_number_def)
qed

lemma ipv6_prefix_bits:
  assumes "bits = 8 * c + r" and "r < 8" and "bits \<le> 128"
  shows "ipv6_number a div 2 ^ (128 - bits) = bytes_number a c * 2 ^ r + (if r = 0 then 0 else unat (a c) div 2 ^ (8 - r))"
proof (cases "r = 0")
  case True
  then show ?thesis using assms bytes_number_div [of c 16 a] by (simp add: ipv6_number_def right_diff_distrib')
next
  case False
  have c: "Suc c \<le> 16" using assms False by linarith
  have e: "128 - bits = 8 * (16 - Suc c) + (8 - r)" using assms(1,2) c by (simp add: diff_mult_distrib2)
  have "ipv6_number a div 2 ^ (128 - bits) = bytes_number a (Suc c) div 2 ^ (8 - r)"
    unfolding e power_add div_mult2_eq ipv6_number_def bytes_number_div [OF c] ..
  also have "\<dots> = (bytes_number a c * 2 ^ r * 2 ^ (8 - r) + unat (a c)) div 2 ^ (8 - r)"
    using assms(2) by (simp add: mult.assoc power_add [symmetric])
  also have "\<dots> = bytes_number a c * 2 ^ r + unat (a c) div 2 ^ (8 - r)" by simp
  finally show ?thesis using False by simp
qed

lemma HasIpv6Prefix_network:
  assumes "bits \<le> 128" and "bits \<le> 8 * length prefix"
  shows "HasIpv6Prefix a prefix bits \<longleftrightarrow> in_network 128 (ipv6_number a) (ipv6_number (padded prefix), bits)"
proof -
  define c r where "c = bits div 8" and "r = bits mod 8"
  have bits: "bits = 8 * c + r" "r < 8" by (simp_all add: c_def r_def)
  have div: "unat x div 2 ^ (8 - r) < 2 ^ r" for x :: u8
    using u8_less [of x] bits(2) by (simp add: less_mult_imp_div_less power_add [symmetric])
  have bytes: "bytes_number a c = bytes_number (padded prefix) c \<longleftrightarrow> list_all (\<lambda>i. a i = prefix ! i) [0..<c]"
    using assms(2) bits by (auto simp: bytes_number_eq list_all_iff padded_def)
  show ?thesis
  proof (cases "r = 0")
    case True
    then show ?thesis using ipv6_prefix_bits [OF bits assms(1)] bytes
      by (simp add: HasIpv6Prefix_def in_network_def c_def [symmetric] r_def [symmetric])
  next
    case False
    have p: "padded prefix c = prefix ! c" using assms(2) bits False by (simp add: padded_def)
    have "(0xff :: u8) = mask 8" by (simp add: mask_eq_exp_minus_1)
    moreover have "push_bit (8 - r) (mask 8) = (push_bit (8 - r) (mask r) :: u8)"
      by (rule bit_word_eqI) (use bits(2) in \<open>auto simp: bit_simps\<close>)
    ultimately have m: "a c AND push_bit (8 - r) 0xff = prefix ! c AND push_bit (8 - r) 0xff \<longleftrightarrow>
        unat (a c) div 2 ^ (8 - r) = unat (prefix ! c) div 2 ^ (8 - r)"
      using masked_eq [of "8 - r" r "a c" "prefix ! c"] bits(2) by simp
    have "x * 2 ^ r + y = x' * 2 ^ r + y' \<longleftrightarrow> x = x' \<and> y = y'" if "y < 2 ^ r" "y' < 2 ^ r" for x x' y y' :: nat
    proof
      assume e: "x * 2 ^ r + y = x' * 2 ^ r + y'"
      have "(x * 2 ^ r + y) div 2 ^ r = x" "(x' * 2 ^ r + y') div 2 ^ r = x'" using that by simp_all
      then show "x = x' \<and> y = y'" using e by simp
    qed simp
    then show ?thesis using ipv6_prefix_bits [OF bits assms(1)] bytes m div False p
      by (simp add: HasIpv6Prefix_def in_network_def c_def [symmetric] r_def [symmetric] Let_def)
  qed
qed

lemma mapped_network: "IsIpv4MappedIpv6 a \<longleftrightarrow> in_network 128 (ipv6_number a) (groups [0, 0, 0, 0, 0, 0xffff] 96)"
proof -
  let ?p = "[0, 0, 0, 0, 0, 0, 0, 0, 0, 0, 0xff, 0xff] :: u8 list"
  have "[0..<12] = [0..<10] @ [10, 11 :: nat]" by code_simp
  then have "HasIpv6Prefix a ?p 96 \<longleftrightarrow> list_all (\<lambda>i. a i = ?p ! i) ([0..<10] @ [10, 11])"
    by (simp add: HasIpv6Prefix_def)
  then have "IsIpv4MappedIpv6 a \<longleftrightarrow> HasIpv6Prefix a ?p 96"
    by (auto simp: IsIpv4MappedIpv6_def upt_rec)
  also have "\<dots> \<longleftrightarrow> in_network 128 (ipv6_number a) (ipv6_number (padded ?p), 96)"
    by (rule HasIpv6Prefix_network) simp_all
  also have "ipv6_number (padded ?p) = fst (groups [0, 0, 0, 0, 0, 0xffff] 96)"
    by (simp add: padded_number groups_def)
  finally show ?thesis by (simp add: in_network_def groups_def)
qed

lemma mapped_number: "unat (ReadMappedIpv4 a) = ipv6_number a mod 2 ^ 32"
proof -
  have "ipv6_number a = bytes_number a 12 * 2 ^ 32 + unat (ReadMappedIpv4 a)"
    using bytes_number.simps(2) [of a 12] bytes_number.simps(2) [of a 13] bytes_number.simps(2) [of a 14]
      bytes_number.simps(2) [of a 15]
    by (simp add: ReadMappedIpv4_def big_endian ipv6_number_def)
  moreover have "unat (ReadMappedIpv4 a) < 2 ^ 32" using unsigned_less [of "ReadMappedIpv4 a"] by simp
  ultimately show ?thesis by simp
qed

lemma routable_ipv6: "IsGloballyRoutableIpv6 a \<longleftrightarrow> public_ipv6 (ipv6_number a)"
proof -
  have unicast: "a 0 AND 0xe0 = 0x20 \<longleftrightarrow> in_network 128 (ipv6_number a) (groups [0x2000] 3)"
  proof -
    have e: "(8160 :: u8) = 0xe0" by code_simp
    have "HasIpv6Prefix a [0x20] 3 \<longleftrightarrow> a 0 AND 0xe0 = 0x20" by (simp add: HasIpv6Prefix_def e)
    moreover have "ipv6_number (padded [0x20]) = fst (groups [0x2000] 3)" by (simp add: padded_number groups_def)
    ultimately show ?thesis using HasIpv6Prefix_network [of 3 "[0x20]" a] by (simp add: groups_def)
  qed
  have net: "HasIpv6Prefix a p l \<longleftrightarrow> in_network 128 (ipv6_number a) (groups gs l)"
    if "l \<le> 128" "l \<le> 8 * length p" "ipv6_number (padded p) = fst (groups gs l)" for p gs l
    using HasIpv6Prefix_network [OF that(1,2), of a] that(3) by (simp add: groups_def)
  have nets:
    "HasIpv6Prefix a [0x20, 0x01, 0x00] 23 \<longleftrightarrow> in_network 128 (ipv6_number a) (groups [0x2001, 0x0000] 23)"
    "HasIpv6Prefix a [0x20, 0x01, 0x0d, 0xb8] 32 \<longleftrightarrow> in_network 128 (ipv6_number a) (groups [0x2001, 0x0db8] 32)"
    "HasIpv6Prefix a [0x20, 0x02] 16 \<longleftrightarrow> in_network 128 (ipv6_number a) (groups [0x2002] 16)"
    "HasIpv6Prefix a [0x3f, 0xff, 0x00] 20 \<longleftrightarrow> in_network 128 (ipv6_number a) (groups [0x3fff, 0x0000] 20)"
    by (rule net; simp add: padded_number groups_def)+
  text \<open>The benchmarking and ORCHID networks are part of the IETF protocol assignments.\<close>
  have sub: "HasIpv6Prefix a [0x20, 0x01, 0x00] 23"
    if "HasIpv6Prefix a [0x20, 0x01, 0x00, 0x02, 0x00, 0x00] 48 \<or> HasIpv6Prefix a [0x20, 0x01, 0x00, 0x20] 28"
    using that by (auto simp: HasIpv6Prefix_def upt_rec numeral_2_eq_2)
  have disjoint: "\<not> in_network 128 n (groups [0x2000] 3)" if "in_network 128 n (groups [0, 0, 0, 0, 0, 0xffff] 96)" for n
  proof -
    have "n div 2 ^ 32 = 0xffff" using that by (simp add: in_network_def groups_def)
    then have "n div 2 ^ 32 div 2 ^ 93 = 0" by simp
    then show ?thesis by (simp add: in_network_def groups_def div_mult2_eq [symmetric])
  qed
  show ?thesis
    unfolding IsGloballyRoutableIpv6_def public_ipv6_def special_ipv6_def list.pred_inject routable_ipv4 mapped_number
      mapped_network [symmetric] unicast [symmetric] nets [symmetric]
    using sub disjoint [of "ipv6_number a", folded mapped_network unicast] by auto
qed

text \<open>
  C34. A socket may be opened exactly to public unicast addresses: an IPv4 address outside every
  special-purpose network of the table, or an IPv6 address that is either an IPv4-mapped address of such an address or
  a global unicast address outside the special-purpose networks. Null and truncated addresses and
  other families are refused, and the port must be the nonzero port of the destination.
\<close>

theorem public_addresses_exactly:
  "IsPublicSocketAddressForPort address address_length port \<longleftrightarrow>
     port \<noteq> 0 \<and>
     ((\<exists>p ip. address = Some (Sockaddr_in p ip) \<and> 16 \<le> address_length \<and> ntohs p = port \<and> public_ipv4 (ipv4_number ip)) \<or>
      (\<exists>p ip. address = Some (Sockaddr_in6 p ip) \<and> 28 \<le> address_length \<and> ntohs p = port \<and> public_ipv6 (ipv6_number ip)))"
  by (cases address; cases "the address")
    (auto simp: IsPublicSocketAddressForPort_def IsPublicSocketAddress_def sizeof_sockaddr_in_def sizeof_sockaddr_in6_def
      routable_ipv4 routable_ipv6 ntohl_number)

end
