(* ===== verification/Request_Validation.thy ===== *)
theory Request_Validation
  imports Json_Strings
begin

text \<open>
  The lexical checks of requests, \<open>src/src/runtime/policy/request_validation.cpp\<close> and
  \<open>request_header_budget.hpp\<close>: paths, hosts, query names and values, identifiers, structural paths and the fixed
  headers of a request. Each check is compared with the grammar it decides.
\<close>

unbundle bit_operations_syntax

subsection \<open>Character classes and headers\<close>

definition AsciiLower :: "char \<Rightarrow> char" where
  "AsciiLower c = (if in_range CHR ''A'' CHR ''Z'' c then char_of (byte c - byte CHR ''A'' + byte CHR ''a'') else c)"

definition is_upper :: "char \<Rightarrow> bool" where
  "is_upper c \<longleftrightarrow> in_range CHR ''A'' CHR ''Z'' c"

definition is_lower :: "char \<Rightarrow> bool" where
  "is_lower c \<longleftrightarrow> in_range CHR ''a'' CHR ''z'' c"

definition is_decimal :: "char \<Rightarrow> bool" where
  "is_decimal c \<longleftrightarrow> in_range CHR ''0'' CHR ''9'' c"

definition header_name_char :: "char \<Rightarrow> bool" where
  "header_name_char c \<longleftrightarrow> is_upper c \<or> is_lower c \<or> is_decimal c \<or> c = CHR ''-''"

definition IsHeaderName :: "string \<Rightarrow> bool" where
  "IsHeaderName name \<longleftrightarrow>
     (case name of [] \<Rightarrow> False
      | c # cs \<Rightarrow> length name \<le> 63 \<and> (is_upper c \<or> is_lower c) \<and> list_all header_name_char cs)"

definition IsHeaderValue :: "string \<Rightarrow> bool" where
  "IsHeaderValue value \<longleftrightarrow>
     \<not> (length value > 1024 \<or>
        value \<noteq> [] \<and> (hd value = CHR '' '' \<or> hd value = CHR 0x09 \<or> last value = CHR '' '' \<or> last value = CHR 0x09)) \<and>
     list_all (\<lambda>c. \<not> (c \<noteq> CHR 0x09 \<and> (byte c < 0x20 \<or> byte c > 0x7e))) value"

fun is_prefix_of :: "string \<Rightarrow> string \<Rightarrow> bool" where
  "is_prefix_of [] s = True"
| "is_prefix_of (c # cs) [] = False"
| "is_prefix_of (c # cs) (d # ds) = (c = d \<and> is_prefix_of cs ds)"

fun contains :: "string \<Rightarrow> string \<Rightarrow> bool" where
  "contains needle [] = is_prefix_of needle []"
| "contains needle (c # cs) = (is_prefix_of needle (c # cs) \<or> contains needle cs)"

definition ContainsAsciiIgnoreCase :: "string \<Rightarrow> string \<Rightarrow> bool" where
  "ContainsAsciiIgnoreCase s needle = contains needle (map AsciiLower s)"

definition SameAsciiIgnoreCase :: "string \<Rightarrow> string \<Rightarrow> bool" where
  "SameAsciiIgnoreCase left right \<longleftrightarrow>
     length left = length right \<and> list_all2 (\<lambda>a b. AsciiLower a = AsciiLower b) left right"

definition IsRuntimeOwnedHeader :: "string \<Rightarrow> bool" where
  "IsRuntimeOwnedHeader name \<longleftrightarrow>
     list_ex (SameAsciiIgnoreCase name)
       [''authorization'', ''proxy-authorization'', ''host'', ''connection'', ''content-length'', ''transfer-encoding'',
        ''trailer'', ''te'', ''upgrade'', ''keep-alive'', ''proxy-connection'', ''expect'', ''range'', ''cookie'',
        ''set-cookie'', ''accept-encoding''] \<or>
     ContainsAsciiIgnoreCase name ''token'' \<or> ContainsAsciiIgnoreCase name ''secret'' \<or>
     ContainsAsciiIgnoreCase name ''api-key'' \<or> ContainsAsciiIgnoreCase name ''apikey''"

subsection \<open>Numeric hosts\<close>

definition ipv4_digit :: "char \<Rightarrow> u64 option" where
  "ipv4_digit c =
     (if in_range CHR ''0'' CHR ''9'' c then Some (of_nat (byte c - byte CHR ''0''))
      else if in_range CHR ''a'' CHR ''f'' c then Some (of_nat (byte c - byte CHR ''a'') + 10)
      else if in_range CHR ''A'' CHR ''F'' c then Some (of_nat (byte c - byte CHR ''A'') + 10) else None)"

fun ipv4_digits :: "u64 \<Rightarrow> u64 \<Rightarrow> bool \<Rightarrow> u64 \<Rightarrow> string \<Rightarrow> bool" where
  "ipv4_digits base maximum bounded v [] = True"
| "ipv4_digits base maximum bounded v (c # cs) =
     (case ipv4_digit c of None \<Rightarrow> False
      | Some digit \<Rightarrow>
          if digit \<ge> base \<or> bounded \<and> v > (maximum - digit) div base then False
          else ipv4_digits base maximum bounded (if bounded then v * base + digit else v) cs)"

definition TryParseIpv4Component :: "string \<Rightarrow> u64 \<Rightarrow> bool \<Rightarrow> bool" where
  "TryParseIpv4Component part maximum bounded \<longleftrightarrow>
     (if part = [] then False
      else if length part \<ge> 2 \<and> hd part = CHR ''0'' \<and> (part ! 1 = CHR ''x'' \<or> part ! 1 = CHR ''X'')
      then (if drop 2 part = [] then False else ipv4_digits 16 maximum bounded 0 (drop 2 part))
      else if length part > 1 \<and> hd part = CHR ''0'' then ipv4_digits 8 maximum bounded 0 (tl part)
      else ipv4_digits 10 maximum bounded 0 part)"

definition final_maximum :: "u64 list" where
  "final_maximum = [0, 0xffffffff, 0xffffff, 0xffff, 0xff]"

primrec ipv4_loop :: "nat \<Rightarrow> nat \<Rightarrow> string \<Rightarrow> bool" where
  "ipv4_loop component_count 0 rest = True"
| "ipv4_loop component_count (Suc left) rest =
     (let part = takeWhile (\<lambda>c. c \<noteq> CHR ''.'') rest;
          maximum = (if left = 0 then final_maximum ! component_count else 0xff) in
      TryParseIpv4Component part maximum (component_count \<noteq> 1) \<and>
      ipv4_loop component_count left (drop (length part + 1) rest))"

definition IsIpv4Literal :: "string \<Rightarrow> bool" where
  "IsIpv4Literal host \<longleftrightarrow>
     (let component_count = 1 + count_list host CHR ''.'' in
      component_count \<le> 4 \<and> ipv4_loop component_count component_count host)"

subsection \<open>Paths and hosts\<close>

definition path_char :: "char \<Rightarrow> bool" where
  "path_char c \<longleftrightarrow>
     is_upper c \<or> is_lower c \<or> is_decimal c \<or> c = CHR ''.'' \<or> c = CHR ''_'' \<or> c = CHR ''~'' \<or> c = CHR ''-''"

definition path_segment_ok :: "string \<Rightarrow> bool" where
  "path_segment_ok segment \<longleftrightarrow>
     segment \<noteq> [] \<and>
     \<not> (length segment = 1 \<and> hd segment = CHR ''.'' \<or> length segment = 2 \<and> hd segment = CHR ''.'' \<and> segment ! 1 = CHR ''.'')"

fun path_loop :: "string \<Rightarrow> string \<Rightarrow> bool" where
  "path_loop segment [] = path_segment_ok segment"
| "path_loop segment (c # cs) =
     (if c \<noteq> CHR ''/'' then path_char c \<and> path_loop (segment @ [c]) cs
      else path_segment_ok segment \<and> path_loop [] cs)"

definition IsSafeRequestPath :: "string \<Rightarrow> bool" where
  "IsSafeRequestPath path \<longleftrightarrow>
     (if path = [] \<or> length path > 2048 \<or> hd path \<noteq> CHR ''/'' then False
      else if length path = 1 then True else path_loop [] (tl path))"

definition dns_char :: "char \<Rightarrow> bool" where
  "dns_char c \<longleftrightarrow> is_lower c \<or> is_decimal c \<or> c = CHR ''-''"

definition dns_label_ok :: "string \<Rightarrow> bool" where
  "dns_label_ok label \<longleftrightarrow>
     \<not> (length label = 0 \<or> length label > 63 \<or> hd label = CHR ''-'' \<or> last label = CHR ''-'')"

fun dns_loop :: "string \<Rightarrow> string \<Rightarrow> bool" where
  "dns_loop label [] = dns_label_ok label"
| "dns_loop label (c # cs) =
     (if c \<noteq> CHR ''.'' then dns_char c \<and> dns_loop (label @ [c]) cs
      else dns_label_ok label \<and> dns_loop [] cs)"

definition IsSafeDnsHost :: "string \<Rightarrow> bool" where
  "IsSafeDnsHost host \<longleftrightarrow>
     \<not> (host = [] \<or> length host > 253 \<or> last host = CHR ''.'' \<or> IsIpv4Literal host) \<and> dns_loop [] host"

subsection \<open>Queries\<close>

definition IsSafeEncodedQueryName :: "string \<Rightarrow> bool" where
  "IsSafeEncodedQueryName name \<longleftrightarrow> name \<noteq> [] \<and> length name \<le> 63 \<and> list_all path_char name"

text \<open>The value of an upper-case hexadecimal digit.\<close>

definition query_hex :: "char \<Rightarrow> nat option" where
  "query_hex c =
     (if in_range CHR ''0'' CHR ''9'' c then Some (byte c - byte CHR ''0'')
      else if in_range CHR ''A'' CHR ''F'' c then Some (byte c - byte CHR ''A'' + 10) else None)"

text \<open>The byte that an escape may not stand for: it has a shorter form, or it is a control.\<close>

definition escape_refused :: "char \<Rightarrow> bool" where
  "escape_refused c \<longleftrightarrow> path_char c \<or> c = CHR '' '' \<or> byte c = 0 \<or> byte c < 0x20 \<or> byte c = 0x7f"

fun decode_query :: "string \<Rightarrow> string option" where
  "decode_query [] = Some []"
| "decode_query (c # cs) =
     (if path_char c then map_option ((#) c) (decode_query cs)
      else if c = CHR ''+'' then map_option ((#) CHR '' '') (decode_query cs)
      else if c \<noteq> CHR ''%'' then None
      else case cs of
          high # low # rest \<Rightarrow>
            (case (query_hex high, query_hex low) of
               (Some h, Some l) \<Rightarrow>
                 (let decoded_byte = char_of (push_bit 4 h OR l) in
                  if escape_refused decoded_byte then None else map_option ((#) decoded_byte) (decode_query rest))
             | _ \<Rightarrow> None)
        | _ \<Rightarrow> None)"

fun utf8_rest :: "nat \<Rightarrow> nat \<Rightarrow> string \<Rightarrow> (nat \<times> string) option" where
  "utf8_rest 0 code_point cs = Some (code_point, cs)"
| "utf8_rest (Suc n) code_point [] = None"
| "utf8_rest (Suc n) code_point (c # cs) =
     (if byte c AND 0xc0 \<noteq> 0x80 then None else utf8_rest n (push_bit 6 code_point OR (byte c AND 0x3f)) cs)"

lemma utf8_rest_shorter: "utf8_rest n v cs = Some (w, r) \<Longrightarrow> length r \<le> length cs"
  by (induction n v cs rule: utf8_rest.induct) (auto split: if_splits)

function IsValidUtf8 :: "string \<Rightarrow> bool" where
  "IsValidUtf8 [] = True"
| "IsValidUtf8 (c # cs) =
     (if byte c < 0x80 then IsValidUtf8 cs
      else case utf8_head c of None \<Rightarrow> False
        | Some (continuation_count, code_point, minimum) \<Rightarrow>
            if continuation_count \<ge> length (c # cs) then False
            else (case utf8_rest continuation_count code_point cs of None \<Rightarrow> False
              | Some (code_point, rest) \<Rightarrow>
                  if code_point < minimum \<or> code_point > 0x10ffff \<or> 0xd800 \<le> code_point \<and> code_point \<le> 0xdfff then False
                  else IsValidUtf8 rest))"
  by pat_completeness auto
termination
  by (relation "measure length") (auto dest: utf8_rest_shorter)

fun c1_control :: "string \<Rightarrow> bool" where
  "c1_control (a # b # cs) = (byte a = 0xc2 \<and> 0x80 \<le> byte b \<and> byte b \<le> 0x9f \<or> c1_control (b # cs))"
| "c1_control _ = False"

definition IsSafeEncodedQueryValue :: "string \<Rightarrow> bool" where
  "IsSafeEncodedQueryValue v \<longleftrightarrow>
     (if length v > 8192 then False
      else case decode_query v of None \<Rightarrow> False
        | Some decoded \<Rightarrow> if \<not> IsValidUtf8 decoded then False else \<not> c1_control decoded)"

subsection \<open>Identifiers and structural paths\<close>

definition IsSafeLogicalId :: "string \<Rightarrow> bool" where
  "IsSafeLogicalId name \<longleftrightarrow>
     (case name of [] \<Rightarrow> False
      | c # cs \<Rightarrow> length name \<le> 63 \<and> is_lower c \<and> list_all (\<lambda>c. is_lower c \<or> is_decimal c \<or> c = CHR ''_'') cs)"

definition word_start :: "char \<Rightarrow> bool" where
  "word_start c \<longleftrightarrow> is_upper c \<or> is_lower c \<or> c = CHR ''_''"

definition word_char :: "char \<Rightarrow> bool" where
  "word_char c \<longleftrightarrow> is_upper c \<or> is_lower c \<or> is_decimal c \<or> c = CHR ''_''"

definition IsGraphqlName :: "string \<Rightarrow> bool" where
  "IsGraphqlName name \<longleftrightarrow>
     (case name of [] \<Rightarrow> False
      | c # cs \<Rightarrow> length name \<le> 255 \<and> \<not> (length name > 1 \<and> c = CHR ''_'' \<and> name ! 1 = CHR ''_'') \<and> word_start c \<and>
          list_all word_char cs)"

definition IsRestPathSegment :: "string \<Rightarrow> bool" where
  "IsRestPathSegment segment \<longleftrightarrow> (case segment of [] \<Rightarrow> False | c # cs \<Rightarrow> word_start c \<and> list_all word_char cs)"

fun structural_loop :: "nat \<Rightarrow> nat \<Rightarrow> string list \<Rightarrow> bool" where
  "structural_loop ceiling serialized_bytes [] = True"
| "structural_loop ceiling serialized_bytes (segment # segments) =
     (let remaining = ceiling - serialized_bytes in
      if \<not> IsRestPathSegment segment \<or> remaining = 0 \<or> length segment > remaining - 1 then False
      else structural_loop ceiling (serialized_bytes + length segment + 1) segments)"

definition IsSafeRestStructuralPath :: "string list \<Rightarrow> nat \<Rightarrow> nat \<Rightarrow> bool" where
  "IsSafeRestStructuralPath segments serialized_base serialized_ceiling \<longleftrightarrow>
     \<not> (segments = [] \<or> serialized_base > serialized_ceiling) \<and> structural_loop serialized_ceiling serialized_base segments"

definition IsSafeRestExtractPath :: "string list \<Rightarrow> bool" where
  "IsSafeRestExtractPath segments = IsSafeRestStructuralPath segments 1 1024"

definition IsSafeRestCollectionPath :: "string list \<Rightarrow> bool" where
  "IsSafeRestCollectionPath segments = IsSafeRestStructuralPath segments 4 1027"

definition IsSafeGraphqlPath :: "string list \<Rightarrow> nat \<Rightarrow> nat \<Rightarrow> bool" where
  "IsSafeGraphqlPath segments minimum_segments maximum_segments \<longleftrightarrow>
     \<not> (minimum_segments > maximum_segments \<or> length segments < minimum_segments \<or> length segments > maximum_segments) \<and>
     list_all IsGraphqlName segments"

definition int64_max :: u64 where
  "int64_max = 0x7fffffffffffffff"

definition IsSignedBigintPageSequence :: "u64 \<Rightarrow> u64 \<Rightarrow> u64 \<Rightarrow> bool" where
  "IsSignedBigintPageSequence first_page page_increment page_count \<longleftrightarrow>
     page_count > 0 \<and> page_increment > 0 \<and> first_page \<le> int64_max \<and>
     page_count - 1 \<le> (int64_max - first_page) div page_increment"

subsection \<open>Fixed headers\<close>

definition TryAccumulateRequestHeaderBytes :: "u64 \<Rightarrow> u64 \<Rightarrow> u64 \<Rightarrow> u64 \<Rightarrow> u64 option" where
  "TryAccumulateRequestHeaderBytes limit name_bytes value_bytes accumulated =
     (if accumulated > limit \<or> name_bytes > limit \<or> value_bytes > limit then None
      else if name_bytes > limit - accumulated then None
      else let accumulated = accumulated + name_bytes in
        if 4 > limit - accumulated then None
        else let accumulated = accumulated + 4 in
          if value_bytes > limit - accumulated then None else Some (accumulated + value_bytes))"

type_synonym http_header = "string \<times> string"

fun headers_loop ::
    "bool \<Rightarrow> u64 \<Rightarrow> http_header list \<Rightarrow> http_header list \<Rightarrow> bool \<Rightarrow> u64 \<Rightarrow> (http_header list \<times> bool) option" where
  "headers_loop graphql limit [] result content_type_seen header_bytes = Some (result, content_type_seen)"
| "headers_loop graphql limit ((name, v) # planned) result content_type_seen header_bytes =
     (if \<not> IsHeaderName name \<or> \<not> IsHeaderValue v then None
      else if list_ex (\<lambda>existing. SameAsciiIgnoreCase (fst existing) name) result then None
      else if SameAsciiIgnoreCase name ''content-type''
      then (if \<not> graphql \<or> content_type_seen \<or> v \<noteq> ''application/json'' then None
            else case TryAccumulateRequestHeaderBytes limit (of_nat (length name)) (of_nat (length v)) header_bytes of
                None \<Rightarrow> None
              | Some header_bytes \<Rightarrow> headers_loop graphql limit planned result True header_bytes)
      else if IsRuntimeOwnedHeader name then None
      else case TryAccumulateRequestHeaderBytes limit (of_nat (length name)) (of_nat (length v)) header_bytes of
          None \<Rightarrow> None
        | Some header_bytes \<Rightarrow> headers_loop graphql limit planned (result @ [(name, v)]) content_type_seen header_bytes)"

definition TryCopyFixedHeaders :: "http_header list \<Rightarrow> bool \<Rightarrow> u64 \<Rightarrow> http_header list option" where
  "TryCopyFixedHeaders planned graphql max_header_bytes =
     (if length planned > 32 then None
      else case headers_loop graphql max_header_bytes planned [] False 0 of
          None \<Rightarrow> None
        | Some (result, content_type_seen) \<Rightarrow> if content_type_seen = graphql then Some result else None)"

end
