(* ===== verification/Request_Grammar.thy ===== *)
theory Request_Grammar
  imports Request_Validation
begin

text \<open>
  What the request checks accept: paths and hosts by their segments, encoded query values as the canonical encodings of
  texts, numeric hosts as \<open>inet_aton\<close> reads them, and the exact conditions under which fixed headers are copied.
\<close>

unbundle bit_operations_syntax

subsection \<open>Delimited parts\<close>

fun split_fields :: "char \<Rightarrow> string \<Rightarrow> string list" where
  "split_fields d [] = [[]]"
| "split_fields d (c # cs) = (if c = d then [] # split_fields d cs else (c # hd (split_fields d cs)) # tl (split_fields d cs))"

fun delimited :: "char \<Rightarrow> (char \<Rightarrow> bool) \<Rightarrow> (string \<Rightarrow> bool) \<Rightarrow> string \<Rightarrow> string \<Rightarrow> bool" where
  "delimited d ok part_ok part [] = part_ok part"
| "delimited d ok part_ok part (c # cs) =
     (if c \<noteq> d then ok c \<and> delimited d ok part_ok (part @ [c]) cs else part_ok part \<and> delimited d ok part_ok [] cs)"

lemma scan_loops:
  "path_loop segment s = delimited CHR ''/'' path_char path_segment_ok segment s"
  "dns_loop segment s = delimited CHR ''.'' dns_char dns_label_ok segment s"
  by (induction s arbitrary: segment) auto

lemma fields_not_Nil [simp]: "split_fields d s \<noteq> []"
  by (induction s) auto

lemma delimited_fields:
  "delimited d ok part_ok part s \<longleftrightarrow>
     part_ok (part @ hd (split_fields d s)) \<and> list_all part_ok (tl (split_fields d s)) \<and> list_all (list_all ok) (split_fields d s)"
proof (induction s arbitrary: part)
  case (Cons c cs)
  obtain p ps where f: "split_fields d cs = p # ps" by (cases "split_fields d cs") auto
  show ?case using Cons f by (auto simp: f)
qed simp

lemma delimited_all: "delimited d ok part_ok [] s \<longleftrightarrow> list_all (\<lambda>p. part_ok p \<and> list_all ok p) (split_fields d s)"
  unfolding delimited_fields by (cases "split_fields d s") (auto simp: list_all_iff)

lemma fields_length: "length (split_fields d s) = Suc (count_list s d)"
  by (induction s) auto

lemma fields_last: "s \<noteq> [] \<Longrightarrow> last s = d \<Longrightarrow> last (split_fields d s) = []"
proof (induction s)
  case (Cons c cs)
  show ?case
  proof (cases "cs = []")
    case False
    then have "d \<in> set cs" using Cons.prems by auto
    then have "count_list cs d \<noteq> 0" by (simp add: count_list_0_iff)
    then obtain p q ps where f: "split_fields d cs = p # q # ps"
      using fields_length [of d cs] by (cases "split_fields d cs" rule: remdups_adj.cases) auto
    then show ?thesis using Cons False by (auto simp: f)
  qed (use Cons in auto)
qed simp

subsection \<open>UTF-8\<close>





subsection \<open>Canonical query values\<close>















subsection \<open>Numeric hosts\<close>

text \<open>Numbers as the C notation writes them: decimal, octal after a zero, hexadecimal after \<open>0x\<close>.\<close>

definition base_value :: "nat \<Rightarrow> string \<Rightarrow> nat option" where
  "base_value b ds =
     (if ds \<noteq> [] \<and> list_all (\<lambda>c. case hex_digit c of None \<Rightarrow> False | Some d \<Rightarrow> d < b) ds
      then Some (foldl (\<lambda>n c. n * b + the (hex_digit c)) 0 ds) else None)"

definition c_number :: "string \<Rightarrow> nat option" where
  "c_number p =
     (if take 2 p \<in> {''0x'', ''0X''} then base_value 16 (drop 2 p)
      else if length p > 1 \<and> hd p = CHR ''0'' then base_value 8 (tl p) else base_value 10 p)"

text \<open>
  The texts that \<open>inet_aton\<close> reads: one to four numbers, the last one taking the bytes that are left; a single number of
  any size.
\<close>

definition inet_aton_literal :: "string \<Rightarrow> bool" where
  "inet_aton_literal host \<longleftrightarrow>
     (let ps = split_fields CHR ''.'' host in
      length ps \<le> 4 \<and> list_all (\<lambda>p. c_number p \<noteq> None) ps \<and>
      (length ps = 1 \<or>
       list_all (\<lambda>p. the (c_number p) \<le> 255) (butlast ps) \<and> the (c_number (last ps)) < 256 ^ (5 - length ps)))"

lemma ipv4_digit_hex: "ipv4_digit c = map_option of_nat (hex_digit c)"
  by (simp add: ipv4_digit_def hex_digit_def)

lemma foldl_base_ge: "n \<le> foldl (\<lambda>n c. n * b + f c) n cs" if "0 < b" for n b :: nat
proof (induction cs arbitrary: n)
  case (Cons c cs)
  have "n \<le> n * b + f c" using that by (metis le_add1 le_trans mult.commute mult_le_mono1 mult_1 less_eq_Suc_le One_nat_def)
  then show ?case using Cons [of "n * b + f c"] by simp
qed simp

lemma ipv4_digits_bounded:
  assumes b: "0 < b" "b \<le> 16" and mx: "15 \<le> unat mx" "unat mx < 2 ^ 32"
  shows "unat v \<le> unat mx \<Longrightarrow> ipv4_digits (of_nat b) mx True v cs \<longleftrightarrow>
    list_all (\<lambda>c. case hex_digit c of None \<Rightarrow> False | Some d \<Rightarrow> d < b) cs \<and>
    foldl (\<lambda>n c. n * b + the (hex_digit c)) (unat v) cs \<le> unat mx"
proof (induction cs arbitrary: v)
  case (Cons c cs)
  show ?case
  proof (cases "hex_digit c")
    case (Some d)
    have d: "d < 16" using hex_digit_bound [OF Some] .
    have ub: "unat (of_nat b :: u64) = b" "unat (of_nat d :: u64) = d" using b d by (simp_all add: unat_of_nat)
    have ge: "(of_nat d :: u64) \<ge> of_nat b \<longleftrightarrow> b \<le> d" by (simp add: word_le_nat_alt ub)
    have le: "(of_nat d :: u64) \<le> mx" using d mx(1) ub by (simp add: word_le_nat_alt)
    have "unat ((mx - of_nat d) div of_nat b) = (unat mx - d) div b" by (simp add: unat_div unat_sub [OF le] ub)
    then have gt: "v > (mx - of_nat d) div of_nat b \<longleftrightarrow> unat mx < unat v * b + d"
      using d mx(1) b(1) by (auto simp: word_less_nat_alt div_less_iff_less_mult)
    show ?thesis
    proof (cases "unat mx < unat v * b + d")
      case True
      then have "unat mx < foldl (\<lambda>n c. n * b + the (hex_digit c)) (unat v * b + d) cs"
        using foldl_base_ge [OF b(1), of "unat v * b + d" "\<lambda>c. the (hex_digit c)" cs] by linarith
      then show ?thesis using Some True gt by (simp add: ipv4_digit_hex)
    next
      case False
      then have small: "unat v * b + d < 2 ^ 64" using mx(2) by simp
      then have "unat (v * of_nat b + of_nat d) = unat v * b + d"
        by (simp add: unat_word_ariths ub)
      then show ?thesis using Cons.IH [of "v * of_nat b + of_nat d"] Some False gt ge by (simp add: ipv4_digit_hex not_le)
    qed
  qed (simp add: ipv4_digit_hex)
qed simp

lemma ipv4_digits_unbounded:
  "b \<le> 16 \<Longrightarrow> ipv4_digits (of_nat b) mx False v cs \<longleftrightarrow>
   list_all (\<lambda>c. case hex_digit c of None \<Rightarrow> False | Some d \<Rightarrow> d < b) cs"
proof (induction cs)
  case (Cons c cs)
  show ?case
  proof (cases "hex_digit c")
    case (Some d)
    then have "unat (of_nat b :: u64) = b" "unat (of_nat d :: u64) = d"
      using Cons.prems hex_digit_bound [OF Some] by (simp_all add: unat_of_nat)
    then have "(of_nat d :: u64) \<ge> of_nat b \<longleftrightarrow> b \<le> d" by (simp add: word_le_nat_alt)
    then show ?thesis using Cons Some by (simp add: ipv4_digit_hex not_le)
  qed (simp add: ipv4_digit_hex)
qed simp

lemma component_number:
  assumes "15 \<le> unat mx" and "unat mx < 2 ^ 32"
  shows "TryParseIpv4Component p mx bounded \<longleftrightarrow> c_number p \<noteq> None \<and> (bounded \<longrightarrow> the (c_number p) \<le> unat mx)"
proof -
  have part: "ds \<noteq> [] \<and> ipv4_digits (of_nat b) mx bounded 0 ds \<longleftrightarrow>
      base_value b ds \<noteq> None \<and> (bounded \<longrightarrow> the (base_value b ds) \<le> unat mx)" if "0 < b" "b \<le> 16" for b ds
    using ipv4_digits_bounded [OF that assms, of 0 ds] ipv4_digits_unbounded [OF that(2), of mx 0 ds]
    by (cases bounded) (auto simp: base_value_def)
  have hexp: "length p \<ge> 2 \<and> hd p = CHR ''0'' \<and> (p ! 1 = CHR ''x'' \<or> p ! 1 = CHR ''X'') \<longleftrightarrow> take 2 p \<in> {''0x'', ''0X''}"
    by (cases p; cases "tl p") auto
  consider (empty) "p = []" | (hex) "take 2 p \<in> {''0x'', ''0X''}" "p \<noteq> []"
    | (octal) "take 2 p \<notin> {''0x'', ''0X''}" "length p > 1 \<and> hd p = CHR ''0''" "p \<noteq> []"
    | (dec) "take 2 p \<notin> {''0x'', ''0X''}" "\<not> (length p > 1 \<and> hd p = CHR ''0'')" "p \<noteq> []" by blast
  then show ?thesis
  proof cases
    case empty
    then show ?thesis by (simp add: TryParseIpv4Component_def c_number_def base_value_def)
  next
    case hex
    then show ?thesis using part [of 16 "drop 2 p"]
      unfolding TryParseIpv4Component_def c_number_def hexp by (simp only: if_True if_False of_nat_numeral) auto
  next
    case octal
    have "tl p \<noteq> []" using octal(2) by (cases p) auto
    then show ?thesis using part [of 8 "tl p"] octal
      unfolding TryParseIpv4Component_def c_number_def hexp by (simp only: if_True if_False of_nat_numeral) auto
  next
    case dec
    then show ?thesis using part [of 10 p]
      unfolding TryParseIpv4Component_def c_number_def hexp by (simp only: if_True if_False of_nat_numeral) auto
  qed
qed

lemma fields_first:
  "split_fields d s = takeWhile (\<lambda>c. c \<noteq> d) s #
     (if d \<in> set s then split_fields d (drop (length (takeWhile (\<lambda>c. c \<noteq> d) s) + 1) s) else [])"
  by (induction s) auto

lemma ipv4_loop_fields:
  "length (split_fields CHR ''.'' rest) = Suc left \<Longrightarrow>
   ipv4_loop n (Suc left) rest \<longleftrightarrow>
     list_all (\<lambda>p. TryParseIpv4Component p 0xff (n \<noteq> 1)) (butlast (split_fields CHR ''.'' rest)) \<and>
     TryParseIpv4Component (last (split_fields CHR ''.'' rest)) (final_maximum ! n) (n \<noteq> 1)"
proof (induction left arbitrary: rest)
  case 0
  then show ?case using fields_first [of "CHR ''.''" rest] by (cases "split_fields CHR ''.'' rest") (auto simp: Let_def)
next
  case (Suc left)
  let ?part = "takeWhile (\<lambda>c. c \<noteq> CHR ''.'') rest"
  let ?tail = "split_fields CHR ''.'' (drop (length ?part + 1) rest)"
  have "CHR ''.'' \<in> set rest" using Suc.prems fields_first [of "CHR ''.''" rest] by (auto split: if_splits)
  then have f: "split_fields CHR ''.'' rest = ?part # ?tail" using fields_first [of "CHR ''.''" rest] by simp
  then have "ipv4_loop n (Suc left) (drop (length ?part + 1) rest) \<longleftrightarrow>
     list_all (\<lambda>p. TryParseIpv4Component p 0xff (n \<noteq> 1)) (butlast ?tail) \<and>
     TryParseIpv4Component (last ?tail) (final_maximum ! n) (n \<noteq> 1)"
    using Suc.IH [of "drop (length ?part + 1) rest"] Suc.prems by simp
  then show ?case unfolding f ipv4_loop.simps(2) [of n "Suc left"] Let_def by simp
qed

lemma final_maximum_values:
  assumes "n \<in> {1, 2, 3, 4}"
  shows "15 \<le> unat (final_maximum ! n)" "unat (final_maximum ! n) < 2 ^ 32" "unat (final_maximum ! n) + 1 = 256 ^ (5 - n)"
  using assms by (auto simp: final_maximum_def)

lemma IsIpv4Literal_iff: "IsIpv4Literal host \<longleftrightarrow> inet_aton_literal host"
proof -
  define ps where "ps = split_fields CHR ''.'' host"
  have len: "length ps = 1 + count_list host CHR ''.''" by (simp add: ps_def fields_length)
  have ne: "ps \<noteq> []" by (simp add: ps_def)
  show ?thesis
  proof (cases "length ps \<le> 4")
    case True
    let ?n = "length ps"
    have n: "?n \<in> {1, 2, 3, 4}" using True ne len by (auto simp: le_Suc_eq numeral_eq_Suc)
    have "IsIpv4Literal host \<longleftrightarrow> list_all (\<lambda>p. TryParseIpv4Component p 0xff (?n \<noteq> 1)) (butlast ps) \<and>
        TryParseIpv4Component (last ps) (final_maximum ! ?n) (?n \<noteq> 1)"
      using ipv4_loop_fields [of host "count_list host CHR ''.''" ?n] True len
      by (simp add: IsIpv4Literal_def ps_def)
    also have "\<dots> \<longleftrightarrow> list_all (\<lambda>p. c_number p \<noteq> None \<and> (?n \<noteq> 1 \<longrightarrow> the (c_number p) \<le> 255)) (butlast ps) \<and>
        c_number (last ps) \<noteq> None \<and> (?n \<noteq> 1 \<longrightarrow> the (c_number (last ps)) < 256 ^ (5 - ?n))"
      using final_maximum_values [OF n] by (auto simp: component_number less_Suc_eq_le)
    also have "\<dots> \<longleftrightarrow> inet_aton_literal host"
    proof -
      have "set ps = set (butlast ps) \<union> {last ps}" using ne by (metis append_butlast_last_id set_append list.set(1,2))
      then show ?thesis using True by (auto simp: inet_aton_literal_def ps_def [symmetric] list_all_iff Let_def)
    qed
    finally show ?thesis .
  next
    case False
    then show ?thesis using len by (simp add: IsIpv4Literal_def inet_aton_literal_def ps_def [symmetric] Let_def)
  qed
qed

subsection \<open>Hosts and paths\<close>

definition dns_label :: "string \<Rightarrow> bool" where
  "dns_label l \<longleftrightarrow>
     l \<noteq> [] \<and> length l \<le> 63 \<and> list_all dns_char l \<and> hd l \<noteq> CHR ''-'' \<and> last l \<noteq> CHR ''-''"

definition path_segment :: "string \<Rightarrow> bool" where
  "path_segment s \<longleftrightarrow> s \<noteq> [] \<and> list_all path_char s \<and> s \<noteq> ''.'' \<and> s \<noteq> ''..''"

lemma path_segment_ok_iff: "path_segment_ok s \<longleftrightarrow> s \<noteq> [] \<and> s \<noteq> ''.'' \<and> s \<noteq> ''..''"
  by (cases s; cases "tl s") (auto simp: path_segment_ok_def)

text \<open>
  C35. A request goes only to names and along plain paths. A host is admitted exactly when it is at most 253 bytes of
  DNS labels in lower case and is not one of the numeric forms that \<open>inet_aton\<close> reads as an
  address, so no author can write an address where a name is expected. A path is admitted exactly when it
  is the root, or at most 2048 bytes of nonempty segments of unreserved characters none of which is a dot segment.
\<close>

theorem hosts_and_paths_exactly:
  "(IsSafeDnsHost host \<longleftrightarrow>
      length host \<le> 253 \<and> list_all dns_label (split_fields CHR ''.'' host) \<and> \<not> inet_aton_literal host) \<and>
   (IsSafeRequestPath path \<longleftrightarrow>
      path = ''/'' \<or> length path \<le> 2048 \<and> (\<exists>rest. path = ''/'' @ rest \<and> list_all path_segment (split_fields CHR ''/'' rest)))"
proof
  have label: "dns_label_ok p \<and> list_all dns_char p \<longleftrightarrow> dns_label p" for p
    by (auto simp: dns_label_ok_def dns_label_def)
  have "last (split_fields CHR ''.'' host) = []" if "host = [] \<or> last host = CHR ''.''"
    using that fields_last [of host "CHR ''.''"] by (cases "host = []") auto
  then have "\<not> list_all dns_label (split_fields CHR ''.'' host)" if "host = [] \<or> last host = CHR ''.''"
    using that last_in_set [of "split_fields CHR ''.'' host"] by (auto simp: list_all_iff dns_label_def)
  then show "IsSafeDnsHost host \<longleftrightarrow>
      length host \<le> 253 \<and> list_all dns_label (split_fields CHR ''.'' host) \<and> \<not> inet_aton_literal host"
    unfolding IsSafeDnsHost_def scan_loops delimited_all label IsIpv4Literal_iff by auto
  have "path_segment_ok p \<and> list_all path_char p \<longleftrightarrow> path_segment p" for p
    by (auto simp: path_segment_ok_iff path_segment_def)
  then show "IsSafeRequestPath path \<longleftrightarrow> path = ''/'' \<or>
      length path \<le> 2048 \<and> (\<exists>rest. path = ''/'' @ rest \<and> list_all path_segment (split_fields CHR ''/'' rest))"
    unfolding IsSafeRequestPath_def scan_loops delimited_all by (cases path) auto
qed

subsection \<open>Fixed headers\<close>

definition lower_name :: "http_header \<Rightarrow> string" where
  "lower_name h = map AsciiLower (fst h)"

definition is_content_type :: "http_header \<Rightarrow> bool" where
  "is_content_type h \<longleftrightarrow> lower_name h = ''content-type''"

definition field_bytes :: "http_header \<Rightarrow> nat" where
  "field_bytes h = length (fst h) + 4 + length (snd h)"

text \<open>A header that may be copied: well formed, and not one that the runtime owns; the content type is fixed.\<close>

definition header_admissible :: "bool \<Rightarrow> http_header \<Rightarrow> bool" where
  "header_admissible graphql h \<longleftrightarrow> IsHeaderName (fst h) \<and> IsHeaderValue (snd h) \<and>
     (if is_content_type h then graphql \<and> snd h = ''application/json'' else \<not> IsRuntimeOwnedHeader (fst h))"

lemma SameAsciiIgnoreCase_iff: "SameAsciiIgnoreCase a b \<longleftrightarrow> map AsciiLower a = map AsciiLower b"
  by (auto simp: SameAsciiIgnoreCase_def list_all2_conv_all_nth list_eq_iff_nth_eq)

lemma content_type_same: "SameAsciiIgnoreCase name ''content-type'' \<longleftrightarrow> is_content_type (name, v)"
proof -
  have "map AsciiLower ''content-type'' = ''content-type''" by code_simp
  then show ?thesis by (simp add: SameAsciiIgnoreCase_iff is_content_type_def lower_name_def)
qed

lemma accumulate_bytes:
  assumes "IsHeaderName name" and "IsHeaderValue v" and "unat t \<le> unat limit"
  shows "TryAccumulateRequestHeaderBytes limit (of_nat (length name)) (of_nat (length v)) t =
    (if unat t + field_bytes (name, v) \<le> unat limit then Some (t + of_nat (field_bytes (name, v))) else None)"
proof -
  let ?n = "of_nat (length name) :: u64" and ?v = "of_nat (length v) :: u64"
  have len: "length name \<le> 63" "length v \<le> 1024"
    using assms(1,2) by (auto simp: IsHeaderName_def IsHeaderValue_def split: list.splits)
  have u: "unat ?n = length name" "unat ?v = length v" using len by (simp_all add: unat_of_nat)
  have sub: "x > limit - y \<longleftrightarrow> unat limit < unat y + unat x" if "unat y \<le> unat limit" for x y :: u64
    using that unat_sub [of y limit] by (auto simp: word_less_nat_alt word_le_nat_alt)
  have lim: "unat limit < 2 ^ 64" using unsigned_less [of limit] by simp
  have add: "unat (x + y) = unat x + unat y" if "unat x + unat y \<le> unat limit" for x y :: u64
    using that lim by (simp add: unat_word_ariths)
  have sum: "t + ?n + 4 + ?v = t + of_nat (field_bytes (name, v))" by (simp add: field_bytes_def)
  show ?thesis
  proof (cases "unat t + length name \<le> unat limit")
    case False
    then show ?thesis using sub [of t ?n] assms(3) u
      by (auto simp: TryAccumulateRequestHeaderBytes_def field_bytes_def)
  next
    case n: True
    then have t1: "unat (t + ?n) = unat t + length name" using add [of t ?n] u by simp
    show ?thesis
    proof (cases "unat t + length name + 4 \<le> unat limit")
      case False
      then show ?thesis using sub [of "t + ?n" 4] n t1
        by (auto simp: TryAccumulateRequestHeaderBytes_def field_bytes_def Let_def)
    next
      case f: True
      then have t2: "unat (t + ?n + 4) = unat t + length name + 4" using add [of "t + ?n" 4] t1 by simp
      have "unat limit < unat t + field_bytes (name, v) \<longleftrightarrow> ?v > limit - (t + ?n + 4)"
        using sub [of "t + ?n + 4" ?v] f t2 u by (simp add: field_bytes_def add.assoc)
      moreover have "\<not> t > limit" "\<not> ?n > limit - t" "\<not> 4 > limit - (t + ?n)" "\<not> ?n > limit" 
        using sub [of t ?n] sub [of "t + ?n" 4] n f t1 u assms(3) by (auto simp: word_less_nat_alt)
      moreover have "unat limit < unat t + field_bytes (name, v)" if "?v > limit"
        using that u by (simp add: word_less_nat_alt field_bytes_def)
      ultimately show ?thesis using sum unfolding TryAccumulateRequestHeaderBytes_def Let_def by auto
    qed
  qed
qed

definition headers_admissible :: "bool \<Rightarrow> nat \<Rightarrow> http_header list \<Rightarrow> bool" where
  "headers_admissible graphql limit planned \<longleftrightarrow> list_all (header_admissible graphql) planned \<and>
     distinct (map lower_name planned) \<and> sum_list (map field_bytes planned) \<le> limit"

lemma headers_loop_iff:
  "unat t \<le> unat limit \<Longrightarrow> list_all (\<lambda>h. \<not> is_content_type h) result \<Longrightarrow>
   headers_loop graphql limit planned result seen t = Some (r, s) \<longleftrightarrow>
     headers_admissible graphql (unat limit - unat t) planned \<and>
     lower_name ` set planned \<inter> lower_name ` set result = {} \<and> (seen \<longrightarrow> \<not> list_ex is_content_type planned) \<and>
     r = result @ filter (\<lambda>h. \<not> is_content_type h) planned \<and> s = (seen \<or> list_ex is_content_type planned)"
proof (induction planned arbitrary: result seen t)
  case Nil
  then show ?case by (auto simp: headers_admissible_def)
next
  case (Cons h planned)
  obtain name v where h: "h = (name, v)" by (cases h)
  have dup: "list_ex (\<lambda>e. SameAsciiIgnoreCase (fst e) name) result \<longleftrightarrow> lower_name h \<in> lower_name ` set result"
    by (simp add: list_ex_iff SameAsciiIgnoreCase_iff lower_name_def h image_iff) metis
  show ?case
  proof (cases "header_admissible graphql h \<and> lower_name h \<notin> lower_name ` set result \<and> (is_content_type h \<longrightarrow> \<not> seen) \<and>
      unat t + field_bytes h \<le> unat limit")
    case False
    then have "headers_loop graphql limit (h # planned) result seen t = None"
      using Cons.prems dup accumulate_bytes [of name v t limit] content_type_same [of name v]
      by (auto simp: h header_admissible_def)
    then show ?thesis using False Cons.prems
      by (auto simp: headers_admissible_def)
  next
    case True
    let ?t = "t + of_nat (field_bytes h)"
    have "unat limit < 2 ^ 64" using unsigned_less [of limit] by simp
    then have t: "unat ?t = unat t + field_bytes h" using True by (simp add: unat_word_ariths unat_of_nat)
    have adm: "headers_admissible graphql (unat limit - unat t) (h # planned) \<longleftrightarrow>
        headers_admissible graphql (unat limit - unat ?t) planned \<and> lower_name h \<notin> lower_name ` set planned"
      using True by (auto simp: headers_admissible_def t)
    have names: "IsHeaderName name" "IsHeaderValue v" using True by (auto simp: h header_admissible_def)
    show ?thesis
    proof (cases "is_content_type h")
      case ct: True
      have same: "lower_name h \<in> lower_name ` set planned \<longleftrightarrow> list_ex is_content_type planned"
        using ct by (force simp: is_content_type_def list_ex_iff)
      have "headers_loop graphql limit (h # planned) result seen t = headers_loop graphql limit planned result True ?t"
        using True ct names dup accumulate_bytes [OF names, of t limit] Cons.prems content_type_same [of name v]
        by (simp add: h header_admissible_def)
      then show ?thesis using Cons.IH [of ?t result True] Cons.prems True ct adm same t by auto
    next
      case ct: False
      have "headers_loop graphql limit (h # planned) result seen t = headers_loop graphql limit planned (result @ [h]) seen ?t"
        using True ct names dup accumulate_bytes [OF names, of t limit] Cons.prems content_type_same [of name v]
        by (simp add: h header_admissible_def)
      then show ?thesis using Cons.IH [of ?t "result @ [h]" seen] Cons.prems True ct adm t by auto
    qed
  qed
qed

text \<open>
  The fixed headers of a request are copied exactly when there are at most 32 of them, with distinct names up to
  case, well-formed names and values, none of them a field that the runtime owns or that could carry a credential, their field
  lines within the byte budget, and the content type declared as \<open>application/json\<close> exactly for GraphQL; the copy is the
  declared list without the content type.
\<close>

lemma fixed_headers_exactly:
  "TryCopyFixedHeaders planned graphql limit = Some result \<longleftrightarrow>
     length planned \<le> 32 \<and> headers_admissible graphql (unat limit) planned \<and>
     (list_ex is_content_type planned \<longleftrightarrow> graphql) \<and> result = filter (\<lambda>h. \<not> is_content_type h) planned"
proof -
  have "TryCopyFixedHeaders planned graphql limit = Some result \<longleftrightarrow>
      length planned \<le> 32 \<and> headers_loop graphql limit planned [] False 0 = Some (result, graphql)"
    by (cases "headers_loop graphql limit planned [] False 0") (auto simp: TryCopyFixedHeaders_def split: prod.split)
  then show ?thesis using headers_loop_iff [of 0 limit "[]" graphql planned False result graphql] by (simp, blast)
qed

subsection \<open>Page sequences\<close>

lemma page_sequence_fits:
  "IsSignedBigintPageSequence first inc count \<longleftrightarrow>
     0 < unat count \<and> 0 < unat inc \<and> unat first + (unat count - 1) * unat inc < 2 ^ 63"
proof (cases "0 < count \<and> 0 < inc \<and> first \<le> int64_max")
  case True
  have m: "unat int64_max = 2 ^ 63 - 1" by (simp add: int64_max_def)
  have pos: "0 < unat inc" "0 < unat count" "unat first \<le> 2 ^ 63 - 1"
    using True m by (auto simp: word_less_nat_alt word_le_nat_alt)
  have "unat (count - 1) = unat count - 1" using pos(2) by (simp add: unat_sub word_le_nat_alt Suc_leI)
  moreover have "unat ((int64_max - first) div inc) = (2 ^ 63 - 1 - unat first) div unat inc"
    using True m by (simp add: unat_div unat_sub)
  ultimately have "count - 1 \<le> (int64_max - first) div inc \<longleftrightarrow> (unat count - 1) * unat inc \<le> 2 ^ 63 - 1 - unat first"
    using pos(1) by (simp add: word_le_nat_alt less_eq_div_iff_mult_less_eq)
  then show ?thesis using True pos by (auto simp: IsSignedBigintPageSequence_def)
next
  case False
  have m: "unat int64_max = 2 ^ 63 - 1" by (simp add: int64_max_def)
  have "first \<le> int64_max" if "unat first + (unat count - 1) * unat inc < 2 ^ 63"
    using that m by (simp add: word_le_nat_alt)
  moreover have "0 < x \<longleftrightarrow> 0 < unat x" for x :: u64 by (simp add: word_less_nat_alt)
  ultimately show ?thesis unfolding IsSignedBigintPageSequence_def using False by blast
qed

end
