(* ===== verification/Typed_Values.thy ===== *)
theory Typed_Values
  imports Prelude
begin

unbundle bit_operations_syntax

text \<open>
  The typed values and batches the runtime hands to the query layer, of \<open>src/src/runtime/api/execution_error.cpp\<close> and
  \<open>src/src/include/duckdb_api/execution.hpp\<close>: the constructors of \<open>TypedScalarValue\<close> and \<open>TypedValue\<close>, and
  \<open>IsSchemaAligned\<close>, which a batch passes before it is handed over. A \<open>double\<close> is the bit pattern of an IEEE-754
  binary64 number; a cancellation control answers its polls in order.

  A batch is aligned exactly when every one of its values is the result of a constructor for the type of its column.
\<close>

type_synonym double = u64

definition double_zero :: "double \<Rightarrow> bool" where
  "double_zero d \<longleftrightarrow> d AND 0x7fffffffffffffff = 0"

definition signbit :: "double \<Rightarrow> bool" where
  "signbit d \<longleftrightarrow> bit d 63"

definition isfinite :: "double \<Rightarrow> bool" where
  "isfinite d \<longleftrightarrow> drop_bit 52 d AND 0x7ff \<noteq> 0x7ff"

definition normal_zero :: "double \<Rightarrow> double" where
  "normal_zero d = (if double_zero d then 0 else d)"

datatype ValueKind = Kind_BIGINT | Kind_VARCHAR | Kind_BOOLEAN | Kind_DOUBLE

datatype ValueShape = Shape_SCALAR | Shape_ARRAY

record OutputValueType =
  ot_shape :: ValueShape
  ot_element_kind :: ValueKind
  ot_element_nullable :: bool

definition OutputValueType_Scalar :: "ValueKind \<Rightarrow> OutputValueType" where
  "OutputValueType_Scalar k = \<lparr>ot_shape = Shape_SCALAR, ot_element_kind = k, ot_element_nullable = False\<rparr>"

definition OutputValueType_Array :: "ValueKind \<Rightarrow> bool \<Rightarrow> OutputValueType" where
  "OutputValueType_Array k nullable = \<lparr>ot_shape = Shape_ARRAY, ot_element_kind = k, ot_element_nullable = nullable\<rparr>"

record TypedScalarValue =
  ts_kind :: ValueKind
  ts_valid :: bool
  ts_bigint_value :: int
  ts_varchar_value :: string
  ts_boolean_value :: bool
  ts_double_value :: double

definition Scalar :: "ValueKind \<Rightarrow> bool \<Rightarrow> int \<Rightarrow> string \<Rightarrow> bool \<Rightarrow> double \<Rightarrow> TypedScalarValue" where
  "Scalar k v b s t d = \<lparr>ts_kind = k, ts_valid = v, ts_bigint_value = b, ts_varchar_value = s,
     ts_boolean_value = t, ts_double_value = normal_zero d\<rparr>"

definition Scalar_BigInt :: "int \<Rightarrow> TypedScalarValue" where
  "Scalar_BigInt x = Scalar Kind_BIGINT True x [] False 0"

definition Scalar_Varchar :: "string \<Rightarrow> TypedScalarValue" where
  "Scalar_Varchar x = Scalar Kind_VARCHAR True 0 x False 0"

definition Scalar_Boolean :: "bool \<Rightarrow> TypedScalarValue" where
  "Scalar_Boolean x = Scalar Kind_BOOLEAN True 0 [] x 0"

definition Scalar_Double :: "double \<Rightarrow> TypedScalarValue" where
  "Scalar_Double x = Scalar Kind_DOUBLE True 0 [] False x"

definition Scalar_Null :: "ValueKind \<Rightarrow> TypedScalarValue" where
  "Scalar_Null k = Scalar k False 0 [] False 0"

record TypedValue =
  tv_kind :: ValueKind
  tv_shape :: ValueShape
  tv_element_nullable :: bool
  tv_valid :: bool
  tv_bigint_value :: int
  tv_varchar_value :: string
  tv_boolean_value :: bool
  tv_double_value :: double
  tv_elements :: "TypedScalarValue list"

definition default_value :: TypedValue where
  "default_value = \<lparr>tv_kind = Kind_VARCHAR, tv_shape = Shape_SCALAR, tv_element_nullable = False, tv_valid = False,
     tv_bigint_value = 0, tv_varchar_value = [], tv_boolean_value = False, tv_double_value = 0, tv_elements = []\<rparr>"

definition Value_BigInt :: "int \<Rightarrow> TypedValue" where
  "Value_BigInt x =
     default_value\<lparr>tv_kind := Kind_BIGINT, tv_valid := True, tv_bigint_value := x, tv_boolean_value := False\<rparr>"

definition Value_Varchar :: "string \<Rightarrow> TypedValue" where
  "Value_Varchar x = default_value\<lparr>tv_kind := Kind_VARCHAR, tv_valid := True, tv_bigint_value := 0,
     tv_varchar_value := x, tv_boolean_value := False\<rparr>"

definition Value_Boolean :: "bool \<Rightarrow> TypedValue" where
  "Value_Boolean x =
     default_value\<lparr>tv_kind := Kind_BOOLEAN, tv_valid := True, tv_bigint_value := 0, tv_boolean_value := x\<rparr>"

definition Value_Double :: "double \<Rightarrow> TypedValue" where
  "Value_Double x = default_value\<lparr>tv_kind := Kind_DOUBLE, tv_valid := True, tv_bigint_value := 0,
     tv_boolean_value := False, tv_double_value := normal_zero x\<rparr>"

definition Value_NullKind :: "ValueKind \<Rightarrow> TypedValue" where
  "Value_NullKind k =
     default_value\<lparr>tv_kind := k, tv_valid := False, tv_bigint_value := 0, tv_boolean_value := False\<rparr>"

definition Value_Null :: "OutputValueType \<Rightarrow> TypedValue" where
  "Value_Null t = default_value\<lparr>tv_kind := ot_element_kind t, tv_shape := ot_shape t,
     tv_element_nullable := ot_element_nullable t, tv_valid := False\<rparr>"

definition Value_Array :: "ValueKind \<Rightarrow> bool \<Rightarrow> TypedScalarValue list \<Rightarrow> TypedValue" where
  "Value_Array k nullable es = default_value\<lparr>tv_kind := k, tv_shape := Shape_ARRAY,
     tv_element_nullable := nullable, tv_valid := True, tv_elements := es\<rparr>"

definition Type :: "TypedValue \<Rightarrow> OutputValueType" where
  "Type v = \<lparr>ot_shape = tv_shape v, ot_element_kind = tv_kind v, ot_element_nullable = tv_element_nullable v\<rparr>"

record TypedBatch =
  tb_column_types :: "OutputValueType list"
  tb_rows :: "TypedValue list list"

definition ClearBatch :: "TypedBatch \<Rightarrow> TypedBatch" where
  "ClearBatch b = b\<lparr>tb_column_types := [], tb_rows := []\<rparr>"

subsection \<open>Alignment\<close>

definition ScalarPayloadAligned :: "ValueKind \<Rightarrow> bool \<Rightarrow> int \<Rightarrow> string \<Rightarrow> bool \<Rightarrow> double \<Rightarrow> bool" where
  "ScalarPayloadAligned k valid b s t d =
     (let canonical_zero = (\<not> double_zero d \<or> \<not> signbit d) in
      if \<not> valid then b = 0 \<and> s = [] \<and> \<not> t \<and> double_zero d \<and> canonical_zero
      else case k of
        Kind_BIGINT \<Rightarrow> s = [] \<and> \<not> t \<and> double_zero d \<and> canonical_zero
      | Kind_VARCHAR \<Rightarrow> b = 0 \<and> \<not> t \<and> double_zero d \<and> canonical_zero
      | Kind_BOOLEAN \<Rightarrow> b = 0 \<and> s = [] \<and> double_zero d \<and> canonical_zero
      | Kind_DOUBLE \<Rightarrow> b = 0 \<and> s = [] \<and> \<not> t \<and> isfinite d \<and> canonical_zero)"

text \<open>
  A control is absent or answers its polls in order. The result is \<^term>\<open>None\<close> where
  \<open>CheckAlignmentCancellation\<close> throws, with the number of polls made.
\<close>

type_synonym poll_control = "(nat \<Rightarrow> bool) option"

definition CheckAlignmentCancellation :: "poll_control \<Rightarrow> nat \<Rightarrow> bool" where
  "CheckAlignmentCancellation control n = (case control of None \<Rightarrow> False | Some answers \<Rightarrow> answers n)"

definition then_aligned :: "bool option \<times> nat \<Rightarrow> (nat \<Rightarrow> bool option \<times> nat) \<Rightarrow> bool option \<times> nat" where
  "then_aligned r k = (case r of (Some True, n) \<Rightarrow> k n | _ \<Rightarrow> r)"

fun aligned_types :: "poll_control \<Rightarrow> OutputValueType list \<Rightarrow> nat \<Rightarrow> bool option \<times> nat" where
  "aligned_types control [] n = (Some True, n)"
| "aligned_types control (t # ts) n =
     (if CheckAlignmentCancellation control n then (None, Suc n)
      else if ot_shape t = Shape_SCALAR \<and> ot_element_nullable t then (Some False, Suc n)
      else if ot_shape t \<noteq> Shape_SCALAR \<and> ot_shape t \<noteq> Shape_ARRAY then (Some False, Suc n)
      else aligned_types control ts (Suc n))"

fun aligned_elements :: "poll_control \<Rightarrow> OutputValueType \<Rightarrow> TypedScalarValue list \<Rightarrow> nat \<Rightarrow> bool option \<times> nat" where
  "aligned_elements control t [] n = (Some True, n)"
| "aligned_elements control t (e # es) n =
     (if CheckAlignmentCancellation control n then (None, Suc n)
      else if ts_kind e \<noteq> ot_element_kind t \<or> (\<not> ts_valid e \<and> \<not> ot_element_nullable t) \<or>
              \<not> ScalarPayloadAligned (ts_kind e) (ts_valid e) (ts_bigint_value e) (ts_varchar_value e)
                  (ts_boolean_value e) (ts_double_value e) then (Some False, Suc n)
      else aligned_elements control t es (Suc n))"

definition aligned_value :: "poll_control \<Rightarrow> OutputValueType \<Rightarrow> TypedValue \<Rightarrow> nat \<Rightarrow> bool option \<times> nat" where
  "aligned_value control t v n =
     (if CheckAlignmentCancellation control n then (None, Suc n)
      else if Type v \<noteq> t then (Some False, Suc n)
      else if ot_shape t = Shape_SCALAR then
        (Some (tv_elements v = [] \<and> ScalarPayloadAligned (tv_kind v) (tv_valid v) (tv_bigint_value v)
                 (tv_varchar_value v) (tv_boolean_value v) (tv_double_value v)), Suc n)
      else if tv_bigint_value v \<noteq> 0 \<or> tv_varchar_value v \<noteq> [] \<or> tv_boolean_value v \<or>
              \<not> double_zero (tv_double_value v) \<or> signbit (tv_double_value v) \<or>
              (\<not> tv_valid v \<and> tv_elements v \<noteq> []) then (Some False, Suc n)
      else aligned_elements control t (tv_elements v) (Suc n))"

fun aligned_columns :: "poll_control \<Rightarrow> OutputValueType list \<Rightarrow> TypedValue list \<Rightarrow> nat \<Rightarrow> bool option \<times> nat" where
  "aligned_columns control (t # ts) (v # vs) n =
     then_aligned (aligned_value control t v n) (aligned_columns control ts vs)"
| "aligned_columns control ts vs n = (Some True, n)"

fun aligned_rows :: "poll_control \<Rightarrow> OutputValueType list \<Rightarrow> TypedValue list list \<Rightarrow> nat \<Rightarrow> bool option \<times> nat" where
  "aligned_rows control ts [] n = (Some True, n)"
| "aligned_rows control ts (vs # rest) n =
     (if CheckAlignmentCancellation control n then (None, Suc n)
      else if length vs \<noteq> length ts then (Some False, Suc n)
      else then_aligned (aligned_columns control ts vs (Suc n)) (aligned_rows control ts rest))"

definition aligned_batch :: "TypedBatch \<Rightarrow> poll_control \<Rightarrow> bool option \<times> nat" where
  "aligned_batch batch control =
     then_aligned (aligned_types control (tb_column_types batch) 0)
       (aligned_rows control (tb_column_types batch) (tb_rows batch))"

definition IsSchemaAligned :: "TypedBatch \<Rightarrow> bool" where
  "IsSchemaAligned batch = (case fst (aligned_batch batch None) of None \<Rightarrow> False | Some b \<Rightarrow> b)"

definition IsSchemaAlignedControlled :: "TypedBatch \<Rightarrow> (nat \<Rightarrow> bool) \<Rightarrow> bool option" where
  "IsSchemaAlignedControlled batch answers = fst (aligned_batch batch (Some answers))"

subsection \<open>What the constructors build\<close>

definition built_scalar :: "ValueKind \<Rightarrow> TypedScalarValue \<Rightarrow> bool" where
  "built_scalar k e \<longleftrightarrow>
     (case k of
        Kind_BIGINT \<Rightarrow> \<exists>b. e = Scalar_BigInt b
      | Kind_VARCHAR \<Rightarrow> \<exists>s. e = Scalar_Varchar s
      | Kind_BOOLEAN \<Rightarrow> \<exists>t. e = Scalar_Boolean t
      | Kind_DOUBLE \<Rightarrow> \<exists>d. isfinite d \<and> e = Scalar_Double d)"

definition built_element :: "OutputValueType \<Rightarrow> TypedScalarValue \<Rightarrow> bool" where
  "built_element t e \<longleftrightarrow>
     built_scalar (ot_element_kind t) e \<or> ot_element_nullable t \<and> e = Scalar_Null (ot_element_kind t)"

definition built_value :: "OutputValueType \<Rightarrow> TypedValue \<Rightarrow> bool" where
  "built_value t v \<longleftrightarrow>
     v = Value_Null t \<or>
     (case ot_shape t of
        Shape_SCALAR \<Rightarrow>
          (case ot_element_kind t of
             Kind_BIGINT \<Rightarrow> \<exists>b. v = Value_BigInt b
           | Kind_VARCHAR \<Rightarrow> \<exists>s. v = Value_Varchar s
           | Kind_BOOLEAN \<Rightarrow> \<exists>b. v = Value_Boolean b
           | Kind_DOUBLE \<Rightarrow> \<exists>d. isfinite d \<and> v = Value_Double d)
      | Shape_ARRAY \<Rightarrow>
          \<exists>es. v = Value_Array (ot_element_kind t) (ot_element_nullable t) es \<and> list_all (built_element t) es)"

definition well_formed_type :: "OutputValueType \<Rightarrow> bool" where
  "well_formed_type t \<longleftrightarrow> \<not> (ot_shape t = Shape_SCALAR \<and> ot_element_nullable t)"

lemma double_positive_zero: "double_zero d \<and> \<not> signbit d \<longleftrightarrow> d = 0"
proof -
  have mask: "(0x7fffffffffffffff :: u64) = mask 63" by (simp add: mask_eq_exp_minus_1)
  have "d = 0" if "take_bit 63 d = 0" "\<not> bit d 63"
  proof (rule bit_word_eqI)
    fix n
    assume "n < LENGTH(64)"
    then have "n < 63 \<or> n = 63" by auto
    then show "bit d n = bit 0 n"
      using that by (metis bit_0_eq bit_take_bit_iff bot_apply bot_bool_def)
  qed
  then show ?thesis by (auto simp: double_zero_def signbit_def mask take_bit_eq_mask [symmetric])
qed

lemma canonical_double:
  "double_zero 0" "\<not> signbit 0" "isfinite 0" "normal_zero 0 = 0"
  "double_zero d \<Longrightarrow> \<not> signbit d \<Longrightarrow> d = 0"
  using double_positive_zero [of 0] double_positive_zero [of d] by (simp_all add: isfinite_def normal_zero_def)

lemmas scalar_constructors = Scalar_BigInt_def Scalar_Varchar_def Scalar_Boolean_def Scalar_Double_def
  Scalar_Null_def Scalar_def

lemmas value_constructors = Value_BigInt_def Value_Varchar_def Value_Boolean_def Value_Double_def Value_Null_def
  Value_Array_def default_value_def

lemma payload_zero:
  "ScalarPayloadAligned k False b s t d \<longleftrightarrow> b = 0 \<and> s = [] \<and> \<not> t \<and> d = 0"
  "ScalarPayloadAligned Kind_BIGINT True b s t d \<longleftrightarrow> s = [] \<and> \<not> t \<and> d = 0"
  "ScalarPayloadAligned Kind_VARCHAR True b s t d \<longleftrightarrow> b = 0 \<and> \<not> t \<and> d = 0"
  "ScalarPayloadAligned Kind_BOOLEAN True b s t d \<longleftrightarrow> b = 0 \<and> s = [] \<and> d = 0"
  "ScalarPayloadAligned Kind_DOUBLE True b s t d \<longleftrightarrow>
     b = 0 \<and> s = [] \<and> \<not> t \<and> (\<exists>x. isfinite x \<and> d = normal_zero x)"
  using double_positive_zero [of d] canonical_double(1-3)
  by (auto simp: ScalarPayloadAligned_def Let_def normal_zero_def)

lemma element_aligned:
  "ts_kind e = ot_element_kind t \<and> (ts_valid e \<or> ot_element_nullable t) \<and>
   ScalarPayloadAligned (ts_kind e) (ts_valid e) (ts_bigint_value e) (ts_varchar_value e) (ts_boolean_value e)
     (ts_double_value e) \<longleftrightarrow> built_element t e"
  by (cases e; cases "ts_valid e"; cases "ot_element_kind t")
    (auto simp: built_element_def built_scalar_def scalar_constructors payload_zero canonical_double)

lemma elements_aligned:
  "aligned_elements None t es n =
     (Some (list_all (built_element t) es), n + length (takeWhile (built_element t) es)
        + (if list_all (built_element t) es then 0 else 1))"
proof (induction es arbitrary: n)
  case (Cons e es)
  show ?case
    using Cons element_aligned [of e t] by (auto simp: CheckAlignmentCancellation_def)
qed simp

lemma scalar_aligned:
  assumes "ot_shape t = Shape_SCALAR" and "well_formed_type t"
  shows "Type v = t \<and> tv_elements v = [] \<and> ScalarPayloadAligned (tv_kind v) (tv_valid v) (tv_bigint_value v)
           (tv_varchar_value v) (tv_boolean_value v) (tv_double_value v) \<longleftrightarrow> built_value t v"
  using assms
  by (cases v; cases t; cases "tv_valid v"; cases "ot_element_kind t")
    (auto simp: built_value_def value_constructors payload_zero Type_def well_formed_type_def)

lemma array_aligned:
  assumes "ot_shape t = Shape_ARRAY"
  shows "Type v = t \<and> tv_bigint_value v = 0 \<and> tv_varchar_value v = [] \<and> \<not> tv_boolean_value v \<and>
         double_zero (tv_double_value v) \<and> \<not> signbit (tv_double_value v) \<and> (tv_valid v \<or> tv_elements v = []) \<and>
         list_all (built_element t) (tv_elements v) \<longleftrightarrow> built_value t v"
  using assms double_positive_zero [of "tv_double_value v"]
  by (cases v; cases t; cases "tv_valid v") (auto simp: built_value_def value_constructors Type_def canonical_double)

lemma value_aligned:
  assumes "well_formed_type t"
  shows "fst (aligned_value None t v n) = Some (built_value t v)"
proof (cases "ot_shape t")
  case Shape_SCALAR
  then show ?thesis
    using scalar_aligned [OF Shape_SCALAR assms, of v] by (auto simp: aligned_value_def CheckAlignmentCancellation_def)
next
  case Shape_ARRAY
  then show ?thesis
    using array_aligned [OF Shape_ARRAY, of v]
    by (auto simp: aligned_value_def CheckAlignmentCancellation_def elements_aligned)
qed

lemma fst_then_aligned:
  "fst (then_aligned r k) = (if fst r = Some True then fst (k (snd r)) else fst r)"
  by (simp add: then_aligned_def split: prod.splits option.splits bool.splits)

lemma columns_aligned:
  assumes "list_all well_formed_type ts" and "length vs = length ts"
  shows "fst (aligned_columns None ts vs n) = Some (list_all2 built_value ts vs)"
  using assms
proof (induction ts arbitrary: vs n)
  case (Cons t ts)
  obtain v vs' where "vs = v # vs'" using Cons.prems(2) by (cases vs) auto
  then show ?case using Cons by (simp add: fst_then_aligned value_aligned)
qed (cases; simp)

lemma rows_aligned:
  assumes "list_all well_formed_type ts"
  shows "fst (aligned_rows None ts rows n) = Some (list_all (list_all2 built_value ts) rows)"
proof (induction rows arbitrary: n)
  case (Cons vs rows)
  show ?case
    using Cons assms
    by (auto simp: CheckAlignmentCancellation_def fst_then_aligned columns_aligned dest: list_all2_lengthD)
qed simp

lemma types_aligned: "fst (aligned_types None ts n) = Some (list_all well_formed_type ts)"
proof (induction ts arbitrary: n)
  case (Cons t ts)
  then show ?case by (cases "ot_shape t") (auto simp: CheckAlignmentCancellation_def well_formed_type_def)
qed simp

text \<open>
  C37. A batch passes the alignment check exactly when no scalar column is declared with nullable elements and
  every row holds one value per column, each of them a null of the column's type or the result of the constructor
  for that type: a scalar of the column's kind (a finite one for doubles), or an array of such elements, with null
  elements only where the column allows them. In particular every aligned value is in the one canonical form,
  with zero payloads for the kinds it does not have and no negative zero.
\<close>

theorem aligned_batches_are_built:
  "IsSchemaAligned batch \<longleftrightarrow>
     list_all well_formed_type (tb_column_types batch) \<and>
     list_all (list_all2 built_value (tb_column_types batch)) (tb_rows batch)"
  by (simp add: IsSchemaAligned_def aligned_batch_def fst_then_aligned types_aligned rows_aligned)

subsection \<open>Alignment under a control\<close>

text \<open>Two runs agree until the control first answers yes.\<close>

definition same_or_cancelled :: "(nat \<Rightarrow> bool) \<Rightarrow> nat \<Rightarrow> bool option \<times> nat \<Rightarrow> bool option \<times> nat \<Rightarrow> bool" where
  "same_or_cancelled answers n r s \<longleftrightarrow>
     n \<le> snd s \<and> (r = s \<and> (\<forall>i. n \<le> i \<and> i < snd s \<longrightarrow> \<not> answers i) \<or>
                     fst r = None \<and> (\<exists>i. n \<le> i \<and> i < snd s \<and> answers i))"

lemma same_or_cancelled_done: "same_or_cancelled answers n (x, n) (x, n)"
  by (auto simp: same_or_cancelled_def)

lemma same_or_cancelled_poll:
  assumes "\<not> answers n \<Longrightarrow> same_or_cancelled answers (Suc n) r s" and "Suc n \<le> snd s"
  shows "same_or_cancelled answers n (if answers n then (None, Suc n) else r) s"
proof (cases "answers n")
  case True
  then show ?thesis using assms(2) by (auto simp: same_or_cancelled_def)
next
  case False
  have "\<not> answers i" if "\<forall>i. Suc n \<le> i \<and> i < k \<longrightarrow> \<not> answers i" "n \<le> i" "i < k" for i k
    using that False by (metis Suc_leI order_le_less)
  then show ?thesis using False assms by (auto simp: same_or_cancelled_def dest: Suc_leD)
qed

lemma same_or_cancelled_then:
  assumes "same_or_cancelled answers n r s"
    and "\<And>m. m = snd s \<Longrightarrow> same_or_cancelled answers m (k m) (l m)"
  shows "same_or_cancelled answers n (then_aligned r k) (then_aligned s l)"
proof (cases "fst s = Some True")
  case True
  then have s: "then_aligned s l = l (snd s)" by (cases s) (auto simp: then_aligned_def)
  have k: "same_or_cancelled answers (snd s) (k (snd s)) (l (snd s))" using assms(2) by simp
  consider "r = s" "\<forall>i. n \<le> i \<and> i < snd s \<longrightarrow> \<not> answers i" | "fst r = None" "\<exists>i. n \<le> i \<and> i < snd s \<and> answers i"
    using assms(1) by (auto simp: same_or_cancelled_def)
  then show ?thesis
  proof cases
    case 1
    then have "then_aligned r k = k (snd s)" using True by (cases s) (auto simp: then_aligned_def)
    moreover have "\<not> answers i" if "\<forall>i. snd s \<le> i \<and> i < m \<longrightarrow> \<not> answers i" "n \<le> i" "i < m" for i m
      using that 1(2) by (metis not_le_imp_less)
    ultimately show ?thesis using s k assms(1) by (auto simp: same_or_cancelled_def intro: le_trans)
  next
    case 2
    then have "fst (then_aligned r k) = None" by (simp add: fst_then_aligned)
    then show ?thesis using s k assms(1) 2(2) by (fastforce simp: same_or_cancelled_def)
  qed
next
  case False
  then have "then_aligned s l = s" by (cases s) (auto simp: then_aligned_def split: option.splits bool.splits)
  moreover have "then_aligned r k = r" if "r = s \<or> fst r = None"
    using that False by (auto simp: then_aligned_def split: prod.splits option.splits bool.splits)
  ultimately show ?thesis using assms(1) by (auto simp: same_or_cancelled_def)
qed

lemma polled_after:
  "n \<le> snd (aligned_types None ts n)"
  "n \<le> snd (aligned_elements None t es n)"
  "Suc n \<le> snd (aligned_value None t v n)"
proof -
  show "n \<le> snd (aligned_types None ts n)"
    by (induction ts arbitrary: n) (auto simp: CheckAlignmentCancellation_def dest: Suc_leD)
  show "n \<le> snd (aligned_elements None t es n)" by (simp add: elements_aligned)
  show "Suc n \<le> snd (aligned_value None t v n)"
    by (auto simp: aligned_value_def CheckAlignmentCancellation_def elements_aligned)
qed

lemma types_controlled: "same_or_cancelled answers n (aligned_types (Some answers) ts n) (aligned_types None ts n)"
proof (induction ts arbitrary: n)
  case (Cons t ts)
  have "\<not> answers n \<Longrightarrow> same_or_cancelled answers (Suc n)
      (if ot_shape t = Shape_SCALAR \<and> ot_element_nullable t then (Some False, Suc n)
       else if ot_shape t \<noteq> Shape_SCALAR \<and> ot_shape t \<noteq> Shape_ARRAY then (Some False, Suc n)
       else aligned_types (Some answers) ts (Suc n)) (aligned_types None (t # ts) n)"
    using Cons [of "Suc n"] by (simp add: same_or_cancelled_done CheckAlignmentCancellation_def)
  from same_or_cancelled_poll [OF this] show ?case
    using polled_after(1) [of "Suc n" ts] by (simp add: CheckAlignmentCancellation_def)
qed (simp add: same_or_cancelled_done)

lemma elements_controlled:
  "same_or_cancelled answers n (aligned_elements (Some answers) t es n) (aligned_elements None t es n)"
proof (induction es arbitrary: n)
  case (Cons e es)
  define bad where "bad \<longleftrightarrow> ts_kind e \<noteq> ot_element_kind t \<or> (\<not> ts_valid e \<and> \<not> ot_element_nullable t) \<or>
              \<not> ScalarPayloadAligned (ts_kind e) (ts_valid e) (ts_bigint_value e) (ts_varchar_value e)
                  (ts_boolean_value e) (ts_double_value e)"
  have step: "aligned_elements c t (e # es) n =
      (if CheckAlignmentCancellation c n then (None, Suc n)
       else if bad then (Some False, Suc n) else aligned_elements c t es (Suc n))" for c
    by (simp add: bad_def)
  have "same_or_cancelled answers (Suc n) (if bad then (Some False, Suc n) else aligned_elements (Some answers) t es (Suc n))
      (aligned_elements None t (e # es) n)"
    using Cons [of "Suc n"] unfolding step by (simp add: same_or_cancelled_done CheckAlignmentCancellation_def)
  from same_or_cancelled_poll [of answers n, OF this] show ?case
    using polled_after(2) [of "Suc n" t es] unfolding step by (simp add: CheckAlignmentCancellation_def)
qed (simp add: same_or_cancelled_done)

lemma value_controlled:
  "same_or_cancelled answers n (aligned_value (Some answers) t v n) (aligned_value None t v n)"
proof -
  define after where "after c =
      (if Type v \<noteq> t then (Some False, Suc n)
      else if ot_shape t = Shape_SCALAR then
        (Some (tv_elements v = [] \<and> ScalarPayloadAligned (tv_kind v) (tv_valid v) (tv_bigint_value v)
                 (tv_varchar_value v) (tv_boolean_value v) (tv_double_value v)), Suc n)
      else if tv_bigint_value v \<noteq> 0 \<or> tv_varchar_value v \<noteq> [] \<or> tv_boolean_value v \<or>
              \<not> double_zero (tv_double_value v) \<or> signbit (tv_double_value v) \<or>
              (\<not> tv_valid v \<and> tv_elements v \<noteq> []) then (Some False, Suc n)
      else aligned_elements c t (tv_elements v) (Suc n))" for c
  have split: "aligned_value c t v n = (if CheckAlignmentCancellation c n then (None, Suc n) else after c)" for c
    by (simp add: aligned_value_def after_def)
  have "same_or_cancelled answers (Suc n) (after (Some answers)) (after None)"
    unfolding after_def by (simp add: same_or_cancelled_done elements_controlled)
  from same_or_cancelled_poll [of answers n, OF this] show ?thesis
    using polled_after(3) [of n t v] unfolding split by (simp add: CheckAlignmentCancellation_def)
qed

lemma columns_controlled:
  "same_or_cancelled answers n (aligned_columns (Some answers) ts vs n) (aligned_columns None ts vs n)"
proof (induction "None :: poll_control" ts vs n rule: aligned_columns.induct)
  case (1 t ts v vs n)
  then show ?case by (simp add: same_or_cancelled_then value_controlled)
qed (simp_all add: same_or_cancelled_done)

lemma rows_controlled:
  "same_or_cancelled answers n (aligned_rows (Some answers) ts rows n) (aligned_rows None ts rows n)"
proof (induction rows arbitrary: n)
  case (Cons vs rows)
  define after where "after c =
      (if length vs \<noteq> length ts then (Some False, Suc n)
       else then_aligned (aligned_columns c ts vs (Suc n)) (aligned_rows c ts rows))" for c
  have split: "aligned_rows c ts (vs # rows) n = (if CheckAlignmentCancellation c n then (None, Suc n) else after c)"
    for c by (simp add: after_def)
  have "same_or_cancelled answers (Suc n) (after (Some answers)) (after None)"
    unfolding after_def by (simp add: same_or_cancelled_done same_or_cancelled_then columns_controlled Cons)
  moreover from this have "Suc n \<le> snd (after None)" by (simp add: same_or_cancelled_def)
  ultimately show ?case
    unfolding split using same_or_cancelled_poll [of answers n] by (simp add: CheckAlignmentCancellation_def)
qed (simp add: same_or_cancelled_done)

lemma controlled_alignment:
  "IsSchemaAlignedControlled batch answers =
     (if \<exists>i < snd (aligned_batch batch None). answers i then None else Some (IsSchemaAligned batch))"
proof -
  have "same_or_cancelled answers 0 (aligned_batch batch (Some answers)) (aligned_batch batch None)"
    unfolding aligned_batch_def by (simp add: same_or_cancelled_then types_controlled rows_controlled)
  moreover have "fst (aligned_batch batch None) = Some (IsSchemaAligned batch)"
    by (simp add: IsSchemaAligned_def aligned_batch_def fst_then_aligned types_aligned rows_aligned)
  ultimately show ?thesis by (auto simp: same_or_cancelled_def IsSchemaAlignedControlled_def)
qed

end
