(* ===== verification/Resilience_Policy.thy ===== *)
theory Resilience_Policy
  imports Prelude
begin

text \<open>
  The resilience part of a scan plan and its admission by the runtime. From \<open>src/src/semantics/scan_plan.cpp\<close> the
  hard bounds of the retry, rate-limit and aggregate policies; from \<open>retry_policy_admission.hpp\<close> and
  \<open>rate_limit_policy_admission.hpp\<close> under \<open>src/src/include/duckdb_api/internal/runtime/execution\<close> the functions that
  narrow a planned policy by the operator's profile. The record \<open>resilience_view\<close> holds the accessors of
  \<open>ScanPlan\<close> these functions read; the enumerations are datatypes, so their "is known" tests hold of every value.

  An admitted policy is shown to stay within the hard bounds, the plan and the profile, to leave room for every page
  of the scan, and to add up its two waiting budgets without wrap-around.
\<close>

subsection \<open>Plans\<close>

datatype PlannedRateLimitMode = Mode_FAIL | Mode_WAIT | Mode_WAIT_IF_DEADLINE_ALLOWS

datatype PlannedRateLimitPrincipalScope = Scope_CREDENTIAL_AUTHORITY | Scope_SHARED

datatype PlannedRateLimitGuidanceFormat = Planned_RETRY_AFTER | Planned_DELTA_SECONDS | Planned_UNIX_SECONDS

datatype PlannedOperationReplayClass = Replay_NON_REPLAYABLE | Replay_REPLAYABLE_READ
  | Replay_REPLAYABLE_WITH_IDEMPOTENCY_MECHANISM | Replay_UNKNOWN

datatype FeatureState = Feature_DISABLED | Feature_ENABLED

record RetryPlan =
  rt_max_attempts_per_step :: u64
  rt_max_attempts_per_scan :: u64
  rt_max_delay_milliseconds :: u64
  rt_max_cumulative_waiting_milliseconds_per_scan :: u64

record PlannedRateLimitGuidance =
  pg_header_name :: string
  pg_format :: PlannedRateLimitGuidanceFormat

record RateLimitPlan =
  rl_declared :: bool
  rl_mode :: PlannedRateLimitMode
  rl_statuses :: "u16 list"
  rl_operation_family :: string
  rl_scope :: PlannedRateLimitPrincipalScope
  rl_guidance :: "PlannedRateLimitGuidance list"
  rl_remaining_quota_header :: string
  rl_remote_bucket_header :: string
  rl_max_attempts_per_step :: u64
  rl_max_delay_milliseconds :: u64
  rl_max_cumulative_waiting_milliseconds_per_scan :: u64
  rl_package_major_version :: u32

record ResiliencePlan =
  rs_max_attempts_per_step :: u64
  rs_max_attempts_per_scan :: u64
  rs_max_cumulative_waiting_milliseconds_per_scan :: u64

abbreviation RETRY_MAX_REQUEST_ATTEMPTS_PER_STEP :: u64 where
  "RETRY_MAX_REQUEST_ATTEMPTS_PER_STEP \<equiv> 3"

abbreviation RETRY_MAX_REQUEST_ATTEMPTS_PER_SCAN :: u64 where
  "RETRY_MAX_REQUEST_ATTEMPTS_PER_SCAN \<equiv> 96"

abbreviation RETRY_MAX_DELAY_MILLISECONDS :: u64 where
  "RETRY_MAX_DELAY_MILLISECONDS \<equiv> 100"

abbreviation RETRY_MAX_CUMULATIVE_WAITING_MILLISECONDS_PER_SCAN :: u64 where
  "RETRY_MAX_CUMULATIVE_WAITING_MILLISECONDS_PER_SCAN \<equiv> 250"

abbreviation RATE_LIMIT_MAX_REQUEST_ATTEMPTS_PER_STEP :: u64 where
  "RATE_LIMIT_MAX_REQUEST_ATTEMPTS_PER_STEP \<equiv> 3"

abbreviation RATE_LIMIT_MAX_DELAY_MILLISECONDS :: u64 where
  "RATE_LIMIT_MAX_DELAY_MILLISECONDS \<equiv> 30000"

abbreviation RATE_LIMIT_MAX_CUMULATIVE_WAITING_MILLISECONDS_PER_SCAN :: u64 where
  "RATE_LIMIT_MAX_CUMULATIVE_WAITING_MILLISECONDS_PER_SCAN \<equiv> 30000"

abbreviation RESILIENCE_MAX_REQUEST_ATTEMPTS_PER_STEP :: u64 where
  "RESILIENCE_MAX_REQUEST_ATTEMPTS_PER_STEP \<equiv> 3"

abbreviation RESILIENCE_MAX_REQUEST_ATTEMPTS_PER_SCAN :: u64 where
  "RESILIENCE_MAX_REQUEST_ATTEMPTS_PER_SCAN \<equiv> 96"

abbreviation RESILIENCE_MAX_CUMULATIVE_WAITING_MILLISECONDS_PER_SCAN :: u64 where
  "RESILIENCE_MAX_CUMULATIVE_WAITING_MILLISECONDS_PER_SCAN \<equiv> 30000"

definition RetryPlan_Enabled :: "RetryPlan \<Rightarrow> bool" where
  "RetryPlan_Enabled p \<longleftrightarrow> rt_max_attempts_per_step p > 1"

definition RetryPlan_IsWithinHardBounds :: "RetryPlan \<Rightarrow> bool" where
  "RetryPlan_IsWithinHardBounds p \<longleftrightarrow>
     (if \<not> RetryPlan_Enabled p then
        rt_max_attempts_per_step p = 1 \<and> rt_max_attempts_per_scan p > 0 \<and> rt_max_delay_milliseconds p = 0 \<and>
        rt_max_cumulative_waiting_milliseconds_per_scan p = 0
      else
        rt_max_attempts_per_step p \<le> RETRY_MAX_REQUEST_ATTEMPTS_PER_STEP \<and> rt_max_attempts_per_scan p > 0 \<and>
        rt_max_attempts_per_scan p \<le> RETRY_MAX_REQUEST_ATTEMPTS_PER_SCAN \<and> rt_max_delay_milliseconds p > 0 \<and>
        rt_max_delay_milliseconds p \<le> RETRY_MAX_DELAY_MILLISECONDS \<and>
        rt_max_cumulative_waiting_milliseconds_per_scan p > 0 \<and>
        rt_max_cumulative_waiting_milliseconds_per_scan p \<le> RETRY_MAX_CUMULATIVE_WAITING_MILLISECONDS_PER_SCAN)"

definition IsOperationFamilyCharacter :: "char \<Rightarrow> bool \<Rightarrow> bool" where
  "IsOperationFamilyCharacter c first \<longleftrightarrow>
     in_range CHR ''a'' CHR ''z'' c \<or> (\<not> first \<and> (in_range CHR ''0'' CHR ''9'' c \<or> c = CHR ''_''))"

definition IsCanonicalOperationFamily :: "string \<Rightarrow> bool" where
  "IsCanonicalOperationFamily v \<longleftrightarrow>
     \<not> (v = [] \<or> length v > 64) \<and> IsOperationFamilyCharacter (hd v) True \<and>
     list_all (\<lambda>c. IsOperationFamilyCharacter c False) (tl v)"

definition IsHttpTokenCharacter :: "char \<Rightarrow> bool" where
  "IsHttpTokenCharacter c \<longleftrightarrow>
     in_range CHR ''a'' CHR ''z'' c \<or> in_range CHR ''0'' CHR ''9'' c \<or>
     c \<in> {CHR ''!'', CHR ''#'', CHR ''$'', CHR ''%'', CHR ''&'', CHR 0x27, CHR ''*'', CHR ''+'',
          CHR ''-'', CHR ''.'', CHR ''^'', CHR ''_'', CHR 0x60, CHR ''|'', CHR ''~''}"

definition IsCanonicalRateLimitHeaderName :: "string \<Rightarrow> bool" where
  "IsCanonicalRateLimitHeaderName v \<longleftrightarrow>
     v \<noteq> [] \<and> length v \<le> 64 \<and> v \<noteq> ''date'' \<and> list_all IsHttpTokenCharacter v"

definition RateLimitPlan_WaitingEnabled :: "RateLimitPlan \<Rightarrow> bool" where
  "RateLimitPlan_WaitingEnabled p \<longleftrightarrow>
     rl_declared p \<and> (rl_mode p = Mode_WAIT \<or> rl_mode p = Mode_WAIT_IF_DEADLINE_ALLOWS)"

fun rate_limit_statuses_ok :: "u16 option \<Rightarrow> u16 list \<Rightarrow> bool" where
  "rate_limit_statuses_ok previous [] = True"
| "rate_limit_statuses_ok previous (status # rest) =
     (if status < 400 \<or> status > 599 \<or> status = 401 \<or> status = 403 \<or> status = 407 \<or>
         (case previous of None \<Rightarrow> False | Some p \<Rightarrow> p \<ge> status)
      then False else rate_limit_statuses_ok (Some status) rest)"

fun rate_limit_guidance_ok :: "string \<Rightarrow> string \<Rightarrow> string list \<Rightarrow> PlannedRateLimitGuidance list \<Rightarrow> bool" where
  "rate_limit_guidance_ok remaining bucket previous [] = True"
| "rate_limit_guidance_ok remaining bucket previous (f # rest) =
     (if \<not> IsCanonicalRateLimitHeaderName (pg_header_name f) \<or>
         (remaining \<noteq> [] \<and> pg_header_name f = remaining) \<or> (bucket \<noteq> [] \<and> pg_header_name f = bucket)
      then False
      else if pg_header_name f \<in> set previous then False
      else rate_limit_guidance_ok remaining bucket (pg_header_name f # previous) rest)"

definition RateLimitPlan_IsWithinHardBounds :: "RateLimitPlan \<Rightarrow> bool" where
  "RateLimitPlan_IsWithinHardBounds p \<longleftrightarrow>
     (let remaining = rl_remaining_quota_header p; bucket = rl_remote_bucket_header p in
      if \<not> rl_declared p then
        rl_statuses p = [] \<and> rl_operation_family p = [] \<and> rl_guidance p = [] \<and> remaining = [] \<and> bucket = [] \<and>
        rl_max_attempts_per_step p = 0 \<and> rl_max_delay_milliseconds p = 0 \<and>
        rl_max_cumulative_waiting_milliseconds_per_scan p = 0
      else if rl_statuses p = [] \<or> length (rl_statuses p) > 8 \<or>
              \<not> IsCanonicalOperationFamily (rl_operation_family p) then False
      else if \<not> rate_limit_statuses_ok None (rl_statuses p) then False
      else if \<not> rate_limit_guidance_ok remaining bucket [] (rl_guidance p) then False
      else if (remaining \<noteq> [] \<and> \<not> IsCanonicalRateLimitHeaderName remaining) \<or>
              (bucket \<noteq> [] \<and> \<not> IsCanonicalRateLimitHeaderName bucket) \<or>
              (remaining \<noteq> [] \<and> remaining = bucket) then False
      else if rl_mode p = Mode_FAIL then
        rl_guidance p = [] \<and> remaining = [] \<and> bucket = [] \<and> rl_max_attempts_per_step p = 0 \<and>
        rl_max_delay_milliseconds p = 0 \<and> rl_max_cumulative_waiting_milliseconds_per_scan p = 0
      else
        RateLimitPlan_WaitingEnabled p \<and> rl_guidance p \<noteq> [] \<and> length (rl_guidance p) \<le> 4 \<and>
        rl_max_attempts_per_step p \<ge> 2 \<and>
        rl_max_attempts_per_step p \<le> RATE_LIMIT_MAX_REQUEST_ATTEMPTS_PER_STEP \<and>
        rl_max_delay_milliseconds p > 0 \<and> rl_max_delay_milliseconds p \<le> RATE_LIMIT_MAX_DELAY_MILLISECONDS \<and>
        rl_max_cumulative_waiting_milliseconds_per_scan p > 0 \<and>
        rl_max_cumulative_waiting_milliseconds_per_scan p \<le> RATE_LIMIT_MAX_CUMULATIVE_WAITING_MILLISECONDS_PER_SCAN)"

definition ResiliencePlan_IsWithinHardBounds :: "ResiliencePlan \<Rightarrow> bool" where
  "ResiliencePlan_IsWithinHardBounds p \<longleftrightarrow>
     rs_max_attempts_per_step p > 0 \<and> rs_max_attempts_per_step p \<le> RESILIENCE_MAX_REQUEST_ATTEMPTS_PER_STEP \<and>
     rs_max_attempts_per_scan p \<ge> rs_max_attempts_per_step p \<and>
     rs_max_attempts_per_scan p \<le> RESILIENCE_MAX_REQUEST_ATTEMPTS_PER_SCAN \<and>
     rs_max_cumulative_waiting_milliseconds_per_scan p
       \<le> RESILIENCE_MAX_CUMULATIVE_WAITING_MILLISECONDS_PER_SCAN"

record resilience_view =
  rv_connector_name :: string
  rv_replay_class :: PlannedOperationReplayClass
  rv_retry :: FeatureState
  rv_retry_policy :: RetryPlan
  rv_rate_limit :: FeatureState
  rv_rate_limit_policy :: RateLimitPlan
  rv_resilience_policy :: ResiliencePlan
  rv_paginated :: bool
  rv_scan_pages :: u64
  rv_scan_request_attempts :: u64
  rv_request_attempts :: u64

record HttpExecutionProfile =
  ep_max_retry_attempts_per_step :: u64
  ep_max_retry_attempts_per_scan :: u64
  ep_max_retry_delay_milliseconds :: u64
  ep_max_retry_waiting_milliseconds_per_scan :: u64
  ep_max_rate_limit_attempts_per_step :: u64
  ep_max_rate_limit_attempts_per_scan :: u64
  ep_max_rate_limit_delay_milliseconds :: u64
  ep_max_rate_limit_waiting_milliseconds_per_scan :: u64
  ep_max_combined_waiting_milliseconds_per_scan :: u64

definition planned_pages :: "resilience_view \<Rightarrow> u64" where
  "planned_pages plan = (if rv_paginated plan then rv_scan_pages plan else 1)"

subsection \<open>Admission\<close>

definition TryAdmitRetryPolicy :: "resilience_view \<Rightarrow> HttpExecutionProfile \<Rightarrow> RetryPlan option" where
  "TryAdmitRetryPolicy plan profile =
     (let planned = rv_retry_policy plan; paginated = rv_paginated plan in
      if rv_replay_class plan \<noteq> Replay_REPLAYABLE_READ \<or> \<not> RetryPlan_IsWithinHardBounds planned \<or>
         (rv_retry plan = Feature_ENABLED) \<noteq> RetryPlan_Enabled planned \<or>
         ep_max_retry_attempts_per_step profile = 0 \<or>
         ep_max_retry_attempts_per_step profile > RETRY_MAX_REQUEST_ATTEMPTS_PER_STEP \<or>
         ep_max_retry_attempts_per_scan profile = 0 \<or>
         ep_max_retry_attempts_per_scan profile > RETRY_MAX_REQUEST_ATTEMPTS_PER_SCAN \<or>
         ep_max_retry_delay_milliseconds profile > RETRY_MAX_DELAY_MILLISECONDS \<or>
         ep_max_retry_waiting_milliseconds_per_scan profile > RETRY_MAX_CUMULATIVE_WAITING_MILLISECONDS_PER_SCAN
      then None
      else if \<not> RetryPlan_Enabled planned then
        let result = \<lparr>rt_max_attempts_per_step = 1,
              rt_max_attempts_per_scan = min (rt_max_attempts_per_scan planned) (ep_max_retry_attempts_per_scan profile),
              rt_max_delay_milliseconds = 0, rt_max_cumulative_waiting_milliseconds_per_scan = 0\<rparr> in
        if rt_max_attempts_per_scan result \<ge> (if paginated then rv_scan_pages plan else 1) then Some result else None
      else
        let result = \<lparr>rt_max_attempts_per_step =
                min (rt_max_attempts_per_step planned) (ep_max_retry_attempts_per_step profile),
              rt_max_attempts_per_scan = min (rt_max_attempts_per_scan planned) (ep_max_retry_attempts_per_scan profile),
              rt_max_delay_milliseconds = min (rt_max_delay_milliseconds planned) (ep_max_retry_delay_milliseconds profile),
              rt_max_cumulative_waiting_milliseconds_per_scan =
                min (rt_max_cumulative_waiting_milliseconds_per_scan planned)
                    (ep_max_retry_waiting_milliseconds_per_scan profile)\<rparr>;
            result = (if rt_max_attempts_per_step result \<le> 1 \<or> rt_max_delay_milliseconds result = 0 \<or>
                         rt_max_cumulative_waiting_milliseconds_per_scan result = 0
                      then result\<lparr>rt_max_attempts_per_step := 1, rt_max_delay_milliseconds := 0,
                             rt_max_cumulative_waiting_milliseconds_per_scan := 0\<rparr>
                      else result);
            required_attempts = (if paginated then rv_scan_pages plan else 1);
            retry_shape_max =
              (if paginated \<and> required_attempts \<le> RETRY_MAX_REQUEST_ATTEMPTS_PER_SCAN div rt_max_attempts_per_step result
               then required_attempts * rt_max_attempts_per_step result
               else rt_max_attempts_per_step result);
            result = result\<lparr>rt_max_attempts_per_scan := min (rt_max_attempts_per_scan result) retry_shape_max\<rparr> in
        if rt_max_attempts_per_scan result \<ge> required_attempts \<and> RetryPlan_IsWithinHardBounds result
        then Some result else None)"

record AdmittedRateLimitPolicy =
  ar_declared :: bool
  ar_connector_id :: string
  ar_mode :: PlannedRateLimitMode
  ar_statuses :: "u16 list"
  ar_operation_family :: string
  ar_principal_scope :: PlannedRateLimitPrincipalScope
  ar_guidance :: "PlannedRateLimitGuidance list"
  ar_remaining_quota_header :: string
  ar_remote_bucket_header :: string
  ar_max_attempts_per_step :: u64
  ar_max_attempts_per_scan :: u64
  ar_max_delay_milliseconds :: u64
  ar_max_cumulative_waiting_milliseconds_per_scan :: u64
  ar_package_major_version :: u32
  ar_waiting_enabled :: bool

definition WaitingEnabled :: "AdmittedRateLimitPolicy \<Rightarrow> bool" where
  "WaitingEnabled p \<longleftrightarrow> ar_declared p \<and> ar_waiting_enabled p"

definition MatchesStatus :: "AdmittedRateLimitPolicy \<Rightarrow> u32 \<Rightarrow> bool" where
  "MatchesStatus p status \<longleftrightarrow> ar_declared p \<and> list_ex (\<lambda>s. ucast s = status) (ar_statuses p)"

definition TryAdmitRateLimitPolicy ::
  "resilience_view \<Rightarrow> HttpExecutionProfile \<Rightarrow> AdmittedRateLimitPolicy option" where
  "TryAdmitRateLimitPolicy plan profile =
     (let planned = rv_rate_limit_policy plan in
      if rv_replay_class plan \<noteq> Replay_REPLAYABLE_READ \<or> \<not> RateLimitPlan_IsWithinHardBounds planned \<or>
         (rv_rate_limit plan = Feature_ENABLED) \<noteq> rl_declared planned
      then None
      else
        let result = \<lparr>ar_declared = rl_declared planned, ar_connector_id = rv_connector_name plan,
              ar_mode = rl_mode planned, ar_statuses = rl_statuses planned,
              ar_operation_family = rl_operation_family planned, ar_principal_scope = rl_scope planned,
              ar_guidance = rl_guidance planned, ar_remaining_quota_header = rl_remaining_quota_header planned,
              ar_remote_bucket_header = rl_remote_bucket_header planned, ar_max_attempts_per_step = 1,
              ar_max_attempts_per_scan = 1, ar_max_delay_milliseconds = 0,
              ar_max_cumulative_waiting_milliseconds_per_scan = 0,
              ar_package_major_version = rl_package_major_version planned, ar_waiting_enabled = False\<rparr> in
        if \<not> rl_declared planned \<or> \<not> RateLimitPlan_WaitingEnabled planned then Some result
        else if ep_max_rate_limit_attempts_per_step profile = 0 \<or> ep_max_rate_limit_attempts_per_scan profile = 0 \<or>
                ep_max_rate_limit_delay_milliseconds profile = 0 \<or>
                ep_max_rate_limit_waiting_milliseconds_per_scan profile = 0 \<or>
                ep_max_combined_waiting_milliseconds_per_scan profile = 0
        then Some result
        else
          let steps = min (rl_max_attempts_per_step planned) (ep_max_rate_limit_attempts_per_step profile);
              delay = min (rl_max_delay_milliseconds planned) (ep_max_rate_limit_delay_milliseconds profile);
              waiting = min (rl_max_cumulative_waiting_milliseconds_per_scan planned)
                            (ep_max_rate_limit_waiting_milliseconds_per_scan profile) in
          if steps \<le> 1 \<or> delay = 0 \<or> waiting = 0
          then Some (result\<lparr>ar_max_attempts_per_step := 1, ar_max_delay_milliseconds := 0,
                       ar_max_cumulative_waiting_milliseconds_per_scan := 0\<rparr>)
          else
            let pages = (if rv_paginated plan then rv_scan_pages plan else 1) in
            if pages = 0 \<or> pages > RESILIENCE_MAX_REQUEST_ATTEMPTS_PER_SCAN div steps then None
            else
              let scans = min (ep_max_rate_limit_attempts_per_scan profile) (pages * steps) in
              Some (result\<lparr>ar_max_attempts_per_step := steps, ar_max_attempts_per_scan := scans,
                      ar_max_delay_milliseconds := delay,
                      ar_max_cumulative_waiting_milliseconds_per_scan := waiting,
                      ar_waiting_enabled := (scans \<ge> pages)\<rparr>))"

record AdmittedResiliencePolicy =
  as_max_attempts_per_step :: u64
  as_max_attempts_per_scan :: u64
  as_max_cumulative_waiting_milliseconds_per_scan :: u64

definition TryAdmitResiliencePolicies ::
  "resilience_view \<Rightarrow> HttpExecutionProfile
   \<Rightarrow> (RetryPlan \<times> AdmittedRateLimitPolicy \<times> AdmittedResiliencePolicy) option" where
  "TryAdmitResiliencePolicies plan profile =
     (let planned = rv_resilience_policy plan;
          pages = (if rv_paginated plan then rv_scan_pages plan else 1);
          planned_attempts = (if rv_paginated plan then rv_scan_request_attempts plan else rv_request_attempts plan) in
      if \<not> ResiliencePlan_IsWithinHardBounds planned \<or> pages = 0 \<or>
         rs_max_attempts_per_step planned \<noteq> rv_request_attempts plan \<or>
         rs_max_attempts_per_scan planned \<noteq> planned_attempts then None
      else case TryAdmitRetryPolicy plan profile of
        None \<Rightarrow> None
      | Some retry \<Rightarrow>
          (case TryAdmitRateLimitPolicy plan profile of
             None \<Rightarrow> None
           | Some rate_limit \<Rightarrow>
               let steps = max (rt_max_attempts_per_step retry) (ar_max_attempts_per_step rate_limit);
                   scans = max (rt_max_attempts_per_scan retry) (ar_max_attempts_per_scan rate_limit);
                   retry_wait = rt_max_cumulative_waiting_milliseconds_per_scan retry;
                   rate_wait = ar_max_cumulative_waiting_milliseconds_per_scan rate_limit;
                   combined = ep_max_combined_waiting_milliseconds_per_scan profile in
               if scans > rs_max_attempts_per_scan planned then None
               else if retry_wait > uint64_max - rate_wait then None
               else if combined \<noteq> 0 \<and> combined < retry_wait then None
               else
                 let cap = (if combined = 0 then retry_wait else combined);
                     waiting = min (retry_wait + rate_wait) cap in
                 if scans \<ge> pages \<and> waiting \<le> rs_max_cumulative_waiting_milliseconds_per_scan planned
                 then Some (retry, rate_limit,
                   \<lparr>as_max_attempts_per_step = steps, as_max_attempts_per_scan = scans,
                    as_max_cumulative_waiting_milliseconds_per_scan = waiting\<rparr>)
                 else None))"

subsection \<open>Admission only narrows\<close>

lemma retry_admitted:
  assumes "TryAdmitRetryPolicy plan profile = Some r"
  shows "RetryPlan_IsWithinHardBounds r \<and>
    rt_max_attempts_per_step r \<le> rt_max_attempts_per_step (rv_retry_policy plan) \<and>
    rt_max_attempts_per_scan r \<le> rt_max_attempts_per_scan (rv_retry_policy plan) \<and>
    rt_max_delay_milliseconds r \<le> rt_max_delay_milliseconds (rv_retry_policy plan) \<and>
    rt_max_cumulative_waiting_milliseconds_per_scan r
      \<le> rt_max_cumulative_waiting_milliseconds_per_scan (rv_retry_policy plan) \<and>
    rt_max_attempts_per_step r \<le> ep_max_retry_attempts_per_step profile \<and>
    rt_max_attempts_per_scan r \<le> ep_max_retry_attempts_per_scan profile \<and>
    rt_max_delay_milliseconds r \<le> ep_max_retry_delay_milliseconds profile \<and>
    rt_max_cumulative_waiting_milliseconds_per_scan r \<le> ep_max_retry_waiting_milliseconds_per_scan profile \<and>
    planned_pages plan \<le> rt_max_attempts_per_scan r"
proof -
  define planned where "planned = rv_retry_policy plan"
  have profile: "ep_max_retry_attempts_per_step profile \<noteq> 0" "ep_max_retry_attempts_per_scan profile \<noteq> 0"
    and bounds: "RetryPlan_IsWithinHardBounds planned"
    using assms unfolding TryAdmitRetryPolicy_def Let_def planned_def by (auto split: if_splits)
  have one: "1 \<le> ep_max_retry_attempts_per_step profile" using profile(1)
    by (metis not_less word_less_1)
  have step: "1 \<le> rt_max_attempts_per_step planned"
    using bounds unfolding RetryPlan_IsWithinHardBounds_def RetryPlan_Enabled_def
    by (metis less_imp_le order_refl)
  show ?thesis
  proof (cases "RetryPlan_Enabled planned")
    case False
    have "r = \<lparr>rt_max_attempts_per_step = 1,
        rt_max_attempts_per_scan = min (rt_max_attempts_per_scan planned) (ep_max_retry_attempts_per_scan profile),
        rt_max_delay_milliseconds = 0, rt_max_cumulative_waiting_milliseconds_per_scan = 0\<rparr>"
      "planned_pages plan \<le> min (rt_max_attempts_per_scan planned) (ep_max_retry_attempts_per_scan profile)"
      using assms False unfolding TryAdmitRetryPolicy_def Let_def planned_def planned_pages_def
      by (auto split: if_splits)
    moreover have "0 < rt_max_attempts_per_scan planned"
      using bounds False by (simp add: RetryPlan_IsWithinHardBounds_def)
    ultimately show ?thesis
      using one step profile(2) unfolding planned_def [symmetric]
      by (simp add: RetryPlan_IsWithinHardBounds_def RetryPlan_Enabled_def word_neq_0_conv)
  next
    case True
    define pages where "pages = planned_pages plan"
    define wide where "wide = \<lparr>rt_max_attempts_per_step =
        min (rt_max_attempts_per_step planned) (ep_max_retry_attempts_per_step profile),
      rt_max_attempts_per_scan = min (rt_max_attempts_per_scan planned) (ep_max_retry_attempts_per_scan profile),
      rt_max_delay_milliseconds = min (rt_max_delay_milliseconds planned) (ep_max_retry_delay_milliseconds profile),
      rt_max_cumulative_waiting_milliseconds_per_scan =
        min (rt_max_cumulative_waiting_milliseconds_per_scan planned)
            (ep_max_retry_waiting_milliseconds_per_scan profile)\<rparr>"
    define off where "off \<longleftrightarrow> rt_max_attempts_per_step wide \<le> 1 \<or> rt_max_delay_milliseconds wide = 0 \<or>
      rt_max_cumulative_waiting_milliseconds_per_scan wide = 0"
    define narrow where "narrow = (if off then wide\<lparr>rt_max_attempts_per_step := 1, rt_max_delay_milliseconds := 0,
      rt_max_cumulative_waiting_milliseconds_per_scan := 0\<rparr> else wide)"
    obtain shape where r: "r = narrow\<lparr>rt_max_attempts_per_scan := min (rt_max_attempts_per_scan narrow) shape\<rparr>"
      and kept: "pages \<le> rt_max_attempts_per_scan r" "RetryPlan_IsWithinHardBounds r"
      using assms True unfolding TryAdmitRetryPolicy_def Let_def planned_def [symmetric] wide_def [symmetric]
        off_def [symmetric] narrow_def [symmetric] planned_pages_def [symmetric] pages_def [symmetric]
      by (simp only: if_False if_True not_True_eq_False split: if_splits) auto
    have "rt_max_attempts_per_step narrow \<le> rt_max_attempts_per_step planned \<and>
      rt_max_attempts_per_step narrow \<le> ep_max_retry_attempts_per_step profile \<and>
      rt_max_delay_milliseconds narrow \<le> rt_max_delay_milliseconds planned \<and>
      rt_max_delay_milliseconds narrow \<le> ep_max_retry_delay_milliseconds profile \<and>
      rt_max_cumulative_waiting_milliseconds_per_scan narrow \<le> rt_max_cumulative_waiting_milliseconds_per_scan planned \<and>
      rt_max_cumulative_waiting_milliseconds_per_scan narrow \<le> ep_max_retry_waiting_milliseconds_per_scan profile \<and>
      rt_max_attempts_per_scan narrow \<le> rt_max_attempts_per_scan planned \<and>
      rt_max_attempts_per_scan narrow \<le> ep_max_retry_attempts_per_scan profile"
      using one step by (simp add: narrow_def wide_def)
    then show ?thesis
      using kept unfolding r planned_def [symmetric] pages_def [symmetric] by (simp add: min.coboundedI1)
  qed
qed

lemma pages_times_steps:
  assumes "0 < (steps::u64)" and "pages \<le> 96 div steps"
  shows "unat (pages * steps) = unat pages * unat steps" and "pages * steps \<le> 96"
proof -
  have "unat pages \<le> 96 div unat steps" using assms(2) by (simp add: word_le_nat_alt unat_div)
  then have "unat pages * unat steps \<le> 96 div unat steps * unat steps" by (rule mult_le_mono1)
  also have "\<dots> \<le> 96" by (rule div_times_less_eq_dividend)
  finally have small: "unat pages * unat steps \<le> 96" .
  then show "unat (pages * steps) = unat pages * unat steps" by (simp add: unat_word_ariths)
  then show "pages * steps \<le> 96" using small by (simp add: word_le_nat_alt)
qed

lemma waiting_bounds:
  assumes "RateLimitPlan_IsWithinHardBounds p" and "RateLimitPlan_WaitingEnabled p"
  shows "rl_max_attempts_per_step p \<le> 3 \<and> rl_max_delay_milliseconds p \<le> 30000 \<and>
    rl_max_cumulative_waiting_milliseconds_per_scan p \<le> 30000 \<and> rl_guidance p \<noteq> []"
proof -
  have "rl_declared p" "rl_mode p \<noteq> Mode_FAIL" using assms(2) by (auto simp: RateLimitPlan_WaitingEnabled_def)
  then show ?thesis
    using assms(1) unfolding RateLimitPlan_IsWithinHardBounds_def Let_def
    by (simp only: simp_thms if_True if_False split: if_splits)
qed

lemma rate_limit_admitted:
  assumes "TryAdmitRateLimitPolicy plan profile = Some r"
  shows "RateLimitPlan_IsWithinHardBounds (rv_rate_limit_policy plan)"
    and "1 \<le> ar_max_attempts_per_step r" and "ar_max_attempts_per_step r \<le> 3"
    and "ar_max_attempts_per_scan r \<le> 96"
    and "ar_max_delay_milliseconds r \<le> rl_max_delay_milliseconds (rv_rate_limit_policy plan)"
    and "ar_max_delay_milliseconds r \<le> 30000"
    and "ar_max_cumulative_waiting_milliseconds_per_scan r
           \<le> rl_max_cumulative_waiting_milliseconds_per_scan (rv_rate_limit_policy plan)"
    and "ar_max_cumulative_waiting_milliseconds_per_scan r \<le> 30000"
    and "ar_max_delay_milliseconds r \<le> ep_max_rate_limit_delay_milliseconds profile"
    and "ar_max_cumulative_waiting_milliseconds_per_scan r
           \<le> ep_max_rate_limit_waiting_milliseconds_per_scan profile"
    and "ar_max_attempts_per_step r \<le> max 1 (min (rl_max_attempts_per_step (rv_rate_limit_policy plan))
           (ep_max_rate_limit_attempts_per_step profile))"
    and "ar_max_attempts_per_scan r \<le> max 1 (ep_max_rate_limit_attempts_per_scan profile)"
    and "WaitingEnabled r \<Longrightarrow> 1 < ar_max_attempts_per_step r \<and>
           ar_max_attempts_per_step r \<le> rl_max_attempts_per_step (rv_rate_limit_policy plan) \<and>
           planned_pages plan \<le> ar_max_attempts_per_scan r \<and> 0 < ar_max_delay_milliseconds r \<and>
           0 < ar_max_cumulative_waiting_milliseconds_per_scan r \<and> ar_guidance r \<noteq> []"
proof -
  define planned where "planned = rv_rate_limit_policy plan"
  define steps where "steps = min (rl_max_attempts_per_step planned) (ep_max_rate_limit_attempts_per_step profile)"
  define delay where "delay = min (rl_max_delay_milliseconds planned) (ep_max_rate_limit_delay_milliseconds profile)"
  define waiting where "waiting = min (rl_max_cumulative_waiting_milliseconds_per_scan planned)
    (ep_max_rate_limit_waiting_milliseconds_per_scan profile)"
  define scans where "scans = min (ep_max_rate_limit_attempts_per_scan profile) (planned_pages plan * steps)"
  have bounds: "RateLimitPlan_IsWithinHardBounds planned"
    using assms unfolding TryAdmitRateLimitPolicy_def Let_def planned_def by (auto split: if_splits)
  then show "RateLimitPlan_IsWithinHardBounds (rv_rate_limit_policy plan)" by (simp add: planned_def)
  define base where "base = \<lparr>ar_declared = rl_declared planned, ar_connector_id = rv_connector_name plan,
    ar_mode = rl_mode planned, ar_statuses = rl_statuses planned,
    ar_operation_family = rl_operation_family planned, ar_principal_scope = rl_scope planned,
    ar_guidance = rl_guidance planned, ar_remaining_quota_header = rl_remaining_quota_header planned,
    ar_remote_bucket_header = rl_remote_bucket_header planned, ar_max_attempts_per_step = 1,
    ar_max_attempts_per_scan = 1, ar_max_delay_milliseconds = 0,
    ar_max_cumulative_waiting_milliseconds_per_scan = 0,
    ar_package_major_version = rl_package_major_version planned, ar_waiting_enabled = False\<rparr>"
  define unplanned where "unplanned \<longleftrightarrow> \<not> rl_declared planned \<or> \<not> RateLimitPlan_WaitingEnabled planned"
  define unprofiled where "unprofiled \<longleftrightarrow>
    ep_max_rate_limit_attempts_per_step profile = 0 \<or> ep_max_rate_limit_attempts_per_scan profile = 0 \<or>
    ep_max_rate_limit_delay_milliseconds profile = 0 \<or> ep_max_rate_limit_waiting_milliseconds_per_scan profile = 0 \<or>
    ep_max_combined_waiting_milliseconds_per_scan profile = 0"
  define small where "small \<longleftrightarrow> steps \<le> 1 \<or> delay = 0 \<or> waiting = 0"
  define many where "many \<longleftrightarrow> planned_pages plan = 0 \<or> planned_pages plan > 96 div steps"
  have branches: "unplanned \<and> r = base \<or> unprofiled \<and> r = base \<or>
      small \<and> r = base\<lparr>ar_max_attempts_per_step := 1, ar_max_delay_milliseconds := 0,
        ar_max_cumulative_waiting_milliseconds_per_scan := 0\<rparr> \<or>
      \<not> unplanned \<and> \<not> small \<and> \<not> many \<and> r = base\<lparr>ar_max_attempts_per_step := steps, ar_max_attempts_per_scan := scans,
        ar_max_delay_milliseconds := delay, ar_max_cumulative_waiting_milliseconds_per_scan := waiting,
        ar_waiting_enabled := (scans \<ge> planned_pages plan)\<rparr>"
    using assms unfolding TryAdmitRateLimitPolicy_def Let_def planned_def [symmetric] steps_def [symmetric]
      delay_def [symmetric] waiting_def [symmetric] planned_pages_def [symmetric] scans_def [symmetric]
      base_def [symmetric] unplanned_def [symmetric] unprofiled_def [symmetric] small_def [symmetric] many_def [symmetric]
    by (metis option.distinct(1) option.inject)
  consider (off) "ar_max_attempts_per_step r = 1" "ar_max_attempts_per_scan r = 1" "ar_max_delay_milliseconds r = 0"
      "ar_max_cumulative_waiting_milliseconds_per_scan r = 0" "\<not> WaitingEnabled r"
    | (on) "\<not> steps \<le> 1" "delay \<noteq> 0" "waiting \<noteq> 0" "planned_pages plan \<le> 96 div steps"
      "ar_max_attempts_per_step r = steps" "ar_max_attempts_per_scan r = scans" "ar_max_delay_milliseconds r = delay"
      "ar_max_cumulative_waiting_milliseconds_per_scan r = waiting" "ar_waiting_enabled r \<longleftrightarrow> scans \<ge> planned_pages plan"
      "ar_guidance r = rl_guidance planned" "RateLimitPlan_WaitingEnabled planned"
  proof -
    have c1: "thesis" if "r = base"
      by (rule off) (simp_all add: that base_def WaitingEnabled_def)
    have c2: "thesis" if "r = base\<lparr>ar_max_attempts_per_step := 1, ar_max_delay_milliseconds := 0,
        ar_max_cumulative_waiting_milliseconds_per_scan := 0\<rparr>"
      by (rule off) (simp_all add: that base_def WaitingEnabled_def)
    have c3: "thesis" if r: "\<not> unplanned" "\<not> small" "\<not> many"
      "r = base\<lparr>ar_max_attempts_per_step := steps, ar_max_attempts_per_scan := scans,
        ar_max_delay_milliseconds := delay, ar_max_cumulative_waiting_milliseconds_per_scan := waiting,
        ar_waiting_enabled := (scans \<ge> planned_pages plan)\<rparr>"
    proof (rule on)
      show "\<not> steps \<le> 1" "delay \<noteq> 0" "waiting \<noteq> 0" using r(2) by (simp_all add: small_def)
      show "planned_pages plan \<le> 96 div steps" using r(3) by (simp add: many_def not_less)
      show "RateLimitPlan_WaitingEnabled planned" using r(1) by (simp add: unplanned_def)
    qed (simp_all add: r(4) base_def)
    show thesis using branches by (elim disjE conjE) (erule c1 c2 | erule (3) c3)+
  qed
  note cases = this
  note wait_bounds = waiting_bounds [OF bounds]
  have on_scans: "scans \<le> 96" if "\<not> steps \<le> 1" "planned_pages plan \<le> 96 div steps"
  proof -
    have "steps \<noteq> 0" using that(1) by auto
    then have "0 < steps" by (simp add: word_neq_0_conv)
    then show ?thesis using pages_times_steps(2) [OF _ that(2)] by (simp add: scans_def min.coboundedI2)
  qed
  show "1 \<le> ar_max_attempts_per_step r" by (cases rule: cases) (auto simp: not_le less_imp_le)
  show "ar_max_attempts_per_step r \<le> 3"
    by (cases rule: cases) (use wait_bounds in \<open>auto simp: steps_def min.coboundedI1\<close>)
  show "ar_max_attempts_per_scan r \<le> 96" by (cases rule: cases) (use on_scans in auto)
  show "ar_max_delay_milliseconds r \<le> rl_max_delay_milliseconds (rv_rate_limit_policy plan)"
    by (cases rule: cases) (auto simp: delay_def planned_def)
  show "ar_max_delay_milliseconds r \<le> 30000"
    by (cases rule: cases) (use wait_bounds in \<open>auto simp: delay_def min.coboundedI1\<close>)
  show "ar_max_cumulative_waiting_milliseconds_per_scan r
      \<le> rl_max_cumulative_waiting_milliseconds_per_scan (rv_rate_limit_policy plan)"
    by (cases rule: cases) (auto simp: waiting_def planned_def)
  show "ar_max_cumulative_waiting_milliseconds_per_scan r \<le> 30000"
    by (cases rule: cases) (use wait_bounds in \<open>auto simp: waiting_def min.coboundedI1\<close>)
  show "ar_max_delay_milliseconds r \<le> ep_max_rate_limit_delay_milliseconds profile"
    by (cases rule: cases) (auto simp: delay_def)
  show "ar_max_cumulative_waiting_milliseconds_per_scan r \<le> ep_max_rate_limit_waiting_milliseconds_per_scan profile"
    by (cases rule: cases) (auto simp: waiting_def)
  show "ar_max_attempts_per_step r \<le> max 1 (min (rl_max_attempts_per_step (rv_rate_limit_policy plan))
      (ep_max_rate_limit_attempts_per_step profile))"
    by (cases rule: cases) (simp_all add: steps_def planned_def)
  show "ar_max_attempts_per_scan r \<le> max 1 (ep_max_rate_limit_attempts_per_scan profile)"
    by (cases rule: cases) (simp_all add: scans_def max.coboundedI2)
  assume "WaitingEnabled r"
  then show "1 < ar_max_attempts_per_step r \<and>
      ar_max_attempts_per_step r \<le> rl_max_attempts_per_step (rv_rate_limit_policy plan) \<and>
      planned_pages plan \<le> ar_max_attempts_per_scan r \<and> 0 < ar_max_delay_milliseconds r \<and>
      0 < ar_max_cumulative_waiting_milliseconds_per_scan r \<and> ar_guidance r \<noteq> []"
    by (cases rule: cases)
      (use wait_bounds in \<open>auto simp: WaitingEnabled_def not_le word_neq_0_conv steps_def planned_def [symmetric]\<close>)
qed

lemma admitted_policies:
  assumes "TryAdmitResiliencePolicies plan profile = Some (retry, rate_limit, resilience)"
  shows "1 \<le> as_max_attempts_per_step resilience \<and> as_max_attempts_per_step resilience \<le> 3"
    and "planned_pages plan \<le> as_max_attempts_per_scan resilience \<and>
         as_max_attempts_per_scan resilience \<le> rs_max_attempts_per_scan (rv_resilience_policy plan) \<and>
         as_max_attempts_per_scan resilience \<le> 96"
    and "RetryPlan_IsWithinHardBounds retry \<and>
         rt_max_attempts_per_step retry \<le> min (rt_max_attempts_per_step (rv_retry_policy plan))
           (ep_max_retry_attempts_per_step profile) \<and>
         rt_max_attempts_per_scan retry \<le> min (rt_max_attempts_per_scan (rv_retry_policy plan))
           (ep_max_retry_attempts_per_scan profile) \<and>
         rt_max_delay_milliseconds retry \<le> min (rt_max_delay_milliseconds (rv_retry_policy plan))
           (ep_max_retry_delay_milliseconds profile) \<and>
         rt_max_cumulative_waiting_milliseconds_per_scan retry
           \<le> min (rt_max_cumulative_waiting_milliseconds_per_scan (rv_retry_policy plan))
             (ep_max_retry_waiting_milliseconds_per_scan profile)"
    and "rt_max_cumulative_waiting_milliseconds_per_scan retry
           \<le> as_max_cumulative_waiting_milliseconds_per_scan resilience \<and>
         unat (as_max_cumulative_waiting_milliseconds_per_scan resilience)
           \<le> unat (rt_max_cumulative_waiting_milliseconds_per_scan retry) +
             unat (ar_max_cumulative_waiting_milliseconds_per_scan rate_limit) \<and>
         as_max_cumulative_waiting_milliseconds_per_scan resilience
           \<le> rs_max_cumulative_waiting_milliseconds_per_scan (rv_resilience_policy plan) \<and>
         as_max_cumulative_waiting_milliseconds_per_scan resilience \<le> 30000"
    and "WaitingEnabled rate_limit \<longrightarrow>
         1 < ar_max_attempts_per_step rate_limit \<and> planned_pages plan \<le> ar_max_attempts_per_scan rate_limit \<and>
         0 < ar_max_delay_milliseconds rate_limit \<and>
         ar_max_delay_milliseconds rate_limit \<le> rl_max_delay_milliseconds (rv_rate_limit_policy plan) \<and>
         0 < ar_max_cumulative_waiting_milliseconds_per_scan rate_limit \<and> ar_guidance rate_limit \<noteq> []"
    and "ar_max_attempts_per_step rate_limit \<le> max 1 (min (rl_max_attempts_per_step (rv_rate_limit_policy plan))
           (ep_max_rate_limit_attempts_per_step profile)) \<and>
         ar_max_attempts_per_scan rate_limit \<le> max 1 (ep_max_rate_limit_attempts_per_scan profile) \<and>
         ar_max_delay_milliseconds rate_limit \<le> min (rl_max_delay_milliseconds (rv_rate_limit_policy plan))
           (ep_max_rate_limit_delay_milliseconds profile) \<and>
         ar_max_cumulative_waiting_milliseconds_per_scan rate_limit
           \<le> min (rl_max_cumulative_waiting_milliseconds_per_scan (rv_rate_limit_policy plan))
             (ep_max_rate_limit_waiting_milliseconds_per_scan profile)"
    and "as_max_attempts_per_step resilience = max (rt_max_attempts_per_step retry) (ar_max_attempts_per_step rate_limit) \<and>
         as_max_attempts_per_scan resilience = max (rt_max_attempts_per_scan retry) (ar_max_attempts_per_scan rate_limit) \<and>
         (ep_max_combined_waiting_milliseconds_per_scan profile = 0 \<or>
            as_max_cumulative_waiting_milliseconds_per_scan resilience
              \<le> ep_max_combined_waiting_milliseconds_per_scan profile)"
proof -
  define planned where "planned = rv_resilience_policy plan"
  define combined where "combined = ep_max_combined_waiting_milliseconds_per_scan profile"
  define retry_wait where "retry_wait = rt_max_cumulative_waiting_milliseconds_per_scan retry"
  define rate_wait where "rate_wait = ar_max_cumulative_waiting_milliseconds_per_scan rate_limit"
  have facts: "ResiliencePlan_IsWithinHardBounds planned" "TryAdmitRetryPolicy plan profile = Some retry"
    "TryAdmitRateLimitPolicy plan profile = Some rate_limit"
    "\<not> retry_wait > uint64_max - rate_wait" "\<not> (combined \<noteq> 0 \<and> combined < retry_wait)"
    "as_max_attempts_per_step resilience = max (rt_max_attempts_per_step retry) (ar_max_attempts_per_step rate_limit)"
    "as_max_attempts_per_scan resilience = max (rt_max_attempts_per_scan retry) (ar_max_attempts_per_scan rate_limit)"
    "as_max_cumulative_waiting_milliseconds_per_scan resilience =
      min (retry_wait + rate_wait) (if combined = 0 then retry_wait else combined)"
    "planned_pages plan \<le> as_max_attempts_per_scan resilience"
    "as_max_attempts_per_scan resilience \<le> rs_max_attempts_per_scan planned"
    "as_max_cumulative_waiting_milliseconds_per_scan resilience
      \<le> rs_max_cumulative_waiting_milliseconds_per_scan planned"
    using assms unfolding TryAdmitResiliencePolicies_def Let_def planned_def [symmetric] combined_def [symmetric]
      planned_pages_def [symmetric]
    by (simp_all add: retry_wait_def rate_wait_def not_less split: if_splits option.splits) auto
  note retry = retry_admitted [OF facts(2)] and rate = rate_limit_admitted [OF facts(3)]
  have steps: "1 \<le> rt_max_attempts_per_step retry" "rt_max_attempts_per_step retry \<le> 3"
    using retry by (auto simp: RetryPlan_IsWithinHardBounds_def RetryPlan_Enabled_def split: if_splits)
  then show "1 \<le> as_max_attempts_per_step resilience \<and> as_max_attempts_per_step resilience \<le> 3"
    using rate(3) by (simp add: facts(6) max.coboundedI1)
  have planned: "rs_max_attempts_per_scan planned \<le> 96"
    "rs_max_cumulative_waiting_milliseconds_per_scan planned \<le> 30000"
    using facts(1) by (simp_all add: ResiliencePlan_IsWithinHardBounds_def)
  then show "planned_pages plan \<le> as_max_attempts_per_scan resilience \<and>
      as_max_attempts_per_scan resilience \<le> rs_max_attempts_per_scan (rv_resilience_policy plan) \<and>
      as_max_attempts_per_scan resilience \<le> 96"
    using facts(9,10) unfolding planned_def by (blast intro: order_trans)
  show "RetryPlan_IsWithinHardBounds retry \<and>
      rt_max_attempts_per_step retry \<le> min (rt_max_attempts_per_step (rv_retry_policy plan))
        (ep_max_retry_attempts_per_step profile) \<and>
      rt_max_attempts_per_scan retry \<le> min (rt_max_attempts_per_scan (rv_retry_policy plan))
        (ep_max_retry_attempts_per_scan profile) \<and>
      rt_max_delay_milliseconds retry \<le> min (rt_max_delay_milliseconds (rv_retry_policy plan))
        (ep_max_retry_delay_milliseconds profile) \<and>
      rt_max_cumulative_waiting_milliseconds_per_scan retry
        \<le> min (rt_max_cumulative_waiting_milliseconds_per_scan (rv_retry_policy plan))
          (ep_max_retry_waiting_milliseconds_per_scan profile)"
    using retry by simp
  have sum: "unat (retry_wait + rate_wait) = unat retry_wait + unat rate_wait" "retry_wait \<le> retry_wait + rate_wait"
    using guarded_add [OF unat_u64_le_max, of retry_wait rate_wait] facts(4)
    by (simp_all only: not_less add.commute [of retry_wait] add.commute [of "unat retry_wait"] word_le_nat_alt le_add2)
  then have "retry_wait \<le> as_max_cumulative_waiting_milliseconds_per_scan resilience"
    using facts(5) by (auto simp: facts(8) not_less)
  moreover have "unat (as_max_cumulative_waiting_milliseconds_per_scan resilience) \<le> unat retry_wait + unat rate_wait"
    using sum(1) by (simp add: facts(8) unat_min)
  ultimately show "rt_max_cumulative_waiting_milliseconds_per_scan retry
        \<le> as_max_cumulative_waiting_milliseconds_per_scan resilience \<and>
      unat (as_max_cumulative_waiting_milliseconds_per_scan resilience)
        \<le> unat (rt_max_cumulative_waiting_milliseconds_per_scan retry) +
          unat (ar_max_cumulative_waiting_milliseconds_per_scan rate_limit) \<and>
      as_max_cumulative_waiting_milliseconds_per_scan resilience
        \<le> rs_max_cumulative_waiting_milliseconds_per_scan (rv_resilience_policy plan) \<and>
      as_max_cumulative_waiting_milliseconds_per_scan resilience \<le> 30000"
    using facts(11) planned(2) unfolding planned_def retry_wait_def rate_wait_def by (blast intro: order_trans)
  show "WaitingEnabled rate_limit \<longrightarrow>
      1 < ar_max_attempts_per_step rate_limit \<and> planned_pages plan \<le> ar_max_attempts_per_scan rate_limit \<and>
      0 < ar_max_delay_milliseconds rate_limit \<and>
      ar_max_delay_milliseconds rate_limit \<le> rl_max_delay_milliseconds (rv_rate_limit_policy plan) \<and>
      0 < ar_max_cumulative_waiting_milliseconds_per_scan rate_limit \<and> ar_guidance rate_limit \<noteq> []"
    using rate(5,13) by blast
  show "ar_max_attempts_per_step rate_limit \<le> max 1 (min (rl_max_attempts_per_step (rv_rate_limit_policy plan))
           (ep_max_rate_limit_attempts_per_step profile)) \<and>
         ar_max_attempts_per_scan rate_limit \<le> max 1 (ep_max_rate_limit_attempts_per_scan profile) \<and>
         ar_max_delay_milliseconds rate_limit \<le> min (rl_max_delay_milliseconds (rv_rate_limit_policy plan))
           (ep_max_rate_limit_delay_milliseconds profile) \<and>
         ar_max_cumulative_waiting_milliseconds_per_scan rate_limit
           \<le> min (rl_max_cumulative_waiting_milliseconds_per_scan (rv_rate_limit_policy plan))
             (ep_max_rate_limit_waiting_milliseconds_per_scan profile)"
    using rate(5,7,9,10,11,12) by simp
  show "as_max_attempts_per_step resilience = max (rt_max_attempts_per_step retry) (ar_max_attempts_per_step rate_limit) \<and>
         as_max_attempts_per_scan resilience = max (rt_max_attempts_per_scan retry) (ar_max_attempts_per_scan rate_limit) \<and>
         (ep_max_combined_waiting_milliseconds_per_scan profile = 0 \<or>
            as_max_cumulative_waiting_milliseconds_per_scan resilience
              \<le> ep_max_combined_waiting_milliseconds_per_scan profile)"
    using facts(6,7,8) by (auto simp: combined_def)
qed

text \<open>
  C38. Whatever the runtime admits of a planned resilience policy is a narrowing of the plan and of the operator's
  profile within the hard limits. A step makes between one and three attempts; the scan may make one attempt for
  every page and no more than planned, at most 96. Retry attempts per step and per scan, retry delay and retry
  waiting stay within plan and profile. The admitted rate-limit delay and rate-limit waiting stay within plan and
  profile, and so do its attempts per step, and its attempts per scan within the profile, except that the one
  attempt of a disabled policy is always there. The combined policy takes the larger of the two numbers of attempts;
  its aggregate waiting budget covers the retry waiting, is at most the sum of the two admitted waiting budgets
  (computed without wrap-around), stays within the planned aggregate of at most 30 seconds, and within the combined
  waiting cap of the profile unless that is zero, the legacy spelling. Reactive waiting is only enabled with more
  than one attempt per step, a positive delay and budget, declared guidance and an attempt for every page. The code
  does not compare the combined attempts per step with the planned ones, so nothing is stated about that.
\<close>

theorem admitted_policies_narrow:
  assumes "TryAdmitResiliencePolicies plan profile = Some (retry, rate_limit, resilience)"
  shows "(1 \<le> as_max_attempts_per_step resilience \<and> as_max_attempts_per_step resilience \<le> 3) \<and>
     (planned_pages plan \<le> as_max_attempts_per_scan resilience \<and>
              as_max_attempts_per_scan resilience \<le> rs_max_attempts_per_scan (rv_resilience_policy plan) \<and>
              as_max_attempts_per_scan resilience \<le> 96) \<and>
     (RetryPlan_IsWithinHardBounds retry \<and>
              rt_max_attempts_per_step retry \<le> min (rt_max_attempts_per_step (rv_retry_policy plan))
                (ep_max_retry_attempts_per_step profile) \<and>
              rt_max_attempts_per_scan retry \<le> min (rt_max_attempts_per_scan (rv_retry_policy plan))
                (ep_max_retry_attempts_per_scan profile) \<and>
              rt_max_delay_milliseconds retry \<le> min (rt_max_delay_milliseconds (rv_retry_policy plan))
                (ep_max_retry_delay_milliseconds profile) \<and>
              rt_max_cumulative_waiting_milliseconds_per_scan retry
                \<le> min (rt_max_cumulative_waiting_milliseconds_per_scan (rv_retry_policy plan))
                  (ep_max_retry_waiting_milliseconds_per_scan profile)) \<and>
     (rt_max_cumulative_waiting_milliseconds_per_scan retry
                \<le> as_max_cumulative_waiting_milliseconds_per_scan resilience \<and>
              unat (as_max_cumulative_waiting_milliseconds_per_scan resilience)
                \<le> unat (rt_max_cumulative_waiting_milliseconds_per_scan retry) +
                  unat (ar_max_cumulative_waiting_milliseconds_per_scan rate_limit) \<and>
              as_max_cumulative_waiting_milliseconds_per_scan resilience
                \<le> rs_max_cumulative_waiting_milliseconds_per_scan (rv_resilience_policy plan) \<and>
              as_max_cumulative_waiting_milliseconds_per_scan resilience \<le> 30000) \<and>
     (WaitingEnabled rate_limit \<longrightarrow>
              1 < ar_max_attempts_per_step rate_limit \<and> planned_pages plan \<le> ar_max_attempts_per_scan rate_limit \<and>
              0 < ar_max_delay_milliseconds rate_limit \<and>
              ar_max_delay_milliseconds rate_limit \<le> rl_max_delay_milliseconds (rv_rate_limit_policy plan) \<and>
              0 < ar_max_cumulative_waiting_milliseconds_per_scan rate_limit \<and> ar_guidance rate_limit \<noteq> []) \<and>
     (ar_max_attempts_per_step rate_limit \<le> max 1 (min (rl_max_attempts_per_step (rv_rate_limit_policy plan))
           (ep_max_rate_limit_attempts_per_step profile)) \<and>
         ar_max_attempts_per_scan rate_limit \<le> max 1 (ep_max_rate_limit_attempts_per_scan profile) \<and>
         ar_max_delay_milliseconds rate_limit \<le> min (rl_max_delay_milliseconds (rv_rate_limit_policy plan))
           (ep_max_rate_limit_delay_milliseconds profile) \<and>
         ar_max_cumulative_waiting_milliseconds_per_scan rate_limit
           \<le> min (rl_max_cumulative_waiting_milliseconds_per_scan (rv_rate_limit_policy plan))
             (ep_max_rate_limit_waiting_milliseconds_per_scan profile)) \<and>
     (as_max_attempts_per_step resilience = max (rt_max_attempts_per_step retry) (ar_max_attempts_per_step rate_limit) \<and>
         as_max_attempts_per_scan resilience = max (rt_max_attempts_per_scan retry) (ar_max_attempts_per_scan rate_limit) \<and>
         (ep_max_combined_waiting_milliseconds_per_scan profile = 0 \<or>
            as_max_cumulative_waiting_milliseconds_per_scan resilience
              \<le> ep_max_combined_waiting_milliseconds_per_scan profile))"
  by (rule conjI [OF _ conjI [OF _ conjI [OF _ conjI [OF _ conjI [OF _ conjI]]]]]) (rule admitted_policies [OF assms])+

definition sample_resilience :: resilience_view where
  "sample_resilience = \<lparr>rv_connector_name = ''github'', rv_replay_class = Replay_REPLAYABLE_READ,
     rv_retry = Feature_ENABLED,
     rv_retry_policy = \<lparr>rt_max_attempts_per_step = 3, rt_max_attempts_per_scan = 6, rt_max_delay_milliseconds = 80,
       rt_max_cumulative_waiting_milliseconds_per_scan = 200\<rparr>,
     rv_rate_limit = Feature_ENABLED,
     rv_rate_limit_policy = \<lparr>rl_declared = True, rl_mode = Mode_WAIT, rl_statuses = [429, 503],
       rl_operation_family = ''search'', rl_scope = Scope_SHARED,
       rl_guidance = [\<lparr>pg_header_name = ''retry-after'', pg_format = Planned_RETRY_AFTER\<rparr>],
       rl_remaining_quota_header = ''x-remaining'', rl_remote_bucket_header = [], rl_max_attempts_per_step = 2,
       rl_max_delay_milliseconds = 5000, rl_max_cumulative_waiting_milliseconds_per_scan = 9000,
       rl_package_major_version = 1\<rparr>,
     rv_resilience_policy = \<lparr>rs_max_attempts_per_step = 3, rs_max_attempts_per_scan = 6,
       rs_max_cumulative_waiting_milliseconds_per_scan = 9200\<rparr>,
     rv_paginated = True, rv_scan_pages = 2, rv_scan_request_attempts = 6, rv_request_attempts = 3\<rparr>"

definition sample_profile_limits :: HttpExecutionProfile where
  "sample_profile_limits = \<lparr>ep_max_retry_attempts_per_step = 2, ep_max_retry_attempts_per_scan = 96,
     ep_max_retry_delay_milliseconds = 100, ep_max_retry_waiting_milliseconds_per_scan = 250,
     ep_max_rate_limit_attempts_per_step = 3, ep_max_rate_limit_attempts_per_scan = 96,
     ep_max_rate_limit_delay_milliseconds = 30000, ep_max_rate_limit_waiting_milliseconds_per_scan = 4000,
     ep_max_combined_waiting_milliseconds_per_scan = 30000\<rparr>"

lemma sample_admission:
  "map_option (\<lambda>(retry, rate_limit, resilience). (retry, WaitingEnabled rate_limit, resilience))
     (TryAdmitResiliencePolicies sample_resilience sample_profile_limits) =
   Some (\<lparr>rt_max_attempts_per_step = 2, rt_max_attempts_per_scan = 4, rt_max_delay_milliseconds = 80,
           rt_max_cumulative_waiting_milliseconds_per_scan = 200\<rparr>, True,
         \<lparr>as_max_attempts_per_step = 2, as_max_attempts_per_scan = 4,
           as_max_cumulative_waiting_milliseconds_per_scan = 4200\<rparr>)"
  by (simp add: TryAdmitResiliencePolicies_def TryAdmitRetryPolicy_def TryAdmitRateLimitPolicy_def
      RateLimitPlan_IsWithinHardBounds_def RetryPlan_IsWithinHardBounds_def ResiliencePlan_IsWithinHardBounds_def
      RetryPlan_Enabled_def RateLimitPlan_WaitingEnabled_def WaitingEnabled_def sample_resilience_def
      sample_profile_limits_def IsCanonicalOperationFamily_def IsOperationFamilyCharacter_def
      IsCanonicalRateLimitHeaderName_def IsHttpTokenCharacter_def in_range_def byte_def min_def max_def Let_def
      word_le_nat_alt)

theorem admitted_policies_narrow_witness:
  "\<exists>retry rate_limit resilience.
     TryAdmitResiliencePolicies sample_resilience sample_profile_limits = Some (retry, rate_limit, resilience) \<and>
     planned_pages sample_resilience \<le> as_max_attempts_per_scan resilience \<and>
     0 < ar_max_delay_milliseconds rate_limit \<and> ar_guidance rate_limit \<noteq> []"
proof -
  obtain retry rate_limit resilience where
    admitted: "TryAdmitResiliencePolicies sample_resilience sample_profile_limits = Some (retry, rate_limit, resilience)"
    and enabled: "WaitingEnabled rate_limit"
    using sample_admission
    by (cases "TryAdmitResiliencePolicies sample_resilience sample_profile_limits") auto
  show ?thesis using admitted_policies_narrow [OF admitted] admitted enabled by blast
qed

end
