(* ===== verification/Execution_Error.thy ===== *)
theory Execution_Error
  imports Admission_Controller
begin

text \<open>
  Failures as they cross from the runtime to the query layer: \<open>ErrorStage\<close>, the failure taxonomy, the record of
  failure properties and its builders, of \<open>src/src/runtime/api/execution_error.cpp\<close> and
  \<open>src/src/include/duckdb_api/execution.hpp\<close>. The enumerations are datatypes, so the branch of a name function
  for a value outside its enumeration (\<open>std::logic_error\<close>) has no counterpart. A value-initialized record has the
  first constant of every enumeration and zero counts.

  Every name function is injective: two failures that render alike are classified alike.
\<close>

datatype ErrorStage = Stage_TRANSPORT | Stage_HTTP_STATUS | Stage_DECODE | Stage_SCHEMA | Stage_POLICY
  | Stage_RESOURCE | Stage_INTERNAL | Stage_AUTHENTICATION | Stage_AUTHORIZATION | Stage_REMOTE_PROTOCOL

datatype FailureClass = Class_CONFIGURATION | Class_AUTHORIZATION | Class_CREDENTIAL_PROVIDER
  | Class_DESTINATION_POLICY | Class_TRANSPORT | Class_TIMEOUT | Class_REMOTE_STATUS | Class_RATE_LIMIT
  | Class_PROTOCOL | Class_DECODE | Class_SCHEMA | Class_RESOURCE_BUDGET | Class_CANCELLATION
  | Class_INTERNAL | Class_LOCAL_ADMISSION

datatype ReplayClassification = NEVER_REPLAYABLE | REPLAYABLE_BEFORE_EXPOSURE | ATOMIC_TRAVERSAL_STEP
  | SERVER_DIRECTED_DELAY | INDETERMINATE

datatype FailurePhase = Phase_BIND | Phase_PLAN | Phase_ADMIT | Phase_REQUEST | Phase_TRANSPORT | Phase_DECODE
  | Phase_PAGINATE | Phase_EMIT | Phase_CLOSE

datatype BudgetDimension = Budget_NONE | Budget_TIME | Budget_ATTEMPTS | Budget_WAITING | Budget_PAGES
  | Budget_RESPONSE_BYTES | Budget_RECORDS | Budget_MEMORY

datatype RemoteStatusClass = Remote_NONE | Remote_SUCCESS | Remote_CLIENT_ERROR | Remote_RATE_LIMITED
  | Remote_SERVER_ERROR | Remote_GRAPHQL_ERRORS

datatype ExposureState = UNACCEPTED | ACCEPTED_UNEXPOSED | EXPOSED

datatype RateLimitReason = RL_NONE | RL_POLICY_FAIL | RL_GUIDANCE_MISSING | RL_MALFORMED_GUIDANCE
  | RL_GUIDANCE_EXCEEDS_POLICY | RL_DEADLINE_INSUFFICIENT | RL_WAITING_EXHAUSTED | RL_ATTEMPTS_EXHAUSTED
  | RL_QUEUE_SATURATED | RL_SCHEDULER_CLOSED | RL_REPEATED_IMMEDIATE | RL_BUCKET_CHANGED | RL_TICKET_EXHAUSTED

record FailureProperties =
  fp_failure_class :: FailureClass
  fp_phase :: FailurePhase
  fp_replay_classification :: ReplayClassification
  fp_step :: u64
  fp_attempt :: u64
  fp_rows_exposed :: u64
  fp_remote_status_class :: RemoteStatusClass
  fp_terminating_budget :: BudgetDimension
  fp_cumulative_delay_milliseconds :: u64
  fp_exposure_state :: ExposureState
  fp_cumulative_rate_limit_waiting_milliseconds :: u64
  fp_cumulative_remote_transport_milliseconds :: u64
  fp_rate_limit_events :: u64
  fp_rate_limit_waits :: u64
  fp_rate_limit_reason :: RateLimitReason
  fp_rate_limit_waiting :: bool
  fp_admission_reason :: admission_reason
  fp_admission_scope :: admission_scope
  fp_admission_limit :: u64
  fp_admission_observed :: u64
  fp_admission_requested :: u64
  fp_cumulative_admission_waiting_milliseconds :: u64
  fp_admission_waiting :: bool

definition empty_properties :: FailureProperties where
  "empty_properties = \<lparr>fp_failure_class = Class_CONFIGURATION, fp_phase = Phase_BIND,
     fp_replay_classification = NEVER_REPLAYABLE, fp_step = 0, fp_attempt = 0, fp_rows_exposed = 0,
     fp_remote_status_class = Remote_NONE, fp_terminating_budget = Budget_NONE,
     fp_cumulative_delay_milliseconds = 0, fp_exposure_state = UNACCEPTED,
     fp_cumulative_rate_limit_waiting_milliseconds = 0, fp_cumulative_remote_transport_milliseconds = 0,
     fp_rate_limit_events = 0, fp_rate_limit_waits = 0, fp_rate_limit_reason = RL_NONE,
     fp_rate_limit_waiting = False, fp_admission_reason = NO_REASON, fp_admission_scope = NO_SCOPE,
     fp_admission_limit = 0, fp_admission_observed = 0, fp_admission_requested = 0,
     fp_cumulative_admission_waiting_milliseconds = 0, fp_admission_waiting = False\<rparr>"

record ExecutionError =
  ee_stage :: ErrorStage
  ee_field :: string
  ee_safe_message :: string
  ee_properties :: FailureProperties
  ee_classified :: bool

definition unclassified_error :: "ErrorStage \<Rightarrow> string \<Rightarrow> string \<Rightarrow> ExecutionError" where
  "unclassified_error s f msg = \<lparr>ee_stage = s, ee_field = f, ee_safe_message = msg,
     ee_properties = empty_properties, ee_classified = False\<rparr>"

definition classified_error :: "ErrorStage \<Rightarrow> string \<Rightarrow> string \<Rightarrow> FailureProperties \<Rightarrow> ExecutionError" where
  "classified_error s f msg p = \<lparr>ee_stage = s, ee_field = f, ee_safe_message = msg,
     ee_properties = p, ee_classified = True\<rparr>"

subsection \<open>Classification\<close>

fun ClassifyFailureClass :: "ErrorStage \<Rightarrow> FailureClass" where
  "ClassifyFailureClass Stage_TRANSPORT = Class_TRANSPORT"
| "ClassifyFailureClass Stage_HTTP_STATUS = Class_REMOTE_STATUS"
| "ClassifyFailureClass Stage_DECODE = Class_DECODE"
| "ClassifyFailureClass Stage_SCHEMA = Class_SCHEMA"
| "ClassifyFailureClass Stage_POLICY = Class_DESTINATION_POLICY"
| "ClassifyFailureClass Stage_RESOURCE = Class_RESOURCE_BUDGET"
| "ClassifyFailureClass Stage_INTERNAL = Class_INTERNAL"
| "ClassifyFailureClass Stage_AUTHENTICATION = Class_CREDENTIAL_PROVIDER"
| "ClassifyFailureClass Stage_AUTHORIZATION = Class_AUTHORIZATION"
| "ClassifyFailureClass Stage_REMOTE_PROTOCOL = Class_PROTOCOL"

definition HttpStatusFailureProperties :: "u32 \<Rightarrow> bool \<Rightarrow> bool \<Rightarrow> FailureProperties" where
  "HttpStatusFailureProperties status auth_rejected retry_after_present =
     (let properties = empty_properties\<lparr>fp_phase := Phase_REQUEST, fp_step := 0, fp_attempt := 1,
            fp_rows_exposed := 0, fp_terminating_budget := Budget_NONE\<rparr> in
      if status = 429 \<or> (status = 502 \<or> status = 503 \<or> status = 504) \<and> retry_after_present then
        properties\<lparr>fp_failure_class := Class_RATE_LIMIT, fp_remote_status_class := Remote_RATE_LIMITED,
          fp_replay_classification := SERVER_DIRECTED_DELAY\<rparr>
      else if auth_rejected \<and> (status = 401 \<or> status = 403) then
        properties\<lparr>fp_failure_class := Class_AUTHORIZATION, fp_remote_status_class := Remote_CLIENT_ERROR,
          fp_replay_classification := REPLAYABLE_BEFORE_EXPOSURE\<rparr>
      else
        properties\<lparr>fp_failure_class := Class_REMOTE_STATUS,
          fp_remote_status_class := (if status \<ge> 500 then Remote_SERVER_ERROR else Remote_CLIENT_ERROR),
          fp_replay_classification := REPLAYABLE_BEFORE_EXPOSURE\<rparr>)"

definition ClassifyReplay :: "bool \<Rightarrow> bool \<Rightarrow> ReplayClassification" where
  "ClassifyReplay declared_replay_safe step_rows_exposed =
     (if \<not> declared_replay_safe \<or> step_rows_exposed then NEVER_REPLAYABLE else REPLAYABLE_BEFORE_EXPOSURE)"

definition BudgetDimensionFromField :: "string \<Rightarrow> BudgetDimension" where
  "BudgetDimensionFromField f =
     (if f = ''wall_milliseconds'' then Budget_TIME
      else if f = ''pages'' then Budget_PAGES
      else if f = ''request_attempts'' then Budget_ATTEMPTS
      else if f = ''decoded_records'' then Budget_RECORDS
      else if f = ''decoded_memory_bytes'' then Budget_MEMORY
      else if f = ''cumulative_waiting_milliseconds'' then Budget_WAITING
      else if f = ''response_bytes'' \<or> f = ''header_bytes'' \<or> f = ''decompressed_bytes'' \<or>
              f = ''request_body_bytes'' then Budget_RESPONSE_BYTES
      else Budget_NONE)"

definition ResourceBudgetFailureProperties :: "string \<Rightarrow> FailureProperties" where
  "ResourceBudgetFailureProperties f =
     empty_properties\<lparr>fp_failure_class := Class_RESOURCE_BUDGET, fp_phase := Phase_DECODE,
       fp_replay_classification := ClassifyReplay True False,
       fp_terminating_budget := BudgetDimensionFromField f\<rparr>"

definition LocalAdmissionFailureProperties ::
  "admission_reason \<Rightarrow> admission_scope \<Rightarrow> u64 \<Rightarrow> u64 \<Rightarrow> u64 \<Rightarrow> u64 \<Rightarrow> bool \<Rightarrow> FailurePhase \<Rightarrow> FailureProperties" where
  "LocalAdmissionFailureProperties rsn scope limit observed requested cumulative_waiting waiting phase =
     empty_properties\<lparr>fp_failure_class := Class_LOCAL_ADMISSION, fp_phase := phase,
       fp_replay_classification := NEVER_REPLAYABLE, fp_remote_status_class := Remote_NONE,
       fp_terminating_budget := Budget_NONE, fp_admission_reason := rsn, fp_admission_scope := scope,
       fp_admission_limit := limit, fp_admission_observed := observed, fp_admission_requested := requested,
       fp_cumulative_admission_waiting_milliseconds := cumulative_waiting, fp_admission_waiting := waiting\<rparr>"

definition FailurePropertiesFromError :: "ExecutionError \<Rightarrow> FailureProperties" where
  "FailurePropertiesFromError e =
     (if ee_classified e then ee_properties e
      else
        let properties = empty_properties\<lparr>fp_failure_class := ClassifyFailureClass (ee_stage e),
              fp_phase := Phase_DECODE, fp_replay_classification := ClassifyReplay True False\<rparr> in
        if ee_stage e = Stage_RESOURCE
        then properties\<lparr>fp_terminating_budget := BudgetDimensionFromField (ee_field e)\<rparr>
        else properties)"

definition EnrichFailureProperties :: "FailureProperties \<Rightarrow> u64 \<Rightarrow> u64 \<Rightarrow> FailureProperties" where
  "EnrichFailureProperties p step rows_exposed =
     p\<lparr>fp_step := step, fp_attempt := 1, fp_rows_exposed := rows_exposed\<rparr>"

definition EnrichRetryFailureProperties ::
  "FailureProperties \<Rightarrow> u64 \<Rightarrow> u64 \<Rightarrow> u64 \<Rightarrow> u64 \<Rightarrow> ExposureState \<Rightarrow> FailureProperties" where
  "EnrichRetryFailureProperties p step att rows_exposed cumulative_delay exposure =
     (let p1 = p\<lparr>fp_step := step, fp_attempt := att, fp_rows_exposed := rows_exposed,
            fp_cumulative_delay_milliseconds := cumulative_delay, fp_exposure_state := exposure\<rparr> in
      if exposure \<noteq> UNACCEPTED then p1\<lparr>fp_replay_classification := NEVER_REPLAYABLE\<rparr> else p1)"

subsection \<open>Names\<close>

fun FailureClassName :: "FailureClass \<Rightarrow> string" where
  "FailureClassName Class_CONFIGURATION = ''configuration''"
| "FailureClassName Class_AUTHORIZATION = ''authorization''"
| "FailureClassName Class_CREDENTIAL_PROVIDER = ''credential_provider''"
| "FailureClassName Class_DESTINATION_POLICY = ''destination_policy''"
| "FailureClassName Class_TRANSPORT = ''transport''"
| "FailureClassName Class_TIMEOUT = ''timeout''"
| "FailureClassName Class_REMOTE_STATUS = ''remote_status''"
| "FailureClassName Class_RATE_LIMIT = ''rate_limit''"
| "FailureClassName Class_PROTOCOL = ''protocol''"
| "FailureClassName Class_DECODE = ''decode''"
| "FailureClassName Class_SCHEMA = ''schema''"
| "FailureClassName Class_RESOURCE_BUDGET = ''resource_budget''"
| "FailureClassName Class_CANCELLATION = ''cancellation''"
| "FailureClassName Class_INTERNAL = ''internal''"
| "FailureClassName Class_LOCAL_ADMISSION = ''local_admission''"

fun ReplayClassificationName :: "ReplayClassification \<Rightarrow> string" where
  "ReplayClassificationName NEVER_REPLAYABLE = ''never_replayable''"
| "ReplayClassificationName REPLAYABLE_BEFORE_EXPOSURE = ''replayable_before_exposure''"
| "ReplayClassificationName ATOMIC_TRAVERSAL_STEP = ''atomic_traversal_step''"
| "ReplayClassificationName SERVER_DIRECTED_DELAY = ''server_directed_delay''"
| "ReplayClassificationName INDETERMINATE = ''indeterminate''"

fun RateLimitReasonName :: "RateLimitReason \<Rightarrow> string" where
  "RateLimitReasonName RL_NONE = ''none''"
| "RateLimitReasonName RL_POLICY_FAIL = ''policy_fail''"
| "RateLimitReasonName RL_GUIDANCE_MISSING = ''guidance_missing''"
| "RateLimitReasonName RL_MALFORMED_GUIDANCE = ''malformed_guidance''"
| "RateLimitReasonName RL_GUIDANCE_EXCEEDS_POLICY = ''guidance_exceeds_policy''"
| "RateLimitReasonName RL_DEADLINE_INSUFFICIENT = ''deadline_insufficient''"
| "RateLimitReasonName RL_WAITING_EXHAUSTED = ''waiting_exhausted''"
| "RateLimitReasonName RL_ATTEMPTS_EXHAUSTED = ''attempts_exhausted''"
| "RateLimitReasonName RL_QUEUE_SATURATED = ''queue_saturated''"
| "RateLimitReasonName RL_SCHEDULER_CLOSED = ''scheduler_closed''"
| "RateLimitReasonName RL_REPEATED_IMMEDIATE = ''repeated_immediate''"
| "RateLimitReasonName RL_BUCKET_CHANGED = ''bucket_changed''"
| "RateLimitReasonName RL_TICKET_EXHAUSTED = ''ticket_exhausted''"

fun AdmissionReasonName :: "admission_reason \<Rightarrow> string" where
  "AdmissionReasonName NO_REASON = ''none''"
| "AdmissionReasonName CREDENTIAL_RESOLUTION_QUEUE_SATURATED = ''credential_resolution_queue_saturated''"
| "AdmissionReasonName CREDENTIAL_RESOLUTION_QUEUE_TIMEOUT = ''credential_resolution_queue_timeout''"
| "AdmissionReasonName SCAN_QUEUE_SATURATED = ''scan_queue_saturated''"
| "AdmissionReasonName SCAN_QUEUE_TIMEOUT = ''scan_queue_timeout''"
| "AdmissionReasonName REQUEST_QUEUE_SATURATED = ''request_queue_saturated''"
| "AdmissionReasonName REQUEST_QUEUE_TIMEOUT = ''request_queue_timeout''"
| "AdmissionReasonName ADMISSION_WAITING_EXHAUSTED = ''admission_waiting_exhausted''"
| "AdmissionReasonName RETRY_WAIT_SATURATED = ''retry_wait_saturated''"
| "AdmissionReasonName RATE_LIMIT_WAIT_SATURATED = ''rate_limit_wait_saturated''"
| "AdmissionReasonName BUFFERED_BYTES_EXHAUSTED = ''buffered_bytes_exhausted''"
| "AdmissionReasonName BUFFERED_ROWS_EXHAUSTED = ''buffered_rows_exhausted''"
| "AdmissionReasonName RUNTIME_CLOSED = ''runtime_closed''"
| "AdmissionReasonName ADMISSION_TICKET_EXHAUSTED = ''ticket_exhausted''"

fun AdmissionScopeName :: "admission_scope \<Rightarrow> string" where
  "AdmissionScopeName NO_SCOPE = ''none''"
| "AdmissionScopeName GLOBAL_SCOPE = ''global''"
| "AdmissionScopeName CONNECTOR_SCOPE = ''connector''"
| "AdmissionScopeName DESTINATION_SCOPE = ''destination''"
| "AdmissionScopeName PRINCIPAL_SCOPE = ''principal''"
| "AdmissionScopeName BULKHEAD_SCOPE = ''bulkhead''"

fun FailurePhaseName :: "FailurePhase \<Rightarrow> string" where
  "FailurePhaseName Phase_BIND = ''bind''"
| "FailurePhaseName Phase_PLAN = ''plan''"
| "FailurePhaseName Phase_ADMIT = ''admit''"
| "FailurePhaseName Phase_REQUEST = ''request''"
| "FailurePhaseName Phase_TRANSPORT = ''transport''"
| "FailurePhaseName Phase_DECODE = ''decode''"
| "FailurePhaseName Phase_PAGINATE = ''paginate''"
| "FailurePhaseName Phase_EMIT = ''emit''"
| "FailurePhaseName Phase_CLOSE = ''close''"

fun BudgetDimensionName :: "BudgetDimension \<Rightarrow> string" where
  "BudgetDimensionName Budget_NONE = ''none''"
| "BudgetDimensionName Budget_TIME = ''time''"
| "BudgetDimensionName Budget_ATTEMPTS = ''attempts''"
| "BudgetDimensionName Budget_WAITING = ''waiting''"
| "BudgetDimensionName Budget_PAGES = ''pages''"
| "BudgetDimensionName Budget_RESPONSE_BYTES = ''response_bytes''"
| "BudgetDimensionName Budget_RECORDS = ''records''"
| "BudgetDimensionName Budget_MEMORY = ''memory''"

fun RemoteStatusClassName :: "RemoteStatusClass \<Rightarrow> string" where
  "RemoteStatusClassName Remote_NONE = ''none''"
| "RemoteStatusClassName Remote_SUCCESS = ''success''"
| "RemoteStatusClassName Remote_CLIENT_ERROR = ''client_error''"
| "RemoteStatusClassName Remote_RATE_LIMITED = ''rate_limited''"
| "RemoteStatusClassName Remote_SERVER_ERROR = ''server_error''"
| "RemoteStatusClassName Remote_GRAPHQL_ERRORS = ''graphql_errors''"

fun ExposureStateName :: "ExposureState \<Rightarrow> string" where
  "ExposureStateName UNACCEPTED = ''unaccepted''"
| "ExposureStateName ACCEPTED_UNEXPOSED = ''accepted_unexposed''"
| "ExposureStateName EXPOSED = ''exposed''"

lemma failure_names_injective:
  "inj FailureClassName" "inj ReplayClassificationName" "inj RateLimitReasonName" "inj AdmissionReasonName"
  "inj AdmissionScopeName" "inj FailurePhaseName" "inj BudgetDimensionName" "inj RemoteStatusClassName"
  "inj ExposureStateName"
  by (rule injI, rename_tac x y, case_tac x; case_tac y; simp)+

end
