(* ===== verification/Retry_Decision.thy ===== *)
theory Retry_Decision
  imports Http_Chunk_Decoder Resilience_Policy Rate_Limit_Guidance Rate_Limit_Coordinator Execution_Error Scan_Resources
begin

unbundle bit_operations_syntax

text \<open>
  The decisions of the HTTP retry controller, \<open>http_retry_controller.hpp\<close> under
  \<open>src/src/include/duckdb_api/internal/runtime/execution\<close>, which need no state: which response metadata is retained
  and how it is read, which failures may be repeated and after how long, the failure properties of a rate-limited
  step and the storage that is charged for one attempt, with the response values of \<open>http_transport.hpp\<close>.

  A string of the program has a content and a storage (its capacity, and whether the bytes lie inside the object);
  where the code measures storage, the records below carry it. The sizes of objects are those of the platform,
  a parameter.
\<close>

subsection \<open>Requests and responses\<close>

record string_storage =
  ss_capacity :: u64
  ss_inline :: bool

record HttpRequest =
  rq_method :: string
  rq_scheme :: string
  rq_host :: string
  rq_port :: u16
  rq_target :: string
  rq_headers :: "(string \<times> string) list"
  rq_body :: string
  rq_content_type :: string
  rq_target_storage :: string_storage
  rq_body_storage :: string_storage

record HttpObservedHeader =
  oh_name :: string
  oh_value :: string

record HttpResponseMetadata =
  rm_link_field_values :: "string list"
  rm_link_vector_capacity :: u64
  rm_link_storage :: "string_storage list"
  rm_retained_bytes :: u64
  rm_retry_after_present :: bool
  rm_rate_limit_fields :: "HttpObservedHeader list"
  rm_date_field_values :: "string list"

record HttpResponse =
  hr_status :: u32
  hr_header_bytes :: u64
  hr_response_bytes :: u64
  hr_decompressed_response_bytes :: u64
  hr_body :: string
  hr_body_storage :: string_storage
  hr_metadata :: HttpResponseMetadata

record HttpLimits =
  hl_max_request_body_bytes :: u64
  hl_max_header_bytes :: u64
  hl_max_response_bytes :: u64
  hl_max_decompressed_bytes :: u64
  hl_max_metadata_bytes :: u64
  hl_deadline :: int
  hl_retained_header_names :: "string list"
  hl_retain_date :: bool

datatype HttpTransportFailureKind = COULD_NOT_RESOLVE_HOST | COULD_NOT_CONNECT | SEND_FAILED | EMPTY_RESPONSE
  | RECEIVE_FAILED | OTHER_FAILURE

record HttpAttemptFacts =
  af_response_status :: u32
  af_header_bytes :: u64
  af_response_bytes :: u64
  af_decompressed_response_bytes :: u64

record HttpAttemptFailure =
  hf_kind :: HttpTransportFailureKind
  hf_facts :: HttpAttemptFacts
  hf_error :: ExecutionError

record platform =
  sizeof_string :: u64
  sizeof_HttpHeader :: u64
  sizeof_pointer :: u64

definition RetainedHttpStringAllocationBytes :: "string_storage \<Rightarrow> u64" where
  "RetainedHttpStringAllocationBytes s = (if ss_inline s then 0 else ss_capacity s + 1)"

definition TryRetainedHttpResponseBytes :: "HttpResponse \<Rightarrow> u64 option" where
  "TryRetainedHttpResponseBytes r =
     (let body = RetainedHttpStringAllocationBytes (hr_body_storage r) in
      if rm_retained_bytes (hr_metadata r) > uint64_max - body then None
      else Some (body + rm_retained_bytes (hr_metadata r)))"

fun retained_strings :: "u64 \<Rightarrow> string_storage list \<Rightarrow> u64" where
  "retained_strings result [] = result"
| "retained_strings result (s # rest) =
     (if \<not> ss_inline s then
        let allocation = ss_capacity s + 1 in
        if allocation > uint64_max - result then uint64_max else retained_strings (result + allocation) rest
      else retained_strings result rest)"

definition RetainedStringVectorBytes :: "platform \<Rightarrow> u64 \<Rightarrow> string_storage list \<Rightarrow> u64" where
  "RetainedStringVectorBytes pf capacity strings =
     (if capacity > uint64_max div sizeof_string pf then uint64_max
      else retained_strings (capacity * sizeof_string pf) strings)"

definition DiscardRateLimitMetadata :: "platform \<Rightarrow> HttpResponse \<Rightarrow> HttpResponse" where
  "DiscardRateLimitMetadata pf r =
     r\<lparr>hr_metadata := (hr_metadata r)\<lparr>rm_rate_limit_fields := [], rm_date_field_values := [],
        rm_retained_bytes := RetainedStringVectorBytes pf (rm_link_vector_capacity (hr_metadata r))
          (rm_link_storage (hr_metadata r))\<rparr>\<rparr>"

subsection \<open>Reading rate-limit metadata\<close>

definition RemainingOf :: "u64 \<Rightarrow> u64 \<Rightarrow> u64" where
  "RemainingOf limit used = (if used \<ge> limit then 0 else limit - used)"

definition AddBounded :: "int \<Rightarrow> u64 \<Rightarrow> int" where
  "AddBounded base amount =
     (if uint amount > int64_max \<or> base > int64_max - uint amount then int64_max else base + uint amount)"

definition RetainedHeaderNames :: "AdmittedRateLimitPolicy \<Rightarrow> string list" where
  "RetainedHeaderNames policy =
     (if \<not> WaitingEnabled policy then []
      else map pg_header_name (ar_guidance policy)
        @ (if ar_remaining_quota_header policy \<noteq> [] then [ar_remaining_quota_header policy] else [])
        @ (if ar_remote_bucket_header policy \<noteq> [] then [ar_remote_bucket_header policy] else []))"

definition RetainDate :: "AdmittedRateLimitPolicy \<Rightarrow> bool" where
  "RetainDate policy \<longleftrightarrow>
     list_ex (\<lambda>g. pg_format g = Planned_RETRY_AFTER \<or> pg_format g = Planned_UNIX_SECONDS) (ar_guidance policy)"

definition ValuesFor :: "HttpResponseMetadata \<Rightarrow> string \<Rightarrow> string list" where
  "ValuesFor metadata name = map oh_value (filter (\<lambda>f. oh_name f = name) (rm_rate_limit_fields metadata))"

definition IsDeclaredField :: "AdmittedRateLimitPolicy \<Rightarrow> string \<Rightarrow> bool" where
  "IsDeclaredField policy name \<longleftrightarrow>
     list_ex (\<lambda>g. pg_header_name g = name) (ar_guidance policy) \<or>
     (ar_remaining_quota_header policy \<noteq> [] \<and> ar_remaining_quota_header policy = name) \<or>
     (ar_remote_bucket_header policy \<noteq> [] \<and> ar_remote_bucket_header policy = name)"

definition HasOnlyDeclaredFields :: "AdmittedRateLimitPolicy \<Rightarrow> HttpResponseMetadata \<Rightarrow> bool" where
  "HasOnlyDeclaredFields policy metadata \<longleftrightarrow>
     list_all (\<lambda>f. IsDeclaredField policy (oh_name f)) (rm_rate_limit_fields metadata)"

definition TryParseUnsigned :: "string \<Rightarrow> u64 option" where
  "TryParseUnsigned v = (if v = [] then None else decimal_loop uint64_max 0 v)"

definition ValidateRemaining :: "AdmittedRateLimitPolicy \<Rightarrow> HttpResponseMetadata \<Rightarrow> bool" where
  "ValidateRemaining policy metadata \<longleftrightarrow>
     (if ar_remaining_quota_header policy = [] then True
      else
        let vs = ValuesFor metadata (ar_remaining_quota_header policy) in
        if length vs > 1 then False else vs = [] \<or> TryParseUnsigned (vs ! 0) \<noteq> None)"

definition blank :: "char \<Rightarrow> bool" where
  "blank c \<longleftrightarrow> c = CHR '' '' \<or> c = CHR 0x09"

definition trim_blanks :: "string \<Rightarrow> string" where
  "trim_blanks v = rev (dropWhile blank (rev (dropWhile blank v)))"

text \<open>The outcome is absent for a malformed bucket; inside it, the bucket if one is present.\<close>

definition TryBucket :: "AdmittedRateLimitPolicy \<Rightarrow> HttpResponseMetadata \<Rightarrow> string option option" where
  "TryBucket policy metadata =
     (if ar_remote_bucket_header policy = [] then Some None
      else
        let vs = ValuesFor metadata (ar_remote_bucket_header policy) in
        if length vs > 1 then None
        else if vs = [] then Some None
        else
          let bucket = trim_blanks (vs ! 0) in
          if length bucket = 0 \<or> length bucket > 128 then None
          else if list_ex (\<lambda>c. byte c < 0x21 \<or> byte c > 0x7e) bucket then None
          else Some (Some bucket))"

fun GuidanceFormat :: "PlannedRateLimitGuidanceFormat \<Rightarrow> RateLimitGuidanceFormat" where
  "GuidanceFormat Planned_RETRY_AFTER = RETRY_AFTER"
| "GuidanceFormat Planned_DELTA_SECONDS = DELTA_SECONDS"
| "GuidanceFormat Planned_UNIX_SECONDS = UNIX_SECONDS"

definition ParseGuidance ::
  "AdmittedRateLimitPolicy \<Rightarrow> HttpResponseMetadata \<Rightarrow> int \<times> int \<Rightarrow> RateLimitGuidanceResult" where
  "ParseGuidance policy metadata receipt =
     ParseRateLimitGuidance
       \<lparr>guidance = map (\<lambda>g. \<lparr>canonical_field_name = pg_header_name g, format = GuidanceFormat (pg_format g),
                              field_values = ValuesFor metadata (pg_header_name g)\<rparr>) (ar_guidance policy),
        date_values = rm_date_field_values metadata, wall_milliseconds = fst receipt,
        steady_milliseconds = snd receipt, maximum_delay_milliseconds = ar_max_delay_milliseconds policy\<rparr>"

fun GuidanceReason :: "RateLimitGuidanceReason \<Rightarrow> RateLimitReason" where
  "GuidanceReason RateLimitGuidanceReason.NO_REASON = RL_NONE"
| "GuidanceReason GUIDANCE_MISSING = RL_GUIDANCE_MISSING"
| "GuidanceReason MALFORMED_GUIDANCE = RL_MALFORMED_GUIDANCE"
| "GuidanceReason GUIDANCE_EXCEEDS_POLICY = RL_GUIDANCE_EXCEEDS_POLICY"

fun AcquireReason :: "acquire_status \<Rightarrow> bool \<Rightarrow> RateLimitReason" where
  "AcquireReason QUEUE_SATURATED budget_bound = RL_QUEUE_SATURATED"
| "AcquireReason SCHEDULER_CLOSED budget_bound = RL_SCHEDULER_CLOSED"
| "AcquireReason TICKET_EXHAUSTED budget_bound = RL_TICKET_EXHAUSTED"
| "AcquireReason DEADLINE_REACHED budget_bound = (if budget_bound then RL_WAITING_EXHAUSTED else RL_DEADLINE_INSUFFICIENT)"
| "AcquireReason ACQUIRED budget_bound = RL_NONE"
| "AcquireReason CANCELLED budget_bound = RL_NONE"

subsection \<open>Repeating an attempt\<close>

function nominal_loop :: "u64 \<Rightarrow> u64 \<Rightarrow> u64 \<Rightarrow> u64 \<Rightarrow> u64" where
  "nominal_loop index failed_attempt max_delay nominal =
     (if index < failed_attempt \<and> nominal < max_delay
      then nominal_loop (index + 1) failed_attempt max_delay
             (if nominal > max_delay div 2 then max_delay else nominal * 2)
      else nominal)"
  by pat_completeness auto

termination
  by (relation "measure (\<lambda>(index, failed_attempt, _, _). unat failed_attempt - unat index)")
    (auto simp: succ_below word_less_nat_alt)

declare nominal_loop.simps [simp del]

definition ComputeRetryDelayMilliseconds :: "u64 \<Rightarrow> u64 \<Rightarrow> u64 \<Rightarrow> u64" where
  "ComputeRetryDelayMilliseconds failed_attempt max_delay seed =
     (if failed_attempt = 0 \<or> max_delay = 0 then 0
      else
        let nominal = min (nominal_loop 1 failed_attempt max_delay 10) max_delay;
            percent = 75 + ((seed XOR (failed_attempt * 0x9e3779b97f4a7c15)) mod 51);
            jittered = (if nominal > uint64_max div percent then nominal else (nominal * percent) div 100);
            lower = (if nominal > (uint64_max - 99) div 75 then nominal else (nominal * 75 + 99) div 100);
            upper = (if nominal > uint64_max div 125 then nominal else (nominal * 125) div 100) in
        min max_delay (max 1 (max lower (min upper jittered))))"

definition IsRetryableTransportFailure :: "HttpAttemptFailure \<Rightarrow> bool" where
  "IsRetryableTransportFailure failure \<longleftrightarrow>
     (let facts = hf_facts failure in
      if af_response_status facts \<noteq> 0 \<or> af_header_bytes facts \<noteq> 0 \<or> af_response_bytes facts \<noteq> 0 \<or>
         af_decompressed_response_bytes facts \<noteq> 0 then False
      else case hf_kind failure of OTHER_FAILURE \<Rightarrow> False | _ \<Rightarrow> True)"

definition IsRetryableGatewayResponse :: "HttpResponse \<Rightarrow> bool" where
  "IsRetryableGatewayResponse r \<longleftrightarrow>
     (hr_status r = 502 \<or> hr_status r = 503 \<or> hr_status r = 504) \<and> \<not> rm_retry_after_present (hr_metadata r)"

definition FactsUsage :: "HttpAttemptFacts \<Rightarrow> transport_usage" where
  "FactsUsage f = \<lparr>tu_header_bytes = af_header_bytes f, tu_wire_response_bytes = af_response_bytes f,
     tu_decompressed_response_bytes = af_decompressed_response_bytes f\<rparr>"

definition ResponseUsage :: "HttpResponse \<Rightarrow> transport_usage" where
  "ResponseUsage r = \<lparr>tu_header_bytes = hr_header_bytes r, tu_wire_response_bytes = hr_response_bytes r,
     tu_decompressed_response_bytes = hr_decompressed_response_bytes r\<rparr>"

subsection \<open>Storage charged for an attempt\<close>

definition AddEnvelopeBytes :: "u64 \<Rightarrow> u64 \<Rightarrow> u64" where
  "AddEnvelopeBytes so_far amount = (if amount > uint64_max - so_far then uint64_max else so_far + amount)"

definition envelope_parts :: "platform \<Rightarrow> page_limits \<Rightarrow> u64 \<Rightarrow> u64 list" where
  "envelope_parts pf limits max_metadata_bytes =
     replicate 3 (HttpStringAllocationLimit 8192)
     @ [HttpStringAllocationLimit 253, HttpStringAllocationLimit (8 + 253 + 1 + 5 + 8192)]
     @ replicate 6 (pl_header_bytes limits)
     @ [64 * sizeof_HttpHeader pf, 34 * sizeof_HttpHeader pf * 2, 34 * sizeof_string pf, 34 * sizeof_pointer pf * 2,
        HttpStringAllocationLimit (pl_serialized_request_body_bytes limits),
        HttpStringAllocationLimit (max (pl_wire_response_bytes limits) (pl_decompressed_response_bytes limits)),
        HttpStringAllocationLimit (pl_decompressed_response_bytes limits), max_metadata_bytes]"

definition AttemptBufferEnvelope :: "platform \<Rightarrow> page_limits \<Rightarrow> u64 \<Rightarrow> u64" where
  "AttemptBufferEnvelope pf limits max_metadata_bytes =
     fold (\<lambda>amount result. AddEnvelopeBytes result amount) (envelope_parts pf limits max_metadata_bytes)
       (HttpStringAllocationLimit 8192)"

subsection \<open>Saturating sums\<close>

lemma unat_u64_bound: "unat (a::u64) \<le> 2 ^ 64 - 1"
proof -
  have "unat a < 2 ^ LENGTH(64)" by (rule unsigned_less)
  then show ?thesis by simp
qed

lemma add_envelope_exact: "unat (AddEnvelopeBytes a b) = min (2 ^ 64 - 1) (unat a + unat b)"
proof -
  note a = unat_u64_bound [of a]
  have d: "unat (uint64_max - a) = 2 ^ 64 - 1 - unat a" by (subst unat_sub_le) (rule unat_u64_le_max, simp)
  show ?thesis
  proof (cases "b > uint64_max - a")
    case True
    then have "2 ^ 64 - 1 - unat a < unat b" unfolding word_less_nat_alt d .
    then have "2 ^ 64 - 1 \<le> unat a + unat b" using a by linarith
    then show ?thesis using True by (simp add: AddEnvelopeBytes_def)
  next
    case False
    then have "unat b \<le> 2 ^ 64 - 1 - unat a" unfolding not_less word_le_nat_alt d .
    then have "unat a + unat b \<le> 2 ^ 64 - 1" using a by linarith
    moreover have "unat (a + b) = unat a + unat b"
      using False guarded_add(1) [OF unat_u64_le_max, of b a] by (simp add: not_less)
    ultimately show ?thesis using False by (simp add: AddEnvelopeBytes_def)
  qed
qed

lemma envelope_fold:
  "unat (fold (\<lambda>amount result. AddEnvelopeBytes result amount) parts a) =
   min (2 ^ 64 - 1) (unat a + sum_list (map unat parts))"
proof (induction parts arbitrary: a)
  case Nil
  show ?case using unat_u64_bound [of a] by (simp add: min_def)
next
  case (Cons b parts)
  show ?case unfolding fold.simps comp_apply Cons add_envelope_exact by (simp add: min_def)
qed

lemma envelope_exact:
  "unat (AttemptBufferEnvelope pf limits max_metadata_bytes) =
   min (2 ^ 64 - 1) (8256 + sum_list (map unat (envelope_parts pf limits max_metadata_bytes)))"
  unfolding AttemptBufferEnvelope_def envelope_fold by (simp add: HttpStringAllocationLimit_def)

subsection \<open>Retained fields\<close>

lemma retained_fields_declared:
  "WaitingEnabled policy \<Longrightarrow> IsDeclaredField policy name \<longleftrightarrow> name \<in> set (RetainedHeaderNames policy)"
  by (auto simp: IsDeclaredField_def RetainedHeaderNames_def list_ex_iff)

lemma unsigned_exact:
  "TryParseUnsigned v =
     (if v \<noteq> [] \<and> list_all IsDigit v \<and> decimal_number 0 v < 2 ^ 64 then Some (of_nat (decimal_number 0 v)) else None)"
proof -
  have nine: "(9::u64) \<le> uint64_max" by (rule unat_u64_le_max)
  have "decimal_number 0 v \<le> unat uint64_max \<longleftrightarrow> decimal_number 0 v < 2 ^ 64" by (simp add: less_Suc_eq_le [symmetric])
  then show ?thesis
    unfolding TryParseUnsigned_def decimal_loop_exact [OF nine unat_u64_le_max] by simp
qed

lemma bucket_shape:
  assumes "TryBucket policy metadata = Some (Some bucket)"
  shows "bucket \<noteq> [] \<and> length bucket \<le> 128 \<and> list_all (\<lambda>c. 0x21 \<le> byte c \<and> byte c \<le> 0x7e) bucket \<and>
         (\<exists>v. ValuesFor metadata (ar_remote_bucket_header policy) = [v] \<and> bucket = trim_blanks v)"
proof -
  define vs where "vs = ValuesFor metadata (ar_remote_bucket_header policy)"
  have "length vs \<le> 1" "vs \<noteq> []" "bucket = trim_blanks (vs ! 0)" "bucket \<noteq> []" "length bucket \<le> 128"
    "\<not> list_ex (\<lambda>c. byte c < 0x21 \<or> byte c > 0x7e) bucket"
    using assms unfolding TryBucket_def Let_def vs_def [symmetric] by (auto split: if_splits)
  moreover from this(1,2) have "vs = [vs ! 0]" by (cases vs) auto
  ultimately show ?thesis unfolding vs_def by (auto simp: list_ex_iff list_all_iff not_less)
qed

subsection \<open>The delay before a repeat\<close>

lemma nominal_loop_exact:
  assumes "1 \<le> index" and "0 < nominal"
  shows "min (unat (nominal_loop index failed_attempt max_delay nominal)) (unat max_delay) =
         min (unat max_delay) (unat nominal * 2 ^ (unat failed_attempt - unat index))"
  using assms
proof (induction index failed_attempt max_delay nominal rule: nominal_loop.induct)
  case (1 index failed_attempt max_delay nominal)
  show ?case
  proof (cases "index < failed_attempt \<and> nominal < max_delay")
    case False
    have "unat nominal * 1 \<le> unat nominal * 2 ^ k" for k by (intro mult_le_mono2) simp
    then have "unat max_delay \<le> unat nominal * 2 ^ k" if "max_delay \<le> nominal" for k
      using that by (metis le_trans nat_mult_1_right word_le_nat_alt)
    moreover have "unat failed_attempt - unat index = 0" if "\<not> index < failed_attempt"
      using that by (simp add: word_less_nat_alt)
    moreover have "nominal_loop index failed_attempt max_delay nominal = nominal"
      using False by (simp only: nominal_loop.simps [of index failed_attempt max_delay nominal] if_False)
    ultimately show ?thesis using False by (auto simp: not_less word_le_nat_alt min_def)
  next
    case True
    define doubled where "doubled = (if nominal > max_delay div 2 then max_delay else nominal * 2)"
    have steps: "unat failed_attempt - unat index = Suc (unat failed_attempt - unat (index + 1))"
      using True succ_below(1) [of index failed_attempt] by (auto simp: word_less_nat_alt)
    have index: "1 \<le> index + 1" using True succ_below(1) [of index failed_attempt] by (simp add: word_le_nat_alt)
    have "0 < max_delay" using True by (metis order.strict_trans word_neq_0_conv word_not_simps(1))
    have half: "nominal > max_delay div 2 \<longleftrightarrow> unat max_delay < 2 * unat nominal"
      by (simp add: word_less_nat_alt unat_div less_mult_imp_div_less mult.commute) linarith
    have "unat (nominal * 2) = 2 * unat nominal" if "\<not> nominal > max_delay div 2"
      using that half unat_u64_bound [of max_delay] by (simp add: unat_word_ariths)
    then have double: "unat doubled = (if unat max_delay < 2 * unat nominal then unat max_delay else 2 * unat nominal)"
      using half by (simp add: doubled_def)
    have pos: "0 < doubled" using double \<open>0 < nominal\<close> \<open>0 < max_delay\<close> by (simp add: word_less_nat_alt)
    have "nominal_loop index failed_attempt max_delay nominal = nominal_loop (index + 1) failed_attempt max_delay doubled"
      using True unfolding doubled_def
      by (simp only: nominal_loop.simps [of index failed_attempt max_delay nominal] simp_thms if_True)
    then have "min (unat (nominal_loop index failed_attempt max_delay nominal)) (unat max_delay) =
        min (unat max_delay) (unat doubled * 2 ^ (unat failed_attempt - unat (index + 1)))"
      using 1(1) [OF True index] pos unfolding doubled_def by simp
    also have "\<dots> = min (unat max_delay) (unat nominal * 2 ^ (unat failed_attempt - unat index))"
    proof (cases "unat max_delay < 2 * unat nominal")
      case True
      have "2 * unat nominal * 1 \<le> 2 * unat nominal * 2 ^ k" for k by (intro mult_le_mono2) simp
      then have "unat max_delay \<le> 2 * unat nominal * 2 ^ k" for k using True by (metis le_trans less_imp_le nat_mult_1_right)
      moreover have "unat max_delay * 1 \<le> unat max_delay * 2 ^ k" for k by (intro mult_le_mono2) simp
      ultimately show ?thesis using True by (simp add: double steps mult_ac)
    next
      case False
      then show ?thesis by (simp add: double steps mult_ac)
    qed
    finally show ?thesis .
  qed
qed

lemma scaled_exact:
  assumes "0 < unat percent"
  shows "nominal > uint64_max div percent \<longleftrightarrow> 2 ^ 64 - 1 < unat nominal * unat (percent::u64)"
    and "\<not> nominal > uint64_max div percent \<Longrightarrow> unat (nominal * percent) = unat nominal * unat percent"
proof -
  have m: "unat uint64_max = 2 ^ 64 - 1" by simp
  have "(2 ^ 64 - 1) div unat percent < unat nominal \<longleftrightarrow> 2 ^ 64 - 1 < unat nominal * unat percent"
    using div_less_iff_less_mult [OF assms] by auto
  then show eq: "nominal > uint64_max div percent \<longleftrightarrow> 2 ^ 64 - 1 < unat nominal * unat percent"
    unfolding word_less_nat_alt unat_div m .
  assume "\<not> nominal > uint64_max div percent"
  then have "unat nominal * unat percent < 2 ^ 64" using eq by simp
  then show "unat (nominal * percent) = unat nominal * unat percent" by (simp add: unat_word_ariths)
qed

lemma percent_range:
  "75 \<le> unat (75 + (w mod 51) :: u64)" "unat (75 + (w mod 51) :: u64) \<le> 125"
proof -
  have "unat (w mod 51) < 51" by (simp add: unat_mod)
  then have "unat (75 + (w mod 51)) = 75 + unat (w mod 51)" by (simp add: unat_word_ariths)
  then show "75 \<le> unat (75 + (w mod 51))" "unat (75 + (w mod 51)) \<le> 125"
    using \<open>unat (w mod 51) < 51\<close> by simp_all
qed

text \<open>The three candidates of the jitter, as naturals.\<close>

lemma jittered_range:
  fixes nominal w :: u64
  defines "percent \<equiv> 75 + (w mod 51)"
  defines "jittered \<equiv> (if nominal > uint64_max div percent then nominal else (nominal * percent) div 100)"
    and "upper \<equiv> (if nominal > uint64_max div 125 then nominal else (nominal * 125) div 100)"
    and "lower \<equiv> (if nominal > (uint64_max - 99) div 75 then nominal else (nominal * 75 + 99) div 100)"
  shows "100 * unat (min upper jittered) \<le> 125 * unat nominal"
    and "75 * unat nominal \<le> 100 * unat lower" and "0 < nominal \<Longrightarrow> 100 * unat lower \<le> 125 * unat nominal"
    and "0 < nominal \<Longrightarrow> 0 < unat lower"
proof -
  have scale: "100 * unat (if nominal > uint64_max div p then nominal else (nominal * p) div 100) \<le> 125 * unat nominal"
    if "100 \<le> unat p" "unat p \<le> 125" for p :: u64
  proof -
    have "100 * (unat nominal * unat p div 100) \<le> unat nominal * unat p" by simp
    also have "\<dots> \<le> unat nominal * 125" using that(2) by (rule mult_le_mono2)
    finally show ?thesis using scaled_exact [of p nominal] that(1) by (simp add: unat_div mult.commute)
  qed
  have "unat (min upper jittered) \<le> unat upper" by (simp add: unat_min)
  moreover have "100 * unat upper \<le> 125 * unat nominal" unfolding upper_def by (rule scale) simp_all
  ultimately show "100 * unat (min upper jittered) \<le> 125 * unat nominal" by linarith
  have low: "unat ((nominal * 75 + 99) div 100) = (unat nominal * 75 + 99) div 100"
    if "\<not> nominal > (uint64_max - 99) div 75"
  proof -
    have "unat nominal \<le> (2 ^ 64 - 1 - 99) div 75" using that by (simp add: not_less word_le_nat_alt unat_div unat_sub_le)
    then have "unat nominal * 75 + 99 < 2 ^ 64" by simp
    then show ?thesis by (simp add: unat_div unat_word_ariths)
  qed
  have "75 * n \<le> 100 * ((n * 75 + 99) div 100)" for n :: nat by linarith
  then show "75 * unat nominal \<le> 100 * unat lower" using low by (simp add: lower_def)
  have "100 * ((n * 75 + 99) div 100) \<le> 125 * n" if "0 < n" for n :: nat
  proof (cases "n \<le> 1")
    case True
    then have "n = 1" using that by simp
    then show ?thesis by simp
  next
    case False
    then show ?thesis by linarith
  qed
  then show "100 * unat lower \<le> 125 * unat nominal" if "0 < nominal"
    using low that by (simp add: lower_def word_less_nat_alt)
  show "0 < unat lower" if "0 < nominal"
    using that \<open>75 * unat nominal \<le> 100 * unat lower\<close> by (simp add: word_less_nat_alt)
qed

text \<open>
  The delay before a repeat. It is zero exactly when nothing failed or the policy allows no delay; otherwise it
  is at least one millisecond, never above the policy's ceiling, and within 75 and 125 per cent of the nominal
  delay, which is ten milliseconds doubled once per earlier failure and capped by the ceiling, whatever the seed of
  the jitter and with no wrap-around at any magnitude of the arguments.
\<close>

lemma retry_delay_bounds:
  "let delay = unat (ComputeRetryDelayMilliseconds failed_attempt max_delay seed);
       nominal = min (unat max_delay) (10 * 2 ^ (unat failed_attempt - 1)) in
   if failed_attempt = 0 \<or> max_delay = 0 then delay = 0
   else 1 \<le> delay \<and> delay \<le> unat max_delay \<and> 75 * nominal \<le> 100 * delay \<and> 100 * delay \<le> 125 * nominal"
proof (cases "failed_attempt = 0 \<or> max_delay = 0")
  case False
  define nominal where "nominal = min (nominal_loop 1 failed_attempt max_delay 10) max_delay"
  define percent where "percent = 75 + ((seed XOR (failed_attempt * 0x9e3779b97f4a7c15)) mod 51)"
  define jittered where "jittered = (if nominal > uint64_max div percent then nominal else (nominal * percent) div 100)"
  define lower where "lower = (if nominal > (uint64_max - 99) div 75 then nominal else (nominal * 75 + 99) div 100)"
  define upper where "upper = (if nominal > uint64_max div 125 then nominal else (nominal * 125) div 100)"
  have delay: "ComputeRetryDelayMilliseconds failed_attempt max_delay seed =
      min max_delay (max 1 (max lower (min upper jittered)))"
    using False unfolding ComputeRetryDelayMilliseconds_def Let_def nominal_def percent_def jittered_def lower_def upper_def
    by (simp only: if_False)
  have exact: "unat nominal = min (unat max_delay) (10 * 2 ^ (unat failed_attempt - 1))"
    using nominal_loop_exact [of 1 10 failed_attempt max_delay] by (simp add: nominal_def unat_min)
  moreover have "0 < unat max_delay" using False by (simp add: unat_gt_0)
  ultimately have "0 < unat nominal" by simp
  then have pos: "0 < nominal" by (simp add: word_less_nat_alt)
  have range: "100 * unat (min upper jittered) \<le> 125 * unat nominal"
    unfolding upper_def jittered_def percent_def by (rule jittered_range(1))
  have low: "75 * unat nominal \<le> 100 * unat lower" "100 * unat lower \<le> 125 * unat nominal" "0 < unat lower"
    unfolding lower_def by (rule jittered_range(2) jittered_range(3) [OF pos] jittered_range(4) [OF pos])+
  define d where "d = unat (max lower (min upper jittered))"
  have "d = max (unat lower) (unat (min upper jittered))" by (simp add: d_def unat_max)
  then have "1 \<le> d" "75 * unat nominal \<le> 100 * d" "100 * d \<le> 125 * unat nominal"
    using range low by (simp_all add: max_def)
  moreover have "unat (ComputeRetryDelayMilliseconds failed_attempt max_delay seed) = min (unat max_delay) (max 1 d)"
    unfolding delay d_def by (simp add: unat_min unat_max)
  moreover have "unat nominal \<le> unat max_delay" by (simp add: exact)
  ultimately show ?thesis
    using False \<open>0 < unat max_delay\<close> unfolding exact [symmetric] Let_def by (simp add: min_def)
qed (simp add: ComputeRetryDelayMilliseconds_def)

end
