(* ===== verification/Http_Retry_Controller.thy ===== *)
theory Http_Retry_Controller
  imports Retry_Decision
begin

text \<open>
  The retry controller, \<open>ExecuteHttpStepWithRetry\<close> of \<open>http_retry_controller.hpp\<close>: one step of a scan, repeated
  after retryable failures and rate-limited responses until a response is accepted or a budget ends it.

  The controller talks to the clock, the cancellation control, the transport and the shared admission controller and
  rate-limit coordinator, whose answers depend on other scans and on the network. They are the functions of the record
  \<open>environment\<close>; the number of a call selects its answer, so every sequence of answers is some environment. The state
  \<open>driver\<close> holds the scan's accounting (the real operations of \<open>Scan_Resources\<close>), the execution state, the published
  diagnostics, the permits the step holds, and a log of the attempts and waits with the permits held at each.

  A computation maps a state to an outcome and a state: a result, an exception, or \<open>Unfinished\<close> when the fuel of a
  loop runs out. The two loops take fuel; that enough of it always exists is part of what is proved. Permits are
  released by destructors when an exception leaves the step, which \<open>release_permits\<close> models.
\<close>

subsection \<open>State\<close>

record ResilienceExecutionState =
  ex_ordinary_retry_repeats :: u64
  ex_rate_limit_repeats :: u64
  ex_rate_limit_events :: u64
  ex_rate_limit_waits :: u64
  ex_rate_limit_reason :: RateLimitReason
  ex_rate_limit_waiting :: bool

record ExecutionSnapshot =
  sn_effective_max_attempts_per_step :: u64
  sn_effective_max_attempts_per_scan :: u64
  sn_effective_max_delay_milliseconds :: u64
  sn_effective_max_cumulative_waiting_milliseconds_per_scan :: u64
  sn_aggregate_attempts :: u64
  sn_cumulative_delay_milliseconds :: u64
  sn_current_step :: u64
  sn_exposure_state :: ExposureState
  sn_effective_max_rate_limit_attempts_per_step :: u64
  sn_effective_max_rate_limit_attempts_per_scan :: u64
  sn_effective_max_rate_limit_delay_milliseconds :: u64
  sn_effective_max_rate_limit_waiting_milliseconds_per_scan :: u64
  sn_effective_max_combined_waiting_milliseconds_per_scan :: u64
  sn_cumulative_rate_limit_waiting_milliseconds :: u64
  sn_cumulative_remote_transport_milliseconds :: u64
  sn_rate_limit_events :: u64
  sn_rate_limit_waits :: u64
  sn_rate_limit_reason :: RateLimitReason
  sn_rate_limit_waiting :: bool
  sn_admission_reason :: admission_reason
  sn_admission_scope :: admission_scope
  sn_admission_limit :: u64
  sn_admission_observed :: u64
  sn_admission_requested :: u64
  sn_cumulative_admission_waiting_milliseconds :: u64
  sn_admission_waiting :: bool

record RateLimitWaitDiagnostics =
  wd_waiting :: bool
  wd_snapshot :: "ExecutionSnapshot option"

definition Publish :: "ExecutionSnapshot \<Rightarrow> RateLimitWaitDiagnostics \<Rightarrow> RateLimitWaitDiagnostics" where
  "Publish s w = w\<lparr>wd_snapshot := Some s, wd_waiting := True\<rparr>"

definition ClearWait :: "RateLimitWaitDiagnostics \<Rightarrow> RateLimitWaitDiagnostics" where
  "ClearWait w = w\<lparr>wd_waiting := False\<rparr>"

definition TryRead :: "RateLimitWaitDiagnostics \<Rightarrow> ExecutionSnapshot option" where
  "TryRead w = (if \<not> wd_waiting w then None else wd_snapshot w)"

datatype wait_kind = Quota_Wait | Retry_Sleep

text \<open>Each event carries whether a request permit was held and the bytes reserved for buffers, if any.\<close>

datatype event = Sent bool "u64 option" | Waited wait_kind bool "u64 option"

record driver =
  dv_accounting :: accounting
  dv_execution :: ResilienceExecutionState
  dv_diagnostics :: RateLimitWaitDiagnostics
  dv_calls :: nat
  dv_request :: bool
  dv_buffer :: "u64 option"
  dv_waiter :: bool
  dv_quota :: bool
  dv_body_bytes :: u64
  dv_log :: "event list"

datatype step_error = Step_Cancelled
  | Step_ResourceError scan_resource_error
  | Step_ExecutionError ExecutionError
  | Step_AttemptCancelled HttpAttemptFacts
  | Step_AttemptFailure HttpAttemptFailure

datatype 'a ended = Finished 'a | Threw step_error | Unfinished

type_synonym 'a step = "driver \<Rightarrow> 'a ended \<times> driver"

record 'i environment =
  env_platform :: platform
  env_admission_profile :: admission_profile
  env_destination :: destination_key
  env_principal :: "'i principal"
  env_cancelled :: "nat \<Rightarrow> bool"
  env_now :: "nat \<Rightarrow> int"
  env_clock :: "nat \<Rightarrow> int"
  env_receipt :: "nat \<Rightarrow> int \<times> int"
  env_admit_request :: "nat \<Rightarrow> wait_policy \<Rightarrow> admission_status \<times> observation"
  env_admit_waiter :: "nat \<Rightarrow> bool \<Rightarrow> admission_status \<times> observation"
  env_reserve_bytes :: "nat \<Rightarrow> u64 \<Rightarrow> admission_status \<times> observation"
  env_resize_bytes :: "nat \<Rightarrow> u64 \<Rightarrow> admission_status \<times> observation"
  env_reserve_rows :: "nat \<Rightarrow> u64 \<Rightarrow> admission_status \<times> observation"
  env_terminal_reason :: "nat \<Rightarrow> admission_reason"
  env_acquire :: "nat \<Rightarrow> 'i quota_key \<Rightarrow> int \<Rightarrow> int \<Rightarrow> acquire_status"
  env_requeue :: "nat \<Rightarrow> int \<Rightarrow> int \<Rightarrow> acquire_status"
  env_request :: "nat \<Rightarrow> u64 \<Rightarrow> step_error + HttpRequest"
  env_get :: "nat \<Rightarrow> HttpRequest \<Rightarrow> HttpLimits \<Rightarrow> step_error + HttpResponse"
  env_post :: "nat \<Rightarrow> HttpRequest \<Rightarrow> HttpLimits \<Rightarrow> step_error + HttpResponse"

record step_args =
  sa_policy :: RetryPlan
  sa_rate_limit :: AdmittedRateLimitPolicy
  sa_max_metadata_bytes :: u64
  sa_jitter_seed :: u64

record 'i step_locals =
  lc_ordinary_step_repeats :: u64
  lc_rate_limit_step_repeats :: u64
  lc_immediate_seen :: bool
  lc_bucket_frozen :: bool
  lc_frozen_bucket :: "string option"
  lc_frozen_rate_limit_status :: u32
  lc_quota_key :: "'i quota_key option"

subsection \<open>Computations\<close>

definition returns :: "'a \<Rightarrow> 'a step" where
  "returns x d = (Finished x, d)"

definition throws :: "step_error \<Rightarrow> 'a step" where
  "throws e d = (Threw e, d)"

definition unfinished :: "'a step" where
  "unfinished d = (Unfinished, d)"

definition step_bind :: "'a step \<Rightarrow> ('a \<Rightarrow> 'b step) \<Rightarrow> 'b step" where
  "step_bind m k d =
     (case m d of
        (Finished x, d1) \<Rightarrow> k x d1
      | (Threw e, d1) \<Rightarrow> (Threw e, d1)
      | (Unfinished, d1) \<Rightarrow> (Unfinished, d1))"

definition handles :: "'a step \<Rightarrow> (step_error \<Rightarrow> 'a step) \<Rightarrow> 'a step" where
  "handles m h d = (case m d of (Threw e, d1) \<Rightarrow> h e d1 | r \<Rightarrow> r)"

definition gets :: "(driver \<Rightarrow> 'a) \<Rightarrow> 'a step" where
  "gets f d = (Finished (f d), d)"

definition modifies :: "(driver \<Rightarrow> driver) \<Rightarrow> unit step" where
  "modifies f d = (Finished (), f d)"

definition asks :: "(nat \<Rightarrow> 'a) \<Rightarrow> 'a step" where
  "asks f d = (Finished (f (dv_calls d)), d\<lparr>dv_calls := Suc (dv_calls d)\<rparr>)"

definition accounts :: "(accounting \<Rightarrow> 'a outcome) \<Rightarrow> 'a step" where
  "accounts f d =
     (case f (dv_accounting d) of
        (Inl e, a) \<Rightarrow> (Threw (Step_ResourceError e), d\<lparr>dv_accounting := a\<rparr>)
      | (Inr x, a) \<Rightarrow> (Finished x, d\<lparr>dv_accounting := a\<rparr>))"

definition requires :: "(accounting \<Rightarrow> scan_resource_error + 'a) \<Rightarrow> 'a step" where
  "requires f d =
     (case f (dv_accounting d) of
        Inl e \<Rightarrow> (Threw (Step_ResourceError e), d)
      | Inr x \<Rightarrow> (Finished x, d))"

definition answers :: "(nat \<Rightarrow> step_error + 'a) \<Rightarrow> 'a step" where
  "answers f = step_bind (asks f) (\<lambda>r. case r of Inl e \<Rightarrow> throws e | Inr x \<Rightarrow> returns x)"

definition updates_execution :: "(ResilienceExecutionState \<Rightarrow> ResilienceExecutionState) \<Rightarrow> unit step" where
  "updates_execution f = modifies (\<lambda>d. d\<lparr>dv_execution := f (dv_execution d)\<rparr>)"

definition release_permits :: "driver \<Rightarrow> driver" where
  "release_permits d = d\<lparr>dv_request := False, dv_buffer := None, dv_waiter := False, dv_quota := False\<rparr>"

definition CheckCancelled :: "'i environment \<Rightarrow> unit step" where
  "CheckCancelled env =
     step_bind (asks (env_cancelled env)) (\<lambda>c. if c then throws Step_Cancelled else returns ())"

subsection \<open>Snapshots and failures\<close>

definition EnrichRateLimitFailureProperties ::
  "FailureProperties \<Rightarrow> counters \<Rightarrow> ResilienceExecutionState \<Rightarrow> FailureProperties" where
  "EnrichRateLimitFailureProperties p c st =
     p\<lparr>fp_cumulative_rate_limit_waiting_milliseconds := ct_cumulative_rate_limit_waiting_milliseconds c,
       fp_cumulative_remote_transport_milliseconds := ct_cumulative_remote_transport_milliseconds c,
       fp_rate_limit_events := ex_rate_limit_events st, fp_rate_limit_waits := ex_rate_limit_waits st,
       fp_rate_limit_reason := ex_rate_limit_reason st, fp_rate_limit_waiting := ex_rate_limit_waiting st\<rparr>"

definition BuildExecutionSnapshot ::
  "RetryPlan \<Rightarrow> AdmittedRateLimitPolicy \<Rightarrow> AdmittedResiliencePolicy \<Rightarrow> counters \<Rightarrow> ResilienceExecutionState
   \<Rightarrow> ExposureState \<Rightarrow> ExecutionSnapshot" where
  "BuildExecutionSnapshot retry rate_limit resilience c st exposure = \<lparr>
     sn_effective_max_attempts_per_step = as_max_attempts_per_step resilience,
     sn_effective_max_attempts_per_scan = as_max_attempts_per_scan resilience,
     sn_effective_max_delay_milliseconds = rt_max_delay_milliseconds retry,
     sn_effective_max_cumulative_waiting_milliseconds_per_scan =
       as_max_cumulative_waiting_milliseconds_per_scan resilience,
     sn_aggregate_attempts = ct_request_attempts c,
     sn_cumulative_delay_milliseconds = ct_cumulative_retry_waiting_milliseconds c,
     sn_current_step = ct_pages c,
     sn_exposure_state = exposure,
     sn_effective_max_rate_limit_attempts_per_step = ar_max_attempts_per_step rate_limit,
     sn_effective_max_rate_limit_attempts_per_scan = ar_max_attempts_per_scan rate_limit,
     sn_effective_max_rate_limit_delay_milliseconds = ar_max_delay_milliseconds rate_limit,
     sn_effective_max_rate_limit_waiting_milliseconds_per_scan =
       ar_max_cumulative_waiting_milliseconds_per_scan rate_limit,
     sn_effective_max_combined_waiting_milliseconds_per_scan =
       as_max_cumulative_waiting_milliseconds_per_scan resilience,
     sn_cumulative_rate_limit_waiting_milliseconds = ct_cumulative_rate_limit_waiting_milliseconds c,
     sn_cumulative_remote_transport_milliseconds = ct_cumulative_remote_transport_milliseconds c,
     sn_rate_limit_events = ex_rate_limit_events st,
     sn_rate_limit_waits = ex_rate_limit_waits st,
     sn_rate_limit_reason = ex_rate_limit_reason st,
     sn_rate_limit_waiting = ex_rate_limit_waiting st,
     sn_admission_reason = admission_reason.NO_REASON,
     sn_admission_scope = NO_SCOPE,
     sn_admission_limit = 0,
     sn_admission_observed = 0,
     sn_admission_requested = 0,
     sn_cumulative_admission_waiting_milliseconds = ct_cumulative_admission_waiting_milliseconds c,
     sn_admission_waiting = False\<rparr>"

definition current_snapshot :: "step_args \<Rightarrow> driver \<Rightarrow> ExecutionSnapshot" where
  "current_snapshot args d =
     (let profile = ac_profile (dv_accounting d) in
      BuildExecutionSnapshot (sa_policy args) (sa_rate_limit args)
        \<lparr>as_max_attempts_per_step = pl_request_attempts (rp_page profile),
         as_max_attempts_per_scan = sl_request_attempts (rp_scan profile),
         as_max_cumulative_waiting_milliseconds_per_scan = sl_cumulative_waiting_milliseconds (rp_scan profile)\<rparr>
        (ac_counters (dv_accounting d)) (dv_execution d) UNACCEPTED)"

definition local_admission_error :: "string \<Rightarrow> observation \<Rightarrow> 'a step" where
  "local_admission_error msg ob =
     step_bind (gets dv_accounting) (\<lambda>a.
     throws (Step_ExecutionError (classified_error Stage_RESOURCE ''admission'' msg
       (LocalAdmissionFailureProperties (ob_reason ob) (ob_scope ob) (ob_limit ob) (ob_observed ob) (ob_requested ob)
          (ct_cumulative_admission_waiting_milliseconds (ac_counters a)) False Phase_REQUEST))))"

definition ThrowRateLimitFailure :: "u32 \<Rightarrow> RateLimitReason \<Rightarrow> 'a step" where
  "ThrowRateLimitFailure status rsn =
     step_bind (updates_execution (\<lambda>st. st\<lparr>ex_rate_limit_reason := rsn, ex_rate_limit_waiting := False\<rparr>)) (\<lambda>_.
     step_bind (gets id) (\<lambda>d.
       let p = (HttpStatusFailureProperties status False True)\<lparr>fp_failure_class := Class_RATE_LIMIT\<rparr>;
           p = (if rsn = RL_ATTEMPTS_EXHAUSTED then p\<lparr>fp_terminating_budget := Budget_ATTEMPTS\<rparr>
                else if rsn = RL_WAITING_EXHAUSTED \<or> rsn = RL_DEADLINE_INSUFFICIENT
                then p\<lparr>fp_terminating_budget := Budget_TIME\<rparr> else p);
           p = EnrichRateLimitFailureProperties p (ac_counters (dv_accounting d)) (dv_execution d) in
       throws (Step_ExecutionError (classified_error Stage_HTTP_STATUS []
         ''HTTP endpoint returned a non-success status'' p))))"

definition ThrowClosedAdmissionDuringRateLimit :: "u32 \<Rightarrow> admission_reason \<Rightarrow> 'a step" where
  "ThrowClosedAdmissionDuringRateLimit status rsn =
     step_bind (updates_execution
       (\<lambda>st. st\<lparr>ex_rate_limit_reason := RL_SCHEDULER_CLOSED, ex_rate_limit_waiting := False\<rparr>)) (\<lambda>_.
     step_bind (gets id) (\<lambda>d.
       let c = ac_counters (dv_accounting d);
           p = LocalAdmissionFailureProperties rsn NO_SCOPE 0 0 0
                 (ct_cumulative_admission_waiting_milliseconds c) False Phase_REQUEST;
           p = p\<lparr>fp_remote_status_class := fp_remote_status_class (HttpStatusFailureProperties status False True)\<rparr>;
           p = EnrichRateLimitFailureProperties p c (dv_execution d) in
       throws (Step_ExecutionError (classified_error Stage_RESOURCE ''admission''
         ''local Runtime admission closed during quota waiting'' p))))"

subsection \<open>Permits\<close>

definition SteadyMilliseconds :: "int \<Rightarrow> int" where
  "SteadyMilliseconds nanoseconds = nanoseconds sdiv nanoseconds_per_millisecond"

definition ElapsedMilliseconds :: "int \<Rightarrow> int \<Rightarrow> u64" where
  "ElapsedMilliseconds begin end =
     (if end \<le> begin then 0
      else let v = (end - begin) sdiv nanoseconds_per_millisecond in if v \<le> 0 then 0 else of_int v)"

definition AcquireRequestAdmission :: "'i environment \<Rightarrow> step_args \<Rightarrow> unit step" where
  "AcquireRequestAdmission env args =
     step_bind (gets dv_accounting) (\<lambda>a.
       let profile = env_admission_profile env;
           used = ct_cumulative_admission_waiting_milliseconds (ac_counters a);
           remaining = RemainingOf (ap_aggregate_request_waiting_milliseconds profile) used in
       step_bind (asks (env_clock env)) (\<lambda>started.
       step_bind (requires Deadline) (\<lambda>deadline.
         let wait = \<lparr>wp_queue_deadline_milliseconds = AddBounded started (ap_request_queue_timeout_milliseconds profile),
               wp_has_aggregate_deadline = True, wp_aggregate_deadline_milliseconds = AddBounded started remaining,
               wp_has_scan_deadline = True, wp_scan_deadline_milliseconds = SteadyMilliseconds deadline\<rparr> in
         step_bind (modifies (\<lambda>d. d\<lparr>dv_diagnostics :=
           Publish ((current_snapshot args d)\<lparr>sn_admission_waiting := True\<rparr>) (dv_diagnostics d)\<rparr>)) (\<lambda>_.
         step_bind (asks (\<lambda>n. env_admit_request env n wait)) (\<lambda>(status, ob).
         step_bind (modifies (\<lambda>d. d\<lparr>dv_request := (status = ADMITTED),
           dv_diagnostics := ClearWait (dv_diagnostics d)\<rparr>)) (\<lambda>_.
         step_bind (if ob_waited_milliseconds ob \<noteq> 0
                    then accounts (\<lambda>a. CommitAdmissionWait a (ob_waited_milliseconds ob)
                                         (ap_aggregate_request_waiting_milliseconds profile))
                    else returns ()) (\<lambda>_.
           if status = ADMITTED then returns ()
           else if status = ADMISSION_CANCELLED then throws Step_Cancelled
           else if status = SCAN_DEADLINE_REACHED
           then throws (Step_ResourceError (ScanResourceError ''wall_milliseconds'' ''scan exceeded its wall-time budget''))
           else local_admission_error ''local Runtime admission rejected work'' ob)))))))"

definition AcquireRecoveryWaitAdmission :: "'i environment \<Rightarrow> bool \<Rightarrow> unit step" where
  "AcquireRecoveryWaitAdmission env rate_limit_wait =
     step_bind (asks (\<lambda>n. env_admit_waiter env n rate_limit_wait)) (\<lambda>(status, ob).
       if status = ADMITTED then modifies (\<lambda>d. d\<lparr>dv_waiter := True\<rparr>)
       else local_admission_error ''local Runtime admission rejected recovery waiting'' ob)"

definition ReserveAttemptBuffers :: "'i environment \<Rightarrow> u64 \<Rightarrow> unit step" where
  "ReserveAttemptBuffers env max_metadata_bytes =
     step_bind (gets dv_accounting) (\<lambda>a.
       let bytes = AttemptBufferEnvelope (env_platform env) (rp_page (ac_profile a)) max_metadata_bytes in
       step_bind (asks (\<lambda>n. env_reserve_bytes env n bytes)) (\<lambda>(status, ob).
         if status = ADMITTED then modifies (\<lambda>d. d\<lparr>dv_buffer := Some bytes\<rparr>)
         else local_admission_error ''local Runtime admission rejected request buffers'' ob))"

definition ResizeDecodedBytes :: "'i environment \<Rightarrow> u64 \<Rightarrow> unit step" where
  "ResizeDecodedBytes env bytes =
     step_bind (asks (\<lambda>n. env_resize_bytes env n bytes)) (\<lambda>(status, ob).
       if status = ADMITTED then modifies (\<lambda>d. d\<lparr>dv_buffer := Some bytes\<rparr>)
       else local_admission_error ''local Runtime admission rejected decoded bytes'' ob)"

definition RetainOnlyCompleteResponseBytes :: "'i environment \<Rightarrow> HttpResponse \<Rightarrow> unit step" where
  "RetainOnlyCompleteResponseBytes env r =
     (case TryRetainedHttpResponseBytes r of
        None \<Rightarrow> throws (Step_ExecutionError (unclassified_error Stage_RESOURCE ''decoded_memory_bytes''
          ''HTTP response storage exceeded its admitted capacity envelope''))
      | Some retained \<Rightarrow>
          if retained = 0 then modifies (\<lambda>d. d\<lparr>dv_buffer := None\<rparr>)
          else ResizeDecodedBytes env retained)"

subsection \<open>One transport attempt\<close>

text \<open>Reservations for decoded output belong to the caller of a step; the amount stands for the permit.\<close>

definition ReserveDecodedBytes :: "'i environment \<Rightarrow> u64 \<Rightarrow> u64 step" where
  "ReserveDecodedBytes env bytes =
     step_bind (asks (\<lambda>n. env_reserve_bytes env n bytes)) (\<lambda>(status, ob).
       if status = ADMITTED then returns bytes
       else local_admission_error ''local Runtime admission rejected decoded bytes'' ob)"

definition ReserveDecodedRows :: "'i environment \<Rightarrow> u64 \<Rightarrow> u64 step" where
  "ReserveDecodedRows env rows =
     step_bind (asks (\<lambda>n. env_reserve_rows env n rows)) (\<lambda>(status, ob).
       if status = ADMITTED then returns rows
       else local_admission_error ''local Runtime admission rejected decoded rows'' ob)"

definition fold_upper :: "char \<Rightarrow> char" where
  "fold_upper c = (if in_range CHR ''A'' CHR ''Z'' c then char_of (byte c - byte CHR ''A'' + byte CHR ''a'') else c)"

definition IsContentTypeHeader :: "string \<Rightarrow> bool" where
  "IsContentTypeHeader name \<longleftrightarrow> length name = 12 \<and> map fold_upper name = ''content-type''"

definition RequireDedicatedContentType :: "HttpRequest \<Rightarrow> unit step" where
  "RequireDedicatedContentType request =
     (if list_ex (\<lambda>h. IsContentTypeHeader (fst h)) (rq_headers request)
      then throws (Step_ExecutionError (unclassified_error Stage_POLICY ''content_type''
             ''HTTP content type must use the dedicated request field''))
      else returns ())"

definition string_size :: "string \<Rightarrow> u64" where
  "string_size s = of_nat (length s)"

definition policy_error :: "string \<Rightarrow> string \<Rightarrow> 'a step" where
  "policy_error f msg = throws (Step_ExecutionError (unclassified_error Stage_POLICY f msg))"

definition TransportExecute :: "'i environment \<Rightarrow> HttpRequest \<Rightarrow> HttpLimits \<Rightarrow> HttpResponse step" where
  "TransportExecute env request limits =
     step_bind (CheckCancelled env) (\<lambda>_.
       if rq_method request = ''GET'' then
         (if rq_body request \<noteq> [] \<or> rq_content_type request \<noteq> []
          then policy_error ''request_body'' ''HTTP GET request cannot carry a body''
          else
            step_bind (RequireDedicatedContentType request) (\<lambda>_.
            answers (\<lambda>n. env_get env n request limits)))
       else if rq_method request = ''POST'' then
         (if rq_body request = [] \<or> rq_content_type request \<noteq> ''application/json''
          then policy_error ''request_body'' ''HTTP POST request requires a JSON body and content type''
          else
            step_bind (RequireDedicatedContentType request) (\<lambda>_.
            if string_size (rq_body request) > hl_max_request_body_bytes limits
            then throws (Step_ExecutionError (unclassified_error Stage_RESOURCE ''request_body_bytes''
                   ''HTTP request exceeded its body budget''))
            else answers (\<lambda>n. env_post env n request limits)))
       else policy_error ''method'' ''HTTP request method is not supported'')"

definition ExecuteOneAdmittedTransportAttempt :: "'i environment \<Rightarrow> step_args \<Rightarrow> allowance \<Rightarrow> HttpResponse step" where
  "ExecuteOneAdmittedTransportAttempt env args allowance =
     step_bind (answers (\<lambda>n. env_request env n (al_serialized_request_body_bytes allowance))) (\<lambda>request.
       if \<not> HasBoundedHttpStringCapacity (ss_capacity (rq_target_storage request)) 8192 \<or>
          (rq_body request \<noteq> [] \<and>
           \<not> HasBoundedHttpStringCapacity (ss_capacity (rq_body_storage request))
             (al_serialized_request_body_bytes allowance))
       then throws (Step_ExecutionError (unclassified_error Stage_RESOURCE ''request_body_bytes''
              ''HTTP request allocation exceeded its admitted capacity envelope''))
       else
         step_bind (modifies (\<lambda>d. d\<lparr>dv_body_bytes := string_size (rq_body request)\<rparr>)) (\<lambda>_.
         step_bind (if rq_body request \<noteq> [] then accounts (\<lambda>a. CommitRequestBody a (string_size (rq_body request)))
                    else returns ()) (\<lambda>_.
           let limits = \<lparr>hl_max_request_body_bytes = al_serialized_request_body_bytes allowance,
                 hl_max_header_bytes = al_header_bytes allowance,
                 hl_max_response_bytes = al_wire_response_bytes allowance,
                 hl_max_decompressed_bytes = al_decompressed_response_bytes allowance,
                 hl_max_metadata_bytes = sa_max_metadata_bytes args, hl_deadline = al_deadline allowance,
                 hl_retained_header_names = RetainedHeaderNames (sa_rate_limit args),
                 hl_retain_date = RetainDate (sa_rate_limit args)\<rparr> in
           step_bind (asks (env_now env)) (\<lambda>started.
           step_bind (modifies (\<lambda>d. d\<lparr>dv_log := dv_log d @ [Sent (dv_request d) (dv_buffer d)]\<rparr>)) (\<lambda>_.
           step_bind (handles (TransportExecute env request limits) (\<lambda>e.
               step_bind (asks (env_now env)) (\<lambda>now.
               step_bind (accounts (\<lambda>a. CommitRemoteTransportTime a (ElapsedMilliseconds started now))) (\<lambda>_.
               throws e)))) (\<lambda>response.
           step_bind (asks (env_now env)) (\<lambda>now.
           step_bind (accounts (\<lambda>a. CommitRemoteTransportTime a (ElapsedMilliseconds started now))) (\<lambda>_.
             if hr_header_bytes response > hl_max_header_bytes limits \<or>
                hr_response_bytes response > hl_max_response_bytes limits \<or>
                hr_decompressed_response_bytes response > hl_max_decompressed_bytes limits \<or>
                string_size (hr_body response) > hr_decompressed_response_bytes response \<or>
                rm_retained_bytes (hr_metadata response) > hl_max_metadata_bytes limits
             then throws (Step_ExecutionError (unclassified_error Stage_RESOURCE []
                    ''HTTP response exceeded an execution budget''))
             else returns response))))))))"

subsection \<open>Waiting for quota\<close>

definition wait_authority :: "step_args \<Rightarrow> accounting \<Rightarrow> u64" where
  "wait_authority args a =
     min (RemainingOf (sl_cumulative_waiting_milliseconds (rp_scan (ac_profile a)))
            (ct_cumulative_waiting_milliseconds (ac_counters a)))
         (RemainingOf (ar_max_cumulative_waiting_milliseconds_per_scan (sa_rate_limit args))
            (ct_cumulative_rate_limit_waiting_milliseconds (ac_counters a)))"

definition publish_wait :: "step_args \<Rightarrow> unit step" where
  "publish_wait args =
     step_bind (updates_execution (\<lambda>st. st\<lparr>ex_rate_limit_waiting := True\<rparr>)) (\<lambda>_.
     modifies (\<lambda>d. d\<lparr>dv_diagnostics := Publish (current_snapshot args d) (dv_diagnostics d),
                     dv_log := dv_log d @ [Waited Quota_Wait (dv_request d) (dv_buffer d)]\<rparr>))"

text \<open>What follows an acquisition: the debit of the time it took, and the failures.\<close>

definition settle_wait :: "'i environment \<Rightarrow> u32 \<Rightarrow> int \<Rightarrow> bool \<Rightarrow> acquire_status \<Rightarrow> unit step" where
  "settle_wait env status wait_started budget_bound acquired =
     step_bind (asks (env_clock env)) (\<lambda>wait_completed.
     step_bind (modifies (\<lambda>d. d\<lparr>dv_diagnostics := ClearWait (dv_diagnostics d),
       dv_execution := (dv_execution d)\<lparr>ex_rate_limit_waiting := False\<rparr>\<rparr>)) (\<lambda>_.
       let waited = (if wait_completed > wait_started then of_int (wait_completed - wait_started) else 0) in
       step_bind (if waited \<noteq> 0
                  then step_bind (accounts (\<lambda>a. CommitRateLimitWait a waited)) (\<lambda>_.
                       updates_execution (\<lambda>st. st\<lparr>ex_rate_limit_waits := ex_rate_limit_waits st + 1\<rparr>))
                  else returns ()) (\<lambda>_.
         if acquired = CANCELLED then throws Step_Cancelled
         else if acquired \<noteq> ACQUIRED then
           step_bind (asks (env_terminal_reason env)) (\<lambda>terminal.
             if acquired = SCHEDULER_CLOSED \<and> terminal \<noteq> admission_reason.NO_REASON
             then ThrowClosedAdmissionDuringRateLimit status terminal
             else ThrowRateLimitFailure status (AcquireReason acquired budget_bound))
         else modifies (\<lambda>d. d\<lparr>dv_quota := True, dv_waiter := False\<rparr>))))"

definition reacquire_quota :: "'i environment \<Rightarrow> step_args \<Rightarrow> 'i step_locals \<Rightarrow> unit step" where
  "reacquire_quota env args lc =
     step_bind (gets id) (\<lambda>d.
       case lc_quota_key lc of
         None \<Rightarrow> returns ()
       | Some key \<Rightarrow>
           if dv_quota d then returns ()
           else
             let authority = wait_authority args (dv_accounting d) in
             if authority = 0 then ThrowRateLimitFailure (lc_frozen_rate_limit_status lc) RL_WAITING_EXHAUSTED
             else
               step_bind (asks (env_clock env)) (\<lambda>wait_started.
               step_bind (requires Deadline) (\<lambda>deadline.
                 let scan_deadline = SteadyMilliseconds deadline;
                     budget_limit = AddBounded wait_started authority in
                 step_bind (AcquireRecoveryWaitAdmission env True) (\<lambda>_.
                 step_bind (publish_wait args) (\<lambda>_.
                 step_bind (asks (\<lambda>n. env_acquire env n key wait_started (min scan_deadline budget_limit))) (\<lambda>acquired.
                 settle_wait env (lc_frozen_rate_limit_status lc) wait_started (budget_limit \<le> scan_deadline) acquired))))))"

subsection \<open>Rate-limited responses\<close>

definition scan_repeat_limit :: "u64 \<Rightarrow> accounting \<Rightarrow> u64" where
  "scan_repeat_limit max_attempts a =
     (let page_count = sl_pages (rp_scan (ac_profile a)) in
      if max_attempts > page_count then max_attempts - page_count else 0)"

definition quota_key_of :: "'i environment \<Rightarrow> AdmittedRateLimitPolicy \<Rightarrow> string option \<Rightarrow> 'i quota_key" where
  "quota_key_of env rl bucket =
     \<lparr>qk_scheme = dk_scheme (env_destination env), qk_host = dk_host (env_destination env),
      qk_explicit_port = dk_explicit_port (env_destination env), qk_connector_id = ar_connector_id rl,
      qk_package_major = ucast (ar_package_major_version rl), qk_operation_family = ar_operation_family rl,
      qk_principal = env_principal env, qk_remote_bucket = bucket\<rparr>"

text \<open>The checks of a rate-limited response, up to the wait; the locals are those with the bucket and the immediate flag set.\<close>

definition admit_rate_limited ::
  "'i environment \<Rightarrow> step_args \<Rightarrow> HttpResponse \<Rightarrow> 'i step_locals \<Rightarrow> ('i step_locals \<times> RateLimitGuidanceResult) step" where
  "admit_rate_limited env args response lc =
     (let rl = sa_rate_limit args; status = hr_status response; metadata = hr_metadata response in
      step_bind (if WaitingEnabled rl then asks (env_receipt env) else returns (0, 0)) (\<lambda>receipt.
      step_bind (accounts (\<lambda>a. CommitAttemptFailure a (ResponseUsage response))) (\<lambda>_.
      step_bind (updates_execution (\<lambda>st. st\<lparr>ex_rate_limit_events := ex_rate_limit_events st + 1\<rparr>)) (\<lambda>_.
        if ar_mode rl = Mode_FAIL \<or> \<not> WaitingEnabled rl then ThrowRateLimitFailure status RL_POLICY_FAIL
        else if \<not> HasOnlyDeclaredFields rl metadata \<or> \<not> ValidateRemaining rl metadata
        then ThrowRateLimitFailure status RL_MALFORMED_GUIDANCE
        else case TryBucket rl metadata of
          None \<Rightarrow> ThrowRateLimitFailure status RL_MALFORMED_GUIDANCE
        | Some bucket \<Rightarrow>
            if lc_bucket_frozen lc \<and> bucket \<noteq> lc_frozen_bucket lc
            then ThrowRateLimitFailure status RL_BUCKET_CHANGED
            else
              let lc1 = (if \<not> lc_bucket_frozen lc then lc\<lparr>lc_bucket_frozen := True, lc_frozen_bucket := bucket\<rparr> else lc);
                  guidance = ParseGuidance rl metadata receipt in
              if reason guidance \<noteq> RateLimitGuidanceReason.NO_REASON
              then ThrowRateLimitFailure status (GuidanceReason (reason guidance))
              else if immediate guidance \<and> lc_immediate_seen lc1
              then ThrowRateLimitFailure status RL_REPEATED_IMMEDIATE
              else
                step_bind (gets id) (\<lambda>d.
                  let a = dv_accounting d in
                  if lc_rate_limit_step_repeats lc1 \<ge> ar_max_attempts_per_step rl - 1 \<or>
                     ex_rate_limit_repeats (dv_execution d) \<ge> scan_repeat_limit (ar_max_attempts_per_scan rl) a \<or>
                     \<not> CanBeginRetryAttempt a
                  then ThrowRateLimitFailure status RL_ATTEMPTS_EXHAUSTED
                  else
                    step_bind (requires (\<lambda>a. RequireRetryAttemptResources a (dv_body_bytes d))) (\<lambda>_.
                    returns (lc1\<lparr>lc_immediate_seen := immediate guidance\<rparr>, guidance)))))))"

definition wait_for_rate_limit ::
  "'i environment \<Rightarrow> step_args \<Rightarrow> u32 \<Rightarrow> RateLimitGuidanceResult \<Rightarrow> 'i step_locals \<Rightarrow> 'i step_locals step" where
  "wait_for_rate_limit env args status g lc =
     (let rl = sa_rate_limit args; eligible = eligible_steady_milliseconds g in
      step_bind (gets dv_accounting) (\<lambda>a.
        let authority = wait_authority args a in
        if authority = 0 \<and> \<not> immediate g then ThrowRateLimitFailure status RL_WAITING_EXHAUSTED
        else
          step_bind (asks (env_clock env)) (\<lambda>wait_started.
          step_bind (requires Deadline) (\<lambda>deadline.
            let scan_deadline = SteadyMilliseconds deadline;
                budget_limit = AddBounded wait_started authority;
                coordinator_deadline = min scan_deadline budget_limit;
                key = quota_key_of env rl (lc_frozen_bucket lc) in
            if ar_mode rl = Mode_WAIT_IF_DEADLINE_ALLOWS \<and> eligible \<ge> scan_deadline
            then ThrowRateLimitFailure status RL_DEADLINE_INSUFFICIENT
            else if ar_mode rl = Mode_WAIT_IF_DEADLINE_ALLOWS \<and> eligible > budget_limit
            then ThrowRateLimitFailure status RL_WAITING_EXHAUSTED
            else
              step_bind (modifies (\<lambda>d. d\<lparr>dv_buffer := None\<rparr>)) (\<lambda>_.
              step_bind (AcquireRecoveryWaitAdmission env True) (\<lambda>_.
              step_bind (publish_wait args) (\<lambda>_.
              step_bind (gets dv_quota) (\<lambda>held.
              step_bind (asks (\<lambda>n. if held then env_requeue env n eligible coordinator_deadline
                                   else env_acquire env n key eligible coordinator_deadline)) (\<lambda>acquired.
              step_bind (settle_wait env status wait_started (budget_limit \<le> scan_deadline) acquired) (\<lambda>_.
              step_bind (updates_execution (\<lambda>st. st\<lparr>ex_rate_limit_repeats := ex_rate_limit_repeats st + 1\<rparr>)) (\<lambda>_.
              returns (lc\<lparr>lc_rate_limit_step_repeats := lc_rate_limit_step_repeats lc + 1,
                          lc_quota_key := Some key, lc_frozen_rate_limit_status := status\<rparr>))))))))))))"

subsection \<open>Failed attempts\<close>

definition ordinary_repeat_refused :: "step_args \<Rightarrow> 'i step_locals \<Rightarrow> driver \<Rightarrow> bool" where
  "ordinary_repeat_refused args lc d \<longleftrightarrow>
     lc_ordinary_step_repeats lc \<ge> rt_max_attempts_per_step (sa_policy args) - 1 \<or>
     ex_ordinary_retry_repeats (dv_execution d)
       \<ge> scan_repeat_limit (rt_max_attempts_per_scan (sa_policy args)) (dv_accounting d) \<or>
     \<not> CanBeginRetryAttempt (dv_accounting d)"

definition handle_gateway_response :: "step_args \<Rightarrow> HttpResponse \<Rightarrow> 'i step_locals \<Rightarrow> unit step" where
  "handle_gateway_response args response lc =
     step_bind (accounts (\<lambda>a. CommitAttemptFailure a (ResponseUsage response))) (\<lambda>_.
     step_bind (gets id) (\<lambda>d.
       if \<not> RetryPlan_Enabled (sa_policy args) \<or> ordinary_repeat_refused args lc d then
         let p = HttpStatusFailureProperties (hr_status response) False False;
             p = (if RetryPlan_Enabled (sa_policy args) then p\<lparr>fp_terminating_budget := Budget_ATTEMPTS\<rparr> else p);
             p = EnrichRateLimitFailureProperties p (ac_counters (dv_accounting d)) (dv_execution d) in
         throws (Step_ExecutionError (classified_error Stage_HTTP_STATUS []
           ''HTTP endpoint returned a non-success status'' p))
       else requires (\<lambda>a. RequireRetryAttemptResources a (dv_body_bytes d))))"

definition observed_status_class :: "u32 \<Rightarrow> RemoteStatusClass" where
  "observed_status_class status =
     (if status \<ge> 200 \<and> status < 300 then Remote_SUCCESS
      else if status = 429 then Remote_RATE_LIMITED
      else if status \<ge> 500 then Remote_SERVER_ERROR else Remote_CLIENT_ERROR)"

definition handle_attempt_failure :: "step_args \<Rightarrow> HttpAttemptFailure \<Rightarrow> 'i step_locals \<Rightarrow> unit step" where
  "handle_attempt_failure args failure lc =
     step_bind (accounts (\<lambda>a. CommitAttemptFailure a (FactsUsage (hf_facts failure)))) (\<lambda>_.
     step_bind (gets id) (\<lambda>d.
       let retryable = IsRetryableTransportFailure failure; e = hf_error failure;
           status = af_response_status (hf_facts failure) in
       if \<not> RetryPlan_Enabled (sa_policy args) \<or> \<not> retryable \<or> ordinary_repeat_refused args lc d then
         let p = (FailurePropertiesFromError e)\<lparr>fp_phase := Phase_TRANSPORT\<rparr>;
             p = (if status \<noteq> 0 then p\<lparr>fp_remote_status_class := observed_status_class status\<rparr> else p);
             p = (if RetryPlan_Enabled (sa_policy args) \<and> retryable
                  then p\<lparr>fp_terminating_budget := Budget_ATTEMPTS\<rparr> else p);
             p = (if \<not> retryable then p\<lparr>fp_replay_classification := NEVER_REPLAYABLE\<rparr> else p);
             p = EnrichRateLimitFailureProperties p (ac_counters (dv_accounting d)) (dv_execution d) in
         throws (Step_ExecutionError (classified_error (ee_stage e) (ee_field e) (ee_safe_message e) p))
       else requires (\<lambda>a. RequireRetryAttemptResources a (dv_body_bytes d))))"

subsection \<open>The wait between ordinary repeats\<close>

fun sleep_loop :: "'i environment \<Rightarrow> nat \<Rightarrow> u64 \<Rightarrow> int \<Rightarrow> u64 \<Rightarrow> unit step" where
  "sleep_loop env 0 delay wait_deadline waited = (if waited < delay then unfinished else returns ())"
| "sleep_loop env (Suc fuel) delay wait_deadline waited =
     (if \<not> waited < delay then returns ()
      else
        step_bind (CheckCancelled env) (\<lambda>_.
        step_bind (asks (env_now env)) (\<lambda>now.
        step_bind (requires Deadline) (\<lambda>deadline.
          if now \<ge> deadline
          then throws (Step_ResourceError (ScanResourceError ''wall_milliseconds'' ''scan exceeded its wall-time budget''))
          else
            step_bind (asks (env_clock env)) (\<lambda>earlier.
              if earlier \<ge> wait_deadline then accounts (\<lambda>a. CommitRetryWait a (delay - waited))
              else
                step_bind (asks (env_clock env)) (\<lambda>later.
                  if later \<le> earlier then sleep_loop env fuel delay wait_deadline waited
                  else
                    let elapsed = of_int (later - earlier); debit = min (delay - waited) elapsed in
                    step_bind (accounts (\<lambda>a. CommitRetryWait a debit)) (\<lambda>_.
                    sleep_loop env fuel delay wait_deadline (waited + debit))))))))"

definition waiting_exhausted :: "'a step" where
  "waiting_exhausted = throws (Step_ResourceError
     (ScanResourceError ''cumulative_waiting_milliseconds'' ''scan exhausted its cumulative-waiting budget''))"

definition wait_before_repeat ::
  "'i environment \<Rightarrow> step_args \<Rightarrow> nat \<Rightarrow> 'i step_locals \<Rightarrow> 'i step_locals step" where
  "wait_before_repeat env args fuel lc =
     step_bind (modifies (\<lambda>d. d\<lparr>dv_buffer := None, dv_quota := False\<rparr>)) (\<lambda>_.
     step_bind (gets dv_accounting) (\<lambda>a.
       let policy = sa_policy args;
           used_retry = ct_cumulative_retry_waiting_milliseconds (ac_counters a);
           used_combined = ct_cumulative_waiting_milliseconds (ac_counters a);
           combined_limit = sl_cumulative_waiting_milliseconds (rp_scan (ac_profile a)) in
       if used_retry \<ge> rt_max_cumulative_waiting_milliseconds_per_scan policy \<or> used_combined \<ge> combined_limit
       then waiting_exhausted
       else
         let delay = ComputeRetryDelayMilliseconds (ac_current_step_attempts a) (rt_max_delay_milliseconds policy)
                       (sa_jitter_seed args);
             delay = min delay (rt_max_cumulative_waiting_milliseconds_per_scan policy - used_retry);
             delay = min delay (combined_limit - used_combined) in
         if delay = 0 then waiting_exhausted
         else
           step_bind (AcquireRecoveryWaitAdmission env False) (\<lambda>_.
           step_bind (asks (env_clock env)) (\<lambda>wait_started.
           step_bind (modifies (\<lambda>d. d\<lparr>dv_log := dv_log d @ [Waited Retry_Sleep (dv_request d) (dv_buffer d)]\<rparr>)) (\<lambda>_.
           step_bind (sleep_loop env fuel delay (AddBounded wait_started delay) 0) (\<lambda>_.
           step_bind (CheckCancelled env) (\<lambda>_.
           step_bind (updates_execution (\<lambda>st. st\<lparr>ex_ordinary_retry_repeats := ex_ordinary_retry_repeats st + 1\<rparr>)) (\<lambda>_.
           step_bind (modifies (\<lambda>d. d\<lparr>dv_waiter := False\<rparr>)) (\<lambda>_.
           returns (lc\<lparr>lc_ordinary_step_repeats := lc_ordinary_step_repeats lc + 1\<rparr>))))))))))"

subsection \<open>The loop\<close>

datatype 'i attempt_end = Accepted HttpResponse | Again "'i step_locals" | Repeat_Later

text \<open>The body of the \<open>try\<close> block: the attempt and what its response leads to.\<close>

definition attempt_body ::
  "'i environment \<Rightarrow> step_args \<Rightarrow> allowance \<Rightarrow> 'i step_locals \<Rightarrow> 'i attempt_end step" where
  "attempt_body env args allowance lc =
     step_bind (handles (ExecuteOneAdmittedTransportAttempt env args allowance) (\<lambda>e.
         step_bind (modifies (\<lambda>d. d\<lparr>dv_request := False\<rparr>)) (\<lambda>_. throws e))) (\<lambda>response.
     step_bind (modifies (\<lambda>d. d\<lparr>dv_request := False\<rparr>)) (\<lambda>_.
       if MatchesStatus (sa_rate_limit args) (hr_status response) then
         step_bind (admit_rate_limited env args response lc) (\<lambda>(lc1, guidance).
         step_bind (wait_for_rate_limit env args (hr_status response) guidance lc1) (\<lambda>lc2.
         returns (Again lc2)))
       else if \<not> IsRetryableGatewayResponse response then
         step_bind (accounts (\<lambda>a. CommitTransport a (ResponseUsage response))) (\<lambda>_.
           let kept = DiscardRateLimitMetadata (env_platform env) response in
           step_bind (RetainOnlyCompleteResponseBytes env kept) (\<lambda>_.
           returns (Accepted kept)))
       else
         step_bind (handle_gateway_response args response lc) (\<lambda>_. returns Repeat_Later)))"

definition handle_attempt_error :: "step_args \<Rightarrow> 'i step_locals \<Rightarrow> step_error \<Rightarrow> 'i attempt_end step" where
  "handle_attempt_error args lc e =
     (case e of
        Step_AttemptCancelled facts \<Rightarrow>
          step_bind (accounts (\<lambda>a. CommitAttemptFailure a (FactsUsage facts))) (\<lambda>_. throws Step_Cancelled)
      | Step_AttemptFailure failure \<Rightarrow>
          step_bind (handle_attempt_failure args failure lc) (\<lambda>_. returns Repeat_Later)
      | _ \<Rightarrow> throws e)"

fun retry_loop ::
  "'i environment \<Rightarrow> step_args \<Rightarrow> nat \<Rightarrow> nat \<Rightarrow> 'i step_locals \<Rightarrow> (HttpResponse \<times> allowance) step" where
  "retry_loop env args sleep_fuel 0 lc = unfinished"
| "retry_loop env args sleep_fuel (Suc fuel) lc =
     step_bind (CheckCancelled env) (\<lambda>_.
     step_bind (reacquire_quota env args lc) (\<lambda>_.
     step_bind (AcquireRequestAdmission env args) (\<lambda>_.
     step_bind (ReserveAttemptBuffers env (sa_max_metadata_bytes args)) (\<lambda>_.
     step_bind (asks (env_now env)) (\<lambda>now.
     step_bind (accounts (\<lambda>a. BeginAttempt a now)) (\<lambda>allowance.
     step_bind (modifies (\<lambda>d. d\<lparr>dv_body_bytes := 0\<rparr>)) (\<lambda>_.
     step_bind (handles (attempt_body env args allowance lc) (handle_attempt_error args lc)) (\<lambda>ending.
       case ending of
         Accepted response \<Rightarrow> returns (response, allowance)
       | Again lc1 \<Rightarrow> retry_loop env args sleep_fuel fuel lc1
       | Repeat_Later \<Rightarrow>
           step_bind (wait_before_repeat env args sleep_fuel lc) (\<lambda>lc1.
           retry_loop env args sleep_fuel fuel lc1)))))))))"

definition initial_locals :: "'i step_locals" where
  "initial_locals = \<lparr>lc_ordinary_step_repeats = 0, lc_rate_limit_step_repeats = 0, lc_immediate_seen = False,
     lc_bucket_frozen = False, lc_frozen_bucket = None, lc_frozen_rate_limit_status = 0, lc_quota_key = None\<rparr>"

text \<open>On return only the response's buffer is kept; an exception releases every permit of the step.\<close>

definition ExecuteHttpStepWithRetry ::
  "'i environment \<Rightarrow> step_args \<Rightarrow> nat \<Rightarrow> nat \<Rightarrow> (HttpResponse \<times> allowance) step" where
  "ExecuteHttpStepWithRetry env args sleep_fuel fuel =
     step_bind
       (handles
         (step_bind (asks (env_now env)) (\<lambda>now.
          step_bind (accounts (\<lambda>a. BeginStep a now)) (\<lambda>_.
          retry_loop env args sleep_fuel fuel initial_locals)))
         (\<lambda>e. step_bind (modifies release_permits) (\<lambda>_. throws e)))
       (\<lambda>r. step_bind (modifies (\<lambda>d. d\<lparr>dv_quota := False\<rparr>)) (\<lambda>_. returns r))"

end
