(* ===== verification/Http_Retry_Safety.thy ===== *)
theory Http_Retry_Safety
  imports Http_Retry_Controller
begin

text \<open>
  What one step of the retry controller guarantees in every environment. A small program logic comes first: \<open>ends\<close>
  says what holds of a result, of the state behind an exception and of the state behind an exhausted loop, with one
  rule per construct of the computations. The invariant of the step then goes through every definition of the
  controller: the accounting keeps its budget invariant and is never reset, every request is sent with a request
  permit and a buffer reservation in hand and every wait with neither, and no more requests are sent than attempts
  were debited.
\<close>

subsection \<open>Ends of computations\<close>

definition ends ::
  "('a \<Rightarrow> driver \<Rightarrow> bool) \<Rightarrow> (step_error \<Rightarrow> driver \<Rightarrow> bool) \<Rightarrow> (driver \<Rightarrow> bool) \<Rightarrow> 'a ended \<times> driver \<Rightarrow> bool" where
  "ends Q E U r \<longleftrightarrow>
     (case fst r of Finished x \<Rightarrow> Q x (snd r) | Threw e \<Rightarrow> E e (snd r) | Unfinished \<Rightarrow> U (snd r))"

named_theorems ends_rules \<open>one rule per construct of a computation\<close>

lemma ends_returns [ends_rules]: "Q x d \<Longrightarrow> ends Q E U (returns x d)"
  by (simp add: ends_def returns_def)

lemma ends_throws [ends_rules]: "E e d \<Longrightarrow> ends Q E U (throws e d)"
  by (simp add: ends_def throws_def)

lemma ends_bind [ends_rules]:
  "ends (\<lambda>x d1. ends Q E U (k x d1)) E U (m d) \<Longrightarrow> ends Q E U (step_bind m k d)"
  by (auto simp: ends_def step_bind_def split: prod.splits ended.splits)

lemma ends_handles [ends_rules]:
  assumes "ends Q (\<lambda>e d1. ends Q E U (h e d1)) U (m d)"
  shows "ends Q E U (handles m h d)"
proof (cases "fst (m d)")
  case (Threw e)
  then have "handles m h d = h e (snd (m d))" by (cases "m d") (simp add: handles_def)
  then show ?thesis using assms Threw by (simp add: ends_def [of _ _ _ "m d"])
qed (use assms in \<open>auto simp: ends_def handles_def split: prod.splits\<close>)

lemma ends_gets [ends_rules]: "Q (f d) d \<Longrightarrow> ends Q E U (gets f d)"
  by (simp add: ends_def gets_def)

lemma ends_modifies [ends_rules]: "Q () (f d) \<Longrightarrow> ends Q E U (modifies f d)"
  by (simp add: ends_def modifies_def)

lemma ends_asks [ends_rules]: "Q (f (dv_calls d)) (d\<lparr>dv_calls := Suc (dv_calls d)\<rparr>) \<Longrightarrow> ends Q E U (asks f d)"
  by (simp add: ends_def asks_def)

lemma ends_if [ends_rules]:
  "(b \<Longrightarrow> ends Q E U (m d)) \<Longrightarrow> (\<not> b \<Longrightarrow> ends Q E U (n d)) \<Longrightarrow> ends Q E U ((if b then m else n) d)"
  by simp

lemma ends_option [ends_rules]:
  "(x = None \<Longrightarrow> ends Q E U (m d)) \<Longrightarrow> (\<And>y. x = Some y \<Longrightarrow> ends Q E U (n y d)) \<Longrightarrow>
   ends Q E U ((case x of None \<Rightarrow> m | Some y \<Rightarrow> n y) d)"
  by (cases x) simp_all

lemma ends_prod [ends_rules]:
  "(\<And>y z. x = (y, z) \<Longrightarrow> ends Q E U (m y z d)) \<Longrightarrow> ends Q E U ((case x of (y, z) \<Rightarrow> m y z) d)"
  by (cases x) simp

lemma ends_requires [ends_rules]:
  "(\<And>x. f (dv_accounting d) = Inr x \<Longrightarrow> Q x d) \<Longrightarrow> (\<And>e. f (dv_accounting d) = Inl e \<Longrightarrow> E (Step_ResourceError e) d) \<Longrightarrow>
   ends Q E U (requires f d)"
  by (auto simp: ends_def requires_def split: sum.splits)

lemma ends_accounts:
  "(\<And>x a. f (dv_accounting d) = (Inr x, a) \<Longrightarrow> Q x (d\<lparr>dv_accounting := a\<rparr>)) \<Longrightarrow>
   (\<And>e a. f (dv_accounting d) = (Inl e, a) \<Longrightarrow> E (Step_ResourceError e) (d\<lparr>dv_accounting := a\<rparr>)) \<Longrightarrow> ends Q E U (accounts f d)"
  by (auto simp: ends_def accounts_def split: prod.splits sum.splits)

lemma ends_answers [ends_rules]:
  assumes "\<And>x. Q x (d\<lparr>dv_calls := Suc (dv_calls d)\<rparr>)" and "\<And>e. E e (d\<lparr>dv_calls := Suc (dv_calls d)\<rparr>)"
  shows "ends Q E U (answers f d)"
  using assms by (cases "f (dv_calls d)") (simp_all add: answers_def ends_def step_bind_def asks_def throws_def returns_def)

lemma ends_updates_execution [ends_rules]:
  "Q () (d\<lparr>dv_execution := f (dv_execution d)\<rparr>) \<Longrightarrow> ends Q E U (updates_execution f d)"
  unfolding updates_execution_def by (rule ends_modifies)

lemma ends_CheckCancelled [ends_rules]:
  "Q () (d\<lparr>dv_calls := Suc (dv_calls d)\<rparr>) \<Longrightarrow> E Step_Cancelled (d\<lparr>dv_calls := Suc (dv_calls d)\<rparr>) \<Longrightarrow>
   ends Q E U (CheckCancelled env d)"
  unfolding CheckCancelled_def by (intro ends_rules)

lemma ends_mono:
  assumes "ends Q E U r" and "\<And>x d. Q x d \<Longrightarrow> Q1 x d" and "\<And>e d. E e d \<Longrightarrow> E1 e d" and "\<And>d. U d \<Longrightarrow> U1 d"
  shows "ends Q1 E1 U1 r"
  using assms by (auto simp: ends_def split: ended.splits)

subsection \<open>The invariant of a step\<close>

fun is_sent :: "event \<Rightarrow> bool" where
  "is_sent (Sent _ _) = True"
| "is_sent (Waited _ _ _) = False"

text \<open>Requests go out under a request permit and a reservation; waits hold neither.\<close>

fun event_ok :: "event \<Rightarrow> bool" where
  "event_ok (Sent request buffer) = (request \<and> buffer \<noteq> None)"
| "event_ok (Waited _ request buffer) = (\<not> request \<and> buffer = None)"

definition requests_in :: "event list \<Rightarrow> nat" where
  "requests_in events = length (filter is_sent events)"

text \<open>
  Relative to the accounting \<open>a0\<close> and the log at its start: \<open>n\<close> attempts at least were debited to the step, and
  \<open>slack\<close> more attempts were debited than requests sent.
\<close>

definition step_on :: "accounting \<Rightarrow> event list \<Rightarrow> nat \<Rightarrow> nat \<Rightarrow> accounting \<Rightarrow> event list \<Rightarrow> bool" where
  "step_on a0 log0 n slack a log \<longleftrightarrow>
     accounting_inv a \<and> no_reset a0 a \<and> n \<le> unat (ac_current_step_attempts a) \<and>
     (\<exists>events. log = log0 @ events \<and> list_all event_ok events \<and>
        requests_in events + slack \<le> unat (ac_current_step_attempts a))"

abbreviation step_inv :: "accounting \<Rightarrow> event list \<Rightarrow> nat \<Rightarrow> nat \<Rightarrow> driver \<Rightarrow> bool" where
  "step_inv a0 log0 n slack d \<equiv> step_on a0 log0 n slack (dv_accounting d) (dv_log d)"

lemma step_on_log:
  assumes "step_on a0 l n (if is_sent e then Suc k else k) a log" and "event_ok e"
  shows "step_on a0 l n k a (log @ [e])"
proof -
  obtain events where e: "log = l @ events" "list_all event_ok events"
      "requests_in events + (if is_sent e then Suc k else k) \<le> unat (ac_current_step_attempts a)"
    using assms(1) by (auto simp: step_on_def)
  have "requests_in (events @ [e]) + k = requests_in events + (if is_sent e then Suc k else k)"
    by (simp add: requests_in_def)
  then show ?thesis
    using assms e unfolding step_on_def by (auto intro!: exI [of _ "events @ [e]"])
qed

lemma step_on_weaken: "step_on a0 l n k a log \<Longrightarrow> m \<le> n \<Longrightarrow> j \<le> k \<Longrightarrow> step_on a0 l m j a log"
  by (fastforce simp: step_on_def)

lemma step_on_slackless: "step_on a0 l n k a log \<Longrightarrow> step_on a0 l n 0 a log"
  by (erule step_on_weaken) simp_all

text \<open>Operations that keep the attempts of the step.\<close>

definition tame :: "(accounting \<Rightarrow> 'a outcome) \<Rightarrow> bool" where
  "tame f \<longleftrightarrow> (\<forall>a. accounting_inv a \<longrightarrow>
     post (\<lambda>b. accounting_inv b \<and> no_reset a b \<and> ac_current_step_attempts b = ac_current_step_attempts a) (f a))"

lemma commits_keep_attempts:
  "post (\<lambda>b. ac_current_step_attempts b = ac_current_step_attempts a) (CommitRequestBody a n)"
  "post (\<lambda>b. ac_current_step_attempts b = ac_current_step_attempts a) (CommitAttemptFailure a u)"
  "post (\<lambda>b. ac_current_step_attempts b = ac_current_step_attempts a) (CommitTransport a u)"
  "post (\<lambda>b. ac_current_step_attempts b = ac_current_step_attempts a) (CommitRetryWait a n)"
  "post (\<lambda>b. ac_current_step_attempts b = ac_current_step_attempts a) (CommitRateLimitWait a n)"
  "post (\<lambda>b. ac_current_step_attempts b = ac_current_step_attempts a) (CommitAdmissionWait a n limit)"
  "post (\<lambda>b. ac_current_step_attempts b = ac_current_step_attempts a) (CommitRemoteTransportTime a n)"
  unfolding operation_defs Let_def by (intro outcome_rules; simp)+

lemma tame_commits:
  "tame (\<lambda>a. CommitRequestBody a n)" "tame (\<lambda>a. CommitAttemptFailure a u)" "tame (\<lambda>a. CommitTransport a u)"
  "tame (\<lambda>a. CommitRetryWait a n)" "tame (\<lambda>a. CommitRateLimitWait a n)"
  "tame (\<lambda>a. CommitAdmissionWait a n limit)" "tame (\<lambda>a. CommitRemoteTransportTime a n)"
  using commits_keep_attempts exec_op_inv [where op = "Op_CommitRequestBody n"]
    exec_op_inv [where op = "Op_CommitAttemptFailure u"] exec_op_inv [where op = "Op_CommitTransport u"]
    exec_op_inv [where op = "Op_CommitRetryWait n"] exec_op_inv [where op = "Op_CommitRateLimitWait n"]
    exec_op_inv [where op = "Op_CommitAdmissionWait n limit"] exec_op_inv [where op = "Op_CommitRemoteTransportTime n"]
    commits_no_reset
  by (simp_all add: tame_def post_def no_value_def)

lemma ends_accounts_tame:
  assumes "step_inv a0 l n k d" and "tame f"
    and "\<And>x a. f (dv_accounting d) = (Inr x, a) \<Longrightarrow> step_inv a0 l n k (d\<lparr>dv_accounting := a\<rparr>) \<Longrightarrow>
           Q x (d\<lparr>dv_accounting := a\<rparr>)"
    and "\<And>e a. f (dv_accounting d) = (Inl e, a) \<Longrightarrow> step_inv a0 l n k (d\<lparr>dv_accounting := a\<rparr>) \<Longrightarrow>
           E (Step_ResourceError e) (d\<lparr>dv_accounting := a\<rparr>)"
  shows "ends Q E U (accounts f d)"
proof -
  have "step_inv a0 l n k (d\<lparr>dv_accounting := a\<rparr>)" if "snd (f (dv_accounting d)) = a" for a
  proof -
    have "accounting_inv a \<and> no_reset (dv_accounting d) a \<and>
        ac_current_step_attempts a = ac_current_step_attempts (dv_accounting d)"
      using assms(1,2) that by (auto simp: tame_def post_def step_on_def)
    then show ?thesis using assms(1) by (auto simp: step_on_def intro: no_reset_trans)
  qed
  then show ?thesis using assms(3,4) by (intro ends_accounts) force+
qed

text \<open>Opening an attempt debits exactly one.\<close>

lemma ends_BeginAttempt:
  assumes "step_inv a0 l n 0 d"
    and "\<And>x a. BeginAttempt (dv_accounting d) now = (Inr x, a) \<Longrightarrow> step_inv a0 l (Suc n) 1 (d\<lparr>dv_accounting := a\<rparr>) \<Longrightarrow>
           Q x (d\<lparr>dv_accounting := a\<rparr>)"
    and "\<And>e a. step_inv a0 l n 0 (d\<lparr>dv_accounting := a\<rparr>) \<Longrightarrow> E (Step_ResourceError e) (d\<lparr>dv_accounting := a\<rparr>)"
  shows "ends Q E U (accounts (\<lambda>a. BeginAttempt a now) d)"
proof -
  define b where "b = dv_accounting d"
  have inv: "accounting_inv b" using assms(1) by (simp add: step_on_def b_def)
  have kept: "accounting_inv a \<and> no_reset b a" if "snd (BeginAttempt b now) = a" for a
    using BeginAttempt_inv [OF inv, of now] BeginAttempt_no_reset [of b now] that by (simp add: post_def)
  show ?thesis
  proof (cases "attempt_admissible b now")
    case True
    have "ac_current_step_attempts b < pl_request_attempts (rp_page (ac_profile b))"
      using True by (simp add: attempt_admissible_def Let_def)
    then have "unat (ac_current_step_attempts (attempt_started b)) = Suc (unat (ac_current_step_attempts b))"
      by (simp add: attempt_started_def succ_below)
    then have "step_inv a0 l (Suc n) 1 (d\<lparr>dv_accounting := attempt_started b\<rparr>)"
      using assms(1) kept BeginAttempt_admitted [OF inv True] by (auto simp: step_on_def b_def intro: no_reset_trans)
    then show ?thesis
      using assms(2) BeginAttempt_admitted [OF inv True] by (intro ends_accounts) (auto simp: b_def)
  next
    case False
    then obtain f m where fail: "BeginAttempt b now = Fail b f m" using BeginAttempt_refused by blast
    then have "step_inv a0 l n 0 (d\<lparr>dv_accounting := failed_from b\<rparr>)"
      using assms(1) kept by (auto simp: step_on_def b_def Fail_def intro: no_reset_trans)
    then show ?thesis
      using assms(3) fail by (intro ends_accounts) (auto simp: b_def Fail_def)
  qed
qed

subsection \<open>The parts of the controller\<close>

text \<open>
  The permits a step holds: \<open>idle\<close> with no request, no buffer and no waiting place; \<open>ready\<close> with both permits of an
  attempt; \<open>answered\<close> with the buffer only.
\<close>

definition idle :: "driver \<Rightarrow> bool" where
  "idle d \<longleftrightarrow> \<not> dv_request d \<and> dv_buffer d = None \<and> \<not> dv_waiter d"

definition ready :: "driver \<Rightarrow> bool" where
  "ready d \<longleftrightarrow> dv_request d \<and> dv_buffer d \<noteq> None \<and> \<not> dv_waiter d"

definition answered :: "driver \<Rightarrow> bool" where
  "answered d \<longleftrightarrow> \<not> dv_request d \<and> dv_buffer d \<noteq> None \<and> \<not> dv_waiter d"

text \<open>What every exception leaves behind; only a transport attempt ends with one of the transport's own exceptions.\<close>

fun attempt_error :: "step_error \<Rightarrow> bool" where
  "attempt_error (Step_AttemptCancelled _) = True"
| "attempt_error (Step_AttemptFailure _) = True"
| "attempt_error _ = False"

abbreviation failed :: "accounting \<Rightarrow> event list \<Rightarrow> nat \<Rightarrow> step_error \<Rightarrow> driver \<Rightarrow> bool" where
  "failed a0 l n e d \<equiv> step_inv a0 l n 0 d \<and> \<not> attempt_error e"

lemmas held_defs = idle_def ready_def answered_def

lemma ends_local_admission_error [ends_rules]: "(\<And>x. E (Step_ExecutionError x) d) \<Longrightarrow> ends Q E U (local_admission_error msg ob d)"
  unfolding local_admission_error_def by (intro ends_rules)

lemma ends_waiting_exhausted [ends_rules]: "(\<And>x. E (Step_ResourceError x) d) \<Longrightarrow> ends Q E U (waiting_exhausted d)"
  unfolding waiting_exhausted_def by (intro ends_rules)

lemma ends_policy_error [ends_rules]: "(\<And>x. E (Step_ExecutionError x) d) \<Longrightarrow> ends Q E U (policy_error f msg d)"
  unfolding policy_error_def by (intro ends_rules)

lemma ends_ThrowRateLimitFailure:
  assumes "step_inv a0 l n k d"
  shows "ends Q (failed a0 l n) U (ThrowRateLimitFailure status rsn d)"
  unfolding ThrowRateLimitFailure_def Let_def
  by (intro ends_rules) (simp add: step_on_slackless [OF assms])

lemma ends_ThrowClosedAdmission:
  assumes "step_inv a0 l n k d"
  shows "ends Q (failed a0 l n) U (ThrowClosedAdmissionDuringRateLimit status rsn d)"
  unfolding ThrowClosedAdmissionDuringRateLimit_def Let_def
  by (intro ends_rules) (simp add: step_on_slackless [OF assms])

lemmas throw_rules = ends_ThrowRateLimitFailure ends_ThrowClosedAdmission

lemma ends_AcquireRequestAdmission:
  assumes "step_inv a0 l n 0 d" and "idle d"
  shows "ends (\<lambda>_ d1. step_inv a0 l n 0 d1 \<and> dv_request d1 \<and> dv_buffer d1 = None \<and> \<not> dv_waiter d1)
    (failed a0 l n) U (AcquireRequestAdmission env args d)"
  unfolding AcquireRequestAdmission_def Let_def
  by (intro ends_rules ends_accounts_tame [where k = 0] tame_commits) (use assms in \<open>auto simp: held_defs\<close>)

lemma ends_AcquireRecoveryWaitAdmission:
  assumes "step_inv a0 l n k d"
    and "\<And>d1. step_inv a0 l n k d1 \<Longrightarrow> dv_accounting d1 = dv_accounting d \<Longrightarrow> dv_request d1 = dv_request d \<Longrightarrow>
           dv_buffer d1 = dv_buffer d \<Longrightarrow> dv_quota d1 = dv_quota d \<Longrightarrow> Q () d1"
  shows "ends Q (failed a0 l n) U (AcquireRecoveryWaitAdmission env w d)"
  unfolding AcquireRecoveryWaitAdmission_def
  by (intro ends_rules) (use assms in \<open>auto intro: step_on_slackless\<close>)

lemma ends_ReserveAttemptBuffers:
  assumes "step_inv a0 l n 0 d" and "dv_request d" and "dv_buffer d = None" and "\<not> dv_waiter d"
  shows "ends (\<lambda>_ d1. step_inv a0 l n 0 d1 \<and> ready d1) (failed a0 l n) U (ReserveAttemptBuffers env bytes d)"
  unfolding ReserveAttemptBuffers_def Let_def
  by (intro ends_rules) (use assms in \<open>auto simp: held_defs\<close>)

lemma ends_publish_wait:
  assumes "step_inv a0 l n k d" and "\<not> dv_request d" and "dv_buffer d = None"
    and "\<And>d1. step_inv a0 l n k d1 \<Longrightarrow> dv_request d1 = dv_request d \<Longrightarrow> dv_buffer d1 = dv_buffer d \<Longrightarrow>
           dv_quota d1 = dv_quota d \<Longrightarrow> Q () d1"
  shows "ends Q E U (publish_wait args d)"
proof -
  have "step_on a0 l n k (dv_accounting d) (dv_log d @ [Waited Quota_Wait (dv_request d) (dv_buffer d)])"
    by (rule step_on_log) (use assms in auto)
  then show ?thesis
    unfolding publish_wait_def by (intro ends_rules) (use assms in auto)
qed

lemma ends_settle_wait:
  assumes "step_inv a0 l n 0 d" and "\<not> dv_request d" and "dv_buffer d = None"
  shows "ends (\<lambda>_ d1. step_inv a0 l n 0 d1 \<and> idle d1) (failed a0 l n) U
    (settle_wait env status started bound acquired d)"
  unfolding settle_wait_def Let_def
  by (intro ends_rules throw_rules ends_accounts_tame [where k = 0] tame_commits) (use assms in \<open>auto simp: held_defs\<close>)

lemma ends_reacquire_quota:
  assumes "step_inv a0 l n 0 d" and "idle d"
  shows "ends (\<lambda>_ d1. step_inv a0 l n 0 d1 \<and> idle d1) (failed a0 l n) U (reacquire_quota env args lc d)"
  unfolding reacquire_quota_def Let_def
  by (intro ends_rules throw_rules ends_AcquireRecoveryWaitAdmission [where k = 0] ends_publish_wait [where k = 0]
      ends_settle_wait) (use assms in \<open>auto simp: held_defs\<close>)

lemma ends_RequireDedicatedContentType [ends_rules]:
  "Q () d \<Longrightarrow> (\<And>x. E (Step_ExecutionError x) d) \<Longrightarrow>
   ends Q E U (RequireDedicatedContentType request d)"
  unfolding RequireDedicatedContentType_def by (intro ends_rules)

text \<open>The parts of the state that only the controller itself changes.\<close>

definition same_permits :: "driver \<Rightarrow> driver \<Rightarrow> bool" where
  "same_permits d d1 \<longleftrightarrow>
     dv_accounting d1 = dv_accounting d \<and> dv_log d1 = dv_log d \<and> dv_request d1 = dv_request d \<and>
     dv_buffer d1 = dv_buffer d \<and> dv_waiter d1 = dv_waiter d \<and> dv_quota d1 = dv_quota d"

lemma ends_TransportExecute:
  assumes "\<And>x d1. same_permits d d1 \<Longrightarrow> Q x d1" and "\<And>e d1. same_permits d d1 \<Longrightarrow> E e d1"
  shows "ends Q E U (TransportExecute env request limits d)"
  unfolding TransportExecute_def
  by (intro ends_rules) (use assms in \<open>auto simp: same_permits_def\<close>)

lemmas request_body_rule = ends_accounts_tame [where k = 1, OF _ tame_commits(1)]

lemmas transport_time_rule = ends_accounts_tame [where k = 0, OF _ tame_commits(7)]

definition within_allowance :: "allowance \<Rightarrow> HttpResponse \<Rightarrow> bool" where
  "within_allowance al r \<longleftrightarrow>
     hr_header_bytes r \<le> al_header_bytes al \<and> hr_response_bytes r \<le> al_wire_response_bytes al \<and>
     hr_decompressed_response_bytes r \<le> al_decompressed_response_bytes al \<and>
     string_size (hr_body r) \<le> hr_decompressed_response_bytes r"

lemma ends_ExecuteOneAdmittedTransportAttempt:
  assumes "step_inv a0 l n 1 d" and "ready d"
  shows "ends (\<lambda>r d1. step_inv a0 l n 0 d1 \<and> ready d1 \<and> within_allowance al r)
    (\<lambda>_ d1. step_inv a0 l n 0 d1 \<and> ready d1) U (ExecuteOneAdmittedTransportAttempt env args al d)"
proof -
  have sent: "step_on a0 l n 0 a (log @ [Sent True (Some b)])" if "step_on a0 l n (Suc 0) a log" for a log b
    by (rule step_on_log) (use that in auto)
  show ?thesis
    unfolding ExecuteOneAdmittedTransportAttempt_def Let_def
    by (intro ends_rules allI ends_TransportExecute request_body_rule [where l = l and n = n and ?a0.0 = a0]
        transport_time_rule [where l = l and n = n and ?a0.0 = a0])
      (use assms in \<open>auto simp: held_defs same_permits_def within_allowance_def not_less intro: step_on_slackless sent\<close>)
qed

lemmas failure_rule = ends_accounts_tame [where k = 0, OF _ tame_commits(2)]

lemmas accept_rule = ends_accounts_tame [where k = 0, OF _ tame_commits(3)]

lemmas retry_wait_rule = ends_accounts_tame [where k = 0, OF _ tame_commits(4)]

lemma ends_admit_rate_limited:
  assumes "step_inv a0 l n 0 d" and "answered d"
  shows "ends (\<lambda>_ d1. step_inv a0 l n 0 d1 \<and> answered d1) (failed a0 l n) U
    (admit_rate_limited env args response lc d)"
  unfolding admit_rate_limited_def Let_def
  by (intro ends_rules throw_rules [where k = 0] failure_rule [where l = l and n = n and ?a0.0 = a0])
    (use assms in \<open>auto simp: held_defs\<close>)

lemma ends_wait_for_rate_limit:
  assumes "step_inv a0 l n 0 d" and "answered d"
  shows "ends (\<lambda>_ d1. step_inv a0 l n 0 d1 \<and> idle d1) (failed a0 l n) U
    (wait_for_rate_limit env args status g lc d)"
  unfolding wait_for_rate_limit_def Let_def
  by (intro ends_rules throw_rules [where k = 0] ends_AcquireRecoveryWaitAdmission [where k = 0]
      ends_publish_wait [where k = 0] ends_mono [OF ends_settle_wait [where l = l and n = n and ?a0.0 = a0]])
    (use assms in \<open>auto simp: held_defs\<close>)

lemma ends_handle_gateway_response:
  assumes "step_inv a0 l n 0 d" and "answered d"
  shows "ends (\<lambda>_ d1. step_inv a0 l n 0 d1 \<and> answered d1) (failed a0 l n) U
    (handle_gateway_response args response lc d)"
  unfolding handle_gateway_response_def Let_def
  by (intro ends_rules failure_rule [where l = l and n = n and ?a0.0 = a0]) (use assms in \<open>auto simp: held_defs\<close>)

lemma ends_handle_attempt_failure:
  assumes "step_inv a0 l n 0 d" and "answered d"
  shows "ends (\<lambda>_ d1. step_inv a0 l n 0 d1 \<and> answered d1) (failed a0 l n) U
    (handle_attempt_failure args failure lc d)"
  unfolding handle_attempt_failure_def Let_def
  by (intro ends_rules failure_rule [where l = l and n = n and ?a0.0 = a0]) (use assms in \<open>auto simp: held_defs\<close>)

text \<open>
  A sleep has enough fuel when every reading of the steady clock from call \<open>n\<close> on has passed the scan's deadline.
\<close>

definition past_deadline :: "'i environment \<Rightarrow> accounting \<Rightarrow> nat \<Rightarrow> bool" where
  "past_deadline env a0 n \<longleftrightarrow> ac_deadline_started a0 \<and> (\<forall>m \<ge> n. ac_deadline a0 \<le> env_now env m)"

lemma past_deadline_mono: "past_deadline env a0 n \<Longrightarrow> n \<le> m \<Longrightarrow> past_deadline env a0 m"
  by (auto simp: past_deadline_def)

lemma step_on_deadline:
  "step_on a0 l n k a log \<Longrightarrow> ac_deadline_started a0 \<Longrightarrow> Deadline a = Inr (ac_deadline a0)"
  by (simp add: step_on_def no_reset_def Deadline_def)

lemma ends_sleep_loop:
  assumes "step_inv a0 l n 0 d"
  shows "ends (\<lambda>_ d1. step_inv a0 l n 0 d1 \<and> dv_request d1 = dv_request d \<and> dv_buffer d1 = dv_buffer d)
    (failed a0 l n) (\<lambda>d1. step_inv a0 l n 0 d1 \<and> \<not> (0 < fuel \<and> past_deadline env a0 (fuel + dv_calls d)))
    (sleep_loop env fuel delay deadline waited d)"
  using assms
proof (induction fuel arbitrary: waited d)
  case 0
  then show ?case by (simp add: ends_def unfinished_def returns_def)
next
  case (Suc fuel)
  have ih: "ends (\<lambda>_ d2. step_inv a0 l n 0 d2 \<and> dv_request d2 = dv_request d \<and> dv_buffer d2 = dv_buffer d)
      (failed a0 l n) (\<lambda>d1. step_inv a0 l n 0 d1 \<and> \<not> past_deadline env a0 (Suc fuel + dv_calls d))
      (sleep_loop env fuel delay deadline w d1)"
    if d1: "step_inv a0 l n 0 d1" "dv_request d1 = dv_request d" "dv_buffer d1 = dv_buffer d"
      and calls: "Suc (dv_calls d) \<le> dv_calls d1"
      and early: "Deadline (dv_accounting d) = Inr x" "env_now env (Suc (dv_calls d)) < x" for d1 w x
  proof (rule ends_mono [OF Suc.IH [OF d1(1), of w]])
    fix d2
    assume U: "step_inv a0 l n 0 d2 \<and> \<not> (0 < fuel \<and> past_deadline env a0 (fuel + dv_calls d1))"
    have "\<not> past_deadline env a0 (Suc fuel + dv_calls d)"
    proof
      assume past: "past_deadline env a0 (Suc fuel + dv_calls d)"
      then have "x = ac_deadline a0"
        using step_on_deadline [OF Suc.prems] early(1) by (simp add: past_deadline_def)
      then have "\<not> Suc fuel + dv_calls d \<le> Suc (dv_calls d)"
        using past early(2) by (auto simp: past_deadline_def dest: spec [of _ "Suc (dv_calls d)"])
      then have "0 < fuel" by simp
      moreover have "past_deadline env a0 (fuel + dv_calls d1)"
        by (rule past_deadline_mono [OF past]) (use calls in simp)
      ultimately show False using U by simp
    qed
    then show "step_inv a0 l n 0 d2 \<and> \<not> past_deadline env a0 (Suc fuel + dv_calls d)" using U by simp
  qed (use d1 in auto)
  show ?case
    unfolding sleep_loop.simps Let_def
    by (intro ends_rules retry_wait_rule [where l = l and n = n and ?a0.0 = a0] ends_mono [OF ih])
      (use Suc.prems in auto)
qed

lemma ends_wait_before_repeat:
  assumes "step_inv a0 l n 0 d" and "answered d"
  shows "ends (\<lambda>_ d1. step_inv a0 l n 0 d1 \<and> idle d1) (failed a0 l n)
    (\<lambda>d1. step_inv a0 l n 0 d1 \<and> \<not> (0 < fuel \<and> past_deadline env a0 fuel)) (wait_before_repeat env args fuel lc d)"
proof -
  have slept: "step_on a0 l n 0 a (log @ [Waited Retry_Sleep False None])" if "step_on a0 l n 0 a log" for a log
    by (rule step_on_log) (use that in auto)
  show ?thesis
    unfolding wait_before_repeat_def Let_def
    by (intro ends_rules ends_AcquireRecoveryWaitAdmission [where k = 0]
        ends_mono [OF ends_sleep_loop [where l = l and n = n and ?a0.0 = a0]])
      (use assms in \<open>auto simp: held_defs intro: slept past_deadline_mono\<close>)
qed

subsection \<open>The loop\<close>

text \<open>What the caller may rely on when a response is returned.\<close>

definition accepted :: "step_args \<Rightarrow> allowance \<Rightarrow> HttpResponse \<Rightarrow> driver \<Rightarrow> bool" where
  "accepted args al r d \<longleftrightarrow>
     \<not> MatchesStatus (sa_rate_limit args) (hr_status r) \<and> \<not> IsRetryableGatewayResponse r \<and>
     rm_rate_limit_fields (hr_metadata r) = [] \<and> rm_date_field_values (hr_metadata r) = [] \<and>
     within_allowance al r \<and> ac_state (dv_accounting d) = TRANSPORT_COMMITTED \<and>
     \<not> dv_request d \<and> \<not> dv_waiter d \<and>
     (\<exists>b. TryRetainedHttpResponseBytes r = Some b \<and> dv_buffer d = (if b = 0 then None else Some b))"

definition attempt_ended :: "accounting \<Rightarrow> event list \<Rightarrow> nat \<Rightarrow> step_args \<Rightarrow> allowance \<Rightarrow> 'i attempt_end \<Rightarrow> driver \<Rightarrow> bool" where
  "attempt_ended a0 l n args al ending d \<longleftrightarrow> step_inv a0 l n 0 d \<and>
     (case ending of Accepted r \<Rightarrow> accepted args al r d | Again _ \<Rightarrow> idle d | Repeat_Later \<Rightarrow> answered d)"

lemma CommitTransport_state: "CommitTransport a u = (Inr x, b) \<Longrightarrow> ac_state b = TRANSPORT_COMMITTED"
  by (auto simp: CommitTransport_def CommitAttemptUsage_def Let_def split: if_splits)

lemma ends_RetainOnlyCompleteResponseBytes:
  assumes "\<And>b d1. TryRetainedHttpResponseBytes r = Some b \<Longrightarrow> dv_buffer d1 = (if b = 0 then None else Some b) \<Longrightarrow>
      dv_accounting d1 = dv_accounting d \<Longrightarrow> dv_log d1 = dv_log d \<Longrightarrow> dv_request d1 = dv_request d \<Longrightarrow>
      dv_waiter d1 = dv_waiter d \<Longrightarrow> Q () d1"
    and "\<And>x d1. dv_accounting d1 = dv_accounting d \<Longrightarrow> dv_log d1 = dv_log d \<Longrightarrow> E (Step_ExecutionError x) d1"
  shows "ends Q E U (RetainOnlyCompleteResponseBytes env r d)"
  unfolding RetainOnlyCompleteResponseBytes_def ResizeDecodedBytes_def
  by (intro ends_rules) (use assms in auto)

lemma discarded_metadata:
  "hr_status (DiscardRateLimitMetadata pf r) = hr_status r"
  "IsRetryableGatewayResponse (DiscardRateLimitMetadata pf r) = IsRetryableGatewayResponse r"
  "rm_rate_limit_fields (hr_metadata (DiscardRateLimitMetadata pf r)) = []"
  "rm_date_field_values (hr_metadata (DiscardRateLimitMetadata pf r)) = []"
  "within_allowance al (DiscardRateLimitMetadata pf r) = within_allowance al r"
  by (simp_all add: DiscardRateLimitMetadata_def IsRetryableGatewayResponse_def within_allowance_def)

lemma ends_attempt_body:
  assumes "step_inv a0 l n 1 d" and "ready d"
  shows "ends (attempt_ended a0 l n args al) (\<lambda>e d1. step_inv a0 l n 0 d1 \<and> (attempt_error e \<longrightarrow> answered d1)) U
    (attempt_body env args al lc d)"
  unfolding attempt_body_def Let_def
  by (intro ends_rules ends_mono [OF ends_ExecuteOneAdmittedTransportAttempt [where l = l and n = n and ?a0.0 = a0]]
      ends_mono [OF ends_admit_rate_limited [where l = l and n = n and ?a0.0 = a0]]
      ends_mono [OF ends_wait_for_rate_limit [where l = l and n = n and ?a0.0 = a0]]
      ends_mono [OF ends_handle_gateway_response [where l = l and n = n and ?a0.0 = a0]]
      accept_rule [where l = l and n = n and ?a0.0 = a0] ends_RetainOnlyCompleteResponseBytes)
    (use assms in \<open>auto simp: held_defs attempt_ended_def accepted_def discarded_metadata CommitTransport_state\<close>)

lemma ends_handle_attempt_error:
  assumes "step_inv a0 l n 0 d" and "attempt_error e \<longrightarrow> answered d"
  shows "ends (attempt_ended a0 l n args al) (failed a0 l n) U (handle_attempt_error args lc e d)"
proof (cases e)
  case (Step_AttemptCancelled facts)
  then show ?thesis
    unfolding handle_attempt_error_def
    by (simp, intro ends_rules failure_rule [where l = l and n = n and ?a0.0 = a0]) (use assms in auto)
next
  case (Step_AttemptFailure failure)
  then show ?thesis
    unfolding handle_attempt_error_def
    by (simp, intro ends_rules ends_mono [OF ends_handle_attempt_failure [where l = l and n = n and ?a0.0 = a0]])
      (use assms in \<open>auto simp: attempt_ended_def\<close>)
qed (use assms in \<open>simp_all add: handle_attempt_error_def ends_throws\<close>)

lemma ends_attempt:
  assumes "step_inv a0 l n 1 d" and "ready d"
  shows "ends (attempt_ended a0 l n args al) (failed a0 l n) U
    (handles (attempt_body env args al lc) (handle_attempt_error args lc) d)"
  by (intro ends_rules ends_mono [OF ends_attempt_body [OF assms]] ends_handle_attempt_error) auto

text \<open>Enough fuel for both loops: one round per attempt the page allows, and sleeps that outlast the deadline.\<close>

definition enough_fuel :: "'i environment \<Rightarrow> accounting \<Rightarrow> nat \<Rightarrow> nat \<Rightarrow> bool" where
  "enough_fuel env a0 sleep_fuel rounds \<longleftrightarrow>
     0 < sleep_fuel \<and> past_deadline env a0 sleep_fuel \<and>
     unat (pl_request_attempts (rp_page (ac_profile a0))) < rounds"

lemma enough_fuelD: "enough_fuel env a0 sleep_fuel rounds \<Longrightarrow> 0 < sleep_fuel \<and> past_deadline env a0 sleep_fuel"
  by (simp add: enough_fuel_def)

lemma step_on_attempts:
  "step_on a0 l n k a log \<Longrightarrow> unat (ac_current_step_attempts a) \<le> unat (pl_request_attempts (rp_page (ac_profile a0)))"
  by (auto simp: step_on_def accounting_inv_def attempts_per_page_def Let_def no_reset_def)

lemma ends_retry_loop:
  assumes "step_inv a0 l n 0 d" and "idle d"
  shows "ends (\<lambda>(r, al) d1. step_inv a0 l n 0 d1 \<and> accepted args al r d1) (failed a0 l n)
    (\<lambda>d1. step_inv a0 l n 0 d1 \<and> \<not> enough_fuel env a0 sleep_fuel (n + fuel))
    (retry_loop env args sleep_fuel fuel lc d)"
  using assms
proof (induction fuel arbitrary: n lc d)
  case 0
  then have "n \<le> unat (pl_request_attempts (rp_page (ac_profile a0)))"
    using step_on_attempts [OF 0(1)] by (simp add: step_on_def)
  with 0 show ?case by (simp add: ends_def unfinished_def enough_fuel_def)
next
  case (Suc fuel)
  let ?U = "\<lambda>d1. step_inv a0 l n 0 d1 \<and> \<not> enough_fuel env a0 sleep_fuel (Suc (n + fuel))"
  have ih: "ends (\<lambda>(r, al) d2. step_inv a0 l n 0 d2 \<and> accepted args al r d2) (failed a0 l n) ?U
      (retry_loop env args sleep_fuel fuel lc1 d1)" if "step_inv a0 l (Suc n) 0 d1" "idle d1" for lc1 d1
    by (rule ends_mono [OF Suc.IH [OF that]]) (auto intro: step_on_weaken)
  have ending: "ends (\<lambda>(r, al) d2. step_inv a0 l n 0 d2 \<and> accepted args al r d2) (failed a0 l n) ?U
      ((case ending of Accepted response \<Rightarrow> returns (response, al) | Again lc1 \<Rightarrow> retry_loop env args sleep_fuel fuel lc1
        | Repeat_Later \<Rightarrow> step_bind (wait_before_repeat env args sleep_fuel lc)
            (\<lambda>lc1. retry_loop env args sleep_fuel fuel lc1)) d1)"
    if "attempt_ended a0 l (Suc n) args al ending d1" for ending al d1
  proof (cases ending)
    case Repeat_Later
    then show ?thesis
      using that
      by (simp, intro ends_rules ends_mono [OF ends_wait_before_repeat [where l = l and n = "Suc n" and ?a0.0 = a0]])
        (auto simp: attempt_ended_def intro: ih step_on_weaken dest: enough_fuelD)
  qed (use that in \<open>auto simp: attempt_ended_def intro!: ends_returns ih intro: step_on_weaken\<close>)
  show ?case
    unfolding retry_loop.simps add_Suc_right
    by (intro ends_rules ends_mono [OF ends_reacquire_quota [where l = l and n = n and ?a0.0 = a0]]
        ends_mono [OF ends_AcquireRequestAdmission [where l = l and n = n and ?a0.0 = a0]]
        ends_mono [OF ends_ReserveAttemptBuffers [where l = l and n = n and ?a0.0 = a0]]
        ends_BeginAttempt [where l = l and n = n and ?a0.0 = a0]
        ends_mono [OF ends_attempt [where l = l and n = "Suc n" and ?a0.0 = a0]] ending)
      (use Suc.prems in \<open>auto simp: held_defs intro: step_on_weaken\<close>)
qed

subsection \<open>A whole step\<close>

definition started_at :: "'i environment \<Rightarrow> driver \<Rightarrow> accounting" where
  "started_at env d = snd (BeginStep (dv_accounting d) (env_now env (dv_calls d)))"

lemma BeginStep_state:
  "BeginStep a now = (Inr x, b) \<Longrightarrow> ac_state b = STEP_ACTIVE \<and> ac_current_step_attempts b = 0 \<and> ac_deadline_started b"
  by (auto simp: BeginStep_def RequireReadyForNext_def Let_def split: if_splits option.splits prod.splits)

lemma ends_step:
  assumes "accounting_inv (dv_accounting d)" and "idle d" and a0_def: "a0 = started_at env d"
  shows "ends (\<lambda>(r, al) d1. step_inv a0 (dv_log d) 0 0 d1 \<and> accepted args al r d1 \<and> \<not> dv_quota d1)
    (\<lambda>e d1. failed a0 (dv_log d) 0 e d1 \<and> idle d1 \<and> \<not> dv_quota d1)
    (\<lambda>d1. step_inv a0 (dv_log d) 0 0 d1 \<and> \<not> enough_fuel env a0 sleep_fuel rounds)
    (ExecuteHttpStepWithRetry env args sleep_fuel rounds d)"
proof -
  let ?a = "dv_accounting d" and ?now = "env_now env (dv_calls d)"
  have inv: "accounting_inv a0"
    using BeginStep_inv [OF assms(1), of ?now] by (simp add: a0_def started_at_def post_def)
  have start: "step_on a0 (dv_log d) 0 0 a0 (dv_log d)"
    using inv by (simp add: step_on_def no_reset_refl requests_in_def)
  have outcome: "b = a0" if "BeginStep ?a ?now = (z, b)" for z b
    using that by (simp add: a0_def started_at_def)
  show ?thesis
    unfolding ExecuteHttpStepWithRetry_def
    by (intro ends_rules ends_accounts ends_mono [OF ends_retry_loop [where l = "dv_log d" and n = 0 and ?a0.0 = a0]])
      (use start assms(2) in \<open>auto simp: held_defs release_permits_def accepted_def dest!: outcome\<close>)
qed

lemma started_no_reset: "no_reset (dv_accounting d) (started_at env d)"
  using BeginStep_no_reset [of "dv_accounting d" "env_now env (dv_calls d)"] by (simp add: started_at_def post_def)

lemma step_on_started:
  assumes "step_on (started_at env d) l n k a log"
  shows "accounting_inv a \<and> no_reset (dv_accounting d) a \<and>
    (\<exists>events. log = l @ events \<and> list_all event_ok events \<and>
       requests_in events \<le> unat (pl_request_attempts (rp_page (ac_profile (dv_accounting d)))) \<and> requests_in events \<le> 3)"
proof -
  have profile: "ac_profile (started_at env d) = ac_profile (dv_accounting d)"
    using started_no_reset [of d env] by (simp add: no_reset_def)
  have inv: "accounting_inv a" "no_reset (dv_accounting d) a"
    using assms started_no_reset by (auto simp: step_on_def intro: no_reset_trans)
  moreover have "pl_request_attempts (rp_page (ac_profile (dv_accounting d))) \<le> 3"
    using inv ValidateProfile_page(1) [of "ac_profile a"] by (simp add: accounting_inv_def no_reset_def)
  then have "unat (pl_request_attempts (rp_page (ac_profile (dv_accounting d)))) \<le> 3" by (simp add: word_le_nat_alt)
  moreover obtain events where "log = l @ events" "list_all event_ok events"
      "requests_in events \<le> unat (ac_current_step_attempts a)"
    using assms by (auto simp: step_on_def)
  ultimately show ?thesis using step_on_attempts [OF assms] unfolding profile by auto
qed

text \<open>
  C3. However the network, the clock, the shared controllers and cancellation behave, and however the step ends, it
  sends at most the page's number of attempts and never more than three requests. Every request goes out while the
  step holds a request permit and a reservation for its buffers, and whenever the step waits, for quota or between
  repeats, it holds neither, so a waiting scan never blocks another one. The accounting still satisfies its budget
  invariant, with the same profile and no counter reset.
\<close>

theorem step_requests_bounded:
  assumes "accounting_inv (dv_accounting d)" and "idle d"
  shows "let d1 = snd (ExecuteHttpStepWithRetry env args sleep_fuel rounds d) in
    accounting_inv (dv_accounting d1) \<and> no_reset (dv_accounting d) (dv_accounting d1) \<and>
    (\<exists>events. dv_log d1 = dv_log d @ events \<and> list_all event_ok events \<and>
       requests_in events \<le> unat (pl_request_attempts (rp_page (ac_profile (dv_accounting d)))) \<and> requests_in events \<le> 3)"
  using ends_step [OF assms refl, where env = env and args = args and sleep_fuel = sleep_fuel and rounds = rounds]
  by (cases "fst (ExecuteHttpStepWithRetry env args sleep_fuel rounds d)")
    (auto simp: ends_def Let_def dest!: step_on_started)

text \<open>
  C5. How a step ends. A returned response is neither rate limited under the policy nor a gateway failure that could
  be repeated; it stays within the allowance of its attempt, carries no rate-limit metadata, its transport is
  committed to the accounting, and the only permit left is the reservation for exactly the storage it retains. After
  an exception no permit is held at all, and the exception is a cancellation, a resource error or an execution error,
  never one of the transport's internal exceptions.
\<close>

theorem step_outcome:
  assumes "accounting_inv (dv_accounting d)" and "idle d"
  shows "case ExecuteHttpStepWithRetry env args sleep_fuel rounds d of
      (Finished (r, al), d1) \<Rightarrow> accepted args al r d1 \<and> \<not> dv_quota d1
    | (Threw e, d1) \<Rightarrow> idle d1 \<and> \<not> dv_quota d1 \<and> \<not> attempt_error e
    | (Unfinished, d1) \<Rightarrow> True"
  using ends_step [OF assms refl, where env = env and args = args and sleep_fuel = sleep_fuel and rounds = rounds]
  by (auto simp: ends_def split: prod.splits ended.splits)

text \<open>Time passes when the steady clock eventually stays beyond every point.\<close>

definition time_passes :: "'i environment \<Rightarrow> bool" where
  "time_passes env \<longleftrightarrow> (\<forall>t. \<exists>n. \<forall>m \<ge> n. t \<le> env_now env m)"

text \<open>
  C6. A step always ends when time passes, whatever the transport and the shared controllers answer and even if the
  rate-limit clock stands still: there are finitely many polls after which every sleep has ended, and four rounds of
  the loop are enough, because every round debits an attempt and a page allows three.
\<close>

theorem step_finishes:
  assumes "accounting_inv (dv_accounting d)" and "idle d" and "time_passes env"
  shows "\<exists>polls. \<forall>sleep_fuel \<ge> polls. \<forall>rounds \<ge> 4. fst (ExecuteHttpStepWithRetry env args sleep_fuel rounds d) \<noteq> Unfinished"
proof -
  let ?a = "dv_accounting d" and ?now = "env_now env (dv_calls d)"
  define a0 where "a0 = started_at env d"
  obtain n where n: "\<forall>m \<ge> n. ac_deadline a0 \<le> env_now env m" using assms(3) by (auto simp: time_passes_def)
  show ?thesis
  proof (cases "fst (BeginStep ?a ?now)")
    case (Inl e)
    then have "fst (ExecuteHttpStepWithRetry env args f k d) \<noteq> Unfinished" for f k
      by (cases "BeginStep ?a ?now")
        (simp add: ExecuteHttpStepWithRetry_def step_bind_def handles_def asks_def accounts_def modifies_def throws_def)
    then show ?thesis by blast
  next
    case (Inr x)
    then have "ac_deadline_started a0"
      using BeginStep_state [of ?a ?now x a0] by (cases "BeginStep ?a ?now") (simp add: a0_def started_at_def)
    then have past: "past_deadline env a0 f" if "n \<le> f" for f using that n by (simp add: past_deadline_def)
    have "ac_profile a0 = ac_profile ?a" using started_no_reset [of d env] by (simp add: no_reset_def a0_def)
    moreover have "pl_request_attempts (rp_page (ac_profile ?a)) \<le> 3"
      using assms(1) ValidateProfile_page(1) by (simp add: accounting_inv_def)
    ultimately have few: "unat (pl_request_attempts (rp_page (ac_profile a0))) \<le> 3" by (simp add: word_le_nat_alt)
    have "fst (ExecuteHttpStepWithRetry env args f k d) \<noteq> Unfinished" if "max 1 n \<le> f" "4 \<le> k" for f k
    proof
      assume "fst (ExecuteHttpStepWithRetry env args f k d) = Unfinished"
      then have "\<not> enough_fuel env a0 f k"
        using ends_step [OF assms(1,2) a0_def, where args = args and sleep_fuel = f and rounds = k] by (simp add: ends_def)
      then show False using that few past [of f] by (simp add: enough_fuel_def)
    qed
    then show ?thesis by blast
  qed
qed

subsection \<open>A run\<close>

text \<open>
  A run for the witnesses: the first request cannot connect, the step sleeps, and the repeated request is answered.
\<close>

definition sample_storage :: string_storage where
  "sample_storage = \<lparr>ss_capacity = 15, ss_inline = True\<rparr>"

definition sample_request :: HttpRequest where
  "sample_request = \<lparr>rq_method = ''GET'', rq_scheme = ''https'', rq_host = ''api.example.com'', rq_port = 443,
     rq_target = ''/items'', rq_headers = [(''Accept'', ''application/json'')],
     rq_body = [], rq_content_type = [], rq_target_storage = sample_storage, rq_body_storage = sample_storage\<rparr>"

definition sample_response :: HttpResponse where
  "sample_response = \<lparr>hr_status = 200, hr_header_bytes = 20, hr_response_bytes = 2, hr_decompressed_response_bytes = 2,
     hr_body = ''[]'', hr_body_storage = \<lparr>ss_capacity = 30, ss_inline = False\<rparr>,
     hr_metadata = \<lparr>rm_link_field_values = [], rm_link_vector_capacity = 0, rm_link_storage = [], rm_retained_bytes = 0,
       rm_retry_after_present = False, rm_rate_limit_fields = [], rm_date_field_values = []\<rparr>\<rparr>"

definition sample_refusal :: HttpAttemptFailure where
  "sample_refusal = \<lparr>hf_kind = COULD_NOT_CONNECT,
     hf_facts = \<lparr>af_response_status = 0, af_header_bytes = 0, af_response_bytes = 0, af_decompressed_response_bytes = 0\<rparr>,
     hf_error = unclassified_error Stage_TRANSPORT [] ''HTTP transport failed''\<rparr>"

definition sample_rate_limit :: AdmittedRateLimitPolicy where
  "sample_rate_limit = \<lparr>ar_declared = False, ar_connector_id = ''demo'', ar_mode = Mode_FAIL, ar_statuses = [],
     ar_operation_family = [], ar_principal_scope = Scope_SHARED, ar_guidance = [], ar_remaining_quota_header = [],
     ar_remote_bucket_header = [], ar_max_attempts_per_step = 0, ar_max_attempts_per_scan = 0,
     ar_max_delay_milliseconds = 0, ar_max_cumulative_waiting_milliseconds_per_scan = 0, ar_package_major_version = 1,
     ar_waiting_enabled = False\<rparr>"

definition sample_args :: step_args where
  "sample_args = \<lparr>sa_policy = \<lparr>rt_max_attempts_per_step = 2, rt_max_attempts_per_scan = 4,
     rt_max_delay_milliseconds = 80, rt_max_cumulative_waiting_milliseconds_per_scan = 200\<rparr>,
     sa_rate_limit = sample_rate_limit, sa_max_metadata_bytes = 100, sa_jitter_seed = 7\<rparr>"

definition sample_dimension :: dimension_limits where
  "sample_dimension = \<lparr>dl_global = 8, dl_connector = 8, dl_destination = 8, dl_principal = 8, dl_bulkhead = 8\<rparr>"

definition sample_admission :: admission_profile where
  "sample_admission = \<lparr>ap_credential_resolutions = sample_dimension,
     ap_queued_credential_resolutions = sample_dimension, ap_active_scans = sample_dimension,
     ap_in_flight_requests = sample_dimension, ap_queued_scan_admissions = sample_dimension,
     ap_queued_request_admissions = sample_dimension, ap_retry_waiters = sample_dimension,
     ap_rate_limit_waiters = sample_dimension, ap_buffered_bytes = sample_dimension,
     ap_buffered_rows = sample_dimension, ap_provider_queue_timeout_milliseconds = 1000,
     ap_scan_queue_timeout_milliseconds = 1000, ap_request_queue_timeout_milliseconds = 1000,
     ap_aggregate_request_waiting_milliseconds = 5000, ap_interrupt_slice_milliseconds = 10\<rparr>"

text \<open>The shared controllers admit everything; both clocks advance with every question to the environment.\<close>

definition sample_environment :: "unit environment" where
  "sample_environment = \<lparr>
     env_platform = \<lparr>sizeof_string = 32, sizeof_HttpHeader = 64, sizeof_pointer = 8\<rparr>,
     env_admission_profile = sample_admission,
     env_destination = \<lparr>dk_scheme = ''https'', dk_host = ''api.example.com'', dk_explicit_port = 0\<rparr>,
     env_principal = Anonymous, env_cancelled = (\<lambda>_. False), env_now = (\<lambda>n. int n * 1000000),
     env_clock = (\<lambda>n. int n * 50), env_receipt = (\<lambda>n. (int n, int n * 50)),
     env_admit_request = (\<lambda>_ _. (ADMITTED, EmptyObservation)),
     env_admit_waiter = (\<lambda>_ _. (ADMITTED, EmptyObservation)),
     env_reserve_bytes = (\<lambda>_ _. (ADMITTED, EmptyObservation)),
     env_resize_bytes = (\<lambda>_ _. (ADMITTED, EmptyObservation)),
     env_reserve_rows = (\<lambda>_ _. (ADMITTED, EmptyObservation)),
     env_terminal_reason = (\<lambda>_. NO_REASON), env_acquire = (\<lambda>_ _ _ _. ACQUIRED), env_requeue = (\<lambda>_ _ _. ACQUIRED),
     env_request = (\<lambda>_ _. Inr sample_request),
     env_get = (\<lambda>n _ _. if n < 15 then Inl (Step_AttemptFailure sample_refusal) else Inr sample_response),
     env_post = (\<lambda>_ _ _. Inr sample_response)\<rparr>"

definition bodyless_profile :: resource_profile where
  "bodyless_profile = sample_profile
     \<lparr>rp_page := (rp_page sample_profile)\<lparr>pl_serialized_request_body_bytes := 0\<rparr>,
      rp_scan := (rp_scan sample_profile)\<lparr>sl_serialized_request_body_bytes := 0\<rparr>\<rparr>"

definition bodyless_start :: accounting where
  "bodyless_start = (case ScanResourceAccounting bodyless_profile of Inr a \<Rightarrow> a)"

definition sample_driver :: driver where
  "sample_driver = \<lparr>dv_accounting = bodyless_start,
     dv_execution = \<lparr>ex_ordinary_retry_repeats = 0, ex_rate_limit_repeats = 0, ex_rate_limit_events = 0,
       ex_rate_limit_waits = 0, ex_rate_limit_reason = RL_NONE, ex_rate_limit_waiting = False\<rparr>,
     dv_diagnostics = \<lparr>wd_waiting = False, wd_snapshot = None\<rparr>, dv_calls = 0, dv_request = False, dv_buffer = None,
     dv_waiter = False, dv_quota = False, dv_body_bytes = 0, dv_log = []\<rparr>"

lemma sample_hypotheses:
  "accounting_inv (dv_accounting sample_driver)" "idle sample_driver" "time_passes sample_environment"
proof -
  have "ScanResourceAccounting bodyless_profile = Inr bodyless_start" by code_simp
  then show "accounting_inv (dv_accounting sample_driver)" by (simp add: sample_driver_def construction_inv)
  show "idle sample_driver" by (simp add: sample_driver_def idle_def)
  have "t \<le> int m * 1000000" if "nat t \<le> m" for t :: int and m
    using that by linarith
  then show "time_passes sample_environment"
    unfolding time_passes_def sample_environment_def by (auto intro!: exI [of _ "nat _"])
qed

lemma sample_attempts: "unat (pl_request_attempts (rp_page (ac_profile (dv_accounting sample_driver)))) = 2"
  by code_simp

theorem step_requests_bounded_witness:
  "\<exists>events. dv_log (snd (ExecuteHttpStepWithRetry sample_environment sample_args 20 4 sample_driver)) = events \<and>
     list_all event_ok events \<and> requests_in events \<le> 2"
  using step_requests_bounded [OF sample_hypotheses(1,2), of sample_environment sample_args 20 4]
  by (simp add: Let_def sample_attempts) (simp add: sample_driver_def)

theorem step_outcome_witness:
  "case ExecuteHttpStepWithRetry sample_environment sample_args 20 4 sample_driver of
     (Finished (r, al), d1) \<Rightarrow> accepted sample_args al r d1 \<and> \<not> dv_quota d1
   | (Threw e, d1) \<Rightarrow> idle d1 \<and> \<not> dv_quota d1 \<and> \<not> attempt_error e
   | (Unfinished, d1) \<Rightarrow> True"
  by (rule step_outcome [OF sample_hypotheses(1,2)])

theorem step_finishes_witness:
  "\<exists>polls. fst (ExecuteHttpStepWithRetry sample_environment sample_args polls 4 sample_driver) \<noteq> Unfinished"
  using step_finishes [OF sample_hypotheses, of sample_args] by blast

end
