(* ===== verification/Json_Decoder.thy ===== *)
theory Json_Decoder
  imports Json_Strings Typed_Values Execution_Error
begin

text \<open>
  The decoder of REST responses, \<open>src/src/runtime/decoding/json_decoder.cpp\<close>: the declared records and columns of a
  JSON document become typed rows, under budgets for records, strings, nesting and memory.

  \<open>JsonParser\<close> repeats the lexical functions of the strict reader (\<open>SkipWhitespace\<close>, \<open>Expect\<close>, the separators, hex
  code units, UTF-8 sequences, numbers, literals) line by line, so they are the functions of \<open>Strict_Json\<close> here, with
  their errors turned into the exceptions of this file. A parser is its cursor, its six memory counters and the
  continuation it found; a computation returns a value and a parser, or the exception that ends the decoding.

  Capacities and object sizes belong to the standard library of the platform. They are the argument \<open>dx_storage\<close> of the
  model, with \<^term>\<open>None\<close> for an allocation that throws; nothing is assumed of them.
\<close>

unbundle bit_operations_syntax

subsection \<open>Plans, storage and the parser\<close>

record JsonColumnPlan =
  jc_output_name :: string
  jc_type :: OutputValueType
  jc_nullable :: bool
  jc_json_path :: "string list"

datatype JsonResponseSource = JSON_PATH_MANY | ROOT_ARRAY | ROOT_OBJECT

record JsonDecodePlan =
  jd_response_source :: JsonResponseSource
  jd_records_path :: "string list"
  jd_columns :: "JsonColumnPlan list"
  jd_page_continuation_path :: "string list"
  jd_max_records :: u64
  jd_max_string_bytes :: u64
  jd_max_json_nesting :: u64
  jd_max_decoded_memory_bytes :: u64

text \<open>
  Sizes of objects; the capacity a reservation leads to, given the capacity before where that matters; and the capacity a
  string has after it was moved into its row, exchanged with the empty continuation, or taken out of the parser.
\<close>

record json_storage =
  js_sizeof_TypedRow :: u64
  js_sizeof_TypedValue :: u64
  js_sizeof_TypedScalarValue :: u64
  js_sizeof_ParsedSlot :: u64
  js_string_initial :: u64
  js_string_reserve :: "u64 \<Rightarrow> u64 \<Rightarrow> u64 option"
  js_string_moved :: "u64 \<Rightarrow> u64"
  js_string_swapped :: "u64 \<Rightarrow> u64"
  js_string_taken :: "u64 \<Rightarrow> u64"
  js_rows_reserve :: "u64 \<Rightarrow> u64 option"
  js_slots_resize :: "u64 \<Rightarrow> u64 option"
  js_values_reserve :: "u64 \<Rightarrow> u64 option"
  js_elements_reserve :: "u64 \<Rightarrow> u64 \<Rightarrow> u64 option"

record json_context =
  dx_input :: string
  dx_plan :: JsonDecodePlan
  dx_control :: json_control
  dx_storage :: json_storage

record JsonParser =
  jp_position :: json_cursor
  jp_decoded_memory :: u64
  jp_pending_string_memory :: u64
  jp_pending_array_memory :: u64
  jp_pending_structural_memory :: u64
  jp_continuation_memory :: u64
  jp_peak_memory :: u64
  jp_next_url :: string
  jp_next_url_capacity :: u64

datatype decode_error = Decode_Cancelled | Decode_Failed ExecutionError | Decode_OutOfFuel

type_synonym 'a parser = "JsonParser \<Rightarrow> decode_error + ('a \<times> JsonParser)"

definition parses :: "'a \<Rightarrow> 'a parser" where
  "parses x ps = Inr (x, ps)"

definition fails :: "ErrorStage \<Rightarrow> string \<Rightarrow> string \<Rightarrow> 'a parser" where
  "fails stage field msg ps = Inl (Decode_Failed (unclassified_error stage field msg))"

definition parser_bind :: "'a parser \<Rightarrow> ('a \<Rightarrow> 'b parser) \<Rightarrow> 'b parser" where
  "parser_bind m f ps = and_then (m ps) (\<lambda>(x, ps1). f x ps1)"

definition memory_error :: "string \<Rightarrow> 'a parser" where
  "memory_error msg = fails Stage_RESOURCE ''decoded_memory_bytes'' msg"

definition incompatible :: "string \<Rightarrow> 'a parser" where
  "incompatible field = fails Stage_SCHEMA field ''required response field has an incompatible type''"

definition rows_exceeded :: string where
  "rows_exceeded = ''decoded rows exceeded their memory budget''"

subsection \<open>Lexical operations\<close>

text \<open>The exceptions behind the lexical errors; the resource errors are the deadline and the nesting limit.\<close>

fun thrown :: "json_error \<Rightarrow> decode_error" where
  "thrown JsonMalformed = Decode_Failed (unclassified_error Stage_DECODE [] ''HTTP response is not valid JSON'')"
| "thrown JsonCancelled = Decode_Cancelled"
| "thrown (JsonResource field) = Decode_Failed (unclassified_error Stage_RESOURCE field
     (if field = ''json_nesting'' then ''HTTP response exceeded its JSON nesting budget''
      else ''execution exceeded its wall-time budget''))"
| "thrown JsonOutOfFuel = Decode_OutOfFuel"

definition lexical :: "json_error + 'a \<Rightarrow> decode_error + 'a" where
  "lexical r = map_sum thrown id r"

lemma lexical_simps [simp]: "lexical (Inl e) = Inl (thrown e)" "lexical (Inr x) = Inr x"
  "lexical r = Inr x \<longleftrightarrow> r = Inr x"
  by (auto simp: lexical_def split: sum.splits) (cases r; simp)

definition lexes :: "(json_cursor \<Rightarrow> json_error + json_cursor) \<Rightarrow> unit parser" where
  "lexes f ps = and_then (lexical (f (jp_position ps))) (\<lambda>p. Inr ((), ps\<lparr>jp_position := p\<rparr>))"

definition Parser_Peek :: "char parser" where
  "Parser_Peek ps = Inr (json_Peek (jp_position ps), ps)"

definition Parser_Check :: "json_context \<Rightarrow> unit parser" where
  "Parser_Check cx = lexes (\<lambda>p. and_then (json_Check (dx_control cx) (snd p)) (\<lambda>n. Inr (fst p, n)))"

definition Parser_SkipWhitespace :: "json_context \<Rightarrow> unit parser" where
  "Parser_SkipWhitespace cx = lexes (SkipWhitespace (dx_control cx))"

definition Parser_Expect :: "json_context \<Rightarrow> char \<Rightarrow> unit parser" where
  "Parser_Expect cx expected = lexes (Expect (dx_control cx) expected)"

definition Parser_RequireObjectKey :: "unit parser" where
  "Parser_RequireObjectKey = lexes (\<lambda>p. and_then (RequireObjectKey p) (\<lambda>_. Inr p))"

definition ConsumeObjectSeparator :: "json_context \<Rightarrow> unit parser" where
  "ConsumeObjectSeparator cx = lexes (ObjectSeparator (dx_control cx))"

definition ConsumeArraySeparator :: "json_context \<Rightarrow> unit parser" where
  "ConsumeArraySeparator cx = lexes (ArraySeparator (dx_control cx))"

definition ParseLiteral :: "json_context \<Rightarrow> string \<Rightarrow> unit parser" where
  "ParseLiteral cx word = lexes (json_Literal (dx_control cx) word)"

definition Parser_ParseNumberToken :: "json_context \<Rightarrow> string parser" where
  "Parser_ParseNumberToken cx ps =
     and_then (lexical (json_number_scan (dx_control cx) (jp_position ps))) (\<lambda>q.
       let begin = fst (jp_position ps) in
       Inr (take (length begin - length (fst q)) begin, ps\<lparr>jp_position := q\<rparr>))"

subsection \<open>Memory\<close>

definition CheckedAdd :: "u64 \<Rightarrow> u64 \<Rightarrow> u64 option" where
  "CheckedAdd a b = (if b > uint64_max - a then None else Some (a + b))"

definition CheckedMultiply :: "u64 \<Rightarrow> u64 \<Rightarrow> u64 option" where
  "CheckedMultiply a b = (if a \<noteq> 0 \<and> b > uint64_max div a then None else Some (a * b))"

text \<open>The sum of all counters, as the source adds them up at every reservation, and an addition to it.\<close>

definition current_memory :: "JsonParser \<Rightarrow> u64 option" where
  "current_memory ps =
     Option.bind (CheckedAdd (jp_decoded_memory ps) (jp_pending_string_memory ps)) (\<lambda>m.
     Option.bind (CheckedAdd m (jp_pending_array_memory ps)) (\<lambda>m.
     Option.bind (CheckedAdd m (jp_pending_structural_memory ps)) (\<lambda>m.
     CheckedAdd m (jp_continuation_memory ps))))"

definition within_memory :: "json_context \<Rightarrow> u64 \<Rightarrow> JsonParser \<Rightarrow> u64 option" where
  "within_memory cx addition ps =
     (case Option.bind (current_memory ps) (\<lambda>m. CheckedAdd m addition) of
        None \<Rightarrow> None
      | Some m \<Rightarrow> if m > jd_max_decoded_memory_bytes (dx_plan cx) then None else Some m)"

definition RequireMemory :: "u64 \<Rightarrow> u64 \<Rightarrow> u64 \<Rightarrow> u64 parser" where
  "RequireMemory current addition limit =
     (case CheckedAdd current addition of
        None \<Rightarrow> memory_error rows_exceeded
      | Some updated \<Rightarrow> if updated > limit then memory_error rows_exceeded else parses updated)"

definition ObserveCurrentMemory :: "json_context \<Rightarrow> unit parser" where
  "ObserveCurrentMemory cx ps =
     (case current_memory ps of
        None \<Rightarrow> memory_error rows_exceeded ps
      | Some current \<Rightarrow>
          if current > jd_max_decoded_memory_bytes (dx_plan cx) then memory_error rows_exceeded ps
          else Inr ((), ps\<lparr>jp_peak_memory := max (jp_peak_memory ps) current\<rparr>))"

definition ReservePendingStringMemory :: "json_context \<Rightarrow> u64 \<Rightarrow> unit parser" where
  "ReservePendingStringMemory cx addition ps =
     (case (within_memory cx addition ps, CheckedAdd (jp_pending_string_memory ps) addition) of
        (Some _, Some pending) \<Rightarrow> ObserveCurrentMemory cx (ps\<lparr>jp_pending_string_memory := pending\<rparr>)
      | _ \<Rightarrow> memory_error ''decoded string exceeded its memory budget'' ps)"

definition ReserveStructuralMemory :: "json_context \<Rightarrow> u64 \<Rightarrow> unit parser" where
  "ReserveStructuralMemory cx addition ps =
     (case (within_memory cx addition ps, CheckedAdd (jp_pending_structural_memory ps) addition) of
        (Some _, Some pending) \<Rightarrow> ObserveCurrentMemory cx (ps\<lparr>jp_pending_structural_memory := pending\<rparr>)
      | _ \<Rightarrow> memory_error ''decoded row staging exceeded its memory budget'' ps)"

definition ReconcileStructuralMemory :: "json_context \<Rightarrow> u64 \<Rightarrow> u64 \<Rightarrow> unit parser" where
  "ReconcileStructuralMemory cx reserved actual ps =
     (if actual > reserved then ReserveStructuralMemory cx (actual - reserved) ps
      else Inr ((), ps\<lparr>jp_pending_structural_memory := jp_pending_structural_memory ps - (reserved - actual)\<rparr>))"

definition allocation_exceeded :: "u64 \<Rightarrow> u64 \<Rightarrow> u64 \<Rightarrow> bool" where
  "allocation_exceeded count object_bytes limit =
     (case CheckedMultiply count object_bytes of None \<Rightarrow> True | Some bytes \<Rightarrow> bytes > limit)"

text \<open>The capacity of the row vector.\<close>

definition AllocateResult :: "json_context \<Rightarrow> u64 parser" where
  "AllocateResult cx ps =
     (let plan = dx_plan cx; size = js_sizeof_TypedRow (dx_storage cx); limit = jd_max_decoded_memory_bytes plan in
      if allocation_exceeded (jd_max_records plan) size limit then memory_error rows_exceeded ps
      else case js_rows_reserve (dx_storage cx) (jd_max_records plan) of
        None \<Rightarrow> memory_error ''decoded rows could not be allocated within their memory budget'' ps
      | Some capacity \<Rightarrow>
          if allocation_exceeded capacity size limit then memory_error rows_exceeded ps
          else parser_bind (ObserveCurrentMemory cx) (\<lambda>_. parses capacity)
                 (ps\<lparr>jp_decoded_memory := capacity * size\<rparr>))"

subsection \<open>Strings\<close>

text \<open>A string under construction: its bytes, its capacity and the part of it that is charged.\<close>

record owned_string =
  os_text :: string
  os_capacity :: u64
  os_charged :: u64

definition string_exceeded :: "string \<Rightarrow> 'a parser" where
  "string_exceeded field = fails Stage_RESOURCE field ''required response string exceeded its byte budget''"

definition ReserveRetainedString ::
  "json_context \<Rightarrow> JsonColumnPlan option \<Rightarrow> u64 \<Rightarrow> owned_string \<Rightarrow> owned_string parser" where
  "ReserveRetainedString cx column addition s =
     (case column of
        None \<Rightarrow> parses s
      | Some col \<Rightarrow> (\<lambda>ps.
          let limit = jd_max_string_bytes (dx_plan cx); size = of_nat (length (os_text s)) in
          if addition > limit \<or> size > limit - addition then string_exceeded (jc_output_name col) ps
          else
            let required = size + addition; exceeded = memory_error ''decoded string exceeded its memory budget'' in
            if required \<le> os_capacity s \<and> os_charged s = os_capacity s then Inr (s, ps)
            else
              let requested = max required (os_capacity s) in
              if requested < os_charged s then exceeded ps
              else case within_memory cx requested ps of
                None \<Rightarrow> exceeded ps
              | Some retained \<Rightarrow>
                  let ps1 = ps\<lparr>jp_peak_memory := max (jp_peak_memory ps) retained\<rparr> in
                  (case (if required > os_capacity s
                         then js_string_reserve (dx_storage cx) (os_capacity s) required else Some (os_capacity s)) of
                     None \<Rightarrow> memory_error ''decoded string could not be allocated within its memory budget'' ps
                   | Some actual \<Rightarrow>
                       if actual < os_charged s then exceeded ps
                       else case (within_memory cx actual ps1,
                                  CheckedAdd (jp_pending_string_memory ps1) (actual - os_charged s)) of
                         (Some co_live, Some pending) \<Rightarrow>
                           let ps2 = ps1\<lparr>jp_pending_string_memory := pending\<rparr> in
                           if within_memory cx 0 ps2 = None then exceeded ps
                           else parser_bind (ObserveCurrentMemory cx)
                                  (\<lambda>_. parses (s\<lparr>os_capacity := actual, os_charged := actual\<rparr>))
                                  (ps2\<lparr>jp_peak_memory := max (jp_peak_memory ps2) co_live\<rparr>)
                       | _ \<Rightarrow> exceeded ps)))"

text \<open>Appending bytes: the reservation, then the bytes.\<close>

definition append_retained ::
  "json_context \<Rightarrow> JsonColumnPlan option \<Rightarrow> string \<Rightarrow> owned_string \<times> JsonParser
   \<Rightarrow> decode_error + (owned_string \<times> JsonParser)" where
  "append_retained cx column bytes = (\<lambda>(s, ps).
     parser_bind (ReserveRetainedString cx column (of_nat (length bytes)) s)
       (\<lambda>s. parses (s\<lparr>os_text := os_text s @ bytes\<rparr>)) ps)"

function string_loop ::
    "json_control \<Rightarrow> (string \<Rightarrow> 's \<Rightarrow> decode_error + 's) \<Rightarrow> json_cursor \<Rightarrow> 's \<Rightarrow> decode_error + (json_cursor \<times> 's)" where
  "string_loop k put ([], n) s = Inl (thrown JsonMalformed)"
| "string_loop k put (c # cs, n) s =
     and_then (lexical (json_Check k n)) (\<lambda>n'.
       if c = CHR 0x22 then Inr ((cs, n'), s)
       else if byte c < 0x20 then Inl (thrown JsonMalformed)
       else if c \<noteq> CHR 0x5C
       then and_then (lexical (SkipUtf8 k c (cs, n'))) (\<lambda>q.
            and_then (put (c # take (length cs - length (fst q)) cs) s) (string_loop k put q))
       else (case cs of [] \<Rightarrow> Inl (thrown JsonMalformed)
         | e # es \<Rightarrow>
             if e = CHR ''u''
             then and_then (lexical (ParseEscapedUnicode k (es, n'))) (\<lambda>(value, q).
                  and_then (put (code_point_bytes value) s) (string_loop k put q))
             else (case json_escape e of None \<Rightarrow> Inl (thrown JsonMalformed)
               | Some b \<Rightarrow> and_then (put [b] s) (string_loop k put (es, n')))))"
  by pat_completeness auto
termination
  by (relation "measure (\<lambda>(k, put, p, s). length (fst p))")
    (auto dest: SkipUtf8_length ParseEscapedUnicode_length)

definition Parser_ParseString :: "json_context \<Rightarrow> JsonColumnPlan option \<Rightarrow> owned_string parser" where
  "Parser_ParseString cx column =
     parser_bind (Parser_Expect cx CHR 0x22) (\<lambda>_.
     parser_bind (ReserveRetainedString cx column 0
         \<lparr>os_text = [], os_capacity = js_string_initial (dx_storage cx), os_charged = 0\<rparr>) (\<lambda>s ps.
       and_then (string_loop (dx_control cx) (append_retained cx column) (jp_position ps) (s, ps)) (\<lambda>(q, s, ps).
         Inr (s, ps\<lparr>jp_position := q\<rparr>))))"

subsection \<open>Values that are skipped\<close>

definition out_of_fuel :: "'a parser" where
  "out_of_fuel ps = Inl Decode_OutOfFuel"

primrec parser_array_loop :: "nat \<Rightarrow> unit parser \<Rightarrow> json_context \<Rightarrow> unit parser" where
  "parser_array_loop 0 element cx = out_of_fuel"
| "parser_array_loop (Suc fuel) element cx =
     parser_bind Parser_Peek (\<lambda>c.
       if c = CHR '']'' then parses ()
       else parser_bind element (\<lambda>_.
            parser_bind (ConsumeArraySeparator cx) (\<lambda>_. parser_array_loop fuel element cx)))"

primrec parser_object_loop :: "nat \<Rightarrow> unit parser \<Rightarrow> json_context \<Rightarrow> unit parser" where
  "parser_object_loop 0 element cx = out_of_fuel"
| "parser_object_loop (Suc fuel) element cx =
     parser_bind Parser_Peek (\<lambda>c.
       if c = CHR ''}'' then parses ()
       else parser_bind Parser_RequireObjectKey (\<lambda>_.
            parser_bind (Parser_ParseString cx None) (\<lambda>_.
            parser_bind (Parser_SkipWhitespace cx) (\<lambda>_.
            parser_bind (Parser_Expect cx CHR '':'') (\<lambda>_.
            parser_bind element (\<lambda>_.
            parser_bind (ConsumeObjectSeparator cx) (\<lambda>_. parser_object_loop fuel element cx)))))))"

primrec skip_value :: "nat \<Rightarrow> json_context \<Rightarrow> nat \<Rightarrow> unit parser" where
  "skip_value 0 cx depth = out_of_fuel"
| "skip_value (Suc fuel) cx depth =
     parser_bind (Parser_SkipWhitespace cx) (\<lambda>_.
       if depth > unat (jd_max_json_nesting (dx_plan cx))
       then fails Stage_RESOURCE ''json_nesting'' ''HTTP response exceeded its JSON nesting budget''
       else parser_bind Parser_Peek (\<lambda>c.
         if c = CHR 0x22 then parser_bind (Parser_ParseString cx None) (\<lambda>_. parses ())
         else if c = CHR ''-'' \<or> json_digit c then parser_bind (Parser_ParseNumberToken cx) (\<lambda>_. parses ())
         else if c = CHR ''t'' then ParseLiteral cx ''true''
         else if c = CHR ''f'' then ParseLiteral cx ''false''
         else if c = CHR ''n'' then ParseLiteral cx ''null''
         else if c = CHR ''['' then
           parser_bind (Parser_Expect cx CHR ''['') (\<lambda>_.
           parser_bind (Parser_SkipWhitespace cx) (\<lambda>_.
           parser_bind (parser_array_loop fuel (skip_value fuel cx (depth + 1)) cx) (\<lambda>_.
           Parser_Expect cx CHR '']'')))
         else if c = CHR ''{'' then
           parser_bind (Parser_Expect cx CHR ''{'') (\<lambda>_.
           parser_bind (Parser_SkipWhitespace cx) (\<lambda>_.
           parser_bind (parser_object_loop fuel (skip_value fuel cx (depth + 1)) cx) (\<lambda>_.
           Parser_Expect cx CHR ''}'')))
         else lexes (\<lambda>_. Inl JsonMalformed)))"

definition Parser_SkipValue :: "json_context \<Rightarrow> unit parser" where
  "Parser_SkipValue cx = skip_value (json_fuel (dx_input cx)) cx 0"

definition Parser_ValidateDocument :: "json_context \<Rightarrow> unit parser" where
  "Parser_ValidateDocument cx =
     parser_bind (Parser_SkipWhitespace cx) (\<lambda>_.
     parser_bind (Parser_SkipValue cx) (\<lambda>_.
     parser_bind (Parser_SkipWhitespace cx) (\<lambda>_.
     lexes (\<lambda>p. if fst p \<noteq> [] then Inl JsonMalformed else Inr (json_Reset (dx_input cx) p)))))"

subsection \<open>Numbers\<close>

definition decimal_digits :: "string \<Rightarrow> nat" where
  "decimal_digits ds = foldl (\<lambda>v c. 10 * v + (byte c - byte CHR ''0'')) 0 ds"

text \<open>\<open>std::strtoll\<close> on a token of an optional minus sign and digits; \<^term>\<open>None\<close> is \<open>ERANGE\<close>.\<close>

definition strtoll :: "string \<Rightarrow> int option" where
  "strtoll token =
     (let v = (case token of [] \<Rightarrow> 0 | c # ds \<Rightarrow> if c = CHR ''-'' then - int (decimal_digits ds)
                                              else int (decimal_digits token)) in
      if int64_min \<le> v \<and> v \<le> int64_max then Some v else None)"

text \<open>
  \<open>std::strtod\<close> on a JSON number: the nearest binary64 number, ties to even, infinite beyond the largest. A token is a
  sign, the digits of its mantissa, and a power of ten.
\<close>

definition decimal_parts :: "string \<Rightarrow> bool \<times> nat \<times> int" where
  "decimal_parts token =
     (let negative = (token \<noteq> [] \<and> hd token = CHR ''-''); rest = (if negative then tl token else token);
          whole = takeWhile json_digit rest; rest = dropWhile json_digit rest;
          pointed = (rest \<noteq> [] \<and> hd rest = CHR ''.'');
          fraction = (if pointed then takeWhile json_digit (tl rest) else []);
          rest = (if pointed then dropWhile json_digit (tl rest) else rest);
          power = (if rest = [] then 0
                   else if tl rest \<noteq> [] \<and> hd (tl rest) = CHR ''-'' then - int (decimal_digits (drop 2 rest))
                   else if tl rest \<noteq> [] \<and> hd (tl rest) = CHR ''+'' then int (decimal_digits (drop 2 rest))
                   else int (decimal_digits (tl rest))) in
      (negative, decimal_digits (whole @ fraction), power - int (length fraction)))"

fun bit_length :: "nat \<Rightarrow> nat" where
  "bit_length n = (if n = 0 then 0 else Suc (bit_length (n div 2)))"

declare bit_length.simps [simp del]

definition round_half_even :: "nat \<Rightarrow> nat \<Rightarrow> nat" where
  "round_half_even a b =
     (let q = a div b; r = a mod b in if 2 * r > b \<or> (2 * r = b \<and> odd q) then q + 1 else q)"

definition infinity :: double where
  "infinity = 0x7ff0000000000000"

definition binary64 :: "nat \<Rightarrow> nat \<Rightarrow> double" where
  "binary64 num den =
     (if num = 0 then 0
      else
        let guess = int (bit_length num) - int (bit_length den);
            top = (if den * 2 ^ nat guess \<le> num * 2 ^ nat (- guess) then guess else guess - 1);
            ex = max (top - 52) (- 1074);
            n = round_half_even (num * 2 ^ nat (- ex)) (den * 2 ^ nat ex);
            (n, ex) = (if n = 2 ^ 53 then (2 ^ 52, ex + 1) else (n, ex)) in
        if ex > 971 then infinity
        else of_nat (if n < 2 ^ 52 then n else nat (ex + 1075) * 2 ^ 52 + (n - 2 ^ 52)))"

definition negate :: "double \<Rightarrow> double" where
  "negate d = d XOR 0x8000000000000000"

definition strtod :: "string \<Rightarrow> double" where
  "strtod token =
     (let (negative, mantissa, power) = decimal_parts token;
          d = binary64 (mantissa * 10 ^ nat power) (10 ^ nat (- power)) in
      if negative then negate d else d)"

definition at_number :: "char \<Rightarrow> bool" where
  "at_number c \<longleftrightarrow> c = CHR ''-'' \<or> json_digit c"

definition ParseBigInt :: "json_context \<Rightarrow> JsonColumnPlan \<Rightarrow> int parser" where
  "ParseBigInt cx column =
     parser_bind (Parser_SkipWhitespace cx) (\<lambda>_.
     parser_bind Parser_Peek (\<lambda>c.
       if \<not> at_number c then parser_bind (Parser_SkipValue cx) (\<lambda>_. incompatible (jc_output_name column))
       else parser_bind (Parser_ParseNumberToken cx) (\<lambda>token.
         if list_ex (\<lambda>c. c = CHR ''.'' \<or> c = CHR ''e'' \<or> c = CHR ''E'') token
         then incompatible (jc_output_name column)
         else case strtoll token of
           None \<Rightarrow> fails Stage_SCHEMA (jc_output_name column) ''required response field is outside the BIGINT range''
         | Some v \<Rightarrow> parses v)))"

definition ParseDouble :: "json_context \<Rightarrow> JsonColumnPlan \<Rightarrow> double parser" where
  "ParseDouble cx column =
     parser_bind (Parser_SkipWhitespace cx) (\<lambda>_.
     parser_bind Parser_Peek (\<lambda>c.
       if \<not> at_number c then parser_bind (Parser_SkipValue cx) (\<lambda>_. incompatible (jc_output_name column))
       else parser_bind (Parser_ParseNumberToken cx) (\<lambda>token.
         let v = strtod token in
         if v = infinity \<or> v = negate infinity
         then fails Stage_SCHEMA (jc_output_name column) ''required response field is outside the DOUBLE range''
         else parses (normal_zero v))))"

definition ParseVarchar :: "json_context \<Rightarrow> JsonColumnPlan \<Rightarrow> owned_string parser" where
  "ParseVarchar cx column =
     parser_bind (Parser_SkipWhitespace cx) (\<lambda>_.
     parser_bind Parser_Peek (\<lambda>c.
       if c \<noteq> CHR 0x22 then parser_bind (Parser_SkipValue cx) (\<lambda>_. incompatible (jc_output_name column))
       else parser_bind (Parser_ParseString cx (Some column)) (\<lambda>s.
         if of_nat (length (os_text s)) > jd_max_string_bytes (dx_plan cx)
         then string_exceeded (jc_output_name column) else parses s)))"

definition ParseBoolean :: "json_context \<Rightarrow> JsonColumnPlan \<Rightarrow> bool parser" where
  "ParseBoolean cx column =
     parser_bind (Parser_SkipWhitespace cx) (\<lambda>_.
     parser_bind Parser_Peek (\<lambda>c.
       if c = CHR ''t'' then parser_bind (ParseLiteral cx ''true'') (\<lambda>_. parses True)
       else if c = CHR ''f'' then parser_bind (ParseLiteral cx ''false'') (\<lambda>_. parses False)
       else parser_bind (Parser_SkipValue cx) (\<lambda>_. incompatible (jc_output_name column))))"

subsection \<open>Arrays and columns\<close>

record ParsedSlot =
  sl_bigint_value :: int
  sl_varchar_value :: owned_string
  sl_boolean_value :: bool
  sl_double_value :: double
  sl_seen :: bool
  sl_valid :: bool
  sl_elements :: "(TypedScalarValue \<times> u64) list"
  sl_elements_capacity :: u64

definition empty_slot :: "json_context \<Rightarrow> ParsedSlot" where
  "empty_slot cx = \<lparr>sl_bigint_value = 0,
     sl_varchar_value = \<lparr>os_text = [], os_capacity = js_string_initial (dx_storage cx), os_charged = 0\<rparr>,
     sl_boolean_value = False, sl_double_value = 0, sl_seen = False, sl_valid = True, sl_elements = [],
     sl_elements_capacity = 0\<rparr>"

text \<open>An element of an array, with the capacity of its string.\<close>

definition ParseScalarElement :: "json_context \<Rightarrow> JsonColumnPlan \<Rightarrow> (TypedScalarValue \<times> u64) parser" where
  "ParseScalarElement cx column =
     (case ot_element_kind (jc_type column) of
        Kind_BIGINT \<Rightarrow> parser_bind (ParseBigInt cx column) (\<lambda>v. parses (Scalar_BigInt v, 0))
      | Kind_VARCHAR \<Rightarrow> parser_bind (ParseVarchar cx column) (\<lambda>s.
          parses (Scalar_Varchar (os_text s), js_string_moved (dx_storage cx) (os_capacity s)))
      | Kind_BOOLEAN \<Rightarrow> parser_bind (ParseBoolean cx column) (\<lambda>v. parses (Scalar_Boolean v, 0))
      | Kind_DOUBLE \<Rightarrow> parser_bind (ParseDouble cx column) (\<lambda>v. parses (Scalar_Double v, 0)))"

definition array_exceeded :: "'a parser" where
  "array_exceeded = memory_error ''decoded array exceeded its memory budget''"

definition ReserveArrayElement :: "json_context \<Rightarrow> u64 \<Rightarrow> u64 \<Rightarrow> u64 parser" where
  "ReserveArrayElement cx count capacity ps =
     (let each = js_sizeof_TypedScalarValue (dx_storage cx) in
      if count < capacity then Inr (capacity, ps)
      else case (if capacity \<noteq> 0 then CheckedMultiply capacity 2 else Some 1) of
        None \<Rightarrow> array_exceeded ps
      | Some requested \<Rightarrow>
          (case (CheckedMultiply requested each, CheckedMultiply capacity each) of
             (Some requested_bytes, Some current_bytes) \<Rightarrow>
               if requested_bytes < current_bytes then array_exceeded ps
               else case within_memory cx requested_bytes ps of
                 None \<Rightarrow> array_exceeded ps
               | Some retained \<Rightarrow>
                   let ps1 = ps\<lparr>jp_peak_memory := max (jp_peak_memory ps) retained\<rparr> in
                   (case js_elements_reserve (dx_storage cx) capacity requested of
                      None \<Rightarrow> memory_error ''decoded array could not be allocated within its memory budget'' ps
                    | Some actual \<Rightarrow>
                        (case CheckedMultiply actual each of
                           None \<Rightarrow> array_exceeded ps
                         | Some actual_bytes \<Rightarrow>
                             if actual_bytes < current_bytes then array_exceeded ps
                             else case (within_memory cx actual_bytes ps1,
                                        CheckedAdd (jp_pending_array_memory ps1) (actual_bytes - current_bytes)) of
                               (Some co_live, Some pending) \<Rightarrow>
                                 let ps2 = ps1\<lparr>jp_peak_memory := max (jp_peak_memory ps1) co_live,
                                               jp_pending_array_memory := pending\<rparr> in
                                 if within_memory cx 0 ps2 = None then array_exceeded ps
                                 else parser_bind (ObserveCurrentMemory cx) (\<lambda>_. parses actual) ps2
                             | _ \<Rightarrow> array_exceeded ps))
           | _ \<Rightarrow> array_exceeded ps))"

text \<open>The elements read so far and the capacity of their vector.\<close>

primrec array_elements ::
  "nat \<Rightarrow> json_context \<Rightarrow> JsonColumnPlan \<Rightarrow> (TypedScalarValue \<times> u64) list \<Rightarrow> u64
   \<Rightarrow> ((TypedScalarValue \<times> u64) list \<times> u64) parser" where
  "array_elements 0 cx column elements capacity = out_of_fuel"
| "array_elements (Suc fuel) cx column elements capacity =
     parser_bind Parser_Peek (\<lambda>c.
       if c = CHR '']'' then parses (elements, capacity)
       else parser_bind (Parser_Check cx) (\<lambda>_.
            parser_bind (ReserveArrayElement cx (of_nat (length elements)) capacity) (\<lambda>capacity.
            parser_bind
              (if c = CHR ''n'' then
                 parser_bind (ParseLiteral cx ''null'') (\<lambda>_.
                   if \<not> ot_element_nullable (jc_type column)
                   then fails Stage_SCHEMA (jc_output_name column) ''required response array contains a null element''
                   else parses (Scalar_Null (ot_element_kind (jc_type column)), 0))
               else ParseScalarElement cx column) (\<lambda>element.
            parser_bind (ConsumeArraySeparator cx) (\<lambda>_.
            array_elements fuel cx column (elements @ [element]) capacity)))))"

definition ParseArray ::
  "json_context \<Rightarrow> JsonColumnPlan \<Rightarrow> ((TypedScalarValue \<times> u64) list \<times> u64) parser" where
  "ParseArray cx column =
     parser_bind (Parser_SkipWhitespace cx) (\<lambda>_.
     parser_bind Parser_Peek (\<lambda>c.
       if c \<noteq> CHR ''['' then parser_bind (Parser_SkipValue cx) (\<lambda>_. incompatible (jc_output_name column))
       else parser_bind (Parser_Expect cx CHR ''['') (\<lambda>_.
            parser_bind (Parser_SkipWhitespace cx) (\<lambda>_.
            parser_bind (array_elements (json_fuel (dx_input cx)) cx column [] 0) (\<lambda>result.
            parser_bind (Parser_Expect cx CHR '']'') (\<lambda>_. parses result))))))"

definition duplicated :: "string \<Rightarrow> 'a parser" where
  "duplicated field = fails Stage_SCHEMA field ''required response field is duplicated''"

definition ParseColumnValue :: "json_context \<Rightarrow> nat \<Rightarrow> ParsedSlot list \<Rightarrow> ParsedSlot list parser" where
  "ParseColumnValue cx index slots =
     (let slot = slots ! index; column = jd_columns (dx_plan cx) ! index; t = jc_type column in
      if sl_seen slot then duplicated (jc_output_name column)
      else parser_bind (Parser_SkipWhitespace cx) (\<lambda>_.
           parser_bind Parser_Peek (\<lambda>c.
             if c = CHR ''n'' then
               parser_bind (ParseLiteral cx ''null'') (\<lambda>_.
                 if \<not> jc_nullable column then incompatible (jc_output_name column)
                 else parses (slots[index := slot\<lparr>sl_valid := False, sl_seen := True\<rparr>]))
             else if ot_shape t = Shape_ARRAY then
               parser_bind (ParseArray cx column) (\<lambda>(elements, capacity).
                 parses (slots[index := slot\<lparr>sl_elements := elements, sl_elements_capacity := capacity, sl_seen := True\<rparr>]))
             else case ot_element_kind t of
               Kind_BIGINT \<Rightarrow> parser_bind (ParseBigInt cx column) (\<lambda>v.
                 parses (slots[index := slot\<lparr>sl_bigint_value := v, sl_seen := True\<rparr>]))
             | Kind_VARCHAR \<Rightarrow> parser_bind (ParseVarchar cx column) (\<lambda>s.
                 parses (slots[index := slot\<lparr>sl_varchar_value := s, sl_seen := True\<rparr>]))
             | Kind_BOOLEAN \<Rightarrow> parser_bind (ParseBoolean cx column) (\<lambda>v.
                 parses (slots[index := slot\<lparr>sl_boolean_value := v, sl_seen := True\<rparr>]))
             | Kind_DOUBLE \<Rightarrow> parser_bind (ParseDouble cx column) (\<lambda>v.
                 parses (slots[index := slot\<lparr>sl_double_value := v, sl_seen := True\<rparr>])))))"

subsection \<open>Records\<close>

definition IsPathPrefix :: "string list \<Rightarrow> string list \<Rightarrow> bool" where
  "IsPathPrefix start path \<longleftrightarrow> length start \<le> length path \<and> take (length start) path = start"

text \<open>The last column at a path and the first column below it.\<close>

definition exact_column :: "JsonColumnPlan list \<Rightarrow> string list \<Rightarrow> nat option" where
  "exact_column columns path =
     (case filter (\<lambda>i. IsPathPrefix path (jc_json_path (columns ! i)) \<and>
                       length (jc_json_path (columns ! i)) = length path) [0..<length columns] of
        [] \<Rightarrow> None | is \<Rightarrow> Some (last is))"

definition descendant_column :: "JsonColumnPlan list \<Rightarrow> string list \<Rightarrow> nat option" where
  "descendant_column columns path =
     (case filter (\<lambda>i. IsPathPrefix path (jc_json_path (columns ! i)) \<and>
                       length (jc_json_path (columns ! i)) \<noteq> length path) [0..<length columns] of
        [] \<Rightarrow> None | i # _ \<Rightarrow> Some i)"

text \<open>The members of an object below \<open>prefix\<close>, with the selected keys seen so far.\<close>

primrec selected_members ::
  "nat \<Rightarrow> json_context \<Rightarrow> string list \<Rightarrow> string list \<Rightarrow> ParsedSlot list \<Rightarrow> ParsedSlot list parser" where
  "selected_members 0 cx path selected_keys slots = out_of_fuel"
| "selected_members (Suc fuel) cx path selected_keys slots =
     parser_bind Parser_Peek (\<lambda>c.
       if c = CHR ''}'' then parses slots
       else parser_bind Parser_RequireObjectKey (\<lambda>_.
            parser_bind (Parser_ParseString cx None) (\<lambda>key.
            parser_bind (Parser_SkipWhitespace cx) (\<lambda>_.
            parser_bind (Parser_Expect cx CHR '':'') (\<lambda>_.
              let columns = jd_columns (dx_plan cx); here = path @ [os_text key];
                  exact = exact_column columns here; descendant = descendant_column columns here in
              parser_bind
                (if exact = None \<and> descendant = None
                 then parser_bind (Parser_SkipValue cx) (\<lambda>_. parses (selected_keys, slots))
                 else if os_text key \<in> set selected_keys
                 then duplicated (jc_output_name (columns ! the (if exact \<noteq> None then exact else descendant)))
                 else parser_bind
                   (case exact of
                      Some index \<Rightarrow> ParseColumnValue cx index slots
                    | None \<Rightarrow>
                        parser_bind (Parser_SkipWhitespace cx) (\<lambda>_.
                        parser_bind Parser_Peek (\<lambda>c.
                          if c \<noteq> CHR ''{'' then
                            parser_bind (Parser_SkipValue cx) (\<lambda>_.
                            incompatible (jc_output_name (columns ! the descendant)))
                          else
                            parser_bind (Parser_Expect cx CHR ''{'') (\<lambda>_.
                            parser_bind (Parser_SkipWhitespace cx) (\<lambda>_.
                            parser_bind (selected_members fuel cx here [] slots) (\<lambda>slots.
                            parser_bind (Parser_Expect cx CHR ''}'') (\<lambda>_. parses slots)))))))
                   (\<lambda>slots. parses (os_text key # selected_keys, slots)))
                (\<lambda>(selected_keys, slots).
                  parser_bind (ConsumeObjectSeparator cx) (\<lambda>_.
                  selected_members fuel cx path selected_keys slots)))))))"

definition ParseSelectedObject :: "json_context \<Rightarrow> ParsedSlot list \<Rightarrow> ParsedSlot list parser" where
  "ParseSelectedObject cx slots =
     parser_bind (Parser_Expect cx CHR ''{'') (\<lambda>_.
     parser_bind (Parser_SkipWhitespace cx) (\<lambda>_.
     parser_bind (selected_members (json_fuel (dx_input cx)) cx [] [] slots) (\<lambda>slots.
     parser_bind (Parser_Expect cx CHR ''}'') (\<lambda>_. parses slots))))"

text \<open>A value of a row with the storage behind it, and a row.\<close>

record stored_value =
  sv_value :: TypedValue
  sv_varchar_capacity :: u64
  sv_elements_capacity :: u64
  sv_element_capacities :: "u64 list"

record TypedRow =
  rw_values :: "stored_value list"
  rw_capacity :: u64

definition scalar_stored :: "TypedValue \<Rightarrow> u64 \<Rightarrow> stored_value" where
  "scalar_stored v capacity =
     \<lparr>sv_value = v, sv_varchar_capacity = capacity, sv_elements_capacity = 0, sv_element_capacities = []\<rparr>"

text \<open>The running totals of a row: its memory, and the parts of it charged as strings and as arrays.\<close>

definition charge_string :: "json_context \<Rightarrow> u64 \<Rightarrow> u64 \<times> u64 \<times> u64 \<Rightarrow> (u64 \<times> u64 \<times> u64) parser" where
  "charge_string cx bytes = (\<lambda>(row_memory, row_strings, row_arrays).
     parser_bind (RequireMemory row_memory bytes (jd_max_decoded_memory_bytes (dx_plan cx))) (\<lambda>updated.
       case CheckedAdd row_strings bytes of
         None \<Rightarrow> memory_error rows_exceeded
       | Some strings \<Rightarrow> parses (updated, strings, row_arrays)))"

primrec charge_elements ::
  "(TypedScalarValue \<times> u64) list \<Rightarrow> json_context \<Rightarrow> u64 \<times> u64 \<times> u64 \<Rightarrow> (u64 \<times> u64 \<times> u64) parser" where
  "charge_elements [] cx totals = parses totals"
| "charge_elements (e # es) cx totals =
     parser_bind (if ts_kind (fst e) = Kind_VARCHAR \<and> ts_valid (fst e) then charge_string cx (snd e) totals
                  else parses totals) (charge_elements es cx)"

definition charge_array ::
  "json_context \<Rightarrow> ParsedSlot \<Rightarrow> u64 \<times> u64 \<times> u64 \<Rightarrow> (u64 \<times> u64 \<times> u64) parser" where
  "charge_array cx slot = (\<lambda>(row_memory, row_strings, row_arrays).
     case CheckedMultiply (sl_elements_capacity slot) (js_sizeof_TypedScalarValue (dx_storage cx)) of
       None \<Rightarrow> memory_error rows_exceeded
     | Some element_storage \<Rightarrow>
         parser_bind (RequireMemory row_memory element_storage (jd_max_decoded_memory_bytes (dx_plan cx))) (\<lambda>updated.
           case CheckedAdd row_arrays element_storage of
             None \<Rightarrow> memory_error rows_exceeded
           | Some arrays \<Rightarrow> charge_elements (sl_elements slot) cx (updated, row_strings, arrays)))"

primrec row_values ::
  "(JsonColumnPlan \<times> ParsedSlot) list \<Rightarrow> json_context \<Rightarrow> stored_value list \<Rightarrow> u64 \<times> u64 \<times> u64
   \<Rightarrow> (stored_value list \<times> u64 \<times> u64 \<times> u64) parser" where
  "row_values [] cx vs totals = parses (vs, totals)"
| "row_values (x # xs) cx vs totals =
     (let column = fst x; slot = snd x; t = jc_type column in
      if \<not> sl_seen slot
      then fails Stage_SCHEMA (jc_output_name column) ''required response field is missing''
      else if \<not> sl_valid slot then row_values xs cx (vs @ [scalar_stored (Value_Null t) 0]) totals
      else if ot_shape t = Shape_ARRAY then
        parser_bind (charge_array cx slot totals)
          (row_values xs cx (vs @ [\<lparr>sv_value = Value_Array (ot_element_kind t) (ot_element_nullable t) (map fst (sl_elements slot)),
             sv_varchar_capacity = 0, sv_elements_capacity = sl_elements_capacity slot,
             sv_element_capacities = map snd (sl_elements slot)\<rparr>]))
      else case ot_element_kind t of
        Kind_BIGINT \<Rightarrow> row_values xs cx (vs @ [scalar_stored (Value_BigInt (sl_bigint_value slot)) 0]) totals
      | Kind_VARCHAR \<Rightarrow>
          let capacity = js_string_moved (dx_storage cx) (os_capacity (sl_varchar_value slot)) in
          parser_bind (charge_string cx capacity totals)
            (row_values xs cx (vs @ [scalar_stored (Value_Varchar (os_text (sl_varchar_value slot))) capacity]))
      | Kind_BOOLEAN \<Rightarrow> row_values xs cx (vs @ [scalar_stored (Value_Boolean (sl_boolean_value slot)) 0]) totals
      | Kind_DOUBLE \<Rightarrow> row_values xs cx (vs @ [scalar_stored (Value_Double (sl_double_value slot)) 0]) totals)"

text \<open>The staging of a row: the reservation for a vector, its allocation, and the bytes it really takes.\<close>

definition stage_vector ::
  "json_context \<Rightarrow> u64 \<Rightarrow> (u64 \<Rightarrow> u64 option) \<Rightarrow> u64 \<Rightarrow> string \<Rightarrow> string \<Rightarrow> (u64 \<times> u64) parser" where
  "stage_vector cx count allocate each exceeded unallocated =
     (case CheckedMultiply count each of
        None \<Rightarrow> memory_error exceeded
      | Some reserved \<Rightarrow>
          parser_bind (ReserveStructuralMemory cx reserved) (\<lambda>_.
            case allocate count of
              None \<Rightarrow> memory_error unallocated
            | Some capacity \<Rightarrow>
                (case CheckedMultiply capacity each of
                   None \<Rightarrow> memory_error exceeded
                 | Some actual \<Rightarrow>
                     parser_bind (ReconcileStructuralMemory cx reserved actual) (\<lambda>_. parses (capacity, actual)))))"

definition settle_row ::
  "json_context \<Rightarrow> u64 \<Rightarrow> u64 \<Rightarrow> u64 \<times> u64 \<times> u64 \<Rightarrow> unit parser" where
  "settle_row cx slot_storage value_storage = (\<lambda>(row_memory, row_strings, row_arrays) ps.
     if row_strings > jp_pending_string_memory ps \<or> row_arrays > jp_pending_array_memory ps \<or>
        value_storage > jp_pending_structural_memory ps \<or>
        slot_storage > jp_pending_structural_memory ps - value_storage
     then memory_error rows_exceeded ps
     else parser_bind (RequireMemory (jp_decoded_memory ps) row_memory (jd_max_decoded_memory_bytes (dx_plan cx)))
       (\<lambda>updated ps. Inr ((), ps\<lparr>jp_decoded_memory := updated,
          jp_pending_string_memory := jp_pending_string_memory ps - row_strings,
          jp_pending_array_memory := jp_pending_array_memory ps - row_arrays,
          jp_pending_structural_memory := jp_pending_structural_memory ps - value_storage - slot_storage\<rparr>)) ps)"

definition ParseRecord :: "json_context \<Rightarrow> TypedRow parser" where
  "ParseRecord cx =
     (let columns = jd_columns (dx_plan cx); storage = dx_storage cx; count = of_nat (length columns) in
      parser_bind Parser_Peek (\<lambda>c.
        if c \<noteq> CHR ''{'' then
          parser_bind (Parser_SkipValue cx) (\<lambda>_.
          fails Stage_SCHEMA [] ''response record does not match the declared schema'')
        else
          parser_bind (stage_vector cx count (js_slots_resize storage) (js_sizeof_ParsedSlot storage)
              ''decoded row staging exceeded its memory budget''
              ''decoded row staging could not be allocated within its memory budget'') (\<lambda>(_, slot_storage).
          parser_bind (ParseSelectedObject cx (replicate (length columns) (empty_slot cx))) (\<lambda>slots.
          parser_bind (stage_vector cx count (js_values_reserve storage) (js_sizeof_TypedValue storage)
              rows_exceeded ''decoded rows could not be allocated within their memory budget'') (\<lambda>(capacity, value_storage).
          parser_bind (row_values (zip columns slots) cx [] (value_storage, 0, 0)) (\<lambda>(vs, totals).
          parser_bind (settle_row cx slot_storage value_storage totals) (\<lambda>_.
          parses \<lparr>rw_values = vs, rw_capacity = capacity\<rparr>)))))))"

definition RecordsDiagnosticField :: "json_context \<Rightarrow> string" where
  "RecordsDiagnosticField cx = last (jd_records_path (dx_plan cx))"

primrec record_elements :: "nat \<Rightarrow> json_context \<Rightarrow> TypedRow list \<Rightarrow> TypedRow list parser" where
  "record_elements 0 cx rows = out_of_fuel"
| "record_elements (Suc fuel) cx rows =
     parser_bind Parser_Peek (\<lambda>c.
       if c = CHR '']'' then parses rows
       else parser_bind (Parser_Check cx) (\<lambda>_.
         if of_nat (length rows) \<ge> jd_max_records (dx_plan cx)
         then fails Stage_RESOURCE
           (if jd_response_source (dx_plan cx) = JSON_PATH_MANY then RecordsDiagnosticField cx else [])
           ''HTTP response exceeded its record budget''
         else parser_bind (ParseRecord cx) (\<lambda>row.
              parser_bind (ConsumeArraySeparator cx) (\<lambda>_.
              record_elements fuel cx (rows @ [row])))))"

definition ParseRecords :: "json_context \<Rightarrow> TypedRow list \<Rightarrow> TypedRow list parser" where
  "ParseRecords cx rows =
     parser_bind (Parser_Expect cx CHR ''['') (\<lambda>_.
     parser_bind (Parser_SkipWhitespace cx) (\<lambda>_.
     parser_bind (record_elements (json_fuel (dx_input cx)) cx rows) (\<lambda>rows.
     parser_bind (Parser_Expect cx CHR '']'') (\<lambda>_. parses rows))))"

subsection \<open>Documents\<close>

text \<open>The members of an object on the way to the records; \<open>path\<close> is the path from this object on.\<close>

primrec record_members ::
  "nat \<Rightarrow> json_context \<Rightarrow> string list \<Rightarrow> bool \<Rightarrow> TypedRow list \<Rightarrow> (bool \<times> TypedRow list) parser" where
  "record_members 0 cx path found rows = out_of_fuel"
| "record_members (Suc fuel) cx path found rows =
     parser_bind Parser_Peek (\<lambda>c.
       if c = CHR ''}'' then parses (found, rows)
       else parser_bind Parser_RequireObjectKey (\<lambda>_.
            parser_bind (Parser_ParseString cx None) (\<lambda>key.
            parser_bind (Parser_SkipWhitespace cx) (\<lambda>_.
            parser_bind (Parser_Expect cx CHR '':'') (\<lambda>_.
            parser_bind (Parser_SkipWhitespace cx) (\<lambda>_.
            parser_bind Parser_Peek (\<lambda>c.
            parser_bind
              (if os_text key = hd path then
                 (if found then duplicated (RecordsDiagnosticField cx)
                  else if tl path = [] then
                    (if c \<noteq> CHR ''['' then
                       parser_bind (Parser_SkipValue cx) (\<lambda>_. incompatible (RecordsDiagnosticField cx))
                     else parser_bind (ParseRecords cx rows) (\<lambda>rows. parses (True, rows)))
                  else if c \<noteq> CHR ''{'' then
                    parser_bind (Parser_SkipValue cx) (\<lambda>_. incompatible (RecordsDiagnosticField cx))
                  else
                    parser_bind (Parser_Expect cx CHR ''{'') (\<lambda>_.
                    parser_bind (Parser_SkipWhitespace cx) (\<lambda>_.
                    parser_bind (record_members fuel cx (tl path) False rows) (\<lambda>(inner, rows).
                    parser_bind (Parser_Expect cx CHR ''}'') (\<lambda>_.
                      if \<not> inner then fails Stage_SCHEMA (RecordsDiagnosticField cx) ''required response field is missing''
                      else parses (True, rows))))))
               else parser_bind (Parser_SkipValue cx) (\<lambda>_. parses (found, rows)))
              (\<lambda>(found, rows).
                parser_bind (ConsumeObjectSeparator cx) (\<lambda>_. record_members fuel cx path found rows)))))))))"

definition ParseRecordArrayObject :: "json_context \<Rightarrow> TypedRow list parser" where
  "ParseRecordArrayObject cx =
     parser_bind (Parser_Expect cx CHR ''{'') (\<lambda>_.
     parser_bind (Parser_SkipWhitespace cx) (\<lambda>_.
     parser_bind (record_members (json_fuel (dx_input cx)) cx (jd_records_path (dx_plan cx)) False []) (\<lambda>(found, rows).
     parser_bind (Parser_Expect cx CHR ''}'') (\<lambda>_.
       if \<not> found then fails Stage_SCHEMA (RecordsDiagnosticField cx) ''required response field is missing''
       else parses rows))))"

definition continuation_column :: JsonColumnPlan where
  "continuation_column = \<lparr>jc_output_name = ''extracted_string_bytes'', jc_type = OutputValueType_Scalar Kind_VARCHAR,
     jc_nullable = False, jc_json_path = [''continuation'']\<rparr>"

definition ExtractContinuationScalar :: "json_context \<Rightarrow> unit parser" where
  "ExtractContinuationScalar cx =
     parser_bind Parser_Peek (\<lambda>c.
       if c = CHR 0x22 then
         parser_bind (Parser_ParseString cx (Some continuation_column)) (\<lambda>s.
           let charged = os_capacity s; retained = js_string_swapped (dx_storage cx) charged in
           parser_bind
             (if retained > charged then ReservePendingStringMemory cx (retained - charged)
              else (\<lambda>ps. Inr ((), ps\<lparr>jp_pending_string_memory := jp_pending_string_memory ps - (charged - retained)\<rparr>)))
             (\<lambda>_ ps. ObserveCurrentMemory cx (ps\<lparr>jp_next_url := os_text s, jp_next_url_capacity := retained,
                jp_continuation_memory := retained,
                jp_pending_string_memory := jp_pending_string_memory ps - retained\<rparr>)))
       else if c = CHR ''n'' then ParseLiteral cx ''null''
       else parser_bind (Parser_SkipValue cx) (\<lambda>_.
            fails Stage_SCHEMA (last (jd_page_continuation_path (dx_plan cx)))
              ''response_next continuation field has an incompatible type''))"

primrec continuation_members :: "nat \<Rightarrow> json_context \<Rightarrow> string list \<Rightarrow> bool \<Rightarrow> unit parser" where
  "continuation_members 0 cx path found = out_of_fuel"
| "continuation_members (Suc fuel) cx path found =
     parser_bind Parser_Peek (\<lambda>c.
       if c = CHR ''}'' then parses ()
       else parser_bind Parser_RequireObjectKey (\<lambda>_.
            parser_bind (Parser_ParseString cx None) (\<lambda>key.
            parser_bind (Parser_SkipWhitespace cx) (\<lambda>_.
            parser_bind (Parser_Expect cx CHR '':'') (\<lambda>_.
            parser_bind (Parser_SkipWhitespace cx) (\<lambda>_.
            parser_bind Parser_Peek (\<lambda>c.
            parser_bind
              (if os_text key = hd path then
                 (if found then
                    fails Stage_SCHEMA (last (jd_page_continuation_path (dx_plan cx)))
                      ''response_next continuation field is duplicated''
                  else parser_bind
                    (if tl path = [] then ExtractContinuationScalar cx
                     else if c = CHR ''{'' then
                       parser_bind (Parser_SkipWhitespace cx) (\<lambda>_.
                       parser_bind (Parser_Expect cx CHR ''{'') (\<lambda>_.
                       parser_bind (Parser_SkipWhitespace cx) (\<lambda>_.
                       parser_bind (continuation_members fuel cx (tl path) False) (\<lambda>_.
                       Parser_Expect cx CHR ''}''))))
                     else Parser_SkipValue cx)
                    (\<lambda>_. parses True))
               else parser_bind (Parser_SkipValue cx) (\<lambda>_. parses found))
              (\<lambda>found.
                parser_bind (ConsumeObjectSeparator cx) (\<lambda>_. continuation_members fuel cx path found)))))))))"

definition ExtractContinuation :: "json_context \<Rightarrow> unit parser" where
  "ExtractContinuation cx =
     parser_bind (Parser_SkipWhitespace cx) (\<lambda>_.
     parser_bind Parser_Peek (\<lambda>c.
       if c \<noteq> CHR ''{'' then parses ()
       else parser_bind (Parser_Expect cx CHR ''{'') (\<lambda>_.
            parser_bind (Parser_SkipWhitespace cx) (\<lambda>_.
            parser_bind (continuation_members (json_fuel (dx_input cx)) cx (jd_page_continuation_path (dx_plan cx)) False) (\<lambda>_.
            Parser_Expect cx CHR ''}'')))))"

text \<open>The end of a document: nothing but whitespace is left.\<close>

definition document_ends :: "json_context \<Rightarrow> unit parser" where
  "document_ends cx =
     parser_bind (Parser_SkipWhitespace cx) (\<lambda>_. lexes (\<lambda>p. if fst p \<noteq> [] then Inl JsonMalformed else Inr p))"

definition ParseRootObject :: "json_context \<Rightarrow> (u64 \<times> TypedRow list) parser" where
  "ParseRootObject cx =
     parser_bind (AllocateResult cx) (\<lambda>capacity.
     parser_bind (ParseRecord cx) (\<lambda>row.
     parser_bind (document_ends cx) (\<lambda>_. parses (capacity, [row]))))"

definition ParseRootArray :: "json_context \<Rightarrow> (u64 \<times> TypedRow list) parser" where
  "ParseRootArray cx =
     parser_bind (AllocateResult cx) (\<lambda>capacity.
     parser_bind (ParseRecords cx []) (\<lambda>rows.
     parser_bind (document_ends cx) (\<lambda>_. parses (capacity, rows))))"

definition ParseRecordArrayResponse :: "json_context \<Rightarrow> (u64 \<times> TypedRow list) parser" where
  "ParseRecordArrayResponse cx =
     parser_bind (AllocateResult cx) (\<lambda>capacity.
     parser_bind (ParseRecordArrayObject cx) (\<lambda>rows.
     parser_bind (document_ends cx) (\<lambda>_.
     parser_bind
       (if jd_page_continuation_path (dx_plan cx) \<noteq> [] then
          parser_bind (lexes (\<lambda>p. Inr (json_Reset (dx_input cx) p))) (\<lambda>_. ExtractContinuation cx)
        else parses ()) (\<lambda>_. parses (capacity, rows)))))"

definition ParseResponse :: "json_context \<Rightarrow> (u64 \<times> TypedRow list) parser" where
  "ParseResponse cx =
     (let source = jd_response_source (dx_plan cx) in
      parser_bind (Parser_ValidateDocument cx) (\<lambda>_.
      parser_bind (Parser_SkipWhitespace cx) (\<lambda>_.
      parser_bind Parser_Peek (\<lambda>c.
        if c \<noteq> (if source = ROOT_ARRAY then CHR ''['' else CHR ''{'')
        then fails Stage_SCHEMA (if source = JSON_PATH_MANY then RecordsDiagnosticField cx else [])
          ''response root does not match the declared schema''
        else if source = ROOT_OBJECT then ParseRootObject cx
        else if source = ROOT_ARRAY then ParseRootArray cx
        else ParseRecordArrayResponse cx))))"

definition ReconcileTakenContinuationMemory :: "json_context \<Rightarrow> u64 \<Rightarrow> unit parser" where
  "ReconcileTakenContinuationMemory cx actual ps =
     (if jp_continuation_memory ps = 0 \<and> actual \<noteq> 0
      then fails Stage_INTERNAL [] ''continuation memory accounting failed'' ps
      else if actual > jp_continuation_memory ps \<and> within_memory cx actual (ps\<lparr>jp_continuation_memory := 0\<rparr>) = None
      then memory_error ''response continuation exceeded its memory budget'' ps
      else ObserveCurrentMemory cx (ps\<lparr>jp_continuation_memory := actual\<rparr>))"

definition IsValidOutputType :: "OutputValueType \<Rightarrow> bool" where
  "IsValidOutputType t \<longleftrightarrow>
     (ot_shape t = Shape_SCALAR \<and> \<not> ot_element_nullable t) \<or> ot_shape t = Shape_ARRAY"

definition valid_column :: "JsonColumnPlan list \<Rightarrow> nat \<Rightarrow> bool" where
  "valid_column columns index \<longleftrightarrow>
     (let column = columns ! index in
      jc_output_name column \<noteq> [] \<and> jc_json_path column \<noteq> [] \<and> IsValidOutputType (jc_type column) \<and>
      list_all (\<lambda>s. s \<noteq> []) (jc_json_path column) \<and>
      list_all (\<lambda>j. let other = columns ! j in
        jc_output_name column \<noteq> jc_output_name other \<and> jc_json_path column \<noteq> jc_json_path other \<and>
        \<not> IsPathPrefix (jc_json_path column) (jc_json_path other) \<and>
        \<not> IsPathPrefix (jc_json_path other) (jc_json_path column)) [0..<index])"

definition ValidatePlan :: "JsonDecodePlan \<Rightarrow> bool" where
  "ValidatePlan plan \<longleftrightarrow>
     (case jd_response_source plan of
        JSON_PATH_MANY \<Rightarrow> jd_records_path plan \<noteq> []
      | ROOT_ARRAY \<Rightarrow> jd_records_path plan = []
      | ROOT_OBJECT \<Rightarrow> jd_records_path plan = [] \<and> jd_max_records plan = 1) \<and>
     jd_columns plan \<noteq> [] \<and> jd_max_records plan \<noteq> 0 \<and> jd_max_string_bytes plan \<noteq> 0 \<and>
     jd_max_json_nesting plan \<noteq> 0 \<and> jd_max_decoded_memory_bytes plan \<noteq> 0 \<and>
     list_all (\<lambda>s. s \<noteq> []) (jd_records_path plan) \<and>
     list_all (valid_column (jd_columns plan)) [0..<length (jd_columns plan)]"

record DecodedJsonPage =
  dp_rows :: "TypedRow list"
  dp_rows_capacity :: u64
  dp_next_url :: string
  dp_retained_memory_bytes :: u64
  dp_continuation_memory_bytes :: u64
  dp_peak_memory_bytes :: u64

definition new_parser :: "json_context \<Rightarrow> nat \<Rightarrow> JsonParser" where
  "new_parser cx checks = \<lparr>jp_position = (dx_input cx, checks), jp_decoded_memory = 0, jp_pending_string_memory = 0,
     jp_pending_array_memory = 0, jp_pending_structural_memory = 0, jp_continuation_memory = 0, jp_peak_memory = 0,
     jp_next_url = [], jp_next_url_capacity = js_string_initial (dx_storage cx)\<rparr>"

definition take_page :: "json_context \<Rightarrow> u64 \<times> TypedRow list \<Rightarrow> DecodedJsonPage parser" where
  "take_page cx = (\<lambda>(capacity, rows) ps.
     let taken = (if jp_continuation_memory ps = 0 then 0
                  else js_string_taken (dx_storage cx) (jp_next_url_capacity ps)) in
     parser_bind (ReconcileTakenContinuationMemory cx taken) (\<lambda>_ ps1.
       Inr (\<lparr>dp_rows = rows, dp_rows_capacity = capacity, dp_next_url = jp_next_url ps,
         dp_retained_memory_bytes = jp_decoded_memory ps, dp_continuation_memory_bytes = jp_continuation_memory ps1,
         dp_peak_memory_bytes = jp_peak_memory ps1\<rparr>, ps1)) ps)"

definition DecodeJsonPage :: "json_context \<Rightarrow> decode_error + DecodedJsonPage" where
  "DecodeJsonPage cx =
     (if \<not> ValidatePlan (dx_plan cx)
      then Inl (Decode_Failed (unclassified_error Stage_INTERNAL [] ''JSON decoder received an invalid schema or budget''))
      else and_then (lexical (json_Check (dx_control cx) 0)) (\<lambda>checks.
        map_sum id fst (parser_bind (ParseResponse cx) (take_page cx) (new_parser cx checks))))"

definition DecodeJsonRows :: "json_context \<Rightarrow> decode_error + TypedRow list" where
  "DecodeJsonRows cx = map_sum id dp_rows (DecodeJsonPage cx)"

end
