(* ===== verification/Json_Trees.thy ===== *)
theory Json_Trees
  imports Json_Strings
begin

text \<open>
  The tree a JSON text denotes: numbers by their token, strings by the bytes they stand for, members in order and with
  duplicates. A text denotes at most one tree: only numbers depend on what follows them, everything else delimits itself.
\<close>

datatype json = JNull | JBool bool | JNumber string | JString string | JArray "json list" | JObject "(string \<times> json) list"

inductive denotes :: "string \<Rightarrow> json \<Rightarrow> bool"
  and denotes_items :: "string \<Rightarrow> json list \<Rightarrow> bool"
  and denotes_members :: "string \<Rightarrow> (string \<times> json) list \<Rightarrow> bool" where
  null: "denotes ''null'' JNull"
| true: "denotes ''true'' (JBool True)"
| false: "denotes ''false'' (JBool False)"
| number: "json_number s \<Longrightarrow> denotes s (JNumber s)"
| str: "string_text s out \<Longrightarrow> denotes s (JString out)"
| empty_array: "ws w \<Longrightarrow> denotes (''['' @ w @ '']'') (JArray [])"
| array: "denotes_items s ts \<Longrightarrow> denotes (''['' @ s @ '']'') (JArray ts)"
| empty_object: "ws w \<Longrightarrow> denotes (''{'' @ w @ ''}'') (JObject [])"
| object: "denotes_members s ms \<Longrightarrow> denotes (''{'' @ s @ ''}'') (JObject ms)"
| item: "ws w \<Longrightarrow> denotes v t \<Longrightarrow> ws w' \<Longrightarrow> denotes_items (w @ v @ w') [t]"
| items: "ws w \<Longrightarrow> denotes v t \<Longrightarrow> ws w' \<Longrightarrow> denotes_items s ts \<Longrightarrow> denotes_items (w @ v @ w' @ '','' @ s) (t # ts)"
| member: "ws w \<Longrightarrow> string_text key k \<Longrightarrow> ws w1 \<Longrightarrow> ws w2 \<Longrightarrow> denotes v t \<Longrightarrow> ws w' \<Longrightarrow>
    denotes_members (w @ key @ w1 @ '':'' @ w2 @ v @ w') [(k, t)]"
| members: "ws w \<Longrightarrow> string_text key k \<Longrightarrow> ws w1 \<Longrightarrow> ws w2 \<Longrightarrow> denotes v t \<Longrightarrow> ws w' \<Longrightarrow> denotes_members s ms \<Longrightarrow>
    denotes_members (w @ key @ w1 @ '':'' @ w2 @ v @ w' @ '','' @ s) ((k, t) # ms)"

lemma denotes_nonempty: "denotes v t \<Longrightarrow> v \<noteq> []"
  by (cases rule: denotes.cases) (auto simp: string_text_def dest: number_start)

lemma leading_ws:
  "denotes_items u ts \<Longrightarrow> ws w \<Longrightarrow> denotes_items (w @ u) ts" "denotes_members u ms \<Longrightarrow> ws w \<Longrightarrow> denotes_members (w @ u) ms"
proof -
  have a: "ws (w @ w1)" if "ws w" "ws w1" for w w1 using that by simp
  show "denotes_items (w @ u) ts" if "denotes_items u ts" "ws w"
    using that by (cases rule: denotes_items.cases) (metis a append.assoc item items)+
  show "denotes_members (w @ u) ms" if "denotes_members u ms" "ws w"
    using that by (cases rule: denotes_members.cases) (metis a append.assoc member members)+
qed

subsection \<open>Tokens\<close>

lemma ws_unique:
  assumes "ws w" and "ws w'" and "w @ r = w' @ r'" and "r = [] \<or> \<not> json_whitespace (hd r)" and "r' = [] \<or> \<not> json_whitespace (hd r')"
  shows "w = w' \<and> r = r'"
proof -
  have split: "takeWhile json_whitespace (w @ r) = w" if "ws w" "r = [] \<or> \<not> json_whitespace (hd r)" for w r
    using that by (cases r) (auto simp: ws_def list_all_iff takeWhile_append2)
  have "w = w'" using split [OF assms(1,4)] split [OF assms(2,5)] assms(3) by simp
  then show ?thesis using assms(3) by simp
qed

lemma char_text_start: "char_text a b \<Longrightarrow> \<exists>c cs. a = c # cs \<and> c \<noteq> CHR 0x22"
  by (cases rule: char_text.cases) (use json_unescaped_Cons json_unescaped_head in \<open>fastforce+\<close>)

lemma char_text_unique:
  assumes "char_text a b" and "char_text a' b'" and "a @ r = a' @ r'"
  shows "a = a' \<and> b = b'"
proof -
  have plain: "a = a'" if u: "json_unescaped a" "json_unescaped a'" "a @ r = a' @ r'" for a a' r r'
  proof -
    obtain c us where a: "a = c # us" using json_unescaped_Cons [OF u(1)] by blast
    obtain us' where a': "a' = c # us'" using json_unescaped_Cons [OF u(2)] u(3) a by auto
    have "r = r'" using SkipUtf8_quiet [of c us r 0] SkipUtf8_quiet [of c us' r' 0] u a a' by auto
    then show ?thesis using u(3) by simp
  qed
  have slash: "\<not> json_unescaped (CHR 0x5C # x)" for x using json_unescaped_head [of "CHR 0x5C" x] by auto
  have no_u: "json_escape CHR ''u'' = None" by (simp add: json_escape_def)
  have uni: "us = us' \<and> v = v'" if "escape_denotes us v" "escape_denotes us' v'" "us @ r = us' @ r'" for us us' v v'
    using ParseEscapedUnicode_quiet [OF that(1), of r 0] ParseEscapedUnicode_quiet [OF that(2), of r' 0] that(3) by auto
  from assms(1) show ?thesis
  proof cases
    case p: plain
    from assms(2) show ?thesis
      by cases (use p plain [of a a' r r'] slash assms(3) json_unescaped_Cons [of a] in fastforce)+
  next
    case e: (escape c b0)
    from assms(2) show ?thesis
      by cases (use e slash assms(3) no_u json_unescaped_Cons [of a'] in fastforce)+
  next
    case u: (unicode us v)
    from assms(2) show ?thesis
      by cases (use u slash assms(3) no_u uni json_unescaped_Cons [of a'] in fastforce)+
  qed
qed

lemma chars_unique:
  "list_all (case_prod char_text) xs \<Longrightarrow> list_all (case_prod char_text) ys \<Longrightarrow>
   concat (map fst xs) @ [CHR 0x22] @ r = concat (map fst ys) @ [CHR 0x22] @ r' \<Longrightarrow> xs = ys"
proof (induction xs arbitrary: ys)
  case Nil
  then show ?case by (cases ys) (auto dest!: char_text_start)
next
  case (Cons x xs)
  obtain y ys' where ys: "ys = y # ys'" using Cons.prems by (cases ys) (auto dest!: char_text_start)
  have "fst x = fst y \<and> snd x = snd y"
    by (rule char_text_unique [of _ _ _ _ "concat (map fst xs) @ [CHR 0x22] @ r" "concat (map fst ys') @ [CHR 0x22] @ r'"])
      (use Cons.prems ys in \<open>auto simp: case_prod_beta\<close>)
  then show ?case using Cons ys by (auto simp: prod_eq_iff)
qed

lemma string_text_unique:
  assumes "string_text s out" and "string_text s' out'" and "s @ r = s' @ r'"
  shows "s = s' \<and> out = out'"
proof -
  obtain xs ys where "list_all (case_prod char_text) xs" "s = [CHR 0x22] @ concat (map fst xs) @ [CHR 0x22]" "out = concat (map snd xs)"
    "list_all (case_prod char_text) ys" "s' = [CHR 0x22] @ concat (map fst ys) @ [CHR 0x22]" "out' = concat (map snd ys)"
    using assms(1,2) by (auto simp: string_text_def)
  moreover from this have "xs = ys" using chars_unique [of xs ys r r'] assms(3) by simp
  ultimately show ?thesis by simp
qed

lemma number_unique:
  assumes "json_number s" and "json_number s'" and "s @ r = s' @ r'" and "value_ends r" and "value_ends r'"
  shows "s = s'"
  using number_quiet [OF assms(1) number_ends [OF assms(4)], of 0] number_quiet [OF assms(2) number_ends [OF assms(5)], of 0] assms(3)
  by auto

subsection \<open>Values\<close>

text \<open>The first character tells the kind of a value.\<close>

fun opens :: "json \<Rightarrow> char \<Rightarrow> bool" where
  "opens JNull c \<longleftrightarrow> c = CHR ''n''"
| "opens (JBool b) c \<longleftrightarrow> c = (if b then CHR ''t'' else CHR ''f'')"
| "opens (JNumber _) c \<longleftrightarrow> c = CHR ''-'' \<or> json_digit c"
| "opens (JString _) c \<longleftrightarrow> c = CHR 0x22"
| "opens (JArray _) c \<longleftrightarrow> c = CHR ''[''"
| "opens (JObject _) c \<longleftrightarrow> c = CHR ''{''"

lemma denotes_opens:
  assumes "denotes v t"
  shows "\<exists>c cs. v = c # cs \<and> opens t c"
proof -
  have "opens t (hd v)" using assms by (cases rule: denotes.cases) (auto simp: string_text_def dest: number_start)
  then show ?thesis using denotes_nonempty [OF assms] by (cases v) auto
qed

lemma opens_item: "opens t c \<Longrightarrow> \<not> json_whitespace c \<and> c \<notin> {CHR '','', CHR '']'', CHR ''}'', CHR '':''}"
  by (cases t) (auto simp: json_whitespace_def json_digit_def in_range_def byte_def)

inductive_cases denotes_null: "denotes v JNull"
inductive_cases denotes_bool: "denotes v (JBool b)"
inductive_cases denotes_number: "denotes v (JNumber s)"
inductive_cases denotes_str: "denotes v (JString s)"
inductive_cases denotes_array: "denotes v (JArray ts)"
inductive_cases denotes_object: "denotes v (JObject ms)"

text \<open>Two values at the same place are of the same kind.\<close>

lemma same_start:
  assumes "denotes v t" and "denotes v' t'" and "v @ r = v' @ r'"
  shows "\<exists>c. opens t c \<and> opens t' c"
  using denotes_opens [OF assms(1)] denotes_opens [OF assms(2)] assms(3) by auto

definition one_value :: "string \<Rightarrow> json \<Rightarrow> bool" where
  "one_value v t \<longleftrightarrow> (\<forall>v' t' r r'. denotes v' t' \<and> v @ r = v' @ r' \<and>
     ((\<exists>s. t = JNumber s) \<longrightarrow> value_ends r \<and> value_ends r') \<longrightarrow> v = v' \<and> t = t')"

lemma same_value:
  assumes "one_value v t" and "denotes v t" and "denotes v' t'" and "ws w" and "ws w'"
    and "w @ v @ r = w' @ v' @ r'" and "value_ends r" and "value_ends r'"
  shows "w = w' \<and> v = v' \<and> t = t' \<and> r = r'"
proof -
  have "w = w' \<and> v @ r = v' @ r'"
    using ws_unique [OF assms(4,5,6)] denotes_opens [OF assms(2)] denotes_opens [OF assms(3)] opens_item by fastforce
  then show ?thesis using assms(1,3,7,8) unfolding one_value_def by (metis same_append_eq)
qed

text \<open>After an item: white space and the closing bracket, or white space, a comma and more.\<close>

lemma after_item:
  assumes "ws w" and "ws w'" and "w @ c # r = w' @ c' # r'" and "c \<in> {CHR '','', CHR '']'', CHR ''}''}" and "c' \<in> {CHR '','', CHR '']'', CHR ''}''}"
  shows "w = w' \<and> c = c' \<and> r = r'"
  using ws_unique [OF assms(1,2,3)] assms(4,5) by (auto simp: json_whitespace_def)

lemma ends_after: "ws w \<Longrightarrow> c \<in> {CHR '','', CHR '']'', CHR ''}''} \<Longrightarrow> value_ends (w @ c # r)"
  by (rule value_ends_ws) (auto simp: value_ends_def)

definition one_items :: "string \<Rightarrow> json list \<Rightarrow> bool" where
  "one_items s ts \<longleftrightarrow> (\<forall>s' ts' r r'. denotes_items s' ts' \<and> s @ CHR '']'' # r = s' @ CHR '']'' # r' \<longrightarrow> s = s' \<and> ts = ts')"

definition one_members :: "string \<Rightarrow> (string \<times> json) list \<Rightarrow> bool" where
  "one_members s ms \<longleftrightarrow> (\<forall>s' ms' r r'. denotes_members s' ms' \<and> s @ CHR ''}'' # r = s' @ CHR ''}'' # r' \<longrightarrow> s = s' \<and> ms = ms')"

lemma one_item:
  assumes "ws w" "denotes v t" "one_value v t" "ws w'"
  shows "one_items (w @ v @ w') [t]"
  unfolding one_items_def
proof (intro allI impI, elim conjE)
  fix s' ts' r r' assume "denotes_items s' ts'" and eq: "(w @ v @ w') @ CHR '']'' # r = s' @ CHR '']'' # r'"
  then show "w @ v @ w' = s' \<and> [t] = ts'"
  proof cases
    case (item w1 v1 t1 w1')
    then have "w = w1 \<and> v = v1 \<and> t = t1 \<and> w' @ CHR '']'' # r = w1' @ CHR '']'' # r'"
      using assms eq by (intro same_value) (auto intro!: ends_after)
    then show ?thesis using after_item [of w' w1' "CHR '']''" r "CHR '']''" r'] assms item by simp
  next
    case (items w1 v1 t1 w1' s1 ts1)
    then have "w = w1 \<and> v = v1 \<and> t = t1 \<and> w' @ CHR '']'' # r = w1' @ CHR '','' # s1 @ CHR '']'' # r'"
      using assms eq by (intro same_value) (auto intro!: ends_after)
    then show ?thesis using after_item [of w' w1' "CHR '']''" r "CHR '',''" "s1 @ CHR '']'' # r'"] assms items by simp
  qed
qed

lemma more_items:
  assumes "ws w" "denotes v t" "one_value v t" "ws w'" "one_items s ts"
  shows "one_items (w @ v @ w' @ '','' @ s) (t # ts)"
  unfolding one_items_def
proof (intro allI impI, elim conjE)
  fix s' ts' r r' assume "denotes_items s' ts'" and eq: "(w @ v @ w' @ '','' @ s) @ CHR '']'' # r = s' @ CHR '']'' # r'"
  then show "w @ v @ w' @ '','' @ s = s' \<and> t # ts = ts'"
  proof cases
    case (item w1 v1 t1 w1')
    then have "w = w1 \<and> v = v1 \<and> t = t1 \<and> w' @ CHR '','' # s @ CHR '']'' # r = w1' @ CHR '']'' # r'"
      using assms eq by (intro same_value) (auto intro!: ends_after)
    then show ?thesis using after_item [of w' w1' "CHR '',''" "s @ CHR '']'' # r" "CHR '']''" r'] assms item by simp
  next
    case (items w1 v1 t1 w1' s1 ts1)
    then have same: "w = w1 \<and> v = v1 \<and> t = t1 \<and> w' @ CHR '','' # s @ CHR '']'' # r = w1' @ CHR '','' # s1 @ CHR '']'' # r'"
      using assms eq by (intro same_value) (auto intro!: ends_after)
    then have "w' = w1'" "s @ CHR '']'' # r = s1 @ CHR '']'' # r'"
      using after_item [of w' w1' "CHR '',''" "s @ CHR '']'' # r" "CHR '',''" "s1 @ CHR '']'' # r'"] assms items by auto
    then show ?thesis using same assms(5) items unfolding one_items_def by blast
  qed
qed

lemma same_member:
  assumes v: "one_value v t" "denotes v t" "denotes v' t'" and w: "ws w" "ws w'" "ws w1" "ws w1'" "ws w2" "ws w2'"
    and key: "string_text key k" "string_text key' k'" and ends: "value_ends r" "value_ends r'"
    and eq: "w @ key @ w1 @ CHR '':'' # w2 @ v @ r = w' @ key' @ w1' @ CHR '':'' # w2' @ v' @ r'"
  shows "w = w' \<and> key = key' \<and> k = k' \<and> w1 = w1' \<and> w2 = w2' \<and> v = v' \<and> t = t' \<and> r = r'"
proof -
  have start: "\<exists>cs. x = CHR 0x22 # cs" if "string_text x y" for x y using that by (auto simp: string_text_def)
  have 1: "w = w' \<and> key @ w1 @ CHR '':'' # w2 @ v @ r = key' @ w1' @ CHR '':'' # w2' @ v' @ r'"
    using start [OF key(1)] start [OF key(2)] by (intro ws_unique [OF w(1,2) eq]) (auto simp: json_whitespace_def)
  then have 2: "key = key' \<and> k = k'" using string_text_unique [OF key] by blast
  then have "w1 @ CHR '':'' # w2 @ v @ r = w1' @ CHR '':'' # w2' @ v' @ r'" using 1 by simp
  from ws_unique [OF w(3,4) this] have 3: "w1 = w1'" "w2 @ v @ r = w2' @ v' @ r'" by (auto simp: json_whitespace_def)
  from same_value [OF v w(5,6) 3(2) ends] show ?thesis using 1 2 3 by simp
qed

lemma one_member:
  assumes "ws w" "string_text key k" "ws w1" "ws w2" "denotes v t" "one_value v t" "ws w'"
  shows "one_members (w @ key @ w1 @ '':'' @ w2 @ v @ w') [(k, t)]"
  unfolding one_members_def
proof (intro allI impI, elim conjE)
  fix s' ms' r r'
  assume "denotes_members s' ms'" and eq: "(w @ key @ w1 @ '':'' @ w2 @ v @ w') @ CHR ''}'' # r = s' @ CHR ''}'' # r'"
  then show "w @ key @ w1 @ '':'' @ w2 @ v @ w' = s' \<and> [(k, t)] = ms'"
  proof cases
    case (member x key' k' x1 x2 v1 t1 x')
    have "w = x \<and> key = key' \<and> k = k' \<and> w1 = x1 \<and> w2 = x2 \<and> v = v1 \<and> t = t1 \<and> w' @ CHR ''}'' # r = x' @ CHR ''}'' # r'"
      by (rule same_member [OF assms(6,5)]) (use assms eq member in \<open>auto intro!: ends_after\<close>)
    then show ?thesis using after_item [of w' x' "CHR ''}''" r "CHR ''}''" r'] assms member by simp
  next
    case (members x key' k' x1 x2 v1 t1 x' s1 ms1)
    have "w = x \<and> key = key' \<and> k = k' \<and> w1 = x1 \<and> w2 = x2 \<and> v = v1 \<and> t = t1 \<and>
        w' @ CHR ''}'' # r = x' @ CHR '','' # s1 @ CHR ''}'' # r'"
      by (rule same_member [OF assms(6,5)]) (use assms eq members in \<open>auto intro!: ends_after\<close>)
    then show ?thesis using after_item [of w' x' "CHR ''}''" r "CHR '',''" "s1 @ CHR ''}'' # r'"] assms members by simp
  qed
qed

lemma more_members:
  assumes "ws w" "string_text key k" "ws w1" "ws w2" "denotes v t" "one_value v t" "ws w'" "one_members s ms"
  shows "one_members (w @ key @ w1 @ '':'' @ w2 @ v @ w' @ '','' @ s) ((k, t) # ms)"
  unfolding one_members_def
proof (intro allI impI, elim conjE)
  fix s' ms' r r'
  assume "denotes_members s' ms'" and eq: "(w @ key @ w1 @ '':'' @ w2 @ v @ w' @ '','' @ s) @ CHR ''}'' # r = s' @ CHR ''}'' # r'"
  then show "w @ key @ w1 @ '':'' @ w2 @ v @ w' @ '','' @ s = s' \<and> (k, t) # ms = ms'"
  proof cases
    case (member x key' k' x1 x2 v1 t1 x')
    have "w = x \<and> key = key' \<and> k = k' \<and> w1 = x1 \<and> w2 = x2 \<and> v = v1 \<and> t = t1 \<and>
        w' @ CHR '','' # s @ CHR ''}'' # r = x' @ CHR ''}'' # r'"
      by (rule same_member [OF assms(6,5)]) (use assms eq member in \<open>auto intro!: ends_after\<close>)
    then show ?thesis using after_item [of w' x' "CHR '',''" "s @ CHR ''}'' # r" "CHR ''}''" r'] assms member by simp
  next
    case (members x key' k' x1 x2 v1 t1 x' s1 ms1)
    have same: "w = x \<and> key = key' \<and> k = k' \<and> w1 = x1 \<and> w2 = x2 \<and> v = v1 \<and> t = t1 \<and>
        w' @ CHR '','' # s @ CHR ''}'' # r = x' @ CHR '','' # s1 @ CHR ''}'' # r'"
      by (rule same_member [OF assms(6,5)]) (use assms eq members in \<open>auto intro!: ends_after\<close>)
    then have "w' = x'" "s @ CHR ''}'' # r = s1 @ CHR ''}'' # r'"
      using after_item [of w' x' "CHR '',''" "s @ CHR ''}'' # r" "CHR '',''" "s1 @ CHR ''}'' # r'"] assms members by auto
    then show ?thesis using same assms(8) members unfolding one_members_def by blast
  qed
qed

lemma items_start: "denotes_items s ts \<Longrightarrow> \<exists>w c u. ws w \<and> s = w @ c # u \<and> \<not> json_whitespace c \<and> c \<noteq> CHR '']'' \<and> ts \<noteq> []"
  by (cases rule: denotes_items.cases) (use denotes_opens opens_item in fastforce)+

lemma members_start: "denotes_members s ms \<Longrightarrow> \<exists>w c u. ws w \<and> s = w @ c # u \<and> \<not> json_whitespace c \<and> c \<noteq> CHR ''}'' \<and> ms \<noteq> []"
  by (cases rule: denotes_members.cases) (fastforce simp: string_text_def json_whitespace_def)+

lemma empty_not_items:
  assumes "ws w" and "denotes_items s ts"
  shows "w @ CHR '']'' # r \<noteq> s @ CHR '']'' # r'"
proof
  assume eq: "w @ CHR '']'' # r = s @ CHR '']'' # r'"
  obtain w' c u where s: "ws w'" "s = w' @ c # u" "\<not> json_whitespace c" "c \<noteq> CHR '']''" using items_start [OF assms(2)] by blast
  then show False using ws_unique [OF assms(1) s(1), of "CHR '']'' # r" "c # u @ CHR '']'' # r'"] eq by (simp add: json_whitespace_def)
qed

lemma empty_not_members:
  assumes "ws w" and "denotes_members s ms"
  shows "w @ CHR ''}'' # r \<noteq> s @ CHR ''}'' # r'"
proof
  assume eq: "w @ CHR ''}'' # r = s @ CHR ''}'' # r'"
  obtain w' c u where s: "ws w'" "s = w' @ c # u" "\<not> json_whitespace c" "c \<noteq> CHR ''}''" using members_start [OF assms(2)] by blast
  then show False using ws_unique [OF assms(1) s(1), of "CHR ''}'' # r" "c # u @ CHR ''}'' # r'"] eq by (simp add: json_whitespace_def)
qed

lemma one_kind:
  assumes "denotes v t" and "\<And>v' t' r r'. denotes v' t' \<Longrightarrow> v @ r = v' @ r' \<Longrightarrow> (\<exists>c. opens t c \<and> opens t' c) \<Longrightarrow>
    ((\<exists>s. t = JNumber s) \<Longrightarrow> value_ends r \<and> value_ends r') \<Longrightarrow> v = v' \<and> t = t'"
  shows "one_value v t"
  unfolding one_value_def
proof (intro allI impI, elim conjE)
  fix v' t' r r'
  assume "denotes v' t'" "v @ r = v' @ r'" "(\<exists>s. t = JNumber s) \<longrightarrow> value_ends r \<and> value_ends r'"
  then show "v = v' \<and> t = t'" using assms(2) [OF _ _ same_start [OF assms(1)]] by blast
qed

lemma one_literal: "one_value ''null'' JNull" "one_value ''true'' (JBool True)" "one_value ''false'' (JBool False)"
proof -
  have kind: "t' = JNull" if "opens JNull c" "opens t' c" for t' c using that by (cases t') (auto simp: json_digit_def in_range_def byte_def split: if_splits)
  have kindb: "t' = JBool b" if "opens (JBool b) c" "opens t' c" for t' c b
    using that by (cases t') (auto simp: json_digit_def in_range_def byte_def split: if_splits)
  show "one_value ''null'' JNull"
    by (rule one_kind [OF null]) (use kind in \<open>blast elim: denotes_null\<close>)
  show "one_value ''true'' (JBool True)"
    by (rule one_kind [OF true]) (use kindb in \<open>blast elim: denotes_bool\<close>)
  show "one_value ''false'' (JBool False)"
    by (rule one_kind [OF false]) (use kindb in \<open>blast elim: denotes_bool\<close>)
qed

lemma same_kind:
  "opens (JNumber s) c \<Longrightarrow> opens t' c \<Longrightarrow> \<exists>s'. t' = JNumber s'" "opens (JString s) c \<Longrightarrow> opens t' c \<Longrightarrow> \<exists>s'. t' = JString s'"
  "opens (JArray ts) c \<Longrightarrow> opens t' c \<Longrightarrow> \<exists>ts'. t' = JArray ts'" "opens (JObject ms) c \<Longrightarrow> opens t' c \<Longrightarrow> \<exists>ms'. t' = JObject ms'"
  by (cases t'; auto simp: json_digit_def in_range_def byte_def split: if_splits)+

lemma one_number: "json_number s \<Longrightarrow> one_value s (JNumber s)"
  by (rule one_kind [OF number], assumption) (metis denotes_number number_unique same_kind(1))

lemma one_string: "string_text s out \<Longrightarrow> one_value s (JString out)"
  by (rule one_kind [OF str], assumption) (metis denotes_str string_text_unique same_kind(2))

lemma one_array:
  assumes "denotes (''['' @ s @ '']'') (JArray ts)"
    and "\<And>s' r r'. ws s' \<Longrightarrow> s @ CHR '']'' # r = s' @ CHR '']'' # r' \<Longrightarrow> s = s' \<and> ts = []"
    and "\<And>s' ts' r r'. denotes_items s' ts' \<Longrightarrow> s @ CHR '']'' # r = s' @ CHR '']'' # r' \<Longrightarrow> s = s' \<and> ts = ts'"
  shows "one_value (''['' @ s @ '']'') (JArray ts)"
proof (rule one_kind [OF assms(1)])
  fix v' t' r r'
  assume v': "denotes v' t'" "(''['' @ s @ '']'') @ r = v' @ r'" and "\<exists>c. opens (JArray ts) c \<and> opens t' c"
  then obtain ts' where t': "t' = JArray ts'" using same_kind(3) by blast
  from v'(1) show "''['' @ s @ '']'' = v' \<and> JArray ts = t'"
    unfolding t' by (rule denotes_array) (use v'(2) assms(2) [of _ r r'] assms(3) [of _ _ r r'] in auto)
qed

lemma one_object:
  assumes "denotes (''{'' @ s @ ''}'') (JObject ms)"
    and "\<And>s' r r'. ws s' \<Longrightarrow> s @ CHR ''}'' # r = s' @ CHR ''}'' # r' \<Longrightarrow> s = s' \<and> ms = []"
    and "\<And>s' ms' r r'. denotes_members s' ms' \<Longrightarrow> s @ CHR ''}'' # r = s' @ CHR ''}'' # r' \<Longrightarrow> s = s' \<and> ms = ms'"
  shows "one_value (''{'' @ s @ ''}'') (JObject ms)"
proof (rule one_kind [OF assms(1)])
  fix v' t' r r'
  assume v': "denotes v' t'" "(''{'' @ s @ ''}'') @ r = v' @ r'" and "\<exists>c. opens (JObject ms) c \<and> opens t' c"
  then obtain ms' where t': "t' = JObject ms'" using same_kind(4) by blast
  from v'(1) show "''{'' @ s @ ''}'' = v' \<and> JObject ms = t'"
    unfolding t' by (rule denotes_object) (use v'(2) assms(2) [of _ r r'] assms(3) [of _ _ r r'] in auto)
qed

lemma ws_close: "ws w \<Longrightarrow> ws w' \<Longrightarrow> w @ CHR '']'' # r = w' @ CHR '']'' # r' \<Longrightarrow> w = w'"
  "ws w \<Longrightarrow> ws w' \<Longrightarrow> w @ CHR ''}'' # r = w' @ CHR ''}'' # r' \<Longrightarrow> w = w'"
  using after_item [of w w'] by auto

lemma denotes_one:
  "denotes v t \<Longrightarrow> one_value v t" "denotes_items s ts \<Longrightarrow> one_items s ts" "denotes_members s' ms \<Longrightarrow> one_members s' ms"
proof (induction rule: denotes_denotes_items_denotes_members.inducts)
  case (empty_array w)
  show ?case by (rule one_array [OF denotes_denotes_items_denotes_members.empty_array [OF empty_array]])
    (use empty_array ws_close(1) empty_not_items in blast)+
next
  case (array s ts)
  have "s @ CHR '']'' # r \<noteq> s' @ CHR '']'' # r'" if "ws s'" for s' r r' using empty_not_items [OF that array(1)] by metis
  moreover have "s = s' \<and> ts = ts'" if "denotes_items s' ts'" "s @ CHR '']'' # r = s' @ CHR '']'' # r'" for s' ts' r r'
    using array(2) that unfolding one_items_def by blast
  ultimately show ?case by (intro one_array [OF denotes_denotes_items_denotes_members.array [OF array(1)]]) blast+
next
  case (empty_object w)
  show ?case by (rule one_object [OF denotes_denotes_items_denotes_members.empty_object [OF empty_object]])
    (use empty_object ws_close(2) empty_not_members in blast)+
next
  case (object s ms)
  have "s @ CHR ''}'' # r \<noteq> s' @ CHR ''}'' # r'" if "ws s'" for s' r r' using empty_not_members [OF that object(1)] by metis
  moreover have "s = s' \<and> ms = ms'" if "denotes_members s' ms'" "s @ CHR ''}'' # r = s' @ CHR ''}'' # r'" for s' ms' r r'
    using object(2) that unfolding one_members_def by blast
  ultimately show ?case by (intro one_object [OF denotes_denotes_items_denotes_members.object [OF object(1)]]) blast+
qed (rule one_literal one_number one_string one_item more_items one_member more_members; assumption)+

text \<open>A document: a value with white space around it.\<close>

definition document :: "string \<Rightarrow> json \<Rightarrow> bool" where
  "document s t \<longleftrightarrow> (\<exists>w v w'. ws w \<and> denotes v t \<and> ws w' \<and> s = w @ v @ w')"

lemma document_unique: "document s t \<Longrightarrow> document s t' \<Longrightarrow> t = t'"
proof -
  assume "document s t" "document s t'"
  then obtain w v u w' v' u' where "ws w" "denotes v t" "ws u" "s = w @ v @ u" "ws w'" "denotes v' t'" "ws u'" "s = w' @ v' @ u'"
    by (auto simp: document_def)
  moreover have "value_ends u" if "ws u" for u using value_ends_ws [OF that, of "[]"] by (simp add: value_ends_def)
  ultimately show "t = t'" using same_value [OF denotes_one(1), of v t v' t' w w' u u'] by simp
qed

lemma object_prefix:
  assumes "denotes v (JObject ms)" and "denotes v' t'" and "ws w" and "ws w'" and "w @ v @ r = w' @ v' @ r'"
  shows "t' = JObject ms"
proof -
  have "v @ r = v' @ r'"
    using ws_unique [OF assms(3,4,5)] denotes_opens [OF assms(1)] denotes_opens [OF assms(2)] opens_item by fastforce
  then show ?thesis using denotes_one(1) [OF assms(1)] assms(2) unfolding one_value_def by blast
qed

end
