(* ===== verification/Json_Rows.thy ===== *)
theory Json_Rows
  imports Json_Decoder Json_Trees
begin

text \<open>
  What the rows of a decoded page are. A JSON text denotes a tree; the rows are the values at the declared paths of the
  declared records, every record one row in order, each path present exactly once. The proofs are derived in a program
  logic over the parser: a computation started anywhere inside the document ends with an exception other than missing
  fuel, or returns with its postcondition. Every step of the parser reads a piece of the document and keeps the memory
  counters within their budget.
\<close>

subsection \<open>The logic\<close>

definition ok :: "('a \<Rightarrow> JsonParser \<Rightarrow> bool) \<Rightarrow> decode_error + ('a \<times> JsonParser) \<Rightarrow> bool" where
  "ok Q r = (case r of Inl e \<Rightarrow> e \<noteq> Decode_OutOfFuel | Inr (x, ps) \<Rightarrow> Q x ps)"

lemma ok_simps [simp]: "ok Q (Inl e) \<longleftrightarrow> e \<noteq> Decode_OutOfFuel" "ok Q (Inr z) \<longleftrightarrow> Q (fst z) (snd z)"
  by (auto simp: ok_def split: prod.splits)

lemma ok_parses: "Q x ps \<Longrightarrow> ok Q (parses x ps)"
  by (simp add: parses_def)

lemma ok_fails [simp]:
  "ok Q (fails stage field msg ps)" "ok Q (memory_error msg ps)" "ok Q (incompatible field ps)" "ok Q (duplicated field ps)"
  "ok Q (string_exceeded field ps)" "ok Q (array_exceeded ps)"
  by (simp_all add: fails_def memory_error_def incompatible_def duplicated_def string_exceeded_def array_exceeded_def)

lemma ok_then: "ok P (m ps) \<Longrightarrow> (\<And>x ps1. P x ps1 \<Longrightarrow> ok Q (f x ps1)) \<Longrightarrow> ok Q (parser_bind m f ps)"
  by (cases "m ps") (auto simp: parser_bind_def)

lemma ok_mono: "ok P r \<Longrightarrow> (\<And>x ps. P x ps \<Longrightarrow> Q x ps) \<Longrightarrow> ok Q r"
  by (auto simp: ok_def split: sum.splits)

lemma ok_if: "(c \<Longrightarrow> ok Q (a ps)) \<Longrightarrow> (\<not> c \<Longrightarrow> ok Q (b ps)) \<Longrightarrow> ok Q ((if c then a else b) ps)"
  by simp

lemma ok_if': "(c \<Longrightarrow> ok Q a) \<Longrightarrow> (\<not> c \<Longrightarrow> ok Q b) \<Longrightarrow> ok Q (if c then a else b)"
  by simp

lemma ok_option: "(x = None \<Longrightarrow> ok Q a) \<Longrightarrow> (\<And>y. x = Some y \<Longrightarrow> ok Q (b y)) \<Longrightarrow> ok Q (case x of None \<Rightarrow> a | Some y \<Rightarrow> b y)"
  by (cases x) auto

subsection \<open>Memory\<close>

lemma CheckedAdd_Some: "CheckedAdd a b = Some c \<longleftrightarrow> unat c = unat a + unat b"
proof
  assume "CheckedAdd a b = Some c"
  then have "b \<le> uint64_max - a" "c = a + b" by (auto simp: CheckedAdd_def split: if_splits)
  then show "unat c = unat a + unat b" using guarded_add(1) [of a uint64_max b] by simp
next
  assume c: "unat c = unat a + unat b"
  have "unat c < 2 ^ LENGTH(64)" by (rule unsigned_less)
  then have "unat b \<le> unat (uint64_max - a)" using c unat_sub_le [of a uint64_max] by simp
  then have "b \<le> uint64_max - a" by (simp add: word_le_nat_alt)
  moreover have "c = a + b" using c \<open>unat c < 2 ^ LENGTH(64)\<close> by (simp add: unat_arith_simps(3) unat_word_ariths)
  ultimately show "CheckedAdd a b = Some c" by (simp add: CheckedAdd_def)
qed

definition total :: "JsonParser \<Rightarrow> nat" where
  "total ps = unat (jp_decoded_memory ps) + unat (jp_pending_string_memory ps) + unat (jp_pending_array_memory ps) +
     unat (jp_pending_structural_memory ps) + unat (jp_continuation_memory ps)"

lemma current_memory_Some: "current_memory ps = Some m \<Longrightarrow> unat m = total ps"
  by (auto simp: current_memory_def total_def CheckedAdd_Some bind_eq_Some_conv)

lemma within_memory_Some:
  "within_memory cx a ps = Some m \<Longrightarrow> unat m = total ps + unat a \<and> unat m \<le> unat (jd_max_decoded_memory_bytes (dx_plan cx))"
  by (auto simp: within_memory_def bind_eq_Some_conv CheckedAdd_Some word_le_nat_alt not_less split: option.splits if_splits
      dest!: current_memory_Some)

text \<open>The counters are within what was observed, and that within the limit.\<close>

definition mem_inv :: "json_context \<Rightarrow> JsonParser \<Rightarrow> bool" where
  "mem_inv cx ps \<longleftrightarrow> total ps \<le> unat (jp_peak_memory ps) \<and>
     unat (jp_peak_memory ps) \<le> unat (jd_max_decoded_memory_bytes (dx_plan cx))"

text \<open>What a step may change besides the counters of pending memory: nothing, or the memory of decoded rows.\<close>

definition grown :: "json_context \<Rightarrow> JsonParser \<Rightarrow> JsonParser \<Rightarrow> bool" where
  "grown cx ps ps1 \<longleftrightarrow> jp_continuation_memory ps1 = jp_continuation_memory ps \<and> jp_next_url ps1 = jp_next_url ps \<and>
     jp_next_url_capacity ps1 = jp_next_url_capacity ps \<and> (mem_inv cx ps \<longrightarrow> mem_inv cx ps1)"

definition kept :: "json_context \<Rightarrow> JsonParser \<Rightarrow> JsonParser \<Rightarrow> bool" where
  "kept cx ps ps1 \<longleftrightarrow> jp_decoded_memory ps1 = jp_decoded_memory ps \<and> grown cx ps ps1"

lemma kept_refl [simp]: "kept cx ps ps" "kept cx ps (ps\<lparr>jp_position := p\<rparr>)" "kept cx (ps\<lparr>jp_position := p\<rparr>) ps1 = kept cx ps ps1"
  by (simp_all add: kept_def grown_def mem_inv_def total_def)

lemma kept_trans: "kept cx a b \<Longrightarrow> kept cx b c \<Longrightarrow> kept cx a c"
  by (simp add: kept_def grown_def)

lemma closures [simp]: "(kept cx)\<^sup>*\<^sup>* = kept cx" "(grown cx)\<^sup>*\<^sup>* = grown cx"
proof -
  have "(kept cx)\<^sup>*\<^sup>* a b = kept cx a b" "(grown cx)\<^sup>*\<^sup>* a b = grown cx a b" for a b
    by (auto intro: r_into_rtranclp) (induction rule: rtranclp_induct; simp add: kept_def grown_def)+
  then show "(kept cx)\<^sup>*\<^sup>* = kept cx" "(grown cx)\<^sup>*\<^sup>* = grown cx" by (intro ext; blast)+
qed

text \<open>Reading \<open>u\<close> by steps that are allowed to change what \<open>K\<close> says.\<close>

definition moves :: "(JsonParser \<Rightarrow> JsonParser \<Rightarrow> bool) \<Rightarrow> JsonParser \<Rightarrow> string \<Rightarrow> JsonParser \<Rightarrow> bool" where
  "moves K ps u ps1 \<longleftrightarrow> fst (jp_position ps) = u @ fst (jp_position ps1) \<and> K\<^sup>*\<^sup>* ps ps1"

lemma moves_trans [trans]: "moves K a u b \<Longrightarrow> moves K b v c \<Longrightarrow> moves K a (u @ v) c"
  by (auto simp: moves_def)

lemma moves_refl [simp]: "moves K a [] a"
  by (simp add: moves_def)

lemma moves_grown: "moves (kept cx) a u b \<Longrightarrow> moves (grown cx) a u b"
  by (simp add: moves_def kept_def)

definition inside :: "json_context \<Rightarrow> JsonParser \<Rightarrow> bool" where
  "inside cx ps \<longleftrightarrow> length (fst (jp_position ps)) \<le> length (dx_input cx)"

lemma moves_inside: "moves K a u b \<Longrightarrow> inside cx a \<Longrightarrow> inside cx b"
  by (simp add: moves_def inside_def)

lemma ok_lexes:
  assumes "\<And>p. f (jp_position ps) = Inr p \<Longrightarrow> Q () (ps\<lparr>jp_position := p\<rparr>)" and "f (jp_position ps) \<noteq> Inl JsonOutOfFuel"
  shows "ok Q (lexes f ps)"
  using assms by (cases "f (jp_position ps)") (auto simp: lexes_def elim: thrown.elims)

abbreviation peek :: "JsonParser \<Rightarrow> char" where
  "peek ps \<equiv> json_Peek (jp_position ps)"

lemma ok_Peek: "ok (\<lambda>c ps1. c = peek ps \<and> ps1 = ps) (Parser_Peek ps)"
  by (simp add: Parser_Peek_def)

lemma ok_Check: "ok (\<lambda>_ ps1. moves (kept cx) ps [] ps1 \<and> peek ps1 = peek ps) (Parser_Check cx ps)"
  unfolding Parser_Check_def
  by (rule ok_lexes) (auto simp: moves_def json_Peek_def json_Check_def split: if_splits)

lemma ok_SkipWhitespace: "ok (\<lambda>_ ps1. \<exists>w. ws w \<and> moves (kept cx) ps w ps1) (Parser_SkipWhitespace cx ps)"
  unfolding Parser_SkipWhitespace_def
  by (rule ok_lexes) (use whitespace_fuelled in \<open>auto simp: moves_def fuelled_def dest!: skip_ws\<close>)

lemma ok_Expect: "ok (\<lambda>_ ps1. moves (kept cx) ps [c] ps1) (Parser_Expect cx c ps)"
  unfolding Parser_Expect_def
  by (rule ok_lexes) (use Expect_fuelled in \<open>auto simp: moves_def fuelled_def dest!: Expect_Inr\<close>)

lemma ok_RequireObjectKey: "ok (\<lambda>_ ps1. ps1 = ps) (Parser_RequireObjectKey ps)"
  unfolding Parser_RequireObjectKey_def by (rule ok_lexes) (auto simp: RequireObjectKey_def split: if_splits)

lemma ok_Literal: "ok (\<lambda>_ ps1. moves (kept cx) ps word ps1) (ParseLiteral cx word ps)"
  unfolding ParseLiteral_def
  by (rule ok_lexes) (use Literal_fuelled in \<open>auto simp: moves_def fuelled_def dest!: Literal_sound\<close>)

lemma ok_NumberToken: "ok (\<lambda>tok ps1. json_number tok \<and> moves (kept cx) ps tok ps1) (Parser_ParseNumberToken cx ps)"
proof (cases "json_number_scan (dx_control cx) (jp_position ps)")
  case (Inl e)
  then have "e \<noteq> JsonOutOfFuel"
    using SkipNumber_fuelled [of "dx_control cx" "jp_position ps"] by (auto simp: SkipNumber_def fuelled_def)
  then show ?thesis using Inl by (auto simp: Parser_ParseNumberToken_def elim: thrown.elims)
next
  case (Inr q)
  then obtain s where "json_number s" "fst (jp_position ps) = s @ fst q" using number_sound by blast
  then show ?thesis using Inr by (simp add: Parser_ParseNumberToken_def moves_def Let_def)
qed

text \<open>What a separator leads to: the closing bracket, or past a comma to something else.\<close>

definition separated :: "(JsonParser \<Rightarrow> JsonParser \<Rightarrow> bool) \<Rightarrow> char \<Rightarrow> JsonParser \<Rightarrow> JsonParser \<Rightarrow> bool" where
  "separated K close ps ps1 \<longleftrightarrow>
     (\<exists>w. ws w \<and> moves K ps w ps1) \<and> peek ps1 = close \<or>
     (\<exists>w w'. ws w \<and> ws w' \<and> moves K ps (w @ '','' @ w') ps1) \<and> peek ps1 \<noteq> close"

lemma ok_separator: "ok (\<lambda>_ ps1. separated (kept cx) close ps ps1) (lexes (separator close (dx_control cx)) ps)"
  by (rule ok_lexes) (use separator_fuelled in \<open>auto simp: moves_def separated_def fuelled_def dest!: separator_sound\<close>)

lemmas ok_separators = ok_separator [where close = "CHR '']''", folded separators, folded ConsumeArraySeparator_def]
  ok_separator [where close = "CHR ''}''", folded separators, folded ConsumeObjectSeparator_def]

abbreviation limit :: "json_context \<Rightarrow> nat" where
  "limit cx \<equiv> unat (jd_max_decoded_memory_bytes (dx_plan cx))"

lemma ok_Observe:
  "ok (\<lambda>_ ps1. \<exists>x. ps1 = ps\<lparr>jp_peak_memory := x\<rparr> \<and> total ps \<le> unat x \<and>
     (unat (jp_peak_memory ps) \<le> limit cx \<longrightarrow> unat x \<le> limit cx)) (ObserveCurrentMemory cx ps)"
  by (auto simp: ObserveCurrentMemory_def wordarith word_le_nat_alt not_less split: option.splits dest!: current_memory_Some)

text \<open>A step that changes counters only.\<close>

definition counted :: "json_context \<Rightarrow> JsonParser \<Rightarrow> JsonParser \<Rightarrow> bool" where
  "counted cx ps ps1 \<longleftrightarrow> kept cx ps ps1 \<and> jp_position ps1 = jp_position ps"

lemma counted_moves: "counted cx ps ps1 \<Longrightarrow> moves (kept cx) ps [] ps1 \<and> peek ps1 = peek ps"
  by (simp add: counted_def moves_def)

lemma counted_refl [simp]: "counted cx ps ps"
  by (simp add: counted_def)

lemma counted_trans: "counted cx a b \<Longrightarrow> counted cx b c \<Longrightarrow> counted cx a c"
  by (auto simp: counted_def intro: kept_trans)

lemma ok_ReservePendingStringMemory:
  "ok (\<lambda>_ ps1. counted cx ps ps1 \<and> unat (jp_pending_string_memory ps1) = unat (jp_pending_string_memory ps) + unat a)
     (ReservePendingStringMemory cx a ps)"
  unfolding ReservePendingStringMemory_def
  by (auto split: option.splits simp: CheckedAdd_Some counted_def kept_def grown_def mem_inv_def total_def intro!: ok_mono [OF ok_Observe])

lemma ok_ReserveStructuralMemory:
  "ok (\<lambda>_ ps1. counted cx ps ps1 \<and> unat (jp_pending_structural_memory ps1) = unat (jp_pending_structural_memory ps) + unat a)
     (ReserveStructuralMemory cx a ps)"
  unfolding ReserveStructuralMemory_def
  by (auto split: option.splits simp: CheckedAdd_Some counted_def kept_def grown_def mem_inv_def total_def intro!: ok_mono [OF ok_Observe])

lemma ok_ReconcileStructuralMemory:
  assumes "unat reserved \<le> unat (jp_pending_structural_memory ps)"
  shows "ok (\<lambda>_ ps1. counted cx ps ps1) (ReconcileStructuralMemory cx reserved actual ps)"
proof (cases "actual > reserved")
  case False
  then have "unat (reserved - actual) = unat reserved - unat actual" by (simp add: wordarith)
  then have "unat (jp_pending_structural_memory ps - (reserved - actual)) \<le> unat (jp_pending_structural_memory ps)"
    using assms by (subst unat_sub) (auto simp: word_le_nat_alt)
  then show ?thesis using False
    by (auto simp: ReconcileStructuralMemory_def counted_def kept_def grown_def mem_inv_def total_def)
qed (simp add: ReconcileStructuralMemory_def ok_mono [OF ok_ReserveStructuralMemory])

definition charged_ok :: "json_context \<Rightarrow> JsonColumnPlan option \<Rightarrow> owned_string \<Rightarrow> JsonParser \<Rightarrow> bool" where
  "charged_ok cx column s ps \<longleftrightarrow> column = None \<or>
     length (os_text s) \<le> unat (jd_max_string_bytes (dx_plan cx)) \<and>
     unat (os_charged s) \<le> unat (jp_pending_string_memory ps)"

lemma ok_ReserveRetainedString:
  assumes "charged_ok cx column s ps"
  shows "ok (\<lambda>s1 ps1. counted cx ps ps1 \<and> os_text s1 = os_text s \<and> charged_ok cx column s1 ps1 \<and>
      (column \<noteq> None \<longrightarrow> os_charged s1 = os_capacity s1 \<and>
         length (os_text s) + unat addition \<le> unat (jd_max_string_bytes (dx_plan cx))))
    (ReserveRetainedString cx column addition s ps)"
proof (cases column)
  case (Some col)
  let ?mx = "jd_max_string_bytes (dx_plan cx)"
  have size: "length (os_text s) + unat addition \<le> unat ?mx"
    if "\<not> (addition > ?mx \<or> of_nat (length (os_text s)) > ?mx - addition)"
    using RequireAppend_bound [of "os_text s" addition ?mx "[]"] that assms Some
    by (simp add: RequireAppend_def charged_ok_def)
  have step: "ok (\<lambda>s1 ps1. counted cx ps ps1 \<and> os_text s1 = os_text s \<and> charged_ok cx (Some col) s1 ps1 \<and>
        os_charged s1 = os_capacity s1)
      (parser_bind (ObserveCurrentMemory cx) (\<lambda>_. parses (s\<lparr>os_capacity := actual, os_charged := actual\<rparr>))
        (ps\<lparr>jp_pending_string_memory := pending, jp_peak_memory := max (max (jp_peak_memory ps) retained) co_live\<rparr>))"
    if "os_charged s \<le> actual" "unat pending = unat (jp_pending_string_memory ps) + unat (actual - os_charged s)"
      "unat retained \<le> limit cx" "unat co_live \<le> limit cx" for actual pending retained co_live
  proof -
    have "unat (actual - os_charged s) = unat actual - unat (os_charged s)" using that(1) by (simp add: wordarith)
    then show ?thesis using that assms Some
      by (intro ok_then [OF ok_Observe] ok_parses)
        (auto simp: counted_def kept_def grown_def mem_inv_def total_def charged_ok_def wordarith word_le_nat_alt)
  qed
  show ?thesis
    unfolding ReserveRetainedString_def Some option.case Let_def prod.case
    by (intro ok_if' ok_option)
      (use assms Some size in \<open>auto simp: not_less CheckedAdd_Some intro!: step dest!: within_memory_Some\<close>)
qed (simp add: ReserveRetainedString_def parses_def charged_ok_def)

subsection \<open>Strings\<close>

definition well :: "('a \<Rightarrow> bool) \<Rightarrow> decode_error + 'a \<Rightarrow> bool" where
  "well Q r = (case r of Inl e \<Rightarrow> e \<noteq> Decode_OutOfFuel | Inr x \<Rightarrow> Q x)"

lemma well_simps [simp]: "well Q (Inl e) \<longleftrightarrow> e \<noteq> Decode_OutOfFuel" "well Q (Inr x) \<longleftrightarrow> Q x"
  by (simp_all add: well_def)

lemma well_then: "well P r \<Longrightarrow> (\<And>x. r = Inr x \<Longrightarrow> P x \<Longrightarrow> well Q (f x)) \<Longrightarrow> well Q (and_then r f)"
  by (cases r) auto

lemma well_lexical: "fuelled r \<Longrightarrow> (\<And>x. r = Inr x \<Longrightarrow> Q x) \<Longrightarrow> well Q (lexical r)"
  by (cases r) (auto simp: fuelled_def elim: thrown.elims)

text \<open>The characters of a token with their meaning, up to its closing quote.\<close>

definition token_from :: "('s \<Rightarrow> string) \<Rightarrow> json_cursor \<Rightarrow> 's \<Rightarrow> json_cursor \<Rightarrow> 's \<Rightarrow> bool" where
  "token_from txt p s q s1 \<longleftrightarrow> (\<exists>cs. list_all (case_prod char_text) cs \<and>
     fst p = concat (map fst cs) @ [CHR 0x22] @ fst q \<and> txt s1 = txt s @ concat (map snd cs))"

lemma token_from_step:
  assumes "token_from txt r s1 q s2" and "char_text a b" and "fst p = a @ fst r" and "txt s1 = txt s @ b"
  shows "token_from txt p s q s2"
proof -
  obtain cs where "list_all (case_prod char_text) cs" "fst r = concat (map fst cs) @ [CHR 0x22] @ fst q"
      "txt s2 = txt s1 @ concat (map snd cs)" using assms(1) by (auto simp: token_from_def)
  then show ?thesis using assms(2-) unfolding token_from_def by (intro exI [of _ "(a, b) # cs"]) simp
qed

lemma well_mono: "well P r \<Longrightarrow> (\<And>x. P x \<Longrightarrow> Q x) \<Longrightarrow> well Q r"
  by (cases r) auto

lemma well_if: "(c \<Longrightarrow> well Q a) \<Longrightarrow> (\<not> c \<Longrightarrow> well Q b) \<Longrightarrow> well Q (if c then a else b)"
  by simp

lemma string_loop_well:
  assumes put: "\<And>bs s. length bs \<le> 4 \<Longrightarrow> I s \<Longrightarrow> well (\<lambda>s1. I s1 \<and> txt s1 = txt s @ bs) (put bs s)"
  shows "I s \<Longrightarrow> well (\<lambda>(q, s1). I s1 \<and> token_from txt p s q s1) (string_loop k put p s)"
proof (induction "length (fst p)" arbitrary: p s rule: less_induct)
  case less
  obtain xs n where p: "p = (xs, n)" by (cases p)
  show ?case
  proof (cases xs)
    case (Cons c cs)
    let ?Q = "\<lambda>(q, s1). I s1 \<and> token_from txt p s q s1"
    have continue: "well ?Q (and_then (put b s) (string_loop k put r))"
      if a: "char_text a b" "c # cs = a @ fst r" "length b \<le> 4" "length (fst r) < length (c # cs)" for a b r
    proof (rule well_then [OF put [OF a(3) less.prems]])
      fix s1 assume s1: "I s1 \<and> txt s1 = txt s @ b"
      have "well (\<lambda>(q, s2). I s2 \<and> token_from txt r s1 q s2) (string_loop k put r s1)"
        using less.hyps [of r s1] a(4) s1 p Cons by simp
      then show "well ?Q (string_loop k put r s1)"
        by (rule well_mono) (use s1 a p Cons in \<open>auto intro: token_from_step [of txt r s1 _ _ a b]\<close>)
    qed
    have plain: "well ?Q (and_then (put (c # take (length cs - length (fst q)) cs) s) (string_loop k put q))"
      if q: "SkipUtf8 k c (cs, n') = Inr q" "\<not> byte c < 0x20" "c \<noteq> CHR 0x22" "c \<noteq> CHR 0x5C" for q n'
    proof -
      obtain us where us: "cs = us @ fst q" "json_unescaped (c # us)" using SkipUtf8_sound [OF q(1)] q by auto
      then show ?thesis using continue [of "c # us" "c # us" q] json_unescaped_length [OF us(2)] char_text.plain by simp
    qed
    have unicode: "well ?Q (and_then (put (code_point_bytes v) s) (string_loop k put q))"
      if q: "ParseEscapedUnicode k (es, n') = Inr (v, q)" "c = CHR 0x5C" "cs = CHR ''u'' # es" for es v q n'
    proof -
      obtain us where us: "es = us @ fst q" "escape_denotes us v" using ParseEscapedUnicode_sound [OF q(1)] by auto
      then show ?thesis
        using continue [OF char_text.unicode [OF us(2)], of q] code_point_length [of v] q(2,3) by simp
    qed
    have escape: "well ?Q (and_then (put [b] s) (string_loop k put (es, n')))"
      if "json_escape e = Some b" "c = CHR 0x5C" "cs = e # es" for e es b n'
      using continue [OF char_text.escape [OF that(1)], of "(es, n')"] that by simp
    have quote: "token_from txt p s (cs, n') s" if "c = CHR 0x22" for n'
      using that p Cons by (auto simp: token_from_def intro!: exI [of _ "[]"])
    show ?thesis
      unfolding p Cons string_loop.simps
      by (intro well_then [OF well_lexical [OF fuelled_simps(4) TrueI]] well_if)
        (use less.prems quote plain unicode escape SkipUtf8_fuelled escaped_fuelled p Cons in
          \<open>auto intro!: well_then [OF well_lexical [OF _ TrueI]] split: list.splits option.splits\<close>)
  qed (simp add: p)
qed

definition retained_inv :: "json_context \<Rightarrow> JsonColumnPlan option \<Rightarrow> JsonParser \<Rightarrow> owned_string \<times> JsonParser \<Rightarrow> bool" where
  "retained_inv cx column ps0 = (\<lambda>(s, ps). counted cx ps0 ps \<and> charged_ok cx column s ps \<and>
     (column \<noteq> None \<longrightarrow> os_charged s = os_capacity s))"

lemma append_retained_well:
  assumes "length bs \<le> 4" and "retained_inv cx column ps0 z"
  shows "well (\<lambda>z1. retained_inv cx column ps0 z1 \<and> os_text (fst z1) = os_text (fst z) @ bs) (append_retained cx column bs z)"
proof -
  obtain s ps where z: "z = (s, ps)" by (cases z)
  have len: "unat (of_nat (length bs) :: u64) = length bs" using assms(1) by (simp add: unat_of_nat)
  have "ok (\<lambda>s1 ps1. retained_inv cx column ps0 (s1, ps1) \<and> os_text s1 = os_text s @ bs)
      (parser_bind (ReserveRetainedString cx column (of_nat (length bs)) s)
        (\<lambda>s. parses (s\<lparr>os_text := os_text s @ bs\<rparr>)) ps)"
    by (rule ok_then [OF ok_ReserveRetainedString])
      (use assms z len in \<open>auto simp: retained_inv_def charged_ok_def intro!: ok_parses intro: counted_trans\<close>)
  then show ?thesis by (auto simp: append_retained_def z ok_def well_def split: sum.splits)
qed

lemma ok_ParseString:
  "ok (\<lambda>s ps1. (\<exists>tok. string_text tok (os_text s) \<and> moves (kept cx) ps tok ps1) \<and> charged_ok cx column s ps1 \<and>
      (column \<noteq> None \<longrightarrow> os_charged s = os_capacity s)) (Parser_ParseString cx column ps)"
  unfolding Parser_ParseString_def
proof (rule ok_then [OF ok_Expect], rule ok_then [OF ok_ReserveRetainedString])
  fix x ps1 s ps2
  assume first: "moves (kept cx) ps [CHR 0x22] ps1"
    and init: "counted cx ps1 ps2 \<and> os_text s = os_text \<lparr>os_text = [], os_capacity = js_string_initial (dx_storage cx), os_charged = 0\<rparr> \<and>
      charged_ok cx column s ps2 \<and> (column \<noteq> None \<longrightarrow> os_charged s = os_capacity s \<and>
        length (os_text \<lparr>os_text = [], os_capacity = js_string_initial (dx_storage cx), os_charged = 0\<rparr>) + unat (0::u64)
          \<le> unat (jd_max_string_bytes (dx_plan cx)))"
  have "well (\<lambda>(q, z1). retained_inv cx column ps2 z1 \<and> token_from (\<lambda>z. os_text (fst z)) (jp_position ps2) (s, ps2) q z1)
      (string_loop (dx_control cx) (append_retained cx column) (jp_position ps2) (s, ps2))"
    by (rule string_loop_well [OF append_retained_well]) (use init in \<open>auto simp: retained_inv_def\<close>)
  moreover have "(\<exists>tok. string_text tok (os_text t) \<and> moves (kept cx) ps tok (ps3\<lparr>jp_position := q\<rparr>)) \<and>
      charged_ok cx column t (ps3\<lparr>jp_position := q\<rparr>) \<and> (column \<noteq> None \<longrightarrow> os_charged t = os_capacity t)"
    if inv: "retained_inv cx column ps2 (t, ps3)" and tok: "token_from (\<lambda>z. os_text (fst z)) (jp_position ps2) (s, ps2) q (t, ps3)"
    for q t ps3
  proof -
    obtain cs where cs: "list_all (case_prod char_text) cs" "fst (jp_position ps2) = concat (map fst cs) @ [CHR 0x22] @ fst q"
      "os_text t = concat (map snd cs)" using tok init by (auto simp: token_from_def)
    then have "string_text ([CHR 0x22] @ concat (map fst cs) @ [CHR 0x22]) (os_text t)" by (auto simp: string_text_def)
    moreover have "moves (kept cx) ps ([CHR 0x22] @ concat (map fst cs) @ [CHR 0x22]) (ps3\<lparr>jp_position := q\<rparr>)"
      using first init inv cs(2) unfolding moves_def retained_inv_def counted_def prod.case
      by (auto intro: kept_trans simp: kept_def grown_def mem_inv_def total_def)
    ultimately show ?thesis using inv by (auto simp: retained_inv_def charged_ok_def)
  qed
  ultimately show "ok (\<lambda>s ps1. (\<exists>tok. string_text tok (os_text s) \<and> moves (kept cx) ps tok ps1) \<and> charged_ok cx column s ps1 \<and>
      (column \<noteq> None \<longrightarrow> os_charged s = os_capacity s))
    (and_then (string_loop (dx_control cx) (append_retained cx column) (jp_position ps2) (s, ps2))
       (\<lambda>(q, s, ps). Inr (s, ps\<lparr>jp_position := q\<rparr>)))"
    by (cases "string_loop (dx_control cx) (append_retained cx column) (jp_position ps2) (s, ps2)") auto
qed (simp add: charged_ok_def)

subsection \<open>Lists of elements and members\<close>

text \<open>What a loop over elements or members has read when it stops at the closing bracket.\<close>

definition array_rest :: "(JsonParser \<Rightarrow> JsonParser \<Rightarrow> bool) \<Rightarrow> JsonParser \<Rightarrow> json list \<Rightarrow> JsonParser \<Rightarrow> bool" where
  "array_rest K ps ts ps1 \<longleftrightarrow> peek ps1 = CHR '']'' \<and>
     (\<exists>u. moves K ps u ps1 \<and> (if peek ps = CHR '']'' then u = [] \<and> ts = [] else denotes_items u ts))"

definition object_rest :: "(JsonParser \<Rightarrow> JsonParser \<Rightarrow> bool) \<Rightarrow> JsonParser \<Rightarrow> (string \<times> json) list \<Rightarrow> JsonParser \<Rightarrow> bool" where
  "object_rest K ps ms ps1 \<longleftrightarrow> peek ps1 = CHR ''}'' \<and>
     (\<exists>u. moves K ps u ps1 \<and> (if peek ps = CHR ''}'' then u = [] \<and> ms = [] else denotes_members u ms))"

text \<open>Reading a value, with whitespace before it.\<close>

definition value_read :: "(JsonParser \<Rightarrow> JsonParser \<Rightarrow> bool) \<Rightarrow> JsonParser \<Rightarrow> json \<Rightarrow> JsonParser \<Rightarrow> bool" where
  "value_read K ps t ps1 \<longleftrightarrow> (\<exists>w v. ws w \<and> denotes v t \<and> moves K ps (w @ v) ps1)"

lemma value_read_shrinks: "value_read K ps t ps1 \<Longrightarrow> length (fst (jp_position ps1)) < length (fst (jp_position ps))"
  using denotes_nonempty by (fastforce simp: value_read_def moves_def)

lemma value_read_inside: "value_read K ps t ps1 \<Longrightarrow> inside cx ps \<Longrightarrow> inside cx ps1"
  using moves_inside by (auto simp: value_read_def)

lemma separated_shrinks: "separated K close ps ps1 \<Longrightarrow> length (fst (jp_position ps1)) \<le> length (fst (jp_position ps))"
  by (auto simp: separated_def moves_def)

lemma separated_inside: "separated K close ps ps1 \<Longrightarrow> inside cx ps \<Longrightarrow> inside cx ps1"
  using separated_shrinks by (fastforce simp: inside_def)

lemma array_rest_nil: "peek ps = CHR '']'' \<Longrightarrow> array_rest K ps [] ps"
  by (simp add: array_rest_def exI [of _ "[]"])

lemma object_rest_nil: "peek ps = CHR ''}'' \<Longrightarrow> object_rest K ps [] ps"
  by (simp add: object_rest_def exI [of _ "[]"])

lemma array_rest_step:
  assumes "peek ps \<noteq> CHR '']''" and "value_read K ps t ps1" and "separated K CHR '']'' ps1 ps2" and "array_rest K ps2 ts ps3"
  shows "array_rest K ps (t # ts) ps3"
proof -
  obtain w v where v: "ws w" "denotes v t" "moves K ps (w @ v) ps1" using assms(2) by (auto simp: value_read_def)
  obtain u where u: "peek ps3 = CHR '']''" "moves K ps2 u ps3"
      "if peek ps2 = CHR '']'' then u = [] \<and> ts = [] else denotes_items u ts" using assms(4) by (auto simp: array_rest_def)
  from assms(3) consider (close) w' where "ws w'" "moves K ps1 w' ps2" "peek ps2 = CHR '']''"
    | (comma) w' w'' where "ws w'" "ws w''" "moves K ps1 (w' @ '','' @ w'') ps2" "peek ps2 \<noteq> CHR '']''"
    by (auto simp: separated_def)
  then show ?thesis
  proof cases
    case close
    then have "moves K ps (w @ v @ w') ps3" using v(3) u moves_trans by (metis append.assoc append_Nil2)
    then show ?thesis using close u item [OF v(1,2) close(1)] assms(1) by (auto simp: array_rest_def)
  next
    case comma
    then have "denotes_items (w @ v @ w' @ '','' @ w'' @ u) (t # ts)"
      using u(3) items [OF v(1,2) comma(1)] leading_ws(1) by auto
    moreover have "moves K ps (w @ v @ w' @ '','' @ w'' @ u) ps3"
      using moves_trans [OF moves_trans [OF v(3) comma(3)] u(2)] by simp
    ultimately show ?thesis using u(1) assms(1) by (auto simp: array_rest_def)
  qed
qed

lemma object_rest_step:
  assumes "peek ps \<noteq> CHR ''}''" and "string_text key k" and "moves K ps (key @ w1 @ '':'') ps0" and "ws w1"
    and "value_read K ps0 t ps1" and "separated K CHR ''}'' ps1 ps2" and "object_rest K ps2 ms ps3"
  shows "object_rest K ps ((k, t) # ms) ps3"
proof -
  obtain w2 v where v: "ws w2" "denotes v t" "moves K ps0 (w2 @ v) ps1" using assms(5) by (auto simp: value_read_def)
  obtain u where u: "peek ps3 = CHR ''}''" "moves K ps2 u ps3"
      "if peek ps2 = CHR ''}'' then u = [] \<and> ms = [] else denotes_members u ms" using assms(7) by (auto simp: object_rest_def)
  note read = moves_trans [OF assms(3) v(3)]
  from assms(6) consider (close) w' where "ws w'" "moves K ps1 w' ps2" "peek ps2 = CHR ''}''"
    | (comma) w' w'' where "ws w'" "ws w''" "moves K ps1 (w' @ '','' @ w'') ps2" "peek ps2 \<noteq> CHR ''}''"
    by (auto simp: separated_def)
  then show ?thesis
  proof cases
    case close
    then have "moves K ps (key @ w1 @ '':'' @ w2 @ v @ w') ps3"
      using moves_trans [OF moves_trans [OF read close(2)] u(2)] u(3) by simp
    then show ?thesis
      using close u member [of "[]" key k w1 w2 v t w'] v assms(1,2,4) by (auto simp: object_rest_def)
  next
    case comma
    then have "denotes_members (key @ w1 @ '':'' @ w2 @ v @ w' @ '','' @ w'' @ u) ((k, t) # ms)"
      using u(3) members [of "[]" key k w1 w2 v t w' "w'' @ u" ms] leading_ws(2) v assms(2,4) by auto
    moreover have "moves K ps (key @ w1 @ '':'' @ w2 @ v @ w' @ '','' @ w'' @ u) ps3"
      using moves_trans [OF moves_trans [OF read comma(3)] u(2)] by simp
    ultimately show ?thesis using u(1) assms(1) by (auto simp: object_rest_def)
  qed
qed

text \<open>A whole container, from its opening to its closing bracket.\<close>

lemma array_read:
  assumes "moves K ps ''['' ps1" and "ws w" and "moves K ps1 w ps2" and "array_rest K ps2 ts ps3" and "moves K ps3 '']'' ps4"
  shows "value_read K ps (JArray ts) ps4"
proof -
  obtain u where u: "moves K ps2 u ps3" "if peek ps2 = CHR '']'' then u = [] \<and> ts = [] else denotes_items u ts"
    using assms(4) by (auto simp: array_rest_def)
  have "moves K ps (''['' @ (w @ u) @ '']'') ps4"
    using moves_trans [OF moves_trans [OF moves_trans [OF assms(1,3)] u(1)] assms(5)] by simp
  moreover have "denotes (''['' @ (w @ u) @ '']'') (JArray ts)"
  proof (cases "peek ps2 = CHR '']''")
    case True
    then show ?thesis using u(2) empty_array [OF assms(2)] by simp
  next
    case False
    then have "denotes_items u ts" using u(2) by simp
    then show ?thesis by (intro array leading_ws(1) assms(2))
  qed
  ultimately show ?thesis unfolding value_read_def using ws_append(2) by fastforce
qed

lemma object_read:
  assumes "moves K ps ''{'' ps1" and "ws w" and "moves K ps1 w ps2" and "object_rest K ps2 ms ps3" and "moves K ps3 ''}'' ps4"
  shows "value_read K ps (JObject ms) ps4"
proof -
  obtain u where u: "moves K ps2 u ps3" "if peek ps2 = CHR ''}'' then u = [] \<and> ms = [] else denotes_members u ms"
    using assms(4) by (auto simp: object_rest_def)
  have "moves K ps (''{'' @ (w @ u) @ ''}'') ps4"
    using moves_trans [OF moves_trans [OF moves_trans [OF assms(1,3)] u(1)] assms(5)] by simp
  moreover have "denotes (''{'' @ (w @ u) @ ''}'') (JObject ms)"
  proof (cases "peek ps2 = CHR ''}''")
    case True
    then show ?thesis using u(2) empty_object [OF assms(2)] by simp
  next
    case False
    then have "denotes_members u ms" using u(2) by simp
    then show ?thesis by (intro object leading_ws(2) assms(2))
  qed
  ultimately show ?thesis unfolding value_read_def using ws_append(2) by fastforce
qed


subsection \<open>Values that are skipped\<close>

lemma ok_array_loop:
  assumes "\<And>ps1. length (fst (jp_position ps1)) \<le> n \<Longrightarrow> ok (\<lambda>_ ps2. \<exists>t. value_read (kept cx) ps1 t ps2) (element ps1)"
  shows "length (fst (jp_position ps)) < fuel \<Longrightarrow> length (fst (jp_position ps)) \<le> n \<Longrightarrow>
    ok (\<lambda>_ ps1. \<exists>ts. array_rest (kept cx) ps ts ps1) (parser_array_loop fuel element cx ps)"
proof (induction fuel arbitrary: ps)
  case (Suc fuel)
  show ?case
    unfolding parser_array_loop.simps
  proof (rule ok_then [OF ok_Peek], clarify, intro ok_if ok_then [OF assms] ok_then [OF ok_separators(1)])
    fix ps1 ps2
    assume peek: "peek ps \<noteq> CHR '']''" and v: "\<exists>t. value_read (kept cx) ps t ps1" and sep: "separated (kept cx) CHR '']'' ps1 ps2"
    have "length (fst (jp_position ps2)) < length (fst (jp_position ps))"
      using v value_read_shrinks separated_shrinks [OF sep] by fastforce
    then have "ok (\<lambda>_ ps3. \<exists>ts. array_rest (kept cx) ps2 ts ps3) (parser_array_loop fuel element cx ps2)"
      using Suc.prems by (intro Suc.IH) auto
    then show "ok (\<lambda>_ ps3. \<exists>ts. array_rest (kept cx) ps ts ps3) (parser_array_loop fuel element cx ps2)"
      by (rule ok_mono) (use array_rest_step [OF peek _ sep] v in blast)
  qed (use Suc.prems array_rest_nil in \<open>auto intro!: ok_parses\<close>)
qed simp

text \<open>A key with its colon.\<close>

definition key_read :: "(JsonParser \<Rightarrow> JsonParser \<Rightarrow> bool) \<Rightarrow> JsonParser \<Rightarrow> string \<Rightarrow> JsonParser \<Rightarrow> bool" where
  "key_read K ps k ps1 \<longleftrightarrow> (\<exists>tok w. string_text tok k \<and> ws w \<and> moves K ps (tok @ w @ '':'') ps1)"

lemma key_read_shrinks: "key_read K ps k ps1 \<Longrightarrow> length (fst (jp_position ps1)) < length (fst (jp_position ps))"
  by (auto simp: key_read_def moves_def)

lemma object_rest_key:
  assumes "peek ps \<noteq> CHR ''}''" and "key_read K ps k ps0" and "value_read K ps0 t ps1" and "separated K CHR ''}'' ps1 ps2"
    and "object_rest K ps2 ms ps3"
  shows "object_rest K ps ((k, t) # ms) ps3"
  using assms object_rest_step unfolding key_read_def by blast

lemma ok_key:
  assumes "\<And>key ps1. key_read (kept cx) ps (os_text key) ps1 \<Longrightarrow> ok Q (f key ps1)"
  shows "ok Q (parser_bind Parser_RequireObjectKey (\<lambda>_.
            parser_bind (Parser_ParseString cx None) (\<lambda>key.
            parser_bind (Parser_SkipWhitespace cx) (\<lambda>_.
            parser_bind (Parser_Expect cx CHR '':'') (\<lambda>_. f key)))) ps)"
proof (rule ok_then [OF ok_RequireObjectKey], clarify,
    intro ok_then [OF ok_ParseString] ok_then [OF ok_SkipWhitespace] ok_then [OF ok_Expect] assms)
  fix key ps1 ps2 ps3
  assume a: "(\<exists>tok. string_text tok (os_text key) \<and> moves (kept cx) ps tok ps1) \<and> charged_ok cx None key ps1 \<and>
      (None \<noteq> None \<longrightarrow> os_charged key = os_capacity key)"
    and b: "\<exists>w. ws w \<and> moves (kept cx) ps1 w ps2" and c: "moves (kept cx) ps2 '':'' ps3"
  then obtain tok w where "string_text tok (os_text key)" "moves (kept cx) ps tok ps1" "ws w" "moves (kept cx) ps1 w ps2" by blast
  then show "key_read (kept cx) ps (os_text key) ps3"
    unfolding key_read_def using moves_trans [OF moves_trans] c by (metis append.assoc)
qed

lemma ok_object_loop:
  assumes "\<And>ps1. length (fst (jp_position ps1)) \<le> n \<Longrightarrow> ok (\<lambda>_ ps2. \<exists>t. value_read (kept cx) ps1 t ps2) (element ps1)"
  shows "length (fst (jp_position ps)) < fuel \<Longrightarrow> length (fst (jp_position ps)) \<le> n \<Longrightarrow>
    ok (\<lambda>_ ps1. \<exists>ms. object_rest (kept cx) ps ms ps1) (parser_object_loop fuel element cx ps)"
proof (induction fuel arbitrary: ps)
  case (Suc fuel)
  show ?case
    unfolding parser_object_loop.simps
  proof (rule ok_then [OF ok_Peek], clarify, intro ok_if ok_key ok_then [OF assms] ok_then [OF ok_separators(2)])
    fix key ps0 ps1 ps2
    assume peek: "peek ps \<noteq> CHR ''}''" and k: "key_read (kept cx) ps (os_text key) ps0"
      and v: "\<exists>t. value_read (kept cx) ps0 t ps1" and sep: "separated (kept cx) CHR ''}'' ps1 ps2"
    have "length (fst (jp_position ps2)) < length (fst (jp_position ps))"
      using key_read_shrinks [OF k] v value_read_shrinks separated_shrinks [OF sep] by fastforce
    then have "ok (\<lambda>_ ps3. \<exists>ms. object_rest (kept cx) ps2 ms ps3) (parser_object_loop fuel element cx ps2)"
      using Suc.prems by (intro Suc.IH) auto
    then show "ok (\<lambda>_ ps3. \<exists>ms. object_rest (kept cx) ps ms ps3) (parser_object_loop fuel element cx ps2)"
      by (rule ok_mono) (use object_rest_key [OF peek k _ sep] v in blast)
  qed (use Suc.prems object_rest_nil key_read_shrinks in \<open>fastforce intro!: ok_parses\<close>)+
qed simp

lemma value_read_ws:
  assumes "ws w" and "moves K ps w ps1" and "value_read K ps1 t ps2"
  shows "value_read K ps t ps2"
proof -
  obtain w' v where "ws w'" "denotes v t" "moves K ps1 (w' @ v) ps2" using assms(3) by (auto simp: value_read_def)
  then show ?thesis
    unfolding value_read_def using moves_trans [OF assms(2)] assms(1) by (intro exI [of _ "w @ w'"] exI [of _ v]) auto
qed

lemma value_readI: "denotes v t \<Longrightarrow> moves K ps v ps1 \<Longrightarrow> value_read K ps t ps1"
  unfolding value_read_def by (rule exI [of _ "[]"]) auto

text \<open>A container around a loop, whatever the loop computes.\<close>

lemma ok_array:
  assumes loop: "\<And>w ps1. moves (kept cx) ps (''['' @ w) ps1 \<Longrightarrow> ok (\<lambda>x ps2. \<exists>ts. array_rest K ps1 ts ps2 \<and> R x ts ps2) (loop ps1)"
    and cont: "\<And>x ts ps1 ps2. value_read K ps (JArray ts) ps2 \<Longrightarrow> R x ts ps1 \<Longrightarrow> moves (kept cx) ps1 '']'' ps2 \<Longrightarrow> ok Q (f x ps2)"
    and K: "\<And>a u b. moves (kept cx) a u b \<Longrightarrow> moves K a u b"
  shows "ok Q (parser_bind (Parser_Expect cx CHR ''['') (\<lambda>_. parser_bind (Parser_SkipWhitespace cx) (\<lambda>_.
    parser_bind loop (\<lambda>x. parser_bind (Parser_Expect cx CHR '']'') (\<lambda>_. f x)))) ps)"
proof (rule ok_then [OF ok_Expect], rule ok_then [OF ok_SkipWhitespace], elim exE conjE)
  fix ps1 ps2 w assume a: "moves (kept cx) ps ''['' ps1" "ws w" "moves (kept cx) ps1 w ps2"
  show "ok Q (parser_bind loop (\<lambda>x. parser_bind (Parser_Expect cx CHR '']'') (\<lambda>_. f x)) ps2)"
  proof (rule ok_then, rule loop [OF moves_trans [OF a(1,3)]], elim exE conjE, rule ok_then [OF ok_Expect])
    fix x ps3 ts ps4
    assume b: "array_rest K ps2 ts ps3" "R x ts ps3" "moves (kept cx) ps3 '']'' ps4"
    show "ok Q (f x ps4)" using cont [OF array_read [OF K [OF a(1)] a(2) K [OF a(3)] b(1) K [OF b(3)]] b(2,3)] .
  qed
qed

lemma ok_object:
  assumes loop: "\<And>w ps1. moves (kept cx) ps (''{'' @ w) ps1 \<Longrightarrow> ok (\<lambda>x ps2. \<exists>ms. object_rest K ps1 ms ps2 \<and> R x ms ps2) (loop ps1)"
    and cont: "\<And>x ms ps1 ps2. value_read K ps (JObject ms) ps2 \<Longrightarrow> R x ms ps1 \<Longrightarrow> moves (kept cx) ps1 ''}'' ps2 \<Longrightarrow> ok Q (f x ps2)"
    and K: "\<And>a u b. moves (kept cx) a u b \<Longrightarrow> moves K a u b"
  shows "ok Q (parser_bind (Parser_Expect cx CHR ''{'') (\<lambda>_. parser_bind (Parser_SkipWhitespace cx) (\<lambda>_.
    parser_bind loop (\<lambda>x. parser_bind (Parser_Expect cx CHR ''}'') (\<lambda>_. f x)))) ps)"
proof (rule ok_then [OF ok_Expect], rule ok_then [OF ok_SkipWhitespace], elim exE conjE)
  fix ps1 ps2 w assume a: "moves (kept cx) ps ''{'' ps1" "ws w" "moves (kept cx) ps1 w ps2"
  show "ok Q (parser_bind loop (\<lambda>x. parser_bind (Parser_Expect cx CHR ''}'') (\<lambda>_. f x)) ps2)"
  proof (rule ok_then, rule loop [OF moves_trans [OF a(1,3)]], elim exE conjE, rule ok_then [OF ok_Expect])
    fix x ps3 ms ps4
    assume b: "object_rest K ps2 ms ps3" "R x ms ps3" "moves (kept cx) ps3 ''}'' ps4"
    show "ok Q (f x ps4)" using cont [OF object_read [OF K [OF a(1)] a(2) K [OF a(3)] b(1) K [OF b(3)]] b(2,3)] .
  qed
qed

lemma bind_parses [simp]: "parser_bind m (\<lambda>_. parses ()) = m"
  by (rule ext, rename_tac ps, case_tac "m ps") (auto simp: parser_bind_def parses_def)

text \<open>A computation that reads a value and returns what \<open>F\<close> says of it.\<close>

definition gives :: "json_context \<Rightarrow> JsonParser \<Rightarrow> (json \<Rightarrow> 'a \<Rightarrow> bool) \<Rightarrow> decode_error + 'a \<times> JsonParser \<Rightarrow> bool" where
  "gives cx ps F r = ok (\<lambda>x ps1. \<exists>t. value_read (kept cx) ps t ps1 \<and> F t x) r"

abbreviation skips :: "json_context \<Rightarrow> JsonParser \<Rightarrow> decode_error + unit \<times> JsonParser \<Rightarrow> bool" where
  "skips cx ps \<equiv> gives cx ps (\<lambda>_ _. True)"

lemma gives_mono: "gives cx ps F r \<Longrightarrow> (\<And>t x. F t x \<Longrightarrow> G t x) \<Longrightarrow> gives cx ps G r"
  unfolding gives_def by (erule ok_mono) blast

lemma gives_then: "gives cx ps F (m ps) \<Longrightarrow> (\<And>t x. F t x \<Longrightarrow> G t (f x)) \<Longrightarrow> gives cx ps G (parser_bind m (\<lambda>x. parses (f x)) ps)"
  unfolding gives_def by (erule ok_then) (blast intro: ok_parses)

lemma gives_ws:
  assumes "\<And>w ps1. ws w \<Longrightarrow> moves (kept cx) ps w ps1 \<Longrightarrow> gives cx ps1 F (m ps1)"
  shows "gives cx ps F (parser_bind (Parser_SkipWhitespace cx) (\<lambda>_. m) ps)"
  unfolding gives_def
  by (rule ok_then [OF ok_SkipWhitespace], elim exE conjE, rule ok_mono [OF assms [unfolded gives_def]])
    (blast intro: value_read_ws)+

lemma gives_Peek: "gives cx ps F (f (peek ps) ps) \<Longrightarrow> gives cx ps F (parser_bind Parser_Peek f ps)"
  by (simp add: parser_bind_def Parser_Peek_def)

lemma gives_fails [simp]:
  "gives cx ps F (fails stage field msg ps)" "gives cx ps F (memory_error msg ps)" "gives cx ps F (incompatible field ps)"
  "gives cx ps F (duplicated field ps)" "gives cx ps F (string_exceeded field ps)"
  by (simp_all add: gives_def)

lemma gives_if: "(c \<Longrightarrow> gives cx ps F (a ps)) \<Longrightarrow> (\<not> c \<Longrightarrow> gives cx ps F (b ps)) \<Longrightarrow> gives cx ps F ((if c then a else b) ps)"
  by simp

lemma skips_containers:
  assumes "\<And>ps1. length (fst (jp_position ps1)) < fuel \<Longrightarrow> skips cx ps1 (element ps1)" and "length (fst (jp_position ps)) \<le> fuel"
  shows "skips cx ps (parser_bind (Parser_Expect cx CHR ''['') (\<lambda>_. parser_bind (Parser_SkipWhitespace cx) (\<lambda>_.
      parser_bind (parser_array_loop fuel element cx) (\<lambda>_. Parser_Expect cx CHR '']''))) ps)" (is ?A)
    and "skips cx ps (parser_bind (Parser_Expect cx CHR ''{'') (\<lambda>_. parser_bind (Parser_SkipWhitespace cx) (\<lambda>_.
      parser_bind (parser_object_loop fuel element cx) (\<lambda>_. Parser_Expect cx CHR ''}''))) ps)" (is ?B)
proof -
  have elem: "ok (\<lambda>_ ps2. \<exists>t. value_read (kept cx) ps1 t ps2) (element ps1)"
    if "length (fst (jp_position ps1)) \<le> fuel - 1" "0 < fuel" for ps1
    using that assms(1) [of ps1] by (simp add: gives_def)
  have len: "length (fst (jp_position ps1)) < fuel" if "moves (kept cx) ps (c # w) ps1" for c w ps1
    using that assms(2) by (simp add: moves_def)
  show ?A
    unfolding gives_def
    by (rule ok_array [where R = "\<lambda>_ _ _. True" and K = "kept cx" and f = "\<lambda>_. parses ()", unfolded bind_parses])
      (use len in \<open>auto intro!: ok_parses ok_mono [OF ok_array_loop [where n = "fuel - 1"]] elem dest!: len\<close>)
  show ?B
    unfolding gives_def
    by (rule ok_object [where R = "\<lambda>_ _ _. True" and K = "kept cx" and f = "\<lambda>_. parses ()", unfolded bind_parses])
      (use len in \<open>auto intro!: ok_parses ok_mono [OF ok_object_loop [where n = "fuel - 1"]] elem dest!: len\<close>)
qed

lemma skips_skip_value: "length (fst (jp_position ps)) < fuel \<Longrightarrow> skips cx ps (skip_value fuel cx depth ps)"
proof (induction fuel arbitrary: ps depth)
  case (Suc fuel)
  have tokens: "skips cx ps (parser_bind (Parser_ParseString cx None) (\<lambda>_. parses ()) ps)"
    "skips cx ps (parser_bind (Parser_ParseNumberToken cx) (\<lambda>_. parses ()) ps)"
    "skips cx ps (lexes (\<lambda>_. Inl JsonMalformed) ps)" "skips cx ps (ParseLiteral cx ''true'' ps)"
    "skips cx ps (ParseLiteral cx ''false'' ps)" "skips cx ps (ParseLiteral cx ''null'' ps)" for ps
    using null true false
    by (auto simp: gives_def lexes_def intro!: ok_then [OF ok_ParseString] ok_then [OF ok_NumberToken] ok_parses ok_mono [OF ok_Literal]
        intro: value_readI str number)
  show ?case
    unfolding skip_value.simps
  proof (rule gives_ws, goal_cases)
    case (1 w ps0)
    then have "length (fst (jp_position ps0)) \<le> fuel" using Suc.prems by (simp add: moves_def)
    note containers = skips_containers [OF Suc.IH this]
    show ?case
      by (intro gives_if gives_fails gives_Peek tokens containers)
  qed
qed (simp add: gives_def out_of_fuel_def)

lemma ok_SkipValue: "inside cx ps \<Longrightarrow> skips cx ps (Parser_SkipValue cx ps)"
  using skips_skip_value [of ps "json_fuel (dx_input cx)" cx 0]
  by (simp add: Parser_SkipValue_def inside_def json_fuel_def del: skip_value.simps)


subsection \<open>What a value of a column is\<close>

definition bigint_of :: "json \<Rightarrow> int option" where
  "bigint_of t = (case t of
     JNumber tok \<Rightarrow> if list_ex (\<lambda>c. c = CHR ''.'' \<or> c = CHR ''e'' \<or> c = CHR ''E'') tok then None else strtoll tok | _ \<Rightarrow> None)"

definition double_of :: "json \<Rightarrow> double option" where
  "double_of t = (case t of
     JNumber tok \<Rightarrow> if strtod tok = infinity \<or> strtod tok = negate infinity then None else Some (normal_zero (strtod tok))
   | _ \<Rightarrow> None)"

definition varchar_of :: "JsonDecodePlan \<Rightarrow> json \<Rightarrow> string option" where
  "varchar_of plan t = (case t of
     JString s \<Rightarrow> if length s \<le> unat (jd_max_string_bytes plan) then Some s else None | _ \<Rightarrow> None)"

definition boolean_of :: "json \<Rightarrow> bool option" where
  "boolean_of t = (case t of JBool b \<Rightarrow> Some b | _ \<Rightarrow> None)"

definition element_of :: "JsonDecodePlan \<Rightarrow> OutputValueType \<Rightarrow> json \<Rightarrow> TypedScalarValue option" where
  "element_of plan ty t =
     (if t = JNull then (if ot_element_nullable ty then Some (Scalar_Null (ot_element_kind ty)) else None)
      else case ot_element_kind ty of
        Kind_BIGINT \<Rightarrow> map_option Scalar_BigInt (bigint_of t)
      | Kind_VARCHAR \<Rightarrow> map_option Scalar_Varchar (varchar_of plan t)
      | Kind_BOOLEAN \<Rightarrow> map_option Scalar_Boolean (boolean_of t)
      | Kind_DOUBLE \<Rightarrow> map_option Scalar_Double (double_of t))"

definition column_of :: "JsonDecodePlan \<Rightarrow> JsonColumnPlan \<Rightarrow> json \<Rightarrow> TypedValue option" where
  "column_of plan column t =
     (let ty = jc_type column; k = ot_element_kind ty in
      if t = JNull then (if jc_nullable column then Some (Value_Null ty) else None)
      else if ot_shape ty = Shape_ARRAY then
        (case t of
           JArray ts \<Rightarrow> map_option (Value_Array k (ot_element_nullable ty)) (those (map (element_of plan ty) ts))
         | _ \<Rightarrow> None)
      else case k of
        Kind_BIGINT \<Rightarrow> map_option Value_BigInt (bigint_of t)
      | Kind_VARCHAR \<Rightarrow> map_option Value_Varchar (varchar_of plan t)
      | Kind_BOOLEAN \<Rightarrow> map_option Value_Boolean (boolean_of t)
      | Kind_DOUBLE \<Rightarrow> map_option Value_Double (double_of t))"

lemma of_JNull [simp]: "bigint_of JNull = None" "double_of JNull = None" "varchar_of plan JNull = None" "boolean_of JNull = None"
  by (simp_all add: bigint_of_def double_of_def varchar_of_def boolean_of_def)

lemma gives_rejected [simp]: "inside cx ps \<Longrightarrow> gives cx ps F (parser_bind (Parser_SkipValue cx) (\<lambda>_. incompatible field) ps)"
  unfolding gives_def by (rule ok_then [OF ok_SkipValue [unfolded gives_def]]) auto

lemma gives_number:
  assumes "\<And>tok ps1. json_number tok \<Longrightarrow> moves (kept cx) ps tok ps1 \<Longrightarrow> ok (\<lambda>x ps2. ps2 = ps1 \<and> F (JNumber tok) x) (f tok ps1)"
  shows "gives cx ps F (parser_bind (Parser_ParseNumberToken cx) f ps)"
  unfolding gives_def
  by (rule ok_then [OF ok_NumberToken]) (rule ok_mono [OF assms]; use value_readI number in blast)

lemma gives_ParseBigInt: "inside cx ps \<Longrightarrow> gives cx ps (\<lambda>t v. bigint_of t = Some v) (ParseBigInt cx column ps)"
  unfolding ParseBigInt_def
  by (intro gives_ws gives_Peek gives_if gives_rejected gives_number)
    (auto simp: bigint_of_def parses_def moves_inside split: option.splits)

lemma gives_ParseDouble: "inside cx ps \<Longrightarrow> gives cx ps (\<lambda>t v. double_of t = Some v) (ParseDouble cx column ps)"
  unfolding ParseDouble_def
  by (intro gives_ws gives_Peek gives_if gives_rejected gives_number)
    (auto simp: double_of_def parses_def moves_inside Let_def)

lemma gives_ParseBoolean: "inside cx ps \<Longrightarrow> gives cx ps (\<lambda>t v. boolean_of t = Some v) (ParseBoolean cx column ps)"
proof -
  have lit: "gives cx ps (\<lambda>t v. boolean_of t = Some v) (parser_bind (ParseLiteral cx (if b then ''true'' else ''false'')) (\<lambda>_. parses b) ps)"
    for ps b
    unfolding gives_def by (rule ok_then [OF ok_Literal])
      (auto simp: boolean_of_def intro!: ok_parses exI [of _ "JBool b"] intro: value_readI [OF true] value_readI [OF false] split: if_splits)
  show "inside cx ps \<Longrightarrow> gives cx ps (\<lambda>t v. boolean_of t = Some v) (ParseBoolean cx column ps)"
    unfolding ParseBoolean_def
    by (intro gives_ws gives_Peek gives_if gives_rejected) (use lit [of _ True] lit [of _ False] in \<open>auto simp: moves_inside\<close>)
qed

lemma gives_ParseVarchar:
  "inside cx ps \<Longrightarrow> gives cx ps (\<lambda>t s. varchar_of (dx_plan cx) t = Some (os_text s)) (ParseVarchar cx column ps)"
proof -
  have str: "gives cx ps (\<lambda>t s. varchar_of (dx_plan cx) t = Some (os_text s))
     (parser_bind (Parser_ParseString cx (Some column)) (\<lambda>s.
         if of_nat (length (os_text s)) > jd_max_string_bytes (dx_plan cx)
         then string_exceeded (jc_output_name column) else parses s) ps)" for ps
    unfolding gives_def
    by (rule ok_then [OF ok_ParseString])
      (auto simp: varchar_of_def charged_ok_def intro!: ok_parses exI [of _ "JString _"] intro: value_readI str)
  show "inside cx ps \<Longrightarrow> gives cx ps (\<lambda>t s. varchar_of (dx_plan cx) t = Some (os_text s)) (ParseVarchar cx column ps)"
    unfolding ParseVarchar_def
    by (intro gives_ws gives_Peek gives_if gives_rejected str) (auto simp: moves_inside)
qed

lemma normal_zero_twice [simp]: "normal_zero (normal_zero d) = normal_zero d"
  by (simp add: normal_zero_def double_zero_def)

lemma gives_ParseScalarElement:
  assumes "inside cx ps"
  shows "gives cx ps (\<lambda>t (v, _). element_of (dx_plan cx) (jc_type column) t = Some v) (ParseScalarElement cx column ps)"
  unfolding ParseScalarElement_def
  by (cases "ot_element_kind (jc_type column)")
    (auto simp: element_of_def intro!: gives_then [OF gives_ParseBigInt] gives_then [OF gives_ParseDouble]
        gives_then [OF gives_ParseBoolean] gives_then [OF gives_ParseVarchar] assms)

lemma gives_null:
  assumes "\<And>ps1. moves (kept cx) ps ''null'' ps1 \<Longrightarrow> ok (\<lambda>x ps2. ps2 = ps1 \<and> F JNull x) (m ps1)"
  shows "gives cx ps F (parser_bind (ParseLiteral cx ''null'') (\<lambda>_. m) ps)"
  unfolding gives_def by (rule ok_then [OF ok_Literal]) (rule ok_mono [OF assms]; use value_readI null in blast)


subsection \<open>Arrays and columns\<close>

lemma ok_ReserveArrayElement: "ok (\<lambda>_ ps1. counted cx ps ps1) (ReserveArrayElement cx count capacity ps)"
proof -
  have step: "ok (\<lambda>_ ps1. counted cx ps ps1)
      (parser_bind (ObserveCurrentMemory cx) (\<lambda>_. parses actual)
        (ps\<lparr>jp_peak_memory := max (max (jp_peak_memory ps) retained) co_live, jp_pending_array_memory := pending\<rparr>))"
    if "unat retained \<le> limit cx" "unat co_live \<le> limit cx" for actual :: u64 and pending retained co_live
    by (intro ok_then [OF ok_Observe] ok_parses)
      (use that in \<open>auto simp: counted_def kept_def grown_def mem_inv_def total_def wordarith word_le_nat_alt\<close>)
  show ?thesis
    unfolding ReserveArrayElement_def Let_def prod.case
    by (intro ok_if' ok_option) (auto intro!: step dest!: within_memory_Some)
qed

lemma those_Cons: "those (x # xs) = Some ys \<longleftrightarrow> (\<exists>y zs. x = Some y \<and> those xs = Some zs \<and> ys = y # zs)"
  by (cases x) (auto simp: map_option_case split: option.splits)

lemma value_read_after:
  assumes "moves K ps [] ps1" and "value_read K ps1 t ps2"
  shows "value_read K ps t ps2"
  using value_read_ws [OF _ assms] by simp

abbreviation elements_of :: "json_context \<Rightarrow> JsonColumnPlan \<Rightarrow> json list \<Rightarrow> TypedScalarValue list option" where
  "elements_of cx column ts \<equiv> those (map (element_of (dx_plan cx) (jc_type column)) ts)"

lemma gives_array_element:
  assumes "inside cx ps"
  shows "gives cx ps (\<lambda>t x. element_of (dx_plan cx) (jc_type column) t = Some (fst x))
    ((if c = CHR ''n'' then
       parser_bind (ParseLiteral cx ''null'') (\<lambda>_.
         if \<not> ot_element_nullable (jc_type column)
         then fails Stage_SCHEMA (jc_output_name column) ''required response array contains a null element''
         else parses (Scalar_Null (ot_element_kind (jc_type column)), 0))
     else ParseScalarElement cx column) ps)"
  by (intro gives_if gives_null gives_mono [OF gives_ParseScalarElement [OF assms]])
    (auto simp: element_of_def parses_def)

lemma ok_array_elements:
  "length (fst (jp_position ps)) < fuel \<Longrightarrow> inside cx ps \<Longrightarrow>
   ok (\<lambda>x ps1. \<exists>ts. array_rest (kept cx) ps ts ps1 \<and>
        (\<exists>es. fst x = elements @ es \<and> elements_of cx column ts = Some (map fst es)))
     (array_elements fuel cx column elements capacity ps)"
proof (induction fuel arbitrary: ps elements capacity)
  case (Suc fuel)
  show ?case
    unfolding array_elements.simps
  proof (rule ok_then [OF ok_Peek], clarify, intro ok_if ok_then [OF ok_Check] ok_then [OF ok_ReserveArrayElement], goal_cases)
    case 1
    then show ?case using array_rest_nil by (fastforce intro!: ok_parses)
  next
    case (2 c0 ps0 x ps1 capacity1 ps2)
    then have peek: "peek ps \<noteq> CHR '']''" and to2: "moves (kept cx) ps [] ps2"
      using counted_moves [OF 2(3)] moves_trans by force+
    then have "inside cx ps2" using Suc.prems(2) moves_inside by blast
    then show ?case
    proof (rule ok_then [OF gives_array_element [unfolded gives_def]], elim exE conjE, intro ok_then [OF ok_separators(1)])
      fix e :: "TypedScalarValue \<times> u64" and ps3 t ps4
      assume v: "value_read (kept cx) ps2 t ps3" and e: "element_of (dx_plan cx) (jc_type column) t = Some (fst e)"
        and sep: "separated (kept cx) CHR '']'' ps3 ps4"
      have read: "value_read (kept cx) ps t ps3" by (rule value_read_after [OF to2 v])
      have "length (fst (jp_position ps4)) < fuel" "inside cx ps4"
        using Suc.prems value_read_shrinks [OF read] separated_shrinks [OF sep] by (auto simp: inside_def)
      from Suc.IH [OF this] show "ok (\<lambda>x ps1. \<exists>ts. array_rest (kept cx) ps ts ps1 \<and>
          (\<exists>es. fst x = elements @ es \<and> elements_of cx column ts = Some (map fst es)))
        (array_elements fuel cx column (elements @ [e]) capacity1 ps4)"
      proof (rule ok_mono, elim exE conjE)
        fix x ps5 ts es
        assume "array_rest (kept cx) ps4 ts ps5" "fst x = (elements @ [e]) @ es" "elements_of cx column ts = Some (map fst es)"
        then show "\<exists>ts. array_rest (kept cx) ps ts ps5 \<and> (\<exists>es. fst x = elements @ es \<and> elements_of cx column ts = Some (map fst es))"
          using array_rest_step [OF peek read sep] e
          by (intro exI [of _ "t # ts"] conjI exI [of _ "e # es"]) (auto simp: those_Cons simp del: those.simps)
      qed
    qed
  qed
qed simp

lemma gives_ParseArray:
  assumes "inside cx ps"
  shows "gives cx ps (\<lambda>t x. \<exists>ts. t = JArray ts \<and> elements_of cx column ts = Some (map fst (fst x))) (ParseArray cx column ps)"
  unfolding ParseArray_def
proof (intro gives_ws gives_Peek gives_if gives_rejected, goal_cases)
  case (1 w ps1)
  then show ?case using assms moves_inside by blast
next
  case (2 w ps1)
  then have inside: "inside cx ps1" using assms moves_inside by blast
  show ?case
    unfolding gives_def
    by (rule ok_array [where R = "\<lambda>x ts _. elements_of cx column ts = Some (map fst (fst x))" and K = "kept cx"])
      (use inside in \<open>auto simp: inside_def json_fuel_def moves_def intro!: ok_parses ok_mono [OF ok_array_elements]
          simp del: array_elements.simps\<close>)
qed

text \<open>The value a slot holds for its column, as the row takes it over.\<close>

definition slot_value :: "OutputValueType \<Rightarrow> ParsedSlot \<Rightarrow> TypedValue" where
  "slot_value ty slot =
     (if \<not> sl_valid slot then Value_Null ty
      else if ot_shape ty = Shape_ARRAY
      then Value_Array (ot_element_kind ty) (ot_element_nullable ty) (map fst (sl_elements slot))
      else case ot_element_kind ty of
        Kind_BIGINT \<Rightarrow> Value_BigInt (sl_bigint_value slot)
      | Kind_VARCHAR \<Rightarrow> Value_Varchar (os_text (sl_varchar_value slot))
      | Kind_BOOLEAN \<Rightarrow> Value_Boolean (sl_boolean_value slot)
      | Kind_DOUBLE \<Rightarrow> Value_Double (sl_double_value slot))"

definition slot_filled :: "json_context \<Rightarrow> nat \<Rightarrow> json \<Rightarrow> ParsedSlot \<Rightarrow> bool" where
  "slot_filled cx i t slot \<longleftrightarrow> sl_seen slot \<and>
     (let column = jd_columns (dx_plan cx) ! i in column_of (dx_plan cx) column t = Some (slot_value (jc_type column) slot))"

lemmas filled_simps = slot_filled_def slot_value_def column_of_def Let_def

lemma slot_set: "slot_filled cx i t s \<Longrightarrow> \<exists>s1. slots[i := s] = slots[i := s1] \<and> slot_filled cx i t s1"
  by blast

lemma gives_ParseColumnValue:
  assumes "inside cx ps" and "sl_seen (slots ! i) \<or> slots ! i = empty_slot cx"
  shows "gives cx ps (\<lambda>t slots1. \<exists>s. slots1 = slots[i := s] \<and> slot_filled cx i t s) (ParseColumnValue cx i slots ps)"
proof (cases "sl_seen (slots ! i)")
  case False
  then have valid: "sl_valid (slots ! i)" using assms(2) by (simp add: empty_slot_def)
  show ?thesis
    unfolding ParseColumnValue_def Let_def
  proof (intro gives_if gives_fails gives_ws gives_Peek gives_null, goal_cases)
    case (1 w ps1 ps2)
    show ?case by (intro ok_if ok_fails ok_parses conjI refl slot_set) (simp add: filled_simps)
  next
    case (2 w ps1)
    then have inside: "inside cx ps1" using assms(1) moves_inside by blast
    show ?case
      unfolding case_prod_beta
      by (rule gives_then, rule gives_ParseArray [OF inside], rule slot_set) (use 2 valid in \<open>auto simp: filled_simps\<close>)
  next
    case (3 w ps1)
    then have inside: "inside cx ps1" using assms(1) moves_inside by blast
    show ?case
    proof (cases "ot_element_kind (jc_type (jd_columns (dx_plan cx) ! i))")
      case Kind_BIGINT
      show ?thesis unfolding Kind_BIGINT ValueKind.case
        by (rule gives_then, rule gives_ParseBigInt [OF inside], rule slot_set) (use Kind_BIGINT 3 valid in \<open>auto simp: filled_simps\<close>)
    next
      case Kind_VARCHAR
      show ?thesis unfolding Kind_VARCHAR ValueKind.case
        by (rule gives_then, rule gives_ParseVarchar [OF inside], rule slot_set) (use Kind_VARCHAR 3 valid in \<open>auto simp: filled_simps\<close>)
    next
      case Kind_BOOLEAN
      show ?thesis unfolding Kind_BOOLEAN ValueKind.case
        by (rule gives_then, rule gives_ParseBoolean [OF inside], rule slot_set) (use Kind_BOOLEAN 3 valid in \<open>auto simp: filled_simps\<close>)
    next
      case Kind_DOUBLE
      show ?thesis unfolding Kind_DOUBLE ValueKind.case
        by (rule gives_then, rule gives_ParseDouble [OF inside], rule slot_set) (use Kind_DOUBLE 3 valid in \<open>auto simp: filled_simps\<close>)
    qed
  qed
qed (simp add: ParseColumnValue_def Let_def)


subsection \<open>Members at paths\<close>

text \<open>The value at a path: every object on the way has exactly one member of the name.\<close>

fun at_path :: "string list \<Rightarrow> json \<Rightarrow> json option" where
  "at_path [] t = Some t"
| "at_path (k # ks) (JObject ms) = (case filter (\<lambda>m. fst m = k) ms of [m] \<Rightarrow> at_path ks (snd m) | _ \<Rightarrow> None)"
| "at_path (k # ks) _ = None"

lemma at_path_other: "k' \<noteq> k \<Longrightarrow> at_path (k' # q) (JObject ((k, t) # ms)) = at_path (k' # q) (JObject ms)"
  by simp

lemma at_path_only: "k \<notin> fst ` set ms \<Longrightarrow> at_path (k # q) (JObject ((k, t) # ms)) = at_path q t"
proof -
  assume "k \<notin> fst ` set ms"
  then have "filter (\<lambda>m. fst m = k) ms = []" by (auto simp: filter_empty_conv)
  then show ?thesis by simp
qed

lemma at_path_member: "at_path (k # q) (JObject ms) = Some t \<Longrightarrow> k \<in> fst ` set ms"
proof (rule ccontr)
  assume "at_path (k # q) (JObject ms) = Some t" and "k \<notin> fst ` set ms"
  moreover from this(2) have "filter (\<lambda>m. fst m = k) ms = []" by (auto simp: filter_empty_conv)
  ultimately show False by simp
qed

definition wanted :: "json_context \<Rightarrow> string list \<Rightarrow> bool" where
  "wanted cx path \<longleftrightarrow> (\<exists>c \<in> set (jd_columns (dx_plan cx)). IsPathPrefix path (jc_json_path c))"

lemma IsPathPrefix_iff: "IsPathPrefix p path \<longleftrightarrow> (\<exists>q. path = p @ q)"
  by (auto simp: IsPathPrefix_def) (metis append_take_drop_id)

lemma exact_columnD:
  "exact_column columns path = Some i \<Longrightarrow> i < length columns \<and> jc_json_path (columns ! i) = path"
proof -
  let ?is = "filter (\<lambda>i. IsPathPrefix path (jc_json_path (columns ! i)) \<and>
    length (jc_json_path (columns ! i)) = length path) [0..<length columns]"
  assume "exact_column columns path = Some i"
  then have "?is \<noteq> []" "i = last ?is" by (auto simp: exact_column_def split: list.splits)
  then have "i \<in> set ?is" using last_in_set by blast
  then show ?thesis by (auto simp: IsPathPrefix_iff)
qed

lemma unwanted:
  assumes "exact_column (jd_columns (dx_plan cx)) path = None" and "descendant_column (jd_columns (dx_plan cx)) path = None"
  shows "\<not> wanted cx path"
proof -
  have "\<not> IsPathPrefix path (jc_json_path (jd_columns (dx_plan cx) ! i))" if "i < length (jd_columns (dx_plan cx))" for i
    using assms that
    by (auto simp: exact_column_def descendant_column_def filter_empty_conv split: list.splits)
  then show ?thesis by (auto simp: wanted_def in_set_conv_nth)
qed

text \<open>The slots after the value at a path was read: untouched, or filled from the value at the path of the column.\<close>

definition filled :: "json_context \<Rightarrow> string list \<Rightarrow> json \<Rightarrow> ParsedSlot list \<Rightarrow> ParsedSlot list \<Rightarrow> bool" where
  "filled cx p t slots slots1 \<longleftrightarrow> length slots1 = length slots \<and>
     (\<forall>i < length slots. slots1 ! i = slots ! i \<or>
        (\<exists>q u. jc_json_path (jd_columns (dx_plan cx) ! i) = p @ q \<and> at_path q t = Some u \<and> slot_filled cx i u (slots1 ! i)))"

lemma filled_refl: "filled cx p t slots slots"
  by (simp add: filled_def)

lemma column_of_object: "column_of plan column (JObject ms) = None"
  by (auto simp: column_of_def Let_def bigint_of_def double_of_def varchar_of_def boolean_of_def split: ValueKind.splits)

lemma filled_step:
  assumes first: "filled cx (p @ [k]) t slots slots1" and rest: "filled cx p (JObject ms) slots1 slots2"
    and fresh: "k \<in> fst ` set ms \<Longrightarrow> \<not> wanted cx (p @ [k])" and n: "length slots = length (jd_columns (dx_plan cx))"
  shows "filled cx p (JObject ((k, t) # ms)) slots slots2"
  unfolding filled_def
proof (intro conjI allI impI)
  fix i assume i: "i < length slots"
  let ?path = "jc_json_path (jd_columns (dx_plan cx) ! i)"
  have want: "wanted cx (p @ [k])" if "?path = p @ k # q" for q
    using that i n nth_mem by (fastforce simp: wanted_def IsPathPrefix_iff)
  consider (tail) q u where "?path = p @ q" "at_path q (JObject ms) = Some u" "slot_filled cx i u (slots2 ! i)"
    | (head) q u where "?path = p @ k # q" "at_path q t = Some u" "slot_filled cx i u (slots2 ! i)"
    | (same) "slots2 ! i = slots ! i"
  proof (cases "slots2 ! i = slots1 ! i")
    case True
    then show ?thesis using first i that(2,3) by (auto simp: filled_def)
  next
    case False
    then show ?thesis using first rest i that(1) by (auto simp: filled_def)
  qed
  then show "slots2 ! i = slots ! i \<or> (\<exists>q u. ?path = p @ q \<and> at_path q (JObject ((k, t) # ms)) = Some u \<and> slot_filled cx i u (slots2 ! i))"
  proof cases
    case tail
    then have "q \<noteq> []" by (auto simp: slot_filled_def column_of_object Let_def)
    then obtain k' q' where q: "q = k' # q'" by (cases q) auto
    then have "k' \<noteq> k" using tail at_path_member want fresh by fastforce
    then have "at_path q (JObject ((k, t) # ms)) = Some u" using tail q at_path_other by simp
    then show ?thesis using tail by blast
  next
    case head
    then have "k \<notin> fst ` set ms" using want fresh by blast
    then show ?thesis using head at_path_only [of k ms q t] by fastforce
  qed simp
qed (use first rest in \<open>simp add: filled_def\<close>)


definition slots_ok :: "json_context \<Rightarrow> ParsedSlot list \<Rightarrow> bool" where
  "slots_ok cx slots \<longleftrightarrow> length slots = length (jd_columns (dx_plan cx)) \<and>
     list_all (\<lambda>s. sl_seen s \<or> s = empty_slot cx) slots"

lemma filled_slots_ok: "filled cx p t slots slots1 \<Longrightarrow> slots_ok cx slots \<Longrightarrow> slots_ok cx slots1"
  by (auto simp: filled_def slots_ok_def list_all_length) (metis slot_filled_def)

text \<open>The value of one member below \<open>p\<close>, with the loop over the members of an object there.\<close>

definition member_value ::
  "json_context \<Rightarrow> string list \<Rightarrow> string \<Rightarrow> string list \<Rightarrow> ParsedSlot list parser \<Rightarrow> ParsedSlot list
   \<Rightarrow> (string list \<times> ParsedSlot list) parser" where
  "member_value cx p k selected_keys inner slots =
     (let columns = jd_columns (dx_plan cx); here = p @ [k];
          exact = exact_column columns here; descendant = descendant_column columns here in
      if exact = None \<and> descendant = None
      then parser_bind (Parser_SkipValue cx) (\<lambda>_. parses (selected_keys, slots))
      else if k \<in> set selected_keys
      then duplicated (jc_output_name (columns ! the (if exact \<noteq> None then exact else descendant)))
      else parser_bind
        (case exact of
           Some index \<Rightarrow> ParseColumnValue cx index slots
         | None \<Rightarrow>
             parser_bind (Parser_SkipWhitespace cx) (\<lambda>_.
             parser_bind Parser_Peek (\<lambda>c.
               if c \<noteq> CHR ''{'' then
                 parser_bind (Parser_SkipValue cx) (\<lambda>_. incompatible (jc_output_name (columns ! the descendant)))
               else
                 parser_bind (Parser_Expect cx CHR ''{'') (\<lambda>_.
                 parser_bind (Parser_SkipWhitespace cx) (\<lambda>_.
                 parser_bind inner (\<lambda>slots.
                 parser_bind (Parser_Expect cx CHR ''}'') (\<lambda>_. parses slots)))))))
        (\<lambda>slots. parses (k # selected_keys, slots)))"

lemma selected_members_step:
  "selected_members (Suc fuel) cx p selected_keys slots =
     parser_bind Parser_Peek (\<lambda>c.
       if c = CHR ''}'' then parses slots
       else parser_bind Parser_RequireObjectKey (\<lambda>_.
            parser_bind (Parser_ParseString cx None) (\<lambda>key.
            parser_bind (Parser_SkipWhitespace cx) (\<lambda>_.
            parser_bind (Parser_Expect cx CHR '':'') (\<lambda>_.
            parser_bind (member_value cx p (os_text key) selected_keys
                (selected_members fuel cx (p @ [os_text key]) [] slots) slots)
              (\<lambda>x. parser_bind (ConsumeObjectSeparator cx) (\<lambda>_. selected_members fuel cx p (fst x) (snd x))))))))"
  unfolding selected_members.simps member_value_def Let_def case_prod_beta by (rule refl)

lemma gives_option:
  "(x = None \<Longrightarrow> gives cx ps F (a ps)) \<Longrightarrow> (\<And>y. x = Some y \<Longrightarrow> gives cx ps F (b y ps)) \<Longrightarrow>
   gives cx ps F ((case x of None \<Rightarrow> a | Some y \<Rightarrow> b y) ps)"
  by (cases x) auto

lemma gives_member:
  assumes "inside cx ps" and slots: "slots_ok cx slots"
    and inner: "\<And>ps1. length (fst (jp_position ps1)) < length (fst (jp_position ps)) \<Longrightarrow>
      ok (\<lambda>slots1 ps2. \<exists>ms. object_rest (kept cx) ps1 ms ps2 \<and> filled cx (p @ [k]) (JObject ms) slots slots1) (inner ps1)"
  shows "gives cx ps (\<lambda>t x. filled cx (p @ [k]) t slots (snd x) \<and> set sel \<subseteq> set (fst x) \<and>
      (wanted cx (p @ [k]) \<longrightarrow> k \<notin> set sel \<and> k \<in> set (fst x))) (member_value cx p k sel inner slots ps)"
proof -
  let ?columns = "jd_columns (dx_plan cx)" and ?F = "\<lambda>t slots1. filled cx (p @ [k]) t slots slots1"
  have exact: "gives cx ps ?F (ParseColumnValue cx i slots ps)" if "exact_column ?columns (p @ [k]) = Some i" for i
  proof -
    have i: "i < length slots" "jc_json_path (?columns ! i) = p @ [k]"
      using exact_columnD [OF that] slots by (auto simp: slots_ok_def)
    then have "sl_seen (slots ! i) \<or> slots ! i = empty_slot cx" using slots by (simp add: slots_ok_def list_all_length)
    from gives_ParseColumnValue [OF assms(1) this] show ?thesis
      by (rule gives_mono) (use i in \<open>auto simp: filled_def nth_list_update split: if_splits intro!: exI [of _ "[]"]\<close>)
  qed
  have below: "gives cx ps ?F
      (parser_bind (Parser_SkipWhitespace cx) (\<lambda>_. parser_bind Parser_Peek (\<lambda>c.
         if c \<noteq> CHR ''{'' then parser_bind (Parser_SkipValue cx) (\<lambda>_. incompatible (jc_output_name (?columns ! d)))
         else parser_bind (Parser_Expect cx CHR ''{'') (\<lambda>_. parser_bind (Parser_SkipWhitespace cx) (\<lambda>_.
              parser_bind inner (\<lambda>slots. parser_bind (Parser_Expect cx CHR ''}'') (\<lambda>_. parses slots)))))) ps)" for d
  proof (intro gives_ws gives_Peek gives_if gives_rejected, goal_cases)
    case (1 w ps1)
    then show ?case using assms(1) moves_inside by blast
  next
    case m: (2 w ps1)
    show ?case
      unfolding gives_def
      by (rule ok_object [where R = "\<lambda>x ms _. filled cx (p @ [k]) (JObject ms) slots x" and K = "kept cx"])
        (use m in \<open>auto intro!: ok_parses inner simp: moves_def\<close>)
  qed
  show ?thesis
    unfolding member_value_def Let_def
  proof (intro gives_if gives_fails, goal_cases)
    case 1
    then have "\<not> wanted cx (p @ [k])" using unwanted by blast
    then show ?case by (intro gives_then [OF ok_SkipValue]) (auto simp: assms(1) filled_refl)
  next
    case 2
    then show ?case by (intro gives_then [where F = ?F]) (rule gives_option, rule below, erule exact, auto)
  qed
qed

lemma ok_selected_members:
  "length (fst (jp_position ps)) < fuel \<Longrightarrow> inside cx ps \<Longrightarrow> slots_ok cx slots \<Longrightarrow>
   ok (\<lambda>slots1 ps1. \<exists>ms. object_rest (kept cx) ps ms ps1 \<and> filled cx p (JObject ms) slots slots1 \<and>
        (\<forall>k \<in> set sel. k \<in> fst ` set ms \<longrightarrow> \<not> wanted cx (p @ [k])))
     (selected_members fuel cx p sel slots ps)"
proof (induction fuel arbitrary: ps p sel slots)
  case (Suc fuel)
  let ?Q = "\<lambda>slots1 ps1. \<exists>ms. object_rest (kept cx) ps ms ps1 \<and> filled cx p (JObject ms) slots slots1 \<and>
      (\<forall>k \<in> set sel. k \<in> fst ` set ms \<longrightarrow> \<not> wanted cx (p @ [k]))"
  show ?case
    unfolding selected_members_step
  proof (rule ok_then [OF ok_Peek], clarify, intro ok_if ok_key)
    fix key ps1 assume peek: "peek ps \<noteq> CHR ''}''" and key: "key_read (kept cx) ps (os_text key) ps1"
    let ?k = "os_text key"
    have inside: "inside cx ps1" using key_read_shrinks [OF key] Suc.prems(2) by (simp add: inside_def)
    have inner: "ok (\<lambda>slots1 ps3. \<exists>ms. object_rest (kept cx) ps2 ms ps3 \<and> filled cx (p @ [?k]) (JObject ms) slots slots1)
        (selected_members fuel cx (p @ [?k]) [] slots ps2)" if "length (fst (jp_position ps2)) < length (fst (jp_position ps1))" for ps2
      by (rule ok_mono [OF Suc.IH [of ps2 slots "p @ [?k]" "[]"]])
        (use that key_read_shrinks [OF key] Suc.prems in \<open>auto simp: inside_def\<close>)
    show "ok ?Q (parser_bind (member_value cx p ?k sel (selected_members fuel cx (p @ [?k]) [] slots) slots)
        (\<lambda>x. parser_bind (ConsumeObjectSeparator cx) (\<lambda>_. selected_members fuel cx p (fst x) (snd x))) ps1)"
    proof (rule ok_then, rule gives_member [OF inside Suc.prems(3) inner, unfolded gives_def, where sel = sel], assumption,
        elim exE conjE, rule ok_then [OF ok_separators(2)])
      fix x ps2 t ps3
      assume v: "value_read (kept cx) ps1 t ps2" and head: "filled cx (p @ [?k]) t slots (snd x)"
        and sel: "set sel \<subseteq> set (fst x)" "wanted cx (p @ [?k]) \<longrightarrow> ?k \<notin> set sel \<and> ?k \<in> set (fst x)"
        and sep: "separated (kept cx) CHR ''}'' ps2 ps3"
      have "length (fst (jp_position ps3)) < fuel" "inside cx ps3"
        using Suc.prems key_read_shrinks [OF key] value_read_shrinks [OF v] separated_shrinks [OF sep] by (auto simp: inside_def)
      from Suc.IH [OF this filled_slots_ok [OF head Suc.prems(3)]] show "ok ?Q (selected_members fuel cx p (fst x) (snd x) ps3)"
      proof (rule ok_mono, elim exE conjE)
        fix slots1 ps4 ms
        assume rest: "object_rest (kept cx) ps3 ms ps4" "filled cx p (JObject ms) (snd x) slots1"
          and fresh: "\<forall>k \<in> set (fst x). k \<in> fst ` set ms \<longrightarrow> \<not> wanted cx (p @ [k])"
        have "filled cx p (JObject ((?k, t) # ms)) slots slots1"
          by (rule filled_step [OF head rest(2)]) (use fresh sel(2) Suc.prems(3) in \<open>auto simp: slots_ok_def\<close>)
        moreover have "\<forall>k \<in> set sel. k \<in> fst ` set ((?k, t) # ms) \<longrightarrow> \<not> wanted cx (p @ [k])"
          using fresh sel by auto
        ultimately show "?Q slots1 ps4" using object_rest_key [OF peek key v sep rest(1)] by blast
      qed
    qed
  qed (use object_rest_nil filled_refl in \<open>fastforce intro!: ok_parses\<close>)
qed simp

lemma gives_ParseSelectedObject:
  assumes "inside cx ps" and "slots_ok cx slots"
  shows "gives cx ps (\<lambda>t slots1. filled cx [] t slots slots1) (ParseSelectedObject cx slots ps)"
  unfolding ParseSelectedObject_def gives_def
  by (rule ok_object [where R = "\<lambda>x ms _. filled cx [] (JObject ms) slots x" and K = "kept cx"])
    (use assms in \<open>auto simp: inside_def json_fuel_def moves_def intro!: ok_parses ok_mono [OF ok_selected_members]
       simp del: selected_members.simps\<close>)

end
