(* ===== verification/Json_Doubles.thy ===== *)
theory Json_Doubles
  imports Complex_Main Json_Decoder
begin

text \<open>
  The model of \<open>std::strtod\<close> returns an infinity or a finite number: the quotient of the decimal numerator and denominator
  is below the next power of two, so the rounded significand fits 53 bits and the exponent field stays below 2047.
\<close>

unbundle bit_operations_syntax

lemma bit_length_bounds: "n < 2 ^ bit_length n" "n \<noteq> 0 \<Longrightarrow> 2 ^ (bit_length n - 1) \<le> n \<and> bit_length n \<noteq> 0"
proof (induction n rule: bit_length.induct)
  case (1 n)
  show "n < 2 ^ bit_length n"
  proof (cases "n = 0")
    case False
    then have "n div 2 < 2 ^ bit_length (n div 2)" by (rule 1)
    then show ?thesis using False by (subst bit_length.simps) simp
  qed simp
  show "2 ^ (bit_length n - 1) \<le> n \<and> bit_length n \<noteq> 0" if n: "n \<noteq> 0"
  proof (cases "n div 2 = 0")
    case True
    then have "n = 1" using n by simp
    then show ?thesis by (simp add: bit_length.simps)
  next
    case False
    then obtain b where b: "bit_length (n div 2) = Suc b" "2 ^ b \<le> n div 2" using 1(2) [OF n] by (cases "bit_length (n div 2)") auto
    then show ?thesis using n by (subst (1 2) bit_length.simps) simp
  qed
qed

lemma scaled: "num * 2 ^ nat (- k) < den * 2 ^ nat k \<longleftrightarrow> real num < real den * 2 powi k"
proof (cases "k \<ge> 0")
  case True
  have "num < den * 2 ^ nat k \<longleftrightarrow> real num < real (den * 2 ^ nat k)" by (simp only: of_nat_less_iff)
  then show ?thesis using True by (simp add: power_int_def)
next
  case False
  have "num * 2 ^ nat (- k) < den \<longleftrightarrow> real (num * 2 ^ nat (- k)) < real den" by (simp only: of_nat_less_iff)
  then show ?thesis using False by (simp add: power_int_def field_simps)
qed

lemma hi_bound:
  assumes "num \<noteq> 0" and "den \<noteq> 0" and "guess = int (bit_length num) - int (bit_length den)"
    and "hi = (if den * 2 ^ nat guess \<le> num * 2 ^ nat (- guess) then guess else guess - 1)"
  shows "real num < real den * 2 powi (hi + 1)"
proof (cases "den * 2 ^ nat guess \<le> num * 2 ^ nat (- guess)")
  case True
  have "real num < 2 ^ bit_length num" using bit_length_bounds(1) [of num] by (metis of_nat_less_iff of_nat_numeral of_nat_power)
  also have "(2 :: real) ^ bit_length num = 2 ^ (bit_length den - 1) * 2 powi (guess + 1)"
    using assms(3) bit_length_bounds(2) [OF assms(2)] by (simp flip: power_int_of_nat add: power_int_add [symmetric] of_nat_diff)
  also have "\<dots> \<le> real den * 2 powi (guess + 1)"
    using bit_length_bounds(2) [OF assms(2)] by (intro mult_right_mono) (metis of_nat_le_iff of_nat_numeral of_nat_power, simp)
  finally show ?thesis using assms(4) True by simp
next
  case False
  then show ?thesis using assms(4) scaled [of num guess den] by simp
qed

lemma round_bound: "b \<noteq> 0 \<Longrightarrow> a < 2 ^ 53 * b \<Longrightarrow> round_half_even a b \<le> 2 ^ 53"
proof -
  assume "b \<noteq> 0" "a < 2 ^ 53 * b"
  then have "a div b < 2 ^ 53" by (simp add: less_mult_imp_div_less)
  then show ?thesis by (simp add: round_half_even_def Let_def)
qed

lemma finite_bits:
  assumes "b < 2047 * 2 ^ 52"
  shows "isfinite (of_nat b)"
proof -
  let ?x = "drop_bit 52 (of_nat b :: u64)"
  have "unat (of_nat b :: u64) = b" using assms by (simp add: unat_of_nat)
  moreover have "unat ?x = unat (of_nat b :: u64) div 2 ^ 52" by (rule trans [OF unat_drop_bit_eq drop_bit_eq_div])
  ultimately have small: "unat ?x < 2047" using less_mult_imp_div_less [OF assms] by simp
  have "?x AND 0x7ff = take_bit 11 ?x" by (simp add: take_bit_eq_mask mask_eq_exp_minus_1)
  moreover have "unat (take_bit 11 ?x) = unat ?x mod 2 ^ 11" by (rule trans [OF unsigned_take_bit_eq take_bit_eq_mod])
  ultimately have "unat (?x AND 0x7ff) = unat ?x mod 2 ^ 11" by simp
  then have "unat (?x AND 0x7ff) < 2047" using small by simp
  then show ?thesis by (auto simp: isfinite_def)
qed

lemma binary64_finite:
  assumes "den \<noteq> 0"
  shows "binary64 num den = infinity \<or> isfinite (binary64 num den)"
proof (cases "num = 0")
  case False
  define guess where "guess = int (bit_length num) - int (bit_length den)"
  define hi where "hi = (if den * 2 ^ nat guess \<le> num * 2 ^ nat (- guess) then guess else guess - 1)"
  define ex where "ex = max (hi - 52) (- 1074)"
  define n where "n = round_half_even (num * 2 ^ nat (- ex)) (den * 2 ^ nat ex)"
  have "real num < real den * 2 powi (hi + 1)" by (rule hi_bound [OF False assms guess_def hi_def])
  also have "\<dots> \<le> real den * 2 powi (53 + ex)" by (intro mult_left_mono power_int_increasing) (auto simp: ex_def)
  also have "\<dots> = real (2 ^ 53 * den) * 2 powi ex" by (simp add: power_int_add)
  finally have "num * 2 ^ nat (- ex) < 2 ^ 53 * den * 2 ^ nat ex" by (simp only: scaled)
  then have "n \<le> 2 ^ 53" unfolding n_def by (intro round_bound) (use assms in \<open>simp_all add: mult.assoc\<close>)
  define m where "m = (if n = 2 ^ 53 then (2 ^ 52, ex + 1) else (n, ex))"
  have m: "fst m < 2 ^ 53" "snd m \<ge> - 1074" using \<open>n \<le> 2 ^ 53\<close> by (auto simp: m_def ex_def)
  have "binary64 num den = (if snd m > 971 then infinity
      else of_nat (if fst m < 2 ^ 52 then fst m else nat (snd m + 1075) * 2 ^ 52 + (fst m - 2 ^ 52)))"
    using False unfolding binary64_def guess_def [symmetric] hi_def [symmetric] ex_def [symmetric] n_def [symmetric] m_def [symmetric] Let_def
    by (simp add: case_prod_beta)
  moreover have "isfinite (of_nat (if fst m < 2 ^ 52 then fst m else nat (snd m + 1075) * 2 ^ 52 + (fst m - 2 ^ 52)))"
    if "\<not> snd m > 971"
  proof (rule finite_bits)
    have "nat (snd m + 1075) \<le> 2046" using that by simp
    then have "nat (snd m + 1075) * 2 ^ 52 \<le> 2046 * 2 ^ 52" by (rule mult_right_mono) simp
    then show "(if fst m < 2 ^ 52 then fst m else nat (snd m + 1075) * 2 ^ 52 + (fst m - 2 ^ 52)) < 2047 * 2 ^ 52"
      using m(1) by auto
  qed
  ultimately show ?thesis by auto
qed (simp add: binary64_def canonical_double)

lemma negate_finite: "isfinite (negate d) = isfinite d"
proof -
  have "drop_bit 52 (negate d) AND 0x7ff = drop_bit 52 d AND 0x7ff"
    by (simp only: negate_def drop_bit_xor bit.conj_xor_distrib2) simp
  then show ?thesis by (simp add: isfinite_def)
qed

lemma strtod_finite: "strtod tok = infinity \<or> strtod tok = negate infinity \<or> isfinite (strtod tok)"
proof -
  obtain neg m p where "decimal_parts tok = (neg, m, p)" by (cases "decimal_parts tok") auto
  then show ?thesis
    using binary64_finite [of "10 ^ nat (- p)" "m * 10 ^ nat p"] by (auto simp: strtod_def Let_def negate_finite)
qed

end
