(* ===== verification/Json_Pages.thy ===== *)
theory Json_Pages
  imports Json_Rows Json_Doubles
begin

text \<open>
  The records of a page and the memory they retain. The rows of a decoded page are the declared records of a tree the
  document denotes, in order, each with the values at its declared paths; the memory that is reported as retained is
  exactly the capacity of the vectors and strings behind them, and never above the observed peak or the budget.
\<close>

subsection \<open>Memory of a row\<close>

lemma CheckedMultiply_Some: "CheckedMultiply a b = Some c \<Longrightarrow> unat c = unat a * unat b"
proof -
  assume "CheckedMultiply a b = Some c"
  then have c: "c = a * b" "a = 0 \<or> b \<le> uint64_max div a" by (auto simp: CheckedMultiply_def split: if_splits)
  have "unat a * unat b < 2 ^ LENGTH(64)"
  proof (cases "a = 0")
    case False
    then have "unat b \<le> unat uint64_max div unat a" using c(2) by (simp add: word_le_nat_alt unat_div)
    then have "unat a * unat b \<le> unat uint64_max" by (rule le_trans [OF mult_le_mono2 times_div_less_eq_dividend])
    then show ?thesis by (rule le_less_trans [OF _ unsigned_less])
  qed simp
  then show ?thesis using c(1) by (simp add: unat_word_ariths)
qed

definition element_bytes :: "TypedScalarValue \<Rightarrow> u64 \<Rightarrow> nat" where
  "element_bytes e capacity = (if ts_kind e = Kind_VARCHAR \<and> ts_valid e then unat capacity else 0)"

definition value_bytes :: "json_context \<Rightarrow> stored_value \<Rightarrow> nat" where
  "value_bytes cx v = unat (sv_varchar_capacity v) +
     unat (sv_elements_capacity v) * unat (js_sizeof_TypedScalarValue (dx_storage cx)) +
     sum_list (map2 element_bytes (tv_elements (sv_value v)) (sv_element_capacities v))"

definition row_bytes :: "json_context \<Rightarrow> TypedRow \<Rightarrow> nat" where
  "row_bytes cx row = unat (rw_capacity row) * unat (js_sizeof_TypedValue (dx_storage cx)) +
     sum_list (map (value_bytes cx) (rw_values row))"

text \<open>Totals of a row after \<open>n\<close> more bytes were charged, whether as strings or as arrays.\<close>

fun charged_by :: "nat \<Rightarrow> u64 \<times> u64 \<times> u64 \<Rightarrow> u64 \<times> u64 \<times> u64 \<Rightarrow> bool" where
  "charged_by n (m, s, a) (m1, s1, a1) \<longleftrightarrow> unat m1 = unat m + n \<and> unat s1 + unat a1 = unat s + unat a + n"

lemma charged_by_trans: "charged_by n x y \<Longrightarrow> charged_by k y z \<Longrightarrow> charged_by (n + k) x z"
  by (cases x; cases y; cases z) auto

lemma charged_by_refl [simp]: "charged_by 0 x x"
  by (cases x) simp

lemma ok_RequireMemory: "ok (\<lambda>x ps1. ps1 = ps \<and> unat x = unat current + unat a) (RequireMemory current a most ps)"
  by (auto simp: RequireMemory_def parses_def CheckedAdd_Some split: option.splits)

lemma ok_charge_string:
  "ok (\<lambda>totals1 ps1. ps1 = ps \<and> charged_by (unat bytes) totals totals1) (charge_string cx bytes totals ps)"
  unfolding charge_string_def case_prod_beta
  by (rule ok_then [OF ok_RequireMemory]) (cases totals; auto simp: parses_def CheckedAdd_Some split: option.splits)

lemma ok_charge_elements:
  "ok (\<lambda>totals1 ps1. ps1 = ps \<and> charged_by (sum_list (map (\<lambda>e. element_bytes (fst e) (snd e)) es)) totals totals1)
     (charge_elements es cx totals ps)"
proof (induction es arbitrary: totals)
  case (Cons e es)
  have head: "ok (\<lambda>totals1 ps1. ps1 = ps \<and> charged_by (element_bytes (fst e) (snd e)) totals totals1)
     ((if ts_kind (fst e) = Kind_VARCHAR \<and> ts_valid (fst e) then charge_string cx (snd e) totals else parses totals) ps)"
    using ok_charge_string [of ps "snd e" totals cx] by (auto simp: element_bytes_def parses_def)
  show ?case unfolding charge_elements.simps
    by (rule ok_then, rule head, clarify, rule ok_mono [OF Cons]) (use charged_by_trans in fastforce)
qed (simp add: parses_def)

lemma ok_charge_array:
  "ok (\<lambda>totals1 ps1. ps1 = ps \<and> charged_by (unat (sl_elements_capacity slot) * unat (js_sizeof_TypedScalarValue (dx_storage cx)) +
       sum_list (map (\<lambda>e. element_bytes (fst e) (snd e)) (sl_elements slot))) totals totals1) (charge_array cx slot totals ps)"
proof -
  obtain m s a where totals: "totals = (m, s, a)" by (cases totals) auto
  show ?thesis
    unfolding charge_array_def totals prod.case
    by (auto split: option.splits simp: CheckedAdd_Some dest!: CheckedMultiply_Some
      intro!: ok_then [OF ok_RequireMemory] ok_mono [OF ok_charge_elements] dest: charged_by.elims)
qed


lemma sum_zip: "sum_list (map (\<lambda>e. element_bytes (fst e) (snd e)) es) = sum_list (map2 element_bytes (map fst es) (map snd es))"
  by (induction es) auto

lemma stored_value_of [simp]: "sv_value (scalar_stored v c) = v"
  by (simp add: scalar_stored_def)

lemma bytes_simps [simp]:
  "value_bytes cx (scalar_stored (Value_Null t) 0) = 0" "value_bytes cx (scalar_stored (Value_BigInt i) 0) = 0"
  "value_bytes cx (scalar_stored (Value_Boolean b) 0) = 0" "value_bytes cx (scalar_stored (Value_Double d) 0) = 0"
  "value_bytes cx (scalar_stored (Value_Varchar s) c) = unat c"
  "value_bytes cx \<lparr>sv_value = Value_Array k en (map fst es), sv_varchar_capacity = 0, sv_elements_capacity = n,
     sv_element_capacities = map snd es\<rparr> =
   unat n * unat (js_sizeof_TypedScalarValue (dx_storage cx)) + sum_list (map (\<lambda>e. element_bytes (fst e) (snd e)) es)"
  by (simp_all add: value_bytes_def scalar_stored_def value_constructors sum_zip)

definition took_values ::
  "json_context \<Rightarrow> (JsonColumnPlan \<times> ParsedSlot) list \<Rightarrow> stored_value list \<times> u64 \<times> u64 \<times> u64 \<Rightarrow>
   stored_value list \<times> u64 \<times> u64 \<times> u64 \<Rightarrow> bool" where
  "took_values cx xs x y \<longleftrightarrow> list_all (\<lambda>(c, slot). sl_seen slot) xs \<and>
     (\<exists>vs. fst y = fst x @ vs \<and> map sv_value vs = map (\<lambda>(c, slot). slot_value (jc_type c) slot) xs \<and>
        charged_by (sum_list (map (value_bytes cx) vs)) (snd x) (snd y))"

lemma took_values_step:
  assumes "took_values cx xs (vs @ [v], totals1) y" and "charged_by (value_bytes cx v) totals totals1"
    and "sl_seen (snd x)" and "sv_value v = slot_value (jc_type (fst x)) (snd x)"
  shows "took_values cx (x # xs) (vs, totals) y"
proof -
  obtain ws where "fst y = vs @ v # ws" "map sv_value ws = map (\<lambda>(c, slot). slot_value (jc_type c) slot) xs"
      "charged_by (sum_list (map (value_bytes cx) ws)) totals1 (snd y)" using assms(1) by (auto simp: took_values_def)
  moreover have "list_all (\<lambda>(c, slot). sl_seen slot) (x # xs)" using assms(1,3) by (cases x) (simp add: took_values_def)
  ultimately show ?thesis
    unfolding took_values_def using charged_by_trans [OF assms(2)] assms(4)
    by (intro conjI exI [of _ "v # ws"]) (auto simp: case_prod_beta)
qed

lemma ok_row_values: "ok (\<lambda>y ps1. ps1 = ps \<and> took_values cx xs (vs, totals) y) (row_values xs cx vs totals ps)"
proof (induction xs arbitrary: vs totals)
  case (Cons x xs)
  let ?t = "jc_type (fst x)" and ?Q = "\<lambda>y ps1. ps1 = ps \<and> took_values cx (x # xs) (vs, totals) y"
  have plain: "ok ?Q (row_values xs cx (vs @ [v]) totals ps)"
    if "value_bytes cx v = 0" "sl_seen (snd x)" "sv_value v = slot_value ?t (snd x)" for v
    by (rule ok_mono [OF Cons]) (use that took_values_step [of cx xs vs v totals _ totals x] in simp)
  have charged: "ok ?Q (parser_bind m (row_values xs cx (vs @ [v])) ps)"
    if "ok (\<lambda>totals1 ps1. ps1 = ps \<and> charged_by (value_bytes cx v) totals totals1) (m ps)" "sl_seen (snd x)"
      "sv_value v = slot_value ?t (snd x)" for m v
    by (rule ok_then, rule that(1), clarify, rule ok_mono [OF Cons]) (use that(2,3) took_values_step [of cx xs vs v _ _ totals x] in auto)
  show ?case
    unfolding row_values.simps Let_def
    by (cases "ot_shape ?t"; cases "ot_element_kind ?t")
      (auto simp: slot_value_def intro!: plain charged ok_mono [OF ok_charge_string] ok_mono [OF ok_charge_array])
qed (simp add: parses_def took_values_def)


subsection \<open>Records\<close>

lemma ok_stage_vector:
  "ok (\<lambda>x ps1. counted cx ps ps1 \<and> unat (snd x) = unat (fst x) * unat each) (stage_vector cx count allocate each e1 e2 ps)"
proof -
  have step: "ok (\<lambda>x ps1. counted cx ps ps1 \<and> unat (snd x) = unat (fst x) * unat each)
      (parser_bind (ReconcileStructuralMemory cx reserved actual) (\<lambda>_. parses (capacity, actual)) ps1)"
    if "counted cx ps ps1" "unat reserved \<le> unat (jp_pending_structural_memory ps1)" "unat actual = unat capacity * unat each"
    for reserved actual capacity ps1
    by (rule ok_then, rule ok_ReconcileStructuralMemory [OF that(2)]) (use that counted_trans in \<open>auto intro!: ok_parses\<close>)
  show ?thesis
    unfolding stage_vector_def
    by (auto split: option.splits dest!: CheckedMultiply_Some intro!: step ok_then [OF ok_ReserveStructuralMemory])
qed

lemma ok_settle_row:
  assumes "charged_by n (value_storage, 0, 0) totals"
  shows "ok (\<lambda>_ ps1. grown cx ps ps1 \<and> jp_position ps1 = jp_position ps \<and>
      unat (jp_decoded_memory ps1) = unat (jp_decoded_memory ps) + unat value_storage + n)
    (settle_row cx slot_storage value_storage totals ps)"
proof -
  obtain m s a where totals: "totals = (m, s, a)" by (cases totals) auto
  then have n: "unat m = unat value_storage + n" "unat s + unat a = n" using assms by auto
  show ?thesis
    unfolding settle_row_def totals prod.case
  proof (rule ok_if', simp, rule ok_then [OF ok_RequireMemory], goal_cases)
    case (1 updated ps1)
    have "unat (jp_pending_string_memory ps - s) + unat s = unat (jp_pending_string_memory ps)"
      "unat (jp_pending_array_memory ps - a) + unat a = unat (jp_pending_array_memory ps)"
      "unat (jp_pending_structural_memory ps - value_storage - slot_storage) + unat value_storage
         \<le> unat (jp_pending_structural_memory ps)"
      using 1(1) by (auto simp: wordarith not_less word_le_nat_alt)
    then show ?case using 1(2) n by (auto simp: grown_def mem_inv_def total_def)
  qed
qed

text \<open>The values of a record: for every column the value at its path.\<close>

definition record_of :: "JsonDecodePlan \<Rightarrow> json \<Rightarrow> TypedValue list option" where
  "record_of plan t = those (map (\<lambda>c. Option.bind (at_path (jc_json_path c) t) (column_of plan c)) (jd_columns plan))"

lemma those_nth:
  "length xs = length ys \<Longrightarrow> (\<And>i. i < length xs \<Longrightarrow> xs ! i = Some (ys ! i)) \<Longrightarrow> those xs = Some ys"
proof (induction xs ys rule: list_induct2)
  case (Cons x xs y ys)
  have "x = Some y" using Cons.prems [of 0] by simp
  moreover have "those xs = Some ys" using Cons.prems [of "Suc _"] by (intro Cons.IH) auto
  ultimately show ?case by simp
qed simp

lemma filled_record:
  assumes "filled cx [] t (replicate (length (jd_columns (dx_plan cx))) (empty_slot cx)) slots"
    and "list_all (\<lambda>(c, slot). sl_seen slot) (zip (jd_columns (dx_plan cx)) slots)"
  shows "record_of (dx_plan cx) t = Some (map (\<lambda>(c, slot). slot_value (jc_type c) slot) (zip (jd_columns (dx_plan cx)) slots))"
  unfolding record_of_def
proof (rule those_nth)
  let ?cs = "jd_columns (dx_plan cx)"
  have len: "length slots = length ?cs" using assms(1) by (simp add: filled_def)
  then show "length (map (\<lambda>c. Option.bind (at_path (jc_json_path c) t) (column_of (dx_plan cx) c)) ?cs) =
    length (map (\<lambda>(c, slot). slot_value (jc_type c) slot) (zip ?cs slots))" by simp
  fix i assume "i < length (map (\<lambda>c. Option.bind (at_path (jc_json_path c) t) (column_of (dx_plan cx) c)) ?cs)"
  then have i: "i < length ?cs" by simp
  then have "sl_seen (slots ! i)" using assms(2) len by (auto simp: list_all_length)
  then have "slots ! i \<noteq> empty_slot cx" by (auto simp: empty_slot_def)
  then obtain q u where "jc_json_path (?cs ! i) = [] @ q" "at_path q t = Some u" "slot_filled cx i u (slots ! i)"
    using assms(1) i by (auto simp: filled_def)
  then show "map (\<lambda>c. Option.bind (at_path (jc_json_path c) t) (column_of (dx_plan cx) c)) ?cs ! i =
    Some (map (\<lambda>(c, slot). slot_value (jc_type c) slot) (zip ?cs slots) ! i)"
    using i len by (simp add: slot_filled_def Let_def)
qed


abbreviation values_of :: "TypedRow \<Rightarrow> TypedValue list" where
  "values_of row \<equiv> map sv_value (rw_values row)"

lemma value_read_grown: "value_read (kept cx) a t b \<Longrightarrow> value_read (grown cx) a t b"
  unfolding value_read_def using moves_grown by blast

lemma value_read_then:
  assumes "value_read K a t b" and "moves K b [] c"
  shows "value_read K a t c"
  using assms(1) moves_trans [OF _ assms(2)] by (fastforce simp: value_read_def)

lemma counted_grown: "counted cx a b \<Longrightarrow> moves (grown cx) a [] b"
  using counted_moves moves_grown by blast

lemma counted_decoded: "counted cx a b \<Longrightarrow> jp_decoded_memory b = jp_decoded_memory a"
  by (simp add: counted_def kept_def)

lemma value_read_decoded: "value_read (kept cx) a t b \<Longrightarrow> jp_decoded_memory b = jp_decoded_memory a"
  by (auto simp: value_read_def moves_def kept_def)

lemma ok_ParseRecord:
  assumes "inside cx ps"
  shows "ok (\<lambda>row ps1. \<exists>t. value_read (grown cx) ps t ps1 \<and> record_of (dx_plan cx) t = Some (values_of row) \<and>
      unat (jp_decoded_memory ps1) = unat (jp_decoded_memory ps) + row_bytes cx row) (ParseRecord cx ps)"
  unfolding ParseRecord_def Let_def case_prod_beta
proof (rule ok_then [OF ok_Peek], clarify, intro ok_if ok_then [OF ok_stage_vector], goal_cases)
  case 1
  show ?case by (rule ok_then, rule ok_SkipValue [OF assms, unfolded gives_def]) simp
next
  case (2 c ps0 x ps1)
  let ?slots = "replicate (length (jd_columns (dx_plan cx))) (empty_slot cx)"
  have ready: "inside cx ps1" "slots_ok cx ?slots"
    using 2 assms by (auto simp: inside_def slots_ok_def counted_def list_all_length)
  show ?case
  proof (rule ok_then, rule gives_ParseSelectedObject [OF ready, unfolded gives_def], elim exE conjE,
      intro ok_then [OF ok_stage_vector], goal_cases)
    case (1 slots ps2 t y ps3)
    note read = this
    show ?case
    proof (rule ok_then [OF ok_row_values], goal_cases)
      case (1 z ps4)
      then obtain vs where vs: "fst z = vs" "ps4 = ps3" "list_all (\<lambda>(c, slot). sl_seen slot) (zip (jd_columns (dx_plan cx)) slots)"
        "map sv_value vs = map (\<lambda>(c, slot). slot_value (jc_type c) slot) (zip (jd_columns (dx_plan cx)) slots)"
        "charged_by (sum_list (map (value_bytes cx) vs)) (snd y, 0, 0) (snd z)" by (auto simp: took_values_def)
      show ?case
        unfolding vs(2)
      proof (rule ok_then [OF ok_settle_row [OF vs(5)]], rule ok_parses)
        fix u ps5
        assume settled: "grown cx ps3 ps5 \<and> jp_position ps5 = jp_position ps3 \<and>
          unat (jp_decoded_memory ps5) = unat (jp_decoded_memory ps3) + unat (snd y) + sum_list (map (value_bytes cx) vs)"
        show "\<exists>t. value_read (grown cx) ps t ps5 \<and>
          record_of (dx_plan cx) t = Some (values_of \<lparr>rw_values = fst z, rw_capacity = fst y\<rparr>) \<and>
          unat (jp_decoded_memory ps5) = unat (jp_decoded_memory ps) + row_bytes cx \<lparr>rw_values = fst z, rw_capacity = fst y\<rparr>"
        proof (intro exI [of _ t] conjI)
          have "moves (grown cx) ps3 [] ps5" using settled by (simp add: moves_def)
          then show "value_read (grown cx) ps t ps5"
            using 2 read counted_grown value_read_grown value_read_after value_read_then by blast
          show "record_of (dx_plan cx) t = Some (values_of \<lparr>rw_values = fst z, rw_capacity = fst y\<rparr>)"
            using filled_record [OF read(2) vs(3)] vs(1,4) by simp
          show "unat (jp_decoded_memory ps5) = unat (jp_decoded_memory ps) + row_bytes cx \<lparr>rw_values = fst z, rw_capacity = fst y\<rparr>"
            using settled 2 read vs(1) by (auto simp: row_bytes_def dest!: counted_decoded value_read_decoded)
        qed
      qed
    qed
  qed
qed


definition records_of :: "JsonDecodePlan \<Rightarrow> json list \<Rightarrow> TypedValue list list option" where
  "records_of plan ts = those (map (record_of plan) ts)"

text \<open>The rows and the decoded memory after the records \<open>ts\<close>.\<close>

definition took_rows :: "json_context \<Rightarrow> json list \<Rightarrow> TypedRow list \<Rightarrow> u64 \<Rightarrow> TypedRow list \<Rightarrow> u64 \<Rightarrow> bool" where
  "took_rows cx ts rows m rows1 m1 \<longleftrightarrow> length rows1 \<le> unat (jd_max_records (dx_plan cx)) \<and>
     (\<exists>new. rows1 = rows @ new \<and> records_of (dx_plan cx) ts = Some (map values_of new) \<and>
        unat m1 = unat m + sum_list (map (row_bytes cx) new))"

lemma took_rows_nil: "length rows \<le> unat (jd_max_records (dx_plan cx)) \<Longrightarrow> took_rows cx [] rows m rows m"
  by (simp add: took_rows_def records_of_def)

lemma took_rows_step:
  assumes "record_of (dx_plan cx) t = Some (values_of row)" and "unat m1 = unat m + row_bytes cx row"
    and "took_rows cx ts (rows @ [row]) m1 rows2 m2"
  shows "took_rows cx (t # ts) rows m rows2 m2"
proof -
  obtain new where new: "rows2 = rows @ row # new" "records_of (dx_plan cx) ts = Some (map values_of new)"
      "unat m2 = unat m1 + sum_list (map (row_bytes cx) new)" using assms(3) by (auto simp: took_rows_def)
  then show ?thesis
    using assms unfolding took_rows_def records_of_def
    by (intro conjI exI [of _ "row # new"]) (auto simp: those_Cons simp del: those.simps)
qed

lemma separated_grown: "separated (kept cx) c a b \<Longrightarrow> separated (grown cx) c a b"
  unfolding separated_def using moves_grown by blast

lemma separated_decoded: "separated (kept cx) c a b \<Longrightarrow> jp_decoded_memory b = jp_decoded_memory a"
  by (auto simp: separated_def moves_def kept_def)

lemma below_records: "length rows \<le> unat (m :: u64) \<Longrightarrow> \<not> of_nat (length rows) \<ge> m \<Longrightarrow> length rows < unat m"
proof -
  assume a: "length rows \<le> unat m" "\<not> of_nat (length rows) \<ge> m"
  have "unat m < 2 ^ LENGTH(64)" by (rule unsigned_less)
  then have "unat (of_nat (length rows) :: u64) = length rows" using a(1) by (simp add: unat_of_nat)
  then show ?thesis using a(2) by (simp add: word_le_nat_alt)
qed

lemma ok_record_elements:
  "length (fst (jp_position ps)) < fuel \<Longrightarrow> inside cx ps \<Longrightarrow> length rows \<le> unat (jd_max_records (dx_plan cx)) \<Longrightarrow>
   ok (\<lambda>rows1 ps1. \<exists>ts. array_rest (grown cx) ps ts ps1 \<and>
        took_rows cx ts rows (jp_decoded_memory ps) rows1 (jp_decoded_memory ps1)) (record_elements fuel cx rows ps)"
proof (induction fuel arbitrary: ps rows)
  case (Suc fuel)
  let ?Q = "\<lambda>rows1 ps1. \<exists>ts. array_rest (grown cx) ps ts ps1 \<and>
      took_rows cx ts rows (jp_decoded_memory ps) rows1 (jp_decoded_memory ps1)"
  show ?case
    unfolding record_elements.simps
  proof (rule ok_then [OF ok_Peek], clarify, intro ok_if ok_fails ok_then [OF ok_Check])
    fix x ps1
    assume peek: "peek ps \<noteq> CHR '']''" and check: "moves (kept cx) ps [] ps1 \<and> peek ps1 = peek ps"
      and few: "\<not> of_nat (length rows) \<ge> jd_max_records (dx_plan cx)"
    have inside: "inside cx ps1" using check Suc.prems(2) moves_inside by blast
    show "ok ?Q (parser_bind (ParseRecord cx) (\<lambda>row. parser_bind (ConsumeArraySeparator cx)
        (\<lambda>_. record_elements fuel cx (rows @ [row]))) ps1)"
    proof (rule ok_then, rule ok_ParseRecord [OF inside], elim exE conjE, rule ok_then [OF ok_separators(1)])
      fix row ps2 t y ps3
      assume v: "value_read (grown cx) ps1 t ps2" and row: "record_of (dx_plan cx) t = Some (values_of row)"
        and m: "unat (jp_decoded_memory ps2) = unat (jp_decoded_memory ps1) + row_bytes cx row"
        and sep: "separated (kept cx) CHR '']'' ps2 ps3"
      have read: "value_read (grown cx) ps t ps2" using check value_read_after [OF moves_grown v] by blast
      have "length (fst (jp_position ps3)) < fuel" "inside cx ps3" "length (rows @ [row]) \<le> unat (jd_max_records (dx_plan cx))"
        using Suc.prems value_read_shrinks [OF read] separated_shrinks [OF sep] below_records [OF Suc.prems(3) few]
        by (auto simp: inside_def)
      from Suc.IH [OF this] show "ok ?Q (record_elements fuel cx (rows @ [row]) ps3)"
      proof (rule ok_mono, elim exE conjE)
        fix rows1 ps4 ts
        assume rest: "array_rest (grown cx) ps3 ts ps4" "took_rows cx ts (rows @ [row]) (jp_decoded_memory ps3) rows1 (jp_decoded_memory ps4)"
        have "unat (jp_decoded_memory ps3) = unat (jp_decoded_memory ps) + row_bytes cx row"
          using m check separated_decoded [OF sep] by (simp add: moves_def kept_def)
        then show "?Q rows1 ps4"
          using array_rest_step [OF peek read separated_grown [OF sep] rest(1)] took_rows_step [OF row _ rest(2)] by blast
      qed
    qed
  qed (use array_rest_nil took_rows_nil Suc.prems(3) in \<open>blast intro!: ok_parses\<close>)
qed simp

definition reads_records ::
  "json_context \<Rightarrow> TypedRow list \<Rightarrow> JsonParser \<Rightarrow> json \<Rightarrow> json list \<Rightarrow> TypedRow list \<Rightarrow> JsonParser \<Rightarrow> bool" where
  "reads_records cx rows ps t ts rows1 ps1 \<longleftrightarrow> value_read (grown cx) ps t ps1 \<and>
     took_rows cx ts rows (jp_decoded_memory ps) rows1 (jp_decoded_memory ps1)"

lemma ok_ParseRecords:
  assumes "inside cx ps" and "length rows \<le> unat (jd_max_records (dx_plan cx))"
  shows "ok (\<lambda>rows1 ps1. \<exists>ts. reads_records cx rows ps (JArray ts) ts rows1 ps1) (ParseRecords cx rows ps)"
  unfolding ParseRecords_def
proof (rule ok_array [where R = "\<lambda>x ts ps1. took_rows cx ts rows (jp_decoded_memory ps) x (jp_decoded_memory ps1)" and K = "grown cx"],
    goal_cases)
  case (1 w ps1)
  then have "inside cx ps1" "jp_decoded_memory ps1 = jp_decoded_memory ps" using assms(1) by (auto simp: moves_def kept_def inside_def)
  then show ?case
    using ok_record_elements [of ps1 "json_fuel (dx_input cx)" cx rows] assms(2)
    by (simp add: inside_def json_fuel_def del: record_elements.simps)
next
  case (2 x ts ps1 ps2)
  then show ?case by (auto simp: moves_def kept_def reads_records_def intro!: ok_parses)
qed (rule moves_grown)


subsection \<open>The way to the records\<close>

definition record_value ::
  "json_context \<Rightarrow> string list \<Rightarrow> string \<Rightarrow> bool \<Rightarrow> TypedRow list \<Rightarrow> (bool \<times> TypedRow list) parser \<Rightarrow> char
   \<Rightarrow> (bool \<times> TypedRow list) parser" where
  "record_value cx path k found rows inner c =
     (if k = hd path then
        (if found then duplicated (RecordsDiagnosticField cx)
         else if tl path = [] then
           (if c \<noteq> CHR ''['' then
              parser_bind (Parser_SkipValue cx) (\<lambda>_. incompatible (RecordsDiagnosticField cx))
            else parser_bind (ParseRecords cx rows) (\<lambda>rows. parses (True, rows)))
         else if c \<noteq> CHR ''{'' then
           parser_bind (Parser_SkipValue cx) (\<lambda>_. incompatible (RecordsDiagnosticField cx))
         else
           parser_bind (Parser_Expect cx CHR ''{'') (\<lambda>_.
           parser_bind (Parser_SkipWhitespace cx) (\<lambda>_.
           parser_bind inner (\<lambda>x.
           parser_bind (Parser_Expect cx CHR ''}'') (\<lambda>_.
             if \<not> fst x then fails Stage_SCHEMA (RecordsDiagnosticField cx) ''required response field is missing''
             else parses (True, snd x))))))
      else parser_bind (Parser_SkipValue cx) (\<lambda>_. parses (found, rows)))"

lemma record_members_step:
  "record_members (Suc fuel) cx path found rows =
     parser_bind Parser_Peek (\<lambda>c.
       if c = CHR ''}'' then parses (found, rows)
       else parser_bind Parser_RequireObjectKey (\<lambda>_.
            parser_bind (Parser_ParseString cx None) (\<lambda>key.
            parser_bind (Parser_SkipWhitespace cx) (\<lambda>_.
            parser_bind (Parser_Expect cx CHR '':'') (\<lambda>_.
            parser_bind (Parser_SkipWhitespace cx) (\<lambda>_.
            parser_bind Parser_Peek (\<lambda>c.
            parser_bind (record_value cx path (os_text key) found rows (record_members fuel cx (tl path) False rows) c)
              (\<lambda>x. parser_bind (ConsumeObjectSeparator cx) (\<lambda>_. record_members fuel cx path (fst x) (snd x)))))))))) "
  unfolding record_members.simps record_value_def case_prod_beta by (rule refl)

text \<open>What the members of an object lead to: the records at the path, unless the path was found before.\<close>

definition found_records ::
  "json_context \<Rightarrow> string list \<Rightarrow> bool \<Rightarrow> TypedRow list \<Rightarrow> u64 \<Rightarrow> (string \<times> json) list \<Rightarrow> bool \<times> TypedRow list \<Rightarrow> u64 \<Rightarrow> bool" where
  "found_records cx path found rows m ms x m1 \<longleftrightarrow>
     (if \<not> found \<and> fst x
      then \<exists>ts. at_path path (JObject ms) = Some (JArray ts) \<and> took_rows cx ts rows m (snd x) m1
      else x = (found, rows) \<and> hd path \<notin> fst ` set ms \<and> m1 = m)"

definition value_records ::
  "json_context \<Rightarrow> string list \<Rightarrow> string \<Rightarrow> bool \<Rightarrow> TypedRow list \<Rightarrow> u64 \<Rightarrow> json \<Rightarrow> bool \<times> TypedRow list \<Rightarrow> u64 \<Rightarrow> bool" where
  "value_records cx path k found rows m t x m1 \<longleftrightarrow>
     (if k = hd path
      then \<not> found \<and> fst x \<and> (\<exists>ts. at_path (tl path) t = Some (JArray ts) \<and> took_rows cx ts rows m (snd x) m1)
      else x = (found, rows) \<and> m1 = m)"

lemma found_records_step:
  assumes "value_records cx path k found rows m t x m1" and "found_records cx path (fst x) (snd x) m1 ms y m2" and "path \<noteq> []"
  shows "found_records cx path found rows m ((k, t) # ms) y m2"
proof -
  obtain p ps where path: "path = p # ps" using assms(3) by (cases path) auto
  show ?thesis
  proof (cases "k = p")
    case True
    then have "\<not> found" "y = x" "p \<notin> fst ` set ms" "m2 = m1" "fst x"
      using assms(1,2) path by (cases x; cases y; auto simp: value_records_def found_records_def split: if_splits)+
    then show ?thesis using True assms(1) path at_path_only [of p ms ps t] by (auto simp: value_records_def found_records_def)
  next
    case False
    then show ?thesis
      using assms(1,2) path at_path_other [of p k ps t ms] by (auto simp: value_records_def found_records_def split: if_splits)
  qed
qed

lemma ok_record_value:
  assumes "inside cx ps" and few: "length rows \<le> unat (jd_max_records (dx_plan cx))" and "path \<noteq> []"
    and inner: "\<And>ps1. length (fst (jp_position ps1)) < length (fst (jp_position ps)) \<Longrightarrow> tl path \<noteq> [] \<Longrightarrow>
      ok (\<lambda>x ps2. \<exists>ms. object_rest (grown cx) ps1 ms ps2 \<and>
        found_records cx (tl path) False rows (jp_decoded_memory ps1) ms x (jp_decoded_memory ps2)) (inner ps1)"
  shows "ok (\<lambda>x ps1. \<exists>t. value_read (grown cx) ps t ps1 \<and>
      value_records cx path k found rows (jp_decoded_memory ps) t x (jp_decoded_memory ps1)) (record_value cx path k found rows inner c ps)"
  unfolding record_value_def
proof (intro ok_if ok_fails, goal_cases)
  case 1
  show ?case by (rule ok_then, rule ok_SkipValue [OF assms(1), unfolded gives_def]) simp
next
  case 2
  show ?case
    by (rule ok_then, rule ok_ParseRecords [OF assms(1) few])
      (use 2 in \<open>auto simp: value_records_def reads_records_def parses_def\<close>)
next
  case 3
  show ?case by (rule ok_then, rule ok_SkipValue [OF assms(1), unfolded gives_def]) simp
next
  case 4
  show ?case
  proof (rule ok_object [where K = "grown cx" and R = "\<lambda>x ms ps1.
      found_records cx (tl path) False rows (jp_decoded_memory ps) ms x (jp_decoded_memory ps1)"], goal_cases)
    case (1 w ps1)
    then have "length (fst (jp_position ps1)) < length (fst (jp_position ps))" "jp_decoded_memory ps1 = jp_decoded_memory ps"
      by (auto simp: moves_def kept_def)
    then show ?case using inner [of ps1] 4 by simp
  next
    case (2 x ms ps1 ps2)
    then have "jp_decoded_memory ps2 = jp_decoded_memory ps1" by (simp add: moves_def kept_def)
    then show ?case using 2 4
      by (intro ok_if ok_fails ok_parses exI [of _ "JObject ms"]) (auto simp: value_records_def found_records_def)
  qed (rule moves_grown)
next
  case 5
  show ?case
    by (rule ok_then, rule ok_SkipValue [OF assms(1), unfolded gives_def])
      (use 5 in \<open>auto simp: value_records_def parses_def dest: value_read_grown value_read_decoded\<close>)
qed

lemma key_read_grown: "key_read (kept cx) a k b \<Longrightarrow> key_read (grown cx) a k b"
  unfolding key_read_def using moves_grown by blast

lemma key_read_decoded: "key_read (kept cx) a k b \<Longrightarrow> jp_decoded_memory b = jp_decoded_memory a"
  by (auto simp: key_read_def moves_def kept_def)


lemma ok_record_members:
  "length (fst (jp_position ps)) < fuel \<Longrightarrow> inside cx ps \<Longrightarrow> length rows \<le> unat (jd_max_records (dx_plan cx)) \<Longrightarrow> path \<noteq> [] \<Longrightarrow>
   ok (\<lambda>x ps1. \<exists>ms. object_rest (grown cx) ps ms ps1 \<and>
        found_records cx path found rows (jp_decoded_memory ps) ms x (jp_decoded_memory ps1))
     (record_members fuel cx path found rows ps)"
proof (induction fuel arbitrary: ps path found rows)
  case (Suc fuel)
  let ?Q = "\<lambda>x ps1. \<exists>ms. object_rest (grown cx) ps ms ps1 \<and>
        found_records cx path found rows (jp_decoded_memory ps) ms x (jp_decoded_memory ps1)"
  show ?case
    unfolding record_members_step
  proof (rule ok_then [OF ok_Peek], clarify, intro ok_if ok_key ok_then [OF ok_SkipWhitespace], goal_cases)
    case 1
    have "found_records cx path found rows m [] (found, rows) m" for m by (simp add: found_records_def)
    then show ?case using object_rest_nil [OF 1] by (intro ok_parses) blast
  next
    case (2 c0 ps0 key ps1 u ps2)
    then obtain w where w: "ws w" "moves (kept cx) ps1 w ps2" by blast
    let ?k = "os_text key"
    have at2: "length (fst (jp_position ps2)) < length (fst (jp_position ps))" "inside cx ps2"
        "jp_decoded_memory ps2 = jp_decoded_memory ps"
      using key_read_shrinks [OF 2(2)] key_read_decoded [OF 2(2)] w(2) Suc.prems(2) by (auto simp: moves_def kept_def inside_def)
    have inner: "ok (\<lambda>x ps3. \<exists>ms. object_rest (grown cx) ps0 ms ps3 \<and>
        found_records cx (tl path) False rows (jp_decoded_memory ps0) ms x (jp_decoded_memory ps3))
        (record_members fuel cx (tl path) False rows ps0)"
      if "length (fst (jp_position ps0)) < length (fst (jp_position ps2))" "tl path \<noteq> []" for ps0
      using that at2(1) Suc.prems by (intro Suc.IH) (auto simp: inside_def)
    show ?case
    proof (rule ok_then [OF ok_Peek], clarify, rule ok_then,
        rule ok_record_value [OF at2(2) Suc.prems(3,4) inner, where k = ?k and found = found], assumption, assumption,
        elim exE conjE, rule ok_then [OF ok_separators(2)], goal_cases)
      case (1 _ _ x ps3 t _ ps4)
      have read: "value_read (grown cx) ps1 t ps3" by (rule value_read_ws [OF w(1) moves_grown [OF w(2)] 1(1)])
      have rows: "length (snd x) \<le> unat (jd_max_records (dx_plan cx))"
        using 1(2) Suc.prems(3) by (auto simp: value_records_def took_rows_def split: if_splits)
      have "length (fst (jp_position ps4)) < fuel" "inside cx ps4"
        using Suc.prems at2 value_read_shrinks [OF 1(1)] separated_shrinks [OF 1(3)] by (auto simp: inside_def)
      from Suc.IH [OF this rows Suc.prems(4)] show ?case
      proof (rule ok_mono, elim exE conjE)
        fix y ps5 ms
        assume rest: "object_rest (grown cx) ps4 ms ps5"
          "found_records cx path (fst x) (snd x) (jp_decoded_memory ps4) ms y (jp_decoded_memory ps5)"
        then have "found_records cx path found rows (jp_decoded_memory ps) ((?k, t) # ms) y (jp_decoded_memory ps5)"
          using found_records_step [OF 1(2) _ Suc.prems(4)] separated_decoded [OF 1(3)] at2(3) by simp
        then show "?Q y ps5"
          using object_rest_key [OF 2(1) key_read_grown [OF 2(2)] read separated_grown [OF 1(3)] rest(1)] by blast
      qed
    qed
  qed
qed simp

lemma ok_ParseRecordArrayObject:
  assumes "inside cx ps" and "jd_records_path (dx_plan cx) \<noteq> []"
  shows "ok (\<lambda>rows ps1. \<exists>t ts. reads_records cx [] ps t ts rows ps1 \<and> at_path (jd_records_path (dx_plan cx)) t = Some (JArray ts))
    (ParseRecordArrayObject cx ps)"
  unfolding ParseRecordArrayObject_def case_prod_beta
proof (rule ok_object [where K = "grown cx" and R = "\<lambda>x ms ps1.
    found_records cx (jd_records_path (dx_plan cx)) False [] (jp_decoded_memory ps) ms x (jp_decoded_memory ps1)"], goal_cases)
  case (1 w ps1)
  then have "inside cx ps1" "jp_decoded_memory ps1 = jp_decoded_memory ps"
    using assms(1) by (auto simp: moves_def kept_def inside_def)
  then show ?case
    using ok_record_members [of ps1 "json_fuel (dx_input cx)" cx "[]" "jd_records_path (dx_plan cx)" False] assms(2)
    by (simp add: inside_def json_fuel_def del: record_members.simps)
next
  case (2 x ms ps1 ps2)
  then have "jp_decoded_memory ps2 = jp_decoded_memory ps1" by (simp add: moves_def kept_def)
  then show ?case using 2
    by (intro ok_if ok_fails ok_parses exI [of _ "JObject ms"]) (auto simp: reads_records_def found_records_def)
qed (rule moves_grown)

subsection \<open>Documents\<close>

lemma ok_AllocateResult:
  "ok (\<lambda>capacity ps1. moves (grown cx) ps [] ps1 \<and> peek ps1 = peek ps \<and>
      unat (jp_decoded_memory ps1) = unat capacity * unat (js_sizeof_TypedRow (dx_storage cx))) (AllocateResult cx ps)"
proof -
  have mult: "unat (a * b) = unat a * unat b" if "\<not> allocation_exceeded a b most" for a b most
    using that CheckedMultiply_Some [of a b] by (auto simp: allocation_exceeded_def CheckedMultiply_def split: if_splits)
  show ?thesis
    unfolding AllocateResult_def Let_def
    by (intro ok_if' ok_option ok_fails ok_then [OF ok_Observe] ok_parses)
      (use mult in \<open>auto simp: moves_def grown_def mem_inv_def total_def\<close>)
qed

lemma ok_document_ends: "ok (\<lambda>_ ps1. \<exists>w. ws w \<and> moves (kept cx) ps w ps1 \<and> fst (jp_position ps1) = []) (document_ends cx ps)"
  unfolding document_ends_def
  by (rule ok_then [OF ok_SkipWhitespace], rule ok_lexes)
    (auto simp: moves_def kept_def grown_def mem_inv_def total_def split: if_splits)


subsection \<open>Continuations\<close>

text \<open>Steps that may set the continuation, but keep the rows.\<close>

definition owned :: "json_context \<Rightarrow> JsonParser \<Rightarrow> JsonParser \<Rightarrow> bool" where
  "owned cx ps ps1 \<longleftrightarrow> jp_decoded_memory ps1 = jp_decoded_memory ps \<and> (mem_inv cx ps \<longrightarrow> mem_inv cx ps1)"

lemma owned_closure [simp]: "(owned cx)\<^sup>*\<^sup>* = owned cx"
proof -
  have "(owned cx)\<^sup>*\<^sup>* a b = owned cx a b" for a b
    by (auto intro: r_into_rtranclp) (induction rule: rtranclp_induct; simp add: owned_def)
  then show ?thesis by (intro ext)
qed

lemma moves_owned: "moves (kept cx) a u b \<Longrightarrow> moves (owned cx) a u b"
  by (simp add: moves_def kept_def grown_def owned_def)

lemma moves_url: "moves (kept cx) a u b \<Longrightarrow> jp_next_url b = jp_next_url a"
  by (simp add: moves_def kept_def grown_def)

lemma value_read_owned: "value_read (kept cx) a t b \<Longrightarrow> value_read (owned cx) a t b \<and> jp_next_url b = jp_next_url a"
  unfolding value_read_def using moves_owned moves_url by blast

lemma key_read_owned: "key_read (kept cx) a k b \<Longrightarrow> key_read (owned cx) a k b \<and> jp_next_url b = jp_next_url a"
  unfolding key_read_def using moves_owned moves_url by blast

lemma separated_owned: "separated (kept cx) c a b \<Longrightarrow> separated (owned cx) c a b \<and> jp_next_url b = jp_next_url a"
  unfolding separated_def using moves_owned moves_url by blast

text \<open>The continuation at a path: the text of the value there, nothing where the value is null or the path leads nowhere.\<close>

fun next_at :: "JsonDecodePlan \<Rightarrow> string list \<Rightarrow> json \<Rightarrow> string option" where
  "next_at plan [] t = (if t = JNull then Some [] else varchar_of plan t)"
| "next_at plan (k # ks) (JObject ms) =
     (case filter (\<lambda>m. fst m = k) ms of [] \<Rightarrow> Some [] | [m] \<Rightarrow> next_at plan ks (snd m) | _ \<Rightarrow> None)"
| "next_at plan (k # ks) _ = Some []"

lemma next_at_other: "k' \<noteq> k \<Longrightarrow> next_at plan (k' # q) (JObject ((k, t) # ms)) = next_at plan (k' # q) (JObject ms)"
  by simp

lemma next_at_only: "k \<notin> fst ` set ms \<Longrightarrow> next_at plan (k # q) (JObject ((k, t) # ms)) = next_at plan q t"
proof -
  assume "k \<notin> fst ` set ms"
  then have "filter (\<lambda>m. fst m = k) ms = []" by (auto simp: filter_empty_conv)
  then show ?thesis by simp
qed

lemma ok_SkipWhitespace_stop:
  "ok (\<lambda>_ ps1. (\<exists>w. ws w \<and> moves (kept cx) ps w ps1) \<and> \<not> json_whitespace (peek ps1)) (Parser_SkipWhitespace cx ps)"
  unfolding Parser_SkipWhitespace_def
proof (rule ok_lexes)
  fix p assume "SkipWhitespace (dx_control cx) (jp_position ps) = Inr p"
  then obtain w where w: "ws w" "fst (jp_position ps) = w @ fst p" "fst p = [] \<or> \<not> json_whitespace (hd (fst p))"
    using SkipWhitespace_sound [of "dx_control cx" "jp_position ps" p] by (auto simp: ws_def)
  moreover have "\<not> json_whitespace CHR 0x00" by (simp add: json_whitespace_def)
  ultimately show "(\<exists>w. ws w \<and> moves (kept cx) ps w (ps\<lparr>jp_position := p\<rparr>)) \<and> \<not> json_whitespace (peek (ps\<lparr>jp_position := p\<rparr>))"
    by (cases p; cases "fst p") (auto simp: moves_def json_Peek_def)
qed (use whitespace_fuelled in \<open>auto simp: fuelled_def\<close>)

lemma not_object:
  assumes "value_read K ps t ps1" and "\<not> json_whitespace (peek ps)" and "peek ps \<noteq> CHR ''{''"
  shows "t \<noteq> JObject ms"
proof
  assume t: "t = JObject ms"
  obtain w v where v: "ws w" "denotes v t" "fst (jp_position ps) = w @ v @ fst (jp_position ps1)"
    using assms(1) by (auto simp: value_read_def moves_def)
  have "w = []" using v(1,3) assms(2) by (cases w; cases "jp_position ps") (auto simp: json_Peek_def ws_def)
  moreover have "\<exists>u. v = CHR ''{'' # u" using v(2) t by (cases rule: denotes.cases) simp_all
  ultimately show False using v(3) assms(3) by (cases "jp_position ps") (auto simp: json_Peek_def)
qed

lemma ok_ExtractContinuationScalar:
  "inside cx ps \<Longrightarrow> ok (\<lambda>_ ps1. \<exists>t. value_read (owned cx) ps t ps1 \<and>
      (if t = JNull then jp_next_url ps1 = jp_next_url ps else varchar_of (dx_plan cx) t = Some (jp_next_url ps1)))
    (ExtractContinuationScalar cx ps)"
  unfolding ExtractContinuationScalar_def
proof (rule ok_then [OF ok_Peek], clarify, intro ok_if ok_then [OF ok_ParseString], goal_cases)
  case (1 c ps0 s ps1)
  then obtain tok where tok: "string_text tok (os_text s)" "moves (kept cx) ps tok ps1"
    "length (os_text s) \<le> unat (jd_max_string_bytes (dx_plan cx))" by (auto simp: charged_ok_def)
  have mem: "mem_inv cx ps1" if "mem_inv cx ps" using that tok(2) by (simp add: moves_def kept_def grown_def)
  have final: "ok (\<lambda>_ ps3. \<exists>t. value_read (owned cx) ps t ps3 \<and>
      (if t = JNull then jp_next_url ps3 = jp_next_url ps else varchar_of (dx_plan cx) t = Some (jp_next_url ps3)))
    (ObserveCurrentMemory cx (ps2\<lparr>jp_next_url := os_text s, jp_next_url_capacity := cap, jp_continuation_memory := cap,
       jp_pending_string_memory := p\<rparr>))"
    if ps2: "jp_position ps2 = jp_position ps1" "jp_decoded_memory ps2 = jp_decoded_memory ps1"
      "mem_inv cx ps1 \<Longrightarrow> unat (jp_peak_memory ps2) \<le> limit cx" for ps2 cap p
  proof (rule ok_mono [OF ok_Observe], elim exE conjE, intro exI [of _ "JString (os_text s)"] conjI)
    fix ps3 x
    assume ps3: "ps3 = ps2\<lparr>jp_next_url := os_text s, jp_next_url_capacity := cap, jp_continuation_memory := cap,
        jp_pending_string_memory := p, jp_peak_memory := x\<rparr>"
      and obs: "total (ps2\<lparr>jp_next_url := os_text s, jp_next_url_capacity := cap, jp_continuation_memory := cap,
        jp_pending_string_memory := p\<rparr>) \<le> unat x"
      "unat (jp_peak_memory (ps2\<lparr>jp_next_url := os_text s, jp_next_url_capacity := cap, jp_continuation_memory := cap,
        jp_pending_string_memory := p\<rparr>)) \<le> limit cx \<longrightarrow> unat x \<le> limit cx"
    have "owned cx ps ps3"
      using ps2 obs mem tok(2) unfolding ps3 by (auto simp: owned_def mem_inv_def total_def moves_def kept_def)
    then have "moves (owned cx) ps tok ps3" using tok(2) ps2(1) by (simp add: moves_def ps3)
    then show "value_read (owned cx) ps (JString (os_text s)) ps3" by (rule value_readI [OF str [OF tok(1)]])
    show "if JString (os_text s) = JNull then jp_next_url ps3 = jp_next_url ps
      else varchar_of (dx_plan cx) (JString (os_text s)) = Some (jp_next_url ps3)"
      using tok(3) by (simp add: varchar_of_def ps3)
  qed
  show ?case
    unfolding Let_def
  proof (rule ok_then [where P = "\<lambda>_ ps2. jp_position ps2 = jp_position ps1 \<and> jp_decoded_memory ps2 = jp_decoded_memory ps1 \<and>
      (mem_inv cx ps1 \<longrightarrow> unat (jp_peak_memory ps2) \<le> limit cx)"], goal_cases)
    case 1
    show ?case
      by (intro ok_if ok_mono [OF ok_ReservePendingStringMemory]) (auto simp: counted_def kept_def grown_def mem_inv_def)
  next
    case (2 u ps2)
    then show ?case by (intro final) blast+
  qed
next
  case 2
  show ?case by (rule ok_mono [OF ok_Literal]) (auto intro!: exI [of _ JNull] value_readI [OF null] moves_owned moves_url)
next
  case 3
  show ?case by (rule ok_then, rule ok_SkipValue [OF 3(1), unfolded gives_def]) simp
qed


definition continuation_value :: "json_context \<Rightarrow> string list \<Rightarrow> string \<Rightarrow> bool \<Rightarrow> unit parser \<Rightarrow> char \<Rightarrow> bool parser" where
  "continuation_value cx path k found inner c =
     (if k = hd path then
        (if found then
           fails Stage_SCHEMA (last (jd_page_continuation_path (dx_plan cx)))
             ''response_next continuation field is duplicated''
         else parser_bind
           (if tl path = [] then ExtractContinuationScalar cx
            else if c = CHR ''{'' then
              parser_bind (Parser_SkipWhitespace cx) (\<lambda>_.
              parser_bind (Parser_Expect cx CHR ''{'') (\<lambda>_.
              parser_bind (Parser_SkipWhitespace cx) (\<lambda>_.
              parser_bind inner (\<lambda>_.
              Parser_Expect cx CHR ''}''))))
            else Parser_SkipValue cx)
           (\<lambda>_. parses True))
      else parser_bind (Parser_SkipValue cx) (\<lambda>_. parses found))"

lemma continuation_members_step:
  "continuation_members (Suc fuel) cx path found =
     parser_bind Parser_Peek (\<lambda>c.
       if c = CHR ''}'' then parses ()
       else parser_bind Parser_RequireObjectKey (\<lambda>_.
            parser_bind (Parser_ParseString cx None) (\<lambda>key.
            parser_bind (Parser_SkipWhitespace cx) (\<lambda>_.
            parser_bind (Parser_Expect cx CHR '':'') (\<lambda>_.
            parser_bind (Parser_SkipWhitespace cx) (\<lambda>_.
            parser_bind Parser_Peek (\<lambda>c.
            parser_bind (continuation_value cx path (os_text key) found (continuation_members fuel cx (tl path) False) c)
              (\<lambda>found. parser_bind (ConsumeObjectSeparator cx) (\<lambda>_. continuation_members fuel cx path found)))))))))"
  unfolding continuation_members.simps continuation_value_def by (rule refl)

definition members_next ::
  "JsonDecodePlan \<Rightarrow> string list \<Rightarrow> bool \<Rightarrow> string \<Rightarrow> (string \<times> json) list \<Rightarrow> string \<Rightarrow> bool" where
  "members_next plan path found u ms u1 \<longleftrightarrow>
     (if found then hd path \<notin> fst ` set ms \<and> u1 = u else u = [] \<longrightarrow> next_at plan path (JObject ms) = Some u1)"

definition value_next ::
  "JsonDecodePlan \<Rightarrow> string list \<Rightarrow> string \<Rightarrow> bool \<Rightarrow> string \<Rightarrow> json \<Rightarrow> bool \<Rightarrow> string \<Rightarrow> bool" where
  "value_next plan path k found u t found1 u1 \<longleftrightarrow>
     (if k = hd path then \<not> found \<and> found1 \<and> (u = [] \<longrightarrow> next_at plan (tl path) t = Some u1) else found1 = found \<and> u1 = u)"

lemma members_next_step:
  assumes "value_next plan path k found u t found1 u1" and "members_next plan path found1 u1 ms u2" and "path \<noteq> []"
  shows "members_next plan path found u ((k, t) # ms) u2"
proof -
  obtain p ps where path: "path = p # ps" using assms(3) by (cases path) auto
  show ?thesis
    using assms(1,2) path next_at_only [of p ms plan ps t] next_at_other [of p k plan ps t ms]
    by (cases "k = p") (auto simp: value_next_def members_next_def split: if_splits simp del: next_at.simps)
qed

lemma ok_continuation_value:
  assumes "inside cx ps" and "\<not> json_whitespace (peek ps)" and "path \<noteq> []"
    and inner: "\<And>ps1. length (fst (jp_position ps1)) < length (fst (jp_position ps)) \<Longrightarrow> tl path \<noteq> [] \<Longrightarrow>
      ok (\<lambda>_ ps2. \<exists>ms. object_rest (owned cx) ps1 ms ps2 \<and>
        members_next (dx_plan cx) (tl path) False (jp_next_url ps1) ms (jp_next_url ps2)) (inner ps1)"
  shows "ok (\<lambda>found1 ps1. \<exists>t. value_read (owned cx) ps t ps1 \<and>
      value_next (dx_plan cx) path k found (jp_next_url ps) t found1 (jp_next_url ps1))
    (continuation_value cx path k found inner (peek ps) ps)"
proof -
  let ?P = "\<lambda>_ ps1. \<exists>t. value_read (owned cx) ps t ps1 \<and> (jp_next_url ps = [] \<longrightarrow> next_at (dx_plan cx) (tl path) t = Some (jp_next_url ps1))"
  have scalar: "ok ?P (ExtractContinuationScalar cx ps)" if "tl path = []"
  proof (rule ok_mono [OF ok_ExtractContinuationScalar [OF assms(1)]], elim exE conjE)
    fix ps1 t assume "value_read (owned cx) ps t ps1"
      "if t = JNull then jp_next_url ps1 = jp_next_url ps else varchar_of (dx_plan cx) t = Some (jp_next_url ps1)"
    then show "?P () ps1" using that by (intro exI [of _ t]) (simp split: if_splits)
  qed
  have other: "ok ?P (Parser_SkipValue cx ps)" if "tl path \<noteq> []" "peek ps \<noteq> CHR ''{''"
  proof (rule ok_mono [OF ok_SkipValue [OF assms(1), unfolded gives_def]], elim exE conjE)
    fix ps1 t assume v: "value_read (kept cx) ps t ps1"
    have "next_at (dx_plan cx) (tl path) t = Some []"
      using not_object [OF v assms(2) that(2)] that(1) by (cases "tl path"; cases t) auto
    then show "?P () ps1" using value_read_owned [OF v] by auto
  qed
  have object: "ok ?P (parser_bind (Parser_SkipWhitespace cx) (\<lambda>_. parser_bind (Parser_Expect cx CHR ''{'') (\<lambda>_.
      parser_bind (Parser_SkipWhitespace cx) (\<lambda>_. parser_bind inner (\<lambda>_. Parser_Expect cx CHR ''}'')))) ps)" if "tl path \<noteq> []"
  proof (rule ok_then [OF ok_SkipWhitespace], elim exE conjE, rule ok_object [where K = "owned cx" and f = "\<lambda>_. parses ()" and
      R = "\<lambda>_ ms ps1. members_next (dx_plan cx) (tl path) False (jp_next_url ps) ms (jp_next_url ps1)", unfolded bind_parses], goal_cases)
    case (1 u ps0 w0 w ps1)
    then have "length (fst (jp_position ps1)) < length (fst (jp_position ps))" "jp_next_url ps1 = jp_next_url ps"
      by (auto simp: moves_def kept_def grown_def)
    then show ?case using inner [of ps1] that by simp
  next
    case (2 u ps0 w0 x ms ps1 ps2)
    then have "value_read (owned cx) ps (JObject ms) ps2" using value_read_ws moves_owned by blast
    then show ?case using 2 moves_url [OF 2(5)] by (auto simp: members_next_def intro!: ok_parses)
  qed (rule moves_owned)
  show ?thesis
    unfolding continuation_value_def
  proof (intro ok_if ok_fails, goal_cases)
    case 1
    show ?case
    proof (rule ok_then [where P = ?P], goal_cases)
      case 1 show ?case using scalar other object by (intro ok_if) auto
    next
      case (2 x ps1) then show ?case using 1 by (intro ok_parses) (auto simp: value_next_def)
    qed
  next
    case 2
    show ?case by (rule ok_then, rule ok_SkipValue [OF assms(1), unfolded gives_def])
      (use 2 in \<open>auto simp: value_next_def parses_def dest!: value_read_owned\<close>)
  qed
qed

lemma ok_continuation_members:
  "length (fst (jp_position ps)) < fuel \<Longrightarrow> inside cx ps \<Longrightarrow> path \<noteq> [] \<Longrightarrow>
   ok (\<lambda>_ ps1. \<exists>ms. object_rest (owned cx) ps ms ps1 \<and> members_next (dx_plan cx) path found (jp_next_url ps) ms (jp_next_url ps1))
     (continuation_members fuel cx path found ps)"
proof (induction fuel arbitrary: ps path found)
  case (Suc fuel)
  let ?Q = "\<lambda>_ ps1. \<exists>ms. object_rest (owned cx) ps ms ps1 \<and> members_next (dx_plan cx) path found (jp_next_url ps) ms (jp_next_url ps1)"
  show ?case
    unfolding continuation_members_step
  proof (rule ok_then [OF ok_Peek], clarify, intro ok_if ok_key ok_then [OF ok_SkipWhitespace_stop], goal_cases)
    case 1
    have "members_next (dx_plan cx) path found u [] u" for u
      using Suc.prems(3) by (cases path) (auto simp: members_next_def)
    then show ?case using object_rest_nil [OF 1] by (intro ok_parses) blast
  next
    case (2 c0 ps0 key ps1 u ps2)
    then obtain w where w: "ws w" "moves (kept cx) ps1 w ps2" "\<not> json_whitespace (peek ps2)" by blast
    let ?k = "os_text key"
    have at2: "length (fst (jp_position ps2)) < length (fst (jp_position ps))" "inside cx ps2" "jp_next_url ps2 = jp_next_url ps"
      using key_read_shrinks [OF 2(2)] key_read_owned [OF 2(2)] w(2) Suc.prems(2) moves_url [OF w(2)] by (auto simp: moves_def inside_def)
    have inner: "ok (\<lambda>_ ps3. \<exists>ms. object_rest (owned cx) ps0 ms ps3 \<and>
        members_next (dx_plan cx) (tl path) False (jp_next_url ps0) ms (jp_next_url ps3)) (continuation_members fuel cx (tl path) False ps0)"
      if "length (fst (jp_position ps0)) < length (fst (jp_position ps2))" "tl path \<noteq> []" for ps0
      using that at2(1) Suc.prems by (intro Suc.IH) (auto simp: inside_def)
    show ?case
    proof (rule ok_then [OF ok_Peek], clarify, rule ok_then,
        rule ok_continuation_value [OF at2(2) w(3) Suc.prems(3) inner, where k = ?k and found = found], assumption, assumption,
        elim exE conjE, rule ok_then [OF ok_separators(2)], goal_cases)
      case (1 _ _ found1 ps3 t _ ps4)
      have read: "value_read (owned cx) ps1 t ps3" by (rule value_read_ws [OF w(1) moves_owned [OF w(2)] 1(1)])
      have "length (fst (jp_position ps4)) < fuel" "inside cx ps4"
        using Suc.prems at2 value_read_shrinks [OF 1(1)] separated_shrinks [OF 1(3)] by (auto simp: inside_def)
      from Suc.IH [OF this Suc.prems(3)] show ?case
      proof (rule ok_mono, elim exE conjE)
        fix y ps5 ms
        assume rest: "object_rest (owned cx) ps4 ms ps5" "members_next (dx_plan cx) path found1 (jp_next_url ps4) ms (jp_next_url ps5)"
        then have "members_next (dx_plan cx) path found (jp_next_url ps) ((?k, t) # ms) (jp_next_url ps5)"
          using members_next_step [OF 1(2) _ Suc.prems(3)] separated_owned [OF 1(3)] at2(3) by simp
        then show "?Q () ps5"
          using object_rest_key [OF 2(1) _ read _ rest(1)] key_read_owned [OF 2(2)] separated_owned [OF 1(3)] by blast
      qed
    qed
  qed
qed simp

lemma ok_ExtractContinuation:
  assumes "inside cx ps" and "jd_page_continuation_path (dx_plan cx) \<noteq> []" and "jp_next_url ps = []"
    and root: "ws w0" "fst (jp_position ps) = w0 @ ''{'' @ r0"
  shows "ok (\<lambda>_ ps1. \<exists>ms. value_read (owned cx) ps (JObject ms) ps1 \<and>
      next_at (dx_plan cx) (jd_page_continuation_path (dx_plan cx)) (JObject ms) = Some (jp_next_url ps1)) (ExtractContinuation cx ps)"
  unfolding ExtractContinuation_def
proof (rule ok_then [OF ok_SkipWhitespace_stop], elim exE conjE, rule ok_then [OF ok_Peek], clarify, intro ok_if, goal_cases)
  case (1 u ps1 w)
  have "w @ fst (jp_position ps1) = w0 @ ''{'' @ r0" using root(2) 1 by (simp add: moves_def)
  moreover have "fst (jp_position ps1) = [] \<or> \<not> json_whitespace (hd (fst (jp_position ps1)))"
    using 1 by (cases "jp_position ps1"; cases "fst (jp_position ps1)") (auto simp: json_Peek_def)
  ultimately have "fst (jp_position ps1) = ''{'' @ r0" using ws_unique [OF 1(2) root(1), of _ "''{'' @ r0"] by (simp add: json_whitespace_def)
  then show ?case using 1 by (cases "jp_position ps1") (simp add: json_Peek_def)
next
  case (2 u ps1 w)
  note first = this
  show ?case
  proof (rule ok_object [where K = "owned cx" and f = "\<lambda>_. parses ()" and
      R = "\<lambda>_ ms ps1. members_next (dx_plan cx) (jd_page_continuation_path (dx_plan cx)) False [] ms (jp_next_url ps1)", unfolded bind_parses], goal_cases)
    case (1 w ps2)
    then have "inside cx ps2" "jp_next_url ps2 = []" using first assms(1,3) by (auto simp: moves_def kept_def grown_def inside_def)
    then show ?case
      using ok_continuation_members [of ps2 "json_fuel (dx_input cx)" cx "jd_page_continuation_path (dx_plan cx)" False] assms(2)
      by (simp add: inside_def json_fuel_def del: continuation_members.simps)
  next
    case (2 x ms ps2 ps3)
    then have "value_read (owned cx) ps (JObject ms) ps3" using value_read_ws moves_owned first by blast
    moreover have "next_at (dx_plan cx) (jd_page_continuation_path (dx_plan cx)) (JObject ms) = Some (jp_next_url ps3)"
      using 2 moves_url [OF 2(3)] by (simp add: members_next_def)
    ultimately show ?case by (intro ok_parses) blast
  qed (rule moves_owned)
qed


subsection \<open>Pages\<close>

text \<open>The rows and the continuation of a document.\<close>

definition rows_of :: "JsonDecodePlan \<Rightarrow> json \<Rightarrow> TypedValue list list option" where
  "rows_of plan t =
     (case jd_response_source plan of
        ROOT_OBJECT \<Rightarrow> map_option (\<lambda>r. [r]) (record_of plan t)
      | ROOT_ARRAY \<Rightarrow> (case t of JArray ts \<Rightarrow> records_of plan ts | _ \<Rightarrow> None)
      | JSON_PATH_MANY \<Rightarrow> (case at_path (jd_records_path plan) t of Some (JArray ts) \<Rightarrow> records_of plan ts | _ \<Rightarrow> None))"

definition next_of :: "JsonDecodePlan \<Rightarrow> json \<Rightarrow> string option" where
  "next_of plan t =
     (if jd_response_source plan = JSON_PATH_MANY \<and> jd_page_continuation_path plan \<noteq> []
      then next_at plan (jd_page_continuation_path plan) t else Some [])"

lemma ok_ValidateDocument:
  assumes "inside cx ps"
  shows "ok (\<lambda>_ ps1. kept cx ps ps1 \<and> fst (jp_position ps1) = dx_input cx) (Parser_ValidateDocument cx ps)"
  unfolding Parser_ValidateDocument_def
proof (rule ok_then [OF ok_SkipWhitespace], elim exE conjE)
  fix ps1 w assume 1: "moves (kept cx) ps w ps1"
  then have inside: "inside cx ps1" using assms moves_inside by blast
  show "ok (\<lambda>_ ps1. kept cx ps ps1 \<and> fst (jp_position ps1) = dx_input cx)
    (parser_bind (Parser_SkipValue cx) (\<lambda>_. parser_bind (Parser_SkipWhitespace cx) (\<lambda>_.
       lexes (\<lambda>p. if fst p \<noteq> [] then Inl JsonMalformed else Inr (json_Reset (dx_input cx) p)))) ps1)"
    by (rule ok_then, rule ok_SkipValue [OF inside, unfolded gives_def], elim exE conjE, rule ok_then [OF ok_SkipWhitespace], rule ok_lexes)
      (use 1 in \<open>auto simp: json_Reset_def value_read_def moves_def kept_def grown_def mem_inv_def total_def split: if_splits\<close>)
qed

text \<open>What a finished walk over the document leaves.\<close>

definition walked :: "json_context \<Rightarrow> u64 \<Rightarrow> TypedRow list \<Rightarrow> json \<Rightarrow> JsonParser \<Rightarrow> bool" where
  "walked cx capacity rows t ps \<longleftrightarrow> document (dx_input cx) t \<and> rows_of (dx_plan cx) t = Some (map values_of rows) \<and>
     length rows \<le> unat (jd_max_records (dx_plan cx)) \<and> mem_inv cx ps \<and>
     unat (jp_decoded_memory ps) = unat capacity * unat (js_sizeof_TypedRow (dx_storage cx)) + sum_list (map (row_bytes cx) rows)"

text \<open>The start of a walk: whitespace was skipped from the beginning of the document, and nothing is decoded yet.\<close>

definition at_root :: "json_context \<Rightarrow> JsonParser \<Rightarrow> bool" where
  "at_root cx ps \<longleftrightarrow> (\<exists>w. ws w \<and> dx_input cx = w @ fst (jp_position ps)) \<and> mem_inv cx ps \<and> jp_next_url ps = []"

lemma at_root_inside: "at_root cx ps \<Longrightarrow> inside cx ps"
  by (auto simp: at_root_def inside_def)

lemma root_document:
  assumes "at_root cx ps" and "moves (grown cx) ps [] ps1" and "value_read (grown cx) ps1 t ps2" and "ws w'"
    and "moves (kept cx) ps2 w' ps3" and "fst (jp_position ps3) = []"
  shows "document (dx_input cx) t \<and> mem_inv cx ps3 \<and> jp_next_url ps3 = []"
proof -
  obtain w where w: "ws w" "dx_input cx = w @ fst (jp_position ps)" using assms(1) by (auto simp: at_root_def)
  obtain u v where v: "ws u" "denotes v t" "moves (grown cx) ps1 (u @ v) ps2" using assms(3) by (auto simp: value_read_def)
  have "moves (grown cx) ps (u @ v @ w') ps3"
    using moves_trans [OF moves_trans [OF assms(2) v(3)] moves_grown [OF assms(5)]] by simp
  then have "dx_input cx = (w @ u) @ v @ w'" "grown cx ps ps3" using w assms(6) by (auto simp: moves_def)
  moreover have "ws (w @ u)" using w v by simp
  ultimately show ?thesis using v(2) assms(1,4) unfolding document_def at_root_def grown_def by metis
qed

lemma ok_ParseRootObject:
  assumes "at_root cx ps" and "jd_response_source (dx_plan cx) = ROOT_OBJECT" and "jd_max_records (dx_plan cx) = 1"
  shows "ok (\<lambda>x ps1. \<exists>t. walked cx (fst x) (snd x) t ps1 \<and> next_of (dx_plan cx) t = Some (jp_next_url ps1)) (ParseRootObject cx ps)"
  unfolding ParseRootObject_def
proof (rule ok_then [OF ok_AllocateResult], goal_cases)
  case (1 capacity ps1)
  then have inside: "inside cx ps1" using at_root_inside [OF assms(1)] moves_inside by blast
  show ?case
  proof (rule ok_then, rule ok_ParseRecord [OF inside], elim exE conjE, rule ok_then [OF ok_document_ends], elim exE conjE, rule ok_parses, goal_cases)
    case (1 row ps2 t u ps3 w)
    have "document (dx_input cx) t \<and> mem_inv cx ps3 \<and> jp_next_url ps3 = []"
      using root_document [OF assms(1) _ 1(1,4,5,6)] \<open>moves (grown cx) ps [] ps1 \<and> _\<close> by blast
    moreover have "jp_decoded_memory ps3 = jp_decoded_memory ps2" using 1(5) by (simp add: moves_def kept_def)
    ultimately show ?case
      using 1(2,3) \<open>moves (grown cx) ps [] ps1 \<and> _\<close> assms(2,3)
      by (intro exI [of _ t]) (simp add: walked_def rows_of_def next_of_def)
  qed
qed

lemma ok_ParseRootArray:
  assumes "at_root cx ps" and "jd_response_source (dx_plan cx) = ROOT_ARRAY"
  shows "ok (\<lambda>x ps1. \<exists>t. walked cx (fst x) (snd x) t ps1 \<and> next_of (dx_plan cx) t = Some (jp_next_url ps1)) (ParseRootArray cx ps)"
  unfolding ParseRootArray_def
proof (rule ok_then [OF ok_AllocateResult], goal_cases)
  case (1 capacity ps1)
  then have inside: "inside cx ps1" using at_root_inside [OF assms(1)] moves_inside by blast
  show ?case
  proof (rule ok_then, rule ok_ParseRecords [OF inside, of "[]"], simp, elim exE conjE, rule ok_then [OF ok_document_ends], elim exE conjE, rule ok_parses, goal_cases)
    case (1 rows ps2 ts u ps3 w)
    have read: "value_read (grown cx) ps1 (JArray ts) ps2" "took_rows cx ts [] (jp_decoded_memory ps1) rows (jp_decoded_memory ps2)"
      using 1(1) by (auto simp: reads_records_def)
    have "document (dx_input cx) (JArray ts) \<and> mem_inv cx ps3 \<and> jp_next_url ps3 = []"
      using root_document [OF assms(1) _ read(1) 1(2,3,4)] \<open>moves (grown cx) ps [] ps1 \<and> _\<close> by blast
    moreover have "jp_decoded_memory ps3 = jp_decoded_memory ps2" using 1(3) by (simp add: moves_def kept_def)
    ultimately show ?case
      using read(2) \<open>moves (grown cx) ps [] ps1 \<and> _\<close> assms(2)
      by (intro exI [of _ "JArray ts"]) (auto simp: walked_def rows_of_def next_of_def took_rows_def)
  qed
qed


lemma at_path_object: "at_path path t = Some (JArray ts) \<Longrightarrow> path \<noteq> [] \<Longrightarrow> \<exists>ms. t = JObject ms"
  by (cases path; cases t) auto

text \<open>The second walk starts at the same root, so it reads the same tree.\<close>

lemma ok_second_walk:
  assumes doc: "document (dx_input cx) (JObject ms)" and "jd_page_continuation_path (dx_plan cx) \<noteq> []" and "jp_next_url ps = []"
    and "fst (jp_position ps) = dx_input cx"
  shows "ok (\<lambda>_ ps1. owned cx ps ps1 \<and>
    next_at (dx_plan cx) (jd_page_continuation_path (dx_plan cx)) (JObject ms) = Some (jp_next_url ps1)) (ExtractContinuation cx ps)"
proof -
  obtain w v w' where d: "ws w" "denotes v (JObject ms)" "dx_input cx = w @ v @ w'" using doc by (auto simp: document_def)
  obtain u where "v = CHR ''{'' # u" using denotes_opens [OF d(2)] by auto
  then have root: "fst (jp_position ps) = w @ ''{'' @ u @ w'" using d(3) assms(4) by simp
  have "inside cx ps" using assms(4) by (simp add: inside_def)
  from ok_ExtractContinuation [OF this assms(2,3) d(1) root] show ?thesis
  proof (rule ok_mono, elim exE conjE)
    fix ps1 ms1
    assume r: "value_read (owned cx) ps (JObject ms1) ps1"
      "next_at (dx_plan cx) (jd_page_continuation_path (dx_plan cx)) (JObject ms1) = Some (jp_next_url ps1)"
    obtain x y where xy: "ws x" "denotes y (JObject ms1)" "moves (owned cx) ps (x @ y) ps1" using r(1) by (auto simp: value_read_def)
    have "JObject ms1 = JObject ms"
      by (rule object_prefix [OF d(2) xy(2) d(1) xy(1), of w' "fst (jp_position ps1)"]) (use d(3) assms(4) xy(3) in \<open>simp add: moves_def\<close>)
    then show "owned cx ps ps1 \<and> next_at (dx_plan cx) (jd_page_continuation_path (dx_plan cx)) (JObject ms) = Some (jp_next_url ps1)"
      using r(2) xy(3) by (simp add: moves_def)
  qed
qed

lemma ok_ParseRecordArrayResponse:
  assumes "at_root cx ps" and source: "jd_response_source (dx_plan cx) = JSON_PATH_MANY" "jd_records_path (dx_plan cx) \<noteq> []"
  shows "ok (\<lambda>x ps1. \<exists>t. walked cx (fst x) (snd x) t ps1 \<and> next_of (dx_plan cx) t = Some (jp_next_url ps1)) (ParseRecordArrayResponse cx ps)"
  unfolding ParseRecordArrayResponse_def
proof (rule ok_then [OF ok_AllocateResult], goal_cases)
  case (1 capacity ps1)
  note alloc = this
  then have inside: "inside cx ps1" using at_root_inside [OF assms(1)] moves_inside by blast
  show ?case
  proof (rule ok_then, rule ok_ParseRecordArrayObject [OF inside source(2)], elim exE conjE, rule ok_then [OF ok_document_ends], elim exE conjE, goal_cases)
    case (1 rows ps2 t ts u ps3 w)
    have read: "value_read (grown cx) ps1 t ps2" "took_rows cx ts [] (jp_decoded_memory ps1) rows (jp_decoded_memory ps2)"
      using 1(1) by (auto simp: reads_records_def)
    have doc: "document (dx_input cx) t" "mem_inv cx ps3" "jp_next_url ps3 = []"
      using root_document [OF assms(1) _ read(1) 1(3,4,5)] alloc by blast+
    moreover have "jp_decoded_memory ps3 = jp_decoded_memory ps2" using 1(4) by (simp add: moves_def kept_def)
    ultimately have walked: "walked cx capacity rows t ps3"
      using read(2) alloc source 1(2) by (auto simp: walked_def rows_of_def took_rows_def)
    have after: "walked cx capacity rows t ps4" if "owned cx ps3 ps4" for ps4 using walked that by (simp add: walked_def owned_def)
    obtain ms where t: "t = JObject ms" using at_path_object [OF 1(2) source(2)] by blast
    have reset: "owned cx ps3 (ps3\<lparr>jp_position := p\<rparr>)" for p by (simp add: owned_def mem_inv_def total_def)
    show ?case
    proof (rule ok_then [where P = "\<lambda>_ ps4. owned cx ps3 ps4 \<and> next_of (dx_plan cx) t = Some (jp_next_url ps4)"],
        intro ok_if ok_then [where P = "\<lambda>_ ps4. ps4 = ps3\<lparr>jp_position := json_Reset (dx_input cx) (jp_position ps3)\<rparr>"] ok_lexes, goal_cases)
      case (3 x ps4)
      then show ?case
        using ok_second_walk [of cx ms ps4] doc t source
        by (auto simp: next_of_def json_Reset_def owned_def mem_inv_def total_def elim!: ok_mono)
    next
      case (5 x ps4)
      then show ?case using after by (intro ok_parses exI [of _ t]) simp
    qed (use doc(3) source in \<open>auto simp: next_of_def parses_def owned_def\<close>)
  qed
qed

lemma ok_ParseResponse:
  assumes "ValidatePlan (dx_plan cx)"
  shows "ok (\<lambda>x ps1. \<exists>t. walked cx (fst x) (snd x) t ps1 \<and> next_of (dx_plan cx) t = Some (jp_next_url ps1))
    (ParseResponse cx (new_parser cx checks))"
proof -
  let ?ps = "new_parser cx checks"
  have start: "inside cx ?ps" "mem_inv cx ?ps" "jp_next_url ?ps = []"
    by (simp_all add: new_parser_def inside_def mem_inv_def total_def)
  show ?thesis
    unfolding ParseResponse_def Let_def
  proof (rule ok_then, rule ok_ValidateDocument [OF start(1)], rule ok_then [OF ok_SkipWhitespace], elim exE conjE,
      rule ok_then [OF ok_Peek], clarify, goal_cases)
    case (1 u ps1 u' ps2 w)
    then have root: "at_root cx ps2" using start by (auto simp: at_root_def moves_def kept_def grown_def)
    show ?case
      using assms root
      by (intro ok_if ok_fails ok_ParseRootObject ok_ParseRootArray ok_ParseRecordArrayResponse)
        (auto simp: ValidatePlan_def split: JsonResponseSource.splits)
  qed
qed


lemma double_of_finite: "double_of t = Some d \<Longrightarrow> isfinite d"
  using strtod_finite canonical_double(3)
  by (auto simp: double_of_def normal_zero_def split: json.splits if_splits)

lemma column_of_built:
  assumes "column_of plan c t = Some v" and "IsValidOutputType (jc_type c)"
  shows "built_value (jc_type c) v"
proof -
  have element: "built_element ty e" if "element_of plan ty u = Some e" for ty u e
    using that double_of_finite
    by (cases "ot_element_kind ty") (auto simp: element_of_def built_element_def built_scalar_def split: if_splits)
  have elements: "list_all (built_element ty) es" if "those (map (element_of plan ty) us) = Some es" for ty us es
    using that by (induction us arbitrary: es) (auto simp: those_Cons element simp del: those.simps(2))
  show ?thesis
  proof (cases "t = JNull")
    case True
    then show ?thesis using assms(1) by (auto simp: column_of_def built_value_def Let_def split: if_splits)
  next
    case False
    then show ?thesis
      using assms elements
      by (cases "ot_shape (jc_type c)"; cases "ot_element_kind (jc_type c)")
        (auto simp: column_of_def built_value_def Let_def split: json.splits dest!: double_of_finite)
  qed
qed

lemma those_list_all2: "those (map f xs) = Some ys \<Longrightarrow> list_all2 (\<lambda>x y. f x = Some y) xs ys"
  by (induction xs arbitrary: ys) (auto simp: those_Cons simp del: those.simps(2))

lemma record_of_built:
  assumes "record_of plan t = Some vs" and "list_all (IsValidOutputType \<circ> jc_type) (jd_columns plan)"
  shows "list_all2 built_value (map jc_type (jd_columns plan)) vs"
proof -
  have "list_all2 (\<lambda>c v. Option.bind (at_path (jc_json_path c) t) (column_of plan c) = Some v) (jd_columns plan) vs"
    using assms(1) unfolding record_of_def by (rule those_list_all2)
  then show ?thesis
    using assms(2) by (induction rule: list_all2_induct) (auto simp: bind_eq_Some_conv intro: column_of_built)
qed

subsection \<open>The whole decoder\<close>

text \<open>What the page of a walk reports.\<close>

definition reports :: "json_context \<Rightarrow> DecodedJsonPage \<Rightarrow> json \<Rightarrow> bool" where
  "reports cx page t \<longleftrightarrow> document (dx_input cx) t \<and>
     rows_of (dx_plan cx) t = Some (map values_of (dp_rows page)) \<and> next_of (dx_plan cx) t = Some (dp_next_url page) \<and>
     length (dp_rows page) \<le> unat (jd_max_records (dx_plan cx)) \<and>
     unat (dp_retained_memory_bytes page) = unat (dp_rows_capacity page) * unat (js_sizeof_TypedRow (dx_storage cx)) +
       sum_list (map (row_bytes cx) (dp_rows page)) \<and>
     unat (dp_retained_memory_bytes page) + unat (dp_continuation_memory_bytes page) \<le> unat (dp_peak_memory_bytes page) \<and>
     unat (dp_peak_memory_bytes page) \<le> limit cx"

lemma ok_ReconcileTaken:
  "mem_inv cx ps \<Longrightarrow> ok (\<lambda>_ ps1. mem_inv cx ps1 \<and> jp_decoded_memory ps1 = jp_decoded_memory ps) (ReconcileTakenContinuationMemory cx taken ps)"
  unfolding ReconcileTakenContinuationMemory_def
  by (intro ok_if' ok_fails ok_mono [OF ok_Observe]) (auto simp: mem_inv_def total_def)

lemma ok_take_page:
  assumes "walked cx (fst x) (snd x) t ps" and "next_of (dx_plan cx) t = Some (jp_next_url ps)"
  shows "ok (\<lambda>page _. reports cx page t) (take_page cx x ps)"
  unfolding take_page_def Let_def case_prod_beta
  by (rule ok_then [OF ok_ReconcileTaken]) (use assms in \<open>auto simp: walked_def reports_def mem_inv_def total_def\<close>)

lemma ok_well: "ok (\<lambda>x _. P x) r \<Longrightarrow> well P (map_sum id fst r)"
  by (cases r) auto

lemma decoder_well: "well (\<lambda>page. ValidatePlan (dx_plan cx) \<and> (\<exists>t. reports cx page t)) (DecodeJsonPage cx)"
proof (cases "ValidatePlan (dx_plan cx)")
  case True
  have "ok (\<lambda>page _. \<exists>t. reports cx page t) (parser_bind (ParseResponse cx) (take_page cx) (new_parser cx checks))" for checks
    by (rule ok_then, rule ok_ParseResponse [OF True]) (auto intro: ok_mono [OF ok_take_page])
  then have "well (\<lambda>page. \<exists>t. reports cx page t)
      (map_sum id fst (parser_bind (ParseResponse cx) (take_page cx) (new_parser cx checks)))" for checks
    by (rule ok_well)
  then show ?thesis
    unfolding DecodeJsonPage_def using True
    by (auto intro!: well_then [OF well_lexical [of _ "\<lambda>_. True"]] well_mono simp: json_Check_def)
qed (simp add: DecodeJsonPage_def)


lemma decoded_reports:
  assumes "DecodeJsonPage cx = Inr page"
  shows "ValidatePlan (dx_plan cx) \<and> (\<exists>t. reports cx page t)"
  using decoder_well [of cx] assms by simp

lemma valid_types: "ValidatePlan plan \<Longrightarrow> list_all (IsValidOutputType \<circ> jc_type) (jd_columns plan)"
  by (auto simp: ValidatePlan_def valid_column_def Let_def list_all_length)

lemma records_built:
  assumes "records_of plan ts = Some rows" and "list_all (IsValidOutputType \<circ> jc_type) (jd_columns plan)"
  shows "list_all (list_all2 built_value (map jc_type (jd_columns plan))) rows"
proof -
  have "list_all2 (\<lambda>t r. record_of plan t = Some r) ts rows" using assms(1) unfolding records_of_def by (rule those_list_all2)
  then show ?thesis using record_of_built [OF _ assms(2)] by (induction rule: list_all2_induct) auto
qed

lemma rows_built:
  assumes "rows_of plan t = Some rows" and "list_all (IsValidOutputType \<circ> jc_type) (jd_columns plan)"
  shows "list_all (list_all2 built_value (map jc_type (jd_columns plan))) rows"
  using assms records_built [OF _ assms(2)] record_of_built [OF _ assms(2)]
  by (auto simp: rows_of_def split: JsonResponseSource.splits json.splits option.splits)

subsection \<open>A decoded page\<close>

definition sample_json_storage :: json_storage where
  "sample_json_storage = \<lparr>js_sizeof_TypedRow = 3, js_sizeof_TypedValue = 5, js_sizeof_TypedScalarValue = 4, js_sizeof_ParsedSlot = 7,
     js_string_initial = 1, js_string_reserve = (\<lambda>_ n. Some n), js_string_moved = id, js_string_swapped = id, js_string_taken = id,
     js_rows_reserve = Some, js_slots_resize = Some, js_values_reserve = Some, js_elements_reserve = (\<lambda>_ n. Some n)\<rparr>"

definition sample_plan :: JsonDecodePlan where
  "sample_plan = \<lparr>jd_response_source = JSON_PATH_MANY, jd_records_path = [''d''],
     jd_columns = [\<lparr>jc_output_name = ''x'', jc_type = OutputValueType_Scalar Kind_BIGINT, jc_nullable = False, jc_json_path = [''a'']\<rparr>],
     jd_page_continuation_path = [''n''], jd_max_records = 2, jd_max_string_bytes = 9, jd_max_json_nesting = 4,
     jd_max_decoded_memory_bytes = 99\<rparr>"

definition sample_context :: json_context where
  "sample_context = \<lparr>dx_input = ''{'' @ [CHR 0x22] @ ''d'' @ [CHR 0x22] @ '':[{'' @ [CHR 0x22] @ ''a'' @ [CHR 0x22] @ '':7}],'' @
       [CHR 0x22] @ ''n'' @ [CHR 0x22] @ '':'' @ [CHR 0x22] @ ''u'' @ [CHR 0x22] @ ''}'',
     dx_plan = sample_plan, dx_control = quiet, dx_storage = sample_json_storage\<rparr>"

definition sample_page :: DecodedJsonPage where
  "sample_page = \<lparr>dp_rows = [\<lparr>rw_values = [scalar_stored (Value_BigInt 7) 0], rw_capacity = 1\<rparr>], dp_rows_capacity = 2,
     dp_next_url = ''u'', dp_retained_memory_bytes = 11, dp_continuation_memory_bytes = 1, dp_peak_memory_bytes = 18\<rparr>"


lemma sample_decodes: "DecodeJsonPage sample_context = Inr sample_page"
  by code_simp

lemma sample_simps: "dx_plan sample_context = sample_plan" "map values_of (dp_rows sample_page) = [[Value_BigInt 7]]"
  "dp_next_url sample_page = ''u''" "dp_rows_capacity sample_page = 2" "dp_retained_memory_bytes sample_page = 11"
  "dp_continuation_memory_bytes sample_page = 1" "dp_peak_memory_bytes sample_page = 18" "jd_max_decoded_memory_bytes sample_plan = 99"
  "length (dp_rows sample_page) = 1" "jd_max_records sample_plan = 2"
  by (simp_all add: sample_context_def sample_page_def sample_plan_def)

text \<open>
  C2. A decoded page is what its document says. The input is white space around a text that denotes a tree, and only
  one tree; the rows of the page are the declared records of that tree (the root object, the elements of the root array,
  or the elements of the array at the records path) in their order, each with one value per column, namely the typed
  value at the column's path, where every object on a path has exactly one member of the wanted name; and the
  continuation is the string at the continuation path, or empty where the path leads to null or nowhere.
\<close>

theorem decoded_page_reads_document:
  assumes "DecodeJsonPage cx = Inr page"
  shows "(\<exists>!t. document (dx_input cx) t) \<and>
    (\<exists>t. document (dx_input cx) t \<and> rows_of (dx_plan cx) t = Some (map values_of (dp_rows page)) \<and>
       next_of (dx_plan cx) t = Some (dp_next_url page))"
proof -
  obtain t where t: "reports cx page t" using decoded_reports [OF assms] by blast
  then have "\<exists>!t. document (dx_input cx) t" using document_unique by (auto simp: reports_def)
  then show ?thesis using t by (auto simp: reports_def)
qed

theorem decoded_page_reads_document_witness:
  "(\<exists>!t. document (dx_input sample_context) t) \<and>
   (\<exists>t. document (dx_input sample_context) t \<and> rows_of sample_plan t = Some [[Value_BigInt 7]] \<and> next_of sample_plan t = Some ''u'')"
  using decoded_page_reads_document [OF sample_decodes] unfolding sample_simps .

text \<open>
  C4. The memory of a decoded page is accounted for exactly. The bytes reported as retained are the capacity of the row
  vector, of the value vector of every row and of every string and array the rows keep, each times the size of its
  elements; together with the continuation they are within the reported peak, and that within the memory budget. No page
  has more rows than the record budget.
\<close>

theorem decoded_memory_exact:
  assumes "DecodeJsonPage cx = Inr page"
  shows "unat (dp_retained_memory_bytes page) = unat (dp_rows_capacity page) * unat (js_sizeof_TypedRow (dx_storage cx)) +
      sum_list (map (row_bytes cx) (dp_rows page)) \<and>
    unat (dp_retained_memory_bytes page) + unat (dp_continuation_memory_bytes page) \<le> unat (dp_peak_memory_bytes page) \<and>
    unat (dp_peak_memory_bytes page) \<le> unat (jd_max_decoded_memory_bytes (dx_plan cx)) \<and>
    length (dp_rows page) \<le> unat (jd_max_records (dx_plan cx))"
  using decoded_reports [OF assms] by (auto simp: reports_def)

theorem decoded_memory_exact_witness:
  "unat (11 :: u64) = unat (2 :: u64) * unat (js_sizeof_TypedRow (dx_storage sample_context)) +
     sum_list (map (row_bytes sample_context) (dp_rows sample_page)) \<and> unat (11 :: u64) + unat (1 :: u64) \<le> unat (18 :: u64) \<and>
   unat (18 :: u64) \<le> unat (99 :: u64) \<and> 1 \<le> unat (2 :: u64)"
  using decoded_memory_exact [OF sample_decodes] unfolding sample_simps .

text \<open>
  C39. Decoded rows have the declared schema: the batch of the columns' types and the decoded rows passes the alignment
  check, so every row has one value per column, of the column's kind and shape, nulls only where a null of that type
  stands, doubles finite and without a negative zero.
\<close>

theorem decoded_rows_aligned:
  assumes "DecodeJsonRows cx = Inr rows"
  shows "IsSchemaAligned \<lparr>tb_column_types = map jc_type (jd_columns (dx_plan cx)), tb_rows = map values_of rows\<rparr>"
proof -
  obtain page where page: "DecodeJsonPage cx = Inr page" "rows = dp_rows page"
    using assms by (cases "DecodeJsonPage cx") (auto simp: DecodeJsonRows_def)
  then obtain t where "ValidatePlan (dx_plan cx)" "rows_of (dx_plan cx) t = Some (map values_of rows)"
    using decoded_reports [OF page(1)] by (auto simp: reports_def)
  then have "list_all (list_all2 built_value (map jc_type (jd_columns (dx_plan cx)))) (map values_of rows)"
    "list_all (IsValidOutputType \<circ> jc_type) (jd_columns (dx_plan cx))"
    using rows_built valid_types by blast+
  moreover have "well_formed_type ty" if "IsValidOutputType ty" for ty
    using that by (auto simp: IsValidOutputType_def well_formed_type_def)
  ultimately show ?thesis
    by (auto simp: IsSchemaAligned_def aligned_batch_def fst_then_aligned types_aligned rows_aligned list_all_iff)
qed

theorem decoded_rows_aligned_witness:
  "IsSchemaAligned \<lparr>tb_column_types = map jc_type (jd_columns (dx_plan sample_context)), tb_rows = map values_of (dp_rows sample_page)\<rparr>"
  by (rule decoded_rows_aligned) (simp add: DecodeJsonRows_def sample_decodes)

text \<open>
  C40. Decoding always ends: the fuel of every loop is the length of the input and one more, and no input, plan, control
  or storage exhausts it. The decoder returns a page, or one of the exceptions of the program.
\<close>

theorem decoding_terminates: "DecodeJsonPage cx \<noteq> Inl Decode_OutOfFuel"
  using decoder_well [of cx] by auto

end
