(* ===== verification/Spec2Isabelle.thy ===== *)
theory Spec2Isabelle
  imports Scan_Resources Operation_Selection Rate_Limit_Coordinator Http_Chunk_Decoder Admission_Accounting
    Link_Pagination Graphql_Cursor Http_Date_Forms Rate_Limit_Guidance Generation_Registry Json_Strings
    Uri_Conformance Network_Policy Request_Grammar Typed_Values Http_Retry_Safety Json_Pages
begin

text \<open>
  Verification development for \<open>duckdb_api\<close>, a DuckDB extension that turns declarative HTTP and
  GraphQL connector packages into typed table functions (C++, under \<open>src/src\<close>).

  \<^bold>\<open>The program.\<close> The query adapter (\<open>query/\<close>) turns a DuckDB scan into a protocol-neutral
  request. The relational planner (\<open>semantics/\<close>) combines it with the compiled connector
  (\<open>connector/\<close>): it classifies the filter into what the remote service may answer and what DuckDB has to
  keep, resolves the relation's inputs, and selects an operation. The runtime (\<open>runtime/\<close>)
  executes the plan: it asks an admission controller and a rate-limit coordinator for permits, debits every
  byte, page, attempt and wait from the budgets of the scan, reads the response through its own
  decoders, and follows pagination signals of the server only where the plan's profile allows it.
  All of this treats the server as an adversary and the budgets as hard limits; the theorems are about these two
  promises and about the planner's promise not to change the answer of a query.

  \<^bold>\<open>Theories, sources and state.\<close>
  \<^item> \<open>Prelude\<close>: widths of machine integers (\<open>u64\<close> is the source's \<open>uint64_t\<close>), bytes, sums as results with
    errors on the left, and the interfaces of stateful components as locales: transition systems with an
    invariant and with a monotone measure. \<open>Keyed_Table\<close>: the interface of the keyed tables that
    the coordinator and the controller keep.
  \<^item> \<open>Scan_Resources\<close> (\<open>runtime/policy/scan_resource_accounting.cpp\<close>): the limits, counters and the state
    machine of one scan, every method a function from a state to an outcome and a state.
  \<^item> \<open>Relational_Predicate\<close> (\<open>semantics/relational_predicate.cpp\<close>), \<open>Compiled_Model\<close> (the data of
    \<open>connector/\<close> and \<open>query/scan_request\<close> that planning reads), \<open>Predicate_Classifier\<close>
    (\<open>semantics/predicate_classifier.cpp\<close>), \<open>Input_Resolution\<close> (\<open>semantics/input_resolution.cpp\<close>),
    \<open>Operation_Selector\<close> (\<open>connector/operation_selector.cpp\<close>) and \<open>Operation_Selection\<close>
    (\<open>semantics/operation_selection.cpp\<close>): the planner's decisions.
  \<^item> \<open>Rate_Limit_Coordinator\<close> (\<open>runtime/execution/rate_limit_coordinator.cpp\<close>): one step per critical section
    of the monitor, streams interleaved arbitrarily.
  \<^item> \<open>Admission_Controller\<close> and \<open>Admission_Accounting\<close> (\<open>runtime/execution/admission_controller.cpp\<close>):
    the controller's code and the proof of its accounting, again as interleaved critical sections.
  \<^item> \<open>Http_Chunk_Decoder\<close> (\<open>runtime/transport/http_chunk_decoder.cpp\<close>): the decoder of chunked bodies.
  \<^item> \<open>Uri_Reference\<close>, \<open>Link_Header\<close>, \<open>Link_Pagination\<close> and \<open>Graphql_Cursor\<close> (the four files of
    \<open>runtime/pagination\<close>): the validator of URI references, the parser of \<open>Link\<close> fields that uses
    it, the page state that uses the parser, and the cursor state of GraphQL scans. \<open>Uri_Grammar\<close> writes down the
    productions of RFC 3986 on their own, without the code, and \<open>Uri_Conformance\<close> proves that the validator
    accepts exactly their strings, the authority with its IPv6 and IPv4 literals included.
  \<^item> \<open>Http_Date\<close>, \<open>Http_Date_Forms\<close> and \<open>Rate_Limit_Guidance\<close>
    (\<open>runtime/execution/rate_limit_guidance.cpp\<close>): calendar arithmetic, the three date forms of HTTP, and
    the reading of guidance observations as one delay. \<open>Gregorian_Calendar\<close> is the calendar they are measured against:
    leap years, lengths of months, days counted one by one and weekdays, without the code's formulas.
  \<^item> \<open>Strict_Json\<close> (\<open>runtime/decoding/strict_json_reader.cpp\<close>): the reader of JSON text under a control
    object and a clock, with \<open>Json_Grammar\<close>, \<open>Json_Document\<close> and \<open>Json_Strings\<close> about its tokens,
    its documents and the strings it decodes.
  \<^item> \<open>Json_Decoder\<close> (\<open>runtime/decoding/json_decoder.cpp\<close>): the decoder of REST pages as a parser with memory
    counters, from the document to typed rows and the continuation. \<open>Json_Trees\<close> defines the tree a document denotes
    and shows that it is the only one, \<open>Json_Rows\<close> is a program logic for the parser with the lemmas about values and
    members, \<open>Json_Doubles\<close> is about the conversion of numbers, and \<open>Json_Pages\<close> is about records, pages and memory.
  \<^item> \<open>Package_Semver\<close> (\<open>connector/package_semver.cpp\<close>), \<open>Package_Descriptor\<close> (the compiled
    connector model and the comparisons of \<open>connector/package_compatibility.cpp\<close>), \<open>Descriptor_Equality\<close> (what
    these comparisons compare), \<open>Package_Compatibility\<close> (the classification of reloads and
    \<open>connector/compiled_package_generation.cpp\<close>) and \<open>Generation_Registry\<close>
    (\<open>runtime/generation\<close>): how packages are loaded and replaced at run time, the registry as
    interleaved critical sections.
  \<^item> \<open>Network_Policy\<close> (\<open>runtime/policy/network_policy.cpp\<close>), \<open>Request_Validation\<close> and \<open>Request_Grammar\<close>
    (\<open>runtime/policy/request_validation.cpp\<close>): the addresses a socket may reach, and the checks of hosts, paths,
    query values, names and fixed headers with the grammars they accept.
  \<^item> \<open>Execution_Error\<close> and \<open>Typed_Values\<close> (\<open>runtime/api/execution_error.cpp\<close>): error values with their
    classification, and the values and batches handed to the query layer.
  \<^item> \<open>Resilience_Policy\<close> (\<open>retry_policy_admission.hpp\<close>, \<open>rate_limit_policy_admission.hpp\<close> and the policies of
    \<open>semantics/scan_plan.cpp\<close>), \<open>Retry_Decision\<close>, \<open>Http_Retry_Controller\<close> and \<open>Http_Retry_Safety\<close>
    (\<open>http_retry_controller.hpp\<close>, \<open>http_transport.hpp\<close>): the admitted policies, the decisions of the retry loop,
    the loop itself as a state-and-exception program over the accounting, the permits it holds and an environment that
    answers every call (transport, clocks, cancellation, admission controller and coordinator), and a program logic in
    which its properties are derived.

  \<^bold>\<open>What is shown.\<close> Budgets are never exceeded, counters never reset, and what is granted is honoured
  (\<open>Scan_Resources\<close>). Planned predicates keep the answer of the query over every remote service that
  behaves as its mapping declares, and a restriction without such a guarantee keeps DuckDB's filter
  (\<open>Predicate_Classifier\<close>). Operation selection follows its ranking rule and ignores the order of declaration.
  At most one permit per rate-limit key, FIFO grants and no lost waiters; admission within every
  limit, maximal granting, exact draining and bounded queues, over every interleaving. The chunk decoder accepts
  only the RFC 9112 grammar, within its limits, and inverts the canonical encoding; the URI
  validator accepts exactly the RFC 3986 grammar; parsing inverts the rendering of \<open>Link\<close> fields; a
  scan follows a continuation exactly when it names the next page of the admitted profile, its pages
  form an arithmetic progression that never wraps, and cursors never repeat. The calendar formulas agree with
  counting days and invert each other, every date form is read back as the instant the calendar gives it, the
  two-digit years of RFC 850 for dates within fifty years of the clock, and guidance yields
  the latest delay asked for, exact to the millisecond and within the policy. The JSON reader accepts exactly
  RFC 8259 over well-formed UTF-8 up to its nesting limit, its three string readers agree, and what they
  materialize is the UTF-8 text the token denotes. A decoded page has the values at the declared paths of the declared
  records of the one tree its document denotes, in the declared types, and its reported memory is exact and within the
  budget. A package is reloaded exactly when its version and
  its descriptor allow it; publications are serialized and an active connector only evolves until the registry closes. A socket is opened to public addresses only; hosts,
  paths, query values and fixed headers are accepted exactly by their grammars. Whatever the environment does, one step
  of a scan sends at most three requests, each with a request permit and reserved buffers, and waits without them; it
  releases every permit on an exception, returns only acceptable responses with exactly their storage reserved, and
  ends once time passes. Its retry, rate-limit and combined policies never exceed plan, operator profile or hard bounds, and its delays stay within their interval.

  \<^bold>\<open>Where code and documents differ.\<close> The accounting records the cumulative remote transport time and
  never compares it with its ceiling, so the budget theorem is about the ceilings that are debited
  (\<open>remote_transport_time_is_only_recorded\<close>). A next link may carry query fields beside the ones the profile names:
  RFC 0017 of the repository says that they are ignored, older comments say that they are refused
  (\<open>other_query_fields_are_ignored\<close>). The comparison of reloads skips the name of an API-key placement and the
  path of a next-URL pagination, although the documents call every such change incompatible; the reload theorem names
  these two fields, and \<open>placement_name_ignored\<close> and \<open>next_url_path_ignored\<close> show the effect.

  \<^bold>\<open>Bounds.\<close> Most loops are total functions with a measure on the bytes left. The recursion over JSON
  values carries fuel, one step per byte and one more, and it is shown that this is always enough and that
  more changes nothing; the loops of the row decoder carry the same fuel, and no input exhausts it. The retry loop carries fuel for its rounds, of which four are enough because every round debits
  one of at most three attempts, and for the polls of a sleep, which end when the steady clock passes the deadline of
  the scan. 64-bit quantities are words, and every theorem that reads one as a number shows that it did not wrap.

  \<^bold>\<open>Not modelled.\<close> Allocation failure (other than where a handler turns it into a state
  change), the texts of diagnostics, hash functions and condition-variable notification: they carry no decision of the
  program. In particular the catch-all handlers around a decoded page and exceptions of the transport other than the
  five the retry loop names are left out. Conversion of numbers takes \<open>strtod\<close> in the C locale with correct
  rounding, and the capacity of a string after it was moved into its row is one parameter for all moves. libcurl and DuckDB calls, credential storage and the file system: input and output over code that is not
  part of the repository. The YAML front end of packages and the compiler behind it, the decoder of GraphQL envelopes,
  the assembly of plans and requests, and the stream objects that call the modelled components page by page: code
  whose inputs and outputs are modelled, but not yet its text.
\<close>

end
